(* ===== verification/Rfc_Prelude.thy ===== *)
theory Rfc_Prelude
  imports Main "HOL-Library.Word"
begin

unbundle bit_operations_syntax

text \<open>
  Shared vocabulary of the development: Go's byte slices and fixed-width integers, the error
  result a Go function returns beside its value, the state-and-error monad that a
  Go cursor object (a reader, a writer) threads through a decoder, slicing and copying of
  byte slices, and the big- and little-endian integer layouts of \<open>encoding/binary\<close>.
  A Go \<open>int\<close> is modelled by \<open>int\<close> (or \<open>nat\<close> where it is the length of a slice):
  on the 64-bit platforms the program runs on no length arithmetic of the modelled code can
  reach \<open>2 ^ 63\<close>. A fixed-width Go integer is a word of its width.
\<close>

section \<open>Types\<close>

type_synonym byte = "8 word"
type_synonym bytes = "byte list"
type_synonym u16 = "16 word"
type_synonym u32 = "32 word"

text \<open>A Go \<open>int32\<close> has the bits of a \<open>uint32\<close>; it is read with \<open>sint\<close>.\<close>

type_synonym i32 = "32 word"

text \<open>A Go string is a byte sequence; \<open>gostr\<close> turns an ASCII literal into one.\<close>

type_synonym gostring = bytes

definition gostr :: "string \<Rightarrow> gostring" where
  "gostr s = map of_char s"

section \<open>Results and the cursor monad\<close>

text \<open>
  \<open>(T, error)\<close> of Go: \<open>Inl e\<close> when the error is not nil (Go callers ignore the value
  then), \<open>Inr v\<close> otherwise.
\<close>

fun bindE :: "'e + 'a \<Rightarrow> ('a \<Rightarrow> 'e + 'b) \<Rightarrow> 'e + 'b" where
  "bindE (Inl e) f = Inl e"
| "bindE (Inr a) f = f a"

fun map_err :: "('e \<Rightarrow> 'f) \<Rightarrow> 'e + 'a \<Rightarrow> 'f + 'a" where
  "map_err g (Inl e) = Inl (g e)"
| "map_err g (Inr a) = Inr a"

text \<open>\<open>if cond { return err }\<close>: the guard passes when the condition is false.\<close>

definition fail_if :: "bool \<Rightarrow> 'e \<Rightarrow> 'e + unit" where
  "fail_if c e = (if c then Inl e else Inr ())"

definition se_return :: "'a \<Rightarrow> 's \<Rightarrow> 'e + 'a \<times> 's" where
  "se_return a s = Inr (a, s)"

definition se_bind :: "('s \<Rightarrow> 'e + 'a \<times> 's) \<Rightarrow> ('a \<Rightarrow> 's \<Rightarrow> 'e + 'b \<times> 's) \<Rightarrow> 's \<Rightarrow> 'e + 'b \<times> 's" where
  "se_bind m f s = (case m s of Inl e \<Rightarrow> Inl e | Inr (a, s') \<Rightarrow> f a s')"

definition se_lift :: "'e + 'a \<Rightarrow> 's \<Rightarrow> 'e + 'a \<times> 's" where
  "se_lift r s = (case r of Inl e \<Rightarrow> Inl e | Inr a \<Rightarrow> Inr (a, s))"

text \<open>The error of a lower package as the error of the caller's package.\<close>

definition se_err :: "('e \<Rightarrow> 'f) \<Rightarrow> ('s \<Rightarrow> 'e + 'a \<times> 's) \<Rightarrow> 's \<Rightarrow> 'f + 'a \<times> 's" where
  "se_err g m s = map_err g (m s)"

text \<open>Operations on an object that keeps what was changed before an error: the state comes back beside the result.\<close>

definition sm_return :: "'a \<Rightarrow> 's \<Rightarrow> ('e + 'a) \<times> 's" where
  "sm_return a s = (Inr a, s)"

definition sm_lift :: "'e + 'a \<Rightarrow> 's \<Rightarrow> ('e + 'a) \<times> 's" where
  "sm_lift r s = (r, s)"

definition sm_bind :: "('s \<Rightarrow> ('e + 'a) \<times> 's) \<Rightarrow> ('a \<Rightarrow> 's \<Rightarrow> ('e + 'b) \<times> 's) \<Rightarrow> 's \<Rightarrow> ('e + 'b) \<times> 's" where
  "sm_bind m f s = (case m s of (Inl e, s') \<Rightarrow> (Inl e, s') | (Inr a, s') \<Rightarrow> f a s')"

section \<open>Byte slices\<close>

text \<open>\<open>s[lo:hi]\<close>, for bounds the caller has checked.\<close>

definition gslice :: "nat \<Rightarrow> nat \<Rightarrow> 'a list \<Rightarrow> 'a list" where
  "gslice lo hi xs = take (hi - lo) (drop lo xs)"

text \<open>\<open>copy(dst[off:], src)\<close>: as many elements as both sides have.\<close>

definition copy_at :: "nat \<Rightarrow> 'a list \<Rightarrow> 'a list \<Rightarrow> 'a list" where
  "copy_at off src dst =
     (let n = min (length src) (length dst - off)
      in take off dst @ take n src @ drop (off + n) dst)"

text \<open>\<open>regexp\<close> class \<open>[\x20-\x7e]\<close>.\<close>

definition printable_byte :: "byte \<Rightarrow> bool" where
  "printable_byte b \<longleftrightarrow> 0x20 \<le> b \<and> b \<le> 0x7e"

definition printable :: "gostring \<Rightarrow> bool" where
  "printable s \<longleftrightarrow> list_all printable_byte s"

section \<open>Integer layouts of encoding/binary\<close>

definition put16be :: "u16 \<Rightarrow> bytes" where
  "put16be v = [ucast (drop_bit 8 v), ucast v]"

definition put32be :: "u32 \<Rightarrow> bytes" where
  "put32be v = [ucast (drop_bit 24 v), ucast (drop_bit 16 v), ucast (drop_bit 8 v), ucast v]"

definition put16le :: "u16 \<Rightarrow> bytes" where
  "put16le v = [ucast v, ucast (drop_bit 8 v)]"

definition put32le :: "u32 \<Rightarrow> bytes" where
  "put32le v = [ucast v, ucast (drop_bit 8 v), ucast (drop_bit 16 v), ucast (drop_bit 24 v)]"

text \<open>
  The readers take at least as many bytes as the width; the code checks that before it calls
  them, and the catch-all equations are never reached from a checked call.
\<close>

fun get16be :: "bytes \<Rightarrow> u16" where
  "get16be (a # b # _) = push_bit 8 (ucast a) OR ucast b"
| "get16be _ = 0"

fun get32be :: "bytes \<Rightarrow> u32" where
  "get32be (a # b # c # d # _) =
     push_bit 24 (ucast a) OR push_bit 16 (ucast b) OR push_bit 8 (ucast c) OR ucast d"
| "get32be _ = 0"

fun get16le :: "bytes \<Rightarrow> u16" where
  "get16le (a # b # _) = ucast a OR push_bit 8 (ucast b)"
| "get16le _ = 0"

fun get32le :: "bytes \<Rightarrow> u32" where
  "get32le (a # b # c # d # _) =
     ucast a OR push_bit 8 (ucast b) OR push_bit 16 (ucast c) OR push_bit 24 (ucast d)"
| "get32le _ = 0"

section \<open>Transition systems\<close>

text \<open>The states a system reaches from its initial states by labelled steps.\<close>

inductive reach :: "('s \<Rightarrow> bool) \<Rightarrow> ('s \<Rightarrow> 'e \<Rightarrow> 's \<Rightarrow> bool) \<Rightarrow> 's \<Rightarrow> bool"
  for init :: "'s \<Rightarrow> bool" and step :: "'s \<Rightarrow> 'e \<Rightarrow> 's \<Rightarrow> bool"
where
  reach_init: "init s \<Longrightarrow> reach init step s"
| reach_step: "reach init step s \<Longrightarrow> step s e t \<Longrightarrow> reach init step t"

text \<open>An inductive invariant holds in every reachable state.\<close>

locale invariant_system =
  fixes init :: "'s \<Rightarrow> bool"
    and step :: "'s \<Rightarrow> 'e \<Rightarrow> 's \<Rightarrow> bool"
    and inv :: "'s \<Rightarrow> bool"
  assumes init_inv: "init s \<Longrightarrow> inv s"
    and step_inv: "inv s \<Longrightarrow> step s e t \<Longrightarrow> inv t"
begin

lemma reach_inv: "reach init step s \<Longrightarrow> inv s"
  by (induction rule: reach.induct) (auto intro: init_inv step_inv)

end

section \<open>Lemma collections\<close>

named_theorems codec_simps "reader and writer steps over a canonical cursor"
named_theorems geom_simps "lengths and slices of encoded records"

section \<open>Literals\<close>

lemma char_of_byte [simp]: "char_of (unat (of_char c :: byte)) = c"
proof -
  have "unat (of_char c :: byte) = take_bit 8 (of_char c :: nat)"
    by (simp only: of_nat_of_char [symmetric, where ?'a = byte]) (simp add: unsigned_of_nat)
  then show ?thesis by (simp add: char_of_take_bit_eq)
qed

lemma gostr_inj: "gostr s = gostr t \<longleftrightarrow> s = t"
  unfolding gostr_def by (rule inj_map_eq_map) (metis char_of_byte injI)

section \<open>Results and the cursor monad: lemmas\<close>

lemma bindE_Inr_iff: "bindE m f = Inr b \<longleftrightarrow> (\<exists>a. m = Inr a \<and> f a = Inr b)"
  by (cases m) auto

lemma bindE_Inl_iff: "bindE m f = Inl e \<longleftrightarrow> m = Inl e \<or> (\<exists>a. m = Inr a \<and> f a = Inl e)"
  by (cases m) auto

lemma bindE_assoc: "bindE (bindE m f) g = bindE m (\<lambda>x. bindE (f x) g)"
  by (cases m) auto

lemma map_err_Inr_iff [simp]: "map_err g m = Inr a \<longleftrightarrow> m = Inr a"
  by (cases m) auto

lemma fail_if_Inr_iff [simp]: "fail_if c e = Inr u \<longleftrightarrow> \<not> c"
  by (simp add: fail_if_def)

lemma fail_if_Inl_iff [simp]: "fail_if c e = Inl e' \<longleftrightarrow> c \<and> e' = e"
  by (auto simp: fail_if_def)

lemma bindE_fail_if: "bindE (fail_if c e) f = (if c then Inl e else f ())"
  by (simp add: fail_if_def)

lemma se_bind_Inr [codec_simps]: "m s = Inr (a, s') \<Longrightarrow> se_bind m f s = f a s'"
  by (simp add: se_bind_def)

lemma se_bind_Inl [codec_simps]: "m s = Inl e \<Longrightarrow> se_bind m f s = Inl e"
  by (simp add: se_bind_def)

lemma se_bind_Inr_iff:
  "se_bind m f s = Inr (b, t) \<longleftrightarrow> (\<exists>a s'. m s = Inr (a, s') \<and> f a s' = Inr (b, t))"
  by (auto simp: se_bind_def split: sum.splits)

lemma se_lift_Inr [codec_simps]: "se_lift (Inr a) s = Inr (a, s)"
  by (simp add: se_lift_def)

lemma se_lift_Inl [codec_simps]: "se_lift (Inl e) s = Inl e"
  by (simp add: se_lift_def)

lemma se_lift_Inr_iff: "se_lift r s = Inr (a, t) \<longleftrightarrow> r = Inr a \<and> t = s"
  by (auto simp: se_lift_def split: sum.splits)

lemma se_err_Inr [codec_simps]: "m s = Inr x \<Longrightarrow> se_err g m s = Inr x"
  by (simp add: se_err_def)

lemma se_err_Inr_iff: "se_err g m s = Inr x \<longleftrightarrow> m s = Inr x"
  by (simp add: se_err_def)

lemmas se_Inr_iffs = se_bind_Inr_iff se_lift_Inr_iff se_err_Inr_iff bindE_Inr_iff

named_theorems sm_simps "steps of operations that keep their state on an error"

lemma sm_bind_Inr [sm_simps]: "m s = (Inr a, s') \<Longrightarrow> sm_bind m f s = f a s'"
  by (simp add: sm_bind_def)

lemma sm_bind_Inl [sm_simps]: "m s = (Inl e, s') \<Longrightarrow> sm_bind m f s = (Inl e, s')"
  by (simp add: sm_bind_def)

lemma sm_lift_Inr [sm_simps]: "sm_lift (Inr a) s = (Inr a, s)"
  by (simp add: sm_lift_def)

lemma sm_return_eq [sm_simps]: "sm_return a s = (Inr a, s)"
  by (simp add: sm_return_def)

lemma sm_bind_Inr_iff:
  "sm_bind m f s = (Inr b, t) \<longleftrightarrow> (\<exists>a s'. m s = (Inr a, s') \<and> f a s' = (Inr b, t))"
  by (auto simp: sm_bind_def split: prod.splits sum.splits)

lemma sm_lift_Inr_iff: "sm_lift r s = (Inr a, t) \<longleftrightarrow> r = Inr a \<and> t = s"
  by (auto simp: sm_lift_def)

lemma sm_return_iff: "sm_return a s = (Inr b, t) \<longleftrightarrow> b = a \<and> t = s"
  by (auto simp: sm_return_def)

lemmas sm_Inr_iffs = sm_bind_Inr_iff sm_lift_Inr_iff sm_return_iff

section \<open>Byte slices: lemmas\<close>

lemma length_gslice [simp]: "length (gslice lo hi xs) = min (hi - lo) (length xs - lo)"
  by (simp add: gslice_def)

lemma gslice_all [simp]: "length xs \<le> hi \<Longrightarrow> gslice 0 hi xs = xs"
  by (simp add: gslice_def)

lemma gslice_append_left: "hi \<le> length xs \<Longrightarrow> gslice lo hi (xs @ ys) = gslice lo hi xs"
  by (simp add: gslice_def)

lemma gslice_prefix: "length xs = n \<Longrightarrow> gslice 0 n (xs @ ys) = xs"
  by (simp add: gslice_def)

lemma gslice_suffix: "length xs = lo \<Longrightarrow> hi = lo + length ys \<Longrightarrow> gslice lo hi (xs @ ys @ zs) = ys"
  by (simp add: gslice_def)

lemma take_gslice: "lo \<le> hi \<Longrightarrow> take lo xs @ gslice lo hi xs = take hi xs"
  by (metis gslice_def add_diff_inverse_nat linorder_not_less take_add)

lemma length_copy_at [simp]: "length (copy_at off src dst) = max (length dst) (min off (length dst))"
  by (simp add: copy_at_def Let_def)

lemma copy_at_fit:
  "length src \<le> k \<Longrightarrow> copy_at (length pre) src (pre @ replicate k x) = pre @ src @ replicate (k - length src) x"
  by (simp add: copy_at_def Let_def min_absorb1)

lemma length_gostr [simp]: "length (gostr s) = length s"
  by (simp add: gostr_def)

lemma printable_append [simp]: "printable (xs @ ys) \<longleftrightarrow> printable xs \<and> printable ys"
  by (simp add: printable_def)

lemma printable_take: "printable xs \<Longrightarrow> printable (take n xs)"
  by (auto simp: printable_def list_all_iff dest: in_set_takeD)

lemma list_all_replicate [simp]: "list_all P (replicate n x) \<longleftrightarrow> n = 0 \<or> P x"
  by (auto simp: list_all_iff)

section \<open>Integer layouts: lemmas\<close>

lemma length_put [simp]:
  "length (put16be v) = 2" "length (put32be w) = 4" "length (put16le v) = 2" "length (put32le w) = 4"
  by (simp_all add: put16be_def put32be_def put16le_def put32le_def)

lemma get16be_put16be [simp]: "get16be (put16be v @ r) = v"
  by (auto simp: put16be_def bit_simps intro!: bit_word_eqI)

lemma get16le_put16le [simp]: "get16le (put16le v @ r) = v"
  by (auto simp: put16le_def bit_simps intro!: bit_word_eqI)

lemma not_bit_byte_ge [simp]: "8 \<le> n \<Longrightarrow> \<not> bit (b :: byte) n"
  using bit_imp_le_length [of b n] by auto

lemma split32: "push_bit 24 (ucast (ucast (drop_bit 24 v) :: byte)) OR
    push_bit 16 (ucast (ucast (drop_bit 16 v) :: byte)) OR
    push_bit 8 (ucast (ucast (drop_bit 8 v) :: byte)) OR ucast (ucast v :: byte) = (v :: u32)"
    (is "?l = _")
proof (rule bit_word_eqI)
  fix n assume "n < LENGTH(32)"
  then consider "n < 8" | "8 \<le> n" "n < 16" | "16 \<le> n" "n < 24" | "24 \<le> n" "n < 32" by fastforce
  then show "bit ?l n = bit v n"
    by cases (auto simp: bit_simps)
qed

lemma get32be_put32be [simp]: "get32be (put32be v @ r) = v"
  by (simp add: put32be_def split32)

lemma get32le_put32le [simp]: "get32le (put32le v @ r) = v"
  using split32 [of v] by (simp add: put32le_def or.commute or.left_commute)

lemma get_put_exact [simp]:
  "get16be (put16be v) = v" "get32be (put32be w) = w" "get16le (put16le v) = v" "get32le (put32le w) = w"
  using get16be_put16be [of v "[]"] get32be_put32be [of w "[]"]
    get16le_put16le [of v "[]"] get32le_put32le [of w "[]"] by simp_all

lemma put16be_get16be_pair: "put16be (get16be [a, b]) = [a, b]"
  by (auto simp: put16be_def bit_simps intro!: bit_word_eqI)

lemma put32be_get32be_quad: "put32be (get32be [a, b, c, d]) = [a, b, c, d]"
  by (auto simp: put32be_def bit_simps intro!: bit_word_eqI)

lemma put32le_get32le_quad: "put32le (get32le [a, b, c, d]) = [a, b, c, d]"
  by (auto simp: put32le_def bit_simps intro!: bit_word_eqI)

lemma length_2_conv: "length b = 2 \<longleftrightarrow> (\<exists>x y. b = [x, y])"
  by (auto simp: numeral_2_eq_2 length_Suc_conv)

lemma length_4_conv: "length b = 4 \<longleftrightarrow> (\<exists>w x y z. b = [w, x, y, z])"
  by (auto simp: numeral_eq_Suc length_Suc_conv)

lemma put16be_get16be: "length b = 2 \<Longrightarrow> put16be (get16be b) = b"
  using put16be_get16be_pair by (auto simp: length_2_conv simp del: get16be.simps)

lemma put32be_get32be: "length b = 4 \<Longrightarrow> put32be (get32be b) = b"
  using put32be_get32be_quad by (auto simp: length_4_conv simp del: get32be.simps)

lemma put32le_get32le: "length b = 4 \<Longrightarrow> put32le (get32le b) = b"
  using put32le_get32le_quad by (auto simp: length_4_conv simp del: get32le.simps)

end
