(* ===== verification/Wire.thy ===== *)
theory Wire
  imports Rfc_Prelude
begin

text \<open>
  Package \<open>wire\<close> (\<open>wire/wire.go\<close>, and the identical \<open>internal/wire/wire.go\<close>): the
  bounds-checked record reader and the fixed-size record writer every binary codec above the
  NI layer is written with. The reader and writer are records with the fields of the Go
  structs; an operation takes the cursor last and returns its value with the advanced cursor,
  or the error, in which case the Go cursor is unchanged because every operation runs
  \<open>ensure\<close> before it touches the cursor. Errors keep the sentinel and the numbers of
  the message (context, field, bytes needed, offset, bytes remaining).
\<close>

section \<open>Data\<close>

datatype wire_error =
    ErrShortRead string string int int int
  | ErrTrailingBytes string int
  | ErrNegativeLength string string int

record reader =
  rd_data :: bytes
  rd_context :: string
  rd_offset :: nat

record writer =
  wr_data :: bytes
  wr_context :: string
  wr_offset :: nat

type_synonym 'a rd = "reader \<Rightarrow> wire_error + 'a \<times> reader"
type_synonym 'a wr = "writer \<Rightarrow> wire_error + 'a \<times> writer"

definition record_context :: "string \<Rightarrow> string" where
  "record_context context = (if context = '''' then ''byte record'' else context)"

section \<open>Reader\<close>

definition NewReader :: "bytes \<Rightarrow> string \<Rightarrow> reader" where
  "NewReader data context =
     \<lparr>rd_data = data, rd_context = record_context context, rd_offset = 0\<rparr>"

definition Reader_Len :: "reader \<Rightarrow> nat" where
  "Reader_Len r = length (rd_data r)"

definition Reader_Offset :: "reader \<Rightarrow> nat" where
  "Reader_Offset r = rd_offset r"

definition Reader_Remaining :: "reader \<Rightarrow> int" where
  "Reader_Remaining r = int (length (rd_data r)) - int (rd_offset r)"

definition Reader_ensure :: "int \<Rightarrow> string \<Rightarrow> reader \<Rightarrow> wire_error + unit" where
  "Reader_ensure len field r =
     (if len < 0 then Inl (ErrNegativeLength (rd_context r) field len)
      else if len > Reader_Remaining r then
        Inl (ErrShortRead (rd_context r) field len (int (rd_offset r)) (Reader_Remaining r))
      else Inr ())"

definition ReadUint8 :: "string \<Rightarrow> byte rd" where
  "ReadUint8 field r =
     bindE (Reader_ensure 1 field r) (\<lambda>_.
       Inr (rd_data r ! rd_offset r, r\<lparr>rd_offset := rd_offset r + 1\<rparr>))"

definition ReadUint16BE :: "string \<Rightarrow> u16 rd" where
  "ReadUint16BE field r =
     bindE (Reader_ensure 2 field r) (\<lambda>_.
       Inr (get16be (drop (rd_offset r) (rd_data r)), r\<lparr>rd_offset := rd_offset r + 2\<rparr>))"

definition ReadUint32BE :: "string \<Rightarrow> u32 rd" where
  "ReadUint32BE field r =
     bindE (Reader_ensure 4 field r) (\<lambda>_.
       Inr (get32be (drop (rd_offset r) (rd_data r)), r\<lparr>rd_offset := rd_offset r + 4\<rparr>))"

definition ReadUint32LE :: "string \<Rightarrow> u32 rd" where
  "ReadUint32LE field r =
     bindE (Reader_ensure 4 field r) (\<lambda>_.
       Inr (get32le (drop (rd_offset r) (rd_data r)), r\<lparr>rd_offset := rd_offset r + 4\<rparr>))"

text \<open>The signed reads convert the unsigned value: the same 32 bits.\<close>

definition ReadInt32BE :: "string \<Rightarrow> i32 rd" where
  "ReadInt32BE field = ReadUint32BE field"

definition ReadInt32LE :: "string \<Rightarrow> i32 rd" where
  "ReadInt32LE field = ReadUint32LE field"

definition ReadBytes :: "int \<Rightarrow> string \<Rightarrow> bytes rd" where
  "ReadBytes len field r =
     bindE (Reader_ensure len field r) (\<lambda>_.
       Inr (gslice (rd_offset r) (rd_offset r + nat len) (rd_data r),
            r\<lparr>rd_offset := rd_offset r + nat len\<rparr>))"

definition Skip :: "int \<Rightarrow> string \<Rightarrow> unit rd" where
  "Skip len field r =
     bindE (Reader_ensure len field r) (\<lambda>_.
       Inr ((), r\<lparr>rd_offset := rd_offset r + nat len\<rparr>))"

definition Reader_Finish :: "unit rd" where
  "Reader_Finish r =
     (if Reader_Remaining r \<noteq> 0 then Inl (ErrTrailingBytes (rd_context r) (Reader_Remaining r))
      else Inr ((), r))"

section \<open>Writer\<close>

definition NewWriter :: "int \<Rightarrow> string \<Rightarrow> wire_error + writer" where
  "NewWriter len context =
     (if len < 0 then Inl (ErrNegativeLength (record_context context) '''' len)
      else Inr \<lparr>wr_data = replicate (nat len) 0, wr_context = record_context context, wr_offset = 0\<rparr>)"

definition Writer_Len :: "writer \<Rightarrow> nat" where
  "Writer_Len w = length (wr_data w)"

definition Writer_Offset :: "writer \<Rightarrow> nat" where
  "Writer_Offset w = wr_offset w"

definition Writer_Remaining :: "writer \<Rightarrow> int" where
  "Writer_Remaining w = int (length (wr_data w)) - int (wr_offset w)"

definition Writer_ensure :: "int \<Rightarrow> string \<Rightarrow> writer \<Rightarrow> wire_error + unit" where
  "Writer_ensure len field w =
     (if len < 0 then Inl (ErrNegativeLength (wr_context w) field len)
      else if len > Writer_Remaining w then
        Inl (ErrShortRead (wr_context w) field len (int (wr_offset w)) (Writer_Remaining w))
      else Inr ())"

definition WriteUint8 :: "byte \<Rightarrow> string \<Rightarrow> unit wr" where
  "WriteUint8 v field w =
     bindE (Writer_ensure 1 field w) (\<lambda>_.
       Inr ((), w\<lparr>wr_data := (wr_data w)[wr_offset w := v], wr_offset := wr_offset w + 1\<rparr>))"

definition WriteUint16BE :: "u16 \<Rightarrow> string \<Rightarrow> unit wr" where
  "WriteUint16BE v field w =
     bindE (Writer_ensure 2 field w) (\<lambda>_.
       Inr ((), w\<lparr>wr_data := copy_at (wr_offset w) (put16be v) (wr_data w),
                  wr_offset := wr_offset w + 2\<rparr>))"

definition WriteUint32BE :: "u32 \<Rightarrow> string \<Rightarrow> unit wr" where
  "WriteUint32BE v field w =
     bindE (Writer_ensure 4 field w) (\<lambda>_.
       Inr ((), w\<lparr>wr_data := copy_at (wr_offset w) (put32be v) (wr_data w),
                  wr_offset := wr_offset w + 4\<rparr>))"

definition WriteInt32BE :: "i32 \<Rightarrow> string \<Rightarrow> unit wr" where
  "WriteInt32BE v field = WriteUint32BE v field"

definition WriteBytes :: "bytes \<Rightarrow> string \<Rightarrow> unit wr" where
  "WriteBytes v field w =
     bindE (Writer_ensure (int (length v)) field w) (\<lambda>_.
       Inr ((), w\<lparr>wr_data := copy_at (wr_offset w) v (wr_data w),
                  wr_offset := wr_offset w + length v\<rparr>))"

definition Writer_Finish :: "writer \<Rightarrow> wire_error + bytes" where
  "Writer_Finish w =
     (if Writer_Remaining w \<noteq> 0 then Inl (ErrTrailingBytes (wr_context w) (Writer_Remaining w))
      else Inr (wr_data w))"

section \<open>Invariants and canonical cursors\<close>

text \<open>The cursor never passes the end of its record.\<close>

definition reader_ok :: "reader \<Rightarrow> bool" where
  "reader_ok r \<longleftrightarrow> rd_offset r \<le> length (rd_data r)"

definition writer_ok :: "writer \<Rightarrow> bool" where
  "writer_ok w \<longleftrightarrow> wr_offset w \<le> length (wr_data w)"

text \<open>
  \<open>rdr c pre rest\<close> is the reader that has consumed \<open>pre\<close> and has \<open>rest\<close> ahead;
  \<open>wtr c out k\<close> is the writer that has written \<open>out\<close> with \<open>k\<close> zeroed bytes ahead.
\<close>

definition rdr :: "string \<Rightarrow> bytes \<Rightarrow> bytes \<Rightarrow> reader" where
  "rdr c pre rest = \<lparr>rd_data = pre @ rest, rd_context = c, rd_offset = length pre\<rparr>"

definition wtr :: "string \<Rightarrow> bytes \<Rightarrow> nat \<Rightarrow> writer" where
  "wtr c out k = \<lparr>wr_data = out @ replicate k 0, wr_context = c, wr_offset = length out\<rparr>"

section \<open>Cursor steps\<close>

lemma NewReader_rdr [codec_simps]: "NewReader data c = rdr (record_context c) [] data"
  by (simp add: NewReader_def rdr_def)

lemma NewWriter_wtr [codec_simps]:
  "0 \<le> n \<Longrightarrow> NewWriter n c = Inr (wtr (record_context c) [] (nat n))"
  by (simp add: NewWriter_def wtr_def)

lemma rdr_ok [simp]: "reader_ok (rdr c pre rest)"
  by (simp add: reader_ok_def rdr_def)

lemma wtr_ok [simp]: "writer_ok (wtr c out k)"
  by (simp add: writer_ok_def wtr_def)

lemma reader_ok_rdr: "reader_ok r \<Longrightarrow>
    r = rdr (rd_context r) (take (rd_offset r) (rd_data r)) (drop (rd_offset r) (rd_data r))"
  by (simp add: reader_ok_def rdr_def)

lemma Reader_ensure_rdr:
  "Reader_ensure n f (rdr c pre rest) =
     (if n < 0 then Inl (ErrNegativeLength c f n)
      else if int (length rest) < n
        then Inl (ErrShortRead c f n (int (length pre)) (int (length rest)))
      else Inr ())"
  by (simp add: Reader_ensure_def Reader_Remaining_def rdr_def)

lemma Writer_ensure_wtr:
  "Writer_ensure n f (wtr c out k) =
     (if n < 0 then Inl (ErrNegativeLength c f n)
      else if int k < n then Inl (ErrShortRead c f n (int (length out)) (int k))
      else Inr ())"
  by (simp add: Writer_ensure_def Writer_Remaining_def wtr_def)

text \<open>
  What the five integer reads share: they take a fixed number of bytes and convert them.
  The laws hold of each read by its definition; the step and the failure follow once.
\<close>

locale wire_field =
  fixes width :: nat
    and get :: "bytes \<Rightarrow> 'v"
    and put :: "'v \<Rightarrow> bytes"
    and read :: "string \<Rightarrow> 'v rd"
  assumes put_length: "length (put v) = width"
    and get_put: "get (put v @ rest) = v"
    and put_get: "length b = width \<Longrightarrow> put (get b) = b"
    and read_unfold: "reader_ok r \<Longrightarrow> read f r =
          bindE (Reader_ensure (int width) f r) (\<lambda>_.
            Inr (get (drop (rd_offset r) (rd_data r)), r\<lparr>rd_offset := rd_offset r + width\<rparr>))"
begin

lemma read_step: "read f (rdr c pre (put v @ rest)) = Inr (v, rdr c (pre @ put v) rest)"
  using put_length [of v]
  by (simp add: read_unfold Reader_ensure_rdr) (simp add: rdr_def get_put)

lemma read_short:
  "length rest < width \<Longrightarrow> read f (rdr c pre rest) =
     Inl (ErrShortRead c f (int width) (int (length pre)) (int (length rest)))"
  by (simp add: read_unfold Reader_ensure_rdr)

lemma get_take: "width \<le> length b \<Longrightarrow> get b = get (take width b)"
  by (metis append_take_drop_id get_put length_take min_absorb2 put_get)

lemma read_inv:
  assumes "read f (rdr c pre rest) = Inr (v, r')"
  shows "\<exists>rest'. rest = put v @ rest' \<and> r' = rdr c (pre @ put v) rest'"
proof -
  have len: "width \<le> length rest"
    using assms read_short [of rest f c pre] by (cases "length rest < width") auto
  define w where "w = take width rest"
  have w: "length w = width" "rest = w @ drop width rest"
    using len by (simp_all add: w_def)
  have "read f (rdr c pre (put (get w) @ drop width rest)) =
      Inr (get w, rdr c (pre @ put (get w)) (drop width rest))"
    by (rule read_step)
  then show ?thesis
    using assms w put_get [of w] by (metis Inr_inject prod.inject)
qed

lemma read_total: "width \<le> length rest \<Longrightarrow>
    read f (rdr c pre rest) = Inr (get (take width rest), rdr c (pre @ take width rest) (drop width rest))"
  using read_step [of f c pre "get (take width rest)" "drop width rest"] put_get [of "take width rest"]
  by simp

end

text \<open>A field that can be written too: the write appends the layout the read consumes.\<close>

locale wire_rw_field = wire_field width get put read
  for width :: nat and get :: "bytes \<Rightarrow> 'v" and put :: "'v \<Rightarrow> bytes"
    and read :: "string \<Rightarrow> 'v rd" +
  fixes emit :: "'v \<Rightarrow> string \<Rightarrow> unit wr"
  assumes write_unfold: "writer_ok w \<Longrightarrow> emit v f w =
          bindE (Writer_ensure (int width) f w) (\<lambda>_.
            Inr ((), w\<lparr>wr_data := copy_at (wr_offset w) (put v) (wr_data w),
                       wr_offset := wr_offset w + width\<rparr>))"
begin

lemma write_step:
  "width \<le> k \<Longrightarrow> emit v f (wtr c out k) = Inr ((), wtr c (out @ put v) (k - width))"
  using put_length [of v]
  by (simp add: write_unfold Writer_ensure_wtr) (simp add: wtr_def copy_at_fit)

lemma write_full:
  "k < width \<Longrightarrow> emit v f (wtr c out k) =
     Inl (ErrShortRead c f (int width) (int (length out)) (int k))"
  by (simp add: write_unfold Writer_ensure_wtr)

end

lemma copy_at_byte: "off < length d \<Longrightarrow> copy_at off [v] d = d[off := v]"
  by (simp add: copy_at_def Let_def upd_conv_take_nth_drop Suc_le_eq min_absorb1)

interpretation u8: wire_rw_field 1 "\<lambda>b. b ! 0" "\<lambda>v. [v]" ReadUint8 WriteUint8
  by unfold_locales
    (auto simp: ReadUint8_def WriteUint8_def Reader_ensure_def Writer_ensure_def Reader_Remaining_def
      Writer_Remaining_def reader_ok_def writer_ok_def length_Suc_conv copy_at_byte)

interpretation u16be: wire_rw_field 2 get16be put16be ReadUint16BE WriteUint16BE
  by unfold_locales (simp_all add: put16be_get16be ReadUint16BE_def WriteUint16BE_def)

interpretation u32be: wire_rw_field 4 get32be put32be ReadUint32BE WriteUint32BE
  by unfold_locales (simp_all add: put32be_get32be ReadUint32BE_def WriteUint32BE_def)

interpretation i32be: wire_rw_field 4 get32be put32be ReadInt32BE WriteInt32BE
  by unfold_locales
    (simp_all add: put32be_get32be ReadInt32BE_def WriteInt32BE_def ReadUint32BE_def WriteUint32BE_def)

interpretation u32le: wire_field 4 get32le put32le ReadUint32LE
  by unfold_locales (simp_all add: put32le_get32le ReadUint32LE_def)

interpretation i32le: wire_field 4 get32le put32le ReadInt32LE
  by unfold_locales (simp_all add: put32le_get32le ReadInt32LE_def ReadUint32LE_def)

lemmas read_steps [codec_simps] =
  u8.read_step u16be.read_step u32be.read_step i32be.read_step u32le.read_step i32le.read_step

lemmas write_steps [codec_simps] =
  u8.write_step u16be.write_step u32be.write_step i32be.write_step

lemmas read_totals = u8.read_total u16be.read_total u32be.read_total i32be.read_total

lemma ReadUint8_Cons [codec_simps]:
  "ReadUint8 f (rdr c pre (v # rest)) = Inr (v, rdr c (pre @ [v]) rest)"
  using u8.read_step [of f c pre v rest] by simp

lemma ReadBytes_rdr:
  "ReadBytes n f (rdr c pre rest) =
     (if n < 0 then Inl (ErrNegativeLength c f n)
      else if int (length rest) < n
        then Inl (ErrShortRead c f n (int (length pre)) (int (length rest)))
      else Inr (take (nat n) rest, rdr c (pre @ take (nat n) rest) (drop (nat n) rest)))"
proof (cases "0 \<le> n \<and> n \<le> int (length rest)")
  case True
  then show ?thesis
    unfolding ReadBytes_def Reader_ensure_rdr by (simp add: gslice_def rdr_def min_absorb2 nat_le_iff)
next
  case False
  then show ?thesis by (auto simp: ReadBytes_def Reader_ensure_rdr)
qed

lemma ReadBytes_step [codec_simps]:
  "n = int (length b) \<Longrightarrow>
     ReadBytes n f (rdr c pre (b @ rest)) = Inr (b, rdr c (pre @ b) rest)"
  by (simp add: ReadBytes_rdr)

lemma ReadBytes_exact:
  "n = int (length b) \<Longrightarrow> ReadBytes n f (rdr c pre b) = Inr (b, rdr c (pre @ b) [])"
  using ReadBytes_step [of n b f c pre "[]"] by simp

lemma Skip_rdr:
  "Skip n f (rdr c pre rest) =
     (if n < 0 then Inl (ErrNegativeLength c f n)
      else if int (length rest) < n
        then Inl (ErrShortRead c f n (int (length pre)) (int (length rest)))
      else Inr ((), rdr c (pre @ take (nat n) rest) (drop (nat n) rest)))"
proof (cases "0 \<le> n \<and> n \<le> int (length rest)")
  case True
  then show ?thesis
    unfolding Skip_def Reader_ensure_rdr by (simp add: rdr_def min_absorb2 nat_le_iff)
next
  case False
  then show ?thesis by (auto simp: Skip_def Reader_ensure_rdr)
qed

lemma WriteBytes_step [codec_simps]:
  "length b \<le> k \<Longrightarrow> WriteBytes b f (wtr c out k) = Inr ((), wtr c (out @ b) (k - length b))"
  unfolding WriteBytes_def Writer_ensure_wtr by (simp add: wtr_def copy_at_fit)

lemma Reader_Finish_rdr [codec_simps]:
  "Reader_Finish (rdr c pre rest) =
     (if rest = [] then Inr ((), rdr c pre []) else Inl (ErrTrailingBytes c (int (length rest))))"
  by (simp add: Reader_Finish_def Reader_Remaining_def rdr_def)

lemma Writer_Finish_wtr [codec_simps]:
  "Writer_Finish (wtr c out k) = (if k = 0 then Inr out else Inl (ErrTrailingBytes c (int k)))"
  by (simp add: Writer_Finish_def Writer_Remaining_def wtr_def)

section \<open>Records of typed fields\<close>

text \<open>
  A record as a codec sees it: a sequence of typed fields. \<open>write_fields\<close> and
  \<open>read_fields\<close> run one cursor call per field, the way every codec of the program does.
\<close>

datatype wire_value = VU8 byte | VU16 u16 | VU32 u32 | VI32 i32 | VBytes bytes

fun value_layout :: "wire_value \<Rightarrow> bytes" where
  "value_layout (VU8 v) = [v]"
| "value_layout (VU16 v) = put16be v"
| "value_layout (VU32 v) = put32be v"
| "value_layout (VI32 v) = put32be v"
| "value_layout (VBytes b) = b"

fun write_field :: "wire_value \<Rightarrow> unit wr" where
  "write_field (VU8 v) = WriteUint8 v ''field''"
| "write_field (VU16 v) = WriteUint16BE v ''field''"
| "write_field (VU32 v) = WriteUint32BE v ''field''"
| "write_field (VI32 v) = WriteInt32BE v ''field''"
| "write_field (VBytes b) = WriteBytes b ''field''"

text \<open>Reading a field of the same shape as a given one.\<close>

fun read_field :: "wire_value \<Rightarrow> wire_value rd" where
  "read_field (VU8 _) = se_bind (ReadUint8 ''field'') (\<lambda>v. se_return (VU8 v))"
| "read_field (VU16 _) = se_bind (ReadUint16BE ''field'') (\<lambda>v. se_return (VU16 v))"
| "read_field (VU32 _) = se_bind (ReadUint32BE ''field'') (\<lambda>v. se_return (VU32 v))"
| "read_field (VI32 _) = se_bind (ReadInt32BE ''field'') (\<lambda>v. se_return (VI32 v))"
| "read_field (VBytes b) =
     se_bind (ReadBytes (int (length b)) ''field'') (\<lambda>v. se_return (VBytes v))"

fun write_fields :: "wire_value list \<Rightarrow> unit wr" where
  "write_fields [] = se_return ()"
| "write_fields (v # vs) = se_bind (write_field v) (\<lambda>_. write_fields vs)"

fun read_fields :: "wire_value list \<Rightarrow> wire_value list rd" where
  "read_fields [] = se_bind Reader_Finish (\<lambda>_. se_return [])"
| "read_fields (v # vs) = se_bind (read_field v) (\<lambda>x. se_bind (read_fields vs) (\<lambda>xs. se_return (x # xs)))"

definition record_layout :: "wire_value list \<Rightarrow> bytes" where
  "record_layout vs = concat (map value_layout vs)"

lemma write_field_step:
  "length (value_layout v) \<le> k \<Longrightarrow>
     write_field v (wtr c out k) = Inr ((), wtr c (out @ value_layout v) (k - length (value_layout v)))"
  by (cases v) (simp_all add: codec_simps)

lemma read_field_step:
  "read_field v (rdr c pre (value_layout v @ rest)) = Inr (v, rdr c (pre @ value_layout v) rest)"
  by (cases v) (simp_all add: codec_simps se_return_def)

lemma write_fields_step:
  "write_fields vs (wtr c out (length (record_layout vs))) = Inr ((), wtr c (out @ record_layout vs) 0)"
  by (induction vs arbitrary: out)
    (simp_all add: record_layout_def se_return_def se_bind_def write_field_step)

lemma read_fields_step:
  "read_fields vs (rdr c pre (record_layout vs)) = Inr (vs, rdr c (pre @ record_layout vs) [])"
  by (induction vs arbitrary: pre)
    (simp_all add: record_layout_def se_return_def se_bind_def read_field_step Reader_Finish_rdr)

section \<open>Properties\<close>

text \<open>
  A record of any sequence of fields, written into a writer of the record's length and
  finished, is the big-endian layout of its fields, and reading the same sequence of field
  types from it returns the values written and ends exactly at the end of the record.
\<close>

theorem wire_record_roundtrip:
  "\<exists>w r. NewWriter (int (length (record_layout vs))) context = Inr w \<and>
     bindE (write_fields vs w) (\<lambda>(_, w'). Writer_Finish w') = Inr (record_layout vs) \<and>
     read_fields vs (NewReader (record_layout vs) context) = Inr (vs, r) \<and>
     Reader_Offset r = length (record_layout vs) \<and> Reader_Remaining r = 0"
  using write_fields_step [of vs "record_context context" "[]"]
    read_fields_step [of vs "record_context context" "[]"]
  by (simp add: codec_simps) (simp add: rdr_def Reader_Offset_def Reader_Remaining_def)

text \<open>
  A byte read never leaves the record and never partially succeeds: from a cursor inside the
  record it returns the requested slice and advances by exactly its length when that many
  bytes remain, it reports a negative length or a short read otherwise, and the advanced cursor is
  inside the record again.
\<close>

theorem read_bytes_bounds:
  assumes "reader_ok r"
  shows "ReadBytes n field r =
     (if n < 0 then Inl (ErrNegativeLength (rd_context r) field n)
      else if Reader_Remaining r < n
        then Inl (ErrShortRead (rd_context r) field n (int (rd_offset r)) (Reader_Remaining r))
      else Inr (take (nat n) (drop (rd_offset r) (rd_data r)), r\<lparr>rd_offset := rd_offset r + nat n\<rparr>)) \<and>
    (\<forall>b r'. ReadBytes n field r \<noteq> Inr (b, r') \<or>
       (int (length b) = n \<and> reader_ok r' \<and> Reader_Remaining r' = Reader_Remaining r - n))"
proof -
  have "0 \<le> n \<Longrightarrow> n \<le> Reader_Remaining r \<Longrightarrow> nat n \<le> length (rd_data r) - rd_offset r"
    by (simp add: Reader_Remaining_def)
  then show ?thesis
    using assms by (auto simp: ReadBytes_def Reader_ensure_def reader_ok_def Reader_Remaining_def gslice_def)
qed

theorem read_bytes_bounds_witness:
  "ReadBytes 2 ''id'' \<lparr>rd_data = [1, 2, 3, 4], rd_context = ''r'', rd_offset = 1\<rparr> =
     Inr ([2, 3], \<lparr>rd_data = [1, 2, 3, 4], rd_context = ''r'', rd_offset = 3\<rparr>)"
  using read_bytes_bounds [of "\<lparr>rd_data = [1, 2, 3, 4], rd_context = ''r'', rd_offset = 1\<rparr>" 2 "''id''"]
  by (simp add: reader_ok_def Reader_Remaining_def)

end
