(* ===== verification/Ni.thy ===== *)
theory Ni
  imports Wire
begin

text \<open>
  Package \<open>ni\<close> (\<open>ni/frame.go\<close>, and the identical \<open>internal/ni/frame.go\<close>): the
  length-prefixed records of SAP's Network Interface layer. \<open>EncodeFrame\<close> and every method
  of \<open>FrameDecoder\<close> are modelled with the decoder's chunk queue as the code keeps it
  (retained chunks, head index, head offset, byte count). \<open>deframe\<close> is the abstract
  specification: the frames of a byte stream seen as one list. The refinement shows that the
  queue implements it, that the accounting error the code calls unreachable is so, and that
  the frames do not depend on how the stream is cut into chunks.
\<close>

section \<open>Data\<close>

text \<open>
  The sentinels of the package, and \<open>NiPanic\<close> for the slice expression of \<open>consume\<close> and
  \<open>peekPayloadLength\<close> that would panic on a head offset past its chunk.
\<close>

datatype ni_error =
    ErrPayloadTooLong nat
  | ErrPayloadTooLarge nat int
  | ErrTruncatedStream nat
  | ErrNegativeLimit int
  | ErrInconsistentQueue
  | NiPanic

definition lengthBytes :: nat where
  "lengthBytes = 4"

definition DefaultMaxPayloadLength :: int where
  "DefaultMaxPayloadLength = 256 * 1024 * 1024"

record frame_decoder =
  maxPayloadLength :: int
  chunks :: "bytes list"
  headIndex :: nat
  headOffset :: nat
  buffered :: nat

section \<open>Encoding\<close>

definition EncodeFrame :: "bytes \<Rightarrow> ni_error + bytes" where
  "EncodeFrame payload =
     (if length payload > 4294967295 then Inl (ErrPayloadTooLong (length payload))
      else let frame = replicate (lengthBytes + length payload) 0;
               frame = copy_at 0 (put32be (of_nat (length payload))) frame;
               frame = copy_at lengthBytes payload frame
           in Inr frame)"

section \<open>The decoder\<close>

definition NewFrameDecoder :: "int \<Rightarrow> ni_error + frame_decoder" where
  "NewFrameDecoder maxPayload =
     (if maxPayload < 0 then Inl (ErrNegativeLimit maxPayload)
      else Inr \<lparr>maxPayloadLength = maxPayload, chunks = [], headIndex = 0, headOffset = 0,
                buffered = 0\<rparr>)"

definition Buffered :: "frame_decoder \<Rightarrow> nat" where
  "Buffered d = buffered d"

text \<open>\<open>wipe\<close> clears the chunks of an index range and drops them (a nil slice).\<close>

definition wipe :: "nat \<Rightarrow> nat \<Rightarrow> frame_decoder \<Rightarrow> frame_decoder" where
  "wipe lo hi d = d\<lparr>chunks := map (\<lambda>(i, c). if lo \<le> i \<and> i < hi then [] else c)
                                  (enumerate 0 (chunks d))\<rparr>"

definition compact :: "frame_decoder \<Rightarrow> frame_decoder" where
  "compact d =
     (if headIndex d = length (chunks d) then
        (wipe 0 (length (chunks d)) d)\<lparr>chunks := [], headIndex := 0\<rparr>
      else if headIndex d \<ge> 64 \<and> headIndex d * 2 \<ge> length (chunks d) then
        (let d' = wipe 0 (headIndex d) d
         in d'\<lparr>chunks := drop (headIndex d) (chunks d'), headIndex := 0\<rparr>)
      else d)"

text \<open>The two loops of \<open>peekPayloadLength\<close>: over the chunks, and over a chunk's bytes.\<close>

function peek_loop :: "bytes list \<Rightarrow> nat \<Rightarrow> nat \<Rightarrow> nat \<Rightarrow> u32 \<Rightarrow> ni_error + u32" where
  "peek_loop cs idx off remaining acc =
     (if remaining > 0 then
        (if idx \<ge> length cs then Inl ErrInconsistentQueue
         else let current = cs ! idx in
           if off > length current then Inl NiPanic
           else let n = min remaining (length current - off);
                    acc' = fold (\<lambda>b v. push_bit 8 v OR ucast b) (gslice off (off + n) current) acc
                in peek_loop cs (idx + 1) 0 (remaining - n) acc')
      else Inr acc)"
  by pat_completeness auto
termination
  by (relation "measure (\<lambda>(cs, idx, off, remaining, acc). length cs - idx)") auto

declare peek_loop.simps [simp del]

definition peekPayloadLength :: "frame_decoder \<Rightarrow> ni_error + u32" where
  "peekPayloadLength d = peek_loop (chunks d) (headIndex d) (headOffset d) lengthBytes 0"

text \<open>
  The loop of \<open>consume\<close>: \<open>out\<close> is what it has copied to the result. The cursor is the
  decoder's, so it is returned beside the error too.
\<close>

function consume_loop ::
    "bytes list \<Rightarrow> nat \<Rightarrow> nat \<Rightarrow> nat \<Rightarrow> bytes \<Rightarrow> (ni_error + bytes) \<times> nat \<times> nat" where
  "consume_loop cs idx off len out =
     (if length out < len then
        (if idx \<ge> length cs then (Inl ErrInconsistentQueue, idx, off)
         else let current = cs ! idx in
           if off > length current then (Inl NiPanic, idx, off)
           else let n = min (len - length out) (length current - off);
                    out' = out @ gslice off (off + n) current;
                    off' = off + n
                in if off' = length current then consume_loop cs (idx + 1) 0 len out'
                   else consume_loop cs idx off' len out')
      else (Inr out, idx, off))"
  by pat_completeness auto
termination
proof (relation "measures [\<lambda>(cs, idx, off, len, out). length cs - idx,
    \<lambda>(cs, idx, off, len, out). len - length out]", goal_cases)
  case 1
  then show ?case by simp
next
  case (2 cs idx off len out)
  then have "length cs - Suc idx < length cs - idx" by linarith
  then show ?case by simp
next
  case (3 cs idx off len out current n out' off')
  then have "off < length current" by (auto split: if_splits)
  with 3 show ?case by (auto simp: min_def)
qed

declare consume_loop.simps [simp del]

definition consume :: "nat \<Rightarrow> frame_decoder \<Rightarrow> (ni_error + bytes) \<times> frame_decoder" where
  "consume len d =
     (if len > buffered d then (Inl ErrInconsistentQueue, d)
      else case consume_loop (chunks d) (headIndex d) (headOffset d) len [] of
        (Inl e, idx, off) \<Rightarrow> (Inl e, d\<lparr>headIndex := idx, headOffset := off\<rparr>)
      | (Inr out, idx, off) \<Rightarrow>
          (Inr out, compact (d\<lparr>headIndex := idx, headOffset := off, buffered := buffered d - len\<rparr>)))"

text \<open>The frame loop of \<open>Push\<close>. Each round that continues consumes at least the prefix.\<close>

lemma wipe_more [simp]:
  "buffered (wipe lo hi d) = buffered d" "maxPayloadLength (wipe lo hi d) = maxPayloadLength d"
  "headIndex (wipe lo hi d) = headIndex d" "headOffset (wipe lo hi d) = headOffset d"
  by (simp_all add: wipe_def)

lemma compact_buffered [simp]: "buffered (compact d) = buffered d"
  by (simp add: compact_def Let_def)

lemma consume_buffered:
  "consume len d = (Inr out, d') \<Longrightarrow> len \<le> buffered d \<and> buffered d' = buffered d - len"
  by (auto simp: consume_def split: if_splits prod.splits sum.splits)

function push_loop :: "frame_decoder \<Rightarrow> bytes list \<Rightarrow> (ni_error + bytes list) \<times> frame_decoder" where
  "push_loop d payloads =
     (if buffered d \<ge> lengthBytes then
        (case peekPayloadLength d of
           Inl e \<Rightarrow> (Inl e, d)
         | Inr advertised \<Rightarrow>
             if int (unat advertised) > maxPayloadLength d then
               (Inl (ErrPayloadTooLarge (unat advertised) (maxPayloadLength d)), d)
             else if buffered d < lengthBytes + unat advertised then (Inr payloads, d)
             else (case consume lengthBytes d of
                 (Inl e, d1) \<Rightarrow> (Inl e, d1)
               | (Inr _, d1) \<Rightarrow>
                   (case consume (unat advertised) d1 of
                      (Inl e, d2) \<Rightarrow> (Inl e, d2)
                    | (Inr payload, d2) \<Rightarrow> push_loop d2 (payloads @ [payload]))))
      else (Inr payloads, d))"
  by pat_completeness auto
termination
proof (relation "measure (\<lambda>(d, payloads). buffered d)", goal_cases)
  case 1
  then show ?case by simp
next
  case (2 d payloads advertised u d1 v d2 w payload)
  then have "consume lengthBytes d = (Inr v, d1)" "consume (unat advertised) d1 = (Inr payload, w)"
    by simp_all
  then show ?case
    using consume_buffered [of lengthBytes d v d1] consume_buffered [of "unat advertised" d1 payload w]
    by (simp add: lengthBytes_def)
qed

declare push_loop.simps [simp del]

definition Push :: "bytes \<Rightarrow> frame_decoder \<Rightarrow> (ni_error + bytes list) \<times> frame_decoder" where
  "Push chunk d =
     (let d = (if length chunk > 0
               then d\<lparr>chunks := chunks d @ [chunk], buffered := buffered d + length chunk\<rparr> else d)
      in push_loop d [])"

definition Finish :: "frame_decoder \<Rightarrow> ni_error + unit" where
  "Finish d = (if buffered d \<noteq> 0 then Inl (ErrTruncatedStream (buffered d)) else Inr ())"

definition Reset :: "frame_decoder \<Rightarrow> frame_decoder" where
  "Reset d =
     (wipe 0 (length (chunks d)) d)\<lparr>chunks := [], headIndex := 0, headOffset := 0, buffered := 0\<rparr>"

section \<open>Abstract specification\<close>

text \<open>
  The frames of a byte stream as one list: the complete payloads in order, the bytes that
  remain, and the advertised length that stops the decoder when it is above the limit.
\<close>

function deframe :: "int \<Rightarrow> bytes \<Rightarrow> bytes list \<times> bytes \<times> nat option" where
  "deframe limit bs =
     (if length bs < 4 then ([], bs, None)
      else let n = unat (get32be bs) in
        if int n > limit then ([], bs, Some n)
        else if length bs < 4 + n then ([], bs, None)
        else case deframe limit (drop (4 + n) bs) of
          (fs, rest, bad) \<Rightarrow> (take n (drop 4 bs) # fs, rest, bad))"
  by pat_completeness auto
termination
  by (relation "measure (\<lambda>(limit, bs). length bs)") auto

declare deframe.simps [simp del]

text \<open>The queue's bytes that are not consumed, and when the queue and its cursor agree.\<close>

definition queue_view :: "bytes list \<Rightarrow> nat \<Rightarrow> nat \<Rightarrow> bytes" where
  "queue_view cs idx off = drop off (concat (drop idx cs))"

definition cursor_ok :: "bytes list \<Rightarrow> nat \<Rightarrow> nat \<Rightarrow> bool" where
  "cursor_ok cs idx off \<longleftrightarrow> idx \<le> length cs \<and> list_all (\<lambda>c. c \<noteq> []) (drop idx cs) \<and>
     (if idx = length cs then off = 0 else off < length (cs ! idx))"

definition pending_bytes :: "frame_decoder \<Rightarrow> bytes" where
  "pending_bytes d = queue_view (chunks d) (headIndex d) (headOffset d)"

definition decoder_ok :: "frame_decoder \<Rightarrow> bool" where
  "decoder_ok d \<longleftrightarrow> 0 \<le> maxPayloadLength d \<and> cursor_ok (chunks d) (headIndex d) (headOffset d) \<and>
     buffered d = length (pending_bytes d)"

text \<open>A stream fed to a decoder piece by piece, as a connection's read loop does.\<close>

fun feed :: "(bytes \<Rightarrow> 'd \<Rightarrow> (ni_error + bytes list) \<times> 'd) \<Rightarrow> bytes list \<Rightarrow> 'd \<Rightarrow>
    (ni_error + bytes list) \<times> 'd" where
  "feed push [] d = (Inr [], d)"
| "feed push (c # cs) d =
     (case push c d of
        (Inl e, d') \<Rightarrow> (Inl e, d')
      | (Inr fs, d') \<Rightarrow>
          (case feed push cs d' of
             (Inl e, d'') \<Rightarrow> (Inl e, d'')
           | (Inr gs, d'') \<Rightarrow> (Inr (fs @ gs), d'')))"

section \<open>The queue\<close>

lemma queue_view_step:
  "idx < length cs \<Longrightarrow> off \<le> length (cs ! idx) \<Longrightarrow>
     queue_view cs idx off = drop off (cs ! idx) @ queue_view cs (Suc idx) 0"
  by (simp add: queue_view_def Cons_nth_drop_Suc [symmetric])

lemma queue_view_advance: "queue_view cs idx (off + n) = drop n (queue_view cs idx off)"
  by (simp add: queue_view_def add.commute)

lemma queue_view_end [simp]: "length cs \<le> idx \<Longrightarrow> queue_view cs idx off = []"
  by (simp add: queue_view_def)

lemma cursor_ok_next: "cursor_ok cs idx off \<Longrightarrow> idx < length cs \<Longrightarrow> cursor_ok cs (Suc idx) 0"
  by (auto simp: cursor_ok_def Cons_nth_drop_Suc [symmetric] split: if_splits)

lemma cursor_ok_append: "cursor_ok cs idx off \<Longrightarrow> c \<noteq> [] \<Longrightarrow> cursor_ok (cs @ [c]) idx off"
  by (auto simp: cursor_ok_def nth_append split: if_splits)

lemma queue_view_append:
  "cursor_ok cs idx off \<Longrightarrow> queue_view (cs @ [c]) idx off = queue_view cs idx off @ c"
proof (cases "idx = length cs")
  case False
  assume ok: "cursor_ok cs idx off"
  with False have "off \<le> length (concat (drop idx cs))"
    by (auto simp: cursor_ok_def Cons_nth_drop_Suc [symmetric])
  with ok show ?thesis by (simp add: queue_view_def cursor_ok_def)
qed (simp add: cursor_ok_def queue_view_def)

lemma peek_loop_view:
  "cursor_ok cs idx off \<Longrightarrow> remaining \<le> length (queue_view cs idx off) \<Longrightarrow>
   peek_loop cs idx off remaining acc =
     Inr (fold (\<lambda>b v. push_bit 8 v OR ucast b) (take remaining (queue_view cs idx off)) acc)"
proof (induction cs idx off remaining acc rule: peek_loop.induct)
  case (1 cs idx off remaining acc)
  show ?case
  proof (cases "remaining = 0")
    case False
    then have idx: "idx < length cs"
      using "1.prems" by (cases "idx < length cs") auto
    then have off: "off < length (cs ! idx)"
      using "1.prems"(1) by (auto simp: cursor_ok_def)
    define n where "n = min remaining (length (cs ! idx) - off)"
    have view: "queue_view cs idx off = drop off (cs ! idx) @ queue_view cs (Suc idx) 0"
      using idx off by (simp add: queue_view_step)
    have sl: "gslice off (off + n) (cs ! idx) = take n (drop off (cs ! idx))"
      by (simp add: gslice_def)
    have rest: "remaining - n \<le> length (queue_view cs (Suc idx) 0)"
      using "1.prems"(2) off by (simp add: view n_def)
    have "take remaining (queue_view cs idx off) =
        take n (drop off (cs ! idx)) @ take (remaining - n) (queue_view cs (Suc idx) 0)"
      by (simp add: view n_def min_def)
    moreover have "cursor_ok cs (idx + 1) 0"
      using cursor_ok_next [OF "1.prems"(1) idx] by simp
    ultimately show ?thesis
      using "1.IH" [OF _ _ refl _ n_def refl] rest False idx off
      by (subst peek_loop.simps) (simp add: Let_def n_def [symmetric] sl)
  qed (simp add: peek_loop.simps)
qed

lemma consume_loop_view:
  "cursor_ok cs idx off \<Longrightarrow> len \<le> length out + length (queue_view cs idx off) \<Longrightarrow>
   \<exists>idx' off'. consume_loop cs idx off len out =
       (Inr (out @ take (len - length out) (queue_view cs idx off)), idx', off') \<and>
     cursor_ok cs idx' off' \<and>
     queue_view cs idx' off' = drop (len - length out) (queue_view cs idx off)"
proof (induction cs idx off len out rule: consume_loop.induct)
  case (1 cs idx off len out)
  show ?case
  proof (cases "length out < len")
    case True
    then have idx: "idx < length cs"
      using "1.prems" by (cases "idx < length cs") auto
    then have off: "off < length (cs ! idx)"
      using "1.prems"(1) by (auto simp: cursor_ok_def)
    define n where "n = min (len - length out) (length (cs ! idx) - off)"
    define out' where "out' = out @ gslice off (off + n) (cs ! idx)"
    have sl: "gslice off (off + n) (cs ! idx) = take n (drop off (cs ! idx))"
      by (simp add: gslice_def)
    have out': "out' = out @ take n (drop off (cs ! idx))" by (simp add: out'_def sl)
    have lo: "length out' = length out + n" and n: "0 < n" "n \<le> len - length out"
      using off True by (simp_all add: out'_def n_def)
    have view: "queue_view cs idx off = drop off (cs ! idx) @ queue_view cs (Suc idx) 0"
      using idx off by (simp add: queue_view_step)
    have split: "take (len - length out) (queue_view cs idx off) =
        take n (drop off (cs ! idx)) @ take (len - length out') (drop n (queue_view cs idx off))"
    proof -
      have "take (len - length out) (queue_view cs idx off) =
          take n (queue_view cs idx off) @ take (len - length out - n) (drop n (queue_view cs idx off))"
        using n(2) by (metis le_add_diff_inverse take_add)
      moreover have "take n (queue_view cs idx off) = take n (drop off (cs ! idx))"
        by (simp add: view n_def)
      ultimately show ?thesis by (simp add: lo)
    qed
    have dropped: "drop (len - length out) (queue_view cs idx off) =
        drop (len - length out') (drop n (queue_view cs idx off))"
    proof -
      have "len - length out' + n = len - length out" using n lo True by simp
      then show ?thesis by (simp only: drop_drop)
    qed
    show ?thesis
    proof (cases "off + n = length (cs ! idx)")
      case last: True
      have v: "queue_view cs (Suc idx) 0 = drop n (queue_view cs idx off)"
        using last by (simp add: view)
      have "len \<le> length out' + length (queue_view cs (Suc idx) 0)"
        unfolding v lo using "1.prems"(2) n(2) True by simp
      with "1.IH"(1) [OF True _ refl _ n_def out'_def refl last] cursor_ok_next [OF "1.prems"(1) idx]
      obtain i o' where "consume_loop cs (Suc idx) 0 len out' =
          (Inr (out' @ take (len - length out') (queue_view cs (Suc idx) 0)), i, o')"
        "cursor_ok cs i o'" "queue_view cs i o' = drop (len - length out') (queue_view cs (Suc idx) 0)"
        using idx off by auto
      moreover have "consume_loop cs idx off len out = consume_loop cs (Suc idx) 0 len out'"
        using True idx off last
        by (subst consume_loop.simps) (simp add: Let_def n_def [symmetric] out'_def)
      ultimately show ?thesis by (simp add: v split dropped out')
    next
      case mid: False
      have "n \<le> length (cs ! idx) - off" by (simp add: n_def)
      with mid off have lt: "off + n < length (cs ! idx)" by linarith
      have v: "queue_view cs idx (off + n) = drop n (queue_view cs idx off)"
        by (rule queue_view_advance)
      have ok: "cursor_ok cs idx (off + n)"
        using "1.prems"(1) lt idx by (auto simp: cursor_ok_def)
      have "len \<le> length out' + length (queue_view cs idx (off + n))"
        using "1.prems"(2) lo v n by simp
      with "1.IH"(2) [OF True _ refl _ n_def out'_def refl mid] ok
      obtain i o' where "consume_loop cs idx (off + n) len out' =
          (Inr (out' @ take (len - length out') (queue_view cs idx (off + n))), i, o')"
        "cursor_ok cs i o'" "queue_view cs i o' = drop (len - length out') (queue_view cs idx (off + n))"
        using idx off by auto
      moreover have "consume_loop cs idx off len out = consume_loop cs idx (off + n) len out'"
        using True idx off mid
        by (subst consume_loop.simps) (simp add: Let_def n_def [symmetric] out'_def [symmetric])
      ultimately show ?thesis by (simp add: v split dropped out')
    qed
  qed (use "1.prems" in \<open>auto simp: consume_loop.simps\<close>)
qed

section \<open>The decoder implements the specification\<close>

lemma fold_be32: "length bs \<ge> 4 \<Longrightarrow>
    fold (\<lambda>b v. push_bit 8 v OR ucast b) (take 4 bs) 0 = get32be bs"
proof -
  assume "length bs \<ge> 4"
  then obtain a b c d r where "bs = a # b # c # d # r"
    by (metis length_4_conv append_Cons append_Nil append_take_drop_id length_take min_absorb2)
  then show ?thesis by (simp add: push_bit_or or.assoc)
qed

lemma peekPayloadLength_view:
  "decoder_ok d \<Longrightarrow> 4 \<le> buffered d \<Longrightarrow> peekPayloadLength d = Inr (get32be (pending_bytes d))"
  by (simp add: peekPayloadLength_def decoder_ok_def peek_loop_view lengthBytes_def pending_bytes_def fold_be32)

lemma drop_wipe: "drop k (chunks (wipe 0 k d)) = drop k (chunks d)"
  by (auto simp: wipe_def drop_map list_eq_iff_nth_eq nth_enumerate_eq)

lemma wipe_length [simp]: "length (chunks (wipe lo hi d)) = length (chunks d)"
  by (simp add: wipe_def)

lemma compact_ok:
  assumes "cursor_ok (chunks d) (headIndex d) (headOffset d)"
  shows "cursor_ok (chunks (compact d)) (headIndex (compact d)) (headOffset (compact d))"
    and "pending_bytes (compact d) = pending_bytes d"
    and "maxPayloadLength (compact d) = maxPayloadLength d"
  using assms
  by (auto simp: compact_def Let_def cursor_ok_def pending_bytes_def queue_view_def drop_wipe
      split: if_splits)

lemma consume_view:
  assumes ok: "decoder_ok d" and len: "len \<le> buffered d"
  shows "\<exists>d'. consume len d = (Inr (take len (pending_bytes d)), d') \<and> decoder_ok d' \<and>
    pending_bytes d' = drop len (pending_bytes d) \<and> maxPayloadLength d' = maxPayloadLength d"
proof -
  from ok have cur: "cursor_ok (chunks d) (headIndex d) (headOffset d)"
    and buf: "buffered d = length (pending_bytes d)"
    by (simp_all add: decoder_ok_def)
  obtain i o' where loop: "consume_loop (chunks d) (headIndex d) (headOffset d) len [] =
      (Inr (take len (pending_bytes d)), i, o')" "cursor_ok (chunks d) i o'"
    and view: "queue_view (chunks d) i o' = drop len (pending_bytes d)"
    using consume_loop_view [OF cur, of len "[]"] len buf by (auto simp: pending_bytes_def)
  define e where "e = d\<lparr>headIndex := i, headOffset := o', buffered := buffered d - len\<rparr>"
  have e: "cursor_ok (chunks e) (headIndex e) (headOffset e)" "pending_bytes e = drop len (pending_bytes d)"
    using loop(2) view by (simp_all add: e_def pending_bytes_def)
  have "consume len d = (Inr (take len (pending_bytes d)), compact e)"
    using len loop(1) by (simp add: consume_def e_def)
  moreover have "decoder_ok (compact e)"
    using ok compact_ok [OF e(1)] e(2) buf by (simp add: decoder_ok_def e_def)
  ultimately show ?thesis
    using compact_ok [OF e(1)] e(2) by (auto simp: e_def)
qed

lemma push_loop_deframe:
  "decoder_ok d \<Longrightarrow> maxPayloadLength d = limit \<Longrightarrow> pending_bytes d = bs \<Longrightarrow>
   deframe limit bs = (fs, rest, bad) \<Longrightarrow>
   \<exists>d'. push_loop d ps =
       (case bad of None \<Rightarrow> Inr (ps @ fs) | Some n \<Rightarrow> Inl (ErrPayloadTooLarge n limit), d') \<and>
     decoder_ok d' \<and> pending_bytes d' = rest \<and> maxPayloadLength d' = limit"
proof (induction limit bs arbitrary: d ps fs rest bad rule: deframe.induct)
  case (1 limit bs)
  define n where "n = unat (get32be bs)"
  from "1.prems" have buf: "buffered d = length bs"
    by (simp add: decoder_ok_def)
  consider (short) "length bs < 4" | (bad) "4 \<le> length bs" "int n > limit"
    | (wait) "4 \<le> length bs" "int n \<le> limit" "length bs < 4 + n"
    | (frame) "4 \<le> length bs" "int n \<le> limit" "4 + n \<le> length bs"
    by linarith
  then show ?case
  proof cases
    case short
    then show ?thesis
      using "1.prems" buf by (auto simp: push_loop.simps [of d] deframe.simps [of limit bs] lengthBytes_def)
  next
    case frame
    obtain d1 where d1: "consume 4 d = (Inr (take 4 bs), d1)" "decoder_ok d1"
      "pending_bytes d1 = drop 4 bs" "maxPayloadLength d1 = limit"
      using consume_view [of d 4] "1.prems" buf frame by auto
    then have "buffered d1 = length bs - 4" by (simp add: decoder_ok_def)
    then have "n \<le> buffered d1" using frame by simp
    then obtain d2 where d2: "consume n d1 = (Inr (take n (drop 4 bs)), d2)" "decoder_ok d2"
      "pending_bytes d2 = drop (4 + n) bs" "maxPayloadLength d2 = limit"
      using consume_view [OF d1(2), of n] d1(3,4) by (auto simp: add.commute)
    obtain gs where gs: "deframe limit (drop (4 + n) bs) = (gs, rest, bad)" "fs = take n (drop 4 bs) # gs"
      using "1.prems"(4) frame by (auto simp: deframe.simps [of limit bs] n_def Let_def split: prod.splits)
    have "push_loop d ps = push_loop d2 (ps @ [take n (drop 4 bs)])"
      using "1.prems"(1-3) frame buf d1(1) d2(1)
      by (simp add: push_loop.simps [of d] peekPayloadLength_view lengthBytes_def n_def [symmetric])
    with "1.IH" [OF _ n_def _ _ d2(2) d2(4) d2(3) gs(1), of "ps @ [take n (drop 4 bs)]"] frame gs(2)
    show ?thesis by (auto split: option.splits)
  next
    case bad
    then have "fs = [] \<and> rest = bs \<and> bad = Some n"
      using "1.prems"(4) by (auto simp: deframe.simps [of limit bs] n_def [symmetric] Let_def)
    moreover have "push_loop d ps = (Inl (ErrPayloadTooLarge n limit), d)"
      using "1.prems"(1-3) bad buf
      by (subst push_loop.simps) (simp add: lengthBytes_def peekPayloadLength_view n_def)
    ultimately show ?thesis using "1.prems"(1-3) by simp
  next
    case wait
    then have "fs = [] \<and> rest = bs \<and> bad = None"
      using "1.prems"(4) by (auto simp: deframe.simps [of limit bs] n_def [symmetric] Let_def)
    moreover have "push_loop d ps = (Inr ps, d)"
      using "1.prems"(1-3) wait buf
      by (subst push_loop.simps) (simp add: lengthBytes_def peekPayloadLength_view n_def)
    ultimately show ?thesis using "1.prems"(1-3) by simp
  qed
qed

lemma decoder_ok_append:
  assumes "decoder_ok d" "chunk \<noteq> []"
  defines "e \<equiv> d\<lparr>chunks := chunks d @ [chunk], buffered := buffered d + length chunk\<rparr>"
  shows "decoder_ok e" "pending_bytes e = pending_bytes d @ chunk"
  using assms by (auto simp: decoder_ok_def pending_bytes_def queue_view_append cursor_ok_append)

lemma Push_deframe:
  assumes ok: "decoder_ok d"
    and spec: "deframe (maxPayloadLength d) (pending_bytes d @ chunk) = (fs, rest, bad)"
  shows "\<exists>d'. Push chunk d =
       (case bad of None \<Rightarrow> Inr fs | Some n \<Rightarrow> Inl (ErrPayloadTooLarge n (maxPayloadLength d)), d') \<and>
     decoder_ok d' \<and> pending_bytes d' = rest \<and> maxPayloadLength d' = maxPayloadLength d"
proof (cases "chunk = []")
  case True
  then show ?thesis
    using push_loop_deframe [OF ok refl refl, of fs rest bad "[]"] spec
    by (auto simp: Push_def split: option.splits)
next
  case False
  define e where "e = d\<lparr>chunks := chunks d @ [chunk], buffered := buffered d + length chunk\<rparr>"
  have e: "decoder_ok e" "pending_bytes e = pending_bytes d @ chunk" "maxPayloadLength e = maxPayloadLength d"
    using decoder_ok_append [OF ok False] by (simp_all add: e_def)
  have "Push chunk d = push_loop e []"
    using False by (simp add: Push_def e_def)
  then show ?thesis
    using push_loop_deframe [OF e(1,3,2) spec, of "[]"] by (auto split: option.splits)
qed

section \<open>Streams and chunks\<close>

lemma deframe_append:
  "deframe limit a = (fs, rest, None) \<Longrightarrow> deframe limit (rest @ b) = (gs, rest', bad) \<Longrightarrow>
     deframe limit (a @ b) = (fs @ gs, rest', bad)"
proof (induction limit a arbitrary: fs rule: deframe.induct)
  case (1 limit a)
  define n where "n = unat (get32be a)"
  show ?case
  proof (cases "4 \<le> length a \<and> int n \<le> limit \<and> 4 + n \<le> length a")
    case True
    obtain hs where hs: "deframe limit (drop (4 + n) a) = (hs, rest, None)"
      and fs: "fs = take n (drop 4 a) # hs"
      using "1.prems"(1) True
      by (auto simp: deframe.simps [of limit a] Let_def n_def [symmetric] split: prod.splits)
    have get: "get32be (a @ b) = get32be a"
      using True u32be.get_take [of a] u32be.get_take [of "a @ b"] by simp
    have "deframe limit (drop (4 + n) a @ b) = (hs @ gs, rest', bad)"
      using "1.IH" [OF _ n_def _ _ hs "1.prems"(2)] True by simp
    then show ?thesis
      using True by (subst deframe.simps) (simp add: Let_def get n_def [symmetric] fs)
  next
    case False
    then have "fs = [] \<and> rest = a"
      using "1.prems"(1) by (auto simp: deframe.simps [of limit a] Let_def n_def [symmetric] split: if_splits)
    with "1.prems"(2) show ?thesis by simp
  qed
qed

lemma deframe_append_bad:
  "deframe limit a = (fs, rest, Some n) \<Longrightarrow> deframe limit (a @ b) = (fs, rest @ b, Some n)"
proof (induction limit a arbitrary: fs rule: deframe.induct)
  case (1 limit a)
  define k where "k = unat (get32be a)"
  from "1.prems" have len: "4 \<le> length a" by (auto simp: deframe.simps [of limit a] split: if_splits)
  have get: "get32be (a @ b) = get32be a"
    using len u32be.get_take [of a] u32be.get_take [of "a @ b"] by simp
  show ?case
  proof (cases "int k > limit")
    case True
    then have "rest = a \<and> fs = [] \<and> n = k"
      using "1.prems" len by (auto simp: deframe.simps [of limit a] Let_def k_def [symmetric])
    with True len show ?thesis
      by (subst deframe.simps) (simp add: get Let_def k_def)
  next
    case False
    obtain hs where hs: "deframe limit (drop (4 + k) a) = (hs, rest, Some n)"
      and fs: "fs = take k (drop 4 a) # hs" and ge: "4 + k \<le> length a"
      using "1.prems" False len
      by (auto simp: deframe.simps [of limit a] Let_def k_def [symmetric] split: prod.splits if_splits)
    have "deframe limit (drop (4 + k) a @ b) = (hs, rest @ b, Some n)"
      using "1.IH" [OF _ k_def _ _ hs] len False ge by simp
    then show ?thesis
      using len False ge by (subst deframe.simps) (simp add: Let_def get k_def [symmetric] fs)
  qed
qed

lemma deframe_settled: "deframe limit a = (fs, rest, None) \<Longrightarrow> deframe limit rest = ([], rest, None)"
proof (induction limit a arbitrary: fs rule: deframe.induct)
  case (1 limit a)
  define n where "n = unat (get32be a)"
  show ?case
  proof (cases "4 \<le> length a \<and> int n \<le> limit \<and> 4 + n \<le> length a")
    case True
    then obtain hs where "deframe limit (drop (4 + n) a) = (hs, rest, None)"
      using "1.prems"(1)
      by (auto simp: deframe.simps [of limit a] Let_def n_def [symmetric] split: prod.splits)
    with "1.IH" [OF _ n_def] True show ?thesis by simp
  next
    case False
    then have "rest = a \<and> fs = []"
      using "1.prems" by (auto simp: deframe.simps [of limit a] Let_def n_def [symmetric] split: if_splits)
    with "1.prems" show ?thesis by simp
  qed
qed

text \<open>
  What a reader of a byte stream relies on: one push refines \<open>deframe\<close> on the bytes that were
  waiting and the new chunk. Feeding any sequence of chunks is then \<open>deframe\<close> of their
  concatenation.
\<close>

locale frame_stream =
  fixes ok :: "'d \<Rightarrow> bool"
    and view :: "'d \<Rightarrow> bytes"
    and limit :: "'d \<Rightarrow> int"
    and push :: "bytes \<Rightarrow> 'd \<Rightarrow> (ni_error + bytes list) \<times> 'd"
  assumes push_refines: "ok d \<Longrightarrow> deframe (limit d) (view d @ chunk) = (fs, rest, bad) \<Longrightarrow>
      \<exists>d'. push chunk d =
          (case bad of None \<Rightarrow> Inr fs | Some n \<Rightarrow> Inl (ErrPayloadTooLarge n (limit d)), d') \<and>
        ok d' \<and> view d' = rest \<and> limit d' = limit d"
begin

lemma feed_refines:
  "ok d \<Longrightarrow> deframe (limit d) (view d) = ([], view d, None) \<Longrightarrow>
   deframe (limit d) (view d @ concat cs) = (fs, rest, bad) \<Longrightarrow>
   \<exists>d'. feed push cs d =
       (case bad of None \<Rightarrow> Inr fs | Some n \<Rightarrow> Inl (ErrPayloadTooLarge n (limit d)), d') \<and>
     ok d' \<and> limit d' = limit d \<and> (bad = None \<longrightarrow> view d' = rest)"
proof (induction cs arbitrary: d fs rest bad)
  case Nil
  then show ?case by auto
next
  case (Cons c cs)
  obtain gs r b where one: "deframe (limit d) (view d @ c) = (gs, r, b)"
    by (metis prod_cases3)
  then obtain d1 where d1: "push c d =
      (case b of None \<Rightarrow> Inr gs | Some n \<Rightarrow> Inl (ErrPayloadTooLarge n (limit d)), d1)"
    "ok d1" "view d1 = r" "limit d1 = limit d"
    using push_refines [OF Cons.prems(1)] by blast
  show ?case
  proof (cases b)
    case None
    obtain hs r2 b2 where two: "deframe (limit d) (r @ concat cs) = (hs, r2, b2)"
      by (metis prod_cases3)
    have all: "fs = gs @ hs" "rest = r2" "bad = b2"
      using deframe_append [OF one [unfolded None] two] Cons.prems(3) by simp_all
    have "deframe (limit d1) (view d1) = ([], view d1, None)"
      using deframe_settled [OF one [unfolded None]] d1 by simp
    from Cons.IH [OF d1(2) this, of hs r2 b2, unfolded d1(3,4), OF two]
    obtain d2 where "feed push cs d1 =
        (case b2 of None \<Rightarrow> Inr hs | Some n \<Rightarrow> Inl (ErrPayloadTooLarge n (limit d)), d2)"
      "ok d2" "limit d2 = limit d" "b2 = None \<longrightarrow> view d2 = r2"
      by blast
    then show ?thesis
      using d1(1) None all by (cases b2) simp_all
  next
    case (Some n)
    have "bad = Some n"
      using deframe_append_bad [OF one [unfolded Some], of "concat cs"] Cons.prems(3) by simp
    then show ?thesis using d1 Some by simp
  qed
qed

end

interpretation decoder: frame_stream decoder_ok pending_bytes maxPayloadLength Push
  by unfold_locales (rule Push_deframe)

lemma NewFrameDecoder_ok:
  "NewFrameDecoder limit = Inr d \<Longrightarrow>
     decoder_ok d \<and> pending_bytes d = [] \<and> maxPayloadLength d = limit"
  by (auto simp: NewFrameDecoder_def decoder_ok_def cursor_ok_def pending_bytes_def split: if_splits)

lemma EncodeFrame_layout:
  "length p \<le> 4294967295 \<Longrightarrow> EncodeFrame p = Inr (put32be (of_nat (length p)) @ p)"
proof -
  assume "length p \<le> 4294967295"
  moreover have "copy_at 0 (put32be v) (replicate (lengthBytes + length p) 0) =
      put32be v @ replicate (length p) 0" for v
    using copy_at_fit [of "put32be v" "lengthBytes + length p" "[]" 0] by (simp add: lengthBytes_def)
  moreover have "copy_at lengthBytes p (put32be v @ replicate (length p) 0) = put32be v @ p" for v
    using copy_at_fit [of p "length p" "put32be v" 0] by (simp add: lengthBytes_def)
  ultimately show ?thesis by (simp add: EncodeFrame_def Let_def)
qed

lemma EncodeFrame_Inr:
  "EncodeFrame p = Inr f \<Longrightarrow> length p \<le> 4294967295 \<and> f = put32be (of_nat (length p)) @ p"
  using EncodeFrame_layout [of p] by (auto simp: EncodeFrame_def split: if_splits)

lemma deframe_Nil [simp]: "deframe limit [] = ([], [], None)"
  by (simp add: deframe.simps)

lemma deframe_frame:
  assumes "EncodeFrame p = Inr f" "int (length p) \<le> limit" "deframe limit bs = (ps, rest, bad)"
  shows "deframe limit (f @ bs) = (p # ps, rest, bad)"
proof -
  have f: "f = put32be (of_nat (length p)) @ p" and len: "length p \<le> 4294967295"
    using EncodeFrame_Inr [OF assms(1)] by simp_all
  then have "unat (of_nat (length p) :: u32) = length p"
    by (simp add: unat_of_nat take_bit_nat_eq_self)
  then show ?thesis
    using assms(2,3) by (subst deframe.simps) (simp add: f Let_def)
qed

lemma deframe_frames:
  "list_all2 (\<lambda>p f. EncodeFrame p = Inr f \<and> int (length p) \<le> limit) ps fs \<Longrightarrow>
     deframe limit (concat fs) = (ps, [], None)"
  by (induction rule: list_all2_induct) (simp_all add: deframe_frame)

section \<open>Properties\<close>

text \<open>
  C7. \<open>Push\<close> refines the list specification on every decoder state the invariant allows: the
  payloads returned are the complete frames of the bytes waiting followed by the chunk, the
  bytes that remain wait for the next chunk, and the only error is an advertised length above
  the limit. In particular neither the accounting error (\<open>ErrInconsistentQueue\<close>) nor a slice
  panic is reachable, and the invariant is kept.
\<close>

theorem push_refines_deframe:
  assumes "decoder_ok d"
    and "deframe (maxPayloadLength d) (pending_bytes d @ chunk) = (payloads, rest, bad)"
  shows "\<exists>d'. Push chunk d =
       (case bad of None \<Rightarrow> Inr payloads | Some n \<Rightarrow> Inl (ErrPayloadTooLarge n (maxPayloadLength d)), d') \<and>
     decoder_ok d' \<and> pending_bytes d' = rest \<and> maxPayloadLength d' = maxPayloadLength d \<and>
     Buffered d' = length rest"
  using Push_deframe [OF assms] by (auto simp: decoder_ok_def Buffered_def)

text \<open>A decoder in the middle of its queue: the first chunk holds one consumed byte.\<close>

definition sample_decoder :: frame_decoder where
  "sample_decoder = \<lparr>maxPayloadLength = 16, chunks = [[9, 0, 0], [0, 2]], headIndex = 0,
     headOffset = 1, buffered = 4\<rparr>"

lemma sample_deframe:
  "deframe 16 [0, 0, 0, 2, 7, 8, 0] = ([[7, 8]], [0], None)"
  by (simp add: deframe.simps [of 16 "[0, 0, 0, 2, 7, 8, 0]"] deframe.simps [of 16 "[0]"])

lemma sample_decoder_view:
  "decoder_ok sample_decoder" "pending_bytes sample_decoder = [0, 0, 0, 2]"
  "maxPayloadLength sample_decoder = 16"
  by (simp_all add: sample_decoder_def decoder_ok_def cursor_ok_def pending_bytes_def queue_view_def)

theorem push_refines_deframe_witness:
  "\<exists>d'. Push [7, 8, 0] sample_decoder = (Inr [[7, 8]], d') \<and> decoder_ok d' \<and>
     pending_bytes d' = [0] \<and> Buffered d' = 1"
  using push_refines_deframe [of sample_decoder "[7, 8, 0]" "[[7, 8]]" "[0]" None] sample_deframe
  by (auto simp: sample_decoder_view)

text \<open>
  A stream of encoded frames is recovered whatever way it is cut into chunks: feeding the
  chunks to a new decoder returns exactly the payloads, in order, and leaves nothing buffered,
  so that \<open>Finish\<close> reports no truncation.
\<close>

theorem frame_stream_roundtrip:
  assumes "NewFrameDecoder limit = Inr d"
    and "list_all2 (\<lambda>p f. EncodeFrame p = Inr f \<and> int (length p) \<le> limit) payloads frames"
    and "concat pieces = concat frames"
  shows "\<exists>d'. feed Push pieces d = (Inr payloads, d') \<and> Buffered d' = 0 \<and> Finish d' = Inr ()"
proof -
  have d: "decoder_ok d" "pending_bytes d = []" "maxPayloadLength d = limit"
    using NewFrameDecoder_ok [OF assms(1)] by simp_all
  then obtain d' where "feed Push pieces d = (Inr payloads, d')" "decoder_ok d'" "pending_bytes d' = []"
    using decoder.feed_refines [of d pieces payloads "[]" None] deframe_frames [OF assms(2)] assms(3)
    by auto
  then show ?thesis by (auto simp: decoder_ok_def Buffered_def Finish_def)
qed

theorem frame_stream_roundtrip_witness:
  "\<exists>d'. feed Push [[0, 0], [0, 1, 5, 0, 0, 0], [0]]
      \<lparr>maxPayloadLength = 9, chunks = [], headIndex = 0, headOffset = 0, buffered = 0\<rparr> =
     (Inr [[5], []], d') \<and> Buffered d' = 0 \<and> Finish d' = Inr ()"
  using frame_stream_roundtrip [of 9 _ "[[5], []]" "[[0, 0, 0, 1, 5], [0, 0, 0, 0]]"
      "[[0, 0], [0, 1, 5, 0, 0, 0], [0]]"]
  by (simp add: NewFrameDecoder_def EncodeFrame_layout put32be_def)

end
