(* ===== verification/Appc_Header.thy ===== *)
theory Appc_Header
  imports Wire
begin

text \<open>
  Package \<open>appc\<close>, file \<open>appc.go\<close>: constants, function codes, the fixed-field ASCII and
  hexadecimal helpers and the decoder of the 48-byte common header. \<open>header_layout\<close> is the
  layout specification of the common header; the lemmas show that the decoder accepts exactly
  the payloads that begin with a version-6 layout and that it inverts it.
\<close>

section \<open>Constants and errors\<close>

definition ProtocolVersion :: byte where "ProtocolVersion = 0x06"
definition CommonHeaderLength :: nat where "CommonHeaderLength = 48"
definition RecordHeaderLength :: nat where "RecordHeaderLength = 80"
definition ExtendedInitializeOptionsLength :: nat where "ExtendedInitializeOptionsLength = 341"
definition InitializeParametersLength :: nat where "InitializeParametersLength = 373"
definition PartnerParametersLength :: nat where "PartnerParametersLength = 144"
definition VectorEndOfMessage :: byte where "VectorEndOfMessage = 0x04"
definition FinalSapParameterLength :: nat where "FinalSapParameterLength = 8"
definition MaxApplicationDataFragmentLength :: nat where "MaxApplicationDataFragmentLength = 28000"
definition MaxAsyncSendsBeforeSync :: nat where "MaxAsyncSendsBeforeSync = 21"
definition MaxOutgoingMessageLength :: int where "MaxOutgoingMessageLength = 0x7fffffff"
definition DefaultMaxOutgoingMessageLength :: int where "DefaultMaxOutgoingMessageLength = 1400000"
definition DefaultMaxMessageLength :: int where "DefaultMaxMessageLength = 256 * 1024 * 1024"
definition DefaultMaxMessageFragments :: int where "DefaultMaxMessageFragments = 65536"
definition returnCodeDeallocatedNormal :: u32 where "returnCodeDeallocatedNormal = 18"

lemmas appc_consts = ProtocolVersion_def CommonHeaderLength_def RecordHeaderLength_def
  ExtendedInitializeOptionsLength_def InitializeParametersLength_def PartnerParametersLength_def
  VectorEndOfMessage_def FinalSapParameterLength_def MaxApplicationDataFragmentLength_def
  MaxAsyncSendsBeforeSync_def MaxOutgoingMessageLength_def DefaultMaxOutgoingMessageLength_def
  DefaultMaxMessageLength_def DefaultMaxMessageFragments_def returnCodeDeallocatedNormal_def

type_synonym Function = byte

definition FuncInitialize :: Function where "FuncInitialize = 0x01"
definition FuncAllocate :: Function where "FuncAllocate = 0x05"
definition FuncSendData :: Function where "FuncSendData = 0x07"
definition FuncAsyncSendData :: Function where "FuncAsyncSendData = 0x08"
definition FuncReceive :: Function where "FuncReceive = 0x09"
definition FuncAsyncReceive :: Function where "FuncAsyncReceive = 0x0a"
definition FuncDeallocate :: Function where "FuncDeallocate = 0x0b"
definition FuncSetTpName :: Function where "FuncSetTpName = 0x0d"
definition FuncSetPartnerLuName :: Function where "FuncSetPartnerLuName = 0x0f"
definition FuncFlush :: Function where "FuncFlush = 0x1b"
definition FuncSapSend :: Function where "FuncSapSend = 0xcb"

lemmas func_codes = FuncInitialize_def FuncAllocate_def FuncSendData_def FuncAsyncSendData_def
  FuncReceive_def FuncAsyncReceive_def FuncDeallocate_def FuncSetTpName_def
  FuncSetPartnerLuName_def FuncFlush_def FuncSapSend_def

text \<open>
  The sentinels of the package. A state error keeps the state its message reports (empty when
  the message has none); a peer status is the Go type \<open>PeerReturnCodeError\<close>; an error of
  the record reader or writer is passed on unwrapped.
\<close>

datatype appc_error =
    ErrRange
  | ErrProtocol
  | ErrUnsupported
  | ErrState string
  | ErrNormalDeallocationWithoutData
  | PeerReturnCodeError string u32 u32
  | AppcWire wire_error

record payload_info =
  pi_ProtocolVersion :: byte
  pi_FunctionCode :: Function
  pi_FunctionName :: string

record header =
  h_PayloadInfo :: payload_info
  h_Protocol :: byte
  h_Mode :: byte
  h_UID :: u16
  h_GatewayID :: u16
  h_ErrorLength :: u16
  h_Info2 :: byte
  h_TraceLevel :: byte
  h_Time :: u32
  h_Info3 :: byte
  h_Timeout :: i32
  h_Info4 :: byte
  h_SequenceNumber :: u32
  h_SapParameterLen :: u16
  h_Padding :: u16
  h_Info :: byte
  h_Vector :: byte
  h_AppcReturnCode :: u32
  h_SapReturnCode :: u32
  h_ConversationID :: bytes

abbreviation h_FunctionCode :: "header \<Rightarrow> Function" where
  "h_FunctionCode h \<equiv> pi_FunctionCode (h_PayloadInfo h)"

abbreviation h_FunctionName :: "header \<Rightarrow> string" where
  "h_FunctionName h \<equiv> pi_FunctionName (h_PayloadInfo h)"

section \<open>Function table\<close>

definition functionNames :: "(Function \<times> string) list" where
  "functionNames =
     [(FuncInitialize, ''F_INITIALIZE''), (FuncAllocate, ''F_ALLOCATE''),
      (FuncSendData, ''F_SEND_DATA''), (FuncAsyncSendData, ''F_ASEND_DATA''),
      (FuncReceive, ''F_RECEIVE''), (FuncAsyncReceive, ''F_ARECEIVE''),
      (FuncDeallocate, ''F_DEALLOCATE''), (FuncSetTpName, ''F_SET_TP_NAME''),
      (FuncSetPartnerLuName, ''F_SET_PARTNER_LU_NAME''), (FuncFlush, ''F_FLUSH''),
      (FuncSapSend, ''F_SAP_SEND'')]"

definition controlFunctions :: "Function list" where
  "controlFunctions = [FuncInitialize, FuncAllocate, FuncDeallocate, FuncSetTpName,
     FuncSetPartnerLuName, FuncFlush]"

text \<open>\<open>%02x\<close> of a byte.\<close>

definition hex_byte :: "byte \<Rightarrow> string" where
  "hex_byte b = [''0123456789abcdef'' ! (unat b div 16), ''0123456789abcdef'' ! (unat b mod 16)]"

definition FunctionName :: "Function \<Rightarrow> string" where
  "FunctionName code =
     (case map_of functionNames code of Some name \<Rightarrow> name | None \<Rightarrow> ''UNKNOWN_0x'' @ hex_byte code)"

definition InspectPayload :: "bytes \<Rightarrow> appc_error + payload_info" where
  "InspectPayload payload =
     (if length payload < 2 then Inl ErrRange
      else let protocolVersion = payload ! 0; functionCode = payload ! 1 in
        if protocolVersion \<noteq> ProtocolVersion then Inl ErrUnsupported
        else Inr \<lparr>pi_ProtocolVersion = protocolVersion, pi_FunctionCode = functionCode,
                  pi_FunctionName = FunctionName functionCode\<rparr>)"

section \<open>Fixed-width text fields\<close>

definition encodeFixedAscii :: "gostring \<Rightarrow> appc_error + bytes" where
  "encodeFixedAscii v =
     (if \<not> printable v \<or> length v > 8 then Inl ErrRange
      else let pad = (if length v = 0 then 0 else 0x20) in Inr (copy_at 0 v (replicate 8 pad)))"

definition trimRightBytes :: "gostring \<Rightarrow> bytes \<Rightarrow> gostring" where
  "trimRightBytes s cutset = rev (dropWhile (\<lambda>b. b \<in> set cutset) (rev s))"

definition decodeFixedAscii :: "bytes \<Rightarrow> appc_error + gostring" where
  "decodeFixedAscii v =
     (if list_ex (\<lambda>b. b \<noteq> 0 \<and> (b < 0x20 \<or> b > 0x7e)) v then Inl ErrProtocol
      else Inr (trimRightBytes v [0x00, 0x20]))"

definition encodePaddedAscii :: "gostring \<Rightarrow> nat \<Rightarrow> byte \<Rightarrow> appc_error + bytes" where
  "encodePaddedAscii v width padding =
     (if \<not> printable v \<or> length v > width then Inl ErrRange
      else Inr (copy_at 0 v (replicate width padding)))"

text \<open>\<open>bytes.IndexByte\<close>, with the length of the slice for \<open>-1\<close> as the caller takes it.\<close>

definition first_index :: "byte \<Rightarrow> bytes \<Rightarrow> nat" where
  "first_index p bs = length (takeWhile (\<lambda>b. b \<noteq> p) bs)"

definition decodePaddedAscii :: "bytes \<Rightarrow> byte \<Rightarrow> appc_error + gostring" where
  "decodePaddedAscii encoded padding =
     (let end = first_index padding encoded in
      if list_ex (\<lambda>b. b < 0x20 \<or> b > 0x7e) (take end encoded) then Inl ErrProtocol
      else if list_ex (\<lambda>b. b \<noteq> padding) (drop end encoded) then Inl ErrProtocol
      else Inr (take end encoded))"

definition exactBytes :: "bytes \<Rightarrow> nat \<Rightarrow> appc_error + bytes" where
  "exactBytes v len = (if length v \<noteq> len then Inl ErrRange else Inr v)"

text \<open>\<open>^[0-9A-F]{16}$\<close>\<close>

definition hexIDPattern :: "gostring \<Rightarrow> bool" where
  "hexIDPattern v \<longleftrightarrow> length v = 16 \<and>
     list_all (\<lambda>b. (0x30 \<le> b \<and> b \<le> 0x39) \<or> (0x41 \<le> b \<and> b \<le> 0x46)) v"

definition fixedHexID :: "gostring \<Rightarrow> appc_error + bytes" where
  "fixedHexID v = (if \<not> hexIDPattern v then Inl ErrRange else Inr v)"

section \<open>The common header\<close>

abbreviation rw :: "(reader \<Rightarrow> wire_error + 'a \<times> reader) \<Rightarrow> reader \<Rightarrow> appc_error + 'a \<times> reader" where
  "rw m \<equiv> se_err AppcWire m"

definition read_header :: "reader \<Rightarrow> appc_error + header \<times> reader" where
  "read_header =
     se_bind (rw (ReadUint8 ''protocolVersion'')) (\<lambda>protocolVersion.
     se_bind (rw (ReadUint8 ''functionCode'')) (\<lambda>functionCode.
     se_bind (se_lift (InspectPayload [protocolVersion, functionCode])) (\<lambda>info.
     se_bind (rw (ReadUint8 ''protocol'')) (\<lambda>protocol.
     se_bind (rw (ReadUint8 ''mode'')) (\<lambda>mode.
     se_bind (rw (ReadUint16BE ''uid'')) (\<lambda>uid.
     se_bind (rw (ReadUint16BE ''gatewayId'')) (\<lambda>gatewayId.
     se_bind (rw (ReadUint16BE ''errorLength'')) (\<lambda>errorLength.
     se_bind (rw (ReadUint8 ''info2'')) (\<lambda>info2.
     se_bind (rw (ReadUint8 ''traceLevel'')) (\<lambda>traceLevel.
     se_bind (rw (ReadUint32BE ''time'')) (\<lambda>time.
     se_bind (rw (ReadUint8 ''info3'')) (\<lambda>info3.
     se_bind (rw (ReadInt32BE ''timeout'')) (\<lambda>timeout.
     se_bind (rw (ReadUint8 ''info4'')) (\<lambda>info4.
     se_bind (rw (ReadUint32BE ''sequenceNumber'')) (\<lambda>sequenceNumber.
     se_bind (rw (ReadUint16BE ''sapParameterLength'')) (\<lambda>sapParameterLen.
     se_bind (rw (ReadUint16BE ''padding'')) (\<lambda>padding.
     se_bind (rw (ReadUint8 ''info'')) (\<lambda>info1.
     se_bind (rw (ReadUint8 ''vector'')) (\<lambda>vector.
     se_bind (rw (ReadUint32BE ''appcReturnCode'')) (\<lambda>appcReturnCode.
     se_bind (rw (ReadUint32BE ''sapReturnCode'')) (\<lambda>sapReturnCode.
     se_bind (rw (ReadBytes 8 ''conversationId'')) (\<lambda>conversationID.
     se_bind (rw Reader_Finish) (\<lambda>_.
     se_return \<lparr>h_PayloadInfo = info, h_Protocol = protocol, h_Mode = mode, h_UID = uid,
       h_GatewayID = gatewayId, h_ErrorLength = errorLength, h_Info2 = info2,
       h_TraceLevel = traceLevel, h_Time = time, h_Info3 = info3, h_Timeout = timeout,
       h_Info4 = info4, h_SequenceNumber = sequenceNumber, h_SapParameterLen = sapParameterLen,
       h_Padding = padding, h_Info = info1, h_Vector = vector, h_AppcReturnCode = appcReturnCode,
       h_SapReturnCode = sapReturnCode, h_ConversationID = conversationID\<rparr>)))))))))))))))))))))))"

definition DecodeHeader :: "bytes \<Rightarrow> appc_error + header" where
  "DecodeHeader payload =
     (if length payload < CommonHeaderLength then Inl ErrRange
      else bindE (read_header (NewReader (gslice 0 CommonHeaderLength payload) ''APPC common header''))
             (\<lambda>(h, _). Inr h))"

section \<open>Layout specification\<close>

definition header_layout :: "header \<Rightarrow> bytes" where
  "header_layout h =
     [pi_ProtocolVersion (h_PayloadInfo h), h_FunctionCode h, h_Protocol h, h_Mode h] @
     put16be (h_UID h) @ put16be (h_GatewayID h) @ put16be (h_ErrorLength h) @
     [h_Info2 h, h_TraceLevel h] @ put32be (h_Time h) @ [h_Info3 h] @ put32be (h_Timeout h) @
     [h_Info4 h] @ put32be (h_SequenceNumber h) @ put16be (h_SapParameterLen h) @
     put16be (h_Padding h) @ [h_Info h, h_Vector h] @ put32be (h_AppcReturnCode h) @
     put32be (h_SapReturnCode h) @ h_ConversationID h"

text \<open>A header the decoder can return: version 6, the name of its function, an 8-byte id.\<close>

definition header_ok :: "header \<Rightarrow> bool" where
  "header_ok h \<longleftrightarrow> pi_ProtocolVersion (h_PayloadInfo h) = ProtocolVersion \<and>
     h_FunctionName h = FunctionName (h_FunctionCode h) \<and> length (h_ConversationID h) = 8"

section \<open>Text fields: lemmas\<close>

text \<open>
  What a client of a fixed-width field codec relies on. \<open>canon\<close> says which values come back;
  two canonical values never share an encoding.
\<close>

locale fixed_codec =
  fixes width :: nat
    and enc :: "'a \<Rightarrow> appc_error + bytes"
    and dec :: "bytes \<Rightarrow> appc_error + 'a"
    and canon :: "'a \<Rightarrow> bool"
  assumes enc_length: "enc a = Inr b \<Longrightarrow> length b = width"
    and dec_enc: "enc a = Inr b \<Longrightarrow> canon a \<Longrightarrow> dec b = Inr a"
begin

lemma enc_inj: "enc a = Inr b \<Longrightarrow> enc a' = Inr b \<Longrightarrow> canon a \<Longrightarrow> canon a' \<Longrightarrow> a = a'"
  using dec_enc [of a b] dec_enc [of a' b] by simp

lemma enc_distinct:
  "enc a = Inr b \<Longrightarrow> enc a' = Inr b' \<Longrightarrow> canon a \<Longrightarrow> canon a' \<Longrightarrow> a \<noteq> a' \<Longrightarrow> b \<noteq> b'"
  using enc_inj by blast

lemma dec_enc_prefix: "enc a = Inr b \<Longrightarrow> canon a \<Longrightarrow> dec (take width (b @ rest)) = Inr a"
  using dec_enc enc_length by simp

end

lemma printable_noncontrol:
  "printable v \<Longrightarrow> \<not> list_ex (\<lambda>b. b < 0x20 \<or> b > 0x7e) v"
  "printable v \<Longrightarrow> \<not> list_ex (\<lambda>b. b \<noteq> 0 \<and> (b < 0x20 \<or> b > 0x7e)) v"
  by (auto simp: printable_def printable_byte_def list_ex_iff list_all_iff)

lemma copy_pad: "length v \<le> w \<Longrightarrow> copy_at 0 v (replicate w p) = v @ replicate (w - length v) p"
  using copy_at_fit [of v w "[]" p] by simp

lemma encodePaddedAscii_Inr:
  "encodePaddedAscii v w p = Inr b \<longleftrightarrow>
     printable v \<and> length v \<le> w \<and> b = v @ replicate (w - length v) p"
  by (auto simp: encodePaddedAscii_def copy_pad)

lemma first_index_pad: "p \<notin> set v \<Longrightarrow> first_index p (v @ replicate n p) = length v"
proof (induction v)
  case Nil
  then show ?case by (cases n) (simp_all add: first_index_def)
qed (auto simp: first_index_def)

lemma decode_padded:
  "printable v \<Longrightarrow> p \<notin> set v \<Longrightarrow> decodePaddedAscii (v @ replicate n p) p = Inr v"
  by (simp add: decodePaddedAscii_def first_index_pad printable_noncontrol(1)) (simp add: list_ex_iff)

text \<open>The fields of the records: the width and the padding byte vary.\<close>

lemma padded_codec:
  "encodePaddedAscii v w p = Inr b \<Longrightarrow> length b = w"
  "encodePaddedAscii v w p = Inr b \<Longrightarrow> p \<notin> set v \<Longrightarrow> decodePaddedAscii b p = Inr v"
  by (auto simp: encodePaddedAscii_Inr decode_padded)

interpretation padded: fixed_codec w "\<lambda>v. encodePaddedAscii v w p" "\<lambda>b. decodePaddedAscii b p"
    "\<lambda>v. p \<notin> set v" for w p
  by unfold_locales (auto dest: padded_codec)

text \<open>A name that its own encoding does not extend: no trailing space.\<close>

definition name_canon :: "gostring \<Rightarrow> bool" where
  "name_canon v \<longleftrightarrow> v = [] \<or> last v \<noteq> 0x20"

lemma encodeFixedAscii_Inr:
  "encodeFixedAscii v = Inr b \<longleftrightarrow> printable v \<and> length v \<le> 8 \<and>
     b = v @ replicate (8 - length v) (if v = [] then 0 else 0x20)"
  by (auto simp: encodeFixedAscii_def copy_pad Let_def)

lemma trim_padding:
  assumes "p = 0 \<or> p = 0x20" "v = [] \<or> (last v \<noteq> 0 \<and> last v \<noteq> 0x20)"
  shows "trimRightBytes (v @ replicate n p) [0, 0x20] = v"
proof -
  have "dropWhile (\<lambda>b. b \<in> set [0, 0x20]) (rev v) = rev v"
    using assms(2) by (cases v rule: rev_cases) auto
  moreover have "dropWhile (\<lambda>b. b \<in> set [0, 0x20]) (replicate n p @ rev v) =
      dropWhile (\<lambda>b. b \<in> set [0, 0x20]) (rev v)"
    using assms(1) by (intro dropWhile_append2) auto
  ultimately show ?thesis by (simp add: trimRightBytes_def)
qed

lemma decode_fixed:
  assumes "printable v" "name_canon v" "p = 0 \<or> p = 0x20"
  shows "decodeFixedAscii (v @ replicate n p) = Inr v"
proof -
  have "v = [] \<or> (last v \<noteq> 0 \<and> last v \<noteq> 0x20)"
    using assms(1,2) by (cases v rule: rev_cases) (auto simp: name_canon_def printable_def printable_byte_def)
  with trim_padding [OF assms(3) this] show ?thesis
    using printable_noncontrol(2) [OF assms(1)] assms(3) by (auto simp: decodeFixedAscii_def list_ex_iff)
qed

interpretation fixed_name: fixed_codec 8 encodeFixedAscii decodeFixedAscii name_canon
  by unfold_locales (auto simp: encodeFixedAscii_Inr decode_fixed decode_fixed [where v = "[]", simplified])

lemma encode_empty_name [simp]: "encodeFixedAscii [] = Inr (replicate 8 0)"
  using encodeFixedAscii_Inr [of "[]"] by (simp add: printable_def)

section \<open>The common header: lemmas\<close>

lemma length_header_layout: "length (h_ConversationID h) = 8 \<Longrightarrow> length (header_layout h) = 48"
  by (simp add: header_layout_def)

lemma InspectPayload_pair:
  "InspectPayload [v, f] = (if v \<noteq> ProtocolVersion then Inl ErrUnsupported
     else Inr \<lparr>pi_ProtocolVersion = v, pi_FunctionCode = f, pi_FunctionName = FunctionName f\<rparr>)"
  by (simp add: InspectPayload_def)

lemma read_header_layout:
  "header_ok h \<Longrightarrow> read_header (rdr c [] (header_layout h)) = Inr (h, rdr c (header_layout h) [])"
  by (simp add: read_header_def header_layout_def header_ok_def InspectPayload_pair codec_simps
      ReadBytes_exact se_return_def)

lemma DecodeHeader_layout:
  assumes "header_ok h"
  shows "DecodeHeader (header_layout h @ rest) = Inr h"
proof -
  have "length (header_layout h) = 48"
    using assms by (simp add: length_header_layout header_ok_def)
  then show ?thesis
    using read_header_layout [OF assms]
    by (simp add: DecodeHeader_def CommonHeaderLength_def gslice_def NewReader_rdr)
qed

lemma ReadBytes_inv:
  "ReadBytes n f (rdr c pre rest) = Inr (b, r') \<Longrightarrow>
     \<exists>rest'. rest = b @ rest' \<and> int (length b) = n \<and> r' = rdr c (pre @ b) rest'"
  by (auto simp: ReadBytes_rdr split: if_splits) (metis append_take_drop_id)

lemmas read_invs = u8.read_inv u16be.read_inv u32be.read_inv i32be.read_inv ReadBytes_inv

lemma Finish_inv: "Reader_Finish (rdr c pre rest) = Inr (u, r') \<Longrightarrow> rest = [] \<and> r' = rdr c pre []"
  by (auto simp: Reader_Finish_rdr split: if_splits)

lemma read_header_inv:
  assumes "read_header (rdr c [] bs) = Inr (h, r)"
  shows "header_ok h \<and> bs = header_layout h"
  using assms unfolding read_header_def se_Inr_iffs se_return_def
  by (auto dest!: read_invs Finish_inv
      simp: header_ok_def header_layout_def InspectPayload_pair split: if_splits)

lemma DecodeHeader_inv:
  assumes "DecodeHeader payload = Inr h"
  shows "header_ok h \<and> 48 \<le> length payload \<and> take 48 payload = header_layout h"
  using assms read_header_inv
  by (auto simp: DecodeHeader_def CommonHeaderLength_def bindE_Inr_iff NewReader_rdr gslice_def
      split: if_splits)

lemma DecodeHeader_iff:
  "DecodeHeader payload = Inr h \<longleftrightarrow> header_ok h \<and> (\<exists>rest. payload = header_layout h @ rest)"
  using DecodeHeader_inv [of payload h] DecodeHeader_layout [of h]
  by (metis append_take_drop_id)

lemma read_header_total:
  assumes "length bs = 48" "bs ! 0 = ProtocolVersion"
  shows "\<exists>h r. read_header (rdr c [] bs) = Inr (h, r)"
proof -
  have "take (Suc 0) bs ! 0 = ProtocolVersion" using assms by simp
  then show ?thesis
    using assms(1)
    by (simp add: read_header_def se_bind_def se_err_Inr read_totals InspectPayload_pair se_lift_Inr
        ReadBytes_rdr Reader_Finish_rdr se_return_def)
qed

lemma DecodeHeader_total:
  "48 \<le> length payload \<Longrightarrow> payload ! 0 = ProtocolVersion \<Longrightarrow> \<exists>h. DecodeHeader payload = Inr h"
  using read_header_total [of "take 48 payload"]
  by (auto simp: DecodeHeader_def CommonHeaderLength_def gslice_def NewReader_rdr bindE_Inr_iff)

lemma DecodeHeader_errors:
  assumes "DecodeHeader payload = Inl e"
  shows "e = ErrRange \<or> e = ErrUnsupported"
proof (cases "length payload < 48")
  case True
  then show ?thesis using assms by (simp add: DecodeHeader_def CommonHeaderLength_def)
next
  case False
  then have v: "take (Suc 0) (take 48 payload) ! 0 \<noteq> ProtocolVersion"
    using assms DecodeHeader_total [of payload] by auto
  have "read_header (rdr c [] (take 48 payload)) = Inl ErrUnsupported" for c
    using v False
    by (simp add: read_header_def se_bind_def se_err_Inr read_totals InspectPayload_pair se_lift_Inl)
  then show ?thesis
    using assms False by (simp add: DecodeHeader_def CommonHeaderLength_def gslice_def NewReader_rdr)
qed

section \<open>Properties\<close>

text \<open>
  The common-header decoder is exact: it accepts a payload if and only if the payload has at
  least 48 bytes and begins with version 6, and it returns \<open>h\<close> if and only if the payload
  begins with the layout of \<open>h\<close> (with version 6, the mnemonic of the function code and an
  8-byte conversation id), so no two headers share a layout and no field is misread.
\<close>

theorem decode_header_exact:
  "(DecodeHeader payload = Inr h \<longleftrightarrow> header_ok h \<and> (\<exists>rest. payload = header_layout h @ rest)) \<and>
   ((\<exists>h'. DecodeHeader payload = Inr h') \<longleftrightarrow> 48 \<le> length payload \<and> payload ! 0 = ProtocolVersion)"
proof
  show "DecodeHeader payload = Inr h \<longleftrightarrow> header_ok h \<and> (\<exists>rest. payload = header_layout h @ rest)"
    by (rule DecodeHeader_iff)
  have "payload ! 0 = ProtocolVersion \<and> 48 \<le> length payload" if "DecodeHeader payload = Inr h'" for h'
    using DecodeHeader_inv [OF that] that by (auto simp: DecodeHeader_iff header_ok_def header_layout_def)
  then show "(\<exists>h'. DecodeHeader payload = Inr h') \<longleftrightarrow> 48 \<le> length payload \<and> payload ! 0 = ProtocolVersion"
    using DecodeHeader_total by blast
qed

text \<open>
  A padded text field comes back from its own decoder if and only if the value does not
  contain the padding byte. With a space as padding a value with an inner space is encoded
  without an error although the decoder does not return it.
\<close>

theorem padded_ascii_roundtrip_iff:
  assumes "encodePaddedAscii v width padding = Inr b"
  shows "length b = width \<and> (decodePaddedAscii b padding = Inr v \<longleftrightarrow> padding \<notin> set v)"
proof -
  have b: "b = v @ replicate (width - length v) padding" and w: "length v \<le> width"
    using assms by (simp_all add: encodePaddedAscii_Inr)
  have "first_index padding b < length v" if "padding \<in> set v"
  proof -
    have "takeWhile (\<lambda>x. x \<noteq> padding) b = takeWhile (\<lambda>x. x \<noteq> padding) v"
      using that unfolding b by (intro takeWhile_append1 [where x = padding]) auto
    moreover have "dropWhile (\<lambda>x. x \<noteq> padding) v \<noteq> []"
      using that by (simp add: dropWhile_eq_Nil_conv)
    moreover have "length v = length (takeWhile (\<lambda>x. x \<noteq> padding) v) + length (dropWhile (\<lambda>x. x \<noteq> padding) v)"
      by (simp flip: length_append)
    ultimately show ?thesis by (simp add: first_index_def)
  qed
  then have "padding \<in> set v \<Longrightarrow> decodePaddedAscii b padding \<noteq> Inr v"
    using w by (auto simp: decodePaddedAscii_def Let_def dest!: arg_cong [where f = length] split: if_splits)
  then show ?thesis
    using padded_codec [OF assms] by blast
qed

lemma replicate_pair: "replicate 2 x = [x, x]"
  by (simp add: numeral_2_eq_2)

theorem padded_ascii_roundtrip_iff_witness:
  "decodePaddedAscii (gostr ''MY APP  '') 0x20 \<noteq> Inr (gostr ''MY APP'')"
  using padded_ascii_roundtrip_iff [of "gostr ''MY APP''" 8 "0x20" "gostr ''MY APP  ''"]
  by (simp add: replicate_pair encodePaddedAscii_Inr gostr_def of_char_def printable_def printable_byte_def)



end
