(* ===== verification/Appc_Records.thy ===== *)
theory Appc_Records
  imports Appc_Header
begin

text \<open>
  Package \<open>appc\<close>, file \<open>records.go\<close>: the record encoder \<open>encodeRecord\<close> with the
  defaults of its header overrides, the operation-information and parameter structures with
  their encoders and decoders, and the control and data records. A nil pointer of the Go
  input structs is \<open>None\<close>. Each structure has a layout specification; the encoders are shown to
  produce it exactly when their field checks pass and the decoders to invert it.
\<close>

section \<open>Writer and reader plumbing\<close>

text \<open>The \<open>put\<close> closure: the first error stops the writes.\<close>

abbreviation ww :: "(writer \<Rightarrow> wire_error + 'a \<times> writer) \<Rightarrow> writer \<Rightarrow> appc_error + 'a \<times> writer" where
  "ww m \<equiv> se_err AppcWire m"

definition putEnc :: "string \<Rightarrow> appc_error + bytes \<Rightarrow> writer \<Rightarrow> appc_error + unit \<times> writer" where
  "putEnc field e = se_bind (se_lift e) (\<lambda>b. ww (WriteBytes b field))"

definition emit_record :: "int \<Rightarrow> string \<Rightarrow> (writer \<Rightarrow> appc_error + unit \<times> writer) \<Rightarrow> appc_error + bytes" where
  "emit_record n context m =
     bindE (map_err AppcWire (NewWriter n context)) (\<lambda>w.
     bindE (m w) (\<lambda>(_, w'). map_err AppcWire (Writer_Finish w')))"

definition takeAscii :: "string \<Rightarrow> reader \<Rightarrow> appc_error + gostring \<times> reader" where
  "takeAscii field = se_bind (rw (ReadBytes 8 field)) (\<lambda>b. se_lift (decodeFixedAscii b))"

definition takePadded :: "nat \<Rightarrow> byte \<Rightarrow> string \<Rightarrow> reader \<Rightarrow> appc_error + gostring \<times> reader" where
  "takePadded n padding field =
     se_bind (rw (ReadBytes (int n) field)) (\<lambda>b. se_lift (decodePaddedAscii b padding))"

definition parse_record :: "(reader \<Rightarrow> appc_error + 'a \<times> reader) \<Rightarrow> bytes \<Rightarrow> string \<Rightarrow> appc_error + 'a" where
  "parse_record m data context = bindE (m (NewReader data context)) (\<lambda>(a, _). Inr a)"

section \<open>Header overrides\<close>

record record_header_input =
  in_Protocol :: "byte option"
  in_Mode :: "byte option"
  in_UID :: "u16 option"
  in_GatewayID :: "u16 option"
  in_ErrorLength :: "u16 option"
  in_Info2 :: "byte option"
  in_TraceLevel :: "byte option"
  in_Time :: "u32 option"
  in_Info3 :: "byte option"
  in_Timeout :: "i32 option"
  in_Info4 :: "byte option"
  in_SequenceNumber :: "u32 option"
  in_Padding :: "u16 option"
  in_Info :: "byte option"
  in_Vector :: "byte option"
  in_AppcReturnCode :: "u32 option"
  in_SapReturnCode :: "u32 option"
  in_ConversationID :: "bytes option"

text \<open>\<open>u8or\<close>, \<open>u16or\<close>, \<open>u32or\<close> and \<open>i32or\<close> differ only in the type.\<close>

definition val_or :: "'a option \<Rightarrow> 'a \<Rightarrow> 'a" where
  "val_or p d = (case p of Some v \<Rightarrow> v | None \<Rightarrow> d)"

definition u8or :: "byte option \<Rightarrow> byte \<Rightarrow> byte" where "u8or = val_or"
definition u16or :: "u16 option \<Rightarrow> u16 \<Rightarrow> u16" where "u16or = val_or"
definition u32or :: "u32 option \<Rightarrow> u32 \<Rightarrow> u32" where "u32or = val_or"
definition i32or :: "i32 option \<Rightarrow> i32 \<Rightarrow> i32" where "i32or = val_or"

section \<open>encodeRecord\<close>

fun write_trailing :: "bytes list \<Rightarrow> writer \<Rightarrow> appc_error + unit \<times> writer" where
  "write_trailing [] = se_return ()"
| "write_trailing (part # parts) =
     se_bind (ww (WriteBytes part ''trailingData'')) (\<lambda>_. write_trailing parts)"

definition write_record ::
    "Function \<Rightarrow> record_header_input \<Rightarrow> nat \<Rightarrow> bytes \<Rightarrow> bytes \<Rightarrow> bytes list \<Rightarrow>
     writer \<Rightarrow> appc_error + unit \<times> writer" where
  "write_record functionCode i sapParameterLength conversationID operationInfo trailing =
     se_bind (ww (WriteUint8 ProtocolVersion ''protocolVersion'')) (\<lambda>_.
     se_bind (ww (WriteUint8 functionCode ''functionCode'')) (\<lambda>_.
     se_bind (ww (WriteUint8 (u8or (in_Protocol i) 2) ''protocol'')) (\<lambda>_.
     se_bind (ww (WriteUint8 (u8or (in_Mode i) 0) ''mode'')) (\<lambda>_.
     se_bind (ww (WriteUint16BE (u16or (in_UID i) 0xffff) ''uid'')) (\<lambda>_.
     se_bind (ww (WriteUint16BE (u16or (in_GatewayID i) 0) ''gatewayId'')) (\<lambda>_.
     se_bind (ww (WriteUint16BE (u16or (in_ErrorLength i) 0) ''errorLength'')) (\<lambda>_.
     se_bind (ww (WriteUint8 (u8or (in_Info2 i) 0) ''info2'')) (\<lambda>_.
     se_bind (ww (WriteUint8 (u8or (in_TraceLevel i) 0) ''traceLevel'')) (\<lambda>_.
     se_bind (ww (WriteUint32BE (u32or (in_Time i) 0) ''time'')) (\<lambda>_.
     se_bind (ww (WriteUint8 (u8or (in_Info3 i) 0) ''info3'')) (\<lambda>_.
     se_bind (ww (WriteInt32BE (i32or (in_Timeout i) 0) ''timeout'')) (\<lambda>_.
     se_bind (ww (WriteUint8 (u8or (in_Info4 i) 0) ''info4'')) (\<lambda>_.
     se_bind (ww (WriteUint32BE (u32or (in_SequenceNumber i) 0) ''sequenceNumber'')) (\<lambda>_.
     se_bind (ww (WriteUint16BE (of_nat sapParameterLength) ''sapParameterLength'')) (\<lambda>_.
     se_bind (ww (WriteUint16BE (u16or (in_Padding i) 0) ''padding'')) (\<lambda>_.
     se_bind (ww (WriteUint8 (u8or (in_Info i) 0) ''info'')) (\<lambda>_.
     se_bind (ww (WriteUint8 (u8or (in_Vector i) 0) ''vector'')) (\<lambda>_.
     se_bind (ww (WriteUint32BE (u32or (in_AppcReturnCode i) 0) ''appcReturnCode'')) (\<lambda>_.
     se_bind (ww (WriteUint32BE (u32or (in_SapReturnCode i) 0) ''sapReturnCode'')) (\<lambda>_.
     se_bind (ww (WriteBytes conversationID ''conversationId'')) (\<lambda>_.
     se_bind (ww (WriteBytes operationInfo ''operationInfo'')) (\<lambda>_.
     write_trailing trailing))))))))))))))))))))))"

definition conversation_or_zero :: "record_header_input \<Rightarrow> bytes" where
  "conversation_or_zero i = val_or (in_ConversationID i) (replicate 8 0)"

text \<open>
  The trailing parts are written after the header; \<open>sapParameterLength\<close> is a length or a small
  constant at every call, so its negative branch does not arise.
\<close>

definition encodeRecord ::
    "Function \<Rightarrow> record_header_input \<Rightarrow> bytes \<Rightarrow> nat \<Rightarrow> bytes list \<Rightarrow> string \<Rightarrow> appc_error + bytes" where
  "encodeRecord functionCode i operationInfo sapParameterLength trailing context =
     bindE (fail_if (length (conversation_or_zero i) \<noteq> 8) ErrRange) (\<lambda>_.
     bindE (exactBytes operationInfo 32) (\<lambda>encodedOperationInfo.
     bindE (fail_if (sapParameterLength > 0xffff) ErrRange) (\<lambda>_.
       let trailingDataLength = sum_list (map length trailing) in
       emit_record (int (RecordHeaderLength + trailingDataLength)) context
         (write_record functionCode i sapParameterLength (conversation_or_zero i)
            encodedOperationInfo trailing))))"

section \<open>Operation information\<close>

record extended_info =
  ei_ShortDestinationName :: gostring
  ei_LogicalUnitName :: gostring
  ei_TransactionProgramName :: gostring
  ei_ConnectionType :: byte
  ei_ClientInfo :: byte
  ei_CommunicationIndex :: u16
  ei_ConnectionIndex :: u16

definition defaultExtendedInfo :: extended_info where
  "defaultExtendedInfo =
     \<lparr>ei_ShortDestinationName = [], ei_LogicalUnitName = [], ei_TransactionProgramName = [],
      ei_ConnectionType = 0, ei_ClientInfo = 0, ei_CommunicationIndex = 0, ei_ConnectionIndex = 0\<rparr>"

definition EncodeExtendedInfo :: "extended_info \<Rightarrow> appc_error + bytes" where
  "EncodeExtendedInfo info =
     emit_record 32 ''APPC extended info''
       (se_bind (putEnc ''shortDestinationName'' (encodeFixedAscii (ei_ShortDestinationName info))) (\<lambda>_.
        se_bind (putEnc ''logicalUnitName'' (encodeFixedAscii (ei_LogicalUnitName info))) (\<lambda>_.
        se_bind (putEnc ''transactionProgramName'' (encodeFixedAscii (ei_TransactionProgramName info))) (\<lambda>_.
        se_bind (ww (WriteUint8 (ei_ConnectionType info) ''connectionType'')) (\<lambda>_.
        se_bind (ww (WriteUint8 (ei_ClientInfo info) ''clientInfo'')) (\<lambda>_.
        se_bind (ww (WriteUint16BE 0 ''reserved'')) (\<lambda>_.
        se_bind (ww (WriteUint16BE (ei_CommunicationIndex info) ''communicationIndex'')) (\<lambda>_.
        ww (WriteUint16BE (ei_ConnectionIndex info) ''connectionIndex'')))))))))"

definition DecodeExtendedInfo :: "bytes \<Rightarrow> appc_error + extended_info" where
  "DecodeExtendedInfo data =
     (if length data \<noteq> 32 then Inl ErrRange
      else parse_record
       (se_bind (takeAscii ''shortDestinationName'') (\<lambda>short.
        se_bind (takeAscii ''logicalUnitName'') (\<lambda>lu.
        se_bind (takeAscii ''transactionProgramName'') (\<lambda>tp.
        se_bind (rw (ReadUint8 ''connectionType'')) (\<lambda>connectionType.
        se_bind (rw (ReadUint8 ''clientInfo'')) (\<lambda>clientInfo.
        se_bind (rw (ReadUint16BE ''reserved'')) (\<lambda>reserved.
        se_bind (se_lift (fail_if (reserved \<noteq> 0) ErrProtocol)) (\<lambda>_.
        se_bind (rw (ReadUint16BE ''communicationIndex'')) (\<lambda>communicationIndex.
        se_bind (rw (ReadUint16BE ''connectionIndex'')) (\<lambda>connectionIndex.
        se_bind (rw Reader_Finish) (\<lambda>_.
        se_return \<lparr>ei_ShortDestinationName = short, ei_LogicalUnitName = lu,
          ei_TransactionProgramName = tp, ei_ConnectionType = connectionType,
          ei_ClientInfo = clientInfo, ei_CommunicationIndex = communicationIndex,
          ei_ConnectionIndex = connectionIndex\<rparr>))))))))))) data ''APPC extended info'')"

record partner_lu_input =
  pl_LogicalUnitName :: gostring
  pl_PartnerHostAddress :: bytes
  pl_CommunicationIndex :: u16
  pl_ConnectionIndex :: u16

record partner_lu_info =
  pd_LogicalUnitNamePrefix :: gostring
  pd_LogicalUnitNameLength :: u32
  pd_PartnerHostAddress :: bytes
  pd_CommunicationIndex :: u16
  pd_ConnectionIndex :: u16

definition EncodePartnerLogicalUnitInfo :: "partner_lu_input \<Rightarrow> appc_error + bytes" where
  "EncodePartnerLogicalUnitInfo info =
     bindE (fail_if (\<not> printable (pl_LogicalUnitName info) \<or> length (pl_LogicalUnitName info) > 128)
        ErrRange) (\<lambda>_.
     let name = (if length (pl_LogicalUnitName info) > 8 then take 8 (pl_LogicalUnitName info)
                 else pl_LogicalUnitName info) in
     bindE (encodeFixedAscii name) (\<lambda>prefix.
     bindE (fail_if (length (pl_PartnerHostAddress info) \<noteq> 16) ErrRange) (\<lambda>_.
     emit_record 32 ''APPC partner logical-unit info''
       (se_bind (ww (WriteBytes prefix ''logicalUnitNamePrefix'')) (\<lambda>_.
        se_bind (ww (WriteUint32BE (of_nat (length (pl_LogicalUnitName info))) ''logicalUnitNameLength'')) (\<lambda>_.
        se_bind (ww (WriteBytes (pl_PartnerHostAddress info) ''partnerHostAddress'')) (\<lambda>_.
        se_bind (ww (WriteUint16BE (pl_CommunicationIndex info) ''communicationIndex'')) (\<lambda>_.
        ww (WriteUint16BE (pl_ConnectionIndex info) ''connectionIndex'')))))))))"

definition DecodePartnerLogicalUnitInfo :: "bytes \<Rightarrow> appc_error + partner_lu_info" where
  "DecodePartnerLogicalUnitInfo data =
     (if length data \<noteq> 32 then Inl ErrRange
      else parse_record
       (se_bind (rw (ReadBytes 8 ''logicalUnitNamePrefix'')) (\<lambda>encodedName.
        se_bind (rw (ReadUint32BE ''logicalUnitNameLength'')) (\<lambda>nameLength.
        se_bind (se_lift (fail_if (nameLength > 128) ErrProtocol)) (\<lambda>_.
        se_bind (se_lift (decodeFixedAscii encodedName)) (\<lambda>prefix.
        se_bind (se_lift (fail_if (length prefix \<noteq> min (unat nameLength) 8) ErrProtocol)) (\<lambda>_.
        se_bind (rw (ReadBytes 16 ''partnerHostAddress'')) (\<lambda>host.
        se_bind (rw (ReadUint16BE ''communicationIndex'')) (\<lambda>commIdx.
        se_bind (rw (ReadUint16BE ''connectionIndex'')) (\<lambda>connIdx.
        se_bind (rw Reader_Finish) (\<lambda>_.
        se_return \<lparr>pd_LogicalUnitNamePrefix = prefix, pd_LogicalUnitNameLength = nameLength,
          pd_PartnerHostAddress = host, pd_CommunicationIndex = commIdx,
          pd_ConnectionIndex = connIdx\<rparr>)))))))))) data ''APPC partner logical-unit info'')"

section \<open>F_INITIALIZE and partner parameters\<close>

record extended_initialize_options =
  eo_OptionFlags :: byte
  eo_RootID :: gostring
  eo_ConnectionID :: gostring
  eo_ConnectionIDSuffix :: u32
  eo_Timeout :: i32
  eo_KeepaliveTimeout :: i32
  eo_ExportTrace :: byte
  eo_StartType :: byte
  eo_NetworkProtocol :: byte
  eo_LocalAddressV6 :: bytes
  eo_LongLogicalUnitName :: gostring
  eo_OperatingSystemUser :: gostring
  eo_LocalAddressV4 :: bytes
  eo_LongTransactionProgramName :: gostring

definition EncodeExtendedInitializeOptions :: "extended_initialize_options \<Rightarrow> appc_error + bytes" where
  "EncodeExtendedInitializeOptions o' =
     emit_record (int ExtendedInitializeOptionsLength) ''APPC extended initialize options''
       (se_bind (ww (WriteUint8 1 ''version'')) (\<lambda>_.
        se_bind (ww (WriteUint8 (eo_OptionFlags o') ''optionFlags'')) (\<lambda>_.
        se_bind (putEnc ''protocolName'' (encodePaddedAscii (gostr ''CPIC'') 8 0)) (\<lambda>_.
        se_bind (putEnc ''rootId'' (fixedHexID (eo_RootID o'))) (\<lambda>_.
        se_bind (putEnc ''connectionId'' (fixedHexID (eo_ConnectionID o'))) (\<lambda>_.
        se_bind (ww (WriteUint32BE (eo_ConnectionIDSuffix o') ''connectionIdSuffix'')) (\<lambda>_.
        se_bind (ww (WriteInt32BE (eo_Timeout o') ''timeout'')) (\<lambda>_.
        se_bind (ww (WriteInt32BE (eo_KeepaliveTimeout o') ''keepaliveTimeout'')) (\<lambda>_.
        se_bind (ww (WriteUint8 (eo_ExportTrace o') ''exportTrace'')) (\<lambda>_.
        se_bind (ww (WriteUint8 (eo_StartType o') ''startType'')) (\<lambda>_.
        se_bind (ww (WriteUint8 (eo_NetworkProtocol o') ''networkProtocol'')) (\<lambda>_.
        se_bind (putEnc ''localAddressV6'' (exactBytes (eo_LocalAddressV6 o') 16)) (\<lambda>_.
        se_bind (putEnc ''longLogicalUnitName'' (encodePaddedAscii (eo_LongLogicalUnitName o') 128 0)) (\<lambda>_.
        se_bind (ww (WriteBytes (replicate 16 0) ''reserved1'')) (\<lambda>_.
        se_bind (putEnc ''operatingSystemUser'' (encodePaddedAscii (eo_OperatingSystemUser o') 12 0x20)) (\<lambda>_.
        se_bind (ww (WriteBytes (replicate 8 0) ''reserved2'')) (\<lambda>_.
        se_bind (ww (WriteBytes (replicate 4 0) ''reserved3'')) (\<lambda>_.
        se_bind (ww (WriteBytes (replicate 12 0) ''reserved4'')) (\<lambda>_.
        se_bind (ww (WriteBytes (replicate 16 0) ''reserved5'')) (\<lambda>_.
        se_bind (putEnc ''localAddressV4'' (exactBytes (eo_LocalAddressV4 o') 4)) (\<lambda>_.
        se_bind (ww (WriteBytes (replicate 4 0) ''reserved6'')) (\<lambda>_.
        putEnc ''longTransactionProgramName''
          (encodePaddedAscii (eo_LongTransactionProgramName o') 64 0)))))))))))))))))))))))"

definition readZeroReserved :: "string \<Rightarrow> nat \<Rightarrow> reader \<Rightarrow> appc_error + unit \<times> reader" where
  "readZeroReserved field n =
     se_bind (rw (ReadBytes (int n) field)) (\<lambda>b. se_lift (fail_if (list_ex (\<lambda>x. x \<noteq> 0) b) ErrProtocol))"

definition readHexID :: "string \<Rightarrow> reader \<Rightarrow> appc_error + gostring \<times> reader" where
  "readHexID field = se_bind (rw (ReadBytes 16 field)) (\<lambda>b. se_lift (fixedHexID b))"

definition DecodeExtendedInitializeOptions :: "bytes \<Rightarrow> appc_error + extended_initialize_options" where
  "DecodeExtendedInitializeOptions data =
     (if length data \<noteq> ExtendedInitializeOptionsLength then Inl ErrRange
      else parse_record
       (se_bind (rw (ReadUint8 ''version'')) (\<lambda>version.
        se_bind (se_lift (fail_if (version \<noteq> 1) ErrUnsupported)) (\<lambda>_.
        se_bind (rw (ReadUint8 ''optionFlags'')) (\<lambda>optionFlags.
        se_bind (takePadded 8 0 ''protocolName'') (\<lambda>protocolName.
        se_bind (se_lift (fail_if (protocolName \<noteq> gostr ''CPIC'') ErrUnsupported)) (\<lambda>_.
        se_bind (readHexID ''rootId'') (\<lambda>rootID.
        se_bind (readHexID ''connectionId'') (\<lambda>connectionID.
        se_bind (rw (ReadUint32BE ''connectionIdSuffix'')) (\<lambda>suffix.
        se_bind (rw (ReadInt32BE ''timeout'')) (\<lambda>timeout.
        se_bind (rw (ReadInt32BE ''keepaliveTimeout'')) (\<lambda>keepalive.
        se_bind (rw (ReadUint8 ''exportTrace'')) (\<lambda>exportTrace.
        se_bind (rw (ReadUint8 ''startType'')) (\<lambda>startType.
        se_bind (rw (ReadUint8 ''networkProtocol'')) (\<lambda>networkProtocol.
        se_bind (rw (ReadBytes 16 ''localAddressV6'')) (\<lambda>v6.
        se_bind (takePadded 128 0 ''longLogicalUnitName'') (\<lambda>lu.
        se_bind (readZeroReserved ''reserved1'' 16) (\<lambda>_.
        se_bind (takePadded 12 0x20 ''operatingSystemUser'') (\<lambda>user.
        se_bind (readZeroReserved ''reserved2'' 8) (\<lambda>_.
        se_bind (readZeroReserved ''reserved3'' 4) (\<lambda>_.
        se_bind (readZeroReserved ''reserved4'' 12) (\<lambda>_.
        se_bind (readZeroReserved ''reserved5'' 16) (\<lambda>_.
        se_bind (rw (ReadBytes 4 ''localAddressV4'')) (\<lambda>v4.
        se_bind (readZeroReserved ''reserved6'' 4) (\<lambda>_.
        se_bind (takePadded 64 0 ''longTransactionProgramName'') (\<lambda>tp.
        se_bind (rw Reader_Finish) (\<lambda>_.
        se_return \<lparr>eo_OptionFlags = optionFlags, eo_RootID = rootID, eo_ConnectionID = connectionID,
          eo_ConnectionIDSuffix = suffix, eo_Timeout = timeout, eo_KeepaliveTimeout = keepalive,
          eo_ExportTrace = exportTrace, eo_StartType = startType, eo_NetworkProtocol = networkProtocol,
          eo_LocalAddressV6 = v6, eo_LongLogicalUnitName = lu, eo_OperatingSystemUser = user,
          eo_LocalAddressV4 = v4, eo_LongTransactionProgramName = tp\<rparr>)))))))))))))))))))))))))) data
          ''APPC extended initialize options'')"

record initialize_parameters =
  ip_ClientIdentifier :: gostring
  ip_Options :: extended_initialize_options

definition EncodeInitializeParameters :: "initialize_parameters \<Rightarrow> appc_error + bytes" where
  "EncodeInitializeParameters p =
     bindE (encodePaddedAscii (ip_ClientIdentifier p) 32 0x20) (\<lambda>clientID.
     bindE (EncodeExtendedInitializeOptions (ip_Options p)) (\<lambda>options.
     emit_record (int InitializeParametersLength) ''APPC initialize parameters''
       (se_bind (ww (WriteBytes clientID ''clientIdentifier'')) (\<lambda>_.
        ww (WriteBytes options ''extendedOptions'')))))"

definition DecodeInitializeParameters :: "bytes \<Rightarrow> appc_error + initialize_parameters" where
  "DecodeInitializeParameters data =
     (if length data \<noteq> InitializeParametersLength then Inl ErrRange
      else parse_record
       (se_bind (takePadded 32 0x20 ''clientIdentifier'') (\<lambda>clientID.
        se_bind (rw (ReadBytes (int ExtendedInitializeOptionsLength) ''extendedOptions'')) (\<lambda>optionsBytes.
        se_bind (se_lift (DecodeExtendedInitializeOptions optionsBytes)) (\<lambda>options.
        se_bind (rw Reader_Finish) (\<lambda>_.
        se_return \<lparr>ip_ClientIdentifier = clientID, ip_Options = options\<rparr>)))))
       data ''APPC initialize parameters'')"

record partner_lu_parameters =
  pp_LongLogicalUnitName :: gostring
  pp_PartnerHostAddress :: bytes

definition EncodePartnerLogicalUnitParameters :: "partner_lu_parameters \<Rightarrow> appc_error + bytes" where
  "EncodePartnerLogicalUnitParameters p =
     bindE (encodePaddedAscii (pp_LongLogicalUnitName p) 128 0x20) (\<lambda>name.
     bindE (exactBytes (pp_PartnerHostAddress p) 16) (\<lambda>host.
     emit_record (int PartnerParametersLength) ''APPC partner logical-unit parameters''
       (se_bind (ww (WriteBytes name ''longLogicalUnitName'')) (\<lambda>_.
        ww (WriteBytes host ''partnerHostAddress'')))))"

definition DecodePartnerLogicalUnitParameters :: "bytes \<Rightarrow> appc_error + partner_lu_parameters" where
  "DecodePartnerLogicalUnitParameters data =
     (if length data \<noteq> PartnerParametersLength then Inl ErrRange
      else parse_record
       (se_bind (takePadded 128 0x20 ''longLogicalUnitName'') (\<lambda>name.
        se_bind (rw (ReadBytes 16 ''partnerHostAddress'')) (\<lambda>host.
        se_bind (rw Reader_Finish) (\<lambda>_.
        se_return \<lparr>pp_LongLogicalUnitName = name, pp_PartnerHostAddress = host\<rparr>))))
       data ''APPC partner logical-unit parameters'')"

section \<open>Control and data records\<close>

record control_record_input =
  cr_Header :: record_header_input
  cr_FunctionCode :: Function
  cr_ExtendedInfo :: "extended_info option"
  cr_PartnerLogicalUnitInfo :: "partner_lu_input option"
  cr_Parameters :: bytes

definition EncodeControlRecord :: "control_record_input \<Rightarrow> appc_error + bytes" where
  "EncodeControlRecord i =
     bindE (fail_if (cr_FunctionCode i \<notin> set controlFunctions) ErrProtocol) (\<lambda>_.
     bindE (fail_if (length (cr_Parameters i) > 0xffff) ErrRange) (\<lambda>_.
     bindE (fail_if (cr_ExtendedInfo i \<noteq> None \<and> cr_PartnerLogicalUnitInfo i \<noteq> None) ErrProtocol) (\<lambda>_.
     bindE (fail_if (cr_PartnerLogicalUnitInfo i \<noteq> None \<and> cr_FunctionCode i \<noteq> FuncSetPartnerLuName)
        ErrProtocol) (\<lambda>_.
     bindE (fail_if (cr_FunctionCode i = FuncSetPartnerLuName \<and> cr_PartnerLogicalUnitInfo i = None)
        ErrProtocol) (\<lambda>_.
     bindE (case cr_PartnerLogicalUnitInfo i of
              Some partner \<Rightarrow> EncodePartnerLogicalUnitInfo partner
            | None \<Rightarrow> EncodeExtendedInfo (val_or (cr_ExtendedInfo i) defaultExtendedInfo)) (\<lambda>operationInfo.
     encodeRecord (cr_FunctionCode i) (cr_Header i) operationInfo (length (cr_Parameters i))
       [cr_Parameters i] ''APPC control record''))))))"

record data_record_input =
  dr_Header :: record_header_input
  dr_FunctionCode :: "Function option"
  dr_Data :: bytes
  dr_CommunicationIndex :: u16
  dr_ConnectionIndex :: u16
  dr_IsFinal :: "bool option"

definition EncodeDataRecord :: "data_record_input \<Rightarrow> appc_error + bytes" where
  "EncodeDataRecord i =
     (let isFinal = (dr_IsFinal i = None \<or> dr_IsFinal i = Some True);
          functionCode = val_or (dr_FunctionCode i) FuncSapSend in
      bindE (EncodeExtendedInfo (defaultExtendedInfo
          \<lparr>ei_CommunicationIndex := dr_CommunicationIndex i, ei_ConnectionIndex := dr_ConnectionIndex i\<rparr>))
        (\<lambda>operationInfo.
      let header = dr_Header i;
          header = (if in_Info header = None
                    then header\<lparr>in_Info := Some (if isFinal then 5 else 1)\<rparr> else header);
          header = (if in_Vector header = None
                    then header\<lparr>in_Vector := Some (if isFinal then 0x0c
                           else if functionCode = FuncSapSend then 0x08 else 0)\<rparr> else header);
          sapParameterLength = (if isFinal then 8 else 0)
      in encodeRecord functionCode header operationInfo sapParameterLength [dr_Data i]
           ''APPC data record''))"

section \<open>Layout specifications\<close>

text \<open>The header a record carries for given overrides: the defaults of the Go encoder.\<close>

definition header_of :: "Function \<Rightarrow> record_header_input \<Rightarrow> nat \<Rightarrow> header" where
  "header_of fc i sap =
     \<lparr>h_PayloadInfo = \<lparr>pi_ProtocolVersion = ProtocolVersion, pi_FunctionCode = fc,
        pi_FunctionName = FunctionName fc\<rparr>,
      h_Protocol = u8or (in_Protocol i) 2, h_Mode = u8or (in_Mode i) 0,
      h_UID = u16or (in_UID i) 0xffff, h_GatewayID = u16or (in_GatewayID i) 0,
      h_ErrorLength = u16or (in_ErrorLength i) 0, h_Info2 = u8or (in_Info2 i) 0,
      h_TraceLevel = u8or (in_TraceLevel i) 0, h_Time = u32or (in_Time i) 0,
      h_Info3 = u8or (in_Info3 i) 0, h_Timeout = i32or (in_Timeout i) 0,
      h_Info4 = u8or (in_Info4 i) 0, h_SequenceNumber = u32or (in_SequenceNumber i) 0,
      h_SapParameterLen = of_nat sap, h_Padding = u16or (in_Padding i) 0,
      h_Info = u8or (in_Info i) 0, h_Vector = u8or (in_Vector i) 0,
      h_AppcReturnCode = u32or (in_AppcReturnCode i) 0,
      h_SapReturnCode = u32or (in_SapReturnCode i) 0, h_ConversationID = conversation_or_zero i\<rparr>"

definition pad_to :: "nat \<Rightarrow> byte \<Rightarrow> bytes \<Rightarrow> bytes" where
  "pad_to w p v = v @ replicate (w - length v) p"

definition name_field :: "gostring \<Rightarrow> bytes" where
  "name_field v = pad_to 8 (if v = [] then 0 else 0x20) v"

definition extended_info_layout :: "extended_info \<Rightarrow> bytes" where
  "extended_info_layout info =
     name_field (ei_ShortDestinationName info) @ name_field (ei_LogicalUnitName info) @
     name_field (ei_TransactionProgramName info) @ [ei_ConnectionType info, ei_ClientInfo info] @
     put16be 0 @ put16be (ei_CommunicationIndex info) @ put16be (ei_ConnectionIndex info)"

definition extended_info_encodable :: "extended_info \<Rightarrow> bool" where
  "extended_info_encodable info \<longleftrightarrow>
     list_all (\<lambda>v. printable v \<and> length v \<le> 8)
       [ei_ShortDestinationName info, ei_LogicalUnitName info, ei_TransactionProgramName info]"

definition extended_info_canon :: "extended_info \<Rightarrow> bool" where
  "extended_info_canon info \<longleftrightarrow>
     list_all name_canon
       [ei_ShortDestinationName info, ei_LogicalUnitName info, ei_TransactionProgramName info]"

definition options_layout :: "extended_initialize_options \<Rightarrow> bytes" where
  "options_layout o' =
     [1, eo_OptionFlags o'] @ pad_to 8 0 (gostr ''CPIC'') @ eo_RootID o' @ eo_ConnectionID o' @
     put32be (eo_ConnectionIDSuffix o') @ put32be (eo_Timeout o') @ put32be (eo_KeepaliveTimeout o') @
     [eo_ExportTrace o', eo_StartType o', eo_NetworkProtocol o'] @ eo_LocalAddressV6 o' @
     pad_to 128 0 (eo_LongLogicalUnitName o') @ replicate 16 0 @
     pad_to 12 0x20 (eo_OperatingSystemUser o') @
     replicate 8 0 @ replicate 4 0 @ replicate 12 0 @ replicate 16 0 @
     eo_LocalAddressV4 o' @ replicate 4 0 @ pad_to 64 0 (eo_LongTransactionProgramName o')"

definition options_encodable :: "extended_initialize_options \<Rightarrow> bool" where
  "options_encodable o' \<longleftrightarrow> hexIDPattern (eo_RootID o') \<and> hexIDPattern (eo_ConnectionID o') \<and>
     length (eo_LocalAddressV6 o') = 16 \<and> length (eo_LocalAddressV4 o') = 4 \<and>
     printable (eo_LongLogicalUnitName o') \<and> length (eo_LongLogicalUnitName o') \<le> 128 \<and>
     printable (eo_OperatingSystemUser o') \<and> length (eo_OperatingSystemUser o') \<le> 12 \<and>
     printable (eo_LongTransactionProgramName o') \<and> length (eo_LongTransactionProgramName o') \<le> 64"

text \<open>The one padded field whose padding byte is printable is the user name.\<close>

definition options_canon :: "extended_initialize_options \<Rightarrow> bool" where
  "options_canon o' \<longleftrightarrow> 0x20 \<notin> set (eo_OperatingSystemUser o')"

section \<open>Records: lemmas\<close>

lemmas or_defs = u8or_def u16or_def u32or_def i32or_def val_or_def

lemma header_of_ok: "length (conversation_or_zero i) = 8 \<Longrightarrow> header_ok (header_of fc i sap)"
  by (simp add: header_ok_def header_of_def)

lemma header_of_sel [simp]:
  "h_FunctionCode (header_of fc i sap) = fc"
  "h_FunctionName (header_of fc i sap) = FunctionName fc"
  "h_Vector (header_of fc i sap) = u8or (in_Vector i) 0"
  "h_Info (header_of fc i sap) = u8or (in_Info i) 0"
  "h_SequenceNumber (header_of fc i sap) = u32or (in_SequenceNumber i) 0"
  "h_ConversationID (header_of fc i sap) = conversation_or_zero i"
  "h_AppcReturnCode (header_of fc i sap) = u32or (in_AppcReturnCode i) 0"
  "h_SapReturnCode (header_of fc i sap) = u32or (in_SapReturnCode i) 0"
  "h_SapParameterLen (header_of fc i sap) = of_nat sap"
  by (simp_all add: header_of_def)

lemma write_trailing_step:
  "sum_list (map length parts) = k \<Longrightarrow>
     write_trailing parts (wtr c out k) = Inr ((), wtr c (out @ concat parts) 0)"
  by (induction parts arbitrary: out k) (auto simp: codec_simps se_return_def)

lemma emit_record_step:
  "0 \<le> n \<Longrightarrow> m (wtr (record_context context) [] (nat n)) = Inr (u, wtr c out 0) \<Longrightarrow>
     emit_record n context m = Inr out"
  by (simp add: emit_record_def codec_simps)

lemma emit_record_Inr:
  "emit_record n context m = Inr b \<Longrightarrow> \<exists>w u w'. m w = Inr (u, w') \<and> int (length (wr_data w')) = int (wr_offset w')"
  by (auto simp: emit_record_def bindE_Inr_iff Writer_Finish_def Writer_Remaining_def split: if_splits)

lemma write_record_step:
  assumes "length cid = 8" "length op = 32" "k = 80 + sum_list (map length tr)"
    "cid = conversation_or_zero i"
  shows "write_record fc i sap cid op tr (wtr c [] k) =
     Inr ((), wtr c (header_layout (header_of fc i sap) @ op @ concat tr) 0)"
  using assms
  by (simp add: write_record_def codec_simps write_trailing_step header_layout_def header_of_def)

lemma encodeRecord_layout:
  assumes "length (conversation_or_zero i) = 8" "length op = 32" "sap \<le> 0xffff"
  shows "encodeRecord fc i op sap tr ctx = Inr (header_layout (header_of fc i sap) @ op @ concat tr)"
proof -
  have "write_record fc i sap (conversation_or_zero i) op tr
      (wtr (record_context ctx) [] (nat (int (RecordHeaderLength + sum_list (map length tr))))) =
      Inr ((), wtr (record_context ctx) (header_layout (header_of fc i sap) @ op @ concat tr) 0)"
    using assms by (intro write_record_step) (simp_all add: RecordHeaderLength_def)
  then show ?thesis
    using assms by (simp add: encodeRecord_def exactBytes_def bindE_fail_if emit_record_step)
qed

lemma encodeRecord_Inr:
  "encodeRecord fc i op sap tr ctx = Inr b \<longleftrightarrow>
     length (conversation_or_zero i) = 8 \<and> length op = 32 \<and> sap \<le> 0xffff \<and>
     b = header_layout (header_of fc i sap) @ op @ concat tr"
proof (cases "length (conversation_or_zero i) = 8 \<and> length op = 32 \<and> sap \<le> 0xffff")
  case False
  then show ?thesis by (auto simp: encodeRecord_def bindE_fail_if exactBytes_def)
qed (auto simp: encodeRecord_layout)

lemma encodeRecord_decode:
  assumes "encodeRecord fc i op sap tr ctx = Inr b"
  shows "DecodeHeader b = Inr (header_of fc i sap)" and "length b = 80 + length (concat tr)"
    and "gslice 48 80 b = op" and "drop 80 b = concat tr"
proof -
  have b: "b = header_layout (header_of fc i sap) @ op @ concat tr" and l: "length op = 32"
    and ok: "header_ok (header_of fc i sap)"
    using assms header_of_ok by (auto simp: encodeRecord_Inr)
  have h: "length (header_layout (header_of fc i sap)) = 48"
    using ok by (simp add: length_header_layout header_ok_def)
  show "DecodeHeader b = Inr (header_of fc i sap)"
    unfolding b by (rule DecodeHeader_layout [OF ok])
  show "length b = 80 + length (concat tr)" "gslice 48 80 b = op" "drop 80 b = concat tr"
    using h l by (simp_all add: b gslice_def)
qed

section \<open>Operation information and parameters: lemmas\<close>

lemma pad_to_length: "length v \<le> w \<Longrightarrow> length (pad_to w p v) = w"
  by (simp add: pad_to_def)

lemma name_field_length: "length v \<le> 8 \<Longrightarrow> length (name_field v) = 8"
  by (simp add: name_field_def pad_to_length)

lemma encodeFixedAscii_field: "printable v \<Longrightarrow> length v \<le> 8 \<Longrightarrow> encodeFixedAscii v = Inr (name_field v)"
  by (simp add: encodeFixedAscii_Inr name_field_def pad_to_def)

lemma encodePaddedAscii_field:
  "printable v \<Longrightarrow> length v \<le> w \<Longrightarrow> encodePaddedAscii v w p = Inr (pad_to w p v)"
  by (simp add: encodePaddedAscii_Inr pad_to_def)

lemma takeAscii_step:
  "printable v \<Longrightarrow> length v \<le> 8 \<Longrightarrow> name_canon v \<Longrightarrow>
     takeAscii f (rdr c pre (name_field v @ rest)) = Inr (v, rdr c (pre @ name_field v) rest)"
  by (simp add: takeAscii_def codec_simps name_field_length)
    (simp add: name_field_def pad_to_def decode_fixed decode_fixed [where v = "[]", simplified] codec_simps)

lemma takePadded_step:
  "printable v \<Longrightarrow> length v \<le> w \<Longrightarrow> p \<notin> set v \<Longrightarrow>
     takePadded w p f (rdr c pre (pad_to w p v @ rest)) = Inr (v, rdr c (pre @ pad_to w p v) rest)"
  by (simp add: takePadded_def codec_simps pad_to_length) (simp add: pad_to_def decode_padded codec_simps)

lemma takePadded_last:
  "printable v \<Longrightarrow> length v \<le> w \<Longrightarrow> p \<notin> set v \<Longrightarrow>
     takePadded w p f (rdr c pre (pad_to w p v)) = Inr (v, rdr c (pre @ pad_to w p v) [])"
  using takePadded_step [of v w p f c pre "[]"] by simp

lemma readZero_step:
  "readZeroReserved f n (rdr c pre (replicate n 0 @ rest)) = Inr ((), rdr c (pre @ replicate n 0) rest)"
  by (simp add: readZeroReserved_def codec_simps list_ex_iff fail_if_def)

lemma readHexID_step:
  "hexIDPattern v \<Longrightarrow> readHexID f (rdr c pre (v @ rest)) = Inr (v, rdr c (pre @ v) rest)"
  by (simp add: readHexID_def hexIDPattern_def codec_simps fixedHexID_def)

lemma u16be_last: "ReadUint16BE f (rdr c pre (put16be v)) = Inr (v, rdr c (pre @ put16be v) [])"
  using u16be.read_step [of f c pre v "[]"] by simp

lemmas field_steps = takeAscii_step takePadded_step takePadded_last readZero_step readHexID_step u16be_last

lemma EncodeExtendedInfo_Inr:
  "EncodeExtendedInfo info = Inr b \<longleftrightarrow>
     extended_info_encodable info \<and> b = extended_info_layout info"
proof (cases "extended_info_encodable info")
  case True
  then have "EncodeExtendedInfo info = Inr (extended_info_layout info)"
    unfolding EncodeExtendedInfo_def
    by (intro emit_record_step [where u = "()"])
      (simp_all add: extended_info_encodable_def extended_info_layout_def putEnc_def codec_simps
        encodeFixedAscii_field name_field_length)
  with True show ?thesis by auto
next
  case False
  then show ?thesis
    by (auto simp: EncodeExtendedInfo_def extended_info_encodable_def putEnc_def encodeFixedAscii_Inr
        se_Inr_iffs dest!: emit_record_Inr)
qed

lemma extended_info_length:
  "extended_info_encodable info \<Longrightarrow> length (extended_info_layout info) = 32"
  by (simp add: extended_info_layout_def extended_info_encodable_def name_field_length)

lemma DecodeExtendedInfo_layout:
  assumes "extended_info_encodable info" "extended_info_canon info"
  shows "DecodeExtendedInfo (extended_info_layout info) = Inr info"
  using assms extended_info_length [OF assms(1)]
  by (simp add: DecodeExtendedInfo_def parse_record_def NewReader_rdr)
    (simp add: extended_info_layout_def extended_info_encodable_def extended_info_canon_def
      codec_simps field_steps se_return_def fail_if_def)

lemma fixedHexID_Inr: "fixedHexID v = Inr b \<longleftrightarrow> hexIDPattern v \<and> b = v"
  by (auto simp: fixedHexID_def)

lemma exactBytes_Inr: "exactBytes v n = Inr b \<longleftrightarrow> length v = n \<and> b = v"
  by (auto simp: exactBytes_def)

lemma EncodeOptions_encodable:
  assumes "EncodeExtendedInitializeOptions o' = Inr b"
  shows "options_encodable o'"
  using emit_record_Inr [OF assms [unfolded EncodeExtendedInitializeOptions_def]]
  unfolding putEnc_def se_Inr_iffs fixedHexID_Inr exactBytes_Inr encodePaddedAscii_Inr
  by (elim exE conjE) (simp add: options_encodable_def)

lemma EncodeOptions_Inr:
  "EncodeExtendedInitializeOptions o' = Inr b \<longleftrightarrow> options_encodable o' \<and> b = options_layout o'"
proof (cases "options_encodable o'")
  case True
  have cpic: "printable (gostr ''CPIC'')" by (simp add: gostr_def printable_def printable_byte_def of_char_def)
  have "EncodeExtendedInitializeOptions o' = Inr (options_layout o')"
    using True unfolding EncodeExtendedInitializeOptions_def
    by (intro emit_record_step [where u = "()"])
      (simp_all add: options_encodable_def options_layout_def putEnc_def codec_simps cpic
        encodePaddedAscii_field pad_to_length fixedHexID_def exactBytes_def hexIDPattern_def
        ExtendedInitializeOptionsLength_def)
  with True show ?thesis by auto
next
  case False
  then show ?thesis using EncodeOptions_encodable by auto
qed

lemma options_length: "options_encodable o' \<Longrightarrow> length (options_layout o') = 341"
  by (simp add: options_layout_def options_encodable_def hexIDPattern_def pad_to_length)

lemma printable_no_nul: "printable v \<Longrightarrow> 0 \<notin> set v"
  by (auto simp: printable_def printable_byte_def list_all_iff)

lemma printable_CPIC: "printable (gostr ''CPIC'')"
  by (simp add: gostr_def printable_def printable_byte_def of_char_def)

lemma DecodeOptions_layout:
  assumes "options_encodable o'" "options_canon o'"
  shows "DecodeExtendedInitializeOptions (options_layout o') = Inr o'"
  using assms options_length [OF assms(1)]
  by (simp add: DecodeExtendedInitializeOptions_def ExtendedInitializeOptionsLength_def
      parse_record_def NewReader_rdr)
    (simp add: options_layout_def options_encodable_def options_canon_def codec_simps field_steps
      se_return_def fail_if_def printable_no_nul printable_CPIC)

interpretation extended_info: fixed_codec 32 EncodeExtendedInfo DecodeExtendedInfo extended_info_canon
  by unfold_locales (auto simp: EncodeExtendedInfo_Inr extended_info_length DecodeExtendedInfo_layout)

interpretation init_options: fixed_codec 341 EncodeExtendedInitializeOptions
    DecodeExtendedInitializeOptions options_canon
  by unfold_locales (auto simp: EncodeOptions_Inr options_length DecodeOptions_layout)

text \<open>A structure that is a padded name followed by a block of bytes.\<close>

lemma emit_two:
  "length a + length b = n \<Longrightarrow>
     emit_record (int n) ctx (se_bind (ww (WriteBytes a f)) (\<lambda>_. ww (WriteBytes b g))) = Inr (a @ b)"
  by (intro emit_record_step [where u = "()"]) (auto simp: codec_simps)

lemma EncodeInitializeParameters_Inr:
  "EncodeInitializeParameters p = Inr b \<longleftrightarrow>
     printable (ip_ClientIdentifier p) \<and> length (ip_ClientIdentifier p) \<le> 32 \<and>
     options_encodable (ip_Options p) \<and>
     b = pad_to 32 0x20 (ip_ClientIdentifier p) @ options_layout (ip_Options p)"
proof -
  have "emit_record (int InitializeParametersLength) ctx
      (se_bind (ww (WriteBytes x f)) (\<lambda>_. ww (WriteBytes y g))) = Inr (x @ y)"
    if "length x = 32" "length y = 341" for x y ctx f g
    using that by (intro emit_two) (simp add: InitializeParametersLength_def)
  then show ?thesis
    by (auto simp: EncodeInitializeParameters_def bindE_Inr_iff EncodeOptions_Inr encodePaddedAscii_Inr
        options_length pad_to_def)
qed

definition initialize_canon :: "initialize_parameters \<Rightarrow> bool" where
  "initialize_canon p \<longleftrightarrow> 0x20 \<notin> set (ip_ClientIdentifier p) \<and> options_canon (ip_Options p)"

lemma DecodeInitializeParameters_layout:
  assumes "EncodeInitializeParameters p = Inr b" "initialize_canon p"
  shows "DecodeInitializeParameters b = Inr p"
  using assms
  by (simp add: DecodeInitializeParameters_def EncodeInitializeParameters_Inr initialize_canon_def
      InitializeParametersLength_def ExtendedInitializeOptionsLength_def parse_record_def NewReader_rdr
      pad_to_length options_length field_steps codec_simps ReadBytes_exact DecodeOptions_layout se_return_def)

interpretation init_params: fixed_codec 373 EncodeInitializeParameters DecodeInitializeParameters
    initialize_canon
  by unfold_locales
    (auto simp: EncodeInitializeParameters_Inr pad_to_length options_length
      intro: DecodeInitializeParameters_layout)

lemma EncodePartnerParameters_Inr:
  "EncodePartnerLogicalUnitParameters p = Inr b \<longleftrightarrow>
     printable (pp_LongLogicalUnitName p) \<and> length (pp_LongLogicalUnitName p) \<le> 128 \<and>
     length (pp_PartnerHostAddress p) = 16 \<and>
     b = pad_to 128 0x20 (pp_LongLogicalUnitName p) @ pp_PartnerHostAddress p"
proof -
  have "emit_record (int PartnerParametersLength) ctx
      (se_bind (ww (WriteBytes x f)) (\<lambda>_. ww (WriteBytes y g))) = Inr (x @ y)"
    if "length x = 128" "length y = 16" for x y ctx f g
    using that by (intro emit_two) (simp add: PartnerParametersLength_def)
  then show ?thesis
    by (auto simp: EncodePartnerLogicalUnitParameters_def bindE_Inr_iff exactBytes_Inr
        encodePaddedAscii_Inr pad_to_def)
qed

lemma DecodePartnerParameters_layout:
  assumes "EncodePartnerLogicalUnitParameters p = Inr b" "0x20 \<notin> set (pp_LongLogicalUnitName p)"
  shows "DecodePartnerLogicalUnitParameters b = Inr p"
  using assms
  by (simp add: DecodePartnerLogicalUnitParameters_def EncodePartnerParameters_Inr
      PartnerParametersLength_def parse_record_def NewReader_rdr pad_to_length field_steps codec_simps
      ReadBytes_exact se_return_def)

interpretation partner_params: fixed_codec 144 EncodePartnerLogicalUnitParameters
    DecodePartnerLogicalUnitParameters "\<lambda>p. 0x20 \<notin> set (pp_LongLogicalUnitName p)"
  by unfold_locales
    (auto simp: EncodePartnerParameters_Inr pad_to_length intro: DecodePartnerParameters_layout)

definition partner_layout :: "partner_lu_input \<Rightarrow> bytes" where
  "partner_layout info =
     name_field (take 8 (pl_LogicalUnitName info)) @ put32be (of_nat (length (pl_LogicalUnitName info))) @
     pl_PartnerHostAddress info @ put16be (pl_CommunicationIndex info) @ put16be (pl_ConnectionIndex info)"

definition partner_encodable :: "partner_lu_input \<Rightarrow> bool" where
  "partner_encodable info \<longleftrightarrow> printable (pl_LogicalUnitName info) \<and>
     length (pl_LogicalUnitName info) \<le> 128 \<and> length (pl_PartnerHostAddress info) = 16"

lemma EncodePartner_Inr:
  "EncodePartnerLogicalUnitInfo info = Inr b \<longleftrightarrow> partner_encodable info \<and> b = partner_layout info"
proof (cases "partner_encodable info")
  case True
  have name: "(if 8 < length v then take 8 v else v) = take 8 v" for v :: bytes by simp
  have "emit_record 32 ctx
       (se_bind (ww (WriteBytes (name_field (take 8 (pl_LogicalUnitName info))) f1)) (\<lambda>_.
        se_bind (ww (WriteUint32BE n f2)) (\<lambda>_.
        se_bind (ww (WriteBytes (pl_PartnerHostAddress info) f3)) (\<lambda>_.
        se_bind (ww (WriteUint16BE x f4)) (\<lambda>_. ww (WriteUint16BE y f5)))))) =
      Inr (name_field (take 8 (pl_LogicalUnitName info)) @ put32be n @ pl_PartnerHostAddress info @
        put16be x @ put16be y)" for ctx n x y f1 f2 f3 f4 f5
    using True
    by (intro emit_record_step [where u = "()"])
      (simp_all add: codec_simps name_field_length partner_encodable_def)
  then have "EncodePartnerLogicalUnitInfo info = Inr (partner_layout info)"
    using True by (simp add: EncodePartnerLogicalUnitInfo_def partner_encodable_def bindE_fail_if Let_def name
        encodeFixedAscii_field printable_take partner_layout_def)
  with True show ?thesis by auto
next
  case False
  then show ?thesis
    by (auto simp: EncodePartnerLogicalUnitInfo_def partner_encodable_def bindE_Inr_iff Let_def)
qed

lemma partner_length: "partner_encodable info \<Longrightarrow> length (partner_layout info) = 32"
  by (simp add: partner_layout_def partner_encodable_def name_field_length)

definition partner_decoded :: "partner_lu_input \<Rightarrow> partner_lu_info" where
  "partner_decoded info =
     \<lparr>pd_LogicalUnitNamePrefix = take 8 (pl_LogicalUnitName info),
      pd_LogicalUnitNameLength = of_nat (length (pl_LogicalUnitName info)),
      pd_PartnerHostAddress = pl_PartnerHostAddress info,
      pd_CommunicationIndex = pl_CommunicationIndex info,
      pd_ConnectionIndex = pl_ConnectionIndex info\<rparr>"

lemma decode_name_field:
  "printable v \<Longrightarrow> name_canon v \<Longrightarrow> decodeFixedAscii (name_field v) = Inr v"
  by (simp add: name_field_def pad_to_def decode_fixed decode_fixed [where v = "[]", simplified])

lemma DecodePartner_layout:
  assumes "partner_encodable info" "name_canon (take 8 (pl_LogicalUnitName info))"
  shows "DecodePartnerLogicalUnitInfo (partner_layout info) = Inr (partner_decoded info)"
proof -
  define n where "n = length (pl_LogicalUnitName info)"
  have "n \<le> 128" using assms(1) by (simp add: n_def partner_encodable_def)
  then have n: "unat (of_nat n :: u32) = n" "\<not> (128 :: u32) < of_nat n"
    by (simp_all add: unat_of_nat take_bit_nat_eq_self word_less_nat_alt)
  show ?thesis
    using assms n partner_length [OF assms(1)]
    by (simp add: DecodePartnerLogicalUnitInfo_def parse_record_def NewReader_rdr)
      (simp add: partner_layout_def partner_encodable_def partner_decoded_def codec_simps field_steps
        name_field_length decode_name_field printable_take n_def [symmetric] se_return_def fail_if_def
        min.commute)
qed

section \<open>Properties\<close>

text \<open>
  Record round trip: whenever \<open>encodeRecord\<close> succeeds, the header decoder returns the
  function code, the overrides with the documented defaults and the parameter length, the
  operation information is the 32 bytes after the common header, and everything after the 80-byte
  record header is the concatenation of the trailing parts.
\<close>

theorem encode_record_roundtrip:
  assumes "encodeRecord fc i op sap trailing context = Inr b"
  shows "DecodeHeader b = Inr (header_of fc i sap) \<and> unat (h_SapParameterLen (header_of fc i sap)) = sap \<and>
     gslice CommonHeaderLength RecordHeaderLength b = op \<and> drop RecordHeaderLength b = concat trailing"
proof -
  have "sap \<le> 0xffff" using assms by (simp add: encodeRecord_Inr)
  then have "unat (of_nat sap :: u16) = sap" by (simp add: unat_of_nat take_bit_nat_eq_self)
  then show ?thesis
    using encodeRecord_decode [OF assms] by (simp add: CommonHeaderLength_def RecordHeaderLength_def)
qed

text \<open>Overrides that are all absent.\<close>

definition no_overrides :: record_header_input where
  "no_overrides = \<lparr>in_Protocol = None, in_Mode = None, in_UID = None, in_GatewayID = None,
     in_ErrorLength = None, in_Info2 = None, in_TraceLevel = None, in_Time = None, in_Info3 = None,
     in_Timeout = None, in_Info4 = None, in_SequenceNumber = None, in_Padding = None, in_Info = None,
     in_Vector = None, in_AppcReturnCode = None, in_SapReturnCode = None, in_ConversationID = None\<rparr>"

lemma no_overrides_id [simp]: "conversation_or_zero no_overrides = replicate 8 0"
  by (simp add: conversation_or_zero_def val_or_def no_overrides_def)

theorem encode_record_roundtrip_witness:
  "\<exists>b. encodeRecord FuncSapSend no_overrides (replicate 32 0) 8 [[1, 2], [3]] ''r'' = Inr b \<and>
     drop RecordHeaderLength b = [1, 2, 3]"
proof -
  obtain b where b: "encodeRecord FuncSapSend no_overrides (replicate 32 0) 8 [[1, 2], [3]] ''r'' = Inr b"
    by (simp add: encodeRecord_layout)
  then show ?thesis using encode_record_roundtrip [OF b] by simp
qed

text \<open>
  \<open>EncodeControlRecord\<close> is characterised on every branch: it succeeds exactly for a
  set-up/control function whose parameters fit 16 bits, with partner information present exactly for
  F_SET_PARTNER_LU_NAME and never beside extended information, whose operation information is
  encodable and whose conversation id has 8 bytes; the record is then the header with the
  parameter length, the operation information and the parameters.
\<close>

lemma EncodeControlRecord_Inr:
  "EncodeControlRecord i = Inr b \<longleftrightarrow>
     cr_FunctionCode i \<in> set controlFunctions \<and> length (cr_Parameters i) \<le> 0xffff \<and>
     length (conversation_or_zero (cr_Header i)) = 8 \<and>
     (case cr_PartnerLogicalUnitInfo i of
        Some partner \<Rightarrow> cr_FunctionCode i = FuncSetPartnerLuName \<and> cr_ExtendedInfo i = None \<and>
          partner_encodable partner \<and>
          b = header_layout (header_of (cr_FunctionCode i) (cr_Header i) (length (cr_Parameters i))) @
              partner_layout partner @ cr_Parameters i
      | None \<Rightarrow> cr_FunctionCode i \<noteq> FuncSetPartnerLuName \<and>
          extended_info_encodable (val_or (cr_ExtendedInfo i) defaultExtendedInfo) \<and>
          b = header_layout (header_of (cr_FunctionCode i) (cr_Header i) (length (cr_Parameters i))) @
              extended_info_layout (val_or (cr_ExtendedInfo i) defaultExtendedInfo) @ cr_Parameters i)"
  by (cases "cr_PartnerLogicalUnitInfo i"; cases "cr_ExtendedInfo i")
    (auto simp: EncodeControlRecord_def bindE_Inr_iff encodeRecord_Inr EncodePartner_Inr
      EncodeExtendedInfo_Inr partner_length extended_info_length val_or_def)

text \<open>
  The 373-byte F_INITIALIZE structure round-trips: whatever \<open>EncodeInitializeParameters\<close>
  accepts with space-free client identifier and user name is returned unchanged by
  \<open>DecodeInitializeParameters\<close>, so two such parameter sets never share an encoding.
\<close>

theorem initialize_parameters_roundtrip:
  assumes "EncodeInitializeParameters p = Inr b" "initialize_canon p"
  shows "length b = InitializeParametersLength \<and> DecodeInitializeParameters b = Inr p \<and>
     (\<forall>q. EncodeInitializeParameters q \<noteq> Inr b \<or> \<not> initialize_canon q \<or> q = p)"
  using init_params.enc_length [OF assms(1)] init_params.dec_enc [OF assms] init_params.enc_inj [OF assms(1)]
    assms(2) by (auto simp: InitializeParametersLength_def)

definition sample_initialize :: initialize_parameters where
  "sample_initialize = \<lparr>ip_ClientIdentifier = gostr ''host'',
     ip_Options = \<lparr>eo_OptionFlags = 2, eo_RootID = replicate 16 0x41, eo_ConnectionID = replicate 16 0x30,
       eo_ConnectionIDSuffix = 1, eo_Timeout = - 1, eo_KeepaliveTimeout = 300, eo_ExportTrace = 0,
       eo_StartType = 0, eo_NetworkProtocol = 0, eo_LocalAddressV6 = replicate 16 0,
       eo_LongLogicalUnitName = gostr ''lu'', eo_OperatingSystemUser = gostr ''me'',
       eo_LocalAddressV4 = [10, 0, 0, 1], eo_LongTransactionProgramName = gostr ''sapdp00''\<rparr>\<rparr>"

lemma sample_initialize_ok:
  "EncodeInitializeParameters sample_initialize =
     Inr (pad_to 32 0x20 (gostr ''host'') @ options_layout (ip_Options sample_initialize))"
  "initialize_canon sample_initialize"
  unfolding EncodeInitializeParameters_Inr
  by (simp_all add: sample_initialize_def options_encodable_def hexIDPattern_def initialize_canon_def
      options_canon_def gostr_def of_char_def printable_def printable_byte_def)

theorem initialize_parameters_roundtrip_witness:
  "DecodeInitializeParameters
     (pad_to 32 0x20 (gostr ''host'') @ options_layout (ip_Options sample_initialize)) =
   Inr sample_initialize"
  using initialize_parameters_roundtrip [OF sample_initialize_ok] by simp

text \<open>
  The F_SET_PARTNER_LU_NAME block round-trips to the first eight bytes of the logical-unit
  name, its full length, the host address and the indices, unless the eight-byte prefix ends in
  a space.
\<close>

theorem partner_info_roundtrip:
  assumes "EncodePartnerLogicalUnitInfo info = Inr b" "name_canon (take 8 (pl_LogicalUnitName info))"
  shows "length b = 32 \<and> DecodePartnerLogicalUnitInfo b = Inr (partner_decoded info)"
  using assms partner_length DecodePartner_layout by (simp add: EncodePartner_Inr)

theorem partner_info_roundtrip_witness:
  "DecodePartnerLogicalUnitInfo (partner_layout
      \<lparr>pl_LogicalUnitName = gostr ''sap.example.org'', pl_PartnerHostAddress = replicate 16 0,
       pl_CommunicationIndex = 1, pl_ConnectionIndex = 2\<rparr>) =
   Inr \<lparr>pd_LogicalUnitNamePrefix = gostr ''sap.exam'', pd_LogicalUnitNameLength = 15,
       pd_PartnerHostAddress = replicate 16 0, pd_CommunicationIndex = 1, pd_ConnectionIndex = 2\<rparr>"
  using partner_info_roundtrip [of "\<lparr>pl_LogicalUnitName = gostr ''sap.example.org'',
      pl_PartnerHostAddress = replicate 16 0, pl_CommunicationIndex = 1, pl_ConnectionIndex = 2\<rparr>"]
  by (simp add: EncodePartner_Inr partner_encodable_def partner_decoded_def name_canon_def gostr_def
      of_char_def printable_def printable_byte_def)

end
