(* ===== verification/Appc_Fragment.thy ===== *)
theory Appc_Fragment
  imports Appc_Records
begin

text \<open>
  Package \<open>appc\<close>, file \<open>fragmentation.go\<close>: the data operation information, the planner that
  cuts one outgoing CPIC message into APPC records (one compact F_SAP_SEND, or F_ASEND_DATA
  slices with synchronous barriers and an F_RECEIVE terminator) and the encoder of a planned
  step. The lemmas show that a plan reassembles to the message, that every planned step
  is accepted by the encoder, and exactly when planning succeeds.
\<close>

section \<open>Data operation information\<close>

record data_operation_info =
  do_DataLength :: u16
  do_CommunicationIndex :: u16
  do_ConnectionIndex :: u16

type_synonym async_data_info = data_operation_info

record incoming_data_operation_info =
  id_DataLength :: u16
  id_CommunicationIndex :: u16
  id_ConnectionIndex :: u16

definition encodeAsyncDataInfo :: "int \<Rightarrow> u16 \<Rightarrow> u16 \<Rightarrow> appc_error + bytes" where
  "encodeAsyncDataInfo dataLength communicationIndex connectionIndex =
     (if dataLength < 1 \<or> dataLength > int MaxApplicationDataFragmentLength then Inl ErrRange
      else emit_record 32 ''APPC async-send info''
       (se_bind (ww (WriteUint16BE 0 ''reserved'')) (\<lambda>_.
        se_bind (ww (WriteUint16BE (of_int dataLength) ''dataLength'')) (\<lambda>_.
        se_bind (ww (WriteBytes (replicate 24 0) ''reserved2'')) (\<lambda>_.
        se_bind (ww (WriteUint16BE communicationIndex ''communicationIndex'')) (\<lambda>_.
        ww (WriteUint16BE connectionIndex ''connectionIndex'')))))))"

definition DecodeDataOperationInfo :: "bytes \<Rightarrow> appc_error + data_operation_info" where
  "DecodeDataOperationInfo data =
     (if length data \<noteq> 32 then Inl ErrRange
      else parse_record
       (se_bind (rw (ReadUint16BE ''reserved'')) (\<lambda>reserved.
        se_bind (se_lift (fail_if (reserved \<noteq> 0) ErrRange)) (\<lambda>_.
        se_bind (rw (ReadUint16BE ''dataLength'')) (\<lambda>dataLength.
        se_bind (rw (ReadBytes 24 ''reserved2'')) (\<lambda>reserved2.
        se_bind (se_lift (fail_if (list_ex (\<lambda>b. b \<noteq> 0) reserved2) ErrRange)) (\<lambda>_.
        se_bind (rw (ReadUint16BE ''communicationIndex'')) (\<lambda>commIdx.
        se_bind (rw (ReadUint16BE ''connectionIndex'')) (\<lambda>connIdx.
        se_bind (rw Reader_Finish) (\<lambda>_.
        se_return \<lparr>do_DataLength = dataLength, do_CommunicationIndex = commIdx,
          do_ConnectionIndex = connIdx\<rparr>))))))))) data ''APPC data operation info'')"

definition DecodeIncomingDataOperationInfo :: "bytes \<Rightarrow> appc_error + incoming_data_operation_info" where
  "DecodeIncomingDataOperationInfo data =
     (if length data \<noteq> 32 then Inl ErrRange
      else Inr \<lparr>id_DataLength = get16be (drop 10 data), id_CommunicationIndex = get16be (drop 28 data),
                id_ConnectionIndex = get16be (drop 30 data)\<rparr>)"

definition DecodeAsyncDataInfo :: "bytes \<Rightarrow> appc_error + async_data_info" where
  "DecodeAsyncDataInfo data =
     bindE (DecodeDataOperationInfo data) (\<lambda>decoded.
       if unat (do_DataLength decoded) < 1 \<or> unat (do_DataLength decoded) > MaxApplicationDataFragmentLength
       then Inl ErrRange else Inr decoded)"

definition outgoingOperationInfo :: "Function \<Rightarrow> int \<Rightarrow> u16 \<Rightarrow> u16 \<Rightarrow> appc_error + bytes" where
  "outgoingOperationInfo functionCode dataLength communicationIndex connectionIndex =
     (if functionCode = FuncAsyncSendData \<or> functionCode = FuncSendData
      then encodeAsyncDataInfo dataLength communicationIndex connectionIndex
      else EncodeExtendedInfo (defaultExtendedInfo
             \<lparr>ei_CommunicationIndex := communicationIndex, ei_ConnectionIndex := connectionIndex\<rparr>))"

definition validateFinalSapParameters :: "bytes \<Rightarrow> int \<Rightarrow> appc_error + unit" where
  "validateFinalSapParameters parameters applicationDataLength =
     bindE (fail_if (length parameters \<noteq> FinalSapParameterLength) ErrRange) (\<lambda>_.
     bindE (fail_if (get16be parameters \<noteq> 0) ErrRange) (\<lambda>_.
     fail_if (int (unat (get16be (drop 2 parameters))) \<noteq> applicationDataLength) ErrRange))"

section \<open>Fragment semantics\<close>

record fragment_semantics =
  fs_functionCode :: Function
  fs_isFinal :: bool
  fs_info :: byte
  fs_vector :: byte
  fs_sapParameterLength :: nat

definition outgoingFragmentSemantics :: "int \<Rightarrow> int \<Rightarrow> fragment_semantics" where
  "outgoingFragmentSemantics fragmentIndex fragmentCount =
     (let isSingle = (fragmentCount = 1);
          isFinal = (isSingle \<or> fragmentIndex = fragmentCount - 1);
          isSyncStreaming = (\<not> isSingle \<and> \<not> isFinal \<and>
            fragmentIndex \<ge> int MaxAsyncSendsBeforeSync \<and>
            (fragmentIndex - int MaxAsyncSendsBeforeSync) mod int MaxAsyncSendsBeforeSync = 0)
      in \<lparr>fs_functionCode = (if isSingle then FuncSapSend else if isFinal then FuncReceive
            else if isSyncStreaming then FuncSendData else FuncAsyncSendData),
          fs_isFinal = isFinal,
          fs_info = (if isSingle then 5 else if isFinal \<or> isSyncStreaming then 1 else 0),
          fs_vector = (if isSingle then 0x0c else 0),
          fs_sapParameterLength = (if isSingle then 8 else 0)\<rparr>)"

section \<open>The planner\<close>

text \<open>A nil \<open>FinalSapParameters\<close> of the plan input is \<open>None\<close>.\<close>

record outgoing_data_plan_input =
  pn_Header :: record_header_input
  pn_ApplicationData :: bytes
  pn_FinalSapParameters :: "bytes option"
  pn_CommunicationIndex :: u16
  pn_ConnectionIndex :: u16

record outgoing_data_planner_options =
  po_MaxApplicationDataLength :: "int option"
  po_MaxFragments :: "int option"
  po_CpicStreaming :: string

definition StreamingDisabled :: string where "StreamingDisabled = ''disabled''"
definition StreamingEnabled :: string where "StreamingEnabled = ''enabled''"

record outgoing_data_fragment =
  of_Header :: record_header_input
  of_FunctionCode :: Function
  of_FragmentIndex :: int
  of_FragmentCount :: int
  of_ConversationID :: bytes
  of_SequenceNumber :: u32
  of_ApplicationData :: bytes
  of_FinalSapParameters :: bytes
  of_MessageApplicationDataLength :: int
  of_CommunicationIndex :: u16
  of_ConnectionIndex :: u16
  of_IsFinal :: bool
  of_Info :: byte
  of_Vector :: byte
  of_SapParameterLength :: nat

definition headerInput :: "outgoing_data_fragment \<Rightarrow> record_header_input" where
  "headerInput f = (of_Header f)\<lparr>in_ConversationID := Some (of_ConversationID f),
     in_SequenceNumber := Some (of_SequenceNumber f), in_Info := Some (of_Info f),
     in_Vector := Some (of_Vector f)\<rparr>"

text \<open>The body of the planning loop for index \<open>i\<close>.\<close>

definition plan_fragment :: "outgoing_data_plan_input \<Rightarrow> bytes \<Rightarrow> nat \<Rightarrow> nat \<Rightarrow> outgoing_data_fragment" where
  "plan_fragment input finalSap fragmentCount i =
     (let sem = outgoingFragmentSemantics (int i) (int fragmentCount);
          msgLen = length (pn_ApplicationData input);
          start = min (i * MaxApplicationDataFragmentLength) msgLen;
          end = (if fs_functionCode sem \<noteq> FuncReceive
                 then min (start + MaxApplicationDataFragmentLength) msgLen else start)
      in \<lparr>of_Header = pn_Header input, of_FunctionCode = fs_functionCode sem,
          of_FragmentIndex = int i, of_FragmentCount = int fragmentCount,
          of_ConversationID = conversation_or_zero (pn_Header input),
          of_SequenceNumber = u32or (in_SequenceNumber (pn_Header input)) 0,
          of_ApplicationData = gslice start end (pn_ApplicationData input),
          of_FinalSapParameters = finalSap,
          of_MessageApplicationDataLength = int msgLen,
          of_CommunicationIndex = pn_CommunicationIndex input,
          of_ConnectionIndex = pn_ConnectionIndex input,
          of_IsFinal = fs_isFinal sem, of_Info = fs_info sem, of_Vector = fs_vector sem,
          of_SapParameterLength = fs_sapParameterLength sem\<rparr>)"

definition check_final_sap :: "outgoing_data_plan_input \<Rightarrow> appc_error + unit" where
  "check_final_sap input =
     (let msgLen = length (pn_ApplicationData input) in
      case pn_FinalSapParameters input of
        Some sap \<Rightarrow>
          bindE (fail_if (length sap \<noteq> FinalSapParameterLength) ErrRange) (\<lambda>_.
          bindE (validateFinalSapParameters sap (int msgLen)) (\<lambda>_.
          fail_if (msgLen > MaxApplicationDataFragmentLength) ErrRange))
      | None \<Rightarrow> fail_if (msgLen \<le> MaxApplicationDataFragmentLength) ErrRange)"

text \<open>The encoder call the planner makes before it returns any step.\<close>

definition preflight :: "outgoing_data_plan_input \<Rightarrow> bool \<Rightarrow> appc_error + bytes" where
  "preflight input useSingleRecord =
     (let msgLen = length (pn_ApplicationData input);
          func = (if useSingleRecord then FuncSapSend else FuncAsyncSendData);
          dataLen = (if useSingleRecord then msgLen + length (val_or (pn_FinalSapParameters input) [])
                     else min msgLen MaxApplicationDataFragmentLength);
          sap = (if useSingleRecord then FinalSapParameterLength else 0)
      in bindE (outgoingOperationInfo func (int dataLen) (pn_CommunicationIndex input)
                  (pn_ConnectionIndex input)) (\<lambda>opInfo.
         encodeRecord func (pn_Header input) opInfo sap [[]] ''outgoing APPC plan''))"

definition plan_fragment_count :: "outgoing_data_plan_input \<Rightarrow> bool \<Rightarrow> nat" where
  "plan_fragment_count input useSingleRecord =
     (if useSingleRecord then 1
      else (length (pn_ApplicationData input) + MaxApplicationDataFragmentLength - 1)
             div MaxApplicationDataFragmentLength + 1)"

definition PlanOutgoingDataFragments ::
    "outgoing_data_plan_input \<Rightarrow> outgoing_data_planner_options \<Rightarrow>
     appc_error + outgoing_data_fragment list" where
  "PlanOutgoingDataFragments input options =
     (let maxApplicationDataLength = val_or (po_MaxApplicationDataLength options) DefaultMaxOutgoingMessageLength;
          maxFragments = val_or (po_MaxFragments options) DefaultMaxMessageFragments;
          cpicStreaming = (if po_CpicStreaming options = '''' then StreamingDisabled else po_CpicStreaming options);
          msgLen = length (pn_ApplicationData input);
          useSingleRecord = (pn_FinalSapParameters input \<noteq> None \<and> msgLen \<le> MaxApplicationDataFragmentLength);
          fragmentCount = plan_fragment_count input useSingleRecord
      in
      bindE (fail_if (maxApplicationDataLength < 0 \<or> maxApplicationDataLength > MaxOutgoingMessageLength) ErrRange) (\<lambda>_.
      bindE (fail_if (maxFragments < 1) ErrRange) (\<lambda>_.
      bindE (fail_if (cpicStreaming \<noteq> StreamingDisabled \<and> cpicStreaming \<noteq> StreamingEnabled) ErrRange) (\<lambda>_.
      bindE (fail_if (int msgLen > maxApplicationDataLength) ErrRange) (\<lambda>_.
      bindE (check_final_sap input) (\<lambda>_.
      bindE (fail_if (\<not> useSingleRecord \<and> cpicStreaming \<noteq> StreamingEnabled) (ErrState '''')) (\<lambda>_.
      bindE (fail_if (int fragmentCount > maxFragments) ErrRange) (\<lambda>_.
      bindE (fail_if (length (conversation_or_zero (pn_Header input)) \<noteq> 8) ErrRange) (\<lambda>_.
      bindE (preflight input useSingleRecord) (\<lambda>_.
      Inr (map (plan_fragment input
                  (if useSingleRecord then val_or (pn_FinalSapParameters input) [] else []) fragmentCount)
             [0..<fragmentCount])))))))))))"

section \<open>Encoding a planned step\<close>

definition SnapshotOutgoingDataFragment :: "outgoing_data_fragment \<Rightarrow> appc_error + outgoing_data_fragment" where
  "SnapshotOutgoingDataFragment f =
     (if length (of_ConversationID f) \<noteq> 8 then Inl ErrRange
      else if length (of_ApplicationData f) > MaxApplicationDataFragmentLength then Inl ErrRange
      else if length (of_FinalSapParameters f) > FinalSapParameterLength then Inl ErrRange
      else Inr f)"

definition check_fragment_payload :: "outgoing_data_fragment \<Rightarrow> appc_error + unit" where
  "check_fragment_payload f =
     (if of_FragmentCount f = 1 then
        bindE (fail_if (length (of_ApplicationData f) > MaxApplicationDataFragmentLength) ErrRange) (\<lambda>_.
        map_err (\<lambda>_. ErrRange)
          (validateFinalSapParameters (of_FinalSapParameters f) (of_MessageApplicationDataLength f)))
      else if of_FunctionCode f = FuncAsyncSendData \<or> of_FunctionCode f = FuncSendData then
        bindE (fail_if (length (of_ApplicationData f) < 1 \<or>
                        length (of_ApplicationData f) > MaxApplicationDataFragmentLength) ErrRange) (\<lambda>_.
        fail_if (length (of_FinalSapParameters f) \<noteq> 0) ErrRange)
      else fail_if (length (of_ApplicationData f) \<noteq> 0 \<or> length (of_FinalSapParameters f) \<noteq> 0) ErrRange)"

definition EncodeOutgoingDataFragment :: "outgoing_data_fragment \<Rightarrow> appc_error + bytes" where
  "EncodeOutgoingDataFragment i =
     bindE (SnapshotOutgoingDataFragment i) (\<lambda>f.
     bindE (fail_if (of_FragmentCount f < 1) ErrRange) (\<lambda>_.
     bindE (fail_if (of_FragmentIndex f < 0 \<or> of_FragmentIndex f \<ge> of_FragmentCount f) ErrRange) (\<lambda>_.
     bindE (fail_if (of_MessageApplicationDataLength f < 0 \<or>
                     of_MessageApplicationDataLength f > MaxOutgoingMessageLength) ErrRange) (\<lambda>_.
     let expected = outgoingFragmentSemantics (of_FragmentIndex f) (of_FragmentCount f) in
     bindE (fail_if (of_FunctionCode f \<noteq> fs_functionCode expected \<or> of_IsFinal f \<noteq> fs_isFinal expected \<or>
                     of_Info f \<noteq> fs_info expected \<or> of_Vector f \<noteq> fs_vector expected \<or>
                     of_SapParameterLength f \<noteq> fs_sapParameterLength expected) ErrRange) (\<lambda>_.
     bindE (check_fragment_payload f) (\<lambda>_.
     bindE (if of_FunctionCode f = FuncReceive \<and> of_FragmentCount f > 1
            then encodeAsyncDataInfo (int MaxApplicationDataFragmentLength) (of_CommunicationIndex f)
                   (of_ConnectionIndex f)
            else outgoingOperationInfo (of_FunctionCode f) (int (length (of_ApplicationData f)))
                   (of_CommunicationIndex f) (of_ConnectionIndex f)) (\<lambda>operationInfo.
     encodeRecord (of_FunctionCode f) (headerInput f) operationInfo (of_SapParameterLength f)
       [of_ApplicationData f, of_FinalSapParameters f] ''outgoing APPC data fragment'')))))))"

section \<open>Operation information: lemmas\<close>

definition async_layout :: "u16 \<Rightarrow> u16 \<Rightarrow> u16 \<Rightarrow> bytes" where
  "async_layout n ci xi = put16be 0 @ put16be n @ replicate 24 0 @ put16be ci @ put16be xi"

lemma length_async_layout [simp]: "length (async_layout n ci xi) = 32"
  by (simp add: async_layout_def)

lemma encodeAsyncDataInfo_eq:
  "encodeAsyncDataInfo n ci xi =
     (if n < 1 \<or> n > 28000 then Inl ErrRange else Inr (async_layout (of_int n) ci xi))"
proof -
  have "emit_record 32 ctx
       (se_bind (ww (WriteUint16BE 0 f1)) (\<lambda>_. se_bind (ww (WriteUint16BE d f2)) (\<lambda>_.
        se_bind (ww (WriteBytes (replicate 24 0) f3)) (\<lambda>_.
        se_bind (ww (WriteUint16BE ci f4)) (\<lambda>_. ww (WriteUint16BE xi f5)))))) =
      Inr (async_layout d ci xi)" for ctx d f1 f2 f3 f4 f5
    by (intro emit_record_step [where u = "()"]) (simp_all add: codec_simps async_layout_def)
  then show ?thesis
    by (simp add: encodeAsyncDataInfo_def MaxApplicationDataFragmentLength_def)
qed

lemma DecodeDataOperationInfo_layout:
  "DecodeDataOperationInfo (async_layout n ci xi) =
     Inr \<lparr>do_DataLength = n, do_CommunicationIndex = ci, do_ConnectionIndex = xi\<rparr>"
  by (simp add: DecodeDataOperationInfo_def parse_record_def NewReader_rdr)
    (simp add: async_layout_def codec_simps u16be_last fail_if_def list_ex_iff se_return_def)

lemma unat_data_length: "1 \<le> n \<Longrightarrow> n \<le> 28000 \<Longrightarrow> unat (of_int n :: u16) = nat n"
  by (simp add: unat_eq_nat_uint uint_word_of_int del: nat_uint_eq)

lemma index_info_Inr:
  "EncodeExtendedInfo (defaultExtendedInfo\<lparr>ei_CommunicationIndex := ci, ei_ConnectionIndex := xi\<rparr>) =
     Inr (replicate 28 0 @ put16be ci @ put16be xi)"
proof -
  have "replicate 28 (0::byte) = replicate 8 0 @ replicate 8 0 @ replicate 8 0 @ [0, 0] @ put16be 0"
    by (simp add: put16be_def eval_nat_numeral)
  then show ?thesis
    by (simp add: EncodeExtendedInfo_Inr extended_info_encodable_def defaultExtendedInfo_def
        extended_info_layout_def name_field_def pad_to_def printable_def)
qed

lemma outgoingOperationInfo_length:
  "outgoingOperationInfo fc n ci xi = Inr op \<Longrightarrow> length op = 32"
  by (auto simp: outgoingOperationInfo_def encodeAsyncDataInfo_eq index_info_Inr split: if_splits)

section \<open>The planner: lemmas\<close>

text \<open>Slicing a list into blocks of \<open>n\<close> and concatenating them again.\<close>

lemma concat_slices:
  "concat (map (\<lambda>i. gslice (min (i * n) (length xs)) (min (min (i * n) (length xs) + n) (length xs)) xs) [0..<k])
     = take (k * n) xs"
proof (induction k)
  case (Suc k)
  have "take (k * n) xs @ gslice (min (k * n) (length xs))
      (min (min (k * n) (length xs) + n) (length xs)) xs = take (Suc k * n) xs"
  proof (cases "k * n \<le> length xs")
    case True
    then have "gslice (min (k * n) (length xs)) (min (min (k * n) (length xs) + n) (length xs)) xs
        = take n (drop (k * n) xs)"
      by (simp add: gslice_def min_def)
    then show ?thesis by (simp add: take_add [symmetric] add.commute)
  next
    case False
    then show ?thesis by (simp add: gslice_def)
  qed
  with Suc show ?case by simp
qed simp

definition plan_single :: "outgoing_data_plan_input \<Rightarrow> bool" where
  "plan_single input \<longleftrightarrow> pn_FinalSapParameters input \<noteq> None \<and>
     length (pn_ApplicationData input) \<le> MaxApplicationDataFragmentLength"

definition plan_count :: "outgoing_data_plan_input \<Rightarrow> nat" where
  "plan_count input = plan_fragment_count input (plan_single input)"

definition plan_steps :: "outgoing_data_plan_input \<Rightarrow> outgoing_data_fragment list" where
  "plan_steps input = map (plan_fragment input
     (if plan_single input then val_or (pn_FinalSapParameters input) [] else []) (plan_count input))
     [0..<plan_count input]"

text \<open>What the message itself must satisfy: a valid compact tail, or a length that needs streaming.\<close>

definition plan_shape_ok :: "outgoing_data_plan_input \<Rightarrow> bool" where
  "plan_shape_ok input \<longleftrightarrow>
     (case pn_FinalSapParameters input of
        Some sap \<Rightarrow> length sap = 8 \<and> get16be sap = 0 \<and>
          unat (get16be (drop 2 sap)) = length (pn_ApplicationData input) \<and>
          length (pn_ApplicationData input) \<le> 28000
      | None \<Rightarrow> 28000 < length (pn_ApplicationData input))"

lemma validateFinal_Inr:
  "validateFinalSapParameters sap n = Inr u \<longleftrightarrow>
     length sap = 8 \<and> get16be sap = 0 \<and> int (unat (get16be (drop 2 sap))) = n"
  by (auto simp: validateFinalSapParameters_def bindE_fail_if FinalSapParameterLength_def
      simp del: of_nat_unat)

lemma check_final_sap_Inr: "check_final_sap input = Inr u \<longleftrightarrow> plan_shape_ok input"
proof -
  have "bindE (validateFinalSapParameters sap n) f = Inr v \<longleftrightarrow>
      length sap = 8 \<and> get16be sap = 0 \<and> int (unat (get16be (drop 2 sap))) = n \<and> f () = Inr v" for sap n f
    and v :: unit
    using validateFinal_Inr [of sap n "()"] by (auto simp: bindE_Inr_iff simp del: of_nat_unat)
  then show ?thesis
    by (auto simp: check_final_sap_def plan_shape_ok_def Let_def bindE_fail_if validateFinal_Inr
        FinalSapParameterLength_def MaxApplicationDataFragmentLength_def
        simp del: of_nat_unat split: option.splits)
qed

lemma preflight_Inr:
  assumes "plan_shape_ok input" "length (conversation_or_zero (pn_Header input)) = 8"
  shows "\<exists>b. preflight input (plan_single input) = Inr b"
proof (cases "plan_single input")
  case True
  then show ?thesis
    using assms(2)
    by (simp add: preflight_def Let_def outgoingOperationInfo_def func_codes index_info_Inr
        encodeRecord_layout FinalSapParameterLength_def)
next
  case False
  then have "28000 < length (pn_ApplicationData input)"
    using assms(1) by (auto simp: plan_single_def plan_shape_ok_def MaxApplicationDataFragmentLength_def
        split: option.splits)
  with False show ?thesis
    using assms(2)
    by (simp add: preflight_def Let_def outgoingOperationInfo_def encodeAsyncDataInfo_eq
        MaxApplicationDataFragmentLength_def min_def encodeRecord_layout)
qed

definition plan_limits_ok :: "outgoing_data_plan_input \<Rightarrow> outgoing_data_planner_options \<Rightarrow> bool" where
  "plan_limits_ok input options \<longleftrightarrow>
     (let maxLen = val_or (po_MaxApplicationDataLength options) DefaultMaxOutgoingMessageLength;
          maxFragments = val_or (po_MaxFragments options) DefaultMaxMessageFragments
      in int (length (pn_ApplicationData input)) \<le> maxLen \<and> maxLen \<le> MaxOutgoingMessageLength \<and>
         int (plan_count input) \<le> maxFragments \<and>
         po_CpicStreaming options \<in> {'''', StreamingDisabled, StreamingEnabled} \<and>
         (plan_single input \<or> po_CpicStreaming options = StreamingEnabled))"

lemma plan_count_pos: "1 \<le> plan_count input"
  by (simp add: plan_count_def plan_fragment_count_def)

lemma Plan_Inr:
  "PlanOutgoingDataFragments input options = Inr frags \<longleftrightarrow>
     plan_limits_ok input options \<and> plan_shape_ok input \<and>
     length (conversation_or_zero (pn_Header input)) = 8 \<and> frags = plan_steps input"
proof -
  have single: "(pn_FinalSapParameters input \<noteq> None \<and>
      length (pn_ApplicationData input) \<le> MaxApplicationDataFragmentLength) = plan_single input"
    by (simp add: plan_single_def)
  have stream: "StreamingDisabled \<noteq> StreamingEnabled" "StreamingDisabled \<noteq> ''''" "StreamingEnabled \<noteq> ''''"
    by (simp_all add: StreamingDisabled_def StreamingEnabled_def)
  show ?thesis (is "?l \<longleftrightarrow> ?r")
  proof
    assume ?l
    then show ?r
      using stream
      unfolding PlanOutgoingDataFragments_def Let_def single plan_count_def [symmetric]
        plan_steps_def [symmetric]
      by (auto simp: bindE_Inr_iff check_final_sap_Inr plan_limits_ok_def Let_def split: if_splits)
  next
    assume r: ?r
    then obtain b where "preflight input (plan_single input) = Inr b"
      using preflight_Inr by blast
    moreover have "check_final_sap input = Inr ()" using r by (simp add: check_final_sap_Inr)
    ultimately show ?l
      using r stream plan_count_pos [of input]
      unfolding PlanOutgoingDataFragments_def Let_def single plan_count_def [symmetric]
        plan_steps_def [symmetric]
      by (auto simp: bindE_fail_if plan_limits_ok_def Let_def)
  qed
qed

text \<open>The function of step \<open>i\<close> of a streamed plan of \<open>c\<close> steps.\<close>

definition stream_function :: "nat \<Rightarrow> nat \<Rightarrow> Function" where
  "stream_function c i =
     (if i + 1 = c then FuncReceive else if 21 \<le> i \<and> i mod 21 = 0 then FuncSendData
      else FuncAsyncSendData)"

lemma sync_index: "21 \<le> (i :: nat) \<Longrightarrow> (int i - 21) mod 21 = 0 \<longleftrightarrow> i mod 21 = 0"
proof -
  assume "21 \<le> i"
  have "(int i - 21) mod 21 = int i mod 21" using mod_add_self2 [of "int i - 21" 21] by simp
  also have "\<dots> = int (i mod 21)" by (simp add: zmod_int)
  finally show ?thesis by simp
qed

lemma semantics_single:
  "outgoingFragmentSemantics i 1 =
     \<lparr>fs_functionCode = FuncSapSend, fs_isFinal = True, fs_info = 5, fs_vector = 0x0c,
      fs_sapParameterLength = 8\<rparr>"
  by (simp add: outgoingFragmentSemantics_def Let_def)

lemma semantics_stream:
  assumes "1 < c" "i < c"
  shows "outgoingFragmentSemantics (int i) (int c) =
     \<lparr>fs_functionCode = stream_function c i, fs_isFinal = (i + 1 = c),
      fs_info = (if stream_function c i = FuncAsyncSendData then 0 else 1), fs_vector = 0,
      fs_sapParameterLength = 0\<rparr>"
proof -
  have last: "int i = int c - 1 \<longleftrightarrow> i + 1 = c" using assms by linarith
  have sync: "int i \<ge> 21 \<and> (int i - 21) mod 21 = 0 \<longleftrightarrow> 21 \<le> i \<and> i mod 21 = 0"
    using sync_index [of i] by auto
  show ?thesis
    using assms last sync
    by (auto simp: outgoingFragmentSemantics_def Let_def stream_function_def MaxAsyncSendsBeforeSync_def
        func_codes)
qed

lemma stream_function_cases:
  "stream_function c i \<in> {FuncReceive, FuncSendData, FuncAsyncSendData}"
  "stream_function c i \<noteq> FuncSapSend"
  "stream_function c i = FuncReceive \<longleftrightarrow> i + 1 = c"
  by (auto simp: stream_function_def func_codes)

text \<open>A streamed plan: the number of data slices \<open>d\<close> and the terminator.\<close>

lemma stream_count:
  assumes "\<not> plan_single input" "plan_shape_ok input"
  defines "len \<equiv> length (pn_ApplicationData input)"
  obtains d where "plan_count input = Suc d" "2 \<le> d" "len \<le> d * 28000" "(d - 1) * 28000 < len"
proof -
  have len: "28000 < len"
    using assms by (auto simp: plan_single_def plan_shape_ok_def MaxApplicationDataFragmentLength_def
        split: option.splits)
  define d where "d = (len + 27999) div 28000"
  have "plan_count input = Suc d"
    using assms(1) by (simp add: plan_count_def plan_fragment_count_def d_def len_def
        MaxApplicationDataFragmentLength_def)
  moreover have "len \<le> d * 28000" "(d - 1) * 28000 < len" "2 \<le> d"
    using len unfolding d_def by linarith+
  ultimately show ?thesis using that by blast
qed

lemma plan_data_single:
  "plan_shape_ok input \<Longrightarrow> plan_single input \<Longrightarrow>
     plan_count input = 1 \<and> pn_FinalSapParameters input \<noteq> None \<and>
     of_ApplicationData (plan_fragment input sap 1 0) = pn_ApplicationData input"
  by (simp add: plan_single_def plan_count_def plan_fragment_count_def plan_fragment_def Let_def
      semantics_single func_codes gslice_def MaxApplicationDataFragmentLength_def)

lemma plan_data_stream:
  assumes "1 < c" "i < c" and xs: "xs = pn_ApplicationData input"
  shows "of_ApplicationData (plan_fragment input sap c i) =
     (if i + 1 = c then []
      else gslice (min (i * 28000) (length xs)) (min (min (i * 28000) (length xs) + 28000) (length xs)) xs)"
  using assms stream_function_cases(3) [of c i]
  by (auto simp: plan_fragment_def Let_def semantics_stream gslice_def MaxApplicationDataFragmentLength_def)

lemma plan_concat:
  assumes "plan_shape_ok input"
  shows "concat (map of_ApplicationData (plan_steps input)) = pn_ApplicationData input"
proof (cases "plan_single input")
  case True
  then show ?thesis
    using plan_data_single [OF assms] by (simp add: plan_steps_def)
next
  case False
  define xs where "xs = pn_ApplicationData input"
  obtain d where d: "plan_count input = Suc d" "2 \<le> d" "length xs \<le> d * 28000"
    using stream_count [OF False assms] unfolding xs_def by blast
  have "map of_ApplicationData (plan_steps input) =
      map (\<lambda>i. of_ApplicationData (plan_fragment input [] (Suc d) i)) [0..<d] @ [[]]"
    using d False by (simp add: plan_steps_def plan_data_stream [OF _ _ xs_def] comp_def)
  also have "map (\<lambda>i. of_ApplicationData (plan_fragment input [] (Suc d) i)) [0..<d] =
      map (\<lambda>i. gslice (min (i * 28000) (length xs)) (min (min (i * 28000) (length xs) + 28000) (length xs)) xs)
        [0..<d]"
    using d by (intro map_cong) (auto simp: plan_data_stream [OF _ _ xs_def])
  finally show ?thesis
    using concat_slices [of 28000 xs d] d(3) by (simp add: xs_def)
qed

lemma slice_nonempty:
  assumes "(d - 1) * 28000 < length xs" "i < d"
  shows "gslice (min (i * 28000) (length xs)) (min (min (i * 28000) (length xs) + 28000) (length xs)) xs \<noteq> []"
proof -
  have "i * 28000 \<le> (d - 1) * 28000" using assms(2) by simp
  with assms(1) have "i * 28000 < length xs" by linarith
  then show ?thesis by (simp add: gslice_def min_def)
qed

text \<open>The operation information of a planned step.\<close>

definition step_info :: "outgoing_data_fragment \<Rightarrow> bytes" where
  "step_info f =
     (if of_FunctionCode f = FuncSapSend
      then replicate 28 0 @ put16be (of_CommunicationIndex f) @ put16be (of_ConnectionIndex f)
      else async_layout (if of_FunctionCode f = FuncReceive then 28000 else of_nat (length (of_ApplicationData f)))
             (of_CommunicationIndex f) (of_ConnectionIndex f))"

definition step_record :: "outgoing_data_fragment \<Rightarrow> bytes" where
  "step_record f = header_layout (header_of (of_FunctionCode f) (headerInput f) (of_SapParameterLength f)) @
     step_info f @ of_ApplicationData f @ of_FinalSapParameters f"

lemma headerInput_id: "conversation_or_zero (headerInput f) = of_ConversationID f"
  by (simp add: headerInput_def conversation_or_zero_def val_or_def)

lemma length_step_info [simp]: "length (step_info f) = 32"
  by (simp add: step_info_def)

lemma encode_single:
  assumes "plan_shape_ok input" "plan_single input" "length (conversation_or_zero (pn_Header input)) = 8"
  defines "f \<equiv> plan_fragment input (val_or (pn_FinalSapParameters input) []) 1 0"
  shows "EncodeOutgoingDataFragment f = Inr (step_record f)"
proof -
  obtain sap where sap: "pn_FinalSapParameters input = Some sap" "length sap = 8" "get16be sap = 0"
    "unat (get16be (drop 2 sap)) = length (pn_ApplicationData input)"
    "length (pn_ApplicationData input) \<le> 28000"
    using assms(1,2) by (auto simp: plan_shape_ok_def plan_single_def split: option.splits)
  have val: "validateFinalSapParameters sap (int (length (pn_ApplicationData input))) = Inr ()"
    using sap by (simp add: validateFinal_Inr flip: uint_nat)
  have f: "of_FunctionCode f = FuncSapSend" "of_IsFinal f" "of_Info f = 5" "of_Vector f = 0x0c"
    "of_SapParameterLength f = 8" "of_FragmentCount f = 1" "of_FragmentIndex f = 0"
    "of_FinalSapParameters f = sap" "of_ApplicationData f = pn_ApplicationData input"
    "of_ConversationID f = conversation_or_zero (pn_Header input)"
    "of_MessageApplicationDataLength f = int (length (pn_ApplicationData input))"
    using sap plan_data_single [OF assms(1,2)]
    by (simp_all add: f_def plan_fragment_def Let_def semantics_single val_or_def)
  show ?thesis
    using f sap assms(3) val
    by (simp add: EncodeOutgoingDataFragment_def SnapshotOutgoingDataFragment_def check_fragment_payload_def
        bindE_fail_if Let_def semantics_single outgoingOperationInfo_def func_codes index_info_Inr
        encodeRecord_layout headerInput_id step_record_def step_info_def MaxApplicationDataFragmentLength_def
        FinalSapParameterLength_def MaxOutgoingMessageLength_def)
qed

lemma encode_stream:
  assumes "plan_shape_ok input" "\<not> plan_single input" "length (conversation_or_zero (pn_Header input)) = 8"
    and "i < plan_count input" "int (length (pn_ApplicationData input)) \<le> MaxOutgoingMessageLength"
  defines "f \<equiv> plan_fragment input [] (plan_count input) i"
  shows "EncodeOutgoingDataFragment f = Inr (step_record f)"
proof -
  define xs where "xs = pn_ApplicationData input"
  obtain d where d: "plan_count input = Suc d" "2 \<le> d" "length xs \<le> d * 28000" "(d - 1) * 28000 < length xs"
    using stream_count [OF assms(2,1)] unfolding xs_def by blast
  have c: "1 < plan_count input" using d by simp
  have f: "of_FunctionCode f = stream_function (Suc d) i" "of_IsFinal f = (i = d)"
    "of_Info f = (if stream_function (Suc d) i = FuncAsyncSendData then 0 else 1)" "of_Vector f = 0"
    "of_SapParameterLength f = 0" "of_FragmentCount f = 1 + int d" "of_FragmentIndex f = int i"
    "of_FinalSapParameters f = []" "of_ConversationID f = conversation_or_zero (pn_Header input)"
    "of_MessageApplicationDataLength f = int (length xs)"
    using semantics_stream [OF c assms(4)] d(1)
    by (simp_all add: f_def plan_fragment_def Let_def xs_def)
  have sem: "outgoingFragmentSemantics (int i) (1 + int d) =
     \<lparr>fs_functionCode = stream_function (Suc d) i, fs_isFinal = (i = d),
      fs_info = (if stream_function (Suc d) i = FuncAsyncSendData then 0 else 1), fs_vector = 0,
      fs_sapParameterLength = 0\<rparr>"
    using semantics_stream [OF c assms(4)] d(1) by simp
  have data: "of_ApplicationData f = [] \<longleftrightarrow> i = d" "length (of_ApplicationData f) \<le> 28000"
    using plan_data_stream [OF c assms(4) xs_def, of "[]"] d slice_nonempty [OF d(4), of i] assms(4)
    by (auto simp: f_def xs_def [symmetric] less_Suc_eq)
  consider "i = d" "stream_function (Suc d) i = FuncReceive"
    | "i \<noteq> d" "stream_function (Suc d) i = FuncSendData"
    | "i \<noteq> d" "stream_function (Suc d) i = FuncAsyncSendData"
    using stream_function_cases(1,3) [of "Suc d" i] by auto
  then show ?thesis
    using f sem data assms(3,4,5) d
    by cases (simp_all add: EncodeOutgoingDataFragment_def SnapshotOutgoingDataFragment_def
        check_fragment_payload_def bindE_fail_if Let_def outgoingOperationInfo_def func_codes
        encodeAsyncDataInfo_eq encodeRecord_layout headerInput_id step_record_def step_info_def xs_def
        MaxApplicationDataFragmentLength_def FinalSapParameterLength_def Suc_le_eq)
qed

lemma encode_step:
  assumes "PlanOutgoingDataFragments input options = Inr frags" "f \<in> set frags"
  shows "EncodeOutgoingDataFragment f = Inr (step_record f)"
proof -
  have p: "plan_limits_ok input options" "plan_shape_ok input"
    "length (conversation_or_zero (pn_Header input)) = 8" "frags = plan_steps input"
    using assms(1) by (simp_all add: Plan_Inr)
  have "int (length (pn_ApplicationData input)) \<le> MaxOutgoingMessageLength"
    using p(1) by (auto simp: plan_limits_ok_def Let_def)
  then show ?thesis
    using encode_single [OF p(2) _ p(3)] encode_stream [OF p(2) _ p(3)] plan_data_single [OF p(2)]
      assms(2) p(4)
    by (auto simp: plan_steps_def split: if_splits)
qed

lemma encode_step_decode:
  assumes "PlanOutgoingDataFragments input options = Inr frags" "f \<in> set frags"
    and "EncodeOutgoingDataFragment f = Inr b"
  shows "DecodeHeader b = Inr (header_of (of_FunctionCode f) (headerInput f) (of_SapParameterLength f))"
    "length b = 80 + length (of_ApplicationData f) + length (of_FinalSapParameters f)"
    "gslice 48 80 b = step_info f" "drop 80 b = of_ApplicationData f @ of_FinalSapParameters f"
proof -
  have b: "b = step_record f" using encode_step [OF assms(1,2)] assms(3) by simp
  obtain op where "encodeRecord (of_FunctionCode f) (headerInput f) op (of_SapParameterLength f)
      [of_ApplicationData f, of_FinalSapParameters f] ''outgoing APPC data fragment'' = Inr b"
    using assms(3) by (auto simp: EncodeOutgoingDataFragment_def SnapshotOutgoingDataFragment_def
        bindE_Inr_iff Let_def split: if_splits)
  note dec = encodeRecord_decode [OF this]
  show "DecodeHeader b = Inr (header_of (of_FunctionCode f) (headerInput f) (of_SapParameterLength f))"
    "length b = 80 + length (of_ApplicationData f) + length (of_FinalSapParameters f)"
    "drop 80 b = of_ApplicationData f @ of_FinalSapParameters f"
    using dec by simp_all
  have "length (header_layout (header_of (of_FunctionCode f) (headerInput f) (of_SapParameterLength f))) = 48"
    using dec(2) by (simp add: b step_record_def)
  then show "gslice 48 80 b = step_info f"
    by (simp add: b step_record_def gslice_def)
qed

lemma plan_steps_nth:
  assumes "PlanOutgoingDataFragments input options = Inr frags" "i < length frags"
  shows "of_FragmentIndex (frags ! i) = int i" "of_FragmentCount (frags ! i) = int (length frags)"
    "of_IsFinal (frags ! i) \<longleftrightarrow> i + 1 = length frags"
    "length frags = 1 \<Longrightarrow> of_FunctionCode (frags ! i) = FuncSapSend"
    "1 < length frags \<Longrightarrow> of_FunctionCode (frags ! i) = stream_function (length frags) i"
proof -
  have frags: "frags = plan_steps input" "length frags = plan_count input"
    using assms(1) by (simp_all add: Plan_Inr plan_steps_def)
  have nth: "frags ! i = plan_fragment input
     (if plan_single input then val_or (pn_FinalSapParameters input) [] else []) (plan_count input) i"
    using assms(2) frags by (simp add: plan_steps_def)
  show "of_FragmentIndex (frags ! i) = int i" "of_FragmentCount (frags ! i) = int (length frags)"
    by (simp_all add: nth frags(2) plan_fragment_def Let_def)
  consider "length frags = 1" | "1 < length frags"
    using plan_count_pos [of input] frags(2) by linarith
  then show "of_IsFinal (frags ! i) \<longleftrightarrow> i + 1 = length frags"
    unfolding nth frags(2) [symmetric]
    using assms(2) semantics_single [of "int i"]
    by cases (auto simp add: plan_fragment_def Let_def semantics_stream)
  show "length frags = 1 \<Longrightarrow> of_FunctionCode (frags ! i) = FuncSapSend"
    "1 < length frags \<Longrightarrow> of_FunctionCode (frags ! i) = stream_function (length frags) i"
    unfolding nth frags(2) [symmetric]
    using assms(2) semantics_single [of "int i"]
    by (auto simp add: plan_fragment_def Let_def semantics_stream)
qed

text \<open>Every 22 consecutive data slices contain a barrier.\<close>

lemma barrier_window:
  assumes "i + 22 < c"
  shows "\<exists>j. i \<le> j \<and> j \<le> i + 21 \<and> stream_function c j = FuncSendData"
proof -
  define j where "j = 21 * ((i + 21) div 21)"
  have "i \<le> j" "j \<le> i + 21" "21 \<le> j" "j mod 21 = 0"
    unfolding j_def by simp_all
  with assms show ?thesis by (intro exI [of _ j]) (simp add: stream_function_def)
qed

section \<open>Properties\<close>

text \<open>
  Planning succeeds exactly when the message respects the configured limits and policy, its
  shape is either a compact message with a consistent SAP tail or longer than one slice, and the
  conversation id has 8 bytes; nothing else, and in particular not the encoder dry run the planner
  makes, can refuse a message.
\<close>

theorem plan_exact:
  "(\<exists>frags. PlanOutgoingDataFragments input options = Inr frags) \<longleftrightarrow>
     plan_limits_ok input options \<and> plan_shape_ok input \<and>
     length (conversation_or_zero (pn_Header input)) = 8"
  by (simp add: Plan_Inr)

text \<open>
  C10. A plan carries the message: the application data of its steps concatenate to the message,
  no step exceeds 28000 bytes, exactly the last step is final, the step count respects the
  limit, and in a streamed plan a synchronous barrier occurs in every 22 consecutive slices.
\<close>

theorem plan_carries_message:
  assumes "PlanOutgoingDataFragments input options = Inr frags"
  shows "concat (map of_ApplicationData frags) = pn_ApplicationData input \<and>
    list_all (\<lambda>f. length (of_ApplicationData f) \<le> MaxApplicationDataFragmentLength) frags \<and>
    map of_IsFinal frags = replicate (length frags - 1) False @ [True] \<and>
    int (length frags) \<le> val_or (po_MaxFragments options) DefaultMaxMessageFragments \<and>
    (\<forall>i. \<not> i + 22 < length frags \<or>
       (\<exists>j. i \<le> j \<and> j \<le> i + 21 \<and> of_FunctionCode (frags ! j) = FuncSendData))"
proof -
  have p: "plan_limits_ok input options" "plan_shape_ok input" "frags = plan_steps input"
    "length frags = plan_count input"
    using assms by (simp_all add: Plan_Inr plan_steps_def)
  have ne: "1 \<le> length frags" using plan_count_pos p(4) by simp
  have "map of_IsFinal frags = replicate (length frags - 1) False @ [True]"
  proof (rule nth_equalityI)
    fix i assume "i < length (map of_IsFinal frags)"
    then show "map of_IsFinal frags ! i = (replicate (length frags - 1) False @ [True]) ! i"
      using plan_steps_nth(3) [OF assms, of i] by (auto simp: nth_append)
  qed (use ne in simp)
  moreover have "length (of_ApplicationData f) \<le> MaxApplicationDataFragmentLength" if "f \<in> set frags" for f
    using encode_step [OF assms that]
    by (auto simp: EncodeOutgoingDataFragment_def SnapshotOutgoingDataFragment_def split: if_splits)
  moreover have "\<exists>j. i \<le> j \<and> j \<le> i + 21 \<and> of_FunctionCode (frags ! j) = FuncSendData"
    if w: "i + 22 < length frags" for i
  proof -
    obtain j where j: "i \<le> j" "j \<le> i + 21" "stream_function (length frags) j = FuncSendData"
      using barrier_window [OF w] by blast
    then show ?thesis using plan_steps_nth(5) [OF assms, of j] w by auto
  qed
  ultimately show ?thesis
    using plan_concat [OF p(2)] p by (auto simp: plan_limits_ok_def Let_def list_all_iff)
qed

definition sample_stream :: "nat \<Rightarrow> outgoing_data_plan_input" where
  "sample_stream n = \<lparr>pn_Header = no_overrides, pn_ApplicationData = replicate n 7,
     pn_FinalSapParameters = None, pn_CommunicationIndex = 1, pn_ConnectionIndex = 2\<rparr>"

definition streaming_options :: outgoing_data_planner_options where
  "streaming_options = \<lparr>po_MaxApplicationDataLength = None, po_MaxFragments = None,
     po_CpicStreaming = StreamingEnabled\<rparr>"

lemma sample_stream_plan:
  "PlanOutgoingDataFragments (sample_stream 28001) streaming_options = Inr (plan_steps (sample_stream 28001))"
  by (simp add: Plan_Inr plan_limits_ok_def plan_shape_ok_def plan_count_def plan_single_def
      plan_fragment_count_def sample_stream_def streaming_options_def val_or_def appc_consts Let_def)

theorem plan_carries_message_witness:
  "concat (map of_ApplicationData (plan_steps (sample_stream 28001))) = replicate 28001 7 \<and>
   map of_IsFinal (plan_steps (sample_stream 28001)) = [False, False, True]"
  using plan_carries_message [OF sample_stream_plan]
  by (simp add: plan_steps_def plan_count_def plan_single_def plan_fragment_count_def sample_stream_def
      MaxApplicationDataFragmentLength_def replicate_pair)

text \<open>
  Every step of a plan is accepted by the step encoder, and its record decodes to the
  planned function code, final marker's vector, sequence number and conversation id, with the
  slice (and the compact SAP tail) as its trailing data.
\<close>

theorem planned_steps_encode:
  assumes "PlanOutgoingDataFragments input options = Inr frags" "f \<in> set frags"
  shows "\<exists>b h. EncodeOutgoingDataFragment f = Inr b \<and> DecodeHeader b = Inr h \<and>
     h_FunctionCode h = of_FunctionCode f \<and> h_Vector h = of_Vector f \<and>
     h_SequenceNumber h = of_SequenceNumber f \<and> h_ConversationID h = of_ConversationID f \<and>
     drop RecordHeaderLength b = of_ApplicationData f @ of_FinalSapParameters f"
proof -
  obtain b where b: "EncodeOutgoingDataFragment f = Inr b"
    using encode_step [OF assms] by blast
  show ?thesis
    using b encode_step_decode [OF assms b]
    by (simp add: RecordHeaderLength_def headerInput_id)
      (simp add: headerInput_def or_defs)
qed

theorem planned_steps_encode_witness:
  "\<exists>b. EncodeOutgoingDataFragment (plan_fragment (sample_stream 28001) [] 3 1) = Inr b \<and>
     drop RecordHeaderLength b = [7]"
proof -
  have c: "plan_count (sample_stream 28001) = 3" "\<not> plan_single (sample_stream 28001)"
    by (simp_all add: plan_count_def plan_single_def plan_fragment_count_def sample_stream_def
        MaxApplicationDataFragmentLength_def)
  have m: "plan_fragment (sample_stream 28001) [] 3 1 \<in> set (plan_steps (sample_stream 28001))"
    using c by (auto simp: plan_steps_def)
  have "of_ApplicationData (plan_fragment (sample_stream 28001) [] 3 1) = [7]"
    "of_FinalSapParameters (plan_fragment (sample_stream 28001) [] 3 1) = []"
    using plan_data_stream [of 3 1 "replicate 28001 7" "sample_stream 28001" "[]"]
    by (simp_all add: sample_stream_def gslice_def plan_fragment_def Let_def)
  then show ?thesis
    using planned_steps_encode [OF sample_stream_plan m] by auto
qed

text \<open>
  The data operation information of F_ASEND_DATA round-trips for every slice length the
  encoder accepts, and the encoder accepts exactly 1 to 28000.
\<close>

theorem async_info_roundtrip:
  "encodeAsyncDataInfo n ci xi =
     (if 1 \<le> n \<and> n \<le> 28000 then Inr (async_layout (of_int n) ci xi) else Inl ErrRange) \<and>
   DecodeAsyncDataInfo (async_layout d ci xi) =
     (if 1 \<le> unat d \<and> unat d \<le> 28000
      then Inr \<lparr>do_DataLength = d, do_CommunicationIndex = ci, do_ConnectionIndex = xi\<rparr>
      else Inl ErrRange)"
  by (auto simp: encodeAsyncDataInfo_eq DecodeAsyncDataInfo_def DecodeDataOperationInfo_layout
      MaxApplicationDataFragmentLength_def)

end
