(* ===== verification/Appc_Conversation.thy ===== *)
theory Appc_Conversation
  imports Appc_Fragment
begin

text \<open>
  Package \<open>appc\<close>, file \<open>conversation.go\<close>: the data-record decoder, the synchronous-send
  acknowledgement, the client set-up state machine and the reassembler of fragmented messages.
  A method that can change its receiver returns the receiver beside the result, on the error
  paths too. The lemmas give the machine's handshake invariant over every reachable history and
  the reassembler's buffer invariant, bounds and round trip.
\<close>

unbundle bit_operations_syntax

section \<open>Data records\<close>

record data_fragment =
  df_Header :: header
  df_Data :: bytes
  df_IsFinal :: bool

definition DecodeDataFragment :: "bytes \<Rightarrow> appc_error + data_fragment" where
  "DecodeDataFragment payload =
     (if length payload < RecordHeaderLength then Inl ErrRange
      else bindE (DecodeHeader payload) (\<lambda>header.
        if h_FunctionCode header \<noteq> FuncSapSend \<and> h_FunctionCode header \<noteq> FuncReceive then Inl ErrProtocol
        else Inr \<lparr>df_Header = header, df_Data = drop RecordHeaderLength payload,
                  df_IsFinal = (h_Vector header AND VectorEndOfMessage \<noteq> 0)\<rparr>))"

record synchronous_send_acknowledgement =
  sa_Header :: header
  sa_ConnectionIndex :: u16

definition ack_header_canonical :: "header \<Rightarrow> bool" where
  "ack_header_canonical h \<longleftrightarrow>
     \<not> (h_FunctionCode h \<noteq> FuncSendData \<or> h_Protocol h \<noteq> 2 \<or> h_Mode h \<noteq> 0 \<or> h_UID h \<noteq> 0xffff \<or>
        h_GatewayID h \<noteq> 0 \<or> h_ErrorLength h \<noteq> 0 \<or> h_Info2 h \<noteq> 0 \<or> h_TraceLevel h \<noteq> 0 \<or>
        h_Time h \<noteq> 0 \<or> h_Info3 h \<noteq> 0 \<or> h_Timeout h \<noteq> 0 \<or> h_Info4 h \<noteq> 2 \<or>
        h_SequenceNumber h \<noteq> 0 \<or> h_Info h \<noteq> 1 \<or> h_Vector h \<noteq> 0 \<or> h_SapParameterLen h \<noteq> 0 \<or>
        h_Padding h \<noteq> 0 \<or> h_AppcReturnCode h \<noteq> 0 \<or> h_SapReturnCode h \<noteq> 0)"

definition DecodeSynchronousSendAcknowledgement ::
    "bytes \<Rightarrow> appc_error + synchronous_send_acknowledgement" where
  "DecodeSynchronousSendAcknowledgement payload =
     (if length payload \<noteq> RecordHeaderLength then Inl ErrRange
      else bindE (DecodeHeader payload) (\<lambda>header.
        if \<not> ack_header_canonical header then Inl ErrProtocol
        else let encodedOperationInfo = gslice CommonHeaderLength RecordHeaderLength payload in
          bindE (DecodeIncomingDataOperationInfo encodedOperationInfo) (\<lambda>operationInfo.
          if list_ex (\<lambda>b. b \<noteq> 0) (take 30 encodedOperationInfo) then Inl ErrProtocol
          else if id_DataLength operationInfo \<noteq> 0 \<or> id_CommunicationIndex operationInfo \<noteq> 0
            then Inl ErrProtocol
          else Inr \<lparr>sa_Header = header, sa_ConnectionIndex = id_ConnectionIndex operationInfo\<rparr>)))"

section \<open>The client set-up machine\<close>

datatype ClientSetupState =
    StateNew | StateInitializePending | StateInitialized | StateTpSet | StatePartnerSet
  | StateAllocatePending | StateSendContinuation | StateSendBarrierPending | StateResponsePending
  | StateReady | StateClosed

text \<open>The constants' string values, which the error messages print.\<close>

fun state_name :: "ClientSetupState \<Rightarrow> string" where
  "state_name StateNew = ''new''"
| "state_name StateInitializePending = ''initialize-pending''"
| "state_name StateInitialized = ''initialized''"
| "state_name StateTpSet = ''tp-set''"
| "state_name StatePartnerSet = ''partner-set''"
| "state_name StateAllocatePending = ''allocate-pending''"
| "state_name StateSendContinuation = ''send-continuation''"
| "state_name StateSendBarrierPending = ''send-barrier-pending''"
| "state_name StateResponsePending = ''response-pending''"
| "state_name StateReady = ''ready''"
| "state_name StateClosed = ''closed''"

datatype ReceiveDisposition = DispositionAccepted | DispositionNormalDeallocation

text \<open>The machine has the one field \<open>state\<close>.\<close>

record client_setup_machine =
  m_state :: ClientSetupState

definition NewClientSetupStateMachine :: client_setup_machine where
  "NewClientSetupStateMachine = \<lparr>m_state = StateNew\<rparr>"

definition ResponseComplete :: "client_setup_machine \<Rightarrow> (appc_error + unit) \<times> client_setup_machine" where
  "ResponseComplete m =
     (if m_state m \<noteq> StateResponsePending then (Inl (ErrState ''''), m\<lparr>m_state := StateClosed\<rparr>)
      else (Inr (), m\<lparr>m_state := StateReady\<rparr>))"

definition sent_allowed :: "ClientSetupState \<Rightarrow> Function \<Rightarrow> bool" where
  "sent_allowed s fc \<longleftrightarrow>
     (s = StateNew \<and> fc = FuncInitialize) \<or>
     (s = StateInitialized \<and> (fc = FuncSetTpName \<or> fc = FuncSetPartnerLuName)) \<or>
     (s = StateTpSet \<and> fc = FuncSetPartnerLuName) \<or>
     (s = StatePartnerSet \<and> fc = FuncAllocate) \<or>
     (s = StateReady \<and> (fc = FuncSapSend \<or> fc = FuncAsyncSendData \<or> fc = FuncDeallocate)) \<or>
     (s = StateSendContinuation \<and> (fc = FuncAsyncSendData \<or> fc = FuncSendData \<or> fc = FuncReceive))"

text \<open>The \<open>switch\<close> after the guards.\<close>

definition sent_next :: "Function \<Rightarrow> bool \<Rightarrow> ClientSetupState \<Rightarrow> ClientSetupState" where
  "sent_next fc isFinalDataRecord s =
     (if fc = FuncInitialize then StateInitializePending
      else if fc = FuncSetTpName then StateTpSet
      else if fc = FuncSetPartnerLuName then StatePartnerSet
      else if fc = FuncAllocate then StateAllocatePending
      else if fc = FuncAsyncSendData then StateSendContinuation
      else if fc = FuncSapSend then StateResponsePending
      else if fc = FuncSendData then StateSendBarrierPending
      else if fc = FuncReceive then (if isFinalDataRecord then StateResponsePending else s)
      else if fc = FuncDeallocate then StateClosed
      else s)"

definition Sent :: "Function \<Rightarrow> bool \<Rightarrow> client_setup_machine \<Rightarrow> (appc_error + unit) \<times> client_setup_machine" where
  "Sent functionCode isFinalDataRecord m =
     (if functionCode = FuncSapSend \<and> \<not> isFinalDataRecord then (Inl (ErrState ''''), m)
      else if functionCode = FuncAsyncSendData \<and> isFinalDataRecord then (Inl (ErrState ''''), m)
      else if functionCode = FuncSendData \<and> isFinalDataRecord then (Inl (ErrState ''''), m)
      else if functionCode = FuncReceive \<and> m_state m = StateSendContinuation \<and> \<not> isFinalDataRecord
        then (Inl (ErrState ''''), m)
      else if \<not> sent_allowed (m_state m) functionCode
        then (Inl (ErrState (state_name (m_state m))), m)
      else (Inr (), m\<lparr>m_state := sent_next functionCode isFinalDataRecord (m_state m)\<rparr>))"

definition received_allowed :: "ClientSetupState \<Rightarrow> Function \<Rightarrow> bool" where
  "received_allowed s fc \<longleftrightarrow>
     (s = StateInitializePending \<and> fc = FuncInitialize) \<or>
     (s = StateAllocatePending \<and> fc = FuncAllocate) \<or>
     (s = StateSendBarrierPending \<and> fc = FuncSendData) \<or>
     (s = StateResponsePending \<and> (fc = FuncSapSend \<or> fc = FuncReceive))"

fun received_next :: "ClientSetupState \<Rightarrow> ClientSetupState" where
  "received_next StateInitializePending = StateInitialized"
| "received_next StateAllocatePending = StateReady"
| "received_next StateSendBarrierPending = StateSendContinuation"
| "received_next s = s"

text \<open>
  The last refusal formats the state after it was set to closed, so the state its message reports
  is always \<open>closed\<close>.
\<close>

definition Received :: "bytes \<Rightarrow> client_setup_machine \<Rightarrow>
    (appc_error + ReceiveDisposition) \<times> client_setup_machine" where
  "Received payload m =
     (let closed = m\<lparr>m_state := StateClosed\<rparr> in
      if length payload < RecordHeaderLength then (Inl ErrRange, closed)
      else case DecodeHeader payload of
        Inl e \<Rightarrow> (Inl e, closed)
      | Inr header \<Rightarrow>
          let normalDeallocation = (h_AppcReturnCode header = returnCodeDeallocatedNormal \<and>
                h_SapReturnCode header = 0 \<and> m_state m = StateResponsePending \<and>
                (h_FunctionCode header = FuncSapSend \<or> h_FunctionCode header = FuncReceive))
          in if normalDeallocation then (Inr DispositionNormalDeallocation, closed)
             else if h_AppcReturnCode header \<noteq> 0 \<or> h_SapReturnCode header \<noteq> 0 then
               (Inl (PeerReturnCodeError (h_FunctionName header) (h_AppcReturnCode header)
                       (h_SapReturnCode header)), closed)
             else if \<not> received_allowed (m_state m) (h_FunctionCode header) then
               (Inl (ErrState (state_name (m_state closed))), closed)
             else (Inr DispositionAccepted, m\<lparr>m_state := received_next (m_state m)\<rparr>))"

section \<open>The reassembler\<close>

record appc_message =
  ms_Data :: bytes
  ms_ConversationID :: bytes
  ms_SequenceNumber :: u32
  ms_FragmentCount :: int
  ms_CommunicationIndex :: u16
  ms_ConnectionIndex :: u16

record conversation_decoder_options =
  co_MaxMessageLength :: "int option"
  co_MaxFragments :: "int option"
  co_AllowInitialReceive :: bool
  co_ValidateIncomingDataOperationInfo :: bool

record pending_message =
  pm_chunks :: "bytes list"
  pm_conversationID :: bytes
  pm_sequenceNumber :: u32
  pm_byteLength :: int
  pm_fragmentCount :: int
  pm_communicationIndex :: u16
  pm_connectionIndex :: u16

record conversation_decoder =
  cd_maxMessageLength :: int
  cd_maxFragments :: int
  cd_allowInitialReceive :: bool
  cd_validateIncomingDataOperationInfo :: bool
  cd_pending :: "pending_message option"

definition NewConversationDecoder :: "conversation_decoder_options \<Rightarrow> appc_error + conversation_decoder" where
  "NewConversationDecoder options =
     (let maxMessageLength = val_or (co_MaxMessageLength options) DefaultMaxMessageLength;
          maxFragments = val_or (co_MaxFragments options) DefaultMaxMessageFragments in
      if maxMessageLength < 0 then Inl ErrRange
      else if maxFragments < 1 then Inl ErrRange
      else Inr \<lparr>cd_maxMessageLength = maxMessageLength, cd_maxFragments = maxFragments,
                cd_allowInitialReceive = co_AllowInitialReceive options,
                cd_validateIncomingDataOperationInfo = co_ValidateIncomingDataOperationInfo options,
                cd_pending = None\<rparr>)"

definition BufferedByteLength :: "conversation_decoder \<Rightarrow> int" where
  "BufferedByteLength d = (case cd_pending d of None \<Rightarrow> 0 | Some p \<Rightarrow> pm_byteLength p)"

definition FragmentCount :: "conversation_decoder \<Rightarrow> int" where
  "FragmentCount d = (case cd_pending d of None \<Rightarrow> 0 | Some p \<Rightarrow> pm_fragmentCount p)"

definition checkLimits :: "conversation_decoder \<Rightarrow> int \<Rightarrow> int \<Rightarrow> appc_error + unit" where
  "checkLimits d byteLength fragmentCount =
     (if byteLength > cd_maxMessageLength d then Inl ErrRange
      else if fragmentCount > cd_maxFragments d then Inl ErrRange
      else Inr ())"

definition matchPending :: "pending_message \<Rightarrow> header \<Rightarrow> incoming_data_operation_info \<Rightarrow> appc_error + unit" where
  "matchPending p header operationInfo =
     (if pm_conversationID p \<noteq> h_ConversationID header then Inl ErrProtocol
      else if pm_sequenceNumber p \<noteq> h_SequenceNumber header then Inl ErrProtocol
      else if pm_communicationIndex p \<noteq> id_CommunicationIndex operationInfo \<or>
              pm_connectionIndex p \<noteq> id_ConnectionIndex operationInfo then Inl ErrProtocol
      else Inr ())"

definition singleMessage :: "header \<Rightarrow> bytes \<Rightarrow> incoming_data_operation_info \<Rightarrow> appc_message" where
  "singleMessage header data operationInfo =
     \<lparr>ms_Data = data, ms_ConversationID = h_ConversationID header,
      ms_SequenceNumber = h_SequenceNumber header, ms_FragmentCount = 1,
      ms_CommunicationIndex = id_CommunicationIndex operationInfo,
      ms_ConnectionIndex = id_ConnectionIndex operationInfo\<rparr>"

definition newPending :: "header \<Rightarrow> bytes \<Rightarrow> incoming_data_operation_info \<Rightarrow> pending_message" where
  "newPending header data operationInfo =
     \<lparr>pm_chunks = [data], pm_conversationID = h_ConversationID header,
      pm_sequenceNumber = h_SequenceNumber header, pm_byteLength = int (length data),
      pm_fragmentCount = 1, pm_communicationIndex = id_CommunicationIndex operationInfo,
      pm_connectionIndex = id_ConnectionIndex operationInfo\<rparr>"

definition concatChunks :: "bytes list \<Rightarrow> bytes" where
  "concatChunks chunks = concat chunks"

definition assemblePending :: "pending_message \<Rightarrow> bytes \<Rightarrow> int \<Rightarrow> appc_message" where
  "assemblePending p finalData fragmentCount =
     \<lparr>ms_Data = concatChunks (pm_chunks p @ [finalData]), ms_ConversationID = pm_conversationID p,
      ms_SequenceNumber = pm_sequenceNumber p, ms_FragmentCount = fragmentCount,
      ms_CommunicationIndex = pm_communicationIndex p, ms_ConnectionIndex = pm_connectionIndex p\<rparr>"

definition pending_message_done :: "pending_message \<Rightarrow> appc_message" where
  "pending_message_done p =
     \<lparr>ms_Data = concatChunks (pm_chunks p), ms_ConversationID = pm_conversationID p,
      ms_SequenceNumber = pm_sequenceNumber p, ms_FragmentCount = pm_fragmentCount p,
      ms_CommunicationIndex = pm_communicationIndex p, ms_ConnectionIndex = pm_connectionIndex p\<rparr>"

text \<open>The return-code guards at the start of \<open>push\<close>.\<close>

definition push_status :: "header \<Rightarrow> bool \<Rightarrow> appc_error + unit" where
  "push_status header terminalDeallocation =
     (if terminalDeallocation then
        fail_if (h_AppcReturnCode header \<noteq> returnCodeDeallocatedNormal \<or> h_SapReturnCode header \<noteq> 0) ErrProtocol
      else if h_AppcReturnCode header = returnCodeDeallocatedNormal \<and> h_SapReturnCode header = 0
        then Inl ErrProtocol
      else fail_if (h_AppcReturnCode header \<noteq> 0 \<or> h_SapReturnCode header \<noteq> 0) ErrProtocol)"

text \<open>The branch of \<open>push\<close> for the terminal deallocation, after the record is decoded.\<close>

definition push_terminal :: "conversation_decoder \<Rightarrow> header \<Rightarrow> data_fragment \<Rightarrow>
    incoming_data_operation_info \<Rightarrow> appc_error + appc_message list \<times> conversation_decoder" where
  "push_terminal d header fragment operationInfo =
     (if length (df_Data fragment) = 0 then Inl ErrNormalDeallocationWithoutData
      else case cd_pending d of
        None \<Rightarrow>
          bindE (fail_if (h_FunctionCode header = FuncReceive \<and> \<not> cd_allowInitialReceive d) ErrProtocol) (\<lambda>_.
          bindE (checkLimits d (int (length (df_Data fragment))) 1) (\<lambda>_.
          Inr ([singleMessage header (df_Data fragment) operationInfo], d)))
      | Some p \<Rightarrow>
          bindE (fail_if (h_FunctionCode header \<noteq> FuncReceive) ErrProtocol) (\<lambda>_.
          bindE (matchPending p header operationInfo) (\<lambda>_.
          let byteLength = pm_byteLength p + int (length (df_Data fragment));
              fragmentCount = pm_fragmentCount p + 1 in
          bindE (checkLimits d byteLength fragmentCount) (\<lambda>_.
          Inr ([assemblePending p (df_Data fragment) fragmentCount], d\<lparr>cd_pending := None\<rparr>)))))"

text \<open>A record that starts a message: F_SAP_SEND, or F_RECEIVE where the options allow it.\<close>

definition push_first :: "conversation_decoder \<Rightarrow> header \<Rightarrow> data_fragment \<Rightarrow>
    incoming_data_operation_info \<Rightarrow> appc_error + appc_message list \<times> conversation_decoder" where
  "push_first d header fragment operationInfo =
     bindE (checkLimits d (int (length (df_Data fragment))) 1) (\<lambda>_.
     if df_IsFinal fragment then Inr ([singleMessage header (df_Data fragment) operationInfo], d)
     else Inr ([], d\<lparr>cd_pending := Some (newPending header (df_Data fragment) operationInfo)\<rparr>))"

definition push_ordinary :: "conversation_decoder \<Rightarrow> header \<Rightarrow> data_fragment \<Rightarrow>
    incoming_data_operation_info \<Rightarrow> appc_error + appc_message list \<times> conversation_decoder" where
  "push_ordinary d header fragment operationInfo =
     (if h_FunctionCode header = FuncSapSend then
        (if cd_pending d \<noteq> None then Inl ErrProtocol else push_first d header fragment operationInfo)
      else case cd_pending d of
        None \<Rightarrow>
          (if \<not> cd_allowInitialReceive d then Inl ErrProtocol else push_first d header fragment operationInfo)
      | Some p \<Rightarrow>
          bindE (matchPending p header operationInfo) (\<lambda>_.
          let byteLength = pm_byteLength p + int (length (df_Data fragment));
              fragmentCount = pm_fragmentCount p + 1 in
          bindE (checkLimits d byteLength fragmentCount) (\<lambda>_.
          let p' = p\<lparr>pm_chunks := pm_chunks p @ [df_Data fragment], pm_byteLength := byteLength,
                     pm_fragmentCount := fragmentCount\<rparr> in
          if \<not> df_IsFinal fragment then Inr ([], d\<lparr>cd_pending := Some p'\<rparr>)
          else Inr ([pending_message_done p'], d\<lparr>cd_pending := None\<rparr>))))"

text \<open>
  \<open>push\<close>: every error leaves the decoder as it was, since the pending message is assigned only
  on the paths that return messages.
\<close>

definition push :: "conversation_decoder \<Rightarrow> bytes \<Rightarrow> bool \<Rightarrow>
    appc_error + appc_message list \<times> conversation_decoder" where
  "push d payload terminalDeallocation =
     bindE (DecodeHeader payload) (\<lambda>header.
     bindE (push_status header terminalDeallocation) (\<lambda>_.
     if h_FunctionCode header \<noteq> FuncSapSend \<and> h_FunctionCode header \<noteq> FuncReceive then
       (if cd_pending d \<noteq> None then Inl ErrProtocol
        else if terminalDeallocation then Inl ErrNormalDeallocationWithoutData
        else Inr ([], d))
     else
       bindE (if length payload \<ge> RecordHeaderLength
              then checkLimits d (BufferedByteLength d + int (length payload - RecordHeaderLength))
                     (FragmentCount d + 1)
              else Inr ()) (\<lambda>_.
       bindE (DecodeDataFragment payload) (\<lambda>fragment.
       bindE (DecodeIncomingDataOperationInfo (gslice CommonHeaderLength RecordHeaderLength payload))
         (\<lambda>operationInfo.
       bindE (fail_if (cd_validateIncomingDataOperationInfo d \<and>
                       unat (id_DataLength operationInfo) \<noteq> length (df_Data fragment)) ErrProtocol) (\<lambda>_.
       if terminalDeallocation then push_terminal d header fragment operationInfo
       else push_ordinary d header fragment operationInfo))))))"

definition Push :: "bytes \<Rightarrow> conversation_decoder \<Rightarrow> appc_error + appc_message list \<times> conversation_decoder" where
  "Push payload d = push d payload False"

definition PushTerminalDeallocation ::
    "bytes \<Rightarrow> conversation_decoder \<Rightarrow> appc_error + appc_message list \<times> conversation_decoder" where
  "PushTerminalDeallocation payload d = push d payload True"

definition Finish :: "conversation_decoder \<Rightarrow> appc_error + unit" where
  "Finish d = fail_if (cd_pending d \<noteq> None) ErrProtocol"

section \<open>Histories of the set-up machine\<close>

text \<open>
  The machine with the functions it has admitted so far. An event is a call of one of its three
  methods; a refused call leaves the history alone.
\<close>

datatype setup_event = CallSent Function bool | CallReceived bytes | CallResponseComplete

type_synonym setup_history = "client_setup_machine \<times> Function list"

fun setup_run :: "setup_event \<Rightarrow> setup_history \<Rightarrow> setup_history" where
  "setup_run (CallSent fc fin) (m, trace) =
     (case Sent fc fin m of (Inr _, m') \<Rightarrow> (m', trace @ [fc]) | (Inl _, m') \<Rightarrow> (m', trace))"
| "setup_run (CallReceived payload) (m, trace) = (snd (Received payload m), trace)"
| "setup_run CallResponseComplete (m, trace) = (snd (ResponseComplete m), trace)"

definition setup_step :: "setup_history \<Rightarrow> setup_event \<Rightarrow> setup_history \<Rightarrow> bool" where
  "setup_step s e t \<longleftrightarrow> t = setup_run e s"

definition setup_init :: "setup_history \<Rightarrow> bool" where
  "setup_init s \<longleftrightarrow> s = (NewClientSetupStateMachine, [])"

text \<open>The words of the protocol: the handshake and the two forms of an outgoing message.\<close>

definition handshakes :: "Function list list" where
  "handshakes = [[FuncInitialize, FuncSetPartnerLuName], [FuncInitialize, FuncSetTpName, FuncSetPartnerLuName]]"

definition open_message :: "Function list \<Rightarrow> bool" where
  "open_message w \<longleftrightarrow> (\<exists>xs. w = FuncAsyncSendData # xs \<and> set xs \<subseteq> {FuncAsyncSendData, FuncSendData})"

definition whole_message :: "Function list \<Rightarrow> bool" where
  "whole_message w \<longleftrightarrow> w = [FuncSapSend] \<or> (\<exists>v. open_message v \<and> w = v @ [FuncReceive])"

definition established :: "Function list \<Rightarrow> Function list \<Rightarrow> bool" where
  "established trace rest \<longleftrightarrow> (\<exists>hs ms. hs \<in> set handshakes \<and> list_all whole_message ms \<and>
     trace = hs @ [FuncAllocate] @ concat ms @ rest)"

fun admitted_open :: "ClientSetupState \<Rightarrow> Function list \<Rightarrow> bool" where
  "admitted_open StateNew t = (t = [])"
| "admitted_open StateInitializePending t = (t = [FuncInitialize])"
| "admitted_open StateInitialized t = (t = [FuncInitialize])"
| "admitted_open StateTpSet t = (t = [FuncInitialize, FuncSetTpName])"
| "admitted_open StatePartnerSet t = (t \<in> set handshakes)"
| "admitted_open StateAllocatePending t = (\<exists>hs \<in> set handshakes. t = hs @ [FuncAllocate])"
| "admitted_open StateReady t = established t []"
| "admitted_open StateResponsePending t = established t []"
| "admitted_open StateSendContinuation t = (\<exists>w. open_message w \<and> established t w)"
| "admitted_open StateSendBarrierPending t = (\<exists>w. open_message w \<and> established t w)"
| "admitted_open StateClosed t = False"

definition admitted :: "setup_history \<Rightarrow> bool" where
  "admitted h \<longleftrightarrow> (case h of (m, t) \<Rightarrow>
     if m_state m = StateClosed
     then (\<exists>s. admitted_open s t) \<or> (\<exists>t'. t = t' @ [FuncDeallocate] \<and> established t' [])
     else admitted_open (m_state m) t)"

lemma established_msg: "established t w \<Longrightarrow> whole_message (w @ v) \<Longrightarrow> established (t @ v) []"
proof -
  assume "established t w" and w: "whole_message (w @ v)"
  then obtain hs ms where "hs \<in> set handshakes" "list_all whole_message ms"
    "t = hs @ [FuncAllocate] @ concat ms @ w"
    by (auto simp: established_def)
  with w show ?thesis
    unfolding established_def by (intro exI [of _ hs] exI [of _ "ms @ [w @ v]"]) simp
qed

lemma established_extend: "established t w \<Longrightarrow> established (t @ v) (w @ v)"
  by (auto simp: established_def)

lemma open_message_snoc:
  "open_message w \<Longrightarrow> fc \<in> {FuncAsyncSendData, FuncSendData} \<Longrightarrow> open_message (w @ [fc])"
  by (auto simp: open_message_def)

lemma handshake_done: "hs \<in> set handshakes \<Longrightarrow> established (hs @ [FuncAllocate]) []"
  unfolding established_def by (intro exI [of _ hs] exI [of _ "[]"]) simp

lemma func_distinct:
  "distinct [FuncInitialize, FuncAllocate, FuncSendData, FuncAsyncSendData, FuncReceive, FuncAsyncReceive,
     FuncDeallocate, FuncSetTpName, FuncSetPartnerLuName, FuncFlush, FuncSapSend]"
  by (simp add: func_codes)

lemma func_neqs [simp]:
  "FuncSapSend \<noteq> FuncAsyncSendData" "FuncSapSend \<noteq> FuncSendData" "FuncSapSend \<noteq> FuncReceive"
  "FuncAsyncSendData \<noteq> FuncSapSend" "FuncAsyncSendData \<noteq> FuncSendData" "FuncAsyncSendData \<noteq> FuncReceive"
  "FuncSendData \<noteq> FuncSapSend" "FuncSendData \<noteq> FuncAsyncSendData" "FuncSendData \<noteq> FuncReceive"
  "FuncReceive \<noteq> FuncSapSend" "FuncReceive \<noteq> FuncAsyncSendData" "FuncReceive \<noteq> FuncSendData"
  by (simp_all add: func_codes)

lemma Sent_admitted:
  assumes "admitted_open s t" "sent_allowed s fc" "\<not> (fc = FuncReceive \<and> s = StateSendContinuation \<and> \<not> fin)"
  shows "if sent_next fc fin s = StateClosed then fc = FuncDeallocate \<and> established t []
     else admitted_open (sent_next fc fin s) (t @ [fc])"
proof -
  have ready: "s = StateReady \<Longrightarrow> established t []" using assms(1) by simp
  have cont: "s = StateSendContinuation \<Longrightarrow> \<exists>w. open_message w \<and> established t w" using assms(1) by simp
  from assms(2) consider "s = StateNew" "fc = FuncInitialize"
    | "s = StateInitialized" "fc = FuncSetTpName" | "s = StateInitialized" "fc = FuncSetPartnerLuName"
    | "s = StateTpSet" "fc = FuncSetPartnerLuName" | "s = StatePartnerSet" "fc = FuncAllocate"
    | "s = StateReady" "fc = FuncSapSend" | "s = StateReady" "fc = FuncAsyncSendData"
    | "s = StateReady" "fc = FuncDeallocate"
    | "s = StateSendContinuation" "fc = FuncAsyncSendData"
    | "s = StateSendContinuation" "fc = FuncSendData" | "s = StateSendContinuation" "fc = FuncReceive"
    by (auto simp: sent_allowed_def)
  then show ?thesis
  proof cases
    case 6
    then show ?thesis
      using established_msg [OF ready, of "[FuncSapSend]"]
      by (simp add: sent_next_def func_codes whole_message_def)
  next
    case 7
    then have "established (t @ [fc]) [fc]" "open_message [fc]"
      using established_extend [OF ready, of "[fc]"] by (simp_all add: open_message_def)
    with 7 show ?thesis by (auto simp: sent_next_def func_codes)
  next
    case 11
    then obtain w where "open_message w" "established t w" using cont by blast
    then have "established (t @ [FuncReceive]) []"
      by (intro established_msg) (auto simp: whole_message_def)
    with 11 assms(3) show ?thesis by (simp add: sent_next_def func_codes)
  qed (use assms(1) cont ready established_extend open_message_snoc in
      \<open>force simp: sent_next_def func_codes handshakes_def\<close>)+
qed

lemma received_admitted:
  "admitted_open s t \<Longrightarrow> received_allowed s fc \<Longrightarrow> admitted_open (received_next s) t"
  by (auto simp: received_allowed_def handshake_done)

lemma received_next_open: "s \<noteq> StateClosed \<Longrightarrow> received_next s \<noteq> StateClosed"
  by (cases s) simp_all

lemma snd_Received:
  "m_state (snd (Received payload m)) = StateClosed \<or>
     (\<exists>fc. received_allowed (m_state m) fc \<and> m_state (snd (Received payload m)) = received_next (m_state m))"
  by (auto simp: Received_def Let_def split: sum.splits)

lemma admitted_closed: "admitted (m, t) \<Longrightarrow> m_state m' = StateClosed \<Longrightarrow> admitted (m', t)"
  by (auto simp: admitted_def split: if_splits)

lemma admitted_step:
  assumes "admitted s" "setup_step s e u"
  shows "admitted u"
proof -
  obtain m t where s: "s = (m, t)" by (cases s)
  show ?thesis
  proof (cases e)
    case (CallSent fc fin)
    show ?thesis
    proof (cases "fst (Sent fc fin m)")
      case (Inl e')
      then have "u = s" using assms(2) s CallSent
        by (auto simp: setup_step_def Sent_def split: if_splits)
      then show ?thesis using assms(1) by simp
    next
      case (Inr v)
      then have u: "u = (m\<lparr>m_state := sent_next fc fin (m_state m)\<rparr>, t @ [fc])"
        and al: "sent_allowed (m_state m) fc" "\<not> (fc = FuncReceive \<and> m_state m = StateSendContinuation \<and> \<not> fin)"
        using assms(2) s CallSent by (auto simp: setup_step_def Sent_def split: if_splits)
      have "m_state m \<noteq> StateClosed" using al(1) by (auto simp: sent_allowed_def)
      then have "admitted_open (m_state m) t" using assms(1) s by (simp add: admitted_def)
      from Sent_admitted [OF this al] show ?thesis
        by (auto simp: u admitted_def split: if_splits)
    qed
  next
    case (CallReceived payload)
    then have u: "u = (snd (Received payload m), t)" using assms(2) s by (simp add: setup_step_def)
    from snd_Received [of payload m] show ?thesis
    proof
      assume "m_state (snd (Received payload m)) = StateClosed"
      then show ?thesis using admitted_closed assms(1) s u by simp
    next
      assume "\<exists>fc. received_allowed (m_state m) fc \<and> m_state (snd (Received payload m)) = received_next (m_state m)"
      then obtain fc where fc: "received_allowed (m_state m) fc"
        "m_state (snd (Received payload m)) = received_next (m_state m)" by blast
      moreover have "m_state m \<noteq> StateClosed" using fc(1) by (auto simp: received_allowed_def)
      ultimately show ?thesis
        using assms(1) received_admitted [of "m_state m" t fc] received_next_open [of "m_state m"]
        by (simp add: s u admitted_def)
    qed
  next
    case CallResponseComplete
    then show ?thesis
      using assms s by (auto simp: setup_step_def ResponseComplete_def admitted_def split: if_splits)
  qed
qed

interpretation setup_machine: invariant_system setup_init setup_step admitted
proof
  show "admitted s" if "setup_init s" for s
    using that by (simp add: setup_init_def NewClientSetupStateMachine_def admitted_def)
qed (rule admitted_step)

section \<open>Acknowledgements\<close>

lemma ack_accepted:
  assumes "DecodeSynchronousSendAcknowledgement payload = Inr a" "m_state m = StateSendBarrierPending"
  shows "Received payload m = (Inr DispositionAccepted, m\<lparr>m_state := StateSendContinuation\<rparr>)"
proof -
  obtain h where "length payload = RecordHeaderLength" "DecodeHeader payload = Inr h" "ack_header_canonical h"
    using assms(1) by (auto simp: DecodeSynchronousSendAcknowledgement_def bindE_Inr_iff split: if_splits)
  then show ?thesis
    using assms(2)
    by (auto simp: Received_def Let_def ack_header_canonical_def received_allowed_def)
qed

section \<open>The reassembler: lemmas\<close>

definition pending_ok :: "conversation_decoder \<Rightarrow> pending_message \<Rightarrow> bool" where
  "pending_ok d p \<longleftrightarrow> pm_chunks p \<noteq> [] \<and> pm_byteLength p = int (length (concat (pm_chunks p))) \<and>
     pm_fragmentCount p = int (length (pm_chunks p)) \<and> pm_byteLength p \<le> cd_maxMessageLength d \<and>
     pm_fragmentCount p \<le> cd_maxFragments d"

definition conversation_ok :: "conversation_decoder \<Rightarrow> bool" where
  "conversation_ok d \<longleftrightarrow> 0 \<le> cd_maxMessageLength d \<and> 1 \<le> cd_maxFragments d \<and>
     (case cd_pending d of None \<Rightarrow> True | Some p \<Rightarrow> pending_ok d p)"

definition message_in_bounds :: "conversation_decoder \<Rightarrow> appc_message \<Rightarrow> bool" where
  "message_in_bounds d msg \<longleftrightarrow> int (length (ms_Data msg)) \<le> cd_maxMessageLength d \<and>
     1 \<le> ms_FragmentCount msg \<and> ms_FragmentCount msg \<le> cd_maxFragments d"

definition same_config :: "conversation_decoder \<Rightarrow> conversation_decoder \<Rightarrow> bool" where
  "same_config d d' \<longleftrightarrow> cd_maxMessageLength d' = cd_maxMessageLength d \<and>
     cd_maxFragments d' = cd_maxFragments d \<and> cd_allowInitialReceive d' = cd_allowInitialReceive d \<and>
     cd_validateIncomingDataOperationInfo d' = cd_validateIncomingDataOperationInfo d"

lemma checkLimits_Inr:
  "checkLimits d b c = Inr u \<longleftrightarrow> b \<le> cd_maxMessageLength d \<and> c \<le> cd_maxFragments d"
  by (auto simp: checkLimits_def)

lemma push_first_ok:
  "conversation_ok d \<Longrightarrow> push_first d h f oi = Inr (ms, d') \<Longrightarrow>
     conversation_ok d' \<and> same_config d d' \<and> list_all (message_in_bounds d) ms \<and> length ms \<le> 1"
  by (auto simp: push_first_def bindE_Inr_iff checkLimits_Inr conversation_ok_def pending_ok_def
      same_config_def message_in_bounds_def singleMessage_def newPending_def split: if_splits)

lemma push_terminal_ok:
  "conversation_ok d \<Longrightarrow> push_terminal d h f oi = Inr (ms, d') \<Longrightarrow>
     conversation_ok d' \<and> same_config d d' \<and> list_all (message_in_bounds d) ms \<and> length ms \<le> 1"
  by (auto simp: push_terminal_def bindE_Inr_iff checkLimits_Inr conversation_ok_def pending_ok_def
      same_config_def message_in_bounds_def singleMessage_def assemblePending_def concatChunks_def Let_def
      split: if_splits option.splits)

lemma push_ordinary_ok:
  assumes "conversation_ok d" "push_ordinary d h f oi = Inr (ms, d')"
  shows "conversation_ok d' \<and> same_config d d' \<and> list_all (message_in_bounds d) ms \<and> length ms \<le> 1"
proof (cases "h_FunctionCode h = FuncSapSend \<or> cd_pending d = None")
  case True
  then show ?thesis
    using push_first_ok [OF assms(1)] assms(2)
    by (auto simp: push_ordinary_def split: if_splits option.splits)
next
  case False
  then obtain p where "cd_pending d = Some p" by auto
  with False assms show ?thesis
    by (auto simp: push_ordinary_def bindE_Inr_iff checkLimits_Inr conversation_ok_def pending_ok_def
      same_config_def message_in_bounds_def pending_message_done_def concatChunks_def Let_def
      split: if_splits)
qed

lemma push_ok:
  "conversation_ok d \<Longrightarrow> push d payload term = Inr (ms, d') \<Longrightarrow>
     conversation_ok d' \<and> same_config d d' \<and> list_all (message_in_bounds d) ms \<and> length ms \<le> 1"
  by (auto simp: push_def bindE_Inr_iff same_config_def split: if_splits
      dest: push_terminal_ok [unfolded same_config_def] push_ordinary_ok [unfolded same_config_def])

text \<open>The calls of a decoder: the flag tells a terminal deallocation; a refused call leaves the decoder as it is.\<close>

fun run_pushes :: "conversation_decoder \<Rightarrow> (bool \<times> bytes) list \<Rightarrow> appc_message list \<times> conversation_decoder" where
  "run_pushes d [] = ([], d)"
| "run_pushes d ((terminal, payload) # calls) =
     (case (if terminal then PushTerminalDeallocation payload d else Push payload d) of
        Inl _ \<Rightarrow> run_pushes d calls
      | Inr (ms, d') \<Rightarrow> (case run_pushes d' calls of (ms', d'') \<Rightarrow> (ms @ ms', d'')))"

lemma new_decoder_config:
  "NewConversationDecoder options = Inr d \<Longrightarrow>
     cd_maxMessageLength d = val_or (co_MaxMessageLength options) DefaultMaxMessageLength \<and>
     cd_maxFragments d = val_or (co_MaxFragments options) DefaultMaxMessageFragments"
  by (auto simp: NewConversationDecoder_def Let_def split: if_splits)

lemma new_decoder_ok: "NewConversationDecoder options = Inr d \<Longrightarrow> conversation_ok d"
  by (auto simp: NewConversationDecoder_def conversation_ok_def Let_def split: if_splits)

lemma run_pushes_ok:
  "conversation_ok d \<Longrightarrow> run_pushes d calls = (ms, d') \<Longrightarrow>
     conversation_ok d' \<and> same_config d d' \<and> list_all (message_in_bounds d) ms \<and> length ms \<le> length calls"
proof (induction d calls arbitrary: ms d' rule: run_pushes.induct)
  case (2 d terminal payload calls)
  let ?r = "push d payload terminal"
  have r: "(if terminal then PushTerminalDeallocation payload d else Push payload d) = ?r"
    by (simp add: Push_def PushTerminalDeallocation_def)
  show ?case
  proof (cases ?r)
    case (Inl e)
    then show ?thesis using 2 r by fastforce
  next
    case (Inr a)
    then obtain ms1 d1 where a: "?r = Inr (ms1, d1)" by (cases a) simp
    obtain ms2 where rest: "run_pushes d1 calls = (ms2, d')" "ms = ms1 @ ms2"
      using "2.prems"(2) a r by (auto split: prod.splits)
    have one: "conversation_ok d1 \<and> same_config d d1 \<and> list_all (message_in_bounds d) ms1 \<and> length ms1 \<le> 1"
      by (rule push_ok [OF "2.prems"(1) a])
    with "2.IH"(2) [OF a [folded r] refl _ rest(1)] rest(2) show ?thesis
      by (auto simp: same_config_def message_in_bounds_def list_all_iff)
  qed
qed (simp add: same_config_def)

section \<open>Reassembly of encoded records\<close>

text \<open>A header without overrides of the fields a data record derives.\<close>

definition plain_header :: "record_header_input \<Rightarrow> bool" where
  "plain_header hdr \<longleftrightarrow> in_Info hdr = None \<and> in_Vector hdr = None \<and> in_AppcReturnCode hdr = None \<and>
     in_SapReturnCode hdr = None \<and> length (conversation_or_zero hdr) = 8"

definition data_record :: "record_header_input \<Rightarrow> u16 \<Rightarrow> u16 \<Rightarrow> Function \<Rightarrow> bytes \<Rightarrow> bool \<Rightarrow> data_record_input" where
  "data_record hdr ci xi fc data fin =
     \<lparr>dr_Header = hdr, dr_FunctionCode = Some fc, dr_Data = data, dr_CommunicationIndex = ci,
      dr_ConnectionIndex = xi, dr_IsFinal = Some fin\<rparr>"

text \<open>The records of one message: F_SAP_SEND first, F_RECEIVE after it, the last one final.\<close>

fun message_records :: "record_header_input \<Rightarrow> u16 \<Rightarrow> u16 \<Rightarrow> Function \<Rightarrow> bytes list \<Rightarrow> data_record_input list" where
  "message_records hdr ci xi fc [] = []"
| "message_records hdr ci xi fc (p # ps) =
     data_record hdr ci xi fc p (ps = []) # message_records hdr ci xi FuncReceive ps"

fun push_records :: "bytes list \<Rightarrow> conversation_decoder \<Rightarrow> appc_error + appc_message list \<times> conversation_decoder" where
  "push_records [] d = Inr ([], d)"
| "push_records (b # bs) d =
     bindE (Push b d) (\<lambda>(ms, d'). bindE (push_records bs d') (\<lambda>(ms', d''). Inr (ms @ ms', d'')))"

lemma data_record_decode:
  assumes "EncodeDataRecord (data_record hdr ci xi fc data fin) = Inr b" "plain_header hdr"
    and "fc \<in> {FuncSapSend, FuncReceive}"
  shows "\<exists>h. DecodeHeader b = Inr h \<and> 80 \<le> length b \<and> h_FunctionCode h = fc \<and>
      h_AppcReturnCode h = 0 \<and> h_SapReturnCode h = 0 \<and>
      h_SequenceNumber h = u32or (in_SequenceNumber hdr) 0 \<and> h_ConversationID h = conversation_or_zero hdr \<and>
      DecodeDataFragment b = Inr \<lparr>df_Header = h, df_Data = data, df_IsFinal = fin\<rparr> \<and>
      DecodeIncomingDataOperationInfo (gslice 48 80 b) =
        Inr \<lparr>id_DataLength = 0, id_CommunicationIndex = ci, id_ConnectionIndex = xi\<rparr>"
proof -
  define vec where "vec = (if fin then 0x0c else if fc = FuncSapSend then 0x08 else 0 :: byte)"
  define hdr' where "hdr' = hdr\<lparr>in_Info := Some (if fin then 5 else 1), in_Vector := Some vec\<rparr>"
  define sap where "sap = (if fin then 8 else 0 :: nat)"
  have "encodeRecord fc hdr' (replicate 28 0 @ put16be ci @ put16be xi) sap [data] ''APPC data record'' = Inr b"
    using assms(1,2)
    by (simp add: EncodeDataRecord_def data_record_def Let_def val_or_def index_info_Inr plain_header_def
        hdr'_def vec_def sap_def split: if_splits)
  note dec = encodeRecord_decode [OF this]
  have vec: "vec AND VectorEndOfMessage \<noteq> 0 \<longleftrightarrow> fin"
    by (simp add: vec_def VectorEndOfMessage_def)
  have info: "get16be (replicate 18 0 @ r) = 0" for r
    using replicate_add [of 2 16 "0 :: byte"] by (simp add: replicate_pair)
  show ?thesis
    using dec assms(2,3) vec
    by (auto simp: DecodeDataFragment_def RecordHeaderLength_def DecodeIncomingDataOperationInfo_def info
        hdr'_def conversation_or_zero_def plain_header_def or_defs func_codes)
qed

lemma Push_record:
  assumes enc: "EncodeDataRecord (data_record hdr ci xi fc data fin) = Inr b" and "plain_header hdr"
    and fc: "fc \<in> {FuncSapSend, FuncReceive}"
    and d: "\<not> cd_validateIncomingDataOperationInfo d"
      "BufferedByteLength d + int (length data) \<le> cd_maxMessageLength d"
      "FragmentCount d + 1 \<le> cd_maxFragments d"
  shows "\<exists>h. h_FunctionCode h = fc \<and> h_SequenceNumber h = u32or (in_SequenceNumber hdr) 0 \<and>
     h_ConversationID h = conversation_or_zero hdr \<and>
     Push b d = push_ordinary d h \<lparr>df_Header = h, df_Data = data, df_IsFinal = fin\<rparr>
       \<lparr>id_DataLength = 0, id_CommunicationIndex = ci, id_ConnectionIndex = xi\<rparr>"
proof -
  obtain h where h: "DecodeHeader b = Inr h" "80 \<le> length b" "h_FunctionCode h = fc"
      "h_AppcReturnCode h = 0" "h_SapReturnCode h = 0"
      "h_SequenceNumber h = u32or (in_SequenceNumber hdr) 0" "h_ConversationID h = conversation_or_zero hdr"
      "DecodeDataFragment b = Inr \<lparr>df_Header = h, df_Data = data, df_IsFinal = fin\<rparr>"
      "DecodeIncomingDataOperationInfo (gslice 48 80 b) =
        Inr \<lparr>id_DataLength = 0, id_CommunicationIndex = ci, id_ConnectionIndex = xi\<rparr>"
    using data_record_decode [OF enc assms(2) fc] by blast
  have "data = drop 80 b"
    using h(8) by (auto simp: DecodeDataFragment_def RecordHeaderLength_def bindE_Inr_iff split: if_splits)
  then have "checkLimits d (BufferedByteLength d + int (length b - RecordHeaderLength)) (FragmentCount d + 1) = Inr ()"
    using d by (simp add: checkLimits_Inr RecordHeaderLength_def)
  then have "Push b d = push_ordinary d h \<lparr>df_Header = h, df_Data = data, df_IsFinal = fin\<rparr>
       \<lparr>id_DataLength = 0, id_CommunicationIndex = ci, id_ConnectionIndex = xi\<rparr>"
    using h fc d(1)
    by (auto simp: Push_def push_def push_status_def fail_if_def RecordHeaderLength_def CommonHeaderLength_def
        returnCodeDeallocatedNormal_def)
  with h show ?thesis by blast
qed

text \<open>The pending message after some parts of a message.\<close>

definition pending_of :: "record_header_input \<Rightarrow> u16 \<Rightarrow> u16 \<Rightarrow> bytes list \<Rightarrow> pending_message" where
  "pending_of hdr ci xi ps =
     \<lparr>pm_chunks = ps, pm_conversationID = conversation_or_zero hdr,
      pm_sequenceNumber = u32or (in_SequenceNumber hdr) 0, pm_byteLength = int (length (concat ps)),
      pm_fragmentCount = int (length ps), pm_communicationIndex = ci, pm_connectionIndex = xi\<rparr>"

definition message_of :: "record_header_input \<Rightarrow> u16 \<Rightarrow> u16 \<Rightarrow> bytes list \<Rightarrow> appc_message" where
  "message_of hdr ci xi ps =
     \<lparr>ms_Data = concat ps, ms_ConversationID = conversation_or_zero hdr,
      ms_SequenceNumber = u32or (in_SequenceNumber hdr) 0, ms_FragmentCount = int (length ps),
      ms_CommunicationIndex = ci, ms_ConnectionIndex = xi\<rparr>"

lemma Push_part:
  assumes "EncodeDataRecord (data_record hdr ci xi fc p fin) = Inr b" "plain_header hdr"
    and "\<not> cd_validateIncomingDataOperationInfo d"
    and "cd_pending d = (if done = [] then None else Some (pending_of hdr ci xi done))"
    and "fc = (if done = [] then FuncSapSend else FuncReceive)"
    and "int (length (concat (done @ [p]))) \<le> cd_maxMessageLength d" "int (length (done @ [p])) \<le> cd_maxFragments d"
  shows "Push b d =
    (if fin then Inr ([message_of hdr ci xi (done @ [p])], d\<lparr>cd_pending := None\<rparr>)
     else Inr ([], d\<lparr>cd_pending := Some (pending_of hdr ci xi (done @ [p]))\<rparr>))"
proof -
  have lim: "BufferedByteLength d + int (length p) \<le> cd_maxMessageLength d" "FragmentCount d + 1 \<le> cd_maxFragments d"
    using assms(4,6,7) by (auto simp: BufferedByteLength_def FragmentCount_def pending_of_def split: if_splits)
  then obtain h where h: "h_FunctionCode h = fc" "h_SequenceNumber h = u32or (in_SequenceNumber hdr) 0"
     "h_ConversationID h = conversation_or_zero hdr"
     "Push b d = push_ordinary d h \<lparr>df_Header = h, df_Data = p, df_IsFinal = fin\<rparr>
       \<lparr>id_DataLength = 0, id_CommunicationIndex = ci, id_ConnectionIndex = xi\<rparr>"
    using Push_record [OF assms(1,2) _ assms(3)] assms(5) by (cases "done = []") auto
  show ?thesis
  proof (cases "done = []")
    case True
    have keep: "cd_pending d = None \<Longrightarrow> d\<lparr>cd_pending := None\<rparr> = d" by simp
    show ?thesis
      using True assms(4-7) h keep
      by (simp add: push_ordinary_def push_first_def checkLimits_def singleMessage_def newPending_def
          message_of_def pending_of_def)
  next
    case False
    then show ?thesis
      using assms(4-7) h
      by (simp add: push_ordinary_def matchPending_def checkLimits_def Let_def pending_message_done_def
          concatChunks_def message_of_def pending_of_def)
  qed
qed

lemma push_records_message:
  assumes "list_all2 (\<lambda>i b. EncodeDataRecord i = Inr b) (message_records hdr ci xi fc ps) bs" "ps \<noteq> []"
    and "plain_header hdr" "\<not> cd_validateIncomingDataOperationInfo d"
    and "cd_pending d = (if done = [] then None else Some (pending_of hdr ci xi done))"
    and "fc = (if done = [] then FuncSapSend else FuncReceive)"
    and "int (length (concat (done @ ps))) \<le> cd_maxMessageLength d" "int (length (done @ ps)) \<le> cd_maxFragments d"
  shows "push_records bs d = Inr ([message_of hdr ci xi (done @ ps)], d\<lparr>cd_pending := None\<rparr>)"
  using assms
proof (induction ps arbitrary: bs d fc "done")
  case (Cons p ps)
  obtain b bs' where bs: "bs = b # bs'" "EncodeDataRecord (data_record hdr ci xi fc p (ps = [])) = Inr b"
    "list_all2 (\<lambda>i b. EncodeDataRecord i = Inr b) (message_records hdr ci xi FuncReceive ps) bs'"
    using Cons.prems(1) by (auto simp: list_all2_Cons1)
  have lim: "int (length (concat (done @ [p]))) \<le> cd_maxMessageLength d" "int (length (done @ [p])) \<le> cd_maxFragments d"
    using Cons.prems(7,8) by simp_all
  note step = Push_part [OF bs(2) Cons.prems(3-6) lim]
  show ?case
  proof (cases "ps = []")
    case True
    then show ?thesis using step bs(1,3) by simp
  next
    case False
    define d' where "d' = d\<lparr>cd_pending := Some (pending_of hdr ci xi (done @ [p]))\<rparr>"
    have "push_records bs' d' = Inr ([message_of hdr ci xi ((done @ [p]) @ ps)], d'\<lparr>cd_pending := None\<rparr>)"
      using Cons.prems(4,7,8) by (intro Cons.IH [OF bs(3) False Cons.prems(3)]) (simp_all add: d'_def)
    then show ?thesis using step False bs(1) by (simp add: d'_def)
  qed
qed simp

section \<open>Properties\<close>

text \<open>
  C9. The set-up machine's protocol discipline, over every history of calls with arbitrary
  functions, payloads and interleavings: the records it has admitted always form a prefix of the
  handshake (F_INITIALIZE, optionally F_SET_TP_NAME, F_SET_PARTNER_LU_NAME, F_ALLOCATE)
  followed by complete outgoing messages and at most one open streamed message, as the current
  state tells; no data record is ever admitted before the handshake is complete.
\<close>

theorem setup_machine_discipline:
  assumes "reach setup_init setup_step (m, trace)"
  shows "(if m_state m = StateClosed
      then (\<exists>s. admitted_open s trace) \<or> (\<exists>t. trace = t @ [FuncDeallocate] \<and> established t [])
      else admitted_open (m_state m) trace) \<and>
    (FuncSapSend \<notin> set trace \<and> FuncAsyncSendData \<notin> set trace \<or>
     (\<exists>hs \<in> set handshakes. \<exists>rest. trace = hs @ [FuncAllocate] @ rest))"
proof -
  have adm: "admitted (m, trace)" using setup_machine.reach_inv [OF assms] .
  have est: "\<exists>hs \<in> set handshakes. \<exists>rest. t @ u = hs @ [FuncAllocate] @ rest" if "established t w" for t w u
    using that by (force simp: established_def)
  have op: "FuncSapSend \<notin> set t \<and> FuncAsyncSendData \<notin> set t \<or>
      (\<exists>hs \<in> set handshakes. \<exists>rest. t = hs @ [FuncAllocate] @ rest)" if "admitted_open s t" for s t
    using that est [of t _ "[]"]
    by (cases s) (auto simp: handshakes_def func_codes)
  show ?thesis
    using adm op est by (auto simp: admitted_def split: if_splits)
qed

definition sample_setup_history :: setup_history where
  "sample_setup_history =
     setup_run (CallSent FuncSapSend True) (setup_run (CallSent FuncInitialize False) (NewClientSetupStateMachine, []))"

lemma sample_setup_reach: "reach setup_init setup_step sample_setup_history"
proof -
  have "reach setup_init setup_step (NewClientSetupStateMachine, [])"
    by (intro reach_init) (simp add: setup_init_def)
  then have "reach setup_init setup_step (setup_run (CallSent FuncInitialize False) (NewClientSetupStateMachine, []))"
    by (rule reach_step) (simp only: setup_step_def)
  then show ?thesis
    unfolding sample_setup_history_def by (rule reach_step) (simp only: setup_step_def)
qed

lemma sample_setup_value:
  "sample_setup_history = (\<lparr>m_state = StateInitializePending\<rparr>, [FuncInitialize])"
  by (simp add: sample_setup_history_def NewClientSetupStateMachine_def Sent_def sent_allowed_def sent_next_def
      func_codes)

theorem setup_machine_discipline_witness:
  "admitted_open StateInitializePending [FuncInitialize]"
  using setup_machine_discipline [OF sample_setup_reach [unfolded sample_setup_value]] by simp

text \<open>
  The closed state is absorbing: no call admits a record or leaves the state, whatever its
  arguments, and a refused \<open>Sent\<close> never changes the machine in any state.
\<close>

theorem setup_machine_closed_absorbing:
  "setup_run e (\<lparr>m_state = StateClosed\<rparr>, trace) = (\<lparr>m_state = StateClosed\<rparr>, trace) \<and>
   (fst (Sent fc fin m) = Inr () \<or> snd (Sent fc fin m) = m)"
proof
  show "setup_run e (\<lparr>m_state = StateClosed\<rparr>, trace) = (\<lparr>m_state = StateClosed\<rparr>, trace)"
    by (cases e) (auto simp: Sent_def sent_allowed_def Received_def received_allowed_def ResponseComplete_def Let_def
        split: sum.splits)
  show "fst (Sent fc fin m) = Inr () \<or> snd (Sent fc fin m) = m"
    by (simp add: Sent_def)
qed

text \<open>
  The state that a refused reply reports: \<open>Received\<close> overwrites the state before it
  formats the message, so every state error it returns names \<open>closed\<close>, never the state in
  which the reply arrived.
\<close>

theorem received_error_reports_closed:
  assumes "fst (Received payload m) = Inl (ErrState name)" "m_state m \<noteq> StateClosed"
  shows "name = ''closed'' \<and> name \<noteq> state_name (m_state m)"
proof -
  have "name = ''closed''"
    using assms(1) DecodeHeader_errors by (fastforce simp: Received_def Let_def split: sum.splits if_splits)
  moreover have "state_name (m_state m) \<noteq> ''closed''"
    using assms(2) by (cases "m_state m") simp_all
  ultimately show ?thesis by simp
qed

text \<open>An F_ALLOCATE reply while the machine waits for the F_INITIALIZE reply.\<close>

definition early_reply :: bytes where
  "early_reply = header_layout (header_of FuncAllocate no_overrides 0) @ replicate 32 0"

lemma early_reply_decode: "DecodeHeader early_reply = Inr (header_of FuncAllocate no_overrides 0)"
  by (simp add: early_reply_def DecodeHeader_layout header_of_ok)

lemma early_reply_length: "length early_reply = 80"
  by (simp add: early_reply_def length_header_layout)

theorem received_error_reports_closed_witness:
  "fst (Received early_reply \<lparr>m_state = StateInitializePending\<rparr>) = Inl (ErrState ''closed'') \<and>
   ''closed'' \<noteq> state_name StateInitializePending"
proof -
  have r: "fst (Received early_reply \<lparr>m_state = StateInitializePending\<rparr>) = Inl (ErrState ''closed'')"
    by (simp add: Received_def early_reply_decode early_reply_length RecordHeaderLength_def or_defs
        no_overrides_def received_allowed_def func_codes)
  show ?thesis
    using received_error_reports_closed [OF r] r by simp
qed

text \<open>
  C36. The reassembler's buffer: from a new decoder, after any sequence of pushes, ordinary or terminal, accepted or refused, with arbitrary payloads, the byte
  and fragment counts are those of the chunks held and within the limits the options set, every message returned is
  within these limits too, there is at most one for each push, and the configuration is that of the options.
\<close>

theorem reassembler_bounds:
  assumes "NewConversationDecoder options = Inr d0" "run_pushes d0 calls = (ms, d)"
  shows "cd_maxMessageLength d = val_or (co_MaxMessageLength options) DefaultMaxMessageLength \<and>
    cd_maxFragments d = val_or (co_MaxFragments options) DefaultMaxMessageFragments \<and> same_config d0 d \<and>
    BufferedByteLength d \<le> cd_maxMessageLength d \<and> FragmentCount d \<le> cd_maxFragments d \<and>
    (cd_pending d = None \<or> (\<exists>p. cd_pending d = Some p \<and> BufferedByteLength d = int (length (concat (pm_chunks p))) \<and>
       FragmentCount d = int (length (pm_chunks p)))) \<and>
    list_all (message_in_bounds d) ms \<and> length ms \<le> length calls"
proof -
  have "conversation_ok d \<and> same_config d0 d \<and> list_all (message_in_bounds d0) ms \<and> length ms \<le> length calls"
    using run_pushes_ok [OF new_decoder_ok [OF assms(1)] assms(2)] .
  then show ?thesis
    using new_decoder_config [OF assms(1)]
    by (auto simp: conversation_ok_def pending_ok_def same_config_def BufferedByteLength_def FragmentCount_def
        message_in_bounds_def list_all_iff split: option.splits)
qed


definition sample_decoder_options :: conversation_decoder_options where
  "sample_decoder_options = \<lparr>co_MaxMessageLength = Some 4, co_MaxFragments = Some 2,
     co_AllowInitialReceive = False, co_ValidateIncomingDataOperationInfo = False\<rparr>"

lemma encode_data_plain:
  "plain_header hdr \<Longrightarrow> \<exists>b. EncodeDataRecord (data_record hdr ci xi fc data fin) = Inr b"
  by (simp add: EncodeDataRecord_def data_record_def Let_def val_or_def index_info_Inr plain_header_def
      encodeRecord_Inr conversation_or_zero_def)


theorem reassembler_bounds_witness:
  "\<exists>d0 r1 d. NewConversationDecoder sample_decoder_options = Inr d0 \<and>
     EncodeDataRecord (data_record no_overrides 3 4 FuncSapSend [1, 2] False) = Inr r1 \<and> run_pushes d0 [(False, r1)] = ([], d) \<and>
     BufferedByteLength d = 2 \<and> 2 \<le> cd_maxMessageLength d \<and> FragmentCount d = 1 \<and> 1 \<le> cd_maxFragments d \<and> cd_maxMessageLength d = 4"
proof -
  have plain: "plain_header no_overrides" by (simp add: plain_header_def) (simp add: no_overrides_def)
  obtain r1 where r: "EncodeDataRecord (data_record no_overrides 3 4 FuncSapSend [1, 2] False) = Inr r1"
    using encode_data_plain [OF plain] by meson
  obtain d0 where d0: "NewConversationDecoder sample_decoder_options = Inr d0" "cd_maxMessageLength d0 = 4"
    "cd_maxFragments d0 = 2" "cd_pending d0 = None" "\<not> cd_validateIncomingDataOperationInfo d0"
    by (simp add: NewConversationDecoder_def sample_decoder_options_def val_or_def)
  let ?d = "d0\<lparr>cd_pending := Some (pending_of no_overrides 3 4 [[1, 2]])\<rparr>"
  have run: "run_pushes d0 [(False, r1)] = ([], ?d)"
    using Push_part [OF r plain d0(5), of "[]"] d0 by simp
  have "BufferedByteLength ?d = 2" "FragmentCount ?d = 1"
    by (simp_all add: BufferedByteLength_def FragmentCount_def pending_of_def)
  then show ?thesis
    using reassembler_bounds [OF d0(1) run] d0 r run by (intro exI [of _ d0] exI [of _ r1] exI [of _ ?d]) simp
qed

end
