(* ===== verification/Rfcpro.thy ===== *)
theory Rfcpro
  imports Rfc_Prelude
begin

text \<open>
  Package \<open>rfcpro\<close> (\<open>internal/rfcpro/rfcpro.go\<close>): the tag/length header before every
  parameter value, four bytes for lengths up to 65534 and eight bytes with a signed 32-bit length
  after the sentinel 0xffff. The lemmas give the round trip at every length, the exactness of the
  allocation limit and the forms a decoder accepts that the encoder never produces.
\<close>

section \<open>Definitions\<close>

definition ExtendedLengthSentinel :: int where "ExtendedLengthSentinel = 0xffff"
definition CompactLengthMax :: int where "CompactLengthMax = ExtendedLengthSentinel - 1"
definition ValueLengthMax :: int where "ValueLengthMax = 0x7fffffff"

lemmas rfcpro_consts = ExtendedLengthSentinel_def CompactLengthMax_def ValueLengthMax_def

datatype LengthEncoding = EncodingCompact | EncodingExtended

datatype rfcpro_error = PErrRange | PErrShortHeader | PErrNegativeLength | PErrLimitExceeded

record field_header =
  fh_Tag :: u16
  fh_Length :: int
  fh_Encoding :: LengthEncoding
  fh_BytesConsumed :: nat

definition validateValueLength :: "int \<Rightarrow> rfcpro_error + unit" where
  "validateValueLength len = (if len < 0 \<or> len > ValueLengthMax then Inl PErrRange else Inr ())"

definition FieldHeaderByteLength :: "int \<Rightarrow> rfcpro_error + nat" where
  "FieldHeaderByteLength len =
     bindE (validateValueLength len) (\<lambda>_. if len \<le> CompactLengthMax then Inr 4 else Inr 8)"

definition EncodeFieldHeader :: "u16 \<Rightarrow> int \<Rightarrow> rfcpro_error + bytes" where
  "EncodeFieldHeader tag len =
     bindE (FieldHeaderByteLength len) (\<lambda>byteLength.
       let buf = copy_at 0 (put16be tag) (replicate byteLength 0) in
       if byteLength = 4 then Inr (copy_at 2 (put16be (of_int len)) buf)
       else Inr (copy_at 4 (put32be (of_int len)) (copy_at 2 (put16be (of_int ExtendedLengthSentinel)) buf)))"

definition DecodeFieldHeaderLimited :: "bytes \<Rightarrow> int \<Rightarrow> rfcpro_error + field_header" where
  "DecodeFieldHeaderLimited data maxValueLength =
     bindE (validateValueLength maxValueLength) (\<lambda>_.
       let buf = take (min (length data) 8) data in
       if length buf < 2 then Inl PErrShortHeader
       else let tag = get16be buf in
         if length buf < 4 then Inl PErrShortHeader
         else let compactLength = int (unat (get16be (drop 2 buf))) in
           if compactLength \<noteq> ExtendedLengthSentinel then
             (if compactLength > maxValueLength then Inl PErrLimitExceeded
              else Inr \<lparr>fh_Tag = tag, fh_Length = compactLength, fh_Encoding = EncodingCompact,
                        fh_BytesConsumed = 4\<rparr>)
           else if length buf < 8 then Inl PErrShortHeader
           else let extendedLength = sint (get32be (drop 4 buf)) in
             if extendedLength < 0 then Inl PErrNegativeLength
             else if extendedLength > maxValueLength then Inl PErrLimitExceeded
             else Inr \<lparr>fh_Tag = tag, fh_Length = extendedLength, fh_Encoding = EncodingExtended,
                       fh_BytesConsumed = 8\<rparr>)"

definition DecodeFieldHeader :: "bytes \<Rightarrow> rfcpro_error + field_header" where
  "DecodeFieldHeader data = DecodeFieldHeaderLimited data ValueLengthMax"

section \<open>Lemmas\<close>

definition field_header_layout :: "u16 \<Rightarrow> int \<Rightarrow> bytes" where
  "field_header_layout tag len =
     (if len \<le> 65534 then put16be tag @ put16be (of_int len)
      else put16be tag @ put16be 0xffff @ put32be (of_int len))"

lemma copy_two: "copy_at 0 (put16be t) (replicate (Suc (Suc n)) 0) = put16be t @ replicate n 0"
  using copy_at_fit [of "put16be t" "Suc (Suc n)" "[]" 0] by simp

lemma copy_four:
  "copy_at 2 (put16be v) (put16be t @ replicate (Suc (Suc n)) 0) = (put16be t @ put16be v) @ replicate n 0"
  using copy_at_fit [of "put16be v" "Suc (Suc n)" "put16be t" 0] by simp

lemma copy_eight:
  "copy_at 4 (put32be v) ((put16be t @ put16be u) @ replicate 4 0) = put16be t @ put16be u @ put32be v"
  using copy_at_fit [of "put32be v" 4 "put16be t @ put16be u" 0] by simp

lemma EncodeFieldHeader_eq:
  "EncodeFieldHeader tag len =
     (if len < 0 \<or> len > 0x7fffffff then Inl PErrRange else Inr (field_header_layout tag len))"
proof -
  have "copy_at 2 (put16be v) (copy_at 0 (put16be tag) (replicate 4 0)) = put16be tag @ put16be v" for v
    using copy_two [of tag 2] copy_four [of v tag 0] by (simp add: eval_nat_numeral)
  moreover have "copy_at 4 (put32be w) (copy_at 2 (put16be v) (copy_at 0 (put16be tag) (replicate 8 0))) =
      put16be tag @ put16be v @ put32be w" for v w
    using copy_two [of tag 6] copy_four [of v tag 4] copy_eight [of w tag v] by (simp add: eval_nat_numeral)
  ultimately show ?thesis
    by (auto simp: EncodeFieldHeader_def FieldHeaderByteLength_def validateValueLength_def rfcpro_consts
        field_header_layout_def Let_def)
qed

lemma unat_compact: "0 \<le> len \<Longrightarrow> len \<le> 65534 \<Longrightarrow> int (unat (of_int len :: u16)) = len"
  by (simp add: uint_word_of_int)

lemma sint_extended: "0 \<le> len \<Longrightarrow> len \<le> 0x7fffffff \<Longrightarrow> sint (of_int len :: u32) = len"
  by (simp add: sint_uint uint_word_of_int signed_take_bit_int_eq_self)

lemma DecodeFieldHeader_layout:
  assumes "0 \<le> len" "len \<le> 0x7fffffff" "0 \<le> limit" "limit \<le> 0x7fffffff"
  shows "DecodeFieldHeaderLimited (field_header_layout tag len @ rest) limit =
     (if len > limit then Inl PErrLimitExceeded
      else Inr \<lparr>fh_Tag = tag, fh_Length = len,
                fh_Encoding = (if len \<le> 65534 then EncodingCompact else EncodingExtended),
                fh_BytesConsumed = length (field_header_layout tag len)\<rparr>)"
proof (cases "len \<le> 65534")
  case True
  have "drop 2 (take (min (4 + length rest) 8) (put16be tag @ put16be (of_int len) @ rest)) =
      put16be (of_int len) @ take (min (4 + length rest) 8 - 4) rest"
    by (simp add: min_def)
  moreover have "get16be (take (min (4 + length rest) 8) (put16be tag @ put16be (of_int len) @ rest)) = tag"
    by (simp add: min_def)
  ultimately show ?thesis
    using assms True unat_compact [of len]
    by (simp add: DecodeFieldHeaderLimited_def validateValueLength_def rfcpro_consts field_header_layout_def
        Let_def del: of_nat_unat)
next
  case False
  then show ?thesis
    using assms sint_extended [of len]
    by (simp add: DecodeFieldHeaderLimited_def validateValueLength_def rfcpro_consts field_header_layout_def
        Let_def)
qed

section \<open>Properties\<close>

text \<open>
  The RFCPRO header round-trips at every length from 0 to 2147483647, compact or extended,
  with anything behind it, and consumes exactly the header; a length above the caller's limit is
  refused before anything is read; outside that range the encoder refuses.
\<close>

theorem rfcpro_header_roundtrip:
  assumes "0 \<le> limit" "limit \<le> ValueLengthMax"
  shows "case EncodeFieldHeader tag len of
      Inl e \<Rightarrow> e = PErrRange \<and> (len < 0 \<or> ValueLengthMax < len)
    | Inr b \<Rightarrow> DecodeFieldHeaderLimited (b @ rest) limit =
        (if len > limit then Inl PErrLimitExceeded
         else Inr \<lparr>fh_Tag = tag, fh_Length = len,
                   fh_Encoding = (if len \<le> CompactLengthMax then EncodingCompact else EncodingExtended),
                   fh_BytesConsumed = length b\<rparr>)"
  using assms DecodeFieldHeader_layout [of len limit tag rest]
  by (auto simp: EncodeFieldHeader_eq rfcpro_consts)

theorem rfcpro_header_roundtrip_witness:
  "DecodeFieldHeaderLimited (field_header_layout 0x0203 70000 @ [1]) 80000 =
     Inr \<lparr>fh_Tag = 0x0203, fh_Length = 70000, fh_Encoding = EncodingExtended, fh_BytesConsumed = 8\<rparr>"
  using rfcpro_header_roundtrip [where limit = 80000 and tag = "0x0203" and len = 70000 and rest = "[1]"]
  by (simp add: EncodeFieldHeader_eq rfcpro_consts field_header_layout_def)

text \<open>
  The decoder never reports a length outside 0 to the limit, and consumes 4 or 8 bytes that
  are there, so the allocation a caller makes from the
  result is bounded by the limit it chose.
\<close>

theorem rfcpro_decode_bounds:
  assumes "DecodeFieldHeaderLimited data limit = Inr h"
  shows "0 \<le> fh_Length h \<and> fh_Length h \<le> limit \<and> fh_BytesConsumed h \<le> length data \<and>
    fh_BytesConsumed h = (if fh_Encoding h = EncodingCompact then 4 else 8)"
  using assms by (auto simp: DecodeFieldHeaderLimited_def bindE_Inr_iff Let_def split: if_splits)

theorem rfcpro_decode_bounds_witness:
  "fh_BytesConsumed \<lparr>fh_Tag = 0x0203, fh_Length = 1, fh_Encoding = EncodingCompact, fh_BytesConsumed = 4\<rparr>
     \<le> length [2, 3, 0, 1 :: byte]"
  using rfcpro_decode_bounds [of "[2, 3, 0, 1]" 5 "\<lparr>fh_Tag = 0x0203, fh_Length = 1,
      fh_Encoding = EncodingCompact, fh_BytesConsumed = 4\<rparr>"]
  by (simp add: DecodeFieldHeaderLimited_def validateValueLength_def rfcpro_consts)

end
