(* ===== verification/Cpic_Chain.thy ===== *)
theory Cpic_Chain
  imports Rfcpro
begin

text \<open>
  Package \<open>cpic\<close>, file \<open>cpic.go\<close>: the chained field region of a CPIC packet. Every record
  names the tag before it and its own tag. The encoder, the length computation and the decoding
  loop (whole region, or a prefix up to a terminal tag) are modelled with their limits.
  \<open>chain_layout\<close> is the layout specification; the lemmas give the round trip, the prefix
  property and the detection of a dropped field.
\<close>

section \<open>Data and limits\<close>

definition DefaultMaxFieldLength :: int where "DefaultMaxFieldLength = 256 * 1024 * 1024"
definition DefaultMaxFieldChainLength :: int where "DefaultMaxFieldChainLength = 256 * 1024 * 1024"
definition DefaultMaxFieldCount :: int where "DefaultMaxFieldCount = 100000"

datatype cpic_error =
    CErrRange
  | CErrChain
  | CErrProtocol
  | CRfcpro rfcpro_error

record cpic_field =
  fd_Tag :: u16
  fd_Value :: bytes

record field_chain_limits =
  fl_MaxFieldLength :: "int option"
  fl_MaxChainLength :: "int option"
  fl_MaxFieldCount :: "int option"

record resolved_limits =
  rl_maxFieldLength :: int
  rl_maxChainLength :: int
  rl_maxFieldCount :: int

record decoded_field_chain_prefix =
  dp_Fields :: "cpic_field list"
  dp_BytesConsumed :: nat

definition orInt :: "int option \<Rightarrow> int \<Rightarrow> int" where
  "orInt p d = (case p of Some v \<Rightarrow> v | None \<Rightarrow> d)"

definition resolveLimits :: "field_chain_limits \<Rightarrow> cpic_error + resolved_limits" where
  "resolveLimits limits =
     (let r = \<lparr>rl_maxFieldLength = orInt (fl_MaxFieldLength limits) DefaultMaxFieldLength,
               rl_maxChainLength = orInt (fl_MaxChainLength limits) DefaultMaxFieldChainLength,
               rl_maxFieldCount = orInt (fl_MaxFieldCount limits) DefaultMaxFieldCount\<rparr> in
      if rl_maxFieldLength r < 0 \<or> rl_maxFieldLength r > ValueLengthMax then Inl CErrRange
      else if rl_maxChainLength r < 0 \<or> rl_maxChainLength r > ValueLengthMax then Inl CErrRange
      else if rl_maxFieldCount r < 0 then Inl CErrRange
      else Inr r)"

section \<open>Encoding\<close>

fun chain_length_loop :: "resolved_limits \<Rightarrow> cpic_field list \<Rightarrow> int \<Rightarrow> cpic_error + int" where
  "chain_length_loop r [] byteLength = Inr byteLength"
| "chain_length_loop r (field # flds) byteLength =
     (if int (length (fd_Value field)) > rl_maxFieldLength r then Inl CErrRange
      else bindE (map_err CRfcpro (FieldHeaderByteLength (int (length (fd_Value field))))) (\<lambda>hl.
        let byteLength' = byteLength + 2 + int hl + int (length (fd_Value field)) in
        if byteLength' > rl_maxChainLength r then Inl CErrRange
        else chain_length_loop r flds byteLength'))"

definition FieldChainByteLength :: "u16 \<Rightarrow> cpic_field list \<Rightarrow> field_chain_limits \<Rightarrow> cpic_error + int" where
  "FieldChainByteLength initialPreviousTag flds limits =
     bindE (resolveLimits limits) (\<lambda>r.
       if int (length flds) > rl_maxFieldCount r then Inl CErrRange
       else chain_length_loop r flds 0)"

text \<open>The encoding loop writes into a buffer of the computed length.\<close>

fun chain_encode_loop :: "cpic_field list \<Rightarrow> u16 \<Rightarrow> nat \<Rightarrow> bytes \<Rightarrow> cpic_error + bytes" where
  "chain_encode_loop [] previousTag offset encoded = Inr encoded"
| "chain_encode_loop (field # flds) previousTag offset encoded =
     (let encoded = copy_at offset (put16be previousTag) encoded; offset = offset + 2 in
      bindE (map_err CRfcpro (EncodeFieldHeader (fd_Tag field) (int (length (fd_Value field))))) (\<lambda>header.
        let encoded = copy_at offset header encoded; offset = offset + length header;
            encoded = copy_at offset (fd_Value field) encoded; offset = offset + length (fd_Value field)
        in chain_encode_loop flds (fd_Tag field) offset encoded))"

definition EncodeFieldChain :: "u16 \<Rightarrow> cpic_field list \<Rightarrow> field_chain_limits \<Rightarrow> cpic_error + bytes" where
  "EncodeFieldChain initialPreviousTag flds limits =
     bindE (FieldChainByteLength initialPreviousTag flds limits) (\<lambda>byteLength.
       chain_encode_loop flds initialPreviousTag 0 (replicate (nat byteLength) 0))"

section \<open>Decoding\<close>

definition enforceChainLength :: "int \<Rightarrow> int \<Rightarrow> cpic_error + unit" where
  "enforceChainLength byteLength maximum = fail_if (byteLength > maximum) CErrRange"

definition requireInput :: "bytes \<Rightarrow> nat \<Rightarrow> int \<Rightarrow> cpic_error + unit" where
  "requireInput data offset byteLength =
     fail_if (byteLength > int (length data - offset)) CErrRange"

text \<open>One round of the decoding loop: the field at \<open>offset\<close> and the offset after it.\<close>

definition decode_field :: "resolved_limits \<Rightarrow> bytes \<Rightarrow> u16 \<Rightarrow> nat \<Rightarrow> cpic_error + cpic_field \<times> nat" where
  "decode_field r data expectedPreviousTag offset =
     bindE (enforceChainLength (int offset + 6) (rl_maxChainLength r)) (\<lambda>_.
     bindE (requireInput data offset 6) (\<lambda>_.
     bindE (fail_if (get16be (drop offset data) \<noteq> expectedPreviousTag) CErrChain) (\<lambda>_.
     bindE (if int (unat (get16be (drop (offset + 4) data))) = ExtendedLengthSentinel
            then bindE (enforceChainLength (int offset + 10) (rl_maxChainLength r)) (\<lambda>_.
                 bindE (requireInput data (offset + 6) 4) (\<lambda>_.
                 Inr (gslice (offset + 2) (offset + 6) data @ gslice (offset + 6) (offset + 10) data)))
            else Inr (gslice (offset + 2) (offset + 6) data)) (\<lambda>headerSnapshot.
     bindE (map_err CRfcpro (DecodeFieldHeaderLimited headerSnapshot (rl_maxFieldLength r))) (\<lambda>header.
     let valueOffset = offset + 2 + fh_BytesConsumed header;
         nextOffset = valueOffset + nat (fh_Length header) in
     bindE (enforceChainLength (int nextOffset) (rl_maxChainLength r)) (\<lambda>_.
     bindE (requireInput data valueOffset (fh_Length header)) (\<lambda>_.
     Inr (\<lparr>fd_Tag = fh_Tag header, fd_Value = gslice valueOffset nextOffset data\<rparr>, nextOffset))))))))"

lemma decode_field_progress:
  "decode_field r data prev offset = Inr (f, next) \<Longrightarrow> offset < next \<and> offset < length data"
  by (auto simp: decode_field_def bindE_Inr_iff requireInput_def Let_def)

function decode_loop :: "resolved_limits \<Rightarrow> bytes \<Rightarrow> u16 option \<Rightarrow> cpic_field list \<Rightarrow> u16 \<Rightarrow> nat \<Rightarrow>
    cpic_error + decoded_field_chain_prefix" where
  "decode_loop r data terminalTag flds expectedPreviousTag offset =
     (if offset < length data then
        (if int (length flds) \<ge> rl_maxFieldCount r then Inl CErrRange
         else case decode_field r data expectedPreviousTag offset of
           Inl e \<Rightarrow> Inl e
         | Inr (field, nextOffset) \<Rightarrow>
             let flds' = flds @ [field] in
             if terminalTag = Some (fd_Tag field)
             then Inr \<lparr>dp_Fields = flds', dp_BytesConsumed = nextOffset\<rparr>
             else decode_loop r data terminalTag flds' (fd_Tag field) nextOffset)
      else if terminalTag \<noteq> None then Inl CErrChain
      else Inr \<lparr>dp_Fields = flds, dp_BytesConsumed = offset\<rparr>)"
  by pat_completeness auto
termination
  by (relation "measure (\<lambda>(r, data, t, flds, prev, offset). length data - offset)")
    (auto dest!: decode_field_progress)

declare decode_loop.simps [simp del]

text \<open>\<open>terminalTag < 0\<close> of the code is \<open>None\<close>.\<close>

definition decodeFieldChainRegion ::
    "bytes \<Rightarrow> u16 \<Rightarrow> u16 option \<Rightarrow> field_chain_limits \<Rightarrow> cpic_error + decoded_field_chain_prefix" where
  "decodeFieldChainRegion data initialPreviousTag terminalTag limits =
     bindE (resolveLimits limits) (\<lambda>r.
       if terminalTag = None \<and> int (length data) > rl_maxChainLength r then Inl CErrRange
       else decode_loop r data terminalTag [] initialPreviousTag 0)"

definition DecodeFieldChain :: "bytes \<Rightarrow> u16 \<Rightarrow> field_chain_limits \<Rightarrow> cpic_error + cpic_field list" where
  "DecodeFieldChain data initialPreviousTag limits =
     bindE (decodeFieldChainRegion data initialPreviousTag None limits) (\<lambda>decoded.
       if dp_BytesConsumed decoded \<noteq> length data then Inl CErrChain else Inr (dp_Fields decoded))"

definition DecodeFieldChainPrefix ::
    "bytes \<Rightarrow> u16 \<Rightarrow> u16 \<Rightarrow> field_chain_limits \<Rightarrow> cpic_error + decoded_field_chain_prefix" where
  "DecodeFieldChainPrefix data initialPreviousTag terminalTag limits =
     decodeFieldChainRegion data initialPreviousTag (Some terminalTag) limits"

section \<open>Layout specification\<close>

definition field_record :: "u16 \<Rightarrow> cpic_field \<Rightarrow> bytes" where
  "field_record prev f =
     put16be prev @ field_header_layout (fd_Tag f) (int (length (fd_Value f))) @ fd_Value f"

fun chain_layout :: "u16 \<Rightarrow> cpic_field list \<Rightarrow> bytes" where
  "chain_layout prev [] = []"
| "chain_layout prev (f # fs) = field_record prev f @ chain_layout (fd_Tag f) fs"

definition last_tag :: "u16 \<Rightarrow> cpic_field list \<Rightarrow> u16" where
  "last_tag prev fs = (if fs = [] then prev else fd_Tag (last fs))"

definition chain_fits :: "resolved_limits \<Rightarrow> u16 \<Rightarrow> cpic_field list \<Rightarrow> bool" where
  "chain_fits r prev fs \<longleftrightarrow> int (length fs) \<le> rl_maxFieldCount r \<and>
     list_all (\<lambda>f. int (length (fd_Value f)) \<le> rl_maxFieldLength r) fs \<and>
     int (length (chain_layout prev fs)) \<le> rl_maxChainLength r"

section \<open>Encoding: lemmas\<close>

lemma resolveLimits_bounds:
  "resolveLimits limits = Inr r \<Longrightarrow> 0 \<le> rl_maxFieldLength r \<and> rl_maxFieldLength r \<le> 0x7fffffff \<and>
     0 \<le> rl_maxChainLength r \<and> rl_maxChainLength r \<le> 0x7fffffff \<and> 0 \<le> rl_maxFieldCount r"
  by (auto simp: resolveLimits_def Let_def ValueLengthMax_def split: if_splits)

lemma length_field_header_layout: "length (field_header_layout tag n) = (if n \<le> 65534 then 4 else 8)"
  by (simp add: field_header_layout_def)

lemma header_byte_length:
  "0 \<le> n \<Longrightarrow> n \<le> 0x7fffffff \<Longrightarrow> FieldHeaderByteLength n = Inr (length (field_header_layout tag n))"
  by (simp add: FieldHeaderByteLength_def validateValueLength_def rfcpro_consts length_field_header_layout)

lemma length_chain_layout_prev: "length (chain_layout p fs) = length (chain_layout q fs)"
  by (cases fs) (simp_all add: field_record_def)

lemma chain_length_loop_Inr:
  assumes "rl_maxFieldLength r \<le> 0x7fffffff"
  shows "chain_length_loop r fs n = Inr m \<longleftrightarrow>
     (fs = [] \<or> n + int (length (chain_layout prev fs)) \<le> rl_maxChainLength r) \<and>
     list_all (\<lambda>f. int (length (fd_Value f)) \<le> rl_maxFieldLength r) fs \<and>
     m = n + int (length (chain_layout prev fs))"
proof (induction fs arbitrary: n prev)
  case (Cons f fs)
  show ?case
  proof (cases "int (length (fd_Value f)) \<le> rl_maxFieldLength r")
    case True
    define hl where "hl = length (field_header_layout (fd_Tag f) (int (length (fd_Value f))))"
    have "FieldHeaderByteLength (int (length (fd_Value f))) = Inr hl"
      using True assms unfolding hl_def by (intro header_byte_length) auto
    moreover have "int (length (field_record prev f)) = 2 + int hl + int (length (fd_Value f))"
      by (simp add: field_record_def hl_def)
    ultimately show ?thesis
      using True Cons.IH [of "n + 2 + int hl + int (length (fd_Value f))" "fd_Tag f"]
      by (auto simp: Let_def)
  qed simp
qed auto

lemma FieldChainByteLength_Inr:
  "FieldChainByteLength prev fs limits = Inr m \<longleftrightarrow>
     (\<exists>r. resolveLimits limits = Inr r \<and> chain_fits r prev fs) \<and> m = int (length (chain_layout prev fs))"
proof (cases "resolveLimits limits")
  case (Inr r)
  then show ?thesis
    using resolveLimits_bounds [OF Inr] chain_length_loop_Inr [of r fs 0 m prev]
    by (auto simp: FieldChainByteLength_def chain_fits_def)
qed (simp add: FieldChainByteLength_def)

lemma chain_encode_step:
  "n = length b + k \<Longrightarrow> copy_at (length pre) b (pre @ replicate n 0) = (pre @ b) @ replicate k 0"
  using copy_at_fit [of b n pre 0] by simp

lemma chain_encode_loop_layout:
  assumes "list_all (\<lambda>f. int (length (fd_Value f)) \<le> 0x7fffffff) fs" "k = length (chain_layout prev fs)"
  shows "chain_encode_loop fs prev (length pre) (pre @ replicate k 0) = Inr (pre @ chain_layout prev fs)"
  using assms
proof (induction fs arbitrary: prev pre k)
  case (Cons f fs)
  define h where "h = field_header_layout (fd_Tag f) (int (length (fd_Value f)))"
  define k' where "k' = length (chain_layout (fd_Tag f) fs)"
  have enc: "EncodeFieldHeader (fd_Tag f) (int (length (fd_Value f))) = Inr h"
    using Cons.prems(1) by (simp add: EncodeFieldHeader_eq h_def)
  have k: "k = 2 + (length h + (length (fd_Value f) + k'))"
    using Cons.prems(2) by (simp add: field_record_def h_def k'_def)
  have c1: "copy_at (length pre) (put16be prev) (pre @ replicate k 0) =
      (pre @ put16be prev) @ replicate (length h + (length (fd_Value f) + k')) 0"
    by (rule chain_encode_step) (simp add: k)
  have c2: "copy_at (length pre + 2) h ((pre @ put16be prev) @ replicate (length h + (length (fd_Value f) + k')) 0) =
      (pre @ put16be prev @ h) @ replicate (length (fd_Value f) + k') 0"
    using chain_encode_step [of "length h + (length (fd_Value f) + k')" h "length (fd_Value f) + k'" "pre @ put16be prev"]
    by simp
  have c3: "copy_at (length pre + 2 + length h) (fd_Value f) ((pre @ put16be prev @ h) @ replicate (length (fd_Value f) + k') 0) =
      (pre @ field_record prev f) @ replicate k' 0"
    using chain_encode_step [of "length (fd_Value f) + k'" "fd_Value f" k' "pre @ put16be prev @ h"]
    by (simp add: field_record_def h_def)
  have l: "length pre + 2 + length h + length (fd_Value f) = length (pre @ field_record prev f)"
    by (simp add: field_record_def h_def)
  have "chain_encode_loop (f # fs) prev (length pre) (pre @ replicate k 0) =
      chain_encode_loop fs (fd_Tag f) (length (pre @ field_record prev f))
        ((pre @ field_record prev f) @ replicate k' 0)"
    by (simp only: chain_encode_loop.simps Let_def enc map_err.simps bindE.simps c1 c2 c3 l)
  also have "\<dots> = Inr ((pre @ field_record prev f) @ chain_layout (fd_Tag f) fs)"
    using Cons.prems(1) by (intro Cons.IH) (simp_all add: k'_def)
  finally show ?case by simp
qed simp

lemma EncodeFieldChain_Inr:
  "EncodeFieldChain prev fs limits = Inr b \<longleftrightarrow>
     (\<exists>r. resolveLimits limits = Inr r \<and> chain_fits r prev fs) \<and> b = chain_layout prev fs"
proof -
  have "chain_encode_loop fs prev 0 (replicate (length (chain_layout prev fs)) 0) = Inr (chain_layout prev fs)"
    if "resolveLimits limits = Inr r" "chain_fits r prev fs" for r
  proof -
    have "list_all (\<lambda>f. int (length (fd_Value f)) \<le> 0x7fffffff) fs"
      using that resolveLimits_bounds [OF that(1)] by (auto simp: chain_fits_def list_all_iff)
    then show ?thesis using chain_encode_loop_layout [of fs _ prev "[]"] by simp
  qed
  then show ?thesis
    by (auto simp: EncodeFieldChain_def bindE_Inr_iff FieldChainByteLength_Inr)
qed

section \<open>Decoding: lemmas\<close>

lemma decode_field_record:
  assumes r: "0 \<le> rl_maxFieldLength r" "rl_maxFieldLength r \<le> 0x7fffffff"
    and fit: "int (length (fd_Value f)) \<le> rl_maxFieldLength r"
      "int (length (pre @ field_record prev f)) \<le> rl_maxChainLength r"
  shows "decode_field r (pre @ field_record prev f @ rest) prev (length pre) =
     Inr (f, length (pre @ field_record prev f))"
proof -
  define n where "n = int (length (fd_Value f))"
  define h where "h = field_header_layout (fd_Tag f) n"
  define data where "data = pre @ field_record prev f @ rest"
  have data: "data = pre @ put16be prev @ h @ fd_Value f @ rest"
    by (simp add: data_def field_record_def h_def n_def)
  have n: "0 \<le> n" "n \<le> 0x7fffffff" using r fit by (simp_all add: n_def)
  have dec: "DecodeFieldHeaderLimited h (rl_maxFieldLength r) =
      Inr \<lparr>fh_Tag = fd_Tag f, fh_Length = n, fh_Encoding = (if n \<le> 65534 then EncodingCompact else EncodingExtended),
           fh_BytesConsumed = length h\<rparr>"
    using DecodeFieldHeader_layout [OF n r, of "fd_Tag f" "[]"] fit by (simp add: h_def n_def)
  have f: "\<lparr>fd_Tag = fd_Tag f, fd_Value = fd_Value f\<rparr> = f" by simp
  show ?thesis
  proof (cases "n \<le> 65534")
    case True
    then have h: "h = put16be (fd_Tag f) @ put16be (of_int n)" by (simp add: h_def field_header_layout_def)
    have "int (unat (get16be (drop (length pre + 4) data))) \<noteq> ExtendedLengthSentinel"
      using unat_compact [OF n(1) True] True by (simp add: data h ExtendedLengthSentinel_def del: of_nat_unat)
    moreover have "gslice (length pre + 2) (length pre + 6) data = h"
      by (simp add: data h gslice_def)
    ultimately show ?thesis
      using dec fit f unfolding data_def [symmetric]
      by (simp add: decode_field_def enforceChainLength_def requireInput_def bindE_fail_if fail_if_def Let_def
          data_def field_record_def h_def [symmetric] n_def [symmetric])
        (simp add: data h gslice_def n_def)
  next
    case False
    then have h: "h = put16be (fd_Tag f) @ put16be 0xffff @ put32be (of_int n)"
      by (simp add: h_def field_header_layout_def)
    have "int (unat (get16be (drop (length pre + 4) data))) = ExtendedLengthSentinel"
      by (simp add: data h ExtendedLengthSentinel_def)
    moreover have "gslice (length pre + 2) (length pre + 6) data @ gslice (length pre + 6) (length pre + 10) data = h"
      by (simp add: data h gslice_def)
    ultimately show ?thesis
      using dec fit f unfolding data_def [symmetric]
      by (simp add: decode_field_def enforceChainLength_def requireInput_def bindE_fail_if fail_if_def Let_def
          data_def field_record_def h_def [symmetric] n_def [symmetric])
        (simp add: data h gslice_def n_def)
  qed
qed

lemma field_record_length: "6 \<le> length (field_record prev f)"
  by (simp add: field_record_def length_field_header_layout)

lemma field_record_nonempty [simp]: "field_record prev f \<noteq> []"
  using field_record_length [of prev f] by auto

lemma decode_loop_layout:
  assumes r: "0 \<le> rl_maxFieldLength r" "rl_maxFieldLength r \<le> 0x7fffffff"
    and "list_all (\<lambda>f. int (length (fd_Value f)) \<le> rl_maxFieldLength r) fs"
    and "int (length (pre @ chain_layout prev fs)) \<le> rl_maxChainLength r"
    and "int (length (acc @ fs)) \<le> rl_maxFieldCount r"
    and "list_all (\<lambda>f. Some (fd_Tag f) \<noteq> t) fs"
  shows "decode_loop r (pre @ chain_layout prev fs @ rest) t acc prev (length pre) =
     decode_loop r (pre @ chain_layout prev fs @ rest) t (acc @ fs) (last_tag prev fs)
       (length (pre @ chain_layout prev fs))"
  using assms(3-6)
proof (induction fs arbitrary: pre prev acc)
  case Nil
  then show ?case by (simp add: last_tag_def)
next
  case (Cons f fs)
  define data where "data = pre @ chain_layout prev (f # fs) @ rest"
  have data: "data = (pre @ field_record prev f) @ chain_layout (fd_Tag f) fs @ rest" by (simp add: data_def)
  have "decode_field r data prev (length pre) = Inr (f, length (pre @ field_record prev f))"
    using decode_field_record [OF r, of f pre prev "chain_layout (fd_Tag f) fs @ rest"] Cons.prems
    by (simp add: data_def)
  moreover have "length pre < length data"
    by (simp add: data)
  ultimately have "decode_loop r data t acc prev (length pre) =
      decode_loop r data t (acc @ [f]) (fd_Tag f) (length (pre @ field_record prev f))"
    using Cons.prems(3,4) by (subst decode_loop.simps) (auto simp: Let_def)
  also have "\<dots> = decode_loop r data t ((acc @ [f]) @ fs) (last_tag (fd_Tag f) fs)
      (length ((pre @ field_record prev f) @ chain_layout (fd_Tag f) fs))"
    using Cons.IH [of "pre @ field_record prev f" "fd_Tag f" "acc @ [f]"] Cons.prems by (simp add: data)
  finally show ?case
    by (simp add: data_def last_tag_def)
qed

lemma DecodeFieldChain_layout:
  assumes "resolveLimits limits = Inr r" "chain_fits r prev fs"
  shows "DecodeFieldChain (chain_layout prev fs) prev limits = Inr fs"
proof -
  note b = resolveLimits_bounds [OF assms(1)]
  have "decode_loop r (chain_layout prev fs) None [] prev 0 =
      Inr \<lparr>dp_Fields = fs, dp_BytesConsumed = length (chain_layout prev fs)\<rparr>"
    using decode_loop_layout [of r fs "[]" prev "[]" None "[]"] b assms(2)
    by (simp add: chain_fits_def list_all_iff decode_loop.simps [where offset = "length (chain_layout prev fs)"])
  then show ?thesis
    using assms by (simp add: DecodeFieldChain_def decodeFieldChainRegion_def chain_fits_def)
qed

lemma chain_layout_append: "chain_layout prev (xs @ ys) = chain_layout prev xs @ chain_layout (last_tag prev xs) ys"
  by (induction xs arbitrary: prev) (simp_all add: last_tag_def)

lemma DecodeFieldChainPrefix_layout:
  assumes "resolveLimits limits = Inr r" "chain_fits r prev (fs @ [f])"
    and "list_all (\<lambda>g. fd_Tag g \<noteq> fd_Tag f) fs"
  shows "DecodeFieldChainPrefix (chain_layout prev (fs @ [f]) @ trailer) prev (fd_Tag f) limits =
     Inr \<lparr>dp_Fields = fs @ [f], dp_BytesConsumed = length (chain_layout prev (fs @ [f]))\<rparr>"
proof -
  note b = resolveLimits_bounds [OF assms(1)]
  define last where "last = field_record (last_tag prev fs) f"
  define data where "data = chain_layout prev (fs @ [f]) @ trailer"
  have data: "data = chain_layout prev fs @ last @ trailer" and len: "length (chain_layout prev (fs @ [f])) = length (chain_layout prev fs @ last)"
    by (simp_all add: data_def chain_layout_append last_def)
  have fit: "list_all (\<lambda>g. int (length (fd_Value g)) \<le> rl_maxFieldLength r) (fs @ [f])"
    "int (length (chain_layout prev fs @ last)) \<le> rl_maxChainLength r" "int (length fs) + 1 \<le> rl_maxFieldCount r"
    using assms(2) len by (simp_all add: chain_fits_def)
  have "decode_loop r data (Some (fd_Tag f)) [] prev 0 =
      decode_loop r data (Some (fd_Tag f)) fs (last_tag prev fs) (length (chain_layout prev fs))"
    using decode_loop_layout [of r fs "[]" prev "[]" "Some (fd_Tag f)" "last @ trailer"] b fit assms(3)
    by (auto simp: data list_all_iff)
  also have "\<dots> = Inr \<lparr>dp_Fields = fs @ [f], dp_BytesConsumed = length (chain_layout prev fs @ last)\<rparr>"
    using decode_field_record [of r f "chain_layout prev fs" "last_tag prev fs" trailer] b fit
      field_record_length [of "last_tag prev fs" f]
    by (subst decode_loop.simps) (simp add: data last_def)
  finally show ?thesis
    using assms(1) len unfolding DecodeFieldChainPrefix_def decodeFieldChainRegion_def data_def by simp
qed

lemma decode_field_wrong_prev:
  assumes "tag \<noteq> expected" "int (length pre) + 6 \<le> rl_maxChainLength r" "4 \<le> length rest"
  shows "decode_field r (pre @ put16be tag @ rest) expected (length pre) = Inl CErrChain"
  using assms by (simp add: decode_field_def enforceChainLength_def requireInput_def bindE_fail_if)

lemma DecodeFieldChain_dropped:
  assumes "resolveLimits limits = Inr r" "chain_fits r prev (xs @ f # ys)" "ys \<noteq> []"
    and "fd_Tag f \<noteq> last_tag prev xs"
  shows "DecodeFieldChain (chain_layout prev xs @ chain_layout (fd_Tag f) ys) prev limits = Inl CErrChain"
proof -
  note b = resolveLimits_bounds [OF assms(1)]
  obtain y ys' where ys: "ys = y # ys'" using assms(3) by (cases ys) auto
  define rest where "rest = field_header_layout (fd_Tag y) (int (length (fd_Value y))) @ fd_Value y @ chain_layout (fd_Tag y) ys'"
  define data where "data = chain_layout prev xs @ chain_layout (fd_Tag f) ys"
  have data: "data = chain_layout prev xs @ put16be (fd_Tag f) @ rest"
    by (simp add: data_def ys field_record_def rest_def)
  have len: "int (length data) \<le> rl_maxChainLength r"
    using assms(2) by (simp add: chain_fits_def chain_layout_append data_def)
  have rest: "4 \<le> length rest" by (simp add: rest_def length_field_header_layout)
  have "decode_loop r data None [] prev 0 = decode_loop r data None xs (last_tag prev xs) (length (chain_layout prev xs))"
    using decode_loop_layout [of r xs "[]" prev "[]" None "put16be (fd_Tag f) @ rest"] b assms(2) len
    by (auto simp: data chain_fits_def list_all_iff)
  also have "\<dots> = Inl CErrChain"
    using decode_field_wrong_prev [OF assms(4), of "chain_layout prev xs" r rest] len rest assms(2)
    by (subst decode_loop.simps) (simp add: data chain_fits_def ys)
  finally show ?thesis
    using assms(1) len by (simp add: DecodeFieldChain_def decodeFieldChainRegion_def data_def)
qed

section \<open>Properties\<close>

text \<open>
  The field chain round-trips: the encoder succeeds exactly for chains within the limits,
  its output is the chained layout, and the decoder with the same limits and initial tag returns
  exactly those fields. The encoder's own length computation is the length of its output.
\<close>

theorem field_chain_roundtrip:
  assumes "EncodeFieldChain prev flds limits = Inr b"
  shows "b = chain_layout prev flds \<and> DecodeFieldChain b prev limits = Inr flds \<and>
    FieldChainByteLength prev flds limits = Inr (int (length b))"
  using assms DecodeFieldChain_layout by (auto simp: EncodeFieldChain_Inr FieldChainByteLength_Inr)

definition no_limits :: field_chain_limits where
  "no_limits = \<lparr>fl_MaxFieldLength = None, fl_MaxChainLength = None, fl_MaxFieldCount = None\<rparr>"

lemma no_limits_resolved:
  "resolveLimits no_limits = Inr \<lparr>rl_maxFieldLength = 268435456, rl_maxChainLength = 268435456,
     rl_maxFieldCount = 100000\<rparr>"
  by (simp add: resolveLimits_def no_limits_def orInt_def DefaultMaxFieldLength_def
      DefaultMaxFieldChainLength_def DefaultMaxFieldCount_def ValueLengthMax_def)

definition sample_fields :: "cpic_field list" where
  "sample_fields = [\<lparr>fd_Tag = 0x0111, fd_Value = [65, 66]\<rparr>, \<lparr>fd_Tag = 0x0114, fd_Value = [1]\<rparr>,
     \<lparr>fd_Tag = 0xffff, fd_Value = []\<rparr>]"

lemma sample_fields_fit:
  "chain_fits \<lparr>rl_maxFieldLength = 268435456, rl_maxChainLength = 268435456, rl_maxFieldCount = 100000\<rparr>
     0x0101 sample_fields"
  by (simp add: chain_fits_def sample_fields_def field_record_def length_field_header_layout)

theorem field_chain_roundtrip_witness:
  "DecodeFieldChain (chain_layout 0x0101 sample_fields) 0x0101 no_limits = Inr sample_fields"
  using field_chain_roundtrip [of "0x0101" sample_fields no_limits] no_limits_resolved sample_fields_fit
  by (simp add: EncodeFieldChain_Inr)

text \<open>
  The prefix decoder stops at the terminal tag: it returns the fields up to and including
  the first field with that tag and consumes exactly their bytes, whatever trailer follows.
\<close>

theorem field_chain_prefix:
  assumes "EncodeFieldChain prev (flds @ [f]) limits = Inr b" "list_all (\<lambda>g. fd_Tag g \<noteq> fd_Tag f) flds"
  shows "DecodeFieldChainPrefix (b @ trailer) prev (fd_Tag f) limits =
    Inr \<lparr>dp_Fields = flds @ [f], dp_BytesConsumed = length b\<rparr>"
  using assms DecodeFieldChainPrefix_layout by (auto simp: EncodeFieldChain_Inr)

theorem field_chain_prefix_witness:
  "DecodeFieldChainPrefix (chain_layout 0x0101 sample_fields @ [7, 7]) 0x0101 0xffff no_limits =
    Inr \<lparr>dp_Fields = sample_fields, dp_BytesConsumed = length (chain_layout 0x0101 sample_fields)\<rparr>"
  using field_chain_prefix [of "0x0101" "butlast sample_fields" "last sample_fields" no_limits
      "chain_layout 0x0101 sample_fields" "[7, 7]"] no_limits_resolved sample_fields_fit
  by (simp add: EncodeFieldChain_Inr) (simp add: sample_fields_def)

text \<open>
  A dropped field is detected: removing the record of any field but the last from a valid
  chain makes decoding fail with the chain error, unless the removed field repeats the tag before
  it.
\<close>

theorem dropped_field_detected:
  assumes "EncodeFieldChain prev (xs @ f # ys) limits = Inr b" "ys \<noteq> []" "fd_Tag f \<noteq> last_tag prev xs"
  shows "b = chain_layout prev xs @ field_record (last_tag prev xs) f @ chain_layout (fd_Tag f) ys \<and>
    DecodeFieldChain (chain_layout prev xs @ chain_layout (fd_Tag f) ys) prev limits = Inl CErrChain"
  using assms DecodeFieldChain_dropped by (auto simp: EncodeFieldChain_Inr chain_layout_append)

theorem dropped_field_detected_witness:
  "DecodeFieldChain (chain_layout 0x0111 [\<lparr>fd_Tag = 0x0114, fd_Value = [1]\<rparr>,
     \<lparr>fd_Tag = 0xffff, fd_Value = []\<rparr>]) 0x0101 no_limits = Inl CErrChain"
  using dropped_field_detected [of "0x0101" "[]" "\<lparr>fd_Tag = 0x0111, fd_Value = [65, 66]\<rparr>"
      "[\<lparr>fd_Tag = 0x0114, fd_Value = [1]\<rparr>, \<lparr>fd_Tag = 0xffff, fd_Value = []\<rparr>]" no_limits
      "chain_layout 0x0101 sample_fields"] no_limits_resolved sample_fields_fit
  by (simp add: EncodeFieldChain_Inr sample_fields_def last_tag_def)

end
