(* ===== verification/Pool.thy ===== *)
theory Pool
  imports Rfc_Prelude "HOL-Library.Multiset"
begin

text \<open>
  Package \<open>pool\<close> (\<open>internal/pool/pool.go\<close>): the bounded, context-aware resource pool. Every
  section of the code that runs under the pool's mutex is one function on the pool record;
  \<open>pool_step\<close> interleaves them for any number of goroutines. The one-element channel of a
  waiter is the mail of the system, and a goroutine between two locked sections is a holder:
  it validates a resource, creates one for a reserved slot, or has a lease. The factory's
  callbacks are the nondeterminism of the steps: validation and creation may succeed or
  fail at any time, and a created resource is a new one. \<open>time.Now()\<close> is an argument.
\<close>

section \<open>The pool record and its locked sections\<close>

definition DefaultMaxSize :: int where "DefaultMaxSize = 8"

text \<open>\<open>hasResource\<close> and \<open>resource\<close> of a grant: \<open>Some r\<close>, or \<open>None\<close> for a slot.\<close>

type_synonym 'r grant = "'r option"
type_synonym 'r entry = "'r \<times> int"

record 'r pool =
  p_maxSize :: int
  p_idle :: "'r entry list"
  p_leased :: int
  p_freeSlots :: int
  p_waiters :: "nat list"
  p_closed :: bool

record pool_stats =
  st_MaxSize :: int
  st_Idle :: int
  st_Leased :: int
  st_Open :: int

definition pool_New :: "int \<Rightarrow> 'r pool" where
  "pool_New maxSize =
     (let m = (if maxSize \<le> 0 then DefaultMaxSize else maxSize) in
      \<lparr>p_maxSize = m, p_idle = [], p_leased = 0, p_freeSlots = m, p_waiters = [], p_closed = False\<rparr>)"

text \<open>
  \<open>grantAvailable\<close> and \<open>popWaiter\<close>: the grants sent, with the waiter each one goes to,
  in order.
\<close>

function grant_loop :: "'r pool \<Rightarrow> (nat \<times> 'r grant) list \<Rightarrow> 'r pool \<times> (nat \<times> 'r grant) list" where
  "grant_loop p sent =
     (case p_waiters p of
        [] \<Rightarrow> (p, sent)
      | w # ws \<Rightarrow>
          if length (p_idle p) > 0 then
            grant_loop (p\<lparr>p_idle := butlast (p_idle p), p_leased := p_leased p + 1, p_waiters := ws\<rparr>)
              (sent @ [(w, Some (fst (last (p_idle p))))])
          else if p_freeSlots p > 0 then
            grant_loop (p\<lparr>p_freeSlots := p_freeSlots p - 1, p_leased := p_leased p + 1, p_waiters := ws\<rparr>)
              (sent @ [(w, None)])
          else (p, sent))"
  by pat_completeness auto
termination
  by (relation "measure (\<lambda>(p, sent). length (p_waiters p))") auto

declare grant_loop.simps [simp del]

definition grantAvailable :: "'r pool \<Rightarrow> 'r pool \<times> (nat \<times> 'r grant) list" where
  "grantAvailable p = grant_loop p []"

definition removeWaiter :: "nat \<Rightarrow> 'r pool \<Rightarrow> bool \<times> 'r pool" where
  "removeWaiter w p =
     (if w \<in> set (p_waiters p) then (True, p\<lparr>p_waiters := remove1 w (p_waiters p)\<rparr>) else (False, p))"

datatype 'r acquire_result = AcquireErrClosed | AcquireIdle 'r | AcquireSlot | AcquireWait nat

text \<open>The first locked section of \<open>Acquire\<close>; \<open>w\<close> is the channel it would create.\<close>

definition acquire_enter :: "nat \<Rightarrow> 'r pool \<Rightarrow> 'r acquire_result \<times> 'r pool" where
  "acquire_enter w p =
     (if p_closed p then (AcquireErrClosed, p)
      else if length (p_idle p) > 0 then
        (AcquireIdle (fst (last (p_idle p))),
         p\<lparr>p_idle := butlast (p_idle p), p_leased := p_leased p + 1\<rparr>)
      else if p_freeSlots p > 0 then
        (AcquireSlot, p\<lparr>p_freeSlots := p_freeSlots p - 1, p_leased := p_leased p + 1\<rparr>)
      else (AcquireWait w, p\<lparr>p_waiters := p_waiters p @ [w]\<rparr>))"

text \<open>The section that gives a slot back: in \<open>useIdle\<close>, \<open>createLeased\<close>, \<open>abandon\<close> and \<open>discard\<close>.\<close>

definition return_slot :: "'r pool \<Rightarrow> 'r pool \<times> (nat \<times> 'r grant) list" where
  "return_slot p = grantAvailable (p\<lparr>p_leased := p_leased p - 1, p_freeSlots := p_freeSlots p + 1\<rparr>)"

text \<open>\<open>putBack\<close>: the pool, the grants sent and the resources it closes.\<close>

definition putBack :: "'r \<Rightarrow> int \<Rightarrow> 'r pool \<Rightarrow> 'r pool \<times> (nat \<times> 'r grant) list \<times> 'r list" where
  "putBack r now p =
     (if p_closed p then (p\<lparr>p_leased := p_leased p - 1\<rparr>, [], [r])
      else case p_waiters p of
        w # ws \<Rightarrow> (p\<lparr>p_waiters := ws\<rparr>, [(w, Some r)], [])
      | [] \<Rightarrow> (p\<lparr>p_leased := p_leased p - 1, p_idle := p_idle p @ [(r, now)]\<rparr>, [], []))"

definition discard :: "'r \<Rightarrow> 'r pool \<Rightarrow> 'r pool \<times> (nat \<times> 'r grant) list \<times> 'r list" where
  "discard r p = (case return_slot p of (p', sent) \<Rightarrow> (p', sent, [r]))"

text \<open>
  \<open>abandon\<close> of waiter \<open>w\<close>, whose channel holds \<open>g\<close> when a grant was delivered: the waiter
  leaves the queue, or the grant in flight goes back.
\<close>

definition abandon :: "nat \<Rightarrow> 'r grant \<Rightarrow> int \<Rightarrow> 'r pool \<Rightarrow> 'r pool \<times> (nat \<times> 'r grant) list \<times> 'r list" where
  "abandon w g now p =
     (case removeWaiter w p of
        (True, p') \<Rightarrow> (p', [], [])
      | (False, p') \<Rightarrow>
          (case g of
             Some r \<Rightarrow> putBack r now p'
           | None \<Rightarrow> (case return_slot p' of (p'', sent) \<Rightarrow> (p'', sent, []))))"

definition evictExpired :: "int \<Rightarrow> 'r pool \<Rightarrow> 'r pool \<times> (nat \<times> 'r grant) list \<times> 'r list" where
  "evictExpired cutoff p =
     (let expired = map fst (filter (\<lambda>e. snd e < cutoff) (p_idle p));
          kept = filter (\<lambda>e. \<not> snd e < cutoff) (p_idle p);
          p' = p\<lparr>p_idle := kept, p_freeSlots := p_freeSlots p + int (length expired)\<rparr>
      in if length expired > 0
         then (case grantAvailable p' of (p'', sent) \<Rightarrow> (p'', sent, expired))
         else (p', [], expired))"

definition Stats :: "'r pool \<Rightarrow> pool_stats" where
  "Stats p = \<lparr>st_MaxSize = p_maxSize p, st_Idle = int (length (p_idle p)), st_Leased = p_leased p,
     st_Open = int (length (p_idle p)) + p_leased p\<rparr>"

text \<open>
  The locked section of \<open>Close\<close>: \<open>None\<close> when the pool was closed already, otherwise the idle
  resources it detaches. \<open>Close\<close> closes them after the janitor has stopped; when its context
  ends first it returns without closing them, and nothing refers to them any more.
\<close>

definition close_enter :: "'r pool \<Rightarrow> 'r list option \<times> 'r pool" where
  "close_enter p =
     (if p_closed p then (None, p)
      else (Some (map fst (p_idle p)), p\<lparr>p_closed := True, p_idle := []\<rparr>))"

section \<open>The system\<close>

datatype 'r holder = Validating 'r | Creating | Leased 'r

record 'r sys =
  s_pool :: "'r pool"
  s_mail :: "(nat \<times> 'r grant) multiset"
  s_holders :: "'r holder multiset"
  s_detached :: "'r list"
  s_closed :: "'r list"
  s_leaked :: "'r list"
  s_next :: nat

datatype 'r pool_event =
    EAcquire | EReceive nat | EValidated 'r | EInvalid 'r | ECreated 'r | ECreateFailed
  | EAbandon nat | ERelease 'r | EDiscard 'r | EEvict int | EClose | ECloseIdle | ECloseTimeout

text \<open>The resources of a grant and of a holder, and every resource the system has seen.\<close>

fun grant_res :: "'r grant \<Rightarrow> 'r multiset" where
  "grant_res None = {#}"
| "grant_res (Some r) = {#r#}"

fun holder_res :: "'r holder \<Rightarrow> 'r multiset" where
  "holder_res (Validating r) = {#r#}"
| "holder_res Creating = {#}"
| "holder_res (Leased r) = {#r#}"

definition live :: "'r sys \<Rightarrow> 'r multiset" where
  "live s = mset (map fst (p_idle (s_pool s))) + (\<Sum>x\<in>#s_mail s. grant_res (snd x)) +
     (\<Sum>h\<in>#s_holders s. holder_res h)"

definition owned :: "'r sys \<Rightarrow> 'r multiset" where
  "owned s = live s + mset (s_detached s) + mset (s_closed s) + mset (s_leaked s)"

text \<open>The state after a locked section: the grants it sent are in the channels.\<close>

definition after :: "'r pool \<times> (nat \<times> 'r grant) list \<times> 'r list \<Rightarrow> 'r sys \<Rightarrow> 'r sys" where
  "after res s = (case res of (p, sent, closed) \<Rightarrow>
     s\<lparr>s_pool := p, s_mail := s_mail s + mset sent, s_closed := s_closed s @ closed\<rparr>)"

inductive pool_step :: "'r sys \<Rightarrow> 'r pool_event \<Rightarrow> 'r sys \<Rightarrow> bool" where
  acquire_closed: "acquire_enter (s_next s) (s_pool s) = (AcquireErrClosed, p) \<Longrightarrow>
    pool_step s EAcquire (s\<lparr>s_pool := p\<rparr>)"
| acquire_idle: "acquire_enter (s_next s) (s_pool s) = (AcquireIdle r, p) \<Longrightarrow>
    pool_step s EAcquire (s\<lparr>s_pool := p, s_holders := add_mset (Validating r) (s_holders s)\<rparr>)"
| acquire_slot: "acquire_enter (s_next s) (s_pool s) = (AcquireSlot, p) \<Longrightarrow>
    pool_step s EAcquire (s\<lparr>s_pool := p, s_holders := add_mset Creating (s_holders s)\<rparr>)"
| acquire_wait: "acquire_enter (s_next s) (s_pool s) = (AcquireWait w, p) \<Longrightarrow>
    pool_step s EAcquire (s\<lparr>s_pool := p, s_next := s_next s + 1\<rparr>)"
| receive_resource: "s_mail s = add_mset (w, Some r) M \<Longrightarrow>
    pool_step s (EReceive w) (s\<lparr>s_mail := M, s_holders := add_mset (Validating r) (s_holders s)\<rparr>)"
| receive_slot: "s_mail s = add_mset (w, None) M \<Longrightarrow>
    pool_step s (EReceive w) (s\<lparr>s_mail := M, s_holders := add_mset Creating (s_holders s)\<rparr>)"
| validated: "s_holders s = add_mset (Validating r) H \<Longrightarrow>
    pool_step s (EValidated r) (s\<lparr>s_holders := add_mset (Leased r) H\<rparr>)"
| invalid: "s_holders s = add_mset (Validating r) H \<Longrightarrow> return_slot (s_pool s) = (p, sent) \<Longrightarrow>
    pool_step s (EInvalid r) (after (p, sent, [r]) (s\<lparr>s_holders := H\<rparr>))"
| created: "s_holders s = add_mset Creating H \<Longrightarrow> r \<notin># owned s \<Longrightarrow>
    pool_step s (ECreated r) (s\<lparr>s_holders := add_mset (Leased r) H\<rparr>)"
| create_failed: "s_holders s = add_mset Creating H \<Longrightarrow> return_slot (s_pool s) = (p, sent) \<Longrightarrow>
    pool_step s ECreateFailed (after (p, sent, []) (s\<lparr>s_holders := H\<rparr>))"
| abandon_queued: "w \<in> set (p_waiters (s_pool s)) \<Longrightarrow>
    pool_step s (EAbandon w) (after (abandon w None now (s_pool s)) s)"
| abandon_granted: "w \<notin> set (p_waiters (s_pool s)) \<Longrightarrow> s_mail s = add_mset (w, g) M \<Longrightarrow>
    pool_step s (EAbandon w) (after (abandon w g now (s_pool s)) (s\<lparr>s_mail := M\<rparr>))"
| release: "s_holders s = add_mset (Leased r) H \<Longrightarrow>
    pool_step s (ERelease r) (after (putBack r now (s_pool s)) (s\<lparr>s_holders := H\<rparr>))"
| discarded: "s_holders s = add_mset (Leased r) H \<Longrightarrow>
    pool_step s (EDiscard r) (after (discard r (s_pool s)) (s\<lparr>s_holders := H\<rparr>))"
| evict: "pool_step s (EEvict cutoff) (after (evictExpired cutoff (s_pool s)) s)"
| close_again: "close_enter (s_pool s) = (None, p) \<Longrightarrow> pool_step s EClose (s\<lparr>s_pool := p\<rparr>)"
| close_first: "close_enter (s_pool s) = (Some idle, p) \<Longrightarrow>
    pool_step s EClose (s\<lparr>s_pool := p, s_detached := idle\<rparr>)"
| close_idle: "s_detached s = r # rs \<Longrightarrow>
    pool_step s ECloseIdle (s\<lparr>s_detached := rs, s_closed := s_closed s @ [r]\<rparr>)"
| close_timeout: "p_closed (s_pool s) \<Longrightarrow>
    pool_step s ECloseTimeout (s\<lparr>s_detached := [], s_leaked := s_leaked s @ s_detached s\<rparr>)"

inductive_cases pool_stepE: "pool_step s e t"

definition pool_init :: "int \<Rightarrow> 'r sys \<Rightarrow> bool" where
  "pool_init maxSize s \<longleftrightarrow> s = \<lparr>s_pool = pool_New maxSize, s_mail = {#}, s_holders = {#},
     s_detached = [], s_closed = [], s_leaked = [], s_next = 0\<rparr>"

section \<open>grantAvailable\<close>

lemma grant_loop_spec:
  "grant_loop p sent = (p', out) \<Longrightarrow> 0 \<le> p_freeSlots p \<Longrightarrow>
   \<exists>gs. out = sent @ gs \<and> p_waiters p = map fst gs @ p_waiters p' \<and>
     p_leased p' = p_leased p + int (length gs) \<and>
     int (length (p_idle p')) + p_freeSlots p' + int (length gs) = int (length (p_idle p)) + p_freeSlots p \<and>
     mset (map fst (p_idle p)) = mset (map fst (p_idle p')) + (\<Sum>x\<in>#mset gs. grant_res (snd x)) \<and>
     (p_waiters p' = [] \<or> p_idle p' = [] \<and> p_freeSlots p' = 0) \<and>
     0 \<le> p_freeSlots p' \<and> p_maxSize p' = p_maxSize p \<and> p_closed p' = p_closed p \<and>
     (p_idle p = [] \<longrightarrow> p_idle p' = [])"
proof (induction p sent rule: grant_loop.induct)
  case (1 p sent)
  show ?case
  proof (cases "p_waiters p")
    case Nil
    then show ?thesis using "1.prems" by (auto simp: grant_loop.simps [of p])
  next
    case (Cons w ws)
    consider (idle) "p_idle p \<noteq> []" | (slot) "p_idle p = []" "p_freeSlots p > 0"
      | (none) "p_idle p = []" "p_freeSlots p \<le> 0" by linarith
    then show ?thesis
    proof cases
      case idle
      then obtain es x where es: "p_idle p = es @ [x]" by (cases "p_idle p" rule: rev_cases) auto
      define q where "q = p\<lparr>p_idle := es, p_leased := p_leased p + 1, p_waiters := ws\<rparr>"
      define g where "g = (w, Some (fst x))"
      have "grant_loop q (sent @ [g]) = (p', out)"
        using "1.prems"(1) es Cons by (simp add: grant_loop.simps [of p] q_def g_def)
      with "1.IH"(1) [OF Cons] es "1.prems"(2)
      obtain gs where gs: "out = (sent @ [g]) @ gs" "p_waiters q = map fst gs @ p_waiters p'"
          "p_leased p' = p_leased q + int (length gs)"
          "int (length (p_idle p')) + p_freeSlots p' + int (length gs) = int (length (p_idle q)) + p_freeSlots q"
          "mset (map fst (p_idle q)) = mset (map fst (p_idle p')) + (\<Sum>x\<in>#mset gs. grant_res (snd x))"
          "p_waiters p' = [] \<or> p_idle p' = [] \<and> p_freeSlots p' = 0" "0 \<le> p_freeSlots p'"
          "p_maxSize p' = p_maxSize q" "p_closed p' = p_closed q"
        by (auto simp: q_def g_def)
      then show ?thesis
        using es Cons by (intro exI [of _ "g # gs"]) (auto simp: q_def g_def)
    next
      case slot
      define q where "q = p\<lparr>p_freeSlots := p_freeSlots p - 1, p_leased := p_leased p + 1, p_waiters := ws\<rparr>"
      have "grant_loop q (sent @ [(w, None)]) = (p', out)"
        using "1.prems"(1) slot Cons by (simp add: grant_loop.simps [of p] q_def)
      with "1.IH"(2) [OF Cons] slot
      obtain gs where "out = (sent @ [(w, None)]) @ gs" "p_waiters q = map fst gs @ p_waiters p'"
          "p_leased p' = p_leased q + int (length gs)"
          "int (length (p_idle p')) + p_freeSlots p' + int (length gs) = int (length (p_idle q)) + p_freeSlots q"
          "mset (map fst (p_idle q)) = mset (map fst (p_idle p')) + (\<Sum>x\<in>#mset gs. grant_res (snd x))"
          "p_waiters p' = [] \<or> p_idle p' = [] \<and> p_freeSlots p' = 0" "0 \<le> p_freeSlots p'"
          "p_maxSize p' = p_maxSize q" "p_closed p' = p_closed q" "p_idle p' = []"
        by (auto simp: q_def)
      then show ?thesis
        using slot Cons by (intro exI [of _ "(w, None) # gs"]) (auto simp: q_def)
    next
      case none
      then show ?thesis using "1.prems" Cons by (auto simp: grant_loop.simps [of p])
    qed
  qed
qed

section \<open>The invariant\<close>

text \<open>The channels in use: queued waiters and undelivered grants.\<close>

definition channels :: "'r sys \<Rightarrow> nat multiset" where
  "channels s = mset (p_waiters (s_pool s)) + image_mset fst (s_mail s)"

text \<open>
  \<open>sys_inv n k R s\<close>: the state in which a goroutine has given up \<open>k\<close> reservations and the
  resources \<open>R\<close> but not yet told the pool. Between two steps \<open>k = 0\<close> and \<open>R = {#}\<close>.
\<close>

definition counts_ok :: "int \<Rightarrow> int \<Rightarrow> 'r sys \<Rightarrow> bool" where
  "counts_ok n k s \<longleftrightarrow> (let p = s_pool s in
     p_maxSize p = n \<and> 0 \<le> p_freeSlots p \<and>
     p_leased p = int (size (s_holders s)) + int (size (s_mail s)) + k \<and>
     (if p_closed p then p_idle p = [] \<and> p_leased p + p_freeSlots p \<le> n
      else s_detached s = [] \<and> s_leaked s = [] \<and> int (length (p_idle p)) + p_leased p + p_freeSlots p = n) \<and>
     (p_waiters p = [] \<or> p_idle p = [] \<and> p_freeSlots p = 0))"

definition channels_ok :: "'r sys \<Rightarrow> bool" where
  "channels_ok s \<longleftrightarrow> (\<forall>w. count (channels s) w \<le> (if w < s_next s then 1 else 0))"

definition owned_ok :: "'r multiset \<Rightarrow> 'r sys \<Rightarrow> bool" where
  "owned_ok R s \<longleftrightarrow> (\<forall>r. count (owned s + R) r \<le> 1)"

definition sys_inv :: "int \<Rightarrow> int \<Rightarrow> 'r multiset \<Rightarrow> 'r sys \<Rightarrow> bool" where
  "sys_inv n k R s \<longleftrightarrow> counts_ok n k s \<and> channels_ok s \<and> owned_ok R s"

abbreviation pool_inv :: "int \<Rightarrow> 'r sys \<Rightarrow> bool" where
  "pool_inv n s \<equiv> sys_inv n 0 {#} s"

text \<open>What a locked section does for a caller that gives up \<open>k\<close> reservations and \<open>R\<close>.\<close>

definition section_ok :: "int \<Rightarrow> 'r multiset \<Rightarrow> 'r pool \<Rightarrow> 'r pool \<times> (nat \<times> 'r grant) list \<times> 'r list \<Rightarrow> bool" where
  "section_ok k R p res \<longleftrightarrow> (case res of (p', sent, cl) \<Rightarrow>
     p_leased p' = p_leased p - k + int (length sent) \<and>
     mset (map fst (p_idle p)) + R = mset (map fst (p_idle p')) + (\<Sum>x\<in>#mset sent. grant_res (snd x)) + mset cl \<and>
     p_waiters p = map fst sent @ p_waiters p' \<and>
     p_maxSize p' = p_maxSize p \<and> p_closed p' = p_closed p \<and> 0 \<le> p_freeSlots p' \<and>
     (p_waiters p' = [] \<or> p_idle p' = [] \<and> p_freeSlots p' = 0) \<and>
     (if p_closed p then p_idle p' = [] \<and> p_leased p' + p_freeSlots p' \<le> p_leased p + p_freeSlots p
      else int (length (p_idle p')) + p_leased p' + p_freeSlots p' =
           int (length (p_idle p)) + p_leased p + p_freeSlots p))"

definition pool_ok :: "'r pool \<Rightarrow> bool" where
  "pool_ok p \<longleftrightarrow> 0 \<le> p_freeSlots p \<and> (p_waiters p = [] \<or> p_idle p = [] \<and> p_freeSlots p = 0) \<and>
     (\<not> p_closed p \<or> p_idle p = [])"

lemma grantAvailable_spec:
  assumes "grantAvailable p = (p', sent)" "0 \<le> p_freeSlots p" "\<not> p_closed p \<or> p_idle p = []"
  shows "section_ok 0 {#} p (p', sent, [])"
  using grant_loop_spec [OF assms(1) [unfolded grantAvailable_def] assms(2)] assms(3)
  by (auto simp: section_ok_def)

lemma return_slot_section:
  "return_slot p = (p', sent) \<Longrightarrow> pool_ok p \<Longrightarrow> section_ok 1 (mset cl) p (p', sent, cl)"
  unfolding return_slot_def pool_ok_def
  by (drule grantAvailable_spec) (auto simp: section_ok_def)

lemma putBack_section: "pool_ok p \<Longrightarrow> section_ok 1 {#r#} p (putBack r now p)"
  by (auto simp: putBack_def section_ok_def pool_ok_def split: list.splits)

lemma discard_section: "pool_ok p \<Longrightarrow> section_ok 1 {#r#} p (discard r p)"
  using return_slot_section [of p _ _ "[r]"] by (auto simp: discard_def split: prod.splits)

lemma abandon_section:
  "pool_ok p \<Longrightarrow> w \<notin> set (p_waiters p) \<Longrightarrow> section_ok 1 (grant_res g) p (abandon w g now p)"
  using return_slot_section [of p _ _ "[]"] putBack_section [of p]
  by (auto simp: abandon_def removeWaiter_def split: prod.splits option.splits)

lemma mset_partition_fst:
  "mset (map fst xs) = mset (map fst (filter P xs)) + mset (map fst (filter (\<lambda>e. \<not> P e) xs))"
  by (induction xs) auto

lemma length_partition: "length xs = length (filter P xs) + length (filter (\<lambda>e. \<not> P e) xs)"
  by (induction xs) auto

lemma evict_section:
  assumes "pool_ok p"
  shows "section_ok 0 {#} p (evictExpired cutoff p)"
proof -
  define ex where "ex = map fst (filter (\<lambda>e. snd e < cutoff) (p_idle p))"
  define kept where "kept = filter (\<lambda>e. \<not> snd e < cutoff) (p_idle p)"
  define q where "q = p\<lparr>p_idle := kept, p_freeSlots := p_freeSlots p + int (length ex)\<rparr>"
  have res: "mset (map fst (p_idle p)) = mset ex + mset (map fst kept)"
    unfolding ex_def kept_def by (rule mset_partition_fst)
  have len: "length (p_idle p) = length ex + length kept"
    unfolding ex_def kept_def length_map by (rule length_partition)
  have ev: "evictExpired cutoff p =
      (if length ex > 0 then (case grantAvailable q of (p'', sent) \<Rightarrow> (p'', sent, ex)) else (q, [], ex))"
    by (simp add: evictExpired_def Let_def ex_def kept_def q_def)
  show ?thesis
  proof (cases "length ex > 0")
    case True
    obtain p'' sent where g: "grantAvailable q = (p'', sent)" by (cases "grantAvailable q")
    have "section_ok 0 {#} q (p'', sent, [])"
      using assms True len by (intro grantAvailable_spec [OF g]) (auto simp: q_def pool_ok_def)
    moreover have "\<not> p_closed p"
      using assms True len by (auto simp: pool_ok_def)
    moreover have "evictExpired cutoff p = (p'', sent, ex)"
      using True by (simp add: ev g)
    ultimately show ?thesis
      using res len by (auto simp: section_ok_def q_def)
  next
    case False
    then show ?thesis
      using assms res len by (auto simp: ev section_ok_def q_def pool_ok_def)
  qed
qed

lemma owned_ok_eq: "owned_ok R s \<Longrightarrow> owned s' + R' = owned s + R \<Longrightarrow> owned_ok R' s'"
  by (simp add: owned_ok_def)

lemma channels_ok_mono:
  "channels_ok s \<Longrightarrow> channels s' \<subseteq># channels s \<Longrightarrow> s_next s' = s_next s \<Longrightarrow> channels_ok s'"
  unfolding channels_ok_def by (metis mset_subset_eq_count order_trans)

lemma sys_invI:
  assumes "sys_inv n k R s" "counts_ok n' k' s'" "channels s' \<subseteq># channels s" "s_next s' = s_next s"
    "owned s' + R' = owned s + R"
  shows "sys_inv n' k' R' s'"
  using assms owned_ok_eq channels_ok_mono unfolding sys_inv_def by blast

lemma sys_inv_counts: "sys_inv n k R s \<Longrightarrow> counts_ok n k s"
  by (simp add: sys_inv_def)

lemma sys_inv_pool_ok: "sys_inv n k R s \<Longrightarrow> pool_ok (s_pool s)"
  by (auto simp: sys_inv_def counts_ok_def pool_ok_def Let_def split: if_splits)

lemma after_inv:
  assumes inv: "sys_inv n k R s" and sec: "section_ok k R (s_pool s) res"
  shows "pool_inv n (after res s)"
proof -
  obtain p' sent cl where res: "res = (p', sent, cl)" by (cases res) auto
  define p where "p = s_pool s"
  have s: "p_leased p' = p_leased p - k + int (length sent)"
    "mset (map fst (p_idle p)) + R = mset (map fst (p_idle p')) + (\<Sum>x\<in>#mset sent. grant_res (snd x)) + mset cl"
    "p_waiters p = map fst sent @ p_waiters p'"
    using sec by (simp_all add: section_ok_def res p_def)
  show ?thesis
  proof (rule sys_invI [OF inv])
    show "counts_ok n 0 (after res s)"
      using sys_inv_counts [OF inv] sec
      by (auto simp: counts_ok_def section_ok_def Let_def after_def res split: if_splits)
    show "channels (after res s) \<subseteq># channels s"
      using s(3) by (simp add: channels_def after_def res p_def [symmetric] ac_simps)
    show "owned (after res s) + {#} = owned s + R"
      using s(2) by (simp add: owned_def live_def after_def res p_def [symmetric] ac_simps)
  qed (simp add: after_def res)
qed

lemma holder_released:
  assumes "pool_inv n s" "s_holders s = add_mset h H"
  shows "sys_inv n 1 (holder_res h) (s\<lparr>s_holders := H\<rparr>)"
  using sys_inv_counts [OF assms(1)] assms(2)
  by (intro sys_invI [OF assms(1)])
    (auto simp: counts_ok_def Let_def channels_def owned_def live_def ac_simps split: if_splits)

lemma grant_taken:
  assumes "pool_inv n s" "s_mail s = add_mset (w, g) M"
  shows "sys_inv n 1 (grant_res g) (s\<lparr>s_mail := M\<rparr>)"
  using sys_inv_counts [OF assms(1)] assms(2)
  by (intro sys_invI [OF assms(1)])
    (auto simp: counts_ok_def Let_def channels_def owned_def live_def ac_simps split: if_splits)

lemma holder_added:
  assumes "sys_inv n 1 (holder_res h) s"
  shows "pool_inv n (s\<lparr>s_holders := add_mset h (s_holders s)\<rparr>)"
  using sys_inv_counts [OF assms]
  by (intro sys_invI [OF assms])
    (auto simp: counts_ok_def Let_def channels_def owned_def live_def ac_simps split: if_splits)

lemma acquire_idle_inv:
  assumes inv: "pool_inv n s" and enter: "acquire_enter w (s_pool s) = (AcquireIdle r, p)"
  shows "sys_inv n 1 {#r#} (s\<lparr>s_pool := p\<rparr>)"
proof -
  have "p_idle (s_pool s) \<noteq> []" "\<not> p_closed (s_pool s)"
    using enter by (auto simp: acquire_enter_def split: if_splits)
  moreover from this(1) obtain es x where es: "p_idle (s_pool s) = es @ [x]"
    by (cases "p_idle (s_pool s)" rule: rev_cases) auto
  ultimately have "r = fst x" "p = s_pool s\<lparr>p_idle := es, p_leased := p_leased (s_pool s) + 1\<rparr>"
    "\<not> p_closed (s_pool s)"
    using enter by (simp_all add: acquire_enter_def)
  then show ?thesis
    using sys_inv_counts [OF inv] es
    by (intro sys_invI [OF inv])
      (auto simp: counts_ok_def Let_def channels_def owned_def live_def ac_simps split: if_splits)
qed

lemma acquire_slot_inv:
  assumes inv: "pool_inv n s" and enter: "acquire_enter w (s_pool s) = (AcquireSlot, p)"
  shows "sys_inv n 1 {#} (s\<lparr>s_pool := p\<rparr>)"
proof -
  have "p = s_pool s\<lparr>p_freeSlots := p_freeSlots (s_pool s) - 1, p_leased := p_leased (s_pool s) + 1\<rparr>"
    "\<not> p_closed (s_pool s)" "0 < p_freeSlots (s_pool s)"
    using enter by (auto simp: acquire_enter_def split: if_splits)
  then show ?thesis
    using sys_inv_counts [OF inv]
    by (intro sys_invI [OF inv])
      (auto simp: counts_ok_def Let_def channels_def owned_def live_def ac_simps split: if_splits)
qed

lemma acquire_wait_inv:
  assumes inv: "pool_inv n s" and enter: "acquire_enter (s_next s) (s_pool s) = (AcquireWait w, p)"
  shows "pool_inv n (s\<lparr>s_pool := p, s_next := s_next s + 1\<rparr>)"
proof -
  have p: "p = s_pool s\<lparr>p_waiters := p_waiters (s_pool s) @ [s_next s]\<rparr>"
    "\<not> p_closed (s_pool s)" "p_idle (s_pool s) = []" "p_freeSlots (s_pool s) \<le> 0"
    using enter by (auto simp: acquire_enter_def split: if_splits)
  have "counts_ok n 0 (s\<lparr>s_pool := p, s_next := s_next s + 1\<rparr>)"
    using sys_inv_counts [OF inv] p by (auto simp: counts_ok_def Let_def split: if_splits)
  moreover have "channels_ok (s\<lparr>s_pool := p, s_next := s_next s + 1\<rparr>)"
    unfolding channels_ok_def
  proof
    fix w
    have "count (channels s) w \<le> (if w < s_next s then 1 else 0)"
      using inv by (simp add: sys_inv_def channels_ok_def)
    then show "count (channels (s\<lparr>s_pool := p, s_next := s_next s + 1\<rparr>)) w \<le>
        (if w < s_next (s\<lparr>s_pool := p, s_next := s_next s + 1\<rparr>) then 1 else 0)"
      by (auto simp: channels_def p(1) split: if_splits)
  qed
  moreover have "owned_ok {#} (s\<lparr>s_pool := p, s_next := s_next s + 1\<rparr>)"
    using inv by (simp add: sys_inv_def owned_ok_def owned_def live_def p(1))
  ultimately show ?thesis by (simp add: sys_inv_def)
qed

lemma abandon_queued_inv:
  assumes inv: "pool_inv n s" and w: "w \<in> set (p_waiters (s_pool s))"
  shows "pool_inv n (after (abandon w g now (s_pool s)) s)"
  using sys_inv_counts [OF inv] w
  by (intro sys_invI [OF inv])
    (auto simp: counts_ok_def Let_def abandon_def removeWaiter_def after_def channels_def owned_def live_def
      split: if_splits)

lemma close_inv:
  assumes "pool_inv n s" "close_enter (s_pool s) = (Some idle, p)"
  shows "pool_inv n (s\<lparr>s_pool := p, s_detached := idle\<rparr>)"
  using sys_inv_counts [OF assms(1)] assms(2)
  by (intro sys_invI [OF assms(1)])
    (auto simp: counts_ok_def close_enter_def Let_def channels_def owned_def live_def ac_simps split: if_splits)

lemma pool_step_inv:
  assumes "pool_inv n s" "pool_step s e t"
  shows "pool_inv n t"
  using assms(2)
proof (cases rule: pool_step.cases)
  case (acquire_closed p)
  then show ?thesis using assms(1) by (auto simp: acquire_enter_def split: if_splits)
next
  case (acquire_idle r p)
  then show ?thesis
    using acquire_idle_inv [OF assms(1) acquire_idle(3)] holder_added [of n "Validating r" "s\<lparr>s_pool := p\<rparr>"] by simp
next
  case (acquire_slot p)
  then show ?thesis
    using acquire_slot_inv [OF assms(1) acquire_slot(3)] holder_added [of n Creating "s\<lparr>s_pool := p\<rparr>"] by simp
next
  case (acquire_wait w p)
  then show ?thesis using acquire_wait_inv [OF assms(1)] by simp
next
  case (receive_resource w r M)
  then show ?thesis
    using grant_taken [OF assms(1) receive_resource(3)] holder_added [of n "Validating r" "s\<lparr>s_mail := M\<rparr>"] by simp
next
  case (receive_slot w M)
  then show ?thesis
    using grant_taken [OF assms(1) receive_slot(3)] holder_added [of n Creating "s\<lparr>s_mail := M\<rparr>"] by simp
next
  case (validated r H)
  then show ?thesis
    using holder_released [OF assms(1) validated(3)] holder_added [of n "Leased r" "s\<lparr>s_holders := H\<rparr>"] by simp
next
  case (invalid r H p sent)
  then show ?thesis
    using holder_released [OF assms(1) invalid(3)]
      return_slot_section [OF invalid(4) sys_inv_pool_ok [OF assms(1)], of "[r]"]
    by (auto intro: after_inv)
next
  case (created H r)
  have own: "owned (s\<lparr>s_holders := H\<rparr>) = owned s"
    using created(3) by (simp add: owned_def live_def)
  have "owned_ok {#r#} (s\<lparr>s_holders := H\<rparr>)"
    using assms(1) created(4) unfolding sys_inv_def owned_ok_def own by (auto simp: not_in_iff)
  then have "sys_inv n 1 {#r#} (s\<lparr>s_holders := H\<rparr>)"
    using holder_released [OF assms(1) created(3)] by (simp add: sys_inv_def)
  then show ?thesis
    using holder_added [of n "Leased r" "s\<lparr>s_holders := H\<rparr>"] created by simp
next
  case (create_failed H p sent)
  then show ?thesis
    using holder_released [OF assms(1) create_failed(3)]
      return_slot_section [OF create_failed(4) sys_inv_pool_ok [OF assms(1)], of "[]"]
    by (auto intro: after_inv)
next
  case (abandon_queued w now)
  then show ?thesis using abandon_queued_inv [OF assms(1)] by simp
next
  case (abandon_granted w g M now)
  then show ?thesis
    using grant_taken [OF assms(1) abandon_granted(4)] abandon_section [OF sys_inv_pool_ok [OF assms(1)]]
    by (auto intro!: after_inv)
next
  case (release r H now)
  then show ?thesis
    using holder_released [OF assms(1) release(3)] putBack_section [OF sys_inv_pool_ok [OF assms(1)]]
    by (auto intro!: after_inv)
next
  case (discarded r H)
  then show ?thesis
    using holder_released [OF assms(1) discarded(3)] discard_section [OF sys_inv_pool_ok [OF assms(1)]]
    by (auto intro!: after_inv)
next
  case (evict cutoff)
  then show ?thesis
    using evict_section [OF sys_inv_pool_ok [OF assms(1)]] assms(1) by (auto intro!: after_inv)
next
  case (close_again p)
  then show ?thesis using assms(1) by (auto simp: close_enter_def split: if_splits)
next
  case (close_first idle p)
  then show ?thesis using close_inv [OF assms(1)] by simp
next
  case (close_idle r rs)
  then show ?thesis
    using sys_inv_counts [OF assms(1)]
    by (auto simp: counts_ok_def Let_def channels_def owned_def live_def ac_simps split: if_splits
        intro!: sys_invI [OF assms(1)])
next
  case close_timeout
  then show ?thesis
    using sys_inv_counts [OF assms(1)]
    by (auto simp: counts_ok_def Let_def channels_def owned_def live_def ac_simps split: if_splits
        intro!: sys_invI [OF assms(1)])
qed

definition effective_max :: "int \<Rightarrow> int" where
  "effective_max maxSize = (if maxSize \<le> 0 then DefaultMaxSize else maxSize)"

lemma pool_init_inv: "pool_init maxSize s \<Longrightarrow> pool_inv (effective_max maxSize) s"
  by (simp add: pool_init_def effective_max_def pool_New_def Let_def sys_inv_def counts_ok_def channels_ok_def
      owned_ok_def channels_def owned_def live_def DefaultMaxSize_def)

interpretation pool_system: invariant_system "pool_init maxSize" pool_step "pool_inv (effective_max maxSize)"
  for maxSize
  by unfold_locales (auto intro: pool_init_inv pool_step_inv)

lemmas pool_reach = pool_system.reach_inv [unfolded sys_inv_def]

text \<open>Only a closed pool leaves resources behind: no operation opens it again.\<close>

lemma grant_loop_closed: "p_closed (fst (grant_loop p sent)) = p_closed p"
proof (induction p sent rule: grant_loop.induct)
  case (1 p sent)
  then show ?case by (subst grant_loop.simps) (auto split: list.splits)
qed

lemma return_slot_closed: "p_closed (fst (return_slot p)) = p_closed p"
  by (simp add: return_slot_def grantAvailable_def grant_loop_closed)

lemma putBack_closed: "p_closed (fst (putBack r now p)) = p_closed p"
  by (simp add: putBack_def split: list.splits)

lemma discard_closed: "p_closed (fst (discard r p)) = p_closed p"
  using return_slot_closed [of p] by (cases "return_slot p") (simp add: discard_def)

lemma abandon_closed: "p_closed (fst (abandon w g now p)) = p_closed p"
  using return_slot_closed [of p] putBack_closed [of _ now p]
  by (cases "return_slot p"; cases g) (simp_all add: abandon_def removeWaiter_def)

lemma evictExpired_closed: "p_closed (fst (evictExpired cutoff p)) = p_closed p"
  by (simp add: evictExpired_def Let_def grantAvailable_def case_prod_unfold grant_loop_closed)

lemmas sections_closed = return_slot_closed putBack_closed discard_closed abandon_closed evictExpired_closed

lemma after_leaked [simp]: "s_leaked (after res s) = s_leaked s" "s_pool (after res s) = fst res"
  by (simp_all add: after_def split: prod.splits)

lemma leaked_closed:
  assumes "reach (pool_init maxSize) pool_step s"
  shows "p_closed (s_pool s) \<or> s_leaked s = []"
  using assms
proof (induction rule: reach.induct)
  case (reach_init s)
  then show ?case by (simp add: pool_init_def)
next
  case (reach_step s e t)
  have slot: "return_slot (s_pool s) = (p, sent) \<Longrightarrow> p_closed p = p_closed (s_pool s)" for p sent
    using sections_closed(1) [of "s_pool s"] by simp
  from reach_step(2) show ?case
    using reach_step(3)
    by (cases rule: pool_step.cases)
       (auto simp: sections_closed slot acquire_enter_def close_enter_def split: if_splits)
qed

text \<open>A resource that is in one place only and leased is nowhere else.\<close>

definition lease_exclusive :: "'r sys \<Rightarrow> 'r \<Rightarrow> bool" where
  "lease_exclusive s r \<longleftrightarrow> count (s_holders s) (Leased r) = 1 \<and> Validating r \<notin># s_holders s \<and>
     r \<notin> set (map fst (p_idle (s_pool s))) \<and> r \<notin> set (s_detached s) \<and> r \<notin> set (s_closed s) \<and> r \<notin> set (s_leaked s) \<and>
     (\<forall>w. (w, Some r) \<notin># s_mail s)"

lemma one_place_lease:
  assumes one: "count (owned s) r \<le> 1" and "Leased r \<in># s_holders s"
  shows "lease_exclusive s r"
proof -
  obtain H where H: "s_holders s = add_mset (Leased r) H"
    using assms(2) by (meson multi_member_split)
  have z: "count (mset (map fst (p_idle (s_pool s)))) r = 0" "count (\<Sum>x\<in>#s_mail s. grant_res (snd x)) r = 0"
    "count (\<Sum>h\<in>#H. holder_res h) r = 0" "count (mset (s_detached s)) r = 0" "count (mset (s_closed s)) r = 0"
    "count (mset (s_leaked s)) r = 0"
    using one by (simp_all add: owned_def live_def H)
  have "h \<notin># H" if "r \<in># holder_res h" for h
    using z(3) that by (auto simp flip: not_in_iff)
  moreover have "(w, Some r) \<notin># s_mail s" for w
    using z(2) by (force simp flip: not_in_iff)
  moreover have "r \<notin> set (map fst (p_idle (s_pool s)))"
    using z(1) by (metis count_mset_0_iff)
  ultimately show ?thesis
    using z(4-6) H by (simp add: not_in_iff lease_exclusive_def)
qed

section \<open>Properties\<close>

text \<open>A pool of one resource: acquired in a free slot, created, released to idle, then shut down.\<close>

definition sample_sys :: "'r entry list \<Rightarrow> int \<Rightarrow> int \<Rightarrow> bool \<Rightarrow> 'r holder multiset \<Rightarrow> 'r list \<Rightarrow> 'r list \<Rightarrow> 'r sys" where
  "sample_sys idle leased free closed holders detached leaked =
     \<lparr>s_pool = \<lparr>p_maxSize = 1, p_idle = idle, p_leased = leased, p_freeSlots = free, p_waiters = [],
                p_closed = closed\<rparr>, s_mail = {#}, s_holders = holders, s_detached = detached, s_closed = [],
      s_leaked = leaked, s_next = 0\<rparr>"

lemma sample_acquired: "reach (pool_init 1) pool_step (sample_sys [] 1 0 False {#Leased (7 :: nat)#} [] [])"
proof -
  have "reach (pool_init 1) pool_step (sample_sys [] 0 1 False {#} [] [] :: nat sys)"
    by (intro reach_init) (simp add: pool_init_def pool_New_def sample_sys_def)
  moreover have "pool_step (sample_sys [] 0 1 False {#} [] []) EAcquire
      (sample_sys [] 1 0 False {#Creating :: nat holder#} [] [])"
    using acquire_slot [of "sample_sys [] 0 1 False {#} [] []"] by (simp add: sample_sys_def acquire_enter_def)
  moreover have "pool_step (sample_sys [] 1 0 False {#Creating#} [] []) (ECreated 7)
      (sample_sys [] 1 0 False {#Leased (7 :: nat)#} [] [])"
    using created [of "sample_sys [] 1 0 False {#Creating#} [] []" "{#}" 7]
    by (simp add: sample_sys_def owned_def live_def)
  ultimately show ?thesis by (meson reach_step)
qed

lemma sample_timeout: "reach (pool_init 1) pool_step (sample_sys [] 0 0 True {#} [] [7 :: nat])"
proof -
  have "pool_step (sample_sys [] 1 0 False {#Leased (7 :: nat)#} [] []) (ERelease 7)
      (sample_sys [(7, 5)] 0 0 False {#} [] [])"
    using release [of "sample_sys [] 1 0 False {#Leased 7#} [] []" 7 "{#}" 5]
    by (simp add: sample_sys_def putBack_def after_def)
  moreover have "pool_step (sample_sys [(7, 5)] 0 0 False {#} [] []) EClose
      (sample_sys [] 0 0 True {#} [7 :: nat] [])"
    using close_first [of "sample_sys [(7, 5)] 0 0 False {#} [] []"] by (simp add: sample_sys_def close_enter_def)
  moreover have "pool_step (sample_sys [] 0 0 True {#} [7 :: nat] []) ECloseTimeout
      (sample_sys [] 0 0 True {#} [] [7])"
    using close_timeout [of "sample_sys [] 0 0 True {#} [7 :: nat] []"] by (simp add: sample_sys_def)
  ultimately show ?thesis using sample_acquired by (meson reach_step)
qed

text \<open>
  C20. The pool's accounting, in every state that any interleaving of acquires, releases,
  discards, abandoned waits, evictions and shutdown reaches: the lease counter is exactly the number
  of goroutines that hold or are owed a lease, idle and leased resources together never
  exceed the maximum, no counter is negative, and while the pool is open every slot is idle, leased
  or free, so no slot is ever lost.
\<close>

theorem pool_accounting:
  assumes "reach (pool_init maxSize) pool_step s"
  shows "st_Leased (Stats (s_pool s)) = int (size (s_holders s)) + int (size (s_mail s)) \<and>
    st_Open (Stats (s_pool s)) \<le> effective_max maxSize \<and> 0 \<le> p_freeSlots (s_pool s) \<and>
    (p_closed (s_pool s) \<or>
     st_Open (Stats (s_pool s)) + p_freeSlots (s_pool s) = st_MaxSize (Stats (s_pool s))) \<and>
    st_MaxSize (Stats (s_pool s)) = effective_max maxSize"
proof -
  have "counts_ok (effective_max maxSize) 0 s" using pool_reach [OF assms] by simp
  then show ?thesis by (auto simp: counts_ok_def Let_def Stats_def split: if_splits)
qed

theorem pool_accounting_witness:
  "st_Open (Stats (s_pool (sample_sys [] 1 0 False {#Leased (7 :: nat)#} [] []))) \<le> 1"
  using pool_accounting [OF sample_acquired] by (simp add: effective_max_def)

text \<open>
  C22. No lost wakeup: in every reachable state, if a goroutine is queued then there is neither
  an idle resource nor a free slot; and every channel is in use at most once, either queued or
  with one grant in flight, so a send to it never blocks.
\<close>

theorem pool_no_lost_wakeup:
  assumes "reach (pool_init maxSize) pool_step s"
  shows "(p_waiters (s_pool s) = [] \<or> p_idle (s_pool s) = [] \<and> p_freeSlots (s_pool s) = 0) \<and>
    (\<forall>w. count (mset (p_waiters (s_pool s))) w + count (image_mset fst (s_mail s)) w \<le> 1)"
proof -
  have inv: "counts_ok (effective_max maxSize) 0 s" "channels_ok s" using pool_reach [OF assms] by simp_all
  have "count (channels s) w \<le> 1" for w
    using inv(2) unfolding channels_ok_def by (metis le_zero_eq order_refl zero_le_one)
  with inv(1) show ?thesis by (simp add: counts_ok_def Let_def channels_def)
qed

theorem pool_no_lost_wakeup_witness:
  "p_waiters (s_pool (sample_sys [] 1 0 False {#Leased (7 :: nat)#} [] [])) = [] \<or>
   p_freeSlots (s_pool (sample_sys [] 1 0 False {#Leased (7 :: nat)#} [] [])) = 0"
  using pool_no_lost_wakeup [OF sample_acquired] by blast



text \<open>
  Fairness of hand-off: grants go to the longest-waiting goroutines in queue order, and
  \<open>grantAvailable\<close> stops only when no goroutine waits or nothing is left to grant.
\<close>

theorem grants_in_queue_order:
  assumes "grantAvailable p = (p', sent)" "0 \<le> p_freeSlots p"
  shows "p_waiters p = map fst sent @ p_waiters p' \<and>
    (p_waiters p' = [] \<or> p_idle p' = [] \<and> p_freeSlots p' = 0) \<and>
    int (length sent) = min (int (length (p_waiters p))) (int (length (p_idle p)) + p_freeSlots p)"
  using grant_loop_spec [OF assms(1) [unfolded grantAvailable_def] assms(2)] by auto

theorem grants_in_queue_order_witness:
  "\<exists>p' sent. grantAvailable \<lparr>p_maxSize = 3, p_idle = [(7 :: nat, 1)], p_leased = 0, p_freeSlots = 1,
      p_waiters = [4, 5, 6], p_closed = False\<rparr> = (p', sent) \<and> map fst sent = [4, 5] \<and> p_waiters p' = [6]"
proof -
  define p where "p = \<lparr>p_maxSize = 3, p_idle = [(7 :: nat, 1)], p_leased = 0, p_freeSlots = 1,
      p_waiters = [4, 5, 6], p_closed = False\<rparr>"
  obtain p' sent where g: "grantAvailable p = (p', sent)" by (cases "grantAvailable p")
  have "p_waiters p = map fst sent @ p_waiters p'" "int (length sent) = 2"
    using grants_in_queue_order [OF g] by (simp_all add: p_def)
  then have "map fst sent = [4, 5]" "p_waiters p' = [6]"
    by (auto simp: p_def append_eq_Cons_conv Cons_eq_append_conv)
  with g show ?thesis by (simp add: p_def)
qed

text \<open>
  \<open>Close\<close> can lose idle resources: when its context ends before the janitor has stopped,
  the pool reaches a state in which it is shut down, no goroutine holds or waits for anything, and
  a resource that was idle is neither held nor closed.
\<close>

theorem close_can_leak_idle:
  "\<exists>s. reach (pool_init 1) pool_step s \<and> p_closed (s_pool s) \<and> s_holders s = {#} \<and> s_mail s = {#} \<and>
     s_detached s = [] \<and> live s = {#} \<and> (7 :: nat) \<in># owned s \<and> 7 \<notin> set (s_closed s)"
  using sample_timeout by (intro exI conjI) (auto simp: sample_sys_def live_def owned_def)

end
