(* ===== verification/Fastser_Lz4.thy ===== *)
theory Fastser_Lz4
  imports Rfc_Prelude
begin

text \<open>
  Package \<open>fastser\<close>, file \<open>lz4.go\<close>: the LZ4 block decompressor and the compression header.
  The decoding loop keeps the code's index into the source and its output so far; a run length
  with its 255-chains and the byte-at-a-time match copy are loops of their own. The block
  format is specified independently as a list of sequences with an expansion and a serialization;
  the decompressor is shown to invert it, to respect the declared size and to consume its input.
\<close>

unbundle bit_operations_syntax

section \<open>Definitions\<close>

datatype lz4_error = ErrCorruptBlock

definition maxDecompressed :: int where "maxDecompressed = 2 ^ 24"
definition compressionHeaderLen :: nat where "compressionHeaderLen = 8"

text \<open>The \<open>for\<close> loop that extends a run length of 15 (literals and matches share its text).\<close>

function run_length :: "bytes \<Rightarrow> nat \<Rightarrow> nat \<Rightarrow> nat \<Rightarrow> (nat \<times> nat) option" where
  "run_length src want i len =
     (if i \<ge> length src then None
      else let b = src ! i; len' = len + unat b in
        if b \<noteq> 255 then Some (len', i + 1)
        else if len' > want then None
        else run_length src want (i + 1) len')"
  by pat_completeness auto
termination
  by (relation "measure (\<lambda>(src, want, i, len). length src - i)") auto

declare run_length.simps [simp del]

fun copy_match :: "nat \<Rightarrow> nat \<Rightarrow> bytes \<Rightarrow> bytes" where
  "copy_match 0 start dst = dst"
| "copy_match (Suc n) start dst = copy_match n (Suc start) (dst @ [dst ! start])"

text \<open>\<open>token >> 4\<close> and \<open>token & 0x0f\<close>.\<close>

definition high_nibble :: "byte \<Rightarrow> nat" where
  "high_nibble token = unat (drop_bit 4 token)"

definition low_nibble :: "byte \<Rightarrow> nat" where
  "low_nibble token = unat (token AND 0x0f)"

definition extended_length :: "bytes \<Rightarrow> nat \<Rightarrow> nat \<Rightarrow> nat \<Rightarrow> (nat \<times> nat) option" where
  "extended_length src want i nib = (if nib = 15 then run_length src want i 15 else Some (nib, i))"

lemma run_length_progress: "run_length src want i len = Some (n, j) \<Longrightarrow> i < j \<and> j \<le> length src"
proof (induction src want i len rule: run_length.induct)
  case (1 src want i len)
  then show ?case
    by (subst (asm) run_length.simps) (fastforce simp: Let_def split: if_splits)
qed

lemma extended_length_progress:
  "extended_length src want i nib = Some (n, j) \<Longrightarrow> i \<le> length src \<Longrightarrow> i \<le> j \<and> j \<le> length src"
  using run_length_progress by (fastforce simp: extended_length_def split: if_splits)

text \<open>One sequence of the block: the output and the index after it, and whether it was the last.\<close>

definition lz4_sequence :: "bytes \<Rightarrow> nat \<Rightarrow> nat \<Rightarrow> bytes \<Rightarrow> (bool \<times> bytes \<times> nat) option" where
  "lz4_sequence src want i dst =
     (let token = src ! i; i = i + 1 in
      case extended_length src want i (high_nibble token) of
        None \<Rightarrow> None
      | Some (litLen, i) \<Rightarrow>
          if litLen > length src - i \<or> length dst + litLen > want then None
          else let dst = dst @ gslice i (i + litLen) src; i = i + litLen in
            if i = length src then Some (True, dst, i)
            else if i + 2 > length src then None
            else let offset = unat (get16le (drop i src)); i = i + 2 in
              if offset = 0 \<or> offset > length dst then None
              else case extended_length src want i (low_nibble token) of
                None \<Rightarrow> None
              | Some (m, i) \<Rightarrow>
                  let matchLen = m + 4 in
                  if length dst + matchLen > want then None
                  else Some (False, copy_match matchLen (length dst - offset) dst, i))"

lemma lz4_sequence_progress:
  "lz4_sequence src want i dst = Some (fin, dst', j) \<Longrightarrow> i < length src \<Longrightarrow> i < j \<and> j \<le> length src"
  by (fastforce simp: lz4_sequence_def Let_def split: option.splits if_splits dest: extended_length_progress)

function lz4_loop :: "bytes \<Rightarrow> nat \<Rightarrow> nat \<Rightarrow> bytes \<Rightarrow> (bytes \<times> nat) option" where
  "lz4_loop src want i dst =
     (if i < length src then
        (case lz4_sequence src want i dst of
           None \<Rightarrow> None
         | Some (True, dst', i') \<Rightarrow> Some (dst', i')
         | Some (False, dst', i') \<Rightarrow> lz4_loop src want i' dst')
      else Some (dst, i))"
  by pat_completeness auto
termination
  by (relation "measure (\<lambda>(src, want, i, dst). length src - i)")
    (auto dest!: lz4_sequence_progress)

declare lz4_loop.simps [simp del]

definition DecompressBlock :: "bytes \<Rightarrow> int \<Rightarrow> lz4_error + bytes \<times> nat" where
  "DecompressBlock src want =
     (if want < 0 \<or> want > maxDecompressed then Inl ErrCorruptBlock
      else case lz4_loop src (nat want) 0 [] of
        None \<Rightarrow> Inl ErrCorruptBlock
      | Some (dst, i) \<Rightarrow> if int (length dst) \<noteq> want then Inl ErrCorruptBlock else Inr (dst, i))"

record compressed =
  cp_Offset :: nat
  cp_CompressedSize :: nat
  cp_UncompressedSize :: nat
  cp_Data :: bytes

text \<open>The offset of the callers is never negative.\<close>

definition DecodeCompressedAt :: "bytes \<Rightarrow> nat \<Rightarrow> (compressed \<times> nat) option" where
  "DecodeCompressedAt payload off =
     (if off + compressionHeaderLen > length payload then None
      else let uncompressed = unat (get32le (drop off payload));
               compressed = unat (get32le (drop (off + 4) payload)) in
        if compressed \<le> 0 \<or> uncompressed \<le> 0 \<or> compressed > uncompressed \<or>
           int uncompressed > maxDecompressed then None
        else let start = off + compressionHeaderLen in
          if start + compressed > length payload then None
          else case DecompressBlock (gslice start (start + compressed) payload) (int uncompressed) of
            Inl _ \<Rightarrow> None
          | Inr (data, used) \<Rightarrow>
              if used \<noteq> compressed then None
              else Some (\<lparr>cp_Offset = off, cp_CompressedSize = compressed,
                          cp_UncompressedSize = uncompressed, cp_Data = data\<rparr>, start + compressed))"

lemma DecodeCompressedAt_progress:
  "DecodeCompressedAt payload off = Some (c, next) \<Longrightarrow> off < next \<and> next \<le> length payload"
  by (auto simp: DecodeCompressedAt_def Let_def compressionHeaderLen_def split: if_splits sum.splits prod.splits)

function find_compressed_loop :: "bytes \<Rightarrow> nat \<Rightarrow> compressed list" where
  "find_compressed_loop payload i =
     (if i + compressionHeaderLen < length payload then
        (case DecodeCompressedAt payload i of
           None \<Rightarrow> find_compressed_loop payload (i + 1)
         | Some (c, next) \<Rightarrow> c # find_compressed_loop payload next)
      else [])"
  by pat_completeness auto
termination
  by (relation "measure (\<lambda>(payload, i). length payload - i)")
    (auto dest!: DecodeCompressedAt_progress)

declare find_compressed_loop.simps [simp del]

definition FindCompressed :: "bytes \<Rightarrow> compressed list" where
  "FindCompressed payload = find_compressed_loop payload 0"

section \<open>The block format as a specification\<close>

text \<open>A sequence: literals, then a match of at least four bytes at a distance.\<close>

record lz4_seq =
  sq_literals :: bytes
  sq_offset :: nat
  sq_match :: nat

definition expand_seq :: "lz4_seq \<Rightarrow> bytes \<Rightarrow> bytes" where
  "expand_seq q dst = copy_match (sq_match q) (length (dst @ sq_literals q) - sq_offset q) (dst @ sq_literals q)"

fun expand_block :: "lz4_seq list \<Rightarrow> bytes \<Rightarrow> bytes \<Rightarrow> bytes" where
  "expand_block [] lits dst = dst @ lits"
| "expand_block (q # qs) lits dst = expand_block qs lits (expand_seq q dst)"

fun seqs_valid :: "lz4_seq list \<Rightarrow> bytes \<Rightarrow> bool" where
  "seqs_valid [] dst = True"
| "seqs_valid (q # qs) dst \<longleftrightarrow> 4 \<le> sq_match q \<and> 0 < sq_offset q \<and> sq_offset q < 65536 \<and>
     sq_offset q \<le> length dst + length (sq_literals q) \<and> seqs_valid qs (expand_seq q dst)"

text \<open>A run length above 14 is a nibble of 15, bytes of 255 and a last byte below 255.\<close>

definition length_chain :: "nat \<Rightarrow> bytes" where
  "length_chain n = (if n < 15 then [] else replicate ((n - 15) div 255) 255 @ [of_nat ((n - 15) mod 255)])"

definition token_of :: "nat \<Rightarrow> nat \<Rightarrow> byte" where
  "token_of lits m = of_nat (16 * min lits 15 + min m 15)"

definition seq_bytes :: "lz4_seq \<Rightarrow> bytes" where
  "seq_bytes q = token_of (length (sq_literals q)) (sq_match q - 4) # length_chain (length (sq_literals q)) @
     sq_literals q @ put16le (of_nat (sq_offset q)) @ length_chain (sq_match q - 4)"

definition last_bytes :: "bytes \<Rightarrow> bytes" where
  "last_bytes lits = token_of (length lits) 0 # length_chain (length lits) @ lits"

definition block_bytes :: "lz4_seq list \<Rightarrow> bytes \<Rightarrow> bytes" where
  "block_bytes qs lits = concat (map seq_bytes qs) @ last_bytes lits"

section \<open>Match copies\<close>

lemma length_copy_match [simp]: "length (copy_match n start dst) = length dst + n"
  by (induction n start dst rule: copy_match.induct) simp_all

lemma copy_match_prefix: "take (length dst) (copy_match n start dst) = dst"
proof (induction n start dst rule: copy_match.induct)
  case (2 n start dst)
  then have "take (length dst) (take (length (dst @ [dst ! start])) (copy_match n (Suc start) (dst @ [dst ! start]))) = dst"
    by simp
  then show ?case by (simp add: min_def)
qed simp

lemma copy_match_nth:
  assumes "start < length dst" "j < n"
  shows "copy_match n start dst ! (length dst + j) = copy_match n start dst ! (start + j)"
  using assms
proof (induction n start dst arbitrary: j rule: copy_match.induct)
  case (2 n start dst)
  define dst' where "dst' = dst @ [dst ! start]"
  show ?case
  proof (cases j)
    case 0
    have pre: "take (length dst') (copy_match n (Suc start) dst') = dst'" by (rule copy_match_prefix)
    have "copy_match n (Suc start) dst' ! length dst = dst' ! length dst"
      using pre by (metis dst'_def length_append_singleton lessI nth_take)
    moreover have "copy_match n (Suc start) dst' ! start = dst' ! start"
      using pre "2.prems"(1) by (metis dst'_def length_append_singleton less_SucI nth_take)
    ultimately show ?thesis using 0 "2.prems"(1) by (simp add: dst'_def nth_append)
  next
    case (Suc j')
    have "copy_match n (Suc start) dst' ! (length dst' + j') = copy_match n (Suc start) dst' ! (Suc start + j')"
      using "2.IH" [of j'] "2.prems" Suc by (simp add: dst'_def)
    then show ?thesis using Suc by (simp add: dst'_def)
  qed
qed simp

text \<open>The copied bytes repeat the last \<open>offset\<close> bytes, whether or not the match overlaps itself.\<close>

lemma copy_match_periodic:
  assumes "0 < offset" "offset \<le> length dst" "j < n"
  shows "copy_match n (length dst - offset) dst ! (length dst + j) = dst ! (length dst - offset + j mod offset)"
  using assms(3)
proof (induction j rule: less_induct)
  case (less j)
  define r where "r = copy_match n (length dst - offset) dst"
  have step: "r ! (length dst + j) = r ! (length dst - offset + j)"
    unfolding r_def using assms less.prems by (intro copy_match_nth) auto
  show ?case
  proof (cases "j < offset")
    case True
    have "r ! (length dst - offset + j) = take (length dst) r ! (length dst - offset + j)"
      using True assms by simp
    then show ?thesis using True step copy_match_prefix by (simp add: r_def)
  next
    case False
    then have "length dst - offset + j = length dst + (j - offset)" using assms by simp
    moreover have "r ! (length dst + (j - offset)) = dst ! (length dst - offset + (j - offset) mod offset)"
      using less.IH [of "j - offset"] less.prems False assms by (simp add: r_def)
    ultimately show ?thesis using step False by (simp add: r_def mod_if [of j offset] le_mod_geq)
  qed
qed

section \<open>Run lengths\<close>

lemma unat_byte: "n < 256 \<Longrightarrow> unat (of_nat n :: byte) = n"
  by (simp add: unat_of_nat take_bit_nat_eq_self)

lemma run_length_chain:
  assumes "m < 255" "len + 255 * k \<le> want" "src = pre @ replicate k 255 @ [of_nat m] @ rest"
  shows "run_length src want (length pre) len = Some (len + 255 * k + m, length pre + k + 1)"
  using assms(2,3)
proof (induction k arbitrary: len pre)
  case 0
  have u: "unat (of_nat m :: byte) = m" using assms(1) by (intro unat_byte) simp
  moreover have "(of_nat m :: byte) \<noteq> 255"
  proof
    assume "(of_nat m :: byte) = 255"
    with u have "m = 255" by simp
    with assms(1) show False by simp
  qed
  ultimately show ?case using 0 by (subst run_length.simps) (simp add: nth_append)
next
  case (Suc k)
  have "run_length src want (length (pre @ [255])) (len + 255) =
      Some (len + 255 + 255 * k + m, length (pre @ [255]) + k + 1)"
    using Suc.prems by (intro Suc.IH) simp_all
  then show ?case
    using Suc.prems by (subst run_length.simps) (simp add: nth_append)
qed

lemma length_chain_long: "15 \<le> n \<Longrightarrow> length_chain n = replicate ((n - 15) div 255) 255 @ [of_nat ((n - 15) mod 255)]"
  by (simp add: length_chain_def)

lemma extended_length_chain:
  assumes "n \<le> want" "src = pre @ length_chain n @ rest"
  shows "extended_length src want (length pre) (min n 15) = Some (n, length (pre @ length_chain n))"
proof (cases "n < 15")
  case True
  then show ?thesis by (simp add: extended_length_def length_chain_def)
next
  case False
  define k m where "k = (n - 15) div 255" and "m = (n - 15) mod 255"
  have n: "15 + 255 * k + m = n" using False by (simp add: k_def m_def)
  have m: "m < 255" by (simp add: m_def)
  have "run_length src want (length pre) 15 = Some (15 + 255 * k + m, length pre + k + 1)"
  proof (rule run_length_chain [OF m])
    show "15 + 255 * k \<le> want" using n assms(1) by linarith
    show "src = pre @ replicate k 255 @ [of_nat m] @ rest"
      using assms(2) False by (simp add: length_chain_long k_def m_def)
  qed
  moreover have "length (pre @ length_chain n) = length pre + k + 1"
    using False by (simp add: length_chain_long k_def)
  ultimately show ?thesis
    unfolding n using False by (simp add: extended_length_def min_def)
qed

lemma token_nibbles:
  "high_nibble (token_of a b) = min a 15" "low_nibble (token_of a b) = min b 15"
proof -
  define h l where "h = min a 15" and "l = min b 15"
  have hl: "h < 16" "l < 16" by (simp_all add: h_def l_def)
  then have v: "unat (of_nat (16 * h + l) :: byte) = 16 * h + l"
    by (intro unat_byte) simp
  have "unat (drop_bit 4 x :: byte) = unat x div 16" for x
    unfolding unat_drop_bit_eq by (simp add: drop_bit_eq_div)
  then show "high_nibble (token_of a b) = min a 15"
    using v hl by (simp add: high_nibble_def token_of_def h_def [symmetric] l_def [symmetric])
  have "n AND 15 = n mod 16" for n :: nat
    using take_bit_eq_mask [of 4 n] take_bit_eq_mod [of 4 n] by (simp add: mask_eq_exp_minus_1)
  then have "unat (x AND 0x0f :: byte) = unat x mod 16" for x
    by (simp add: unsigned_and_eq)
  then show "low_nibble (token_of a b) = min b 15"
    using v hl by (simp add: low_nibble_def token_of_def h_def [symmetric] l_def [symmetric])
qed

section \<open>Sequences and blocks\<close>

lemma get16le_offset: "n < 65536 \<Longrightarrow> unat (get16le (put16le (of_nat n) @ rest)) = n"
  by (simp add: unat_of_nat take_bit_nat_eq_self)

lemma sequence_last:
  assumes "length dst + length lits \<le> want" "src = pre @ last_bytes lits"
  shows "lz4_sequence src want (length pre) dst = Some (True, dst @ lits, length src)"
proof -
  have src: "src = (pre @ [token_of (length lits) 0]) @ length_chain (length lits) @ lits"
    using assms(2) by (simp add: last_bytes_def)
  have tok: "src ! length pre = token_of (length lits) 0" by (simp add: src nth_append)
  have "extended_length src want (length pre + 1) (high_nibble (src ! length pre)) =
      Some (length lits, length pre + 1 + length (length_chain (length lits)))"
    using extended_length_chain [OF _ src] assms(1) by (simp add: tok token_nibbles)
  moreover have "gslice (length pre + 1 + length (length_chain (length lits)))
      (length pre + 1 + length (length_chain (length lits)) + length lits) src = lits"
    by (simp add: src gslice_def)
  moreover have "length src = length pre + 1 + length (length_chain (length lits)) + length lits"
    by (simp add: src)
  ultimately show ?thesis
    using assms(1) by (simp add: lz4_sequence_def Let_def)
qed

lemma sequence_match:
  assumes q: "4 \<le> sq_match q" "0 < sq_offset q" "sq_offset q < 65536"
      "sq_offset q \<le> length dst + length (sq_literals q)"
    and want: "length (expand_seq q dst) \<le> want" and src: "src = pre @ seq_bytes q @ rest"
  shows "lz4_sequence src want (length pre) dst = Some (False, expand_seq q dst, length (pre @ seq_bytes q))"
proof -
  define lits m where "lits = sq_literals q" and "m = sq_match q - 4"
  define c1 c2 where "c1 = length_chain (length lits)" and "c2 = length_chain m"
  define tok where "tok = token_of (length lits) m"
  have len: "length dst + length lits + (m + 4) \<le> want"
    using want q(1) by (simp add: expand_seq_def lits_def m_def)
  have sb: "seq_bytes q = tok # c1 @ lits @ put16le (of_nat (sq_offset q)) @ c2"
    by (simp add: seq_bytes_def tok_def lits_def m_def c1_def c2_def)
  define i1 where "i1 = length pre + 1 + length c1"
  define i2 where "i2 = i1 + length lits"
  have t: "src ! length pre = tok" by (simp add: src sb nth_append)
  have e1: "extended_length src want (length pre + 1) (high_nibble tok) = Some (length lits, i1)"
    using extended_length_chain [of "length lits" want src "pre @ [tok]"
        "lits @ put16le (of_nat (sq_offset q)) @ c2 @ rest"] len
    by (simp add: src sb tok_def token_nibbles c1_def i1_def)
  have e2: "extended_length src want (i2 + 2) (low_nibble tok) = Some (m, length (pre @ seq_bytes q))"
    using extended_length_chain [of m want src "pre @ [tok] @ c1 @ lits @ put16le (of_nat (sq_offset q))" rest] len
    by (simp add: src sb tok_def token_nibbles c2_def i1_def i2_def add.assoc)
  have ls: "gslice i1 i2 src = lits" "\<not> length lits > length src - i1"
    by (simp_all add: src sb gslice_def i1_def i2_def)
  have more: "i2 \<noteq> length src" "\<not> i2 + 2 > length src"
    by (simp_all add: src sb i1_def i2_def)
  have d: "drop i2 src = put16le (of_nat (sq_offset q)) @ c2 @ rest"
    by (simp add: src sb i1_def i2_def)
  have off: "unat (get16le (drop i2 src)) = sq_offset q"
    unfolding d by (rule get16le_offset [OF q(3)])
  show ?thesis
    using len q ls(2) more off e1 e2
    by (simp add: lz4_sequence_def Let_def t ls(1) i2_def [symmetric] lits_def [symmetric])
      (simp add: expand_seq_def lits_def m_def)
qed

lemma length_expand_block: "length dst \<le> length (expand_block qs lits dst)"
proof (induction qs arbitrary: dst)
  case (Cons q qs)
  have "length dst \<le> length (expand_seq q dst)" by (simp add: expand_seq_def)
  then show ?case using Cons [of "expand_seq q dst"] by simp
qed simp

lemma lz4_loop_block:
  assumes "seqs_valid qs dst" "length (expand_block qs lits dst) \<le> want" "src = pre @ block_bytes qs lits"
  shows "lz4_loop src want (length pre) dst = Some (expand_block qs lits dst, length src)"
  using assms
proof (induction qs arbitrary: dst pre)
  case Nil
  then have s: "src = pre @ last_bytes lits" by (simp add: block_bytes_def)
  have "lz4_sequence src want (length pre) dst = Some (True, dst @ lits, length src)"
    using Nil.prems(2) by (intro sequence_last [OF _ s]) simp
  moreover have "length pre < length src" by (simp add: s last_bytes_def)
  ultimately show ?case by (subst lz4_loop.simps) simp
next
  case (Cons q qs)
  have s: "src = pre @ seq_bytes q @ block_bytes qs lits"
    using Cons.prems(3) by (simp add: block_bytes_def)
  have "length (expand_seq q dst) \<le> want"
    using Cons.prems(2) length_expand_block [of "expand_seq q dst" qs lits] by simp
  then have "lz4_sequence src want (length pre) dst = Some (False, expand_seq q dst, length (pre @ seq_bytes q))"
    using Cons.prems(1) by (intro sequence_match [OF _ _ _ _ _ s]) simp_all
  moreover have "lz4_loop src want (length (pre @ seq_bytes q)) (expand_seq q dst) =
      Some (expand_block qs lits (expand_seq q dst), length src)"
    using Cons.prems s by (intro Cons.IH) simp_all
  moreover have "length pre < length src" by (simp add: s seq_bytes_def)
  ultimately show ?case by (subst lz4_loop.simps) simp
qed

lemma sequence_bounds:
  assumes "lz4_sequence src want i dst = Some (fin, dst', j)" "i < length src"
  shows "length dst' \<le> want \<and> (fin \<longrightarrow> j = length src) \<and> take (length dst) dst' = dst"
  using assms copy_match_prefix
  by (auto simp: lz4_sequence_def Let_def split: option.splits if_splits)
    (metis copy_match_prefix length_append take_append take_take min.absorb1 le_add1 append_eq_conv_conj)+

lemma lz4_loop_bounds:
  "lz4_loop src want i dst = Some (out, j) \<Longrightarrow> i \<le> length src \<Longrightarrow> length dst \<le> want \<Longrightarrow>
     length out \<le> want \<and> j = length src"
proof (induction src want i dst rule: lz4_loop.induct)
  case (1 src want i dst)
  show ?case
  proof (cases "i < length src")
    case True
    then obtain fin dst' i' where s: "lz4_sequence src want i dst = Some (fin, dst', i')"
      using "1.prems"(1) by (auto simp: lz4_loop.simps [of src want i] split: option.splits)
    note b = sequence_bounds [OF s True] and p = lz4_sequence_progress [OF s True]
    show ?thesis
      using "1.IH" [OF True s] "1.prems"(1) True s b p by (cases fin) (simp_all add: lz4_loop.simps [of src want i])
  next
    case False
    then show ?thesis using "1.prems" by (simp add: lz4_loop.simps [of src want "length src"])
  qed
qed

lemma DecompressBlock_bounds:
  "DecompressBlock src want = Inr (out, used) \<Longrightarrow> int (length out) = want \<and> used = length src \<and> want \<le> maxDecompressed"
  using lz4_loop_bounds [of src "nat want" 0 "[]" out used]
  by (auto simp: DecompressBlock_def split: if_splits option.splits)

section \<open>Properties\<close>

text \<open>
  The decompressor implements the LZ4 block format: the serialization of any valid list of
  sequences (every match at least four bytes, every distance within what was produced, overlapping
  or not, run lengths of any size) followed by final literals decodes to exactly its
  expansion and consumes the whole block, whenever the declared size is the size of the expansion.
\<close>

theorem lz4_block_roundtrip:
  assumes "seqs_valid qs []" "int (length (expand_block qs lits [])) \<le> maxDecompressed"
  shows "DecompressBlock (block_bytes qs lits) (int (length (expand_block qs lits []))) =
    Inr (expand_block qs lits [], length (block_bytes qs lits))"
proof -
  have "lz4_loop (block_bytes qs lits) (length (expand_block qs lits [])) 0 [] =
      Some (expand_block qs lits [], length (block_bytes qs lits))"
    using lz4_loop_block [OF assms(1), of lits _ "block_bytes qs lits" "[]"] by simp
  then show ?thesis
    using assms(2) by (simp add: DecompressBlock_def)
qed

theorem lz4_block_roundtrip_witness:
  "DecompressBlock [0x12, 0x61, 1, 0, 0x10, 0x62] 8 = Inr ([0x61, 0x61, 0x61, 0x61, 0x61, 0x61, 0x61, 0x62], 6)"
proof -
  define q where "q = \<lparr>sq_literals = [0x61], sq_offset = 1, sq_match = 6\<rparr>"
  have e: "expand_block [q] [0x62] [] = [0x61, 0x61, 0x61, 0x61, 0x61, 0x61, 0x61, 0x62]"
    by (simp add: q_def expand_seq_def eval_nat_numeral)
  have b: "block_bytes [q] [0x62] = [0x12, 0x61, 1, 0, 0x10, 0x62]"
    by (simp add: q_def block_bytes_def seq_bytes_def last_bytes_def token_of_def length_chain_def put16le_def)
  show ?thesis
    using lz4_block_roundtrip [of "[q]" "[0x62]"] unfolding e b
    by (simp add: q_def maxDecompressed_def)
qed

text \<open>
  Whatever the input, a successful decompression returns exactly the declared number of
  bytes, at most 16 MiB, and has consumed the whole source; so the consumed count that callers
  compare with the compressed size is never short, and a block that ends right after a match is
  accepted like one that ends in literals.
\<close>

theorem lz4_output_bounds:
  assumes "DecompressBlock src want = Inr (out, used)"
  shows "int (length out) = want \<and> want \<le> maxDecompressed \<and> used = length src"
  using DecompressBlock_bounds [OF assms] by simp

theorem lz4_output_bounds_witness:
  "length [0x61, 0x61, 0x61, 0x61, 0x61 :: byte] = 5 \<and>
   DecompressBlock [0x10, 0x61, 1, 0] 5 = Inr ([0x61, 0x61, 0x61, 0x61, 0x61], 4)"
proof -
  have "DecompressBlock [0x10, 0x61, 1, 0] 5 = Inr ([0x61, 0x61, 0x61, 0x61, 0x61], 4)"
    by code_simp
  then show ?thesis using lz4_output_bounds [of "[0x10, 0x61, 1, 0]" 5] by auto
qed

text \<open>
  The match copy is the periodic extension LZ4 prescribes: it keeps the output so far and
  appends bytes that repeat the last \<open>offset\<close> bytes, also when the match is longer than its
  distance and reads bytes it has just written.
\<close>

theorem lz4_match_is_periodic:
  assumes "0 < offset" "offset \<le> length dst"
  shows "copy_match n (length dst - offset) dst =
    dst @ map (\<lambda>j. dst ! (length dst - offset + j mod offset)) [0..<n]"
proof (rule nth_equalityI)
  fix i assume i: "i < length (copy_match n (length dst - offset) dst)"
  show "copy_match n (length dst - offset) dst ! i =
      (dst @ map (\<lambda>j. dst ! (length dst - offset + j mod offset)) [0..<n]) ! i"
  proof (cases "i < length dst")
    case True
    then show ?thesis
      by (metis copy_match_prefix nth_append nth_take)
  next
    case False
    then have "i - length dst < n" using i by simp
    then show ?thesis
      using copy_match_periodic [OF assms, of "i - length dst" n] False by (simp add: nth_append)
  qed
qed simp

theorem lz4_match_is_periodic_witness: "copy_match 5 1 [7, 8, 9] = [7, 8, 9, 8, 9, 8, 9, 8]"
  using lz4_match_is_periodic [of 2 "[7, 8, 9]" 5] by (simp add: eval_nat_numeral)

text \<open>
  A located block is what the header declares: \<open>DecodeCompressedAt\<close> returns a block only
  inside the payload, with the declared sizes, the declared number of output bytes, and the offset
  right after the block.
\<close>

theorem decode_compressed_at_sound:
  assumes "DecodeCompressedAt payload off = Some (c, next)"
  shows "next = off + 8 + cp_CompressedSize c \<and> next \<le> length payload \<and> cp_Offset c = off \<and>
    length (cp_Data c) = cp_UncompressedSize c \<and> cp_CompressedSize c \<le> cp_UncompressedSize c \<and>
    cp_UncompressedSize c = unat (get32le (drop off payload)) \<and>
    DecompressBlock (gslice (off + 8) next payload) (int (cp_UncompressedSize c)) = Inr (cp_Data c, cp_CompressedSize c)"
  using assms
  by (auto simp: DecodeCompressedAt_def Let_def compressionHeaderLen_def dest: DecompressBlock_bounds
      simp del: of_nat_unat split: if_splits sum.splits prod.splits)

theorem decode_compressed_at_sound_witness:
  "\<exists>c. DecodeCompressedAt [9, 5, 0, 0, 0, 4, 0, 0, 0, 0x10, 0x61, 1, 0, 7] 1 = Some (c, 13) \<and>
     length (cp_Data c) = cp_UncompressedSize c"
proof -
  have d: "DecodeCompressedAt [9, 5, 0, 0, 0, 4, 0, 0, 0, 0x10, 0x61, 1, 0, 7] 1 =
      Some (\<lparr>cp_Offset = 1, cp_CompressedSize = 4, cp_UncompressedSize = 5,
             cp_Data = [0x61, 0x61, 0x61, 0x61, 0x61]\<rparr>, 13)"
    by code_simp
  then show ?thesis using decode_compressed_at_sound [OF d] by blast
qed

end
