(* ===== verification/Fastser_Records.thy ===== *)
theory Fastser_Records
  imports Rfc_Prelude
begin

text \<open>
  Package \<open>fastser\<close>, files \<open>fastser.go\<close>, \<open>record.go\<close>, \<open>fields.go\<close> and
  \<open>container.go\<close>: the character fields, the tagged records with their six framings, the
  parameter announcements and the transport items. A function of the code that returns
  \<open>ok = false\<close> returns \<open>None\<close>; offsets are indices into the payload as in the code. The lemmas give
  the round trips of the encoders and of the layouts the code only reads, and the progress
  and coverage of the scanning loops.
\<close>

unbundle bit_operations_syntax

section \<open>Records\<close>

definition TagPadded :: byte where "TagPadded = 0x30"
definition TagChar :: byte where "TagChar = 0x43"
definition TagEnd :: byte where "TagEnd = 0x45"
definition TagInt4 :: byte where "TagInt4 = 0x4e"
definition TagDescriptor :: byte where "TagDescriptor = 0x50"
definition TagString :: byte where "TagString = 0x53"
definition charFlag :: byte where "charFlag = 0x80"
definition stringLengthFlag :: u16 where "stringLengthFlag = 0xC000"
definition maxMetadataGap :: nat where "maxMetadataGap = 64"

lemmas tag_defs = TagPadded_def TagChar_def TagEnd_def TagInt4_def TagDescriptor_def TagString_def

definition typeDescriptorPrefix :: bytes where
  "typeDescriptorPrefix = [0x5c, 0x54, 0x59, 0x50, 0x45, 0x3d]"

datatype framing = framingLen1 | framingLen1Flag | framingLen2BE | framingFixed4 | framingNone | framingString

definition tagFraming :: "byte \<Rightarrow> framing option" where
  "tagFraming tag = map_of
     [(TagDescriptor, framingLen1), (TagChar, framingLen1Flag), (TagPadded, framingLen2BE),
      (TagInt4, framingFixed4), (TagEnd, framingNone), (TagString, framingString)] tag"

record fs_record =
  rc_Offset :: nat
  rc_Tag :: byte
  rc_Value :: bytes

definition has_prefix :: "bytes \<Rightarrow> bytes \<Rightarrow> bool" where
  "has_prefix xs p \<longleftrightarrow> take (length p) xs = p"

definition IsTypeDescriptor :: "fs_record \<Rightarrow> bool" where
  "IsTypeDescriptor r \<longleftrightarrow> rc_Tag r = TagDescriptor \<and> has_prefix (rc_Value r) typeDescriptorPrefix"

definition TypeName :: "fs_record \<Rightarrow> gostring option" where
  "TypeName r =
     (if \<not> IsTypeDescriptor r then None else Some (drop (length typeDescriptorPrefix) (rc_Value r)))"

text \<open>The \<open>switch\<close> on the framing: where the value starts and how long it is.\<close>

definition record_extent :: "bytes \<Rightarrow> nat \<Rightarrow> framing \<Rightarrow> (nat \<times> nat) option" where
  "record_extent payload off f =
     (case f of
        framingNone \<Rightarrow> None
      | framingFixed4 \<Rightarrow> Some (off + 1, 4)
      | framingLen1 \<Rightarrow>
          if off + 1 \<ge> length payload then None else Some (off + 2, unat (payload ! (off + 1)))
      | framingLen1Flag \<Rightarrow>
          if off + 2 \<ge> length payload \<or> payload ! (off + 2) \<noteq> charFlag then None
          else Some (off + 3, unat (payload ! (off + 1)))
      | framingLen2BE \<Rightarrow>
          if off + 2 \<ge> length payload then None
          else Some (off + 3, unat (get16be (drop (off + 1) payload)))
      | framingString \<Rightarrow>
          if off + 4 \<ge> length payload then None
          else let flagged = get16le (drop (off + 1) payload); plain = get16le (drop (off + 3) payload) in
            if flagged \<noteq> plain OR stringLengthFlag then None else Some (off + 5, unat plain))"

definition decodeRecordAt :: "bytes \<Rightarrow> nat \<Rightarrow> (fs_record \<times> nat) option" where
  "decodeRecordAt payload off =
     (if off \<ge> length payload then None
      else let tag = payload ! off in
        case tagFraming tag of
          None \<Rightarrow> None
        | Some framingNone \<Rightarrow> Some (\<lparr>rc_Offset = off, rc_Tag = tag, rc_Value = []\<rparr>, off + 1)
        | Some f \<Rightarrow>
            (case record_extent payload off f of
               None \<Rightarrow> None
             | Some (start, len) \<Rightarrow>
                 if len = 0 \<or> start + len > length payload then None
                 else Some (\<lparr>rc_Offset = off, rc_Tag = tag, rc_Value = gslice start (start + len) payload\<rparr>,
                            start + len)))"

lemma record_extent_start: "record_extent payload off f = Some (start, len) \<Longrightarrow> off < start"
  by (auto simp: record_extent_def Let_def split: framing.splits if_splits)

lemma decodeRecordAt_progress:
  "decodeRecordAt payload off = Some (r, next) \<Longrightarrow> off < next \<and> next \<le> length payload"
  by (auto simp: decodeRecordAt_def Let_def split: option.splits framing.splits if_splits prod.splits
      dest!: record_extent_start)

function DecodeRecordsFrom :: "bytes \<Rightarrow> nat \<Rightarrow> fs_record list \<times> nat" where
  "DecodeRecordsFrom payload off =
     (if off < length payload then
        (case decodeRecordAt payload off of
           None \<Rightarrow> ([], off)
         | Some (r, after) \<Rightarrow>
             (case DecodeRecordsFrom payload after of (recs, next) \<Rightarrow> (r # recs, next)))
      else ([], off))"
  by pat_completeness auto
termination
  by (relation "measure (\<lambda>(payload, off). length payload - off)") (auto dest!: decodeRecordAt_progress)

declare DecodeRecordsFrom.simps [simp del]

definition DecodeRecords :: "bytes \<Rightarrow> fs_record list \<times> nat" where
  "DecodeRecords payload = DecodeRecordsFrom payload 0"

definition descriptorAt :: "bytes \<Rightarrow> nat \<Rightarrow> (fs_record \<times> nat) option" where
  "descriptorAt payload off =
     (case decodeRecordAt payload off of
        None \<Rightarrow> None
      | Some (r, next) \<Rightarrow> if IsTypeDescriptor r then Some (r, next) else None)"

definition FindTypeDescriptors :: "bytes \<Rightarrow> fs_record list" where
  "FindTypeDescriptors payload =
     map fst (List.map_filter (descriptorAt payload)
       [0..<Suc (length payload) - (length typeDescriptorPrefix + 2)])"

record typed_field =
  tf_TypeName :: gostring
  tf_FieldName :: gostring
  tf_Value :: "fs_record option"

text \<open>The inner loop: the first value record the code accepts in \<open>[j, limit)\<close>.\<close>

function find_value :: "bytes \<Rightarrow> nat \<Rightarrow> nat \<Rightarrow> fs_record option" where
  "find_value payload limit j =
     (if j < limit then
        (case decodeRecordAt payload j of
           None \<Rightarrow> find_value payload limit (j + 1)
         | Some (r, next) \<Rightarrow>
             if rc_Tag r = TagChar \<or> rc_Tag r = TagString \<or>
                (rc_Tag r = TagInt4 \<and> next < length payload \<and> payload ! next = TagEnd)
             then Some r
             else find_value payload limit (j + 1))
      else None)"
  by pat_completeness auto
termination
  by (relation "measure (\<lambda>(payload, limit, j). limit - j)") auto

declare find_value.simps [simp del]

lemma descriptorAt_progress:
  "descriptorAt payload off = Some (r, next) \<Longrightarrow> off < next \<and> next \<le> length payload"
  by (auto simp: descriptorAt_def split: option.splits if_splits dest!: decodeRecordAt_progress)

function typed_loop :: "bytes \<Rightarrow> nat \<Rightarrow> typed_field list" where
  "typed_loop payload i =
     (if i < length payload then
        (case descriptorAt payload i of
           None \<Rightarrow> typed_loop payload (i + 1)
         | Some (desc, after) \<Rightarrow>
             \<lparr>tf_TypeName = (case TypeName desc of Some n \<Rightarrow> n | None \<Rightarrow> []), tf_FieldName = [],
              tf_Value = find_value payload (min (after + maxMetadataGap) (length payload)) after\<rparr>
             # typed_loop payload after)
      else [])"
  by pat_completeness auto
termination
  by (relation "measure (\<lambda>(payload, i). length payload - i)") (auto dest!: descriptorAt_progress)

declare typed_loop.simps [simp del]

text \<open>\<open>HasValue\<close> is whether the value is there.\<close>

definition DecodeTypedFields :: "bytes \<Rightarrow> typed_field list" where
  "DecodeTypedFields payload = typed_loop payload 0"

definition isPlainName :: "bytes \<Rightarrow> bool" where
  "isPlainName b \<longleftrightarrow> length b \<noteq> 0 \<and>
     list_all (\<lambda>c. (0x41 \<le> c \<and> c \<le> 0x5a) \<or> (0x30 \<le> c \<and> c \<le> 0x39) \<or> c = 0x5f \<or> c = 0x2f) b"

definition EncodeRecord :: "byte \<Rightarrow> bytes \<Rightarrow> bytes option" where
  "EncodeRecord tag v =
     (case tagFraming tag of
        None \<Rightarrow> None
      | Some framingNone \<Rightarrow> if length v = 0 then Some [tag] else None
      | Some framingFixed4 \<Rightarrow> if length v \<noteq> 4 then None else Some (tag # v)
      | Some framingLen1 \<Rightarrow>
          if length v = 0 \<or> length v > 0xff then None else Some ([tag, of_nat (length v)] @ v)
      | Some framingLen1Flag \<Rightarrow>
          if length v = 0 \<or> length v > 0xff then None else Some ([tag, of_nat (length v), charFlag] @ v)
      | Some framingLen2BE \<Rightarrow>
          if length v = 0 \<or> length v > 0xffff then None
          else Some ([tag, of_nat (length v div 256), of_nat (length v)] @ v)
      | Some framingString \<Rightarrow> None)"

section \<open>Character fields\<close>

function DecodeCharFields_loop :: "bytes \<Rightarrow> nat \<Rightarrow> bytes list" where
  "DecodeCharFields_loop payload i =
     (if i + 3 \<le> length payload then
        (if payload ! i = TagChar \<and> payload ! (i + 2) = charFlag \<and> unat (payload ! (i + 1)) > 0 \<and>
            i + 3 + unat (payload ! (i + 1)) \<le> length payload
         then let n = unat (payload ! (i + 1)) in
           gslice (i + 3) (i + 3 + n) payload # DecodeCharFields_loop payload (i + 3 + n)
         else DecodeCharFields_loop payload (i + 1))
      else [])"
  by pat_completeness auto
termination
  by (relation "measure (\<lambda>(payload, i). length payload - i)") auto

declare DecodeCharFields_loop.simps [simp del]

definition DecodeCharFields :: "bytes \<Rightarrow> bytes list" where
  "DecodeCharFields payload = DecodeCharFields_loop payload 0"

definition EncodeCharField :: "bytes \<Rightarrow> bytes" where
  "EncodeCharField v =
     (let v = (if length v > 0xff then take 0xff v else v)
      in [TagChar, of_nat (length v), charFlag] @ v)"

section \<open>Parameter announcements\<close>

definition TypeChar :: byte where "TypeChar = 0x06"
definition TypeRaw :: byte where "TypeRaw = 0x17"
definition parameterHeader :: byte where "parameterHeader = 0x44"

definition widthParameterised :: "byte \<Rightarrow> bool" where
  "widthParameterised c \<longleftrightarrow> c \<in> {TypeChar, TypeRaw}"

text \<open>\<open>Width\<close> and \<open>HasWidth\<close> of a field are an option.\<close>

record fs_field =
  fe_TypeCode :: byte
  fe_Width :: "u16 option"
  fe_Name :: gostring

record fs_parameter =
  pa_TypeName :: gostring
  pa_Fields :: "fs_field list"
  pa_Offset :: nat

definition Generated :: "fs_parameter \<Rightarrow> bool" where
  "Generated p \<longleftrightarrow> has_prefix (pa_TypeName p) [0x25, 0x5f, 0x54]"

definition decode_field_entry :: "bytes \<Rightarrow> nat \<Rightarrow> (fs_field \<times> nat) option" where
  "decode_field_entry payload i =
     (if i \<ge> length payload then None
      else let code = payload ! i; i = i + 1 in
        if widthParameterised code \<and> i + 1 \<ge> length payload then None
        else let width = (if widthParameterised code then Some (get16le (drop i payload)) else None);
                 i = (if widthParameterised code then i + 2 else i) in
          if i \<ge> length payload then None
          else let nameLen = unat (payload ! i); i = i + 1 in
            if nameLen = 0 \<or> i + nameLen > length payload then None
            else let raw = gslice i (i + nameLen) payload in
              if \<not> isPlainName raw then None
              else Some (\<lparr>fe_TypeCode = code, fe_Width = width, fe_Name = raw\<rparr>, i + nameLen))"

fun decode_field_entries :: "bytes \<Rightarrow> nat \<Rightarrow> nat \<Rightarrow> (fs_field list \<times> nat) option" where
  "decode_field_entries payload 0 i = Some ([], i)"
| "decode_field_entries payload (Suc n) i =
     (case decode_field_entry payload i of
        None \<Rightarrow> None
      | Some (f, i') \<Rightarrow>
          (case decode_field_entries payload n i' of
             None \<Rightarrow> None
           | Some (fs, i'') \<Rightarrow> Some (f # fs, i'')))"

definition DecodeParameter :: "bytes \<Rightarrow> nat \<Rightarrow> (fs_parameter \<times> nat) option" where
  "DecodeParameter payload off =
     (if off + 1 \<ge> length payload \<or> payload ! off \<noteq> parameterHeader then None
      else let count = unat (payload ! (off + 1)) in
        case decodeRecordAt payload (off + 2) of
          None \<Rightarrow> None
        | Some (desc, after) \<Rightarrow>
            if \<not> IsTypeDescriptor desc then None
            else (case decode_field_entries payload count after of
                None \<Rightarrow> None
              | Some (fs, i) \<Rightarrow>
                  if length fs \<noteq> count then None
                  else Some (\<lparr>pa_TypeName = (case TypeName desc of Some n \<Rightarrow> n | None \<Rightarrow> []),
                              pa_Fields = fs, pa_Offset = off\<rparr>, i)))"

lemma decode_field_entry_progress:
  "decode_field_entry payload i = Some (f, j) \<Longrightarrow> i < j \<and> j \<le> length payload"
  by (auto simp: decode_field_entry_def Let_def split: if_splits)

lemma decode_field_entries_progress:
  "decode_field_entries payload n i = Some (fs, j) \<Longrightarrow> i \<le> length payload \<Longrightarrow> i \<le> j \<and> j \<le> length payload \<and> length fs = n"
  by (induction n arbitrary: i fs)
    (fastforce split: option.splits dest!: decode_field_entry_progress)+

lemma DecodeParameter_progress:
  "DecodeParameter payload off = Some (p, next) \<Longrightarrow> off < next \<and> next \<le> length payload"
  by (fastforce simp: DecodeParameter_def Let_def split: if_splits option.splits
      dest!: decodeRecordAt_progress decode_field_entries_progress)

function decode_parameters_loop :: "bytes \<Rightarrow> nat \<Rightarrow> fs_parameter list" where
  "decode_parameters_loop payload i =
     (if i + 2 < length payload then
        (case DecodeParameter payload i of
           None \<Rightarrow> decode_parameters_loop payload (i + 1)
         | Some (p, next) \<Rightarrow> p # decode_parameters_loop payload next)
      else [])"
  by pat_completeness auto
termination
  by (relation "measure (\<lambda>(payload, i). length payload - i)") (auto dest!: DecodeParameter_progress)

declare decode_parameters_loop.simps [simp del]

definition DecodeParameters :: "bytes \<Rightarrow> fs_parameter list" where
  "DecodeParameters payload = decode_parameters_loop payload 0"

section \<open>Transport items\<close>

record fs_item =
  it_ID :: u16
  it_Data :: bytes
  it_Offset :: nat

definition DecodeItemAt :: "bytes \<Rightarrow> nat \<Rightarrow> (fs_item \<times> nat) option" where
  "DecodeItemAt payload off =
     (if off + 4 > length payload then None
      else let id = get16be (drop off payload); len = unat (get16be (drop (off + 2) payload));
               end = off + 4 + len in
        if end + 2 > length payload then None
        else if get16be (drop end payload) \<noteq> id then None
        else Some (\<lparr>it_ID = id, it_Data = gslice (off + 4) end payload, it_Offset = off\<rparr>, end + 2))"

lemma DecodeItemAt_progress:
  "DecodeItemAt payload off = Some (it, next) \<Longrightarrow> off < next \<and> next \<le> length payload"
  by (auto simp: DecodeItemAt_def Let_def split: if_splits)

function DecodeItems :: "bytes \<Rightarrow> nat \<Rightarrow> fs_item list \<times> nat" where
  "DecodeItems payload off =
     (if off < length payload then
        (case DecodeItemAt payload off of
           None \<Rightarrow> ([], off)
         | Some (it, after) \<Rightarrow>
             (case DecodeItems payload after of (items, next) \<Rightarrow> (it # items, next)))
      else ([], off))"
  by pat_completeness auto
termination
  by (relation "measure (\<lambda>(payload, off). length payload - off)") (auto dest!: DecodeItemAt_progress)

declare DecodeItems.simps [simp del]

function find_items_loop :: "bytes \<Rightarrow> nat \<Rightarrow> fs_item list" where
  "find_items_loop payload i =
     (if i + 6 \<le> length payload then
        (case DecodeItemAt payload i of
           None \<Rightarrow> find_items_loop payload (i + 1)
         | Some (it, next) \<Rightarrow> it # find_items_loop payload next)
      else [])"
  by pat_completeness auto
termination
  by (relation "measure (\<lambda>(payload, i). length payload - i)") (auto dest!: DecodeItemAt_progress)

declare find_items_loop.simps [simp del]

definition FindItems :: "bytes \<Rightarrow> fs_item list" where
  "FindItems payload = find_items_loop payload 0"


section \<open>The scanning loops\<close>

text \<open>
  What the walks share: \<open>at\<close> decodes one segment at an offset, \<open>layout\<close> is a segment's
  encoding, \<open>view\<close> what the decoder returns for it at an offset. The law is the round trip of one
  segment at any place of a payload.
\<close>

fun placed :: "(nat \<Rightarrow> 'b \<Rightarrow> 'a) \<Rightarrow> ('b \<Rightarrow> bytes) \<Rightarrow> nat \<Rightarrow> 'b list \<Rightarrow> 'a list" where
  "placed view layout off [] = []"
| "placed view layout off (x # xs) = view off x # placed view layout (off + length (layout x)) xs"

lemma map_placed: "(\<And>off x. f (view off x) = g x) \<Longrightarrow> map f (placed view layout off xs) = map g xs"
  by (induction xs arbitrary: off) simp_all

locale segment_decoder =
  fixes at :: "bytes \<Rightarrow> nat \<Rightarrow> ('a \<times> nat) option"
    and valid :: "'b \<Rightarrow> bool"
    and layout :: "'b \<Rightarrow> bytes"
    and view :: "nat \<Rightarrow> 'b \<Rightarrow> 'a"
  assumes at_layout: "valid x \<Longrightarrow> at (pre @ layout x @ rest) (length pre) =
            Some (view (length pre) x, length pre + length (layout x))"

locale contiguous_walk = segment_decoder at valid layout view
  for at :: "bytes \<Rightarrow> nat \<Rightarrow> ('a \<times> nat) option" and valid :: "'b \<Rightarrow> bool"
    and layout :: "'b \<Rightarrow> bytes" and view :: "nat \<Rightarrow> 'b \<Rightarrow> 'a" +
  fixes walk :: "bytes \<Rightarrow> nat \<Rightarrow> 'a list \<times> nat"
  assumes layout_ne: "valid x \<Longrightarrow> layout x \<noteq> []"
    and walk_eq: "walk p off = (if off < length p then
           (case at p off of None \<Rightarrow> ([], off) | Some (r, after) \<Rightarrow>
             (case walk p after of (rs, next) \<Rightarrow> (r # rs, next)))
         else ([], off))"
begin

text \<open>The walk reads every valid segment and stops at the first byte that begins none.\<close>

lemma walk_layouts:
  assumes "list_all valid xs"
    and "rest = [] \<or> at (pre @ concat (map layout xs) @ rest) (length pre + length (concat (map layout xs))) = None"
  shows "walk (pre @ concat (map layout xs) @ rest) (length pre) =
     (placed view layout (length pre) xs, length pre + length (concat (map layout xs)))"
  using assms
proof (induction xs arbitrary: pre)
  case Nil
  then show ?case by (subst walk_eq) auto
next
  case (Cons x xs)
  have "at (pre @ layout x @ concat (map layout xs) @ rest) (length pre) =
      Some (view (length pre) x, length pre + length (layout x))"
    using Cons.prems by (intro at_layout) simp
  moreover have "walk ((pre @ layout x) @ concat (map layout xs) @ rest) (length (pre @ layout x)) =
      (placed view layout (length (pre @ layout x)) xs,
       length (pre @ layout x) + length (concat (map layout xs)))"
    using Cons.prems by (intro Cons.IH) (auto simp: add.assoc)
  ultimately show ?case
    using Cons.prems layout_ne [of x] by (subst walk_eq) (simp add: add.assoc)
qed

end

text \<open>A scan that steps over bytes where no segment starts, down to a shortest segment.\<close>

locale skipping_scan = segment_decoder at valid layout view
  for at :: "bytes \<Rightarrow> nat \<Rightarrow> ('a \<times> nat) option" and valid :: "'b \<Rightarrow> bool"
    and layout :: "'b \<Rightarrow> bytes" and view :: "nat \<Rightarrow> 'b \<Rightarrow> 'a" +
  fixes scan :: "bytes \<Rightarrow> nat \<Rightarrow> 'a list" and shortest :: nat
  assumes layout_len: "valid x \<Longrightarrow> shortest \<le> length (layout x)"
    and shortest_pos: "0 < shortest"
    and scan_eq: "scan p i = (if i + shortest \<le> length p then
           (case at p i of None \<Rightarrow> scan p (i + 1) | Some (r, next) \<Rightarrow> r # scan p next)
         else [])"
begin

lemma scan_layouts:
  "list_all valid xs \<Longrightarrow> scan (pre @ concat (map layout xs) @ rest) (length pre) =
     placed view layout (length pre) xs @
     scan (pre @ concat (map layout xs) @ rest) (length pre + length (concat (map layout xs)))"
proof (induction xs arbitrary: pre)
  case (Cons x xs)
  have "at (pre @ layout x @ concat (map layout xs) @ rest) (length pre) =
      Some (view (length pre) x, length pre + length (layout x))"
    using Cons.prems by (intro at_layout) simp
  moreover have "scan ((pre @ layout x) @ concat (map layout xs) @ rest) (length (pre @ layout x)) =
      placed view layout (length (pre @ layout x)) xs @
      scan ((pre @ layout x) @ concat (map layout xs) @ rest)
        (length (pre @ layout x) + length (concat (map layout xs)))"
    using Cons.prems by (intro Cons.IH) simp
  ultimately show ?case
    using Cons.prems layout_len [of x] by (subst scan_eq) (simp add: add.assoc)
qed simp

lemma scan_exact:
  "list_all valid xs \<Longrightarrow> scan (pre @ concat (map layout xs)) (length pre) = placed view layout (length pre) xs"
  using scan_layouts [of xs pre "[]"] shortest_pos
  by (simp add: scan_eq [of _ "length pre + length (concat (map layout xs))"])

end

section \<open>Records: round trip and exactness\<close>

type_synonym tagged = "byte \<times> bytes"

definition record_bytes :: "tagged \<Rightarrow> bytes" where
  "record_bytes x = (case EncodeRecord (fst x) (snd x) of Some b \<Rightarrow> b | None \<Rightarrow> [])"

definition encodable :: "tagged \<Rightarrow> bool" where
  "encodable x \<longleftrightarrow> EncodeRecord (fst x) (snd x) \<noteq> None"

definition record_view :: "nat \<Rightarrow> tagged \<Rightarrow> fs_record" where
  "record_view off x = \<lparr>rc_Offset = off, rc_Tag = fst x, rc_Value = snd x\<rparr>"

lemma nth_after_prefix: "(pre @ ys) ! (length pre + k) = ys ! k"
  by (simp add: nth_append)

lemma drop_after_prefix: "drop (length pre + k) (pre @ ys) = drop k ys"
  by simp

lemma gslice_after_prefix: "gslice (length pre + a) (length pre + b) (pre @ ys) = gslice a b ys"
  by (simp add: gslice_def)

lemmas after_prefix = nth_after_prefix drop_after_prefix gslice_after_prefix

lemma tagFraming_cases:
  "tagFraming t = Some f \<longleftrightarrow>
     t = TagDescriptor \<and> f = framingLen1 \<or> t = TagChar \<and> f = framingLen1Flag \<or>
     t = TagPadded \<and> f = framingLen2BE \<or> t = TagInt4 \<and> f = framingFixed4 \<or>
     t = TagEnd \<and> f = framingNone \<or> t = TagString \<and> f = framingString"
  by (auto simp: tagFraming_def tag_defs)

lemma unat_byte_of_length: "n \<le> 0xff \<Longrightarrow> unat (of_nat n :: byte) = n"
  by (simp add: unat_of_nat)

lemma get16be_length: "get16be (of_nat (n div 256) # of_nat n # r) = of_nat n"
proof -
  have "n div 256 = drop_bit 8 n"
    by (simp add: drop_bit_eq_div)
  then have "put16be (of_nat n) = [of_nat (n div 256), of_nat n]"
    by (auto simp: put16be_def bit_simps bit_of_nat_iff intro!: bit_word_eqI)
  then show ?thesis
    using get16be_put16be [of "of_nat n" r] by simp
qed

lemma take_add_Cons3: "take (3 + n) (a # b # c # xs) = a # b # c # take n xs"
  by (simp add: numeral_3_eq_3)

lemmas record_codec = take_add_Cons3 encodable_def record_bytes_def EncodeRecord_def decodeRecordAt_def record_extent_def
  record_view_def nth_append gslice_def unat_byte_of_length get16be_length unat_of_nat Let_def

lemma decodeRecordAt_encoded:
  assumes "encodable x"
  shows "decodeRecordAt (pre @ record_bytes x @ rest) (length pre) =
     Some (record_view (length pre) x, length pre + length (record_bytes x))"
proof -
  obtain t v where x: "x = (t, v)" by (cases x)
  with assms obtain f where f: "tagFraming t = Some f"
    by (auto simp: encodable_def EncodeRecord_def split: option.splits)
  show ?thesis
    using assms f by (cases f) (auto simp: x record_codec simp del: get16be.simps split: if_splits)
qed

text \<open>What the decoder accepts, the string framing aside, is what the encoder writes.\<close>

lemma get16be_nat: "length b = 2 \<Longrightarrow> n = unat (get16be b) \<Longrightarrow> [of_nat (n div 256), of_nat n] = b"
  using get16be_length [of n "[]"] put16be_get16be [of b] put16be_get16be [of "[of_nat (n div 256), of_nat n]"]
  by (simp del: get16be.simps)

lemma unat_byte_le: "unat (b :: byte) \<le> 255"
  using unsigned_less [of b, where ?'a = nat] by simp

lemma unat_u16_le: "unat (v :: u16) \<le> 65535"
  using unsigned_less [of v, where ?'a = nat] by simp

lemma unat_numeral_word: "unat (n :: byte) = numeral k \<Longrightarrow> n = numeral k"
  by (metis of_nat_numeral of_nat_unat ucast_id)

lemma decodeRecordAt_exact:
  assumes dec: "decodeRecordAt (pre @ ys) (length pre) = Some (r, next)" and "rc_Tag r \<noteq> TagString"
  shows "EncodeRecord (rc_Tag r) (rc_Value r) = Some (take (next - length pre) ys)"
proof -
  obtain t zs where ys: "ys = t # zs"
    using dec by (cases ys) (auto simp: decodeRecordAt_def)
  obtain f where f: "tagFraming t = Some f"
    using dec by (auto simp: ys decodeRecordAt_def nth_append Let_def split: option.splits)
  show ?thesis
  proof (cases f)
    case framingLen1
    then obtain n vs where "zs = n # vs" using dec f
      by (cases zs) (auto simp: ys record_codec split: if_splits)
    then show ?thesis using dec f framingLen1 unat_byte_le [of n]
      by (auto simp: ys record_codec split: if_splits dest: unat_numeral_word)
  next
    case framingLen1Flag
    then obtain n fl vs where "zs = n # fl # vs" using dec f
      by (cases zs rule: remdups_adj.cases) (auto simp: ys record_codec split: if_splits)
    then show ?thesis using dec f framingLen1Flag unat_byte_le [of n]
      by (auto simp: ys record_codec split: if_splits dest: unat_numeral_word)
  next
    case framingLen2BE
    then obtain a b vs where zs: "zs = a # b # vs" using dec f
      by (cases zs rule: remdups_adj.cases) (auto simp: ys record_codec split: if_splits)
    define n where "n = unat (get16be [a, b])"
    have n: "unat (get16be (a # b # vs)) = n" by (simp add: n_def)
    have ab: "of_nat (n div 256) = a" "of_nat n = b" "n \<le> 65535"
      using get16be_nat [of "[a, b]" n] unat_u16_le by (simp_all add: n_def)
    have "r = \<lparr>rc_Offset = length pre, rc_Tag = t, rc_Value = take n vs\<rparr>" "next = length pre + 3 + n"
      "n \<le> length vs" "0 < n"
      using dec f framingLen2BE n
      by (simp_all add: ys zs record_codec del: get16be.simps split: if_splits)
    then show ?thesis using f framingLen2BE ab
      by (simp add: ys zs EncodeRecord_def take_add_Cons3 min_absorb2)
  next
    case framingFixed4
    then show ?thesis using dec f
      by (auto simp: ys record_codec split: if_splits)
  next
    case framingNone
    then show ?thesis using dec f by (auto simp: ys record_codec)
  next
    case framingString
    then show ?thesis using dec f assms(2)
      by (auto simp: ys record_codec tagFraming_cases split: if_splits)
  qed
qed

lemma record_bytes_ne: "encodable x \<Longrightarrow> record_bytes x \<noteq> []"
  by (auto simp: encodable_def record_bytes_def EncodeRecord_def split: option.splits framing.splits if_splits)

interpretation records: contiguous_walk decodeRecordAt encodable record_bytes record_view DecodeRecordsFrom
  by unfold_locales
    (assumption | erule decodeRecordAt_encoded record_bytes_ne | rule DecodeRecordsFrom.simps)+

section \<open>Character fields: round trip\<close>

definition char_at :: "bytes \<Rightarrow> nat \<Rightarrow> (bytes \<times> nat) option" where
  "char_at payload i =
     (if payload ! i = TagChar \<and> payload ! (i + 2) = charFlag \<and> unat (payload ! (i + 1)) > 0 \<and>
         i + 3 + unat (payload ! (i + 1)) \<le> length payload
      then let n = unat (payload ! (i + 1)) in Some (gslice (i + 3) (i + 3 + n) payload, i + 3 + n)
      else None)"

definition char_value :: "bytes \<Rightarrow> bool" where
  "char_value v \<longleftrightarrow> v \<noteq> [] \<and> length v \<le> 0xff"

lemma char_at_encoded:
  "char_value v \<Longrightarrow> char_at (pre @ EncodeCharField v @ rest) (length pre) =
     Some (v, length pre + length (EncodeCharField v))"
  by (simp add: char_at_def char_value_def EncodeCharField_def nth_append unat_byte_of_length gslice_def
      Suc_le_eq)

interpretation chars: skipping_scan char_at char_value EncodeCharField "\<lambda>_ v. v" DecodeCharFields_loop 3
proof unfold_locales
  show "DecodeCharFields_loop p i = (if i + 3 \<le> length p then
      (case char_at p i of None \<Rightarrow> DecodeCharFields_loop p (i + 1)
       | Some (r, next) \<Rightarrow> r # DecodeCharFields_loop p next) else [])" for p i
    by (subst DecodeCharFields_loop.simps) (simp add: char_at_def Let_def)
qed (simp_all add: char_at_encoded, simp add: EncodeCharField_def)

section \<open>Items: round trip\<close>

definition item_bytes :: "u16 \<times> bytes \<Rightarrow> bytes" where
  "item_bytes x = put16be (fst x) @ put16be (of_nat (length (snd x))) @ snd x @ put16be (fst x)"

definition item_valid :: "u16 \<times> bytes \<Rightarrow> bool" where
  "item_valid x \<longleftrightarrow> length (snd x) \<le> 0xffff"

definition item_view :: "nat \<Rightarrow> u16 \<times> bytes \<Rightarrow> fs_item" where
  "item_view off x = \<lparr>it_ID = fst x, it_Data = snd x, it_Offset = off\<rparr>"

lemma DecodeItemAt_encoded:
  assumes "item_valid x"
  shows "DecodeItemAt (pre @ item_bytes x @ rest) (length pre) =
     Some (item_view (length pre) x, length pre + length (item_bytes x))"
proof -
  have len: "unat (of_nat (length (snd x)) :: u16) = length (snd x)"
    using assms by (simp add: item_valid_def unat_of_nat)
  show ?thesis
    by (simp add: DecodeItemAt_def item_bytes_def item_view_def Let_def len gslice_def)
qed

lemma item_bytes_len: "item_valid x \<Longrightarrow> 6 \<le> length (item_bytes x)"
  by (simp add: item_bytes_def)

lemma item_bytes_ne: "item_valid x \<Longrightarrow> item_bytes x \<noteq> []"
  using item_bytes_len [of x] by auto

interpretation items: contiguous_walk DecodeItemAt item_valid item_bytes item_view DecodeItems
  by unfold_locales (erule DecodeItemAt_encoded item_bytes_ne | rule DecodeItems.simps)+

interpretation item_scan: skipping_scan DecodeItemAt item_valid item_bytes item_view find_items_loop 6
  by unfold_locales (erule DecodeItemAt_encoded item_bytes_len | rule find_items_loop.simps | simp)+

section \<open>Parameter announcements: round trip\<close>

definition entry_bytes :: "fs_field \<Rightarrow> bytes" where
  "entry_bytes f = fe_TypeCode f # (case fe_Width f of Some w \<Rightarrow> put16le w | None \<Rightarrow> []) @
     of_nat (length (fe_Name f)) # fe_Name f"

definition entry_valid :: "fs_field \<Rightarrow> bool" where
  "entry_valid f \<longleftrightarrow> (fe_Width f \<noteq> None) = widthParameterised (fe_TypeCode f) \<and>
     isPlainName (fe_Name f) \<and> length (fe_Name f) \<le> 0xff"

lemma decode_field_entry_encoded:
  assumes "entry_valid f"
  shows "decode_field_entry (pre @ entry_bytes f @ rest) (length pre) =
     Some (f, length pre + length (entry_bytes f))"
proof -
  have ne: "fe_Name f \<noteq> []" using assms by (auto simp: entry_valid_def isPlainName_def)
  show ?thesis
  proof (cases "fe_Width f")
    case None
    then show ?thesis using assms ne
      by (simp add: decode_field_entry_def entry_valid_def entry_bytes_def nth_append Let_def
          unat_byte_of_length gslice_def)
  next
    case (Some w)
    have w: "get16le (ucast w # ucast (drop_bit 8 w) # r) = w" for r
      using get16le_put16le [of w r] by (simp add: put16le_def)
    show ?thesis using assms ne Some
      by (simp add: decode_field_entry_def entry_valid_def entry_bytes_def nth_append Let_def
          unat_byte_of_length gslice_def put16le_def w del: get16le.simps)
  qed
qed

lemma decode_field_entries_encoded:
  "list_all entry_valid fs \<Longrightarrow>
     decode_field_entries (pre @ concat (map entry_bytes fs) @ rest) (length fs) (length pre) =
     Some (fs, length pre + length (concat (map entry_bytes fs)))"
proof (induction fs arbitrary: pre)
  case (Cons f fs)
  then show ?case
    using decode_field_entry_encoded [of f pre "concat (map entry_bytes fs) @ rest"]
      Cons.IH [of "pre @ entry_bytes f"]
    by (simp add: add.assoc)
qed simp

type_synonym announcement = "gostring \<times> fs_field list"

definition announce_bytes :: "announcement \<Rightarrow> bytes" where
  "announce_bytes x = parameterHeader # of_nat (length (snd x)) #
     record_bytes (TagDescriptor, typeDescriptorPrefix @ fst x) @ concat (map entry_bytes (snd x))"

definition announce_valid :: "announcement \<Rightarrow> bool" where
  "announce_valid x \<longleftrightarrow> length (snd x) \<le> 0xff \<and> length (fst x) \<le> 249 \<and> list_all entry_valid (snd x)"

definition announce_view :: "nat \<Rightarrow> announcement \<Rightarrow> fs_parameter" where
  "announce_view off x = \<lparr>pa_TypeName = fst x, pa_Fields = snd x, pa_Offset = off\<rparr>"

lemma descriptor_encodable: "length n \<le> 249 \<Longrightarrow> encodable (TagDescriptor, typeDescriptorPrefix @ n)"
  by (simp add: encodable_def EncodeRecord_def tagFraming_def typeDescriptorPrefix_def)

lemma DecodeParameter_encoded:
  assumes "announce_valid x"
  shows "DecodeParameter (pre @ announce_bytes x @ rest) (length pre) =
     Some (announce_view (length pre) x, length pre + length (announce_bytes x))"
proof -
  define d where "d = (TagDescriptor, typeDescriptorPrefix @ fst x)"
  define es where "es = concat (map entry_bytes (snd x))"
  define c :: byte where "c = of_nat (length (snd x))"
  define hd where "hd = pre @ [parameterHeader, c]"
  have p: "pre @ announce_bytes x @ rest = hd @ record_bytes d @ es @ rest"
    by (simp add: announce_bytes_def hd_def d_def es_def c_def)
  have c: "unat c = length (snd x)"
    using assms by (simp add: announce_valid_def c_def unat_byte_of_length)
  have desc: "decodeRecordAt (hd @ record_bytes d @ es @ rest) (length hd) =
      Some (record_view (length hd) d, length hd + length (record_bytes d))"
    using assms by (intro decodeRecordAt_encoded) (simp add: d_def announce_valid_def descriptor_encodable)
  have ent: "decode_field_entries ((hd @ record_bytes d) @ es @ rest) (length (snd x)) (length (hd @ record_bytes d)) =
      Some (snd x, length (hd @ record_bytes d) + length es)"
    unfolding es_def by (rule decode_field_entries_encoded) (use assms in \<open>simp add: announce_valid_def\<close>)
  have ty: "IsTypeDescriptor (record_view (length hd) d)" "TypeName (record_view (length hd) d) = Some (fst x)"
    by (simp_all add: IsTypeDescriptor_def TypeName_def record_view_def d_def has_prefix_def)
  have hd: "length hd = length pre + 2" "(hd @ zs) ! length pre = parameterHeader"
    "(hd @ zs) ! (length pre + 1) = c" for zs
    by (simp_all add: hd_def nth_append)
  show ?thesis
    unfolding p using desc ent ty hd
    by (simp add: DecodeParameter_def c Let_def announce_view_def)
      (simp add: announce_bytes_def d_def es_def)
qed

interpretation announcements: skipping_scan DecodeParameter announce_valid announce_bytes announce_view
  decode_parameters_loop 3
proof unfold_locales
  show "decode_parameters_loop p i = (if i + 3 \<le> length p then
      (case DecodeParameter p i of None \<Rightarrow> decode_parameters_loop p (i + 1)
       | Some (r, next) \<Rightarrow> r # decode_parameters_loop p next) else [])" for p i
    by (subst decode_parameters_loop.simps) (simp add: less_eq_Suc_le numeral_3_eq_3)
  show "announce_valid x \<Longrightarrow> 3 \<le> length (announce_bytes x)" for x
    using record_bytes_ne [OF descriptor_encodable, of "fst x"]
    by (cases "record_bytes (TagDescriptor, typeDescriptorPrefix @ fst x)")
      (auto simp: announce_bytes_def announce_valid_def)
qed (auto simp: DecodeParameter_encoded)

section \<open>Properties\<close>

lemma decodeRecordAt_slice:
  assumes "decodeRecordAt p off = Some (r, next)" "rc_Tag r \<noteq> TagString"
  shows "EncodeRecord (rc_Tag r) (rc_Value r) = Some (gslice off next p)"
proof -
  have "off \<le> length p" using decodeRecordAt_progress [OF assms(1)] by simp
  then show ?thesis
    using decodeRecordAt_exact [of "take off p" "drop off p" r "next"] assms
    by (simp add: gslice_def min_absorb2)
qed

lemma DecodeRecordsFrom_covers:
  "DecodeRecordsFrom p off = (rs, n) \<Longrightarrow> off \<le> length p \<Longrightarrow> list_all (\<lambda>r. rc_Tag r \<noteq> TagString) rs \<Longrightarrow>
     off \<le> n \<and> n \<le> length p \<and>
     concat (map (\<lambda>r. record_bytes (rc_Tag r, rc_Value r)) rs) = gslice off n p"
proof (induction p off arbitrary: rs n rule: DecodeRecordsFrom.induct)
  case (1 p off)
  show ?case
  proof (cases "decodeRecordAt p off")
    case None
    then show ?thesis using "1.prems" by (subst (asm) DecodeRecordsFrom.simps) (auto simp: gslice_def split: if_splits)
  next
    case (Some ra)
    obtain r after where ra: "ra = (r, after)" by (cases ra)
    note prog = decodeRecordAt_progress [OF Some [unfolded ra]]
    obtain rs' where rs': "rs = r # rs'" "DecodeRecordsFrom p after = (rs', n)"
      using "1.prems"(1) Some ra prog by (subst (asm) DecodeRecordsFrom.simps) (auto split: prod.splits)
    have ih: "after \<le> n \<and> n \<le> length p \<and>
        concat (map (\<lambda>r. record_bytes (rc_Tag r, rc_Value r)) rs') = gslice after n p"
      using "1.IH" [OF _ Some ra [symmetric] rs'(2)] ra prog "1.prems"(3) rs'(1) by auto
    have "record_bytes (rc_Tag r, rc_Value r) = gslice off after p"
      using decodeRecordAt_slice [OF Some [unfolded ra]] "1.prems"(3) rs'(1) by (simp add: record_bytes_def)
    moreover have "gslice off after p @ gslice after n p = gslice off n p"
    proof -
      have eqs: "drop after p = drop (after - off) (drop off p)" "n - off = (after - off) + (n - after)"
        using prog ih by simp_all
      show ?thesis by (simp only: gslice_def eqs(1)) (simp only: eqs(2) take_add)
    qed
    ultimately show ?thesis using ih prog rs' by auto
  qed
qed

text \<open>
  A payload of records the encoder writes, of any tags it can frame and in any order, followed by
  nothing or by a byte that is no tag, is read back by \<open>DecodeRecords\<close> record for record, each
  with the offset of its tag, and the coverage count is exactly the length of the encoded records.
\<close>

theorem record_stream_roundtrip:
  assumes "list_all encodable xs" and "rest = [] \<or> tagFraming (hd rest) = None"
  shows "DecodeRecords (concat (map record_bytes xs) @ rest) =
     (placed record_view record_bytes 0 xs, length (concat (map record_bytes xs)))"
proof -
  have "rest = [] \<or> decodeRecordAt ([] @ concat (map record_bytes xs) @ rest)
      (length ([] :: bytes) + length (concat (map record_bytes xs))) = None"
    using assms(2) by (cases rest) (auto simp: decodeRecordAt_def nth_append Let_def)
  from records.walk_layouts [OF assms(1) this] show ?thesis
    by (simp add: DecodeRecords_def)
qed

theorem record_stream_roundtrip_witness:
  "DecodeRecords (concat (map record_bytes [(0x4e, [1, 0, 0, 0]), (0x45, []), (0x43, [0x41, 0x42])]) @ [7]) =
     (placed record_view record_bytes 0 [(0x4e, [1, 0, 0, 0]), (0x45, []), (0x43, [0x41, 0x42])], 11)"
  using record_stream_roundtrip [of "[(0x4e, [1, 0, 0, 0]), (0x45, []), (0x43, [0x41, 0x42])]" "[7]"]
  by (simp add: encodable_def record_bytes_def EncodeRecord_def tagFraming_def tag_defs)

text \<open>
  The coverage count is honest: when the records read contain no string record, encoding
  them again gives exactly the first \<open>covered\<close> bytes of the payload, so nothing was skipped,
  duplicated or taken from outside the payload.
\<close>

theorem decoded_records_cover:
  assumes "DecodeRecords p = (rs, covered)" and "list_all (\<lambda>r. rc_Tag r \<noteq> TagString) rs"
  shows "covered \<le> length p \<and> concat (map (\<lambda>r. record_bytes (rc_Tag r, rc_Value r)) rs) = take covered p"
  using DecodeRecordsFrom_covers [of p 0 rs covered] assms by (simp add: DecodeRecords_def gslice_def)

theorem decoded_records_cover_witness:
  "concat (map (\<lambda>r. record_bytes (rc_Tag r, rc_Value r))
      [\<lparr>rc_Offset = 0, rc_Tag = 0x43, rc_Value = [0x41]\<rparr>, \<lparr>rc_Offset = 4, rc_Tag = 0x45, rc_Value = []\<rparr>]) =
   take 5 [0x43, 1, 0x80, 0x41, 0x45, 0xff]"
proof -
  have "DecodeRecords [0x43, 1, 0x80, 0x41, 0x45, 0xff] =
     ([\<lparr>rc_Offset = 0, rc_Tag = 0x43, rc_Value = [0x41]\<rparr>, \<lparr>rc_Offset = 4, rc_Tag = 0x45, rc_Value = []\<rparr>], 5)"
    by code_simp
  from decoded_records_cover [OF this] show ?thesis by (simp add: tag_defs)
qed

text \<open>
  A stream of transport items is read back item for item by both walkers, each item with its offset:
  \<open>DecodeItems\<close> ends exactly at the end, and the skipping \<open>FindItems\<close> never takes a closing
  identifier for the start of another item, whatever bytes the items carry.
\<close>

theorem item_stream_roundtrip:
  assumes "list_all item_valid xs"
  shows "DecodeItems (concat (map item_bytes xs)) 0 =
      (placed item_view item_bytes 0 xs, length (concat (map item_bytes xs))) \<and>
    FindItems (concat (map item_bytes xs)) = placed item_view item_bytes 0 xs"
  using items.walk_layouts [OF assms, of "[]" "[]"] item_scan.scan_exact [OF assms, of "[]"]
  by (simp add: FindItems_def)

theorem item_stream_roundtrip_witness:
  "FindItems (concat (map item_bytes [(0x5001, [0x50, 0x01]), (0x0130, [9])])) =
     [\<lparr>it_ID = 0x5001, it_Data = [0x50, 0x01], it_Offset = 0\<rparr>, \<lparr>it_ID = 0x0130, it_Data = [9], it_Offset = 8\<rparr>]"
  using item_stream_roundtrip [of "[(0x5001, [0x50, 0x01]), (0x0130, [9])]"]
  by (simp add: item_valid_def item_view_def item_bytes_def)

text \<open>
  Parameter announcements are read back exactly: for type names of at most 249 bytes and at most 255
  plainly named fields, with a width where the type code carries one, \<open>DecodeParameters\<close> returns each
  announced type with its fields in order, and the scan is not misled by the bytes of names or widths.
\<close>

theorem parameter_stream_roundtrip:
  assumes "list_all announce_valid xs"
  shows "DecodeParameters (concat (map announce_bytes xs)) = placed announce_view announce_bytes 0 xs"
  using announcements.scan_exact [OF assms, of "[]"] by (simp add: DecodeParameters_def)

theorem parameter_stream_roundtrip_witness:
  "DecodeParameters (concat (map announce_bytes
      [([0x49], [\<lparr>fe_TypeCode = 3, fe_Width = None, fe_Name = [0x4e]\<rparr>]),
       ([0x43], [\<lparr>fe_TypeCode = 6, fe_Width = Some 60, fe_Name = [0x44, 0x50]\<rparr>])])) =
   placed announce_view announce_bytes 0
      [([0x49], [\<lparr>fe_TypeCode = 3, fe_Width = None, fe_Name = [0x4e]\<rparr>]),
       ([0x43], [\<lparr>fe_TypeCode = 6, fe_Width = Some 60, fe_Name = [0x44, 0x50]\<rparr>])]"
  by (rule parameter_stream_roundtrip)
    (simp add: announce_valid_def entry_valid_def widthParameterised_def TypeChar_def TypeRaw_def isPlainName_def)

text \<open>
  Character fields: every sequence of non-empty values of at most 255 bytes is recovered in order
  from the concatenation of its encodings, whatever bytes the values hold, while a longer value is
  shortened to its first 255 bytes and an empty one is lost.
\<close>

theorem char_fields_roundtrip:
  assumes "list_all char_value vs" and "0xff < length long"
  shows "DecodeCharFields (concat (map EncodeCharField vs)) = vs \<and>
    DecodeCharFields (EncodeCharField long) = [take 0xff long] \<and> DecodeCharFields (EncodeCharField []) = []"
proof (intro conjI)
  have "placed (\<lambda>_ v. v) EncodeCharField 0 vs = vs"
    using map_placed [of id "\<lambda>_ v. v" id EncodeCharField 0 vs] by simp
  then show "DecodeCharFields (concat (map EncodeCharField vs)) = vs"
    using chars.scan_exact [OF assms(1), of "[]"] by (simp add: DecodeCharFields_def)
  have "char_value (take 0xff long)" using assms(2) by (cases long) (auto simp: char_value_def)
  moreover have "EncodeCharField long = EncodeCharField (take 0xff long)"
    using assms(2) by (simp add: EncodeCharField_def)
  ultimately show "DecodeCharFields (EncodeCharField long) = [take 0xff long]"
    using chars.scan_exact [of "[take 0xff long]" "[]"] by (simp add: DecodeCharFields_def)
  show "DecodeCharFields (EncodeCharField []) = []" by code_simp
qed

theorem char_fields_roundtrip_witness:
  "DecodeCharFields (concat (map EncodeCharField [[0x43, 1, 0x80], [0x41]])) = [[0x43, 1, 0x80], [0x41]] \<and>
   DecodeCharFields (EncodeCharField (replicate 300 7)) = [replicate 255 7]"
  using char_fields_roundtrip [of "[[0x43, 1, 0x80], [0x41]]" "replicate 300 7"]
  by (simp add: char_value_def)

text \<open>The field name of a typed field is never filled in.\<close>

lemma typed_loop_no_name: "f \<in> set (typed_loop p i) \<Longrightarrow> tf_FieldName f = []"
proof (induction p i rule: typed_loop.induct)
  case (1 p i)
  then show ?case
    by (subst (asm) (3) typed_loop.simps) (auto split: if_splits option.splits)
qed

lemma typed_fields_have_no_name: "\<forall>f \<in> set (DecodeTypedFields p). tf_FieldName f = []"
  by (simp add: DecodeTypedFields_def typed_loop_no_name)

end
