(* ===== verification/Gateway.thy ===== *)
theory Gateway
  imports Appc_Header
begin

text \<open>
  Package \<open>gateway\<close> (\<open>internal/gateway/gateway.go\<close>): the fixed 64-byte GW_NORMAL_CLIENT
  record of protocol version 2. \<open>net.ParseIP\<close> is modelled for the addresses that reach it, those
  without a colon, where it reads dotted decimal; \<open>strings.TrimRight\<close> is \<open>trimRightBytes\<close>
  of theory \<open>Appc_Header\<close>. The lemmas show what the encoder accepts and writes, that the decoder inverts it,
  and what every decoded record satisfies.
\<close>

unbundle bit_operations_syntax

section \<open>Constants and data\<close>

definition NormalClientLength :: nat where "NormalClientLength = 64"
definition GwProtocolVersion :: byte where "GwProtocolVersion = 2"
definition NormalClientRequest :: byte where "NormalClientRequest = 3"

definition AcceptInfoErrorInfo :: byte where "AcceptInfoErrorInfo = 0x01"
definition AcceptInfoPing :: byte where "AcceptInfoPing = 0x02"
definition AcceptInfoConnectionExtended :: byte where "AcceptInfoConnectionExtended = 0x08"
definition AcceptInfoCodePage :: byte where "AcceptInfoCodePage = 0x10"
definition AcceptInfoExtendedInitOptions :: byte where "AcceptInfoExtendedInitOptions = 0x40"
definition AcceptInfoDistributedTrace :: byte where "AcceptInfoDistributedTrace = 0x80"

datatype gateway_error = GwErrRange | GwErrUnsupported | GwErrMalformed | GwWire wire_error

record normal_client_record =
  nc_Address :: gostring
  nc_Service :: gostring
  nc_CodePage :: gostring
  nc_GatewayOptionLevel :: byte
  nc_LogicalUnit :: gostring
  nc_TransactionProgram :: gostring
  nc_ConversationID :: gostring
  nc_AppcHeaderVersion :: byte
  nc_AcceptInfo :: byte
  nc_Index :: int
  nc_ReturnCode :: u32
  nc_EchoData :: byte

section \<open>Dotted decimal\<close>

definition digit_byte :: "byte \<Rightarrow> bool" where
  "digit_byte b \<longleftrightarrow> 0x30 \<le> b \<and> b \<le> 0x39"

text \<open>\<open>^\d{4}$\<close>\<close>

definition codePagePattern :: "gostring \<Rightarrow> bool" where
  "codePagePattern s \<longleftrightarrow> length s = 4 \<and> list_all digit_byte s"

fun split_on :: "byte \<Rightarrow> gostring \<Rightarrow> gostring list" where
  "split_on sep [] = [[]]"
| "split_on sep (b # bs) =
     (if b = sep then [] # split_on sep bs
      else case split_on sep bs of f # fs \<Rightarrow> (b # f) # fs | [] \<Rightarrow> [[b]])"

definition parse_octet :: "gostring \<Rightarrow> nat option" where
  "parse_octet ds =
     (if ds = [] \<or> \<not> list_all digit_byte ds \<or> (length ds > 1 \<and> hd ds = 0x30) then None
      else let v = foldl (\<lambda>v d. v * 10 + (unat d - 48)) 0 ds in if v > 255 then None else Some v)"

definition parse_ipv4 :: "gostring \<Rightarrow> bytes option" where
  "parse_ipv4 s =
     (case map parse_octet (split_on 0x2e s) of
        [Some a, Some b, Some c, Some d] \<Rightarrow> Some [of_nat a, of_nat b, of_nat c, of_nat d]
      | _ \<Rightarrow> None)"

definition encodeIPv4 :: "gostring \<Rightarrow> gateway_error + bytes" where
  "encodeIPv4 address =
     (if 0x3a \<in> set address then Inl GwErrRange
      else case parse_ipv4 address of None \<Rightarrow> Inl GwErrRange | Some ip \<Rightarrow> Inr ip)"

text \<open>\<open>%d\<close> of a byte.\<close>

definition decimal_byte :: "byte \<Rightarrow> gostring" where
  "decimal_byte b =
     (let n = unat b; digit = (\<lambda>d. of_nat (48 + d)) in
      if n < 10 then [digit n]
      else if n < 100 then [digit (n div 10), digit (n mod 10)]
      else [digit (n div 100), digit (n div 10 mod 10), digit (n mod 10)])"

definition decodeIPv4 :: "bytes \<Rightarrow> gostring" where
  "decodeIPv4 data =
     decimal_byte (data ! 0) @ [0x2e] @ decimal_byte (data ! 1) @ [0x2e] @
     decimal_byte (data ! 2) @ [0x2e] @ decimal_byte (data ! 3)"

section \<open>Text fields\<close>

definition isPrintableASCII :: "gostring \<Rightarrow> bool" where
  "isPrintableASCII s \<longleftrightarrow> \<not> list_ex (\<lambda>b. b < 0x20 \<or> b > 0x7e) s"

definition encodeASCII :: "gostring \<Rightarrow> nat \<Rightarrow> byte \<Rightarrow> gateway_error + bytes" where
  "encodeASCII v len padding =
     (if length v > len \<or> \<not> isPrintableASCII v then Inl GwErrRange
      else Inr (copy_at 0 v (replicate len padding)))"

definition decodeASCII :: "bytes \<Rightarrow> gateway_error + gostring" where
  "decodeASCII data =
     (if list_ex (\<lambda>b. b \<noteq> 0 \<and> (b < 0x20 \<or> b > 0x7e)) data then Inl GwErrMalformed
      else Inr (trimRightBytes data [0x00, 0x20]))"

section \<open>The record\<close>

abbreviation gw :: "('s \<Rightarrow> wire_error + 'a \<times> 's) \<Rightarrow> 's \<Rightarrow> gateway_error + 'a \<times> 's" where
  "gw m \<equiv> se_err GwWire m"

definition write_normal_client ::
    "normal_client_record \<Rightarrow> bytes \<Rightarrow> bytes \<Rightarrow> bytes \<Rightarrow> bytes \<Rightarrow> bytes \<Rightarrow> writer \<Rightarrow> gateway_error + unit \<times> writer" where
  "write_normal_client r address service logicalUnit transactionProgram conversationID =
     se_bind (gw (WriteUint8 GwProtocolVersion ''version'')) (\<lambda>_.
     se_bind (gw (WriteUint8 NormalClientRequest ''requestType'')) (\<lambda>_.
     se_bind (gw (WriteBytes address ''address'')) (\<lambda>_.
     se_bind (gw (WriteUint32BE 0 ''reserved1'')) (\<lambda>_.
     se_bind (gw (WriteBytes service ''service'')) (\<lambda>_.
     se_bind (gw (WriteBytes (nc_CodePage r) ''codePage'')) (\<lambda>_.
     se_bind (gw (WriteBytes (replicate 5 0) ''reserved2'')) (\<lambda>_.
     se_bind (gw (WriteUint8 (nc_GatewayOptionLevel r) ''gatewayOptionLevel'')) (\<lambda>_.
     se_bind (gw (WriteBytes logicalUnit ''logicalUnit'')) (\<lambda>_.
     se_bind (gw (WriteBytes transactionProgram ''transactionProgram'')) (\<lambda>_.
     se_bind (gw (WriteBytes conversationID ''conversationId'')) (\<lambda>_.
     se_bind (gw (WriteUint8 (nc_AppcHeaderVersion r) ''appcHeaderVersion'')) (\<lambda>_.
     se_bind (gw (WriteUint8 (nc_AcceptInfo r) ''acceptInfo'')) (\<lambda>_.
     se_bind (gw (WriteUint16BE (of_int (nc_Index r)) ''index'')) (\<lambda>_.
     se_bind (gw (WriteUint32BE (nc_ReturnCode r) ''returnCode'')) (\<lambda>_.
     se_bind (gw (WriteUint8 (nc_EchoData r) ''echoData'')) (\<lambda>_.
     gw (WriteUint8 0 ''filler'')))))))))))))))))"

definition EncodeNormalClient :: "normal_client_record \<Rightarrow> gateway_error + bytes" where
  "EncodeNormalClient r =
     bindE (fail_if (nc_Index r < -0x8000 \<or> nc_Index r > 0x7fff) GwErrRange) (\<lambda>_.
     bindE (fail_if (\<not> codePagePattern (nc_CodePage r)) GwErrRange) (\<lambda>_.
     bindE (encodeIPv4 (nc_Address r)) (\<lambda>address.
     bindE (encodeASCII (nc_Service r) 10 0) (\<lambda>service.
     bindE (encodeASCII (nc_LogicalUnit r) 8 0x20) (\<lambda>logicalUnit.
     bindE (encodeASCII (nc_TransactionProgram r) 8 0x20) (\<lambda>transactionProgram.
     bindE (encodeASCII (nc_ConversationID r) 8 0x20) (\<lambda>conversationID.
     bindE (map_err GwWire (NewWriter (int NormalClientLength) ''gateway normal-client record'')) (\<lambda>w.
     bindE (write_normal_client r address service logicalUnit transactionProgram conversationID w) (\<lambda>(_, w').
     map_err GwWire (Writer_Finish w'))))))))))"

definition readASCII :: "nat \<Rightarrow> string \<Rightarrow> reader \<Rightarrow> gateway_error + gostring \<times> reader" where
  "readASCII len field = se_bind (gw (ReadBytes (int len) field)) (\<lambda>raw. se_lift (decodeASCII raw))"

definition signed_index :: "u16 \<Rightarrow> int" where
  "signed_index v = (if v > 0x7fff then int (unat v) - 0x10000 else int (unat v))"

definition read_normal_client :: "reader \<Rightarrow> gateway_error + normal_client_record \<times> reader" where
  "read_normal_client =
     se_bind (gw (ReadUint8 ''version'')) (\<lambda>_.
     se_bind (gw (ReadUint8 ''requestType'')) (\<lambda>requestType.
     se_bind (se_lift (fail_if (requestType \<noteq> NormalClientRequest) GwErrMalformed)) (\<lambda>_.
     se_bind (gw (ReadBytes 4 ''address'')) (\<lambda>addr.
     se_bind (gw (ReadUint32BE ''reserved1'')) (\<lambda>reserved1.
     se_bind (se_lift (fail_if (reserved1 \<noteq> 0) GwErrMalformed)) (\<lambda>_.
     se_bind (readASCII 10 ''service'') (\<lambda>service.
     se_bind (readASCII 4 ''codePage'') (\<lambda>codePage.
     se_bind (gw (ReadBytes 5 ''reserved2'')) (\<lambda>reserved2.
     se_bind (se_lift (fail_if (reserved2 \<noteq> replicate 5 0) GwErrMalformed)) (\<lambda>_.
     se_bind (gw (ReadUint8 ''gatewayOptionLevel'')) (\<lambda>gatewayOptionLevel.
     se_bind (readASCII 8 ''logicalUnit'') (\<lambda>logicalUnit.
     se_bind (readASCII 8 ''transactionProgram'') (\<lambda>transactionProgram.
     se_bind (readASCII 8 ''conversationId'') (\<lambda>conversationID.
     se_bind (gw (ReadUint8 ''appcHeaderVersion'')) (\<lambda>appcHeaderVersion.
     se_bind (gw (ReadUint8 ''acceptInfo'')) (\<lambda>acceptInfo.
     se_bind (gw (ReadUint16BE ''index'')) (\<lambda>index.
     se_bind (gw (ReadUint32BE ''returnCode'')) (\<lambda>returnCode.
     se_bind (gw (ReadUint8 ''echoData'')) (\<lambda>echoData.
     se_bind (gw (ReadUint8 ''filler'')) (\<lambda>filler.
     se_bind (se_lift (fail_if (filler \<noteq> 0) GwErrMalformed)) (\<lambda>_.
     se_bind (gw Reader_Finish) (\<lambda>_.
     se_return \<lparr>nc_Address = decodeIPv4 addr, nc_Service = service, nc_CodePage = codePage,
       nc_GatewayOptionLevel = gatewayOptionLevel, nc_LogicalUnit = logicalUnit,
       nc_TransactionProgram = transactionProgram, nc_ConversationID = conversationID,
       nc_AppcHeaderVersion = appcHeaderVersion, nc_AcceptInfo = acceptInfo,
       nc_Index = signed_index index, nc_ReturnCode = returnCode, nc_EchoData = echoData\<rparr>
     ))))))))))))))))))))))"

definition DecodeNormalClient :: "bytes \<Rightarrow> gateway_error + normal_client_record" where
  "DecodeNormalClient data =
     (if length data < 2 then Inl GwErrMalformed
      else if data ! 0 = 3 then Inl GwErrUnsupported
      else if data ! 0 \<noteq> GwProtocolVersion then Inl GwErrUnsupported
      else if length data \<noteq> NormalClientLength then Inl GwErrMalformed
      else bindE (read_normal_client (NewReader data ''gateway normal-client record'')) (\<lambda>(r, _). Inr r))"

section \<open>Dotted decimal: lemmas\<close>

lemma digit_unat: "k < 10 \<Longrightarrow> unat (of_nat (48 + k) :: byte) = 48 + k"
  by (simp add: unat_of_nat del: of_nat_add)

lemma digit_byte_of_nat: "k < 10 \<Longrightarrow> digit_byte (of_nat (48 + k))"
  by (simp only: digit_byte_def word_le_nat_alt digit_unat) simp

lemma digit_nonzero: "k < 10 \<Longrightarrow> of_nat (48 + k) = (0x30 :: byte) \<longleftrightarrow> k = 0"
  by (simp only: word_unat_eq_iff digit_unat) simp

lemma decimal_byte_octet: "parse_octet (decimal_byte b) = Some (unat b)"
  and decimal_byte_digits: "list_all digit_byte (decimal_byte b)"
proof -
  define n where "n = unat b"
  have n: "n < 256" using unsigned_less [of b, where ?'a = nat] by (simp add: n_def)
  have d: "n div 10 < 10 \<longleftrightarrow> n < 100" "n div 100 < 10" "n div 10 mod 10 < 10" "n mod 10 < 10"
    "n div 100 = 0 \<longleftrightarrow> n < 100" "n div 10 = 0 \<longleftrightarrow> n < 10"
    using n by (auto simp: div_eq_0_iff)
  have v: "n div 10 * 10 + n mod 10 = n" "n div 100 * 10 + n div 10 mod 10 = n div 10"
    using div_mult_mod_eq [of "n div 10" 10] by (simp_all add: div_mult2_eq [symmetric])
  then have v3: "100 * (n div 100) + n div 10 mod 10 * 10 + n mod 10 = n"
    by linarith
  note facts = decimal_byte_def n_def [symmetric] Let_def parse_octet_def digit_byte_of_nat digit_unat digit_nonzero d v v3
  show "parse_octet (decimal_byte b) = Some (unat b)"
    using n by (simp add: facts del: of_nat_add)
  show "list_all digit_byte (decimal_byte b)"
    using n by (simp add: facts del: of_nat_add)
qed

lemma digits_no_separator: "list_all digit_byte ds \<Longrightarrow> 0x2e \<notin> set ds \<and> 0x3a \<notin> set ds"
  by (auto simp: list_all_iff digit_byte_def)

lemma split_on_append: "sep \<notin> set a \<Longrightarrow> split_on sep (a @ sep # b) = a # split_on sep b"
  by (induction a) auto

lemma split_on_none: "sep \<notin> set a \<Longrightarrow> split_on sep a = [a]"
  by (induction a) auto

lemma encodeIPv4_decodeIPv4:
  assumes "length ip = 4"
  shows "encodeIPv4 (decodeIPv4 ip) = Inr ip"
proof -
  obtain a b c d where ip: "ip = [a, b, c, d]" using assms by (auto simp: length_4_conv)
  have sep: "0x2e \<notin> set (decimal_byte x) \<and> 0x3a \<notin> set (decimal_byte x)" for x
    by (rule digits_no_separator [OF decimal_byte_digits])
  have "split_on 0x2e (decodeIPv4 ip) = [decimal_byte a, decimal_byte b, decimal_byte c, decimal_byte d]"
    using sep by (simp add: decodeIPv4_def ip split_on_append split_on_none)
  then have "parse_ipv4 (decodeIPv4 ip) = Some ip"
    by (simp add: parse_ipv4_def decimal_byte_octet ip)
  moreover have "0x3a \<notin> set (decodeIPv4 ip)"
    using sep by (simp add: decodeIPv4_def)
  ultimately show ?thesis by (simp add: encodeIPv4_def)
qed

text \<open>Conversely an address the parser accepts is the text of its bytes: no leading zeros.\<close>

lemma digit_byte_value:
  assumes "digit_byte d"
  obtains k where "k < 10" "d = of_nat (48 + k)" "unat d - 48 = k"
proof -
  have "unat (0x30 :: byte) \<le> unat d" "unat d \<le> unat (0x39 :: byte)"
    using assms by (simp_all add: digit_byte_def word_le_nat_alt)
  then have "unat d - 48 < 10" "48 + (unat d - 48) = unat d" by simp_all
  moreover have "d = of_nat (48 + (unat d - 48))"
    using calculation(2) by (metis of_nat_unat ucast_id)
  ultimately show thesis using that by blast
qed

lemma octet_foldl_ge:
  "v * 10 ^ length ds \<le> foldl (\<lambda>v d. v * 10 + (unat d - 48)) (v :: nat) ds"
proof (induction ds arbitrary: v)
  case (Cons d ds)
  have "v * 10 ^ length (d # ds) \<le> (v * 10 + (unat d - 48)) * 10 ^ length ds"
    by (simp add: algebra_simps)
  also have "\<dots> \<le> foldl (\<lambda>v d. v * 10 + (unat d - 48)) (v * 10 + (unat d - 48)) ds"
    by (rule Cons.IH)
  finally show ?case by simp
qed simp

lemma decimal_byte_of_nat:
  "n < 256 \<Longrightarrow> decimal_byte (of_nat n) =
     (if n < 10 then [of_nat (48 + n)]
      else if n < 100 then [of_nat (48 + n div 10), of_nat (48 + n mod 10)]
      else [of_nat (48 + n div 100), of_nat (48 + n div 10 mod 10), of_nat (48 + n mod 10)])"
  by (simp add: decimal_byte_def unat_of_nat)

lemma parse_octet_unique:
  assumes "parse_octet ds = Some n"
  shows "n < 256 \<and> ds = decimal_byte (of_nat n)"
proof -
  have n: "n = foldl (\<lambda>v d. v * 10 + (unat d - 48)) 0 ds" "n < 256"
    and ds: "ds \<noteq> []" "list_all digit_byte ds" "length ds > 1 \<longrightarrow> hd ds \<noteq> 0x30"
    using assms by (auto simp: parse_octet_def Let_def split: if_splits)
  obtain a as where as: "ds = a # as" using ds by (cases ds) auto
  obtain x where x: "x < 10" "a = of_nat (48 + x)" "unat a - 48 = x"
    using digit_byte_value [of a] ds as by auto
  have x0: "as \<noteq> [] \<Longrightarrow> 0 < x"
    using ds(3) x(2) as by (cases x) auto
  have len: "length as \<le> 2"
  proof (rule ccontr)
    assume "\<not> length as \<le> 2"
    then have "10 ^ 3 \<le> (10 :: nat) ^ length as" by (intro power_increasing) auto
    also have "\<dots> \<le> x * 10 ^ length as"
      using x0 \<open>\<not> length as \<le> 2\<close> by (cases as) auto
    also have "\<dots> \<le> n"
      using octet_foldl_ge [of x as] n as x(3) by simp
    finally show False using n(2) by simp
  qed
  consider "as = []" | b where "as = [b]" | b c where "as = [b, c]"
    using len by (cases as rule: remdups_adj.cases) (auto simp: le_Suc_eq length_Suc_conv)
  then show ?thesis
  proof cases
    case 1
    then show ?thesis using n as x by (simp add: decimal_byte_of_nat)
  next
    case 2
    obtain y where y: "y < 10" "b = of_nat (48 + y)" "unat b - 48 = y"
      using digit_byte_value [of b] ds as 2 by auto
    have "n = x * 10 + y" using n as 2 x y by simp
    then have "10 \<le> n" "n < 100" "n div 10 = x" "n mod 10 = y" using x y x0 2 by simp_all
    then show ?thesis using x(2) y(2) as 2 by (simp add: decimal_byte_of_nat)
  next
    case 3
    obtain y where y: "y < 10" "b = of_nat (48 + y)" "unat b - 48 = y"
      using digit_byte_value [of b] ds as 3 by auto
    obtain z where z: "z < 10" "c = of_nat (48 + z)" "unat c - 48 = z"
      using digit_byte_value [of c] ds as 3 by auto
    have v: "n = x * 100 + y * 10 + z" using n as 3 x y z by simp
    moreover have "n = 10 * (x * 10 + y) + z" using v by simp
    then have "n div 10 = x * 10 + y" "n mod 10 = z"
      using z by (simp_all only: div_mult_self4 mod_mult_self4) simp_all
    ultimately have "100 \<le> n" "n div 100 = x" "n div 10 mod 10 = y" "n mod 10 = z"
      using x y z x0 3 by auto
    then show ?thesis using x(2) y(2) z(2) as 3 n(2) by (simp add: decimal_byte_of_nat)
  qed
qed

lemma split_on_ne [simp]: "split_on sep s \<noteq> []"
  by (induction s) (auto split: list.splits)

lemma split_on_Cons:
  "split_on sep s = p # ps \<Longrightarrow> ps \<noteq> [] \<Longrightarrow> \<exists>rest. s = p @ sep # rest \<and> split_on sep rest = ps"
proof (induction s arbitrary: p)
  case (Cons b bs)
  show ?case
  proof (cases "b = sep")
    case False
    then obtain q where q: "split_on sep bs = q # ps" "p = b # q"
      using Cons.prems by (cases "split_on sep bs") auto
    from Cons.IH [OF q(1) Cons.prems(2)] show ?thesis by (auto simp: q)
  qed (use Cons.prems in auto)
qed simp

lemma split_on_single: "split_on sep s = [p] \<Longrightarrow> s = p"
  by (induction s arbitrary: p) (auto split: if_splits list.splits)

lemma decodeIPv4_encodeIPv4:
  assumes "encodeIPv4 address = Inr ip"
  shows "length ip = 4 \<and> decodeIPv4 ip = address"
proof -
  have "parse_ipv4 address = Some ip"
    using assms by (auto simp: encodeIPv4_def split: if_splits option.splits)
  then obtain a b c d where o: "map parse_octet (split_on 0x2e address) = [Some a, Some b, Some c, Some d]"
    and ip: "ip = [of_nat a, of_nat b, of_nat c, of_nat d]"
    by (auto simp: parse_ipv4_def split: list.splits option.splits)
  then obtain p q r t where s: "split_on 0x2e address = [p, q, r, t]"
    and oct: "parse_octet p = Some a" "parse_octet q = Some b" "parse_octet r = Some c" "parse_octet t = Some d"
    by (auto simp: map_eq_Cons_conv)
  obtain s1 where s1: "address = p @ 0x2e # s1" "split_on 0x2e s1 = [q, r, t]"
    using split_on_Cons [OF s] by auto
  obtain s2 where s2: "s1 = q @ 0x2e # s2" "split_on 0x2e s2 = [r, t]"
    using split_on_Cons [OF s1(2)] by auto
  obtain s3 where s3: "s2 = r @ 0x2e # s3" "split_on 0x2e s3 = [t]"
    using split_on_Cons [OF s2(2)] by auto
  have "s3 = t" using split_on_single [OF s3(2)] .
  then show ?thesis
    using s1 s2 s3 oct [THEN parse_octet_unique] by (simp add: ip decodeIPv4_def)
qed

section \<open>The record: lemmas\<close>

lemma printable_iff: "isPrintableASCII v \<longleftrightarrow> printable v"
  by (auto simp: isPrintableASCII_def printable_def printable_byte_def list_ex_iff list_all_iff not_less)

lemma encodeASCII_Inr:
  "encodeASCII v w p = Inr b \<longleftrightarrow> printable v \<and> length v \<le> w \<and> b = v @ replicate (w - length v) p"
  by (auto simp: encodeASCII_def printable_iff copy_pad)

lemma decodeASCII_fixed: "decodeASCII b = (case decodeFixedAscii b of Inl _ \<Rightarrow> Inl GwErrMalformed | Inr v \<Rightarrow> Inr v)"
  by (simp add: decodeASCII_def decodeFixedAscii_def)

lemma decode_text:
  "printable v \<Longrightarrow> name_canon v \<Longrightarrow> p = 0 \<or> p = 0x20 \<Longrightarrow> decodeASCII (v @ replicate n p) = Inr v"
  by (simp add: decodeASCII_fixed decode_fixed)

lemma readASCII_step [codec_simps]:
  "length raw = len \<Longrightarrow> decodeASCII raw = Inr v \<Longrightarrow>
     readASCII len f (rdr c pre (raw @ rest)) = Inr (v, rdr c (pre @ raw) rest)"
  by (simp add: readASCII_def codec_simps)

definition text_field :: "nat \<Rightarrow> byte \<Rightarrow> gostring \<Rightarrow> bytes" where
  "text_field w p v = v @ replicate (w - length v) p"

definition normal_client_layout :: "normal_client_record \<Rightarrow> bytes \<Rightarrow> bytes" where
  "normal_client_layout r ip =
     [GwProtocolVersion, NormalClientRequest] @ ip @ put32be 0 @ text_field 10 0 (nc_Service r) @
     nc_CodePage r @ replicate 5 0 @ [nc_GatewayOptionLevel r] @ text_field 8 0x20 (nc_LogicalUnit r) @
     text_field 8 0x20 (nc_TransactionProgram r) @ text_field 8 0x20 (nc_ConversationID r) @
     [nc_AppcHeaderVersion r, nc_AcceptInfo r] @ put16be (of_int (nc_Index r)) @ put32be (nc_ReturnCode r) @
     [nc_EchoData r, 0]"

definition text_ok :: "nat \<Rightarrow> gostring \<Rightarrow> bool" where
  "text_ok w v \<longleftrightarrow> printable v \<and> length v \<le> w"

definition normal_client_ok :: "normal_client_record \<Rightarrow> bytes \<Rightarrow> bool" where
  "normal_client_ok r ip \<longleftrightarrow> -0x8000 \<le> nc_Index r \<and> nc_Index r \<le> 0x7fff \<and> codePagePattern (nc_CodePage r) \<and>
     encodeIPv4 (nc_Address r) = Inr ip \<and> text_ok 10 (nc_Service r) \<and> text_ok 8 (nc_LogicalUnit r) \<and>
     text_ok 8 (nc_TransactionProgram r) \<and> text_ok 8 (nc_ConversationID r)"

text \<open>No text field ends in a space, which the decoder trims.\<close>

definition normal_client_canon :: "normal_client_record \<Rightarrow> bool" where
  "normal_client_canon r \<longleftrightarrow> name_canon (nc_Service r) \<and> name_canon (nc_LogicalUnit r) \<and>
     name_canon (nc_TransactionProgram r) \<and> name_canon (nc_ConversationID r)"

lemma length_text_field [simp]: "text_ok w v \<Longrightarrow> length (text_field w p v) = w"
  by (simp add: text_field_def text_ok_def)

lemma decode_text_field [simp]:
  "text_ok w v \<Longrightarrow> name_canon v \<Longrightarrow> decodeASCII (text_field w 0 v) = Inr v"
  "text_ok w v \<Longrightarrow> name_canon v \<Longrightarrow> decodeASCII (text_field w 0x20 v) = Inr v"
  by (simp_all add: text_field_def text_ok_def decode_text)

lemma encodeASCII_text: "encodeASCII v w p = (if text_ok w v then Inr (text_field w p v) else Inl GwErrRange)"
  by (auto simp: encodeASCII_def printable_iff text_ok_def text_field_def copy_pad)

lemma WriteUint8_wtr [codec_simps]:
  "0 < k \<Longrightarrow> WriteUint8 v f (wtr c out k) = Inr ((), wtr c (out @ [v]) (k - 1))"
  using u8.write_step [of k v f c out] by simp

lemma EncodeNormalClient_Inr:
  "EncodeNormalClient r = Inr b \<longleftrightarrow> (\<exists>ip. normal_client_ok r ip \<and> b = normal_client_layout r ip)"
proof (cases "\<exists>ip. normal_client_ok r ip")
  case True
  then obtain ip where ok: "normal_client_ok r ip" by blast
  then have ip: "encodeIPv4 (nc_Address r) = Inr ip" "length ip = 4" "length (nc_CodePage r) = 4"
    by (auto simp: normal_client_ok_def codePagePattern_def dest: decodeIPv4_encodeIPv4)
  have "EncodeNormalClient r = Inr (normal_client_layout r ip)"
    using ok ip
    by (simp add: EncodeNormalClient_def normal_client_ok_def encodeASCII_text fail_if_def NormalClientLength_def
        write_normal_client_def codec_simps normal_client_layout_def)
  moreover have "normal_client_ok r ip' \<Longrightarrow> ip' = ip" for ip'
    using ip by (simp add: normal_client_ok_def)
  ultimately show ?thesis using ok by (metis Inr_inject)
next
  case False
  have "EncodeNormalClient r \<noteq> Inr b"
  proof
    assume "EncodeNormalClient r = Inr b"
    then show False
      using False by (auto simp: EncodeNormalClient_def bindE_Inr_iff encodeASCII_text normal_client_ok_def split: if_splits)
  qed
  then show ?thesis using False by blast
qed

lemma signed_index_of_int: "-0x8000 \<le> i \<Longrightarrow> i \<le> 0x7fff \<Longrightarrow> signed_index (of_int i) = i"
proof (cases "i < 0")
  case True
  assume "-0x8000 \<le> i"
  have "i mod 65536 = i + 65536"
    using True \<open>-0x8000 \<le> i\<close> mod_pos_pos_trivial [of "i + 65536" 65536] by simp
  then show ?thesis
    using True \<open>-0x8000 \<le> i\<close> by (simp add: signed_index_def word_less_def unsigned_of_int take_bit_eq_mod)
next
  case False
  assume "i \<le> 0x7fff"
  with False show ?thesis
    by (simp add: signed_index_def word_less_def unsigned_of_int take_bit_eq_mod)
qed

lemma digit_byte_printable: "digit_byte b \<Longrightarrow> printable_byte b \<and> b \<noteq> 0x20"
  by (auto simp: digit_byte_def printable_byte_def elim: order_trans [rotated] order_trans)

lemma code_page_text:
  assumes "codePagePattern p"
  shows "length p = 4 \<and> decodeASCII p = Inr p"
proof -
  have d: "\<forall>b \<in> set p. digit_byte b" and len: "length p = 4"
    using assms by (auto simp: codePagePattern_def list_all_iff)
  then have "printable p" by (auto simp: printable_def list_all_iff dest: digit_byte_printable)
  moreover have "name_canon p"
    using d by (metis last_in_set digit_byte_printable name_canon_def)
  ultimately show ?thesis using decode_text [of p 0 0] len by simp
qed

lemma DecodeNormalClient_layout:
  assumes "normal_client_ok r ip" "normal_client_canon r"
  shows "DecodeNormalClient (normal_client_layout r ip) = Inr r"
proof -
  have ip: "length ip = 4" "decodeIPv4 ip = nc_Address r"
    using assms decodeIPv4_encodeIPv4 by (auto simp: normal_client_ok_def)
  have cp: "length (nc_CodePage r) = 4" "decodeASCII (nc_CodePage r) = Inr (nc_CodePage r)"
    using assms code_page_text by (auto simp: normal_client_ok_def)
  have ix: "signed_index (of_int (nc_Index r)) = nc_Index r"
    using assms by (simp add: normal_client_ok_def signed_index_of_int)
  have len: "length (normal_client_layout r ip) = 64"
    using assms ip cp by (simp add: normal_client_layout_def normal_client_ok_def)
  have "read_normal_client (rdr c [] (normal_client_layout r ip)) =
      Inr (r, rdr c (normal_client_layout r ip) [])" for c
    using assms ip cp ix
    by (simp add: read_normal_client_def normal_client_layout_def normal_client_ok_def normal_client_canon_def
        codec_simps fail_if_def se_return_def)
  then show ?thesis
    using len by (simp add: DecodeNormalClient_def NormalClientLength_def NewReader_rdr)
      (simp add: normal_client_layout_def GwProtocolVersion_def)
qed

lemma readASCII_inv:
  "readASCII len f (rdr c pre rest) = Inr (v, r') \<Longrightarrow>
     \<exists>raw rest'. rest = raw @ rest' \<and> length raw = len \<and> r' = rdr c (pre @ raw) rest'"
  by (auto simp: readASCII_def se_Inr_iffs dest!: ReadBytes_inv) blast

lemma read_normal_client_inv:
  assumes "read_normal_client (rdr c [] b) = Inr (r, t)"
  shows "\<exists>ver ip svc cp opt lu tp cid hv ai ix rc ec.
     b = [ver, NormalClientRequest] @ ip @ put32be 0 @ svc @ cp @ replicate 5 0 @ [opt] @ lu @ tp @ cid @
         [hv, ai] @ put16be ix @ put32be rc @ [ec, 0] \<and>
     length ip = 4 \<and> length svc = 10 \<and> length cp = 4 \<and> length lu = 8 \<and> length tp = 8 \<and> length cid = 8 \<and>
     nc_Address r = decodeIPv4 ip \<and> nc_Index r = signed_index ix"
  using assms unfolding read_normal_client_def se_Inr_iffs se_return_def
  by (auto dest!: read_invs readASCII_inv Finish_inv) force

lemma signed_index_range: "-0x8000 \<le> signed_index v \<and> signed_index v \<le> 0x7fff \<and> of_int (signed_index v) = v"
proof -
  have "-0x8000 \<le> uint v" by (rule order_trans [of _ 0]) simp_all
  moreover have "uint v < 65536" using unsigned_less [of v, where ?'a = int] by simp
  ultimately show ?thesis by (auto simp: signed_index_def word_less_def)
qed

lemma normal_client_layout_length: "normal_client_ok r ip \<Longrightarrow> length (normal_client_layout r ip) = 64"
  by (auto simp: normal_client_layout_def normal_client_ok_def codePagePattern_def dest: decodeIPv4_encodeIPv4)

section \<open>Properties\<close>

text \<open>
  The gateway record round-trips: whatever \<open>EncodeNormalClient\<close> accepts is 64 bytes long, and
  decoding it returns the record, the address text included, provided no text field ends in a space.
\<close>

theorem normal_client_roundtrip:
  assumes "EncodeNormalClient r = Inr b" and "normal_client_canon r"
  shows "length b = NormalClientLength \<and> DecodeNormalClient b = Inr r"
proof -
  obtain ip where ip: "normal_client_ok r ip" "b = normal_client_layout r ip"
    using assms(1) by (auto simp: EncodeNormalClient_Inr)
  then have "DecodeNormalClient b = Inr r"
    using DecodeNormalClient_layout [OF _ assms(2)] by simp
  then show ?thesis by (auto simp: DecodeNormalClient_def split: if_splits)
qed

definition sample_client :: normal_client_record where
  "sample_client = \<lparr>nc_Address = gostr ''127.0.0.1'', nc_Service = gostr ''open-rfc'', nc_CodePage = gostr ''1100'',
     nc_GatewayOptionLevel = 6, nc_LogicalUnit = gostr ''host'', nc_TransactionProgram = gostr ''open-rfc'',
     nc_ConversationID = [], nc_AppcHeaderVersion = 6, nc_AcceptInfo = 0xdb, nc_Index = -1, nc_ReturnCode = 0,
     nc_EchoData = 0\<rparr>"

theorem normal_client_roundtrip_witness:
  "\<exists>b. EncodeNormalClient sample_client = Inr b \<and> DecodeNormalClient b = Inr sample_client"
proof -
  have "EncodeNormalClient sample_client \<noteq> Inl e" for e
    by code_simp
  then obtain b where "EncodeNormalClient sample_client = Inr b"
    by (cases "EncodeNormalClient sample_client") auto
  moreover have "normal_client_canon sample_client" by code_simp
  ultimately show ?thesis using normal_client_roundtrip [of sample_client b] by auto
qed

text \<open>
  What a decoded gateway record guarantees, whoever sent it: exactly 64 bytes of version 2 and request
  type 3 with zero reserved and filler bytes, an address that is the dotted-decimal text of its four bytes,
  and an index in the signed 16-bit range that is the two's complement of its two bytes.
\<close>

theorem normal_client_decode_sound:
  assumes "DecodeNormalClient b = Inr r"
  shows "length b = NormalClientLength \<and> b ! 0 = GwProtocolVersion \<and> b ! 1 = NormalClientRequest \<and>
     take 4 (drop 6 b) = put32be 0 \<and> take 5 (drop 24 b) = replicate 5 0 \<and> b ! 63 = 0 \<and>
     encodeIPv4 (nc_Address r) = Inr (take 4 (drop 2 b)) \<and>
     -0x8000 \<le> nc_Index r \<and> nc_Index r \<le> 0x7fff \<and> put16be (of_int (nc_Index r)) = take 2 (drop 56 b)"
proof -
  have len: "length b = 64" and v: "b ! 0 = GwProtocolVersion"
    and rd: "\<exists>t. read_normal_client (rdr ''gateway normal-client record'' [] b) = Inr (r, t)"
    using assms by (auto simp: DecodeNormalClient_def NormalClientLength_def NewReader_rdr bindE_Inr_iff
        record_context_def split: if_splits)
  then obtain ver ip svc cp opt lu tp cid hv ai ix rc ec where
    b: "b = [ver, NormalClientRequest] @ ip @ put32be 0 @ svc @ cp @ replicate 5 0 @ [opt] @ lu @ tp @ cid @
         [hv, ai] @ put16be ix @ put32be rc @ [ec, 0]"
    and lens: "length ip = 4" "length svc = 10" "length cp = 4" "length lu = 8" "length tp = 8" "length cid = 8"
    and r: "nc_Address r = decodeIPv4 ip" "nc_Index r = signed_index ix"
    using read_normal_client_inv [of "''gateway normal-client record''" b r] by metis
  have parts: "b ! 1 = NormalClientRequest" "take 4 (drop 6 b) = put32be 0" "take 5 (drop 24 b) = replicate 5 0"
    "take 4 (drop 2 b) = ip" "take 2 (drop 56 b) = put16be ix" "b ! 63 = 0"
    using lens by (simp_all add: b nth_append)
  then show ?thesis
    using len v r lens encodeIPv4_decodeIPv4 [of ip] signed_index_range [of ix]
    by (simp add: NormalClientLength_def)
qed

theorem normal_client_decode_sound_witness:
  "\<exists>r. DecodeNormalClient (normal_client_layout sample_client [127, 0, 0, 1]) = Inr r \<and>
     encodeIPv4 (nc_Address r) = Inr [127, 0, 0, 1] \<and> nc_Index r \<le> 0x7fff"
proof -
  have ok: "normal_client_ok sample_client [127, 0, 0, 1]" "normal_client_canon sample_client"
    by code_simp+
  have "take 4 (drop 2 (normal_client_layout sample_client [127, 0, 0, 1])) = [127, 0, 0, 1]"
    by (simp add: normal_client_layout_def)
  then show ?thesis
    using normal_client_decode_sound [OF DecodeNormalClient_layout [OF ok]] DecodeNormalClient_layout [OF ok]
    by auto
qed

end
