(* ===== verification/Transport.thy ===== *)
theory Transport
  imports Ni
begin

text \<open>
  Package \<open>transport\<close> (\<open>internal/transport/transport.go\<close>): NI records over one connection.
  The connection is the environment: the outcomes of its reads, of the context check before each
  of them and of its writes are a script that the operations consume, and what was written is
  recorded. \<open>Send\<close> and \<open>Receive\<close> are modelled with the frame decoder of theory
  \<open>Ni\<close> and the queue of decoded frames; deadlines show only as the errors the script holds.
  Dialing is the caller's. The lemmas show that \<open>Receive\<close> implements a plain queue of the
  stream's records whatever way the reads cut the stream.
\<close>

section \<open>Data\<close>

text \<open>An error of \<open>net.Conn\<close>, with \<open>io.EOF\<close> told apart, and what one round of the read loop meets.\<close>

datatype io_error = IoEOF | IoOther string

datatype net_event = NetRead bytes "io_error option" | NetCtxDone string

datatype transport_error =
    TrClosed
  | TrRead io_error
  | TrWrite io_error
  | TrContext string
  | TrNi ni_error

text \<open>
  The connection: reads to come (after the last one the peer has closed), the outcomes of the
  writes to come (after the last one writes succeed), and what was written.
\<close>

record conn =
  cn_events :: "net_event list"
  cn_writes :: "io_error option list"
  cn_written :: "bytes list"

record transport =
  tr_conn :: conn
  tr_dec :: frame_decoder
  tr_queue :: "bytes list"

section \<open>Operations\<close>

definition maxPayload :: "int \<Rightarrow> int" where
  "maxPayload m = (if m > 0 then m else DefaultMaxPayloadLength)"

text \<open>
  \<open>New\<close> ignores the error of \<open>NewFrameDecoder\<close>, which a positive limit never gives; a
  decoder for the other case is named only to make the definition total.
\<close>

definition transport_New :: "conn \<Rightarrow> int \<Rightarrow> transport" where
  "transport_New c limit =
     \<lparr>tr_conn = c,
      tr_dec = (case NewFrameDecoder (maxPayload limit) of
          Inr d \<Rightarrow> d
        | Inl _ \<Rightarrow> \<lparr>maxPayloadLength = 0, chunks = [], headIndex = 0, headOffset = 0, buffered = 0\<rparr>),
      tr_queue = []\<rparr>"

definition conn_write :: "bytes \<Rightarrow> conn \<Rightarrow> (io_error + unit) \<times> conn" where
  "conn_write b c =
     (case cn_writes c of
        Some e # ws \<Rightarrow> (Inl e, c\<lparr>cn_writes := ws\<rparr>)
      | None # ws \<Rightarrow> (Inr (), c\<lparr>cn_writes := ws, cn_written := cn_written c @ [b]\<rparr>)
      | [] \<Rightarrow> (Inr (), c\<lparr>cn_written := cn_written c @ [b]\<rparr>))"

definition Send :: "bytes \<Rightarrow> transport \<Rightarrow> (transport_error + unit) \<times> transport" where
  "Send payload t =
     (case EncodeFrame payload of
        Inl e \<Rightarrow> (Inl (TrNi e), t)
      | Inr frame \<Rightarrow>
          (case conn_write frame (tr_conn t) of
             (Inl e, c) \<Rightarrow> (Inl (TrWrite e), t\<lparr>tr_conn := c\<rparr>)
           | (Inr _, c) \<Rightarrow> (Inr (), t\<lparr>tr_conn := c\<rparr>)))"

text \<open>The decoding of one read: \<open>n > 0\<close> bytes are pushed and the frames queued.\<close>

definition take_read :: "bytes \<Rightarrow> transport \<Rightarrow> (transport_error + unit) \<times> transport" where
  "take_read b t =
     (if b = [] then (Inr (), t)
      else case Push b (tr_dec t) of
        (Inl e, d) \<Rightarrow> (Inl (TrNi e), t\<lparr>tr_dec := d\<rparr>)
      | (Inr frames, d) \<Rightarrow> (Inr (), t\<lparr>tr_dec := d, tr_queue := tr_queue t @ frames\<rparr>))"

lemma take_read_conn: "take_read b t = (res, t') \<Longrightarrow> tr_conn t' = tr_conn t"
  by (auto simp: take_read_def split: if_splits prod.splits sum.splits)

function receive_loop :: "transport \<Rightarrow> (transport_error + unit) \<times> transport" where
  "receive_loop t =
     (if tr_queue t \<noteq> [] then (Inr (), t)
      else case cn_events (tr_conn t) of
        [] \<Rightarrow> (Inl TrClosed, t)
      | NetCtxDone e # evs \<Rightarrow> (Inl (TrContext e), t\<lparr>tr_conn := tr_conn t\<lparr>cn_events := evs\<rparr>\<rparr>)
      | NetRead b err # evs \<Rightarrow>
          (case take_read b (t\<lparr>tr_conn := tr_conn t\<lparr>cn_events := evs\<rparr>\<rparr>) of
             (Inl e, t') \<Rightarrow> (Inl e, t')
           | (Inr _, t') \<Rightarrow>
               (case err of
                  None \<Rightarrow> receive_loop t'
                | Some e \<Rightarrow>
                    if tr_queue t' \<noteq> [] then (Inr (), t')
                    else if e = IoEOF then (Inl TrClosed, t')
                    else (Inl (TrRead e), t'))))"
  by pat_completeness auto
termination
  by (relation "measure (\<lambda>t. length (cn_events (tr_conn t)))") (auto dest!: take_read_conn [OF sym])

declare receive_loop.simps [simp del]

definition Receive :: "transport \<Rightarrow> (transport_error + bytes) \<times> transport" where
  "Receive t =
     (case receive_loop t of
        (Inl e, t') \<Rightarrow> (Inl e, t')
      | (Inr _, t') \<Rightarrow> (Inr (hd (tr_queue t')), t'\<lparr>tr_queue := tl (tr_queue t')\<rparr>))"

section \<open>Receive as a queue\<close>

text \<open>
  The records a transport will deliver: those queued, then the frames of the bytes waiting and
  to be read. \<open>clean_reads\<close> is a script of plain reads, ended by the peer's close.
\<close>

definition clean_reads :: "bytes list \<Rightarrow> net_event list" where
  "clean_reads cs = map (\<lambda>c. NetRead c None) cs"

definition delivers :: "transport \<Rightarrow> bytes list \<Rightarrow> bool" where
  "delivers t ps \<longleftrightarrow>
     (\<exists>cs fs rest. cn_events (tr_conn t) = clean_reads cs \<and> decoder_ok (tr_dec t) \<and>
        deframe (maxPayloadLength (tr_dec t)) (pending_bytes (tr_dec t)) = ([], pending_bytes (tr_dec t), None) \<and>
        deframe (maxPayloadLength (tr_dec t)) (pending_bytes (tr_dec t) @ concat cs) = (fs, rest, None) \<and>
        ps = tr_queue t @ fs)"

lemma deframe_split:
  assumes "deframe limit (a @ b) = (fs, rest, None)"
  shows "\<exists>gs r hs. deframe limit a = (gs, r, None) \<and> deframe limit (r @ b) = (hs, rest, None) \<and> fs = gs @ hs"
proof -
  obtain gs r bad where a: "deframe limit a = (gs, r, bad)" by (metis prod_cases3)
  have "bad = None"
    using deframe_append_bad [of limit a gs r _ b] a assms by (cases bad) auto
  moreover obtain hs r2 b2 where "deframe limit (r @ b) = (hs, r2, b2)" by (metis prod_cases3)
  ultimately show ?thesis
    using a deframe_append [of limit a gs r b hs r2 b2] assms by auto
qed

lemma take_read_delivers:
  assumes "delivers t ps" and "tr_queue t = []" and "cn_events (tr_conn t) = NetRead b err # evs"
  obtains t' where "take_read b (t\<lparr>tr_conn := tr_conn t\<lparr>cn_events := evs\<rparr>\<rparr>) = (Inr (), t')"
    "delivers t' ps" "cn_events (tr_conn t') = evs" "cn_written (tr_conn t') = cn_written (tr_conn t)" "err = None"
proof -
  let ?d = "tr_dec t" and ?t = "t\<lparr>tr_conn := tr_conn t\<lparr>cn_events := evs\<rparr>\<rparr>"
  obtain cs fs rest where ev: "evs = clean_reads cs" "err = None" and ok: "decoder_ok ?d"
    and settled: "deframe (maxPayloadLength ?d) (pending_bytes ?d) = ([], pending_bytes ?d, None)"
    and all: "deframe (maxPayloadLength ?d) ((pending_bytes ?d @ b) @ concat cs) = (fs, rest, None)"
    and ps: "ps = fs"
    using assms by (auto simp: delivers_def clean_reads_def)
  show thesis
  proof (cases "b = []")
    case True
    have "delivers ?t ps"
      using ev ok settled all ps assms(2) True unfolding delivers_def by auto
    then show thesis using True ev that by (simp add: take_read_def)
  next
    case False
    obtain gs r hs where one: "deframe (maxPayloadLength ?d) (pending_bytes ?d @ b) = (gs, r, None)"
      and two: "deframe (maxPayloadLength ?d) (r @ concat cs) = (hs, rest, None)" "fs = gs @ hs"
      using deframe_split [OF all] by blast
    from Push_deframe [OF ok one] obtain d' where d':
      "Push b ?d = (Inr gs, d')" "decoder_ok d'" "pending_bytes d' = r" "maxPayloadLength d' = maxPayloadLength ?d"
      by auto
    have "delivers (?t\<lparr>tr_dec := d', tr_queue := gs\<rparr>) ps"
      using ev d' two ps deframe_settled [OF one] unfolding delivers_def by auto
    then show thesis
      using False ev d' that assms(2) by (simp add: take_read_def)
  qed
qed

lemma receive_loop_delivers:
  "delivers t ps \<Longrightarrow> \<exists>t'. delivers t' ps \<and> cn_written (tr_conn t') = cn_written (tr_conn t) \<and>
     (if ps = [] then receive_loop t = (Inl TrClosed, t')
      else receive_loop t = (Inr (), t') \<and> tr_queue t' \<noteq> [])"
proof (induction t rule: receive_loop.induct)
  case (1 t)
  show ?case
  proof (cases "tr_queue t \<noteq> []")
    case True
    then show ?thesis using "1.prems"
      by (intro exI [of _ t]) (auto simp: receive_loop.simps [of t] delivers_def)
  next
    case False
    show ?thesis
    proof (cases "cn_events (tr_conn t)")
      case Nil
      then have "ps = []"
        using "1.prems" False by (auto simp: delivers_def clean_reads_def)
      then show ?thesis using Nil False "1.prems" by (auto simp: receive_loop.simps [of t])
    next
      case (Cons ev evs)
      then obtain b err where ev: "ev = NetRead b err"
        using "1.prems" by (auto simp: delivers_def clean_reads_def)
      then obtain t' where t': "take_read b (t\<lparr>tr_conn := tr_conn t\<lparr>cn_events := evs\<rparr>\<rparr>) = (Inr (), t')"
        "delivers t' ps" "cn_written (tr_conn t') = cn_written (tr_conn t)" "err = None"
        using take_read_delivers [OF "1.prems"] False Cons by metis
      have "receive_loop t = receive_loop t'"
        using False Cons ev t' by (simp add: receive_loop.simps [of t])
      moreover have "\<exists>t''. delivers t'' ps \<and> cn_written (tr_conn t'') = cn_written (tr_conn t') \<and>
          (if ps = [] then receive_loop t' = (Inl TrClosed, t'')
           else receive_loop t' = (Inr (), t'') \<and> tr_queue t'' \<noteq> [])"
        using "1.IH" [OF _ Cons ev t'(1) [symmetric], of "()"] False t' by simp
      ultimately show ?thesis using t'(3) by (simp only:)
    qed
  qed
qed

text \<open>The contract of \<open>Receive\<close>: the next record of the stream, and closed at its end.\<close>

lemma Receive_Cons:
  assumes "delivers t (p # ps)"
  obtains t' where "Receive t = (Inr p, t')" "delivers t' ps" "cn_written (tr_conn t') = cn_written (tr_conn t)"
proof -
  obtain t' where t': "delivers t' (p # ps)" "cn_written (tr_conn t') = cn_written (tr_conn t)"
    "receive_loop t = (Inr (), t')" "tr_queue t' \<noteq> []"
    using receive_loop_delivers [OF assms] by auto
  then have "hd (tr_queue t') = p" "delivers (t'\<lparr>tr_queue := tl (tr_queue t')\<rparr>) ps"
    by (cases "tr_queue t'"; auto simp: delivers_def)+
  then show thesis using t' that by (simp add: Receive_def)
qed

lemma Receive_Nil:
  assumes "delivers t []"
  obtains t' where "Receive t = (Inl TrClosed, t')" "delivers t' []"
  using receive_loop_delivers [OF assms] by (auto simp: Receive_def)

section \<open>Two ends of a connection\<close>

text \<open>A client that sends a list of records, and one that receives so many.\<close>

fun send_all :: "bytes list \<Rightarrow> transport \<Rightarrow> (transport_error + unit) \<times> transport" where
  "send_all [] t = (Inr (), t)"
| "send_all (p # ps) t =
     (case Send p t of (Inl e, t') \<Rightarrow> (Inl e, t') | (Inr _, t') \<Rightarrow> send_all ps t')"

fun receive_many :: "nat \<Rightarrow> transport \<Rightarrow> (transport_error + bytes list) \<times> transport" where
  "receive_many 0 t = (Inr [], t)"
| "receive_many (Suc n) t =
     (case Receive t of
        (Inl e, t') \<Rightarrow> (Inl e, t')
      | (Inr p, t') \<Rightarrow>
          (case receive_many n t' of (Inl e, t'') \<Rightarrow> (Inl e, t'') | (Inr ps, t'') \<Rightarrow> (Inr (p # ps), t'')))"

lemma Send_Inr:
  assumes "Send p t = (Inr (), t')"
  shows "\<exists>f. EncodeFrame p = Inr f \<and> cn_written (tr_conn t') = cn_written (tr_conn t) @ [f] \<and>
     tr_queue t' = tr_queue t \<and> tr_dec t' = tr_dec t \<and> cn_events (tr_conn t') = cn_events (tr_conn t)"
  using assms by (auto simp: Send_def conn_write_def split: sum.splits list.splits option.splits)

lemma send_all_written:
  "send_all ps t = (Inr (), t') \<Longrightarrow> \<exists>fs. cn_written (tr_conn t') = cn_written (tr_conn t) @ fs \<and>
     list_all2 (\<lambda>p f. EncodeFrame p = Inr f) ps fs"
proof (induction ps arbitrary: t)
  case (Cons p ps)
  obtain t1 where t1: "Send p t = (Inr (), t1)" "send_all ps t1 = (Inr (), t')"
    using Cons.prems by (auto split: prod.splits sum.splits)
  obtain f where f: "EncodeFrame p = Inr f" "cn_written (tr_conn t1) = cn_written (tr_conn t) @ [f]"
    using Send_Inr [OF t1(1)] by blast
  obtain fs where "cn_written (tr_conn t') = cn_written (tr_conn t1) @ fs"
    "list_all2 (\<lambda>p f. EncodeFrame p = Inr f) ps fs"
    using Cons.IH [OF t1(2)] by blast
  then show ?case using f by (intro exI [of _ "f # fs"]) simp
qed simp

lemma receive_many_delivers:
  "delivers t (ps @ qs) \<Longrightarrow> \<exists>t'. receive_many (length ps) t = (Inr ps, t') \<and> delivers t' qs"
proof (induction ps arbitrary: t)
  case (Cons p ps)
  obtain t1 where "Receive t = (Inr p, t1)" "delivers t1 (ps @ qs)"
    using Receive_Cons [of t p "ps @ qs"] Cons.prems by auto
  then show ?case using Cons.IH by fastforce
qed simp

lemma maxPayload_pos: "0 < maxPayload limit"
  by (simp add: maxPayload_def DefaultMaxPayloadLength_def)

lemma transport_New_delivers:
  assumes "cn_events c = clean_reads pieces"
    and "deframe (maxPayload limit) (concat pieces) = (ps, rest, None)"
  shows "delivers (transport_New c limit) ps"
proof -
  obtain d where d: "NewFrameDecoder (maxPayload limit) = Inr d"
    using maxPayload_pos [of limit] by (simp add: NewFrameDecoder_def)
  with NewFrameDecoder_ok [OF d] assms show ?thesis
    by (auto simp: delivers_def transport_New_def)
qed

section \<open>Properties\<close>

text \<open>
  Two ends of a connection: when one end's sends succeed and the other end reads the bytes
  written in pieces of any sizes, with empty reads in between or not, its receives return exactly the
  payloads sent, in order, each within the receiver's limit, and then report that the
  connection is closed.
\<close>

theorem transport_roundtrip:
  assumes "send_all payloads a = (Inr (), a')" and "cn_written (tr_conn a) = []"
    and "list_all (\<lambda>p. int (length p) \<le> maxPayload limit) payloads"
    and "cn_events c = clean_reads pieces" and "concat pieces = concat (cn_written (tr_conn a'))"
  shows "\<exists>t t'. receive_many (length payloads) (transport_New c limit) = (Inr payloads, t) \<and>
     Receive t = (Inl TrClosed, t')"
proof -
  obtain fs where "cn_written (tr_conn a') = fs" "list_all2 (\<lambda>p f. EncodeFrame p = Inr f) payloads fs"
    using send_all_written [OF assms(1)] assms(2) by auto
  then have "list_all2 (\<lambda>p f. EncodeFrame p = Inr f \<and> int (length p) \<le> maxPayload limit)
      payloads (cn_written (tr_conn a'))"
    using assms(3) by (auto simp: list_all2_conv_all_nth list_all_length)
  then have "deframe (maxPayload limit) (concat pieces) = (payloads, [], None)"
    using assms(5) by (simp add: deframe_frames)
  from receive_many_delivers [of _ payloads "[]"] transport_New_delivers [OF assms(4) this]
  obtain t where "receive_many (length payloads) (transport_New c limit) = (Inr payloads, t)" "delivers t []"
    by auto
  then show ?thesis using Receive_Nil [of t] by metis
qed

definition quiet_conn :: "bytes list \<Rightarrow> conn" where
  "quiet_conn cs = \<lparr>cn_events = clean_reads cs, cn_writes = [], cn_written = []\<rparr>"

theorem transport_roundtrip_witness:
  "\<exists>t t'. receive_many 2 (transport_New (quiet_conn [[0, 0], [], [0, 1, 7, 0, 0, 0, 0]]) 0) = (Inr [[7], []], t) \<and>
     Receive t = (Inl TrClosed, t')"
proof -
  let ?a = "transport_New (quiet_conn []) 0"
  have s: "send_all [[7], []] ?a = (Inr (), ?a\<lparr>tr_conn := (tr_conn ?a)\<lparr>cn_written := [[0, 0, 0, 1, 7], [0, 0, 0, 0]]\<rparr>\<rparr>)"
    by (simp add: Send_def conn_write_def EncodeFrame_layout put32be_def transport_New_def quiet_conn_def)
  from transport_roundtrip [OF s, of 0 "quiet_conn [[0, 0], [], [0, 1, 7, 0, 0, 0, 0]]" "[[0, 0], [], [0, 1, 7, 0, 0, 0, 0]]"]
  show ?thesis
    by (simp add: quiet_conn_def transport_New_def maxPayload_def DefaultMaxPayloadLength_def numeral_2_eq_2)
qed

end
