(* ===== verification/Cpic_Framing.thy ===== *)
theory Cpic_Framing
  imports Cpic_Chain Appc_Fragment
begin

text \<open>
  Package \<open>cpic\<close>, file \<open>function.go\<close>, the part between the field chain and APPC: the trailer
  that closes a request and its inspection before the request is handed to the outgoing planner. The
  lemmas show that the two agree for every request the package builds, and that what they agree on
  is a plan the planner accepts.
\<close>

definition CpicTagEnd :: u16 where "CpicTagEnd = 0xffff"

datatype framing_mode = FramingCompact | FramingStreamed

record request_appc_framing =
  rf_Mode :: framing_mode
  rf_ApplicationDataLength :: nat
  rf_FinalSapParameterLength :: nat

definition checkedMaximumRfcPacketSize :: "u32 option \<Rightarrow> u32" where
  "checkedMaximumRfcPacketSize v = val_or v 0x8500"

definition packetTrailer :: "nat \<Rightarrow> u32 \<Rightarrow> bytes" where
  "packetTrailer packetPrefixAndChainLength maximumRfcPacketSize =
     (let cpicPacketSize = packetPrefixAndChainLength + 2 in
      if cpicPacketSize > MaxApplicationDataFragmentLength then [0xff, 0xff]
      else put16be CpicTagEnd @ put16be 0 @ put16be (of_nat cpicPacketSize) @ put32be maximumRfcPacketSize)"

definition InspectRequestAppcFraming :: "bytes \<Rightarrow> cpic_error + request_appc_framing" where
  "InspectRequestAppcFraming data =
     (let n = length data in
      if n \<ge> 10 \<and> get16be (drop (n - 10) data) = CpicTagEnd \<and> get16be (drop (n - 8) data) = 0 \<and>
         unat (get16be (drop (n - 6) data)) = n - 8 \<and> n - 8 \<le> MaxApplicationDataFragmentLength
      then Inr \<lparr>rf_Mode = FramingCompact, rf_ApplicationDataLength = n - 8, rf_FinalSapParameterLength = 8\<rparr>
      else if n > MaxApplicationDataFragmentLength \<and> n \<ge> 6 \<and> get16be (drop (n - 6) data) = CpicTagEnd \<and>
         get16be (drop (n - 4) data) = 0 \<and> get16be (drop (n - 2) data) = 0xffff
      then Inr \<lparr>rf_Mode = FramingStreamed, rf_ApplicationDataLength = n, rf_FinalSapParameterLength = 0\<rparr>
      else Inl CErrProtocol)"

section \<open>Lemmas\<close>

lemma compact_inspect:
  assumes "length body + 2 \<le> 28000"
  shows "InspectRequestAppcFraming (body @ packetTrailer (length body) m) =
     Inr \<lparr>rf_Mode = FramingCompact, rf_ApplicationDataLength = length body + 2, rf_FinalSapParameterLength = 8\<rparr>"
proof -
  define n where "n = length body + 2"
  have "n \<le> 28000" using assms by (simp add: n_def)
  then have n: "unat (of_nat n :: u16) = n" "n \<le> 28000"
    by (simp_all add: unat_of_nat)
  have data: "body @ packetTrailer (length body) m =
      body @ put16be CpicTagEnd @ put16be 0 @ put16be (of_nat n) @ put32be m"
    using n by (simp add: packetTrailer_def MaxApplicationDataFragmentLength_def n_def [symmetric] Let_def
        del: add_2_eq_Suc' of_nat_add)
  show ?thesis
    unfolding data using n
    by (simp add: InspectRequestAppcFraming_def MaxApplicationDataFragmentLength_def Let_def) (simp add: n_def)
qed

lemma put16be_ends: "put16be CpicTagEnd = [0xff, 0xff]" "put16be 0 = [0, 0]"
  by (simp_all add: put16be_def CpicTagEnd_def)

lemma streamed_inspect:
  assumes "28000 < length body + 2" "body = chain @ put16be CpicTagEnd @ put16be 0"
  shows "InspectRequestAppcFraming (body @ packetTrailer (length body) m) =
     Inr \<lparr>rf_Mode = FramingStreamed, rf_ApplicationDataLength = length body + 2, rf_FinalSapParameterLength = 0\<rparr>"
proof -
  have len: "length body = length chain + 4" using assms(2) by simp
  have data: "body @ packetTrailer (length body) m = chain @ [0xff, 0xff, 0, 0, 0xff, 0xff]"
    using assms by (simp add: packetTrailer_def MaxApplicationDataFragmentLength_def put16be_ends)
  have big: "27994 < length chain" using assms(1) len by simp
  show ?thesis
    unfolding data using big len
    by (simp add: InspectRequestAppcFraming_def MaxApplicationDataFragmentLength_def Let_def CpicTagEnd_def)
qed

section \<open>Properties\<close>

text \<open>The planner input a session builds from a framed request.\<close>

definition framed_plan_input :: "bytes \<Rightarrow> u16 \<Rightarrow> bytes \<Rightarrow> request_appc_framing \<Rightarrow> outgoing_data_plan_input" where
  "framed_plan_input cid xi request f =
     \<lparr>pn_Header = no_overrides\<lparr>in_ConversationID := Some cid\<rparr>,
      pn_ApplicationData = take (rf_ApplicationDataLength f) request,
      pn_FinalSapParameters =
        (if rf_FinalSapParameterLength f \<noteq> 0 then Some (drop (rf_ApplicationDataLength f) request) else None),
      pn_CommunicationIndex = 0xffff, pn_ConnectionIndex = xi\<rparr>"

lemma compact_shape:
  assumes "length body + 2 \<le> 28000"
    and "InspectRequestAppcFraming (body @ packetTrailer (length body) m) = Inr f"
  shows "plan_shape_ok (framed_plan_input cid xi (body @ packetTrailer (length body) m) f) \<and>
     plan_single (framed_plan_input cid xi (body @ packetTrailer (length body) m) f)"
proof -
  define n where "n = length body + 2"
  have "n \<le> 28000" using assms(1) by (simp add: n_def)
  then have n: "unat (of_nat n :: u16) = n" "n \<le> 28000" by (simp_all add: unat_of_nat)
  have data: "body @ packetTrailer (length body) m =
      (body @ put16be CpicTagEnd) @ put16be 0 @ put16be (of_nat n) @ put32be m"
    using n by (simp add: packetTrailer_def MaxApplicationDataFragmentLength_def n_def [symmetric] Let_def
        del: add_2_eq_Suc' of_nat_add)
  have len: "length (body @ put16be CpicTagEnd) = n" by (simp add: n_def)
  have f: "f = \<lparr>rf_Mode = FramingCompact, rf_ApplicationDataLength = n, rf_FinalSapParameterLength = 8\<rparr>"
    using compact_inspect [OF assms(1), of m] assms(2) by (simp add: n_def)
  define req where "req = body @ packetTrailer (length body) m"
  have split: "take n req = body @ put16be CpicTagEnd" "drop n req = put16be 0 @ put16be (of_nat n) @ put32be m"
    unfolding req_def data using len by (metis append_eq_conv_conj)+
  show ?thesis
    unfolding req_def [symmetric] using n len
    by (simp add: framed_plan_input_def f split plan_shape_ok_def plan_single_def
        MaxApplicationDataFragmentLength_def)
qed

text \<open>
  A framed request and the outgoing planner agree: a request closed by \<open>packetTrailer\<close> is recognised by
  \<open>InspectRequestAppcFraming\<close> whatever its bytes, as compact up to 28000 bytes of packet and, when
  its chain ends with the empty End field, as streamed above; the compact one is planned as a single record that
  carries the request unchanged, with streaming disabled.
\<close>

theorem framed_request_plans:
  assumes "length cid = 8"
    and "request = body @ packetTrailer (length body) m"
    and "length body + 2 \<le> 28000 \<or> (\<exists>chain. body = chain @ put16be CpicTagEnd @ put16be 0)"
  shows "\<exists>f. InspectRequestAppcFraming request = Inr f \<and>
    rf_Mode f = (if length body + 2 \<le> 28000 then FramingCompact else FramingStreamed) \<and>
    (if length body + 2 \<le> 28000
     then \<exists>s. PlanOutgoingDataFragments (framed_plan_input cid xi request f)
            \<lparr>po_MaxApplicationDataLength = None, po_MaxFragments = None, po_CpicStreaming = StreamingDisabled\<rparr> = Inr [s] \<and>
          of_FunctionCode s = FuncSapSend \<and> of_ApplicationData s @ of_FinalSapParameters s = request
     else rf_ApplicationDataLength f = length request)"
proof (cases "length body + 2 \<le> 28000")
  case True
  obtain f where f: "InspectRequestAppcFraming request = Inr f" "rf_Mode f = FramingCompact"
    "rf_FinalSapParameterLength f = 8"
    using compact_inspect [OF True, of m] assms(2) by simp
  let ?i = "framed_plan_input cid xi request f"
  have shape: "plan_shape_ok ?i" "plan_single ?i"
    using compact_shape [OF True, of m f cid xi] f assms(2) by simp_all
  have one: "plan_count ?i = 1" using shape by (simp add: plan_count_def plan_fragment_count_def)
  have cid: "length (conversation_or_zero (pn_Header ?i)) = 8"
    using assms(1) by (simp add: framed_plan_input_def conversation_or_zero_def val_or_def)
  define s where "s = plan_fragment ?i (val_or (pn_FinalSapParameters ?i) []) 1 0"
  have "PlanOutgoingDataFragments ?i \<lparr>po_MaxApplicationDataLength = None, po_MaxFragments = None,
      po_CpicStreaming = StreamingDisabled\<rparr> = Inr [s]"
    using shape one cid
    by (auto simp: Plan_Inr plan_limits_ok_def plan_steps_def s_def val_or_def plan_single_def appc_consts Let_def)
  moreover have "of_ApplicationData s = pn_ApplicationData ?i"
    using plan_data_single [OF shape] by (simp add: s_def)
  moreover have "of_FunctionCode s = FuncSapSend" "of_FinalSapParameters s = val_or (pn_FinalSapParameters ?i) []"
    by (simp_all add: s_def plan_fragment_def Let_def semantics_single)
  ultimately show ?thesis using True f by (simp add: framed_plan_input_def val_or_def)
next
  case False
  then obtain chain where "body = chain @ put16be CpicTagEnd @ put16be 0" using assms(3) by blast
  then show ?thesis
    using streamed_inspect [of body chain m] False assms(2)
    by (simp add: packetTrailer_def MaxApplicationDataFragmentLength_def)
qed

definition sample_body :: bytes where
  "sample_body = [1, 2, 0xff, 0xff, 0, 0]"

theorem framed_request_plans_witness:
  "\<exists>f s. InspectRequestAppcFraming (sample_body @ packetTrailer (length sample_body) 0x8500) = Inr f \<and>
     rf_Mode f = FramingCompact \<and>
     PlanOutgoingDataFragments (framed_plan_input (replicate 8 0) 3
         (sample_body @ packetTrailer (length sample_body) 0x8500) f)
       \<lparr>po_MaxApplicationDataLength = None, po_MaxFragments = None, po_CpicStreaming = StreamingDisabled\<rparr> = Inr [s]"
proof -
  have len: "length sample_body + 2 \<le> 28000" by (simp add: sample_body_def)
  show ?thesis
    using framed_request_plans [where cid = "replicate 8 0" and body = sample_body and m = "0x8500" and xi = 3,
        OF _ refl disjI1 [OF len]] len
    by (simp del: length_append) blast
qed

end
