(* ===== verification/Session.thy ===== *)
theory Session
  imports Transport Gateway Appc_Conversation Cpic_Framing
begin

text \<open>
  Package \<open>client\<close> (\<open>internal/client/session.go\<close>): the handshake of a session and the exchange
  of one request for one reply, over the gateway record, the APPC records, the setup machine, the outgoing planner
  and the reassembler. The Go interface \<open>Transport\<close> is the record \<open>link\<close> of its two operations, so
  that the session is modelled for any transport. Host name, user name and random bytes are inputs.
  \<open>Open\<close> only chooses defaults and dials; logon and calls need the CPIC logon and function codecs.
  Context and timeouts show as the errors of the transport.
\<close>

section \<open>Data\<close>

record 't link =
  lk_Send :: "bytes \<Rightarrow> 't \<Rightarrow> (transport_error + unit) \<times> 't"
  lk_Receive :: "'t \<Rightarrow> (transport_error + bytes) \<times> 't"

text \<open>\<open>SeSession\<close> is \<open>ErrSession\<close>, \<open>SePanic\<close> the panic of \<open>mustPartnerParams\<close>.\<close>

datatype session_error =
    SeSession
  | SePanic
  | SeTransport transport_error
  | SeGateway gateway_error
  | SeAppc appc_error
  | SeCpic cpic_error

record 't session =
  se_transport :: 't
  se_setup :: client_setup_machine
  se_conversationID :: bytes
  se_connectionIndex :: u16
  se_localAddress :: gostring
  se_programName :: gostring
  se_service :: gostring
  se_closed :: bool

record host_env =
  he_hostname :: gostring
  he_username :: gostring
  he_rootRandom :: bytes
  he_connectionRandom :: bytes

type_synonym ('t, 'a) sess = "'t session \<Rightarrow> (session_error + 'a) \<times> 't session"

section \<open>Calls of the session's parts\<close>

definition se_send :: "'t link \<Rightarrow> bytes \<Rightarrow> ('t, unit) sess" where
  "se_send L payload s =
     (case lk_Send L payload (se_transport s) of (r, t) \<Rightarrow> (map_err SeTransport r, s\<lparr>se_transport := t\<rparr>))"

definition se_receive :: "'t link \<Rightarrow> ('t, bytes) sess" where
  "se_receive L s =
     (case lk_Receive L (se_transport s) of (r, t) \<Rightarrow> (map_err SeTransport r, s\<lparr>se_transport := t\<rparr>))"

definition se_sent :: "Function \<Rightarrow> bool \<Rightarrow> ('t, unit) sess" where
  "se_sent fc fin s = (case Sent fc fin (se_setup s) of (r, m) \<Rightarrow> (map_err SeAppc r, s\<lparr>se_setup := m\<rparr>))"

definition se_received :: "bytes \<Rightarrow> ('t, ReceiveDisposition) sess" where
  "se_received payload s =
     (case Received payload (se_setup s) of (r, m) \<Rightarrow> (map_err SeAppc r, s\<lparr>se_setup := m\<rparr>))"

definition se_response_complete :: "('t, unit) sess" where
  "se_response_complete s =
     (case ResponseComplete (se_setup s) of (r, m) \<Rightarrow> (map_err SeAppc r, s\<lparr>se_setup := m\<rparr>))"

section \<open>Helpers\<close>

definition short :: "gostring \<Rightarrow> nat \<Rightarrow> gostring" where
  "short s n = (if length s > n then take n s else s)"

definition hex_upper :: "nat \<Rightarrow> byte" where
  "hex_upper n = of_nat (if n < 10 then 48 + n else 55 + n)"

definition hexSessionID :: "bytes \<Rightarrow> gostring" where
  "hexSessionID b = concat (map (\<lambda>x. [hex_upper (unat x div 16), hex_upper (unat x mod 16)]) b)"

definition mustPartnerParams :: "gostring \<Rightarrow> session_error + bytes" where
  "mustPartnerParams localAddress =
     map_err (\<lambda>_. SePanic) (EncodePartnerLogicalUnitParameters
       \<lparr>pp_LongLogicalUnitName = localAddress, pp_PartnerHostAddress = replicate 16 0\<rparr>)"

section \<open>The handshake\<close>

definition gateway_request :: "host_env \<Rightarrow> 't session \<Rightarrow> normal_client_record" where
  "gateway_request env s =
     \<lparr>nc_Address = se_localAddress s, nc_Service = short (se_programName s) 9, nc_CodePage = gostr ''1100'',
      nc_GatewayOptionLevel = 6, nc_LogicalUnit = short (he_hostname env) 8,
      nc_TransactionProgram = short (se_programName s) 8, nc_ConversationID = [], nc_AppcHeaderVersion = 6,
      nc_AcceptInfo = AcceptInfoErrorInfo OR AcceptInfoPing OR AcceptInfoConnectionExtended OR
        AcceptInfoCodePage OR AcceptInfoExtendedInitOptions OR AcceptInfoDistributedTrace,
      nc_Index = -1, nc_ReturnCode = 0, nc_EchoData = 0\<rparr>"

definition check_gateway_reply :: "normal_client_record \<Rightarrow> session_error + unit" where
  "check_gateway_reply g =
     bindE (fail_if (nc_ReturnCode g \<noteq> 0) SeSession) (\<lambda>_.
     bindE (fail_if (nc_AppcHeaderVersion g \<noteq> 6) SeSession) (\<lambda>_.
     bindE (fail_if (nc_AcceptInfo g AND AcceptInfoExtendedInitOptions = 0) SeSession) (\<lambda>_.
     fail_if (nc_AcceptInfo g AND AcceptInfoCodePage = 0 \<or> nc_CodePage g \<noteq> gostr ''4103'') SeSession)))"

definition gateway_stage :: "'t link \<Rightarrow> host_env \<Rightarrow> ('t, unit) sess" where
  "gateway_stage L env s =
     (sm_bind (sm_lift (map_err SeGateway (EncodeNormalClient (gateway_request env s)))) (\<lambda>gwReq.
      sm_bind (se_send L gwReq) (\<lambda>_.
      sm_bind (se_receive L) (\<lambda>gwReplyBytes.
      sm_bind (sm_lift (map_err SeGateway (DecodeNormalClient gwReplyBytes))) (\<lambda>g.
      sm_lift (check_gateway_reply g)))))) s"

definition initialize_options :: "host_env \<Rightarrow> 't session \<Rightarrow> extended_initialize_options" where
  "initialize_options env s =
     \<lparr>eo_OptionFlags = 1, eo_RootID = hexSessionID (he_rootRandom env),
      eo_ConnectionID = hexSessionID (he_connectionRandom env), eo_ConnectionIDSuffix = 1,
      eo_Timeout = -2, eo_KeepaliveTimeout = -2, eo_ExportTrace = 2, eo_StartType = 0, eo_NetworkProtocol = 0,
      eo_LocalAddressV6 = replicate 16 0, eo_LongLogicalUnitName = se_localAddress s,
      eo_OperatingSystemUser = short (he_username env) 12, eo_LocalAddressV4 = replicate 4 0,
      eo_LongTransactionProgramName = se_service s\<rparr>"

definition initialize_record :: "'t session \<Rightarrow> bytes \<Rightarrow> control_record_input" where
  "initialize_record s params =
     \<lparr>cr_Header = no_overrides\<lparr>in_ConversationID := Some (replicate 8 0x20), in_Info2 := Some 1,
        in_Info3 := Some 0xc0, in_Info4 := Some 4, in_Info := Some 5\<rparr>,
      cr_FunctionCode = FuncInitialize,
      cr_ExtendedInfo = Some \<lparr>ei_ShortDestinationName = gostr ''NWRFC'',
        ei_LogicalUnitName = short (se_localAddress s) 8, ei_TransactionProgramName = se_service s,
        ei_ConnectionType = 0x49, ei_ClientInfo = 1, ei_CommunicationIndex = 0, ei_ConnectionIndex = 0xffff\<rparr>,
      cr_PartnerLogicalUnitInfo = None, cr_Parameters = params\<rparr>"

definition initialize_stage :: "'t link \<Rightarrow> host_env \<Rightarrow> ('t, unit) sess" where
  "initialize_stage L env s =
     (sm_bind (sm_lift (map_err SeAppc (EncodeInitializeParameters
          \<lparr>ip_ClientIdentifier = gostr ''NWRFC'', ip_Options = initialize_options env s\<rparr>))) (\<lambda>initParams.
      sm_bind (sm_lift (map_err SeAppc (EncodeControlRecord (initialize_record s initParams)))) (\<lambda>initialize.
      sm_bind (se_sent FuncInitialize True) (\<lambda>_.
      sm_bind (se_send L initialize) (\<lambda>_.
      sm_bind (se_receive L) (\<lambda>initReply.
      sm_bind (se_received initReply) (\<lambda>_.
      sm_bind (sm_lift (map_err SeAppc (DecodeHeader initReply))) (\<lambda>initHeader.
      sm_bind (sm_lift (fail_if (length initReply < RecordHeaderLength) SeSession)) (\<lambda>_.
      sm_bind (sm_lift (map_err SeAppc
          (DecodeExtendedInfo (gslice CommonHeaderLength RecordHeaderLength initReply)))) (\<lambda>initInfo.
      \<lambda>s. (Inr (), s\<lparr>se_conversationID := h_ConversationID initHeader,
                      se_connectionIndex := ei_ConnectionIndex initInfo\<rparr>)))))))))))
     (s\<lparr>se_setup := NewClientSetupStateMachine\<rparr>)"

definition partner_record :: "'t session \<Rightarrow> bytes \<Rightarrow> control_record_input" where
  "partner_record s params =
     \<lparr>cr_Header = no_overrides\<lparr>in_ConversationID := Some (se_conversationID s), in_Info2 := Some 1, in_Info := Some 4\<rparr>,
      cr_FunctionCode = FuncSetPartnerLuName, cr_ExtendedInfo = None,
      cr_PartnerLogicalUnitInfo = Some \<lparr>pl_LogicalUnitName = se_localAddress s,
        pl_PartnerHostAddress = replicate 16 0, pl_CommunicationIndex = 0xffff,
        pl_ConnectionIndex = se_connectionIndex s\<rparr>,
      cr_Parameters = params\<rparr>"

definition partner_stage :: "'t link \<Rightarrow> ('t, unit) sess" where
  "partner_stage L s =
     (sm_bind (se_sent FuncSetPartnerLuName True) (\<lambda>_.
      sm_bind (sm_lift (mustPartnerParams (se_localAddress s))) (\<lambda>params.
      sm_bind (sm_lift (map_err SeAppc (EncodeControlRecord (partner_record s params)))) (\<lambda>setPartner.
      se_send L setPartner)))) s"

definition allocate_record :: "'t session \<Rightarrow> control_record_input" where
  "allocate_record s =
     \<lparr>cr_Header = no_overrides\<lparr>in_ConversationID := Some (se_conversationID s), in_Info := Some 1\<rparr>,
      cr_FunctionCode = FuncAllocate,
      cr_ExtendedInfo = Some (defaultExtendedInfo\<lparr>ei_CommunicationIndex := 0xffff,
        ei_ConnectionIndex := se_connectionIndex s\<rparr>),
      cr_PartnerLogicalUnitInfo = None, cr_Parameters = []\<rparr>"

definition allocate_stage :: "'t link \<Rightarrow> ('t, unit) sess" where
  "allocate_stage L s =
     (sm_bind (se_sent FuncAllocate True) (\<lambda>_.
      sm_bind (sm_lift (map_err SeAppc (EncodeControlRecord (allocate_record s)))) (\<lambda>allocate.
      sm_bind (se_send L allocate) (\<lambda>_.
      sm_bind (se_receive L) (\<lambda>allocReply.
      sm_bind (se_received allocReply) (\<lambda>_. sm_return ())))))) s"

definition handshake :: "'t link \<Rightarrow> host_env \<Rightarrow> ('t, unit) sess" where
  "handshake L env =
     sm_bind (gateway_stage L env) (\<lambda>_.
     sm_bind (initialize_stage L env) (\<lambda>_.
     sm_bind (partner_stage L) (\<lambda>_.
     allocate_stage L)))"

section \<open>Sending a request\<close>

fun write_steps :: "'t link \<Rightarrow> outgoing_data_fragment list \<Rightarrow> ('t, unit) sess" where
  "write_steps L [] = sm_return ()"
| "write_steps L (f # fs) =
     sm_bind (sm_lift (map_err SeAppc (EncodeOutgoingDataFragment f))) (\<lambda>rcd.
     sm_bind (se_sent (of_FunctionCode f) (of_FunctionCode f = FuncSapSend \<or> of_FunctionCode f = FuncReceive)) (\<lambda>_.
     sm_bind (se_send L rcd) (\<lambda>_.
     sm_bind (if of_FunctionCode f = FuncSendData
        then sm_bind (se_receive L) (\<lambda>ack.
             sm_bind (sm_lift (map_err SeAppc (DecodeSynchronousSendAcknowledgement ack))) (\<lambda>_.
             sm_bind (se_received ack) (\<lambda>_. sm_return ())))
        else sm_return ()) (\<lambda>_.
     write_steps L fs))))"

definition writeDataPlan :: "'t link \<Rightarrow> outgoing_data_fragment list \<Rightarrow> ('t, unit) sess" where
  "writeDataPlan L plan s = (if length plan = 0 then (Inl SeSession, s) else write_steps L plan s)"

definition session_plan_input :: "'t session \<Rightarrow> bytes \<Rightarrow> bytes option \<Rightarrow> outgoing_data_plan_input" where
  "session_plan_input s appData finalSap =
     \<lparr>pn_Header = no_overrides\<lparr>in_ConversationID := Some (se_conversationID s)\<rparr>, pn_ApplicationData = appData,
      pn_FinalSapParameters = finalSap, pn_CommunicationIndex = 0xffff, pn_ConnectionIndex = se_connectionIndex s\<rparr>"

definition session_plan_options :: outgoing_data_planner_options where
  "session_plan_options =
     \<lparr>po_MaxApplicationDataLength = None, po_MaxFragments = None, po_CpicStreaming = StreamingDisabled\<rparr>"

definition sendData :: "'t link \<Rightarrow> bytes \<Rightarrow> bytes option \<Rightarrow> ('t, bool) sess" where
  "sendData L appData finalSap s =
     (if se_closed s then (Inl SeSession, s)
      else (sm_bind (sm_lift (map_err SeAppc
               (PlanOutgoingDataFragments (session_plan_input s appData finalSap) session_plan_options))) (\<lambda>plan.
            sm_bind (writeDataPlan L plan) (\<lambda>_.
            sm_return (length plan > 0 \<and> of_FunctionCode (plan ! 0) = FuncAsyncSendData)))) s)"

definition sendRequest :: "'t link \<Rightarrow> bytes \<Rightarrow> ('t, bool) sess" where
  "sendRequest L request =
     sm_bind (sm_lift (map_err SeCpic (InspectRequestAppcFraming request))) (\<lambda>f.
     sendData L (take (rf_ApplicationDataLength f) request)
       (if rf_FinalSapParameterLength f \<noteq> 0 then Some (drop (rf_ApplicationDataLength f) request) else None))"

section \<open>Receiving a reply\<close>

definition reply_decoder_options :: "bool \<Rightarrow> conversation_decoder_options" where
  "reply_decoder_options allowInitialReceive =
     \<lparr>co_MaxMessageLength = None, co_MaxFragments = None, co_AllowInitialReceive = allowInitialReceive,
      co_ValidateIncomingDataOperationInfo = True\<rparr>"

text \<open>The decoder of a reply is made when its first record has been accepted.\<close>

definition reply_decoder :: "bool \<Rightarrow> conversation_decoder option \<Rightarrow> appc_error + conversation_decoder" where
  "reply_decoder allowInitialReceive decoder =
     (case decoder of None \<Rightarrow> NewConversationDecoder (reply_decoder_options allowInitialReceive) | Some d \<Rightarrow> Inr d)"

definition push_reply :: "ReceiveDisposition \<Rightarrow> bytes \<Rightarrow> conversation_decoder \<Rightarrow>
    appc_error + appc_message list \<times> conversation_decoder" where
  "push_reply disposition payload d =
     (if disposition = DispositionNormalDeallocation then PushTerminalDeallocation payload d
      else Appc_Conversation.Push payload d)"

text \<open>What follows a complete message: the decoder is finished, the identity checked, the state advanced.\<close>

definition accept_message :: "ReceiveDisposition \<Rightarrow> appc_message list \<Rightarrow> conversation_decoder \<Rightarrow> ('t, bytes) sess" where
  "accept_message disposition messages d s =
     (if length messages \<noteq> 1 then (Inl SeSession, s)
      else case Appc_Conversation.Finish d of
        Inl e \<Rightarrow> (Inl (SeAppc e), s)
      | Inr _ \<Rightarrow>
          let message = messages ! 0 in
          if length (ms_ConversationID message) \<noteq> 8 \<or> ms_ConversationID message \<noteq> se_conversationID s \<or>
             ms_CommunicationIndex message \<noteq> 0 \<or> ms_ConnectionIndex message \<noteq> se_connectionIndex s
          then (Inl SeSession, s)
          else if disposition = DispositionNormalDeallocation
            then (Inr (ms_Data message), s\<lparr>se_closed := True\<rparr>)
          else (case se_response_complete s of
                  (Inl e, s') \<Rightarrow> (Inl e, s')
                | (Inr _, s') \<Rightarrow> (Inr (ms_Data message), s')))"

text \<open>
  The loop ends for every transport: a record is accepted in at most one state other than
  response-pending, and in that one it is a data record, which the reassembler counts.
\<close>

definition reply_budget :: "conversation_decoder option \<Rightarrow> nat" where
  "reply_budget decoder =
     (case decoder of None \<Rightarrow> nat DefaultMaxMessageFragments | Some d \<Rightarrow> nat (cd_maxFragments d - FragmentCount d))"

definition reply_rank :: "client_setup_machine \<Rightarrow> nat" where
  "reply_rank m = (if m_state m \<in> {StateInitializePending, StateAllocatePending, StateSendBarrierPending} then 2
                   else if m_state m = StateResponsePending then 1 else 0)"

lemma push_no_message:
  assumes "push d payload term = Inr ([], d')" "DecodeHeader payload = Inr h"
    and "h_FunctionCode h = FuncSapSend \<or> h_FunctionCode h = FuncReceive"
  shows "cd_maxFragments d' = cd_maxFragments d \<and> FragmentCount d' = FragmentCount d + 1 \<and>
     FragmentCount d' \<le> cd_maxFragments d"
proof -
  obtain f oi where "push_terminal d h f oi = Inr ([], d') \<or> push_ordinary d h f oi = Inr ([], d')"
    using assms by (auto simp: push_def bindE_Inr_iff split: if_splits)
  then show ?thesis
    by (auto simp: push_terminal_def push_ordinary_def push_first_def bindE_Inr_iff checkLimits_Inr FragmentCount_def
        newPending_def Let_def split: if_splits option.splits)
qed

lemma Received_data:
  assumes "Received payload m = (Inr disposition, m')"
  shows "reply_rank m' < reply_rank m \<or>
     (reply_rank m' = reply_rank m \<and> (\<exists>h. DecodeHeader payload = Inr h \<and>
        (h_FunctionCode h = FuncSapSend \<or> h_FunctionCode h = FuncReceive)))"
  using assms
  by (auto simp: Received_def Let_def reply_rank_def received_allowed_def split: if_splits sum.splits)

lemma NewConversationDecoder_fragments:
  "NewConversationDecoder (reply_decoder_options a) = Inr d \<Longrightarrow>
     cd_maxFragments d = DefaultMaxMessageFragments \<and> FragmentCount d = 0"
  by (auto simp: NewConversationDecoder_def reply_decoder_options_def val_or_def FragmentCount_def Let_def
      split: if_splits)

lemma reply_progress:
  assumes rcv: "Received payload m = (Inr disposition, m')"
    and dec: "reply_decoder a decoder = Inr d" and push: "push_reply disposition payload d = Inr ([], d')"
  shows "reply_rank m' < reply_rank m \<or> reply_rank m' = reply_rank m \<and> reply_budget (Some d') < reply_budget decoder"
proof (cases "reply_rank m' < reply_rank m")
  case False
  then obtain h where "DecodeHeader payload = Inr h" "h_FunctionCode h = FuncSapSend \<or> h_FunctionCode h = FuncReceive"
    and rank: "reply_rank m' = reply_rank m"
    using Received_data [OF rcv] by auto
  moreover obtain terminal where "push d payload terminal = Inr ([], d')"
    using push by (auto simp: push_reply_def Appc_Conversation.Push_def PushTerminalDeallocation_def split: if_splits)
  ultimately have step: "cd_maxFragments d' = cd_maxFragments d" "FragmentCount d' = FragmentCount d + 1"
    "FragmentCount d' \<le> cd_maxFragments d"
    using push_no_message [of d payload terminal d' h] by blast+
  have "reply_budget decoder = nat (cd_maxFragments d - FragmentCount d)"
    using dec NewConversationDecoder_fragments [of a d]
    by (auto simp: reply_decoder_def reply_budget_def split: option.splits)
  with step rank show ?thesis by (auto simp: reply_budget_def)
qed simp

lemma setup_received: "se_receive L s = (Inr b, y) \<Longrightarrow> se_setup y = se_setup s"
  by (auto simp: se_receive_def split: prod.splits)

function receive_reply ::
    "'t link \<Rightarrow> bool \<Rightarrow> conversation_decoder option \<Rightarrow> 't session \<Rightarrow> (session_error + bytes) \<times> 't session" where
  "receive_reply L allowInitialReceive decoder s =
     (case se_receive L s of
        (Inl e, s1) \<Rightarrow> (Inl e, s1)
      | (Inr payload, s1) \<Rightarrow>
          (case Received payload (se_setup s1) of
             (Inl e, m) \<Rightarrow> (Inl (SeAppc e), s1\<lparr>se_setup := m\<rparr>)
           | (Inr disposition, m) \<Rightarrow>
               (let s2 = s1\<lparr>se_setup := m\<rparr> in
                case reply_decoder allowInitialReceive decoder of
                  Inl e \<Rightarrow> (Inl (SeAppc e), s2)
                | Inr d \<Rightarrow>
                    (case push_reply disposition payload d of
                       Inl e \<Rightarrow> (Inl (SeAppc e), s2)
                     | Inr (messages, d') \<Rightarrow>
                         if length messages = 0 then receive_reply L allowInitialReceive (Some d') s2
                         else accept_message disposition messages d' s2))))"
  by pat_completeness auto
termination
proof (relation "measures [\<lambda>(L, a, decoder, s). reply_rank (se_setup s), \<lambda>(L, a, decoder, s). reply_budget decoder]")
qed (auto simp: setup_received [OF sym] dest!: reply_progress [OF sym])

declare receive_reply.simps [simp del]

definition receiveMessage :: "'t link \<Rightarrow> bool \<Rightarrow> ('t, bytes) sess" where
  "receiveMessage L allowInitialReceive = receive_reply L allowInitialReceive None"

definition exchange :: "'t link \<Rightarrow> bytes \<Rightarrow> ('t, bytes) sess" where
  "exchange L request = sm_bind (sendRequest L request) (\<lambda>async. receiveMessage L async)"

end
