(* ===== verification/Session_Handshake.thy ===== *)
theory Session_Handshake
  imports Session
begin

text \<open>
  The handshake of a session: what any run of it guarantees, and that it completes when the partner accepts. The transport is the
  interface \<open>record_link\<close>, which the package's own transport implements.
\<close>

section \<open>The handshake: lemmas\<close>

text \<open>The parts of a session that its calls of the transport and of the set-up machine leave alone.\<close>

definition same_session :: "'t session \<Rightarrow> 't session \<Rightarrow> bool" where
  "same_session s s' \<longleftrightarrow> se_conversationID s' = se_conversationID s \<and> se_connectionIndex s' = se_connectionIndex s \<and>
     se_localAddress s' = se_localAddress s \<and> se_programName s' = se_programName s \<and> se_service s' = se_service s \<and>
     se_closed s' = se_closed s"

lemma same_session_trans: "same_session a b \<Longrightarrow> same_session b c \<Longrightarrow> same_session a c"
  by (simp add: same_session_def)

lemma se_call_same:
  "se_receive L s = (r, s') \<Longrightarrow> same_session s s' \<and> se_setup s' = se_setup s"
  "se_send L p s = (r', s') \<Longrightarrow> same_session s s' \<and> se_setup s' = se_setup s"
  "se_sent fc fin s = (r', s') \<Longrightarrow> same_session s s'"
  "se_received p s = (r'', s') \<Longrightarrow> same_session s s'"
  by (auto simp: same_session_def se_receive_def se_send_def se_sent_def se_received_def split: prod.splits)

lemma se_sent_Inr:
  "se_sent fc fin s = (Inr u, s') \<Longrightarrow> Sent fc fin (se_setup s) = (Inr (), se_setup s')"
  by (auto simp: se_sent_def map_err_Inr_iff split: prod.splits)

lemma se_received_Inr:
  "se_received p s = (Inr r, s') \<Longrightarrow> Received p (se_setup s) = (Inr r, se_setup s')"
  by (auto simp: se_received_def map_err_Inr_iff split: prod.splits)

lemma Sent_state: "Sent fc fin m = (Inr u, m') \<Longrightarrow> sent_allowed (m_state m) fc \<and> m_state m' = sent_next fc fin (m_state m)"
  by (auto simp: Sent_def split: if_splits)

lemma Received_state:
  "Received p m = (Inr r, m') \<Longrightarrow> m_state m \<noteq> StateResponsePending \<Longrightarrow>
     m_state m' = received_next (m_state m) \<and> (\<exists>fc. received_allowed (m_state m) fc)"
  by (auto simp: Received_def Let_def split: if_splits sum.splits)

lemma decimal_digit_text: "k < 10 \<Longrightarrow> printable_byte (of_nat (48 + k))"
  by (simp only: printable_byte_def word_le_nat_alt digit_unat) simp

lemma decimal_byte_text: "printable (decimal_byte b) \<and> length (decimal_byte b) \<le> 3"
proof -
  have "unat b div 100 < 10" using unsigned_less [of b, where ?'a = nat] by simp
  then show ?thesis
    by (auto simp: decimal_byte_def printable_def Let_def simp del: of_nat_add intro!: decimal_digit_text)
qed

lemma ipv4_text: "encodeIPv4 a = Inr ip \<Longrightarrow> printable a \<and> length a \<le> 15"
proof -
  assume "encodeIPv4 a = Inr ip"
  then have a: "a = decodeIPv4 ip" using decodeIPv4_encodeIPv4 by simp
  have "printable [46]" by (simp add: printable_def printable_byte_def)
  then have p: "printable a"
    using decimal_byte_text by (simp add: a decodeIPv4_def printable_append del: append_Cons append_Nil)
  have "length (decimal_byte (ip ! 0)) \<le> 3" "length (decimal_byte (ip ! 1)) \<le> 3"
    "length (decimal_byte (ip ! 2)) \<le> 3" "length (decimal_byte (ip ! 3)) \<le> 3"
    using decimal_byte_text by blast+
  then show ?thesis using p by (simp add: a decodeIPv4_def)
qed

text \<open>The address that the gateway record checks never makes \<open>mustPartnerParams\<close> panic.\<close>

lemma mustPartnerParams_total: "encodeIPv4 a = Inr ip \<Longrightarrow> \<exists>b. mustPartnerParams a = Inr b \<and> length b = 144"
  using ipv4_text [of a ip]
  by (auto simp: mustPartnerParams_def map_err_Inr_iff EncodePartnerParameters_Inr pad_to_length)

definition may_panic :: "(session_error + 'a) \<times> 't session \<Rightarrow> bool" where
  "may_panic r \<longleftrightarrow> fst r = Inl SePanic"

lemma no_panic_bind:
  "\<not> may_panic (m s) \<Longrightarrow> (\<And>a s'. m s = (Inr a, s') \<Longrightarrow> \<not> may_panic (f a s')) \<Longrightarrow> \<not> may_panic (sm_bind m f s)"
  by (auto simp: may_panic_def sm_bind_def split: prod.splits sum.splits)

lemma map_err_Inl_iff: "map_err g r = Inl e \<longleftrightarrow> (\<exists>x. r = Inl x \<and> e = g x)"
  by (cases r) auto

lemma no_panic_calls:
  "\<not> may_panic (se_send L p s)" "\<not> may_panic (se_receive L s)" "\<not> may_panic (se_sent fc fin s)"
  "\<not> may_panic (se_received p s)" "\<not> may_panic (sm_lift (map_err SeAppc r1) s)"
  "\<not> may_panic (sm_lift (map_err SeGateway r2) s)" "\<not> may_panic (sm_lift (fail_if c SeSession) s)"
  "\<not> may_panic (sm_return u s)" "\<not> may_panic (Inr u', s)"  "\<not> may_panic (sm_lift (check_gateway_reply g) s)"
  by (auto simp: may_panic_def se_send_def se_receive_def se_sent_def se_received_def sm_lift_def
      fail_if_def sm_return_def check_gateway_reply_def map_err_Inl_iff split: prod.splits)

lemma gateway_stage_Inr:
  assumes "gateway_stage L env s = (Inr (), s')"
  shows "same_session s s' \<and> (\<exists>ip. encodeIPv4 (se_localAddress s) = Inr ip)"
  using assms
  by (auto simp: gateway_stage_def sm_Inr_iffs map_err_Inr_iff EncodeNormalClient_Inr normal_client_ok_def
      gateway_request_def dest!: se_call_same(1,2) intro: same_session_trans)

lemma gateway_stage_no_panic: "\<not> may_panic (gateway_stage L env s)"
  unfolding gateway_stage_def by (intro no_panic_bind no_panic_calls)

lemma initialize_stage_no_panic: "\<not> may_panic (initialize_stage L env s)"
  unfolding initialize_stage_def by (intro no_panic_bind no_panic_calls)

lemma allocate_stage_no_panic: "\<not> may_panic (allocate_stage L s)"
  unfolding allocate_stage_def by (intro no_panic_bind no_panic_calls)

lemma partner_stage_no_panic: "encodeIPv4 (se_localAddress s) = Inr ip \<Longrightarrow> \<not> may_panic (partner_stage L s)"
  using mustPartnerParams_total [of "se_localAddress s" ip]
  unfolding partner_stage_def
  by (intro no_panic_bind no_panic_calls) (auto simp: may_panic_def sm_lift_def)

lemma initialize_stage_Inr:
  assumes "initialize_stage L env s = (Inr (), s')"
  shows "m_state (se_setup s') = StateInitialized \<and> length (se_conversationID s') = 8 \<and>
     se_localAddress s' = se_localAddress s \<and> se_closed s' = se_closed s"
proof -
  from assms obtain s1 s2 s3 s4 p r h i where
    c: "se_sent FuncInitialize True (s\<lparr>se_setup := NewClientSetupStateMachine\<rparr>) = (Inr (), s1)"
    "se_send L p s1 = (Inr (), s2)" "se_receive L s2 = (Inr r, s3)" "se_received r s3 = (Inr i, s4)"
    "DecodeHeader r = Inr h"
    and s': "se_setup s' = se_setup s4" "se_conversationID s' = h_ConversationID h"
    "se_localAddress s' = se_localAddress s4" "se_closed s' = se_closed s4"
    by (auto simp: initialize_stage_def sm_Inr_iffs map_err_Inr_iff)
  have "m_state (se_setup s1) = StateInitializePending"
    using Sent_state [OF se_sent_Inr [OF c(1)]]  by (simp add: sent_next_def)
  then have "m_state (se_setup s4) = StateInitialized"
    using Received_state [OF se_received_Inr [OF c(4)]] se_call_same(1) [OF c(3)] se_call_same(2) [OF c(2)] by simp
  moreover have "length (h_ConversationID h) = 8"
    using c(5) DecodeHeader_iff header_ok_def by metis
  ultimately show ?thesis
    using s' se_call_same(3) [OF c(1)] se_call_same(2) [OF c(2)] se_call_same(1) [OF c(3)] se_call_same(4) [OF c(4)]
    by (auto simp: same_session_def)
qed

lemma partner_stage_Inr:
  assumes "partner_stage L s = (Inr (), s')"
  shows "m_state (se_setup s') = StatePartnerSet \<and> same_session s s'"
proof -
  from assms obtain s1 p where c: "se_sent FuncSetPartnerLuName True s = (Inr (), s1)" "se_send L p s1 = (Inr (), s')"
    by (auto simp: partner_stage_def sm_Inr_iffs)
  then show ?thesis
    using Sent_state [OF se_sent_Inr [OF c(1)]] se_call_same(2) [OF c(2)] se_call_same(3) [OF c(1)] same_session_trans
    by (auto simp: sent_next_def func_codes)
qed

lemma allocate_stage_Inr:
  assumes "allocate_stage L s = (Inr (), s')"
  shows "m_state (se_setup s') = StateReady \<and> same_session s s'"
proof -
  from assms obtain s1 s2 s3 p r i where c: "se_sent FuncAllocate True s = (Inr (), s1)"
    "se_send L p s1 = (Inr (), s2)" "se_receive L s2 = (Inr r, s3)" "se_received r s3 = (Inr i, s')"
    by (auto simp: allocate_stage_def sm_Inr_iffs)
  have "m_state (se_setup s1) = StateAllocatePending"
    using Sent_state [OF se_sent_Inr [OF c(1)]] by (simp add: sent_next_def func_codes)
  then have "m_state (se_setup s') = StateReady"
    using Received_state [OF se_received_Inr [OF c(4)]] se_call_same(1) [OF c(3)] se_call_same(2) [OF c(2)] by simp
  then show ?thesis
    using se_call_same(3) [OF c(1)] se_call_same(2) [OF c(2)] se_call_same(1) [OF c(3)] se_call_same(4) [OF c(4)]
    by (auto simp: same_session_def)
qed

lemma handshake_no_panic: "\<not> may_panic (handshake L env s)"
  unfolding handshake_def
proof (intro no_panic_bind gateway_stage_no_panic initialize_stage_no_panic allocate_stage_no_panic)
  fix s1 s2 u v assume "gateway_stage L env s = (Inr u, s1)" "initialize_stage L env s1 = (Inr v, s2)"
  then obtain ip where "encodeIPv4 (se_localAddress s2) = Inr ip"
    using gateway_stage_Inr [of L env s s1] initialize_stage_Inr [of L env s1 s2] by (auto simp: same_session_def)
  then show "\<not> may_panic (partner_stage L s2)" by (rule partner_stage_no_panic)
qed

lemma handshake_Inr:
  "handshake L env s = (Inr (), s') \<Longrightarrow>
     m_state (se_setup s') = StateReady \<and> length (se_conversationID s') = 8 \<and>
     (\<exists>ip. encodeIPv4 (se_localAddress s') = Inr ip) \<and> se_closed s' = se_closed s"
  by (auto simp: handshake_def sm_bind_Inr_iff same_session_def
      dest!: gateway_stage_Inr initialize_stage_Inr partner_stage_Inr allocate_stage_Inr)


section \<open>The link interface\<close>

text \<open>
  What a session needs of its transport: records arrive in order, and a record that fits the
  NI length field is sent. \<open>carries t ins outs\<close> says that \<open>t\<close> will deliver \<open>ins\<close> and has sent \<open>outs\<close>.
\<close>

locale record_link =
  fixes L :: "'t link"
    and carries :: "'t \<Rightarrow> bytes list \<Rightarrow> bytes list \<Rightarrow> bool"
  assumes receive_next: "carries t (b # ins) outs \<Longrightarrow> \<exists>t'. lk_Receive L t = (Inr b, t') \<and> carries t' ins outs"
    and send_next: "carries t ins outs \<Longrightarrow> length p < 2 ^ 32 \<Longrightarrow>
      \<exists>t'. lk_Send L p t = (Inr (), t') \<and> carries t' ins (outs @ [p])"
begin

lemma se_receive_next:
  "carries (se_transport s) (b # ins) outs \<Longrightarrow>
     \<exists>t'. se_receive L s = (Inr b, s\<lparr>se_transport := t'\<rparr>) \<and> carries t' ins outs"
  using receive_next [of "se_transport s" b ins outs] by (auto simp: se_receive_def)

lemma se_send_next:
  "carries (se_transport s) ins outs \<Longrightarrow> length p < 2 ^ 32 \<Longrightarrow>
     \<exists>t'. se_send L p s = (Inr (), s\<lparr>se_transport := t'\<rparr>) \<and> carries t' ins (outs @ [p])"
  using send_next [of "se_transport s" ins outs p] by (auto simp: se_send_def)

end

text \<open>The package's transport is such a link when its reads and writes do not fail.\<close>

definition transport_link :: "transport link" where
  "transport_link = \<lparr>lk_Send = Send, lk_Receive = Receive\<rparr>"

definition transport_carries :: "transport \<Rightarrow> bytes list \<Rightarrow> bytes list \<Rightarrow> bool" where
  "transport_carries t ins outs \<longleftrightarrow> delivers t ins \<and> cn_writes (tr_conn t) = [] \<and>
     list_all2 (\<lambda>p f. EncodeFrame p = Inr f) outs (cn_written (tr_conn t))"

lemma take_read_writes: "take_read b t = (r, t') \<Longrightarrow> cn_writes (tr_conn t') = cn_writes (tr_conn t)"
  by (auto simp: take_read_def split: if_splits prod.splits sum.splits)

lemma receive_loop_writes: "receive_loop t = (r, t') \<Longrightarrow> cn_writes (tr_conn t') = cn_writes (tr_conn t)"
proof (induction t rule: receive_loop.induct)
  case (1 t)
  then show ?case
    by (subst (asm) (2) receive_loop.simps)
      (auto split: if_splits list.splits net_event.splits prod.splits sum.splits option.splits io_error.splits
        dest!: take_read_writes)
qed

lemma Receive_writes: "Receive t = (r, t') \<Longrightarrow> cn_writes (tr_conn t') = cn_writes (tr_conn t)"
  by (auto simp: Receive_def split: prod.splits sum.splits dest!: receive_loop_writes)

lemma EncodeFrame_total: "length p < 2 ^ 32 \<Longrightarrow> \<exists>f. EncodeFrame p = Inr f"
  by (simp add: EncodeFrame_layout)

lemma delivers_written [simp]: "delivers (t\<lparr>tr_conn := tr_conn t\<lparr>cn_written := w\<rparr>\<rparr>) ins = delivers t ins"
  by (simp add: delivers_def)

interpretation socket: record_link transport_link transport_carries
proof
  show "\<exists>t'. lk_Receive transport_link t = (Inr b, t') \<and> transport_carries t' ins outs"
    if "transport_carries t (b # ins) outs" for t b ins outs
    using that Receive_Cons [of t b ins] Receive_writes [of t "Inr b"]
    unfolding transport_carries_def transport_link_def by (metis link.select_convs(2))
  show "\<exists>t'. lk_Send transport_link p t = (Inr (), t') \<and> transport_carries t' ins (outs @ [p])"
    if "transport_carries t ins outs" "length p < 2 ^ 32" for t ins outs p
    using that EncodeFrame_total [OF that(2)]
    by (auto simp: transport_carries_def transport_link_def Send_def conn_write_def
        intro!: list_all2_appendI)
qed

text \<open>A session in which a request may be sent.\<close>

definition session_ready :: "'t session \<Rightarrow> bool" where
  "session_ready s \<longleftrightarrow> m_state (se_setup s) = StateReady \<and> length (se_conversationID s) = 8 \<and> \<not> se_closed s"

definition in_state :: "ClientSetupState \<Rightarrow> 't session \<Rightarrow> 't \<Rightarrow> 't session" where
  "in_state st s t = s\<lparr>se_transport := t, se_setup := \<lparr>m_state = st\<rparr>\<rparr>"

lemma in_state_ready: "session_ready s \<Longrightarrow> session_ready (in_state StateReady s t)"
  by (simp add: session_ready_def in_state_def)


lemma control_record_shape:
  assumes "EncodeControlRecord i = Inr b"
  shows "DecodeHeader b = Inr (header_of (cr_FunctionCode i) (cr_Header i) (length (cr_Parameters i)))"
    "length b = 80 + length (cr_Parameters i)"
proof -
  obtain op where "encodeRecord (cr_FunctionCode i) (cr_Header i) op (length (cr_Parameters i))
       [cr_Parameters i] ''APPC control record'' = Inr b"
    using assms by (auto simp: EncodeControlRecord_def bindE_Inr_iff)
  note r = encodeRecord_decode [OF this]
  show "DecodeHeader b = Inr (header_of (cr_FunctionCode i) (cr_Header i) (length (cr_Parameters i)))"
    "length b = 80 + length (cr_Parameters i)"
    using r by simp_all
qed

section \<open>Completion of the handshake\<close>

lemma short_length: "length (short v n) \<le> n"
  by (simp add: short_def)

lemma short_printable: "printable v \<Longrightarrow> printable (short v n)"
  by (simp add: short_def printable_take)

lemma hex_upper_pattern: "n < 16 \<Longrightarrow> (0x30 \<le> hex_upper n \<and> hex_upper n \<le> 0x39) \<or> (0x41 \<le> hex_upper n \<and> hex_upper n \<le> 0x46)"
proof -
  assume "n < 16"
  then consider "n < 10" "unat (hex_upper n) = 48 + n" | "\<not> n < 10" "n < 16" "unat (hex_upper n) = 55 + n"
    by (cases "n < 10") (simp_all add: hex_upper_def unat_of_nat del: of_nat_add)
  then show ?thesis
    by cases (simp_all only: word_le_nat_alt, simp_all)
qed

lemma hexSessionID_pattern: "length b = 8 \<Longrightarrow> hexIDPattern (hexSessionID b)"
proof -
  assume "length b = 8"
  moreover have "length (hexSessionID b) = 2 * length b"
    by (induction b) (simp_all add: hexSessionID_def)
  moreover have "unat x div 16 < 16 \<and> unat x mod 16 < 16" for x :: byte
    using unsigned_less [of x, where ?'a = nat] by simp
  then have "list_all (\<lambda>b. (0x30 \<le> b \<and> b \<le> 0x39) \<or> (0x41 \<le> b \<and> b \<le> 0x46)) (hexSessionID b)"
    using hex_upper_pattern by (induction b) (auto simp: hexSessionID_def)
  ultimately show ?thesis by (simp add: hexIDPattern_def)
qed

text \<open>The configuration a handshake needs: printable names, an IPv4 address, a short service, 8 random bytes twice.\<close>

definition handshake_config :: "host_env \<Rightarrow> 't session \<Rightarrow> bool" where
  "handshake_config env s \<longleftrightarrow> (\<exists>ip. encodeIPv4 (se_localAddress s) = Inr ip) \<and> printable (se_programName s) \<and>
     printable (se_service s) \<and> length (se_service s) \<le> 8 \<and> printable (he_hostname env) \<and>
     printable (he_username env) \<and> length (he_rootRandom env) = 8 \<and> length (he_connectionRandom env) = 8"

lemma gateway_request_encodes:
  assumes "handshake_config env s"
  shows "\<exists>b. EncodeNormalClient (gateway_request env s) = Inr b \<and> length b = 64"
proof -
  obtain ip where ip: "encodeIPv4 (se_localAddress s) = Inr ip" using assms by (auto simp: handshake_config_def)
  have "text_ok 10 (short (se_programName s) 9)" "text_ok 8 (short (se_programName s) 8)"
    "text_ok 8 (short (he_hostname env) 8)" "text_ok 8 []"
    using assms short_length [of "se_programName s" 9] short_length [of _ 8] printable_def [of "[]"]
    by (auto simp: handshake_config_def text_ok_def short_printable intro: le_trans)
  then have ok: "normal_client_ok (gateway_request env s) ip"
    using ip by (simp add: normal_client_ok_def gateway_request_def codePagePattern_def digit_byte_def gostr_def)
  then show ?thesis using normal_client_layout_length by (auto simp: EncodeNormalClient_Inr)
qed

lemma initialize_record_encodes:
  assumes "handshake_config env s"
  shows "\<exists>p b. EncodeInitializeParameters \<lparr>ip_ClientIdentifier = gostr ''NWRFC'', ip_Options = initialize_options env s\<rparr> = Inr p \<and>
     EncodeControlRecord (initialize_record s p) = Inr b"
proof -
  obtain ip where "encodeIPv4 (se_localAddress s) = Inr ip" using assms by (auto simp: handshake_config_def)
  note addr = ipv4_text [OF this]
  have nw: "printable (gostr ''NWRFC'')" by (simp add: printable_def printable_byte_def gostr_def)
  have opts: "options_encodable (initialize_options env s)"
    using assms addr short_length [of "he_username env" 12]
    by (auto simp: options_encodable_def initialize_options_def handshake_config_def hexSessionID_pattern short_printable)
  then obtain p where p: "EncodeInitializeParameters
      \<lparr>ip_ClientIdentifier = gostr ''NWRFC'', ip_Options = initialize_options env s\<rparr> = Inr p" "length p = 373"
    using nw by (auto simp: EncodeInitializeParameters_Inr gostr_def pad_to_length options_length)
  moreover have "extended_info_encodable (the (cr_ExtendedInfo (initialize_record s p)))"
    using assms addr nw short_length [of "se_localAddress s" 8]
    by (auto simp: extended_info_encodable_def initialize_record_def handshake_config_def short_printable gostr_def)
  ultimately show ?thesis
    by (simp add: EncodeControlRecord_Inr initialize_record_def val_or_def conversation_or_zero_def controlFunctions_def
        func_codes)
qed

lemma partner_record_encodes:
  assumes "encodeIPv4 (se_localAddress s) = Inr ip" "length (se_conversationID s) = 8" "length p = 144"
  shows "\<exists>b. EncodeControlRecord (partner_record s p) = Inr b"
  using ipv4_text [OF assms(1)] assms(2,3)
  by (simp add: EncodeControlRecord_Inr partner_record_def val_or_def conversation_or_zero_def controlFunctions_def
      partner_encodable_def)

lemma allocate_record_encodes:
  assumes "length (se_conversationID s) = 8"
  shows "\<exists>b. EncodeControlRecord (allocate_record s) = Inr b"
  using assms
  by (simp add: EncodeControlRecord_Inr allocate_record_def val_or_def conversation_or_zero_def controlFunctions_def
      extended_info_encodable_def defaultExtendedInfo_def printable_def func_codes)

text \<open>A reply to a set-up record: long enough, of the function, without a return code.\<close>

definition setup_reply :: "Function \<Rightarrow> bytes \<Rightarrow> bool" where
  "setup_reply fc b \<longleftrightarrow> RecordHeaderLength \<le> length b \<and>
     (case DecodeHeader b of
        Inl e \<Rightarrow> False
      | Inr h \<Rightarrow> h_FunctionCode h = fc \<and> h_AppcReturnCode h = 0 \<and> h_SapReturnCode h = 0)"

lemma setup_reply_received:
  assumes "setup_reply fc b" "received_allowed (m_state m) fc"
  shows "Received b m = (Inr DispositionAccepted, m\<lparr>m_state := received_next (m_state m)\<rparr>)"
  using assms
  by (auto simp: setup_reply_def Received_def Let_def returnCodeDeallocatedNormal_def split: sum.splits)

context record_link
begin

lemma gateway_stage_completes:
  assumes "handshake_config env s" "carries (se_transport s) (g # ins) outs"
    and "DecodeNormalClient g = Inr r" "check_gateway_reply r = Inr ()"
  shows "\<exists>t b. gateway_stage L env s = (Inr (), s\<lparr>se_transport := t\<rparr>) \<and> carries t ins (outs @ [b]) \<and>
     EncodeNormalClient (gateway_request env s) = Inr b"
proof -
  obtain b where b: "EncodeNormalClient (gateway_request env s) = Inr b" "length b < 2 ^ 32"
    using gateway_request_encodes [OF assms(1)] by auto
  obtain t1 where t1: "se_send L b s = (Inr (), s\<lparr>se_transport := t1\<rparr>)" "carries t1 (g # ins) (outs @ [b])"
    using se_send_next [OF assms(2) b(2)] by blast
  obtain t2 where t2: "se_receive L (s\<lparr>se_transport := t1\<rparr>) = (Inr g, s\<lparr>se_transport := t2\<rparr>)" "carries t2 ins (outs @ [b])"
    using se_receive_next [of "s\<lparr>se_transport := t1\<rparr>" g ins "outs @ [b]"] t1(2) by auto
  show ?thesis
    using b(1) t1(1) t2 assms(3,4) by (auto simp: gateway_stage_def sm_bind_def sm_lift_def)
qed

text \<open>One request of the set-up machine and its reply.\<close>

lemma setup_send:
  assumes "carries (se_transport s) ins outs" "length b < 2 ^ 32" "se_sent fc True s = (Inr (), s1)"
  shows "\<exists>t. se_send L b s1 = (Inr (), s1\<lparr>se_transport := t\<rparr>) \<and> carries t ins (outs @ [b])"
proof -
  have "se_transport s1 = se_transport s" using assms(3) by (auto simp: se_sent_def split: prod.splits)
  then show ?thesis using se_send_next [of s1 ins outs b] assms(1,2) by simp
qed

lemma initialize_stage_completes:
  assumes "handshake_config env s" "carries (se_transport s) (a # ins) outs"
    and "setup_reply FuncInitialize a" "DecodeHeader a = Inr h"
    and "DecodeExtendedInfo (gslice CommonHeaderLength RecordHeaderLength a) = Inr i"
  shows "\<exists>t b. initialize_stage L env s = (Inr (), s\<lparr>se_transport := t, se_setup := \<lparr>m_state = StateInitialized\<rparr>,
       se_conversationID := h_ConversationID h, se_connectionIndex := ei_ConnectionIndex i\<rparr>) \<and>
     carries t ins (outs @ [b]) \<and> (\<exists>h'. DecodeHeader b = Inr h' \<and> h_FunctionCode h' = FuncInitialize)"
proof -
  let ?s = "s\<lparr>se_setup := NewClientSetupStateMachine\<rparr>"
  let ?s1 = "s\<lparr>se_setup := \<lparr>m_state = StateInitializePending\<rparr>\<rparr>"
  obtain p b where p: "EncodeInitializeParameters
      \<lparr>ip_ClientIdentifier = gostr ''NWRFC'', ip_Options = initialize_options env s\<rparr> = Inr p"
    "EncodeControlRecord (initialize_record s p) = Inr b"
    using initialize_record_encodes [OF assms(1)] by blast
  have same: "initialize_options env ?s = initialize_options env s" "initialize_record ?s = initialize_record s"
    by (simp_all add: initialize_options_def initialize_record_def fun_eq_iff)
  note b = control_record_shape [OF p(2)]
  have len: "length b < 2 ^ 32"
    using b(2) init_params.enc_length [OF p(1)] by (simp add: initialize_record_def)
  have sent: "se_sent FuncInitialize True ?s = (Inr (), ?s1)"
    by (simp add: se_sent_def Sent_def NewClientSetupStateMachine_def sent_allowed_def sent_next_def func_codes)
  obtain t1 where t1: "se_send L b ?s1 = (Inr (), ?s1\<lparr>se_transport := t1\<rparr>)" "carries t1 (a # ins) (outs @ [b])"
    using setup_send [OF _ len sent, of "a # ins" outs] assms(2) by auto
  obtain t2 where t2: "se_receive L (?s1\<lparr>se_transport := t1\<rparr>) = (Inr a, ?s1\<lparr>se_transport := t2\<rparr>)"
    "carries t2 ins (outs @ [b])"
    using se_receive_next [of "?s1\<lparr>se_transport := t1\<rparr>" a ins "outs @ [b]"] t1(2) by auto
  have rcv: "se_received a (?s1\<lparr>se_transport := t2\<rparr>) =
      (Inr DispositionAccepted, s\<lparr>se_transport := t2, se_setup := \<lparr>m_state = StateInitialized\<rparr>\<rparr>)"
    using setup_reply_received [OF assms(3), of "\<lparr>m_state = StateInitializePending\<rparr>"]
    by (simp add: se_received_def received_allowed_def)
  have "initialize_stage L env s = (Inr (), s\<lparr>se_transport := t2, se_setup := \<lparr>m_state = StateInitialized\<rparr>,
       se_conversationID := h_ConversationID h, se_connectionIndex := ei_ConnectionIndex i\<rparr>)"
    using p sent t1(1) t2(1) rcv assms(3-5)
    by (simp add: initialize_stage_def sm_bind_def sm_lift_def same fail_if_def setup_reply_def)
  then show ?thesis
    using t2(2) b(1) by (intro exI [of _ t2] exI [of _ b]) (simp add: initialize_record_def)
qed

lemma partner_stage_completes:
  assumes "encodeIPv4 (se_localAddress s) = Inr ip" "length (se_conversationID s) = 8"
    and "m_state (se_setup s) = StateInitialized" "carries (se_transport s) ins outs"
  shows "\<exists>t b. partner_stage L s = (Inr (), in_state StatePartnerSet s t) \<and> carries t ins (outs @ [b]) \<and>
     (\<exists>h. DecodeHeader b = Inr h \<and> h_FunctionCode h = FuncSetPartnerLuName \<and> h_ConversationID h = se_conversationID s)"
proof -
  let ?s1 = "s\<lparr>se_setup := \<lparr>m_state = StatePartnerSet\<rparr>\<rparr>"
  obtain p where p: "mustPartnerParams (se_localAddress s) = Inr p" "length p = 144"
    using mustPartnerParams_total [OF assms(1)] by blast
  obtain b where rcd: "EncodeControlRecord (partner_record s p) = Inr b"
    using partner_record_encodes [OF assms(1,2) p(2)] by blast
  note b = control_record_shape [OF this]
  have sent: "se_sent FuncSetPartnerLuName True s = (Inr (), ?s1)"
    using assms(3) by (simp add: se_sent_def Sent_def sent_allowed_def sent_next_def func_codes)
  have len: "length b < 2 ^ 32" using b(2) p(2) by (simp add: partner_record_def)
  obtain t where t: "se_send L b ?s1 = (Inr (), ?s1\<lparr>se_transport := t\<rparr>)" "carries t ins (outs @ [b])"
    using setup_send [OF assms(4) len sent] by blast
  have "partner_stage L s = (Inr (), in_state StatePartnerSet s t)"
    using sent p(1) rcd t(1) by (simp add: partner_stage_def sm_bind_def sm_lift_def in_state_def)
  then show ?thesis
    using t(2) b(1)
    by (intro exI [of _ t] exI [of _ b]) (simp add: partner_record_def conversation_or_zero_def val_or_def)
qed

lemma allocate_stage_completes:
  assumes "length (se_conversationID s) = 8" "m_state (se_setup s) = StatePartnerSet"
    and "carries (se_transport s) (a # ins) outs" "setup_reply FuncAllocate a"
  shows "\<exists>t b. allocate_stage L s = (Inr (), in_state StateReady s t) \<and> carries t ins (outs @ [b]) \<and>
     (\<exists>h. DecodeHeader b = Inr h \<and> h_FunctionCode h = FuncAllocate \<and> h_ConversationID h = se_conversationID s)"
proof -
  let ?s1 = "s\<lparr>se_setup := \<lparr>m_state = StateAllocatePending\<rparr>\<rparr>"
  obtain b where rcd: "EncodeControlRecord (allocate_record s) = Inr b"
    using allocate_record_encodes [OF assms(1)] by blast
  note b = control_record_shape [OF this]
  have sent: "se_sent FuncAllocate True s = (Inr (), ?s1)"
    using assms(2) by (simp add: se_sent_def Sent_def sent_allowed_def sent_next_def func_codes)
  have len: "length b < 2 ^ 32" using b(2) by (simp add: allocate_record_def)
  obtain t1 where t1: "se_send L b ?s1 = (Inr (), ?s1\<lparr>se_transport := t1\<rparr>)" "carries t1 (a # ins) (outs @ [b])"
    using setup_send [OF assms(3) len sent] by blast
  obtain t2 where t2: "se_receive L (?s1\<lparr>se_transport := t1\<rparr>) = (Inr a, ?s1\<lparr>se_transport := t2\<rparr>)"
    "carries t2 ins (outs @ [b])"
    using se_receive_next [of "?s1\<lparr>se_transport := t1\<rparr>" a ins "outs @ [b]"] t1(2) by auto
  have rcv: "se_received a (?s1\<lparr>se_transport := t2\<rparr>) = (Inr DispositionAccepted, in_state StateReady s t2)"
    using setup_reply_received [OF assms(4), of "\<lparr>m_state = StateAllocatePending\<rparr>"]
    by (simp add: se_received_def received_allowed_def in_state_def)
  have "allocate_stage L s = (Inr (), in_state StateReady s t2)"
    using sent rcd t1(1) t2(1) rcv by (simp add: allocate_stage_def sm_bind_def sm_lift_def sm_return_def)
  then show ?thesis
    using t2(2) b(1)
    by (intro exI [of _ t2] exI [of _ b]) (simp add: allocate_record_def conversation_or_zero_def val_or_def)
qed

lemma handshake_completes_link:
  assumes cfg: "handshake_config env s" and carry: "carries (se_transport s) ([g, a, c] @ ins) []"
    and g: "DecodeNormalClient g = Inr r" "check_gateway_reply r = Inr ()"
    and a: "setup_reply FuncInitialize a" "DecodeHeader a = Inr h"
      "DecodeExtendedInfo (gslice CommonHeaderLength RecordHeaderLength a) = Inr i"
    and c: "setup_reply FuncAllocate c"
  shows "\<exists>t b1 b2 b3 b4. handshake L env s = (Inr (), in_state StateReady
       (s\<lparr>se_conversationID := h_ConversationID h, se_connectionIndex := ei_ConnectionIndex i\<rparr>) t) \<and>
     carries t ins [b1, b2, b3, b4] \<and> EncodeNormalClient (gateway_request env s) = Inr b1 \<and>
     (\<exists>h2 h3 h4. DecodeHeader b2 = Inr h2 \<and> h_FunctionCode h2 = FuncInitialize \<and>
        DecodeHeader b3 = Inr h3 \<and> h_FunctionCode h3 = FuncSetPartnerLuName \<and>
        DecodeHeader b4 = Inr h4 \<and> h_FunctionCode h4 = FuncAllocate \<and>
        h_ConversationID h3 = h_ConversationID h \<and> h_ConversationID h4 = h_ConversationID h)"
proof -
  let ?s2 = "\<lambda>t. s\<lparr>se_transport := t, se_setup := \<lparr>m_state = StateInitialized\<rparr>,
       se_conversationID := h_ConversationID h, se_connectionIndex := ei_ConnectionIndex i\<rparr>"
  have id: "length (h_ConversationID h) = 8" using a(2) DecodeHeader_iff header_ok_def by metis
  obtain ip where ip: "encodeIPv4 (se_localAddress s) = Inr ip" using cfg by (auto simp: handshake_config_def)
  obtain t1 b1 where 1: "gateway_stage L env s = (Inr (), s\<lparr>se_transport := t1\<rparr>)" "carries t1 (a # c # ins) [b1]"
    "EncodeNormalClient (gateway_request env s) = Inr b1"
    using gateway_stage_completes [OF cfg _ g, of "a # c # ins" "[]"] carry by auto
  obtain t2 b2 where 2: "initialize_stage L env (s\<lparr>se_transport := t1\<rparr>) = (Inr (), ?s2 t2)" "carries t2 (c # ins) [b1, b2]"
    "\<exists>h'. DecodeHeader b2 = Inr h' \<and> h_FunctionCode h' = FuncInitialize"
    using initialize_stage_completes [of env "s\<lparr>se_transport := t1\<rparr>" a "c # ins" "[b1]" h i] cfg 1(2) a
    by (auto simp: handshake_config_def)
  obtain t3 b3 where 3: "partner_stage L (?s2 t2) = (Inr (), in_state StatePartnerSet (?s2 t2) t3)"
    "carries t3 (c # ins) [b1, b2, b3]" "\<exists>h'. DecodeHeader b3 = Inr h' \<and> h_FunctionCode h' = FuncSetPartnerLuName \<and>
       h_ConversationID h' = h_ConversationID h"
    using partner_stage_completes [of "?s2 t2" ip "c # ins" "[b1, b2]"] ip id 2(2) by auto
  obtain t4 b4 where 4: "allocate_stage L (in_state StatePartnerSet (?s2 t2) t3) =
      (Inr (), in_state StateReady (in_state StatePartnerSet (?s2 t2) t3) t4)"
    "carries t4 ins [b1, b2, b3, b4]" "\<exists>h'. DecodeHeader b4 = Inr h' \<and> h_FunctionCode h' = FuncAllocate \<and>
       h_ConversationID h' = h_ConversationID h"
    using allocate_stage_completes [of "in_state StatePartnerSet (?s2 t2) t3" c ins "[b1, b2, b3]"] id 3(2) c
    by (auto simp: in_state_def)
  have "handshake L env s = (Inr (), in_state StateReady
       (s\<lparr>se_conversationID := h_ConversationID h, se_connectionIndex := ei_ConnectionIndex i\<rparr>) t4)"
    using 1(1) 2(1) 3(1) 4(1) by (simp add: handshake_def sm_bind_def in_state_def)
  then show ?thesis
    using 1(3) 2(3) 3(3) 4(2,3)
    by (intro exI [of _ t4] exI [of _ b1] exI [of _ b2] exI [of _ b3] exI [of _ b4]) auto
qed

end

section \<open>Properties\<close>

text \<open>
  C5. A handshake is safe over any transport, with any replies: it never panics, because the gateway record
  has already checked the address that \<open>mustPartnerParams\<close> encodes; and when it succeeds the set-up machine
  is ready, the conversation id has 8 bytes, the local address is an IPv4 address, and the session is as open as before.
\<close>

theorem handshake_safe:
  "case handshake L env s of
     (Inl e, s') \<Rightarrow> e \<noteq> SePanic
   | (Inr _, s') \<Rightarrow> m_state (se_setup s') = StateReady \<and> length (se_conversationID s') = 8 \<and>
       (\<exists>ip. encodeIPv4 (se_localAddress s') = Inr ip) \<and> se_closed s' = se_closed s"
  using handshake_no_panic [of L env s] handshake_Inr [of L env s] 
  by (auto simp: may_panic_def split: prod.split sum.split)

text \<open>
  C4. A handshake completes: with a valid configuration, over a transport that delivers an accepting gateway reply, an
  F_INITIALIZE reply and an F_ALLOCATE reply, the session becomes ready with the conversation id and connection index
  of the replies, and exactly four records have been sent, in order: the gateway request, F_INITIALIZE, F_SET_PARTNER_LU_NAME
  and F_ALLOCATE, the last two with the conversation id the partner assigned.
\<close>

theorem handshake_completes:
  assumes "handshake_config env s" "transport_carries (se_transport s) [gwReply, initReply, allocReply] []"
    and "DecodeNormalClient gwReply = Inr r" "check_gateway_reply r = Inr ()"
    and "setup_reply FuncInitialize initReply" "DecodeHeader initReply = Inr h"
      "DecodeExtendedInfo (gslice CommonHeaderLength RecordHeaderLength initReply) = Inr i"
    and "setup_reply FuncAllocate allocReply"
  shows "\<exists>s' b1 b2 b3 b4. handshake transport_link env s = (Inr (), s') \<and> m_state (se_setup s') = StateReady \<and>
     se_conversationID s' = h_ConversationID h \<and> se_connectionIndex s' = ei_ConnectionIndex i \<and>
     transport_carries (se_transport s') [] [b1, b2, b3, b4] \<and> EncodeNormalClient (gateway_request env s) = Inr b1 \<and>
     (\<exists>h2 h3 h4. DecodeHeader b2 = Inr h2 \<and> h_FunctionCode h2 = FuncInitialize \<and>
        DecodeHeader b3 = Inr h3 \<and> h_FunctionCode h3 = FuncSetPartnerLuName \<and>
        DecodeHeader b4 = Inr h4 \<and> h_FunctionCode h4 = FuncAllocate \<and>
        h_ConversationID h3 = h_ConversationID h \<and> h_ConversationID h4 = h_ConversationID h)"
proof -
  have "transport_carries (se_transport s) ([gwReply, initReply, allocReply] @ []) []" using assms(2) by simp
  from socket.handshake_completes_link [OF assms(1) this assms(3-8)]
  obtain t b1 b2 b3 b4 where "handshake transport_link env s = (Inr (), in_state StateReady
       (s\<lparr>se_conversationID := h_ConversationID h, se_connectionIndex := ei_ConnectionIndex i\<rparr>) t)"
     "transport_carries t [] [b1, b2, b3, b4]" "EncodeNormalClient (gateway_request env s) = Inr b1"
     "\<exists>h2 h3 h4. DecodeHeader b2 = Inr h2 \<and> h_FunctionCode h2 = FuncInitialize \<and>
        DecodeHeader b3 = Inr h3 \<and> h_FunctionCode h3 = FuncSetPartnerLuName \<and>
        DecodeHeader b4 = Inr h4 \<and> h_FunctionCode h4 = FuncAllocate \<and>
        h_ConversationID h3 = h_ConversationID h \<and> h_ConversationID h4 = h_ConversationID h"
    by blast
  then show ?thesis
    by (intro exI [of _ "in_state StateReady (s\<lparr>se_conversationID := h_ConversationID h,
        se_connectionIndex := ei_ConnectionIndex i\<rparr>) t"] exI [of _ b1] exI [of _ b2] exI [of _ b3] exI [of _ b4])
      (simp add: in_state_def)
qed

definition sample_session :: "bytes list \<Rightarrow> transport session" where
  "sample_session cs =
     \<lparr>se_transport = transport_New (quiet_conn cs) 0, se_setup = \<lparr>m_state = StateReady\<rparr>,
      se_conversationID = replicate 8 0, se_connectionIndex = 4, se_localAddress = gostr ''127.0.0.1'',
      se_programName = gostr ''open-rfc'', se_service = gostr ''sapdp00'', se_closed = False\<rparr>"

lemma quiet_transport_carries:
  assumes "list_all (\<lambda>p. length p \<le> 1000000) ps"
  shows "transport_carries (transport_New (quiet_conn (map (\<lambda>p. put32be (of_nat (length p)) @ p) ps)) 0) ps []"
proof -
  have "list_all2 (\<lambda>p f. EncodeFrame p = Inr f \<and> int (length p) \<le> maxPayload 0) ps
      (map (\<lambda>p. put32be (of_nat (length p)) @ p) ps)"
    using assms
    by (auto simp: list_all2_conv_all_nth list_all_length EncodeFrame_layout maxPayload_def DefaultMaxPayloadLength_def)
  from deframe_frames [OF this] transport_New_delivers [of "quiet_conn _" "map (\<lambda>p. put32be (of_nat (length p)) @ p) ps" 0 ps "[]"]
  have "delivers (transport_New (quiet_conn (map (\<lambda>p. put32be (of_nat (length p)) @ p) ps)) 0) ps"
    by (simp add: quiet_conn_def)
  then show ?thesis
    by (simp add: transport_carries_def transport_New_def quiet_conn_def)
qed

definition sample_env :: host_env where
  "sample_env = \<lparr>he_hostname = gostr ''host'', he_username = gostr ''user'', he_rootRandom = replicate 8 1,
     he_connectionRandom = replicate 8 2\<rparr>"

definition sample_gateway_reply :: normal_client_record where
  "sample_gateway_reply = sample_client\<lparr>nc_CodePage := gostr ''4103'', nc_AppcHeaderVersion := 6, nc_AcceptInfo := 0xdb,
     nc_ReturnCode := 0\<rparr>"

definition sample_setup_reply :: "Function \<Rightarrow> bytes" where
  "sample_setup_reply fc = header_layout (header_of fc no_overrides 0) @ replicate 32 0"

lemma sample_setup_reply_facts:
  "length (sample_setup_reply fc) = 80" "DecodeHeader (sample_setup_reply fc) = Inr (header_of fc no_overrides 0)"
  "gslice CommonHeaderLength RecordHeaderLength (sample_setup_reply fc) = replicate 32 0"
  "setup_reply fc (sample_setup_reply fc)"
proof -
  show len: "length (sample_setup_reply fc) = 80"
    by (simp add: sample_setup_reply_def length_header_layout)
  show dec: "DecodeHeader (sample_setup_reply fc) = Inr (header_of fc no_overrides 0)"
    by (simp add: sample_setup_reply_def DecodeHeader_layout header_of_ok)
  show "gslice CommonHeaderLength RecordHeaderLength (sample_setup_reply fc) = replicate 32 0"
    by (simp add: sample_setup_reply_def gslice_def CommonHeaderLength_def RecordHeaderLength_def length_header_layout)
  show "setup_reply fc (sample_setup_reply fc)"
    using len dec by (simp add: setup_reply_def RecordHeaderLength_def or_defs no_overrides_def)
qed

theorem handshake_completes_witness:
  "\<exists>s s'. handshake transport_link sample_env s = (Inr (), s') \<and> m_state (se_setup s') = StateReady"
proof -
  have "EncodeNormalClient sample_gateway_reply \<noteq> Inl e" for e by code_simp
  then obtain g where "EncodeNormalClient sample_gateway_reply = Inr g"
    by (cases "EncodeNormalClient sample_gateway_reply") auto
  moreover have "normal_client_canon sample_gateway_reply" by code_simp
  ultimately have g: "length g = 64" "DecodeNormalClient g = Inr sample_gateway_reply"
    using DecodeNormalClient_layout EncodeNormalClient_Inr by (auto simp: normal_client_layout_length)
  have check: "check_gateway_reply sample_gateway_reply = Inr ()" by code_simp
  have info: "DecodeExtendedInfo (replicate 32 0) \<noteq> Inl e" for e by code_simp
  then obtain i where i: "DecodeExtendedInfo (replicate 32 0) = Inr i"
    by (cases "DecodeExtendedInfo (replicate 32 0)") auto
  define rs where "rs = [g, sample_setup_reply FuncInitialize, sample_setup_reply FuncAllocate]"
  define s where "s = sample_session (map (\<lambda>p. put32be (of_nat (length p)) @ p) rs)"
  have "encodeIPv4 (gostr ''127.0.0.1'') \<noteq> Inl e" for e by code_simp
  then obtain ip where "encodeIPv4 (gostr ''127.0.0.1'') = Inr ip"
    by (cases "encodeIPv4 (gostr ''127.0.0.1'')") auto
  then have "handshake_config sample_env s"
    unfolding handshake_config_def by (simp add: s_def sample_session_def sample_env_def printable_def printable_byte_def gostr_def)
  moreover have "transport_carries (se_transport s) rs []"
    unfolding s_def sample_session_def using quiet_transport_carries [of rs] g(1) sample_setup_reply_facts(1)
    by (simp add: rs_def)
  ultimately show ?thesis
    using handshake_completes [of sample_env s g "sample_setup_reply FuncInitialize" "sample_setup_reply FuncAllocate"
        sample_gateway_reply _ i] g(2) check i
    by (auto simp: rs_def sample_setup_reply_facts)
qed

end
