(* ===== verification/Session_Exchange.thy ===== *)
theory Session_Exchange
  imports Session_Handshake
begin

text \<open>
  One request and its reply: the framed request becomes one record, the records of the reply become one message, and the
  session is ready again. A receive ends whatever the partner sends.
\<close>

section \<open>Replies\<close>

text \<open>
  A data record of a reply as the partner writes it: function, part and end marker, the
  conversation, no return code, and operation information with the part's length and the connection index.
\<close>

definition reply_part :: "bytes \<Rightarrow> u16 \<Rightarrow> u32 \<Rightarrow> Function \<Rightarrow> bool \<Rightarrow> bytes \<Rightarrow> bytes \<Rightarrow> bool" where
  "reply_part cid xi seq fc fin p b \<longleftrightarrow>
     RecordHeaderLength \<le> length b \<and> drop RecordHeaderLength b = p \<and> length p < 2 ^ 16 \<and>
     DecodeIncomingDataOperationInfo (gslice CommonHeaderLength RecordHeaderLength b) =
       Inr \<lparr>id_DataLength = of_nat (length p), id_CommunicationIndex = 0, id_ConnectionIndex = xi\<rparr> \<and>
     (case DecodeHeader b of
        Inl e \<Rightarrow> False
      | Inr h \<Rightarrow> h_FunctionCode h = fc \<and> h_ConversationID h = cid \<and> h_SequenceNumber h = seq \<and>
          h_AppcReturnCode h = 0 \<and> h_SapReturnCode h = 0 \<and> (h_Vector h AND VectorEndOfMessage \<noteq> 0 \<longleftrightarrow> fin))"

text \<open>The records of a reply in parts: F_SAP_SEND first, F_RECEIVE after it, the last one final.\<close>

fun reply_records :: "bytes \<Rightarrow> u16 \<Rightarrow> u32 \<Rightarrow> Function \<Rightarrow> bytes list \<Rightarrow> bytes list \<Rightarrow> bool" where
  "reply_records cid xi seq fc (p # ps) (b # bs) \<longleftrightarrow>
     reply_part cid xi seq fc (ps = []) p b \<and> reply_records cid xi seq FuncReceive ps bs"
| "reply_records cid xi seq fc ps bs \<longleftrightarrow> ps = [] \<and> bs = []"

definition reply_header :: "bytes \<Rightarrow> u32 \<Rightarrow> record_header_input" where
  "reply_header cid seq = no_overrides\<lparr>in_ConversationID := Some cid, in_SequenceNumber := Some seq\<rparr>"

lemma reply_header_sel:
  "conversation_or_zero (reply_header cid seq) = cid" "u32or (in_SequenceNumber (reply_header cid seq)) 0 = seq"
  by (simp_all add: reply_header_def conversation_or_zero_def or_defs)

lemma reply_part_push:
  assumes part: "reply_part cid xi seq fc fin p b" and fc: "fc = (if done = [] then FuncSapSend else FuncReceive)"
    and pend: "cd_pending d = (if done = [] then None else Some (pending_of (reply_header cid seq) 0 xi done))"
    and lim: "int (length (concat (done @ [p]))) \<le> cd_maxMessageLength d" "int (length (done @ [p])) \<le> cd_maxFragments d"
  shows "Appc_Conversation.Push b d =
    (if fin then Inr ([message_of (reply_header cid seq) 0 xi (done @ [p])], d\<lparr>cd_pending := None\<rparr>)
     else Inr ([], d\<lparr>cd_pending := Some (pending_of (reply_header cid seq) 0 xi (done @ [p]))\<rparr>))"
proof -
  obtain h where h: "DecodeHeader b = Inr h" "h_FunctionCode h = fc" "h_ConversationID h = cid"
    "h_SequenceNumber h = seq" "h_AppcReturnCode h = 0" "h_SapReturnCode h = 0"
    "h_Vector h AND VectorEndOfMessage \<noteq> 0 \<longleftrightarrow> fin"
    and b: "RecordHeaderLength \<le> length b" "drop RecordHeaderLength b = p" "length p < 2 ^ 16"
    and info: "DecodeIncomingDataOperationInfo (gslice CommonHeaderLength RecordHeaderLength b) =
       Inr \<lparr>id_DataLength = of_nat (length p), id_CommunicationIndex = 0, id_ConnectionIndex = xi\<rparr>"
    using part by (auto simp: reply_part_def split: sum.splits)
  have fcs: "fc = FuncSapSend \<or> fc = FuncReceive" using fc by simp
  have frag: "DecodeDataFragment b = Inr \<lparr>df_Header = h, df_Data = p, df_IsFinal = fin\<rparr>"
    using h b fcs by (auto simp: DecodeDataFragment_def)
  have len: "unat (of_nat (length p) :: u16) = length p" using b(3) by (simp add: unat_of_nat)
  have "length b - RecordHeaderLength = length p" using b(2) by auto
  then have limits: "checkLimits d (BufferedByteLength d + int (length b - RecordHeaderLength)) (FragmentCount d + 1) = Inr ()"
    using lim pend
    by (auto simp: checkLimits_Inr BufferedByteLength_def FragmentCount_def pending_of_def split: if_splits)
  have step: "Appc_Conversation.Push b d = push_ordinary d h \<lparr>df_Header = h, df_Data = p, df_IsFinal = fin\<rparr>
       \<lparr>id_DataLength = of_nat (length p), id_CommunicationIndex = 0, id_ConnectionIndex = xi\<rparr>"
    using h b(1) fcs frag info len limits
    by (auto simp: Appc_Conversation.Push_def push_def push_status_def fail_if_def returnCodeDeallocatedNormal_def)
  show ?thesis
  proof (cases "done = []")
    case True
    have keep: "cd_pending d = None \<Longrightarrow> d\<lparr>cd_pending := None\<rparr> = d" by simp
    show ?thesis
      using True pend fc lim h keep unfolding step
      by (simp add: push_ordinary_def push_first_def checkLimits_def singleMessage_def newPending_def
          message_of_def pending_of_def reply_header_sel)
  next
    case False
    then show ?thesis
      using pend fc lim h unfolding step
      by (simp add: push_ordinary_def matchPending_def checkLimits_def Let_def pending_message_done_def
          concatChunks_def message_of_def pending_of_def reply_header_sel)
  qed
qed

lemma reply_part_received:
  assumes "reply_part cid xi seq fc fin p b" "fc = FuncSapSend \<or> fc = FuncReceive" "m_state m = StateResponsePending"
  shows "Received b m = (Inr DispositionAccepted, m)"
  using assms
  by (auto simp: reply_part_def Received_def Let_def received_allowed_def returnCodeDeallocatedNormal_def
      split: sum.splits)

context record_link
begin

lemma receive_reply_parts:
  assumes "reply_records (se_conversationID s) (se_connectionIndex s) seq fc ps bs" "ps \<noteq> []"
    and "fc = (if done = [] then FuncSapSend else FuncReceive)"
    and "carries (se_transport s) (bs @ rest) outs"
    and "m_state (se_setup s) = StateResponsePending" "length (se_conversationID s) = 8"
    and "reply_decoder a decoder = Inr d"
    and "cd_pending d = (if done = [] then None
      else Some (pending_of (reply_header (se_conversationID s) seq) 0 (se_connectionIndex s) done))"
    and "int (length (concat (done @ ps))) \<le> cd_maxMessageLength d" "int (length (done @ ps)) \<le> cd_maxFragments d"
  shows "\<exists>t. receive_reply L a decoder s = (Inr (concat (done @ ps)), in_state StateReady s t) \<and> carries t rest outs"
  using assms
proof (induction ps arbitrary: bs s fc "done" decoder d)
  case (Cons p ps)
  let ?hdr = "reply_header (se_conversationID s) seq" and ?xi = "se_connectionIndex s"
  obtain b bs' where bs: "bs = b # bs'" "reply_part (se_conversationID s) ?xi seq fc (ps = []) p b"
    "reply_records (se_conversationID s) ?xi seq FuncReceive ps bs'"
    using Cons.prems(1) by (cases bs) auto
  obtain t where t: "se_receive L s = (Inr b, s\<lparr>se_transport := t\<rparr>)" "carries t (bs' @ rest) outs"
    using se_receive_next [of s b "bs' @ rest" outs] Cons.prems(4) bs(1) by auto
  have rcv: "Received b (se_setup s) = (Inr DispositionAccepted, se_setup s)"
    using reply_part_received [OF bs(2) _ Cons.prems(5)] Cons.prems(3) by auto
  have lim: "int (length (concat (done @ [p]))) \<le> cd_maxMessageLength d" "int (length (done @ [p])) \<le> cd_maxFragments d"
    using Cons.prems(9,10) by simp_all
  note push = reply_part_push [OF bs(2) Cons.prems(3,8) lim]
  show ?case
  proof (cases "ps = []")
    case True
    then have "bs' = []" using bs(3) by (cases bs') auto
    have "accept_message DispositionAccepted [message_of ?hdr 0 ?xi (done @ [p])] (d\<lparr>cd_pending := None\<rparr>)
        (s\<lparr>se_transport := t\<rparr>) = (Inr (concat (done @ [p])), in_state StateReady s t)"
      using Cons.prems(5,6)
      by (simp add: accept_message_def Appc_Conversation.Finish_def fail_if_def message_of_def reply_header_sel
          se_response_complete_def ResponseComplete_def in_state_def)
    then have "receive_reply L a decoder s = (Inr (concat (done @ [p])), in_state StateReady s t)"
      using True t(1) rcv Cons.prems(7) push
      by (subst receive_reply.simps) (simp add: push_reply_def)
    then show ?thesis using True t(2) \<open>bs' = []\<close> by auto
  next
    case False
    define d' where "d' = d\<lparr>cd_pending := Some (pending_of ?hdr 0 ?xi (done @ [p]))\<rparr>"
    have "receive_reply L a decoder s = receive_reply L a (Some d') (s\<lparr>se_transport := t\<rparr>)"
      using False t(1) rcv Cons.prems(7) push
      by (subst receive_reply.simps) (simp add: push_reply_def d'_def)
    moreover have "\<exists>t'. receive_reply L a (Some d') (s\<lparr>se_transport := t\<rparr>) =
        (Inr (concat ((done @ [p]) @ ps)), in_state StateReady (s\<lparr>se_transport := t\<rparr>) t') \<and> carries t' rest outs"
      using Cons.prems t(2) bs(3) False
      by (intro Cons.IH [where d = d']) (simp_all add: d'_def reply_decoder_def)
    ultimately show ?thesis by (simp add: in_state_def)
  qed
qed simp

lemma receiveMessage_parts:
  assumes "reply_records (se_conversationID s) (se_connectionIndex s) seq FuncSapSend ps bs" "ps \<noteq> []"
    and "carries (se_transport s) (bs @ rest) outs"
    and "m_state (se_setup s) = StateResponsePending" "length (se_conversationID s) = 8"
    and "int (length (concat ps)) \<le> DefaultMaxMessageLength" "int (length ps) \<le> DefaultMaxMessageFragments"
  shows "\<exists>t. receiveMessage L a s = (Inr (concat ps), in_state StateReady s t) \<and> carries t rest outs"
proof -
  obtain d where d: "reply_decoder a None = Inr d" "cd_pending d = None"
    "cd_maxMessageLength d = DefaultMaxMessageLength" "cd_maxFragments d = DefaultMaxMessageFragments"
    by (auto simp: reply_decoder_def NewConversationDecoder_def reply_decoder_options_def val_or_def appc_consts)
  show ?thesis
    unfolding receiveMessage_def
    using receive_reply_parts [OF assms(1,2) _ assms(3-5) d(1), of "[]"] d assms(6,7) by simp
qed

text \<open>A compact request is one F_SAP_SEND record that carries the request.\<close>

lemma sendRequest_compact:
  assumes "session_ready s" "carries (se_transport s) ins outs" "length body + 2 \<le> 28000"
    and "request = body @ packetTrailer (length body) m"
  shows "\<exists>rcd t. sendRequest L request s = (Inr False, in_state StateResponsePending s t) \<and>
     carries t ins (outs @ [rcd]) \<and> drop RecordHeaderLength rcd = request \<and>
     (\<exists>h. DecodeHeader rcd = Inr h \<and> h_FunctionCode h = FuncSapSend \<and> h_ConversationID h = se_conversationID s)"
proof -
  obtain f where f: "InspectRequestAppcFraming request = Inr f" "rf_FinalSapParameterLength f = 8"
    using compact_inspect [OF assms(3), of m] assms(4) by simp
  let ?i = "framed_plan_input (se_conversationID s) (se_connectionIndex s) request f"
  have shape: "plan_shape_ok ?i" "plan_single ?i"
    using compact_shape [OF assms(3), of m f] f assms(4) by simp_all
  have input: "session_plan_input s (take (rf_ApplicationDataLength f) request)
      (Some (drop (rf_ApplicationDataLength f) request)) = ?i"
    using f(2) by (simp add: session_plan_input_def framed_plan_input_def)
  define st where "st = plan_fragment ?i (val_or (pn_FinalSapParameters ?i) []) 1 0"
  have cid: "length (conversation_or_zero (pn_Header ?i)) = 8"
    using assms(1) by (simp add: framed_plan_input_def conversation_or_zero_def val_or_def session_ready_def)
  have plan: "PlanOutgoingDataFragments ?i session_plan_options = Inr [st]"
    using shape cid
    by (auto simp: Plan_Inr plan_limits_ok_def plan_steps_def plan_count_def plan_fragment_count_def st_def val_or_def
        plan_single_def appc_consts Let_def session_plan_options_def)
  have data: "of_ApplicationData st @ of_FinalSapParameters st = request" "of_FunctionCode st = FuncSapSend"
    "of_ConversationID st = se_conversationID s"
    using plan_data_single [OF shape] f(2)
    by (auto simp: st_def plan_fragment_def Let_def semantics_single framed_plan_input_def val_or_def
        conversation_or_zero_def)
  obtain b where b: "EncodeOutgoingDataFragment st = Inr b" using encode_step [OF plan, of st] by auto
  note dec = encode_step_decode [OF plan _ b, simplified]
  have sent: "se_sent FuncSapSend True s = (Inr (), s\<lparr>se_setup := \<lparr>m_state = StateResponsePending\<rparr>\<rparr>)"
    using assms(1) by (simp add: se_sent_def Sent_def session_ready_def sent_allowed_def sent_next_def func_codes)
  have "length b = 80 + length request" using dec(2) data(1) by (metis add.assoc length_append)
  moreover have "length request < 28100"
    using assms(3,4) by (simp add: packetTrailer_def Let_def)
  ultimately have small: "length b < 2 ^ 32" by simp
  obtain t where t: "se_send L b (s\<lparr>se_setup := \<lparr>m_state = StateResponsePending\<rparr>\<rparr>) =
      (Inr (), s\<lparr>se_setup := \<lparr>m_state = StateResponsePending\<rparr>, se_transport := t\<rparr>)" "carries t ins (outs @ [b])"
    using se_send_next [of "s\<lparr>se_setup := \<lparr>m_state = StateResponsePending\<rparr>\<rparr>" ins outs b] assms(2) small by auto
  have "sendRequest L request s = (Inr False, in_state StateResponsePending s t)"
    using assms(1) f plan b sent t(1) data(2)
    by (simp add: sendRequest_def sendData_def input writeDataPlan_def sm_simps session_ready_def in_state_def)
  then show ?thesis
    using t(2) dec data
    by (intro exI [of _ b] exI [of _ t]) (auto simp: RecordHeaderLength_def headerInput_id)
qed

lemma exchange_parts:
  assumes "session_ready s" "carries (se_transport s) (bs @ rest) outs" "length body + 2 \<le> 28000"
    and "request = body @ packetTrailer (length body) m"
    and "reply_records (se_conversationID s) (se_connectionIndex s) seq FuncSapSend ps bs" "ps \<noteq> []"
    and "int (length (concat ps)) \<le> DefaultMaxMessageLength" "int (length ps) \<le> DefaultMaxMessageFragments"
  shows "\<exists>rcd t. exchange L request s = (Inr (concat ps), in_state StateReady s t) \<and>
     carries t rest (outs @ [rcd]) \<and> drop RecordHeaderLength rcd = request"
proof -
  obtain rcd t1 where send: "sendRequest L request s = (Inr False, in_state StateResponsePending s t1)"
    "carries t1 (bs @ rest) (outs @ [rcd])" "drop RecordHeaderLength rcd = request"
    using sendRequest_compact [OF assms(1-4)] by blast
  let ?s = "in_state StateResponsePending s t1"
  have s: "se_conversationID ?s = se_conversationID s" "se_connectionIndex ?s = se_connectionIndex s"
    "se_transport ?s = t1" "m_state (se_setup ?s) = StateResponsePending" "in_state StateReady ?s = in_state StateReady s"
    by (simp_all add: in_state_def fun_eq_iff)
  obtain t where "receiveMessage L False ?s = (Inr (concat ps), in_state StateReady s t)" "carries t rest (outs @ [rcd])"
    using receiveMessage_parts [of ?s seq ps bs rest "outs @ [rcd]" False] assms send(2) s
    by (auto simp: session_ready_def)
  then show ?thesis
    using send(1,3) by (intro exI [of _ rcd] exI [of _ t]) (simp add: exchange_def sm_bind_def)
qed

end

section \<open>Termination of a receive\<close>

text \<open>A link that counts the records asked of another.\<close>

definition counting :: "'t link \<Rightarrow> ('t \<times> nat) link" where
  "counting L =
     \<lparr>lk_Send = \<lambda>p (t, n). case lk_Send L p t of (r, t') \<Rightarrow> (r, (t', n)),
      lk_Receive = \<lambda>(t, n). case lk_Receive L t of (r, t') \<Rightarrow> (r, (t', n + 1))\<rparr>"

abbreviation receive_count :: "('t \<times> nat) session \<Rightarrow> nat" where
  "receive_count s \<equiv> snd (se_transport s)"

lemma counting_receive:
  "se_receive (counting L) s = (r, s') \<Longrightarrow> receive_count s' = receive_count s + 1 \<and> se_setup s' = se_setup s"
  by (auto simp: se_receive_def counting_def split: prod.splits)

lemma accept_message_transport: "accept_message disposition ms d s = (r, s') \<Longrightarrow> se_transport s' = se_transport s"
  by (auto simp: accept_message_def se_response_complete_def Let_def split: if_splits sum.splits prod.splits)

lemma push_budget:
  assumes "reply_decoder a decoder = Inr d" "push_reply disposition payload d = Inr ([], d')"
  shows "reply_budget (Some d') \<le> reply_budget decoder"
proof -
  obtain terminal where push: "push d payload terminal = Inr ([], d')"
    using assms(2) by (auto simp: push_reply_def Appc_Conversation.Push_def PushTerminalDeallocation_def split: if_splits)
  then obtain h where h: "DecodeHeader payload = Inr h" by (auto simp: push_def bindE_Inr_iff)
  have "d' = d \<or> cd_maxFragments d' = cd_maxFragments d \<and> FragmentCount d' = FragmentCount d + 1"
  proof (cases "h_FunctionCode h = FuncSapSend \<or> h_FunctionCode h = FuncReceive")
    case True
    then show ?thesis using push_no_message [OF push h] by blast
  next
    case False
    then show ?thesis using push h by (auto simp: push_def bindE_Inr_iff split: if_splits)
  qed
  moreover have "reply_budget decoder = nat (cd_maxFragments d - FragmentCount d)"
    using assms(1) NewConversationDecoder_fragments [of a d]
    by (auto simp: reply_decoder_def reply_budget_def split: option.splits)
  ultimately show ?thesis by (auto simp: reply_budget_def)
qed

lemma receive_reply_count:
  "receive_reply (counting L) a decoder s = (r, s') \<Longrightarrow>
     receive_count s' \<le> receive_count s + reply_rank (se_setup s) + reply_budget decoder + 1"
proof (induction "counting L" a decoder s arbitrary: r s' rule: receive_reply.induct)
  case (1 a decoder s)
  obtain rp s1 where rcv: "se_receive (counting L) s = (rp, s1)" by fastforce
  note c = counting_receive [OF rcv]
  consider (stop) "receive_count s' = receive_count s1"
    | (more) payload disposition m d d' where "rp = Inr payload" "Received payload (se_setup s1) = (Inr disposition, m)"
      "reply_decoder a decoder = Inr d" "push_reply disposition payload d = Inr ([], d')"
      "receive_reply (counting L) a (Some d') (s1\<lparr>se_setup := m\<rparr>) = (r, s')"
    using "1.prems" rcv
    by (subst (asm) receive_reply.simps)
      (auto simp: Let_def split: sum.splits prod.splits if_splits dest!: accept_message_transport)
  then show ?case
  proof cases
    case stop
    then show ?thesis using c by simp
  next
    case more
    have "receive_count s' \<le> receive_count (s1\<lparr>se_setup := m\<rparr>) + reply_rank m + reply_budget (Some d') + 1"
      using "1.hyps" [OF rcv [unfolded more(1), symmetric] refl more(2) [symmetric] refl refl more(3,4) refl _ more(5)] by simp
    then show ?thesis
      using c reply_progress [OF more(2-4)] push_budget [OF more(3,4)] by auto
  qed
qed


section \<open>Sending without streaming\<close>

lemma session_plan_single:
  assumes "PlanOutgoingDataFragments (session_plan_input s appData finalSap) session_plan_options = Inr plan"
  shows "length appData \<le> 28000 \<and> (\<exists>f. plan = [f] \<and> of_FunctionCode f = FuncSapSend)"
proof -
  let ?i = "session_plan_input s appData finalSap"
  have p: "plan_limits_ok ?i session_plan_options" "plan_shape_ok ?i" "plan = plan_steps ?i"
    using assms by (simp_all add: Plan_Inr)
  then have single: "plan_single ?i"
    by (auto simp: plan_limits_ok_def session_plan_options_def Let_def StreamingDisabled_def StreamingEnabled_def)
  then have "length plan = 1" using p(3) by (simp add: plan_steps_def plan_count_def plan_fragment_count_def)
  then obtain f where f: "plan = [f]" by (auto simp: length_Suc_conv)
  have "of_FunctionCode f = FuncSapSend" using plan_steps_nth(4) [OF assms, of 0] f by simp
  moreover have "length appData \<le> 28000"
    using single by (simp add: plan_single_def session_plan_input_def MaxApplicationDataFragmentLength_def)
  ultimately show ?thesis using f by blast
qed

lemma sendData_Inr:
  assumes "sendData L appData finalSap s = (Inr async, s')"
  shows "\<not> async \<and> length appData \<le> 28000 \<and> m_state (se_setup s) = StateReady \<and>
     m_state (se_setup s') = StateResponsePending"
proof -
  from assms obtain plan s1 where
    plan: "PlanOutgoingDataFragments (session_plan_input s appData finalSap) session_plan_options = Inr plan"
    and w: "writeDataPlan L plan s = (Inr (), s')"
    and async: "async \<longleftrightarrow> length plan > 0 \<and> of_FunctionCode (plan ! 0) = FuncAsyncSendData"
    by (auto simp: sendData_def sm_Inr_iffs split: if_splits)
  obtain f where f: "plan = [f]" "of_FunctionCode f = FuncSapSend" "length appData \<le> 28000"
    using session_plan_single [OF plan] by blast
  obtain s2 rcd where c: "se_sent FuncSapSend True s = (Inr (), s2)" "se_send L rcd s2 = (Inr (), s')"
    using w f by (auto simp: writeDataPlan_def sm_Inr_iffs)
  show ?thesis
    using Sent_state [OF se_sent_Inr [OF c(1)]] se_call_same(2) [OF c(2)] f async
    by (auto simp: sent_allowed_def sent_next_def func_codes)
qed

lemma streamed_request_refused:
  assumes "28000 < length body + 2" "body = chain @ put16be CpicTagEnd @ put16be 0"
  shows "\<exists>e. sendRequest L (body @ packetTrailer (length body) m) s = (Inl e, s)"
proof -
  define request where "request = body @ packetTrailer (length body) m"
  have f: "InspectRequestAppcFraming request = Inr \<lparr>rf_Mode = FramingStreamed,
      rf_ApplicationDataLength = length request, rf_FinalSapParameterLength = 0\<rparr>" "28000 < length request"
    using streamed_inspect [OF assms, of m] assms(1)
    by (simp_all add: request_def packetTrailer_def MaxApplicationDataFragmentLength_def)
  have "\<not> (\<exists>plan. PlanOutgoingDataFragments (session_plan_input s request None) session_plan_options = Inr plan)"
    using session_plan_single [of s request None] f(2) by fastforce
  then obtain e where "PlanOutgoingDataFragments (session_plan_input s request None) session_plan_options = Inl e"
    by (cases "PlanOutgoingDataFragments (session_plan_input s request None) session_plan_options") auto
  then have "\<exists>e. sendData L request None s = (Inl e, s)"
    by (auto simp: sendData_def sm_bind_def sm_lift_def)
  then show ?thesis
    unfolding request_def [symmetric] using f(1) by (simp add: sendRequest_def sm_bind_def sm_lift_def)
qed

section \<open>Properties\<close>

text \<open>
  One exchange: a ready session sends a request closed by \<open>packetTrailer\<close>, of at most 28000 bytes of packet, as one
  record that carries it unchanged, takes the reply in any number of parts, returns their concatenation and is ready
  for the next request, with the records that follow still to be received.
\<close>

theorem exchange_roundtrip:
  assumes "session_ready s" "transport_carries (se_transport s) (replies @ rest) outs" "length body + 2 \<le> 28000"
    and "reply_records (se_conversationID s) (se_connectionIndex s) seq FuncSapSend parts replies" "parts \<noteq> []"
    and "int (length (concat parts)) \<le> DefaultMaxMessageLength" "int (length parts) \<le> DefaultMaxMessageFragments"
  shows "\<exists>s' rcd. exchange transport_link (body @ packetTrailer (length body) m) s = (Inr (concat parts), s') \<and>
     session_ready s' \<and> transport_carries (se_transport s') rest (outs @ [rcd]) \<and>
     drop RecordHeaderLength rcd = body @ packetTrailer (length body) m"
proof -
  obtain rcd t where "exchange transport_link (body @ packetTrailer (length body) m) s =
      (Inr (concat parts), in_state StateReady s t)" "transport_carries t rest (outs @ [rcd])"
    "drop RecordHeaderLength rcd = body @ packetTrailer (length body) m"
    using socket.exchange_parts [OF assms(1-3) refl assms(4-7), of m] by blast
  then show ?thesis
    using in_state_ready [OF assms(1), of t]
    by (intro exI [of _ "in_state StateReady s t"] exI [of _ rcd]) (simp add: in_state_def)
qed

text \<open>
  C6. A receive ends whatever the partner sends: over any transport, in any state, it asks for at most 65539 records before it
  returns a message or an error (65536 data records, the limit of the reassembler, and one for each of the
  states that a reply can leave).
\<close>

theorem receive_terminates:
  "receive_count (snd (receiveMessage (counting L) allowInitialReceive s)) \<le> receive_count s + 65539"
proof -
  obtain r s' where r: "receiveMessage (counting L) allowInitialReceive s = (r, s')" by fastforce
  then have "receive_count s' \<le> receive_count s + reply_rank (se_setup s) + reply_budget None + 1"
    using receive_reply_count by (simp add: receiveMessage_def)
  moreover have "reply_rank (se_setup s) \<le> 2" by (simp add: reply_rank_def)
  ultimately show ?thesis by (simp add: r reply_budget_def DefaultMaxMessageFragments_def)
qed

text \<open>
  C11. A session never streams. A request in the streamed form, which \<open>packetTrailer\<close> chooses and
  \<open>InspectRequestAppcFraming\<close> recognises above 28000 bytes, is refused before anything is sent and leaves the session as
  it was; and a data message that is sent never reports an asynchronous start, was at most 28000 bytes long, was sent by
  a ready machine and leaves it waiting for the response.
\<close>

theorem session_never_streams:
  "(case sendData L appData finalSap s of
      (Inl _, _) \<Rightarrow> True
    | (Inr async, s') \<Rightarrow> \<not> async \<and> length appData \<le> 28000 \<and> m_state (se_setup s) = StateReady \<and>
        m_state (se_setup s') = StateResponsePending) \<and>
   (length chain + 6 \<le> 28000 \<or>
    (\<exists>e. sendRequest L (chain @ put16be CpicTagEnd @ put16be 0 @ packetTrailer (length chain + 4) m) s = (Inl e, s)))"
proof
  show "case sendData L appData finalSap s of (Inl _, _) \<Rightarrow> True
    | (Inr async, s') \<Rightarrow> \<not> async \<and> length appData \<le> 28000 \<and> m_state (se_setup s) = StateReady \<and>
        m_state (se_setup s') = StateResponsePending"
    using sendData_Inr [of L appData finalSap s] by (auto split: prod.split sum.split)
  show "length chain + 6 \<le> 28000 \<or>
    (\<exists>e. sendRequest L (chain @ put16be CpicTagEnd @ put16be 0 @ packetTrailer (length chain + 4) m) s = (Inl e, s))"
    using streamed_request_refused [of "chain @ put16be CpicTagEnd @ put16be 0" chain L m s] by fastforce
qed

definition sample_reply :: "Function \<Rightarrow> byte \<Rightarrow> bytes \<Rightarrow> bytes" where
  "sample_reply fc vec p =
     header_layout (header_of fc (no_overrides\<lparr>in_Vector := Some vec\<rparr>) 0) @
     (replicate 10 0 @ put16be (of_nat (length p)) @ replicate 16 0 @ put16be 0 @ put16be 4) @ p"

lemma sample_reply_part:
  assumes "length p < 2 ^ 16" "vec = (if fin then 0x0c else 0)" "fc \<in> {FuncSapSend, FuncReceive}"
  shows "reply_part (replicate 8 0) 4 0 fc fin p (sample_reply fc vec p)"
proof -
  define h where "h = header_of fc (no_overrides\<lparr>in_Vector := Some vec\<rparr>) 0"
  define oi where "oi = replicate 10 0 @ put16be (of_nat (length p)) @ replicate 16 0 @ put16be 0 @ put16be 4"
  have hdr: "h_FunctionCode h = fc" "h_ConversationID h = replicate 8 0" "h_SequenceNumber h = 0"
    "h_AppcReturnCode h = 0" "h_SapReturnCode h = 0" "h_Vector h = vec" "header_ok h"
    by (simp_all add: h_def or_defs no_overrides_def conversation_or_zero_def header_of_ok)
  have r: "sample_reply fc vec p = header_layout h @ oi @ p" by (simp add: sample_reply_def h_def oi_def)
  have "length (header_layout h) = 48" "length oi = 32"
    using hdr(7) by (simp_all add: length_header_layout header_ok_def oi_def)
  moreover have "DecodeIncomingDataOperationInfo oi =
      Inr \<lparr>id_DataLength = of_nat (length p), id_CommunicationIndex = 0, id_ConnectionIndex = 4\<rparr>"
    by (simp add: DecodeIncomingDataOperationInfo_def oi_def)
  ultimately show ?thesis
    unfolding r using assms hdr
    by (auto simp: reply_part_def DecodeHeader_layout RecordHeaderLength_def CommonHeaderLength_def gslice_def
        VectorEndOfMessage_def)
qed

theorem exchange_roundtrip_witness:
  "\<exists>s s' rcd. exchange transport_link (sample_body @ packetTrailer (length sample_body) 0x8500) s = (Inr [5, 6, 7], s') \<and>
     session_ready s' \<and> drop RecordHeaderLength rcd = sample_body @ packetTrailer (length sample_body) 0x8500"
proof -
  define rs where "rs = [sample_reply FuncSapSend 0 [5, 6], sample_reply FuncReceive 0x0c [7]]"
  define s where "s = sample_session (map (\<lambda>p. put32be (of_nat (length p)) @ p) rs)"
  have "length (sample_reply fc vec p) = 80 + length p" for fc vec p
    by (simp add: sample_reply_def length_header_layout header_of_ok header_ok_def no_overrides_def conversation_or_zero_def val_or_def)
  then have "transport_carries (se_transport s) (rs @ []) []"
    unfolding s_def sample_session_def using quiet_transport_carries [of rs] by (simp add: rs_def)
  moreover have "session_ready s" by (simp add: s_def sample_session_def session_ready_def)
  moreover have "reply_records (se_conversationID s) (se_connectionIndex s) 0 FuncSapSend [[5, 6], [7]] rs"
    using sample_reply_part [of "[5, 6]" 0 False FuncSapSend] sample_reply_part [of "[7]" "0x0c" True FuncReceive]
    by (simp add: rs_def s_def sample_session_def)
  ultimately show ?thesis
    using exchange_roundtrip [of s rs "[]" "[]" sample_body 0 "[[5, 6], [7]]" "0x8500"]
    by (auto simp: sample_body_def DefaultMaxMessageLength_def DefaultMaxMessageFragments_def)
qed

end
