(* ===== verification/Scramble.thy ===== *)
theory Scramble
  imports Rfc_Prelude
begin

unbundle bit_operations_syntax

text \<open>
  Package \<open>scramble\<close> (\<open>internal/scramble/scramble.go\<close>): the logon-password field. The bytes of
  \<open>crypto/rand\<close> are an input. The lemmas show that the field determines the password: the scrambling is a
  fixed permutation of the bytes at each position, keyed by the seed that the field itself carries.
\<close>

datatype scramble_error = ErrPasswordTooLong | ErrPasswordNotASCII | ErrRandom

definition scrambleTable :: bytes where
  "scrambleTable =
    [0xf0, 0xed, 0x53, 0xb8, 0x32, 0x44, 0xf1, 0xf8, 0x76, 0xc6, 0x79, 0x59, 0xfd,
     0x4f, 0x13, 0xa2, 0xc1, 0x51, 0x95, 0xec, 0x54, 0x83, 0xc2, 0x34, 0x77, 0x49,
     0x43, 0xa2, 0x7d, 0xe2, 0x65, 0x96, 0x5e, 0x53, 0x98, 0x78, 0x9a, 0x17, 0xa3,
     0x3c, 0xd3, 0x83, 0xa8, 0xb8, 0x29, 0xfb, 0xdc, 0xa5, 0x55, 0xd7, 0x02, 0x77,
     0x84, 0x13, 0xac, 0xdd, 0xf9, 0xb8, 0x31, 0x16, 0x61, 0x0e, 0x6d, 0xfa]"

text \<open>The byte that position \<open>index\<close> is xored with. The term fits an \<open>int64\<close>: \<open>index < 40\<close>.\<close>

definition scramble_key :: "u32 \<Rightarrow> nat \<Rightarrow> byte" where
  "scramble_key seed index =
     (let mixedSeed = seed XOR drop_bit 5 seed;
          startIndex = mixedSeed XOR push_bit 1 seed;
          tableValue = scrambleTable ! unat ((startIndex + of_nat index) AND 0x3f);
          term' = int (unat seed) * int index * int index - int index
      in tableValue XOR of_int term')"

definition ScrambleRfcPassword :: "gostring \<Rightarrow> u32 \<Rightarrow> scramble_error + bytes" where
  "ScrambleRfcPassword password seed =
     (if length password > 40 then Inl ErrPasswordTooLong
      else if \<not> printable password then Inl ErrPasswordNotASCII
      else Inr (put32le seed @ map (\<lambda>index. password ! index XOR scramble_key seed index) [0..<length password]))"

text \<open>\<open>rand.Read\<close> fills four bytes or fails.\<close>

definition ScrambleRfcPasswordRandomSeed :: "gostring \<Rightarrow> bytes option \<Rightarrow> scramble_error + bytes" where
  "ScrambleRfcPasswordRandomSeed password seedBytes =
     (case seedBytes of
        None \<Rightarrow> Inl ErrRandom
      | Some b \<Rightarrow> ScrambleRfcPassword password (get32le b))"

section \<open>Properties\<close>

text \<open>What the partner computes from the field.\<close>

definition unscramble :: "bytes \<Rightarrow> gostring" where
  "unscramble field = map (\<lambda>index. drop 4 field ! index XOR scramble_key (get32le field) index) [0..<length field - 4]"

lemma scramble_Inr:
  assumes "ScrambleRfcPassword password seed = Inr field"
  shows "length field = 4 + length password \<and> take 4 field = put32le seed \<and> unscramble field = password"
proof -
  have f: "field = put32le seed @ map (\<lambda>index. password ! index XOR scramble_key seed index) [0..<length password]"
    using assms by (auto simp: ScrambleRfcPassword_def split: if_splits)
  have "unscramble field = map (\<lambda>i. password ! i) [0..<length password]"
    unfolding unscramble_def f by (simp add: xor.assoc)
  then show ?thesis using f by (simp add: map_nth)
qed

text \<open>
  The password field: exactly the printable passwords of at most 40 bytes are accepted, with one error for each
  refusal; the field is the seed followed by as many bytes as the password has, and it determines the password, which
  \<open>unscramble\<close> computes from the field alone.
\<close>

theorem scramble_roundtrip:
  "case ScrambleRfcPassword password seed of
     Inl e \<Rightarrow> e = (if length password > 40 then ErrPasswordTooLong else ErrPasswordNotASCII) \<and>
       \<not> (length password \<le> 40 \<and> printable password)
   | Inr field \<Rightarrow> length password \<le> 40 \<and> printable password \<and> length field = 4 + length password \<and>
       take 4 field = put32le seed \<and> unscramble field = password"
proof (cases "ScrambleRfcPassword password seed")
  case (Inl e)
  then show ?thesis by (auto simp: ScrambleRfcPassword_def split: if_splits)
next
  case (Inr field)
  then have "length password \<le> 40" "printable password" by (auto simp: ScrambleRfcPassword_def split: if_splits)
  then show ?thesis using Inr scramble_Inr [OF Inr] by simp
qed

end
