(* ===== verification/Go_Text.thy ===== *)
theory Go_Text
  imports Rfc_Prelude
begin

text \<open>
  Text of the Go language and of its packages \<open>unicode/utf8\<close> and \<open>unicode/utf16\<close>, as far as the code uses them:
  a string is its UTF-8 bytes, \<open>[]rune(s)\<close> its code points, \<open>utf16.Encode\<close> and \<open>utf16.Decode\<close> the 16-bit units. The
  code converts only strings it accepts as valid UTF-8, so \<open>runes_of\<close> is \<open>None\<close> on the others.
  The lemmas give the round trips between the three forms.
\<close>

section \<open>Code points and UTF-8\<close>

definition surrogate :: "nat \<Rightarrow> bool" where
  "surrogate n \<longleftrightarrow> 0xd800 \<le> n \<and> n < 0xe000"

definition scalar :: "nat \<Rightarrow> bool" where
  "scalar n \<longleftrightarrow> n < 0x110000 \<and> \<not> surrogate n"

definition cont_byte :: "nat \<Rightarrow> bool" where
  "cont_byte b \<longleftrightarrow> 0x80 \<le> b \<and> b < 0xc0"

fun decode_runes :: "nat list \<Rightarrow> nat list option" where
  "decode_runes [] = Some []"
| "decode_runes (a # r) =
     (if a < 0x80 then map_option (Cons a) (decode_runes r)
      else case r of
        [] \<Rightarrow> None
      | b # r2 \<Rightarrow>
          if a < 0xe0
          then (let n = (a - 0xc0) * 64 + (b - 0x80) in
                if 0xc2 \<le> a \<and> cont_byte b then map_option (Cons n) (decode_runes r2) else None)
          else (case r2 of
            [] \<Rightarrow> None
          | c # r3 \<Rightarrow>
              if a < 0xf0
              then (let n = (a - 0xe0) * 4096 + (b - 0x80) * 64 + (c - 0x80) in
                    if cont_byte b \<and> cont_byte c \<and> 0x800 \<le> n \<and> \<not> surrogate n
                    then map_option (Cons n) (decode_runes r3) else None)
              else (case r3 of
                [] \<Rightarrow> None
              | d # r4 \<Rightarrow>
                  (let n = (a - 0xf0) * 262144 + (b - 0x80) * 4096 + (c - 0x80) * 64 + (d - 0x80) in
                   if a < 0xf8 \<and> cont_byte b \<and> cont_byte c \<and> cont_byte d \<and> 0x10000 \<le> n \<and> n < 0x110000
                   then map_option (Cons n) (decode_runes r4) else None))))"

definition runes_of :: "gostring \<Rightarrow> nat list option" where
  "runes_of s = decode_runes (map unat s)"

text \<open>
  \<open>[]rune(s)\<close>: the code point of the shortest prefix that is one, or U+FFFD for a byte that starts none.
\<close>

definition rune_width :: "nat list \<Rightarrow> nat option" where
  "rune_width bs = List.find (\<lambda>k. k \<le> length bs \<and> decode_runes (take k bs) \<noteq> None) [1, 2, 3, 4]"

lemma rune_width_pos: "rune_width bs = Some k \<Longrightarrow> 0 < k"
  by (auto simp: rune_width_def split: if_splits)

function lossy_runes :: "nat list \<Rightarrow> nat list" where
  "lossy_runes [] = []"
| "lossy_runes (a # r) =
     (case rune_width (a # r) of
        Some k \<Rightarrow> hd (the (decode_runes (take k (a # r)))) # lossy_runes (drop k (a # r))
      | None \<Rightarrow> 0xfffd # lossy_runes r)"
  by pat_completeness auto
termination
  by (relation "measure length") (auto dest: rune_width_pos)

definition go_runes :: "gostring \<Rightarrow> nat list" where
  "go_runes s = lossy_runes (map unat s)"

text \<open>\<open>utf8.ValidString\<close>.\<close>

definition ValidString :: "gostring \<Rightarrow> bool" where
  "ValidString s \<longleftrightarrow> runes_of s \<noteq> None"

definition rune_bytes :: "nat \<Rightarrow> nat list" where
  "rune_bytes n =
     (if n < 0x80 then [n]
      else if n < 0x800 then [0xc0 + n div 64, 0x80 + n mod 64]
      else if n < 0x10000 then [0xe0 + n div 4096, 0x80 + n div 64 mod 64, 0x80 + n mod 64]
      else [0xf0 + n div 262144, 0x80 + n div 4096 mod 64, 0x80 + n div 64 mod 64, 0x80 + n mod 64])"

text \<open>\<open>string(runes)\<close>.\<close>

definition string_of_runes :: "nat list \<Rightarrow> gostring" where
  "string_of_runes rs = map of_nat (concat (map rune_bytes rs))"

section \<open>UTF-16\<close>

definition rune_units :: "nat \<Rightarrow> u16 list" where
  "rune_units n =
     (if n < 0x10000 then [of_nat n]
      else [of_nat (0xd800 + (n - 0x10000) div 0x400), of_nat (0xdc00 + (n - 0x10000) mod 0x400)])"

definition utf16_encode :: "nat list \<Rightarrow> u16 list" where
  "utf16_encode rs = concat (map rune_units rs)"

definition high_surrogate :: "nat \<Rightarrow> bool" where
  "high_surrogate n \<longleftrightarrow> 0xd800 \<le> n \<and> n < 0xdc00"

definition low_surrogate :: "nat \<Rightarrow> bool" where
  "low_surrogate n \<longleftrightarrow> 0xdc00 \<le> n \<and> n < 0xe000"

fun utf16_decode :: "u16 list \<Rightarrow> nat list" where
  "utf16_decode (u # v # us) =
     (if high_surrogate (unat u) \<and> low_surrogate (unat v)
      then (0x10000 + (unat u - 0xd800) * 0x400 + (unat v - 0xdc00)) # utf16_decode us
      else (if surrogate (unat u) then 0xfffd else unat u) # utf16_decode (v # us))"
| "utf16_decode [u] = [if surrogate (unat u) then 0xfffd else unat u]"
| "utf16_decode [] = []"

text \<open>The little-endian bytes of 16-bit units.\<close>

definition units_bytes :: "u16 list \<Rightarrow> bytes" where
  "units_bytes us = concat (map put16le us)"

fun bytes_units :: "bytes \<Rightarrow> u16 list" where
  "bytes_units (a # b # r) = get16le [a, b] # bytes_units r"
| "bytes_units _ = []"

section \<open>Lemmas\<close>

lemma split_base64:
  "(n :: nat) div 64 * 64 + n mod 64 = n"
  "n div 4096 * 4096 + n div 64 mod 64 * 64 + n mod 64 = n"
  "n div 262144 * 262144 + n div 4096 mod 64 * 4096 + n div 64 mod 64 * 64 + n mod 64 = n"
proof -
  show one: "n div 64 * 64 + n mod 64 = n" by simp
  have d: "n div 4096 = n div 64 div 64" "n div 262144 = n div 4096 div 64"
    by (simp_all add: div_mult2_eq [symmetric])
  have two: "n div 4096 * 64 + n div 64 mod 64 = n div 64" unfolding d(1) by simp
  have three: "n div 262144 * 64 + n div 4096 mod 64 = n div 4096" unfolding d(2) by simp
  show "n div 4096 * 4096 + n div 64 mod 64 * 64 + n mod 64 = n"
    using one two by linarith
  show "n div 262144 * 262144 + n div 4096 mod 64 * 4096 + n div 64 mod 64 * 64 + n mod 64 = n"
    using one two three by linarith
qed

lemma decode_rune_2:
  "2 \<le> a \<Longrightarrow> a < 32 \<Longrightarrow> b < 64 \<Longrightarrow>
     decode_runes ((0xc0 + a) # (0x80 + b) # r) = map_option (Cons (a * 64 + b)) (decode_runes r)"
  by (simp add: cont_byte_def)

lemma decode_rune_3:
  "a < 16 \<Longrightarrow> b < 64 \<Longrightarrow> c < 64 \<Longrightarrow> n = a * 4096 + b * 64 + c \<Longrightarrow> 0x800 \<le> n \<Longrightarrow> \<not> surrogate n \<Longrightarrow>
     decode_runes ((0xe0 + a) # (0x80 + b) # (0x80 + c) # r) = map_option (Cons n) (decode_runes r)"
  by (simp add: cont_byte_def)

lemma decode_rune_4:
  "a < 8 \<Longrightarrow> b < 64 \<Longrightarrow> c < 64 \<Longrightarrow> d < 64 \<Longrightarrow> n = a * 262144 + b * 4096 + c * 64 + d \<Longrightarrow> 0x10000 \<le> n \<Longrightarrow>
     n < 0x110000 \<Longrightarrow>
     decode_runes ((0xf0 + a) # (0x80 + b) # (0x80 + c) # (0x80 + d) # r) = map_option (Cons n) (decode_runes r)"
  by (simp add: cont_byte_def)

lemma decode_rune_bytes:
  assumes "scalar n"
  shows "decode_runes (rune_bytes n @ r) = map_option (Cons n) (decode_runes r)"
proof -
  have n: "n < 0x110000" "\<not> surrogate n" using assms by (auto simp: scalar_def)
  have m: "n mod 64 < 64" "n div 64 mod 64 < 64" "n div 4096 mod 64 < 64" by simp_all
  consider "n < 0x80" | "0x80 \<le> n" "n < 0x800" | "0x800 \<le> n" "n < 0x10000" | "0x10000 \<le> n" by linarith
  then show ?thesis
  proof cases
    case 2
    then have "n div 64 < 32" "2 \<le> n div 64" by linarith+
    from decode_rune_2 [OF this(2,1) m(1), of r] show ?thesis
      using 2 by (simp add: rune_bytes_def split_base64)
  next
    case 3
    then have "n div 4096 < 16" by linarith
    from decode_rune_3 [OF this m(2,1) split_base64(2) [symmetric] 3(1) n(2), of r] show ?thesis
      using 3 by (simp add: rune_bytes_def)
  next
    case 4
    have "n div 262144 < 8" using n(1) by linarith
    from decode_rune_4 [OF this m(3,2,1) split_base64(3) [symmetric] 4 n(1), of r] show ?thesis
      using 4 by (simp add: rune_bytes_def)
  qed (simp add: rune_bytes_def)
qed

lemma rune_bytes_small: "scalar n \<Longrightarrow> b \<in> set (rune_bytes n) \<Longrightarrow> b < 256"
proof -
  assume "scalar n" "b \<in> set (rune_bytes n)"
  moreover have "n < 0x800 \<longrightarrow> n div 64 < 32" "n < 0x10000 \<longrightarrow> n div 4096 < 16" "n < 0x110000 \<longrightarrow> n div 262144 < 5"
    by linarith+
  moreover have "n mod 64 < 64" "n div 64 mod 64 < 64" "n div 4096 mod 64 < 64" by simp_all
  ultimately show ?thesis by (auto simp: rune_bytes_def scalar_def split: if_splits)
qed

lemma runes_of_string:
  "list_all scalar rs \<Longrightarrow> runes_of (string_of_runes rs) = Some rs"
proof -
  assume rs: "list_all scalar rs"
  have "map unat (string_of_runes rs) = concat (map rune_bytes rs)"
    using rs
  proof (induction rs)
    case (Cons n rs)
    then have "\<forall>b\<in>set (rune_bytes n). unat (of_nat b :: byte) = b"
      using rune_bytes_small [of n] by (auto simp: unat_of_nat)
    then have "map (unat \<circ> (of_nat :: nat \<Rightarrow> byte)) (rune_bytes n) = rune_bytes n"
      by (simp add: map_idI)
    with Cons show ?case by (simp add: string_of_runes_def)
  qed (simp add: string_of_runes_def)
  moreover have "decode_runes (concat (map rune_bytes rs)) = Some rs"
    using rs by (induction rs) (simp_all add: decode_rune_bytes)
  ultimately show ?thesis by (simp add: runes_of_def)
qed

text \<open>Conversely, the digits of a decoded code point are its bytes.\<close>

lemma rune_bytes_2:
  "2 \<le> a \<Longrightarrow> a < 32 \<Longrightarrow> b < 64 \<Longrightarrow> rune_bytes (a * 64 + b) = [0xc0 + a, 0x80 + b]"
  by (simp add: rune_bytes_def div_mult_self3)

lemma digit_unique: "(n :: nat) = q * k + r \<Longrightarrow> r < k \<Longrightarrow> n div k = q \<and> n mod k = r"
  by auto

lemma rune_bytes_3:
  assumes "a < 16" "b < 64" "c < 64" "n = a * 4096 + b * 64 + c" "0x800 \<le> n"
  shows "rune_bytes n = [0xe0 + a, 0x80 + b, 0x80 + c]"
proof -
  have "n div 64 = a * 64 + b \<and> n mod 64 = c" using assms by (intro digit_unique) simp_all
  moreover have "n div 4096 = a \<and> n mod 4096 = b * 64 + c" using assms by (intro digit_unique) simp_all
  moreover have "n < 0x10000" using assms by linarith
  ultimately show ?thesis using assms(2,5) by (simp add: rune_bytes_def)
qed

lemma rune_bytes_4:
  assumes "a < 8" "b < 64" "c < 64" "d < 64" "n = a * 262144 + b * 4096 + c * 64 + d" "0x10000 \<le> n"
  shows "rune_bytes n = [0xf0 + a, 0x80 + b, 0x80 + c, 0x80 + d]"
proof -
  have "n div 64 = (a * 64 + b) * 64 + c \<and> n mod 64 = d" using assms by (intro digit_unique) simp_all
  moreover from this have "n div 64 div 64 = a * 64 + b \<and> n div 64 mod 64 = c"
    using assms(3) by (intro digit_unique) blast+
  moreover have "n div 4096 = a * 64 + b \<and> n mod 4096 = c * 64 + d" using assms by (intro digit_unique) simp_all
  moreover have "n div 262144 = a \<and> n mod 262144 = b * 4096 + c * 64 + d"
    using assms by (intro digit_unique) simp_all
  ultimately show ?thesis
    using assms(2,3,6) unfolding rune_bytes_def by (auto simp del: mod_mult_self1 mod_mult_self2)
qed

lemma cont_byte_split: "cont_byte b \<Longrightarrow> \<exists>x. b = 0x80 + x \<and> x < 64"
  by (intro exI [of _ "b - 0x80"]) (auto simp: cont_byte_def)

text \<open>One step of the decoder: the first code point, its bytes, and the rest.\<close>

lemma decode_runes_step:
  assumes "decode_runes (a # r) = Some rs"
  obtains n rs' r' where "rs = n # rs'" "scalar n" "a # r = rune_bytes n @ r'" "decode_runes r' = Some rs'"
    "length r' < length (a # r)"
proof (cases "a < 0x80")
  case True
  then show thesis using assms that [of a _ r] by (auto simp: rune_bytes_def scalar_def surrogate_def)
next
  case False
  then obtain b r2 where r: "r = b # r2" using assms by (cases r) auto
  show thesis
  proof (cases "a < 0xe0")
    case True
    then obtain x y where d: "a = 0xc0 + x" "2 \<le> x" "x < 32" "b = 0x80 + y" "y < 64"
      "rs = (x * 64 + y) # tl rs" "decode_runes r2 = Some (tl rs)"
      using assms False r cont_byte_split [of b] nat_le_iff_add [of "0xc0" a]
      by (auto simp: Let_def split: if_splits)
    have "scalar (x * 64 + y)" using d(3,5) by (simp add: scalar_def surrogate_def)
    then show thesis using d rune_bytes_2 [OF d(2,3,5)] r by (intro that [of "x * 64 + y" "tl rs" r2]) auto
  next
    case F2: False
    then obtain c r3 where r2: "r2 = c # r3" using assms False r by (cases r2) auto
    show thesis
    proof (cases "a < 0xf0")
      case True
      define x where "x = a - 0xe0"
      have a: "a = 0xe0 + x" "x < 16" using True F2 by (simp_all add: x_def)
      obtain n y z where d: "b = 0x80 + y" "y < 64" "c = 0x80 + z" "z < 64" "n = x * 4096 + y * 64 + z" "0x800 \<le> n"
        "\<not> surrogate n" "rs = n # tl rs" "decode_runes r3 = Some (tl rs)"
        using assms a r r2 cont_byte_split [of b] cont_byte_split [of c] by (auto simp: Let_def split: if_splits)
      have "n < 0x110000" using a(2) d(2,4,5) by simp
      then show thesis
        using d rune_bytes_3 [OF a(2) d(2,4,5,6)] a r r2 by (intro that [of n "tl rs" r3]) (auto simp: scalar_def)
    next
      case F3: False
      then obtain e r4 where r3: "r3 = e # r4" using assms False F2 r r2 by (cases r3) auto
      define x where "x = a - 0xf0"
      have a: "a = 0xf0 + x" using F3 by (simp add: x_def)
      obtain n y z w where d: "x < 8" "b = 0x80 + y" "y < 64" "c = 0x80 + z" "z < 64" "e = 0x80 + w" "w < 64"
        "n = x * 262144 + y * 4096 + z * 64 + w" "0x10000 \<le> n" "n < 0x110000" "rs = n # tl rs" "decode_runes r4 = Some (tl rs)"
        using assms a r r2 r3 cont_byte_split [of b] cont_byte_split [of c] cont_byte_split [of e]
        by (auto simp: Let_def split: if_splits)
      then show thesis
        using rune_bytes_4 [OF d(1,3,5,7,8,9)] a r r2 r3
        by (intro that [of n "tl rs" r4]) (auto simp: scalar_def surrogate_def)
    qed
  qed
qed

lemma decode_runes_Some:
  "decode_runes bs = Some rs \<Longrightarrow> concat (map rune_bytes rs) = bs \<and> list_all scalar rs"
proof (induction "length bs" arbitrary: bs rs rule: less_induct)
  case less
  show ?case
  proof (cases bs)
    case Nil
    then show ?thesis using less.prems by simp
  next
    case (Cons a r)
    obtain n rs' r' where "rs = n # rs'" "scalar n" "bs = rune_bytes n @ r'" "decode_runes r' = Some rs'"
      "length r' < length bs"
      using decode_runes_step [of a r rs] less.prems Cons by metis
    then show ?thesis using less.hyps [of r' rs'] by simp
  qed
qed

lemma string_of_runes_of: "runes_of s = Some rs \<Longrightarrow> string_of_runes rs = s \<and> list_all scalar rs"
proof -
  assume "runes_of s = Some rs"
  then have d: "concat (map rune_bytes rs) = map unat s" "list_all scalar rs"
    using decode_runes_Some by (auto simp: runes_of_def)
  have "map (of_nat \<circ> unat) s = s" by (simp add: map_idI)
  then show ?thesis using d by (simp add: string_of_runes_def)
qed

lemma short_rune:
  "0x80 \<le> a \<Longrightarrow> decode_runes [a] = None" "0xe0 \<le> a \<Longrightarrow> decode_runes [a, b] = None"
  "0xf0 \<le> a \<Longrightarrow> decode_runes [a, b, c] = None"
  by simp_all

lemma rune_width_bytes:
  assumes "scalar n"
  shows "rune_width (rune_bytes n @ r) = Some (length (rune_bytes n))"
proof -
  have d: "decode_runes (rune_bytes n) = Some [n]" using decode_rune_bytes [OF assms, of "[]"] by simp
  consider "rune_bytes n = [n]" | a b where "rune_bytes n = [0xc0 + a, b]"
    | a b c where "rune_bytes n = [0xe0 + a, b, c]" | a b c e where "rune_bytes n = [0xf0 + a, b, c, e]"
    unfolding rune_bytes_def by metis
  then show ?thesis
    by cases (use d in \<open>simp_all add: rune_width_def short_rune del: decode_runes.simps\<close>)
qed

lemma go_runes_valid: "runes_of s = Some rs \<Longrightarrow> go_runes s = rs"
proof -
  have "lossy_runes (concat (map rune_bytes rs)) = rs" if "list_all scalar rs" for rs
    using that
  proof (induction rs)
    case (Cons n rs)
    then have w: "rune_width (rune_bytes n @ r) = Some (length (rune_bytes n))"
      "decode_runes (rune_bytes n) = Some [n]" for r
      using rune_width_bytes decode_rune_bytes [of n "[]"] by auto
    obtain a r where ar: "rune_bytes n @ concat (map rune_bytes rs) = a # r"
      by (cases "rune_bytes n") (simp_all add: rune_bytes_def split: if_splits)
    have "lossy_runes (a # r) = (case rune_width (a # r) of
        Some k \<Rightarrow> hd (the (decode_runes (take k (a # r)))) # lossy_runes (drop k (a # r))
      | None \<Rightarrow> 0xfffd # lossy_runes r)" by simp
    also have "\<dots> = n # lossy_runes (concat (map rune_bytes rs))"
      unfolding ar [symmetric] using w by simp
    finally show ?case using Cons ar by simp
  qed simp
  from this [of rs] show "runes_of s = Some rs \<Longrightarrow> go_runes s = rs"
    using decode_runes_Some [of "map unat s" rs] by (simp add: go_runes_def runes_of_def)
qed

lemma utf16_decode_rune:
  assumes "scalar n"
  shows "utf16_decode (rune_units n @ us) = n # utf16_decode us"
proof (cases "n < 0x10000")
  case True
  then have u: "unat (of_nat n :: u16) = n" by (simp add: unat_of_nat)
  have "\<not> high_surrogate n" "\<not> surrogate n"
    using assms by (auto simp: scalar_def surrogate_def high_surrogate_def)
  then show ?thesis using True u by (cases us) (simp_all add: rune_units_def)
next
  case False
  define m where "m = n - 0x10000"
  have m: "m div 0x400 < 0x400" "m mod 0x400 < 0x400" "n = 0x10000 + m"
    using assms False by (auto simp: m_def scalar_def)
  then have u: "unat (of_nat (0xd800 + m div 0x400) :: u16) = 0xd800 + m div 0x400"
    "unat (of_nat (0xdc00 + m mod 0x400) :: u16) = 0xdc00 + m mod 0x400"
    by (simp_all add: unat_of_nat del: of_nat_add)
  show ?thesis
    using False u m
    by (simp add: rune_units_def m_def [symmetric] high_surrogate_def low_surrogate_def del: of_nat_add)
qed

lemma utf16_roundtrip: "list_all scalar rs \<Longrightarrow> utf16_decode (utf16_encode rs) = rs"
  by (induction rs) (simp_all add: utf16_encode_def utf16_decode_rune)

lemma bytes_units_bytes [simp]: "bytes_units (units_bytes us) = us"
proof (induction us)
  case (Cons u us)
  have "get16le (put16le u) = u" by simp
  moreover obtain a b where "put16le u = [a, b]" by (simp add: put16le_def)
  ultimately show ?case using Cons by (simp add: units_bytes_def del: get16le.simps)
qed (simp add: units_bytes_def)

lemma length_units_bytes [simp]: "length (units_bytes us) = 2 * length us"
  by (induction us) (simp_all add: units_bytes_def)

text \<open>ASCII text.\<close>

definition ascii :: "gostring \<Rightarrow> bool" where
  "ascii s \<longleftrightarrow> list_all (\<lambda>b. b < 0x80) s"

lemma ascii_runes: "ascii s \<Longrightarrow> runes_of s = Some (map unat s)"
  unfolding runes_of_def ascii_def
proof (induction s)
  case (Cons b s)
  then have "unat b < 0x80" by (simp add: word_less_nat_alt)
  with Cons show ?case by simp
qed simp

lemma ascii_utf16: "ascii s \<Longrightarrow> utf16_encode (map unat s) = map ucast s"
proof (induction s)
  case (Cons b s)
  have "unat b < 0x10000" using unsigned_less [of b, where ?'a = nat] by simp
  moreover have "(of_nat (unat b) :: u16) = ucast b" by (simp add: unsigned_of_nat)
  ultimately show ?case using Cons by (simp add: utf16_encode_def rune_units_def ascii_def)
qed (simp add: utf16_encode_def)

lemma ascii_units_bytes: "units_bytes (map ucast s) = concat (map (\<lambda>b :: byte. [b, 0]) s)"
proof (induction s)
  case (Cons b s)
  have "put16le (ucast b) = [b, 0]"
    by (auto simp: put16le_def bit_simps intro!: bit_word_eqI)
  then show ?case using Cons by (simp add: units_bytes_def)
qed (simp add: units_bytes_def)

end
