(* ===== verification/Cpic_Request.thy ===== *)
theory Cpic_Request
  imports Cpic_Framing Go_Text
begin

text \<open>
  Package \<open>cpic\<close>, files \<open>cpic.go\<close> (text helpers) and \<open>function.go\<close> (requests): the encoders of the first regular call
  and of an established-session call, over the field chain of theory \<open>Cpic_Chain\<close> and the trailer of theory
  \<open>Cpic_Framing\<close>. The lemmas read a request back: the chain decodes to the fields, the fields determine
  the call, and the framing inspection accepts every request.
\<close>

section \<open>Tags and text\<close>

definition CpicTagKernel :: u16 where "CpicTagKernel = 0x000b"
definition CpicTagStart :: u16 where "CpicTagStart = 0x0101"
definition CpicTagFunction :: u16 where "CpicTagFunction = 0x0102"
definition CpicTagProtocolVersion :: u16 where "CpicTagProtocolVersion = 0x0103"
definition CpicTagCapabilities :: u16 where "CpicTagCapabilities = 0x0106"
definition CpicTagParameterName :: u16 where "CpicTagParameterName = 0x0201"
definition CpicTagParameterValue :: u16 where "CpicTagParameterValue = 0x0203"
definition CpicTagRequestedOutput :: u16 where "CpicTagRequestedOutput = 0x0205"
definition CpicTagTableName :: u16 where "CpicTagTableName = 0x0301"
definition CpicTagTableHeader :: u16 where "CpicTagTableHeader = 0x0302"
definition CpicTagTableCompr :: u16 where "CpicTagTableCompr = 0x0304"
definition CpicTagLogonMarker :: u16 where "CpicTagLogonMarker = 0x0337"
definition CpicTagContextEnd :: u16 where "CpicTagContextEnd = 0x0502"
definition CpicTagCallContext :: u16 where "CpicTagCallContext = 0x0512"
definition CpicTagSession :: u16 where "CpicTagSession = 0x0514"
definition CpicTagXRfcParameter :: u16 where "CpicTagXRfcParameter = 0x3c02"
definition CpicTagXRfcData :: u16 where "CpicTagXRfcData = 0x3c05"

lemmas cpic_tags = CpicTagKernel_def CpicTagStart_def CpicTagFunction_def CpicTagProtocolVersion_def
  CpicTagCapabilities_def CpicTagParameterName_def CpicTagParameterValue_def CpicTagRequestedOutput_def
  CpicTagTableName_def CpicTagTableHeader_def CpicTagTableCompr_def CpicTagLogonMarker_def CpicTagContextEnd_def
  CpicTagCallContext_def CpicTagSession_def CpicTagXRfcParameter_def CpicTagXRfcData_def CpicTagEnd_def

definition ClassicXrfcXMLChunkLength :: nat where "ClassicXrfcXMLChunkLength = 16 * 1024"

abbreviation cfield :: "u16 \<Rightarrow> bytes \<Rightarrow> cpic_field" where
  "cfield tag v \<equiv> \<lparr>fd_Tag = tag, fd_Value = v\<rparr>"

definition cpicFunctionRequestPrefix :: bytes where
  "cpicFunctionRequestPrefix = [0x01, 0x01, 0x00, 0x08, 0x03, 0x01, 0x01, 0x05, 0x04, 0x01, 0x00, 0x03]"

definition cpicCutFunctionRequestPrefix :: bytes where
  "cpicCutFunctionRequestPrefix = [0x05, 0x02, 0x00, 0x00]"

definition initialProtocolVersion :: bytes where
  "initialProtocolVersion = [0x00, 0x00, 0x0e, 0x09]"

definition initialCapabilities :: bytes where
  "initialCapabilities = [0x04, 0x01, 0x00, 0x03, 0x00, 0x0a, 0x02, 0x00, 0x00, 0x00, 0x23]"

text \<open>The pattern \<open>^\d{3}$\<close>.\<close>

definition digits3 :: "gostring \<Rightarrow> bool" where
  "digits3 s \<longleftrightarrow> length s = 3 \<and> list_all (\<lambda>b. 0x30 \<le> b \<and> b \<le> 0x39) s"

definition cpic_exactBytes :: "bytes \<Rightarrow> nat \<Rightarrow> cpic_error + bytes" where
  "cpic_exactBytes v n = (if length v \<noteq> n then Inl CErrRange else Inr v)"

definition containsNUL :: "gostring \<Rightarrow> bool" where
  "containsNUL s = list_ex (\<lambda>b. b = 0) s"

definition unicodeBytes :: "gostring \<Rightarrow> nat \<Rightarrow> cpic_error + bytes" where
  "unicodeBytes v maximumCharacters =
     (let units = utf16_encode (go_runes v) in
      if length units < 1 \<or> length units > maximumCharacters \<or> \<not> ValidString v \<or> containsNUL v then Inl CErrRange
      else Inr (units_bytes units))"

definition utf16leBytes :: "gostring \<Rightarrow> bytes" where
  "utf16leBytes s = units_bytes (utf16_encode (go_runes s))"

section \<open>The first regular call\<close>

record function_request_input =
  fr_FunctionName :: gostring
  fr_SessionID :: bytes
  fr_KernelRelease :: gostring
  fr_MaximumRfcPacketSize :: "u32 option"

definition default_release :: "gostring \<Rightarrow> gostring" where
  "default_release kernelRelease = (if kernelRelease = [] then gostr ''754'' else kernelRelease)"

text \<open>The last steps of both encoders: the length, the trailer, the chain, and their concatenation.\<close>

definition frame_chain :: "bytes \<Rightarrow> u16 \<Rightarrow> cpic_field list \<Rightarrow> u32 \<Rightarrow> cpic_error + bytes" where
  "frame_chain prefix' initialTag flds maximumRfcPacketSize =
     bindE (FieldChainByteLength initialTag flds no_limits) (\<lambda>chainByteLength.
     let trailer = packetTrailer (length prefix' + nat chainByteLength) maximumRfcPacketSize in
     bindE (EncodeFieldChain initialTag flds no_limits) (\<lambda>chain.
     Inr (prefix' @ chain @ trailer)))"

definition EncodeFunctionRequest :: "function_request_input \<Rightarrow> cpic_error + bytes" where
  "EncodeFunctionRequest input =
     (let kernelRelease = default_release (fr_KernelRelease input) in
      bindE (fail_if (\<not> digits3 kernelRelease) CErrRange) (\<lambda>_.
      bindE (cpic_exactBytes (fr_SessionID input) 16) (\<lambda>sessionID.
      bindE (unicodeBytes (fr_FunctionName input) 40) (\<lambda>functionName.
      frame_chain cpicFunctionRequestPrefix CpicTagStart
        [cfield CpicTagProtocolVersion initialProtocolVersion, cfield CpicTagCapabilities initialCapabilities,
         cfield CpicTagLogonMarker [], cfield CpicTagSession sessionID, cfield CpicTagContextEnd [],
         cfield CpicTagKernel (utf16leBytes kernelRelease), cfield CpicTagFunction functionName,
         cfield CpicTagCallContext [], cfield CpicTagEnd []]
        (checkedMaximumRfcPacketSize (fr_MaximumRfcPacketSize input))))))"

section \<open>An established-session call\<close>

record named_value =
  nv_Name :: gostring
  nv_Value :: bytes

record cut_table =
  tb_Name :: gostring
  tb_RowByteLength :: int
  tb_Rows :: "bytes list"

record cut_function_request_input =
  ci_FunctionName :: gostring
  ci_RequestedOutputs :: "gostring list"
  ci_Imports :: "named_value list"
  ci_Tables :: "cut_table list"
  ci_XrfcParameters :: "named_value list"
  ci_KernelRelease :: gostring
  ci_MaximumRfcPacketSize :: "u32 option"

text \<open>The loops over a \<open>seen\<close> map: the names seen so far are a list.\<close>

fun add_names :: "gostring list \<Rightarrow> gostring list \<Rightarrow> cpic_error + gostring list" where
  "add_names seen [] = Inr seen"
| "add_names seen (n # ns) = (if n \<in> set seen then Inl CErrProtocol else add_names (n # seen) ns)"

definition rejectDuplicates :: "gostring list \<Rightarrow> cpic_error + unit" where
  "rejectDuplicates values = bindE (add_names [] values) (\<lambda>_. Inr ())"

text \<open>A loop whose body appends fields or returns an error.\<close>

fun collect :: "('a \<Rightarrow> cpic_error + cpic_field list) \<Rightarrow> 'a list \<Rightarrow> cpic_error + cpic_field list" where
  "collect f [] = Inr []"
| "collect f (x # xs) = bindE (f x) (\<lambda>a. bindE (collect f xs) (\<lambda>b. Inr (a @ b)))"

definition output_fields :: "gostring \<Rightarrow> cpic_error + cpic_field list" where
  "output_fields name = bindE (unicodeBytes name 30) (\<lambda>v. Inr [cfield CpicTagRequestedOutput v])"

definition import_fields :: "named_value \<Rightarrow> cpic_error + cpic_field list" where
  "import_fields p =
     bindE (unicodeBytes (nv_Name p) 30) (\<lambda>v.
     Inr [cfield CpicTagParameterName v, cfield CpicTagParameterValue (nv_Value p)])"

definition table_fields :: "cut_table \<Rightarrow> cpic_error + cpic_field list" where
  "table_fields t =
     bindE (fail_if (tb_RowByteLength t < 0 \<or> tb_RowByteLength t > 0xffffffff) CErrRange) (\<lambda>_.
     bindE (unicodeBytes (tb_Name t) 30) (\<lambda>name.
     let header = put32be (of_int (tb_RowByteLength t)) @ put32be (of_nat (length (tb_Rows t))) in
     bindE (collect (\<lambda>row. if int (length row) \<noteq> tb_RowByteLength t then Inl CErrRange
                           else Inr [cfield CpicTagTableCompr row]) (tb_Rows t)) (\<lambda>rows.
     Inr (cfield CpicTagTableName name # cfield CpicTagTableHeader header # rows))))"

function xrfc_chunks :: "bytes \<Rightarrow> bytes list" where
  "xrfc_chunks v =
     (if v = [] then [] else take ClassicXrfcXMLChunkLength v # xrfc_chunks (drop ClassicXrfcXMLChunkLength v))"
  by pat_completeness auto
termination
  by (relation "measure length") (auto simp: ClassicXrfcXMLChunkLength_def)

declare xrfc_chunks.simps [simp del]

definition xrfc_fields :: "named_value \<Rightarrow> cpic_error + cpic_field list" where
  "xrfc_fields p =
     bindE (unicodeBytes (nv_Name p) 30) (\<lambda>_.
     bindE (fail_if (nv_Value p = []) CErrRange) (\<lambda>_.
     Inr (cfield CpicTagXRfcParameter [] # map (cfield CpicTagXRfcData) (xrfc_chunks (nv_Value p)) @
          [cfield CpicTagXRfcParameter []])))"

definition check_names :: "cut_function_request_input \<Rightarrow> cpic_error + unit" where
  "check_names input =
     (let imports = map nv_Name (ci_Imports input); tables = map tb_Name (ci_Tables input);
          xrfc = map nv_Name (ci_XrfcParameters input) in
      bindE (rejectDuplicates (ci_RequestedOutputs input)) (\<lambda>_.
      bindE (rejectDuplicates imports) (\<lambda>_.
      bindE (rejectDuplicates tables) (\<lambda>_.
      bindE (rejectDuplicates xrfc) (\<lambda>_.
      bindE (add_names [] imports) (\<lambda>seen.
      bindE (add_names seen tables) (\<lambda>seen.
      bindE (add_names seen xrfc) (\<lambda>_. Inr ()))))))))"

definition EncodeCutFunctionRequest :: "cut_function_request_input \<Rightarrow> cpic_error + bytes" where
  "EncodeCutFunctionRequest input =
     (let kernelRelease = default_release (ci_KernelRelease input) in
      bindE (fail_if (\<not> digits3 kernelRelease) CErrRange) (\<lambda>_.
      bindE (check_names input) (\<lambda>_.
      bindE (unicodeBytes (ci_FunctionName input) 40) (\<lambda>functionName.
      bindE (collect output_fields (ci_RequestedOutputs input)) (\<lambda>outputs.
      bindE (collect import_fields (ci_Imports input)) (\<lambda>imports.
      bindE (collect table_fields (ci_Tables input)) (\<lambda>tables.
      bindE (collect xrfc_fields (ci_XrfcParameters input)) (\<lambda>xrfc.
      frame_chain cpicCutFunctionRequestPrefix CpicTagContextEnd
        ([cfield CpicTagKernel (utf16leBytes kernelRelease), cfield CpicTagFunction functionName,
          cfield CpicTagCallContext []] @ outputs @ imports @ tables @ xrfc @ [cfield CpicTagEnd []])
        (checkedMaximumRfcPacketSize (ci_MaximumRfcPacketSize input))))))))))"

section \<open>Lemmas\<close>

text \<open>The text of UTF-16 bytes.\<close>

definition text_of :: "bytes \<Rightarrow> gostring" where
  "text_of b = string_of_runes (utf16_decode (bytes_units b))"

lemma unicodeBytes_Inr:
  assumes "unicodeBytes v n = Inr b"
  shows "text_of b = v" "1 < length b" "length b \<le> 2 * n"
proof -
  obtain rs where rs: "runes_of v = Some rs" and b: "b = units_bytes (utf16_encode (go_runes v))"
    and len: "utf16_encode (go_runes v) \<noteq> []" "length (utf16_encode (go_runes v)) \<le> n"
    using assms by (auto simp: unicodeBytes_def ValidString_def Let_def split: if_splits)
  have "list_all scalar rs" "string_of_runes rs = v" using string_of_runes_of [OF rs] by simp_all
  then show "text_of b = v" using b go_runes_valid [OF rs] by (simp add: text_of_def utf16_roundtrip)
  show "1 < length b" "length b \<le> 2 * n" using b len by (auto simp: neq_Nil_conv)
qed

lemma unicodeBytes_ascii:
  "ascii v \<Longrightarrow> 0 \<notin> set v \<Longrightarrow> v \<noteq> [] \<Longrightarrow> length v \<le> n \<Longrightarrow> unicodeBytes v n = Inr (concat (map (\<lambda>b. [b, 0]) v))"
  using ascii_runes [of v] go_runes_valid [of v "map unat v"]
  by (auto simp: unicodeBytes_def ascii_utf16 ascii_units_bytes ValidString_def containsNUL_def list_ex_iff Let_def)

lemma digits3_text: "digits3 v \<Longrightarrow> text_of (utf16leBytes v) = v"
proof -
  assume v: "digits3 v"
  then have "ascii v" "0 \<notin> set v" "v \<noteq> []" "length v \<le> 3"
    by (auto simp: digits3_def ascii_def list_all_iff word_le_nat_alt word_less_nat_alt)
  then obtain b where b: "unicodeBytes v 3 = Inr b" using unicodeBytes_ascii by blast
  then have "b = utf16leBytes v" by (auto simp: unicodeBytes_def utf16leBytes_def Let_def split: if_splits)
  then show ?thesis using unicodeBytes_Inr(1) [OF b] by simp
qed

lemma add_names_Inr:
  "add_names seen ns = Inr s \<longleftrightarrow> distinct ns \<and> set ns \<inter> set seen = {} \<and> s = rev ns @ seen"
  by (induction ns arbitrary: seen) auto

lemma check_names_Inr:
  "check_names input = Inr u \<longleftrightarrow> distinct (ci_RequestedOutputs input) \<and>
     distinct (map nv_Name (ci_Imports input) @ map tb_Name (ci_Tables input) @ map nv_Name (ci_XrfcParameters input))"
  by (auto simp: check_names_def rejectDuplicates_def bindE_Inr_iff add_names_Inr Let_def)

lemma collect_Inr:
  "collect f xs = Inr fs \<longleftrightarrow> (\<exists>fss. list_all2 (\<lambda>x a. f x = Inr a) xs fss \<and> fs = concat fss)"
proof (induction xs arbitrary: fs)
  case (Cons x xs)
  show ?case
    by (auto simp: bindE_Inr_iff Cons list_all2_Cons1) (metis concat.simps(2))
qed auto

text \<open>The values of the fields with a tag, in order.\<close>

definition read_tag :: "u16 \<Rightarrow> cpic_field list \<Rightarrow> bytes list" where
  "read_tag tag fs = map fd_Value (filter (\<lambda>f. fd_Tag f = tag) fs)"

lemma read_tag_simps [simp]:
  "read_tag tag [] = []" "read_tag tag (f # fs) = (if fd_Tag f = tag then fd_Value f # read_tag tag fs else read_tag tag fs)"
  "read_tag tag (fs @ gs) = read_tag tag fs @ read_tag tag gs"
  by (simp_all add: read_tag_def)

lemma concat_xrfc_chunks: "concat (xrfc_chunks v) = v"
  by (induction v rule: xrfc_chunks.induct) (subst xrfc_chunks.simps, simp)

section \<open>Reading a call back\<close>

text \<open>
  A reader of the decoded fields, in the order of the wire: kernel release, function name, call context, the requested
  outputs, the imports as pairs of a name and a value field, the tables as a name, a header with row length and row count and as many
  row fields as the header says, the xRFC documents between two empty xRFC parameter fields, and the End field.
  The names of the xRFC parameters are not on the wire: \<open>EncodeCutFunctionRequest\<close> checks them and writes none.
\<close>

record call_view =
  cv_Kernel :: gostring
  cv_Function :: gostring
  cv_Outputs :: "gostring list"
  cv_Imports :: "named_value list"
  cv_Tables :: "cut_table list"
  cv_Documents :: "bytes list"

fun take_outputs :: "cpic_field list \<Rightarrow> gostring list \<times> cpic_field list" where
  "take_outputs [] = ([], [])"
| "take_outputs (f # fs) =
     (if fd_Tag f = CpicTagRequestedOutput then (case take_outputs fs of (ns, rest) \<Rightarrow> (text_of (fd_Value f) # ns, rest))
      else ([], f # fs))"

fun take_imports :: "cpic_field list \<Rightarrow> named_value list \<times> cpic_field list" where
  "take_imports (n # v # fs) =
     (if fd_Tag n = CpicTagParameterName \<and> fd_Tag v = CpicTagParameterValue
      then (case take_imports fs of (ps, rest) \<Rightarrow> (\<lparr>nv_Name = text_of (fd_Value n), nv_Value = fd_Value v\<rparr> # ps, rest))
      else ([], n # v # fs))"
| "take_imports fs = ([], fs)"

fun take_rows :: "nat \<Rightarrow> cpic_field list \<Rightarrow> (bytes list \<times> cpic_field list) option" where
  "take_rows 0 fs = Some ([], fs)"
| "take_rows (Suc n) [] = None"
| "take_rows (Suc n) (f # fs) =
     (if fd_Tag f = CpicTagTableCompr then map_option (\<lambda>(rows, rest). (fd_Value f # rows, rest)) (take_rows n fs)
      else None)"

lemma take_rows_length: "take_rows n fs = Some (rows, rest) \<Longrightarrow> length rest \<le> length fs"
  by (induction n fs arbitrary: rows rest rule: take_rows.induct) (auto split: if_splits dest: le_SucI)

function (sequential) take_tables :: "cpic_field list \<Rightarrow> (cut_table list \<times> cpic_field list) option" where
  "take_tables (n # h # fs) =
     (if fd_Tag n = CpicTagTableName \<and> fd_Tag h = CpicTagTableHeader
      then (case take_rows (unat (get32be (drop 4 (fd_Value h)))) fs of
          None \<Rightarrow> None
        | Some (rows, rest) \<Rightarrow> map_option (\<lambda>(ts, rest').
            (\<lparr>tb_Name = text_of (fd_Value n), tb_RowByteLength = uint (get32be (fd_Value h)), tb_Rows = rows\<rparr> # ts, rest'))
            (take_tables rest))
      else Some ([], n # h # fs))"
| "take_tables fs = Some ([], fs)"
  by pat_completeness auto
termination
  by (relation "measure length") (auto dest: take_rows_length)

fun take_chunks :: "cpic_field list \<Rightarrow> bytes \<times> cpic_field list" where
  "take_chunks [] = ([], [])"
| "take_chunks (f # fs) =
     (if fd_Tag f = CpicTagXRfcData then (case take_chunks fs of (d, rest) \<Rightarrow> (fd_Value f @ d, rest)) else ([], f # fs))"

lemma take_chunks_length: "(d, rest) = take_chunks fs \<Longrightarrow> length rest \<le> length fs"
  by (induction fs arbitrary: d rest) (auto split: prod.splits if_splits dest: le_SucI)

function (sequential) take_documents :: "cpic_field list \<Rightarrow> (bytes list \<times> cpic_field list) option" where
  "take_documents (f # fs) =
     (if f = cfield CpicTagXRfcParameter []
      then (case take_chunks fs of
          (d, e # rest) \<Rightarrow>
            (if e = cfield CpicTagXRfcParameter [] then map_option (\<lambda>(ds, rest'). (d # ds, rest')) (take_documents rest)
             else None)
        | (d, []) \<Rightarrow> None)
      else Some ([], f # fs))"
| "take_documents [] = Some ([], [])"
  by pat_completeness auto
termination
  by (relation "measure length") (auto dest: take_chunks_length)

fun read_call :: "cpic_field list \<Rightarrow> call_view option" where
  "read_call (k # f # c # fs) =
     (if fd_Tag k = CpicTagKernel \<and> fd_Tag f = CpicTagFunction \<and> c = cfield CpicTagCallContext []
      then (case take_outputs fs of (outputs, fs) \<Rightarrow> case take_imports fs of (imports, fs) \<Rightarrow>
        (case take_tables fs of None \<Rightarrow> None | Some (tables, fs) \<Rightarrow>
        (case take_documents fs of None \<Rightarrow> None | Some (documents, fs) \<Rightarrow>
          if fs = [cfield CpicTagEnd []]
          then Some \<lparr>cv_Kernel = text_of (fd_Value k), cv_Function = text_of (fd_Value f), cv_Outputs = outputs,
                     cv_Imports = imports, cv_Tables = tables, cv_Documents = documents\<rparr>
          else None)))
      else None)"
| "read_call _ = None"

text \<open>The fields that follow do not open another element of the kind that is read.\<close>

definition stops :: "u16 \<Rightarrow> cpic_field list \<Rightarrow> bool" where
  "stops tag fs \<longleftrightarrow> fs = [] \<or> fd_Tag (hd fs) \<noteq> tag"

lemma stops_collect:
  assumes "collect f xs = Inr fs" and "\<And>x a. f x = Inr a \<Longrightarrow> a \<noteq> [] \<and> fd_Tag (hd a) \<noteq> tag" and "stops tag rest"
  shows "stops tag (fs @ rest)"
proof (cases xs)
  case (Cons x xs')
  then obtain a b where "f x = Inr a" "fs = a @ b" using assms(1) by (auto simp: bindE_Inr_iff)
  then show ?thesis using assms(2) [of x a] by (simp add: stops_def)
qed (use assms in simp)

lemma take_outputs_fields:
  assumes "collect output_fields names = Inr fs" "stops CpicTagRequestedOutput rest"
  shows "take_outputs (fs @ rest) = (names, rest)"
  using assms
proof (induction names arbitrary: fs)
  case Nil
  then show ?case by (cases rest) (auto simp: stops_def)
next
  case (Cons x xs)
  then show ?case by (auto simp: bindE_Inr_iff output_fields_def unicodeBytes_Inr)
qed

lemma take_imports_fields:
  assumes "collect import_fields ps = Inr fs" "stops CpicTagParameterName rest"
  shows "take_imports (fs @ rest) = (ps, rest)"
  using assms
proof (induction ps arbitrary: fs)
  case Nil
  then show ?case by (cases rest rule: take_imports.cases) (auto simp: stops_def)
next
  case (Cons x xs)
  then show ?case by (auto simp: bindE_Inr_iff import_fields_def unicodeBytes_Inr)
qed

lemma row_fields_Inr:
  "collect (\<lambda>row. if int (length row) \<noteq> n then Inl e else Inr [cfield tag row]) rows = Inr fs \<Longrightarrow> fs = map (cfield tag) rows"
  by (induction rows arbitrary: fs) (auto simp: bindE_Inr_iff split: if_splits)

lemma table_fields_Inr:
  assumes "table_fields t = Inr a"
  obtains name where "unicodeBytes (tb_Name t) 30 = Inr name" "0 \<le> tb_RowByteLength t" "tb_RowByteLength t \<le> 0xffffffff"
    "a = cfield CpicTagTableName name # cfield CpicTagTableHeader
        (put32be (of_int (tb_RowByteLength t)) @ put32be (of_nat (length (tb_Rows t)))) # map (cfield CpicTagTableCompr) (tb_Rows t)"
  using assms that by (fastforce simp: table_fields_def bindE_Inr_iff Let_def fail_if_def split: if_splits dest: row_fields_Inr)

lemma take_rows_fields: "take_rows (length rows) (map (cfield CpicTagTableCompr) rows @ rest) = Some (rows, rest)"
  by (induction rows) simp_all

lemma take_tables_fields:
  assumes "collect table_fields ts = Inr fs" "stops CpicTagTableName rest" "length fs < 2 ^ 32"
  shows "take_tables (fs @ rest) = Some (ts, rest)"
  using assms
proof (induction ts arbitrary: fs)
  case Nil
  then show ?case by (cases rest rule: take_tables.cases) (auto simp: stops_def)
next
  case (Cons t ts)
  then obtain a b where ab: "table_fields t = Inr a" "collect table_fields ts = Inr b" "fs = a @ b"
    by (auto simp: bindE_Inr_iff)
  from table_fields_Inr [OF ab(1)] obtain name where name: "unicodeBytes (tb_Name t) 30 = Inr name"
    and len: "0 \<le> tb_RowByteLength t" "tb_RowByteLength t \<le> 0xffffffff"
    and a: "a = cfield CpicTagTableName name # cfield CpicTagTableHeader
        (put32be (of_int (tb_RowByteLength t)) @ put32be (of_nat (length (tb_Rows t)))) # map (cfield CpicTagTableCompr) (tb_Rows t)" .
  have "unat (of_nat (length (tb_Rows t)) :: u32) = length (tb_Rows t)"
    using Cons.prems(3) ab(3) a by (simp add: unsigned_of_nat take_bit_nat_eq_self)
  moreover have "uint (of_int (tb_RowByteLength t) :: u32) = tb_RowByteLength t"
    using len by (simp add: unsigned_of_int take_bit_int_eq_self)
  moreover have "take_tables (b @ rest) = Some (ts, rest)"
    using Cons ab by simp
  ultimately show ?case
    using take_rows_fields [of "tb_Rows t" "b @ rest"] unicodeBytes_Inr(1) [OF name]
    by (simp add: a ab(3))
qed

lemma take_chunks_fields:
  "stops CpicTagXRfcData rest \<Longrightarrow> take_chunks (map (cfield CpicTagXRfcData) vs @ rest) = (concat vs, rest)"
proof (induction vs)
  case Nil
  then show ?case by (cases rest) (auto simp: stops_def)
qed simp

lemma xrfc_fields_Inr:
  "xrfc_fields p = Inr a \<Longrightarrow> a = cfield CpicTagXRfcParameter [] #
     map (cfield CpicTagXRfcData) (xrfc_chunks (nv_Value p)) @ [cfield CpicTagXRfcParameter []]"
  by (auto simp: xrfc_fields_def bindE_Inr_iff)

lemma take_documents_fields:
  assumes "collect xrfc_fields ps = Inr fs" "stops CpicTagXRfcParameter rest"
  shows "take_documents (fs @ rest) = Some (map nv_Value ps, rest)"
  using assms
proof (induction ps arbitrary: fs)
  case Nil
  then show ?case by (cases rest) (auto simp: stops_def)
next
  case (Cons x xs)
  then obtain b where b: "collect xrfc_fields xs = Inr b" "fs = cfield CpicTagXRfcParameter [] #
      map (cfield CpicTagXRfcData) (xrfc_chunks (nv_Value x)) @ cfield CpicTagXRfcParameter [] # b"
    by (auto simp: bindE_Inr_iff dest!: xrfc_fields_Inr)
  have "stops CpicTagXRfcData (cfield CpicTagXRfcParameter [] # b @ rest)" by (simp add: stops_def cpic_tags)
  from take_chunks_fields [OF this, of "xrfc_chunks (nv_Value x)"] Cons b show ?case
    by (simp add: concat_xrfc_chunks)
qed

lemma read_call_fields:
  assumes outs: "collect output_fields names = Inr outs" and imps: "collect import_fields ps = Inr imps"
    and tabs: "collect table_fields ts = Inr tabs" and xs: "collect xrfc_fields ds = Inr xs"
    and len: "length tabs < 2 ^ 32"
  shows "read_call (cfield CpicTagKernel k # cfield CpicTagFunction f # cfield CpicTagCallContext [] #
      outs @ imps @ tabs @ xs @ [cfield CpicTagEnd []]) =
     Some \<lparr>cv_Kernel = text_of k, cv_Function = text_of f, cv_Outputs = names, cv_Imports = ps, cv_Tables = ts,
       cv_Documents = map nv_Value ds\<rparr>"
proof -
  let ?e = "[cfield CpicTagEnd []]"
  have e: "stops tag ?e" if "tag \<noteq> CpicTagEnd" for tag using that by (simp add: stops_def)
  have x: "stops tag (xs @ ?e)" if "tag \<notin> {CpicTagEnd, CpicTagXRfcParameter}" for tag
    using that by (intro stops_collect [OF xs] e) (auto dest!: xrfc_fields_Inr)
  have t: "stops tag (tabs @ xs @ ?e)" if "tag \<notin> {CpicTagEnd, CpicTagXRfcParameter, CpicTagTableName}" for tag
    using that by (intro stops_collect [OF tabs] x) (auto elim!: table_fields_Inr)
  have i: "stops tag (imps @ tabs @ xs @ ?e)"
    if "tag \<notin> {CpicTagEnd, CpicTagXRfcParameter, CpicTagTableName, CpicTagParameterName}" for tag
    using that by (intro stops_collect [OF imps] t) (auto simp: import_fields_def bindE_Inr_iff)
  have "stops CpicTagRequestedOutput (imps @ tabs @ xs @ ?e)" "stops CpicTagParameterName (tabs @ xs @ ?e)"
    "stops CpicTagTableName (xs @ ?e)" "stops CpicTagXRfcParameter ?e"
    by ((rule i | rule t | rule x | rule e), simp add: cpic_tags)+
  then show ?thesis
    by (simp add: take_outputs_fields [OF outs] take_imports_fields [OF imps] take_tables_fields [OF tabs _ len]
        take_documents_fields [OF xs])
qed

text \<open>Every framed chain that ends with the empty End field passes the inspection before APPC framing.\<close>

lemma chain_ends: "chain_layout prev (fs @ [cfield CpicTagEnd []]) =
    (chain_layout prev fs @ put16be (last_tag prev fs)) @ put16be CpicTagEnd @ put16be 0"
  by (simp add: chain_layout_append field_record_def field_header_layout_def)

lemma frame_chain_Inr:
  assumes "frame_chain prefix' tag (fs @ [cfield CpicTagEnd []]) m = Inr r"
  shows "\<exists>chain f. r = prefix' @ chain @ packetTrailer (length prefix' + length chain) m \<and>
     chain = chain_layout tag (fs @ [cfield CpicTagEnd []]) \<and>
     DecodeFieldChain chain tag no_limits = Inr (fs @ [cfield CpicTagEnd []]) \<and>
     InspectRequestAppcFraming r = Inr f \<and>
     rf_Mode f = (if length prefix' + length chain + 2 \<le> 28000 then FramingCompact else FramingStreamed) \<and>
     Suc (length fs) \<le> 100000"
proof -
  define chain where "chain = chain_layout tag (fs @ [cfield CpicTagEnd []])"
  define body where "body = prefix' @ chain"
  have fit: "\<exists>l. resolveLimits no_limits = Inr l \<and> chain_fits l tag (fs @ [cfield CpicTagEnd []])"
    and r: "r = body @ packetTrailer (length body) m"
    using assms
    by (auto simp: frame_chain_def bindE_Inr_iff FieldChainByteLength_Inr EncodeFieldChain_Inr Let_def body_def chain_def)
  have count: "Suc (length fs) \<le> 100000"
    using fit no_limits_resolved by (auto simp: chain_fits_def)
  have dec: "DecodeFieldChain chain tag no_limits = Inr (fs @ [cfield CpicTagEnd []])"
    using DecodeFieldChain_layout fit unfolding chain_def by blast
  have ends: "body = (prefix' @ chain_layout tag fs @ put16be (last_tag tag fs)) @ put16be CpicTagEnd @ put16be 0"
    by (simp add: body_def chain_def chain_ends)
  obtain f where "InspectRequestAppcFraming r = Inr f"
    "rf_Mode f = (if length body + 2 \<le> 28000 then FramingCompact else FramingStreamed)"
    using compact_inspect [of body m] streamed_inspect [OF _ ends, of m] r by (cases "length body + 2 \<le> 28000") auto
  then show ?thesis
    using dec r count by (intro exI [of _ chain] exI [of _ f]) (simp add: body_def chain_def)
qed

section \<open>Properties\<close>

text \<open>
  C12. An established-session request carries the call: whatever \<open>EncodeCutFunctionRequest\<close> accepts is the prefix, a field chain
  and the trailer; the chain decodes, and reading the decoded fields in order gives back the kernel release, the
  function name, the requested outputs, every import with its name and value, every table with its name, its row length and
  exactly the rows its header counts, and every xRFC document with its boundaries (the chunks of one document are joined, two
  documents are never merged; their names are checked but are not on the wire), with nothing before, between or after them; every
  such request passes the inspection before APPC framing, as compact exactly up to 28000 bytes of packet; and no two parameters share a name.
\<close>

theorem cut_request_carries_call:
  assumes "EncodeCutFunctionRequest input = Inr request"
  shows "\<exists>chain flds f. request = cpicCutFunctionRequestPrefix @ chain @
       packetTrailer (4 + length chain) (checkedMaximumRfcPacketSize (ci_MaximumRfcPacketSize input)) \<and>
     DecodeFieldChain chain CpicTagContextEnd no_limits = Inr flds \<and>
     read_call flds = Some \<lparr>cv_Kernel = default_release (ci_KernelRelease input), cv_Function = ci_FunctionName input,
       cv_Outputs = ci_RequestedOutputs input, cv_Imports = ci_Imports input, cv_Tables = ci_Tables input,
       cv_Documents = map nv_Value (ci_XrfcParameters input)\<rparr> \<and>
     InspectRequestAppcFraming request = Inr f \<and>
     rf_Mode f = (if length chain + 6 \<le> 28000 then FramingCompact else FramingStreamed) \<and>
     distinct (map nv_Name (ci_Imports input) @ map tb_Name (ci_Tables input) @ map nv_Name (ci_XrfcParameters input))"
proof -
  let ?kernel = "cfield CpicTagKernel (utf16leBytes (default_release (ci_KernelRelease input)))"
  from assms obtain fname outs imps tabs xs where
    release: "digits3 (default_release (ci_KernelRelease input))"
    and fname: "unicodeBytes (ci_FunctionName input) 40 = Inr fname"
    and outs: "collect output_fields (ci_RequestedOutputs input) = Inr outs"
    and imps: "collect import_fields (ci_Imports input) = Inr imps"
    and tabs: "collect table_fields (ci_Tables input) = Inr tabs"
    and xs: "collect xrfc_fields (ci_XrfcParameters input) = Inr xs"
    and names: "check_names input = Inr ()"
    and fr: "frame_chain cpicCutFunctionRequestPrefix CpicTagContextEnd
        ((?kernel # cfield CpicTagFunction fname # cfield CpicTagCallContext [] # outs @ imps @ tabs @ xs) @
          [cfield CpicTagEnd []])
        (checkedMaximumRfcPacketSize (ci_MaximumRfcPacketSize input)) = Inr request"
    by (auto simp: EncodeCutFunctionRequest_def bindE_Inr_iff Let_def fail_if_def split: if_splits)
  define flds where "flds = (?kernel # cfield CpicTagFunction fname # cfield CpicTagCallContext [] # outs @ imps @ tabs @ xs) @
      [cfield CpicTagEnd []]"
  have four: "length cpicCutFunctionRequestPrefix = 4" by (simp add: cpicCutFunctionRequestPrefix_def)
  obtain chain f where c: "request = cpicCutFunctionRequestPrefix @ chain @
       packetTrailer (4 + length chain) (checkedMaximumRfcPacketSize (ci_MaximumRfcPacketSize input))"
    "DecodeFieldChain chain CpicTagContextEnd no_limits = Inr flds" "InspectRequestAppcFraming request = Inr f"
    "rf_Mode f = (if 4 + length chain + 2 \<le> 28000 then FramingCompact else FramingStreamed)" "length flds \<le> 100000"
    using frame_chain_Inr [OF fr] unfolding flds_def four by (metis length_append_singleton)
  have "read_call flds = Some \<lparr>cv_Kernel = default_release (ci_KernelRelease input), cv_Function = ci_FunctionName input,
       cv_Outputs = ci_RequestedOutputs input, cv_Imports = ci_Imports input, cv_Tables = ci_Tables input,
       cv_Documents = map nv_Value (ci_XrfcParameters input)\<rparr>"
    using read_call_fields [OF outs imps tabs xs] c(5) unicodeBytes_Inr(1) [OF fname] digits3_text [OF release]
    by (simp add: flds_def)
  then show ?thesis
    using c names by (intro exI [of _ chain] exI [of _ flds] exI [of _ f]) (simp add: check_names_Inr)
qed

definition sample_call :: cut_function_request_input where
  "sample_call = \<lparr>ci_FunctionName = gostr ''STFC'', ci_RequestedOutputs = [gostr ''ECHO''],
     ci_Imports = [\<lparr>nv_Name = gostr ''REQU'', nv_Value = [65, 0]\<rparr>],
     ci_Tables = [\<lparr>tb_Name = gostr ''T'', tb_RowByteLength = 2, tb_Rows = [[1, 2], [3, 4]]\<rparr>],
     ci_XrfcParameters = [\<lparr>nv_Name = gostr ''X'', nv_Value = [60, 62]\<rparr>], ci_KernelRelease = [], ci_MaximumRfcPacketSize = None\<rparr>"

lemma frame_chain_small:
  assumes "length flds \<le> 100000" "length (chain_layout tag flds) \<le> 100000"
    and "list_all (\<lambda>f. length (fd_Value f) \<le> 100000) flds"
  shows "\<exists>b. frame_chain prefix' tag flds m = Inr b"
proof -
  have "chain_fits \<lparr>rl_maxFieldLength = 268435456, rl_maxChainLength = 268435456, rl_maxFieldCount = 100000\<rparr> tag flds"
    using assms by (auto simp: chain_fits_def list_all_iff)
  then have "FieldChainByteLength tag flds no_limits = Inr (int (length (chain_layout tag flds)))"
    "EncodeFieldChain tag flds no_limits = Inr (chain_layout tag flds)"
    using no_limits_resolved by (auto simp: FieldChainByteLength_Inr EncodeFieldChain_Inr)
  then show ?thesis by (simp add: frame_chain_def Let_def)
qed

lemma sample_call_encodes: "\<exists>b. EncodeCutFunctionRequest sample_call = Inr b"
proof -
  have u: "unicodeBytes (gostr ''STFC'') 40 = Inr [83, 0, 84, 0, 70, 0, 67, 0]"
    "unicodeBytes (gostr ''ECHO'') 30 = Inr [69, 0, 67, 0, 72, 0, 79, 0]"
    "unicodeBytes (gostr ''REQU'') 30 = Inr [82, 0, 69, 0, 81, 0, 85, 0]" "unicodeBytes (gostr ''T'') 30 = Inr [84, 0]"
    "unicodeBytes (gostr ''X'') 30 = Inr [88, 0]"
    by (simp_all add: unicodeBytes_ascii ascii_def gostr_def)
  have k: "length (utf16leBytes (gostr ''754'')) = 6"
    using ascii_runes [of "gostr ''754''"] go_runes_valid [of "gostr ''754''"]
    by (simp add: utf16leBytes_def ascii_def gostr_def ascii_utf16 utf16_encode_def rune_units_def)
  have "digits3 (gostr ''754'')" by (simp add: digits3_def gostr_def)
  moreover have "xrfc_chunks [60, 62] = [[60, 62]]"
    by (simp add: xrfc_chunks.simps [of "[60, 62]"] xrfc_chunks.simps [of "[]"] ClassicXrfcXMLChunkLength_def)
  moreover have "check_names sample_call = Inr ()" by (simp add: check_names_Inr sample_call_def gostr_def)
  ultimately show ?thesis
    by (simp add: EncodeCutFunctionRequest_def sample_call_def default_release_def u output_fields_def import_fields_def
        table_fields_def xrfc_fields_def fail_if_def)
      (rule frame_chain_small; simp add: field_record_def length_field_header_layout k)
qed

theorem cut_request_carries_call_witness:
  "\<exists>request chain flds. EncodeCutFunctionRequest sample_call = Inr request \<and>
     DecodeFieldChain chain CpicTagContextEnd no_limits = Inr flds \<and>
     read_call flds = Some \<lparr>cv_Kernel = gostr ''754'', cv_Function = gostr ''STFC'', cv_Outputs = [gostr ''ECHO''],
       cv_Imports = [\<lparr>nv_Name = gostr ''REQU'', nv_Value = [65, 0]\<rparr>],
       cv_Tables = [\<lparr>tb_Name = gostr ''T'', tb_RowByteLength = 2, tb_Rows = [[1, 2], [3, 4]]\<rparr>],
       cv_Documents = [[60, 62]]\<rparr>"
proof -
  obtain request where request: "EncodeCutFunctionRequest sample_call = Inr request" using sample_call_encodes by blast
  from cut_request_carries_call [OF this] obtain chain flds where
    "DecodeFieldChain chain CpicTagContextEnd no_limits = Inr flds"
    "read_call flds = Some \<lparr>cv_Kernel = default_release (ci_KernelRelease sample_call),
       cv_Function = ci_FunctionName sample_call, cv_Outputs = ci_RequestedOutputs sample_call,
       cv_Imports = ci_Imports sample_call, cv_Tables = ci_Tables sample_call,
       cv_Documents = map nv_Value (ci_XrfcParameters sample_call)\<rparr>"
    by (elim exE conjE) (rule that)
  then show ?thesis
    using request
    by (intro exI [of _ request] exI [of _ chain] exI [of _ flds]) (simp add: sample_call_def default_release_def)
qed

end
