(* ===== verification/Rfc_Error.thy ===== *)
theory Rfc_Error
  imports Cpic_Request
begin

text \<open>
  Package \<open>rfcerr\<close> (\<open>internal/rfcerr/rfcerr.go\<close>): the classification of a response envelope as success, declared
  exception, runtime error or message. The package's \<open>Field\<close> has the shape of the \<open>cpic\<close> field, and the code converts
  one to the other field by field, so both are \<open>cpic_field\<close>. The maps \<open>present\<close> and \<open>values\<close>, which the
  loop writes together, are one map. The lemmas show what success means and that a plain success response is recognised.
\<close>

section \<open>Data\<close>

definition ErrTagExceptionKey :: u16 where "ErrTagExceptionKey = 0x0401"
definition ErrTagErrorMessage :: u16 where "ErrTagErrorMessage = 0x0402"
definition ErrTagRuntimeID :: u16 where "ErrTagRuntimeID = 0x0403"
definition ErrTagT100Text :: u16 where "ErrTagT100Text = 0x0404"
definition ErrTagMessageV1 :: u16 where "ErrTagMessageV1 = 0x0411"
definition ErrTagMessageV2 :: u16 where "ErrTagMessageV2 = 0x0412"
definition ErrTagMessageV3 :: u16 where "ErrTagMessageV3 = 0x0413"
definition ErrTagMessageV4 :: u16 where "ErrTagMessageV4 = 0x0414"
definition ErrTagMessageClass :: u16 where "ErrTagMessageClass = 0x0415"
definition ErrTagMessageType :: u16 where "ErrTagMessageType = 0x0416"
definition ErrTagMessageNumber :: u16 where "ErrTagMessageNumber = 0x0417"
definition ErrTagCallStack :: u16 where "ErrTagCallStack = 0x0418"
definition ErrTagUnresolved0420 :: u16 where "ErrTagUnresolved0420 = 0x0420"
definition ErrTagUseClassExceptions :: u16 where "ErrTagUseClassExceptions = 0x0421"
definition ErrTagClassExceptionInfo :: u16 where "ErrTagClassExceptionInfo = 0x0422"
definition ErrTagClassException :: u16 where "ErrTagClassException = 0x0423"
definition ErrTagClassExceptionEnd :: u16 where "ErrTagClassExceptionEnd = 0x0424"
definition ErrEndTag :: u16 where "ErrEndTag = 0xffff"

lemmas err_tags = ErrTagExceptionKey_def ErrTagErrorMessage_def ErrTagRuntimeID_def ErrTagT100Text_def
  ErrTagMessageV1_def ErrTagMessageV2_def ErrTagMessageV3_def ErrTagMessageV4_def ErrTagMessageClass_def
  ErrTagMessageType_def ErrTagMessageNumber_def ErrTagCallStack_def ErrTagUnresolved0420_def
  ErrTagUseClassExceptions_def ErrTagClassExceptionInfo_def ErrTagClassException_def ErrTagClassExceptionEnd_def
  ErrEndTag_def

definition DefaultMaxTextByteLength :: int where "DefaultMaxTextByteLength = 1024 * 1024"
definition DefaultMaxTotalTextByteLength :: int where "DefaultMaxTotalTextByteLength = 4 * 1024 * 1024"
definition DefaultMaxControlByteLength :: int where "DefaultMaxControlByteLength = 4 * 1024"
definition DefaultMaxTotalControlByteLength :: int where "DefaultMaxTotalControlByteLength = 64 * 1024"
definition DefaultMaxControlCount :: int where "DefaultMaxControlCount = 64"
definition DefaultMaxEnvelopeFieldCount :: int where "DefaultMaxEnvelopeFieldCount = 256"

definition classicResponseDataTags :: "u16 list" where
  "classicResponseDataTags =
     [0x0102, 0x0201, 0x0203, 0x0205, 0x0301, 0x0302, 0x0303, 0x0304, 0x0502, 0x0503, 0x0512, 0x0514]"

definition textTags :: "u16 list" where
  "textTags = [ErrTagExceptionKey, ErrTagErrorMessage, ErrTagRuntimeID, ErrTagT100Text, ErrTagMessageV1, ErrTagMessageV2,
     ErrTagMessageV3, ErrTagMessageV4, ErrTagMessageClass, ErrTagMessageType, ErrTagMessageNumber, ErrTagCallStack]"

definition classExceptionTags :: "u16 list" where
  "classExceptionTags = [ErrTagClassExceptionInfo, ErrTagClassException, ErrTagClassExceptionEnd]"

definition messageTextTags :: "u16 list" where
  "messageTextTags = [ErrTagErrorMessage, ErrTagT100Text]"

definition messageIdentityTags :: "u16 list" where
  "messageIdentityTags = [ErrTagMessageClass, ErrTagMessageType, ErrTagMessageNumber]"

definition secondaryErrorTags :: "u16 list" where
  "secondaryErrorTags = [ErrTagMessageV1, ErrTagMessageV2, ErrTagMessageV3, ErrTagMessageV4, ErrTagCallStack,
     ErrTagErrorMessage, ErrTagT100Text, ErrTagMessageClass, ErrTagMessageType, ErrTagMessageNumber]"

text \<open>The reason codes of \<open>ProtocolError\<close>, without their common prefix.\<close>

datatype reason_code =
    TEXT_TOO_LARGE | ODD_UTF16_LENGTH | EMBEDDED_NUL | UNPAIRED_SURROGATE | TOO_MANY_FIELDS | MISSING_END | INVALID_END
  | DUPLICATE_FACT | TOTAL_TEXT_TOO_LARGE | TOO_MANY_CONTROLS | CONTROL_TOO_LARGE | TOTAL_CONTROL_TOO_LARGE
  | CLASS_EXCEPTION_UNSUPPORTED | UNKNOWN_TAG | EMPTY_DISCRIMINATOR | CONFLICTING_DISCRIMINATORS | AMBIGUOUS_FACTS
  | UNRESOLVED_SUCCESS_CONTROL

datatype rfcerr_error = RfcErrOption | RfcErrProtocol reason_code

record fact_provenance =
  fp_Tag :: u16
  fp_Ordinal :: nat
  fp_ByteLength :: nat

record unresolved_control_fact =
  uc_Ordinal :: nat
  uc_ByteLength :: nat
  uc_ValueHex :: gostring

record remote_error_facts =
  rf_ExceptionKey :: gostring
  rf_PlainText :: gostring
  rf_RuntimeID :: gostring
  rf_T100Text :: gostring
  rf_MessageClass :: gostring
  rf_MessageType :: gostring
  rf_MessageNumber :: gostring
  rf_MessageV1 :: gostring
  rf_MessageV2 :: gostring
  rf_MessageV3 :: gostring
  rf_MessageV4 :: gostring
  rf_CallStack :: gostring
  rf_Provenance :: "fact_provenance list"
  rf_Unresolved0420 :: "unresolved_control_fact list"

datatype outcome = OutcomeSuccess | OutcomeAbapException | OutcomeAbapRuntime | OutcomeAbapMessage

datatype success_control = SuccessControlZero | SuccessControlNotApplicable

record envelope =
  en_Outcome :: outcome
  en_SuccessControl :: success_control
  en_Facts :: remote_error_facts

record rfcerr_options =
  ro_MaxTextByteLength :: "int option"
  ro_MaxTotalTextByteLength :: "int option"
  ro_MaxControlByteLength :: "int option"
  ro_MaxTotalControlByteLength :: "int option"
  ro_MaxControlCount :: "int option"
  ro_MaxFieldCount :: "int option"
  ro_AdditionalAllowedTags :: "u16 list"

text \<open>The options after their defaults.\<close>

record rfcerr_limits =
  lm_maxText :: int
  lm_maxTotalText :: int
  lm_maxControl :: int
  lm_maxTotalControl :: int
  lm_maxControlCount :: int
  lm_maxFieldCount :: int
  lm_allowed :: "u16 list"

section \<open>Strict UTF-16\<close>

abbreviation refuse :: "reason_code \<Rightarrow> rfcerr_error + 'a" where
  "refuse r \<equiv> Inl (RfcErrProtocol r)"

text \<open>The loop over pairs of bytes; a single last byte does not reach it.\<close>

fun strict_units :: "bytes \<Rightarrow> rfcerr_error + u16 list" where
  "strict_units (a # b # r) =
     (let unit = get16le [a, b] in
      if unit = 0 then refuse EMBEDDED_NUL
      else if 0xd800 \<le> unit \<and> unit \<le> 0xdbff then
        (case r of
           c # d # r' \<Rightarrow>
             (let low = get16le [c, d] in
              if low < 0xdc00 \<or> low > 0xdfff then refuse UNPAIRED_SURROGATE
              else bindE (strict_units r') (\<lambda>us. Inr (unit # low # us)))
         | _ \<Rightarrow> refuse UNPAIRED_SURROGATE)
      else if 0xdc00 \<le> unit \<and> unit \<le> 0xdfff then refuse UNPAIRED_SURROGATE
      else bindE (strict_units r) (\<lambda>us. Inr (unit # us)))"
| "strict_units _ = Inr []"

text \<open>\<open>strings.TrimRight(s, " ")\<close>.\<close>

definition trim_spaces :: "gostring \<Rightarrow> gostring" where
  "trim_spaces s = rev (dropWhile (\<lambda>b. b = 0x20) (rev s))"

definition decodeStrictUTF16LE :: "bytes \<Rightarrow> int \<Rightarrow> rfcerr_error + gostring" where
  "decodeStrictUTF16LE v maximumByteLength =
     (if int (length v) > maximumByteLength then refuse TEXT_TOO_LARGE
      else if odd (length v) then refuse ODD_UTF16_LENGTH
      else bindE (strict_units v) (\<lambda>units. Inr (trim_spaces (string_of_runes (utf16_decode units)))))"

section \<open>The scan\<close>

record scan_state =
  sc_values :: "u16 \<Rightarrow> gostring option"
  sc_provenance :: "fact_provenance list"
  sc_unresolved0420 :: "unresolved_control_fact list"
  sc_totalText :: int
  sc_totalControl :: int
  sc_controlCount :: int
  sc_sawUse :: bool
  sc_sawInfo :: bool

definition scan_start :: scan_state where
  "scan_start = \<lparr>sc_values = (\<lambda>_. None), sc_provenance = [], sc_unresolved0420 = [], sc_totalText = 0,
     sc_totalControl = 0, sc_controlCount = 0, sc_sawUse = False, sc_sawInfo = False\<rparr>"

definition resolve_options :: "rfcerr_options \<Rightarrow> rfcerr_error + rfcerr_limits" where
  "resolve_options o' =
     (let l = \<lparr>lm_maxText = orInt (ro_MaxTextByteLength o') DefaultMaxTextByteLength,
               lm_maxTotalText = orInt (ro_MaxTotalTextByteLength o') DefaultMaxTotalTextByteLength,
               lm_maxControl = orInt (ro_MaxControlByteLength o') DefaultMaxControlByteLength,
               lm_maxTotalControl = orInt (ro_MaxTotalControlByteLength o') DefaultMaxTotalControlByteLength,
               lm_maxControlCount = orInt (ro_MaxControlCount o') DefaultMaxControlCount,
               lm_maxFieldCount = orInt (ro_MaxFieldCount o') DefaultMaxEnvelopeFieldCount,
               lm_allowed = classicResponseDataTags @ ro_AdditionalAllowedTags o'\<rparr>;
          bad = (\<lambda>v lo. v < lo \<or> v > 0x7fffffff) in
      if bad (lm_maxText l) 0 \<or> bad (lm_maxTotalText l) 0 \<or> bad (lm_maxControl l) 0 \<or>
         bad (lm_maxTotalControl l) 0 \<or> bad (lm_maxControlCount l) 0 \<or> bad (lm_maxFieldCount l) 1
      then Inl RfcErrOption else Inr l)"

definition add_provenance :: "nat \<Rightarrow> cpic_field \<Rightarrow> scan_state \<Rightarrow> scan_state" where
  "add_provenance ordinal f st = st\<lparr>sc_provenance := sc_provenance st @
     [\<lparr>fp_Tag = fd_Tag f, fp_Ordinal = ordinal, fp_ByteLength = length (fd_Value f)\<rparr>]\<rparr>"

definition scan_text :: "rfcerr_limits \<Rightarrow> nat \<Rightarrow> cpic_field \<Rightarrow> scan_state \<Rightarrow> rfcerr_error + scan_state" where
  "scan_text l ordinal f st =
     (let n = int (length (fd_Value f)) in
      if sc_values st (fd_Tag f) \<noteq> None then refuse DUPLICATE_FACT
      else if n > lm_maxText l then refuse TEXT_TOO_LARGE
      else if sc_totalText st > lm_maxTotalText l - n then refuse TOTAL_TEXT_TOO_LARGE
      else bindE (decodeStrictUTF16LE (fd_Value f) (lm_maxText l)) (\<lambda>decoded.
        Inr (add_provenance ordinal f (st\<lparr>sc_totalText := sc_totalText st + n,
               sc_values := (sc_values st)(fd_Tag f \<mapsto> decoded)\<rparr>))))"

text \<open>The checks shared by the three control fields; \<open>seen\<close> is the duplicate check of the singletons.\<close>

definition scan_control :: "rfcerr_limits \<Rightarrow> nat \<Rightarrow> cpic_field \<Rightarrow> bool \<Rightarrow> scan_state \<Rightarrow> rfcerr_error + scan_state" where
  "scan_control l ordinal f seen st =
     (let n = int (length (fd_Value f)) in
      if sc_controlCount st \<ge> lm_maxControlCount l then refuse TOO_MANY_CONTROLS
      else if seen then refuse DUPLICATE_FACT
      else if n > lm_maxControl l then refuse CONTROL_TOO_LARGE
      else if sc_totalControl st > lm_maxTotalControl l - n then refuse TOTAL_CONTROL_TOO_LARGE
      else Inr (add_provenance ordinal f (st\<lparr>sc_controlCount := sc_controlCount st + 1,
             sc_totalControl := sc_totalControl st + n\<rparr>)))"

text \<open>\<open>hex.EncodeToString\<close>.\<close>

definition hex_digit :: "nat \<Rightarrow> byte" where
  "hex_digit n = of_nat (if n < 10 then 48 + n else 87 + n)"

definition hex_encode :: "bytes \<Rightarrow> gostring" where
  "hex_encode b = concat (map (\<lambda>x. [hex_digit (unat x div 16), hex_digit (unat x mod 16)]) b)"

definition scan_field :: "rfcerr_limits \<Rightarrow> nat \<Rightarrow> cpic_field \<Rightarrow> scan_state \<Rightarrow> rfcerr_error + scan_state" where
  "scan_field l ordinal f st =
     (let tag = fd_Tag f in
      if tag \<in> set textTags then scan_text l ordinal f st
      else if tag = ErrTagUnresolved0420 then
        bindE (scan_control l ordinal f False st) (\<lambda>st'.
          Inr (st'\<lparr>sc_unresolved0420 := sc_unresolved0420 st' @
            [\<lparr>uc_Ordinal = ordinal, uc_ByteLength = length (fd_Value f), uc_ValueHex = hex_encode (fd_Value f)\<rparr>]\<rparr>))
      else if tag = ErrTagUseClassExceptions then
        bindE (scan_control l ordinal f (sc_sawUse st) st) (\<lambda>st'. Inr (st'\<lparr>sc_sawUse := True\<rparr>))
      else if tag = ErrTagClassExceptionInfo then
        bindE (scan_control l ordinal f (sc_sawInfo st) st) (\<lambda>st'. Inr (st'\<lparr>sc_sawInfo := True\<rparr>))
      else if tag \<in> set classExceptionTags then refuse CLASS_EXCEPTION_UNSUPPORTED
      else if tag \<notin> set (lm_allowed l) then refuse UNKNOWN_TAG
      else Inr st)"

fun scan_fields :: "rfcerr_limits \<Rightarrow> nat \<Rightarrow> cpic_field list \<Rightarrow> scan_state \<Rightarrow> rfcerr_error + scan_state" where
  "scan_fields l ordinal [] st = Inr st"
| "scan_fields l ordinal (f # fs) st = bindE (scan_field l ordinal f st) (\<lambda>st'. scan_fields l (ordinal + 1) fs st')"

section \<open>The classification\<close>

text \<open>\<open>values[tag]\<close> of a Go map: the empty string where the tag is absent.\<close>

definition fact :: "scan_state \<Rightarrow> u16 \<Rightarrow> gostring" where
  "fact st tag = (case sc_values st tag of Some v \<Rightarrow> v | None \<Rightarrow> [])"

definition fact_present :: "scan_state \<Rightarrow> u16 \<Rightarrow> bool" where
  "fact_present st tag \<longleftrightarrow> sc_values st tag \<noteq> None"

definition hasNonEmptyFact :: "u16 list \<Rightarrow> scan_state \<Rightarrow> bool" where
  "hasNonEmptyFact tags st = list_ex (\<lambda>tag. fact_present st tag \<and> fact st tag \<noteq> []) tags"

definition hasCoherentMessageIdentity :: "scan_state \<Rightarrow> bool" where
  "hasCoherentMessageIdentity st = list_all (\<lambda>tag. fact_present st tag \<and> fact st tag \<noteq> []) messageIdentityTags"

definition hasAnyTag :: "u16 list \<Rightarrow> scan_state \<Rightarrow> bool" where
  "hasAnyTag tags st = list_ex (fact_present st) tags"

definition check_discriminators :: "scan_state \<Rightarrow> rfcerr_error + unit" where
  "check_discriminators st =
     (if fact_present st ErrTagExceptionKey \<and> fact st ErrTagExceptionKey = [] then refuse EMPTY_DISCRIMINATOR
      else if fact_present st ErrTagRuntimeID \<and> fact st ErrTagRuntimeID = [] then refuse EMPTY_DISCRIMINATOR
      else if fact_present st ErrTagExceptionKey \<and> fact_present st ErrTagRuntimeID then refuse CONFLICTING_DISCRIMINATORS
      else if sc_sawInfo st \<and> (\<not> fact_present st ErrTagExceptionKey \<or> sc_sawUse st) then refuse CLASS_EXCEPTION_UNSUPPORTED
      else Inr ())"

definition classify :: "scan_state \<Rightarrow> rfcerr_error + outcome \<times> success_control" where
  "classify st =
     (if fact_present st ErrTagExceptionKey then Inr (OutcomeAbapException, SuccessControlNotApplicable)
      else if fact_present st ErrTagRuntimeID then Inr (OutcomeAbapRuntime, SuccessControlNotApplicable)
      else if hasNonEmptyFact messageTextTags st \<or> hasCoherentMessageIdentity st
        then Inr (OutcomeAbapMessage, SuccessControlNotApplicable)
      else if hasAnyTag secondaryErrorTags st then refuse AMBIGUOUS_FACTS
      else (case sc_unresolved0420 st of
              [u] \<Rightarrow> if uc_ByteLength u \<noteq> 4 \<or> uc_ValueHex u \<noteq> gostr ''00000000'' then refuse UNRESOLVED_SUCCESS_CONTROL
                     else Inr (OutcomeSuccess, SuccessControlZero)
            | _ \<Rightarrow> refuse UNRESOLVED_SUCCESS_CONTROL))"

definition facts_of :: "scan_state \<Rightarrow> remote_error_facts" where
  "facts_of st =
     \<lparr>rf_ExceptionKey = fact st ErrTagExceptionKey, rf_PlainText = fact st ErrTagErrorMessage,
      rf_RuntimeID = fact st ErrTagRuntimeID, rf_T100Text = fact st ErrTagT100Text,
      rf_MessageClass = fact st ErrTagMessageClass, rf_MessageType = fact st ErrTagMessageType,
      rf_MessageNumber = fact st ErrTagMessageNumber, rf_MessageV1 = fact st ErrTagMessageV1,
      rf_MessageV2 = fact st ErrTagMessageV2, rf_MessageV3 = fact st ErrTagMessageV3,
      rf_MessageV4 = fact st ErrTagMessageV4, rf_CallStack = fact st ErrTagCallStack,
      rf_Provenance = sc_provenance st, rf_Unresolved0420 = sc_unresolved0420 st\<rparr>"

definition check_end :: "cpic_field list \<Rightarrow> rfcerr_error + unit" where
  "check_end fs =
     (let ends = filter (\<lambda>i. fd_Tag (fs ! i) = ErrEndTag) [0..<length fs] in
      if ends = [] then refuse MISSING_END
      else if length ends \<noteq> 1 \<or> hd ends \<noteq> length fs - 1 \<or> fd_Value (fs ! hd ends) \<noteq> [] then refuse INVALID_END
      else Inr ())"

definition rfcerr_Decode :: "cpic_field list \<Rightarrow> rfcerr_options \<Rightarrow> rfcerr_error + envelope" where
  "rfcerr_Decode fs options =
     bindE (resolve_options options) (\<lambda>l.
     bindE (fail_if (int (length fs) > lm_maxFieldCount l) (RfcErrProtocol TOO_MANY_FIELDS)) (\<lambda>_.
     bindE (check_end fs) (\<lambda>_.
     bindE (scan_fields l 0 (butlast fs) scan_start) (\<lambda>st.
     bindE (check_discriminators st) (\<lambda>_.
     bindE (classify st) (\<lambda>(out, ctl).
     Inr \<lparr>en_Outcome = out, en_SuccessControl = ctl, en_Facts = facts_of st\<rparr>))))))"

section \<open>Lemmas\<close>

lemma scan_control_Inr:
  "scan_control l ordinal f seen st = Inr st' \<Longrightarrow> sc_values st' = sc_values st \<and>
     sc_unresolved0420 st' = sc_unresolved0420 st \<and> sc_sawInfo st' = sc_sawInfo st"
  by (auto simp: scan_control_def add_provenance_def Let_def split: if_splits)

lemma scan_text_Inr:
  "scan_text l ordinal f st = Inr st' \<Longrightarrow> fact_present st' = (fact_present st)(fd_Tag f := True) \<and>
     sc_unresolved0420 st' = sc_unresolved0420 st \<and> sc_sawInfo st' = sc_sawInfo st"
  by (auto simp: scan_text_def add_provenance_def bindE_Inr_iff fact_present_def Let_def split: if_splits)

lemma text_control_tags:
  "ErrTagUnresolved0420 \<notin> set textTags" "ErrTagUseClassExceptions \<notin> set textTags" "ErrTagClassExceptionInfo \<notin> set textTags"
  by (simp_all add: textTags_def err_tags)

lemma control_tags_differ:
  "ErrTagUseClassExceptions \<noteq> ErrTagUnresolved0420" "ErrTagClassExceptionInfo \<noteq> ErrTagUnresolved0420"
  "ErrTagClassExceptionInfo \<noteq> ErrTagUseClassExceptions" "ErrTagUnresolved0420 \<noteq> ErrTagUseClassExceptions"
  "ErrTagUnresolved0420 \<noteq> ErrTagClassExceptionInfo" "ErrTagUseClassExceptions \<noteq> ErrTagClassExceptionInfo"
  by (simp_all add: err_tags)

text \<open>The shape and hexadecimal form of the 0x0420 controls seen.\<close>

definition control_view :: "scan_state \<Rightarrow> (nat \<times> gostring) list" where
  "control_view st = map (\<lambda>u. (uc_ByteLength u, uc_ValueHex u)) (sc_unresolved0420 st)"

text \<open>The tags a scan lets pass.\<close>

definition scannable :: "rfcerr_limits \<Rightarrow> u16 \<Rightarrow> bool" where
  "scannable l tag \<longleftrightarrow> tag \<in> set textTags \<or>
     tag \<in> {ErrTagUnresolved0420, ErrTagUseClassExceptions, ErrTagClassExceptionInfo} \<or>
     tag \<in> set (lm_allowed l) \<and> tag \<notin> set classExceptionTags"

text \<open>One lemma per kind of field, so that the step lemma is a case distinction over them.\<close>

lemma scan_field_text:
  assumes "fd_Tag f \<in> set textTags" "scan_field l k f st = Inr st'"
  shows "fact_present st' = (fact_present st)(fd_Tag f := True)" "control_view st' = control_view st"
    "sc_sawInfo st' = sc_sawInfo st"
  using assms scan_text_Inr [of l k f st st'] by (simp_all add: scan_field_def control_view_def)

lemma scan_field_0420:
  assumes "fd_Tag f = ErrTagUnresolved0420" "scan_field l k f st = Inr st'"
  shows "fact_present st' = fact_present st" "control_view st' = control_view st @ [(length (fd_Value f), hex_encode (fd_Value f))]"
    "sc_sawInfo st' = sc_sawInfo st"
  using assms text_control_tags
  by (auto simp: scan_field_def control_view_def fact_present_def fun_eq_iff bindE_Inr_iff dest!: scan_control_Inr)

lemma scan_field_use:
  assumes "fd_Tag f = ErrTagUseClassExceptions" "scan_field l k f st = Inr st'"
  shows "fact_present st' = fact_present st" "control_view st' = control_view st" "sc_sawInfo st' = sc_sawInfo st"
  using assms text_control_tags control_tags_differ
  by (auto simp: scan_field_def control_view_def fact_present_def fun_eq_iff bindE_Inr_iff dest!: scan_control_Inr)

lemma scan_field_info:
  assumes "fd_Tag f = ErrTagClassExceptionInfo" "scan_field l k f st = Inr st'"
  shows "fact_present st' = fact_present st" "control_view st' = control_view st" "sc_sawInfo st'"
  using assms text_control_tags control_tags_differ
  by (auto simp: scan_field_def control_view_def fact_present_def fun_eq_iff bindE_Inr_iff dest!: scan_control_Inr)

lemma scan_field_data:
  assumes "fd_Tag f \<notin> set textTags" "fd_Tag f \<noteq> ErrTagUnresolved0420" "fd_Tag f \<noteq> ErrTagUseClassExceptions"
    "fd_Tag f \<noteq> ErrTagClassExceptionInfo" "scan_field l k f st = Inr st'"
  shows "st' = st" "fd_Tag f \<in> set (lm_allowed l)" "fd_Tag f \<notin> set classExceptionTags"
  using assms by (simp_all add: scan_field_def Let_def split: if_splits)

lemma scan_field_Inr:
  assumes "scan_field l k f st = Inr st'"
  shows "fact_present st' t \<longleftrightarrow> fact_present st t \<or> t \<in> set textTags \<and> t = fd_Tag f" (is ?facts)
    and "control_view st' = control_view st @ map (\<lambda>v. (length v, hex_encode v)) (read_tag ErrTagUnresolved0420 [f])" (is ?view)
    and "sc_sawInfo st' \<longleftrightarrow> sc_sawInfo st \<or> fd_Tag f = ErrTagClassExceptionInfo" (is ?info)
    and "scannable l (fd_Tag f)" (is ?ok)
proof -
  consider (fct) "fd_Tag f \<in> set textTags" | (control) "fd_Tag f = ErrTagUnresolved0420"
    | (useX) "fd_Tag f = ErrTagUseClassExceptions" | (info) "fd_Tag f = ErrTagClassExceptionInfo"
    | (data) "fd_Tag f \<notin> set textTags" "fd_Tag f \<noteq> ErrTagUnresolved0420" "fd_Tag f \<noteq> ErrTagUseClassExceptions"
        "fd_Tag f \<noteq> ErrTagClassExceptionInfo" by blast
  then have "?facts \<and> ?view \<and> ?info \<and> ?ok"
  proof cases
    case fct
    moreover from this have "fd_Tag f \<noteq> ErrTagUnresolved0420" "fd_Tag f \<noteq> ErrTagClassExceptionInfo"
      using text_control_tags by metis+
    ultimately show ?thesis using scan_field_text [OF fct assms] by (auto simp: scannable_def)
  next
    case control
    then show ?thesis using scan_field_0420 [OF control assms] text_control_tags control_tags_differ
      by (auto simp: scannable_def)
  next
    case useX
    then show ?thesis using scan_field_use [OF useX assms] text_control_tags control_tags_differ
      by (auto simp: scannable_def)
  next
    case info
    then show ?thesis using scan_field_info [OF info assms] text_control_tags control_tags_differ
      by (auto simp: scannable_def)
  next
    case data
    then show ?thesis using scan_field_data [OF data assms] by (auto simp: scannable_def)
  qed
  then show ?facts ?view ?info ?ok by blast+
qed

lemma scan_fields_Inr:
  assumes "scan_fields l k fs st = Inr st'"
  shows "(fact_present st' t \<longleftrightarrow> fact_present st t \<or> t \<in> set textTags \<and> t \<in> fd_Tag ` set fs) \<and>
    control_view st' = control_view st @ map (\<lambda>v. (length v, hex_encode v)) (read_tag ErrTagUnresolved0420 fs) \<and>
    (sc_sawInfo st' \<longleftrightarrow> sc_sawInfo st \<or> ErrTagClassExceptionInfo \<in> fd_Tag ` set fs) \<and>
    list_all (\<lambda>f. scannable l (fd_Tag f)) fs"
  using assms
proof (induction fs arbitrary: k st)
  case (Cons f fs)
  obtain st1 where st1: "scan_field l k f st = Inr st1" "scan_fields l (k + 1) fs st1 = Inr st'"
    using Cons.prems by (auto simp: bindE_Inr_iff)
  note one = scan_field_Inr [OF st1(1)] and rest = Cons.IH [OF st1(2)]
  show ?case using rest one(1) [of t] one(2,3,4) by auto
qed simp

lemma hex_digit_zero: "n < 16 \<Longrightarrow> hex_digit n = 48 \<longleftrightarrow> n = 0"
proof -
  assume "n < 16"
  then have "unat (hex_digit n) = (if n < 10 then 48 + n else 87 + n)"
    by (simp add: hex_digit_def unat_of_nat del: of_nat_add)
  then show ?thesis by (auto simp: word_unat_eq_iff split: if_splits)
qed

lemma hex_zero: "hex_encode v = replicate (2 * length v) 48 \<longleftrightarrow> v = replicate (length v) 0"
proof (induction v)
  case (Cons x v)
  have d: "unat x div 16 < 16" "unat x mod 16 < 16"
    using unsigned_less [of x, where ?'a = nat] by simp_all
  have "unat x div 16 = 0 \<and> unat x mod 16 = 0 \<longleftrightarrow> x = 0"
    by (metis div_mult_mod_eq div_0 mod_0 mult_0 add_0 unat_eq_zero)
  then show ?case
    using Cons hex_digit_zero [OF d(1)] hex_digit_zero [OF d(2)] by (auto simp: hex_encode_def)
qed (simp add: hex_encode_def)

lemma zero_control: "length v = 4 \<and> hex_encode v = gostr ''00000000'' \<longleftrightarrow> v = [0, 0, 0, 0]"
proof -
  have g: "gostr ''00000000'' = replicate 8 48" by (simp add: gostr_def numeral_eq_Suc)
  have r: "replicate 4 (0::byte) = [0, 0, 0, 0]" by (simp add: eval_nat_numeral)
  have "length v = 4 \<Longrightarrow> hex_encode v = replicate 8 48 \<longleftrightarrow> v = replicate 4 0"
    using hex_zero [of v] by simp
  moreover have "length v = 4" if "v = [0, 0, 0, 0]" using that by simp
  ultimately show ?thesis unfolding g r by blast
qed

lemma text_tags_cover:
  "t \<in> set textTags \<longleftrightarrow> t = ErrTagExceptionKey \<or> t = ErrTagRuntimeID \<or> t \<in> set secondaryErrorTags"
  by (auto simp: textTags_def secondaryErrorTags_def)

lemma classify_success:
  "classify st = Inr (OutcomeSuccess, c) \<longleftrightarrow>
     c = SuccessControlZero \<and> (\<forall>t\<in>set textTags. \<not> fact_present st t) \<and> control_view st = [(4, gostr ''00000000'')]"
proof -
  have "hasNonEmptyFact messageTextTags st \<or> hasCoherentMessageIdentity st \<Longrightarrow> hasAnyTag secondaryErrorTags st"
    by (auto simp: hasNonEmptyFact_def hasCoherentMessageIdentity_def hasAnyTag_def messageTextTags_def
        messageIdentityTags_def secondaryErrorTags_def)
  then have "(\<forall>t\<in>set textTags. \<not> fact_present st t) \<longleftrightarrow>
      \<not> fact_present st ErrTagExceptionKey \<and> \<not> fact_present st ErrTagRuntimeID \<and>
      \<not> (hasNonEmptyFact messageTextTags st \<or> hasCoherentMessageIdentity st) \<and> \<not> hasAnyTag secondaryErrorTags st"
    by (auto simp: text_tags_cover hasAnyTag_def list_ex_iff)
  then show ?thesis
    by (auto simp: classify_def control_view_def split: list.splits if_splits)
qed

lemma read_tag_empty: "read_tag t fs = [] \<longleftrightarrow> t \<notin> fd_Tag ` set fs"
  by (induction fs) auto

lemma check_end_Inr:
  "check_end fs = Inr () \<longleftrightarrow> (\<exists>body. fs = body @ [\<lparr>fd_Tag = ErrEndTag, fd_Value = []\<rparr>] \<and> ErrEndTag \<notin> fd_Tag ` set body)"
proof (cases fs rule: rev_exhaust)
  case Nil
  then show ?thesis by (simp add: check_end_def)
next
  case (snoc body f)
  let ?E = "filter (\<lambda>i. fd_Tag (body ! i) = ErrEndTag) [0..<length body]"
  have e: "filter (\<lambda>i. fd_Tag (fs ! i) = ErrEndTag) [0..<length fs] =
      ?E @ (if fd_Tag f = ErrEndTag then [length body] else [])"
    by (auto simp: snoc nth_append intro!: filter_cong)
  have "?E = [] \<longleftrightarrow> (\<forall>i<length body. fd_Tag (body ! i) \<noteq> ErrEndTag)" by (auto simp: filter_empty_conv)
  also have "\<dots> \<longleftrightarrow> (\<forall>x\<in>set body. fd_Tag x \<noteq> ErrEndTag)" by (simp add: all_set_conv_all_nth)
  also have "\<dots> \<longleftrightarrow> ErrEndTag \<notin> fd_Tag ` set body"
    by (simp add: image_iff eq_commute [of ErrEndTag])
  finally have empty: "?E = [] \<longleftrightarrow> ErrEndTag \<notin> fd_Tag ` set body" .
  have below: "hd ?E \<noteq> length body" if "?E \<noteq> []"
    using hd_in_set [OF that] by simp
  have len: "length fs - 1 = length body" and last: "fs ! length body = f" by (simp_all add: snoc)
  have "check_end fs = Inr () \<longleftrightarrow> ?E = [] \<and> fd_Tag f = ErrEndTag \<and> fd_Value f = []"
  proof (cases "fd_Tag f = ErrEndTag")
    case True
    then show ?thesis unfolding check_end_def e len Let_def by (cases "?E = []") (simp_all add: last)
  next
    case False
    then show ?thesis unfolding check_end_def e len Let_def using below by (cases "?E = []") simp_all
  qed
  moreover have "f = \<lparr>fd_Tag = ErrEndTag, fd_Value = []\<rparr> \<longleftrightarrow> fd_Tag f = ErrEndTag \<and> fd_Value f = []" by (cases f) simp
  ultimately show ?thesis unfolding empty by (auto simp: snoc)
qed

lemma resolve_options_allowed:
  "resolve_options o' = Inr l \<Longrightarrow> lm_allowed l = classicResponseDataTags @ ro_AdditionalAllowedTags o'"
  by (auto simp: resolve_options_def Let_def split: if_splits)

lemma end_not_fact: "ErrEndTag \<notin> set textTags" "ErrEndTag \<noteq> ErrTagUnresolved0420" "ErrEndTag \<noteq> ErrTagClassExceptionInfo"
  by (simp_all add: textTags_def err_tags)

lemma Decode_steps:
  assumes "rfcerr_Decode fs options = Inr e"
  obtains l body st where
    "resolve_options options = Inr l" "fs = body @ [\<lparr>fd_Tag = ErrEndTag, fd_Value = []\<rparr>]" "ErrEndTag \<notin> fd_Tag ` set body"
    "scan_fields l 0 body scan_start = Inr st" "check_discriminators st = Inr ()"
    "classify st = Inr (en_Outcome e, en_SuccessControl e)" "en_Facts e = facts_of st"
proof -
  obtain l st out ctl where l: "resolve_options options = Inr l" and ce: "check_end fs = Inr ()"
    and st: "scan_fields l 0 (butlast fs) scan_start = Inr st" and d: "check_discriminators st = Inr ()"
    and c: "classify st = Inr (out, ctl)" and e: "e = \<lparr>en_Outcome = out, en_SuccessControl = ctl, en_Facts = facts_of st\<rparr>"
    using assms by (auto simp: rfcerr_Decode_def bindE_Inr_iff)
  obtain body where "fs = body @ [\<lparr>fd_Tag = ErrEndTag, fd_Value = []\<rparr>]" "ErrEndTag \<notin> fd_Tag ` set body"
    using ce unfolding check_end_Inr by blast
  then show thesis using that [OF l] st d c e by simp
qed

lemma zero_view: "map (\<lambda>v. (length v, hex_encode v)) vs = [(4, gostr ''00000000'')] \<longleftrightarrow> vs = [[0, 0, 0, 0]]"
  using zero_control by (auto simp: map_eq_Cons_conv)

lemma classify_outcomes:
  assumes "classify st = Inr (out, ctl)"
  shows "out = OutcomeSuccess \<longleftrightarrow> (\<forall>t\<in>set textTags. \<not> fact_present st t) \<and> control_view st = [(4, gostr ''00000000'')]"
    and "out = OutcomeAbapException \<longleftrightarrow> fact_present st ErrTagExceptionKey"
    and "out = OutcomeAbapRuntime \<longleftrightarrow> \<not> fact_present st ErrTagExceptionKey \<and> fact_present st ErrTagRuntimeID"
    and "ctl = SuccessControlZero \<longleftrightarrow> out = OutcomeSuccess"
  using assms classify_success [of st SuccessControlZero]
  by (auto simp: classify_def split: if_splits list.splits)

section \<open>Properties\<close>

text \<open>
  C16. The verdict on an envelope follows from which fields it has: it is a success exactly when no error fact is present and
  the one 0x0420 control is four zero bytes, a declared exception exactly when the exception key is present and a runtime error
  exactly when the runtime identifier is. An accepted envelope ends with its only End field, has no tag outside the allowed
  ones and the error tags, and names class-exception information only beside an exception key.
\<close>

theorem envelope_outcome:
  assumes "rfcerr_Decode fs options = Inr e"
  shows "(en_Outcome e = OutcomeSuccess \<longleftrightarrow>
        (\<forall>t\<in>set textTags. read_tag t fs = []) \<and> read_tag ErrTagUnresolved0420 fs = [[0, 0, 0, 0]]) \<and>
     (en_SuccessControl e = SuccessControlZero \<longleftrightarrow> en_Outcome e = OutcomeSuccess) \<and>
     (en_Outcome e = OutcomeAbapException \<longleftrightarrow> read_tag ErrTagExceptionKey fs \<noteq> []) \<and>
     (en_Outcome e = OutcomeAbapRuntime \<longleftrightarrow> read_tag ErrTagRuntimeID fs \<noteq> []) \<and>
     (read_tag ErrTagExceptionKey fs = [] \<or> read_tag ErrTagRuntimeID fs = []) \<and>
     (read_tag ErrTagClassExceptionInfo fs = [] \<or> en_Outcome e = OutcomeAbapException) \<and>
     (\<exists>body. fs = body @ [\<lparr>fd_Tag = ErrEndTag, fd_Value = []\<rparr>] \<and> list_all (\<lambda>f. fd_Tag f \<noteq> ErrEndTag \<and>
        fd_Tag f \<in> set (textTags @ [ErrTagUnresolved0420, ErrTagUseClassExceptions, ErrTagClassExceptionInfo] @
          classicResponseDataTags @ ro_AdditionalAllowedTags options)) body)"
proof -
  obtain l body st where l: "resolve_options options = Inr l" and fs: "fs = body @ [\<lparr>fd_Tag = ErrEndTag, fd_Value = []\<rparr>]"
    and noend: "ErrEndTag \<notin> fd_Tag ` set body" and st: "scan_fields l 0 body scan_start = Inr st"
    and d: "check_discriminators st = Inr ()" and c: "classify st = Inr (en_Outcome e, en_SuccessControl e)"
    by (rule Decode_steps [OF assms])
  note scanned = scan_fields_Inr [OF st]
  have present: "fact_present st t \<longleftrightarrow> read_tag t fs \<noteq> []" if "t \<in> set textTags" for t
    using scanned [of t] that end_not_fact
    by (auto simp: scan_start_def fact_present_def fs read_tag_empty)
  have view: "control_view st = map (\<lambda>v. (length v, hex_encode v)) (read_tag ErrTagUnresolved0420 fs)"
    using scanned end_not_fact by (simp add: scan_start_def control_view_def fs)
  have info: "sc_sawInfo st \<longleftrightarrow> read_tag ErrTagClassExceptionInfo fs \<noteq> []"
    using scanned end_not_fact by (simp add: scan_start_def fs read_tag_empty)
  have keys: "ErrTagExceptionKey \<in> set textTags" "ErrTagRuntimeID \<in> set textTags" by (simp_all add: textTags_def)
  have tags: "list_all (\<lambda>f. fd_Tag f \<noteq> ErrEndTag \<and>
        fd_Tag f \<in> set (textTags @ [ErrTagUnresolved0420, ErrTagUseClassExceptions, ErrTagClassExceptionInfo] @
          classicResponseDataTags @ ro_AdditionalAllowedTags options)) body"
    using scanned [of 0] noend resolve_options_allowed [OF l]
    by (auto simp: scannable_def list_all_iff image_iff eq_commute [of ErrEndTag])
  have excl: "\<not> (fact_present st ErrTagExceptionKey \<and> fact_present st ErrTagRuntimeID)"
    "sc_sawInfo st \<Longrightarrow> fact_present st ErrTagExceptionKey"
    using d by (auto simp: check_discriminators_def split: if_splits)
  note out = classify_outcomes [OF c, unfolded view zero_view]
  have success: "en_Outcome e = OutcomeSuccess \<longleftrightarrow>
      (\<forall>t\<in>set textTags. read_tag t fs = []) \<and> read_tag ErrTagUnresolved0420 fs = [[0, 0, 0, 0]]"
    unfolding out(1) using present by simp
  have exception: "en_Outcome e = OutcomeAbapException \<longleftrightarrow> read_tag ErrTagExceptionKey fs \<noteq> []"
    unfolding out(2) by (rule present [OF keys(1)])
  have runtime: "en_Outcome e = OutcomeAbapRuntime \<longleftrightarrow> read_tag ErrTagRuntimeID fs \<noteq> []"
    unfolding out(3) using excl(1) present [OF keys(2)] by blast
  have "read_tag ErrTagExceptionKey fs = [] \<or> read_tag ErrTagRuntimeID fs = []"
    using excl(1) present [OF keys(1)] present [OF keys(2)] by blast
  moreover have "read_tag ErrTagClassExceptionInfo fs = [] \<or> en_Outcome e = OutcomeAbapException"
    using excl(2) info unfolding out(2) by blast
  ultimately show ?thesis using success out(4) exception runtime fs tags by blast
qed

text \<open>The witness: a response with one parameter and the zero control, and no option set.\<close>

definition no_options :: rfcerr_options where
  "no_options = \<lparr>ro_MaxTextByteLength = None, ro_MaxTotalTextByteLength = None, ro_MaxControlByteLength = None,
     ro_MaxTotalControlByteLength = None, ro_MaxControlCount = None, ro_MaxFieldCount = None, ro_AdditionalAllowedTags = []\<rparr>"

definition plain_success :: "cpic_field list" where
  "plain_success = [\<lparr>fd_Tag = ErrTagUnresolved0420, fd_Value = [0, 0, 0, 0]\<rparr>, \<lparr>fd_Tag = 0x0512, fd_Value = [1]\<rparr>,
     \<lparr>fd_Tag = ErrEndTag, fd_Value = []\<rparr>]"

theorem envelope_outcome_witness:
  "\<exists>e. rfcerr_Decode plain_success no_options = Inr e \<and> en_Outcome e = OutcomeSuccess"
proof -
  have "case rfcerr_Decode plain_success no_options of Inr _ \<Rightarrow> True | _ \<Rightarrow> False" by code_simp
  then obtain e where "rfcerr_Decode plain_success no_options = Inr e" by (auto split: sum.splits)
  moreover have "(\<forall>t\<in>set textTags. read_tag t plain_success = []) \<and> read_tag ErrTagUnresolved0420 plain_success = [[0, 0, 0, 0]]"
    by code_simp
  ultimately show ?thesis using envelope_outcome [of plain_success no_options e] by blast
qed

end
