(* ===== verification/Cpic_Response.thy ===== *)
theory Cpic_Response
  imports Rfc_Error
begin

text \<open>
  Package \<open>cpic\<close>, file \<open>function.go\<close> (responses): the decoders of a regular response, of the reset reply and of the first
  response after a reset. They cut the envelope out of the packet and pass its fields to the classifier of theory
  \<open>Rfc_Error\<close>. The lemmas show that a well-formed frame decodes to its fields and that a plain success response is
  recognised.
\<close>

section \<open>Data\<close>

definition CpicTagResponseStart :: u16 where "CpicTagResponseStart = 0x0500"
definition CpicTagProgram :: u16 where "CpicTagProgram = 0x0130"
definition CpicTagRfcServerResetDn :: u16 where "CpicTagRfcServerResetDn = 0x0523"
definition CpicTagLogonStatus :: u16 where "CpicTagLogonStatus = 0x0161"
definition CpicTagSystemCodePage :: u16 where "CpicTagSystemCodePage = 0x0016"
definition CpicTagClientAddress :: u16 where "CpicTagClientAddress = 0x0007"
definition CpicTagPartnerSystem :: u16 where "CpicTagPartnerSystem = 0x0018"
definition CpicTagPartnerHost :: u16 where "CpicTagPartnerHost = 0x0008"
definition CpicTagConnectionType :: u16 where "CpicTagConnectionType = 0x0011"
definition CpicTagKernelRelease :: u16 where "CpicTagKernelRelease = 0x0012"
definition CpicTagKernelPatch :: u16 where "CpicTagKernelPatch = 0x0013"
definition CpicTagDestination :: u16 where "CpicTagDestination = 0x0006"
definition initialCpicUnresolved0450 :: u16 where "initialCpicUnresolved0450 = 0x0450"

lemmas response_tags = CpicTagResponseStart_def CpicTagProgram_def CpicTagRfcServerResetDn_def CpicTagLogonStatus_def
  CpicTagSystemCodePage_def CpicTagClientAddress_def CpicTagPartnerSystem_def CpicTagPartnerHost_def
  CpicTagConnectionType_def CpicTagKernelRelease_def CpicTagKernelPatch_def CpicTagDestination_def
  initialCpicUnresolved0450_def

definition cpicFunctionResponsePrefix :: bytes where
  "cpicFunctionResponsePrefix = [0x05, 0x00, 0x00, 0x00]"

definition initialResponsePrefix :: bytes where
  "initialResponsePrefix = [0x01, 0x01, 0x00, 0x08, 0x01, 0x01, 0x01, 0x05, 0x04, 0x01, 0x00, 0x03]"

text \<open>A response is refused by the packet layer or by the envelope classifier.\<close>

datatype response_error = RespCpic cpic_error | RespEnvelope rfcerr_error

record decoded_function_result_fields =
  df_Success :: bool
  df_Status :: "nat option"
  df_Envelope :: envelope
  df_Fields :: "cpic_field list"

record tag_len =
  tl_Tag :: u16
  tl_ByteLength :: nat

record decoded_function_response =
  dr_Success :: bool
  dr_Outcome :: outcome
  dr_Status :: "nat option"
  dr_ExceptionKey :: gostring
  dr_HasException :: bool
  dr_Fields :: "tag_len list"

section \<open>The response envelope\<close>

definition tagLens :: "cpic_field list \<Rightarrow> tag_len list" where
  "tagLens fs = map (\<lambda>f. \<lparr>tl_Tag = fd_Tag f, tl_ByteLength = length (fd_Value f)\<rparr>) fs"

definition filterTag :: "cpic_field list \<Rightarrow> u16 \<Rightarrow> cpic_field list" where
  "filterTag fs tag = filter (\<lambda>f. fd_Tag f = tag) fs"

definition countTag :: "cpic_field list \<Rightarrow> u16 \<Rightarrow> nat" where
  "countTag fs tag = length (filterTag fs tag)"

text \<open>\<open>strconv.ParseUint(s, 16, 32)\<close>.\<close>

definition hex_value :: "byte \<Rightarrow> nat option" where
  "hex_value b =
     (if 0x30 \<le> b \<and> b \<le> 0x39 then Some (unat b - 48)
      else if 0x61 \<le> b \<and> b \<le> 0x66 then Some (unat b - 87)
      else if 0x41 \<le> b \<and> b \<le> 0x46 then Some (unat b - 55)
      else None)"

fun parse_hex_digits :: "nat \<Rightarrow> gostring \<Rightarrow> nat option" where
  "parse_hex_digits n [] = Some n"
| "parse_hex_digits n (b # bs) = (case hex_value b of None \<Rightarrow> None | Some d \<Rightarrow> parse_hex_digits (16 * n + d) bs)"

definition ParseUint16_32 :: "gostring \<Rightarrow> nat option" where
  "ParseUint16_32 s =
     (if s = [] then None
      else case parse_hex_digits 0 s of Some n \<Rightarrow> if n < 2 ^ 32 then Some n else None | None \<Rightarrow> None)"

definition response_options :: "u16 list \<Rightarrow> rfcerr_options" where
  "response_options additionalAllowedTags = no_options\<lparr>ro_MaxFieldCount := Some DefaultMaxFieldCount,
     ro_AdditionalAllowedTags := [CpicTagProgram, 0x0667] @ additionalAllowedTags\<rparr>"

definition decodeFunctionResponseFields ::
    "cpic_field list \<Rightarrow> u16 list \<Rightarrow> response_error + decoded_function_result_fields" where
  "decodeFunctionResponseFields flds additionalAllowedTags =
     bindE (map_err RespEnvelope (rfcerr_Decode flds (response_options additionalAllowedTags))) (\<lambda>envelope.
     Inr \<lparr>df_Success = (en_Outcome envelope = OutcomeSuccess),
          df_Status = (if en_Outcome envelope = OutcomeSuccess then
             (case rf_Unresolved0420 (en_Facts envelope) of
                [u] \<Rightarrow> if uc_ByteLength u = 4 then ParseUint16_32 (uc_ValueHex u) else None
              | _ \<Rightarrow> None) else None),
          df_Envelope = envelope, df_Fields = flds\<rparr>)"

text \<open>The trailer after a chain: the two bytes \<open>ffff\<close> and nothing else.\<close>

definition check_trailer :: "bytes \<Rightarrow> nat \<Rightarrow> cpic_error + unit" where
  "check_trailer data trailerOffset =
     fail_if (int (length data) - int trailerOffset \<noteq> 2 \<or> get16be (drop trailerOffset data) \<noteq> CpicTagEnd) CErrProtocol"

definition decodeFunctionResponseEnvelope :: "bytes \<Rightarrow> u16 list \<Rightarrow> response_error + decoded_function_result_fields" where
  "decodeFunctionResponseEnvelope data additionalAllowedTags =
     bindE (fail_if (length data < length cpicFunctionResponsePrefix + 8) (RespCpic CErrRange)) (\<lambda>_.
     bindE (fail_if (take (length cpicFunctionResponsePrefix) data \<noteq> cpicFunctionResponsePrefix) (RespCpic CErrProtocol)) (\<lambda>_.
     bindE (map_err RespCpic (DecodeFieldChainPrefix (drop (length cpicFunctionResponsePrefix) data)
              CpicTagResponseStart CpicTagEnd no_limits)) (\<lambda>decoded.
     bindE (map_err RespCpic (check_trailer data (length cpicFunctionResponsePrefix + dp_BytesConsumed decoded))) (\<lambda>_.
     decodeFunctionResponseFields (dp_Fields decoded) additionalAllowedTags))))"

definition s4ClassicExtensionTags :: "u16 list" where
  "s4ClassicExtensionTags = [CpicTagXRfcParameter, CpicTagXRfcData, 0x0104, 0x0331, 0x0333, 0x0334, 0x0335, 0x0336]"

definition DecodeFunctionResultFields :: "bytes \<Rightarrow> response_error + decoded_function_result_fields" where
  "DecodeFunctionResultFields data = decodeFunctionResponseEnvelope data s4ClassicExtensionTags"

definition DecodeResetServerContextResultFields :: "bytes \<Rightarrow> response_error + decoded_function_result_fields" where
  "DecodeResetServerContextResultFields data =
     bindE (decodeFunctionResponseEnvelope data [CpicTagRfcServerResetDn]) (\<lambda>decoded.
     let resetDone = filterTag (df_Fields decoded) CpicTagRfcServerResetDn in
     bindE (fail_if (length resetDone > 1 \<or> length resetDone = 1 \<and> fd_Value (hd resetDone) \<noteq> []) (RespCpic CErrProtocol)) (\<lambda>_.
     Inr decoded))"

definition DecodeFunctionResponse :: "bytes \<Rightarrow> response_error + decoded_function_response" where
  "DecodeFunctionResponse data =
     bindE (decodeFunctionResponseEnvelope data [CpicTagXRfcParameter, CpicTagXRfcData]) (\<lambda>decoded.
     let out = en_Outcome (df_Envelope decoded); exc = (out = OutcomeAbapException) in
     Inr \<lparr>dr_Success = df_Success decoded, dr_Outcome = out, dr_Status = df_Status decoded,
          dr_ExceptionKey = (if exc then rf_ExceptionKey (en_Facts (df_Envelope decoded)) else []),
          dr_HasException = exc, dr_Fields = tagLens (df_Fields decoded)\<rparr>)"

section \<open>The first response after a reset\<close>

definition sessionRefreshPreambleTags :: "u16 list" where
  "sessionRefreshPreambleTags = [CpicTagProtocolVersion, CpicTagCapabilities, CpicTagLogonStatus, CpicTagSystemCodePage,
     CpicTagClientAddress, CpicTagPartnerSystem, CpicTagPartnerHost, CpicTagConnectionType, CpicTagKernelRelease,
     CpicTagKernelPatch, CpicTagDestination, CpicTagProgram, 0x0020, 0x0021, initialCpicUnresolved0450, 0x0451, 0x0452, 0x0453]"

definition maxSessionRefreshPreambleFields :: nat where "maxSessionRefreshPreambleFields = 32"
definition maxSessionRefreshPreambleBytes :: nat where "maxSessionRefreshPreambleBytes = 16 * 1024"

fun check_preamble :: "u16 list \<Rightarrow> nat \<Rightarrow> cpic_field list \<Rightarrow> cpic_error + unit" where
  "check_preamble seen preambleBytes [] = Inr ()"
| "check_preamble seen preambleBytes (f # fs) =
     (if fd_Tag f \<notin> set sessionRefreshPreambleTags \<or> fd_Tag f \<in> set seen then Inl CErrProtocol
      else let preambleBytes' = preambleBytes + length (fd_Value f) in
           if preambleBytes' > maxSessionRefreshPreambleBytes then Inl CErrRange
           else check_preamble (fd_Tag f # seen) preambleBytes' fs)"

definition check_refresh_header :: "cpic_field list \<Rightarrow> cpic_error + unit" where
  "check_refresh_header fs =
     (case fs of
        f0 # f1 # _ \<Rightarrow>
          fail_if (fd_Tag f0 \<noteq> CpicTagProtocolVersion \<or> length (fd_Value f0) \<noteq> 4 \<or>
            fd_Tag f1 \<noteq> CpicTagCapabilities \<or> length (fd_Value f1) \<noteq> length initialCapabilities) CErrProtocol
      | _ \<Rightarrow> Inl CErrProtocol)"

definition check_refresh_status :: "cpic_field list \<Rightarrow> cpic_error + unit" where
  "check_refresh_status preamble =
     (case filterTag preamble CpicTagLogonStatus of
        f # _ \<Rightarrow> fail_if (fd_Value f \<noteq> [0]) CErrProtocol
      | [] \<Rightarrow> Inr ())"

definition DecodeSessionRefreshResultFields :: "bytes \<Rightarrow> response_error + decoded_function_result_fields" where
  "DecodeSessionRefreshResultFields data =
     bindE (fail_if (length data < length initialResponsePrefix + 8) (RespCpic CErrRange)) (\<lambda>_.
     bindE (fail_if (take (length initialResponsePrefix) data \<noteq> initialResponsePrefix) (RespCpic CErrProtocol)) (\<lambda>_.
     bindE (map_err RespCpic (DecodeFieldChainPrefix (drop (length initialResponsePrefix) data)
              CpicTagStart CpicTagEnd no_limits)) (\<lambda>decoded.
     let flds = dp_Fields decoded; markers = filterTag flds CpicTagResponseStart;
         responseStartIndex = length (takeWhile (\<lambda>f. fd_Tag f \<noteq> CpicTagResponseStart) flds);
         preamble = take responseStartIndex flds in
     bindE (map_err RespCpic (check_trailer data (length initialResponsePrefix + dp_BytesConsumed decoded))) (\<lambda>_.
     bindE (fail_if (list_ex (\<lambda>f. fd_Value f \<noteq> []) markers \<or> length markers \<noteq> 1) (RespCpic CErrProtocol)) (\<lambda>_.
     bindE (fail_if (responseStartIndex < 2 \<or> responseStartIndex > maxSessionRefreshPreambleFields) (RespCpic CErrProtocol)) (\<lambda>_.
     bindE (map_err RespCpic (check_preamble [] 0 preamble)) (\<lambda>_.
     bindE (map_err RespCpic (check_refresh_header flds)) (\<lambda>_.
     bindE (map_err RespCpic (check_refresh_status preamble)) (\<lambda>_.
     decodeFunctionResponseFields (drop (responseStartIndex + 1) flds) [])))))))))"

section \<open>Lemmas\<close>

text \<open>What a peer sends: a prefix, the chained fields with their End field, and the trailer.\<close>

definition response_packet :: "bytes \<Rightarrow> u16 \<Rightarrow> cpic_field list \<Rightarrow> bytes" where
  "response_packet pre tag fs = pre @ chain_layout tag (fs @ [cfield CpicTagEnd []]) @ put16be CpicTagEnd"

text \<open>Fields that a packet can carry: within the default limits and free of the End tag.\<close>

definition packet_fits :: "u16 \<Rightarrow> cpic_field list \<Rightarrow> bool" where
  "packet_fits tag fs \<longleftrightarrow> list_all (\<lambda>f. fd_Tag f \<noteq> CpicTagEnd) fs \<and>
     chain_fits \<lparr>rl_maxFieldLength = 268435456, rl_maxChainLength = 268435456, rl_maxFieldCount = 100000\<rparr> tag
       (fs @ [cfield CpicTagEnd []])"

lemma packet_chain:
  "packet_fits tag fs \<Longrightarrow> DecodeFieldChainPrefix (drop (length pre) (response_packet pre tag fs)) tag CpicTagEnd no_limits =
     Inr \<lparr>dp_Fields = fs @ [cfield CpicTagEnd []], dp_BytesConsumed = length (chain_layout tag (fs @ [cfield CpicTagEnd []]))\<rparr>"
  using DecodeFieldChainPrefix_layout [OF no_limits_resolved, of tag fs "cfield CpicTagEnd []" "put16be CpicTagEnd"]
  by (simp add: response_packet_def packet_fits_def)

lemma packet_trailer:
  "check_trailer (response_packet pre tag fs) (length pre + length (chain_layout tag (fs @ [cfield CpicTagEnd []]))) = Inr ()"
  using get16be_put16be [of CpicTagEnd "[]"] by (simp add: check_trailer_def response_packet_def)

lemma packet_length: "length pre + 8 \<le> length (response_packet pre tag fs)"
  using field_record_length [of "last_tag tag fs" "cfield CpicTagEnd []"]
  by (simp add: response_packet_def chain_layout_append)

lemma packet_prefix: "take (length pre) (response_packet pre tag fs) = pre"
  by (simp add: response_packet_def)

lemmas packet_simps = packet_chain packet_trailer packet_prefix packet_length [THEN leD]

lemma decode_response_packet:
  "packet_fits CpicTagResponseStart fs \<Longrightarrow>
     decodeFunctionResponseEnvelope (response_packet cpicFunctionResponsePrefix CpicTagResponseStart fs) tags =
     decodeFunctionResponseFields (fs @ [cfield CpicTagEnd []]) tags"
  by (simp add: decodeFunctionResponseEnvelope_def packet_simps fail_if_def)

text \<open>Fields the classifier passes over.\<close>

definition data_tag :: "u16 list \<Rightarrow> u16 \<Rightarrow> bool" where
  "data_tag allowed tag \<longleftrightarrow> tag \<in> set allowed \<and> tag \<notin> set textTags \<and> tag \<notin> set classExceptionTags \<and>
     tag \<notin> {ErrTagUnresolved0420, ErrTagUseClassExceptions, ErrEndTag}"

lemma scan_data_fields:
  "list_all (\<lambda>f. data_tag (lm_allowed l) (fd_Tag f)) fs \<Longrightarrow> scan_fields l k fs st = Inr st"
  by (induction fs arbitrary: k) (auto simp: scan_field_def data_tag_def classExceptionTags_def Let_def)

lemma scan_fields_append:
  "scan_fields l k (fs @ gs) st = bindE (scan_fields l k fs st) (\<lambda>st'. scan_fields l (k + length fs) gs st')"
proof (induction fs arbitrary: k st)
  case (Cons f fs)
  show ?case by (cases "scan_field l k f st") (simp_all add: Cons)
qed simp

lemma resolve_response_options:
  "resolve_options (response_options tags) = Inr \<lparr>lm_maxText = 1048576, lm_maxTotalText = 4194304, lm_maxControl = 4096,
     lm_maxTotalControl = 65536, lm_maxControlCount = 64, lm_maxFieldCount = 100000,
     lm_allowed = classicResponseDataTags @ [CpicTagProgram, 0x0667] @ tags\<rparr>"
  by (simp add: resolve_options_def response_options_def no_options_def orInt_def DefaultMaxTextByteLength_def
      DefaultMaxTotalTextByteLength_def DefaultMaxControlByteLength_def DefaultMaxTotalControlByteLength_def
      DefaultMaxControlCount_def DefaultMaxFieldCount_def Let_def)

definition zero_state :: "nat \<Rightarrow> scan_state" where
  "zero_state k = scan_start\<lparr>sc_controlCount := 1, sc_totalControl := 4,
     sc_provenance := [\<lparr>fp_Tag = ErrTagUnresolved0420, fp_Ordinal = k, fp_ByteLength = 4\<rparr>],
     sc_unresolved0420 := [\<lparr>uc_Ordinal = k, uc_ByteLength = 4, uc_ValueHex = gostr ''00000000''\<rparr>]\<rparr>"

lemma hex_zero_control: "hex_encode [0, 0, 0, 0] = gostr ''00000000''"
  by (simp add: hex_encode_def hex_digit_def gostr_def)

lemma scan_zero_control:
  assumes "resolve_options (response_options tags) = Inr l"
  shows "scan_field l k (cfield ErrTagUnresolved0420 [0, 0, 0, 0]) scan_start = Inr (zero_state k)"
  using assms text_control_tags hex_zero_control
  by (auto simp: resolve_response_options scan_field_def scan_control_def scan_start_def zero_state_def add_provenance_def Let_def)

lemma classify_zero_state: "classify (zero_state k) = Inr (OutcomeSuccess, SuccessControlZero)"
  "check_discriminators (zero_state k) = Inr ()"
  by (simp_all add: classify_def zero_state_def scan_start_def fact_present_def hasNonEmptyFact_def hasAnyTag_def
      hasCoherentMessageIdentity_def check_discriminators_def messageTextTags_def messageIdentityTags_def secondaryErrorTags_def)

lemma decode_plain_success:
  fixes xs ys :: "cpic_field list" and tags :: "u16 list"
  defines "allowed \<equiv> classicResponseDataTags @ [CpicTagProgram, 0x0667] @ tags"
  assumes "list_all (\<lambda>f. data_tag allowed (fd_Tag f)) (xs @ ys)" and "length xs + length ys \<le> 99998"
  shows "rfcerr_Decode (xs @ [cfield ErrTagUnresolved0420 [0, 0, 0, 0]] @ ys @ [cfield ErrEndTag []]) (response_options tags) =
     Inr \<lparr>en_Outcome = OutcomeSuccess, en_SuccessControl = SuccessControlZero, en_Facts = facts_of (zero_state (length xs))\<rparr>"
proof -
  let ?c = "cfield ErrTagUnresolved0420 [0, 0, 0, 0]"
  obtain l where l: "resolve_options (response_options tags) = Inr l" and la: "lm_allowed l = allowed"
    and lc: "lm_maxFieldCount l = 100000"
    by (simp add: resolve_response_options allowed_def)
  have scan: "scan_fields l 0 (xs @ [?c] @ ys) scan_start = Inr (zero_state (length xs))"
    using assms(2) la scan_zero_control [OF l, of "length xs"] by (simp add: scan_fields_append scan_data_fields)
  have "ErrEndTag \<notin> fd_Tag ` set (xs @ [?c] @ ys)"
    using assms(2) end_not_fact by (auto simp: list_all_iff data_tag_def image_iff eq_commute [of ErrEndTag])
  then have ce: "check_end ((xs @ [?c] @ ys) @ [cfield ErrEndTag []]) = Inr ()" unfolding check_end_Inr by blast
  have "butlast ((xs @ [?c] @ ys) @ [cfield ErrEndTag []]) = xs @ [?c] @ ys" by (simp only: butlast_snoc)
  then show ?thesis
    using l lc scan ce assms(3) classify_zero_state [of "length xs"]
    by (simp add: rfcerr_Decode_def fail_if_def)
qed

lemma zero_status: "ParseUint16_32 (gostr ''00000000'') = Some 0"
  by (simp add: ParseUint16_32_def gostr_def hex_value_def)

section \<open>Properties\<close>

text \<open>What the partner sends for a success: data fields before and after the zero control.\<close>

definition success_fields :: "cpic_field list \<Rightarrow> cpic_field list \<Rightarrow> cpic_field list" where
  "success_fields xs ys = xs @ [cfield ErrTagUnresolved0420 [0, 0, 0, 0]] @ ys"

definition success_packet :: "cpic_field list \<Rightarrow> cpic_field list \<Rightarrow> bytes" where
  "success_packet xs ys = response_packet cpicFunctionResponsePrefix CpicTagResponseStart (success_fields xs ys)"

definition plain_response :: "cpic_field list \<Rightarrow> cpic_field list \<Rightarrow> bool" where
  "plain_response xs ys \<longleftrightarrow> packet_fits CpicTagResponseStart (success_fields xs ys) \<and>
     list_all (\<lambda>f. data_tag (classicResponseDataTags @ [CpicTagProgram, 0x0667] @ s4ClassicExtensionTags) (fd_Tag f)) (xs @ ys)"

lemma decode_success_packet:
  assumes "plain_response xs ys"
  shows "\<exists>r. DecodeFunctionResultFields (success_packet xs ys) = Inr r \<and> df_Success r \<and> df_Status r = Some 0 \<and>
     df_Fields r = success_fields xs ys @ [cfield CpicTagEnd []]"
proof -
  have fits: "packet_fits CpicTagResponseStart (success_fields xs ys)"
    and tags: "list_all (\<lambda>f. data_tag (classicResponseDataTags @ [CpicTagProgram, 0x0667] @ s4ClassicExtensionTags) (fd_Tag f)) (xs @ ys)"
    using assms by (simp_all add: plain_response_def)
  have "length xs + length ys \<le> 99998" using fits by (simp add: packet_fits_def chain_fits_def success_fields_def)
  note dec = decode_plain_success [OF tags this]
  have "CpicTagEnd = ErrEndTag" by (simp add: CpicTagEnd_def ErrEndTag_def)
  then show ?thesis
    using dec decode_response_packet [OF fits, of s4ClassicExtensionTags] zero_status
    by (simp add: DecodeFunctionResultFields_def decodeFunctionResponseFields_def facts_of_def zero_state_def
        success_fields_def success_packet_def)
qed

text \<open>
  A successful response is read as sent: for any fields whose tags are response data tags, placed before and
  after the one zero 0x0420 control, the packet of a peer decodes to success with status zero and to exactly those fields, in
  their order.
\<close>

theorem success_response_read:
  assumes "plain_response xs ys"
  shows "\<exists>r. DecodeFunctionResultFields (success_packet xs ys) = Inr r \<and> df_Success r \<and> df_Status r = Some 0 \<and>
     df_Fields r = success_fields xs ys @ [cfield CpicTagEnd []]"
  by (rule decode_success_packet [OF assms])

lemma sample_response: "plain_response [] [cfield 0x0203 [65]]"
proof -
  have "packet_fits CpicTagResponseStart (success_fields [] [cfield 0x0203 [65]])"
    by (simp add: packet_fits_def chain_fits_def success_fields_def field_record_def length_field_header_layout err_tags cpic_tags)
  moreover have "data_tag (classicResponseDataTags @ [CpicTagProgram, 0x0667] @ s4ClassicExtensionTags) 0x0203"
    by (simp add: data_tag_def classicResponseDataTags_def textTags_def classExceptionTags_def err_tags)
  ultimately show ?thesis by (simp add: plain_response_def)
qed

theorem success_response_read_witness:
  "\<exists>r. DecodeFunctionResultFields (success_packet [] [cfield 0x0203 [65]]) = Inr r \<and> df_Success r \<and> df_Status r = Some 0 \<and>
     df_Fields r = success_fields [] [cfield 0x0203 [65]] @ [cfield CpicTagEnd []]"
  by (rule success_response_read [OF sample_response])

text \<open>The preamble a peer sends before the response that follows a reset.\<close>

definition refresh_preamble :: "cpic_field list \<Rightarrow> bool" where
  "refresh_preamble pre \<longleftrightarrow> length pre \<le> maxSessionRefreshPreambleFields \<and>
     (\<exists>version caps rest. pre = cfield CpicTagProtocolVersion version # cfield CpicTagCapabilities caps # rest \<and>
        length version = 4 \<and> length caps = length initialCapabilities) \<and>
     distinct (map fd_Tag pre) \<and> fd_Tag ` set pre \<subseteq> set sessionRefreshPreambleTags \<and>
     sum_list (map (length \<circ> fd_Value) pre) \<le> maxSessionRefreshPreambleBytes \<and>
     (\<forall>v. cfield CpicTagLogonStatus v \<in> set pre \<longrightarrow> v = [0])"

lemma check_preamble_ok:
  "distinct (map fd_Tag fs) \<Longrightarrow> fd_Tag ` set fs \<subseteq> set sessionRefreshPreambleTags \<Longrightarrow> set seen \<inter> fd_Tag ` set fs = {} \<Longrightarrow>
     n + sum_list (map (length \<circ> fd_Value) fs) \<le> maxSessionRefreshPreambleBytes \<Longrightarrow> check_preamble seen n fs = Inr ()"
  by (induction fs arbitrary: seen n) (auto simp: Let_def)

lemma check_refresh_status_ok:
  "\<forall>v. cfield CpicTagLogonStatus v \<in> set pre \<longrightarrow> v = [0] \<Longrightarrow> check_refresh_status pre = Inr ()"
proof -
  assume ok: "\<forall>v. cfield CpicTagLogonStatus v \<in> set pre \<longrightarrow> v = [0]"
  show ?thesis
  proof (cases "filterTag pre CpicTagLogonStatus")
    case (Cons f fs)
    then have "f \<in> set (filterTag pre CpicTagLogonStatus)" by simp
    then have "f \<in> set pre" "fd_Tag f = CpicTagLogonStatus" by (simp_all add: filterTag_def)
    moreover have "f = cfield (fd_Tag f) (fd_Value f)" by simp
    ultimately have "fd_Value f = [0]" using ok by metis
    then show ?thesis by (simp add: check_refresh_status_def Cons fail_if_def)
  qed (simp add: check_refresh_status_def)
qed

lemma response_start_not_preamble: "CpicTagResponseStart \<notin> set sessionRefreshPreambleTags"
  by (simp add: sessionRefreshPreambleTags_def response_tags cpic_tags)

lemma marker_split:
  assumes "CpicTagResponseStart \<notin> fd_Tag ` set pre" "CpicTagResponseStart \<notin> fd_Tag ` set post"
  defines "fs \<equiv> pre @ cfield CpicTagResponseStart [] # post"
  shows "filterTag fs CpicTagResponseStart = [cfield CpicTagResponseStart []]"
    "length (takeWhile (\<lambda>f. fd_Tag f \<noteq> CpicTagResponseStart) fs) = length pre"
proof -
  have "\<forall>f\<in>set pre. fd_Tag f \<noteq> CpicTagResponseStart" "\<forall>f\<in>set post. fd_Tag f \<noteq> CpicTagResponseStart"
    using assms by force+
  then show "filterTag fs CpicTagResponseStart = [cfield CpicTagResponseStart []]"
    "length (takeWhile (\<lambda>f. fd_Tag f \<noteq> CpicTagResponseStart) fs) = length pre"
    by (simp_all add: fs_def filterTag_def filter_empty_conv takeWhile_append2)
qed

lemma refresh_checks:
  assumes "refresh_preamble pre"
  shows "check_preamble [] 0 pre = Inr ()" "check_refresh_header (pre @ rest) = Inr ()" "check_refresh_status pre = Inr ()"
    "2 \<le> length pre" "length pre \<le> maxSessionRefreshPreambleFields"
  using assms by (auto simp: refresh_preamble_def check_refresh_header_def fail_if_def intro!: check_preamble_ok check_refresh_status_ok)

text \<open>
  The first response after a reset carries an ordinary response inside: behind any valid preamble and the empty
  response marker, the decoder gives the same result, error or not, as the decoder of a regular response gives on a packet with
  those inner fields alone.
\<close>

theorem refresh_response_equivalent:
  assumes "refresh_preamble pre" "list_all (\<lambda>f. fd_Tag f \<noteq> CpicTagResponseStart) inner"
    and "packet_fits CpicTagStart (pre @ cfield CpicTagResponseStart [] # inner)" "packet_fits CpicTagResponseStart inner"
  shows "DecodeSessionRefreshResultFields
       (response_packet initialResponsePrefix CpicTagStart (pre @ cfield CpicTagResponseStart [] # inner)) =
     decodeFunctionResponseEnvelope (response_packet cpicFunctionResponsePrefix CpicTagResponseStart inner) []"
proof -
  let ?fs = "pre @ cfield CpicTagResponseStart [] # inner @ [cfield CpicTagEnd []]"
  have "CpicTagResponseStart \<notin> fd_Tag ` set pre"
    using assms(1) response_start_not_preamble by (auto simp: refresh_preamble_def)
  moreover have "CpicTagResponseStart \<notin> fd_Tag ` set (inner @ [cfield CpicTagEnd []])"
    using assms(2) by (auto simp: list_all_iff image_iff eq_commute [of CpicTagResponseStart] CpicTagResponseStart_def CpicTagEnd_def)
  ultimately have m: "filterTag ?fs CpicTagResponseStart = [cfield CpicTagResponseStart []]"
    "length (takeWhile (\<lambda>f. fd_Tag f \<noteq> CpicTagResponseStart) ?fs) = length pre"
    by (rule marker_split)+
  show ?thesis
    unfolding decode_response_packet [OF assms(4)] DecodeSessionRefreshResultFields_def Let_def packet_chain [OF assms(3)]
    using m refresh_checks [OF assms(1)] packet_simps(3,4)
      packet_trailer [of initialResponsePrefix CpicTagStart "pre @ cfield CpicTagResponseStart [] # inner"]
    by (simp add: fail_if_def)
qed

definition sample_preamble :: "cpic_field list" where
  "sample_preamble = [cfield CpicTagProtocolVersion [0, 0, 14, 9], cfield CpicTagCapabilities initialCapabilities,
     cfield CpicTagLogonStatus [0]]"

theorem refresh_response_equivalent_witness:
  "DecodeSessionRefreshResultFields (response_packet initialResponsePrefix CpicTagStart
       (sample_preamble @ cfield CpicTagResponseStart [] # [cfield ErrTagUnresolved0420 [0, 0, 0, 0]])) =
     decodeFunctionResponseEnvelope (response_packet cpicFunctionResponsePrefix CpicTagResponseStart
       [cfield ErrTagUnresolved0420 [0, 0, 0, 0]]) []"
proof (rule refresh_response_equivalent)
  show "refresh_preamble sample_preamble"
    by (simp add: refresh_preamble_def sample_preamble_def maxSessionRefreshPreambleFields_def maxSessionRefreshPreambleBytes_def
        initialCapabilities_def) (simp add: sessionRefreshPreambleTags_def response_tags cpic_tags)
qed (simp_all add: packet_fits_def chain_fits_def sample_preamble_def initialCapabilities_def field_record_def
    length_field_header_layout response_tags cpic_tags err_tags)

end
