(* ===== verification/Cpic_Logon.thy ===== *)
theory Cpic_Logon
  imports Scramble Cpic_Response
begin

text \<open>
  Package \<open>cpic\<close>, files \<open>logon.go\<close> (request) and \<open>ticket.go\<close>: the initial logon request, its structural decoder and the
  logon ticket. Both reads of \<open>crypto/rand\<close> are inputs. The lemmas give the round trip of the request for each kind of
  credential and of the ticket field.
\<close>

section \<open>Tickets\<close>

text \<open>The white space of \<open>unicode.IsSpace\<close>, as UTF-8.\<close>

definition space_codes :: "bytes list" where
  "space_codes = [[0x20], [0x09], [0x0a], [0x0b], [0x0c], [0x0d], [0xc2, 0x85], [0xc2, 0xa0], [0xe1, 0x9a, 0x80],
     [0xe2, 0x80, 0x80], [0xe2, 0x80, 0x81], [0xe2, 0x80, 0x82], [0xe2, 0x80, 0x83], [0xe2, 0x80, 0x84], [0xe2, 0x80, 0x85],
     [0xe2, 0x80, 0x86], [0xe2, 0x80, 0x87], [0xe2, 0x80, 0x88], [0xe2, 0x80, 0x89], [0xe2, 0x80, 0x8a], [0xe2, 0x80, 0xa8],
     [0xe2, 0x80, 0xa9], [0xe2, 0x80, 0xaf], [0xe2, 0x81, 0x9f], [0xe3, 0x80, 0x80]]"

lemma strip_progress:
  "List.find (\<lambda>c. c \<noteq> [] \<and> take (length c) s = c) codes = Some c \<Longrightarrow> length s - length c < length s"
  by (cases s) (auto simp: find_Some_iff)

function strip :: "bytes list \<Rightarrow> gostring \<Rightarrow> gostring" where
  "strip codes s =
     (case List.find (\<lambda>c. c \<noteq> [] \<and> take (length c) s = c) codes of
        None \<Rightarrow> s
      | Some c \<Rightarrow> strip codes (drop (length c) s))"
  by pat_completeness auto
termination
  by (relation "measure (\<lambda>(codes, s). length s)") (auto dest: strip_progress)

declare strip.simps [simp del]

definition TrimSpace :: "gostring \<Rightarrow> gostring" where
  "TrimSpace s = rev (strip (map rev space_codes) (rev (strip space_codes s)))"

text \<open>\<open>url.QueryUnescape\<close>: \<open>None\<close> where it fails.\<close>

fun QueryUnescape :: "gostring \<Rightarrow> gostring option" where
  "QueryUnescape [] = Some []"
| "QueryUnescape (b # r) =
     (if b = 0x25 then
        (case r of
           h # l # r' \<Rightarrow>
             (case (hex_value h, hex_value l) of
                (Some x, Some y) \<Rightarrow> map_option (Cons (of_nat (16 * x + y))) (QueryUnescape r')
              | _ \<Rightarrow> None)
         | _ \<Rightarrow> None)
      else map_option (Cons (if b = 0x2b then 0x20 else b)) (QueryUnescape r))"

definition NormalizeTicket :: "gostring \<Rightarrow> gostring" where
  "NormalizeTicket raw =
     (let s = TrimSpace raw; s = (case QueryUnescape s of Some u \<Rightarrow> u | None \<Rightarrow> s)
      in map (\<lambda>b. if b = 0x21 then 0x2f else b) s)"

definition encodeTicketField :: "gostring \<Rightarrow> bytes" where
  "encodeTicketField raw = concat (map (\<lambda>b. [b, 0]) (NormalizeTicket raw))"

fun DecodeTicketField :: "bytes \<Rightarrow> gostring" where
  "DecodeTicketField (lo # hi # r) =
     (if hi = 0 \<and> 0x20 \<le> lo \<and> lo < 0x7f then lo # DecodeTicketField r else DecodeTicketField r)"
| "DecodeTicketField _ = []"

definition CpicTagTicket :: u16 where "CpicTagTicket = 0x0670"

definition TicketFromLogonFields :: "cpic_field list \<Rightarrow> gostring" where
  "TicketFromLogonFields fs =
     (case List.find (\<lambda>f. fd_Tag f = CpicTagTicket) fs of Some f \<Rightarrow> DecodeTicketField (fd_Value f) | None \<Rightarrow> [])"

section \<open>The logon request\<close>

definition CpicTagUser :: u16 where "CpicTagUser = 0x0111"
definition CpicTagClient :: u16 where "CpicTagClient = 0x0114"
definition CpicTagLanguage :: u16 where "CpicTagLanguage = 0x0115"
definition CpicTagPassword :: u16 where "CpicTagPassword = 0x0117"
definition CpicTagUnicodeIndicator :: u16 where "CpicTagUnicodeIndicator = 0x0501"

lemmas logon_tags = CpicTagTicket_def CpicTagUser_def CpicTagClient_def CpicTagLanguage_def CpicTagPassword_def
  CpicTagUnicodeIndicator_def

definition initialSignature :: bytes where
  "initialSignature = [0xd9, 0xc6, 0xc3, 0xf0, 0xf0, 0xf0, 0xf0, 0xf0, 0xf0, 0xf0, 0xf0, 0xf0]"

definition initialPrefix :: bytes where
  "initialPrefix = [0x01, 0x01, 0x00, 0x08, 0x03, 0x01]"

datatype logon_error = LogonCpic cpic_error | LogonScramble scramble_error | LogonRandom

record initial_logon_request_input =
  il_Client :: gostring
  il_User :: gostring
  il_Password :: gostring
  il_Ticket :: gostring
  il_Language :: gostring
  il_ClientAddress :: gostring
  il_PartnerSystem :: gostring
  il_PartnerHostName :: gostring
  il_Destination :: gostring
  il_ProgramName :: gostring
  il_FunctionName :: gostring
  il_KernelRelease :: gostring
  il_SessionID :: "bytes option"
  il_PasswordSeed :: "u32 option"
  il_MaximumRfcPacketSize :: "u32 option"

record decoded_initial_logon_request =
  dl_Fields :: "tag_len list"
  dl_CpicPacketSize :: nat
  dl_MaximumRfcPacketSize :: u32

definition initialTagOrder :: "u16 list" where
  "initialTagOrder = [CpicTagStart, CpicTagProtocolVersion, CpicTagCapabilities, CpicTagLogonMarker,
     CpicTagSession, CpicTagClient, CpicTagUser, CpicTagPassword, CpicTagLanguage,
     CpicTagUnicodeIndicator, CpicTagClientAddress, CpicTagPartnerSystem, CpicTagConnectionType,
     CpicTagKernelRelease, CpicTagKernelPatch, CpicTagPartnerHost, CpicTagDestination,
     CpicTagProgram, CpicTagContextEnd, CpicTagKernel, CpicTagFunction, CpicTagEnd]"

text \<open>The pattern \<open>^[A-Za-z]$\<close>.\<close>

definition oneLetter :: "gostring \<Rightarrow> bool" where
  "oneLetter s \<longleftrightarrow> length s = 1 \<and> list_all (\<lambda>b. 0x41 \<le> b \<and> b \<le> 0x5a \<or> 0x61 \<le> b \<and> b \<le> 0x7a) s"

definition asciiBytes :: "gostring \<Rightarrow> nat \<Rightarrow> nat \<Rightarrow> logon_error + bytes" where
  "asciiBytes v minimum maximum =
     (if \<not> printable v \<or> length v < minimum \<or> length v > maximum then Inl (LogonCpic CErrRange) else Inr v)"

definition upperASCII :: "gostring \<Rightarrow> gostring" where
  "upperASCII s = map (\<lambda>b. if 0x61 \<le> b \<and> b \<le> 0x7a then b - 32 else b) s"

definition or_default :: "gostring \<Rightarrow> gostring \<Rightarrow> gostring" where
  "or_default s d = (if s = [] then d else s)"

text \<open>The password field; \<open>randSeed\<close> is the four bytes read when the input has no seed.\<close>

definition password_field :: "initial_logon_request_input \<Rightarrow> bytes option \<Rightarrow> logon_error + bytes" where
  "password_field input randSeed =
     map_err LogonScramble
       (case il_PasswordSeed input of
          Some seed \<Rightarrow> ScrambleRfcPassword (il_Password input) seed
        | None \<Rightarrow> ScrambleRfcPasswordRandomSeed (il_Password input) randSeed)"

definition session_field :: "initial_logon_request_input \<Rightarrow> bytes option \<Rightarrow> logon_error + bytes" where
  "session_field input randSession =
     bindE (case il_SessionID input of
              Some s \<Rightarrow> Inr s
            | None \<Rightarrow> (case randSession of Some s \<Rightarrow> Inr s | None \<Rightarrow> Inl LogonRandom)) (\<lambda>sessionID.
     map_err LogonCpic (cpic_exactBytes sessionID 16))"

definition initial_fields :: "initial_logon_request_input \<Rightarrow> bytes option \<Rightarrow> bytes option \<Rightarrow> logon_error + cpic_field list" where
  "initial_fields input randSeed randSession =
     (let kernelRelease = default_release (il_KernelRelease input) in
      bindE (fail_if (\<not> digits3 (il_Client input)) (LogonCpic CErrRange)) (\<lambda>_.
      bindE (fail_if (\<not> oneLetter (il_Language input)) (LogonCpic CErrRange)) (\<lambda>_.
      bindE (fail_if (\<not> digits3 kernelRelease) (LogonCpic CErrRange)) (\<lambda>_.
      bindE (password_field input randSeed) (\<lambda>password.
      bindE (session_field input randSession) (\<lambda>sessionID.
      bindE (asciiBytes (il_User input) 1 40) (\<lambda>user.
      bindE (asciiBytes (il_ClientAddress input) 1 64) (\<lambda>clientAddress.
      bindE (asciiBytes (or_default (il_PartnerSystem input) (gostr ''::1'')) 1 64) (\<lambda>partnerSystem.
      bindE (asciiBytes (il_PartnerHostName input) 1 120) (\<lambda>partnerHost.
      bindE (asciiBytes (il_Destination input) 1 120) (\<lambda>destination.
      bindE (asciiBytes (il_ProgramName input) 1 64) (\<lambda>program.
      bindE (asciiBytes (or_default (il_FunctionName input) (gostr ''RFCPING'')) 1 40) (\<lambda>function'.
      let credential = (if il_Ticket input \<noteq> [] then cfield CpicTagTicket (encodeTicketField (il_Ticket input))
                        else cfield CpicTagPassword password) in
      Inr [cfield CpicTagStart [], cfield CpicTagProtocolVersion initialProtocolVersion,
           cfield CpicTagCapabilities initialCapabilities, cfield CpicTagLogonMarker [], cfield CpicTagSession sessionID,
           cfield CpicTagClient (il_Client input), cfield CpicTagUser user, credential,
           cfield CpicTagLanguage (upperASCII (il_Language input)), cfield CpicTagUnicodeIndicator [1],
           cfield CpicTagClientAddress clientAddress, cfield CpicTagPartnerSystem partnerSystem,
           cfield CpicTagConnectionType (gostr ''E''), cfield CpicTagKernelRelease kernelRelease,
           cfield CpicTagKernelPatch kernelRelease, cfield CpicTagPartnerHost partnerHost,
           cfield CpicTagDestination destination, cfield CpicTagProgram program, cfield CpicTagContextEnd [],
           cfield CpicTagKernel kernelRelease, cfield CpicTagFunction function', cfield CpicTagEnd []])))))))))))))"

definition EncodeInitialLogonRequest ::
    "initial_logon_request_input \<Rightarrow> bytes option \<Rightarrow> bytes option \<Rightarrow> logon_error + bytes" where
  "EncodeInitialLogonRequest input randSeed randSession =
     bindE (initial_fields input randSeed randSession) (\<lambda>flds.
     bindE (map_err LogonCpic (FieldChainByteLength CpicTagStart flds no_limits)) (\<lambda>chainByteLength.
     let cpicPacketSize = int (length initialSignature + length initialPrefix) + chainByteLength + 2 in
     bindE (fail_if (cpicPacketSize > 0xffff) (LogonCpic CErrRange)) (\<lambda>_.
     bindE (map_err LogonCpic (EncodeFieldChain CpicTagStart flds no_limits)) (\<lambda>chain.
     Inr (initialSignature @ initialPrefix @ chain @ put16be CpicTagEnd @ put16be 0 @
          put16be (of_int cpicPacketSize) @ put32be (checkedMaximumRfcPacketSize (il_MaximumRfcPacketSize input)))))))"

definition DecodeInitialLogonRequest :: "bytes \<Rightarrow> cpic_error + decoded_initial_logon_request" where
  "DecodeInitialLogonRequest data =
     (let prefixLength = length initialSignature + length initialPrefix in
      bindE (fail_if (length data < prefixLength + 10) CErrRange) (\<lambda>_.
      bindE (fail_if (gslice 0 12 data \<noteq> initialSignature) CErrProtocol) (\<lambda>_.
      bindE (fail_if (gslice 12 prefixLength data \<noteq> initialPrefix) CErrProtocol) (\<lambda>_.
      bindE (DecodeFieldChainPrefix (drop prefixLength data) CpicTagStart CpicTagEnd no_limits) (\<lambda>decoded.
      let flds = dp_Fields decoded in
      bindE (fail_if (map fd_Tag flds \<noteq> initialTagOrder) CErrProtocol) (\<lambda>_.
      bindE (fail_if (fd_Value (flds ! 1) \<noteq> initialProtocolVersion) CErrProtocol) (\<lambda>_.
      bindE (fail_if (fd_Value (flds ! 2) \<noteq> initialCapabilities) CErrProtocol) (\<lambda>_.
      let trailerOffset = prefixLength + dp_BytesConsumed decoded in
      bindE (fail_if (int (length data) - int trailerOffset \<noteq> 10) CErrProtocol) (\<lambda>_.
      let trailer = drop trailerOffset data in
      bindE (fail_if (get16be trailer \<noteq> CpicTagEnd \<or> get16be (drop 2 trailer) \<noteq> 0) CErrProtocol) (\<lambda>_.
      let cpicPacketSize = unat (get16be (drop 4 trailer)) in
      bindE (fail_if (cpicPacketSize \<noteq> trailerOffset + 2) CErrProtocol) (\<lambda>_.
      Inr \<lparr>dl_Fields = tagLens flds, dl_CpicPacketSize = cpicPacketSize,
           dl_MaximumRfcPacketSize = get32be (drop 6 trailer)\<rparr>)))))))))))"

section \<open>Lemmas\<close>

lemma DecodeTicketField_encode:
  "DecodeTicketField (concat (map (\<lambda>b. [b, 0]) s)) = filter printable_byte s"
proof -
  have "b < 0x7f \<longleftrightarrow> b \<le> 0x7e" for b :: byte by (simp add: word_less_nat_alt word_le_nat_alt) arith
  then show ?thesis by (induction s) (auto simp: printable_byte_def)
qed

lemma asciiBytes_Inr: "asciiBytes v lo hi = Inr b \<longleftrightarrow> b = v \<and> printable v \<and> lo \<le> length v \<and> length v \<le> hi"
  by (auto simp: asciiBytes_def)

lemma password_field_Inr:
  "password_field input randSeed = Inr pw \<Longrightarrow> unscramble pw = il_Password input \<and> length pw \<le> 44"
  using scramble_Inr [of "il_Password input" _ pw]
  by (auto simp: password_field_def ScrambleRfcPasswordRandomSeed_def split: option.splits)
     (auto simp: ScrambleRfcPassword_def split: if_splits)

text \<open>The tags of a logon request, by credential.\<close>

definition request_tags :: "bool \<Rightarrow> u16 list" where
  "request_tags ticket = (if ticket then initialTagOrder[7 := CpicTagTicket] else initialTagOrder)"

lemma initial_fields_list:
  assumes "initial_fields input randSeed randSession = Inr flds"
  obtains password sessionID where "password_field input randSeed = Inr password" "session_field input randSession = Inr sessionID"
    "length sessionID = 16"
    "flds = [cfield CpicTagStart [], cfield CpicTagProtocolVersion initialProtocolVersion,
      cfield CpicTagCapabilities initialCapabilities, cfield CpicTagLogonMarker [], cfield CpicTagSession sessionID,
      cfield CpicTagClient (il_Client input), cfield CpicTagUser (il_User input),
      (if il_Ticket input \<noteq> [] then cfield CpicTagTicket (encodeTicketField (il_Ticket input)) else cfield CpicTagPassword password),
      cfield CpicTagLanguage (upperASCII (il_Language input)), cfield CpicTagUnicodeIndicator [1],
      cfield CpicTagClientAddress (il_ClientAddress input),
      cfield CpicTagPartnerSystem (or_default (il_PartnerSystem input) (gostr ''::1'')),
      cfield CpicTagConnectionType (gostr ''E''), cfield CpicTagKernelRelease (default_release (il_KernelRelease input)),
      cfield CpicTagKernelPatch (default_release (il_KernelRelease input)), cfield CpicTagPartnerHost (il_PartnerHostName input),
      cfield CpicTagDestination (il_Destination input), cfield CpicTagProgram (il_ProgramName input), cfield CpicTagContextEnd [],
      cfield CpicTagKernel (default_release (il_KernelRelease input)),
      cfield CpicTagFunction (or_default (il_FunctionName input) (gostr ''RFCPING'')), cfield CpicTagEnd []]"
    "length (il_Client input) = 3" "length (il_Language input) = 1" "length (default_release (il_KernelRelease input)) = 3"
    "length (il_User input) \<le> 40" "length (il_ClientAddress input) \<le> 64"
    "length (or_default (il_PartnerSystem input) (gostr ''::1'')) \<le> 64" "length (il_PartnerHostName input) \<le> 120"
    "length (il_Destination input) \<le> 120" "length (il_ProgramName input) \<le> 64"
    "length (or_default (il_FunctionName input) (gostr ''RFCPING'')) \<le> 40"
  using assms
  by (auto simp: initial_fields_def session_field_def cpic_exactBytes_def bindE_Inr_iff asciiBytes_Inr digits3_def
      oneLetter_def Let_def split: if_splits intro: that)

lemma initial_fields_shape:
  assumes "initial_fields input randSeed randSession = Inr flds"
  shows "map fd_Tag flds = request_tags (il_Ticket input \<noteq> [])" "flds = butlast flds @ [cfield CpicTagEnd []]"
    "fd_Value (flds ! 1) = initialProtocolVersion" "fd_Value (flds ! 2) = initialCapabilities"
  by (rule initial_fields_list [OF assms]; simp add: request_tags_def initialTagOrder_def)+

text \<open>The fields of a logon request, with the session and the credential as they are on the wire.\<close>

abbreviation logon_fields :: "initial_logon_request_input \<Rightarrow> bytes \<Rightarrow> cpic_field \<Rightarrow> cpic_field list" where
  "logon_fields input sessionID credential \<equiv>
     [cfield CpicTagStart [], cfield CpicTagProtocolVersion initialProtocolVersion,
      cfield CpicTagCapabilities initialCapabilities, cfield CpicTagLogonMarker [], cfield CpicTagSession sessionID,
      cfield CpicTagClient (il_Client input), cfield CpicTagUser (il_User input), credential,
      cfield CpicTagLanguage (upperASCII (il_Language input)), cfield CpicTagUnicodeIndicator [1],
      cfield CpicTagClientAddress (il_ClientAddress input),
      cfield CpicTagPartnerSystem (or_default (il_PartnerSystem input) (gostr ''::1'')),
      cfield CpicTagConnectionType (gostr ''E''), cfield CpicTagKernelRelease (default_release (il_KernelRelease input)),
      cfield CpicTagKernelPatch (default_release (il_KernelRelease input)), cfield CpicTagPartnerHost (il_PartnerHostName input),
      cfield CpicTagDestination (il_Destination input), cfield CpicTagProgram (il_ProgramName input), cfield CpicTagContextEnd [],
      cfield CpicTagKernel (default_release (il_KernelRelease input)),
      cfield CpicTagFunction (or_default (il_FunctionName input) (gostr ''RFCPING'')), cfield CpicTagEnd []]"

lemma initial_fields_values:
  assumes "initial_fields input randSeed randSession = Inr flds"
  shows "\<exists>sessionID credential. flds = logon_fields input sessionID credential \<and>
     session_field input randSession = Inr sessionID \<and> length sessionID = 16 \<and>
     (if il_Ticket input = []
      then fd_Tag credential = CpicTagPassword \<and> unscramble (fd_Value credential) = il_Password input
      else fd_Tag credential = CpicTagTicket \<and>
           TicketFromLogonFields flds = filter printable_byte (NormalizeTicket (il_Ticket input)))"
  using assms
proof (rule initial_fields_list, goal_cases)
  case (1 password sessionID)
  let ?c = "if il_Ticket input \<noteq> [] then cfield CpicTagTicket (encodeTicketField (il_Ticket input)) else cfield CpicTagPassword password"
  have "TicketFromLogonFields flds = filter printable_byte (NormalizeTicket (il_Ticket input))" if "il_Ticket input \<noteq> []"
    using that unfolding 1(4)
    by (simp add: cpic_tags response_tags logon_tags TicketFromLogonFields_def encodeTicketField_def DecodeTicketField_encode)
  then show ?case
    using password_field_Inr [OF 1(1)] 1(2,3) by (intro exI [of _ sessionID] exI [of _ ?c]) (simp add: 1(4))
qed

lemma chain_length_le:
  "length (chain_layout prev fs) \<le> sum_list (map (\<lambda>f. 10 + length (fd_Value f)) fs)"
proof (induction fs arbitrary: prev)
  case (Cons f fs)
  show ?case using Cons [of "fd_Tag f"] by (simp add: field_record_def length_field_header_layout)
qed simp

lemma password_request_length:
  assumes "initial_fields input randSeed randSession = Inr flds" "il_Ticket input = []"
  shows "length (chain_layout prev flds) \<le> 900"
  using assms(1)
proof (rule initial_fields_list, goal_cases)
  case (1 password sessionID)
  have "sum_list (map (\<lambda>f. 10 + length (fd_Value f)) flds) \<le> 900"
    using 1 assms(2) password_field_Inr [OF 1(1)]
    by (simp add: initialProtocolVersion_def initialCapabilities_def upperASCII_def gostr_def)
  then show ?case using chain_length_le [of prev flds] by simp
qed

lemma request_tags_end: "CpicTagEnd \<notin> set (butlast (request_tags t))"
  by (simp add: request_tags_def initialTagOrder_def cpic_tags response_tags logon_tags)

lemma request_tags_order: "request_tags t = initialTagOrder \<longleftrightarrow> \<not> t"
  by (simp add: request_tags_def initialTagOrder_def cpic_tags response_tags logon_tags)

lemma EncodeInitialLogonRequest_Inr:
  assumes "EncodeInitialLogonRequest input randSeed randSession = Inr b"
  obtains flds chain n where "initial_fields input randSeed randSession = Inr flds"
    "chain = chain_layout CpicTagStart flds" "n = 20 + length chain" "n \<le> 65535"
    "chain_fits \<lparr>rl_maxFieldLength = 268435456, rl_maxChainLength = 268435456, rl_maxFieldCount = 100000\<rparr> CpicTagStart flds"
    "b = initialSignature @ initialPrefix @ chain @ put16be CpicTagEnd @ put16be 0 @ put16be (of_nat n) @
       put32be (checkedMaximumRfcPacketSize (il_MaximumRfcPacketSize input))"
proof -
  have len: "length initialSignature = 12" "length initialPrefix = 6" by (simp_all add: initialSignature_def initialPrefix_def)
  obtain flds where flds: "initial_fields input randSeed randSession = Inr flds"
    and size: "int (20 + length (chain_layout CpicTagStart flds)) \<le> 65535"
    and fits: "chain_fits \<lparr>rl_maxFieldLength = 268435456, rl_maxChainLength = 268435456, rl_maxFieldCount = 100000\<rparr> CpicTagStart flds"
    and b: "b = initialSignature @ initialPrefix @ chain_layout CpicTagStart flds @ put16be CpicTagEnd @ put16be 0 @
       put16be (of_int (int (20 + length (chain_layout CpicTagStart flds)))) @
       put32be (checkedMaximumRfcPacketSize (il_MaximumRfcPacketSize input))"
    using assms
    by (auto simp: EncodeInitialLogonRequest_def bindE_Inr_iff EncodeFieldChain_Inr FieldChainByteLength_Inr no_limits_resolved
        len Let_def algebra_simps)
  show thesis by (rule that [OF flds refl refl _ fits]) (use size b in simp_all)
qed

text \<open>A request with a password is never too large.\<close>

lemma password_request_accepted:
  assumes "initial_fields input randSeed randSession = Inr flds" "il_Ticket input = []"
  shows "\<exists>b. EncodeInitialLogonRequest input randSeed randSession = Inr b"
proof -
  have len: "length initialSignature = 12" "length initialPrefix = 6" by (simp_all add: initialSignature_def initialPrefix_def)
  have small: "length (chain_layout CpicTagStart flds) \<le> 900" by (rule password_request_length [OF assms])
  have "length (fd_Value f) \<le> length (chain_layout CpicTagStart flds)" if "f \<in> set flds" for f
  proof -
    from split_list [OF that] obtain xs ys where "flds = xs @ f # ys" by blast
    then show ?thesis by (simp add: chain_layout_append field_record_def)
  qed
  moreover have "length flds = 22"
    using arg_cong [OF initial_fields_shape(1) [OF assms(1)], of length] by (simp add: request_tags_def initialTagOrder_def)
  ultimately have "chain_fits \<lparr>rl_maxFieldLength = 268435456, rl_maxChainLength = 268435456, rl_maxFieldCount = 100000\<rparr> CpicTagStart flds"
    using small by (force simp: chain_fits_def list_all_iff)
  then have "FieldChainByteLength CpicTagStart flds no_limits = Inr (int (length (chain_layout CpicTagStart flds)))"
    "EncodeFieldChain CpicTagStart flds no_limits = Inr (chain_layout CpicTagStart flds)"
    by (auto simp: FieldChainByteLength_Inr EncodeFieldChain_Inr no_limits_resolved)
  then show ?thesis using small assms(1) by (simp add: EncodeInitialLogonRequest_def len fail_if_def Let_def)
qed

text \<open>
  C13. The logon request carries the logon: the bytes of every accepted request begin with the signature and the prefix,
  decoding the field chain after them gives the 22 fields in order with all their values (protocol version, capabilities, the
  16 bytes of the session, client, user, credential, language in upper case, addresses, partner, destination and program,
  kernel release and function name), and they end with the End mark, the packet size and the announced maximum.
  The credential is one field: the scrambled password, which gives the password back, or the normalised ticket, never
  both. A password request is read by the structural decoder, which returns the tags and
  lengths of all 22 fields, the packet size and the maximum, and its framing is compact. The decoder refuses every
  ticket request, because its tag order has no ticket field.
\<close>

theorem logon_request_roundtrip:
  assumes "EncodeInitialLogonRequest input randSeed randSession = Inr b"
  shows "\<exists>flds sessionID credential. length b \<le> 65543 \<and> take 18 b = initialSignature @ initialPrefix \<and>
     DecodeFieldChainPrefix (drop 18 b) CpicTagStart CpicTagEnd no_limits =
       Inr \<lparr>dp_Fields = flds, dp_BytesConsumed = length b - 28\<rparr> \<and>
     flds = logon_fields input sessionID credential \<and> session_field input randSession = Inr sessionID \<and> length sessionID = 16 \<and>
     (if il_Ticket input = []
      then fd_Tag credential = CpicTagPassword \<and> unscramble (fd_Value credential) = il_Password input
      else fd_Tag credential = CpicTagTicket \<and>
           TicketFromLogonFields flds = filter printable_byte (NormalizeTicket (il_Ticket input))) \<and>
     drop (length b - 10) b = put16be CpicTagEnd @ put16be 0 @ put16be (of_nat (length b - 8)) @
       put32be (checkedMaximumRfcPacketSize (il_MaximumRfcPacketSize input)) \<and>
     DecodeInitialLogonRequest b =
       (if il_Ticket input = []
        then Inr \<lparr>dl_Fields = tagLens flds, dl_CpicPacketSize = length b - 8,
                  dl_MaximumRfcPacketSize = checkedMaximumRfcPacketSize (il_MaximumRfcPacketSize input)\<rparr>
        else Inl CErrProtocol) \<and>
     (il_Ticket input \<noteq> [] \<or> InspectRequestAppcFraming b =
        Inr \<lparr>rf_Mode = FramingCompact, rf_ApplicationDataLength = length b - 8, rf_FinalSapParameterLength = 8\<rparr>)"
proof -
  let ?m = "checkedMaximumRfcPacketSize (il_MaximumRfcPacketSize input)"
  obtain flds chain n where f: "initial_fields input randSeed randSession = Inr flds"
    and chain: "chain = chain_layout CpicTagStart flds" and n: "n = 20 + length chain" "n \<le> 65535"
    and fits: "chain_fits \<lparr>rl_maxFieldLength = 268435456, rl_maxChainLength = 268435456, rl_maxFieldCount = 100000\<rparr> CpicTagStart flds"
    and b: "b = initialSignature @ initialPrefix @ chain @ put16be CpicTagEnd @ put16be 0 @ put16be (of_nat n) @ put32be ?m"
    by (rule EncodeInitialLogonRequest_Inr [OF assms])
  note shape = initial_fields_shape [OF f]
  have un: "unat (of_nat n :: u16) = n" using n(2) by (simp add: unat_of_nat)
  have len: "length initialSignature = 12" "length initialPrefix = 6" by (simp_all add: initialSignature_def initialPrefix_def)
  have lb: "length b = n + 8" using n by (simp add: b len)
  have "list_all (\<lambda>g. fd_Tag g \<noteq> CpicTagEnd) (butlast flds)"
    using request_tags_end [of "il_Ticket input \<noteq> []"] unfolding shape(1) [symmetric] map_butlast [symmetric]
    by (auto simp: list_all_iff image_iff eq_commute [of CpicTagEnd])
  then have dec: "DecodeFieldChainPrefix (chain @ r) CpicTagStart CpicTagEnd no_limits =
      Inr \<lparr>dp_Fields = flds, dp_BytesConsumed = length chain\<rparr>" for r
    using DecodeFieldChainPrefix_layout [OF no_limits_resolved, of CpicTagStart "butlast flds" "cfield CpicTagEnd []" r] fits
      shape(2) unfolding chain by simp
  have "DecodeInitialLogonRequest b = (if il_Ticket input = []
        then Inr \<lparr>dl_Fields = tagLens flds, dl_CpicPacketSize = length b - 8, dl_MaximumRfcPacketSize = ?m\<rparr>
        else Inl CErrProtocol)"
    unfolding DecodeInitialLogonRequest_def Let_def
    using shape request_tags_order [of "il_Ticket input \<noteq> []"] dec un n lb
    by (simp add: b len gslice_def fail_if_def)
  moreover have "InspectRequestAppcFraming b =
      Inr \<lparr>rf_Mode = FramingCompact, rf_ApplicationDataLength = length b - 8, rf_FinalSapParameterLength = 8\<rparr>"
    if "il_Ticket input = []"
  proof -
    define body where "body = initialSignature @ initialPrefix @ chain"
    have lbody: "length body + 2 = n" by (simp add: body_def len n)
    have small: "length body + 2 \<le> 28000"
      using password_request_length [OF f that, of CpicTagStart] by (simp add: body_def len chain)
    then have "n \<le> MaxApplicationDataFragmentLength" using lbody by (simp add: MaxApplicationDataFragmentLength_def)
    then have "b = body @ packetTrailer (length body) ?m"
      unfolding packetTrailer_def Let_def lbody by (simp add: b body_def)
    then show ?thesis using compact_inspect [OF small, of ?m] lb lbody by simp
  qed
  moreover have "take 18 b = initialSignature @ initialPrefix"
    "DecodeFieldChainPrefix (drop 18 b) CpicTagStart CpicTagEnd no_limits =
       Inr \<lparr>dp_Fields = flds, dp_BytesConsumed = length b - 28\<rparr>"
    "drop (length b - 10) b = put16be CpicTagEnd @ put16be 0 @ put16be (of_nat (length b - 8)) @ put32be ?m"
    using dec lb n by (simp_all add: b len)
  moreover obtain sessionID credential where "flds = logon_fields input sessionID credential"
     "session_field input randSession = Inr sessionID" "length sessionID = 16"
     "if il_Ticket input = []
      then fd_Tag credential = CpicTagPassword \<and> unscramble (fd_Value credential) = il_Password input
      else fd_Tag credential = CpicTagTicket \<and>
           TicketFromLogonFields flds = filter printable_byte (NormalizeTicket (il_Ticket input))"
    using initial_fields_values [OF f] by blast
  ultimately show ?thesis
    using lb n(2) by (intro exI [of _ flds] exI [of _ sessionID] exI [of _ credential]) (auto simp del: take_append drop_append)
qed

definition sample_logon :: initial_logon_request_input where
  "sample_logon = \<lparr>il_Client = gostr ''001'', il_User = gostr ''U'', il_Password = gostr ''pw'', il_Ticket = [],
     il_Language = gostr ''e'', il_ClientAddress = gostr ''a'', il_PartnerSystem = [], il_PartnerHostName = gostr ''h'',
     il_Destination = gostr ''d'', il_ProgramName = gostr ''p'', il_FunctionName = [], il_KernelRelease = [],
     il_SessionID = Some (replicate 16 7), il_PasswordSeed = Some 1, il_MaximumRfcPacketSize = None\<rparr>"

theorem logon_request_roundtrip_witness:
  "\<exists>b credential. EncodeInitialLogonRequest sample_logon None None = Inr b \<and>
     DecodeFieldChainPrefix (drop 18 b) CpicTagStart CpicTagEnd no_limits =
       Inr \<lparr>dp_Fields = logon_fields sample_logon (replicate 16 7) credential, dp_BytesConsumed = length b - 28\<rparr> \<and>
     unscramble (fd_Value credential) = gostr ''pw'' \<and>
     (\<exists>r. DecodeInitialLogonRequest b = Inr r \<and> dl_MaximumRfcPacketSize r = 0x8500)"
proof -
  have "\<exists>flds. initial_fields sample_logon None None = Inr flds"
    by (simp add: initial_fields_def sample_logon_def password_field_def ScrambleRfcPassword_def session_field_def
        cpic_exactBytes_def asciiBytes_def printable_def printable_byte_def digits3_def oneLetter_def or_default_def
        default_release_def gostr_def fail_if_def Let_def)
  then obtain flds where flds: "initial_fields sample_logon None None = Inr flds" by blast
  have t: "il_Ticket sample_logon = []" "il_MaximumRfcPacketSize sample_logon = None" "il_Password sample_logon = gostr ''pw''"
    "session_field sample_logon None = Inr (replicate 16 7)"
    by (simp_all add: sample_logon_def session_field_def cpic_exactBytes_def)
  obtain b where b: "EncodeInitialLogonRequest sample_logon None None = Inr b"
    using password_request_accepted [OF flds t(1)] by blast
  from logon_request_roundtrip [OF b] obtain flds sessionID credential where
    "DecodeFieldChainPrefix (drop 18 b) CpicTagStart CpicTagEnd no_limits =
       Inr \<lparr>dp_Fields = flds, dp_BytesConsumed = length b - 28\<rparr>"
    "flds = logon_fields sample_logon sessionID credential" "session_field sample_logon None = Inr sessionID"
    "unscramble (fd_Value credential) = gostr ''pw''"
    "DecodeInitialLogonRequest b = Inr \<lparr>dl_Fields = tagLens flds, dl_CpicPacketSize = length b - 8, dl_MaximumRfcPacketSize = 0x8500\<rparr>"
    using t by (auto simp: checkedMaximumRfcPacketSize_def val_or_def)
  then show ?thesis using b t by (intro exI [of _ b] exI [of _ credential]) auto
qed

end
