(* ===== verification/Cpic_Logon_Response.thy ===== *)
theory Cpic_Logon_Response
  imports Cpic_Logon
begin

text \<open>
  Package \<open>cpic\<close>, files \<open>logon.go\<close> (response) and \<open>grammar.go\<close>: the decoder of the first server response, in its error form,
  its short form and the composite form that answers the logon and the first call together. The composite form is matched
  against a grammar of coordinates. The lemmas show that the greedy matcher decides the grammar and what a reported success
  rests on.
\<close>

section \<open>The composite grammar\<close>

definition initialMaxTextCoordinateByteLength :: nat where "initialMaxTextCoordinateByteLength = 255"

definition CpicTagUnresolved0420 :: u16 where "CpicTagUnresolved0420 = 0x0420"
definition CpicTagResponseContext :: u16 where "CpicTagResponseContext = 0x0503"

record grammar_coordinate =
  gc_tag :: u16
  gc_byteLength :: nat
  gc_hasByteLength :: bool
  gc_maxByteLength :: nat
  gc_optional :: bool

definition exact :: "u16 \<Rightarrow> nat \<Rightarrow> bool \<Rightarrow> grammar_coordinate" where
  "exact tag n opt = \<lparr>gc_tag = tag, gc_byteLength = n, gc_hasByteLength = True, gc_maxByteLength = 0, gc_optional = opt\<rparr>"

definition bounded :: "u16 \<Rightarrow> bool \<Rightarrow> grammar_coordinate" where
  "bounded tag opt = \<lparr>gc_tag = tag, gc_byteLength = 0, gc_hasByteLength = False,
     gc_maxByteLength = initialMaxTextCoordinateByteLength, gc_optional = opt\<rparr>"

definition initialRichPreambleGrammar :: "grammar_coordinate list" where
  "initialRichPreambleGrammar =
     [exact CpicTagProtocolVersion 4 False, exact CpicTagCapabilities 11 False, exact CpicTagLogonStatus 1 True,
      exact CpicTagSystemCodePage 8 False, exact initialCpicUnresolved0450 6 True, exact 0x0451 20 True, exact 0x0452 4 True,
      bounded 0x0453 True, bounded CpicTagClientAddress False, exact 0x0020 92 True, exact 0x0021 20 True,
      bounded CpicTagPartnerSystem False, bounded CpicTagPartnerHost False, exact CpicTagConnectionType 2 False,
      exact CpicTagKernelPatch 8 False, exact CpicTagKernelRelease 8 False, bounded CpicTagDestination True,
      bounded CpicTagProgram False, exact 0x0150 24 False, exact 0x0151 6 False, exact 0x0152 2 False]"

definition initialRichResponseGrammar :: "grammar_coordinate list" where
  "initialRichResponseGrammar =
     [exact CpicTagResponseStart 0 False, exact CpicTagResponseContext 0 False, exact CpicTagSession 16 False,
      exact CpicTagUnresolved0420 4 False, exact CpicTagCallContext 0 False, bounded CpicTagProgram False,
      exact 0x0667 8 False, exact 0x0126 4 True, exact CpicTagEnd 0 False]"

definition initialRichGrammar :: "grammar_coordinate list" where
  "initialRichGrammar = initialRichPreambleGrammar @ initialRichResponseGrammar"

definition matchesCoordinate :: "cpic_field \<Rightarrow> grammar_coordinate \<Rightarrow> bool" where
  "matchesCoordinate f c \<longleftrightarrow> fd_Tag f = gc_tag c \<and>
     (if gc_hasByteLength c then length (fd_Value f) = gc_byteLength c
      else 1 \<le> length (fd_Value f) \<and> length (fd_Value f) \<le> gc_maxByteLength c)"

text \<open>The loop over the coordinates; \<open>fs\<close> are the fields from \<open>fieldIndex\<close> on.\<close>

fun grammar_loop :: "grammar_coordinate list \<Rightarrow> cpic_field list \<Rightarrow> nat \<Rightarrow> nat option \<Rightarrow> u16 list \<Rightarrow>
    (cpic_field list \<times> nat option \<times> u16 list) option" where
  "grammar_loop [] fs fieldIndex pre emb = Some (fs, pre, emb)"
| "grammar_loop (c # cs) fs fieldIndex pre emb =
     (if fs \<noteq> [] \<and> matchesCoordinate (hd fs) c
      then grammar_loop cs (tl fs) (fieldIndex + 1)
             (if gc_tag c = CpicTagResponseStart then Some fieldIndex else pre)
             (if gc_tag c = 0x0126 then emb @ [0x0126] else emb)
      else if gc_optional c then grammar_loop cs fs fieldIndex pre emb
      else None)"

definition matchInitialRichGrammar :: "cpic_field list \<Rightarrow> (nat \<times> u16 list) option" where
  "matchInitialRichGrammar flds =
     (case grammar_loop initialRichGrammar flds 0 None [] of
        Some ([], Some preambleFieldCount, emb) \<Rightarrow> Some (preambleFieldCount, emb)
      | _ \<Rightarrow> None)"

definition initialRichTagLimits :: "u16 \<Rightarrow> nat" where
  "initialRichTagLimits tag = length (filter (\<lambda>c. gc_tag c = tag) initialRichGrammar)"

definition hasInitialCompositeDuplicate :: "cpic_field list \<Rightarrow> bool" where
  "hasInitialCompositeDuplicate flds =
     list_ex (\<lambda>tag. countTag flds tag > initialRichTagLimits tag) (map gc_tag initialRichGrammar)"

section \<open>Errors and results\<close>

record structural_field =
  sf_Tag :: u16
  sf_ByteLength :: nat
  sf_Index :: nat

datatype parse_stage =
    StageTruncated | StagePrefix | StageFieldChain cpic_error | StageTrailer | StageProtocol | StageErrorPreamble
  | StageErrorEnvelope "rfcerr_error option"

datatype structure_rule =
    RuleUnsupportedField | RuleUnsupportedFieldZeroLogonStatus | RuleInvalidEndField | RuleInvalidStartField
  | RuleMalformedVendorLogonControl | RuleDuplicateControlField | RuleMalformedOneByteStatus | RuleMalformedCallStatus
  | RuleMissingLogonStatus | RuleNonzeroCallStatus

datatype logon_response_error =
    LRParse parse_stage
  | LRStructure structure_rule "structural_field list"
  | LREmbedded response_error

record rejection =
  rj_Outcome :: outcome
  rj_MessageClass :: gostring
  rj_MessageType :: gostring
  rj_MessageNumber :: gostring
  rj_ExceptionKey :: gostring
  rj_RuntimeID :: gostring
  rj_Text :: gostring

record decoded_initial_logon_response =
  lr_Success :: bool
  lr_Status :: "nat option"
  lr_Rejection :: "rejection option"
  lr_NegotiatedProtocolVersion :: u32
  lr_Fields :: "tag_len list"

definition structuralFields :: "cpic_field list \<Rightarrow> structural_field list" where
  "structuralFields fs = map (\<lambda>(i, f). \<lparr>sf_Tag = fd_Tag f, sf_ByteLength = length (fd_Value f), sf_Index = i\<rparr>)
     (zip [0..<length fs] fs)"

abbreviation fail_rule :: "bool \<Rightarrow> structure_rule \<Rightarrow> cpic_field list \<Rightarrow> logon_response_error + unit" where
  "fail_rule c rule fs \<equiv> fail_if c (LRStructure rule (structuralFields fs))"

section \<open>The three forms\<close>

text \<open>The check of the End field; an accepted chain is not empty.\<close>

definition validateEndField :: "cpic_field list \<Rightarrow> logon_response_error + unit" where
  "validateEndField fs =
     (let ends = filterTag fs CpicTagEnd in
      fail_rule (length ends \<noteq> 1 \<or> fd_Tag (last fs) \<noteq> CpicTagEnd \<or> fd_Value (hd ends) \<noteq> []) RuleInvalidEndField fs)"

definition one_byte_status :: "cpic_field list \<Rightarrow> nat" where
  "one_byte_status oneByte = (case oneByte of [f] \<Rightarrow> unat (hd (fd_Value f)) | _ \<Rightarrow> 0)"

definition decodeRichInitialRfcPingResponse ::
    "cpic_field list \<Rightarrow> u32 \<Rightarrow> logon_response_error + decoded_initial_logon_response" where
  "decodeRichInitialRfcPingResponse fs negotiated =
     bindE (validateEndField fs) (\<lambda>_.
     let oneByte = filterTag fs CpicTagLogonStatus; callStatuses = filterTag fs CpicTagUnresolved0420;
         status = one_byte_status oneByte in
     bindE (fail_rule (length oneByte > 1 \<or> length oneByte = 1 \<and> length (fd_Value (hd oneByte)) \<noteq> 1) RuleMalformedOneByteStatus fs) (\<lambda>_.
     bindE (fail_rule (length callStatuses \<noteq> 1 \<or> length (fd_Value (hd callStatuses)) \<noteq> 4) RuleMalformedCallStatus fs) (\<lambda>_.
     bindE (fail_rule (hasInitialCompositeDuplicate fs) RuleDuplicateControlField fs) (\<lambda>_.
     case matchInitialRichGrammar fs of
       None \<Rightarrow> Inl (LRStructure (if status = 0 then RuleUnsupportedFieldZeroLogonStatus else RuleUnsupportedField) (structuralFields fs))
     | Some (preambleFieldCount, embeddedAllowedTags) \<Rightarrow>
         if status \<noteq> 0
         then Inr \<lparr>lr_Success = False, lr_Status = Some status, lr_Rejection = None,
                   lr_NegotiatedProtocolVersion = negotiated, lr_Fields = tagLens fs\<rparr>
         else bindE (fail_rule (get32be (fd_Value (hd callStatuses)) \<noteq> 0) RuleNonzeroCallStatus fs) (\<lambda>_.
              bindE (map_err LREmbedded (decodeFunctionResponseFields (drop (preambleFieldCount + 1) fs) embeddedAllowedTags)) (\<lambda>embedded.
              bindE (fail_rule (\<not> df_Success embedded) RuleNonzeroCallStatus fs) (\<lambda>_.
              Inr \<lparr>lr_Success = True, lr_Status = Some status, lr_Rejection = None,
                   lr_NegotiatedProtocolVersion = negotiated, lr_Fields = tagLens fs\<rparr>)))))))"

definition initialErrorResponsePrefix :: bytes where
  "initialErrorResponsePrefix = [0x01, 0x01, 0x00, 0x08, 0x01, 0x01, 0x01, 0x01, 0x01, 0x01, 0x00, 0x00]"

definition initialErrorPreambleTags :: "u16 list" where
  "initialErrorPreambleTags = [CpicTagProtocolVersion, CpicTagCapabilities, CpicTagSystemCodePage, CpicTagClientAddress,
     CpicTagPartnerSystem, CpicTagPartnerHost, CpicTagConnectionType, CpicTagKernelPatch, CpicTagKernelRelease,
     CpicTagDestination, CpicTagProgram, CpicTagResponseStart]"

definition initialRegularResponseTags :: "u16 list" where
  "initialRegularResponseTags = [CpicTagStart, CpicTagProtocolVersion, CpicTagCapabilities, CpicTagLogonStatus,
     CpicTagUnresolved0420, initialCpicUnresolved0450, CpicTagSystemCodePage, CpicTagEnd]"

definition preambleMatches :: "cpic_field list \<Rightarrow> u16 list \<Rightarrow> bool" where
  "preambleMatches fs tags \<longleftrightarrow> map fd_Tag (take (length tags) fs) = tags"

definition decode_error_response :: "cpic_field list \<Rightarrow> u32 \<Rightarrow> logon_response_error + decoded_initial_logon_response" where
  "decode_error_response fs negotiated =
     (let n = length initialErrorPreambleTags in
      bindE (fail_if (length fs \<le> n + 1 \<or> \<not> preambleMatches fs initialErrorPreambleTags \<or> fd_Value (fs ! (n - 1)) \<noteq> [])
        (LRParse StageErrorPreamble)) (\<lambda>_.
      bindE (fail_if (list_ex (\<lambda>tag. countTag fs tag \<noteq> 1) initialErrorPreambleTags) (LRParse StageErrorPreamble)) (\<lambda>_.
      bindE (map_err (\<lambda>e. LRParse (StageErrorEnvelope (Some e)))
              (rfcerr_Decode fs (no_options\<lparr>ro_AdditionalAllowedTags := initialErrorPreambleTags\<rparr>))) (\<lambda>envelope.
      bindE (fail_if (en_Outcome envelope = OutcomeSuccess) (LRParse (StageErrorEnvelope None))) (\<lambda>_.
      let facts = en_Facts envelope in
      Inr \<lparr>lr_Success = False, lr_Status = None,
           lr_Rejection = Some \<lparr>rj_Outcome = en_Outcome envelope, rj_MessageClass = rf_MessageClass facts,
             rj_MessageType = rf_MessageType facts, rj_MessageNumber = rf_MessageNumber facts,
             rj_ExceptionKey = rf_ExceptionKey facts, rj_RuntimeID = rf_RuntimeID facts, rj_Text = rf_PlainText facts\<rparr>,
           lr_NegotiatedProtocolVersion = negotiated, lr_Fields = tagLens fs\<rparr>)))))"

text \<open>The 0x0450 control of the short form: at most one, six bytes, fifth of the fields after Start, behind the call status.\<close>

definition bad_vendor_control :: "cpic_field list \<Rightarrow> bool" where
  "bad_vendor_control semantic \<longleftrightarrow>
     (let s4 = filterTag semantic initialCpicUnresolved0450;
          index = length (takeWhile (\<lambda>f. fd_Tag f \<noteq> initialCpicUnresolved0450) semantic) in
      length s4 > 1 \<or> length s4 = 1 \<and> (length (fd_Value (hd s4)) \<noteq> 6 \<or> index \<noteq> 4 \<or>
        length semantic < 4 \<or> fd_Tag (semantic ! 3) \<noteq> CpicTagUnresolved0420))"

definition decode_short_response :: "cpic_field list \<Rightarrow> u32 \<Rightarrow> logon_response_error + decoded_initial_logon_response" where
  "decode_short_response fs negotiated =
     bindE (fail_rule (list_ex (\<lambda>f. fd_Tag f \<notin> set initialRegularResponseTags) fs) RuleUnsupportedField fs) (\<lambda>_.
     bindE (validateEndField fs) (\<lambda>_.
     let startCount = countTag fs CpicTagStart in
     bindE (fail_rule (startCount > 1 \<or> startCount = 1 \<and> (fd_Tag (hd fs) \<noteq> CpicTagStart \<or> fd_Value (hd fs) \<noteq> []))
              RuleInvalidStartField fs) (\<lambda>_.
     bindE (fail_rule (bad_vendor_control (if startCount = 1 then drop 1 fs else fs)) RuleMalformedVendorLogonControl fs) (\<lambda>_.
     bindE (fail_rule (list_ex (\<lambda>tag. countTag fs tag > 1) [CpicTagCapabilities, CpicTagSystemCodePage]) RuleDuplicateControlField fs) (\<lambda>_.
     let oneByte = filterTag fs CpicTagLogonStatus; callStatuses = filterTag fs CpicTagUnresolved0420;
         status = one_byte_status oneByte in
     bindE (fail_rule (length oneByte > 1 \<or> length oneByte = 1 \<and> length (fd_Value (hd oneByte)) \<noteq> 1) RuleMalformedOneByteStatus fs) (\<lambda>_.
     bindE (fail_rule (length callStatuses > 1 \<or> length callStatuses = 1 \<and> length (fd_Value (hd callStatuses)) \<noteq> 4)
              RuleMalformedCallStatus fs) (\<lambda>_.
     bindE (fail_rule (oneByte = [] \<and> callStatuses = []) RuleMissingLogonStatus fs) (\<lambda>_.
     bindE (fail_rule (length callStatuses = 1 \<and> get32be (fd_Value (hd callStatuses)) \<noteq> 0) RuleNonzeroCallStatus fs) (\<lambda>_.
     Inr \<lparr>lr_Success = (status = 0), lr_Status = Some status, lr_Rejection = None,
          lr_NegotiatedProtocolVersion = negotiated, lr_Fields = tagLens fs\<rparr>)))))))))"

definition DecodeInitialLogonResponse :: "bytes \<Rightarrow> logon_response_error + decoded_initial_logon_response" where
  "DecodeInitialLogonResponse data =
     bindE (fail_if (length data < length initialResponsePrefix + 8) (LRParse StageTruncated)) (\<lambda>_.
     let pre = take (length initialResponsePrefix) data;
         isRegular = (pre = initialResponsePrefix); isError = (pre = initialErrorResponsePrefix) in
     bindE (fail_if (\<not> isRegular \<and> \<not> isError) (LRParse StagePrefix)) (\<lambda>_.
     bindE (map_err (\<lambda>e. LRParse (StageFieldChain e)) (DecodeFieldChainPrefix (drop (length initialResponsePrefix) data)
              CpicTagStart CpicTagEnd no_limits)) (\<lambda>decoded.
     bindE (map_err (\<lambda>_. LRParse StageTrailer) (check_trailer data (length initialResponsePrefix + dp_BytesConsumed decoded))) (\<lambda>_.
     let fs = dp_Fields decoded; protocols = filterTag fs CpicTagProtocolVersion in
     bindE (fail_if (protocols = [] \<or> length (fd_Value (hd protocols)) \<noteq> 4) (LRParse StageProtocol)) (\<lambda>_.
     let negotiated = get32be (fd_Value (hd protocols)) in
     if isError then decode_error_response fs negotiated
     else bindE (fail_if (length protocols \<noteq> 1) (LRParse StageProtocol)) (\<lambda>_.
       if countTag fs CpicTagResponseStart > 0 then decodeRichInitialRfcPingResponse fs negotiated
       else decode_short_response fs negotiated))))))"

section \<open>The grammar as a relation\<close>

text \<open>
  What the coordinates mean: the fields match the coordinates one by one, and only optional coordinates are left out.
\<close>

inductive grammar_run :: "grammar_coordinate list \<Rightarrow> cpic_field list \<Rightarrow> bool" where
  run_nil: "grammar_run [] []"
| run_take: "matchesCoordinate f c \<Longrightarrow> grammar_run cs fs \<Longrightarrow> grammar_run (c # cs) (f # fs)"
| run_skip: "gc_optional c \<Longrightarrow> grammar_run cs fs \<Longrightarrow> grammar_run (c # cs) fs"

inductive_cases run_nilE: "grammar_run [] fs"
inductive_cases run_consE: "grammar_run (c # cs) fs"

text \<open>An optional coordinate has a tag that does not come again.\<close>

fun unambiguous :: "grammar_coordinate list \<Rightarrow> bool" where
  "unambiguous [] = True"
| "unambiguous (c # cs) \<longleftrightarrow> (gc_optional c \<longrightarrow> gc_tag c \<notin> gc_tag ` set cs) \<and> unambiguous cs"

lemma run_head_tag: "grammar_run cs (f # fs) \<Longrightarrow> fd_Tag f \<in> gc_tag ` set cs"
  by (induction cs "f # fs" arbitrary: f fs rule: grammar_run.induct) (auto simp: matchesCoordinate_def)

lemma grammar_loop_run:
  assumes "unambiguous cs"
  shows "(\<exists>pre' emb'. grammar_loop cs fs k pre emb = Some ([], pre', emb')) \<longleftrightarrow> grammar_run cs fs"
  using assms
proof (induction cs arbitrary: fs k pre emb)
  case Nil
  show ?case by (auto intro: run_nil elim: run_nilE)
next
  case (Cons c cs)
  have greedy: "grammar_run (c # cs) fs \<longleftrightarrow> grammar_run cs (tl fs)" if m: "fs \<noteq> []" "matchesCoordinate (hd fs) c"
  proof
    obtain f gs where fs: "fs = f # gs" using m by (cases fs) auto
    assume "grammar_run (c # cs) fs"
    then show "grammar_run cs (tl fs)"
    proof (cases rule: grammar_run.cases)
      case run_skip
      then have "gc_tag c \<in> gc_tag ` set cs" using run_head_tag [of cs f gs] m fs by (auto simp: matchesCoordinate_def)
      then show ?thesis using run_skip Cons.prems by simp
    qed simp_all
  next
    assume "grammar_run cs (tl fs)"
    then show "grammar_run (c # cs) fs" using run_take [OF m(2)] m(1) by (cases fs) auto
  qed
  have skip: "grammar_run (c # cs) fs \<longleftrightarrow> gc_optional c \<and> grammar_run cs fs" if "\<not> (fs \<noteq> [] \<and> matchesCoordinate (hd fs) c)"
    using that by (auto elim: run_consE intro: run_skip)
  show ?case using Cons greedy skip by simp
qed

lemma grammar_loop_marker:
  "grammar_loop cs fs k pre emb = Some (rest, pre', emb') \<Longrightarrow>
     pre \<noteq> None \<or> (\<exists>c\<in>set cs. gc_tag c = CpicTagResponseStart \<and> \<not> gc_optional c) \<Longrightarrow> pre' \<noteq> None"
proof (induction cs arbitrary: fs k pre emb)
  case (Cons c cs)
  show ?case
  proof (cases "fs \<noteq> [] \<and> matchesCoordinate (hd fs) c")
    case True
    then have "grammar_loop cs (tl fs) (k + 1) (if gc_tag c = CpicTagResponseStart then Some k else pre)
        (if gc_tag c = 0x0126 then emb @ [0x0126] else emb) = Some (rest, pre', emb')"
      using Cons.prems(1) by simp
    from Cons.IH [OF this] show ?thesis using Cons.prems(2) by auto
  next
    case False
    then show ?thesis using Cons.prems by (intro Cons.IH [of fs]) (auto split: if_splits)
  qed
qed auto

lemma grammar_unambiguous: "unambiguous initialRichGrammar"
  by (simp add: initialRichGrammar_def initialRichPreambleGrammar_def initialRichResponseGrammar_def exact_def bounded_def)
     (simp add: cpic_tags response_tags CpicTagUnresolved0420_def CpicTagResponseContext_def)

lemma grammar_has_marker: "\<exists>c\<in>set initialRichGrammar. gc_tag c = CpicTagResponseStart \<and> \<not> gc_optional c"
  by (rule bexI [of _ "exact CpicTagResponseStart 0 False"])
     (simp_all add: exact_def initialRichGrammar_def initialRichResponseGrammar_def)

lemma grammar_run_matched: "matchInitialRichGrammar flds \<noteq> None \<longleftrightarrow> grammar_run initialRichGrammar flds"
proof -
  have "pre' \<noteq> None" if "grammar_loop initialRichGrammar flds 0 None [] = Some (rest, pre', emb')" for rest pre' emb'
    using grammar_loop_marker [OF that] grammar_has_marker by blast
  then show ?thesis
    unfolding grammar_loop_run [OF grammar_unambiguous, of flds 0 None "[]", symmetric] matchInitialRichGrammar_def
    by (auto split: option.splits list.splits)
qed

text \<open>
  C15. The matcher of the composite response decides its grammar: it accepts exactly the field sequences in which
  the fields match the coordinates in order and only optional coordinates are missing, although it never looks back.
\<close>

theorem grammar_decided:
  "matchInitialRichGrammar flds \<noteq> None \<longleftrightarrow> grammar_run initialRichGrammar flds"
  by (rule grammar_run_matched)

section \<open>What success rests on\<close>

lemma filterTag_read: "map fd_Value (filterTag fs tag) = read_tag tag fs"
  by (simp add: filterTag_def read_tag_def)

lemma four_zero: "length v = 4 \<Longrightarrow> get32be v = 0 \<Longrightarrow> v = [0, 0, 0, 0]"
proof -
  assume "length v = 4" "get32be v = 0"
  then have "v = put32be 0" using put32be_get32be [of v] by simp
  then show ?thesis by (simp add: put32be_def)
qed

lemma status_zero:
  assumes "length oneByte \<le> 1" "length oneByte = 1 \<longrightarrow> length (fd_Value (hd oneByte)) = 1" "one_byte_status oneByte = 0"
  shows "map fd_Value oneByte \<in> {[], [[0]]}"
proof (cases oneByte)
  case (Cons f r)
  then obtain b where "r = []" "fd_Value f = [b]" using assms by (auto simp: length_Suc_conv)
  moreover from this have "b = 0" using assms(3) Cons by (simp add: one_byte_status_def unat_eq_zero)
  ultimately show ?thesis using Cons by simp
qed simp

lemma call_status_zero:
  assumes "length cs \<le> 1" "length cs = 1 \<longrightarrow> length (fd_Value (hd cs)) = 4 \<and> get32be (fd_Value (hd cs)) = 0"
  shows "map fd_Value cs \<in> {[], [[0, 0, 0, 0]]}"
  using assms four_zero by (cases cs) auto

definition statuses_zero :: "cpic_field list \<Rightarrow> bool" where
  "statuses_zero fs \<longleftrightarrow> read_tag CpicTagLogonStatus fs \<in> {[], [[0]]} \<and> read_tag CpicTagUnresolved0420 fs \<in> {[], [[0, 0, 0, 0]]} \<and>
     (read_tag CpicTagLogonStatus fs \<noteq> [] \<or> read_tag CpicTagUnresolved0420 fs \<noteq> [])"

lemma decode_error_Inr:
  "decode_error_response fs v = Inr r \<Longrightarrow> \<not> lr_Success r \<and> lr_Fields r = tagLens fs"
  by (auto simp: decode_error_response_def bindE_Inr_iff Let_def)

lemma decode_short_Inr:
  assumes "decode_short_response fs v = Inr r"
  shows "lr_Fields r = tagLens fs \<and> lr_Rejection r = None \<and> lr_NegotiatedProtocolVersion r = v \<and>
     (lr_Success r \<longrightarrow> lr_Status r = Some 0 \<and> statuses_zero fs)"
proof -
  let ?one = "filterTag fs CpicTagLogonStatus" and ?call = "filterTag fs CpicTagUnresolved0420"
  have one: "length ?one \<le> 1" "length ?one = 1 \<longrightarrow> length (fd_Value (hd ?one)) = 1"
    and call: "length ?call \<le> 1" "length ?call = 1 \<longrightarrow> length (fd_Value (hd ?call)) = 4 \<and> get32be (fd_Value (hd ?call)) = 0"
    and some: "?one \<noteq> [] \<or> ?call \<noteq> []"
    and r: "r = \<lparr>lr_Success = (one_byte_status ?one = 0), lr_Status = Some (one_byte_status ?one), lr_Rejection = None,
      lr_NegotiatedProtocolVersion = v, lr_Fields = tagLens fs\<rparr>"
    using assms by (auto simp: decode_short_response_def bindE_Inr_iff Let_def)
  have "statuses_zero fs" if "one_byte_status ?one = 0"
    using status_zero [OF one that] call_status_zero [OF call] some
    unfolding statuses_zero_def filterTag_read [symmetric] by simp
  then show ?thesis by (simp add: r)
qed

lemma decode_rich_Inr:
  assumes "decodeRichInitialRfcPingResponse fs v = Inr r"
  shows "lr_Fields r = tagLens fs \<and> lr_Rejection r = None \<and> lr_NegotiatedProtocolVersion r = v \<and>
     (lr_Success r \<longrightarrow> lr_Status r = Some 0 \<and> statuses_zero fs \<and> matchInitialRichGrammar fs \<noteq> None)"
proof -
  let ?one = "filterTag fs CpicTagLogonStatus" and ?call = "filterTag fs CpicTagUnresolved0420"
  have one: "length ?one \<le> 1" "length ?one = 1 \<longrightarrow> length (fd_Value (hd ?one)) = 1" and call: "length ?call = 1"
    and len: "length (fd_Value (hd ?call)) = 4" and m: "matchInitialRichGrammar fs \<noteq> None"
    using assms by (auto simp: decodeRichInitialRfcPingResponse_def bindE_Inr_iff Let_def split: option.splits)
  have r: "lr_Fields r = tagLens fs \<and> lr_Rejection r = None \<and> lr_NegotiatedProtocolVersion r = v \<and>
      lr_Status r = Some (one_byte_status ?one) \<and> (lr_Success r \<longrightarrow> one_byte_status ?one = 0 \<and> get32be (fd_Value (hd ?call)) = 0)"
    using assms by (auto simp: decodeRichInitialRfcPingResponse_def bindE_Inr_iff Let_def split: option.splits if_splits)
  have "statuses_zero fs" if "one_byte_status ?one = 0" "get32be (fd_Value (hd ?call)) = 0"
  proof -
    have "map fd_Value ?call \<in> {[], [[0, 0, 0, 0]]}" using call_status_zero [of ?call] call len that(2) by simp
    then show ?thesis using status_zero [OF one that(1)] call
      unfolding statuses_zero_def filterTag_read [symmetric] by auto
  qed
  then show ?thesis using r m by auto
qed

lemma prefixes: "length initialResponsePrefix = 12" "initialErrorResponsePrefix \<noteq> initialResponsePrefix"
  by (simp_all add: initialResponsePrefix_def initialErrorResponsePrefix_def)

text \<open>
  C14. No logon is reported successful by accident: success needs the regular prefix, a chain that closes the packet, exactly
  one four-byte protocol version, which is the negotiated one, at most one logon status and at most one call status, each of
  them zero, and at least one of the two; a composite response must also match the grammar. A rejection is reported only
  from the error form, and never as a success.
\<close>

theorem logon_success_safe:
  assumes "DecodeInitialLogonResponse data = Inr r"
  shows "\<exists>decoded. DecodeFieldChainPrefix (drop 12 data) CpicTagStart CpicTagEnd no_limits = Inr decoded \<and>
     length data = 12 + dp_BytesConsumed decoded + 2 \<and> lr_Fields r = tagLens (dp_Fields decoded) \<and>
     (lr_Success r \<longrightarrow> take 12 data = initialResponsePrefix \<and> lr_Rejection r = None \<and> lr_Status r = Some 0 \<and>
        (\<exists>v. read_tag CpicTagProtocolVersion (dp_Fields decoded) = [v] \<and> length v = 4 \<and>
             lr_NegotiatedProtocolVersion r = get32be v) \<and>
        statuses_zero (dp_Fields decoded) \<and>
        (read_tag CpicTagResponseStart (dp_Fields decoded) \<noteq> [] \<longrightarrow> grammar_run initialRichGrammar (dp_Fields decoded))) \<and>
     (lr_Rejection r \<noteq> None \<longrightarrow> take 12 data = initialErrorResponsePrefix \<and> \<not> lr_Success r)"
proof -
  obtain d where d: "DecodeFieldChainPrefix (drop 12 data) CpicTagStart CpicTagEnd no_limits = Inr d"
    and tr: "check_trailer data (12 + dp_BytesConsumed d) = Inr ()"
    using assms by (auto simp: DecodeInitialLogonResponse_def bindE_Inr_iff prefixes Let_def)
  define fs where "fs = dp_Fields d"
  define ps where "ps = filterTag fs CpicTagProtocolVersion"
  define v where "v = get32be (fd_Value (hd ps))"
  have len: "length data = 12 + dp_BytesConsumed d + 2" using tr by (auto simp: check_trailer_def)
  have vers: "length ps = 1 \<Longrightarrow> length (fd_Value (hd ps)) = 4 \<Longrightarrow> \<exists>x. read_tag CpicTagProtocolVersion fs = [x] \<and> length x = 4 \<and> v = get32be x"
    unfolding filterTag_read [symmetric] ps_def [symmetric] v_def by (cases ps) auto
  have p4: "ps \<noteq> []" "length (fd_Value (hd ps)) = 4"
    using assms d tr by (auto simp: DecodeInitialLogonResponse_def bindE_Inr_iff prefixes Let_def fs_def ps_def)
  consider (error) "take 12 data = initialErrorResponsePrefix" "decode_error_response fs v = Inr r"
    | (rich) "take 12 data = initialResponsePrefix" "length ps = 1" "decodeRichInitialRfcPingResponse fs v = Inr r"
    | (short) "take 12 data = initialResponsePrefix" "length ps = 1" "countTag fs CpicTagResponseStart = 0" "decode_short_response fs v = Inr r"
    using assms d tr
    by (auto simp: DecodeInitialLogonResponse_def bindE_Inr_iff prefixes Let_def fs_def ps_def v_def split: if_splits)
  then have "lr_Fields r = tagLens fs \<and>
     (lr_Success r \<longrightarrow> take 12 data = initialResponsePrefix \<and> lr_Rejection r = None \<and> lr_Status r = Some 0 \<and>
        (\<exists>x. read_tag CpicTagProtocolVersion fs = [x] \<and> length x = 4 \<and> lr_NegotiatedProtocolVersion r = get32be x) \<and>
        statuses_zero fs \<and> (read_tag CpicTagResponseStart fs \<noteq> [] \<longrightarrow> grammar_run initialRichGrammar fs)) \<and>
     (lr_Rejection r \<noteq> None \<longrightarrow> take 12 data = initialErrorResponsePrefix \<and> \<not> lr_Success r)"
  proof cases
    case error
    then show ?thesis using decode_error_Inr [of fs v r] by simp
  next
    case rich
    then show ?thesis using decode_rich_Inr [OF rich(3)] vers [OF rich(2) p4(2)] grammar_run_matched by auto
  next
    case short
    have "read_tag CpicTagResponseStart fs = []" using short(3) by (simp add: countTag_def filterTag_read [symmetric])
    then show ?thesis using short decode_short_Inr [OF short(4)] vers [OF short(2) p4(2)] by auto
  qed
  then show ?thesis using d len unfolding fs_def by blast
qed

definition short_success :: "cpic_field list" where
  "short_success = [cfield CpicTagProtocolVersion [0, 0, 14, 9], cfield CpicTagLogonStatus [0]]"

lemma short_success_decoded:
  "\<exists>r. DecodeInitialLogonResponse (response_packet initialResponsePrefix CpicTagStart short_success) = Inr r \<and> lr_Success r"
proof -
  have fits: "packet_fits CpicTagStart short_success"
    by (simp add: packet_fits_def chain_fits_def short_success_def field_record_def length_field_header_layout cpic_tags response_tags)
  let ?fs = "short_success @ [cfield CpicTagEnd []]"
  have tags: "filterTag ?fs CpicTagProtocolVersion = [cfield CpicTagProtocolVersion [0, 0, 14, 9]]"
    "filterTag ?fs CpicTagResponseStart = []" "filterTag ?fs CpicTagLogonStatus = [cfield CpicTagLogonStatus [0]]"
    "filterTag ?fs CpicTagUnresolved0420 = []" "filterTag ?fs CpicTagStart = []" "filterTag ?fs CpicTagCapabilities = []"
    "filterTag ?fs CpicTagSystemCodePage = []" "filterTag ?fs CpicTagEnd = [cfield CpicTagEnd []]"
    "filterTag ?fs initialCpicUnresolved0450 = []" "\<not> list_ex (\<lambda>f. fd_Tag f \<notin> set initialRegularResponseTags) ?fs"
    by (simp_all add: filterTag_def short_success_def cpic_tags response_tags CpicTagUnresolved0420_def initialRegularResponseTags_def)
  have "\<exists>r. decode_short_response ?fs v = Inr r \<and> lr_Success r" for v
    using tags by (simp add: decode_short_response_def validateEndField_def bad_vendor_control_def countTag_def one_byte_status_def
        fail_if_def Let_def)
  then show ?thesis
    using tags prefixes packet_prefix [of initialResponsePrefix CpicTagStart short_success, unfolded prefixes]
      packet_length [of initialResponsePrefix CpicTagStart short_success, unfolded prefixes]
      packet_trailer [of initialResponsePrefix CpicTagStart short_success]
      packet_chain [OF fits, of initialResponsePrefix]
    by (simp add: DecodeInitialLogonResponse_def countTag_def fail_if_def Let_def)
qed

theorem logon_success_safe_witness:
  "\<exists>r v. DecodeInitialLogonResponse (response_packet initialResponsePrefix CpicTagStart short_success) = Inr r \<and>
     lr_Success r \<and> lr_Status r = Some 0 \<and> lr_NegotiatedProtocolVersion r = get32be v \<and> length v = 4"
  using short_success_decoded logon_success_safe by blast

end
