(* ===== verification/Session_Call.thy ===== *)
theory Session_Call
  imports Session_Exchange Cpic_Logon_Response
begin

text \<open>
  Package \<open>client\<close> (\<open>internal/client/session.go\<close>): opening a session, the logon, and the calls, over the
  exchange of theory \<open>Session_Exchange\<close> and the CPIC codecs. A dialled transport, the random bytes and the host name are inputs,
  and a callback handler is a function on its own state. The callback loop of the code ends only when the partner answers, so
  it is a partial function; the lemmas show that a logon precedes every call, that a call returns what the partner
  sent, and that callbacks are answered in order until the response arrives.
\<close>

section \<open>Data\<close>

record session_options =
  so_Host :: gostring
  so_ApplicationServerHost :: gostring
  so_ApplicationServerService :: gostring
  so_ProgramName :: gostring
  so_LocalAddress :: gostring

record logon_options =
  lo_Client :: gostring
  lo_User :: gostring
  lo_Password :: gostring
  lo_Ticket :: gostring
  lo_Language :: gostring
  lo_PartnerHostName :: gostring
  lo_KernelRelease :: gostring

text \<open>The fields of \<open>Session\<close> that the exchange does not use.\<close>

record 't client =
  cl_session :: "'t session"
  cl_destination :: gostring
  cl_cpicSessionID :: bytes
  cl_authenticated :: bool

datatype 'e call_error =
    CallSession session_error
  | CallRandom
  | CallLogon logon_error
  | CallMalformedLogon logon_response_error
  | CallRejectedText gostring
  | CallRejectedStatus nat
  | CallRejected
  | CallCpic cpic_error
  | CallResponse response_error
  | CallHandler 'e

record call_result =
  cr_Success :: bool
  cr_Fields :: "cpic_field list"
  cr_Envelope :: envelope

type_synonym ('t, 'e, 'a) client_op = "'t client \<Rightarrow> ('e call_error + 'a) \<times> 't client"

definition on_session :: "('t, 'a) sess \<Rightarrow> ('t, 'e, 'a) client_op" where
  "on_session f c = (case f (cl_session c) of (r, s) \<Rightarrow> (map_err CallSession r, c\<lparr>cl_session := s\<rparr>))"

section \<open>Opening\<close>

text \<open>The patterns \<open>^[\x20-\x7e]{1,64}$\<close> and \<open>^sapdp\d{2}$\<close>.\<close>

definition programNamePattern :: "gostring \<Rightarrow> bool" where
  "programNamePattern s \<longleftrightarrow> printable s \<and> 1 \<le> length s \<and> length s \<le> 64"

definition servicePattern :: "gostring \<Rightarrow> bool" where
  "servicePattern s \<longleftrightarrow> length s = 7 \<and> take 5 s = gostr ''sapdp'' \<and> list_all (\<lambda>b. 0x30 \<le> b \<and> b \<le> 0x39) (drop 5 s)"

text \<open>The session before its handshake; the set-up machine and the identifiers have their zero values.\<close>

definition new_client :: "session_options \<Rightarrow> 't \<Rightarrow> 't client" where
  "new_client opts t =
     \<lparr>cl_session = \<lparr>se_transport = t, se_setup = NewClientSetupStateMachine, se_conversationID = [], se_connectionIndex = 0,
        se_localAddress = or_default (so_LocalAddress opts) (gostr ''127.0.0.1''),
        se_programName = or_default (so_ProgramName opts) (gostr ''open-rfc''),
        se_service = so_ApplicationServerService opts, se_closed = False\<rparr>,
      cl_destination = or_default (so_ApplicationServerHost opts) (so_Host opts), cl_cpicSessionID = [], cl_authenticated = False\<rparr>"

definition Open :: "'t link \<Rightarrow> host_env \<Rightarrow> session_options \<Rightarrow> transport_error + 't \<Rightarrow> session_error + 't client" where
  "Open L env opts dialed =
     bindE (fail_if (\<not> programNamePattern (or_default (so_ProgramName opts) (gostr ''open-rfc''))) SeSession) (\<lambda>_.
     bindE (fail_if (\<not> servicePattern (so_ApplicationServerService opts)) SeSession) (\<lambda>_.
     bindE (map_err SeTransport dialed) (\<lambda>t.
     let c = new_client opts t in
     case handshake L env (cl_session c) of
       (Inl e, _) \<Rightarrow> Inl e
     | (Inr _, s) \<Rightarrow> Inr (c\<lparr>cl_session := s\<rparr>))))"

section \<open>Logon\<close>

definition logon_input :: "logon_options \<Rightarrow> gostring \<Rightarrow> bytes \<Rightarrow> 't client \<Rightarrow> initial_logon_request_input" where
  "logon_input opts hostname sessionID c =
     \<lparr>il_Client = lo_Client opts, il_User = lo_User opts, il_Password = lo_Password opts, il_Ticket = lo_Ticket opts,
      il_Language = or_default (lo_Language opts) (gostr ''E''), il_ClientAddress = se_localAddress (cl_session c),
      il_PartnerSystem = [], il_PartnerHostName = or_default (lo_PartnerHostName opts) hostname,
      il_Destination = cl_destination c, il_ProgramName = se_programName (cl_session c),
      il_FunctionName = gostr ''RFCPING'', il_KernelRelease = lo_KernelRelease opts,
      il_SessionID = Some sessionID, il_PasswordSeed = None, il_MaximumRfcPacketSize = None\<rparr>"

definition check_logon :: "decoded_initial_logon_response \<Rightarrow> 'e call_error + unit" where
  "check_logon decoded =
     (if lr_Success decoded then Inr ()
      else case lr_Rejection decoded of
        Some rej \<Rightarrow> if rj_Text rej \<noteq> [] then Inl (CallRejectedText (rj_Text rej))
                    else (case lr_Status decoded of Some st \<Rightarrow> Inl (CallRejectedStatus st) | None \<Rightarrow> Inl CallRejected)
      | None \<Rightarrow> (case lr_Status decoded of Some st \<Rightarrow> Inl (CallRejectedStatus st) | None \<Rightarrow> Inl CallRejected))"

definition LogonAndPing ::
    "'t link \<Rightarrow> gostring \<Rightarrow> bytes option \<Rightarrow> bytes option \<Rightarrow> logon_options \<Rightarrow> ('t, 'e, unit) client_op" where
  "LogonAndPing L hostname randSession randSeed opts c =
     (if cl_authenticated c then (Inl (CallSession SeSession), c)
      else case randSession of
        None \<Rightarrow> (Inl CallRandom, c)
      | Some sessionID \<Rightarrow>
          (sm_bind (sm_lift (map_err CallLogon (EncodeInitialLogonRequest (logon_input opts hostname sessionID c) randSeed None))) (\<lambda>req.
           sm_bind (on_session (exchange L req)) (\<lambda>response.
           sm_bind (sm_lift (map_err CallMalformedLogon (DecodeInitialLogonResponse response))) (\<lambda>decoded.
           sm_bind (sm_lift (check_logon decoded)) (\<lambda>_ c.
           (Inr (), c\<lparr>cl_cpicSessionID := sessionID, cl_authenticated := True\<rparr>)))))) c)"

section \<open>Calls\<close>

definition result_of :: "bytes \<Rightarrow> 'e call_error + call_result" where
  "result_of response =
     bindE (map_err CallResponse (DecodeFunctionResultFields response)) (\<lambda>decoded.
     Inr \<lparr>cr_Success = df_Success decoded, cr_Fields = df_Fields decoded, cr_Envelope = df_Envelope decoded\<rparr>)"

definition call_input :: "gostring \<Rightarrow> named_value list \<Rightarrow> gostring list \<Rightarrow> cut_function_request_input" where
  "call_input functionName imports requestedOutputs =
     \<lparr>ci_FunctionName = functionName, ci_RequestedOutputs = requestedOutputs, ci_Imports = imports, ci_Tables = [],
      ci_XrfcParameters = [], ci_KernelRelease = [], ci_MaximumRfcPacketSize = None\<rparr>"

definition session_Call :: "'t link \<Rightarrow> gostring \<Rightarrow> named_value list \<Rightarrow> gostring list \<Rightarrow> ('t, 'e, call_result) client_op" where
  "session_Call L functionName imports requestedOutputs c =
     (if \<not> cl_authenticated c then (Inl (CallSession SeSession), c)
      else (sm_bind (sm_lift (map_err CallCpic (EncodeCutFunctionRequest (call_input functionName imports requestedOutputs)))) (\<lambda>req.
            sm_bind (on_session (exchange L req)) (\<lambda>response.
            sm_lift (result_of response)))) c)"

definition isCallbackRequest :: "bytes \<Rightarrow> bool" where
  "isCallbackRequest data \<longleftrightarrow> take 4 data = [0x05, 0x02, 0x00, 0x00]"

text \<open>The loop of \<open>CallWithCallbacks\<close>; \<open>None\<close> as the handler is \<open>nil\<close>, \<open>None\<close> as the result is a loop that never ends.\<close>

type_synonym ('h, 'e) callback_handler = "bytes \<Rightarrow> 'h \<Rightarrow> ('e + bytes) \<times> 'h"

partial_function (option) call_loop ::
    "'t link \<Rightarrow> ('h, 'e) callback_handler option \<Rightarrow> bool \<Rightarrow> 't client \<Rightarrow> 'h \<Rightarrow> (('e call_error + call_result) \<times> 't client \<times> 'h) option" where
  "call_loop L onCallback async c h =
     (case on_session (receiveMessage L async) c of
        (Inl e, c1) \<Rightarrow> Some (Inl e, c1, h)
      | (Inr data, c1) \<Rightarrow>
          if isCallbackRequest data then
            (case onCallback of
               None \<Rightarrow> Some (Inl (CallSession SeSession), c1, h)
             | Some f \<Rightarrow>
                 (case f data h of
                    (Inl e, h1) \<Rightarrow> Some (Inl (CallHandler e), c1, h1)
                  | (Inr resp, h1) \<Rightarrow>
                      (case on_session (sendRequest L resp) c1 of
                         (Inl e, c2) \<Rightarrow> Some (Inl e, c2, h1)
                       | (Inr async', c2) \<Rightarrow> call_loop L onCallback async' c2 h1)))
          else Some (result_of data, c1, h))"

definition CallWithCallbacks ::
    "'t link \<Rightarrow> bytes \<Rightarrow> ('h, 'e) callback_handler option \<Rightarrow> 't client \<Rightarrow> 'h \<Rightarrow> (('e call_error + call_result) \<times> 't client \<times> 'h) option" where
  "CallWithCallbacks L request onCallback c h =
     (if \<not> cl_authenticated c then Some (Inl (CallSession SeSession), c, h)
      else case on_session (sendRequest L request) c of
        (Inl e, c1) \<Rightarrow> Some (Inl e, c1, h)
      | (Inr async, c1) \<Rightarrow> call_loop L onCallback async c1 h)"

definition CallRaw :: "'t link \<Rightarrow> bytes \<Rightarrow> 't client \<Rightarrow> ((unit call_error + call_result) \<times> 't client \<times> unit) option" where
  "CallRaw L request c =
     (if \<not> cl_authenticated c then Some (Inl (CallSession SeSession), c, ())
      else CallWithCallbacks L request None c ())"

section \<open>Lemmas\<close>

text \<open>A request that one record carries.\<close>

definition compact_request :: "bytes \<Rightarrow> bool" where
  "compact_request request \<longleftrightarrow> (\<exists>body m. length body + 2 \<le> 28000 \<and> request = body @ packetTrailer (length body) m)"

lemma framed_compact:
  assumes "frame_chain pre tag (fs @ [cfield CpicTagEnd []]) m = Inr request" "length request \<le> 28000"
  shows "compact_request request"
proof -
  obtain chain where r: "request = (pre @ chain) @ packetTrailer (length (pre @ chain)) m"
    using frame_chain_Inr [OF assms(1)] by auto
  moreover have "length (pre @ chain) + 2 \<le> 28000"
    using assms(2) arg_cong [OF r, of length]
    by (auto simp: packetTrailer_def MaxApplicationDataFragmentLength_def Let_def split: if_splits)
  ultimately show ?thesis unfolding compact_request_def by blast
qed

lemma cut_request_compact:
  assumes "EncodeCutFunctionRequest input = Inr request" "length request \<le> 28000"
  shows "compact_request request"
proof -
  obtain fs where "frame_chain cpicCutFunctionRequestPrefix CpicTagContextEnd (fs @ [cfield CpicTagEnd []])
      (checkedMaximumRfcPacketSize (ci_MaximumRfcPacketSize input)) = Inr request"
  proof -
    have "\<exists>fs. frame_chain cpicCutFunctionRequestPrefix CpicTagContextEnd (fs @ [cfield CpicTagEnd []])
        (checkedMaximumRfcPacketSize (ci_MaximumRfcPacketSize input)) = Inr request"
      using assms(1) by (auto simp: EncodeCutFunctionRequest_def bindE_Inr_iff Let_def) (metis append.assoc append_Cons)
    then show thesis using that by blast
  qed
  then show ?thesis using framed_compact assms(2) by blast
qed

text \<open>A message of the partner and the records that carry it.\<close>

definition message_records :: "'t session \<Rightarrow> bytes \<Rightarrow> bytes list \<Rightarrow> bool" where
  "message_records s msg bs \<longleftrightarrow>
     (\<exists>seq parts. parts \<noteq> [] \<and> concat parts = msg \<and> int (length parts) \<le> DefaultMaxMessageFragments \<and>
        reply_records (se_conversationID s) (se_connectionIndex s) seq FuncSapSend parts bs) \<and>
     int (length msg) \<le> DefaultMaxMessageLength"

text \<open>Callbacks that the handler answers, in order, with requests that one record carries.\<close>

inductive callbacks :: "('h, 'e) callback_handler \<Rightarrow> 'h \<Rightarrow> bytes list \<Rightarrow> bytes list \<Rightarrow> 'h \<Rightarrow> bool" for f where
  cb_none: "callbacks f h [] [] h"
| cb_next: "isCallbackRequest d \<Longrightarrow> f d h = (Inr r, h1) \<Longrightarrow> compact_request r \<Longrightarrow> callbacks f h1 ds rs h' \<Longrightarrow>
    callbacks f h (d # ds) (r # rs) h'"

context record_link
begin

lemma send_compact:
  assumes "session_ready s" "carries (se_transport s) ins outs" "compact_request request"
  shows "\<exists>rcd t. sendRequest L request s = (Inr False, in_state StateResponsePending s t) \<and>
     carries t ins (outs @ [rcd]) \<and> drop RecordHeaderLength rcd = request"
  using sendRequest_compact [OF assms(1,2)] assms(3) unfolding compact_request_def by blast

lemma receive_records:
  assumes "message_records s msg bs" "carries t (bs @ rest) outs" "length (se_conversationID s) = 8"
  shows "\<exists>t'. receiveMessage L a (in_state StateResponsePending s t) = (Inr msg, in_state StateReady s t') \<and> carries t' rest outs"
proof -
  obtain seq parts where p: "parts \<noteq> []" "concat parts = msg" "int (length parts) \<le> DefaultMaxMessageFragments"
    "reply_records (se_conversationID s) (se_connectionIndex s) seq FuncSapSend parts bs" "int (length msg) \<le> DefaultMaxMessageLength"
    using assms(1) unfolding message_records_def by blast
  let ?s = "in_state StateResponsePending s t"
  have s: "se_conversationID ?s = se_conversationID s" "se_connectionIndex ?s = se_connectionIndex s"
    "se_transport ?s = t" "m_state (se_setup ?s) = StateResponsePending" "in_state StateReady ?s = in_state StateReady s"
    by (simp_all add: in_state_def fun_eq_iff)
  show ?thesis
    using receiveMessage_parts [of ?s seq parts bs rest outs a] p assms(2,3) s by auto
qed

lemma exchange_records:
  assumes "session_ready s" "carries (se_transport s) (bs @ rest) outs" "compact_request request" "message_records s msg bs"
  shows "\<exists>rcd t. exchange L request s = (Inr msg, in_state StateReady s t) \<and> carries t rest (outs @ [rcd]) \<and>
     drop RecordHeaderLength rcd = request"
proof -
  obtain rcd t where t: "sendRequest L request s = (Inr False, in_state StateResponsePending s t)"
    "carries t (bs @ rest) (outs @ [rcd])" "drop RecordHeaderLength rcd = request"
    using send_compact [OF assms(1-3)] by blast
  have "length (se_conversationID s) = 8" using assms(1) by (simp add: session_ready_def)
  from receive_records [OF assms(4) t(2) this, of False]
  show ?thesis using t(1,3) by (auto simp: exchange_def sm_bind_def)
qed

text \<open>The callback loop, from a session that waits for the response.\<close>

lemma call_loop_callbacks:
  assumes "callbacks f h ds rs h'" "list_all2 (message_records s) (ds @ [final]) bss" "\<not> isCallbackRequest final"
    and "session_ready s" "carries t (concat bss @ rest) outs"
  shows "\<exists>t' rcds. call_loop L (Some f) False (c\<lparr>cl_session := in_state StateResponsePending s t\<rparr>) h =
       Some (result_of final, c\<lparr>cl_session := in_state StateReady s t'\<rparr>, h') \<and>
     carries t' rest (outs @ rcds) \<and> map (drop RecordHeaderLength) rcds = rs"
  using assms
proof (induction arbitrary: bss t outs rule: callbacks.induct)
  case (cb_none h)
  then obtain bs where bs: "bss = [bs]" "message_records s final bs" by (auto simp: list_all2_Cons1)
  obtain t' where t': "receiveMessage L False (in_state StateResponsePending s t) = (Inr final, in_state StateReady s t')"
    "carries t' rest outs"
    using receive_records [OF bs(2), of t rest outs False] cb_none.prems bs(1) by (auto simp: session_ready_def)
  then show ?case
    using cb_none.prems(2) by (subst call_loop.simps) (auto simp: on_session_def intro!: exI [of _ t'])
next
  case (cb_next d h r h1 ds rs h')
  then obtain bs bss' where bs: "bss = bs # bss'" "message_records s d bs" "list_all2 (message_records s) (ds @ [final]) bss'"
    by (auto simp: list_all2_Cons1)
  have ready: "session_ready (in_state StateReady s t1)" for t1 using in_state_ready [OF cb_next.prems(3)] .
  obtain t1 where t1: "receiveMessage L False (in_state StateResponsePending s t) = (Inr d, in_state StateReady s t1)"
    "carries t1 (concat bss' @ rest) outs"
    using receive_records [OF bs(2), of t "concat bss' @ rest" outs False] cb_next.prems bs(1) by (auto simp: session_ready_def)
  obtain rcd t2 where t2: "sendRequest L r (in_state StateReady s t1) = (Inr False, in_state StateResponsePending s t2)"
    "carries t2 (concat bss' @ rest) (outs @ [rcd])" "drop RecordHeaderLength rcd = r"
    using send_compact [OF ready _ cb_next.hyps(3), of t1 "concat bss' @ rest" outs] t1(2) by (auto simp: in_state_def)
  obtain t' rcds where rest: "call_loop L (Some f) False (c\<lparr>cl_session := in_state StateResponsePending s t2\<rparr>) h1 =
       Some (result_of final, c\<lparr>cl_session := in_state StateReady s t'\<rparr>, h')"
     "carries t' rest ((outs @ [rcd]) @ rcds)" "map (drop RecordHeaderLength) rcds = rs"
    using cb_next.IH [OF bs(3) cb_next.prems(2,3) t2(2)] by blast
  have "call_loop L (Some f) False (c\<lparr>cl_session := in_state StateResponsePending s t\<rparr>) h =
      call_loop L (Some f) False (c\<lparr>cl_session := in_state StateResponsePending s t2\<rparr>) h1"
    using t1(1) t2(1) cb_next.hyps(1,2) by (subst call_loop.simps) (simp add: on_session_def)
  then show ?case using rest t2(3) by (intro exI [of _ t'] exI [of _ "rcd # rcds"]) simp
qed

end

lemma Open_ready:
  assumes "Open L env sopts dialed = Inr c"
  shows "\<not> cl_authenticated c \<and> session_ready (cl_session c)"
proof -
  obtain t where r: "(case handshake L env (cl_session (new_client sopts t)) of
      (Inl e, _) \<Rightarrow> Inl e | (Inr _, s) \<Rightarrow> Inr (new_client sopts t\<lparr>cl_session := s\<rparr>)) = Inr c"
    using assms unfolding Open_def bindE_Inr_iff Let_def by blast
  obtain u s where us: "handshake L env (cl_session (new_client sopts t)) = (u, s)" by fastforce
  with r have h: "handshake L env (cl_session (new_client sopts t)) = (Inr (), s)"
    and c: "c = new_client sopts t\<lparr>cl_session := s\<rparr>" by (auto split: sum.splits)
  show ?thesis using handshake_Inr [OF h] by (simp add: c new_client_def session_ready_def)
qed

section \<open>Properties\<close>

text \<open>
  C1. A call returns what the partner sent: an authenticated, ready session that calls a function sends exactly the
  encoded request as the data of one record, takes the response in any number of records, and returns success with exactly the fields of
  the response; it stays authenticated and ready, and later records are still to be received.
\<close>

theorem call_roundtrip:
  assumes "cl_authenticated c" "session_ready (cl_session c)" "transport_carries (se_transport (cl_session c)) (bs @ rest) outs"
    and "EncodeCutFunctionRequest (call_input functionName imports requestedOutputs) = Inr request" "length request \<le> 28000"
    and "plain_response xs ys" "message_records (cl_session c) (success_packet xs ys) bs"
  shows "\<exists>r c' rcd. session_Call transport_link functionName imports requestedOutputs c = (Inr r, c') \<and>
     cr_Success r \<and> cr_Fields r = success_fields xs ys @ [cfield CpicTagEnd []] \<and>
     cl_authenticated c' \<and> session_ready (cl_session c') \<and> transport_carries (se_transport (cl_session c')) rest (outs @ [rcd]) \<and>
     drop RecordHeaderLength rcd = request"
proof -
  obtain rcd t where ex: "exchange transport_link request (cl_session c) = (Inr (success_packet xs ys), in_state StateReady (cl_session c) t)"
    "transport_carries t rest (outs @ [rcd])" "drop RecordHeaderLength rcd = request"
    using socket.exchange_records [OF assms(2,3) cut_request_compact [OF assms(4,5)] assms(7)] by blast
  obtain d where "DecodeFunctionResultFields (success_packet xs ys) = Inr d" "df_Success d"
    "df_Fields d = success_fields xs ys @ [cfield CpicTagEnd []]"
    using decode_success_packet [OF assms(6)] by blast
  then show ?thesis
    using assms(1,4) ex in_state_ready [OF assms(2), of t]
    by (auto simp: session_Call_def on_session_def sm_bind_def sm_lift_def result_of_def in_state_def)
qed

text \<open>
  C2. Callbacks are served until the response arrives: the call is sent, each message that is a callback request goes to the handler in
  the order of arrival, its answer is sent before the next message is received, and the first other message is the
  result. The loop ends then, with the handler in its last state and the session ready.
\<close>

theorem callbacks_served:
  assumes "cl_authenticated c" "session_ready (cl_session c)" "compact_request request"
    and "callbacks f h ds rs h'" "list_all2 (message_records (cl_session c)) (ds @ [final]) bss" "\<not> isCallbackRequest final"
    and "transport_carries (se_transport (cl_session c)) (concat bss @ rest) outs"
  shows "\<exists>c' rcds. CallWithCallbacks transport_link request (Some f) c h = Some (result_of final, c', h') \<and>
     cl_authenticated c' \<and> session_ready (cl_session c') \<and> transport_carries (se_transport (cl_session c')) rest (outs @ rcds) \<and>
     map (drop RecordHeaderLength) rcds = request # rs"
proof -
  obtain rcd t where t: "sendRequest transport_link request (cl_session c) = (Inr False, in_state StateResponsePending (cl_session c) t)"
    "transport_carries t (concat bss @ rest) (outs @ [rcd])" "drop RecordHeaderLength rcd = request"
    using socket.send_compact [OF assms(2,7,3)] by blast
  obtain t' rcds where l: "call_loop transport_link (Some f) False (c\<lparr>cl_session := in_state StateResponsePending (cl_session c) t\<rparr>) h =
       Some (result_of final, c\<lparr>cl_session := in_state StateReady (cl_session c) t'\<rparr>, h')"
     "transport_carries t' rest ((outs @ [rcd]) @ rcds)" "map (drop RecordHeaderLength) rcds = rs"
    using socket.call_loop_callbacks [OF assms(4-6) assms(2) t(2), of c] by blast
  have "CallWithCallbacks transport_link request (Some f) c h =
      Some (result_of final, c\<lparr>cl_session := in_state StateReady (cl_session c) t'\<rparr>, h')"
    using assms(1) t(1) l(1) by (simp add: CallWithCallbacks_def on_session_def)
  then show ?thesis
    using assms(1) l(2,3) t(3) in_state_ready [OF assms(2), of t']
    by (intro exI [of _ "c\<lparr>cl_session := in_state StateReady (cl_session c) t'\<rparr>"] exI [of _ "rcd # rcds"])
      (simp add: in_state_def)
qed

text \<open>
  C3. No call without a logon: a client that was opened is ready and not authenticated; every call of a client
  that is not authenticated is refused before anything is sent and changes nothing; and a logon succeeds only once, only
  when the response of the partner decodes to a success, and otherwise leaves the client as authenticated as it was.
\<close>

theorem logon_before_calls:
  "(case Open L env sopts dialed of
      Inl _ \<Rightarrow> True
    | Inr c0 \<Rightarrow> \<not> cl_authenticated c0 \<and> session_ready (cl_session c0)) \<and>
   (cl_authenticated c \<or>
     session_Call L functionName imports requestedOutputs c = (Inl (CallSession SeSession), c) \<and>
     CallRaw L request c = Some (Inl (CallSession SeSession), c, ()) \<and>
     CallWithCallbacks L request onCallback c h = Some (Inl (CallSession SeSession), c, h)) \<and>
   (case LogonAndPing L hostname randSession randSeed opts c of
      (Inl _, c') \<Rightarrow> cl_authenticated c' = cl_authenticated c
    | (Inr _, c') \<Rightarrow> \<not> cl_authenticated c \<and> cl_authenticated c' \<and> randSession = Some (cl_cpicSessionID c') \<and>
        (\<exists>req response d. EncodeInitialLogonRequest (logon_input opts hostname (cl_cpicSessionID c') c) randSeed None = Inr req \<and>
           exchange L req (cl_session c) = (Inr response, cl_session c') \<and>
           DecodeInitialLogonResponse response = Inr d \<and> lr_Success d))"
proof (intro conjI)
  show "case Open L env sopts dialed of Inl _ \<Rightarrow> True | Inr c0 \<Rightarrow> \<not> cl_authenticated c0 \<and> session_ready (cl_session c0)"
    using Open_ready [of L env sopts dialed] by (auto split: sum.split)
  show "case LogonAndPing L hostname randSession randSeed opts c of
      (Inl _, c') \<Rightarrow> cl_authenticated c' = cl_authenticated c
    | (Inr _, c') \<Rightarrow> \<not> cl_authenticated c \<and> cl_authenticated c' \<and> randSession = Some (cl_cpicSessionID c') \<and>
        (\<exists>req response d. EncodeInitialLogonRequest (logon_input opts hostname (cl_cpicSessionID c') c) randSeed None = Inr req \<and>
           exchange L req (cl_session c) = (Inr response, cl_session c') \<and>
           DecodeInitialLogonResponse response = Inr d \<and> lr_Success d)"
    by (auto simp: LogonAndPing_def sm_bind_def sm_lift_def on_session_def check_logon_def
        split: prod.splits sum.splits option.splits if_splits)
qed (auto simp: session_Call_def CallRaw_def CallWithCallbacks_def)

section \<open>Witnesses\<close>

definition sample_client_of :: "bytes list \<Rightarrow> transport client" where
  "sample_client_of records =
     \<lparr>cl_session = sample_session (map (\<lambda>p. put32be (of_nat (length p)) @ p) records), cl_destination = gostr ''host'',
      cl_cpicSessionID = replicate 16 7, cl_authenticated = True\<rparr>"

lemma sample_client_facts:
  assumes "list_all (\<lambda>p. length p \<le> 1000000) records"
  shows "cl_authenticated (sample_client_of records)" "session_ready (cl_session (sample_client_of records))"
    "transport_carries (se_transport (cl_session (sample_client_of records))) records []"
    "length msg < 2 ^ 16 \<Longrightarrow> message_records (cl_session (sample_client_of records)) msg [sample_reply FuncSapSend 0x0c msg]"
proof -
  show "cl_authenticated (sample_client_of records)" "session_ready (cl_session (sample_client_of records))"
    by (simp_all add: sample_client_of_def sample_session_def session_ready_def)
  show "transport_carries (se_transport (cl_session (sample_client_of records))) records []"
    using quiet_transport_carries [OF assms] by (simp add: sample_client_of_def sample_session_def)
  show "message_records (cl_session (sample_client_of records)) msg [sample_reply FuncSapSend 0x0c msg]" if "length msg < 2 ^ 16"
    using sample_reply_part [of msg "0x0c" True FuncSapSend] that
    by (auto simp: message_records_def sample_client_of_def sample_session_def DefaultMaxMessageLength_def
        DefaultMaxMessageFragments_def intro!: exI [of _ 0] exI [of _ "[msg]"])
qed

lemma sample_reply_length: "length (sample_reply fc vec p) = 80 + length p"
  by (simp add: sample_reply_def length_header_layout header_of_ok header_ok_def no_overrides_def conversation_or_zero_def val_or_def)

lemma sample_packet_length: "length (success_packet [] [cfield 0x0203 [65]]) < 100"
  by (simp add: success_packet_def response_packet_def success_fields_def field_record_def length_field_header_layout
      cpicFunctionResponsePrefix_def)

lemma sample_request: "\<exists>request. EncodeCutFunctionRequest (call_input (gostr ''STFC'') [] []) = Inr request \<and> length request \<le> 28000"
proof -
  have u: "unicodeBytes (gostr ''STFC'') 40 = Inr [83, 0, 84, 0, 70, 0, 67, 0]"
    by (simp add: unicodeBytes_ascii ascii_def gostr_def)
  have k: "length (utf16leBytes (gostr ''754'')) = 6"
    using ascii_runes [of "gostr ''754''"] go_runes_valid [of "gostr ''754''"]
    by (simp add: utf16leBytes_def ascii_def gostr_def ascii_utf16 utf16_encode_def rune_units_def)
  let ?fs = "[cfield CpicTagKernel (utf16leBytes (gostr ''754'')), cfield CpicTagFunction [83, 0, 84, 0, 70, 0, 67, 0],
      cfield CpicTagCallContext [], cfield CpicTagEnd []]"
  have enc: "EncodeCutFunctionRequest (call_input (gostr ''STFC'') [] []) =
      frame_chain cpicCutFunctionRequestPrefix CpicTagContextEnd ?fs 0x8500"
    by (simp add: EncodeCutFunctionRequest_def call_input_def default_release_def digits3_def gostr_def fail_if_def
        check_names_def rejectDuplicates_def u [unfolded gostr_def, simplified] checkedMaximumRfcPacketSize_def val_or_def Let_def)
  have len: "length (chain_layout CpicTagContextEnd ?fs) \<le> 100"
    by (simp add: field_record_def length_field_header_layout k)
  obtain b where b: "frame_chain cpicCutFunctionRequestPrefix CpicTagContextEnd ?fs 0x8500 = Inr b"
    using frame_chain_small [of ?fs CpicTagContextEnd cpicCutFunctionRequestPrefix "0x8500"] len k by auto
  then have "length b \<le> 28000"
    using len by (auto simp: frame_chain_def bindE_Inr_iff EncodeFieldChain_Inr FieldChainByteLength_Inr Let_def
        cpicCutFunctionRequestPrefix_def packetTrailer_def MaxApplicationDataFragmentLength_def)
  then show ?thesis using enc b by auto
qed

theorem call_roundtrip_witness:
  "\<exists>r c c'. session_Call transport_link (gostr ''STFC'') [] [] c = (Inr r, c') \<and> cr_Success r \<and>
     cr_Fields r = success_fields [] [cfield 0x0203 [65]] @ [cfield CpicTagEnd []] \<and> session_ready (cl_session c')"
proof -
  let ?p = "success_packet [] [cfield 0x0203 [65]]"
  define bs where "bs = [sample_reply FuncSapSend 0x0c ?p]"
  have small: "list_all (\<lambda>p. length p \<le> 1000000) bs"
    using sample_packet_length by (simp add: bs_def sample_reply_length)
  obtain request where "EncodeCutFunctionRequest (call_input (gostr ''STFC'') [] []) = Inr request" "length request \<le> 28000"
    using sample_request by blast
  then show ?thesis
    using call_roundtrip [of "sample_client_of bs" bs "[]" "[]" "gostr ''STFC''" "[]" "[]" request "[]" "[cfield 0x0203 [65]]"]
      sample_client_facts [OF small] sample_response sample_packet_length unfolding bs_def by auto
qed

theorem callbacks_served_witness:
  "\<exists>c c'. CallWithCallbacks transport_link (sample_body @ packetTrailer (length sample_body) 0x8500)
       (Some (\<lambda>d h. (Inr (sample_body @ packetTrailer (length sample_body) 1) :: unit + bytes, h + 1))) c (0::nat) =
     Some (result_of (success_packet [] [cfield 0x0203 [65]]), c', 1) \<and> session_ready (cl_session c')"
proof -
  let ?final = "success_packet [] [cfield 0x0203 [65]]" and ?cb = "[0x05, 0x02, 0, 0, 1] :: bytes"
  let ?r = "\<lambda>m. sample_body @ packetTrailer (length sample_body) m"
  let ?f = "\<lambda>(d::bytes) h. (Inr (?r 1) :: unit + bytes, h + (1::nat))"
  define bss where "bss = [[sample_reply FuncSapSend 0x0c ?cb], [sample_reply FuncSapSend 0x0c ?final]]"
  have small: "list_all (\<lambda>p. length p \<le> 1000000) (concat bss)"
    using sample_packet_length by (simp add: bss_def sample_reply_length)
  have req: "compact_request (?r m)" for m
    unfolding compact_request_def by (rule exI [of _ sample_body], rule exI [of _ m]) (simp add: sample_body_def)
  have "callbacks ?f 0 [?cb] [?r 1] 1"
    using cb_next [of ?cb ?f 0 "?r 1" 1 "[]" "[]" 1] req [of 1] cb_none [of ?f 1] by (simp add: isCallbackRequest_def)
  moreover have "\<not> isCallbackRequest ?final"
    by (simp add: isCallbackRequest_def success_packet_def response_packet_def cpicFunctionResponsePrefix_def)
  moreover have "list_all2 (message_records (cl_session (sample_client_of (concat bss)))) ([?cb] @ [?final]) bss"
    using sample_client_facts(4) [OF small] sample_packet_length by (simp add: bss_def)
  ultimately show ?thesis
    using callbacks_served [of "sample_client_of (concat bss)" "?r 0x8500" ?f 0 "[?cb]" "[?r 1]" 1 ?final bss "[]" "[]"]
      sample_client_facts(1-3) [OF small] req by auto
qed

end
