(* ===== verification/Go_Decimal.thy ===== *)
theory Go_Decimal
  imports Rfc_Prelude
begin

text \<open>
  Decimal text as Go's \<open>strconv\<close>, \<open>fmt\<close> and \<open>regexp\<close> read and write it: \<open>Itoa\<close>, \<open>Atoi\<close> on runs of digits, \<open>%0wd\<close>,
  and the anchored patterns made of fixed-width digit groups and literal characters. The lemmas show that the
  texts of a pattern are the renderings of the numbers that fit it.
\<close>

section \<open>Digits\<close>

definition digit_char :: "byte \<Rightarrow> bool" where
  "digit_char b \<longleftrightarrow> 0x30 \<le> b \<and> b \<le> 0x39"

fun decimal :: "nat \<Rightarrow> gostring" where
  "decimal n = (if n < 10 then [of_nat (48 + n)] else decimal (n div 10) @ [of_nat (48 + n mod 10)])"

declare decimal.simps [simp del]

definition zero_pad :: "nat \<Rightarrow> nat \<Rightarrow> gostring" where
  "zero_pad w n = replicate (w - length (decimal n)) 0x30 @ decimal n"

definition digits_value :: "gostring \<Rightarrow> nat" where
  "digits_value s = foldl (\<lambda>n b. n * 10 + (unat b - 48)) 0 s"

section \<open>Patterns\<close>

datatype piece = Digits nat | Mark byte

fun match_pieces :: "piece list \<Rightarrow> gostring \<Rightarrow> gostring list option" where
  "match_pieces [] s = (if s = [] then Some [] else None)"
| "match_pieces (Digits w # ps) s =
     (if w \<le> length s \<and> list_all digit_char (take w s)
      then map_option (\<lambda>gs. take w s # gs) (match_pieces ps (drop w s)) else None)"
| "match_pieces (Mark b # ps) s = (case s of [] \<Rightarrow> None | c # s' \<Rightarrow> if c = b then match_pieces ps s' else None)"

text \<open>The text of a pattern for given numbers, and the numbers that fit.\<close>

fun render :: "piece list \<Rightarrow> nat list \<Rightarrow> gostring" where
  "render [] ns = []"
| "render (Mark b # ps) ns = b # render ps ns"
| "render (Digits w # ps) [] = []"
| "render (Digits w # ps) (n # ns) = zero_pad w n @ render ps ns"

fun fits :: "piece list \<Rightarrow> nat list \<Rightarrow> bool" where
  "fits [] ns \<longleftrightarrow> ns = []"
| "fits (Mark b # ps) ns \<longleftrightarrow> fits ps ns"
| "fits (Digits w # ps) [] \<longleftrightarrow> False"
| "fits (Digits w # ps) (n # ns) \<longleftrightarrow> n < 10 ^ w \<and> fits ps ns"

fun wide :: "piece list \<Rightarrow> bool" where
  "wide [] \<longleftrightarrow> True"
| "wide (Mark b # ps) \<longleftrightarrow> wide ps"
| "wide (Digits w # ps) \<longleftrightarrow> 0 < w \<and> wide ps"

section \<open>Decimal numbers\<close>

text \<open>
  The pattern \<open>^([+-]?)(?:(\d+)(?:\.(\d*))?|\.(\d+))(?:[eE]([+-]?\d+))?$\<close>. Each run of digits is maximal, since what follows
  it is never a digit; a group that takes no part in the match is empty.
\<close>

definition sign_char :: "byte \<Rightarrow> bool" where
  "sign_char b \<longleftrightarrow> b = 0x2b \<or> b = 0x2d"

definition split_sign :: "gostring \<Rightarrow> gostring \<times> gostring" where
  "split_sign s = (if s \<noteq> [] \<and> sign_char (hd s) then ([hd s], tl s) else ([], s))"

definition match_exponent :: "gostring \<Rightarrow> gostring option" where
  "match_exponent s =
     (if s = [] then Some []
      else if hd s = 0x65 \<or> hd s = 0x45 then
        (case split_sign (tl s) of (m, d) \<Rightarrow> if d \<noteq> [] \<and> list_all digit_char d then Some (m @ d) else None)
      else None)"

definition match_decimal :: "gostring \<Rightarrow> (gostring \<times> gostring \<times> gostring \<times> gostring \<times> gostring) option" where
  "match_decimal s =
     (case split_sign s of (m1, r) \<Rightarrow>
      let m2 = takeWhile digit_char r; r1 = dropWhile digit_char r;
          run = takeWhile digit_char (tl r1); r2 = dropWhile digit_char (tl r1) in
      if m2 \<noteq> [] then
        (if r1 \<noteq> [] \<and> hd r1 = 0x2e then map_option (\<lambda>m5. (m1, m2, run, [], m5)) (match_exponent r2)
         else map_option (\<lambda>m5. (m1, m2, [], [], m5)) (match_exponent r1))
      else if r1 \<noteq> [] \<and> hd r1 = 0x2e \<and> run \<noteq> [] then map_option (\<lambda>m5. (m1, [], [], run, m5)) (match_exponent r2)
      else None)"

text \<open>\<open>strconv.Atoi\<close> on an optional sign and digits: the value, or no value outside the 64 bits of an \<open>int\<close>; and wrap-around.\<close>

definition signed_value :: "gostring \<Rightarrow> int" where
  "signed_value s = (case split_sign s of (m, d) \<Rightarrow> if m = [0x2d] then - int (digits_value d) else int (digits_value d))"

definition go_Atoi :: "gostring \<Rightarrow> int option" where
  "go_Atoi s = (let v = signed_value s in if - (2 ^ 63) \<le> v \<and> v < 2 ^ 63 then Some v else None)"

definition wrap64 :: "int \<Rightarrow> int" where
  "wrap64 v = sint (word_of_int v :: 64 word)"

section \<open>Lemmas on digits\<close>

fun fixed_digits :: "nat \<Rightarrow> nat \<Rightarrow> gostring" where
  "fixed_digits 0 n = []"
| "fixed_digits (Suc w) n = fixed_digits w (n div 10) @ [of_nat (48 + n mod 10)]"

lemma length_fixed_digits [simp]: "length (fixed_digits w n) = w"
  by (induction w arbitrary: n) simp_all

lemma fixed_digits_zero: "fixed_digits w 0 = replicate w 0x30"
proof (induction w)
  case (Suc w)
  then show ?case by (simp add: replicate_append_same [symmetric] del: replicate_append_same)
qed simp

lemma digit_byte_unat: "d < 10 \<Longrightarrow> unat (of_nat (48 + d) :: byte) = 48 + d"
  by (subst unat_of_nat) simp

lemma digit_char_of: "d < 10 \<Longrightarrow> digit_char (of_nat (48 + d))"
  unfolding digit_char_def word_le_nat_alt by (simp add: digit_byte_unat del: of_nat_add)

lemma fixed_digits_chars: "list_all digit_char (fixed_digits w n)"
proof (induction w arbitrary: n)
  case (Suc w)
  then show ?case using digit_char_of [of "n mod 10"] by simp
qed simp

lemma digits_value_snoc: "digits_value (s @ [b]) = digits_value s * 10 + (unat b - 48)"
  by (simp add: digits_value_def)

lemma fixed_digits_value: "n < 10 ^ w \<Longrightarrow> digits_value (fixed_digits w n) = n"
proof (induction w arbitrary: n)
  case (Suc w)
  have "n div 10 < 10 ^ w" using Suc.prems by (simp add: less_mult_imp_div_less mult.commute)
  then show ?case using Suc.IH [of "n div 10"] digit_byte_unat [of "n mod 10"] by (simp add: digits_value_snoc del: of_nat_add)
qed (simp add: digits_value_def)

lemma fixed_digits_of_value:
  "list_all digit_char s \<Longrightarrow> digits_value s < 10 ^ length s \<and> fixed_digits (length s) (digits_value s) = s"
proof (induction s rule: rev_induct)
  case (snoc b s)
  define d where "d = unat b - 48"
  have b: "48 \<le> unat b" "unat b \<le> 57" using snoc.prems by (simp_all add: digit_char_def word_le_nat_alt)
  then have d: "d < 10" "48 + d = unat b" by (simp_all add: d_def)
  then have "of_nat (48 + d) = b" by simp
  then show ?case using snoc d(1) by (simp add: digits_value_snoc d_def [symmetric] del: of_nat_add)
qed (simp add: digits_value_def)

lemma length_decimal: "0 < w \<Longrightarrow> n < 10 ^ w \<Longrightarrow> length (decimal n) \<le> w"
proof (induction w arbitrary: n)
  case (Suc w)
  show ?case
  proof (cases "n < 10")
    case False
    have "n div 10 < 10 ^ w" using Suc.prems by (simp add: less_mult_imp_div_less mult.commute)
    moreover have "0 < w" using False Suc.prems(2) by (cases w) simp_all
    ultimately show ?thesis using Suc.IH [of "n div 10"] False by (simp add: decimal.simps [of n])
  qed (simp add: decimal.simps)
qed simp

lemma decimal_digits_value: "digits_value (decimal n) = n" "list_all digit_char (decimal n)" "decimal n \<noteq> []"
proof -
  have "digits_value (decimal n) = n \<and> list_all digit_char (decimal n) \<and> decimal n \<noteq> []"
  proof (induction n rule: decimal.induct)
    case (1 n)
    show ?case
    proof (cases "n < 10")
      case True
      then show ?thesis
        using digit_byte_unat [of n] digit_char_of [of n] by (simp add: decimal.simps [of n] digits_value_def del: of_nat_add)
    next
      case False
      then show ?thesis
        using 1 digit_byte_unat [of "n mod 10"] digit_char_of [of "n mod 10"]
        by (simp add: decimal.simps [of n] digits_value_snoc del: of_nat_add)
    qed
  qed
  then show "digits_value (decimal n) = n" "list_all digit_char (decimal n)" "decimal n \<noteq> []" by blast+
qed

lemma zero_pad_fixed: "0 < w \<Longrightarrow> n < 10 ^ w \<Longrightarrow> zero_pad w n = fixed_digits w n"
proof (induction w arbitrary: n)
  case (Suc w)
  show ?case
  proof (cases "n < 10")
    case True
    then show ?thesis
      using fixed_digits_zero [of w] by (simp add: zero_pad_def decimal.simps [of n])
  next
    case False
    have n: "n div 10 < 10 ^ w" using Suc.prems by (simp add: less_mult_imp_div_less mult.commute)
    moreover have w: "0 < w" using False Suc.prems(2) by (cases w) simp_all
    ultimately have "zero_pad w (n div 10) = fixed_digits w (n div 10)" by (intro Suc.IH)
    then show ?thesis using False length_decimal [OF w n] by (simp add: zero_pad_def decimal.simps [of n])
  qed
qed simp

lemma zero_pad_facts:
  assumes "0 < w" "n < 10 ^ w"
  shows "length (zero_pad w n) = w" "list_all digit_char (zero_pad w n)" "digits_value (zero_pad w n) = n"
  using assms by (simp_all add: zero_pad_fixed fixed_digits_chars fixed_digits_value)

lemma zero_pad_value:
  assumes "list_all digit_char s" "length s = w" "0 < w"
  shows "digits_value s < 10 ^ w" "zero_pad w (digits_value s) = s"
  using fixed_digits_of_value [OF assms(1)] assms by (auto simp: zero_pad_fixed)

section \<open>Lemmas on patterns\<close>

lemma match_render:
  "wide ps \<Longrightarrow> fits ps ns \<Longrightarrow> \<exists>gs. match_pieces ps (render ps ns) = Some gs \<and> map digits_value gs = ns"
  by (induction ps ns rule: fits.induct) (auto simp: zero_pad_facts)

lemma match_exact:
  "wide ps \<Longrightarrow> match_pieces ps s = Some gs \<Longrightarrow> fits ps (map digits_value gs) \<and> render ps (map digits_value gs) = s"
proof (induction ps s arbitrary: gs rule: match_pieces.induct)
  case (2 w ps s)
  from "2.prems" obtain hs where c: "w \<le> length s" "list_all digit_char (take w s)" "match_pieces ps (drop w s) = Some hs"
    and gs: "gs = take w s # hs" by (auto split: if_splits)
  have "fits ps (map digits_value hs) \<and> render ps (map digits_value hs) = drop w s" using "2.IH" c "2.prems"(1) by simp
  then show ?case using zero_pad_value [of "take w s" w] c "2.prems"(1) by (simp add: gs)
qed (auto split: list.splits if_splits)

lemma length_match: "match_pieces ps s = Some gs \<Longrightarrow> length gs = length (filter (\<lambda>p. case p of Digits _ \<Rightarrow> True | _ \<Rightarrow> False) ps)"
  by (induction ps s arbitrary: gs rule: match_pieces.induct) (auto split: list.splits if_splits)

lemma divmod_unique: "(s :: nat) < k \<Longrightarrow> (q * k + s) div k = q \<and> (q * k + s) mod k = s"
  by simp

end
