(* ===== verification/Saprouter.thy ===== *)
theory Saprouter
  imports Rfc_Prelude Go_Decimal
begin

text \<open>
  Package \<open>saprouter\<close> (\<open>internal/saprouter/saprouter.go\<close>): the admission of route strings, the route request and its
  response, and the handshake over a connection. A nil route and the zero \<open>Route\<close> have no hops. The lemmas show that admission accepts
  exactly the rendered well-formed routes, that no public view depends on a password, and what the request and the handshake do.
\<close>

section \<open>Data\<close>

definition MaxRouteBytes :: nat where "MaxRouteBytes = 2048"
definition MaxRouteHops :: nat where "MaxRouteHops = 255"
definition MaxResponsePayloadBytes :: nat where "MaxResponsePayloadBytes = 2 ^ 20"
definition RouteHeaderLength :: nat where "RouteHeaderLength = 0x18"
definition RouteInformationVersion :: byte where "RouteInformationVersion = 2"
definition DefaultNIVersion :: int where "DefaultNIVersion = 40"
definition DefaultService :: gostring where "DefaultService = gostr ''3299''"

definition routeEyecatcher :: bytes where "routeEyecatcher = gostr ''NI_ROUTE'' @ [0]"
definition pong :: bytes where "pong = gostr ''NI_PONG'' @ [0]"
definition errEyecatcher :: bytes where "errEyecatcher = gostr ''NI_RTERR'' @ [0]"
definition redacted :: gostring where "redacted = gostr ''[REDACTED]''"
definition routePrefixSentinelHost :: gostring where "routePrefixSentinelHost = gostr ''open-rfc-target.invalid''"
definition routePrefixSentinelPort :: gostring where "routePrefixSentinelPort = gostr ''65535''"

datatype router_error = ErrInvalidRoute | ErrInvalidResponse | ErrRouterRange

record internal_hop =
  ih_host :: gostring
  ih_service :: gostring
  ih_password :: gostring

record hop =
  hp_Host :: gostring
  hp_Service :: gostring
  hp_UsesDefaultService :: bool
  hp_PasswordProtected :: bool

record first_hop =
  fp_Host :: gostring
  fp_Service :: gostring
  fp_UsesDefaultService :: bool

record route =
  rt_HopCount :: nat
  rt_ByteLength :: nat
  rt_FirstHop :: first_hop
  rt_Hops :: "hop list"
  rt_RedactedRouteString :: gostring
  rt_hops :: "internal_hop list"

definition hop_byteLength :: "internal_hop \<Rightarrow> nat" where
  "hop_byteLength h = length (ih_host h) + 1 + length (ih_service h) + 1 + length (ih_password h) + 1"

section \<open>Admission\<close>

definition alnum :: "byte \<Rightarrow> bool" where
  "alnum b \<longleftrightarrow> 0x41 \<le> b \<and> b \<le> 0x5a \<or> 0x61 \<le> b \<and> b \<le> 0x7a \<or> 0x30 \<le> b \<and> b \<le> 0x39"

text \<open>The patterns: \<open>[A-Za-z0-9_.:%\[\]-]+\<close>, \<open>[A-Za-z0-9_.-]+\<close> and \<open>[\x20-\x2e\x30-\x7e]+\<close>.\<close>

definition hostPattern :: "gostring \<Rightarrow> bool" where
  "hostPattern s \<longleftrightarrow> s \<noteq> [] \<and> list_all (\<lambda>b. alnum b \<or> b \<in> set [0x5f, 0x2e, 0x3a, 0x25, 0x5b, 0x5d, 0x2d]) s"

definition serviceNamePattern :: "gostring \<Rightarrow> bool" where
  "serviceNamePattern s \<longleftrightarrow> s \<noteq> [] \<and> list_all (\<lambda>b. alnum b \<or> b \<in> set [0x5f, 0x2e, 0x2d]) s"

definition passwordPattern :: "gostring \<Rightarrow> bool" where
  "passwordPattern s \<longleftrightarrow> s \<noteq> [] \<and> list_all (\<lambda>b. 0x20 \<le> b \<and> b \<le> 0x2e \<or> 0x30 \<le> b \<and> b \<le> 0x7e) s"

datatype field_kind = KindHost | KindService | KindPassword

definition routeField :: "gostring \<Rightarrow> field_kind \<Rightarrow> router_error + gostring" where
  "routeField v kind =
     (if v = [] then Inl ErrInvalidRoute
      else case kind of
        KindHost \<Rightarrow> if length v < 2 \<or> length v > 255 \<or> \<not> hostPattern v then Inl ErrInvalidRoute else Inr v
      | KindService \<Rightarrow> if length v > 63 \<or> \<not> serviceNamePattern v then Inl ErrInvalidRoute else Inr v
      | KindPassword \<Rightarrow> if length v > 255 \<or> \<not> passwordPattern v then Inl ErrInvalidRoute else Inr v)"

text \<open>\<open>strings.Split(s, "/")\<close>.\<close>

fun split_slash :: "gostring \<Rightarrow> gostring list" where
  "split_slash [] = [[]]"
| "split_slash (b # r) =
     (if b = 0x2f then [] # split_slash r
      else case split_slash r of p # ps \<Rightarrow> (b # p) # ps | [] \<Rightarrow> [[b]])"

definition redactedRoute :: "internal_hop list \<Rightarrow> gostring" where
  "redactedRoute hops = concat (map (\<lambda>h. gostr ''/H/'' @ ih_host h @
     (if ih_service h \<noteq> [] then gostr ''/S/'' @ ih_service h else []) @
     (if ih_password h \<noteq> [] then gostr ''/W/'' @ redacted else [])) hops)"

text \<open>The inner loop: the options of a hop, and the parts from the next hop on.\<close>

fun hop_options :: "gostring list \<Rightarrow> gostring \<Rightarrow> gostring \<Rightarrow> bool \<Rightarrow> router_error + gostring \<times> gostring \<times> gostring list" where
  "hop_options [] service password passwordSeen = Inr (service, password, [])"
| "hop_options (token # ps) service password passwordSeen =
     (if token = gostr ''H'' then Inr (service, password, token # ps)
      else case ps of
        [] \<Rightarrow> Inl ErrInvalidRoute
      | rawValue # rest \<Rightarrow>
          if token = gostr ''S'' then
            (if service \<noteq> [] \<or> passwordSeen then Inl ErrInvalidRoute
             else bindE (routeField rawValue KindService) (\<lambda>v. hop_options rest v password passwordSeen))
          else if token = gostr ''W'' then
            (if passwordSeen then Inl ErrInvalidRoute
             else bindE (routeField rawValue KindPassword) (\<lambda>v. hop_options rest service v True))
          else Inl ErrInvalidRoute)"

lemma hop_options_length: "hop_options ps s w b = Inr (s', w', rest) \<Longrightarrow> length rest \<le> length ps"
  by (induction ps s w b rule: hop_options.induct) (force simp: bindE_Inr_iff split: if_splits list.splits)+

function admit_hops :: "gostring list \<Rightarrow> internal_hop list \<Rightarrow> router_error + internal_hop list" where
  "admit_hops parts hops =
     (case parts of
        [] \<Rightarrow> Inr hops
      | [token] \<Rightarrow> Inl ErrInvalidRoute
      | token # raw # rest \<Rightarrow>
          if token \<noteq> gostr ''H'' then Inl ErrInvalidRoute
          else case routeField raw KindHost of
            Inl e \<Rightarrow> Inl e
          | Inr host \<Rightarrow>
              (case hop_options rest [] [] False of
                 Inl e \<Rightarrow> Inl e
               | Inr (service, password, rest') \<Rightarrow>
                   let hops' = hops @ [\<lparr>ih_host = host, ih_service = service, ih_password = password\<rparr>] in
                   if length hops' > MaxRouteHops then Inl ErrInvalidRoute else admit_hops rest' hops'))"
  by pat_completeness auto
termination
  by (relation "measure (\<lambda>(parts, hops). length parts)") (auto dest!: hop_options_length)

declare admit_hops.simps [simp del]

definition serviceOrDefault :: "gostring \<Rightarrow> gostring" where
  "serviceOrDefault service = (if service = [] then DefaultService else service)"

definition public_hop :: "internal_hop \<Rightarrow> hop" where
  "public_hop h = \<lparr>hp_Host = ih_host h, hp_Service = serviceOrDefault (ih_service h),
     hp_UsesDefaultService = (ih_service h = []), hp_PasswordProtected = (ih_password h \<noteq> [])\<rparr>"

definition route_of :: "internal_hop list \<Rightarrow> route" where
  "route_of hops =
     \<lparr>rt_HopCount = length hops, rt_ByteLength = sum_list (map hop_byteLength hops),
      rt_FirstHop = \<lparr>fp_Host = ih_host (hd hops), fp_Service = serviceOrDefault (ih_service (hd hops)),
        fp_UsesDefaultService = (ih_service (hd hops) = [])\<rparr>,
      rt_Hops = map public_hop hops, rt_RedactedRouteString = redactedRoute hops, rt_hops = hops\<rparr>"

definition Admit :: "gostring \<Rightarrow> router_error + route" where
  "Admit input =
     bindE (fail_if (length input > MaxRouteBytes \<or> input = [] \<or> \<not> printable input) ErrInvalidRoute) (\<lambda>_.
     let parts = split_slash input in
     bindE (fail_if (length parts < 5 \<or> hd parts \<noteq> []) ErrInvalidRoute) (\<lambda>_.
     bindE (admit_hops (drop 1 parts) []) (\<lambda>hops.
     bindE (fail_if (length hops < 2 \<or> ih_password (last hops) \<noteq> []) ErrInvalidRoute) (\<lambda>_.
     bindE (fail_if (sum_list (map hop_byteLength hops) > MaxRouteBytes) ErrInvalidRoute) (\<lambda>_.
     Inr (route_of hops))))))"

definition AssertRoutePrefix :: "gostring \<Rightarrow> router_error + unit" where
  "AssertRoutePrefix input =
     bindE (fail_if (length input < 3 \<or> drop (length input - 3) input \<noteq> gostr ''/H/'' \<or> length input > MaxRouteBytes \<or>
       \<not> printable input) ErrInvalidRoute) (\<lambda>_.
     bindE (Admit (input @ routePrefixSentinelHost @ gostr ''/S/'' @ routePrefixSentinelPort)) (\<lambda>_. Inr ()))"

definition CompleteRoute :: "gostring \<Rightarrow> gostring \<Rightarrow> int \<Rightarrow> router_error + route" where
  "CompleteRoute pre gatewayHost gatewayPort =
     bindE (AssertRoutePrefix pre) (\<lambda>_.
     bindE (routeField gatewayHost KindHost) (\<lambda>host.
     bindE (fail_if (gatewayPort < 1 \<or> gatewayPort > 0xffff) ErrInvalidRoute) (\<lambda>_.
     Admit (pre @ host @ gostr ''/S/'' @ decimal (nat gatewayPort)))))"

section \<open>The request and the response\<close>

fun copy_hops :: "internal_hop list \<Rightarrow> nat \<Rightarrow> bytes \<Rightarrow> nat \<times> bytes" where
  "copy_hops [] offset payload = (offset, payload)"
| "copy_hops (h # hs) offset payload =
     (let field = (\<lambda>(o', p) f. (o' + length f + 1, copy_at (o' + length f) [0] (copy_at o' f p)));
          (offset', payload') = field (field (field (offset, payload) (ih_host h)) (ih_service h)) (ih_password h)
      in copy_hops hs offset' payload')"

definition request_header :: "route \<Rightarrow> int \<Rightarrow> bytes" where
  "request_header r v =
     (let n = length (rt_hops r) in
      routeEyecatcher @ [RouteInformationVersion, of_int v, of_nat n, 0] @ put16be 0 @ [of_nat (n - 1)] @
        put32be (of_nat (rt_ByteLength r)) @ put32be (of_nat (hop_byteLength (hd (rt_hops r)))))"

definition EncodeRouteRequestPayload :: "route \<Rightarrow> int \<Rightarrow> router_error + bytes" where
  "EncodeRouteRequestPayload r niVersion =
     bindE (fail_if (rt_hops r = []) ErrInvalidRoute) (\<lambda>_.
     let v = (if niVersion = 0 then DefaultNIVersion else niVersion) in
     bindE (fail_if (v < 1 \<or> v > 255) ErrRouterRange) (\<lambda>_.
     let payload = copy_at 0 (request_header r v) (replicate (RouteHeaderLength + rt_ByteLength r) 0);
         (offset, payload') = copy_hops (rt_hops r) RouteHeaderLength payload in
     bindE (fail_if (offset \<noteq> length payload') ErrInvalidRoute) (\<lambda>_.
     Inr payload')))"

datatype response_kind = RouteAccepted | RouteRejected

record route_response =
  rp_Kind :: response_kind
  rp_NIVersion :: nat
  rp_ReturnCode :: int
  rp_ErrorTextByteLength :: u32

definition decode_route_error :: "bytes \<Rightarrow> router_error + route_response" where
  "decode_route_error input =
     bindE (fail_if (take (length errEyecatcher) input \<noteq> errEyecatcher) ErrInvalidResponse) (\<lambda>_.
     bindE (fail_if (length input < 20) ErrInvalidResponse) (\<lambda>_.
     let niVersion = unat (input ! 9); returnCode = sint (get32be (drop 12 input)); textLength = get32be (drop 16 input);
         documentedLength = 20 + unat textLength; modernLength = documentedLength + 4 in
     bindE (fail_if (niVersion = 0 \<or> input ! 10 \<noteq> 0 \<or> input ! 11 \<noteq> 0 \<or> returnCode \<ge> 0) ErrInvalidResponse) (\<lambda>_.
     bindE (fail_if (length input \<noteq> documentedLength \<and> length input \<noteq> modernLength) ErrInvalidResponse) (\<lambda>_.
     bindE (fail_if (length input = modernLength \<and> get32be (drop documentedLength input) \<noteq> 0) ErrInvalidResponse) (\<lambda>_.
     Inr \<lparr>rp_Kind = RouteRejected, rp_NIVersion = niVersion, rp_ReturnCode = returnCode, rp_ErrorTextByteLength = textLength\<rparr>)))))"

definition DecodeRouteResponse :: "bytes \<Rightarrow> router_error + route_response" where
  "DecodeRouteResponse input =
     (if length input > MaxResponsePayloadBytes then Inl ErrInvalidResponse
      else if input = pong then Inr \<lparr>rp_Kind = RouteAccepted, rp_NIVersion = 0, rp_ReturnCode = 0, rp_ErrorTextByteLength = 0\<rparr>
      else decode_route_error input)"

section \<open>The handshake\<close>

text \<open>A connection as \<open>io.Writer\<close> and \<open>io.ReadFull\<close> see it: the bytes still to come before it ends, and the bytes written.\<close>

record stream =
  sx_in :: bytes
  sx_out :: bytes
  sx_writable :: bool

definition sx_write :: "bytes \<Rightarrow> stream \<Rightarrow> (router_error + unit) \<times> stream" where
  "sx_write b s = (if sx_writable s then (Inr (), s\<lparr>sx_out := sx_out s @ b\<rparr>) else (Inl ErrInvalidResponse, s))"

definition sx_readFull :: "nat \<Rightarrow> stream \<Rightarrow> (router_error + bytes) \<times> stream" where
  "sx_readFull n s =
     (if length (sx_in s) < n then (Inl ErrInvalidResponse, s\<lparr>sx_in := []\<rparr>)
      else (Inr (take n (sx_in s)), s\<lparr>sx_in := drop n (sx_in s)\<rparr>))"

definition PerformRoute :: "route \<Rightarrow> int \<Rightarrow> stream \<Rightarrow> (router_error + unit) \<times> stream" where
  "PerformRoute r niVersion =
     sm_bind (sm_lift (EncodeRouteRequestPayload r niVersion)) (\<lambda>payload.
     sm_bind (sx_write (put32be (of_nat (length payload)) @ payload)) (\<lambda>_.
     sm_bind (sx_readFull 4) (\<lambda>lengthPrefix.
     sm_bind (sm_lift (fail_if (unat (get32be lengthPrefix) > MaxResponsePayloadBytes) ErrInvalidResponse)) (\<lambda>_.
     sm_bind (sx_readFull (unat (get32be lengthPrefix))) (\<lambda>response.
     sm_bind (sm_lift (DecodeRouteResponse response)) (\<lambda>decoded.
     sm_lift (fail_if (rp_Kind decoded \<noteq> RouteAccepted) ErrInvalidRoute)))))))"

section \<open>Well-formed routes\<close>

definition hop_ok :: "internal_hop \<Rightarrow> bool" where
  "hop_ok h \<longleftrightarrow> 2 \<le> length (ih_host h) \<and> length (ih_host h) \<le> 255 \<and> hostPattern (ih_host h) \<and>
     (ih_service h = [] \<or> length (ih_service h) \<le> 63 \<and> serviceNamePattern (ih_service h)) \<and>
     (ih_password h = [] \<or> length (ih_password h) \<le> 255 \<and> passwordPattern (ih_password h))"

definition hop_parts :: "internal_hop \<Rightarrow> gostring list" where
  "hop_parts h = [gostr ''H'', ih_host h] @ (if ih_service h = [] then [] else [gostr ''S'', ih_service h]) @
     (if ih_password h = [] then [] else [gostr ''W'', ih_password h])"

text \<open>The canonical string of a route.\<close>

definition route_string :: "internal_hop list \<Rightarrow> gostring" where
  "route_string hops = concat (map (Cons 0x2f) (concat (map hop_parts hops)))"

definition route_ok :: "internal_hop list \<Rightarrow> bool" where
  "route_ok hops \<longleftrightarrow> 2 \<le> length hops \<and> length hops \<le> MaxRouteHops \<and> list_all hop_ok hops \<and> ih_password (last hops) = [] \<and>
     length (route_string hops) \<le> MaxRouteBytes"

lemma tokens: "gostr ''H'' \<noteq> gostr ''S''" "gostr ''H'' \<noteq> gostr ''W''" "gostr ''S'' \<noteq> gostr ''W''"
  "gostr ''S'' \<noteq> gostr ''H''" "gostr ''W'' \<noteq> gostr ''H''" "gostr ''W'' \<noteq> gostr ''S''"
  by (simp_all add: gostr_def)

lemma routeField_Inr:
  "routeField v KindHost = Inr x \<longleftrightarrow> x = v \<and> 2 \<le> length v \<and> length v \<le> 255 \<and> hostPattern v"
  "routeField v KindService = Inr x \<longleftrightarrow> x = v \<and> length v \<le> 63 \<and> serviceNamePattern v"
  "routeField v KindPassword = Inr x \<longleftrightarrow> x = v \<and> length v \<le> 255 \<and> passwordPattern v"
  by (auto simp: routeField_def hostPattern_def serviceNamePattern_def passwordPattern_def)

lemma patterns_nonempty [simp]: "\<not> serviceNamePattern []" "\<not> passwordPattern []"
  by (auto simp: serviceNamePattern_def passwordPattern_def)

text \<open>The parts from the next hop on.\<close>

definition at_hop :: "gostring list \<Rightarrow> bool" where
  "at_hop ps \<longleftrightarrow> ps = [] \<or> hd ps = gostr ''H''"

lemma hop_options_seen:
  "hop_options ps s w True = Inr (s', w', rest) \<longleftrightarrow> s' = s \<and> w' = w \<and> rest = ps \<and> at_hop ps"
  by (cases ps) (auto simp: at_hop_def tokens split: list.splits)

lemma hop_options_password:
  "serviceNamePattern s \<Longrightarrow> hop_options ps s [] False = Inr (s', w', rest) \<longleftrightarrow> s' = s \<and> at_hop rest \<and>
     (w' = [] \<and> ps = rest \<or> length w' \<le> 255 \<and> passwordPattern w' \<and> ps = gostr ''W'' # w' # rest)"
  by (cases ps; cases "s = []") (auto simp: at_hop_def tokens bindE_Inr_iff routeField_Inr hop_options_seen split: list.splits)

lemma hop_options_start:
  "hop_options ps [] [] False = Inr (s, w, rest) \<longleftrightarrow> at_hop rest \<and>
     (s = [] \<or> length s \<le> 63 \<and> serviceNamePattern s) \<and> (w = [] \<or> length w \<le> 255 \<and> passwordPattern w) \<and>
     ps = (if s = [] then [] else [gostr ''S'', s]) @ (if w = [] then [] else [gostr ''W'', w]) @ rest"
proof (cases ps)
  case Nil
  then show ?thesis by (auto simp: at_hop_def)
next
  case (Cons t ps1)
  consider "t = gostr ''H''" | "t = gostr ''S''" | "t = gostr ''W''" | "t \<noteq> gostr ''H''" "t \<noteq> gostr ''S''" "t \<noteq> gostr ''W''" by blast
  then show ?thesis
  proof cases
    case 1
    then show ?thesis using Cons tokens by (auto simp: at_hop_def)
  next
    case 2
    then show ?thesis
      using Cons tokens
      by (cases ps1) (auto simp: bindE_Inr_iff routeField_Inr hop_options_password hop_options_seen at_hop_def)
  next
    case 3
    then show ?thesis
      using Cons tokens
      by (cases ps1) (auto simp: bindE_Inr_iff routeField_Inr hop_options_seen at_hop_def)
  next
    case 4
    then show ?thesis using Cons by (auto simp: at_hop_def split: list.splits)
  qed
qed

lemma hop_options_hop:
  "hop_options ps [] [] False = Inr (s, w, rest) \<and> routeField raw KindHost = Inr host \<longleftrightarrow>
     at_hop rest \<and> host = raw \<and> hop_ok \<lparr>ih_host = raw, ih_service = s, ih_password = w\<rparr> \<and>
     gostr ''H'' # raw # ps = hop_parts \<lparr>ih_host = raw, ih_service = s, ih_password = w\<rparr> @ rest"
  by (auto simp: hop_options_start routeField_Inr hop_ok_def hop_parts_def)

lemma at_hop_parts: "at_hop (concat (map hop_parts hs))"
  by (cases hs) (simp_all add: at_hop_def hop_parts_def)

lemma admit_hops_step:
  "admit_hops (gostr ''H'' # raw # ps) hops = Inr out \<longleftrightarrow>
     (\<exists>s w rest. at_hop rest \<and> hop_ok \<lparr>ih_host = raw, ih_service = s, ih_password = w\<rparr> \<and>
        gostr ''H'' # raw # ps = hop_parts \<lparr>ih_host = raw, ih_service = s, ih_password = w\<rparr> @ rest \<and>
        length hops < MaxRouteHops \<and> admit_hops rest (hops @ [\<lparr>ih_host = raw, ih_service = s, ih_password = w\<rparr>]) = Inr out)"
  (is "?L \<longleftrightarrow> ?R")
proof
  assume ?L
  then obtain host s w rest where h: "routeField raw KindHost = Inr host" "hop_options ps [] [] False = Inr (s, w, rest)"
    and a: "length hops < MaxRouteHops" "admit_hops rest (hops @ [\<lparr>ih_host = host, ih_service = s, ih_password = w\<rparr>]) = Inr out"
    by (subst (asm) admit_hops.simps) (auto simp: Let_def not_less Suc_le_eq split: sum.splits if_splits)
  from h hop_options_hop [of ps s w rest raw host] a show ?R by auto
next
  assume ?R
  then obtain s w rest where r: "at_hop rest" "hop_ok \<lparr>ih_host = raw, ih_service = s, ih_password = w\<rparr>"
    "gostr ''H'' # raw # ps = hop_parts \<lparr>ih_host = raw, ih_service = s, ih_password = w\<rparr> @ rest"
    "length hops < MaxRouteHops" "admit_hops rest (hops @ [\<lparr>ih_host = raw, ih_service = s, ih_password = w\<rparr>]) = Inr out"
    by blast
  then have "hop_options ps [] [] False = Inr (s, w, rest)" "routeField raw KindHost = Inr raw"
    using hop_options_hop [of ps s w rest raw raw] by blast+
  then show ?L using r(4,5) by (subst admit_hops.simps) (simp add: Let_def)
qed

lemma admit_hops_refused:
  "parts \<noteq> [] \<Longrightarrow> \<not> (\<exists>raw ps. parts = gostr ''H'' # raw # ps) \<Longrightarrow> \<exists>e. admit_hops parts hops = Inl e"
  by (subst admit_hops.simps) (auto split: list.splits)

lemma admit_hops_sound:
  "admit_hops parts hops = Inr out \<Longrightarrow> \<exists>hs. out = hops @ hs \<and> parts = concat (map hop_parts hs) \<and> list_all hop_ok hs \<and>
     (hs = [] \<or> length hops + length hs \<le> MaxRouteHops)"
proof (induction "length parts" arbitrary: parts hops rule: less_induct)
  case less
  show ?case
  proof (cases "parts = []")
    case True
    then show ?thesis using less.prems by (intro exI [of _ "[]"]) (simp add: admit_hops.simps)
  next
    case False
    then obtain raw ps where p: "parts = gostr ''H'' # raw # ps"
      using less.prems admit_hops_refused [of parts hops] by auto
    then obtain s w rest where r: "hop_ok \<lparr>ih_host = raw, ih_service = s, ih_password = w\<rparr>"
      "parts = hop_parts \<lparr>ih_host = raw, ih_service = s, ih_password = w\<rparr> @ rest" "length hops < MaxRouteHops"
      "admit_hops rest (hops @ [\<lparr>ih_host = raw, ih_service = s, ih_password = w\<rparr>]) = Inr out"
      using less.prems admit_hops_step [of raw ps hops out] by auto
    let ?h = "\<lparr>ih_host = raw, ih_service = s, ih_password = w\<rparr>"
    have "length rest < length parts" unfolding r(2) by (simp add: hop_parts_def)
    from less.hyps [OF this r(4)] obtain hs where "out = (hops @ [?h]) @ hs" "rest = concat (map hop_parts hs)" "list_all hop_ok hs"
      "hs = [] \<or> length (hops @ [?h]) + length hs \<le> MaxRouteHops" by blast
    then show ?thesis using r(1-3) by (intro exI [of _ "?h # hs"]) auto
  qed
qed

lemma admit_hops_complete:
  "list_all hop_ok hs \<Longrightarrow> length hops + length hs \<le> MaxRouteHops \<Longrightarrow> admit_hops (concat (map hop_parts hs)) hops = Inr (hops @ hs)"
proof (induction hs arbitrary: hops)
  case Nil
  show ?case by (simp add: admit_hops.simps)
next
  case (Cons h hs)
  obtain ps where ps: "hop_parts h = gostr ''H'' # ih_host h # ps" by (simp add: hop_parts_def)
  have "admit_hops (gostr ''H'' # ih_host h # ps @ concat (map hop_parts hs)) hops = Inr (hops @ h # hs)"
    unfolding admit_hops_step using Cons ps at_hop_parts [of hs]
    by (rule_tac x = "ih_service h" in exI, rule_tac x = "ih_password h" in exI, rule_tac x = "concat (map hop_parts hs)" in exI)
      (cases h, simp)
  then show ?case using ps by simp
qed

section \<open>Strings\<close>

lemma split_join:
  "list_all (\<lambda>p. 0x2f \<notin> set p) (q # ps) \<Longrightarrow> split_slash (q @ concat (map (Cons 0x2f) ps)) = q # ps"
proof (induction ps arbitrary: q)
  case Nil
  then show ?case by (induction q) auto
next
  case (Cons p ps)
  have "split_slash (q @ 0x2f # p @ concat (map (Cons 0x2f) ps)) = q # split_slash (p @ concat (map (Cons 0x2f) ps))"
    using Cons.prems by (induction q) auto
  then show ?case using Cons by simp
qed

lemma split_nonempty: "split_slash s \<noteq> []"
  by (induction s) (auto split: list.splits)

lemma join_split: "split_slash s = q # ps \<Longrightarrow> s = q @ concat (map (Cons 0x2f) ps)"
proof (induction s arbitrary: q ps)
  case (Cons b s)
  obtain q' ps' where s: "split_slash s = q' # ps'" using split_nonempty [of s] by (cases "split_slash s") auto
  note join = Cons.IH [OF s]
  show ?case
  proof (cases "b = 0x2f")
    case True
    then have "q = []" "ps = q' # ps'" using Cons.prems s by simp_all
    then show ?thesis using True by (simp add: join [symmetric])
  next
    case False
    then have "q = b # q'" "ps = ps'" using Cons.prems s by simp_all
    then show ?thesis by (simp add: join [symmetric])
  qed
qed simp

lemma alnum_text: "alnum b \<Longrightarrow> printable_byte b" "\<not> alnum 0x2f"
  by (auto simp: alnum_def printable_byte_def word_le_nat_alt)

lemma plain_text:
  assumes "\<And>b. b \<in> set v \<Longrightarrow> printable_byte b \<and> b \<noteq> 0x2f"
  shows "0x2f \<notin> set v \<and> printable v"
  using assms by (auto simp: printable_def list_all_iff)

lemma hop_text:
  assumes "hop_ok h"
  shows "list_all (\<lambda>p. 0x2f \<notin> set p \<and> printable p) (hop_parts h)"
proof -
  have host: "0x2f \<notin> set v \<and> printable v" if "hostPattern v" for v
    using that alnum_text by (intro plain_text) (auto simp: hostPattern_def list_all_iff printable_byte_def dest!: bspec)
  have service: "0x2f \<notin> set v \<and> printable v" if "serviceNamePattern v" for v
    using that alnum_text by (intro plain_text) (auto simp: serviceNamePattern_def list_all_iff printable_byte_def dest!: bspec)
  have password: "0x2f \<notin> set v \<and> printable v" if "passwordPattern v" for v
    using that by (intro plain_text) (auto simp: passwordPattern_def list_all_iff printable_byte_def word_le_nat_alt dest!: bspec)
  have "0x2f \<notin> set (gostr [c]) \<and> printable (gostr [c])" if "c \<in> {CHR ''H'', CHR ''S'', CHR ''W''}" for c
    using that by (auto simp: gostr_def printable_def printable_byte_def)
  then show ?thesis
    using assms host service password by (auto simp: hop_ok_def hop_parts_def)
qed

lemma route_parts_text: "list_all hop_ok hops \<Longrightarrow> list_all (\<lambda>p. 0x2f \<notin> set p \<and> printable p) (concat (map hop_parts hops))"
  using hop_text by (induction hops) auto

lemma route_string_printable:
  assumes "list_all hop_ok hops"
  shows "printable (route_string hops)"
proof -
  have "printable_byte 0x2f" by (simp add: printable_byte_def)
  then have "list_all printable ps \<Longrightarrow> printable (concat (map (Cons 0x2f) ps))" for ps
    by (induction ps) (auto simp: printable_def)
  then show ?thesis using route_parts_text [OF assms] by (simp add: route_string_def list_all_iff)
qed

lemma split_route: "list_all hop_ok hops \<Longrightarrow> split_slash (route_string hops) = [] # concat (map hop_parts hops)"
  using split_join [of "[]" "concat (map hop_parts hops)"] route_parts_text [of hops]
  by (simp add: route_string_def list_all_iff)

lemma hop_parts_length: "2 \<le> length (hop_parts h)"
  by (simp add: hop_parts_def)

lemma byteLength_le: "sum_list (map hop_byteLength hops) \<le> length (route_string hops)"
proof (induction hops)
  case (Cons h hs)
  have "hop_byteLength h \<le> length (concat (map (Cons 0x2f) (hop_parts h)))"
    by (simp add: hop_byteLength_def hop_parts_def gostr_def)
  then show ?case using Cons by (simp add: route_string_def)
qed (simp add: route_string_def)

lemma Admit_complete:
  assumes "route_ok hops"
  shows "Admit (route_string hops) = Inr (route_of hops)"
proof -
  have ok: "list_all hop_ok hops" "2 \<le> length hops" "length hops \<le> MaxRouteHops" "ih_password (last hops) = []"
    "length (route_string hops) \<le> MaxRouteBytes" using assms by (simp_all add: route_ok_def)
  obtain h1 h2 hs where h: "hops = h1 # h2 # hs" using ok(2) by (cases hops; cases "tl hops") auto
  have len: "4 \<le> length (concat (map hop_parts hops))" using hop_parts_length [of h1] hop_parts_length [of h2] by (simp add: h)
  then have "route_string hops \<noteq> []" unfolding route_string_def by (auto simp: h hop_parts_def)
  moreover have "admit_hops (concat (map hop_parts hops)) [] = Inr hops" using admit_hops_complete [OF ok(1), of "[]"] ok(3) by simp
  moreover have "sum_list (map hop_byteLength hops) \<le> MaxRouteBytes" using byteLength_le [of hops] ok(5) by simp
  ultimately show ?thesis
    using ok route_string_printable [OF ok(1)] len by (simp add: Admit_def split_route [OF ok(1)] fail_if_def)
qed

lemma Admit_sound:
  assumes "Admit input = Inr r"
  shows "\<exists>hops. input = route_string hops \<and> route_ok hops \<and> r = route_of hops"
proof -
  obtain hops where a: "admit_hops (drop 1 (split_slash input)) [] = Inr hops" and hd: "hd (split_slash input) = []"
    and ok: "2 \<le> length hops" "ih_password (last hops) = []" "length input \<le> MaxRouteBytes" and r: "r = route_of hops"
    using assms by (auto simp: Admit_def bindE_Inr_iff Let_def)
  obtain ps where ps: "split_slash input = [] # ps" using hd split_nonempty [of input] by (cases "split_slash input") auto
  have h: "ps = concat (map hop_parts hops)" "list_all hop_ok hops" "length hops \<le> MaxRouteHops"
    using admit_hops_sound [OF a] ok(1) by (auto simp: ps)
  then have "input = route_string hops" using join_split [OF ps] by (simp add: route_string_def)
  then show ?thesis using ok h r by (auto simp: route_ok_def)
qed

section \<open>Properties\<close>

text \<open>
  C23. Admission accepts exactly the canonical strings of well-formed routes, and returns that route: two to 255 hops with
  valid hosts, services and passwords, no password on the last, and at most 2048 bytes. The separate limit on the encoded length
  never refuses a route that passed the others.
\<close>

theorem admit_exact:
  "Admit input = Inr r \<longleftrightarrow> (\<exists>hops. input = route_string hops \<and> route_ok hops \<and> r = route_of hops)"
  using Admit_sound Admit_complete by blast

text \<open>A route without its passwords: which hops have one is still visible. The bytes of all passwords.\<close>

definition without_passwords :: "internal_hop list \<Rightarrow> (gostring \<times> gostring \<times> bool) list" where
  "without_passwords hops = map (\<lambda>h. (ih_host h, ih_service h, ih_password h \<noteq> [])) hops"

definition password_bytes :: "internal_hop list \<Rightarrow> nat" where
  "password_bytes hops = sum_list (map (\<lambda>h. length (ih_password h)) hops)"

text \<open>
  C24. What a route shows of its passwords: two admitted routes that differ only in the text of passwords agree in every exported field
  (hop count, first hop, hops, printed form) except \<open>ByteLength\<close>, and their \<open>ByteLength\<close> differs by exactly the difference of the
  total password lengths. So no exported field depends on the text of a password, and the total length of the passwords is
  the only thing about them that is visible.
\<close>

theorem route_redaction:
  assumes "Admit input = Inr r" "Admit input' = Inr r'" "without_passwords (rt_hops r) = without_passwords (rt_hops r')"
  shows "r\<lparr>rt_ByteLength := n, rt_hops := hs\<rparr> = r'\<lparr>rt_ByteLength := n, rt_hops := hs\<rparr> \<and>
    rt_ByteLength r + password_bytes (rt_hops r') = rt_ByteLength r' + password_bytes (rt_hops r)"
proof -
  obtain hops hops' where r: "r = route_of hops" "r' = route_of hops'" "route_ok hops"
    using Admit_sound [OF assms(1)] Admit_sound [OF assms(2)] by blast
  then have h: "r = route_of hops" "r' = route_of hops'" "hops \<noteq> []" by (auto simp: route_ok_def)
  have eq: "without_passwords hops = without_passwords hops'" using assms(3) by (simp add: h route_of_def)
  have len: "length hops = length hops'" using arg_cong [OF eq, of length] by (simp add: without_passwords_def)
  have "map public_hop hops = map public_hop hops' \<and> redactedRoute hops = redactedRoute hops' \<and>
      sum_list (map hop_byteLength hops) + password_bytes hops' = sum_list (map hop_byteLength hops') + password_bytes hops \<and>
      (hops \<noteq> [] \<longrightarrow> ih_host (hd hops) = ih_host (hd hops') \<and> ih_service (hd hops) = ih_service (hd hops'))"
    using len eq
    by (induction hops hops' rule: list_induct2)
       (auto simp: without_passwords_def public_hop_def redactedRoute_def password_bytes_def hop_byteLength_def)
  then show ?thesis using h len by (simp add: route_of_def)
qed

text \<open>What the router reads: three zero-terminated fields for each hop.\<close>

definition hop_wire :: "internal_hop \<Rightarrow> bytes" where
  "hop_wire h = ih_host h @ [0] @ ih_service h @ [0] @ ih_password h @ [0]"

function read_hops :: "bytes \<Rightarrow> internal_hop list" where
  "read_hops b =
     (if b = [] then []
      else let host = takeWhile (\<lambda>x. x \<noteq> 0) b; b1 = drop (length host + 1) b;
               service = takeWhile (\<lambda>x. x \<noteq> 0) b1; b2 = drop (length service + 1) b1;
               password = takeWhile (\<lambda>x. x \<noteq> 0) b2
           in \<lparr>ih_host = host, ih_service = service, ih_password = password\<rparr> # read_hops (drop (length password + 1) b2))"
  by pat_completeness auto
termination
  by (relation "measure length") (auto simp: Let_def)

declare read_hops.simps [simp del]

lemma length_hop_wire [simp]: "length (hop_wire h) = hop_byteLength h"
  by (simp add: hop_wire_def hop_byteLength_def)

lemma copy_field:
  "length pre = off \<Longrightarrow> copy_at (off + length f) [0] (copy_at off f (pre @ replicate (length f + 1 + n) 0)) = (pre @ f @ [0]) @ replicate n (0::byte)"
proof -
  assume "length pre = off"
  moreover have "replicate (length f + 1 + n) (0::byte) = replicate (length f) 0 @ 0 # replicate n 0"
    by (simp add: replicate_add [symmetric] replicate_app_Cons_same)
  ultimately show ?thesis by (simp add: copy_at_def)
qed

lemma copy_hops_layout:
  "length pre = off \<Longrightarrow> copy_hops hs off (pre @ replicate (sum_list (map hop_byteLength hs)) 0) =
     (off + sum_list (map hop_byteLength hs), pre @ concat (map hop_wire hs))"
proof (induction hs arbitrary: pre off)
  case (Cons h hs)
  define n where "n = sum_list (map hop_byteLength hs)"
  have split: "sum_list (map hop_byteLength (h # hs)) =
      length (ih_host h) + 1 + (length (ih_service h) + 1 + (length (ih_password h) + 1 + n))"
    by (simp add: hop_byteLength_def n_def)
  have "copy_hops (h # hs) off (pre @ replicate (sum_list (map hop_byteLength (h # hs))) 0) =
      copy_hops hs (off + hop_byteLength h) ((pre @ hop_wire h) @ replicate n 0)"
    unfolding split using Cons.prems copy_field [of pre off "ih_host h" "length (ih_service h) + 1 + (length (ih_password h) + 1 + n)"]
      copy_field [of "pre @ ih_host h @ [0]" "off + length (ih_host h) + 1" "ih_service h" "length (ih_password h) + 1 + n"]
      copy_field [of "pre @ ih_host h @ [0] @ ih_service h @ [0]" "off + length (ih_host h) + 1 + length (ih_service h) + 1" "ih_password h" n]
    by (simp add: hop_byteLength_def hop_wire_def add.assoc)
  also have "\<dots> = (off + hop_byteLength h + n, (pre @ hop_wire h) @ concat (map hop_wire hs))"
    using Cons.IH [of "pre @ hop_wire h" "off + hop_byteLength h"] Cons.prems by (simp add: n_def)
  finally show ?case by (simp add: n_def)
qed simp

lemma read_hops_wire:
  assumes "0 \<notin> set (ih_host h)" "0 \<notin> set (ih_service h)" "0 \<notin> set (ih_password h)"
  shows "read_hops (hop_wire h @ r) = h # read_hops r"
proof -
  have t: "takeWhile (\<lambda>x. x \<noteq> 0) (v @ 0 # w) = v" if "0 \<notin> set v" for v w :: bytes
    using that by (induction v) auto
  show ?thesis using assms by (subst read_hops.simps) (simp add: hop_wire_def t Let_def)
qed

lemma hop_no_zero: "hop_ok h \<Longrightarrow> 0 \<notin> set (ih_host h) \<and> 0 \<notin> set (ih_service h) \<and> 0 \<notin> set (ih_password h)"
proof -
  assume "hop_ok h"
  then have "\<forall>p\<in>set (hop_parts h). printable p" using hop_text [of h] by (simp add: list_all_iff)
  then have "printable (ih_host h)" "printable (ih_service h)" "printable (ih_password h)"
    by (auto simp: hop_parts_def printable_def split: if_splits)
  then show ?thesis by (auto simp: printable_def list_all_iff printable_byte_def)
qed

lemma read_hops_route: "list_all hop_ok hops \<Longrightarrow> read_hops (concat (map hop_wire hops)) = hops"
proof (induction hops)
  case (Cons h hs)
  then show ?case using hop_no_zero [of h] by (simp add: read_hops_wire)
qed (simp add: read_hops.simps)

lemma length_request_header [simp]: "length (request_header r v) = 24"
  by (simp add: request_header_def routeEyecatcher_def gostr_def Let_def)

lemma EncodeRouteRequest_layout:
  assumes "hops \<noteq> []" "0 \<le> v" "v \<le> 255"
  shows "EncodeRouteRequestPayload (route_of hops) v =
     Inr (request_header (route_of hops) (if v = 0 then 40 else v) @ concat (map hop_wire hops))"
proof -
  define w where "w = (if v = 0 then DefaultNIVersion else v)"
  define hd where "hd = request_header (route_of hops) w"
  define n where "n = sum_list (map hop_byteLength hops)"
  have "length hd = 24" by (simp add: hd_def)
  then have "copy_at 0 hd (replicate (24 + n) 0) = hd @ replicate n 0"
    using copy_at_fit [of hd "24 + n" "[]" 0] by simp
  moreover have "copy_hops hops 24 (hd @ replicate n 0) = (24 + n, hd @ concat (map hop_wire hops))"
    using copy_hops_layout [of hd 24 hops] \<open>length hd = 24\<close> by (simp add: n_def)
  moreover have "length (concat (map hop_wire hops)) = n" by (simp add: n_def length_concat comp_def)
  moreover have "1 \<le> w" "w \<le> 255" "w = (if v = 0 then 40 else v)" using assms by (auto simp: w_def DefaultNIVersion_def)
  moreover have "rt_hops (route_of hops) = hops" "rt_ByteLength (route_of hops) = n" by (simp_all add: route_of_def n_def)
  ultimately show ?thesis
    using assms(1) \<open>length hd = 24\<close> unfolding EncodeRouteRequestPayload_def w_def [symmetric] Let_def hd_def [symmetric]
    by (simp add: RouteHeaderLength_def fail_if_def hd_def)
qed

text \<open>
  The request carries the route: for an admitted route and every version in 0..255 it is the eyecatcher, the
  information version, the version (40 for 0), the number of hops and of hops that remain, the lengths, and the hops; the router that
  reads three zero-terminated fields per hop gets the hops back, passwords included.
\<close>

theorem route_request_carries_route:
  assumes "Admit input = Inr r" "0 \<le> v" "v \<le> 255"
  shows "\<exists>payload. EncodeRouteRequestPayload r v = Inr payload \<and> take 9 payload = routeEyecatcher \<and>
     payload ! 9 = RouteInformationVersion \<and> uint (payload ! 10) = (if v = 0 then 40 else v) \<and>
     unat (payload ! 11) = rt_HopCount r \<and> unat (payload ! 15) = rt_HopCount r - 1 \<and>
     unat (get32be (drop 16 payload)) = length payload - 24 \<and>
     unat (get32be (drop 20 payload)) = hop_byteLength (hd (rt_hops r)) \<and> read_hops (drop 24 payload) = rt_hops r"
proof -
  obtain hops where h: "r = route_of hops" "route_ok hops" using Admit_sound [OF assms(1)] by blast
  define w where "w = (if v = 0 then 40 else v)"
  define n where "n = sum_list (map hop_byteLength hops)"
  have w: "0 \<le> w" "w < 256" using assms by (auto simp: w_def)
  have ok: "hops \<noteq> []" "length hops \<le> 255" "list_all hop_ok hops" "n \<le> 2048"
    using h(2) byteLength_le [of hops] by (auto simp: route_ok_def MaxRouteHops_def MaxRouteBytes_def n_def)
  have hn: "hop_byteLength (hd hops) \<le> n" using ok(1) by (cases hops) (simp_all add: n_def)
  have len: "length (concat (map hop_wire hops)) = n" by (simp add: n_def length_concat comp_def)
  have r: "rt_hops r = hops" "rt_HopCount r = length hops" "rt_ByteLength r = n" by (simp_all add: h(1) route_of_def n_def)
  have hdr: "request_header r w = gostr ''NI_ROUTE'' @ [0, 2, of_int w, of_nat (length hops), 0, 0, 0, of_nat (length hops - 1)] @
      put32be (of_nat n) @ put32be (of_nat (hop_byteLength (hd hops)))"
    by (simp add: request_header_def r routeEyecatcher_def RouteInformationVersion_def put16be_def Let_def)
  have e: "EncodeRouteRequestPayload r v = Inr (request_header r w @ concat (map hop_wire hops))"
    using EncodeRouteRequest_layout [OF ok(1) assms(2,3)] by (simp add: h(1) w_def)
  have "unat (of_nat n :: u32) = n" "unat (of_nat (hop_byteLength (hd hops)) :: u32) = hop_byteLength (hd hops)"
    "unat (of_nat (length hops) :: byte) = length hops" "unat (of_nat (length hops - 1) :: byte) = length hops - 1"
    "uint (of_int w :: byte) = w"
    using ok hn w by (simp_all add: unat_of_nat uint_word_of_int)
  then show ?thesis
    unfolding e w_def [symmetric]
    using len read_hops_route [OF ok(3)]
    by (simp add: hdr r routeEyecatcher_def RouteInformationVersion_def) (simp add: gostr_def)
qed

lemma pong_response: "DecodeRouteResponse pong = Inr \<lparr>rp_Kind = RouteAccepted, rp_NIVersion = 0, rp_ReturnCode = 0, rp_ErrorTextByteLength = 0\<rparr>"
  by (simp add: DecodeRouteResponse_def pong_def gostr_def MaxResponsePayloadBytes_def)

lemma accepted_is_pong: "DecodeRouteResponse b = Inr d \<Longrightarrow> rp_Kind d = RouteAccepted \<Longrightarrow> b = pong"
proof -
  assume d: "DecodeRouteResponse b = Inr d" "rp_Kind d = RouteAccepted"
  have "rp_Kind d = RouteRejected" if "decode_route_error b = Inr d"
    using that unfolding decode_route_error_def bindE_Inr_iff Let_def
    by (elim exE conjE, simp only: sum.inject, hypsubst, simp only: route_response.select_convs)
  then show "b = pong" using d by (auto simp: DecodeRouteResponse_def split: if_splits)
qed

lemma read_response:
  "sm_bind (sx_readFull 4) (\<lambda>lengthPrefix.
     sm_bind (sm_lift (fail_if (unat (get32be lengthPrefix) > MaxResponsePayloadBytes) ErrInvalidResponse)) (\<lambda>_.
     sm_bind (sx_readFull (unat (get32be lengthPrefix))) (\<lambda>response.
     sm_bind (sm_lift (DecodeRouteResponse response)) (\<lambda>decoded.
     sm_lift (fail_if (rp_Kind decoded \<noteq> RouteAccepted) ErrInvalidRoute))))) s = (Inr (), s') \<longleftrightarrow>
   (\<exists>rest. sx_in s = put32be 8 @ pong @ rest \<and> s' = s\<lparr>sx_in := rest\<rparr>)" (is "?L \<longleftrightarrow> ?R")
proof
  assume ?L
  then obtain n d where len: "4 \<le> length (sx_in s)" and n: "n = unat (get32be (take 4 (sx_in s)))" "n \<le> length (sx_in s) - 4"
    and d: "DecodeRouteResponse (take n (drop 4 (sx_in s))) = Inr d" "rp_Kind d = RouteAccepted"
    and s': "s' = s\<lparr>sx_in := drop n (drop 4 (sx_in s))\<rparr>"
    by (auto simp: sm_bind_Inr_iff sm_lift_def sx_readFull_def split: if_splits)
  have p: "take n (drop 4 (sx_in s)) = pong" using accepted_is_pong d by blast
  then have "length (take n (drop 4 (sx_in s))) = 8" by (simp add: pong_def gostr_def)
  then have "n = 8" using n(2) by simp
  then have "get32be (take 4 (sx_in s)) = 8" using n(1) by (simp add: word_unat_eq_iff)
  then have "take 4 (sx_in s) = put32be 8" using put32be_get32be [of "take 4 (sx_in s)"] len by simp
  then show ?R
    using p s' append_take_drop_id [of 4 "sx_in s"] append_take_drop_id [of n "drop 4 (sx_in s)"]
    by (intro exI [of _ "drop n (drop 4 (sx_in s))"]) (simp del: drop_drop)
next
  assume ?R
  then obtain rest where r: "sx_in s = put32be 8 @ pong @ rest" "s' = s\<lparr>sx_in := rest\<rparr>" by blast
  have "length pong = 8" by (simp add: pong_def gostr_def)
  then show ?L
    using r pong_response
    by (simp add: sm_bind_def sm_lift_def sx_readFull_def fail_if_def MaxResponsePayloadBytes_def)
qed

text \<open>
  C25. The route handshake succeeds exactly when the router acknowledges: over a writable connection the request goes out as one NI
  record, and the result is success if and only if the incoming bytes begin with the record that holds the
  acknowledgement; exactly that record is consumed, and what follows belongs to the routed connection.
\<close>

theorem route_handshake_exact:
  assumes "Admit input = Inr r" "EncodeRouteRequestPayload r v = Inr payload" "sx_writable s"
  shows "PerformRoute r v s = (Inr (), s') \<longleftrightarrow>
     (\<exists>rest. sx_in s = put32be 8 @ pong @ rest \<and>
        s' = s\<lparr>sx_out := sx_out s @ put32be (of_nat (length payload)) @ payload, sx_in := rest\<rparr>)"
proof -
  let ?s = "s\<lparr>sx_out := sx_out s @ put32be (of_nat (length payload)) @ payload\<rparr>"
  have w: "sx_write (put32be (of_nat (length payload)) @ payload) s = (Inr (), ?s)" using assms(3) by (simp add: sx_write_def)
  show ?thesis
    unfolding PerformRoute_def assms(2) using w read_response [of ?s s'] by (simp add: sm_simps)
qed

definition sample_hops :: "internal_hop list" where
  "sample_hops = [\<lparr>ih_host = gostr ''router'', ih_service = [], ih_password = gostr ''pw''\<rparr>,
     \<lparr>ih_host = gostr ''target'', ih_service = gostr ''sapgw00'', ih_password = []\<rparr>]"

lemma sample_hops_ok: "route_ok sample_hops"
  by (simp add: route_ok_def sample_hops_def hop_ok_def hostPattern_def serviceNamePattern_def passwordPattern_def alnum_def
      route_string_def hop_parts_def gostr_def MaxRouteHops_def MaxRouteBytes_def)

lemma sample_admitted: "Admit (route_string sample_hops) = Inr (route_of sample_hops)"
  by (rule Admit_complete [OF sample_hops_ok])

definition other_hops :: "internal_hop list" where
  "other_hops = [\<lparr>ih_host = gostr ''router'', ih_service = [], ih_password = gostr ''geheim''\<rparr>,
     \<lparr>ih_host = gostr ''target'', ih_service = gostr ''sapgw00'', ih_password = []\<rparr>]"

lemma other_admitted: "Admit (route_string other_hops) = Inr (route_of other_hops)"
  by (rule Admit_complete)
     (simp add: route_ok_def other_hops_def hop_ok_def hostPattern_def serviceNamePattern_def passwordPattern_def alnum_def
      route_string_def hop_parts_def gostr_def MaxRouteHops_def MaxRouteBytes_def)

theorem route_redaction_witness:
  "rt_RedactedRouteString (route_of sample_hops) = rt_RedactedRouteString (route_of other_hops) \<and>
   rt_Hops (route_of sample_hops) = rt_Hops (route_of other_hops) \<and>
   rt_ByteLength (route_of other_hops) = rt_ByteLength (route_of sample_hops) + 4 \<and> sample_hops \<noteq> other_hops"
proof -
  have "without_passwords (rt_hops (route_of sample_hops)) = without_passwords (rt_hops (route_of other_hops))"
    by (simp add: without_passwords_def route_of_def sample_hops_def other_hops_def gostr_def)
  from route_redaction [OF sample_admitted other_admitted this, where n = 0 and hs = "[]"] show ?thesis
    by (simp add: route_of_def password_bytes_def sample_hops_def other_hops_def gostr_def)
qed

theorem route_request_carries_route_witness:
  "\<exists>payload. EncodeRouteRequestPayload (route_of sample_hops) 0 = Inr payload \<and> read_hops (drop 24 payload) = sample_hops"
  using route_request_carries_route [OF sample_admitted, of 0] by (auto simp: route_of_def)

theorem route_handshake_exact_witness:
  "\<exists>s'. PerformRoute (route_of sample_hops) 0 \<lparr>sx_in = put32be 8 @ pong @ [1, 2], sx_out = [], sx_writable = True\<rparr> = (Inr (), s') \<and>
     sx_in s' = [1, 2]"
proof -
  obtain payload where p: "EncodeRouteRequestPayload (route_of sample_hops) 0 = Inr payload"
    using EncodeRouteRequest_layout [of sample_hops 0] by (simp add: sample_hops_def)
  show ?thesis
    using route_handshake_exact [OF sample_admitted p, of "\<lparr>sx_in = put32be 8 @ pong @ [1, 2], sx_out = [], sx_writable = True\<rparr>"]
    by auto
qed

end
