(* ===== verification/Unicode_Scalar.thy ===== *)
theory Unicode_Scalar
  imports Go_Decimal Go_Text
begin

text \<open>
  Package \<open>value\<close>, file \<open>unicode_scalar.go\<close>: the assertions on scalar text and the decoder of XML entity references.
  \<open>strconv.ParseInt\<close> reads a run of digits to a radix or reports overflow of 63 bits.
\<close>

datatype scalar_error = ErrScalarText | ErrXMLEntity

definition AssertUnicodeScalarText :: "gostring \<Rightarrow> scalar_error + unit" where
  "AssertUnicodeScalarText v = fail_if (\<not> ValidString v) ErrScalarText"

definition AssertNulFreeUnicodeScalarText :: "gostring \<Rightarrow> scalar_error + unit" where
  "AssertNulFreeUnicodeScalarText v = bindE (AssertUnicodeScalarText v) (\<lambda>_. fail_if (0 \<in> set v) ErrScalarText)"

definition namedXMLEntityCodePoints :: "gostring \<rightharpoonup> nat" where
  "namedXMLEntityCodePoints =
     [gostr ''amp'' \<mapsto> 0x26, gostr ''lt'' \<mapsto> 0x3c, gostr ''gt'' \<mapsto> 0x3e, gostr ''quot'' \<mapsto> 0x22, gostr ''apos'' \<mapsto> 0x27]"

definition maximumCharacterReferenceRun :: nat where "maximumCharacterReferenceRun = 32"

definition hex_char :: "byte \<Rightarrow> bool" where
  "hex_char b \<longleftrightarrow> digit_char b \<or> 0x41 \<le> b \<and> b \<le> 0x46 \<or> 0x61 \<le> b \<and> b \<le> 0x66"

definition char_digit :: "byte \<Rightarrow> nat" where
  "char_digit b = (if digit_char b then unat b - 0x30 else if b \<le> 0x46 then unat b - 0x37 else unat b - 0x57)"

definition radix_value :: "nat \<Rightarrow> gostring \<Rightarrow> nat" where
  "radix_value radix s = foldl (\<lambda>n b. n * radix + char_digit b) 0 s"

definition go_ParseInt :: "gostring \<Rightarrow> nat \<Rightarrow> nat option" where
  "go_ParseInt s radix = (if radix_value radix s < 2 ^ 63 then Some (radix_value radix s) else None)"

definition characterReferenceValue :: "gostring \<Rightarrow> nat \<Rightarrow> (byte \<Rightarrow> bool) \<Rightarrow> scalar_error + nat" where
  "characterReferenceValue digits radix run =
     (if length digits > maximumCharacterReferenceRun \<or> \<not> (digits \<noteq> [] \<and> list_all run digits) then Inl ErrXMLEntity
      else let significant = dropWhile (\<lambda>b. b = 0x30) digits;
               significant = (if significant = [] then gostr ''0'' else significant) in
        case go_ParseInt significant radix of None \<Rightarrow> Inr 0x110000 | Some v \<Rightarrow> Inr v)"

fun index_byte :: "byte \<Rightarrow> gostring \<Rightarrow> nat option" where
  "index_byte c [] = None"
| "index_byte c (b # s) = (if b = c then Some 0 else map_option Suc (index_byte c s))"

definition reference_body :: "gostring \<Rightarrow> scalar_error + nat" where
  "reference_body body =
     (if body = [] then Inl ErrXMLEntity
      else if hd body \<noteq> 0x23 then
        (case namedXMLEntityCodePoints body of None \<Rightarrow> Inl ErrXMLEntity | Some named \<Rightarrow> Inr named)
      else if length body > 1 \<and> body ! 1 = 0x78 then characterReferenceValue (drop 2 body) 16 hex_char
      else characterReferenceValue (drop 1 body) 10 digit_char)"

definition DecodeXMLEntityReference :: "gostring \<Rightarrow> nat \<Rightarrow> scalar_error + nat \<times> nat" where
  "DecodeXMLEntityReference raw start =
     (case index_byte 0x3b (drop (start + 1) raw) of
        None \<Rightarrow> Inl ErrXMLEntity
      | Some k \<Rightarrow>
          let semicolon = k + start + 1; body = gslice (start + 1) semicolon raw in
          bindE (reference_body body) (\<lambda>codePoint.
          if codePoint > 0x10ffff \<or> codePoint \<ge> 0xd800 \<and> codePoint \<le> 0xdfff then Inl ErrXMLEntity
          else Inr (codePoint, semicolon + 1 - start)))"

section \<open>Lemmas\<close>

lemma radix_value_zeros: "radix_value radix (dropWhile (\<lambda>b. b = 0x30) s) = radix_value radix s"
  by (induction s) (simp_all add: radix_value_def char_digit_def digit_char_def)

lemma index_byte_append: "c \<notin> set s \<Longrightarrow> index_byte c (s @ c # r) = Some (length s)"
  by (induction s) auto

lemma reference_value:
  assumes "digits \<noteq> []" "list_all run digits"
  shows "characterReferenceValue digits radix run =
    (if length digits > 32 then Inl ErrXMLEntity else Inr (if radix_value radix digits < 2 ^ 63 then radix_value radix digits else 0x110000))"
proof -
  let ?s = "dropWhile (\<lambda>b. b = 0x30) digits"
  have "radix_value radix (if ?s = [] then gostr ''0'' else ?s) = radix_value radix digits"
  proof (cases "?s = []")
    case True
    then have "radix_value radix digits = 0" using radix_value_zeros [of radix digits] unfolding True by (simp add: radix_value_def)
    moreover have "radix_value radix (gostr ''0'') = 0" by (simp add: radix_value_def gostr_def char_digit_def digit_char_def)
    ultimately show ?thesis unfolding if_P [OF True] by simp
  next
    case False
    show ?thesis unfolding if_not_P [OF False] by (rule radix_value_zeros)
  qed
  then show ?thesis
    using assms by (simp add: characterReferenceValue_def go_ParseInt_def maximumCharacterReferenceRun_def Let_def)
qed

lemma no_semicolon: "list_all hex_char s \<Longrightarrow> 0x3b \<notin> set s"
  by (auto simp: list_all_iff hex_char_def digit_char_def)

lemma decimal_hex: "list_all digit_char s \<Longrightarrow> list_all hex_char s"
  by (auto simp: list_all_iff hex_char_def)

text \<open>
  A numeric character reference denotes the number its digits spell, whatever zeros it is padded with: a decimal or hexadecimal run of up to 32 digits at any
  place of a text decodes to that code point and the length of the reference if the number is a Unicode scalar value, and is refused
  otherwise, also when it overflows 63 bits.
\<close>

theorem character_reference_exact:
  assumes "digits \<noteq> []" "if hexadecimal then list_all hex_char digits else list_all digit_char digits"
  shows "DecodeXMLEntityReference (pre @ gostr (if hexadecimal then ''&#x'' else ''&#'') @ digits @ gostr '';'' @ rest) (length pre) =
    (let n = radix_value (if hexadecimal then 16 else 10) digits in
     if length digits \<le> 32 \<and> scalar n then Inr (n, length digits + (if hexadecimal then 4 else 3)) else Inl ErrXMLEntity)"
proof -
  define mark where "mark = (if hexadecimal then [0x23, 0x78] else [0x23 :: byte])"
  define run where "run = (if hexadecimal then hex_char else digit_char)"
  define radix :: nat where "radix = (if hexadecimal then 16 else 10)"
  let ?raw = "pre @ gostr (if hexadecimal then ''&#x'' else ''&#'') @ digits @ gostr '';'' @ rest"
  have raw: "?raw = pre @ 0x26 # (mark @ digits) @ 0x3b # rest" by (simp add: gostr_def mark_def)
  have d: "list_all run digits" "0x3b \<notin> set digits" using assms(2) no_semicolon [of digits] decimal_hex [of digits] by (cases hexadecimal; simp add: run_def)+
  then have "0x3b \<notin> set (mark @ digits)" by (simp add: mark_def)
  then have i: "index_byte 0x3b (drop (length pre + 1) ?raw) = Some (length (mark @ digits))"
    unfolding raw using index_byte_append [of "0x3b" "mark @ digits" rest] by simp
  have s: "gslice (length pre + 1) (length (mark @ digits) + length pre + 1) ?raw = mark @ digits"
    unfolding raw by (simp add: gslice_def)
  have b: "reference_body (mark @ digits) = characterReferenceValue digits radix run"
  proof (cases hexadecimal)
    case False
    then have "hd digits \<noteq> 0x78" using assms by (cases digits) (auto simp: digit_char_def)
    then show ?thesis using False assms(1) by (cases digits) (simp_all add: reference_body_def mark_def radix_def run_def)
  qed (simp add: reference_body_def mark_def radix_def run_def)
  let ?n = "radix_value radix digits"
  have big: "\<not> ?n < 2 ^ 63 \<Longrightarrow> \<not> scalar ?n" by (auto simp: scalar_def)
  show ?thesis
    unfolding DecodeXMLEntityReference_def i option.case Let_def s b reference_value [OF assms(1) d(1)]
    using big by (auto simp: scalar_def surrogate_def radix_def [symmetric] mark_def)
qed

theorem character_reference_exact_witness:
  "DecodeXMLEntityReference (gostr ''a&#x0041;b'') 1 = Inr (0x41, 8)"
  using character_reference_exact [of "gostr ''0041''" True "gostr ''a''" "gostr ''b''"]
  by (simp add: gostr_def hex_char_def digit_char_def radix_value_def char_digit_def scalar_def surrogate_def)

end
