(* ===== verification/Abap_Char.thy ===== *)
theory Abap_Char
  imports Unicode_Scalar Go_Text
begin

text \<open>
  Package \<open>classicrfc\<close>, fixed-width Unicode text (\<open>classicrfc.go\<close>): CHAR values are UTF-16 in little-endian order, padded with spaces. Go's
  variadic \<open>expected\<close> of \<open>DecodeAbapChar\<close> is an option. The decoder turns every isolated surrogate into U+FFFD, so its check of the text never fails.
\<close>

section \<open>Definitions\<close>

datatype classic_error = ErrClassicRange | ErrClassicProtocol | ErrClassicText

definition characterCount :: "int \<Rightarrow> classic_error + unit" where
  "characterCount v = fail_if (v < 0 \<or> v > 0x7fff) ErrClassicRange"

definition codeUnitLen :: "gostring \<Rightarrow> nat" where
  "codeUnitLen s = length (utf16_encode (go_runes s))"

definition utf16leEncode :: "gostring \<Rightarrow> bytes" where
  "utf16leEncode s = units_bytes (utf16_encode (go_runes s))"

definition utf16leDecode :: "bytes \<Rightarrow> gostring" where
  "utf16leDecode b = string_of_runes (utf16_decode (bytes_units b))"

definition assert_text :: "gostring \<Rightarrow> classic_error + unit" where
  "assert_text s = (case AssertUnicodeScalarText s of Inl _ \<Rightarrow> Inl ErrClassicText | Inr u \<Rightarrow> Inr u)"

definition EncodeAbapChar :: "gostring \<Rightarrow> int \<Rightarrow> classic_error + bytes" where
  "EncodeAbapChar v characters =
     bindE (characterCount characters) (\<lambda>_.
     bindE (assert_text v) (\<lambda>_.
     bindE (fail_if (int (codeUnitLen v) > characters) ErrClassicRange) (\<lambda>_.
     Inr (utf16leEncode (v @ replicate (nat (characters - int (codeUnitLen v))) 0x20)))))"

definition abapCharacterBytes :: "bytes \<Rightarrow> int option \<Rightarrow> classic_error + gostring" where
  "abapCharacterBytes v expected =
     bindE (fail_if (odd (length v)) ErrClassicRange) (\<lambda>_.
     bindE (case expected of
        None \<Rightarrow> Inr ()
      | Some n \<Rightarrow> bindE (characterCount n) (\<lambda>_. fail_if (int (length v) \<noteq> n * 2) ErrClassicRange)) (\<lambda>_.
     let decoded = utf16leDecode v in
     bindE (assert_text decoded) (\<lambda>_. Inr decoded)))"

definition trimRight :: "gostring \<Rightarrow> gostring" where
  "trimRight s = rev (dropWhile (\<lambda>b. b = 0x20) (rev s))"

definition DecodeAbapChar :: "bytes \<Rightarrow> int option \<Rightarrow> classic_error + gostring" where
  "DecodeAbapChar v expected = bindE (abapCharacterBytes v expected) (\<lambda>s. Inr (trimRight s))"

definition DecodeAbapFixedChar :: "bytes \<Rightarrow> int \<Rightarrow> classic_error + gostring" where
  "DecodeAbapFixedChar v expected = abapCharacterBytes v (Some expected)"

section \<open>Lemmas\<close>

lemma units_scalar: "list_all scalar (utf16_decode us)"
proof (induction us rule: utf16_decode.induct)
  case (1 u v us)
  have "unat u < 0x10000" "unat v < 0x10000" using unsigned_less [of u, where ?'a = nat] unsigned_less [of v, where ?'a = nat] by simp_all
  then show ?case
    using 1 by (auto simp: scalar_def surrogate_def high_surrogate_def low_surrogate_def)
next
  case (2 u)
  have "unat u < 0x10000" using unsigned_less [of u, where ?'a = nat] by simp
  then show ?case by (auto simp: scalar_def surrogate_def)
qed simp

lemma decoded_valid: "runes_of (utf16leDecode b) = Some (utf16_decode (bytes_units b))" "ValidString (utf16leDecode b)"
  using runes_of_string [OF units_scalar] by (simp_all add: utf16leDecode_def ValidString_def)

lemma assert_text_iff: "assert_text s = (if ValidString s then Inr () else Inl ErrClassicText)"
  by (simp add: assert_text_def AssertUnicodeScalarText_def fail_if_def)

lemma runes_append:
  assumes "runes_of a = Some x" "runes_of b = Some y"
  shows "runes_of (a @ b) = Some (x @ y)"
proof -
  have "string_of_runes (x @ y) = a @ b" "list_all scalar (x @ y)"
    using string_of_runes_of [OF assms(1)] string_of_runes_of [OF assms(2)] by (simp_all add: string_of_runes_def)
  then show ?thesis using runes_of_string by metis
qed

lemma utf16le_roundtrip: "runes_of s = Some rs \<Longrightarrow> utf16leDecode (utf16leEncode s) = s"
  using string_of_runes_of [of s rs] go_runes_valid [of s rs]
  by (simp add: utf16leDecode_def utf16leEncode_def utf16_roundtrip)

lemma length_utf16le [simp]: "length (utf16leEncode s) = 2 * codeUnitLen s"
  by (simp add: utf16leEncode_def codeUnitLen_def)

lemma ascii_facts: "ascii s \<Longrightarrow> codeUnitLen s = length s" "ascii s \<Longrightarrow> ValidString s" "ascii s \<Longrightarrow> utf16leEncode s = concat (map (\<lambda>b. [b, 0]) s)"
  using go_runes_valid [OF ascii_runes, of s] ascii_runes [of s] ascii_units_bytes [of s]
  by (simp_all add: codeUnitLen_def utf16leEncode_def ascii_utf16 ValidString_def)

lemma spaces_runes: "runes_of (replicate n 0x20) = Some (replicate n 0x20)"
  using ascii_runes [of "replicate n 0x20"] by (simp add: ascii_def)

lemma codeUnitLen_spaces:
  assumes "runes_of s = Some rs"
  shows "codeUnitLen (s @ replicate n 0x20) = codeUnitLen s + n"
proof -
  have "length (utf16_encode (replicate n 0x20)) = n" by (induction n) (simp_all add: utf16_encode_def rune_units_def)
  then show ?thesis
    using go_runes_valid [OF runes_append [OF assms spaces_runes]] go_runes_valid [OF assms]
    by (simp add: codeUnitLen_def utf16_encode_def)
qed

lemma trimRight_spaces [simp]: "trimRight (s @ replicate n 0x20) = trimRight s"
proof -
  have "dropWhile (\<lambda>b. b = 0x20) (replicate n 0x20 @ r) = dropWhile (\<lambda>b. b = 0x20) r" for r :: gostring by (induction n) simp_all
  then show ?thesis by (simp add: trimRight_def)
qed

lemma encode_char_exact:
  "EncodeAbapChar s n = Inr b \<longleftrightarrow> 0 \<le> n \<and> n \<le> 0x7fff \<and> ValidString s \<and> int (codeUnitLen s) \<le> n \<and>
     b = utf16leEncode (s @ replicate (nat n - codeUnitLen s) 0x20)"
  by (auto simp: EncodeAbapChar_def characterCount_def assert_text_iff bindE_Inr_iff nat_diff_distrib' split: if_splits)

lemma char_roundtrip:
  assumes "EncodeAbapChar s n = Inr b"
  shows "length b = 2 * nat n" "DecodeAbapFixedChar b n = Inr (s @ replicate (nat n - codeUnitLen s) 0x20)"
    "DecodeAbapChar b (Some n) = Inr (trimRight s)" "DecodeAbapChar b None = Inr (trimRight s)"
proof -
  have e: "0 \<le> n" "n \<le> 0x7fff" "ValidString s" "int (codeUnitLen s) \<le> n" and b: "b = utf16leEncode (s @ replicate (nat n - codeUnitLen s) 0x20)"
    using assms unfolding encode_char_exact by auto
  obtain rs where rs: "runes_of s = Some rs" using e(3) by (auto simp: ValidString_def)
  show l: "length b = 2 * nat n" using codeUnitLen_spaces [OF rs, of "nat n - codeUnitLen s"] e(1,4) by (simp add: b)
  have d: "utf16leDecode b = s @ replicate (nat n - codeUnitLen s) 0x20"
    unfolding b by (rule utf16le_roundtrip [OF runes_append [OF rs spaces_runes]])
  have v: "assert_text (s @ replicate (nat n - codeUnitLen s) 0x20) = Inr ()" using decoded_valid(2) [of b] by (simp add: d assert_text_iff)
  have fixed: "abapCharacterBytes b (Some n) = Inr (s @ replicate (nat n - codeUnitLen s) 0x20)"
    "abapCharacterBytes b None = Inr (s @ replicate (nat n - codeUnitLen s) 0x20)"
    using e(1,2) v by (simp_all add: abapCharacterBytes_def characterCount_def l d fail_if_def)
  then show "DecodeAbapFixedChar b n = Inr (s @ replicate (nat n - codeUnitLen s) 0x20)"
    "DecodeAbapChar b (Some n) = Inr (trimRight s)" "DecodeAbapChar b None = Inr (trimRight s)"
    by (simp_all add: DecodeAbapFixedChar_def DecodeAbapChar_def)
qed

lemma even_int_double: "int (length b) = 2 * n \<Longrightarrow> even (length b)"
  by (metis dvd_triv_left even_of_nat)

lemma decode_char_exact:
  "DecodeAbapChar b None = (if even (length b) then Inr (trimRight (utf16leDecode b)) else Inl ErrClassicRange)"
  "0 \<le> n \<Longrightarrow> n \<le> 0x7fff \<Longrightarrow> int (length b) = 2 * n \<Longrightarrow> DecodeAbapFixedChar b n = Inr (utf16leDecode b)"
  "0 \<le> n \<Longrightarrow> n \<le> 0x7fff \<Longrightarrow> int (length b) = 2 * n \<Longrightarrow> DecodeAbapChar b (Some n) = Inr (trimRight (utf16leDecode b))"
  using decoded_valid(2) [of b] even_int_double [of b n]
  by (auto simp: DecodeAbapChar_def DecodeAbapFixedChar_def abapCharacterBytes_def characterCount_def assert_text_iff fail_if_def)

end
