(* ===== verification/Calendar.thy ===== *)
theory Calendar
  imports Rfc_Prelude
begin

text \<open>
  Package \<open>value\<close>, file \<open>classic_temporal.go\<close> (calendar): the Julian and Gregorian calendar with the gap of October 1582,
  day numbers, and their inverse by binary search. Years, months, days and day numbers are natural numbers: the
  code computes them from digits or from a checked raw value. The lemmas show that day numbers and dates correspond one to one.
\<close>

section \<open>Years and months\<close>

definition daysByMonth :: "nat list" where
  "daysByMonth = [31, 29, 31, 30, 31, 30, 31, 31, 30, 31, 30, 31]"

definition isLeapYear :: "nat \<Rightarrow> bool" where
  "isLeapYear year \<longleftrightarrow>
     (if year < 1582 then year mod 4 = 0 else year mod 4 = 0 \<and> (year mod 100 \<noteq> 0 \<or> year mod 400 = 0))"

definition daysInMonth :: "nat \<Rightarrow> nat \<Rightarrow> nat" where
  "daysInMonth year month =
     (if month = 2 then (if isLeapYear year then 29 else 28)
      else if year = 1582 \<and> month = 10 then 21
      else daysByMonth ! (month - 1))"

record calendar_date =
  cd_year :: nat
  cd_month :: nat
  cd_day :: nat

datatype temporal_error = ErrTemporal

definition parseDateParts :: "nat \<Rightarrow> nat \<Rightarrow> nat \<Rightarrow> temporal_error + calendar_date" where
  "parseDateParts year month day =
     (if year < 1 \<or> year > 9999 then Inl ErrTemporal
      else if month < 1 \<or> month > 12 then Inl ErrTemporal
      else let conventionalMax = (if month = 2 then (if isLeapYear year then 29 else 28) else daysByMonth ! (month - 1)) in
        if day < 1 \<or> day > conventionalMax then Inl ErrTemporal
        else if year = 1582 \<and> month = 10 \<and> day \<ge> 5 \<and> day \<le> 14 then Inl ErrTemporal
        else Inr \<lparr>cd_year = year, cd_month = month, cd_day = day\<rparr>)"

section \<open>Day numbers\<close>

definition daysInPreviousYears :: "nat \<Rightarrow> nat" where
  "daysInPreviousYears year =
     (let previousYears = year - 1;
          through1600 = (if previousYears > 1600 then 1600 else previousYears);
          withinCentury = through1600 mod 100;
          days = (through1600 div 100) * 36525 + (withinCentury div 4) * 1461 + (withinCentury mod 4) * 365;
          days = (if year > 1582 then days - 10 else days) in
      if previousYears \<le> 1600 then days
      else let after1600 = previousYears - 1600;
               days = days + (after1600 div 400) * 146097;
               after1600 = after1600 mod 400;
               finalCentury = after1600 mod 100 in
           days + (after1600 div 100) * 36524 + (finalCentury div 4) * 1461 + (finalCentury mod 4) * 365)"

definition dateOrdinal :: "calendar_date \<Rightarrow> nat" where
  "dateOrdinal date =
     (let result = daysInPreviousYears (cd_year date) + sum_list (map (daysInMonth (cd_year date)) [1..<cd_month date]);
          adjustedDay = (if cd_year date = 1582 \<and> cd_month date = 10 \<and> cd_day date \<ge> 15 then cd_day date - 10 else cd_day date)
      in result + adjustedDay - 1)"

text \<open>
  The binary search for the last year that starts no later than \<open>ordinal\<close>. The search starts at year 1, so that \<open>candidate\<close>
  is positive and the branch for zero, where the natural number below it does not exist, is never taken.
\<close>

function year_search :: "nat \<Rightarrow> nat \<Rightarrow> nat \<Rightarrow> nat" where
  "year_search ordinal lower upper =
     (if lower \<le> upper then
        let candidate = (lower + upper) div 2 in
        if daysInPreviousYears candidate \<le> ordinal then year_search ordinal (candidate + 1) upper
        else if candidate = 0 then upper
        else year_search ordinal lower (candidate - 1)
      else upper)"
  by pat_completeness auto
termination
  by (relation "measure (\<lambda>(ordinal, lower, upper). upper + 1 - lower)") (auto simp: Let_def)

declare year_search.simps [simp del]

function month_search :: "nat \<Rightarrow> nat \<Rightarrow> nat \<Rightarrow> nat \<times> nat" where
  "month_search year remaining month =
     (if month \<le> 12 then
        (if remaining < daysInMonth year month then (month, remaining)
         else month_search year (remaining - daysInMonth year month) (month + 1))
      else (month, remaining))"
  by pat_completeness auto
termination
  by (relation "measure (\<lambda>(year, remaining, month). 13 - month)") auto

declare month_search.simps [simp del]

definition dateFromOrdinal :: "nat \<Rightarrow> calendar_date" where
  "dateFromOrdinal ordinal =
     (let year = year_search ordinal 1 9999;
          (month, remaining) = month_search year (ordinal - daysInPreviousYears year) 1;
          day = remaining + 1;
          day = (if year = 1582 \<and> month = 10 \<and> day > 4 then day + 10 else day)
      in \<lparr>cd_year = year, cd_month = month, cd_day = day\<rparr>)"

section \<open>Lengths of years\<close>

definition daysInYear :: "nat \<Rightarrow> nat" where
  "daysInYear year = sum_list (map (daysInMonth year) [1..<13])"

lemma months_upt: "[1..<13] = [1, 2, 3, 4, 5, 6, 7, 8, 9, 10, 11, 12::nat]"
  by (simp add: upt_rec)

lemma daysInYear_eq: "daysInYear year = (if year = 1582 then 355 else if isLeapYear year then 366 else 365)"
  unfolding daysInYear_def months_upt by (simp add: daysInMonth_def daysByMonth_def isLeapYear_def)

lemma div4_split: "(100 * c + w) div 4 = 25 * c + w div 4" for c w :: nat
proof -
  have "(100 * c + w) div 4 = (w + 4 * (25 * c)) div 4" by (simp add: algebra_simps)
  also have "\<dots> = 25 * c + w div 4" by (subst div_mult_self2) simp_all
  finally show ?thesis .
qed

lemma julian_form: "(p div 100) * 36525 + (p mod 100 div 4) * 1461 + (p mod 100 mod 4) * 365 = 365 * p + p div 4" for p :: nat
proof -
  define c w where "c = p div 100" and "w = p mod 100"
  have p: "p = 100 * c + w" by (simp add: c_def w_def)
  have "p div 4 = 25 * c + w div 4" unfolding p by (rule div4_split)
  moreover have "w = 4 * (w div 4) + w mod 4" by simp
  ultimately show ?thesis unfolding c_def [symmetric] w_def [symmetric] using p by linarith
qed

lemma gregorian_form:
  "(a div 400) * 146097 + (a mod 400 div 100) * 36524 + (a mod 400 mod 100 div 4) * 1461 + (a mod 400 mod 100 mod 4) * 365 +
     a div 100 = 365 * a + a div 4 + a div 400" for a :: nat
proof -
  define e b where "e = a div 400" and "b = a mod 400"
  define c w where "c = b div 100" and "w = b mod 100"
  have a: "a = 400 * e + b" by (simp add: e_def b_def)
  have b: "b = 100 * c + w" by (simp add: c_def w_def)
  have "a = 100 * (4 * e + c) + w" using a b by simp
  then have "a div 4 = 25 * (4 * e + c) + w div 4" using div4_split by presburger
  moreover have "a div 100 = 4 * e + c"
  proof -
    have "w < 100" by (simp add: w_def)
    then show ?thesis using \<open>a = 100 * (4 * e + c) + w\<close> by simp
  qed
  moreover have "w = 4 * (w div 4) + w mod 4" by simp
  ultimately show ?thesis unfolding e_def [symmetric] b_def [symmetric] c_def [symmetric] w_def [symmetric] using a b by linarith
qed

text \<open>The closed forms: leap days of the Julian years, then of the Gregorian ones.\<close>

lemma days_early:
  assumes "year \<le> 1601"
  shows "daysInPreviousYears year = 365 * (year - 1) + (year - 1) div 4 - (if year > 1582 then 10 else 0)"
proof -
  have c: "\<not> (year - 1 > 1600)" "year - 1 \<le> 1600" using assms by auto
  show ?thesis unfolding daysInPreviousYears_def Let_def if_not_P [OF c(1)] if_P [OF c(2)] julian_form by (cases "year > 1582") auto
qed

lemma days_late:
  assumes "1601 < year"
  shows "daysInPreviousYears year + (year - 1601) div 100 =
     584390 + 365 * (year - 1601) + (year - 1601) div 4 + (year - 1601) div 400"
proof -
  have c: "year - 1 > 1600" "\<not> (year - 1 \<le> 1600)" "year > 1582" using assms by auto
  have e: "year - 1 - 1600 = year - 1601" by simp
  have n: "(1600 div 100) * 36525 + (1600 mod 100 div 4) * 1461 + (1600 mod 100 mod 4) * 365 - 10 = (584390::nat)" by simp
  show ?thesis
    unfolding daysInPreviousYears_def Let_def if_P [OF c(1)] if_not_P [OF c(2)] if_P [OF c(3)] e n
    using gregorian_form [of "year - 1601"] by linarith
qed

lemma div_step: "0 < k \<Longrightarrow> (n + 1) div k = n div k + (if (n + 1) mod k = 0 then 1 else 0)" for n k :: nat
  by (simp add: div_Suc)

lemma mod_add_multiple: "k dvd m \<Longrightarrow> (n + m) mod k = n mod k" for k m n :: nat
  by (metis add.right_neutral mod_add_right_eq mod_eq_0_iff_dvd)

text \<open>A year starts where the year before it ends.\<close>

lemma days_next_year:
  assumes "1 \<le> year" "year \<le> 9999"
  shows "daysInPreviousYears (year + 1) = daysInPreviousYears year + daysInYear year"
proof -
  define p where "p = year - 1"
  have y: "year = p + 1" using assms by (simp add: p_def)
  have d4: "(p + 1) div 4 = p div 4 + (if year mod 4 = 0 then 1 else 0)" using div_step [of 4 p] by (simp add: y)
  consider (julian) "year < 1582" | (gap) "year = 1582" | (middle) "1582 < year" "year \<le> 1600" | (turn) "year = 1601"
    | (gregorian) "1601 < year" by linarith
  then show ?thesis
  proof cases
    case julian
    then show ?thesis
      using days_early [of year] days_early [of "year + 1"] d4 by (simp add: daysInYear_eq isLeapYear_def y)
  next
    case gap
    then show ?thesis using days_early [of 1582] days_early [of 1583] by (simp add: daysInYear_eq isLeapYear_def)
  next
    case middle
    have leap: "isLeapYear year \<longleftrightarrow> year mod 4 = 0"
    proof -
      have "year mod 100 = 0 \<Longrightarrow> year = 1600" using middle by presburger
      then have "year mod 100 \<noteq> 0 \<or> year mod 400 = 0" by (cases "year mod 100 = 0") simp_all
      then show ?thesis using middle unfolding isLeapYear_def by simp
    qed
    then show ?thesis
      using middle days_early [of year] days_early [of "year + 1"] d4 by (simp add: daysInYear_eq y)
  next
    case turn
    then show ?thesis using days_early [of 1601] days_late [of 1602] by (simp add: daysInYear_eq isLeapYear_def)
  next
    case gregorian
    define q where "q = year - 1601"
    have q: "year = q + 1601" using gregorian by (simp add: q_def)
    have steps: "(q + 1) div 4 = q div 4 + (if (q + 1) mod 4 = 0 then 1 else 0)"
      "(q + 1) div 100 = q div 100 + (if (q + 1) mod 100 = 0 then 1 else 0)"
      "(q + 1) div 400 = q div 400 + (if (q + 1) mod 400 = 0 then 1 else 0)"
      using div_step [of 4 q] div_step [of 100 q] div_step [of 400 q] by simp_all
    have m: "(q + 1) mod 4 = year mod 4" "(q + 1) mod 100 = year mod 100" "(q + 1) mod 400 = year mod 400"
      using mod_add_multiple [of 4 1600 "q + 1"] mod_add_multiple [of 100 1600 "q + 1"] mod_add_multiple [of 400 1600 "q + 1"]
      by (simp_all add: q add.commute)
    have imp: "year mod 400 = 0 \<Longrightarrow> year mod 100 = 0" "year mod 100 = 0 \<Longrightarrow> year mod 4 = 0"
      using dvd_trans [of 100 400 year] dvd_trans [of 4 100 year] by (simp_all add: mod_eq_0_iff_dvd)
    have "daysInPreviousYears (year + 1) + (q + 1) div 100 = 584390 + 365 * (q + 1) + (q + 1) div 4 + (q + 1) div 400"
      "daysInPreviousYears year + q div 100 = 584390 + 365 * q + q div 4 + q div 400"
      using days_late [of year] days_late [of "year + 1"] gregorian by (simp_all add: q)
    then show ?thesis
      unfolding steps m using imp gregorian by (auto simp: daysInYear_eq isLeapYear_def split: if_splits)
  qed
qed

section \<open>Searching the year\<close>

lemma daysInYear_pos: "355 \<le> daysInYear year"
  by (simp add: daysInYear_eq)

lemma days_mono_step: "1 \<le> year \<Longrightarrow> year + n \<le> 10000 \<Longrightarrow> daysInPreviousYears year + n \<le> daysInPreviousYears (year + n)"
proof (induction n)
  case (Suc n)
  then show ?case using days_next_year [of "year + n"] daysInYear_pos [of "year + n"] by simp
qed simp

lemma days_less: "1 \<le> a \<Longrightarrow> a < b \<Longrightarrow> b \<le> 10000 \<Longrightarrow> daysInPreviousYears a < daysInPreviousYears b"
  using days_mono_step [of a "b - a"] by simp

lemma days_le: "1 \<le> a \<Longrightarrow> a \<le> b \<Longrightarrow> b \<le> 10000 \<Longrightarrow> daysInPreviousYears a \<le> daysInPreviousYears b"
  using days_mono_step [of a "b - a"] by simp

lemma days_first: "daysInPreviousYears 1 = 0"
  by (simp add: days_early)

lemma days_total: "daysInPreviousYears 10000 = 3652061"
  using days_late [of 10000] by simp

text \<open>The search ends at the last year of the window whose start is not after the day.\<close>

lemma year_search_spec:
  assumes "1 \<le> lower" "lower \<le> upper + 1" "upper \<le> 9999"
    and "\<And>y. 1 \<le> y \<Longrightarrow> y < lower \<Longrightarrow> daysInPreviousYears y \<le> ordinal"
    and "\<And>y. upper < y \<Longrightarrow> y \<le> 10000 \<Longrightarrow> ordinal < daysInPreviousYears y"
    and "1 \<le> y" "y \<le> 9999" "daysInPreviousYears y \<le> ordinal" "ordinal < daysInPreviousYears (y + 1)"
  shows "year_search ordinal lower upper = y"
  using assms
proof (induction ordinal lower upper rule: year_search.induct)
  case (1 ordinal lower upper)
  define candidate where "candidate = (lower + upper) div 2"
  show ?case
  proof (cases "lower \<le> upper")
    case False
    have "y \<le> upper" using "1.prems"(5) [of y] "1.prems"(7,8) by (cases "upper < y") simp_all
    moreover have "\<not> y + 1 < lower" using "1.prems"(4) [of "y + 1"] "1.prems"(9) by (cases "y + 1 < lower") simp_all
    ultimately have "y = upper" using False "1.prems"(2) by linarith
    then show ?thesis using False by (simp add: year_search.simps [of ordinal lower upper])
  next
    case True
    then have c: "lower \<le> candidate" "candidate \<le> upper" by (simp_all add: candidate_def)
    show ?thesis
    proof (cases "daysInPreviousYears candidate \<le> ordinal")
      case low: True
      have "year_search ordinal (candidate + 1) upper = y"
      proof (rule "1.IH"(1) [OF True candidate_def low])
        fix z assume "1 \<le> z" "z < candidate + 1"
        then show "daysInPreviousYears z \<le> ordinal" using days_le [of z candidate] low c "1.prems"(3) by simp
      qed (use "1.prems" c in auto)
      then show ?thesis using True low by (simp add: year_search.simps [of ordinal lower upper] candidate_def Let_def)
    next
      case high: False
      have nz: "candidate \<noteq> 0" using c "1.prems"(1) by simp
      have "year_search ordinal lower (candidate - 1) = y"
      proof (rule "1.IH"(2) [OF True candidate_def high nz])
        fix z assume "candidate - 1 < z" "z \<le> 10000"
        then have "candidate \<le> z" "1 \<le> candidate" using nz by auto
        then show "ordinal < daysInPreviousYears z" using days_le [of candidate z] high \<open>z \<le> 10000\<close> by simp
      qed (use "1.prems" c in auto)
      then show ?thesis using True high nz by (simp add: year_search.simps [of ordinal lower upper] candidate_def Let_def)
    qed
  qed
qed

lemma year_search_year:
  assumes "1 \<le> year" "year \<le> 9999" "r < daysInYear year"
  shows "year_search (daysInPreviousYears year + r) 1 9999 = year"
proof (rule year_search_spec)
  fix y assume "9999 < y" "y \<le> (10000::nat)"
  then have "y = 10000" by simp
  then show "daysInPreviousYears year + r < daysInPreviousYears y"
    using days_le [of "year + 1" 10000] days_next_year [of year] assms by simp
qed (use assms days_next_year [of year] in auto)

section \<open>Searching the month\<close>

definition daysBefore :: "nat \<Rightarrow> nat \<Rightarrow> nat" where
  "daysBefore year month = sum_list (map (daysInMonth year) [1..<month])"

lemma daysBefore_Suc: "1 \<le> month \<Longrightarrow> daysBefore year (month + 1) = daysBefore year month + daysInMonth year month"
  by (simp add: daysBefore_def)

lemma daysBefore_13: "daysBefore year 13 = daysInYear year"
  by (simp only: daysBefore_def daysInYear_def)

lemma daysBefore_1: "daysBefore year 1 = 0"
  by (simp add: daysBefore_def)

lemma daysBefore_mono: "1 \<le> month \<Longrightarrow> month \<le> n \<Longrightarrow> daysBefore year month \<le> daysBefore year n"
proof (induction n)
  case (Suc n)
  then show ?case
  proof (cases "month = Suc n")
    case False
    then show ?thesis using Suc daysBefore_Suc [of n year] by simp
  qed simp
qed simp

lemma month_search_reaches:
  assumes "month + k \<le> 12" "1 \<le> month" "r < daysInMonth year (month + k)"
  shows "month_search year (daysBefore year (month + k) - daysBefore year month + r) month = (month + k, r)"
  using assms
proof (induction k arbitrary: month)
  case 0
  then show ?case by (simp add: month_search.simps [of year r])
next
  case (Suc k)
  let ?rest = "daysBefore year (month + Suc k) - daysBefore year month + r"
  have step: "daysBefore year (month + 1) = daysBefore year month + daysInMonth year month" using daysBefore_Suc Suc.prems by blast
  have mono: "daysBefore year (month + 1) \<le> daysBefore year (month + Suc k)" by (rule daysBefore_mono) (use Suc.prems in simp_all)
  have over: "\<not> ?rest < daysInMonth year month" and rest: "?rest - daysInMonth year month = daysBefore year (month + 1 + k) - daysBefore year (month + 1) + r"
    using step mono by simp_all
  have "month_search year ?rest month = month_search year (?rest - daysInMonth year month) (month + 1)"
    using Suc.prems over by (subst month_search.simps) simp
  then show ?case using Suc.IH [of "month + 1"] Suc.prems unfolding rest by simp
qed

lemma month_search_month:
  assumes "1 \<le> month" "month \<le> 12" "r < daysInMonth year month"
  shows "month_search year (daysBefore year month + r) 1 = (month, r)"
  using month_search_reaches [of 1 "month - 1" r year] assms by (simp add: daysBefore_def)

text \<open>Every day of the year lies in one month.\<close>

lemma month_exists:
  assumes "r < daysBefore year (n + 1)"
  shows "\<exists>month s. 1 \<le> month \<and> month \<le> n \<and> s < daysInMonth year month \<and> r = daysBefore year month + s"
  using assms
proof (induction n)
  case 0
  then show ?case using daysBefore_1 by simp
next
  case (Suc n)
  show ?case
  proof (cases "r < daysBefore year (n + 1)")
    case True
    then show ?thesis using Suc.IH by (meson le_SucI)
  next
    case False
    have "r < daysBefore year (n + 1) + daysInMonth year (n + 1)" using Suc.prems daysBefore_Suc [of "n + 1" year] by simp
    then show ?thesis
      using False by (intro exI [of _ "n + 1"] exI [of _ "r - daysBefore year (n + 1)"]) simp
  qed
qed

lemma year_exists:
  assumes "ordinal < daysInPreviousYears (n + 1)" "n \<le> 9999"
  shows "\<exists>year s. 1 \<le> year \<and> year \<le> n \<and> s < daysInYear year \<and> ordinal = daysInPreviousYears year + s"
  using assms
proof (induction n)
  case 0
  then show ?case using days_first by simp
next
  case (Suc n)
  show ?case
  proof (cases "ordinal < daysInPreviousYears (n + 1)")
    case True
    then show ?thesis using Suc.IH Suc.prems(2) by (meson le_SucI Suc_leD)
  next
    case False
    have "ordinal < daysInPreviousYears (n + 1) + daysInYear (n + 1)" using Suc.prems days_next_year [of "n + 1"] by simp
    then show ?thesis
      using False by (intro exI [of _ "n + 1"] exI [of _ "ordinal - daysInPreviousYears (n + 1)"]) simp
  qed
qed

section \<open>Dates and day numbers\<close>

definition valid_date :: "calendar_date \<Rightarrow> bool" where
  "valid_date date \<longleftrightarrow> parseDateParts (cd_year date) (cd_month date) (cd_day date) = Inr date"

text \<open>A day of a month counted from zero, without the gap.\<close>

definition day_index :: "calendar_date \<Rightarrow> nat" where
  "day_index date = (if cd_year date = 1582 \<and> cd_month date = 10 \<and> cd_day date \<ge> 15 then cd_day date - 10 else cd_day date) - 1"

definition index_day :: "nat \<Rightarrow> nat \<Rightarrow> nat \<Rightarrow> nat" where
  "index_day year month r = (if year = 1582 \<and> month = 10 \<and> r + 1 > 4 then r + 1 + 10 else r + 1)"

lemma parseDateParts_ok:
  "(parseDateParts year month day = Inr date) \<longleftrightarrow> date = \<lparr>cd_year = year, cd_month = month, cd_day = day\<rparr> \<and>
     1 \<le> year \<and> year \<le> 9999 \<and> 1 \<le> month \<and> month \<le> 12 \<and>
     1 \<le> day \<and> (if year = 1582 \<and> month = 10 then day \<le> 31 \<and> \<not> (5 \<le> day \<and> day \<le> 14) else day \<le> daysInMonth year month)"
proof (cases "year = 1582 \<and> month = 10")
  case True
  then show ?thesis by (auto simp: parseDateParts_def daysByMonth_def)
next
  case False
  define conventionalMax where
    "conventionalMax = (if month = 2 then (if isLeapYear year then 29 else 28) else daysByMonth ! (month - 1))"
  have "daysInMonth year month = conventionalMax" using False by (auto simp: daysInMonth_def conventionalMax_def)
  then show ?thesis using False unfolding parseDateParts_def Let_def conventionalMax_def [symmetric] by auto
qed

lemma valid_date_iff:
  "valid_date date \<longleftrightarrow> 1 \<le> cd_year date \<and> cd_year date \<le> 9999 \<and> 1 \<le> cd_month date \<and> cd_month date \<le> 12 \<and>
     day_index date < daysInMonth (cd_year date) (cd_month date) \<and> cd_day date = index_day (cd_year date) (cd_month date) (day_index date)"
proof (cases "cd_year date = 1582 \<and> cd_month date = 10")
  case True
  then have "daysInMonth (cd_year date) (cd_month date) = 21" by (simp add: daysInMonth_def)
  then show ?thesis
    using True unfolding valid_date_def parseDateParts_ok day_index_def index_day_def by (cases date) auto
next
  case False
  then have "day_index date = cd_day date - 1" "\<And>r. index_day (cd_year date) (cd_month date) r = r + 1"
    by (auto simp: day_index_def index_day_def)
  then show ?thesis using False unfolding valid_date_def parseDateParts_ok by (cases date) auto
qed

lemma dateOrdinal_split:
  assumes "valid_date date"
  shows "dateOrdinal date = daysInPreviousYears (cd_year date) + (daysBefore (cd_year date) (cd_month date) + day_index date)"
proof -
  have "1 \<le> cd_day date" using assms by (simp add: valid_date_def parseDateParts_ok)
  then show ?thesis by (auto simp: dateOrdinal_def daysBefore_def day_index_def Let_def)
qed

lemma date_of_parts:
  assumes "1 \<le> year" "year \<le> 9999" "1 \<le> month" "month \<le> 12" "s < daysInMonth year month"
  shows "dateFromOrdinal (daysInPreviousYears year + (daysBefore year month + s)) =
     \<lparr>cd_year = year, cd_month = month, cd_day = index_day year month s\<rparr>"
proof -
  have "daysBefore year month + s < daysBefore year (month + 1)" using daysBefore_Suc [of month year] assms by simp
  also have "\<dots> \<le> daysInYear year" using daysBefore_mono [of "month + 1" 13 year] assms daysBefore_13 by simp
  finally have "year_search (daysInPreviousYears year + (daysBefore year month + s)) 1 9999 = year"
    by (rule year_search_year [OF assms(1,2)])
  then show ?thesis
    unfolding dateFromOrdinal_def Let_def using month_search_month [OF assms(3,4,5)] by (simp add: index_day_def)
qed

lemma date_of_ordinal: "valid_date date \<Longrightarrow> dateFromOrdinal (dateOrdinal date) = date"
  by (cases date) (auto simp: dateOrdinal_split valid_date_iff date_of_parts)

lemma index_day_index:
  assumes "s < daysInMonth year month"
  shows "day_index \<lparr>cd_year = year, cd_month = month, cd_day = index_day year month s\<rparr> = s"
  by (auto simp: day_index_def index_day_def)

lemma ordinal_date:
  assumes "ordinal < 3652061"
  shows "valid_date (dateFromOrdinal ordinal) \<and> dateOrdinal (dateFromOrdinal ordinal) = ordinal"
proof -
  obtain year s where y: "1 \<le> year" "year \<le> 9999" "s < daysInYear year" "ordinal = daysInPreviousYears year + s"
    using year_exists [of ordinal 9999] assms days_total by auto
  obtain month r where m: "1 \<le> month" "month \<le> 12" "r < daysInMonth year month" "s = daysBefore year month + r"
    using month_exists [of s year 12] y(3) daysBefore_13 by auto
  have d: "dateFromOrdinal ordinal = \<lparr>cd_year = year, cd_month = month, cd_day = index_day year month r\<rparr>"
    unfolding y(4) m(4) by (rule date_of_parts) (fact y m)+
  have v: "valid_date (dateFromOrdinal ordinal)" unfolding d valid_date_iff using y m by (simp add: index_day_index)
  show ?thesis using v dateOrdinal_split [OF v] unfolding d by (simp add: index_day_index [OF m(3)] y(4) m(4))
qed

lemma dateOrdinal_bound:
  assumes "valid_date date"
  shows "dateOrdinal date < 3652061"
proof -
  let ?y = "cd_year date" and ?m = "cd_month date"
  have v: "1 \<le> ?y" "?y \<le> 9999" "1 \<le> ?m" "?m \<le> 12" "day_index date < daysInMonth ?y ?m" using assms by (simp_all add: valid_date_iff)
  have "daysBefore ?y ?m + day_index date < daysBefore ?y (?m + 1)" using daysBefore_Suc [of ?m ?y] v by simp
  also have "\<dots> \<le> daysInYear ?y" using daysBefore_mono [of "?m + 1" 13 ?y] v daysBefore_13 by simp
  finally have "dateOrdinal date < daysInPreviousYears (?y + 1)" using dateOrdinal_split [OF assms] days_next_year v by simp
  also have "\<dots> \<le> 3652061" using days_le [of "?y + 1" 10000] v days_total by simp
  finally show ?thesis .
qed

text \<open>
  Dates and day numbers correspond one to one: \<open>dateOrdinal\<close> maps the dates that \<open>parseDateParts\<close> accepts (years 1 to
  9999, the days of October 1582 that exist) onto the numbers below 3652061, in both directions with \<open>dateFromOrdinal\<close>,
  whose binary search always finds the year.
\<close>

theorem calendar_bijection:
  "bij_betw dateOrdinal {date. parseDateParts (cd_year date) (cd_month date) (cd_day date) = Inr date} {..<3652061} \<and>
   (\<forall>date. parseDateParts (cd_year date) (cd_month date) (cd_day date) = Inr date \<longrightarrow> dateFromOrdinal (dateOrdinal date) = date)"
proof
  have v: "{date. parseDateParts (cd_year date) (cd_month date) (cd_day date) = Inr date} = {date. valid_date date}"
    by (simp add: valid_date_def)
  show "bij_betw dateOrdinal {date. parseDateParts (cd_year date) (cd_month date) (cd_day date) = Inr date} {..<3652061}"
    unfolding v by (rule bij_betw_byWitness [of _ dateFromOrdinal]) (auto simp: date_of_ordinal ordinal_date dateOrdinal_bound)
qed (simp add: date_of_ordinal valid_date_def)

theorem calendar_bijection_witness:
  "dateFromOrdinal (dateOrdinal \<lparr>cd_year = 1582, cd_month = 10, cd_day = 15\<rparr>) = \<lparr>cd_year = 1582, cd_month = 10, cd_day = 15\<rparr>"
  using calendar_bijection by (simp add: parseDateParts_def daysByMonth_def)

end
