(* ===== verification/Calendar_Week.thy ===== *)
theory Calendar_Week
  imports Calendar
begin

text \<open>
  Package \<open>value\<close>, file \<open>classic_temporal.go\<close> (weeks): the years with a week 53, week numbers and their inverse by binary
  search. The table \<open>yearsWithWeek53\<close>, which the code fills when the package is initialised, is the list itself.
\<close>

definition calendarYearHasWeek53 :: "nat \<Rightarrow> bool" where
  "calendarYearHasWeek53 year =
     (let januaryFirst = (5 + daysInPreviousYears year) mod 7 in
      januaryFirst = 3 \<or> januaryFirst = 2 \<and> isLeapYear year)"

definition yearsWithWeek53 :: "nat list" where
  "yearsWithWeek53 = filter calendarYearHasWeek53 [1..<10000]"

function prior_search :: "nat list \<Rightarrow> nat \<Rightarrow> nat \<Rightarrow> nat \<Rightarrow> nat" where
  "prior_search years year lower upper =
     (if lower < upper then
        let middle = (lower + upper) div 2 in
        if years ! middle < year then prior_search years year (middle + 1) upper
        else prior_search years year lower middle
      else lower)"
  by pat_completeness auto
termination
  by (relation "measure (\<lambda>(years, year, lower, upper). upper - lower)") (auto simp: Let_def)

declare prior_search.simps [simp del]

definition priorWeek53Count :: "nat \<Rightarrow> nat" where
  "priorWeek53Count year = prior_search yearsWithWeek53 year 0 (length yearsWithWeek53)"

definition weekOrdinal :: "nat \<Rightarrow> nat \<Rightarrow> temporal_error + nat" where
  "weekOrdinal year week =
     (if year = 0 then (if week = 53 then Inr 0 else Inl ErrTemporal)
      else let priorLongYears = priorWeek53Count year in
        if week = 53 \<and> (priorLongYears \<ge> length yearsWithWeek53 \<or> yearsWithWeek53 ! priorLongYears \<noteq> year)
        then Inl ErrTemporal
        else Inr (priorLongYears * 53 + (year - 1 - priorLongYears) * 52 + week))"

function week_year_search :: "nat \<Rightarrow> nat \<Rightarrow> nat \<Rightarrow> nat" where
  "week_year_search ordinal lower upper =
     (if lower < upper then
        let year = (lower + upper) div 2;
            throughYear = year * 52 + priorWeek53Count (year + 1) in
        if ordinal \<le> throughYear then week_year_search ordinal lower year
        else week_year_search ordinal (year + 1) upper
      else lower)"
  by pat_completeness auto
termination
  by (relation "measure (\<lambda>(ordinal, lower, upper). upper - lower)") (auto simp: Let_def)

declare week_year_search.simps [simp del]

definition weekFromOrdinal :: "nat \<Rightarrow> nat \<times> nat" where
  "weekFromOrdinal ordinal =
     (if ordinal = 0 then (0, 53)
      else let year = week_year_search ordinal 1 9999;
               beforeYear = (year - 1) * 52 + priorWeek53Count year
           in (year, ordinal - beforeYear))"

section \<open>The table\<close>

definition longYears :: "nat \<Rightarrow> nat \<Rightarrow> nat" where
  "longYears a b = length (filter calendarYearHasWeek53 [a..<b])"

lemma longYears_split: "a \<le> b \<Longrightarrow> b \<le> c \<Longrightarrow> longYears a c = longYears a b + longYears b c"
  unfolding longYears_def using upt_add_eq_append [of a b "c - b"] by simp

lemma longYears_Suc: "a \<le> b \<Longrightarrow> longYears a (b + 1) = longYears a b + (if calendarYearHasWeek53 b then 1 else 0)"
  by (simp add: longYears_def)

lemma longYears_le: "longYears a b \<le> b - a"
  unfolding longYears_def by (metis length_filter_le length_upt)

lemma table_split:
  assumes "1 \<le> year" "year \<le> 10000"
  shows "yearsWithWeek53 = filter calendarYearHasWeek53 [1..<year] @ filter calendarYearHasWeek53 [year..<10000]"
  using upt_add_eq_append [of 1 year "10000 - year"] assms by (simp add: yearsWithWeek53_def)

lemma table_nth_less:
  assumes "1 \<le> year" "year \<le> 10000" "i < length yearsWithWeek53"
  shows "yearsWithWeek53 ! i < year \<longleftrightarrow> i < longYears 1 year"
proof (cases "i < longYears 1 year")
  case True
  then have "yearsWithWeek53 ! i \<in> set (filter calendarYearHasWeek53 [1..<year])"
    unfolding table_split [OF assms(1,2)] longYears_def by (simp only: nth_append if_True nth_mem)
  then show ?thesis using True by simp
next
  case False
  let ?late = "filter calendarYearHasWeek53 [year..<10000]"
  have "yearsWithWeek53 ! i = ?late ! (i - longYears 1 year)"
    using False unfolding table_split [OF assms(1,2)] longYears_def by (simp add: nth_append)
  moreover have "i - longYears 1 year < length ?late"
    using False assms(3) unfolding table_split [OF assms(1,2)] longYears_def by simp
  ultimately have "yearsWithWeek53 ! i \<in> set ?late" using nth_mem by metis
  then show ?thesis using False by auto
qed

lemma prior_search_spec:
  assumes "\<And>i. i < n \<Longrightarrow> years ! i < year \<longleftrightarrow> i < c" "lower \<le> c" "c \<le> upper" "upper \<le> n"
  shows "prior_search years year lower upper = c"
  using assms
proof (induction years year lower upper rule: prior_search.induct)
  case (1 years year lower upper)
  define middle where "middle = (lower + upper) div 2"
  show ?case
  proof (cases "lower < upper")
    case True
    then have m: "lower \<le> middle" "middle < upper" by (auto simp: middle_def)
    have less: "years ! middle < year \<longleftrightarrow> middle < c" using "1.prems"(1,4) m by simp
    show ?thesis
    proof (cases "years ! middle < year")
      case low: True
      have "prior_search years year (middle + 1) upper = c"
        by (rule "1.IH"(1) [OF True middle_def low "1.prems"(1)]) (use less low "1.prems" in auto)
      then show ?thesis using True low by (simp add: prior_search.simps [of years year lower upper] middle_def Let_def)
    next
      case high: False
      have "prior_search years year lower middle = c"
        by (rule "1.IH"(2) [OF True middle_def high "1.prems"(1)]) (use less high m "1.prems" in auto)
      then show ?thesis using True high by (simp add: prior_search.simps [of years year lower upper] middle_def Let_def)
    qed
  next
    case False
    then show ?thesis using "1.prems"(2,3) by (simp add: prior_search.simps [of years year lower upper])
  qed
qed

lemma prior_longYears: "1 \<le> year \<Longrightarrow> year \<le> 10000 \<Longrightarrow> priorWeek53Count year = longYears 1 year"
  unfolding priorWeek53Count_def
proof (rule prior_search_spec [where n = "length yearsWithWeek53"])
  assume y: "1 \<le> year" "year \<le> 10000"
  show "longYears 1 year \<le> length yearsWithWeek53" unfolding longYears_def table_split [OF y] by simp
qed (use table_nth_less in auto)

lemma table_at:
  assumes "1 \<le> year" "year \<le> 9999"
  shows "(longYears 1 year \<ge> length yearsWithWeek53 \<or> yearsWithWeek53 ! longYears 1 year \<noteq> year) \<longleftrightarrow> \<not> calendarYearHasWeek53 year"
proof -
  let ?i = "longYears 1 year"
  have cons: "[year..<10000] = year # [year + 1..<10000]" using assms by (simp add: upt_conv_Cons)
  show ?thesis
  proof (cases "calendarYearHasWeek53 year")
    case True
    then have late: "yearsWithWeek53 = filter calendarYearHasWeek53 [1..<year] @ year # filter calendarYearHasWeek53 [year + 1..<10000]"
      using table_split [of year] assms unfolding cons by simp
    show ?thesis using True unfolding longYears_def late by simp
  next
    case False
    then have late: "yearsWithWeek53 = filter calendarYearHasWeek53 [1..<year] @ filter calendarYearHasWeek53 [year + 1..<10000]"
      using table_split [of year] assms unfolding cons by simp
    have "yearsWithWeek53 ! ?i \<noteq> year" if "?i < length yearsWithWeek53"
    proof -
      have "?i < longYears 1 (year + 1) \<longleftrightarrow> yearsWithWeek53 ! ?i < year + 1"
        using table_nth_less [of "year + 1" ?i] that assms by simp
      then show ?thesis using False longYears_Suc [of 1 year] assms by auto
    qed
    then show ?thesis using False by auto
  qed
qed

section \<open>Counting the long years\<close>

text \<open>Weekdays repeat after 28 Julian years and after 400 Gregorian ones.\<close>

lemma week_shift:
  assumes "daysInPreviousYears (year + k) = daysInPreviousYears year + 7 * m" "isLeapYear (year + k) \<longleftrightarrow> isLeapYear year"
  shows "calendarYearHasWeek53 (year + k) = calendarYearHasWeek53 year"
proof -
  have "(5 + (daysInPreviousYears year + 7 * m)) mod 7 = (5 + daysInPreviousYears year) mod 7"
    by (metis add.assoc mod_mult_self2)
  then show ?thesis using assms by (simp add: calendarYearHasWeek53_def)
qed

lemma julian_cycle:
  assumes "1 \<le> year" "year + 28 < 1582"
  shows "calendarYearHasWeek53 (year + 28) = calendarYearHasWeek53 year"
proof (rule week_shift [where m = 1461])
  have "year + 28 - 1 = year - 1 + 7 * 4" using assms(1) by simp
  then have "(year + 28 - 1) div 4 = (year - 1) div 4 + 7" by simp
  then show "daysInPreviousYears (year + 28) = daysInPreviousYears year + 7 * 1461"
    using days_early [of year] days_early [of "year + 28"] assms by simp
  show "isLeapYear (year + 28) \<longleftrightarrow> isLeapYear year"
    using mod_add_multiple [of 4 28 year] assms(2) by (simp add: isLeapYear_def)
qed

lemma div_add_multiple: "0 < k \<Longrightarrow> (n + k * m) div k = n div k + m" for k m n :: nat
  by simp

lemma gregorian_cycle:
  assumes "1601 < year"
  shows "calendarYearHasWeek53 (year + 400) = calendarYearHasWeek53 year"
proof (rule week_shift [where m = 20871])
  define q where "q = year - 1601"
  have q: "year + 400 - 1601 = q + 400" "year - 1601 = q" using assms by (simp_all add: q_def)
  have "(q + 400) div 4 = q div 4 + 100" "(q + 400) div 100 = q div 100 + 4" "(q + 400) div 400 = q div 400 + 1"
    using div_add_multiple [of 4 q 100] div_add_multiple [of 100 q 4] div_add_multiple [of 400 q 1] by simp_all
  then show "daysInPreviousYears (year + 400) = daysInPreviousYears year + 7 * 20871"
    using days_late [OF assms] days_late [of "year + 400"] assms unfolding q by simp
  show "isLeapYear (year + 400) \<longleftrightarrow> isLeapYear year"
    using mod_add_multiple [of 4 400 year] mod_add_multiple [of 100 400 year] mod_add_multiple [of 400 400 year] assms
    unfolding isLeapYear_def by simp
qed

lemma longYears_shift:
  assumes "\<And>year. a \<le> year \<Longrightarrow> year < b \<Longrightarrow> calendarYearHasWeek53 (year + k) = calendarYearHasWeek53 year" "a \<le> b"
  shows "longYears (a + k) (b + k) = longYears a b"
  using assms(2,1)
proof (induction b rule: dec_induct)
  case (step n)
  then show ?case using longYears_Suc [of a n] longYears_Suc [of "a + k" "n + k"] by simp
qed (simp add: longYears_def)

lemma longYears_cycles:
  assumes "\<And>year. a \<le> year \<Longrightarrow> year + k < b \<Longrightarrow> calendarYearHasWeek53 (year + k) = calendarYearHasWeek53 year"
    and "a + n * k \<le> b"
  shows "longYears a (a + n * k) = n * longYears a (a + k)"
  using assms(2)
proof (induction n)
  case (Suc n)
  have same: "longYears (a + j * k) (a + j * k + k) = longYears a (a + k)" if "j \<le> n" for j
    using that
  proof (induction j)
    case (Suc j)
    have "longYears (a + j * k + k) (a + j * k + k + k) = longYears (a + j * k) (a + j * k + k)"
    proof (rule longYears_shift)
      fix year assume y: "a + j * k \<le> year" "year < a + j * k + k"
      have "Suc (Suc j) * k \<le> Suc n * k" by (rule mult_le_mono1) (use Suc.prems in simp)
      then have "year + k < b" using y \<open>a + Suc n * k \<le> b\<close> by simp
      then show "calendarYearHasWeek53 (year + k) = calendarYearHasWeek53 year" using assms(1) y by simp
    qed simp
    then show ?case using Suc by (simp add: algebra_simps)
  qed simp
  have "longYears a (a + Suc n * k) = longYears a (a + n * k) + longYears (a + n * k) (a + n * k + k)"
    using longYears_split [of a "a + n * k" "a + n * k + k"] by (simp add: algebra_simps)
  then show ?case using Suc same [of n] by simp
qed (simp add: longYears_def)

text \<open>A count that carries the weekday of the first of January along.\<close>

function tally :: "nat \<Rightarrow> nat \<Rightarrow> nat \<Rightarrow> nat \<Rightarrow> nat" where
  "tally year day stop acc =
     (if year < stop then
        (if isLeapYear year then tally (year + 1) ((day + 2) mod 7) stop (if day = 5 \<or> day = 4 then acc + 1 else acc)
         else tally (year + 1) ((day + 1) mod 7) stop (if day = 5 then acc + 1 else acc))
      else acc)"
  by pat_completeness auto
termination by (relation "measure (\<lambda>(year, day, stop, acc). stop - year)") auto

declare tally.simps [simp del]

lemma week_of_day: "calendarYearHasWeek53 year \<longleftrightarrow> daysInPreviousYears year mod 7 = 5 \<or> daysInPreviousYears year mod 7 = 4 \<and> isLeapYear year"
proof -
  define d where "d = daysInPreviousYears year mod 7"
  have "d < 7" by (simp add: d_def)
  then have "d \<in> {0, 1, 2, 3, 4, 5, 6}" by auto
  then have "(5 + d) mod 7 = 3 \<longleftrightarrow> d = 5" "(5 + d) mod 7 = 2 \<longleftrightarrow> d = 4" by auto
  moreover have "(5 + daysInPreviousYears year) mod 7 = (5 + d) mod 7" by (simp add: d_def mod_simps)
  ultimately show ?thesis by (simp add: calendarYearHasWeek53_def d_def)
qed

lemma tally_longYears:
  assumes "1 \<le> year" "year \<le> stop" "stop \<le> 10000" "1582 \<notin> {year..<stop}"
  shows "tally year (daysInPreviousYears year mod 7) stop acc = acc + longYears year stop"
  using assms
proof (induction "stop - year" arbitrary: year acc)
  case 0
  then show ?case by (simp add: tally.simps longYears_def)
next
  case (Suc n)
  then have less: "year < stop" and no: "year \<noteq> 1582" by auto
  have nxt: "daysInPreviousYears (year + 1) mod 7 = (daysInPreviousYears year mod 7 + (if isLeapYear year then 2 else 1)) mod 7"
    using days_next_year [of year] Suc.prems less no mod_add_eq [of "daysInPreviousYears year" 7 366] mod_add_eq [of "daysInPreviousYears year" 7 365]
    by (auto simp: daysInYear_eq mod_simps split: if_splits)
  have split: "longYears year stop = (if calendarYearHasWeek53 year then 1 else 0) + longYears (year + 1) stop"
    using less by (simp add: longYears_def upt_conv_Cons)
  have IH: "tally (year + 1) (daysInPreviousYears (year + 1) mod 7) stop a = a + longYears (year + 1) stop" for a
    by (rule Suc.hyps(1)) (use Suc.prems Suc.hyps(2) less in auto)
  obtain d where d: "daysInPreviousYears year mod 7 = d" by simp
  show ?case
    using IH unfolding split nxt week_of_day d
    by (subst tally.simps) (cases "isLeapYear year"; simp add: less)
qed

lemma longYears_28: "longYears 1 29 = 5"
proof -
  have "tally 2 1 29 0 = 5" by (simp add: tally.simps isLeapYear_def)
  then have "longYears 2 29 = 5" using tally_longYears [of 2 29 0] by (simp add: days_early)
  moreover have "longYears 1 2 = 0" by (simp add: longYears_def upt_rec week_of_day days_early isLeapYear_def)
  ultimately show ?thesis using longYears_split [of 1 2 29] by simp
qed

lemma longYears_turn: "longYears 1569 1602 = 5"
proof -
  have "tally 1569 0 1582 0 = 2" "tally 1583 0 1602 0 = 3" by (simp_all add: tally.simps isLeapYear_def)
  then have "longYears 1569 1582 = 2" "longYears 1583 1602 = 3"
    using tally_longYears [of 1569 1582 0] tally_longYears [of 1583 1602 0] by (simp_all add: days_early)
  moreover have "longYears 1582 1583 = 0" by (simp add: longYears_def upt_rec week_of_day days_early isLeapYear_def)
  ultimately show ?thesis using longYears_split [of 1569 1582 1602] longYears_split [of 1582 1583 1602] by simp
qed

lemma longYears_400: "longYears 1602 2002 = 71"
proof -
  have "tally 1602 3 2002 0 = 71" by (simp add: tally.simps isLeapYear_def)
  then show ?thesis using tally_longYears [of 1602 2002 0] days_late [of 1602] by simp
qed

lemma longYears_total: "longYears 1 10000 = 1776"
proof -
  have julian: "longYears 1 1569 = 280"
    using longYears_cycles [of 1 28 1582 56] julian_cycle longYears_28 by simp
  have cycles: "longYears 1602 9602 = 1420"
    using longYears_cycles [of 1602 400 9602 20] gregorian_cycle longYears_400 by simp
  have rest: "longYears 9602 10002 = 71"
    using longYears_cycles [of 1602 400 10002 21] gregorian_cycle longYears_400 cycles longYears_split [of 1602 9602 10002] by simp
  have tail: "longYears 10000 10002 = 0"
  proof -
    have "\<not> calendarYearHasWeek53 10000" "\<not> calendarYearHasWeek53 10001"
      using days_late [of 10000] days_late [of 10001] by (simp_all add: week_of_day isLeapYear_def)
    then show ?thesis by (simp add: longYears_def upt_rec)
  qed
  show ?thesis
    using julian cycles rest tail longYears_turn longYears_split [of 1 1569 10000] longYears_split [of 1569 1602 10000]
      longYears_split [of 1602 9602 10000] longYears_split [of 9602 10000 10002] by simp
qed

section \<open>Weeks and week numbers\<close>

definition weeksBefore :: "nat \<Rightarrow> nat" where
  "weeksBefore year = (year - 1) * 52 + longYears 1 year"

definition weeksIn :: "nat \<Rightarrow> nat" where
  "weeksIn year = (if calendarYearHasWeek53 year then 53 else 52)"

lemma weeksBefore_next: "1 \<le> year \<Longrightarrow> weeksBefore (year + 1) = weeksBefore year + weeksIn year"
  using longYears_Suc [of 1 year] by (cases year) (auto simp: weeksBefore_def weeksIn_def)

lemma weeksBefore_le: "1 \<le> a \<Longrightarrow> a \<le> b \<Longrightarrow> weeksBefore a \<le> weeksBefore b"
  using longYears_split [of 1 a b] by (auto simp: weeksBefore_def intro!: add_mono mult_le_mono1)

lemma weeksBefore_ends: "weeksBefore 1 = 0" "weeksBefore 10000 = 521724"
  using longYears_total by (simp_all add: weeksBefore_def longYears_def)

text \<open>A valid week: the last week before year 1, or a week of a year.\<close>

definition valid_week :: "nat \<Rightarrow> nat \<Rightarrow> bool" where
  "valid_week year week \<longleftrightarrow> year = 0 \<and> week = 53 \<or> 1 \<le> year \<and> year \<le> 9999 \<and> 1 \<le> week \<and> week \<le> weeksIn year"

lemma weekOrdinal_eq:
  assumes "year \<le> 9999" "1 \<le> week" "week \<le> 53"
  shows "weekOrdinal year week = (if valid_week year week then Inr (if year = 0 then 0 else weeksBefore year + week) else Inl ErrTemporal)"
proof (cases "year = 0")
  case False
  let ?c = "longYears 1 year"
  have c: "?c \<le> year - 1" using longYears_le [of 1 year] by simp
  have "?c * 53 + (year - 1 - ?c) * 52 + week = weeksBefore year + week"
    using c by (simp add: weeksBefore_def diff_mult_distrib)
  moreover have "valid_week year week \<longleftrightarrow> \<not> (week = 53 \<and> \<not> calendarYearHasWeek53 year)"
    using False assms by (auto simp: valid_week_def weeksIn_def)
  moreover have "priorWeek53Count year = ?c" using False assms by (simp add: prior_longYears)
  ultimately show ?thesis using False table_at [of year] assms unfolding weekOrdinal_def by (simp add: Let_def)
qed (simp add: weekOrdinal_def valid_week_def)

lemma week_year_search_spec:
  assumes "1 \<le> lower" "lower \<le> year" "year \<le> upper" "upper \<le> 9999" "weeksBefore year < ordinal" "ordinal \<le> weeksBefore (year + 1)"
  shows "week_year_search ordinal lower upper = year"
  using assms
proof (induction ordinal lower upper rule: week_year_search.induct)
  case (1 ordinal lower upper)
  define middle where "middle = (lower + upper) div 2"
  define through where "through = middle * 52 + priorWeek53Count (middle + 1)"
  show ?case
  proof (cases "lower < upper")
    case True
    then have m: "lower \<le> middle" "middle < upper" by (auto simp: middle_def)
    have t: "through = weeksBefore (middle + 1)"
      using m "1.prems"(1,4) prior_longYears [of "middle + 1"] by (simp add: through_def weeksBefore_def)
    show ?thesis
    proof (cases "ordinal \<le> through")
      case low: True
      have "year \<le> middle" using weeksBefore_le [of "middle + 1" year] low t "1.prems"(5) by (cases "middle + 1 \<le> year") auto
      then have "week_year_search ordinal lower middle = year"
        using "1.IH"(1) [OF True middle_def through_def low] "1.prems" m by simp
      then show ?thesis
        using True low by (simp add: week_year_search.simps [of ordinal lower upper] middle_def through_def Let_def)
    next
      case high: False
      have "middle + 1 \<le> year" using weeksBefore_le [of "year + 1" "middle + 1"] high t "1.prems"(6) by (cases "year \<le> middle") auto
      then have "week_year_search ordinal (middle + 1) upper = year"
        using "1.IH"(2) [OF True middle_def through_def high] "1.prems" m by simp
      then show ?thesis
        using True high by (simp add: week_year_search.simps [of ordinal lower upper] middle_def through_def Let_def)
    qed
  next
    case False
    then show ?thesis using "1.prems"(2,3) by (simp add: week_year_search.simps [of ordinal lower upper])
  qed
qed

lemma week_of_ordinal:
  assumes "valid_week year week"
  shows "weekFromOrdinal (if year = 0 then 0 else weeksBefore year + week) = (year, week)"
proof (cases "year = 0")
  case False
  then have v: "1 \<le> year" "year \<le> 9999" "1 \<le> week" "week \<le> weeksIn year" using assms by (auto simp: valid_week_def)
  have "week_year_search (weeksBefore year + week) 1 9999 = year"
    using v weeksBefore_next by (intro week_year_search_spec) auto
  moreover have "(year - 1) * 52 + priorWeek53Count year = weeksBefore year" using v by (simp add: weeksBefore_def prior_longYears)
  ultimately show ?thesis using False v by (simp add: weekFromOrdinal_def Let_def)
qed (use assms in \<open>simp add: weekFromOrdinal_def valid_week_def\<close>)

lemma week_exists:
  assumes "0 < ordinal" "ordinal \<le> weeksBefore (n + 1)"
  shows "\<exists>year week. 1 \<le> year \<and> year \<le> n \<and> 1 \<le> week \<and> week \<le> weeksIn year \<and> ordinal = weeksBefore year + week"
  using assms(2)
proof (induction n)
  case 0
  then show ?case using weeksBefore_ends(1) assms(1) by simp
next
  case (Suc n)
  show ?case
  proof (cases "ordinal \<le> weeksBefore (n + 1)")
    case True
    then show ?thesis using Suc.IH by (meson le_SucI)
  next
    case False
    then have "1 \<le> n + 1 \<and> n + 1 \<le> Suc n \<and> 1 \<le> ordinal - weeksBefore (n + 1) \<and>
        ordinal - weeksBefore (n + 1) \<le> weeksIn (n + 1) \<and> ordinal = weeksBefore (n + 1) + (ordinal - weeksBefore (n + 1))"
      using Suc.prems weeksBefore_next [of "n + 1"] by auto
    then show ?thesis by blast
  qed
qed

lemma ordinal_week:
  assumes "ordinal \<le> 521724"
  shows "\<exists>year week. weekFromOrdinal ordinal = (year, week) \<and> valid_week year week \<and> ordinal = (if year = 0 then 0 else weeksBefore year + week)"
proof (cases "ordinal = 0")
  case False
  then obtain year week where w: "1 \<le> year" "year \<le> 9999" "1 \<le> week" "week \<le> weeksIn year" "ordinal = weeksBefore year + week"
    using week_exists [of ordinal 9999] weeksBefore_ends(2) assms by auto
  then have v: "valid_week year week" by (simp add: valid_week_def)
  then show ?thesis using week_of_ordinal [OF v] w by auto
qed (simp add: weekFromOrdinal_def valid_week_def)

lemma week_ordinal_bound:
  assumes "valid_week year week" "year \<noteq> 0"
  shows "weeksBefore year + week \<le> 521724"
proof -
  have "weeksBefore year + week \<le> weeksBefore (year + 1)" using weeksBefore_next [of year] assms by (auto simp: valid_week_def)
  also have "\<dots> \<le> weeksBefore 10000" using assms by (intro weeksBefore_le) (auto simp: valid_week_def)
  finally show ?thesis using weeksBefore_ends(2) by simp
qed

end
