(* ===== verification/Temporal.thy ===== *)
theory Temporal
  imports Calendar_Week Go_Decimal
begin

unbundle bit_operations_syntax

text \<open>
  Package \<open>value\<close>, file \<open>classic_temporal.go\<close> (codecs): the DATS and TIMS texts and the nine compact temporal types. An EXID is its
  string, a raw value the integer the code holds in an \<open>int64\<close>, and \<open>raw_iff_text\<close> shows that it stays within the type's maximum, so that nothing overflows. The label \<open>path\<close>
  appears in error texts only and is left out. The lemmas show that encoding and decoding are inverse.
\<close>

section \<open>Dates and times of fixed width\<close>

definition classicPattern :: "nat \<Rightarrow> gostring \<Rightarrow> bool" where
  "classicPattern w s \<longleftrightarrow> length s = w \<and> list_all digit_char s \<or> s = replicate w 0x20"

definition AssertClassicDate :: "gostring \<Rightarrow> temporal_error + unit" where
  "AssertClassicDate v = fail_if (\<not> (classicPattern 8 v \<or> v = [])) ErrTemporal"

definition AssertClassicTime :: "gostring \<Rightarrow> temporal_error + unit" where
  "AssertClassicTime v = fail_if (\<not> (classicPattern 6 v \<or> v = [])) ErrTemporal"

definition ClassicDateWireText :: "gostring \<Rightarrow> temporal_error + gostring" where
  "ClassicDateWireText v = bindE (AssertClassicDate v) (\<lambda>_. Inr (if v = [] then gostr ''        '' else v))"

definition ClassicDatePublicText :: "gostring \<Rightarrow> temporal_error + gostring" where
  "ClassicDatePublicText v =
     bindE (fail_if (\<not> classicPattern 8 v) ErrTemporal) (\<lambda>_. Inr (if v = gostr ''        '' then [] else v))"

definition ClassicTimeWireText :: "gostring \<Rightarrow> temporal_error + gostring" where
  "ClassicTimeWireText v = bindE (AssertClassicTime v) (\<lambda>_. Inr (if v = [] then gostr ''      '' else v))"

definition ClassicTimePublicText :: "gostring \<Rightarrow> temporal_error + gostring" where
  "ClassicTimePublicText v =
     bindE (fail_if (\<not> classicPattern 6 v) ErrTemporal) (\<lambda>_. Inr (if v = gostr ''      '' then [] else v))"

section \<open>The types\<close>

record temporalSpec =
  ts_name :: string
  ts_byteLength :: nat
  ts_maximumRaw :: int

definition temporalSpecs :: "string \<rightharpoonup> temporalSpec" where
  "temporalSpecs =
     [''p'' \<mapsto> \<lparr>ts_name = ''UTCLONG'', ts_byteLength = 8, ts_maximumRaw = 3155380704000000000\<rparr>,
      ''n'' \<mapsto> \<lparr>ts_name = ''UTCSECOND'', ts_byteLength = 8, ts_maximumRaw = 315538070400\<rparr>,
      ''w'' \<mapsto> \<lparr>ts_name = ''UTCMINUTE'', ts_byteLength = 8, ts_maximumRaw = 5258967840\<rparr>,
      ''d'' \<mapsto> \<lparr>ts_name = ''DTDAY'', ts_byteLength = 4, ts_maximumRaw = 3652061\<rparr>,
      ''7'' \<mapsto> \<lparr>ts_name = ''DTWEEK'', ts_byteLength = 4, ts_maximumRaw = 521725\<rparr>,
      ''x'' \<mapsto> \<lparr>ts_name = ''DTMONTH'', ts_byteLength = 4, ts_maximumRaw = 119988\<rparr>,
      ''t'' \<mapsto> \<lparr>ts_name = ''TSECOND'', ts_byteLength = 4, ts_maximumRaw = 86401\<rparr>,
      ''i'' \<mapsto> \<lparr>ts_name = ''TMINUTE'', ts_byteLength = 2, ts_maximumRaw = 1441\<rparr>,
      ''c'' \<mapsto> \<lparr>ts_name = ''CDAY'', ts_byteLength = 2, ts_maximumRaw = 366\<rparr>]"

definition utclongInitial :: gostring where "utclongInitial = gostr ''0000-00-00T00:00:00.0000000''"
definition secondsPerDay :: nat where "secondsPerDay = 86400"
definition minutesPerDay :: nat where "minutesPerDay = 1440"
definition fractionsPerSecond :: nat where "fractionsPerSecond = 10000000"
definition fractionsPerDay :: nat where "fractionsPerDay = 864000000000"

definition IsClassicTemporalExid :: "string \<Rightarrow> bool" where
  "IsClassicTemporalExid v \<longleftrightarrow> temporalSpecs v \<noteq> None"

definition temporal_specification :: "string \<Rightarrow> temporal_error + temporalSpec" where
  "temporal_specification exid = (case temporalSpecs exid of None \<Rightarrow> Inl ErrTemporal | Some spec \<Rightarrow> Inr spec)"

definition ClassicTemporalByteLength :: "string \<Rightarrow> temporal_error + nat" where
  "ClassicTemporalByteLength exid = bindE (temporal_specification exid) (\<lambda>spec. Inr (ts_byteLength spec))"

definition ClassicTemporalInitialValue :: "string \<Rightarrow> temporal_error + gostring" where
  "ClassicTemporalInitialValue exid =
     bindE (temporal_specification exid) (\<lambda>_. Inr (if exid = ''p'' then utclongInitial else []))"

section \<open>Clock times\<close>

record clockTime =
  ct_hour :: nat
  ct_minute :: nat
  ct_second :: nat

definition parseClock :: "nat \<Rightarrow> nat \<Rightarrow> nat \<Rightarrow> bool \<Rightarrow> temporal_error + clockTime" where
  "parseClock hour minute second allowEndOfDay =
     (let maxHour = (if allowEndOfDay then 24 else 23) in
      if hour > maxHour then Inl ErrTemporal
      else if minute > 59 then Inl ErrTemporal
      else if second > 59 then Inl ErrTemporal
      else if hour = 24 \<and> (minute \<noteq> 0 \<or> second \<noteq> 0) then Inl ErrTemporal
      else Inr \<lparr>ct_hour = hour, ct_minute = minute, ct_second = second\<rparr>)"

definition clockSeconds :: "clockTime \<Rightarrow> nat" where
  "clockSeconds c = ct_hour c * 3600 + ct_minute c * 60 + ct_second c"

definition formatClock :: "nat \<Rightarrow> bool \<Rightarrow> gostring" where
  "formatClock seconds includeSeconds =
     (let hour = seconds div 3600; afterHours = seconds mod 3600; minute = afterHours div 60 in
      if \<not> includeSeconds then zero_pad 2 hour @ gostr '':'' @ zero_pad 2 minute
      else zero_pad 2 hour @ gostr '':'' @ zero_pad 2 minute @ gostr '':'' @ zero_pad 2 (afterHours mod 60))"

definition formatDate :: "calendar_date \<Rightarrow> gostring" where
  "formatDate d = zero_pad 4 (cd_year d) @ gostr ''-'' @ zero_pad 2 (cd_month d) @ gostr ''-'' @ zero_pad 2 (cd_day d)"

section \<open>Raw values\<close>

definition put64le :: "64 word \<Rightarrow> bytes" where
  "put64le v = put32le (ucast v) @ put32le (ucast (drop_bit 32 v))"

definition get64le :: "bytes \<Rightarrow> 64 word" where
  "get64le b = ucast (get32le b) OR push_bit 32 (ucast (get32le (drop 4 b)))"

definition encodeRaw :: "string \<Rightarrow> int \<Rightarrow> temporal_error + bytes" where
  "encodeRaw exid raw =
     (case temporalSpecs exid of None \<Rightarrow> Inl ErrTemporal
      | Some spec \<Rightarrow>
        if raw < 0 \<or> raw > ts_maximumRaw spec then Inl ErrTemporal
        else Inr (if ts_byteLength spec = 8 then put64le (word_of_int raw)
                  else if ts_byteLength spec = 4 then put32le (word_of_int raw)
                  else put16le (word_of_int raw)))"

definition rawValue :: "string \<Rightarrow> bytes \<Rightarrow> temporal_error + int" where
  "rawValue exid v =
     (case temporalSpecs exid of None \<Rightarrow> Inl ErrTemporal
      | Some spec \<Rightarrow>
        if length v \<noteq> ts_byteLength spec then Inl ErrTemporal
        else let raw = (if ts_byteLength spec = 8 then sint (get64le v)
                        else if ts_byteLength spec = 4 then sint (get32le v) else sint (get16le v)) in
          if raw < 0 \<or> raw > ts_maximumRaw spec then Inl ErrTemporal else Inr raw)"

section \<open>Texts\<close>

definition pForm :: "piece list" where
  "pForm = [Digits 4, Mark 0x2d, Digits 2, Mark 0x2d, Digits 2, Mark 0x54, Digits 2, Mark 0x3a, Digits 2, Mark 0x3a, Digits 2,
     Mark 0x2e, Digits 7]"
definition nForm :: "piece list" where
  "nForm = [Digits 4, Mark 0x2d, Digits 2, Mark 0x2d, Digits 2, Mark 0x54, Digits 2, Mark 0x3a, Digits 2, Mark 0x3a, Digits 2]"
definition wForm :: "piece list" where
  "wForm = [Digits 4, Mark 0x2d, Digits 2, Mark 0x2d, Digits 2, Mark 0x54, Digits 2, Mark 0x3a, Digits 2]"
definition dForm :: "piece list" where
  "dForm = [Digits 4, Mark 0x2d, Digits 2, Mark 0x2d, Digits 2]"
definition weekF :: "piece list" where
  "weekF = [Digits 4, Mark 0x2d, Mark 0x57, Digits 2]"
definition xForm :: "piece list" where
  "xForm = [Digits 4, Mark 0x2d, Digits 2]"
definition tForm :: "piece list" where
  "tForm = [Digits 2, Mark 0x3a, Digits 2, Mark 0x3a, Digits 2]"
definition iForm :: "piece list" where
  "iForm = [Digits 2, Mark 0x3a, Digits 2]"
definition cForm :: "piece list" where
  "cForm = [Digits 2, Mark 0x2d, Digits 2]"

text \<open>The submatches: element 0 is the whole text, element \<open>k\<close> the group \<open>k\<close>.\<close>

definition matchForm :: "piece list \<Rightarrow> gostring \<Rightarrow> temporal_error + gostring list" where
  "matchForm form v = (case match_pieces form v of None \<Rightarrow> Inl ErrTemporal | Some gs \<Rightarrow> Inr (v # gs))"

abbreviation atoi :: "gostring \<Rightarrow> nat" where
  "atoi \<equiv> digits_value"

text \<open>The switch of \<open>EncodeClassicTemporal\<close>: the raw value of a text.\<close>

definition temporal_raw :: "string \<Rightarrow> gostring \<Rightarrow> temporal_error + int" where
  "temporal_raw exid v =
     (if exid = ''p'' then
        bindE (matchForm pForm v) (\<lambda>m.
        bindE (parseDateParts (atoi (m ! 1)) (atoi (m ! 2)) (atoi (m ! 3))) (\<lambda>date.
        bindE (parseClock (atoi (m ! 4)) (atoi (m ! 5)) (atoi (m ! 6)) False) (\<lambda>clock.
        Inr (int (dateOrdinal date * secondsPerDay + clockSeconds clock) * int fractionsPerSecond + int (atoi (m ! 7)) + 1))))
      else if exid = ''n'' then
        bindE (matchForm nForm v) (\<lambda>m.
        bindE (parseDateParts (atoi (m ! 1)) (atoi (m ! 2)) (atoi (m ! 3))) (\<lambda>date.
        bindE (parseClock (atoi (m ! 4)) (atoi (m ! 5)) (atoi (m ! 6)) False) (\<lambda>clock.
        Inr (int (dateOrdinal date * secondsPerDay + clockSeconds clock) + 1))))
      else if exid = ''w'' then
        bindE (matchForm wForm v) (\<lambda>m.
        bindE (parseDateParts (atoi (m ! 1)) (atoi (m ! 2)) (atoi (m ! 3))) (\<lambda>date.
        bindE (parseClock (atoi (m ! 4)) (atoi (m ! 5)) 0 False) (\<lambda>clock.
        Inr (int (dateOrdinal date * minutesPerDay + ct_hour clock * 60 + ct_minute clock) + 1))))
      else if exid = ''d'' then
        bindE (matchForm dForm v) (\<lambda>m.
        bindE (parseDateParts (atoi (m ! 1)) (atoi (m ! 2)) (atoi (m ! 3))) (\<lambda>date.
        Inr (int (dateOrdinal date) + 1)))
      else if exid = ''7'' then
        bindE (matchForm weekF v) (\<lambda>m.
        let year = atoi (m ! 1); week = atoi (m ! 2) in
        if week < 1 \<or> week > 53 then Inl ErrTemporal
        else bindE (weekOrdinal year week) (\<lambda>ordinal. Inr (int ordinal + 1)))
      else if exid = ''x'' then
        bindE (matchForm xForm v) (\<lambda>m.
        let year = atoi (m ! 1); month = atoi (m ! 2) in
        if year < 1 \<or> year > 9999 then Inl ErrTemporal
        else if month < 1 \<or> month > 12 then Inl ErrTemporal
        else Inr (int ((year - 1) * 12 + month)))
      else if exid = ''t'' then
        bindE (matchForm tForm v) (\<lambda>m.
        bindE (parseClock (atoi (m ! 1)) (atoi (m ! 2)) (atoi (m ! 3)) True) (\<lambda>clock.
        Inr (int (clockSeconds clock) + 1)))
      else if exid = ''i'' then
        bindE (matchForm iForm v) (\<lambda>m.
        bindE (parseClock (atoi (m ! 1)) (atoi (m ! 2)) 0 True) (\<lambda>clock.
        Inr (int (ct_hour clock * 60 + ct_minute clock) + 1)))
      else if exid = ''c'' then
        bindE (matchForm cForm v) (\<lambda>m.
        let month = atoi (m ! 1); day = atoi (m ! 2) in
        if month < 1 \<or> month > 12 then Inl ErrTemporal
        else if day < 1 \<or> day > daysByMonth ! (month - 1) then Inl ErrTemporal
        else Inr (int (day + sum_list (map (\<lambda>candidate. daysByMonth ! (candidate - 1)) [1..<month]))))
      else Inr 0)"

definition EncodeClassicTemporal :: "string \<Rightarrow> gostring \<Rightarrow> temporal_error + bytes" where
  "EncodeClassicTemporal exid v =
     bindE (temporal_specification exid) (\<lambda>_.
     if v = [] \<or> exid = ''p'' \<and> v = utclongInitial then encodeRaw exid 0
     else bindE (temporal_raw exid v) (encodeRaw exid))"

text \<open>The loop over the months of \<open>CDAY\<close>; past December the code would index outside the table.\<close>

function cday_search :: "nat \<Rightarrow> nat \<Rightarrow> nat \<times> nat" where
  "cday_search remaining month =
     (if month \<le> 12 \<and> remaining \<ge> daysByMonth ! (month - 1) then cday_search (remaining - daysByMonth ! (month - 1)) (month + 1)
      else (month, remaining))"
  by pat_completeness auto
termination
  by (relation "measure (\<lambda>(remaining, month). 13 - month)") auto

declare cday_search.simps [simp del]

definition temporal_text :: "string \<Rightarrow> nat \<Rightarrow> temporal_error + gostring" where
  "temporal_text exid ordinal =
     (if exid = ''p'' then
        let dayOrdinal = ordinal div fractionsPerDay; withinDay = ordinal mod fractionsPerDay;
            seconds = withinDay div fractionsPerSecond; fraction = withinDay mod fractionsPerSecond in
        Inr (formatDate (dateFromOrdinal dayOrdinal) @ gostr ''T'' @ formatClock seconds True @ gostr ''.'' @ zero_pad 7 fraction)
      else if exid = ''n'' then
        Inr (formatDate (dateFromOrdinal (ordinal div secondsPerDay)) @ gostr ''T'' @ formatClock (ordinal mod secondsPerDay) True)
      else if exid = ''w'' then
        let minutes = ordinal mod minutesPerDay in
        Inr (formatDate (dateFromOrdinal (ordinal div minutesPerDay)) @ gostr ''T'' @
          zero_pad 2 (minutes div 60) @ gostr '':'' @ zero_pad 2 (minutes mod 60))
      else if exid = ''d'' then Inr (formatDate (dateFromOrdinal ordinal))
      else if exid = ''7'' then
        (case weekFromOrdinal ordinal of (year, week) \<Rightarrow> Inr (zero_pad 4 year @ gostr ''-W'' @ zero_pad 2 week))
      else if exid = ''x'' then Inr (zero_pad 4 (ordinal div 12 + 1) @ gostr ''-'' @ zero_pad 2 (ordinal mod 12 + 1))
      else if exid = ''t'' then Inr (formatClock ordinal True)
      else if exid = ''i'' then Inr (zero_pad 2 (ordinal div 60) @ gostr '':'' @ zero_pad 2 (ordinal mod 60))
      else if exid = ''c'' then
        (case cday_search ordinal 1 of (month, remaining) \<Rightarrow> Inr (zero_pad 2 month @ gostr ''-'' @ zero_pad 2 (remaining + 1)))
      else Inl ErrTemporal)"

definition DecodeClassicTemporal :: "string \<Rightarrow> bytes \<Rightarrow> temporal_error + gostring" where
  "DecodeClassicTemporal exid v =
     bindE (temporal_specification exid) (\<lambda>_.
     bindE (rawValue exid v) (\<lambda>raw.
     if raw = 0 then ClassicTemporalInitialValue exid
     else temporal_text exid (nat (raw - 1))))"

section \<open>Raw values round-trip\<close>

lemma split64: "ucast (ucast v :: 32 word) OR push_bit 32 (ucast (ucast (drop_bit 32 v) :: 32 word)) = (v :: 64 word)"
  by (rule bit_word_eqI) (auto simp: bit_simps)

lemma get64le_put64le [simp]: "get64le (put64le v) = v"
proof -
  have "drop 4 (put32le a @ b) = b" for a b by (simp add: put32le_def)
  then show ?thesis unfolding get64le_def put64le_def using split64 [of v] by simp
qed

lemma join64: "ucast (ucast a OR push_bit 32 (ucast b) :: 64 word) = (a :: 32 word)"
  "ucast (drop_bit 32 (ucast a OR push_bit 32 (ucast b) :: 64 word)) = (b :: 32 word)"
  by (rule bit_word_eqI; auto simp: bit_simps dest: bit_imp_le_length)+

lemma put64le_get64le:
  assumes "length b = 8"
  shows "put64le (get64le b) = b"
proof -
  have g: "get32le b = get32le (take 4 b)"
  proof -
    obtain w x y z r where "b = w # x # y # z # r" using assms by (cases b; cases "tl b"; cases "tl (tl b)"; cases "tl (tl (tl b))") auto
    then show ?thesis by simp
  qed
  have "put64le (get64le b) = put32le (get32le b) @ put32le (get32le (drop 4 b))"
    unfolding put64le_def get64le_def join64 ..
  also have "\<dots> = take 4 b @ drop 4 b" unfolding g using assms by (subst (1 2) put32le_get32le) simp_all
  finally show ?thesis by simp
qed

lemma put16le_get16le: "length b = 2 \<Longrightarrow> put16le (get16le b) = b"
  unfolding length_2_conv by (auto simp: put16le_def intro!: bit_word_eqI simp: bit_simps)

lemma length_put64le [simp]: "length (put64le v) = 8"
  by (simp add: put64le_def)

lemma sint_small: "0 \<le> r \<Longrightarrow> r < 2 ^ (LENGTH('a::len) - 1) \<Longrightarrow> sint (word_of_int r :: 'a word) = r"
proof -
  assume r: "0 \<le> r" "r < 2 ^ (LENGTH('a) - 1)"
  have "- (2 ^ (LENGTH('a) - 1)) \<le> r" using r(1) by (rule order.trans [rotated]) simp
  then show ?thesis unfolding sint_sbintrunc' using r(2) by (rule signed_take_bit_int_eq_self)
qed

lemma raw_iff: "rawValue exid b = Inr raw \<longleftrightarrow> encodeRaw exid raw = Inr b"
proof (cases "temporalSpecs exid")
  case (Some spec)
  have w: "ts_byteLength spec = 8 \<and> ts_maximumRaw spec < 2 ^ 63 \<or> ts_byteLength spec = 4 \<and> ts_maximumRaw spec < 2 ^ 31 \<or>
      ts_byteLength spec = 2 \<and> ts_maximumRaw spec < 2 ^ 15"
    using Some by (auto simp: temporalSpecs_def split: if_splits)
  then consider (w8) "ts_byteLength spec = 8" "ts_maximumRaw spec < 2 ^ 63" | (w4) "ts_byteLength spec = 4" "ts_maximumRaw spec < 2 ^ 31"
    | (w2) "ts_byteLength spec = 2" "ts_maximumRaw spec < 2 ^ 15" by blast
  then show ?thesis
  proof cases
    case w8
    then show ?thesis using Some
      by (auto simp: rawValue_def encodeRaw_def Let_def sint_small put64le_get64le split: if_splits)
  next
    case w4
    then show ?thesis using Some
      by (auto simp: rawValue_def encodeRaw_def Let_def sint_small put32le_get32le split: if_splits)
  next
    case w2
    then show ?thesis using Some
      by (auto simp: rawValue_def encodeRaw_def Let_def sint_small put16le_get16le split: if_splits)
  qed
qed (simp add: rawValue_def encodeRaw_def)

section \<open>Texts\<close>

lemma form_numbers:
  assumes "wide form" "\<And>w gs. fits form (map atoi gs) \<Longrightarrow> F (w # gs) = G (map atoi gs)"
  shows "bindE (matchForm form v) F = Inr r \<longleftrightarrow> (\<exists>ns. fits form ns \<and> v = render form ns \<and> G ns = Inr r)"
proof
  assume "bindE (matchForm form v) F = Inr r"
  then obtain gs where "match_pieces form v = Some gs" "F (v # gs) = Inr r" by (auto simp: matchForm_def split: option.splits)
  then show "\<exists>ns. fits form ns \<and> v = render form ns \<and> G ns = Inr r" using match_exact [OF assms(1)] assms(2) by metis
next
  assume "\<exists>ns. fits form ns \<and> v = render form ns \<and> G ns = Inr r"
  then obtain ns where n: "fits form ns" "v = render form ns" "G ns = Inr r" by blast
  obtain gs where "match_pieces form v = Some gs" "map atoi gs = ns" using match_render [OF assms(1) n(1)] n(2) by blast
  then show "bindE (matchForm form v) F = Inr r" using assms(2) n by (auto simp: matchForm_def)
qed

lemma valid_date_parts:
  assumes "valid_date date"
  shows "parseDateParts (cd_year date) (cd_month date) (cd_day date) = Inr date"
    "cd_year date < 10 ^ 4" "cd_month date < 10 ^ 2" "cd_day date < 10 ^ 2"
proof -
  show p: "parseDateParts (cd_year date) (cd_month date) (cd_day date) = Inr date" using assms by (simp add: valid_date_def)
  have "daysInMonth (cd_year date) (cd_month date) \<le> 31" if "1 \<le> cd_month date" "cd_month date \<le> 12"
  proof -
    have "cd_month date - 1 < length daysByMonth" using that by (simp add: daysByMonth_def)
    then have "daysByMonth ! (cd_month date - 1) \<in> set daysByMonth" by (rule nth_mem)
    then have "daysByMonth ! (cd_month date - 1) \<le> 31" by (auto simp: daysByMonth_def)
    then show ?thesis by (simp add: daysInMonth_def)
  qed
  then show "cd_year date < 10 ^ 4" "cd_month date < 10 ^ 2" "cd_day date < 10 ^ 2"
    using p unfolding parseDateParts_ok by (auto split: if_splits)
qed

lemma parsed_valid: "parseDateParts year month day = Inr date \<Longrightarrow> valid_date date \<and> date = \<lparr>cd_year = year, cd_month = month, cd_day = day\<rparr>"
  by (simp add: valid_date_def parseDateParts_ok)

lemma formatDate_render:
  "formatDate date = render dForm [cd_year date, cd_month date, cd_day date]"
  by (simp add: formatDate_def dForm_def gostr_def)

text \<open>Clock times below a day.\<close>

lemma parseClock_day:
  "parseClock hour minute second False = Inr clock \<longleftrightarrow>
     hour \<le> 23 \<and> minute \<le> 59 \<and> second \<le> 59 \<and> clock = \<lparr>ct_hour = hour, ct_minute = minute, ct_second = second\<rparr>"
  by (auto simp: parseClock_def)

lemma parseClock_end:
  "parseClock hour minute second True = Inr clock \<longleftrightarrow>
     hour * 3600 + minute * 60 + second \<le> 86400 \<and> minute \<le> 59 \<and> second \<le> 59 \<and> clock = \<lparr>ct_hour = hour, ct_minute = minute, ct_second = second\<rparr>"
  by (auto simp: parseClock_def)

lemma clock_parts:
  fixes s :: nat
  obtains h m c where "s div 3600 = h" "s mod 3600 div 60 = m" "s mod 3600 mod 60 = c" "s = h * 3600 + m * 60 + c" "m \<le> 59" "c \<le> 59"
proof
  show "s = s div 3600 * 3600 + s mod 3600 div 60 * 60 + s mod 3600 mod 60" by (metis add.assoc div_mult_mod_eq)
  have "s mod 3600 < 60 * 60" by simp
  then have "s mod 3600 div 60 < 60" by (rule less_mult_imp_div_less)
  then show "s mod 3600 div 60 \<le> 59" by simp
  have "s mod 3600 mod 60 < 60" by simp
  then show "s mod 3600 mod 60 \<le> 59" by simp
qed simp_all

lemma clock_digits:
  fixes s h m c :: nat
  assumes "m \<le> 59" "c \<le> 59" "s = h * 3600 + m * 60 + c"
  shows "s div 3600 = h \<and> s mod 3600 div 60 = m \<and> s mod 3600 mod 60 = c"
proof -
  have "m * 60 + c < 3600" using assms by linarith
  then have "(m * 60 + c + h * 3600) div 3600 = h" "(m * 60 + c + h * 3600) mod 3600 = m * 60 + c" by simp_all
  moreover have "s = m * 60 + c + h * 3600" using assms(3) by simp
  ultimately have "s div 3600 = h" and r: "s mod 3600 = m * 60 + c" by (simp_all only:)
  then show ?thesis unfolding r using assms(2) by simp
qed

lemma formatClock_eq:
  "formatClock s True = render tForm [s div 3600, s mod 3600 div 60, s mod 3600 mod 60]"
  by (simp add: formatClock_def tForm_def gostr_def Let_def)

section \<open>Each type\<close>

text \<open>For each type: a text has a raw value exactly when it is the text of that value, which then lies in the type's range.\<close>

lemma wide_forms: "wide pForm" "wide nForm" "wide wForm" "wide dForm" "wide weekF" "wide xForm" "wide tForm" "wide iForm" "wide cForm"
  by (simp_all add: pForm_def nForm_def wForm_def dForm_def weekF_def xForm_def tForm_def iForm_def cForm_def)

lemma fits_Digits: "fits (Digits w # ps) ns \<longleftrightarrow> (\<exists>n ms. ns = n # ms \<and> n < 10 ^ w \<and> fits ps ms)"
  by (cases ns) auto

lemmas form_fits = fits.simps(1,2) fits_Digits

lemma fits_length: "fits form ns \<Longrightarrow> length ns = length (filter (\<lambda>p. case p of Digits _ \<Rightarrow> True | _ \<Rightarrow> False) form)"
  by (induction form ns rule: fits.induct) simp_all

lemma raw_p:
  "temporal_raw ''p'' v = Inr r \<longleftrightarrow> (\<exists>ns. fits pForm ns \<and> v = render pForm ns \<and>
     bindE (parseDateParts (ns ! 0) (ns ! 1) (ns ! 2)) (\<lambda>date. bindE (parseClock (ns ! 3) (ns ! 4) (ns ! 5) False) (\<lambda>clock.
     Inr (int (dateOrdinal date * secondsPerDay + clockSeconds clock) * int fractionsPerSecond + int (ns ! 6) + 1))) = Inr r)"
  unfolding temporal_raw_def
  by (simp only: if_True refl, rule form_numbers [OF wide_forms(1)]) (drule fits_length, simp add: pForm_def)

lemma raw_n:
  "temporal_raw ''n'' v = Inr r \<longleftrightarrow> (\<exists>ns. fits nForm ns \<and> v = render nForm ns \<and>
     bindE (parseDateParts (ns ! 0) (ns ! 1) (ns ! 2)) (\<lambda>date. bindE (parseClock (ns ! 3) (ns ! 4) (ns ! 5) False) (\<lambda>clock.
     Inr (int (dateOrdinal date * secondsPerDay + clockSeconds clock) + 1))) = Inr r)"
  unfolding temporal_raw_def
  by (simp only: if_True if_False refl list.inject char.inject simp_thms, rule form_numbers [OF wide_forms(2)])
    (drule fits_length, simp add: nForm_def)

lemma raw_w:
  "temporal_raw ''w'' v = Inr r \<longleftrightarrow> (\<exists>ns. fits wForm ns \<and> v = render wForm ns \<and>
     bindE (parseDateParts (ns ! 0) (ns ! 1) (ns ! 2)) (\<lambda>date. bindE (parseClock (ns ! 3) (ns ! 4) 0 False) (\<lambda>clock.
     Inr (int (dateOrdinal date * minutesPerDay + ct_hour clock * 60 + ct_minute clock) + 1))) = Inr r)"
  unfolding temporal_raw_def
  by (simp only: if_True if_False refl list.inject char.inject simp_thms, rule form_numbers [OF wide_forms(3)])
    (drule fits_length, simp add: wForm_def)

lemma raw_d:
  "temporal_raw ''d'' v = Inr r \<longleftrightarrow> (\<exists>ns. fits dForm ns \<and> v = render dForm ns \<and>
     bindE (parseDateParts (ns ! 0) (ns ! 1) (ns ! 2)) (\<lambda>date. Inr (int (dateOrdinal date) + 1)) = Inr r)"
  unfolding temporal_raw_def
  by (simp only: if_True if_False refl list.inject char.inject simp_thms, rule form_numbers [OF wide_forms(4)])
    (drule fits_length, simp add: dForm_def)

lemma raw_7:
  "temporal_raw ''7'' v = Inr r \<longleftrightarrow> (\<exists>ns. fits weekF ns \<and> v = render weekF ns \<and>
     (if ns ! 1 < 1 \<or> ns ! 1 > 53 then Inl ErrTemporal
      else bindE (weekOrdinal (ns ! 0) (ns ! 1)) (\<lambda>ordinal. Inr (int ordinal + 1))) = Inr r)"
  unfolding temporal_raw_def
  by (simp only: if_True if_False refl list.inject char.inject simp_thms, rule form_numbers [OF wide_forms(5)])
    (drule fits_length, simp add: weekF_def)

lemma raw_x:
  "temporal_raw ''x'' v = Inr r \<longleftrightarrow> (\<exists>ns. fits xForm ns \<and> v = render xForm ns \<and>
     (if ns ! 0 < 1 \<or> ns ! 0 > 9999 then Inl ErrTemporal
      else if ns ! 1 < 1 \<or> ns ! 1 > 12 then Inl ErrTemporal else Inr (int ((ns ! 0 - 1) * 12 + ns ! 1))) = Inr r)"
  unfolding temporal_raw_def
  by (simp only: if_True if_False refl list.inject char.inject simp_thms, rule form_numbers [OF wide_forms(6)])
    (drule fits_length, simp add: xForm_def)

lemma raw_t:
  "temporal_raw ''t'' v = Inr r \<longleftrightarrow> (\<exists>ns. fits tForm ns \<and> v = render tForm ns \<and>
     bindE (parseClock (ns ! 0) (ns ! 1) (ns ! 2) True) (\<lambda>clock. Inr (int (clockSeconds clock) + 1)) = Inr r)"
  unfolding temporal_raw_def
  by (simp only: if_True if_False refl list.inject char.inject simp_thms, rule form_numbers [OF wide_forms(7)])
    (drule fits_length, simp add: tForm_def)

lemma raw_i:
  "temporal_raw ''i'' v = Inr r \<longleftrightarrow> (\<exists>ns. fits iForm ns \<and> v = render iForm ns \<and>
     bindE (parseClock (ns ! 0) (ns ! 1) 0 True) (\<lambda>clock. Inr (int (ct_hour clock * 60 + ct_minute clock) + 1)) = Inr r)"
  unfolding temporal_raw_def
  by (simp only: if_True if_False refl list.inject char.inject simp_thms, rule form_numbers [OF wide_forms(8)])
    (drule fits_length, simp add: iForm_def)

lemma raw_c:
  "temporal_raw ''c'' v = Inr r \<longleftrightarrow> (\<exists>ns. fits cForm ns \<and> v = render cForm ns \<and>
     (if ns ! 0 < 1 \<or> ns ! 0 > 12 then Inl ErrTemporal
      else if ns ! 1 < 1 \<or> ns ! 1 > daysByMonth ! (ns ! 0 - 1) then Inl ErrTemporal
      else Inr (int (ns ! 1 + sum_list (map (\<lambda>candidate. daysByMonth ! (candidate - 1)) [1..<ns ! 0])))) = Inr r)"
  unfolding temporal_raw_def
  by (simp only: if_True if_False refl list.inject char.inject simp_thms, rule form_numbers [OF wide_forms(9)])
    (drule fits_length, simp add: cForm_def)

lemma fits_lists:
  "fits dForm ns \<longleftrightarrow> (\<exists>y mo d. ns = [y, mo, d] \<and> y < 10 ^ 4 \<and> mo < 10 ^ 2 \<and> d < 10 ^ 2)"
  "fits nForm ns \<longleftrightarrow> (\<exists>y mo d h mi s. ns = [y, mo, d, h, mi, s] \<and> y < 10 ^ 4 \<and> mo < 10 ^ 2 \<and> d < 10 ^ 2 \<and> h < 10 ^ 2 \<and> mi < 10 ^ 2 \<and> s < 10 ^ 2)"
  "fits wForm ns \<longleftrightarrow> (\<exists>y mo d h mi. ns = [y, mo, d, h, mi] \<and> y < 10 ^ 4 \<and> mo < 10 ^ 2 \<and> d < 10 ^ 2 \<and> h < 10 ^ 2 \<and> mi < 10 ^ 2)"
  "fits pForm ns \<longleftrightarrow> (\<exists>y mo d h mi s f. ns = [y, mo, d, h, mi, s, f] \<and> y < 10 ^ 4 \<and> mo < 10 ^ 2 \<and> d < 10 ^ 2 \<and> h < 10 ^ 2 \<and> mi < 10 ^ 2 \<and>
     s < 10 ^ 2 \<and> f < 10 ^ 7)"
  by (auto simp: dForm_def nForm_def wForm_def pForm_def form_fits)

lemma fits_pairs:
  "fits weekF ns \<longleftrightarrow> (\<exists>y n. ns = [y, n] \<and> y < 10 ^ 4 \<and> n < 10 ^ 2)"
  "fits xForm ns \<longleftrightarrow> (\<exists>y n. ns = [y, n] \<and> y < 10 ^ 4 \<and> n < 10 ^ 2)"
  "fits tForm ns \<longleftrightarrow> (\<exists>h mi s. ns = [h, mi, s] \<and> h < 10 ^ 2 \<and> mi < 10 ^ 2 \<and> s < 10 ^ 2)"
  "fits iForm ns \<longleftrightarrow> (\<exists>h mi. ns = [h, mi] \<and> h < 10 ^ 2 \<and> mi < 10 ^ 2)"
  "fits cForm ns \<longleftrightarrow> (\<exists>mo d. ns = [mo, d] \<and> mo < 10 ^ 2 \<and> d < 10 ^ 2)"
  by (auto simp: weekF_def xForm_def tForm_def iForm_def cForm_def form_fits)

text \<open>The texts as renderings.\<close>

lemma date_clock_text:
  "formatDate date @ gostr ''T'' @ formatClock s True =
     render nForm [cd_year date, cd_month date, cd_day date, s div 3600, s mod 3600 div 60, s mod 3600 mod 60]"
  "formatDate date @ gostr ''T'' @ formatClock s True @ gostr ''.'' @ zero_pad 7 f =
     render pForm [cd_year date, cd_month date, cd_day date, s div 3600, s mod 3600 div 60, s mod 3600 mod 60, f]"
  "formatDate date @ gostr ''T'' @ zero_pad 2 h @ gostr '':'' @ zero_pad 2 mi =
     render wForm [cd_year date, cd_month date, cd_day date, h, mi]"
  by (simp_all add: formatDate_def formatClock_def nForm_def pForm_def wForm_def gostr_def Let_def)

lemma date_fits:
  assumes "valid_date date"
  shows "cd_year date < 10 ^ 4 \<and> cd_month date < 10 ^ 2 \<and> cd_day date < 10 ^ 2"
  using valid_date_parts [OF assms] by blast

lemma raw_day:
  "temporal_raw ''d'' v = Inr r \<longleftrightarrow> 1 \<le> r \<and> r \<le> 3652061 \<and> temporal_text ''d'' (nat (r - 1)) = Inr v"
proof
  assume "temporal_raw ''d'' v = Inr r"
  then obtain y mo d date where f: "v = render dForm [y, mo, d]" and p: "parseDateParts y mo d = Inr date" and r: "r = int (dateOrdinal date) + 1"
    unfolding raw_d fits_lists by (auto simp: bindE_Inr_iff)
  have v: "valid_date date" "date = \<lparr>cd_year = y, cd_month = mo, cd_day = d\<rparr>" using parsed_valid [OF p] by blast+
  then show "1 \<le> r \<and> r \<le> 3652061 \<and> temporal_text ''d'' (nat (r - 1)) = Inr v"
    using dateOrdinal_bound [OF v(1)] date_of_ordinal [OF v(1)] by (simp add: r f temporal_text_def formatDate_render)
next
  assume a: "1 \<le> r \<and> r \<le> 3652061 \<and> temporal_text ''d'' (nat (r - 1)) = Inr v"
  define date where "date = dateFromOrdinal (nat (r - 1))"
  have d: "valid_date date" "int (dateOrdinal date) + 1 = r" using ordinal_date [of "nat (r - 1)"] a by (auto simp: date_def)
  have v: "v = render dForm [cd_year date, cd_month date, cd_day date]" using a by (simp add: temporal_text_def formatDate_render date_def)
  show "temporal_raw ''d'' v = Inr r"
    unfolding raw_d fits_lists v using d date_fits [OF d(1)] valid_date_parts(1) [OF d(1)]
    by (intro exI [where x = "[cd_year date, cd_month date, cd_day date]"]) simp
qed

lemma raw_second:
  "temporal_raw ''n'' v = Inr r \<longleftrightarrow> 1 \<le> r \<and> r \<le> 315538070400 \<and> temporal_text ''n'' (nat (r - 1)) = Inr v"
proof
  assume "temporal_raw ''n'' v = Inr r"
  then obtain y mo d h mi s date clock where f: "v = render nForm [y, mo, d, h, mi, s]"
    and p: "parseDateParts y mo d = Inr date" "parseClock h mi s False = Inr clock"
    and r: "r = int (dateOrdinal date * secondsPerDay + clockSeconds clock) + 1"
    unfolding raw_n fits_lists by (auto simp: bindE_Inr_iff)
  have v: "valid_date date" "date = \<lparr>cd_year = y, cd_month = mo, cd_day = d\<rparr>" using parsed_valid [OF p(1)] by blast+
  define sec where "sec = clockSeconds clock"
  have c: "h \<le> 23" "mi \<le> 59" "s \<le> 59" "sec = h * 3600 + mi * 60 + s" using p(2) by (auto simp: parseClock_day clockSeconds_def sec_def)
  then have sec: "sec < 86400" by linarith
  have n: "nat (r - 1) = dateOrdinal date * 86400 + sec" by (simp add: r secondsPerDay_def sec_def)
  have "dateOrdinal date * 86400 + 86400 \<le> 315538070400" using dateOrdinal_bound [OF v(1)] by linarith
  then have "1 \<le> r \<and> r \<le> 315538070400" using sec by (simp add: r secondsPerDay_def sec_def)
  moreover have "temporal_text ''n'' (nat (r - 1)) = Inr v"
    using divmod_unique [OF sec, of "dateOrdinal date"] date_of_ordinal [OF v(1)] clock_digits [OF c(2,3,4)]
    by (simp add: temporal_text_def n secondsPerDay_def date_clock_text f v(2))
  ultimately show "1 \<le> r \<and> r \<le> 315538070400 \<and> temporal_text ''n'' (nat (r - 1)) = Inr v" by blast
next
  assume a: "1 \<le> r \<and> r \<le> 315538070400 \<and> temporal_text ''n'' (nat (r - 1)) = Inr v"
  define n where "n = nat (r - 1)"
  define date sec where "date = dateFromOrdinal (n div 86400)" and "sec = n mod 86400"
  have "n < 3652061 * 86400" unfolding n_def using a by linarith
  then have "n div 86400 < 3652061" by (rule less_mult_imp_div_less)
  then have d: "valid_date date" "dateOrdinal date = n div 86400" using ordinal_date by (auto simp: date_def)
  obtain h mi s where c: "sec div 3600 = h" "sec mod 3600 div 60 = mi" "sec mod 3600 mod 60 = s" "sec = h * 3600 + mi * 60 + s" "mi \<le> 59" "s \<le> 59"
    by (rule clock_parts)
  have "sec < 86400" by (simp add: sec_def)
  then have h: "h \<le> 23" using c(4) by linarith
  have v: "v = render nForm [cd_year date, cd_month date, cd_day date, h, mi, s]"
    using a c(1-3) by (simp add: temporal_text_def secondsPerDay_def date_clock_text n_def [symmetric] date_def sec_def)
  have r: "r = int (dateOrdinal date * secondsPerDay + sec) + 1" using a by (simp add: d(2) secondsPerDay_def sec_def n_def)
  show "temporal_raw ''n'' v = Inr r"
    unfolding raw_n fits_lists v using r c(4-6) h date_fits [OF d(1)] valid_date_parts(1) [OF d(1)]
    by (intro exI [where x = "[cd_year date, cd_month date, cd_day date, h, mi, s]"]) (simp add: parseClock_def clockSeconds_def)
qed

lemma raw_minute:
  "temporal_raw ''w'' v = Inr r \<longleftrightarrow> 1 \<le> r \<and> r \<le> 5258967840 \<and> temporal_text ''w'' (nat (r - 1)) = Inr v"
proof
  assume "temporal_raw ''w'' v = Inr r"
  then obtain y mo d h mi date clock where f: "v = render wForm [y, mo, d, h, mi]"
    and p: "parseDateParts y mo d = Inr date" "parseClock h mi 0 False = Inr clock"
    and r: "r = int (dateOrdinal date * minutesPerDay + ct_hour clock * 60 + ct_minute clock) + 1"
    unfolding raw_w fits_lists by (auto simp: bindE_Inr_iff)
  have v: "valid_date date" "date = \<lparr>cd_year = y, cd_month = mo, cd_day = d\<rparr>" using parsed_valid [OF p(1)] by blast+
  have c: "h \<le> 23" "mi \<le> 59" "ct_hour clock = h" "ct_minute clock = mi" using p(2) by (auto simp: parseClock_day)
  then have small: "h * 60 + mi < 1440" by linarith
  have n: "nat (r - 1) = dateOrdinal date * 1440 + (h * 60 + mi)" by (simp add: r minutesPerDay_def c)
  have "dateOrdinal date * 1440 + 1440 \<le> 5258967840" using dateOrdinal_bound [OF v(1)] by linarith
  then have "1 \<le> r \<and> r \<le> 5258967840" using small by (simp add: r minutesPerDay_def c)
  moreover have "temporal_text ''w'' (nat (r - 1)) = Inr v"
    using divmod_unique [OF small, of "dateOrdinal date"] date_of_ordinal [OF v(1)] divmod_unique [of mi 60 h] c
    by (simp add: temporal_text_def n minutesPerDay_def date_clock_text f v(2))
  ultimately show "1 \<le> r \<and> r \<le> 5258967840 \<and> temporal_text ''w'' (nat (r - 1)) = Inr v" by blast
next
  assume a: "1 \<le> r \<and> r \<le> 5258967840 \<and> temporal_text ''w'' (nat (r - 1)) = Inr v"
  define n where "n = nat (r - 1)"
  define date m where "date = dateFromOrdinal (n div 1440)" and "m = n mod 1440"
  have "n < 3652061 * 1440" unfolding n_def using a by linarith
  then have "n div 1440 < 3652061" by (rule less_mult_imp_div_less)
  then have d: "valid_date date" "dateOrdinal date = n div 1440" using ordinal_date by (auto simp: date_def)
  have "m < 24 * 60" by (simp add: m_def)
  then have "m div 60 < 24" by (rule less_mult_imp_div_less)
  moreover have "m mod 60 < 60" by simp
  moreover obtain h mi where hm: "m div 60 = h" "m mod 60 = mi" by simp
  ultimately have c: "h < 24" "mi < 60" "m = h * 60 + mi" using div_mult_mod_eq [of m 60] by simp_all
  have v: "v = render wForm [cd_year date, cd_month date, cd_day date, h, mi]"
    using a hm by (simp add: temporal_text_def minutesPerDay_def date_clock_text n_def [symmetric] date_def m_def Let_def)
  have "r = int n + 1" using a by (simp add: n_def)
  also have "n = dateOrdinal date * 1440 + m" by (simp add: d(2) m_def)
  finally have r: "r = int (dateOrdinal date * minutesPerDay + h * 60 + mi) + 1" by (simp add: c(3) minutesPerDay_def)
  show "temporal_raw ''w'' v = Inr r"
    unfolding raw_w fits_lists v using r c(1,2) date_fits [OF d(1)] valid_date_parts(1) [OF d(1)]
    by (intro exI [where x = "[cd_year date, cd_month date, cd_day date, h, mi]"]) (simp add: parseClock_def)
qed

lemma raw_long:
  "temporal_raw ''p'' v = Inr r \<longleftrightarrow> 1 \<le> r \<and> r \<le> 3155380704000000000 \<and> temporal_text ''p'' (nat (r - 1)) = Inr v"
proof
  assume "temporal_raw ''p'' v = Inr r"
  then obtain y mo d h mi s f date clock where f: "v = render pForm [y, mo, d, h, mi, s, f]" "f < 10 ^ 7"
    and p: "parseDateParts y mo d = Inr date" "parseClock h mi s False = Inr clock"
    and r: "r = int (dateOrdinal date * secondsPerDay + clockSeconds clock) * int fractionsPerSecond + int f + 1"
    unfolding raw_p fits_lists by (auto simp: bindE_Inr_iff)
  have v: "valid_date date" "date = \<lparr>cd_year = y, cd_month = mo, cd_day = d\<rparr>" using parsed_valid [OF p(1)] by blast+
  define sec where "sec = clockSeconds clock"
  have c: "h \<le> 23" "mi \<le> 59" "s \<le> 59" "sec = h * 3600 + mi * 60 + s" using p(2) by (auto simp: parseClock_day clockSeconds_def sec_def)
  then have sec: "sec < 86400" by linarith
  have small: "sec * 10000000 + f < 864000000000" using sec f(2) by simp
  have n: "nat (r - 1) = dateOrdinal date * 864000000000 + (sec * 10000000 + f)"
    by (simp add: r secondsPerDay_def fractionsPerSecond_def sec_def algebra_simps nat_add_distrib nat_mult_distrib)
  have "dateOrdinal date * 864000000000 + 864000000000 \<le> 3155380704000000000" using dateOrdinal_bound [OF v(1)] by linarith
  moreover have "r = int (nat (r - 1)) + 1" by (simp add: r)
  ultimately have "1 \<le> r \<and> r \<le> 3155380704000000000" using small n by linarith
  moreover have "temporal_text ''p'' (nat (r - 1)) = Inr v"
    using divmod_unique [OF small, of "dateOrdinal date"] divmod_unique [of f 10000000 sec] f(2) date_of_ordinal [OF v(1)]
      clock_digits [OF c(2,3,4)]
    by (simp add: temporal_text_def n fractionsPerDay_def fractionsPerSecond_def date_clock_text f(1) v(2) Let_def)
  ultimately show "1 \<le> r \<and> r \<le> 3155380704000000000 \<and> temporal_text ''p'' (nat (r - 1)) = Inr v" by blast
next
  assume a: "1 \<le> r \<and> r \<le> 3155380704000000000 \<and> temporal_text ''p'' (nat (r - 1)) = Inr v"
  define n where "n = nat (r - 1)"
  define date w where "date = dateFromOrdinal (n div 864000000000)" and "w = n mod 864000000000"
  define sec f where "sec = w div 10000000" and "f = w mod 10000000"
  have "n < 3652061 * 864000000000" unfolding n_def using a by linarith
  then have "n div 864000000000 < 3652061" by (rule less_mult_imp_div_less)
  then have d: "valid_date date" "dateOrdinal date = n div 864000000000" using ordinal_date by (auto simp: date_def)
  have "w < 86400 * 10000000" by (simp add: w_def)
  then have sec: "sec < 86400" unfolding sec_def by (rule less_mult_imp_div_less)
  obtain h mi s where c: "sec div 3600 = h" "sec mod 3600 div 60 = mi" "sec mod 3600 mod 60 = s" "sec = h * 3600 + mi * 60 + s" "mi \<le> 59" "s \<le> 59"
    by (rule clock_parts)
  have h: "h \<le> 23" using c(4) sec by linarith
  have v: "v = render pForm [cd_year date, cd_month date, cd_day date, h, mi, s, f]"
    using a c(1-3) by (simp add: temporal_text_def fractionsPerDay_def fractionsPerSecond_def date_clock_text n_def [symmetric] date_def sec_def w_def f_def Let_def)
  have n: "n = dateOrdinal date * 864000000000 + (sec * 10000000 + f)" unfolding d(2) sec_def f_def w_def by simp
  have "r = int n + 1" using a by (simp add: n_def)
  then have r: "r = int (dateOrdinal date * secondsPerDay + sec) * int fractionsPerSecond + int f + 1"
    by (simp add: n secondsPerDay_def fractionsPerSecond_def algebra_simps)
  have f7: "f < 10 ^ 7" by (simp add: f_def)
  show "temporal_raw ''p'' v = Inr r"
    unfolding raw_p fits_lists v using r f7 c(4-6) h date_fits [OF d(1)] valid_date_parts(1) [OF d(1)]
    by (intro exI [where x = "[cd_year date, cd_month date, cd_day date, h, mi, s, f]"]) (simp add: parseClock_def clockSeconds_def)
qed

lemma raw_week:
  "temporal_raw ''7'' v = Inr r \<longleftrightarrow> 1 \<le> r \<and> r \<le> 521725 \<and> temporal_text ''7'' (nat (r - 1)) = Inr v"
proof
  assume "temporal_raw ''7'' v = Inr r"
  then obtain y w n where f: "v = render weekF [y, w]" "y < 10 ^ 4" "1 \<le> w" "w \<le> 53" and o: "weekOrdinal y w = Inr n" "r = int n + 1"
    unfolding raw_7 fits_pairs by (auto simp: bindE_Inr_iff split: if_splits)
  have "valid_week y w" and n: "n = (if y = 0 then 0 else weeksBefore y + w)"
    using o(1) weekOrdinal_eq [of y w] f by (auto split: if_splits)
  then show "1 \<le> r \<and> r \<le> 521725 \<and> temporal_text ''7'' (nat (r - 1)) = Inr v"
    using week_of_ordinal [of y w] week_ordinal_bound [of y w] by (simp add: o(2) temporal_text_def f(1) weekF_def gostr_def)
next
  assume a: "1 \<le> r \<and> r \<le> 521725 \<and> temporal_text ''7'' (nat (r - 1)) = Inr v"
  then have "nat (r - 1) \<le> 521724" by linarith
  then obtain y w where w: "weekFromOrdinal (nat (r - 1)) = (y, w)" "valid_week y w" "nat (r - 1) = (if y = 0 then 0 else weeksBefore y + w)"
    using ordinal_week by blast
  have b: "y \<le> 9999" "1 \<le> w" "w \<le> 53" using w(2) by (auto simp: valid_week_def weeksIn_def split: if_splits)
  have v: "v = render weekF [y, w]" using a w(1) by (simp add: temporal_text_def weekF_def gostr_def)
  show "temporal_raw ''7'' v = Inr r"
    unfolding raw_7 fits_pairs v using b w(2,3) a weekOrdinal_eq [OF b]
    by (intro exI [where x = "[y, w]"]) (auto split: if_splits)
qed

lemma raw_month:
  "temporal_raw ''x'' v = Inr r \<longleftrightarrow> 1 \<le> r \<and> r \<le> 119988 \<and> temporal_text ''x'' (nat (r - 1)) = Inr v"
proof
  assume "temporal_raw ''x'' v = Inr r"
  then obtain y m where f: "v = render xForm [y, m]" "1 \<le> y" "y \<le> 9999" "1 \<le> m" "m \<le> 12" "r = int ((y - 1) * 12 + m)"
    unfolding raw_x fits_pairs by (auto split: if_splits)
  define a b where "a = y - 1" and "b = m - 1"
  have ab: "y = a + 1" "m = b + 1" using f(2,4) by (simp_all add: a_def b_def)
  have n: "nat (r - 1) = a * 12 + b" "b < 12" "a < 9999" "r = int (a * 12 + b) + 1" using f(3,5,6) by (simp_all add: ab)
  then have "1 \<le> r \<and> r \<le> 119988" by linarith
  then show "1 \<le> r \<and> r \<le> 119988 \<and> temporal_text ''x'' (nat (r - 1)) = Inr v"
    using divmod_unique [OF n(2), of a] unfolding n(1) by (simp add: f(1) ab temporal_text_def xForm_def gostr_def)
next
  assume a: "1 \<le> r \<and> r \<le> 119988 \<and> temporal_text ''x'' (nat (r - 1)) = Inr v"
  define n where "n = nat (r - 1)"
  have "n < 9999 * 12" unfolding n_def using a by linarith
  then have y: "n div 12 < 9999" by (rule less_mult_imp_div_less)
  have m: "n mod 12 < 12" by simp
  have v: "v = render xForm [n div 12 + 1, n mod 12 + 1]" using a by (simp add: n_def [symmetric] temporal_text_def xForm_def gostr_def)
  have "r = int n + 1" using a by (simp add: n_def)
  also have "\<dots> = int (n div 12 * 12 + (n mod 12 + 1))" by simp
  finally show "temporal_raw ''x'' v = Inr r"
    unfolding raw_x fits_pairs v using y m by (intro exI [where x = "[n div 12 + 1, n mod 12 + 1]"]) simp
qed

lemma raw_tsecond:
  "temporal_raw ''t'' v = Inr r \<longleftrightarrow> 1 \<le> r \<and> r \<le> 86401 \<and> temporal_text ''t'' (nat (r - 1)) = Inr v"
proof
  assume "temporal_raw ''t'' v = Inr r"
  then obtain h mi s where f: "v = render tForm [h, mi, s]" and c: "h * 3600 + mi * 60 + s \<le> 86400" "mi \<le> 59" "s \<le> 59"
    and r: "r = int (h * 3600 + mi * 60 + s) + 1"
    unfolding raw_t fits_pairs by (auto simp: bindE_Inr_iff parseClock_end clockSeconds_def)
  have "nat (r - 1) = h * 3600 + mi * 60 + s" by (simp add: r)
  moreover have "1 \<le> r \<and> r \<le> 86401" using c r by linarith
  ultimately show "1 \<le> r \<and> r \<le> 86401 \<and> temporal_text ''t'' (nat (r - 1)) = Inr v"
    using clock_digits [OF c(2,3) refl, of h] by (simp add: temporal_text_def formatClock_eq f)
next
  assume a: "1 \<le> r \<and> r \<le> 86401 \<and> temporal_text ''t'' (nat (r - 1)) = Inr v"
  define n where "n = nat (r - 1)"
  obtain h mi s where c: "n div 3600 = h" "n mod 3600 div 60 = mi" "n mod 3600 mod 60 = s" "n = h * 3600 + mi * 60 + s" "mi \<le> 59" "s \<le> 59"
    by (rule clock_parts)
  have n: "n \<le> 86400" unfolding n_def using a by linarith
  then have h: "h < 10 ^ 2" using c(4) by simp
  have v: "v = render tForm [h, mi, s]" using a c(1-3) by (simp add: temporal_text_def formatClock_eq n_def [symmetric])
  have "r = int n + 1" using a by (simp add: n_def)
  then have "bindE (parseClock h mi s True) (\<lambda>clock. Inr (int (clockSeconds clock) + 1)) = Inr r"
    using n c(4-6) by (auto simp: bindE_Inr_iff parseClock_end clockSeconds_def)
  then show "temporal_raw ''t'' v = Inr r"
    unfolding raw_t fits_pairs v using h c(5,6) by (intro exI [where x = "[h, mi, s]"]) simp
qed

lemma raw_tminute:
  "temporal_raw ''i'' v = Inr r \<longleftrightarrow> 1 \<le> r \<and> r \<le> 1441 \<and> temporal_text ''i'' (nat (r - 1)) = Inr v"
proof
  assume "temporal_raw ''i'' v = Inr r"
  then obtain h mi where f: "v = render iForm [h, mi]" and c: "h * 3600 + mi * 60 \<le> 86400" "mi \<le> 59" and r: "r = int (h * 60 + mi) + 1"
    unfolding raw_i fits_pairs by (auto simp: bindE_Inr_iff parseClock_end)
  have "nat (r - 1) = h * 60 + mi" by (simp add: r)
  moreover have "1 \<le> r \<and> r \<le> 1441" using c r by linarith
  ultimately show "1 \<le> r \<and> r \<le> 1441 \<and> temporal_text ''i'' (nat (r - 1)) = Inr v"
    using divmod_unique [of mi 60 h] c(2) by (simp add: temporal_text_def iForm_def gostr_def f)
next
  assume a: "1 \<le> r \<and> r \<le> 1441 \<and> temporal_text ''i'' (nat (r - 1)) = Inr v"
  define n where "n = nat (r - 1)"
  define h mi where "h = n div 60" and "mi = n mod 60"
  have c: "n = h * 60 + mi" "mi \<le> 59" unfolding h_def mi_def using mod_less_divisor [of 60 n] by simp_all
  have n: "n \<le> 1440" unfolding n_def using a by linarith
  then have h: "h < 10 ^ 2" using c by simp
  have v: "v = render iForm [h, mi]" using a by (simp add: temporal_text_def iForm_def gostr_def n_def [symmetric] h_def mi_def)
  have "r = int n + 1" using a by (simp add: n_def)
  then have "bindE (parseClock h mi 0 True) (\<lambda>clock. Inr (int (ct_hour clock * 60 + ct_minute clock) + 1)) = Inr r"
    using n c by (auto simp: bindE_Inr_iff parseClock_end)
  then show "temporal_raw ''i'' v = Inr r"
    unfolding raw_i fits_pairs v using h c by (intro exI [where x = "[h, mi]"]) simp
qed

section \<open>Days of the year\<close>

definition cdaysBefore :: "nat \<Rightarrow> nat" where
  "cdaysBefore month = sum_list (map (\<lambda>candidate. daysByMonth ! (candidate - 1)) [1..<month])"

lemma cdaysBefore_next: "1 \<le> month \<Longrightarrow> cdaysBefore (month + 1) = cdaysBefore month + daysByMonth ! (month - 1)"
  by (simp add: cdaysBefore_def)

lemma cdaysBefore_ends: "cdaysBefore 1 = 0" "cdaysBefore 13 = 366"
  by (simp_all add: cdaysBefore_def daysByMonth_def upt_rec)

lemma cdaysBefore_mono: "1 \<le> a \<Longrightarrow> a \<le> b \<Longrightarrow> cdaysBefore a \<le> cdaysBefore b"
proof (induction b)
  case (Suc b)
  then show ?case using cdaysBefore_next [of b] by (cases "a = Suc b") auto
qed simp

lemma cday_search_reaches:
  assumes "month + k \<le> 12" "1 \<le> month" "s < daysByMonth ! (month + k - 1)"
  shows "cday_search (cdaysBefore (month + k) - cdaysBefore month + s) month = (month + k, s)"
  using assms
proof (induction k arbitrary: month)
  case 0
  then show ?case by (simp add: cday_search.simps [of s])
next
  case (Suc k)
  let ?rest = "cdaysBefore (month + Suc k) - cdaysBefore month + s"
  have step: "cdaysBefore (month + 1) = cdaysBefore month + daysByMonth ! (month - 1)" using cdaysBefore_next Suc.prems by blast
  have mono: "cdaysBefore (month + 1) \<le> cdaysBefore (month + Suc k)" by (rule cdaysBefore_mono) (use Suc.prems in simp_all)
  have over: "daysByMonth ! (month - 1) \<le> ?rest"
    and rest: "?rest - daysByMonth ! (month - 1) = cdaysBefore (month + 1 + k) - cdaysBefore (month + 1) + s"
    using step mono by simp_all
  have "cday_search ?rest month = cday_search (?rest - daysByMonth ! (month - 1)) (month + 1)"
    using Suc.prems over by (subst cday_search.simps) simp
  then show ?case using Suc.IH [of "month + 1"] Suc.prems unfolding rest by simp
qed

lemma cday_search_month:
  assumes "1 \<le> month" "month \<le> 12" "s < daysByMonth ! (month - 1)"
  shows "cday_search (cdaysBefore month + s) 1 = (month, s)"
  using cday_search_reaches [of 1 "month - 1" s] assms by (simp add: cdaysBefore_def)

lemma cday_exists:
  assumes "n < cdaysBefore (k + 1)"
  shows "\<exists>month s. 1 \<le> month \<and> month \<le> k \<and> s < daysByMonth ! (month - 1) \<and> n = cdaysBefore month + s"
  using assms
proof (induction k)
  case 0
  then show ?case by (simp add: cdaysBefore_def)
next
  case (Suc k)
  show ?case
  proof (cases "n < cdaysBefore (k + 1)")
    case True
    then show ?thesis using Suc.IH by (meson le_SucI)
  next
    case False
    then have "1 \<le> k + 1 \<and> k + 1 \<le> Suc k \<and> n - cdaysBefore (k + 1) < daysByMonth ! (k + 1 - 1) \<and>
        n = cdaysBefore (k + 1) + (n - cdaysBefore (k + 1))"
      using Suc.prems cdaysBefore_next [of "k + 1"] by auto
    then show ?thesis by blast
  qed
qed

lemma raw_cday:
  "temporal_raw ''c'' v = Inr r \<longleftrightarrow> 1 \<le> r \<and> r \<le> 366 \<and> temporal_text ''c'' (nat (r - 1)) = Inr v"
proof
  assume "temporal_raw ''c'' v = Inr r"
  then obtain m d where f: "v = render cForm [m, d]" and c: "1 \<le> m" "m \<le> 12" "1 \<le> d" "d \<le> daysByMonth ! (m - 1)" "r = int (d + cdaysBefore m)"
    unfolding raw_c fits_pairs by (auto simp: cdaysBefore_def split: if_splits)
  define s where "s = d - 1"
  have s: "d = s + 1" "s < daysByMonth ! (m - 1)" using c(3,4) by (simp_all add: s_def)
  have n: "nat (r - 1) = cdaysBefore m + s" by (simp add: c(5) s(1))
  have "cdaysBefore (m + 1) \<le> 366" using cdaysBefore_mono [of "m + 1" 13] c(2) cdaysBefore_ends(2) by simp
  then have "1 \<le> r \<and> r \<le> 366" using cdaysBefore_next [OF c(1)] c by linarith
  then show "1 \<le> r \<and> r \<le> 366 \<and> temporal_text ''c'' (nat (r - 1)) = Inr v"
    using cday_search_month [OF c(1,2) s(2)] unfolding n by (simp add: f s(1) temporal_text_def cForm_def gostr_def)
next
  assume a: "1 \<le> r \<and> r \<le> 366 \<and> temporal_text ''c'' (nat (r - 1)) = Inr v"
  then have "nat (r - 1) < 366" by linarith
  then have "nat (r - 1) < cdaysBefore (12 + 1)" using cdaysBefore_ends(2) by simp
  then obtain m s where m: "1 \<le> m" "m \<le> 12" "s < daysByMonth ! (m - 1)" "nat (r - 1) = cdaysBefore m + s" using cday_exists by blast
  have "m - 1 < length daysByMonth" using m(2) by (simp add: daysByMonth_def)
  then have "daysByMonth ! (m - 1) \<in> set daysByMonth" by (rule nth_mem)
  then have b: "daysByMonth ! (m - 1) \<le> 31" by (auto simp: daysByMonth_def)
  have v: "v = render cForm [m, s + 1]"
    using a cday_search_month [OF m(1-3)] unfolding m(4) by (simp add: temporal_text_def cForm_def gostr_def)
  have r: "r = int (s + 1 + cdaysBefore m)" using m(4) a by linarith
  show "temporal_raw ''c'' v = Inr r"
    unfolding raw_c fits_pairs v using b m(1-3) r by (intro exI [where x = "[m, s + 1]"]) (simp add: cdaysBefore_def)
qed

section \<open>The codec\<close>

lemma spec_cases:
  assumes "temporalSpecs exid = Some spec"
  shows "exid \<in> {''p'', ''n'', ''w'', ''d'', ''7'', ''x'', ''t'', ''i'', ''c''}"
  using assms by (auto simp: temporalSpecs_def split: if_splits)

lemma raw_iff_text:
  assumes "temporalSpecs exid = Some spec"
  shows "temporal_raw exid v = Inr r \<longleftrightarrow> 1 \<le> r \<and> r \<le> ts_maximumRaw spec \<and> temporal_text exid (nat (r - 1)) = Inr v"
  using spec_cases [OF assms] assms
  by (auto simp: raw_long raw_second raw_minute raw_day raw_week raw_month raw_tsecond raw_tminute raw_cday temporalSpecs_def)

lemma temporal_text_nonempty: "temporal_text exid n = Inr v \<Longrightarrow> v \<noteq> []"
  by (auto simp: temporal_text_def formatDate_def formatClock_def gostr_def Let_def split: if_splits prod.splits)

lemma initial_not_text:
  "temporal_raw ''p'' utclongInitial \<noteq> Inr r"
  by (simp add: temporal_raw_def matchForm_def pForm_def utclongInitial_def gostr_def digit_char_def digits_value_def parseDateParts_def)

lemma temporal_text_total:
  assumes "temporalSpecs exid = Some spec"
  shows "\<exists>v. temporal_text exid n = Inr v"
  using spec_cases [OF assms] by (auto simp: temporal_text_def Let_def split: prod.splits)

lemma decode_raw:
  assumes "temporalSpecs exid = Some spec"
  shows "DecodeClassicTemporal exid b = (case rawValue exid b of Inl e \<Rightarrow> Inl e
     | Inr raw \<Rightarrow> if raw = 0 then Inr (if exid = ''p'' then utclongInitial else []) else temporal_text exid (nat (raw - 1)))"
proof -
  have sp: "temporal_specification exid = Inr spec" using assms by (simp add: temporal_specification_def)
  have i: "ClassicTemporalInitialValue exid = Inr (if exid = ''p'' then utclongInitial else [])"
    by (simp add: ClassicTemporalInitialValue_def sp)
  show ?thesis unfolding DecodeClassicTemporal_def sp i by (cases "rawValue exid b") simp_all
qed

lemma decode_iff:
  assumes "temporalSpecs exid = Some spec"
  shows "DecodeClassicTemporal exid b = Inr v \<longleftrightarrow>
     (\<exists>raw. encodeRaw exid raw = Inr b \<and> (if raw = 0 then v = (if exid = ''p'' then utclongInitial else []) else temporal_raw exid v = Inr raw))"
proof -
  have "(temporal_text exid (nat (raw - 1)) = Inr v) = (temporal_raw exid v = Inr raw)" if "rawValue exid b = Inr raw" "raw \<noteq> 0" for raw
    using assms that raw_iff_text [OF assms] by (auto simp: rawValue_def Let_def split: if_splits)
  then show ?thesis unfolding decode_raw [OF assms] raw_iff [symmetric] by (cases "rawValue exid b") auto
qed

lemma encode_iff:
  assumes "temporalSpecs exid = Some spec" "v \<noteq> []"
  shows "EncodeClassicTemporal exid v = Inr b \<longleftrightarrow>
     (\<exists>raw. encodeRaw exid raw = Inr b \<and> (if raw = 0 then v = (if exid = ''p'' then utclongInitial else []) else temporal_raw exid v = Inr raw))"
proof (cases "exid = ''p'' \<and> v = utclongInitial")
  case True
  then show ?thesis using assms initial_not_text by (auto simp: EncodeClassicTemporal_def temporal_specification_def split: if_splits)
next
  case False
  have "temporal_raw exid v \<noteq> Inr 0" using raw_iff_text [OF assms(1)] by simp
  then show ?thesis
    using assms False by (auto simp: EncodeClassicTemporal_def temporal_specification_def bindE_Inr_iff split: if_splits)
qed

text \<open>
  C35. Encoding and decoding of the compact temporal types are inverse. For every EXID, every text but the empty one and all bytes:
  the text encodes to the bytes exactly when the bytes decode to the text. Decoding succeeds on all bytes of the type's width
  whose value is between zero and the type's maximum, so every raw value has a text, and the maximum of each type is the last date,
  week, month, second, minute or day there is.
\<close>

theorem temporal_codec_exact:
  "(v \<noteq> [] \<longrightarrow> (EncodeClassicTemporal exid v = Inr b \<longleftrightarrow> DecodeClassicTemporal exid b = Inr v)) \<and>
   ((\<exists>t. DecodeClassicTemporal exid b = Inr t) \<longleftrightarrow> (\<exists>raw. rawValue exid b = Inr raw))"
proof (cases "temporalSpecs exid")
  case None
  then show ?thesis
    by (auto simp: EncodeClassicTemporal_def DecodeClassicTemporal_def temporal_specification_def rawValue_def)
next
  case (Some spec)
  have "(\<exists>t. DecodeClassicTemporal exid b = Inr t) \<longleftrightarrow> (\<exists>raw. rawValue exid b = Inr raw)"
    unfolding decode_raw [OF Some] using temporal_text_total [OF Some] by (cases "rawValue exid b") auto
  then show ?thesis using encode_iff [OF Some] decode_iff [OF Some] by blast
qed

theorem temporal_codec_exact_witness:
  "EncodeClassicTemporal ''i'' (gostr ''20:15'') = Inr [0xc0, 4] \<and> DecodeClassicTemporal ''i'' [0xc0, 4] = Inr (gostr ''20:15'')"
proof -
  have e: "EncodeClassicTemporal ''i'' (gostr ''20:15'') = Inr [0xc0, 4]"
    by (simp add: EncodeClassicTemporal_def temporal_specification_def temporalSpecs_def temporal_raw_def matchForm_def iForm_def gostr_def
        digit_char_def digits_value_def parseClock_def encodeRaw_def put16le_def)
  moreover have "gostr ''20:15'' \<noteq> []" by (simp add: gostr_def)
  ultimately show ?thesis using temporal_codec_exact by blast
qed

end
