(* ===== verification/Packed.thy ===== *)
theory Packed
  imports Go_Decimal
begin

text \<open>
  Package \<open>value\<close>, file \<open>packed_decimal.go\<close>: packed decimals, from a decimal text to nibbles and back. The shift of the decimal
  point is computed in Go's 64-bit \<open>int\<close>, whose wrap-around is written out; \<open>strings.Repeat\<close> panics on a length no machine
  can allocate. The label \<open>path\<close> is left out.
\<close>

section \<open>Texts\<close>

datatype packed_error = ErrPackedRange | ErrPackedDecode | PackedPanic

definition maxPackedDecimalTextLength :: nat where "maxPackedDecimalTextLength = 4096"

definition contains_nonzero :: "gostring \<Rightarrow> bool" where
  "contains_nonzero s \<longleftrightarrow> list_ex (\<lambda>b. 0x31 \<le> b \<and> b \<le> 0x39) s"

fun trimLeadingZeros :: "gostring \<Rightarrow> gostring" where
  "trimLeadingZeros (c # d # r) = (if c = 0x30 then trimLeadingZeros (d # r) else c # d # r)"
| "trimLeadingZeros s = s"

definition repeat_zeros :: "int \<Rightarrow> packed_error + gostring" where
  "repeat_zeros n = (if n < 2 ^ 47 then Inr (replicate (nat n) 0x30) else Inl PackedPanic)"

record scaled =
  sc_digits :: gostring
  sc_negative :: bool

text \<open>The digits after the shift of the decimal point.\<close>

definition shift_digits :: "gostring \<Rightarrow> int \<Rightarrow> nat \<Rightarrow> packed_error + gostring" where
  "shift_digits coefficient shift capacity =
     (if shift \<ge> 0 then
        let significantLength = length (dropWhile (\<lambda>b. b = 0x30) coefficient) in
        if wrap64 (int significantLength + shift) > int capacity then Inl ErrPackedRange
        else bindE (repeat_zeros shift) (\<lambda>zeros. Inr (coefficient @ zeros))
      else
        let removed = wrap64 (- shift);
            split = wrap64 (int (length coefficient) - removed);
            split = (if split < 0 then 0 else nat split) in
        if contains_nonzero (drop split coefficient) then Inl ErrPackedRange
        else Inr (if take split coefficient = [] then gostr ''0'' else take split coefficient))"

definition scaledDigits :: "gostring \<Rightarrow> int \<Rightarrow> nat \<Rightarrow> packed_error + scaled" where
  "scaledDigits s decimals capacity =
     (case match_decimal s of
        None \<Rightarrow> Inl ErrPackedRange
      | Some (m1, m2, m3, m4, m5) \<Rightarrow>
          let fraction = (if m3 = [] then m4 else m3); coefficient = m2 @ fraction in
          case (if m5 \<noteq> [] then go_Atoi m5 else Some 0) of
            None \<Rightarrow>
              if \<not> contains_nonzero coefficient then Inr \<lparr>sc_digits = gostr ''0'', sc_negative = False\<rparr>
              else Inl ErrPackedRange
          | Some exponent \<Rightarrow>
              let shift = wrap64 (wrap64 (exponent + decimals) - int (length fraction)) in
              bindE (shift_digits coefficient shift capacity) (\<lambda>scaledText.
              let significant = trimLeadingZeros scaledText in
              if length significant > capacity then Inl ErrPackedRange
              else Inr \<lparr>sc_digits = significant, sc_negative = (m1 = gostr ''-'' \<and> contains_nonzero significant)\<rparr>))"

definition packedGeometry :: "int \<Rightarrow> int \<Rightarrow> packed_error + nat" where
  "packedGeometry byteLength decimals =
     (if byteLength < 1 \<or> byteLength > 16 then Inl ErrPackedRange
      else let digits = byteLength * 2 - 1; maximumDecimals = (if digits < 14 then digits else 14) in
        if decimals < 0 \<or> decimals > maximumDecimals then Inl ErrPackedRange else Inr (nat digits))"

section \<open>Nibbles\<close>

definition hex_nibble :: "byte \<Rightarrow> byte option" where
  "hex_nibble c = (if digit_char c then Some (c - 0x30) else if 0x41 \<le> c \<and> c \<le> 0x46 then Some (c - 0x37) else None)"

fun pack_nibbles :: "gostring \<Rightarrow> packed_error + bytes" where
  "pack_nibbles (a # b # r) =
     (case (hex_nibble a, hex_nibble b) of
        (Some x, Some y) \<Rightarrow> bindE (pack_nibbles r) (\<lambda>bs. Inr ((16 * x + y) # bs))
      | _ \<Rightarrow> Inl ErrPackedRange)"
| "pack_nibbles s = Inr []"

definition padStartZeros :: "gostring \<Rightarrow> nat \<Rightarrow> gostring" where
  "padStartZeros s width = (if length s \<ge> width then s else replicate (width - length s) 0x30 @ s)"

definition EncodePackedDecimal :: "gostring \<Rightarrow> int \<Rightarrow> int \<Rightarrow> packed_error + bytes" where
  "EncodePackedDecimal v byteLength decimals =
     bindE (packedGeometry byteLength decimals) (\<lambda>capacity.
     let v = (if v = [] then gostr ''0'' else v) in
     bindE (fail_if (length v > maxPackedDecimalTextLength) ErrPackedRange) (\<lambda>_.
     bindE (scaledDigits v decimals capacity) (\<lambda>s.
     pack_nibbles (padStartZeros (sc_digits s) capacity @ gostr (if sc_negative s then ''D'' else ''C'')))))"

text \<open>\<open>strings.ToUpper(hex.EncodeToString(value))\<close>.\<close>

definition nibble_char :: "byte \<Rightarrow> byte" where
  "nibble_char n = (if n < 10 then n + 0x30 else n + 0x37)"

definition upper_hex :: "bytes \<Rightarrow> gostring" where
  "upper_hex v = concat (map (\<lambda>b. [nibble_char (b div 16), nibble_char (b mod 16)]) v)"

definition DecodePackedDecimal :: "bytes \<Rightarrow> int \<Rightarrow> packed_error + gostring" where
  "DecodePackedDecimal v decimals =
     bindE (packedGeometry (int (length v)) decimals) (\<lambda>capacity.
     let h = upper_hex v; digits = take capacity h in
     bindE (fail_if (\<not> (digits \<noteq> [] \<and> list_all digit_char digits)) ErrPackedDecode) (\<lambda>_.
     let sign = last h; positive = sign \<in> set (gostr ''ACEF''); negative = sign \<in> set (gostr ''BD'') in
     bindE (fail_if (\<not> positive \<and> \<not> negative) ErrPackedDecode) (\<lambda>_.
     let n = nat decimals;
         integerDigits = (if decimals = 0 then digits else if length digits > n then take (length digits - n) digits else gostr ''0'');
         integer = trimLeadingZeros integerDigits;
         fraction = (if decimals \<noteq> 0 then drop (length digits - n) digits else []);
         pre = (if negative \<and> contains_nonzero digits then gostr ''-'' else []) in
     Inr (pre @ integer @ (if decimals \<noteq> 0 then gostr ''.'' @ fraction else [])))))"

section \<open>Values of digits\<close>

lemma digits_value_Cons: "digits_value (b # s) = (unat b - 48) * 10 ^ length s + digits_value s"
proof -
  have "foldl (\<lambda>n b. n * 10 + (unat b - 48)) k s = k * 10 ^ length s + foldl (\<lambda>n b. n * 10 + (unat b - 48)) 0 s" for k and s :: gostring
  proof (induction s arbitrary: k)
    case (Cons c s)
    show ?case by (simp only: foldl_Cons Cons [of "k * 10 + _"] Cons [of "0 * 10 + _"]) (simp add: algebra_simps)
  qed simp
  from this [of "unat b - 48" s] show ?thesis by (simp add: digits_value_def)
qed

lemma digits_value_Nil [simp]: "digits_value [] = 0"
  by (simp add: digits_value_def)

lemma digits_value_append: "digits_value (a @ b) = digits_value a * 10 ^ length b + digits_value b"
  by (induction a) (simp_all add: digits_value_Cons power_add algebra_simps)

lemma digits_value_zeros [simp]: "digits_value (replicate n 0x30) = 0"
  by (induction n) (simp_all add: digits_value_Cons)

lemma digits_value_zero_char [simp]: "digits_value [0x30] = 0"
  by (simp add: digits_value_Cons)

lemma value_trim [simp]: "digits_value (trimLeadingZeros s) = digits_value s"
  by (induction s rule: trimLeadingZeros.induct) (auto simp: digits_value_Cons)

lemma trim_digits: "list_all digit_char s \<Longrightarrow> list_all digit_char (trimLeadingZeros s)"
  by (induction s rule: trimLeadingZeros.induct) auto

lemma trim_empty [simp]: "trimLeadingZeros s = [] \<longleftrightarrow> s = []"
  by (induction s rule: trimLeadingZeros.induct) auto

lemma nonzero_value: "list_all digit_char s \<Longrightarrow> contains_nonzero s \<longleftrightarrow> digits_value s \<noteq> 0"
proof (induction s)
  case (Cons b s)
  have "0x31 \<le> b \<and> b \<le> 0x39 \<longleftrightarrow> unat b - 48 \<noteq> 0" if "digit_char b"
    using that by (auto simp: digit_char_def word_le_nat_alt)
  then show ?case using Cons by (auto simp: contains_nonzero_def digits_value_Cons)
qed (simp add: contains_nonzero_def)

lemma pad_fixed:
  assumes "list_all digit_char s" "length s \<le> w"
  shows "padStartZeros s w = fixed_digits w (digits_value s)"
proof -
  let ?p = "replicate (w - length s) 0x30 @ s"
  have "list_all digit_char ?p" using assms(1) by (simp add: digit_char_def)
  then have "fixed_digits (length ?p) (digits_value ?p) = ?p" using fixed_digits_of_value by blast
  then show ?thesis using assms(2) by (auto simp: padStartZeros_def digits_value_append)
qed

section \<open>Nibbles and bytes\<close>

lemma nibble_pair:
  fixes x y :: byte
  assumes "x < 16" "y < 16"
  shows "(16 * x + y) div 16 = x" "(16 * x + y) mod 16 = y"
proof -
  have x: "unat x < 16" and y: "unat y < 16" using assms by (simp_all add: word_less_nat_alt)
  have u: "unat (16 * x + y) = 16 * unat x + unat y"
    using x y by (subst unat_word_ariths) (simp add: unat_word_ariths)
  show "(16 * x + y) div 16 = x" "(16 * x + y) mod 16 = y"
    using x y by (simp_all add: word_unat_eq_iff unat_div unat_mod u)
qed

lemma hex_nibble_char:
  assumes "hex_nibble c = Some x"
  shows "x < 16" "nibble_char x = c"
proof -
  have u: "x < 10 \<and> c = x + 0x30 \<or> 10 \<le> x \<and> x < 16 \<and> c = x + 0x37"
  proof (cases "digit_char c")
    case True
    then have "x = c - 0x30" using assms by (simp add: hex_nibble_def)
    moreover have "c - 0x30 < 10" using True by (auto simp: digit_char_def) unat_arith
    ultimately show ?thesis by simp
  next
    case False
    then have "x = c - 0x37" "0x41 \<le> c" "c \<le> 0x46" using assms by (simp_all add: hex_nibble_def split: if_splits)
    moreover have "10 \<le> c - 0x37 \<and> c - 0x37 < 16" using calculation(2,3) by unat_arith
    ultimately show ?thesis by simp
  qed
  then show "x < 16" "nibble_char x = c" by (auto simp: nibble_char_def) unat_arith
qed

lemma upper_hex_pack:
  "pack_nibbles s = Inr b \<Longrightarrow> even (length s) \<Longrightarrow> upper_hex b = s \<and> length b = length s div 2"
proof (induction s arbitrary: b rule: pack_nibbles.induct)
  case (1 p q r)
  then obtain x y bs where n: "hex_nibble p = Some x" "hex_nibble q = Some y" and r: "pack_nibbles r = Inr bs" and b: "b = (16 * x + y) # bs"
    by (auto simp: bindE_Inr_iff split: option.splits)
  have "upper_hex bs = r \<and> length bs = length r div 2" using "1.IH" [OF refl n r] "1.prems"(2) by simp
  then show ?case
    using hex_nibble_char [OF n(1)] hex_nibble_char [OF n(2)] nibble_pair [of x y] by (simp add: b upper_hex_def)
qed (auto simp: upper_hex_def)

lemma pack_total: "list_all (\<lambda>c. hex_nibble c \<noteq> None) s \<Longrightarrow> \<exists>b. pack_nibbles s = Inr b"
proof (induction s rule: pack_nibbles.induct)
  case (1 p q r)
  then show ?case by fastforce
qed auto

lemma pack_upper_hex: "pack_nibbles (upper_hex b) = Inr b"
proof (induction b)
  case (Cons c b)
  have h: "hex_nibble (nibble_char n) = Some n" if "n < 16" for n :: byte
  proof -
    have n: "unat n < 16" using that by (simp add: word_less_nat_alt)
    then have a: "unat (n + 0x30) = unat n + 48" "unat (n + 0x37) = unat n + 55" by (simp_all add: unat_word_ariths)
    show ?thesis
      using n by (cases "n < 10") (simp_all add: nibble_char_def hex_nibble_def digit_char_def word_le_nat_alt word_less_nat_alt a)
  qed
  have "c div 16 < 16" "c mod 16 < 16" by (simp_all add: word_less_nat_alt unat_div unat_mod) (use unsigned_less [of c, where ?'a = nat] in simp)
  moreover have "16 * (c div 16) + c mod 16 = c" by (metis mult_div_mod_eq)
  ultimately show ?case using Cons h by (simp add: upper_hex_def)
qed (simp add: upper_hex_def)

lemma length_upper_hex [simp]: "length (upper_hex b) = 2 * length b"
  by (induction b) (simp_all add: upper_hex_def)

section \<open>Decimal texts\<close>

lemma match_parts:
  assumes "match_decimal s = Some (m1, m2, m3, m4, m5)"
  shows "list_all digit_char (m2 @ m3 @ m4)" "m3 = [] \<or> m4 = []" "m2 @ m3 @ m4 \<noteq> []" "length (m2 @ m3 @ m4) \<le> length s"
proof -
  have t: "list_all digit_char (takeWhile digit_char xs)" for xs by (auto simp: list_all_iff dest: set_takeWhileD)
  have l: "length (takeWhile digit_char xs) \<le> length xs" "length (dropWhile digit_char xs) + length (takeWhile digit_char xs) = length xs" for xs
    by (rule length_takeWhile_le) (metis add.commute length_append takeWhile_dropWhile_id)
  have sg: "snd (split_sign s) = r \<Longrightarrow> length r \<le> length s" for r by (auto simp: split_sign_def split: if_splits)
  show "list_all digit_char (m2 @ m3 @ m4)" "m3 = [] \<or> m4 = []" "m2 @ m3 @ m4 \<noteq> []"
    using assms t by (auto simp: match_decimal_def Let_def split: prod.splits if_splits)
  obtain r where r: "split_sign s = (m1, r)" "m2 = takeWhile digit_char r"
    and f: "m3 @ m4 = [] \<or> m3 @ m4 = takeWhile digit_char (tl (dropWhile digit_char r))"
    using assms by (auto simp: match_decimal_def Let_def split: prod.splits if_splits)
  have "length (m3 @ m4) \<le> length (tl (dropWhile digit_char r))"
    using f l(1) [of "tl (dropWhile digit_char r)"] by (metis le0 list.size(3))
  then have "length (m3 @ m4) \<le> length (dropWhile digit_char r)" by simp
  then show "length (m2 @ m3 @ m4) \<le> length s" using l(2) [of r] sg r by simp
qed

text \<open>What \<open>shift_digits\<close> returns is the coefficient moved by the shift.\<close>

lemma wrap64_id: "- (2 ^ 63) \<le> v \<Longrightarrow> v < 2 ^ 63 \<Longrightarrow> wrap64 v = v"
  unfolding wrap64_def sint_sbintrunc' by (rule signed_take_bit_int_eq_self) simp_all

lemma wrap64_add: "wrap64 (v + 2 ^ 64) = wrap64 v"
proof -
  have "(word_of_int (v + 2 ^ 64) :: 64 word) = word_of_int v" unfolding word_of_int_eq_iff take_bit_eq_mod by simp
  then show ?thesis by (simp only: wrap64_def)
qed

lemma wrap64_range: "- (2 ^ 63) \<le> wrap64 v" "wrap64 v < 2 ^ 63"
  unfolding wrap64_def using sint_range_size [of "word_of_int v :: 64 word"] by (simp_all add: word_size)

lemma shift_up:
  assumes "shift_digits c k cap = Inr t" "0 \<le> k" "list_all digit_char c"
  shows "list_all digit_char t" "digits_value t = digits_value c * 10 ^ nat k" "k < 2 ^ 47"
proof -
  from assms(1,2) have k: "k < 2 ^ 47" and t: "t = c @ replicate (nat k) 0x30"
    by (auto simp: shift_digits_def repeat_zeros_def bindE_Inr_iff Let_def split: if_splits)
  then show "list_all digit_char t" "digits_value t = digits_value c * 10 ^ nat k" "k < 2 ^ 47"
    using assms(3) by (simp_all add: digits_value_append digit_char_def)
qed

lemma shift_down:
  assumes "shift_digits c k cap = Inr t" "k < 0" "- (2 ^ 63) \<le> k" "list_all digit_char c" "length c \<le> 4096"
  shows "list_all digit_char t" "digits_value t * 10 ^ nat (- k) = digits_value c"
proof -
  define split where "split = (let x = wrap64 (int (length c) - wrap64 (- k)) in if x < 0 then 0 else nat x)"
  have split: "split = length c - nat (- k)"
  proof (cases "k = - (2 ^ 63)")
    case True
    have "wrap64 (- k) = - (2 ^ 63)" unfolding True wrap64_def by simp
    moreover have "wrap64 (int (length c) + 2 ^ 63) = int (length c) - 2 ^ 63"
    proof -
      have "wrap64 (int (length c) + 2 ^ 63) = wrap64 (int (length c) - 2 ^ 63)"
        using wrap64_add [of "int (length c) - 2 ^ 63"] by (simp add: add.commute)
      then show ?thesis using assms(5) by (simp add: wrap64_id)
    qed
    ultimately show ?thesis using assms(5) True by (simp add: split_def Let_def)
  next
    case False
    then have "wrap64 (- k) = - k" using assms(2,3) by (intro wrap64_id) auto
    moreover have "wrap64 (int (length c) + k) = int (length c) + k" using assms(2,3,5) by (intro wrap64_id) auto
    ultimately show ?thesis using assms(2) by (auto simp: split_def Let_def nat_diff_distrib')
  qed
  from assms(1,2) have z: "\<not> contains_nonzero (drop split c)" and t: "t = (if take split c = [] then gostr ''0'' else take split c)"
    by (auto simp: shift_digits_def split_def Let_def split: if_splits)
  have d: "list_all digit_char (take split c)" "list_all digit_char (drop split c)"
    using assms(4) by (simp_all add: list_all_iff) (use set_take_subset set_drop_subset in fast)+
  show "list_all digit_char t" using d(1) by (auto simp: t gostr_def digit_char_def)
  have v: "digits_value (drop split c) = 0" using z nonzero_value [OF d(2)] by simp
  have c: "digits_value c = digits_value (take split c) * 10 ^ length (drop split c)"
    using digits_value_append [of "take split c" "drop split c"] v by simp
  show "digits_value t * 10 ^ nat (- k) = digits_value c"
  proof (cases "nat (- k) \<le> length c")
    case True
    then have "length (drop split c) = nat (- k)" by (simp add: split)
    then show ?thesis using c by (auto simp: t gostr_def)
  next
    case False
    then have e: "take split c = []" by (simp add: split)
    then have "digits_value c = 0" using c by (simp only: digits_value_Nil)
    then show ?thesis unfolding t e by (simp add: gostr_def)
  qed
qed

lemma wrap64_diff: "wrap64 (wrap64 a - b) = wrap64 (a - b)"
proof -
  have "(word_of_int (sint (word_of_int a :: 64 word) - b) :: 64 word) = word_of_int (a - b)" by simp
  then show ?thesis by (simp only: wrap64_def)
qed

lemma digits_value_less: "list_all digit_char s \<Longrightarrow> digits_value s < 10 ^ length s"
  using fixed_digits_of_value by blast

lemma shift_value:
  assumes t: "shift_digits c (wrap64 e) cap = Inr t" and d: "list_all digit_char c" "length c \<le> 4096"
    and e: "- (2 ^ 63) - 4096 \<le> e" "e < 2 ^ 63 + 14"
  shows "list_all digit_char t \<and> digits_value t * 10 ^ nat (- e) = digits_value c * 10 ^ nat e"
proof -
  consider (id) "- (2 ^ 63) \<le> e" "e < 2 ^ 63" | (high) "2 ^ 63 \<le> e" | (low) "e < - (2 ^ 63)" by linarith
  then show ?thesis
  proof cases
    case id
    then have t': "shift_digits c e cap = Inr t" using t by (simp only: wrap64_id)
    show ?thesis
    proof (cases "0 \<le> e")
      case True
      then have "nat (- e) = 0" by simp
      then show ?thesis using shift_up [OF t' True d(1)] by simp
    next
      case False
      then have "nat e = 0" by simp
      then show ?thesis using shift_down [OF t' _ id(1) d] False by simp
    qed
  next
    case high
    have "wrap64 e = e - 2 ^ 64" using wrap64_add [of "e - 2 ^ 64"] wrap64_id [of "e - 2 ^ 64"] high e(2) by simp
    then have t': "shift_digits c (e - 2 ^ 64) cap = Inr t" using t by (simp only:)
    have k: "e - 2 ^ 64 < 0" "- (2 ^ 63) \<le> e - 2 ^ 64" using high e(2) by simp_all
    define n where "n = nat (- (e - 2 ^ 64))"
    have n: "length c \<le> n" using e(2) d(2) unfolding n_def by simp
    have v: "digits_value t * 10 ^ n = digits_value c" unfolding n_def using shift_down [OF t' k d] by blast
    have "digits_value c < 10 ^ n" using digits_value_less [OF d(1)] power_increasing [OF n, of "10 :: nat"] by linarith
    then have "digits_value t = 0" using v by (cases "digits_value t") auto
    then show ?thesis using v shift_down(1) [OF t' k d] by simp
  next
    case low
    have "wrap64 e = e + 2 ^ 64" using wrap64_add [of e] wrap64_id [of "e + 2 ^ 64"] low e(1) by simp
    then have t': "shift_digits c (e + 2 ^ 64) cap = Inr t" using t by (simp only:)
    have "0 \<le> e + 2 ^ 64" using e(1) by simp
    then have "e + 2 ^ 64 < 2 ^ 47" using shift_up(3) [OF t' _ d(1)] by blast
    then show ?thesis using e(1) by simp
  qed
qed

lemma scaled_value:
  assumes sc: "scaledDigits s d cap = Inr sc" and m: "match_decimal s = Some (m1, m2, m3, m4, m5)"
    and l: "length s \<le> 4096" and d: "0 \<le> d" "d \<le> 14" and cap: "0 < cap"
  defines "e \<equiv> signed_value m5 + d - int (length (m3 @ m4))"
  shows "list_all digit_char (sc_digits sc)" "length (sc_digits sc) \<le> cap"
    "digits_value (sc_digits sc) * 10 ^ nat (- e) = digits_value (m2 @ m3 @ m4) * 10 ^ nat e"
    "sc_negative sc \<longleftrightarrow> m1 = gostr ''-'' \<and> digits_value (sc_digits sc) \<noteq> 0"
proof -
  define fraction where "fraction = (if m3 = [] then m4 else m3)"
  have f: "fraction = m3 @ m4" using match_parts(2) [OF m] by (auto simp: fraction_def)
  have c: "list_all digit_char (m2 @ fraction)" "length (m2 @ fraction) \<le> 4096" using match_parts(1,4) [OF m] l by (simp_all add: f)
  have all: "list_all digit_char (sc_digits sc) \<and> length (sc_digits sc) \<le> cap \<and>
    digits_value (sc_digits sc) * 10 ^ nat (- e) = digits_value (m2 @ fraction) * 10 ^ nat e \<and>
    (sc_negative sc \<longleftrightarrow> m1 = gostr ''-'' \<and> digits_value (sc_digits sc) \<noteq> 0)"
  proof (cases "if m5 \<noteq> [] then go_Atoi m5 else Some 0")
    case None
    then have "\<not> contains_nonzero (m2 @ fraction)" and sc': "sc = \<lparr>sc_digits = gostr ''0'', sc_negative = False\<rparr>"
      using sc m unfolding scaledDigits_def fraction_def [symmetric] Let_def by (simp_all add: fraction_def split: if_splits)
    then have "digits_value (m2 @ fraction) = 0" using nonzero_value [OF c(1)] by simp
    then show ?thesis using cap by (simp add: sc' gostr_def digit_char_def)
  next
    case (Some exponent)
    then have x: "exponent = signed_value m5" "- (2 ^ 63) \<le> exponent" "exponent < 2 ^ 63"
      by (auto simp: go_Atoi_def signed_value_def split_sign_def Let_def split: if_splits)
    obtain t where t: "shift_digits (m2 @ fraction) (wrap64 (wrap64 (exponent + d) - int (length fraction))) cap = Inr t"
      and sc': "length (trimLeadingZeros t) \<le> cap"
        "sc = \<lparr>sc_digits = trimLeadingZeros t, sc_negative = (m1 = gostr ''-'' \<and> contains_nonzero (trimLeadingZeros t))\<rparr>"
      using sc m Some unfolding scaledDigits_def fraction_def [symmetric] Let_def
      by (simp add: bindE_Inr_iff fraction_def [symmetric] split: if_splits)
    have "list_all digit_char t \<and> digits_value t * 10 ^ nat (- e) = digits_value (m2 @ fraction) * 10 ^ nat e"
    proof (rule shift_value)
      show "shift_digits (m2 @ fraction) (wrap64 e) cap = Inr t" using t by (simp add: wrap64_diff e_def x(1) f)
      have "length fraction \<le> 4096" using c(2) by simp
      then show "- (2 ^ 63) - 4096 \<le> e" "e < 2 ^ 63 + 14" using x d by (simp_all add: e_def f)
    qed (use c in blast)+
    then show ?thesis using sc' trim_digits nonzero_value [of "trimLeadingZeros t"] by auto
  qed
  then show "list_all digit_char (sc_digits sc)" "length (sc_digits sc) \<le> cap"
    "digits_value (sc_digits sc) * 10 ^ nat (- e) = digits_value (m2 @ m3 @ m4) * 10 ^ nat e"
    "sc_negative sc \<longleftrightarrow> m1 = gostr ''-'' \<and> digits_value (sc_digits sc) \<noteq> 0"
    unfolding f by blast+
qed

section \<open>The codec\<close>

text \<open>The number a packed decimal stands for, in units of its last decimal.\<close>

definition packed_value :: "bytes \<Rightarrow> int" where
  "packed_value b =
     (let h = upper_hex b; n = int (digits_value (take (2 * length b - 1) h)) in
      if last h \<in> set (gostr ''BD'') then - n else n)"

lemma geometry_ok:
  "packedGeometry n d = Inr capacity \<longleftrightarrow> 1 \<le> n \<and> n \<le> 16 \<and> 0 \<le> d \<and> d \<le> 14 \<and> d < 2 * n \<and> capacity = nat (2 * n - 1)"
  by (auto simp: packedGeometry_def Let_def split: if_splits)

text \<open>The bytes for a number of at most \<open>capacity\<close> digits.\<close>

lemma pack_fixed:
  assumes "1 \<le> n"
  obtains b where "pack_nibbles (fixed_digits (2 * n - 1) v @ gostr (if neg then ''D'' else ''C'')) = Inr b"
    "upper_hex b = fixed_digits (2 * n - 1) v @ gostr (if neg then ''D'' else ''C'')" "length b = n"
proof -
  let ?s = "fixed_digits (2 * n - 1) v @ gostr (if neg then ''D'' else ''C'')"
  have "list_all (\<lambda>c. hex_nibble c \<noteq> None) (fixed_digits (2 * n - 1) v)"
    using fixed_digits_chars [of "2 * n - 1" v] by (auto simp: list_all_iff hex_nibble_def)
  then have "list_all (\<lambda>c. hex_nibble c \<noteq> None) ?s" by (simp add: gostr_def hex_nibble_def digit_char_def)
  then obtain b where b: "pack_nibbles ?s = Inr b" using pack_total by blast
  have l: "length ?s = 2 * n" using assms by (simp add: gostr_def)
  then have "upper_hex b = ?s \<and> length b = n" using upper_hex_pack [OF b] by simp
  then show thesis using that b by blast
qed

text \<open>
  An encoded packed decimal has the value of its text. If encoding succeeds, the result has the length asked for, and the number it
  holds, counted in units of the last decimal, is the number the text denotes, without rounding: sign, integer and fraction digits and exponent
  are those of the pattern, and no wrap-around of the 64-bit shift falsifies it.
\<close>

theorem packed_encode_value:
  assumes "EncodePackedDecimal t n d = Inr b" "match_decimal (if t = [] then gostr ''0'' else t) = Some (m1, m2, m3, m4, m5)"
    and "e = signed_value m5 + d - int (length (m3 @ m4))"
  shows "length b = nat n \<and> packed_value b * 10 ^ nat (- e) =
    (if m1 = gostr ''-'' then - 1 else 1) * int (digits_value (m2 @ m3 @ m4)) * 10 ^ nat e"
proof -
  define s where "s = (if t = [] then gostr ''0'' else t)"
  from assms(1) obtain sc where g: "1 \<le> n" "n \<le> 16" "0 \<le> d" "d \<le> 14" and l: "length s \<le> 4096"
    and sc: "scaledDigits s d (nat (2 * n - 1)) = Inr sc"
    and b: "pack_nibbles (padStartZeros (sc_digits sc) (nat (2 * n - 1)) @ gostr (if sc_negative sc then ''D'' else ''C'')) = Inr b"
    unfolding EncodePackedDecimal_def Let_def s_def [symmetric]
    by (auto simp: bindE_Inr_iff geometry_ok maxPackedDecimalTextLength_def)
  have w: "nat (2 * n - 1) = 2 * nat n - 1" "0 < nat (2 * n - 1)" "1 \<le> nat n" using g(1) by auto
  note v = scaled_value [OF sc assms(2) [folded s_def] l g(3,4) w(2), folded assms(3)]
  define x where "x = digits_value (sc_digits sc)"
  have pad: "padStartZeros (sc_digits sc) (nat (2 * n - 1)) = fixed_digits (2 * nat n - 1) x"
    unfolding x_def using pad_fixed [OF v(1,2)] by (simp only: w(1))
  have small: "x < 10 ^ (2 * nat n - 1)"
    using digits_value_less [OF v(1)] power_increasing [OF v(2), of "10 :: nat"] unfolding x_def w(1) by linarith
  obtain b' where "pack_nibbles (fixed_digits (2 * nat n - 1) x @ gostr (if sc_negative sc then ''D'' else ''C'')) = Inr b'"
    and h: "upper_hex b' = fixed_digits (2 * nat n - 1) x @ gostr (if sc_negative sc then ''D'' else ''C'')" "length b' = nat n"
    using pack_fixed [OF w(3)] by metis
  then have b': "b' = b" using b unfolding pad by simp
  have "packed_value b = (if sc_negative sc then - int x else int x)"
    using h fixed_digits_value [OF small] unfolding b' packed_value_def Let_def by (simp add: gostr_def)
  moreover have "int x * 10 ^ nat (- e) = int (digits_value (m2 @ m3 @ m4)) * 10 ^ nat e"
    using arg_cong [OF v(3), of int] unfolding x_def by simp
  ultimately show ?thesis using h(2) v(4) unfolding b' x_def [symmetric] by (auto simp: mult.assoc)
qed

theorem packed_encode_value_witness:
  "\<exists>b. EncodePackedDecimal (gostr ''-1.5e1'') 2 1 = Inr b \<and> packed_value b = - 150"
proof -
  have e: "EncodePackedDecimal (gostr ''-1.5e1'') 2 1 = Inr [0x15, 0x0d]"
    by (simp add: EncodePackedDecimal_def packedGeometry_def scaledDigits_def match_decimal_def match_exponent_def split_sign_def sign_char_def
        gostr_def digit_char_def go_Atoi_def signed_value_def digits_value_def shift_digits_def wrap64_def repeat_zeros_def
        maxPackedDecimalTextLength_def contains_nonzero_def hex_nibble_def padStartZeros_def Let_def fail_if_def)
  have m: "match_decimal (if gostr ''-1.5e1'' = [] then gostr ''0'' else gostr ''-1.5e1'') =
      Some (gostr ''-'', gostr ''1'', gostr ''5'', [], gostr ''1'')"
    by (simp add: match_decimal_def match_exponent_def split_sign_def sign_char_def gostr_def digit_char_def Let_def)
  show ?thesis
    using packed_encode_value [OF e m refl] e by (simp add: gostr_def signed_value_def split_sign_def sign_char_def digits_value_def)
qed

section \<open>Decoded texts\<close>

abbreviation zero_char :: "byte \<Rightarrow> bool" where
  "zero_char b \<equiv> b = 0x30"

lemma drop_zeros_trim: "dropWhile zero_char (trimLeadingZeros s @ f) = dropWhile zero_char (s @ f)"
  by (induction s rule: trimLeadingZeros.induct) auto

lemma length_trim: "length (trimLeadingZeros s) \<le> max 1 (length (dropWhile zero_char s))"
  by (induction s rule: trimLeadingZeros.induct) auto

lemma split_sign_digits:
  assumes "r \<noteq> []" "digit_char (hd r)" "pre = [] \<or> pre = gostr ''-''"
  shows "split_sign (pre @ r) = (pre, r)"
  using assms by (auto simp: split_sign_def sign_char_def digit_char_def gostr_def)

lemma match_written:
  assumes "list_all digit_char integer" "integer \<noteq> []" "list_all digit_char fraction" "pre = [] \<or> pre = gostr ''-''"
    and "match_exponent expo = Some m5"
  shows "match_decimal (pre @ integer @ expo) = Some (pre, integer, [], [], m5)"
    "match_decimal (pre @ integer @ gostr ''.'' @ fraction @ expo) = Some (pre, integer, fraction, [], m5)"
proof -
  have h: "digit_char (hd (integer @ r))" "integer @ r \<noteq> []" for r using assms(1,2) by (cases integer; simp)+
  have x: "expo = [] \<or> \<not> digit_char (hd expo) \<and> hd expo \<noteq> 0x2e"
    using assms(5) by (auto simp: match_exponent_def digit_char_def split: if_splits)
  have run: "takeWhile digit_char (s @ expo) = s" "dropWhile digit_char (s @ expo) = expo" if "list_all digit_char s" for s
    using that x by (cases expo; simp add: takeWhile_append dropWhile_append list_all_iff)+
  have p: "takeWhile digit_char (integer @ 0x2e # r) = integer" "dropWhile digit_char (integer @ 0x2e # r) = 0x2e # r" for r
    using assms(1) by (simp_all add: takeWhile_append dropWhile_append list_all_iff digit_char_def)
  show "match_decimal (pre @ integer @ expo) = Some (pre, integer, [], [], m5)"
    unfolding match_decimal_def split_sign_digits [OF h(2) h(1) assms(4)] using assms(2,5) x by (auto simp: run [OF assms(1)] Let_def)
  have "split_sign (pre @ integer @ 0x2e # fraction @ expo) = (pre, integer @ 0x2e # fraction @ expo)"
    by (rule split_sign_digits [OF h(2) h(1) assms(4)])
  then show "match_decimal (pre @ integer @ gostr ''.'' @ fraction @ expo) = Some (pre, integer, fraction, [], m5)"
    using assms(2,5) p by (simp add: match_decimal_def gostr_def run [OF assms(3)] Let_def)
qed

lemma match_decoded:
  assumes "list_all digit_char integer" "integer \<noteq> []" "list_all digit_char fraction" "pre = [] \<or> pre = gostr ''-''"
  shows "match_decimal (pre @ integer) = Some (pre, integer, [], [], [])"
    "match_decimal (pre @ integer @ gostr ''.'' @ fraction) = Some (pre, integer, fraction, [], [])"
  using match_written [OF assms, of "[]" "[]"] by (simp_all add: match_exponent_def)

lemma scaled_decoded:
  assumes "match_decimal t = Some (pre, integer, fraction, [], [])" "int (length fraction) = d" "d \<le> 14"
    and "length (dropWhile zero_char (integer @ fraction)) \<le> cap" "0 < cap"
  shows "scaledDigits t d cap = Inr \<lparr>sc_digits = trimLeadingZeros (integer @ fraction),
     sc_negative = (pre = gostr ''-'' \<and> contains_nonzero (trimLeadingZeros (integer @ fraction)))\<rparr>"
proof -
  have f: "(if fraction = [] then [] else fraction) = fraction" by simp
  have w: "wrap64 d = d" "wrap64 (wrap64 d - d) = 0" using assms(2,3) wrap64_id [of d] wrap64_id [of 0] by auto
  have l: "length (dropWhile zero_char (integer @ fraction)) \<le> length (integer @ fraction)" by (rule length_dropWhile_le)
  have s: "\<not> wrap64 (int (length (dropWhile zero_char (integer @ fraction)))) > int cap"
  proof (cases "int (length (dropWhile zero_char (integer @ fraction))) < 2 ^ 63")
    case True
    then show ?thesis using assms(4) wrap64_id [of "int (length (dropWhile zero_char (integer @ fraction)))"] by simp
  next
    case False
    then show ?thesis using assms(4) wrap64_range(2) [of "int (length (dropWhile zero_char (integer @ fraction)))"] by linarith
  qed
  have t: "length (trimLeadingZeros (integer @ fraction)) \<le> cap" using length_trim [of "integer @ fraction"] assms(4,5) by linarith
  show ?thesis
    using assms(2) s t w(2) unfolding scaledDigits_def assms(1) by (simp add: Let_def f shift_digits_def repeat_zeros_def)
qed

text \<open>The split of the digits at the decimal point.\<close>

lemma split_digits:
  assumes "list_all digit_char digits" "digits \<noteq> []" "m \<le> length digits" "int m = d"
  defines "integerDigits \<equiv> if d = 0 then digits else if length digits > m then take (length digits - m) digits else gostr ''0''"
    and "fraction \<equiv> if d \<noteq> 0 then drop (length digits - m) digits else []"
  shows "list_all digit_char integerDigits \<and> integerDigits \<noteq> [] \<and> list_all digit_char fraction \<and> int (length fraction) = d \<and>
    length integerDigits \<le> length digits \<and>
    dropWhile zero_char (integerDigits @ fraction) = dropWhile zero_char digits \<and> digits_value (integerDigits @ fraction) = digits_value digits"
proof -
  have td: "list_all digit_char (take k digits)" "list_all digit_char (drop k digits)" for k
    using assms(1) list_all_append [of digit_char "take k digits" "drop k digits"] by simp_all
  have one: "1 \<le> length digits" using assms(2) by (cases digits) simp_all
  consider "d = 0" | "d \<noteq> 0" "m < length digits" | "d \<noteq> 0" "m = length digits" using assms(3) by linarith
  then show ?thesis
  proof cases
    case 1
    then show ?thesis using assms(1,2) by (simp add: integerDigits_def fraction_def)
  next
    case 2
    then have "integerDigits = take (length digits - m) digits" "fraction = drop (length digits - m) digits" by (simp_all add: integerDigits_def fraction_def)
    then show ?thesis using 2 td assms(2,4) by simp
  next
    case 3
    then have "integerDigits = [0x30]" "fraction = digits" by (simp_all add: integerDigits_def fraction_def gostr_def)
    then show ?thesis using 3 assms(1,4) one by (simp add: digit_char_def digits_value_Cons)
  qed
qed

lemma decoded_shape:
  assumes "DecodePackedDecimal b d = Inr t"
  defines "digits \<equiv> butlast (upper_hex b)"
  defines "pre \<equiv> if packed_value b < 0 then gostr ''-'' else []"
  shows "1 \<le> length b \<and> length b \<le> 16 \<and> 0 \<le> d \<and> d \<le> 14 \<and> d < 2 * int (length b) \<and> list_all digit_char digits \<and>
    (\<exists>integer fraction. t = pre @ integer @ (if d \<noteq> 0 then gostr ''.'' @ fraction else []) \<and> integer \<noteq> [] \<and>
      list_all digit_char integer \<and> list_all digit_char fraction \<and> int (length fraction) = d \<and> length integer \<le> length digits \<and>
      dropWhile zero_char (integer @ fraction) = dropWhile zero_char digits \<and> digits_value (integer @ fraction) = digits_value digits)"
proof -
  define n m where "n = length b" and "m = nat d"
  from assms(1) have g: "1 \<le> int n" "int n \<le> 16" "0 \<le> d" "d \<le> 14" "d < 2 * int n"
    by (auto simp: DecodePackedDecimal_def bindE_Inr_iff geometry_ok n_def)
  have n: "1 \<le> n" "nat (2 * int n - 1) = 2 * n - 1" using g(1) by auto
  have take_cap: "take (2 * n - 1) (upper_hex b) = digits" by (simp add: digits_def n_def butlast_conv_take)
  have ld: "length digits = 2 * n - 1" by (simp add: digits_def n_def)
  define negative where "negative = (last (upper_hex b) \<in> set (gostr ''BD'') \<and> contains_nonzero digits)"
  define integerDigits where "integerDigits = (if d = 0 then digits else if length digits > m then take (length digits - m) digits else gostr ''0'')"
  define fraction where "fraction = (if d \<noteq> 0 then drop (length digits - m) digits else [])"
  have geo: "packedGeometry (int n) d = Inr (2 * n - 1)" using g by (auto simp: geometry_ok)
  define text' where "text' = (if negative then gostr ''-'' else []) @ trimLeadingZeros integerDigits @ (if d \<noteq> 0 then gostr ''.'' @ fraction else [])"
  have "(if \<not> (digits \<noteq> [] \<and> list_all digit_char digits) then Inl ErrPackedDecode
      else if \<not> last (upper_hex b) \<in> set (gostr ''ACEF'') \<and> \<not> last (upper_hex b) \<in> set (gostr ''BD'') then Inl ErrPackedDecode else Inr text') = Inr t"
    using assms(1) unfolding DecodePackedDecimal_def n_def [symmetric] geo bindE.simps Let_def take_cap bindE_fail_if m_def [symmetric]
      integerDigits_def [symmetric] fraction_def [symmetric] negative_def [symmetric] text'_def .
  then have dg: "list_all digit_char digits"
    and t: "t = (if negative then gostr ''-'' else []) @ trimLeadingZeros integerDigits @ (if d \<noteq> 0 then gostr ''.'' @ fraction else [])"
    unfolding text'_def [symmetric] by (simp_all split: if_splits)
  have "negative \<longleftrightarrow> packed_value b < 0"
    using nonzero_value [OF dg] unfolding packed_value_def n_def [symmetric] take_cap negative_def Let_def by auto
  then have t': "t = pre @ trimLeadingZeros integerDigits @ (if d \<noteq> 0 then gostr ''.'' @ fraction else [])" using t by (simp add: pre_def)
  have ne: "digits \<noteq> []" using ld n(1) by (cases digits) auto
  have m: "m \<le> length digits" "int m = d" using g ld by (auto simp: m_def)
  note p = split_digits [OF dg ne m, folded integerDigits_def fraction_def]
  have "length (trimLeadingZeros integerDigits) \<le> length digits"
    using length_trim [of integerDigits] length_dropWhile_le [of zero_char integerDigits] p ld n(1) by linarith
  then have "trimLeadingZeros integerDigits \<noteq> [] \<and> list_all digit_char (trimLeadingZeros integerDigits) \<and> list_all digit_char fraction \<and>
      int (length fraction) = d \<and> length (trimLeadingZeros integerDigits) \<le> length digits \<and>
      dropWhile zero_char (trimLeadingZeros integerDigits @ fraction) = dropWhile zero_char digits \<and>
      digits_value (trimLeadingZeros integerDigits @ fraction) = digits_value digits"
    using p trim_digits by (simp add: drop_zeros_trim digits_value_append)
  then have "\<exists>integer fraction. t = pre @ integer @ (if d \<noteq> 0 then gostr ''.'' @ fraction else []) \<and> integer \<noteq> [] \<and>
      list_all digit_char integer \<and> list_all digit_char fraction \<and> int (length fraction) = d \<and> length integer \<le> length digits \<and>
      dropWhile zero_char (integer @ fraction) = dropWhile zero_char digits \<and> digits_value (integer @ fraction) = digits_value digits"
    using t' by blast
  moreover have "1 \<le> length b \<and> length b \<le> 16" using g(1,2) n(1) by (simp add: n_def)
  ultimately show ?thesis using g dg unfolding n_def by blast
qed

text \<open>
  C0. Decoding keeps every digit: the text of a packed decimal encodes back to its bytes, with the sign nibble in its preferred form, C, or
  D for a negative number. So decoding and encoding are inverse on the bytes that encoding produces.
\<close>

theorem packed_decode_encode:
  assumes "DecodePackedDecimal b d = Inr t"
  shows "\<exists>b'. EncodePackedDecimal t (int (length b)) d = Inr b' \<and>
    upper_hex b' = butlast (upper_hex b) @ gostr (if packed_value b < 0 then ''D'' else ''C'')"
proof -
  define n digits pre where "n = length b" and "digits = butlast (upper_hex b)" and "pre = (if packed_value b < 0 then gostr ''-'' else [])"
  obtain integer fraction where g: "1 \<le> n" "n \<le> 16" "0 \<le> d" "d \<le> 14" "d < 2 * int n" and dg: "list_all digit_char digits"
    and t: "t = pre @ integer @ (if d \<noteq> 0 then gostr ''.'' @ fraction else [])" and p: "integer \<noteq> []" "list_all digit_char integer"
      "list_all digit_char fraction" "int (length fraction) = d" "length integer \<le> length digits"
      "dropWhile zero_char (integer @ fraction) = dropWhile zero_char digits" "digits_value (integer @ fraction) = digits_value digits"
    using decoded_shape [OF assms] unfolding n_def digits_def pre_def by blast
  have ld: "length digits = 2 * n - 1" by (simp add: digits_def n_def)
  have match: "match_decimal t = Some (pre, integer, fraction, [], [])"
    using match_decoded [OF p(2,1,3), of pre] p(4) by (cases "d = 0") (auto simp: t pre_def)
  have c: "list_all digit_char (integer @ fraction)" using p(2,3) by simp
  have drop: "length (dropWhile zero_char (integer @ fraction)) \<le> 2 * n - 1"
    unfolding p(6) using length_dropWhile_le [of zero_char digits] ld by simp
  then have sc: "scaledDigits t d (2 * n - 1) = Inr \<lparr>sc_digits = trimLeadingZeros (integer @ fraction),
      sc_negative = (pre = gostr ''-'' \<and> contains_nonzero (trimLeadingZeros (integer @ fraction)))\<rparr>"
    using scaled_decoded [OF match p(4) g(4)] g(1) by simp
  have len: "length (trimLeadingZeros (integer @ fraction)) \<le> 2 * n - 1" using length_trim [of "integer @ fraction"] drop g(1) by linarith
  have pad: "padStartZeros (trimLeadingZeros (integer @ fraction)) (2 * n - 1) = digits"
    using pad_fixed [OF trim_digits [OF c] len] p(7) fixed_digits_of_value [OF dg] ld by simp
  have neg: "(pre = gostr ''-'' \<and> contains_nonzero (trimLeadingZeros (integer @ fraction))) \<longleftrightarrow> packed_value b < 0"
  proof -
    have "packed_value b < 0 \<Longrightarrow> digits_value digits \<noteq> 0"
      by (auto simp: packed_value_def Let_def digits_def butlast_conv_take split: if_splits)
    then show ?thesis using nonzero_value [OF trim_digits [OF c]] p(7) by (auto simp: pre_def gostr_def)
  qed
  have "length fraction \<le> 14" using p(4) g(4) by linarith
  then have tl: "t \<noteq> []" "length t \<le> 4096" using p(1,5) ld g(2) by (auto simp: t pre_def gostr_def)
  obtain b' where b': "pack_nibbles (digits @ gostr (if packed_value b < 0 then ''D'' else ''C'')) = Inr b'"
    "upper_hex b' = digits @ gostr (if packed_value b < 0 then ''D'' else ''C'')"
    using pack_fixed [OF g(1), of "digits_value digits" "packed_value b < 0"] fixed_digits_of_value [OF dg] ld by metis
  have geo: "packedGeometry (int n) d = Inr (2 * n - 1)" using g by (auto simp: geometry_ok)
  show ?thesis
    unfolding EncodePackedDecimal_def n_def [symmetric] geo digits_def [symmetric]
    using sc pad neg tl b' by (simp add: maxPackedDecimalTextLength_def fail_if_def)
qed

theorem packed_decode_encode_witness:
  "\<exists>b'. EncodePackedDecimal (gostr ''-1.50'') 2 2 = Inr b' \<and> upper_hex b' = gostr ''150D''"
proof -
  have d: "DecodePackedDecimal [0x15, 0x0b] 2 = Inr (gostr ''-1.50'')"
    by (simp add: DecodePackedDecimal_def packedGeometry_def upper_hex_def nibble_char_def digit_char_def gostr_def contains_nonzero_def
        fail_if_def Let_def)
  have v: "packed_value [0x15, 0x0b] < 0" "butlast (upper_hex [0x15, 0x0b]) = gostr ''150''"
    by (simp_all add: packed_value_def upper_hex_def nibble_char_def gostr_def digits_value_def)
  show ?thesis using packed_decode_encode [OF d] v by (simp add: gostr_def)
qed

section \<open>A text that makes the encoder panic\<close>

text \<open>
  A decimal text of 24 characters makes \<open>EncodePackedDecimal\<close> panic: with the smallest 64-bit exponent the shift of the decimal
  point wraps around to a huge positive number, the capacity check wraps around too and passes, and the encoder asks for a string of that
  length. The value itself is a fraction that the encoder should refuse with an error.
\<close>

theorem packed_exponent_panics:
  "EncodePackedDecimal (gostr ''1.0e-9223372036854775808'') 8 0 = Inl PackedPanic"
proof -
  let ?m5 = "gostr ''-9223372036854775808''"
  have m: "match_decimal (gostr ''1.0e-9223372036854775808'') = Some ([], gostr ''1'', gostr ''0'', [], ?m5)"
    by (simp add: match_decimal_def match_exponent_def split_sign_def sign_char_def gostr_def digit_char_def Let_def)
  have a: "go_Atoi ?m5 = Some (- 9223372036854775808)" "?m5 \<noteq> []"
    by (simp_all add: go_Atoi_def signed_value_def split_sign_def sign_char_def gostr_def digits_value_def)
  have "scaledDigits (gostr ''1.0e-9223372036854775808'') 0 15 = Inl PackedPanic"
    unfolding scaledDigits_def m using a
    by (simp add: Let_def shift_digits_def repeat_zeros_def wrap64_def gostr_def)
  then show ?thesis by (simp add: EncodePackedDecimal_def packedGeometry_def maxPackedDecimalTextLength_def gostr_def fail_if_def Let_def)
qed

end
