(* ===== verification/Declet.thy ===== *)
theory Declet
  imports Go_Decimal
begin

text \<open>
  Package \<open>value\<close>, file \<open>decimal_float.go\<close> (declets): three decimal digits in ten bits. The lemmas show that decoding inverts encoding.
\<close>

section \<open>Declets\<close>

unbundle bit_operations_syntax

definition encodeDpdDeclet :: "nat \<Rightarrow> nat" where
  "encodeDpdDeclet v =
     (let left = v div 100; middle = (v div 10) mod 10; right = v mod 10;
          largePattern = (if left \<ge> 8 then 4 else 0) OR (if middle \<ge> 8 then 2 else 0) OR (if right \<ge> 8 then 1 else (0::nat)) in
      if largePattern = 0 then push_bit 7 left OR push_bit 4 middle OR right
      else if largePattern = 1 then push_bit 7 left OR push_bit 4 middle OR 0b1000 OR (right AND 1)
      else if largePattern = 2 then push_bit 7 left OR push_bit 4 ((right AND 0b110) OR (middle AND 1)) OR 0b1010 OR (right AND 1)
      else if largePattern = 4 then push_bit 7 ((right AND 0b110) OR (left AND 1)) OR push_bit 4 middle OR 0b1100 OR (right AND 1)
      else if largePattern = 6 then
        push_bit 7 ((right AND 0b110) OR (left AND 1)) OR push_bit 4 (middle AND 1) OR 0b1110 OR (right AND 1)
      else if largePattern = 5 then
        push_bit 7 ((middle AND 0b110) OR (left AND 1)) OR push_bit 4 (0b010 OR (middle AND 1)) OR 0b1110 OR (right AND 1)
      else if largePattern = 3 then
        push_bit 7 left OR push_bit 4 (0b100 OR (middle AND 1)) OR 0b1110 OR (right AND 1)
      else push_bit 7 (left AND 1) OR push_bit 4 (0b110 OR (middle AND 1)) OR 0b1110 OR (right AND 1))"

definition decodeDpdDeclet :: "nat \<Rightarrow> nat" where
  "decodeDpdDeclet code =
     (let pqr = drop_bit 7 code AND 0b111; stu = drop_bit 4 code AND 0b111;
          v = drop_bit 3 code AND 1; w = drop_bit 2 code AND 1; x = drop_bit 1 code AND 1; y = code AND 1;
          u = drop_bit 4 code AND 1; r = drop_bit 7 code AND 1;
          pq = push_bit 2 (drop_bit 9 code AND 1) OR push_bit 1 (drop_bit 8 code AND 1);
          st = drop_bit 5 code AND 0b11;
          (left, middle, right) =
            (if v = 0 then (pqr, stu, code AND 0b111)
             else if w = 0 \<and> x = 0 then (pqr, stu, 8 + y)
             else if w = 0 \<and> x = 1 then
               (pqr, 8 + u, push_bit 2 (drop_bit 6 code AND 1) OR push_bit 1 (drop_bit 5 code AND 1) OR y)
             else if w = 1 \<and> x = 0 then (8 + r, stu, pq OR y)
             else if st = 0 then (8 + r, 8 + u, pq OR y)
             else if st = 1 then (8 + r, pq OR u, 8 + y)
             else if st = 2 then (pqr, 8 + u, 8 + y)
             else (8 + r, 8 + u, 8 + y))
      in left * 100 + middle * 10 + right)"


section \<open>Bit fields\<close>

lemma or_add: "b < 2 ^ k \<Longrightarrow> push_bit k a OR b = a * 2 ^ k + b" for a b :: nat
proof -
  assume b: "b < 2 ^ k"
  have "push_bit k a AND b = 0"
  proof (rule bit_eqI)
    fix n
    have "take_bit k b = b" using b by (simp add: take_bit_nat_eq_self)
    then have "bit b n \<Longrightarrow> n < k" by (metis bit_take_bit_iff)
    then show "bit (push_bit k a AND b) n = bit (0 :: nat) n" by (auto simp: bit_simps)
  qed
  then show ?thesis using disjunctive_add_eq_or [of "push_bit k a" b] by (simp add: push_bit_eq_mult)
qed

lemma and_ones: "a AND (2 ^ k - 1) = a mod 2 ^ k" for a :: nat
  by (simp add: take_bit_eq_mod [symmetric] take_bit_eq_mask mask_eq_exp_minus_1)

lemma and_numerals_mask: "a AND 0x3ff = a mod 2 ^ 10" "a AND 0xff = a mod 2 ^ 8" "a AND 0b11111 = a mod 2 ^ 5" "a AND 0b111 = a mod 2 ^ 3"
  "a AND 0b11 = a mod 2 ^ 2" "a AND 1 = a mod 2 ^ 1" for a :: nat
  using and_ones [of a 10] and_ones [of a 8] and_ones [of a 5] and_ones [of a 3] and_ones [of a 2] and_ones [of a 1] by simp_all

lemma field_split:
  fixes a b :: nat
  assumes "b < 2 ^ k"
  shows "drop_bit k (a * 2 ^ k + b) = a" "(a * 2 ^ k + b) mod 2 ^ k = b"
  using assms by (simp_all add: drop_bit_eq_div)

section \<open>Declets round-trip\<close>

text \<open>The fields of a declet: two digits of three bits and four single bits.\<close>

lemma declet_fields:
  fixes P S v w x y :: nat
  assumes "P < 8" "S < 8" "v < 2" "w < 2" "x < 2" "y < 2" "code = P * 128 + S * 16 + v * 8 + w * 4 + x * 2 + y"
  shows "drop_bit 7 code AND 0b111 = P" "drop_bit 4 code AND 0b111 = S" "drop_bit 3 code AND 1 = v" "drop_bit 2 code AND 1 = w"
    "drop_bit 1 code AND 1 = x" "code AND 1 = y" "drop_bit 4 code AND 1 = S mod 2" "drop_bit 7 code AND 1 = P mod 2"
    "drop_bit 9 code AND 1 = P div 4" "drop_bit 8 code AND 1 = P div 2 mod 2" "drop_bit 5 code AND 0b11 = S div 2"
    "drop_bit 6 code AND 1 = S div 4" "drop_bit 5 code AND 1 = S div 2 mod 2" "code AND 0b111 = w * 4 + x * 2 + y"
proof -
  have "code = ((((P * 8 + S) * 2 + v) * 2 + w) * 2 + x) * 2 + y" using assms(7) by simp
  then have h: "code div 2 = (((P * 8 + S) * 2 + v) * 2 + w) * 2 + x" "code mod 2 = y"
    using assms(6) field_split [of y 1 "(((P * 8 + S) * 2 + v) * 2 + w) * 2 + x"] by (simp_all add: drop_bit_eq_div)
  have q: "code div 4 = ((P * 8 + S) * 2 + v) * 2 + w"
  proof -
    have "code div 4 = code div 2 div 2" by (simp add: div_mult2_eq [symmetric])
    then show ?thesis unfolding h(1) using assms(5) by simp
  qed
  have e: "code div 8 = (P * 8 + S) * 2 + v"
  proof -
    have "code div 8 = code div 4 div 2" by (simp add: div_mult2_eq [symmetric])
    then show ?thesis unfolding q using assms(4) by simp
  qed
  have t: "code div 16 = P * 8 + S"
  proof -
    have "code div 16 = code div 8 div 2" by (simp add: div_mult2_eq [symmetric])
    then show ?thesis unfolding e using assms(3) by simp
  qed
  have p: "code div 128 = P"
  proof -
    have "code div 128 = code div 16 div 8" by (simp add: div_mult2_eq [symmetric])
    then show ?thesis unfolding t using assms(2) by simp
  qed
  have b: "code div 32 = P * 4 + S div 2" "code div 64 = P * 2 + S div 4" "code div 256 = P div 2" "code div 512 = P div 4"
  proof -
    have "code div 32 = code div 16 div 2" "code div 64 = code div 16 div 4" "code div 256 = code div 128 div 2" "code div 512 = code div 128 div 4"
      by (simp_all add: div_mult2_eq [symmetric])
    moreover have "(P * 8 + S) div 2 = P * 4 + S div 2" using div_mult_self1 [of 2 S "P * 4"] by simp
    moreover have "(P * 8 + S) div 4 = P * 2 + S div 4" using div_mult_self1 [of 4 S "P * 2"] by simp
    ultimately show "code div 32 = P * 4 + S div 2" "code div 64 = P * 2 + S div 4" "code div 256 = P div 2" "code div 512 = P div 4"
      unfolding t p by simp_all
  qed
  have small: "P div 4 < 2" "S div 4 < 2" "S div 2 < 4" using assms(1,2) by auto
  have m: "code mod 8 = w * 4 + x * 2 + y"
  proof -
    have c: "code = (P * 16 + S * 2 + v) * 2 ^ 3 + (w * 4 + x * 2 + y)" using assms(7) by simp
    have "w * 4 + x * 2 + y < 2 ^ 3" using assms(4-6) by simp
    then have "code mod 2 ^ 3 = w * 4 + x * 2 + y" unfolding c by (rule field_split(2))
    then show ?thesis by simp
  qed
  have o: "(P * 8 + S) mod 2 = S mod 2" "(P * 4 + S div 2) mod 4 = S div 2" "(P * 4 + S div 2) mod 2 = S div 2 mod 2"
    "(P * 2 + S div 4) mod 2 = S div 4" "(P * 8 + S) mod 8 = S"
    using mod_mult_self1 [of S "P * 4" 2] mod_mult_self1 [of "S div 2" P 4] mod_mult_self1 [of "S div 2" "P * 2" 2]
      mod_mult_self1 [of "S div 4" P 2] small assms(2) by (simp_all add: add.commute mult.commute)
  have v3: "((P * 8 + S) * 2 + v) mod 2 = v" and v2: "(((P * 8 + S) * 2 + v) * 2 + w) mod 2 = w"
    and v1: "((((P * 8 + S) * 2 + v) * 2 + w) * 2 + x) mod 2 = x"
    using divmod_unique [OF assms(3)] divmod_unique [OF assms(4)] divmod_unique [OF assms(5)] by blast+
  have masks: "a AND 0b111 = a mod 8" "a AND 0b11 = a mod 4" "a AND 1 = a mod 2" for a :: nat using and_numerals_mask [of a] by simp_all
  have drops: "drop_bit 1 code = code div 2" "drop_bit 2 code = code div 4" "drop_bit 3 code = code div 8" "drop_bit 4 code = code div 16"
    "drop_bit 5 code = code div 32" "drop_bit 6 code = code div 64" "drop_bit 7 code = code div 128" "drop_bit 8 code = code div 256"
    "drop_bit 9 code = code div 512" by (simp_all add: drop_bit_eq_div)
  show "drop_bit 7 code AND 0b111 = P" unfolding masks drops p using assms(1) by simp
  show "drop_bit 4 code AND 0b111 = S" unfolding masks drops t o(5) by (rule refl)
  show "drop_bit 3 code AND 1 = v" unfolding masks drops e v3 by (rule refl)
  show "drop_bit 2 code AND 1 = w" unfolding masks drops q v2 by (rule refl)
  show "drop_bit 1 code AND 1 = x" unfolding masks drops h(1) v1 by (rule refl)
  show "code AND 1 = y" unfolding masks drops h(2) by (rule refl)
  show "drop_bit 4 code AND 1 = S mod 2" unfolding masks drops t o(1) by (rule refl)
  show "drop_bit 7 code AND 1 = P mod 2" unfolding masks drops p by (rule refl)
  show "drop_bit 9 code AND 1 = P div 4" unfolding masks drops b(4) using small(1) by simp
  show "drop_bit 8 code AND 1 = P div 2 mod 2" unfolding masks drops b(3) by (rule refl)
  show "drop_bit 5 code AND 0b11 = S div 2" unfolding masks drops b(1) o(2) by (rule refl)
  show "drop_bit 6 code AND 1 = S div 4" unfolding masks drops b(2) o(4) by (rule refl)
  show "drop_bit 5 code AND 1 = S div 2 mod 2" unfolding masks drops b(1) o(3) by (rule refl)
  show "code AND 0b111 = w * 4 + x * 2 + y" unfolding masks drops m by (rule refl)
qed

text \<open>The encoder's alternatives as field values.\<close>

lemma small_bits: "r < 8 \<Longrightarrow> r AND 0b110 = r div 2 * 2" "r < 8 \<Longrightarrow> r = r div 4 * 4 + r div 2 mod 2 * 2 + r mod 2" for r :: nat
proof -
  assume "r < 8"
  then consider "r = 0" | "r = 1" | "r = 2" | "r = 3" | "r = 4" | "r = 5" | "r = 6" | "r = 7" by linarith
  then show "r AND 0b110 = r div 2 * 2" "r = r div 4 * 4 + r div 2 mod 2 * 2 + r mod 2" by (cases; simp)+
qed

lemma or_parts:
  fixes a b :: nat
  shows "b < 128 \<Longrightarrow> push_bit 7 a OR b = a * 128 + b" "b < 16 \<Longrightarrow> push_bit 4 a OR b = a * 16 + b"
    "b < 2 \<Longrightarrow> 0b1000 OR b = 8 + b" "b < 2 \<Longrightarrow> 0b1010 OR b = 10 + b" "b < 2 \<Longrightarrow> 0b1100 OR b = 12 + b" "b < 2 \<Longrightarrow> 0b1110 OR b = 14 + b"
    "b < 2 \<Longrightarrow> a div 2 * 2 OR b = a div 2 * 2 + b" "b < 2 \<Longrightarrow> 0b010 OR b = 2 + b" "b < 2 \<Longrightarrow> 0b100 OR b = 4 + b" "b < 2 \<Longrightarrow> 0b110 OR b = 6 + b"
  using or_add [of b 7 a] or_add [of b 4 a] or_add [of b 1 4] or_add [of b 1 5] or_add [of b 1 6] or_add [of b 1 7] or_add [of b 1 "a div 2"]
    or_add [of b 1 1] or_add [of b 1 2] or_add [of b 1 3]
  by (simp_all add: push_bit_eq_mult mult.commute)

lemma decimal_digits:
  fixes l m r :: nat
  assumes "l < 10" "m < 10" "r < 10"
  shows "(l * 100 + m * 10 + r) div 100 = l" "((l * 100 + m * 10 + r) div 10) mod 10 = m" "(l * 100 + m * 10 + r) mod 10 = r"
proof -
  have t: "(l * 100 + m * 10 + r) div 10 = l * 10 + m" "(l * 100 + m * 10 + r) mod 10 = r"
  proof -
    have c: "l * 100 + m * 10 + r = (l * 10 + m) * 10 + r" by simp
    show "(l * 100 + m * 10 + r) div 10 = l * 10 + m" "(l * 100 + m * 10 + r) mod 10 = r"
      unfolding c using divmod_unique [OF assms(3), of "l * 10 + m"] by blast+
  qed
  have "(l * 100 + m * 10 + r) div 100 = (l * 100 + m * 10 + r) div 10 div 10" by (simp add: div_mult2_eq [symmetric])
  then show "(l * 100 + m * 10 + r) div 100 = l" "((l * 100 + m * 10 + r) div 10) mod 10 = m" "(l * 100 + m * 10 + r) mod 10 = r"
    unfolding t using assms by simp_all
qed

lemma or74:
  fixes A B C :: nat
  assumes "B < 8" "C < 16"
  shows "push_bit 7 A OR push_bit 4 B OR C = A * 128 + B * 16 + C"
proof -
  have "B * 16 + C < 128" using assms by linarith
  then show ?thesis using or_parts(2) [OF assms(2), of B] or_parts(1) [of "B * 16 + C" A] by simp
qed

lemma half_bits: "b mod 2 < (2 :: nat)" "a < 8 \<Longrightarrow> a div 2 * 2 + b mod 2 < (8 :: nat)"
proof -
  show b: "b mod 2 < 2" by simp
  assume "a < 8"
  then have "a div 2 < 4" by simp
  then show "a div 2 * 2 + b mod 2 < 8" using b by linarith
qed

text \<open>The fields the encoder writes for three digits.\<close>

definition declet_code :: "nat \<Rightarrow> nat \<Rightarrow> nat \<Rightarrow> nat" where
  "declet_code l m r =
    (if l < 8 then
       (if m < 8 then (if r < 8 then l * 128 + m * 16 + r else l * 128 + m * 16 + (8 + r mod 2))
        else (if r < 8 then l * 128 + (r div 2 * 2 + m mod 2) * 16 + (10 + r mod 2) else l * 128 + (4 + m mod 2) * 16 + (14 + r mod 2)))
     else
       (if m < 8 then (if r < 8 then (r div 2 * 2 + l mod 2) * 128 + m * 16 + (12 + r mod 2)
                       else (m div 2 * 2 + l mod 2) * 128 + (2 + m mod 2) * 16 + (14 + r mod 2))
        else (if r < 8 then (r div 2 * 2 + l mod 2) * 128 + m mod 2 * 16 + (14 + r mod 2)
              else l mod 2 * 128 + (6 + m mod 2) * 16 + (14 + r mod 2))))"

lemma encode_fields:
  fixes l m r :: nat
  assumes "l < 10" "m < 10" "r < 10"
  shows "encodeDpdDeclet (l * 100 + m * 10 + r) = declet_code l m r"
proof -
  have one: "a AND 1 = a mod 2" for a :: nat by (simp add: and_one_eq)
  have six: "(a AND 0b110) OR b mod 2 = a div 2 * 2 + b mod 2" if "a < 8" for a b :: nat
    using small_bits(1) [OF that] or_parts(7) [of "b mod 2" a] by simp
  define lp where "lp = (if l \<ge> 8 then 4 else 0) OR (if m \<ge> 8 then 2 else 0) OR (if r \<ge> 8 then 1 else (0::nat))"
  note unfold = encodeDpdDeclet_def decimal_digits [OF assms] Let_def one lp_def [symmetric]
  note ors = or_parts(3-6,8-10) six or74 half_bits
  show ?thesis
  proof (cases "l < 8"; cases "m < 8"; cases "r < 8")
    assume c: "l < 8" "m < 8" "r < 8"
    then have "lp = 0" by (simp add: lp_def)
    then show ?thesis unfolding unfold using c by (simp add: declet_code_def ors)
  next
    assume c: "l < 8" "m < 8" "\<not> r < 8"
    then have "lp = 1" by (simp add: lp_def)
    then show ?thesis unfolding unfold using c by (simp add: declet_code_def ors)
  next
    assume c: "l < 8" "\<not> m < 8" "r < 8"
    then have "lp = 2" by (simp add: lp_def)
    then show ?thesis unfolding unfold using c half_bits(2) [of r m] by (simp add: declet_code_def ors)
  next
    assume c: "l < 8" "\<not> m < 8" "\<not> r < 8"
    then have "lp = 3" by (simp add: lp_def)
    then show ?thesis unfolding unfold using c half_bits(1) [of m] by (simp add: declet_code_def ors)
  next
    assume c: "\<not> l < 8" "m < 8" "r < 8"
    then have "lp = 4" by (simp add: lp_def)
    then show ?thesis unfolding unfold using c by (simp add: declet_code_def ors)
  next
    assume c: "\<not> l < 8" "m < 8" "\<not> r < 8"
    then have "lp = 5" by (simp add: lp_def)
    then show ?thesis unfolding unfold using c by (simp add: declet_code_def ors)
  next
    assume c: "\<not> l < 8" "\<not> m < 8" "r < 8"
    then have "lp = 6" by (simp add: lp_def)
    then show ?thesis unfolding unfold using c by (simp add: declet_code_def ors)
  next
    assume c: "\<not> l < 8" "\<not> m < 8" "\<not> r < 8"
    then have "lp = 7" by (simp add: lp_def)
    then show ?thesis unfolding unfold using c by (simp add: declet_code_def ors)
  qed
qed

lemma decode_fields:
  fixes P S v w x y :: nat
  assumes "P < 8" "S < 8" "v < 2" "w < 2" "x < 2" "y < 2"
  shows "decodeDpdDeclet (P * 128 + S * 16 + v * 8 + w * 4 + x * 2 + y) =
    (if v = 0 then P * 100 + S * 10 + (w * 4 + x * 2 + y)
     else if w = 0 \<and> x = 0 then P * 100 + S * 10 + (8 + y)
     else if w = 0 then P * 100 + (8 + S mod 2) * 10 + (S div 4 * 4 + S div 2 mod 2 * 2 + y)
     else if x = 0 then (8 + P mod 2) * 100 + S * 10 + (P div 4 * 4 + P div 2 mod 2 * 2 + y)
     else if S div 2 = 0 then (8 + P mod 2) * 100 + (8 + S mod 2) * 10 + (P div 4 * 4 + P div 2 mod 2 * 2 + y)
     else if S div 2 = 1 then (8 + P mod 2) * 100 + (P div 4 * 4 + P div 2 mod 2 * 2 + S mod 2) * 10 + (8 + y)
     else if S div 2 = 2 then P * 100 + (8 + S mod 2) * 10 + (8 + y)
     else (8 + P mod 2) * 100 + (8 + S mod 2) * 10 + (8 + y))"
proof -
  have or3: "(push_bit 2 a OR push_bit 1 b) OR c = a * 4 + b * 2 + c" if "b < 2" "c < 2" for a b c :: nat
  proof -
    have "push_bit 1 b OR c = b * 2 + c" using or_add [of c 1 b] that(2) by simp
    moreover have "push_bit 2 a OR (b * 2 + c) = a * 4 + (b * 2 + c)" using or_add [of "b * 2 + c" 2 a] that by simp
    ultimately show ?thesis by (simp add: or.assoc)
  qed
  have or3': "push_bit 2 a OR push_bit 1 b OR c = a * 4 + b * 2 + c" if "b < 2" "c < 2" for a b c :: nat
    using or3 [OF that] by (simp only: or.assoc)
  have b: "P div 2 mod 2 < 2" "S div 2 mod 2 < 2" "S mod 2 < 2" by simp_all
  have wx: "\<not> w = 0 \<Longrightarrow> w = 1" "\<not> x = 0 \<Longrightarrow> x = 1" using assms(4,5) by auto
  show ?thesis
    unfolding decodeDpdDeclet_def Let_def declet_fields [OF assms refl] or3 [OF b(1) assms(6)] or3 [OF b(1,3)] or3' [OF b(2) assms(6)]
    using wx by (cases "w = 0"; cases "x = 0") simp_all
qed

lemma decode_forms:
  fixes P S y :: nat
  assumes "P < 8" "S < 8" "y < 2"
  shows "r < 8 \<Longrightarrow> decodeDpdDeclet (P * 128 + S * 16 + r) = P * 100 + S * 10 + r"
    "decodeDpdDeclet (P * 128 + S * 16 + (8 + y)) = P * 100 + S * 10 + (8 + y)"
    "decodeDpdDeclet (P * 128 + S * 16 + (10 + y)) = P * 100 + (8 + S mod 2) * 10 + (S div 2 * 2 + y)"
    "decodeDpdDeclet (P * 128 + S * 16 + (12 + y)) = (8 + P mod 2) * 100 + S * 10 + (P div 2 * 2 + y)"
    "decodeDpdDeclet (P * 128 + S * 16 + (14 + y)) =
      (if S div 2 = 0 then (8 + P mod 2) * 100 + (8 + S mod 2) * 10 + (P div 2 * 2 + y)
       else if S div 2 = 1 then (8 + P mod 2) * 100 + (P div 2 * 2 + S mod 2) * 10 + (8 + y)
       else if S div 2 = 2 then P * 100 + (8 + S mod 2) * 10 + (8 + y)
       else (8 + P mod 2) * 100 + (8 + S mod 2) * 10 + (8 + y))"
proof -
  have h: "a div 4 * 4 + a div 2 mod 2 * 2 = a div 2 * 2" if "a < 8" for a :: nat
  proof -
    have "a div 2 = a div 4 * 2 + a div 2 mod 2" using div_mult_mod_eq [of "a div 2" 2] by (simp add: div_mult2_eq [symmetric])
    then show ?thesis by linarith
  qed
  show "decodeDpdDeclet (P * 128 + S * 16 + r) = P * 100 + S * 10 + r" if r: "r < 8"
  proof -
    have w: "r div 4 < 2" "r div 2 mod 2 < 2" "r mod 2 < 2" using r by auto
    have "decodeDpdDeclet (P * 128 + S * 16 + 0 * 8 + r div 4 * 4 + r div 2 mod 2 * 2 + r mod 2) =
        P * 100 + S * 10 + (r div 4 * 4 + r div 2 mod 2 * 2 + r mod 2)"
      using decode_fields [OF assms(1,2) _ w, of 0] by simp
    moreover have "P * 128 + S * 16 + 0 * 8 + r div 4 * 4 + r div 2 mod 2 * 2 + r mod 2 = P * 128 + S * 16 + r"
      "r div 4 * 4 + r div 2 mod 2 * 2 + r mod 2 = r" using small_bits(2) [OF r] by linarith+
    ultimately show ?thesis by (simp only:)
  qed
  have n: "P * 128 + S * 16 + (8 + y) = P * 128 + S * 16 + 1 * 8 + 0 * 4 + 0 * 2 + y"
    "P * 128 + S * 16 + (10 + y) = P * 128 + S * 16 + 1 * 8 + 0 * 4 + 1 * 2 + y"
    "P * 128 + S * 16 + (12 + y) = P * 128 + S * 16 + 1 * 8 + 1 * 4 + 0 * 2 + y"
    "P * 128 + S * 16 + (14 + y) = P * 128 + S * 16 + 1 * 8 + 1 * 4 + 1 * 2 + y" by simp_all
  have z: "0 < (2 :: nat)" "1 < (2 :: nat)" by simp_all
  show "decodeDpdDeclet (P * 128 + S * 16 + (8 + y)) = P * 100 + S * 10 + (8 + y)"
    unfolding n decode_fields [OF assms(1,2) z(2) z(1) z(1) assms(3)] by simp
  show "decodeDpdDeclet (P * 128 + S * 16 + (10 + y)) = P * 100 + (8 + S mod 2) * 10 + (S div 2 * 2 + y)"
    unfolding n decode_fields [OF assms(1,2) z(2) z(1) z(2) assms(3)] h [OF assms(2)] by simp
  show "decodeDpdDeclet (P * 128 + S * 16 + (12 + y)) = (8 + P mod 2) * 100 + S * 10 + (P div 2 * 2 + y)"
    unfolding n decode_fields [OF assms(1,2) z(2) z(2) z(1) assms(3)] h [OF assms(1)] by simp
  show "decodeDpdDeclet (P * 128 + S * 16 + (14 + y)) =
      (if S div 2 = 0 then (8 + P mod 2) * 100 + (8 + S mod 2) * 10 + (P div 2 * 2 + y)
       else if S div 2 = 1 then (8 + P mod 2) * 100 + (P div 2 * 2 + S mod 2) * 10 + (8 + y)
       else if S div 2 = 2 then P * 100 + (8 + S mod 2) * 10 + (8 + y)
       else (8 + P mod 2) * 100 + (8 + S mod 2) * 10 + (8 + y))"
    unfolding n decode_fields [OF assms(1,2) z(2) z(2) z(2) assms(3)] h [OF assms(1)] by simp
qed

lemma declet_roundtrip:
  assumes "l < 10" "m < 10" "r < 10"
  shows "declet_code l m r < 1024" "decodeDpdDeclet (declet_code l m r) = l * 100 + m * 10 + r"
proof -
  have large: "8 + a mod 2 = a" if "\<not> a < 8" "a < 10" for a :: nat
  proof -
    have "a = 8 \<or> a = 9" using that by linarith
    then show ?thesis by auto
  qed
  have b: "a mod 2 < 8" "4 + a mod 2 < 8" "2 + a mod 2 < 8" "6 + a mod 2 < 8" for a :: nat
    using mod_less_divisor [of 2 a] by linarith+
  have p: "(a div 2 * 2 + c mod 2) mod 2 = c mod 2" "(a div 2 * 2 + c mod 2) div 2 = a div 2" "a div 2 * 2 + a mod 2 = a"
    "a mod 2 div 2 = 0" "(4 + a mod 2) div 2 = 2" "(2 + a mod 2) div 2 = 1" "(6 + a mod 2) div 2 = 3"
    "(4 + a mod 2) mod 2 = a mod 2" "(2 + a mod 2) mod 2 = a mod 2" "(6 + a mod 2) mod 2 = a mod 2" for a c :: nat
    using divmod_unique [of "c mod 2" 2 "a div 2"] divmod_unique [of "a mod 2" 2 2] divmod_unique [of "a mod 2" 2 1] divmod_unique [of "a mod 2" 2 3]
    by simp_all
  show "decodeDpdDeclet (declet_code l m r) = l * 100 + m * 10 + r"
  proof (cases "l < 8"; cases "m < 8"; cases "r < 8")
    assume c: "l < 8" "m < 8" "r < 8"
    then have code: "declet_code l m r = l * 128 + m * 16 + r" by (simp add: declet_code_def)
    show ?thesis unfolding code using decode_forms(1) [OF c(1,2) half_bits(1) c(3)] .
  next
    assume c: "l < 8" "m < 8" "\<not> r < 8"
    then have code: "declet_code l m r = l * 128 + m * 16 + (8 + r mod 2)" by (simp add: declet_code_def)
    show ?thesis unfolding code decode_forms(2) [OF c(1,2) half_bits(1)] unfolding large [OF c(3) assms(3)] by simp
  next
    assume c: "l < 8" "\<not> m < 8" "r < 8"
    then have code: "declet_code l m r = l * 128 + (r div 2 * 2 + m mod 2) * 16 + (10 + r mod 2)" by (simp add: declet_code_def)
    show ?thesis unfolding code decode_forms(3) [OF c(1) half_bits(2) [OF c(3)] half_bits(1)] unfolding p(1,2,3) large [OF c(2) assms(2)] by simp
  next
    assume c: "l < 8" "\<not> m < 8" "\<not> r < 8"
    then have code: "declet_code l m r = l * 128 + (4 + m mod 2) * 16 + (14 + r mod 2)" by (simp add: declet_code_def)
    show ?thesis unfolding code decode_forms(5) [OF c(1) b(2) half_bits(1)] unfolding p(5,8) large [OF c(2) assms(2)] large [OF c(3) assms(3)] by simp
  next
    assume c: "\<not> l < 8" "m < 8" "r < 8"
    then have code: "declet_code l m r = (r div 2 * 2 + l mod 2) * 128 + m * 16 + (12 + r mod 2)" by (simp add: declet_code_def)
    show ?thesis unfolding code decode_forms(4) [OF half_bits(2) [OF c(3)] c(2) half_bits(1)] unfolding p(1,2,3) large [OF c(1) assms(1)] by simp
  next
    assume c: "\<not> l < 8" "m < 8" "\<not> r < 8"
    then have code: "declet_code l m r = (m div 2 * 2 + l mod 2) * 128 + (2 + m mod 2) * 16 + (14 + r mod 2)" by (simp add: declet_code_def)
    show ?thesis unfolding code decode_forms(5) [OF half_bits(2) [OF c(2)] b(3) half_bits(1)] unfolding p(1,2,3,6,9) large [OF c(1) assms(1)] large [OF c(3) assms(3)] by simp
  next
    assume c: "\<not> l < 8" "\<not> m < 8" "r < 8"
    then have code: "declet_code l m r = (r div 2 * 2 + l mod 2) * 128 + m mod 2 * 16 + (14 + r mod 2)" by (simp add: declet_code_def)
    show ?thesis unfolding code decode_forms(5) [OF half_bits(2) [OF c(3)] b(1) half_bits(1)] unfolding p(1,2,3,4) mod_mod_trivial large [OF c(1) assms(1)] large [OF c(2) assms(2)] by simp
  next
    assume c: "\<not> l < 8" "\<not> m < 8" "\<not> r < 8"
    then have code: "declet_code l m r = l mod 2 * 128 + (6 + m mod 2) * 16 + (14 + r mod 2)" by (simp add: declet_code_def)
    show ?thesis unfolding code decode_forms(5) [OF b(1) b(4) half_bits(1)] unfolding p(7,10) mod_mod_trivial large [OF c(1) assms(1)] large [OF c(2) assms(2)] large [OF c(3) assms(3)] by simp
  qed
  have bound: "P * 128 + S * 16 + c < 1024" if "P < 8" "S < 8" "c < 16" for P S c :: nat using that by linarith
  have y: "8 + r mod 2 < 16" "10 + r mod 2 < 16" "12 + r mod 2 < 16" "14 + r mod 2 < 16" using half_bits(1) [of r] by linarith+
  show "declet_code l m r < 1024"
    unfolding declet_code_def
    by (simp only: split: if_split) (intro conjI impI bound b half_bits y; linarith)
qed

lemma dpd_roundtrip:
  assumes "n < 1000"
  shows "encodeDpdDeclet n < 1024" "decodeDpdDeclet (encodeDpdDeclet n) = n"
proof -
  define l m r where "l = n div 100" and "m = n div 10 mod 10" and "r = n mod 10"
  have d: "l < 10" "m < 10" "r < 10" using assms by (auto simp: l_def m_def r_def)
  have n: "n = l * 100 + m * 10 + r"
  proof -
    have "n div 10 = n div 100 * 10 + n div 10 mod 10" using div_mult_mod_eq [of "n div 10" 10] by (simp add: div_mult2_eq [symmetric])
    then show ?thesis using div_mult_mod_eq [of n 10] unfolding l_def m_def r_def by linarith
  qed
  show "encodeDpdDeclet n < 1024" "decodeDpdDeclet (encodeDpdDeclet n) = n"
    unfolding n encode_fields [OF d] using declet_roundtrip [OF d] by simp_all
qed

end
