(* ===== verification/Decimal_Float.thy ===== *)
theory Decimal_Float
  imports Packed Declet
begin

text \<open>
  Package \<open>value\<close>, file \<open>decimal_float.go\<close>: decimal floating-point numbers of 16 and 34 digits in densely packed decimal. The code's
  \<open>big.Int\<close> values that are never negative are natural numbers; exponents are integers, as the code computes them with \<open>big.Int\<close>.
  The label \<open>path\<close> is left out. The lemmas are about the fields of the encoded word; the texts are the subject of \<open>Decimal_Text\<close>.
\<close>

unbundle bit_operations_syntax

section \<open>Formats and texts\<close>

datatype float_error = ErrDecimalFloat

record decimalFloatFormat =
  df_byteLength :: nat
  df_precision :: nat
  df_exponentContinuationBits :: nat
  df_coefficientContinuationBits :: nat
  df_exponentBias :: nat

definition decf16 :: decimalFloatFormat where
  "decf16 = \<lparr>df_byteLength = 8, df_precision = 16, df_exponentContinuationBits = 8, df_coefficientContinuationBits = 50, df_exponentBias = 398\<rparr>"

definition decf34 :: decimalFloatFormat where
  "decf34 = \<lparr>df_byteLength = 16, df_precision = 34, df_exponentContinuationBits = 12, df_coefficientContinuationBits = 110, df_exponentBias = 6176\<rparr>"

definition maxDecimalFloatTextLength :: nat where "maxDecimalFloatTextLength = 4096"

function encode_declets :: "gostring \<Rightarrow> nat \<Rightarrow> nat" where
  "encode_declets digits encoded =
     (if digits = [] then encoded
      else encode_declets (drop 3 digits) (push_bit 10 encoded OR encodeDpdDeclet (digits_value (take 3 digits))))"
  by pat_completeness auto
termination
  by (relation "measure (\<lambda>(digits, encoded). length digits)") auto

declare encode_declets.simps [simp del]

definition encodeCoefficientContinuation :: "gostring \<Rightarrow> nat" where
  "encodeCoefficientContinuation digits = encode_declets digits 0"

fun decode_declets :: "nat \<Rightarrow> nat \<Rightarrow> gostring" where
  "decode_declets 0 remainder = []"
| "decode_declets (Suc i) remainder =
     decode_declets i (drop_bit 10 remainder) @ zero_pad 3 (decodeDpdDeclet (remainder AND 0x3ff))"

definition decodeCoefficientContinuation :: "nat \<Rightarrow> nat \<Rightarrow> gostring" where
  "decodeCoefficientContinuation bits digitCount = decode_declets (digitCount div 3) bits"

definition trailingZeroCount :: "gostring \<Rightarrow> nat" where
  "trailingZeroCount digits = length (takeWhile (\<lambda>b. b = 0x30) (rev digits))"

abbreviation leftPad :: "gostring \<Rightarrow> nat \<Rightarrow> gostring" where
  "leftPad \<equiv> padStartZeros"

datatype special_kind = KindInfinity | KindNan | KindSnan

record specialDecimal =
  sd_negative :: bool
  sd_kind :: special_kind
  sd_diagnostic :: gostring

text \<open>Matching without case: the letters are those of ASCII, except that \<open>s\<close> also stands for the long s, of two bytes.\<close>

definition lower_byte :: "byte \<Rightarrow> byte" where
  "lower_byte b = (if 0x41 \<le> b \<and> b \<le> 0x5a then b + 0x20 else b)"

definition lower_text :: "gostring \<Rightarrow> gostring" where
  "lower_text s = map lower_byte s"

definition matches_infinity :: "gostring \<Rightarrow> bool" where
  "matches_infinity s \<longleftrightarrow> lower_text s = gostr ''inf'' \<or> lower_text s = gostr ''infinity''"

definition match_nan :: "gostring \<Rightarrow> (gostring \<times> gostring) option" where
  "match_nan s =
     (let t = (if s \<noteq> [] \<and> lower_byte (hd s) = 0x73 then drop 1 s else if take 2 s = [0xc5, 0xbf] then drop 2 s else s) in
      if lower_text (take 3 t) = gostr ''nan'' \<and> list_all digit_char (drop 3 t)
      then Some (take (length s - length (drop 3 t)) s, drop 3 t) else None)"

definition parseSpecial :: "gostring \<Rightarrow> decimalFloatFormat \<Rightarrow> float_error + specialDecimal option" where
  "parseSpecial s fmt =
     (case split_sign s of (m1, r) \<Rightarrow>
      if matches_infinity r then Inr (Some \<lparr>sd_negative = (m1 = gostr ''-''), sd_kind = KindInfinity, sd_diagnostic = []\<rparr>)
      else case match_nan r of
        None \<Rightarrow> Inr None
      | Some (m2, m3) \<Rightarrow>
          let diagnostic = dropWhile (\<lambda>b. b = 0x30) m3; capacity = df_precision fmt - 1 in
          if length diagnostic > capacity then Inl ErrDecimalFloat
          else Inr (Some \<lparr>sd_negative = (m1 = gostr ''-''), sd_kind = (if lower_text m2 = gostr ''snan'' then KindSnan else KindNan),
            sd_diagnostic = diagnostic\<rparr>))"

record finiteDecimal =
  fd_negative :: bool
  fd_coefficient :: gostring
  fd_exponent :: int

definition max_exponent :: "decimalFloatFormat \<Rightarrow> int" where
  "max_exponent fmt = 3 * 2 ^ df_exponentContinuationBits fmt - 1 - int (df_exponentBias fmt)"

text \<open>The coefficient of at most \<open>precision\<close> digits, and the exponent moved into the range.\<close>

definition cut_precision :: "decimalFloatFormat \<Rightarrow> gostring \<Rightarrow> int \<Rightarrow> float_error + gostring \<times> int" where
  "cut_precision fmt coefficient exponent =
     (if coefficient \<noteq> gostr ''0'' \<and> length coefficient > df_precision fmt then
        let excess = length coefficient - df_precision fmt in
        if trailingZeroCount coefficient < excess then Inl ErrDecimalFloat
        else Inr (take (length coefficient - excess) coefficient, exponent + int excess)
      else Inr (coefficient, exponent))"

definition fit_exponent :: "decimalFloatFormat \<Rightarrow> gostring \<Rightarrow> int \<Rightarrow> float_error + gostring \<times> int" where
  "fit_exponent fmt coefficient exponent =
     (let minExp = - int (df_exponentBias fmt); maxExp = max_exponent fmt in
      if coefficient = gostr ''0'' then
        let exponent = (if exponent < minExp then minExp else exponent) in
        Inr (coefficient, if exponent > maxExp then maxExp else exponent)
      else if exponent > maxExp then
        let requiredZeros = exponent - maxExp; availableDigits = int (df_precision fmt) - int (length coefficient) in
        if requiredZeros > availableDigits then Inl ErrDecimalFloat
        else Inr (coefficient @ replicate (nat requiredZeros) 0x30, maxExp)
      else if exponent < minExp then
        let requiredZeros = minExp - exponent in
        if requiredZeros > int (trailingZeroCount coefficient) then Inl ErrDecimalFloat
        else Inr (take (length coefficient - nat requiredZeros) coefficient, minExp)
      else Inr (coefficient, exponent))"

definition parseFinite :: "gostring \<Rightarrow> decimalFloatFormat \<Rightarrow> float_error + finiteDecimal" where
  "parseFinite s fmt =
     (case match_decimal s of
        None \<Rightarrow> Inl ErrDecimalFloat
      | Some (m1, m2, m3, m4, m5) \<Rightarrow>
          let fraction = (if m2 = [] then m4 else m3);
              unpadded = dropWhile (\<lambda>b. b = 0x30) (m2 @ fraction);
              coefficient = (if unpadded = [] then gostr ''0'' else unpadded);
              explicit = (if m5 \<noteq> [] then signed_value m5 else 0) in
          bindE (cut_precision fmt coefficient (explicit - int (length fraction))) (\<lambda>(c, e).
          bindE (fit_exponent fmt c e) (\<lambda>(c', e').
          Inr \<lparr>fd_negative = (m1 = gostr ''-''), fd_coefficient = c', fd_exponent = e'\<rparr>)))"

section \<open>Encoding\<close>

fun writeLittleEndian :: "nat \<Rightarrow> nat \<Rightarrow> bytes" where
  "writeLittleEndian v 0 = []"
| "writeLittleEndian v (Suc n) = of_nat (v AND 0xff) # writeLittleEndian (drop_bit 8 v) n"

fun readLittleEndian :: "bytes \<Rightarrow> nat" where
  "readLittleEndian [] = 0"
| "readLittleEndian (b # bs) = push_bit 8 (readLittleEndian bs) OR unat b"

definition encodeSpecial :: "specialDecimal \<Rightarrow> decimalFloatFormat \<Rightarrow> bytes" where
  "encodeSpecial v fmt =
     (let totalBits = df_byteLength fmt * 8;
          sign = (if sd_negative v then push_bit (totalBits - 1) 1 else 0);
          combShift = totalBits - 6 in
      if sd_kind v = KindInfinity then writeLittleEndian (sign OR push_bit combShift 0b11110) (df_byteLength fmt)
      else let diagnostic = encodeCoefficientContinuation (leftPad (sd_diagnostic v) (df_precision fmt - 1));
               signaling = (if sd_kind v = KindSnan
                 then push_bit (df_coefficientContinuationBits fmt + df_exponentContinuationBits fmt - 1) 1 else 0) in
        writeLittleEndian (sign OR push_bit combShift 0b11111 OR signaling OR diagnostic) (df_byteLength fmt))"

text \<open>The rest of \<open>encodeDecimalFloat\<close> after the parsing.\<close>

definition encode_finite :: "finiteDecimal \<Rightarrow> decimalFloatFormat \<Rightarrow> bytes" where
  "encode_finite f fmt =
     (let digits = leftPad (fd_coefficient f) (df_precision fmt);
          msd = unat (hd digits) - 48;
          coeffCont = encodeCoefficientContinuation (drop 1 digits);
          encodedExponent = nat (fd_exponent f + int (df_exponentBias fmt));
          exponentMSB = drop_bit (df_exponentContinuationBits fmt) encodedExponent;
          exponentCont = encodedExponent AND (2 ^ df_exponentContinuationBits fmt - 1);
          combination = (if msd \<le> 7 then push_bit 3 exponentMSB OR msd else 0b11000 OR push_bit 1 exponentMSB OR (msd - 8));
          totalBits = df_byteLength fmt * 8;
          sign = (if fd_negative f then push_bit (totalBits - 1) 1 else 0) in
      writeLittleEndian (sign OR push_bit (totalBits - 6) combination OR push_bit (df_coefficientContinuationBits fmt) exponentCont OR coeffCont)
        (df_byteLength fmt))"

definition encodeDecimalFloat :: "gostring \<Rightarrow> decimalFloatFormat \<Rightarrow> float_error + bytes" where
  "encodeDecimalFloat v fmt =
     (if length v > maxDecimalFloatTextLength then Inl ErrDecimalFloat
      else bindE (parseSpecial v fmt) (\<lambda>special. case special of
          Some sp \<Rightarrow> Inr (encodeSpecial sp fmt)
        | None \<Rightarrow> bindE (parseFinite v fmt) (\<lambda>f. Inr (encode_finite f fmt))))"

section \<open>Decoding\<close>

definition go_Itoa :: "int \<Rightarrow> gostring" where
  "go_Itoa n = (if n < 0 then 0x2d # decimal (nat (- n)) else decimal (nat n))"

definition formatFinite :: "bool \<Rightarrow> gostring \<Rightarrow> int \<Rightarrow> gostring" where
  "formatFinite negative coefficient exponent =
     (let digits = dropWhile (\<lambda>b. b = 0x30) coefficient;
          digits = (if digits = [] then gostr ''0'' else digits);
          adjustedExponent = exponent + int (length digits) - 1;
          body =
            (if exponent \<le> 0 \<and> adjustedExponent \<ge> - 6 then
               (if exponent = 0 then digits
                else let point = int (length digits) + exponent in
                  if point > 0 then take (nat point) digits @ gostr ''.'' @ drop (nat point) digits
                  else gostr ''0.'' @ replicate (nat (- point)) 0x30 @ digits)
             else let significand = (if length digits = 1 then digits else take 1 digits @ gostr ''.'' @ drop 1 digits) in
               significand @ gostr ''E'' @ (if adjustedExponent \<ge> 0 then gostr ''+'' else []) @ go_Itoa adjustedExponent)
      in if negative then 0x2d # body else body)"

definition decodeDecimalFloat :: "bytes \<Rightarrow> decimalFloatFormat \<Rightarrow> float_error + gostring" where
  "decodeDecimalFloat v fmt =
     (if length v \<noteq> df_byteLength fmt then Inl ErrDecimalFloat
      else let encoded = readLittleEndian v; totalBits = df_byteLength fmt * 8;
               negative = bit encoded (totalBits - 1);
               combination = drop_bit (totalBits - 6) encoded AND 0b11111;
               coeffCont = encoded AND (2 ^ df_coefficientContinuationBits fmt - 1);
               sign = (if negative then gostr ''-'' else []) in
        if combination = 0b11110 then Inr (sign @ gostr ''Infinity'')
        else if combination = 0b11111 then
          let signaling = bit encoded (df_coefficientContinuationBits fmt + df_exponentContinuationBits fmt - 1);
              diagnostic = dropWhile (\<lambda>b. b = 0x30) (decodeCoefficientContinuation coeffCont (df_precision fmt - 1)) in
          Inr (sign @ gostr (if signaling then ''sNaN'' else ''NaN'') @ diagnostic)
        else let (exponentMSB, msd) =
                   (if combination < 0b11000 then (drop_bit 3 combination, combination AND 0b111)
                    else (drop_bit 1 combination AND 0b11, 8 + (combination AND 1)));
                 exponentCont = drop_bit (df_coefficientContinuationBits fmt) encoded AND (2 ^ df_exponentContinuationBits fmt - 1);
                 exponent = push_bit (df_exponentContinuationBits fmt) exponentMSB OR exponentCont;
                 coefficient = decimal msd @ decodeCoefficientContinuation coeffCont (df_precision fmt - 1) in
          Inr (formatFinite negative coefficient (int exponent - int (df_exponentBias fmt))))"

definition EncodeDecimalFloat16 :: "gostring \<Rightarrow> float_error + bytes" where
  "EncodeDecimalFloat16 v = encodeDecimalFloat v decf16"

definition DecodeDecimalFloat16 :: "bytes \<Rightarrow> float_error + gostring" where
  "DecodeDecimalFloat16 v = decodeDecimalFloat v decf16"

definition EncodeDecimalFloat34 :: "gostring \<Rightarrow> float_error + bytes" where
  "EncodeDecimalFloat34 v = encodeDecimalFloat v decf34"

definition DecodeDecimalFloat34 :: "bytes \<Rightarrow> float_error + gostring" where
  "DecodeDecimalFloat34 v = decodeDecimalFloat v decf34"

section \<open>Bytes\<close>

lemma read_write: "readLittleEndian (writeLittleEndian v n) = v mod 2 ^ (8 * n)"
proof (induction n arbitrary: v)
  case (Suc n)
  have b: "unat (of_nat (v AND 0xff) :: byte) = v mod 2 ^ 8" unfolding and_numerals_mask by (simp add: unat_of_nat)
  have "readLittleEndian (writeLittleEndian v (Suc n)) = (v div 2 ^ 8) mod 2 ^ (8 * n) * 2 ^ 8 + v mod 2 ^ 8"
    using or_add [of "v mod 2 ^ 8" 8 "(v div 2 ^ 8) mod 2 ^ (8 * n)"] by (simp only: writeLittleEndian.simps readLittleEndian.simps Suc b drop_bit_eq_div) simp
  also have "\<dots> = v mod (2 ^ 8 * 2 ^ (8 * n))" by (simp add: mod_mult2_eq mult.commute)
  finally show ?case by (simp only: power_add [symmetric] mult_Suc_right)
qed simp

lemma length_write [simp]: "length (writeLittleEndian v n) = n"
  by (induction n arbitrary: v) simp_all

section \<open>Coefficients\<close>

lemma take3_value: "list_all digit_char ds \<Longrightarrow> 3 \<le> length ds \<Longrightarrow> digits_value (take 3 ds) < 1000 \<and> zero_pad 3 (digits_value (take 3 ds)) = take 3 ds"
  using zero_pad_value [of "take 3 ds" 3] list_all_append [of digit_char "take 3 ds" "drop 3 ds"] by simp

lemma declets_roundtrip:
  assumes "length ds = 3 * k" "list_all digit_char ds"
  shows "decode_declets (n + k) (encode_declets ds acc) = decode_declets n acc @ ds \<and>
    (\<exists>r. encode_declets ds acc = acc * 2 ^ (10 * k) + r \<and> r < 2 ^ (10 * k))"
  using assms
proof (induction k arbitrary: ds n acc)
  case 0
  then show ?case by (simp add: encode_declets.simps)
next
  case (Suc k)
  define v where "v = digits_value (take 3 ds)"
  have v: "v < 1000" "zero_pad 3 v = take 3 ds" using take3_value [OF Suc.prems(2)] Suc.prems(1) by (simp_all add: v_def)
  have r: "length (drop 3 ds) = 3 * k" "list_all digit_char (drop 3 ds)"
    using Suc.prems list_all_append [of digit_char "take 3 ds" "drop 3 ds"] by simp_all
  have b: "encodeDpdDeclet v < 2 ^ 10" using dpd_roundtrip(1) [OF v(1)] by simp
  define acc' where "acc' = acc * 2 ^ 10 + encodeDpdDeclet v"
  have step: "encode_declets ds acc = encode_declets (drop 3 ds) acc'"
    using Suc.prems(1) or_add [OF b, of acc] by (subst encode_declets.simps) (auto simp: v_def acc'_def)
  have "decode_declets (Suc n) acc' = decode_declets n acc @ take 3 ds"
    using field_split [OF b, of acc] dpd_roundtrip(2) [OF v(1)] v(2) by (simp add: acc'_def and_numerals_mask)
  then have d: "decode_declets (n + Suc k) (encode_declets ds acc) = decode_declets n acc @ ds"
    using Suc.IH [OF r, of "Suc n" acc'] step by simp
  obtain x where x: "encode_declets (drop 3 ds) acc' = acc' * 2 ^ (10 * k) + x" "x < 2 ^ (10 * k)" using Suc.IH [OF r, of n acc'] by blast
  have "encodeDpdDeclet v * 2 ^ (10 * k) + x < 2 ^ 10 * 2 ^ (10 * k)"
  proof -
    have "(encodeDpdDeclet v + 1) * 2 ^ (10 * k) \<le> 2 ^ 10 * 2 ^ (10 * k)" by (rule mult_le_mono1) (use b in simp)
    then show ?thesis using x(2) unfolding add_mult_distrib by linarith
  qed
  then have "encode_declets ds acc = acc * 2 ^ (10 * Suc k) + (encodeDpdDeclet v * 2 ^ (10 * k) + x) \<and>
      encodeDpdDeclet v * 2 ^ (10 * k) + x < 2 ^ (10 * Suc k)"
    using x(1) step by (simp add: acc'_def power_add algebra_simps)
  then show ?case using d by blast
qed

lemma coefficient_roundtrip:
  assumes "length ds = 3 * k" "list_all digit_char ds"
  shows "decodeCoefficientContinuation (encodeCoefficientContinuation ds) (3 * k) = ds" "encodeCoefficientContinuation ds < 2 ^ (10 * k)"
  using declets_roundtrip [OF assms, of 0 0] by (auto simp: encodeCoefficientContinuation_def decodeCoefficientContinuation_def)

section \<open>Words of a format\<close>

definition wf_format :: "decimalFloatFormat \<Rightarrow> bool" where
  "wf_format fmt \<longleftrightarrow> (\<exists>k. df_precision fmt = 3 * k + 1 \<and> df_coefficientContinuationBits fmt = 10 * k) \<and>
     df_byteLength fmt * 8 = df_coefficientContinuationBits fmt + df_exponentContinuationBits fmt + 6 \<and> 0 < df_exponentContinuationBits fmt"

lemma wf_formats: "wf_format decf16" "wf_format decf34"
  by (auto simp: wf_format_def decf16_def decf34_def intro: exI [of _ 5] exI [of _ 11])

text \<open>The number with given sign, combination, exponent continuation and coefficient continuation.\<close>

definition float_word :: "nat \<Rightarrow> nat \<Rightarrow> bool \<Rightarrow> nat \<Rightarrow> nat \<Rightarrow> nat \<Rightarrow> nat" where
  "float_word eb cb negative comb ec cc = (((if negative then 1 else 0) * 32 + comb) * 2 ^ eb + ec) * 2 ^ cb + cc"

lemma float_word_or:
  assumes "comb < 32" "ec < 2 ^ eb" "cc < 2 ^ cb" "bits = cb + eb + 6"
  shows "(if negative then push_bit (bits - 1) 1 else 0) OR push_bit (bits - 6) comb OR push_bit cb ec OR cc = float_word eb cb negative comb ec cc"
    "float_word eb cb negative comb ec cc < 2 ^ bits"
proof -
  define low where "low = ec * 2 ^ cb + cc"
  have l: "low < 2 ^ (eb + cb)"
  proof -
    have "(ec + 1) * 2 ^ cb \<le> 2 ^ eb * 2 ^ cb" by (rule mult_le_mono1) (use assms(2) in simp)
    then show ?thesis using assms(3) unfolding low_def power_add add_mult_distrib by linarith
  qed
  define mid where "mid = comb * 2 ^ (eb + cb) + low"
  have m: "mid < 2 ^ (bits - 1)"
  proof -
    have "(comb + 1) * 2 ^ (eb + cb) \<le> 32 * 2 ^ (eb + cb)" by (rule mult_le_mono1) (use assms(1) in simp)
    moreover have "(2 :: nat) ^ (bits - 1) = 32 * 2 ^ (eb + cb)"
    proof -
      have e: "bits - 1 = 5 + (eb + cb)" by (simp add: assms(4))
      show ?thesis unfolding e power_add by simp
    qed
    ultimately show ?thesis using l unfolding mid_def add_mult_distrib by linarith
  qed
  have low: "push_bit cb ec OR cc = low" using or_add [OF assms(3), of ec] by (simp add: low_def)
  have t: "bits - 6 = eb + cb" by (simp add: assms(4))
  have mid: "push_bit (bits - 6) comb OR low = mid" using or_add [OF l, of comb] by (simp add: t mid_def)
  have word: "float_word eb cb negative comb ec cc = (if negative then 1 else 0) * 2 ^ (bits - 1) + mid"
    by (simp add: float_word_def mid_def low_def assms(4) power_add algebra_simps)
  show "(if negative then push_bit (bits - 1) 1 else 0) OR push_bit (bits - 6) comb OR push_bit cb ec OR cc = float_word eb cb negative comb ec cc"
    unfolding low mid word using or_add [OF m, of 1] by simp
  have "(2 :: nat) ^ bits = 2 ^ (bits - 1) + 2 ^ (bits - 1)"
  proof -
    have e: "bits = Suc (bits - 1)" by (simp add: assms(4))
    show ?thesis by (subst e) simp
  qed
  then show "float_word eb cb negative comb ec cc < 2 ^ bits" unfolding word using m by simp
qed

lemma float_word_fields:
  assumes "comb < 32" "ec < 2 ^ eb" "cc < 2 ^ cb" "bits = cb + eb + 6" "w = float_word eb cb negative comb ec cc"
  shows "bit w (bits - 1) = negative" "drop_bit (bits - 6) w AND 0b11111 = comb" "w AND (2 ^ cb - 1) = cc"
    "drop_bit cb w AND (2 ^ eb - 1) = ec" "bit w (cb + n) = bit (((if negative then 1 else 0) * 32 + comb) * 2 ^ eb + ec) n"
proof -
  define s where "s = (if negative then 1 else (0 :: nat))"
  have w: "w = ((s * 32 + comb) * 2 ^ eb + ec) * 2 ^ cb + cc" by (simp add: assms(5) float_word_def s_def)
  have c: "drop_bit cb w = (s * 32 + comb) * 2 ^ eb + ec" "w mod 2 ^ cb = cc" unfolding w using field_split [OF assms(3)] by blast+
  have e: "drop_bit eb (drop_bit cb w) = s * 32 + comb" "drop_bit cb w mod 2 ^ eb = ec" unfolding c(1) using field_split [OF assms(2)] by blast+
  have t: "drop_bit (bits - 6) w = s * 32 + comb" using e(1) by (simp add: assms(4) drop_bit_drop_bit add.commute)
  show "w AND (2 ^ cb - 1) = cc" "drop_bit cb w AND (2 ^ eb - 1) = ec" unfolding and_ones using c e by blast+
  show "drop_bit (bits - 6) w AND 0b11111 = comb" unfolding t and_numerals_mask using field_split(2) [of comb 5 s] assms(1) by simp
  have "bit w (bits - 1) = bit (s * 32 + comb) 5" unfolding t [symmetric] by (simp add: bit_drop_bit_eq assms(4) add.commute add.left_commute)
  also have "\<dots> = bit s 0" using field_split(1) [of comb 5 s] assms(1) bit_drop_bit_eq [of 5 "s * 32 + comb"] by (simp add: fun_eq_iff)
  finally show "bit w (bits - 1) = negative" by (simp add: s_def bit_0)
  show "bit w (cb + n) = bit (((if negative then 1 else 0) * 32 + comb) * 2 ^ eb + ec) n"
    using c(1) bit_drop_bit_eq [of cb w] by (simp add: fun_eq_iff s_def [symmetric])
qed

section \<open>Finite numbers\<close>

definition finite_ok :: "decimalFloatFormat \<Rightarrow> finiteDecimal \<Rightarrow> bool" where
  "finite_ok fmt f \<longleftrightarrow> list_all digit_char (fd_coefficient f) \<and> length (fd_coefficient f) \<le> df_precision fmt \<and>
     - int (df_exponentBias fmt) \<le> fd_exponent f \<and> fd_exponent f \<le> max_exponent fmt"

lemma combination_fields:
  fixes msb msd :: nat
  assumes "msb < 3" "msd < 10"
  defines "comb \<equiv> if msd \<le> 7 then push_bit 3 msb OR msd else 0b11000 OR push_bit 1 msb OR (msd - 8)"
  shows "comb < 30" "(if comb < 0b11000 then (drop_bit 3 comb, comb AND 0b111) else (drop_bit 1 comb AND 0b11, 8 + (comb AND 1))) = (msb, msd)"
proof -
  have "comb < 30 \<and> (if comb < 0b11000 then (drop_bit 3 comb, comb AND 0b111) else (drop_bit 1 comb AND 0b11, 8 + (comb AND 1))) = (msb, msd)"
  proof (cases "msd \<le> 7")
    case True
    then have m: "msd < 2 ^ 3" by simp
    have c: "comb = msb * 2 ^ 3 + msd" unfolding comb_def using True or_add [OF m, of msb] by simp
    then have "comb < 24" using assms(1) m by simp
    then show ?thesis using field_split [OF m, of msb] unfolding and_numerals_mask c by simp
  next
    case False
    define b where "b = msd - 8"
    have b: "b < 2 ^ 1" "msd = 8 + b" using False assms(2) by (simp_all add: b_def)
    have low: "push_bit 1 msb OR b = msb * 2 + b" using or_add [OF b(1), of msb] by simp
    have "msb * 2 + b < 2 ^ 3" using assms(1) b(1) by simp
    then have "push_bit 3 3 OR (msb * 2 + b) = 3 * 2 ^ 3 + (msb * 2 + b)" by (rule or_add)
    moreover have "push_bit 3 (3 :: nat) = 0b11000" by (simp add: push_bit_eq_mult)
    ultimately have c: "comb = (12 + msb) * 2 ^ 1 + b" unfolding comb_def using False low by (simp add: b_def)
    have "drop_bit 1 comb = 12 + msb" "comb mod 2 ^ 1 = b" unfolding c using field_split [OF b(1), of "12 + msb"] by blast+
    moreover have "(12 + msb) mod 2 ^ 2 = msb" using field_split(2) [of msb 2 3] assms(1) by simp
    moreover have "24 \<le> comb" "comb < 30" unfolding c using assms(1) b(1) by simp_all
    ultimately show ?thesis unfolding and_numerals_mask using b(2) by simp
  qed
  then show "comb < 30" "(if comb < 0b11000 then (drop_bit 3 comb, comb AND 0b111) else (drop_bit 1 comb AND 0b11, 8 + (comb AND 1))) = (msb, msd)"
    by blast+
qed

lemma pad_digits:
  assumes "list_all digit_char s" "length s \<le> w"
  shows "list_all digit_char (padStartZeros s w)" "length (padStartZeros s w) = w" "digits_value (padStartZeros s w) = digits_value s"
proof -
  show "list_all digit_char (padStartZeros s w)" unfolding pad_fixed [OF assms] by (rule fixed_digits_chars)
  show "length (padStartZeros s w) = w" unfolding pad_fixed [OF assms] by simp
  show "digits_value (padStartZeros s w) = digits_value s" by (simp add: padStartZeros_def digits_value_append)
qed

lemma digit_decimal: "digit_char c \<Longrightarrow> unat c - 48 < 10 \<and> decimal (unat c - 48) = [c]"
  by (auto simp: digit_char_def word_le_nat_alt decimal.simps)

lemma decode_encode_finite:
  assumes "wf_format fmt" "finite_ok fmt f"
  shows "decodeDecimalFloat (encode_finite f fmt) fmt =
    Inr (formatFinite (fd_negative f) (padStartZeros (fd_coefficient f) (df_precision fmt)) (fd_exponent f))"
proof -
  define eb cb where "eb = df_exponentContinuationBits fmt" and "cb = df_coefficientContinuationBits fmt"
  obtain k where k: "df_precision fmt = 3 * k + 1" "cb = 10 * k" and tot: "df_byteLength fmt * 8 = cb + eb + 6"
    using assms(1) by (auto simp: wf_format_def eb_def cb_def)
  define digits where "digits = padStartZeros (fd_coefficient f) (df_precision fmt)"
  have d: "list_all digit_char digits" "length digits = 3 * k + 1" using pad_digits assms(2) k by (auto simp: finite_ok_def digits_def)
  obtain c ds where cs: "digits = c # ds" using d(2) by (cases digits) auto
  have c: "digit_char c" "list_all digit_char ds" "length ds = 3 * k" using d by (simp_all add: cs)
  define msd cc where "msd = unat c - 48" and "cc = encodeCoefficientContinuation ds"
  have msd: "msd < 10" "decimal msd = [c]" using digit_decimal [OF c(1)] by (simp_all add: msd_def)
  have cc: "cc < 2 ^ cb" "decodeCoefficientContinuation cc (3 * k) = ds" using coefficient_roundtrip [OF c(3,2)] by (simp_all add: cc_def k(2))
  define E where "E = nat (fd_exponent f + int (df_exponentBias fmt))"
  have E: "E < 3 * 2 ^ eb" "int E - int (df_exponentBias fmt) = fd_exponent f"
  proof -
    have r: "- int (df_exponentBias fmt) \<le> fd_exponent f" "fd_exponent f < 3 * 2 ^ eb - int (df_exponentBias fmt)"
      using assms(2) by (auto simp: finite_ok_def max_exponent_def eb_def)
    then show i: "int E - int (df_exponentBias fmt) = fd_exponent f" by (simp add: E_def)
    have "int E < int (3 * 2 ^ eb)" using i r(2) by simp
    then show "E < 3 * 2 ^ eb" by (simp only: of_nat_less_iff)
  qed
  define msb ec where "msb = drop_bit eb E" and "ec = E AND (2 ^ eb - 1)"
  have msb: "msb < 3" using E(1) unfolding msb_def drop_bit_eq_div by (simp add: less_mult_imp_div_less)
  have ec: "ec < 2 ^ eb" unfolding ec_def and_ones by simp
  have join: "push_bit eb msb OR ec = E"
  proof -
    have e: "ec = E mod 2 ^ eb" unfolding ec_def by (rule and_ones)
    show ?thesis unfolding or_add [OF ec, of msb] unfolding e msb_def drop_bit_eq_div by (rule div_mult_mod_eq)
  qed
  define comb where "comb = (if msd \<le> 7 then push_bit 3 msb OR msd else 0b11000 OR push_bit 1 msb OR (msd - 8))"
  note comb = combination_fields [OF msb msd(1), folded comb_def]
  have small: "comb < 32" using comb(1) by simp
  define w where "w = float_word eb cb (fd_negative f) comb ec cc"
  have enc: "encode_finite f fmt = writeLittleEndian w (df_byteLength fmt)"
    unfolding encode_finite_def Let_def digits_def [symmetric] cs list.sel drop_Suc_Cons drop_0 One_nat_def [symmetric] msd_def [symmetric] cc_def [symmetric]
      eb_def [symmetric] cb_def [symmetric] E_def [symmetric] msb_def [symmetric] ec_def [symmetric] comb_def [symmetric] w_def
    using float_word_or(1) [OF small ec cc(1) tot] by (simp only: drop_Suc_Cons drop_0 One_nat_def cc_def)
  have r: "readLittleEndian (encode_finite f fmt) = w"
    unfolding enc read_write using float_word_or(2) [OF small ec cc(1) tot, of "fd_negative f"] by (simp add: w_def mult.commute)
  have l: "length (encode_finite f fmt) = df_byteLength fmt" by (simp add: enc)
  note fields = float_word_fields [OF small ec cc(1) tot w_def]
  have n: "comb \<noteq> 0b11110" "comb \<noteq> 0b11111" using comb(1) by simp_all
  have p: "df_precision fmt - 1 = 3 * k" by (simp add: k(1))
  show ?thesis
    unfolding decodeDecimalFloat_def Let_def r l eb_def [symmetric] cb_def [symmetric] fields(1-4) comb(2) prod.case join E(2) p cc(2) msd(2) digits_def [symmetric] cs
    using n by simp
qed

end
