(* ===== verification/Decimal_Text.thy ===== *)
theory Decimal_Text
  imports Decimal_Float Complex_Main
begin

text \<open>
  The texts of decimal floating-point numbers: what \<open>parseFinite\<close> and \<open>parseSpecial\<close> accept and \<open>formatFinite\<close> writes, the rational number
  a text denotes, and the round trip of \<open>decimal_float.go\<close>: nothing that is accepted is rounded.
\<close>

section \<open>Texts of finite numbers\<close>

definition canonical_digits :: "gostring \<Rightarrow> gostring" where
  "canonical_digits s = (if dropWhile zero_char s = [] then gostr ''0'' else dropWhile zero_char s)"

lemma canonical_facts:
  assumes "list_all digit_char s"
  shows "list_all digit_char (canonical_digits s)" "canonical_digits s \<noteq> []" "canonical_digits (canonical_digits s) = canonical_digits s"
    "digits_value (canonical_digits s) = digits_value s" "length (canonical_digits s) \<le> max 1 (length s)"
    "dropWhile zero_char (canonical_digits s) = dropWhile zero_char s"
proof -
  have d: "list_all digit_char (dropWhile zero_char s)" using assms by (auto simp: list_all_iff dest: set_dropWhileD)
  show "list_all digit_char (canonical_digits s)" using d by (simp add: canonical_digits_def gostr_def digit_char_def)
  show ne: "canonical_digits s \<noteq> []" by (simp add: canonical_digits_def gostr_def)
  show dw: "dropWhile zero_char (canonical_digits s) = dropWhile zero_char s"
  proof (cases "dropWhile zero_char s = []")
    case True
    then show ?thesis unfolding canonical_digits_def if_P [OF True] True by (simp add: gostr_def)
  next
    case False
    then show ?thesis unfolding canonical_digits_def if_not_P [OF False] by (simp add: dropWhile_idem)
  qed
  then show "canonical_digits (canonical_digits s) = canonical_digits s" by (simp add: canonical_digits_def)
  have v: "digits_value (dropWhile zero_char s) = digits_value s" by (induction s) (auto simp: digits_value_Cons)
  show "digits_value (canonical_digits s) = digits_value s"
  proof (cases "dropWhile zero_char s = []")
    case True
    have "digits_value s = 0" using v unfolding True by simp
    then show ?thesis unfolding canonical_digits_def if_P [OF True] by (simp add: gostr_def digits_value_Cons)
  next
    case False
    show ?thesis unfolding canonical_digits_def if_not_P [OF False] by (rule v)
  qed
  show "length (canonical_digits s) \<le> max 1 (length s)"
    using length_dropWhile_le [of zero_char s] by (auto simp: canonical_digits_def gostr_def)
qed

lemma parse_core:
  assumes "match_decimal s = Some (m1, m2, m3, [], m5)" "m2 \<noteq> []" "dropWhile zero_char (m2 @ m3) = dropWhile zero_char ds"
    and "signed_value m5 - int (length m3) = e" "canonical_digits ds = ds" "length ds \<le> df_precision fmt"
    and "- int (df_exponentBias fmt) \<le> e" "e \<le> max_exponent fmt"
  shows "parseFinite s fmt = Inr \<lparr>fd_negative = (m1 = gostr ''-''), fd_coefficient = ds, fd_exponent = e\<rparr>"
proof -
  have x: "(if m5 \<noteq> [] then signed_value m5 else 0) = signed_value m5" by (simp add: signed_value_def split_sign_def)
  have c: "(if dropWhile zero_char (m2 @ m3) = [] then gostr ''0'' else dropWhile zero_char (m2 @ m3)) = ds"
    using assms(5) unfolding assms(3) by (simp only: canonical_digits_def)
  have cut: "cut_precision fmt ds e = Inr (ds, e)" using assms(6) by (simp add: cut_precision_def)
  have fit: "fit_exponent fmt ds e = Inr (ds, e)" using assms(7,8) by (simp add: fit_exponent_def Let_def)
  show ?thesis
    unfolding parseFinite_def assms(1) using assms(2,4) by (simp only: option.case prod.case Let_def if_False x c cut fit bindE.simps)
qed

lemma exponent_text:
  "match_exponent (gostr ''E'' @ (if n \<ge> 0 then gostr ''+'' else []) @ go_Itoa n) = Some ((if n \<ge> 0 then gostr ''+'' else []) @ go_Itoa n)"
  "signed_value ((if n \<ge> 0 then gostr ''+'' else []) @ go_Itoa n) = n"
  using decimal_digits_value [of "nat n"] decimal_digits_value [of "nat (- n)"]
  by (auto simp: match_exponent_def gostr_def go_Itoa_def split_sign_def sign_char_def signed_value_def)

lemma list_all_take_drop: "list_all P s \<Longrightarrow> list_all P (take n s) \<and> list_all P (drop n s)"
  using list_all_append [of P "take n s" "drop n s"] by simp

lemma parse_format:
  assumes "list_all digit_char s" "length (canonical_digits s) \<le> df_precision fmt" "- int (df_exponentBias fmt) \<le> e" "e \<le> max_exponent fmt"
  shows "parseFinite (formatFinite negative s e) fmt = Inr \<lparr>fd_negative = negative, fd_coefficient = canonical_digits s, fd_exponent = e\<rparr>"
proof -
  define ds where "ds = canonical_digits s"
  note c = canonical_facts [OF assms(1), folded ds_def]
  define pre where "pre = (if negative then gostr ''-'' else [])"
  have pre: "pre = [] \<or> pre = gostr ''-''" "(pre = gostr ''-'') = negative" by (auto simp: pre_def gostr_def)
  define adj where "adj = e + int (length ds) - 1"
  have L: "1 \<le> length ds" using c(2) by (cases ds) auto
  have dsp: "list_all digit_char (take k ds)" "list_all digit_char (drop k ds)" for k using list_all_take_drop [OF c(1), of k] by simp_all
  define body where "body = (if e \<le> 0 \<and> adj \<ge> - 6 then
      (if e = 0 then ds
       else if int (length ds) + e > 0 then take (nat (int (length ds) + e)) ds @ gostr ''.'' @ drop (nat (int (length ds) + e)) ds
       else gostr ''0.'' @ replicate (nat (- (int (length ds) + e))) 0x30 @ ds)
     else (if length ds = 1 then ds else take 1 ds @ gostr ''.'' @ drop 1 ds) @ gostr ''E'' @ (if adj \<ge> 0 then gostr ''+'' else []) @ go_Itoa adj)"
  have form: "formatFinite negative s e = pre @ body"
    unfolding formatFinite_def Let_def canonical_digits_def [symmetric] ds_def [symmetric] adj_def [symmetric] body_def [symmetric]
    by (simp add: pre_def gostr_def)
  have goal: "parseFinite (pre @ body) fmt = Inr \<lparr>fd_negative = (pre = gostr ''-''), fd_coefficient = ds, fd_exponent = e\<rparr>"
  proof (cases "e \<le> 0 \<and> adj \<ge> - 6")
    case True
    consider (zero) "e = 0" | (point) "e \<noteq> 0" "int (length ds) + e > 0" | (small) "e \<noteq> 0" "int (length ds) + e \<le> 0" by linarith
    then show ?thesis
    proof cases
      case zero
      then have b: "body = ds" using True by (simp add: body_def)
      show ?thesis
        unfolding b by (rule parse_core [OF match_decoded(1) [OF c(1,2) _ pre(1), of "[]"] c(2)])
          (use zero assms c(3,6) in \<open>simp_all add: signed_value_def split_sign_def ds_def\<close>)
    next
      case point
      define k where "k = nat (int (length ds) + e)"
      have b: "body = take k ds @ gostr ''.'' @ drop k ds" using True point by (simp add: body_def k_def)
      have k: "0 < k" "int (length (drop k ds)) = - e" using point True by (auto simp: k_def)
      have ne: "take k ds \<noteq> []" using k(1) c(2) by simp
      show ?thesis
        unfolding b by (rule parse_core [OF match_decoded(2) [OF dsp(1) ne dsp(2) pre(1)] ne])
          (use k(2) assms c(3,6) in \<open>simp_all add: signed_value_def split_sign_def ds_def [symmetric]\<close>)
    next
      case small
      define k where "k = nat (- (int (length ds) + e))"
      have b: "body = gostr ''0'' @ gostr ''.'' @ (replicate k 0x30 @ ds)" using True small by (simp add: body_def k_def gostr_def)
      have k: "int (length (replicate k 0x30 @ ds)) = - e" using small by (simp add: k_def)
      have d: "list_all digit_char (gostr ''0'')" "gostr ''0'' \<noteq> []" "list_all digit_char (replicate k 0x30 @ ds)"
        using c(1) by (simp_all add: gostr_def digit_char_def)
      have z: "dropWhile zero_char (gostr ''0'' @ replicate k 0x30 @ ds) = dropWhile zero_char ds"
        by (induction k) (simp_all add: gostr_def)
      show ?thesis
        unfolding b by (rule parse_core [OF match_decoded(2) [OF d pre(1)] d(2) z])
          (use k assms c(3,6) in \<open>simp_all add: signed_value_def split_sign_def ds_def [symmetric]\<close>)
    qed
  next
    case False
    let ?m5 = "(if adj \<ge> 0 then gostr ''+'' else []) @ go_Itoa adj"
    show ?thesis
    proof (cases "length ds = 1")
      case True
      then have b: "body = ds @ gostr ''E'' @ ?m5" using False unfolding body_def if_not_P [OF False] by simp
      show ?thesis
        unfolding b by (rule parse_core [OF match_written(1) [OF c(1,2) _ pre(1) exponent_text(1), of "[]"] c(2)])
          (use True assms c(3,6) exponent_text(2) [of adj] in \<open>simp_all add: adj_def ds_def [symmetric]\<close>)
    next
      case len: False
      then have b: "body = take 1 ds @ gostr ''.'' @ drop 1 ds @ gostr ''E'' @ ?m5" unfolding body_def if_not_P [OF False] by simp
      have ne: "take 1 ds \<noteq> []" using c(2) by simp
      show ?thesis
        unfolding b by (rule parse_core [OF match_written(2) [OF dsp(1) ne dsp(2) pre(1) exponent_text(1)] ne])
          (use L assms c(3,6) exponent_text(2) [of adj] in \<open>simp_all add: adj_def ds_def [symmetric] of_nat_diff\<close>)
    qed
  qed
  then show ?thesis unfolding form pre(2) ds_def .
qed

section \<open>The value of a text\<close>

definition decimal_value :: "bool \<Rightarrow> gostring \<Rightarrow> int \<Rightarrow> rat" where
  "decimal_value negative s e = (if negative then - 1 else 1) * of_nat (digits_value s) * 10 powi e"

definition text_value :: "gostring \<Rightarrow> rat option" where
  "text_value s =
     (case match_decimal s of
        None \<Rightarrow> None
      | Some (m1, m2, m3, m4, m5) \<Rightarrow>
          let fraction = (if m2 = [] then m4 else m3) in
          Some (decimal_value (m1 = gostr ''-'') (m2 @ fraction) (signed_value m5 - int (length fraction))))"

lemma decimal_value_shift:
  "decimal_value negative (s @ replicate n 0x30) e = decimal_value negative s (e + int n)"
  by (simp add: decimal_value_def digits_value_append power_int_add)

lemma trailing_zeros:
  assumes "n \<le> trailingZeroCount s"
  shows "s = take (length s - n) s @ replicate n 0x30"
proof -
  have "take n (rev s) = replicate n 0x30"
  proof -
    have "take n (rev s) = take n (takeWhile zero_char (rev s))"
      using assms unfolding trailingZeroCount_def by (subst takeWhile_eq_take) (simp add: min_def)
    moreover have "takeWhile zero_char (rev s) = replicate (trailingZeroCount s) 0x30"
      unfolding trailingZeroCount_def by (metis (mono_tags, lifting) replicate_length_same set_takeWhileD)
    ultimately show ?thesis using assms by (simp add: min_def)
  qed
  then have "rev (take n (rev s)) = replicate n 0x30" by simp
  then have "drop (length s - n) s = replicate n 0x30" by (simp add: rev_take)
  then show ?thesis using append_take_drop_id [of "length s - n" s] by simp
qed

lemma trailing_le: "trailingZeroCount s \<le> length s"
  using length_takeWhile_le [of zero_char "rev s"] by (simp add: trailingZeroCount_def)

lemma cut_precision_ok:
  assumes "cut_precision fmt s e = Inr (c, e')" "list_all digit_char s" "0 < df_precision fmt"
  shows "list_all digit_char c" "length c \<le> df_precision fmt" "decimal_value neg c e' = decimal_value neg s e"
proof -
  have "list_all digit_char c \<and> length c \<le> df_precision fmt \<and> decimal_value neg c e' = decimal_value neg s e"
  proof (cases "s \<noteq> gostr ''0'' \<and> length s > df_precision fmt")
    case True
    define x where "x = length s - df_precision fmt"
    have c: "x \<le> trailingZeroCount s" "c = take (length s - x) s" "e' = e + int x"
      using assms(1) unfolding cut_precision_def if_P [OF True] Let_def x_def [symmetric] by (auto simp del: take_append split: if_splits)
    have s: "s = c @ replicate x 0x30" unfolding c(2) by (rule trailing_zeros [OF c(1)])
    have d: "list_all digit_char (c @ replicate x 0x30)" using assms(2) by (simp only: s [symmetric])
    have v: "decimal_value neg c e' = decimal_value neg s e" using decimal_value_shift [of neg c x e] by (simp only: s [symmetric] c(3))
    have "length c \<le> df_precision fmt" unfolding c(2) x_def using True by simp
    then show ?thesis using d v by simp
  next
    case False
    then have "c = s" "e' = e" using assms(1) unfolding cut_precision_def if_not_P [OF False] by auto
    then show ?thesis using False assms(2,3) by (auto simp: gostr_def)
  qed
  then show "list_all digit_char c" "length c \<le> df_precision fmt" "decimal_value neg c e' = decimal_value neg s e" by blast+
qed

lemma fit_exponent_ok:
  assumes "fit_exponent fmt s e = Inr (c, e')" "list_all digit_char s" "length s \<le> df_precision fmt" "- int (df_exponentBias fmt) \<le> max_exponent fmt"
  shows "list_all digit_char c" "length c \<le> df_precision fmt" "decimal_value neg c e' = decimal_value neg s e"
    "- int (df_exponentBias fmt) \<le> e'" "e' \<le> max_exponent fmt"
proof -
  define lo hi where "lo = - int (df_exponentBias fmt)" and "hi = max_exponent fmt"
  have lh: "lo \<le> hi" using assms(4) by (simp add: lo_def hi_def)
  have "list_all digit_char c \<and> length c \<le> df_precision fmt \<and> decimal_value neg c e' = decimal_value neg s e \<and> lo \<le> e' \<and> e' \<le> hi"
  proof (cases "s = gostr ''0''")
    case True
    then have "c = s" "lo \<le> e'" "e' \<le> hi" using assms(1) lh by (auto simp: fit_exponent_def Let_def lo_def hi_def split: if_splits)
    moreover have "digits_value s = 0" using True by (simp add: gostr_def digits_value_Cons)
    ultimately show ?thesis using assms(2,3) by (simp add: decimal_value_def)
  next
    case s0: False
    consider (high) "e > hi" | (low) "e < lo" | (mid) "lo \<le> e" "e \<le> hi" by linarith
    then show ?thesis
    proof cases
      case high
      then have c: "c = s @ replicate (nat (e - hi)) 0x30" "e' = hi" "e - hi \<le> int (df_precision fmt) - int (length s)"
        using assms(1) s0 by (auto simp: fit_exponent_def Let_def lo_def hi_def split: if_splits)
      have d: "list_all digit_char c" using assms(2) by (auto simp: c(1) list_all_iff digit_char_def split: if_splits)
      have "length c \<le> df_precision fmt" using c high by simp
      then show ?thesis using decimal_value_shift [of neg s "nat (e - hi)" hi] c d high lh by simp
    next
      case low
      define n where "n = nat (lo - e)"
      have c: "n \<le> trailingZeroCount s" "c = take (length s - n) s" "e' = lo" "e + int n = lo"
        using assms(1) s0 low lh by (auto simp: fit_exponent_def Let_def lo_def hi_def n_def split: if_splits)
      have s: "s = c @ replicate n 0x30" unfolding c(2) by (rule trailing_zeros [OF c(1)])
      have d: "list_all digit_char (c @ replicate n 0x30)" using assms(2) by (simp only: s [symmetric])
      have v: "decimal_value neg c e' = decimal_value neg s e" using decimal_value_shift [of neg c n e] by (simp only: s [symmetric] c(3,4))
      have "length c \<le> df_precision fmt" using c(2) assms(3) by simp
      then show ?thesis using v c(3) d lh by simp
    next
      case mid
      then have "c = s" "e' = e" using assms(1) s0 by (auto simp: fit_exponent_def Let_def lo_def hi_def split: if_splits)
      then show ?thesis using mid assms(2,3) by simp
    qed
  qed
  then show "list_all digit_char c" "length c \<le> df_precision fmt" "decimal_value neg c e' = decimal_value neg s e"
    "- int (df_exponentBias fmt) \<le> e'" "e' \<le> max_exponent fmt" unfolding lo_def hi_def by blast+
qed

definition finite_value :: "finiteDecimal \<Rightarrow> rat" where
  "finite_value f = decimal_value (fd_negative f) (fd_coefficient f) (fd_exponent f)"

lemma parseFinite_ok:
  assumes "parseFinite s fmt = Inr f" "0 < df_precision fmt" "- int (df_exponentBias fmt) \<le> max_exponent fmt"
  shows "finite_ok fmt f" "text_value s = Some (finite_value f)"
proof -
  obtain m1 m2 m3 m4 m5 where m: "match_decimal s = Some (m1, m2, m3, m4, m5)"
    using assms(1) by (auto simp: parseFinite_def split: option.splits prod.splits)
  define fr where "fr = (if m2 = [] then m4 else m3)"
  have d: "list_all digit_char (m2 @ fr)" using match_parts [OF m] by (auto simp: fr_def)
  have x: "(if m5 \<noteq> [] then signed_value m5 else 0) = signed_value m5" by (simp add: signed_value_def split_sign_def)
  obtain c e c' e' where ce: "cut_precision fmt (canonical_digits (m2 @ fr)) (signed_value m5 - int (length fr)) = Inr (c, e)"
      "fit_exponent fmt c e = Inr (c', e')" and f: "f = \<lparr>fd_negative = (m1 = gostr ''-''), fd_coefficient = c', fd_exponent = e'\<rparr>"
    using assms(1) unfolding parseFinite_def m option.case prod.case Let_def fr_def [symmetric] canonical_digits_def [symmetric] x
    by (auto simp: bindE_Inr_iff)
  note cut = cut_precision_ok [OF ce(1) canonical_facts(1) [OF d] assms(2)]
  note fit = fit_exponent_ok [OF ce(2) cut(1,2) assms(3)]
  show "finite_ok fmt f" using fit(1,2,4,5) by (simp add: finite_ok_def f)
  have "finite_value f = decimal_value (m1 = gostr ''-'') (canonical_digits (m2 @ fr)) (signed_value m5 - int (length fr))"
    using fit(3) cut(3) by (simp add: finite_value_def f)
  also have "\<dots> = decimal_value (m1 = gostr ''-'') (m2 @ fr) (signed_value m5 - int (length fr))"
    unfolding decimal_value_def canonical_facts(4) [OF d] ..
  finally show "text_value s = Some (finite_value f)" unfolding text_value_def m option.case prod.case Let_def fr_def [symmetric] by simp
qed

section \<open>Special values\<close>

lemma padded_zeros: "dropWhile zero_char (padStartZeros s w) = dropWhile zero_char s"
proof -
  have "dropWhile zero_char (replicate n 0x30 @ s) = dropWhile zero_char s" for n by (induction n) simp_all
  then show ?thesis by (simp add: padStartZeros_def)
qed

definition special_ok :: "decimalFloatFormat \<Rightarrow> specialDecimal \<Rightarrow> bool" where
  "special_ok fmt sp \<longleftrightarrow> list_all digit_char (sd_diagnostic sp) \<and> dropWhile zero_char (sd_diagnostic sp) = sd_diagnostic sp \<and>
     length (sd_diagnostic sp) \<le> df_precision fmt - 1 \<and> (sd_kind sp = KindInfinity \<longrightarrow> sd_diagnostic sp = [])"

definition special_text :: "specialDecimal \<Rightarrow> gostring" where
  "special_text sp = (if sd_negative sp then gostr ''-'' else []) @
     (case sd_kind sp of KindInfinity \<Rightarrow> gostr ''Infinity'' | KindNan \<Rightarrow> gostr ''NaN'' | KindSnan \<Rightarrow> gostr ''sNaN'') @ sd_diagnostic sp"

lemma match_nan_digits: "match_nan s = Some (m2, m3) \<Longrightarrow> list_all digit_char m3"
  by (auto simp: match_nan_def Let_def split: if_splits)

lemma parseSpecial_ok:
  assumes "parseSpecial s fmt = Inr (Some sp)"
  shows "special_ok fmt sp"
proof -
  obtain m1 r where sg: "split_sign s = (m1, r)" by (cases "split_sign s")
  show ?thesis
  proof (cases "match_nan r")
    case None
    then show ?thesis using assms by (auto simp: parseSpecial_def sg special_ok_def split: if_splits)
  next
    case (Some p)
    obtain m2 m3 where p: "p = (m2, m3)" by (cases p)
    have d: "list_all digit_char (dropWhile zero_char m3)"
      using match_nan_digits [OF Some [unfolded p]] by (auto simp: list_all_iff dest: set_dropWhileD)
    show ?thesis using assms d by (auto simp: parseSpecial_def sg Some p special_ok_def Let_def dropWhile_idem split: if_splits)
  qed
qed

lemma lower_names:
  "lower_text (gostr ''Infinity'') = gostr ''infinity''" "lower_text (gostr ''NaN'') = gostr ''nan''" "lower_text (gostr ''sNaN'') = gostr ''snan''"
  by (simp_all add: lower_text_def gostr_def lower_byte_def)

lemma parse_special_text:
  assumes "special_ok fmt sp"
  shows "parseSpecial (special_text sp) fmt = Inr (Some sp)" "text_value (special_text sp) = None"
proof -
  obtain n k d where sp: "sp = \<lparr>sd_negative = n, sd_kind = k, sd_diagnostic = d\<rparr>" by (cases sp) auto
  have d: "list_all digit_char d" "dropWhile zero_char d = d" "\<not> df_precision fmt - 1 < length d" "k = KindInfinity \<longrightarrow> d = []"
    using assms by (auto simp: special_ok_def sp)
  show "parseSpecial (special_text sp) fmt = Inr (Some sp)"
    using d by (cases n; cases k; simp add: parseSpecial_def special_text_def sp split_sign_def sign_char_def gostr_def
        matches_infinity_def match_nan_def lower_text_def lower_byte_def Let_def)
  show "text_value (special_text sp) = None"
    using d by (cases n; cases k; simp add: text_value_def special_text_def sp match_decimal_def split_sign_def sign_char_def gostr_def
        digit_char_def Let_def match_exponent_def)
qed

lemma decode_encode_special:
  assumes "wf_format fmt" "special_ok fmt sp"
  shows "decodeDecimalFloat (encodeSpecial sp fmt) fmt = Inr (special_text sp)"
proof -
  define eb cb where "eb = df_exponentContinuationBits fmt" and "cb = df_coefficientContinuationBits fmt"
  obtain k where k: "df_precision fmt = 3 * k + 1" "cb = 10 * k" and tot: "df_byteLength fmt * 8 = cb + eb + 6" and eb: "0 < eb"
    using assms(1) by (auto simp: wf_format_def eb_def cb_def)
  define diag where "diag = leftPad (sd_diagnostic sp) (df_precision fmt - 1)"
  have d: "list_all digit_char diag" "length diag = 3 * k" "dropWhile zero_char diag = sd_diagnostic sp"
    using pad_digits [of "sd_diagnostic sp" "df_precision fmt - 1"] assms(2) k padded_zeros by (simp_all add: special_ok_def diag_def)
  define comb ec cc where "comb = (if sd_kind sp = KindInfinity then 30 else (31 :: nat))"
    and "ec = (if sd_kind sp = KindSnan then 2 ^ (eb - 1) else (0 :: nat))"
    and "cc = (if sd_kind sp = KindInfinity then 0 else encodeCoefficientContinuation diag)"
  have cc: "cc < 2 ^ cb" using coefficient_roundtrip(2) [OF d(2,1)] by (simp add: cc_def k(2))
  have comb: "comb < 32" by (simp add: comb_def)
  have ec: "ec < 2 ^ eb" using eb by (simp add: ec_def)
  define w where "w = float_word eb cb (sd_negative sp) comb ec cc"
  have sn: "push_bit cb ec = (if sd_kind sp = KindSnan then push_bit (cb + eb - 1) 1 else 0)"
    using eb by (simp add: ec_def push_bit_eq_mult power_add [symmetric] add.commute)
  have enc: "encodeSpecial sp fmt = writeLittleEndian w (df_byteLength fmt)"
    unfolding w_def float_word_or(1) [OF comb ec cc tot, symmetric] sn
    by (cases "sd_kind sp"; cases "sd_negative sp") (simp_all add: encodeSpecial_def Let_def eb_def [symmetric] cb_def [symmetric] diag_def comb_def cc_def or.assoc)
  have r: "readLittleEndian (encodeSpecial sp fmt) = w"
    unfolding enc read_write using float_word_or(2) [OF comb ec cc tot, of "sd_negative sp"] by (simp add: w_def mult.commute)
  have l: "length (encodeSpecial sp fmt) = df_byteLength fmt" by (simp add: enc)
  note fields = float_word_fields [OF comb ec cc tot w_def]
  have sb: "bit w (cb + eb - 1) \<longleftrightarrow> sd_kind sp = KindSnan"
  proof -
    have i: "cb + eb - 1 = cb + (eb - 1)" using eb by simp
    have "bit w (cb + eb - 1) \<longleftrightarrow> bit ec (eb - 1)"
      unfolding i fields(5) using field_split(2) [OF ec] eb bit_take_bit_iff [of eb _ "eb - 1"]
      by (metis diff_less take_bit_eq_mod zero_less_one)
    then show ?thesis by (simp add: ec_def bit_exp_iff)
  qed
  show ?thesis
    unfolding decodeDecimalFloat_def Let_def r l eb_def [symmetric] cb_def [symmetric] fields(1-4) sb
    using coefficient_roundtrip(1) [OF d(2,1)] d(3) assms(2) k(1)
    by (cases "sd_kind sp") (simp_all add: comb_def cc_def special_text_def special_ok_def gostr_def)
qed

section \<open>Round trip\<close>

lemma special_none:
  assumes "match_decimal s \<noteq> None"
  shows "parseSpecial s fmt = Inr None"
proof -
  obtain m1 r where sg: "split_sign s = (m1, r)" by (cases "split_sign s")
  have r: "r \<noteq> [] \<and> (digit_char (hd r) \<or> hd r = 0x2e)"
  proof (cases r)
    case Nil
    then show ?thesis using assms by (simp add: match_decimal_def sg Let_def)
  next
    case (Cons c t)
    then show ?thesis using assms by (auto simp: match_decimal_def sg Let_def split: if_splits)
  qed
  then obtain c t where r: "r = c # t" "digit_char c \<or> c = 0x2e" by (cases r) auto
  have l: "lower_byte c = c" using r(2) by (auto simp: lower_byte_def digit_char_def word_le_nat_alt)
  have n: "c \<noteq> 0x69 \<and> c \<noteq> 0x73 \<and> c \<noteq> 0x6e \<and> c \<noteq> 0xc5" using r(2) by (auto simp: digit_char_def word_le_nat_alt)
  have "\<not> matches_infinity r" using n l by (auto simp: matches_infinity_def lower_text_def r(1) gostr_def)
  moreover have "match_nan r = None" using n l by (auto simp: match_nan_def lower_text_def r(1) gostr_def Let_def)
  ultimately show ?thesis by (simp add: parseSpecial_def sg)
qed

lemma length_go_Itoa:
  assumes "\<bar>n\<bar> < 100000"
  shows "length (go_Itoa n) \<le> 6"
proof -
  have "nat n < 10 ^ 5" "nat (- n) < 10 ^ 5" using assms by simp_all
  then have "length (decimal (nat n)) \<le> 5" "length (decimal (nat (- n))) \<le> 5" by (simp_all only: length_decimal zero_less_numeral)
  then show ?thesis by (simp add: go_Itoa_def)
qed

lemma length_format:
  assumes "list_all digit_char s" "length s \<le> 34" "\<bar>e\<bar> < 90000"
  shows "length (formatFinite negative s e) \<le> maxDecimalFloatTextLength"
proof -
  define ds where "ds = canonical_digits s"
  have L: "length ds \<le> 34" "1 \<le> length ds" using canonical_facts(2,5) [OF assms(1)] assms(2) by (auto simp: ds_def Suc_le_eq)
  have i: "length (go_Itoa (e + int (length ds) - 1)) \<le> 6" by (rule length_go_Itoa) (use L assms(3) in linarith)
  have z: "nat (- (int (length ds) + e)) \<le> 6" if "e + int (length ds) - 1 \<ge> - 6" using that by linarith
  show ?thesis
    unfolding formatFinite_def Let_def canonical_digits_def [symmetric] ds_def [symmetric] maxDecimalFloatTextLength_def
    using L i z by (auto simp: gostr_def min_def)
qed

lemma known_formats:
  assumes "fmt = decf16 \<or> fmt = decf34"
  shows "wf_format fmt" "0 < df_precision fmt" "df_precision fmt \<le> 34" "- int (df_exponentBias fmt) \<le> max_exponent fmt"
    "df_exponentBias fmt < 90000" "max_exponent fmt < 90000"
  using assms wf_formats by (auto simp: decf16_def decf34_def max_exponent_def)

lemma canonical_pad: "canonical_digits (padStartZeros s w) = canonical_digits s"
  by (simp only: canonical_digits_def padded_zeros)

lemma pad_canonical:
  assumes "list_all digit_char s" "length s \<le> w" "0 < w"
  shows "padStartZeros (canonical_digits s) w = padStartZeros s w"
proof -
  note c = canonical_facts [OF assms(1)]
  have "length (canonical_digits s) \<le> w" using c(5) assms(2,3) by simp
  then show ?thesis by (simp only: pad_fixed [OF assms(1,2)] pad_fixed [OF c(1)] c(4))
qed

lemma encode_canonical:
  assumes "finite_ok fmt f" "0 < df_precision fmt"
  shows "encode_finite (f\<lparr>fd_coefficient := canonical_digits (fd_coefficient f)\<rparr>) fmt = encode_finite f fmt"
  using pad_canonical [of "fd_coefficient f" "df_precision fmt"] assms by (simp add: encode_finite_def finite_ok_def)

lemma finite_roundtrip:
  assumes "fmt = decf16 \<or> fmt = decf34" "finite_ok fmt f"
  shows "\<exists>t. decodeDecimalFloat (encode_finite f fmt) fmt = Inr t \<and> encodeDecimalFloat t fmt = Inr (encode_finite f fmt) \<and> text_value t = Some (finite_value f)"
proof -
  note k = known_formats [OF assms(1)]
  define s where "s = padStartZeros (fd_coefficient f) (df_precision fmt)"
  define t where "t = formatFinite (fd_negative f) s (fd_exponent f)"
  have f: "list_all digit_char (fd_coefficient f)" "length (fd_coefficient f) \<le> df_precision fmt"
    "- int (df_exponentBias fmt) \<le> fd_exponent f" "fd_exponent f \<le> max_exponent fmt" using assms(2) by (auto simp: finite_ok_def)
  have s: "list_all digit_char s" "length s = df_precision fmt" "canonical_digits s = canonical_digits (fd_coefficient f)"
    using pad_digits [OF f(1,2)] canonical_pad by (auto simp: s_def)
  have cl: "length (canonical_digits s) \<le> df_precision fmt" using canonical_facts(5) [OF s(1)] s(2) k(2) by simp
  define g where "g = f\<lparr>fd_coefficient := canonical_digits (fd_coefficient f)\<rparr>"
  have p: "parseFinite t fmt = Inr g" unfolding t_def parse_format [OF s(1) cl f(3,4)] by (simp add: g_def s(3))
  have m: "match_decimal t \<noteq> None" using p by (cases "match_decimal t") (simp_all add: parseFinite_def)
  have "\<bar>fd_exponent f\<bar> < 90000" using f(3,4) k(5,6) by linarith
  then have l: "\<not> length t > maxDecimalFloatTextLength" using length_format [OF s(1)] s(2) k(3) by (simp add: t_def not_less)
  have "encodeDecimalFloat t fmt = Inr (encode_finite g fmt)" by (simp add: encodeDecimalFloat_def l special_none [OF m] p)
  then have e: "encodeDecimalFloat t fmt = Inr (encode_finite f fmt)" using encode_canonical [OF assms(2) k(2)] by (simp add: g_def)
  have v: "finite_value g = finite_value f" using canonical_facts(4) [OF f(1)] by (simp add: finite_value_def decimal_value_def g_def)
  show ?thesis
    using decode_encode_finite [OF k(1) assms(2)] e parseFinite_ok(2) [OF p k(2,4)] v unfolding t_def s_def by metis
qed

lemma special_roundtrip:
  assumes "fmt = decf16 \<or> fmt = decf34" "special_ok fmt sp"
  shows "decodeDecimalFloat (encodeSpecial sp fmt) fmt = Inr (special_text sp)" "encodeDecimalFloat (special_text sp) fmt = Inr (encodeSpecial sp fmt)"
proof -
  note k = known_formats [OF assms(1)]
  show "decodeDecimalFloat (encodeSpecial sp fmt) fmt = Inr (special_text sp)" by (rule decode_encode_special [OF k(1) assms(2)])
  have "length (special_text sp) \<le> 1 + 8 + length (sd_diagnostic sp)" by (cases "sd_kind sp") (simp_all add: special_text_def gostr_def)
  then have "\<not> length (special_text sp) > maxDecimalFloatTextLength"
    using assms(2) k(3) unfolding special_ok_def maxDecimalFloatTextLength_def by linarith
  then show "encodeDecimalFloat (special_text sp) fmt = Inr (encodeSpecial sp fmt)"
    by (simp add: encodeDecimalFloat_def parse_special_text(1) [OF assms(2)])
qed

text \<open>
  C34. Round trip of decimal floating-point numbers: for both formats, every text that is encoded is encoded without rounding. The bytes
  decode to a text that denotes exactly the same rational number (or, like the first, an infinity or not-a-number), and that text encodes to the same bytes.
\<close>

theorem decimal_float_exact:
  assumes "fmt = decf16 \<or> fmt = decf34" "encodeDecimalFloat v fmt = Inr b"
  shows "\<exists>t. decodeDecimalFloat b fmt = Inr t \<and> encodeDecimalFloat t fmt = Inr b \<and>
    text_value t = (if parseSpecial v fmt = Inr None then text_value v else None)"
proof (cases "parseSpecial v fmt")
  case (Inl e)
  then show ?thesis using assms(2) by (simp add: encodeDecimalFloat_def split: if_splits)
next
  case (Inr special)
  note k = known_formats [OF assms(1)]
  show ?thesis
  proof (cases special)
    case (Some sp)
    then have ok: "special_ok fmt sp" and b: "b = encodeSpecial sp fmt"
      using parseSpecial_ok [of v fmt sp] Inr assms(2) by (auto simp: encodeDecimalFloat_def split: if_splits)
    show ?thesis using special_roundtrip [OF assms(1) ok] parse_special_text(2) [OF ok] Inr Some by (auto simp: b)
  next
    case None
    then obtain f where p: "parseFinite v fmt = Inr f" and b: "b = encode_finite f fmt"
      using Inr assms(2) by (auto simp: encodeDecimalFloat_def bindE_Inr_iff split: if_splits)
    show ?thesis using finite_roundtrip [OF assms(1) parseFinite_ok(1) [OF p k(2,4)]] parseFinite_ok(2) [OF p k(2,4)] Inr None by (simp add: b)
  qed
qed

theorem decimal_float_exact_witness:
  "\<exists>b t. EncodeDecimalFloat16 (gostr ''12.50'') = Inr b \<and> DecodeDecimalFloat16 b = Inr t \<and> EncodeDecimalFloat16 t = Inr b \<and> text_value t = text_value (gostr ''12.50'')"
proof -
  have m: "match_decimal (gostr ''12.50'') = Some ([], gostr ''12'', gostr ''50'', [], [])" by code_simp
  have p: "parseFinite (gostr ''12.50'') decf16 = Inr \<lparr>fd_negative = False, fd_coefficient = gostr ''1250'', fd_exponent = - 2\<rparr>" by code_simp
  have s: "parseSpecial (gostr ''12.50'') decf16 = Inr None" by code_simp
  obtain b where b: "encodeDecimalFloat (gostr ''12.50'') decf16 = Inr b"
    using p s by (simp add: encodeDecimalFloat_def maxDecimalFloatTextLength_def gostr_def)
  show ?thesis
    using decimal_float_exact [of decf16 "gostr ''12.50''", OF _ b] b s
    by (auto simp: EncodeDecimalFloat16_def DecodeDecimalFloat16_def)
qed

end
