(* ===== verification/Structure.thy ===== *)
theory Structure
  imports Abap_Char Temporal Decimal_Text Cpic_Chain
begin

text \<open>
  Packages \<open>structure\<close> and \<open>rfctypes\<close>: ABAP structures of fixed layout. The int32 members of a definition are 32-bit words, read as signed
  numbers; their sum wraps as in the code. A value of Go's type \<open>any\<close> is a constructor per dynamic type the code asks for, a float is
  its bits, and the field map of a structure is a list of pairs. A slice or index out of range is the error value \<open>StructurePanic\<close>.
\<close>

section \<open>Definitions of structures\<close>

datatype structure_error = ErrStructure | ErrStructureText classic_error | ErrStructureTemporal | ErrStructurePacked packed_error | ErrStructureFloat | StructurePanic

record structure_field =
  sf_TableName :: gostring
  sf_FieldName :: gostring
  sf_Position :: u32
  sf_Offset :: u32
  sf_InternalLength :: u32
  sf_Decimals :: u32
  sf_Exid :: string

record structure_definition =
  st_Name :: gostring
  st_ByteLength :: u32
  st_Fields :: "structure_field list"

definition maxClassicStructureFields :: nat where "maxClassicStructureFields = 100000"
definition maxClassicStructureByteLength :: int where "maxClassicStructureByteLength = DefaultMaxFieldLength"

text \<open>The loop of \<open>SnapshotDefinition\<close>: \<open>end\<close> is computed in 32 bits.\<close>

fun snapshot_fields :: "structure_definition \<Rightarrow> nat \<Rightarrow> gostring list \<Rightarrow> u32 \<Rightarrow> structure_field list \<Rightarrow> structure_error + unit" where
  "snapshot_fields def index names previousEnd [] = Inr ()"
| "snapshot_fields def index names previousEnd (field # fs) =
     (if sf_TableName field \<noteq> st_Name def \<or> sf_FieldName field = [] \<or> sf_FieldName field \<in> set names \<or> sf_Position field \<noteq> of_nat (index + 1) \<or>
         sint (sf_Offset field) < sint previousEnd \<or> sint (sf_InternalLength field) < 0 \<or> sint (sf_Decimals field) < 0 then Inl ErrStructure
      else let fieldEnd = sf_Offset field + sf_InternalLength field in
        if sint fieldEnd > sint (st_ByteLength def) then Inl ErrStructure
        else snapshot_fields def (index + 1) (sf_FieldName field # names) fieldEnd fs)"

definition SnapshotDefinition :: "structure_definition \<Rightarrow> gostring \<Rightarrow> structure_error + structure_definition" where
  "SnapshotDefinition def requestedName =
     (let expectedName = (if requestedName = [] then st_Name def else requestedName) in
      bindE (fail_if (st_Name def = [] \<or> st_Name def \<noteq> expectedName) ErrStructure) (\<lambda>_.
      bindE (fail_if (sint (st_ByteLength def) < 0) ErrStructure) (\<lambda>_.
      bindE (fail_if (sint (st_ByteLength def) > maxClassicStructureByteLength) ErrStructure) (\<lambda>_.
      bindE (fail_if (length (st_Fields def) > maxClassicStructureFields) ErrStructure) (\<lambda>_.
      bindE (snapshot_fields def 0 [] 0 (st_Fields def)) (\<lambda>_. Inr def))))))"

definition characterLength :: "structure_field \<Rightarrow> structure_error + int" where
  "characterLength field =
     bindE (fail_if (odd (sf_InternalLength field)) ErrStructure) (\<lambda>_. Inr (sint (sf_InternalLength field) div 2))"

definition exactLen :: "structure_field \<Rightarrow> int \<Rightarrow> structure_error + unit" where
  "exactLen field n = fail_if (sint (sf_InternalLength field) \<noteq> n) ErrStructure"

definition packed_result :: "packed_error + 'a \<Rightarrow> structure_error + 'a" where
  "packed_result r = (case r of Inl e \<Rightarrow> Inl (if e = PackedPanic then StructurePanic else ErrStructurePacked e) | Inr v \<Rightarrow> Inr v)"

definition assertFieldCodec :: "structure_field \<Rightarrow> structure_error + unit" where
  "assertFieldCodec field =
     (let exid = sf_Exid field in
      if IsClassicTemporalExid exid then
        (case ClassicTemporalByteLength exid of Inl _ \<Rightarrow> Inl ErrStructure | Inr bl \<Rightarrow> fail_if (sint (sf_InternalLength field) \<noteq> int bl) ErrStructure)
      else if exid = ''C'' \<or> exid = ''N'' then bindE (characterLength field) (\<lambda>_. Inr ())
      else if exid = ''D'' then exactLen field 16
      else if exid = ''T'' then exactLen field 12
      else if exid = ''X'' then Inr ()
      else if exid = ''F'' then exactLen field 8
      else if exid = ''I'' then exactLen field 4
      else if exid = ''s'' then exactLen field 2
      else if exid = ''b'' then exactLen field 1
      else if exid = ''8'' then exactLen field 8
      else if exid = ''P'' then
        bindE (packed_result (EncodePackedDecimal (gostr ''0'') (sint (sf_InternalLength field)) (sint (sf_Decimals field)))) (\<lambda>_. Inr ())
      else if exid = ''a'' then exactLen field 8
      else if exid = ''e'' then exactLen field 16
      else if exid = ''g'' then exactLen field 8
      else if exid = ''y'' then exactLen field 8
      else Inl ErrStructure)"

fun check_codecs :: "structure_field list \<Rightarrow> structure_error + unit" where
  "check_codecs [] = Inr ()"
| "check_codecs (field # fs) = bindE (assertFieldCodec field) (\<lambda>_. check_codecs fs)"

definition ValidateCodec :: "structure_definition \<Rightarrow> gostring \<Rightarrow> structure_error + structure_definition" where
  "ValidateCodec def requestedName =
     bindE (SnapshotDefinition def requestedName) (\<lambda>normalized.
     bindE (check_codecs (st_Fields normalized)) (\<lambda>_. Inr normalized))"

definition HasDynamicFields :: "structure_definition \<Rightarrow> structure_error + bool" where
  "HasDynamicFields def =
     bindE (ValidateCodec def []) (\<lambda>normalized. Inr (list_ex (\<lambda>f. sf_Exid f = ''g'' \<or> sf_Exid f = ''y'') (st_Fields normalized)))"

definition assertFixed :: "structure_definition \<Rightarrow> structure_error + unit" where
  "assertFixed def = bindE (HasDynamicFields def) (\<lambda>dynamic. fail_if dynamic ErrStructure)"

section \<open>Values\<close>

datatype any_value =
    AnyString gostring
  | AnyBytes bytes
  | AnyFloat64 "64 word"
  | AnyInt "64 word"
  | AnyInt8 "8 word"
  | AnyInt16 "16 word"
  | AnyInt32 "32 word"
  | AnyInt64 "64 word"
  | AnyUint8 "8 word"
  | AnyUint16 "16 word"
  | AnyUint32 "32 word"
  | AnyOther

fun asInt :: "any_value \<Rightarrow> int option" where
  "asInt (AnyInt n) = Some (sint n)"
| "asInt (AnyInt8 n) = Some (sint n)"
| "asInt (AnyInt16 n) = Some (sint n)"
| "asInt (AnyInt32 n) = Some (sint n)"
| "asInt (AnyInt64 n) = Some (sint n)"
| "asInt (AnyUint8 n) = Some (uint n)"
| "asInt (AnyUint16 n) = Some (uint n)"
| "asInt (AnyUint32 n) = Some (uint n)"
| "asInt _ = None"

definition requireInt :: "any_value \<Rightarrow> int \<Rightarrow> int \<Rightarrow> structure_error + int" where
  "requireInt v lo hi = (case asInt v of None \<Rightarrow> Inl ErrStructure | Some n \<Rightarrow> if n < lo \<or> n > hi then Inl ErrStructure else Inr n)"

text \<open>\<open>math.IsInf(f, 0) || math.IsNaN(f)\<close>: the exponent bits are all ones.\<close>

definition non_finite :: "64 word \<Rightarrow> bool" where
  "non_finite f \<longleftrightarrow> drop_bit 52 (unat f) mod 2 ^ 11 = 2 ^ 11 - 1"

definition text_result :: "classic_error + 'a \<Rightarrow> structure_error + 'a" where
  "text_result r = (case r of Inl e \<Rightarrow> Inl (ErrStructureText e) | Inr v \<Rightarrow> Inr v)"

definition temporal_result :: "temporal_error + 'a \<Rightarrow> structure_error + 'a" where
  "temporal_result r = (case r of Inl e \<Rightarrow> Inl ErrStructureTemporal | Inr v \<Rightarrow> Inr v)"

definition float_result :: "float_error + 'a \<Rightarrow> structure_error + 'a" where
  "float_result r = (case r of Inl e \<Rightarrow> Inl ErrStructureFloat | Inr v \<Rightarrow> Inr v)"

definition initialValue :: "structure_field \<Rightarrow> structure_error + any_value" where
  "initialValue field =
     (let exid = sf_Exid field in
      if IsClassicTemporalExid exid then bindE (temporal_result (ClassicTemporalInitialValue exid)) (\<lambda>s. Inr (AnyString s))
      else if exid = ''C'' then Inr (AnyString [])
      else if exid = ''N'' then bindE (characterLength field) (\<lambda>chars. Inr (AnyString (replicate (nat chars) 0x30)))
      else if exid = ''D'' then Inr (AnyString (gostr ''00000000''))
      else if exid = ''T'' then Inr (AnyString (gostr ''000000''))
      else if exid = ''X'' then Inr (AnyBytes [])
      else if exid = ''F'' then Inr (AnyFloat64 0)
      else if exid = ''I'' \<or> exid = ''s'' \<or> exid = ''b'' then Inr (AnyInt 0)
      else if exid = ''8'' then Inr (AnyInt64 0)
      else if exid = ''P'' then Inr (AnyString (gostr ''0''))
      else if exid = ''a'' \<or> exid = ''e'' then Inr (AnyString (gostr ''0''))
      else Inl ErrStructure)"

text \<open>\<open>copy(target[offset:], src)\<close> and a write of all bytes of \<open>src\<close> at \<open>offset\<close>.\<close>

definition copy_into :: "bytes \<Rightarrow> int \<Rightarrow> bytes \<Rightarrow> structure_error + bytes" where
  "copy_into target offset src =
     (if offset < 0 \<or> offset > int (length target) then Inl StructurePanic else Inr (copy_at (nat offset) src target))"

definition put_into :: "bytes \<Rightarrow> int \<Rightarrow> bytes \<Rightarrow> structure_error + bytes" where
  "put_into target offset src =
     (if offset < 0 \<or> offset + int (length src) > int (length target) then Inl StructurePanic else Inr (copy_at (nat offset) src target))"

definition as_text :: "any_value \<Rightarrow> structure_error + gostring" where
  "as_text v = (case v of AnyString s \<Rightarrow> Inr s | _ \<Rightarrow> Inl ErrStructure)"

definition writeValue :: "bytes \<Rightarrow> structure_field \<Rightarrow> any_value \<Rightarrow> structure_error + bytes" where
  "writeValue target field v =
     (let exid = sf_Exid field; offset = sint (sf_Offset field) in
      if IsClassicTemporalExid exid then
        bindE (as_text v) (\<lambda>s. bindE (temporal_result (EncodeClassicTemporal exid s)) (\<lambda>enc. copy_into target offset enc))
      else if exid = ''C'' then
        bindE (as_text v) (\<lambda>s. bindE (characterLength field) (\<lambda>chars. bindE (text_result (EncodeAbapChar s chars)) (\<lambda>enc. copy_into target offset enc)))
      else if exid = ''N'' then
        bindE (characterLength field) (\<lambda>chars. bindE (as_text v) (\<lambda>s.
        bindE (fail_if (\<not> list_all digit_char s \<or> int (length s) > chars) ErrStructure) (\<lambda>_.
        bindE (text_result (EncodeAbapChar (replicate (nat (chars - int (length s))) 0x30 @ s) chars)) (\<lambda>enc. copy_into target offset enc))))
      else if exid = ''D'' then
        bindE (as_text v) (\<lambda>s. bindE (temporal_result (ClassicDateWireText s)) (\<lambda>wire. copy_into target offset (utf16leEncode wire)))
      else if exid = ''T'' then
        bindE (as_text v) (\<lambda>s. bindE (temporal_result (ClassicTimeWireText s)) (\<lambda>wire. copy_into target offset (utf16leEncode wire)))
      else if exid = ''X'' then
        (case v of AnyBytes b \<Rightarrow> if int (length b) > sint (sf_InternalLength field) then Inl ErrStructure else copy_into target offset b
         | _ \<Rightarrow> Inl ErrStructure)
      else if exid = ''F'' then
        (case v of AnyFloat64 f \<Rightarrow> if non_finite f then Inl ErrStructure else put_into target offset (put64le f) | _ \<Rightarrow> Inl ErrStructure)
      else if exid = ''I'' then bindE (requireInt v (- (2 ^ 31)) (2 ^ 31 - 1)) (\<lambda>n. put_into target offset (put32le (of_int n)))
      else if exid = ''s'' then bindE (requireInt v (- (2 ^ 15)) (2 ^ 15 - 1)) (\<lambda>n. put_into target offset (put16le (of_int n)))
      else if exid = ''b'' then bindE (requireInt v 0 0xff) (\<lambda>n. put_into target offset [of_int n])
      else if exid = ''8'' then bindE (requireInt v (- (2 ^ 63)) (2 ^ 63 - 1)) (\<lambda>n. put_into target offset (put64le (of_int n)))
      else if exid = ''P'' then
        bindE (as_text v) (\<lambda>s. bindE (packed_result (EncodePackedDecimal s (sint (sf_InternalLength field)) (sint (sf_Decimals field)))) (\<lambda>enc. copy_into target offset enc))
      else if exid = ''a'' then
        bindE (as_text v) (\<lambda>s. bindE (float_result (EncodeDecimalFloat16 s)) (\<lambda>enc. copy_into target offset enc))
      else if exid = ''e'' then
        bindE (as_text v) (\<lambda>s. bindE (float_result (EncodeDecimalFloat34 s)) (\<lambda>enc. copy_into target offset enc))
      else Inl ErrStructure)"

text \<open>\<open>source[lo:hi]\<close>. The validation bounds \<open>hi\<close> by the length, so the capacity beyond it plays no part.\<close>

definition slice_of :: "bytes \<Rightarrow> int \<Rightarrow> int \<Rightarrow> structure_error + bytes" where
  "slice_of source lo hi = (if lo < 0 \<or> hi < lo \<or> hi > int (length source) then Inl StructurePanic else Inr (gslice (nat lo) (nat hi) source))"

definition read_segment :: "structure_field \<Rightarrow> bytes \<Rightarrow> structure_error + any_value" where
  "read_segment field seg =
     (let exid = sf_Exid field; text = (\<lambda>r. bindE r (\<lambda>s. Inr (AnyString s))) in
      if IsClassicTemporalExid exid then text (temporal_result (DecodeClassicTemporal exid seg))
      else if exid = ''C'' \<or> exid = ''N'' then bindE (characterLength field) (\<lambda>chars. text (text_result (DecodeAbapChar seg (Some chars))))
      else if exid = ''D'' then
        text (bindE (text_result (DecodeAbapFixedChar seg 8)) (\<lambda>decoded. temporal_result (ClassicDatePublicText decoded)))
      else if exid = ''T'' then
        text (bindE (text_result (DecodeAbapFixedChar seg 6)) (\<lambda>decoded. temporal_result (ClassicTimePublicText decoded)))
      else if exid = ''X'' then Inr (AnyBytes seg)
      else if exid = ''F'' then (if non_finite (get64le seg) then Inl ErrStructure else Inr (AnyFloat64 (get64le seg)))
      else if exid = ''I'' then Inr (AnyInt32 (get32le seg))
      else if exid = ''s'' then Inr (AnyInt16 (get16le seg))
      else if exid = ''b'' then (case seg of [] \<Rightarrow> Inl StructurePanic | b # _ \<Rightarrow> Inr (AnyUint8 b))
      else if exid = ''8'' then Inr (AnyInt64 (get64le seg))
      else if exid = ''P'' then text (packed_result (DecodePackedDecimal seg (sint (sf_Decimals field))))
      else if exid = ''a'' then text (float_result (DecodeDecimalFloat16 seg))
      else if exid = ''e'' then text (float_result (DecodeDecimalFloat34 seg))
      else Inl ErrStructure)"

definition readValue :: "bytes \<Rightarrow> structure_field \<Rightarrow> structure_error + any_value" where
  "readValue source field =
     bindE (slice_of source (sint (sf_Offset field)) (sint (sf_Offset field + sf_InternalLength field))) (\<lambda>seg. read_segment field seg)"

section \<open>Structures\<close>

definition fill_gap :: "bytes \<Rightarrow> structure_field \<Rightarrow> int \<Rightarrow> structure_error + bytes" where
  "fill_gap result field nextOffset =
     (if sf_Exid field = ''C'' \<or> sf_Exid field = ''N'' then
        let fieldEnd = sint (sf_Offset field + sf_InternalLength field); paddingLength = nextOffset - fieldEnd in
        if odd paddingLength then Inl ErrStructure
        else if paddingLength > 0 then
          copy_into result fieldEnd (utf16leEncode (replicate (nat (paddingLength div 2)) (if sf_Exid field = ''N'' then 0x30 else 0x20)))
        else Inr result
      else Inr result)"

fun encode_fields :: "structure_definition \<Rightarrow> (gostring \<times> any_value) list \<Rightarrow> bytes \<Rightarrow> structure_field list \<Rightarrow> structure_error + bytes" where
  "encode_fields def input result [] = Inr result"
| "encode_fields def input result (field # fs) =
     bindE (case map_of input (sf_FieldName field) of Some v \<Rightarrow> Inr v | None \<Rightarrow> initialValue field) (\<lambda>v.
     bindE (writeValue result field v) (\<lambda>result.
     bindE (fill_gap result field (case fs of [] \<Rightarrow> sint (st_ByteLength def) | g # _ \<Rightarrow> sint (sf_Offset g))) (\<lambda>result.
     encode_fields def input result fs)))"

definition structure_Encode :: "structure_definition \<Rightarrow> (gostring \<times> any_value) list \<Rightarrow> structure_error + bytes" where
  "structure_Encode def input =
     bindE (ValidateCodec def []) (\<lambda>normalized.
     bindE (assertFixed normalized) (\<lambda>_.
     bindE (fail_if (\<not> set (map fst input) \<subseteq> set (map sf_FieldName (st_Fields normalized))) ErrStructure) (\<lambda>_.
     encode_fields normalized input (replicate (nat (sint (st_ByteLength normalized))) 0) (st_Fields normalized))))"

fun decode_fields :: "bytes \<Rightarrow> structure_field list \<Rightarrow> structure_error + (gostring \<times> any_value) list" where
  "decode_fields source [] = Inr []"
| "decode_fields source (field # fs) =
     bindE (readValue source field) (\<lambda>v. bindE (decode_fields source fs) (\<lambda>m. Inr ((sf_FieldName field, v) # m)))"

definition structure_Decode :: "structure_definition \<Rightarrow> bytes \<Rightarrow> structure_error + (gostring \<times> any_value) list" where
  "structure_Decode def v =
     bindE (ValidateCodec def []) (\<lambda>normalized.
     bindE (assertFixed normalized) (\<lambda>_.
     bindE (fail_if (int (length v) \<noteq> sint (st_ByteLength normalized)) ErrStructure) (\<lambda>_.
     decode_fields v (st_Fields normalized))))"

end
