(* ===== verification/Structure_Field.thy ===== *)
theory Structure_Field
  imports Structure
begin

text \<open>
  The bytes of one field of a structure: for each type of fixed layout, what \<open>writeValue\<close> writes has the length of the field, and what
  \<open>readValue\<close> reads from it is written to the same bytes again.
\<close>

section \<open>Bytes of one field\<close>

definition encode_segment :: "structure_field \<Rightarrow> any_value \<Rightarrow> structure_error + bytes" where
  "encode_segment field v =
     (let exid = sf_Exid field; len = sint (sf_InternalLength field) in
      if IsClassicTemporalExid exid then bindE (as_text v) (\<lambda>s. temporal_result (EncodeClassicTemporal exid s))
      else if exid = ''C'' then bindE (as_text v) (\<lambda>s. bindE (characterLength field) (\<lambda>chars. text_result (EncodeAbapChar s chars)))
      else if exid = ''N'' then
        bindE (characterLength field) (\<lambda>chars. bindE (as_text v) (\<lambda>s.
        bindE (fail_if (\<not> list_all digit_char s \<or> int (length s) > chars) ErrStructure) (\<lambda>_.
        text_result (EncodeAbapChar (replicate (nat (chars - int (length s))) 0x30 @ s) chars))))
      else if exid = ''D'' then bindE (as_text v) (\<lambda>s. bindE (temporal_result (ClassicDateWireText s)) (\<lambda>wire. Inr (utf16leEncode wire)))
      else if exid = ''T'' then bindE (as_text v) (\<lambda>s. bindE (temporal_result (ClassicTimeWireText s)) (\<lambda>wire. Inr (utf16leEncode wire)))
      else if exid = ''X'' then
        (case v of AnyBytes b \<Rightarrow> if int (length b) > len then Inl ErrStructure else Inr (b @ replicate (nat len - length b) 0) | _ \<Rightarrow> Inl ErrStructure)
      else if exid = ''F'' then (case v of AnyFloat64 f \<Rightarrow> if non_finite f then Inl ErrStructure else Inr (put64le f) | _ \<Rightarrow> Inl ErrStructure)
      else if exid = ''I'' then bindE (requireInt v (- (2 ^ 31)) (2 ^ 31 - 1)) (\<lambda>n. Inr (put32le (of_int n)))
      else if exid = ''s'' then bindE (requireInt v (- (2 ^ 15)) (2 ^ 15 - 1)) (\<lambda>n. Inr (put16le (of_int n)))
      else if exid = ''b'' then bindE (requireInt v 0 0xff) (\<lambda>n. Inr [of_int n])
      else if exid = ''8'' then bindE (requireInt v (- (2 ^ 63)) (2 ^ 63 - 1)) (\<lambda>n. Inr (put64le (of_int n)))
      else if exid = ''P'' then bindE (as_text v) (\<lambda>s. packed_result (EncodePackedDecimal s len (sint (sf_Decimals field))))
      else if exid = ''a'' then bindE (as_text v) (\<lambda>s. float_result (EncodeDecimalFloat16 s))
      else if exid = ''e'' then bindE (as_text v) (\<lambda>s. float_result (EncodeDecimalFloat34 s))
      else Inl ErrStructure)"

lemmas result_defs = text_result_def temporal_result_def float_result_def packed_result_def

lemma result_Inr [simp]:
  "text_result r1 = Inr v \<longleftrightarrow> r1 = Inr v" "temporal_result r2 = Inr v \<longleftrightarrow> r2 = Inr v" "float_result r3 = Inr v \<longleftrightarrow> r3 = Inr v" "packed_result r4 = Inr v \<longleftrightarrow> r4 = Inr v"
  by (auto simp: result_defs split: sum.splits)

lemma as_text_Inr: "as_text v = Inr s \<longleftrightarrow> v = AnyString s"
  by (auto simp: as_text_def split: any_value.splits)

lemma requireInt_Inr: "requireInt v lo hi = Inr n \<longleftrightarrow> asInt v = Some n \<and> lo \<le> n \<and> n \<le> hi"
  by (auto simp: requireInt_def split: option.splits if_splits)

text \<open>Temporal types.\<close>

lemma temporal_encoded:
  assumes "EncodeClassicTemporal exid s = Inr b"
  obtains spec raw where "temporalSpecs exid = Some spec" "encodeRaw exid raw = Inr b" "rawValue exid b = Inr raw" "length b = ts_byteLength spec"
proof -
  obtain spec where sp: "temporalSpecs exid = Some spec"
    using assms by (cases "temporalSpecs exid") (simp_all add: EncodeClassicTemporal_def temporal_specification_def)
  have "\<exists>raw. encodeRaw exid raw = Inr b"
  proof (cases "s = []")
    case True
    then show ?thesis using assms sp by (auto simp: EncodeClassicTemporal_def temporal_specification_def)
  next
    case False
    then show ?thesis using encode_iff [OF sp False] assms by blast
  qed
  then obtain raw where raw: "encodeRaw exid raw = Inr b" "rawValue exid b = Inr raw" using raw_iff by blast
  moreover have "length b = ts_byteLength spec" using raw(2) sp by (auto simp: rawValue_def Let_def split: if_splits)
  ultimately show thesis using that sp by blast
qed

lemma temporal_reencode:
  assumes "EncodeClassicTemporal exid s = Inr b"
  shows "\<exists>t. DecodeClassicTemporal exid b = Inr t \<and> EncodeClassicTemporal exid t = Inr b"
proof -
  obtain spec raw where r: "temporalSpecs exid = Some spec" "encodeRaw exid raw = Inr b" "rawValue exid b = Inr raw"
    using temporal_encoded [OF assms] by blast
  obtain t where t: "DecodeClassicTemporal exid b = Inr t"
    unfolding decode_raw [OF r(1)] r(3) using temporal_text_total [OF r(1), of "nat (raw - 1)"] by (cases "raw = 0") auto
  show ?thesis
  proof (cases "t = []")
    case True
    then have "raw = 0" using t temporal_text_nonempty unfolding decode_raw [OF r(1)] r(3) by (auto split: if_splits)
    then have "EncodeClassicTemporal exid [] = Inr b" using r(1,2) by (simp add: EncodeClassicTemporal_def temporal_specification_def)
    then show ?thesis using t True by simp
  next
    case False
    then show ?thesis using t encode_iff [OF r(1) False] decode_iff [OF r(1)] by blast
  qed
qed

text \<open>Packed decimals.\<close>

lemma packed_encoded:
  assumes "EncodePackedDecimal t n d = Inr b"
  obtains x neg where "1 \<le> n" "n \<le> 16" "0 \<le> d" "d \<le> 14" "d < 2 * n" "length b = nat n" "x < 10 ^ (2 * nat n - 1)" "neg \<longrightarrow> x \<noteq> 0"
    "upper_hex b = fixed_digits (2 * nat n - 1) x @ gostr (if neg then ''D'' else ''C'')"
proof -
  define s where "s = (if t = [] then gostr ''0'' else t)"
  from assms obtain sc where g: "1 \<le> n" "n \<le> 16" "0 \<le> d" "d \<le> 14" "d < 2 * n" and l: "length s \<le> 4096"
    and sc: "scaledDigits s d (nat (2 * n - 1)) = Inr sc"
    and b: "pack_nibbles (padStartZeros (sc_digits sc) (nat (2 * n - 1)) @ gostr (if sc_negative sc then ''D'' else ''C'')) = Inr b"
    unfolding EncodePackedDecimal_def Let_def s_def [symmetric]
    by (auto simp: bindE_Inr_iff geometry_ok maxPackedDecimalTextLength_def)
  obtain m1 m2 m3 m4 m5 where m: "match_decimal s = Some (m1, m2, m3, m4, m5)"
    using sc by (cases "match_decimal s") (auto simp: scaledDigits_def)
  have w: "nat (2 * n - 1) = 2 * nat n - 1" "0 < nat (2 * n - 1)" "1 \<le> nat n" using g(1) by auto
  note v = scaled_value [OF sc m l g(3,4) w(2)]
  have neg: "sc_negative sc \<Longrightarrow> contains_nonzero (sc_digits sc)"
    using sc unfolding scaledDigits_def m by (auto simp: Let_def bindE_Inr_iff split: option.splits if_splits)
  define x where "x = digits_value (sc_digits sc)"
  have pad: "padStartZeros (sc_digits sc) (nat (2 * n - 1)) = fixed_digits (2 * nat n - 1) x"
    unfolding x_def using pad_fixed [OF v(1,2)] by (simp only: w(1))
  have small: "x < 10 ^ (2 * nat n - 1)"
    using digits_value_less [OF v(1)] power_increasing [OF v(2), of "10 :: nat"] unfolding x_def w(1) by linarith
  obtain b' where "pack_nibbles (fixed_digits (2 * nat n - 1) x @ gostr (if sc_negative sc then ''D'' else ''C'')) = Inr b'"
    and h: "upper_hex b' = fixed_digits (2 * nat n - 1) x @ gostr (if sc_negative sc then ''D'' else ''C'')" "length b' = nat n"
    using pack_fixed [OF w(3)] by metis
  then have "b' = b" using b unfolding pad by simp
  then show thesis using that [OF g(1-5), of x "sc_negative sc"] h small neg nonzero_value [OF v(1)] by (simp add: x_def)
qed

lemma packed_reencode:
  assumes "EncodePackedDecimal s n d = Inr b"
  shows "\<exists>t. DecodePackedDecimal b d = Inr t \<and> EncodePackedDecimal t n d = Inr b"
proof -
  obtain x neg where g: "1 \<le> n" "n \<le> 16" "0 \<le> d" "d \<le> 14" "d < 2 * n" "length b = nat n" and x: "x < 10 ^ (2 * nat n - 1)" "neg \<longrightarrow> x \<noteq> 0"
    and h: "upper_hex b = fixed_digits (2 * nat n - 1) x @ gostr (if neg then ''D'' else ''C'')"
    using packed_encoded [OF assms] by blast
  have n: "int (length b) = n" "nat (2 * n - 1) = 2 * nat n - 1" "0 < 2 * nat n - 1" using g(1,6) by auto
  have geo: "packedGeometry (int (length b)) d = Inr (2 * nat n - 1)" unfolding n(1) using g n(2) by (auto simp: geometry_ok)
  have dg: "fixed_digits (2 * nat n - 1) x \<noteq> []" using n(3) length_fixed_digits [of "2 * nat n - 1" x] by (metis list.size(3) less_numeral_extra(3))
  obtain t where t: "DecodePackedDecimal b d = Inr t"
  proof -
    have tk: "take (2 * nat n - 1) (fixed_digits (2 * nat n - 1) x @ r) = fixed_digits (2 * nat n - 1) x" for r by simp
    have sg: "last (fixed_digits (2 * nat n - 1) x @ gostr (if neg then ''D'' else ''C'')) \<in> set (gostr ''ACEF'') \<union> set (gostr ''BD'')"
      by (simp add: gostr_def)
    have "\<exists>t. DecodePackedDecimal b d = Inr t"
      unfolding DecodePackedDecimal_def geo h bindE.simps Let_def tk bindE_fail_if
      using dg fixed_digits_chars [of "2 * nat n - 1" x] sg by (simp only: Un_iff) auto
    then show thesis using that by blast
  qed
  have v: "packed_value b < 0 \<longleftrightarrow> neg"
    using fixed_digits_value [OF x(1)] x(2) g(6) unfolding packed_value_def Let_def h by (auto simp: gostr_def)
  obtain b' where b': "EncodePackedDecimal t n d = Inr b'" "upper_hex b' = butlast (upper_hex b) @ gostr (if neg then ''D'' else ''C'')"
    using packed_decode_encode [OF t] unfolding n(1) v by blast
  have "upper_hex b' = upper_hex b" using b'(2) unfolding h by (simp add: gostr_def butlast_append)
  then have "b' = b" using pack_upper_hex by (metis Inr_inject)
  then show ?thesis using t b'(1) by blast
qed

text \<open>Texts.\<close>

lemma trimRight_split: "\<exists>n. s = trimRight s @ replicate n 0x20"
proof -
  have "rev s = takeWhile (\<lambda>b. b = 0x20) (rev s) @ dropWhile (\<lambda>b. b = 0x20) (rev s)" by simp
  then have "s = rev (dropWhile (\<lambda>b. b = 0x20) (rev s)) @ rev (takeWhile (\<lambda>b. b = 0x20) (rev s))" by (metis rev_append rev_rev_ident)
  moreover have "rev (takeWhile (\<lambda>b. b = 0x20) (rev s)) = replicate (length (takeWhile (\<lambda>b. b = 0x20) (rev s))) 0x20"
    by (metis (mono_tags, lifting) length_rev replicate_length_same set_rev set_takeWhileD)
  ultimately show ?thesis unfolding trimRight_def by metis
qed

lemma last_rune_byte:
  assumes "scalar r" "\<not> r < 0x80"
  shows "last (map of_nat (rune_bytes r)) \<noteq> (0x20 :: byte)"
proof -
  have l: "last (rune_bytes r) = 0x80 + r mod 64" "rune_bytes r \<noteq> []" using assms(2) by (auto simp: rune_bytes_def)
  have "0x80 + r mod 64 < 256" by simp
  then have "unat (of_nat (0x80 + r mod 64) :: byte) = 0x80 + r mod 64" by (simp add: unat_of_nat del: of_nat_add)
  then have "of_nat (0x80 + r mod 64) \<noteq> (0x20 :: byte)"
  proof (rule contrapos_pn)
    assume "of_nat (0x80 + r mod 64) = (0x20 :: byte)"
    then show "unat (of_nat (0x80 + r mod 64) :: byte) \<noteq> 0x80 + r mod 64" by (simp only:) simp
  qed
  then show ?thesis using l by (simp add: last_map)
qed

lemma valid_without_space:
  assumes "ValidString (a @ [0x20])"
  shows "ValidString a"
proof -
  obtain rs where rs: "runes_of (a @ [0x20]) = Some rs" using assms by (auto simp: ValidString_def)
  have s: "string_of_runes rs = a @ [0x20]" "list_all scalar rs" using string_of_runes_of [OF rs] by simp_all
  obtain rs' r where r: "rs = rs' @ [r]" using s(1) by (cases rs rule: rev_cases) (auto simp: string_of_runes_def)
  have e: "string_of_runes rs' @ map of_nat (rune_bytes r) = a @ [0x20]" using s(1) by (simp add: r string_of_runes_def)
  have ne: "rune_bytes r \<noteq> []" by (simp add: rune_bytes_def)
  have "last (map of_nat (rune_bytes r)) = (0x20 :: byte)" using arg_cong [OF e, of last] ne by simp
  then have "r < 0x80" using last_rune_byte [of r] s(2) r by auto
  then have "string_of_runes rs' = a" using e by (simp add: rune_bytes_def)
  then show ?thesis using runes_of_string [of rs'] s(2) by (simp add: r ValidString_def)
qed

lemma valid_without_spaces: "ValidString (a @ replicate n 0x20) \<Longrightarrow> ValidString a"
proof (induction n)
  case (Suc n)
  have "ValidString ((a @ replicate n 0x20) @ [0x20])" using Suc.prems by (simp add: replicate_append_same)
  then show ?case using Suc.IH valid_without_space by blast
qed simp

lemma char_reencode:
  assumes "EncodeAbapChar s n = Inr b"
  shows "EncodeAbapChar (trimRight s) n = Inr b"
proof -
  obtain k where k: "s = trimRight s @ replicate k 0x20" using trimRight_split by blast
  have e: "0 \<le> n" "n \<le> 0x7fff" "ValidString s" "int (codeUnitLen s) \<le> n" and b: "b = utf16leEncode (s @ replicate (nat n - codeUnitLen s) 0x20)"
    using assms unfolding encode_char_exact by auto
  have v: "ValidString (trimRight s)" using e(3) valid_without_spaces k by metis
  then obtain rs where rs: "runes_of (trimRight s) = Some rs" by (auto simp: ValidString_def)
  have c: "codeUnitLen s = codeUnitLen (trimRight s) + k" using codeUnitLen_spaces [OF rs, of k] k by simp
  have "trimRight s @ replicate (nat n - codeUnitLen (trimRight s)) 0x20 = s @ replicate (nat n - codeUnitLen s) 0x20"
  proof -
    have "nat n - codeUnitLen (trimRight s) = k + (nat n - codeUnitLen s)" using c e(1,4) by simp
    then show ?thesis by (subst (2) k) (simp add: replicate_add)
  qed
  then show ?thesis unfolding encode_char_exact b using e v c by simp
qed

text \<open>Dates and times.\<close>

lemma classicPattern_ascii: "classicPattern w s \<Longrightarrow> ascii s \<and> length s = w"
  by (auto simp: classicPattern_def ascii_def list_all_iff digit_char_def word_le_nat_alt word_less_nat_alt)

lemma wire_text:
  assumes "classicPattern (nat n) s" "0 \<le> n" "n \<le> 0x7fff"
  shows "length (utf16leEncode s) = 2 * nat n" "DecodeAbapFixedChar (utf16leEncode s) n = Inr s"
proof -
  have s: "ascii s" "length s = nat n" using classicPattern_ascii [OF assms(1)] by simp_all
  show l: "length (utf16leEncode s) = 2 * nat n" using ascii_facts(1) [OF s(1)] s(2) by simp
  have "utf16leDecode (utf16leEncode s) = s" using utf16le_roundtrip ascii_runes [OF s(1)] by blast
  then show "DecodeAbapFixedChar (utf16leEncode s) n = Inr s" using decode_char_exact(2) [OF assms(2,3), of "utf16leEncode s"] l assms(2) by simp
qed

lemma blank_texts: "gostr ''        '' = replicate 8 0x20" "gostr ''      '' = replicate 6 0x20"
  by (simp_all add: gostr_def numeral_eq_Suc)

lemma date_reencode:
  assumes "ClassicDateWireText s = Inr wire"
  shows "classicPattern 8 wire" "\<exists>t. ClassicDatePublicText wire = Inr t \<and> ClassicDateWireText t = Inr wire"
proof -
  show "classicPattern 8 wire" using assms by (auto simp: ClassicDateWireText_def AssertClassicDate_def bindE_Inr_iff classicPattern_def blank_texts split: if_splits)
  then show "\<exists>t. ClassicDatePublicText wire = Inr t \<and> ClassicDateWireText t = Inr wire"
    by (cases "wire = gostr ''        ''") (auto simp: ClassicDatePublicText_def ClassicDateWireText_def AssertClassicDate_def fail_if_def classicPattern_def)
qed

lemma time_reencode:
  assumes "ClassicTimeWireText s = Inr wire"
  shows "classicPattern 6 wire" "\<exists>t. ClassicTimePublicText wire = Inr t \<and> ClassicTimeWireText t = Inr wire"
proof -
  show "classicPattern 6 wire" using assms by (auto simp: ClassicTimeWireText_def AssertClassicTime_def bindE_Inr_iff classicPattern_def blank_texts split: if_splits)
  then show "\<exists>t. ClassicTimePublicText wire = Inr t \<and> ClassicTimeWireText t = Inr wire"
    by (cases "wire = gostr ''      ''") (auto simp: ClassicTimePublicText_def ClassicTimeWireText_def AssertClassicTime_def fail_if_def classicPattern_def)
qed

text \<open>Decimal floating-point numbers.\<close>

lemma float_reencode:
  assumes "fmt = decf16 \<or> fmt = decf34" "encodeDecimalFloat v fmt = Inr b"
  shows "length b = df_byteLength fmt" "\<exists>t. decodeDecimalFloat b fmt = Inr t \<and> encodeDecimalFloat t fmt = Inr b"
proof -
  note k = known_formats [OF assms(1)]
  consider (special) sp where "parseSpecial v fmt = Inr (Some sp)" "b = encodeSpecial sp fmt"
    | (finite) f where "parseFinite v fmt = Inr f" "b = encode_finite f fmt"
    using assms(2) by (auto simp: encodeDecimalFloat_def bindE_Inr_iff split: if_splits option.splits)
  then have "\<exists>t. decodeDecimalFloat b fmt = Inr t \<and> encodeDecimalFloat t fmt = Inr b"
  proof cases
    case special
    then show ?thesis using special_roundtrip [OF assms(1) parseSpecial_ok [OF special(1)]] by blast
  next
    case finite
    then show ?thesis using finite_roundtrip [OF assms(1) parseFinite_ok(1) [OF finite(1) k(2,4)]] by blast
  qed
  then show "\<exists>t. decodeDecimalFloat b fmt = Inr t \<and> encodeDecimalFloat t fmt = Inr b" .
  then show "length b = df_byteLength fmt" by (auto simp: decodeDecimalFloat_def split: if_splits)
qed

section \<open>One field\<close>

lemma sint_of_int_range:
  assumes "- (2 ^ (LENGTH('a::len) - 1)) \<le> n" "n < 2 ^ (LENGTH('a) - 1)"
  shows "sint (word_of_int n :: 'a word) = n"
  using assms by (simp add: signed_of_int signed_take_bit_int_eq_self)

lemma even_sint: "even (w :: u32) \<longleftrightarrow> even (sint w)"
  using bit_sint_iff [of w 0] by (simp add: bit_0)

definition field_ok :: "structure_field \<Rightarrow> bool" where
  "field_ok field \<longleftrightarrow> assertFieldCodec field = Inr () \<and> sf_Exid field \<noteq> ''g'' \<and> sf_Exid field \<noteq> ''y'' \<and> 0 \<le> sint (sf_InternalLength field)"

abbreviation flen :: "structure_field \<Rightarrow> nat" where
  "flen field \<equiv> nat (sint (sf_InternalLength field))"

lemma character_length:
  assumes "characterLength field = Inr chars" "0 \<le> sint (sf_InternalLength field)"
  shows "sint (sf_InternalLength field) = 2 * chars" "0 \<le> chars" "flen field = 2 * nat chars"
proof -
  have "even (sint (sf_InternalLength field))" "chars = sint (sf_InternalLength field) div 2"
    using assms(1) even_sint [of "sf_InternalLength field"] by (auto simp: characterLength_def bindE_Inr_iff)
  then show "sint (sf_InternalLength field) = 2 * chars" "0 \<le> chars" "flen field = 2 * nat chars" using assms(2) by auto
qed

lemma field_ok_temporal:
  assumes "field_ok field" "IsClassicTemporalExid (sf_Exid field)" "temporalSpecs (sf_Exid field) = Some spec"
  shows "flen field = ts_byteLength spec"
  using assms by (auto simp: field_ok_def assertFieldCodec_def ClassicTemporalByteLength_def temporal_specification_def fail_if_def bindE_Inr_iff split: if_splits)

lemma not_temporal [simp]:
  "\<not> IsClassicTemporalExid ''C''" "\<not> IsClassicTemporalExid ''N''" "\<not> IsClassicTemporalExid ''D''" "\<not> IsClassicTemporalExid ''T''"
  "\<not> IsClassicTemporalExid ''X''" "\<not> IsClassicTemporalExid ''F''" "\<not> IsClassicTemporalExid ''I''" "\<not> IsClassicTemporalExid ''s''"
  "\<not> IsClassicTemporalExid ''b''" "\<not> IsClassicTemporalExid ''8''" "\<not> IsClassicTemporalExid ''P''" "\<not> IsClassicTemporalExid ''a''"
  "\<not> IsClassicTemporalExid ''e''"
  by (simp_all add: IsClassicTemporalExid_def temporalSpecs_def)

lemma field_cases:
  assumes "field_ok field"
  obtains (temporal) "IsClassicTemporalExid (sf_Exid field)"
  | (C) "sf_Exid field = ''C''" | (N) "sf_Exid field = ''N''" | (D) "sf_Exid field = ''D''" | (T) "sf_Exid field = ''T''"
  | (X) "sf_Exid field = ''X''" | (F) "sf_Exid field = ''F''" | (I) "sf_Exid field = ''I''" | (s) "sf_Exid field = ''s''"
  | (b) "sf_Exid field = ''b''" | (i8) "sf_Exid field = ''8''" | (P) "sf_Exid field = ''P''" | (a) "sf_Exid field = ''a''" | (e) "sf_Exid field = ''e''"
proof -
  have "IsClassicTemporalExid (sf_Exid field) \<or> sf_Exid field \<in> {''C'', ''N'', ''D'', ''T'', ''X'', ''F'', ''I'', ''s'', ''b'', ''8'', ''P'', ''a'', ''e''}"
    using assms unfolding field_ok_def assertFieldCodec_def Let_def by (auto split: if_splits)
  then show thesis using that by blast
qed

lemma field_lengths:
  assumes "field_ok field"
  shows "sf_Exid field = ''D'' \<Longrightarrow> sint (sf_InternalLength field) = 16" "sf_Exid field = ''T'' \<Longrightarrow> sint (sf_InternalLength field) = 12"
    "sf_Exid field = ''F'' \<Longrightarrow> sint (sf_InternalLength field) = 8" "sf_Exid field = ''I'' \<Longrightarrow> sint (sf_InternalLength field) = 4"
    "sf_Exid field = ''s'' \<Longrightarrow> sint (sf_InternalLength field) = 2" "sf_Exid field = ''b'' \<Longrightarrow> sint (sf_InternalLength field) = 1"
    "sf_Exid field = ''8'' \<Longrightarrow> sint (sf_InternalLength field) = 8" "sf_Exid field = ''a'' \<Longrightarrow> sint (sf_InternalLength field) = 8"
    "sf_Exid field = ''e'' \<Longrightarrow> sint (sf_InternalLength field) = 16"
  using assms by (auto simp: field_ok_def assertFieldCodec_def exactLen_def fail_if_def split: if_splits)

lemma numeric_padded:
  assumes "list_all digit_char s" "EncodeAbapChar s chars = Inr b" "int (length s) = chars"
  shows "DecodeAbapChar b (Some chars) = Inr s"
proof -
  have "s = [] \<or> last s \<noteq> 0x20" using assms(1) by (cases s rule: rev_cases) (auto simp: digit_char_def)
  then have "trimRight s = s" by (cases s rule: rev_cases) (auto simp: trimRight_def)
  then show ?thesis using char_roundtrip(3) [OF assms(2)] by simp
qed

text \<open>The bytes of a field have its length, and the value read from them is written to the same bytes.\<close>

definition rereads :: "structure_field \<Rightarrow> bytes \<Rightarrow> bool" where
  "rereads field seg \<longleftrightarrow> length seg = flen field \<and> (\<exists>v'. read_segment field seg = Inr v' \<and> encode_segment field v' = Inr seg)"

lemma temporal_segment:
  assumes "field_ok field" "encode_segment field v = Inr seg" "IsClassicTemporalExid (sf_Exid field)"
  shows "rereads field seg"
proof -
  obtain s where s: "v = AnyString s" "EncodeClassicTemporal (sf_Exid field) s = Inr seg"
    using assms(2,3) by (auto simp: encode_segment_def Let_def bindE_Inr_iff as_text_Inr)
  obtain spec where "temporalSpecs (sf_Exid field) = Some spec" "length seg = ts_byteLength spec" using temporal_encoded [OF s(2)] by metis
  moreover obtain t where "DecodeClassicTemporal (sf_Exid field) seg = Inr t" "EncodeClassicTemporal (sf_Exid field) t = Inr seg"
    using temporal_reencode [OF s(2)] by blast
  ultimately show ?thesis unfolding rereads_def
    using field_ok_temporal [OF assms(1,3)] assms(3)
    by (auto simp: encode_segment_def read_segment_def Let_def temporal_result_def as_text_def)
qed

lemma char_segment:
  assumes "field_ok field" "encode_segment field v = Inr seg" "sf_Exid field = ''C''"
  shows "rereads field seg"
proof -
  obtain s chars where s: "v = AnyString s" "characterLength field = Inr chars" "EncodeAbapChar s chars = Inr seg"
    using assms(2) by (auto simp: encode_segment_def Let_def bindE_Inr_iff as_text_Inr assms(3))
  note l = character_length [OF s(2)]
  have "length seg = flen field" using char_roundtrip(1) [OF s(3)] l assms(1) by (simp add: field_ok_def)
  moreover have "read_segment field seg = Inr (AnyString (trimRight s))"
    using char_roundtrip(3) [OF s(3)] s(2) by (simp add: read_segment_def assms(3) Let_def text_result_def)
  moreover have "encode_segment field (AnyString (trimRight s)) = Inr seg"
    using char_reencode [OF s(3)] s(2) by (simp add: encode_segment_def assms(3) Let_def as_text_def text_result_def)
  ultimately show ?thesis unfolding rereads_def by blast
qed

lemma numeric_segment:
  assumes "field_ok field" "encode_segment field v = Inr seg" "sf_Exid field = ''N''"
  shows "rereads field seg"
proof -
  obtain s chars where s: "v = AnyString s" "characterLength field = Inr chars" "list_all digit_char s" "int (length s) \<le> chars"
      "EncodeAbapChar (replicate (nat (chars - int (length s))) 0x30 @ s) chars = Inr seg"
    using assms(2) by (auto simp: encode_segment_def Let_def bindE_Inr_iff as_text_Inr assms(3))
  note l = character_length [OF s(2)]
  let ?t = "replicate (nat (chars - int (length s))) 0x30 @ s"
  have t: "list_all digit_char ?t" "int (length ?t) = chars" using s(3,4) by (auto simp: list_all_iff digit_char_def)
  have "length seg = flen field" using char_roundtrip(1) [OF s(5)] l assms(1) by (simp add: field_ok_def)
  moreover have "read_segment field seg = Inr (AnyString ?t)"
    using numeric_padded [OF t(1) s(5) t(2)] s(2) by (simp add: read_segment_def assms(3) Let_def text_result_def)
  moreover have "encode_segment field (AnyString ?t) = Inr seg"
    using s(2,5) t by (simp add: encode_segment_def assms(3) Let_def as_text_def text_result_def fail_if_def)
  ultimately show ?thesis unfolding rereads_def by blast
qed

lemma date_segment:
  assumes "field_ok field" "encode_segment field v = Inr seg" "sf_Exid field = ''D''"
  shows "rereads field seg"
proof -
  obtain s wire where s: "v = AnyString s" "ClassicDateWireText s = Inr wire" "seg = utf16leEncode wire"
    using assms(2) by (auto simp: encode_segment_def Let_def bindE_Inr_iff as_text_Inr assms(3))
  note p = date_reencode [OF s(2)]
  have w: "length seg = 16" "DecodeAbapFixedChar seg 8 = Inr wire" using wire_text [of 8 wire] p(1) by (simp_all add: s(3))
  obtain t where t: "ClassicDatePublicText wire = Inr t" "ClassicDateWireText t = Inr wire" using p(2) by blast
  have "read_segment field seg = Inr (AnyString t)" using w(2) t(1) by (simp add: read_segment_def assms(3) Let_def text_result_def temporal_result_def)
  moreover have "encode_segment field (AnyString t) = Inr seg" using t(2) s(3) by (simp add: encode_segment_def assms(3) Let_def as_text_def temporal_result_def)
  ultimately show ?thesis unfolding rereads_def using w(1) field_lengths(1) [OF assms(1,3)] by simp
qed

lemma time_segment:
  assumes "field_ok field" "encode_segment field v = Inr seg" "sf_Exid field = ''T''"
  shows "rereads field seg"
proof -
  obtain s wire where s: "v = AnyString s" "ClassicTimeWireText s = Inr wire" "seg = utf16leEncode wire"
    using assms(2) by (auto simp: encode_segment_def Let_def bindE_Inr_iff as_text_Inr assms(3))
  note p = time_reencode [OF s(2)]
  have w: "length seg = 12" "DecodeAbapFixedChar seg 6 = Inr wire" using wire_text [of 6 wire] p(1) by (simp_all add: s(3))
  obtain t where t: "ClassicTimePublicText wire = Inr t" "ClassicTimeWireText t = Inr wire" using p(2) by blast
  have "read_segment field seg = Inr (AnyString t)" using w(2) t(1) by (simp add: read_segment_def assms(3) Let_def text_result_def temporal_result_def)
  moreover have "encode_segment field (AnyString t) = Inr seg" using t(2) s(3) by (simp add: encode_segment_def assms(3) Let_def as_text_def temporal_result_def)
  ultimately show ?thesis unfolding rereads_def using w(1) field_lengths(2) [OF assms(1,3)] by simp
qed

lemma raw_segment:
  assumes "field_ok field" "encode_segment field v = Inr seg" "sf_Exid field = ''X''"
  shows "rereads field seg"
  unfolding rereads_def using assms by (auto simp: encode_segment_def read_segment_def Let_def field_ok_def split: any_value.splits if_splits)

lemma float_segment:
  assumes "field_ok field" "encode_segment field v = Inr seg" "sf_Exid field = ''F''"
  shows "rereads field seg"
  unfolding rereads_def using assms(2,3) field_lengths(3) [OF assms(1,3)] by (auto simp: encode_segment_def read_segment_def Let_def split: any_value.splits if_splits)

lemma int4_segment:
  assumes "field_ok field" "encode_segment field v = Inr seg" "sf_Exid field = ''I''"
  shows "rereads field seg"
proof -
  obtain n where n: "- (2 ^ 31) \<le> n" "n \<le> 2 ^ 31 - 1" "seg = put32le (of_int n)"
    using assms(2) by (auto simp: encode_segment_def Let_def bindE_Inr_iff requireInt_Inr assms(3))
  have "sint (word_of_int n :: u32) = n" by (rule sint_of_int_range) (use n in simp_all)
  then show ?thesis unfolding rereads_def using n field_lengths(4) [OF assms(1,3)] by (simp add: encode_segment_def read_segment_def assms(3) Let_def requireInt_def)
qed

lemma int2_segment:
  assumes "field_ok field" "encode_segment field v = Inr seg" "sf_Exid field = ''s''"
  shows "rereads field seg"
proof -
  obtain n where n: "- (2 ^ 15) \<le> n" "n \<le> 2 ^ 15 - 1" "seg = put16le (of_int n)"
    using assms(2) by (auto simp: encode_segment_def Let_def bindE_Inr_iff requireInt_Inr assms(3))
  have "sint (word_of_int n :: u16) = n" by (rule sint_of_int_range) (use n in simp_all)
  then show ?thesis unfolding rereads_def using n field_lengths(5) [OF assms(1,3)] by (simp add: encode_segment_def read_segment_def assms(3) Let_def requireInt_def)
qed

lemma int1_segment:
  assumes "field_ok field" "encode_segment field v = Inr seg" "sf_Exid field = ''b''"
  shows "rereads field seg"
proof -
  obtain n where n: "0 \<le> n" "n \<le> 0xff" "seg = [of_int n]"
    using assms(2) by (auto simp: encode_segment_def Let_def bindE_Inr_iff requireInt_Inr assms(3))
  have "uint (word_of_int n :: byte) = n" using n by (simp add: unsigned_of_int take_bit_int_eq_self)
  then show ?thesis unfolding rereads_def using n field_lengths(6) [OF assms(1,3)] by (simp add: encode_segment_def read_segment_def assms(3) Let_def requireInt_def)
qed

lemma int8_segment:
  assumes "field_ok field" "encode_segment field v = Inr seg" "sf_Exid field = ''8''"
  shows "rereads field seg"
proof -
  obtain n where n: "- (2 ^ 63) \<le> n" "n \<le> 2 ^ 63 - 1" "seg = put64le (of_int n)"
    using assms(2) by (auto simp: encode_segment_def Let_def bindE_Inr_iff requireInt_Inr assms(3))
  have "sint (word_of_int n :: 64 word) = n" by (rule sint_of_int_range) (use n in simp_all)
  then show ?thesis unfolding rereads_def using n field_lengths(7) [OF assms(1,3)] by (simp add: encode_segment_def read_segment_def assms(3) Let_def requireInt_def)
qed

lemma packed_segment:
  assumes "field_ok field" "encode_segment field v = Inr seg" "sf_Exid field = ''P''"
  shows "rereads field seg"
proof -
  obtain s where s: "v = AnyString s" "EncodePackedDecimal s (sint (sf_InternalLength field)) (sint (sf_Decimals field)) = Inr seg"
    using assms(2) by (auto simp: encode_segment_def Let_def bindE_Inr_iff as_text_Inr assms(3))
  have "length seg = flen field" using packed_encoded [OF s(2)] by metis
  moreover obtain t where "DecodePackedDecimal seg (sint (sf_Decimals field)) = Inr t" "EncodePackedDecimal t (sint (sf_InternalLength field)) (sint (sf_Decimals field)) = Inr seg"
    using packed_reencode [OF s(2)] by blast
  ultimately show ?thesis unfolding rereads_def by (auto simp: encode_segment_def read_segment_def assms(3) Let_def as_text_def packed_result_def)
qed

lemma decf16_segment:
  assumes "field_ok field" "encode_segment field v = Inr seg" "sf_Exid field = ''a''"
  shows "rereads field seg"
proof -
  obtain s where s: "v = AnyString s" "encodeDecimalFloat s decf16 = Inr seg"
    using assms(2) by (auto simp: encode_segment_def Let_def bindE_Inr_iff as_text_Inr assms(3) EncodeDecimalFloat16_def)
  obtain t where "decodeDecimalFloat seg decf16 = Inr t" "encodeDecimalFloat t decf16 = Inr seg" using float_reencode(2) [OF _ s(2)] by blast
  moreover have "length seg = 8" using float_reencode(1) [OF _ s(2)] by (simp add: decf16_def)
  ultimately show ?thesis unfolding rereads_def
    using field_lengths(8) [OF assms(1,3)]
    by (auto simp: encode_segment_def read_segment_def assms(3) Let_def as_text_def float_result_def EncodeDecimalFloat16_def DecodeDecimalFloat16_def)
qed

lemma decf34_segment:
  assumes "field_ok field" "encode_segment field v = Inr seg" "sf_Exid field = ''e''"
  shows "rereads field seg"
proof -
  obtain s where s: "v = AnyString s" "encodeDecimalFloat s decf34 = Inr seg"
    using assms(2) by (auto simp: encode_segment_def Let_def bindE_Inr_iff as_text_Inr assms(3) EncodeDecimalFloat34_def)
  obtain t where "decodeDecimalFloat seg decf34 = Inr t" "encodeDecimalFloat t decf34 = Inr seg" using float_reencode(2) [OF _ s(2)] by blast
  moreover have "length seg = 16" using float_reencode(1) [OF _ s(2)] by (simp add: decf34_def)
  ultimately show ?thesis unfolding rereads_def
    using field_lengths(9) [OF assms(1,3)]
    by (auto simp: encode_segment_def read_segment_def assms(3) Let_def as_text_def float_result_def EncodeDecimalFloat34_def DecodeDecimalFloat34_def)
qed

lemma segment_rereads:
  assumes "field_ok field" "encode_segment field v = Inr seg"
  shows "rereads field seg"
  using assms(1)
proof (cases rule: field_cases)
  case temporal
  then show ?thesis by (rule temporal_segment [OF assms])
next
  case C
  then show ?thesis by (rule char_segment [OF assms])
next
  case N
  then show ?thesis by (rule numeric_segment [OF assms])
next
  case D
  then show ?thesis by (rule date_segment [OF assms])
next
  case T
  then show ?thesis by (rule time_segment [OF assms])
next
  case X
  then show ?thesis by (rule raw_segment [OF assms])
next
  case F
  then show ?thesis by (rule float_segment [OF assms])
next
  case I
  then show ?thesis by (rule int4_segment [OF assms])
next
  case s
  then show ?thesis by (rule int2_segment [OF assms])
next
  case b
  then show ?thesis by (rule int1_segment [OF assms])
next
  case i8
  then show ?thesis by (rule int8_segment [OF assms])
next
  case P
  then show ?thesis by (rule packed_segment [OF assms])
next
  case a
  then show ?thesis by (rule decf16_segment [OF assms])
next
  case e
  then show ?thesis by (rule decf34_segment [OF assms])
qed

end
