(* ===== verification/Structure_Codec.thy ===== *)
theory Structure_Codec
  imports Structure_Field
begin

text \<open>
  Whole structures: the layout that encoding writes and decoding reads, the round trip, the types of decoded values, and the definitions
  whose 32-bit offsets wrap around.
\<close>

section \<open>Writing\<close>

abbreviation foff :: "structure_field \<Rightarrow> nat" where
  "foff field \<equiv> nat (sint (sf_Offset field))"

lemma copy_fit:
  assumes "0 \<le> off" "length pre = nat off" "length src \<le> k"
  shows "copy_into (pre @ replicate k 0) off src = Inr (pre @ src @ replicate (k - length src) 0)"
    "put_into (pre @ replicate k 0) off src = Inr (pre @ src @ replicate (k - length src) 0)"
  using assms copy_at_fit [of src k pre 0] by (simp_all add: copy_into_def put_into_def)

lemma write_via:
  assumes "field_ok field" "sf_Exid field \<noteq> ''X''"
  shows "writeValue target field v = bindE (encode_segment field v) (\<lambda>seg. if sf_Exid field \<in> {''F'', ''I'', ''s'', ''b'', ''8''}
    then put_into target (sint (sf_Offset field)) seg else copy_into target (sint (sf_Offset field)) seg)"
  using assms(1)
proof (cases rule: field_cases)
  case temporal
  then have "sf_Exid field \<notin> {''F'', ''I'', ''s'', ''b'', ''8''}" by auto
  then show ?thesis using temporal by (simp add: writeValue_def encode_segment_def Let_def bindE_assoc)
next
  case F
  then show ?thesis by (cases v) (simp_all add: writeValue_def encode_segment_def Let_def)
qed (use assms(2) in \<open>simp_all add: writeValue_def encode_segment_def Let_def bindE_assoc\<close>)

lemma write_segment:
  assumes "field_ok field" "0 \<le> sint (sf_Offset field)" "length pre = foff field" "flen field \<le> k"
  shows "writeValue (pre @ replicate k 0) field v = bindE (encode_segment field v) (\<lambda>seg. Inr (pre @ seg @ replicate (k - flen field) 0))"
proof (cases "sf_Exid field = ''X''")
  case True
  show ?thesis
  proof (cases v)
    case (AnyBytes b)
    show ?thesis
    proof (cases "int (length b) > sint (sf_InternalLength field)")
      case False
      then have l: "length b \<le> flen field" by simp
      then have "copy_into (pre @ replicate k 0) (sint (sf_Offset field)) b = Inr (pre @ b @ replicate (k - length b) 0)"
        using assms by (intro copy_fit(1)) simp_all
      moreover have "replicate (k - length b) (0 :: byte) = replicate (flen field - length b) 0 @ replicate (k - flen field) 0"
        using l assms(4) by (simp add: replicate_add [symmetric])
      ultimately show ?thesis using False by (simp add: writeValue_def encode_segment_def True AnyBytes Let_def)
    qed (simp add: writeValue_def encode_segment_def True AnyBytes Let_def)
  qed (simp_all add: writeValue_def encode_segment_def True Let_def)
next
  case False
  show ?thesis
  proof (cases "encode_segment field v")
    case (Inr seg)
    then have "length seg = flen field" using segment_rereads [OF assms(1) Inr] by (simp add: rereads_def)
    then show ?thesis using copy_fit [OF assms(2,3), of seg k] assms(4) by (simp add: write_via [OF assms(1) False] Inr)
  qed (simp add: write_via [OF assms(1) False])
qed

definition gap_bytes :: "structure_field \<Rightarrow> nat \<Rightarrow> bytes" where
  "gap_bytes field n =
     (if sf_Exid field = ''C'' \<or> sf_Exid field = ''N''
      then utf16leEncode (replicate (n div 2) (if sf_Exid field = ''N'' then 0x30 else 0x20)) else replicate n 0)"

definition gap_ok :: "structure_field \<Rightarrow> nat \<Rightarrow> bool" where
  "gap_ok field n \<longleftrightarrow> (sf_Exid field = ''C'' \<or> sf_Exid field = ''N'' \<longrightarrow> even n)"

lemma length_gap: "gap_ok field n \<Longrightarrow> length (gap_bytes field n) = n"
  using ascii_facts(1) [of "replicate (n div 2) 0x30"] ascii_facts(1) [of "replicate (n div 2) 0x20"]
  by (auto simp: gap_bytes_def gap_ok_def ascii_def)

lemma fill_gap_fit:
  assumes "0 \<le> sint (sf_Offset field + sf_InternalLength field)" "length pre = nat (sint (sf_Offset field + sf_InternalLength field))" "n \<le> k"
    and "nextOffset = int (length pre + n)"
  shows "fill_gap (pre @ replicate k 0) field nextOffset = (if gap_ok field n then Inr (pre @ gap_bytes field n @ replicate (k - n) 0) else Inl ErrStructure)"
proof (cases "sf_Exid field = ''C'' \<or> sf_Exid field = ''N''")
  case True
  have e: "nextOffset - sint (sf_Offset field + sf_InternalLength field) = int n" using assms(1,2,4) by simp
  show ?thesis
  proof (cases "even n")
    case even: True
    then have g: "gap_ok field n" by (simp add: gap_ok_def)
    have d: "nat (int n div 2) = n div 2" by simp
    show ?thesis
    proof (cases "n = 0")
      case zero: True
      then have "gap_bytes field n = []" using length_gap [OF g] by simp
      then show ?thesis using True e zero g by (simp add: fill_gap_def Let_def)
    next
      case False
      have "copy_into (pre @ replicate k 0) (sint (sf_Offset field + sf_InternalLength field)) (gap_bytes field n) = Inr (pre @ gap_bytes field n @ replicate (k - n) 0)"
        using copy_fit(1) [OF assms(1,2), of "gap_bytes field n" k] length_gap [OF g] assms(3) by simp
      then show ?thesis unfolding fill_gap_def if_P [OF True] Let_def e using even False g by (simp add: gap_bytes_def True d)
    qed
  next
    case False
    then show ?thesis using True unfolding fill_gap_def if_P [OF True] Let_def e by (simp add: gap_ok_def)
  qed
next
  case False
  have "replicate n (0 :: byte) @ replicate (k - n) 0 = replicate k 0" using assms(3) by (simp add: replicate_add [symmetric])
  then show ?thesis using False by (simp add: fill_gap_def gap_ok_def gap_bytes_def)
qed

section \<open>Layout\<close>

fun placed :: "nat \<Rightarrow> nat \<Rightarrow> structure_field list \<Rightarrow> bool" where
  "placed B p [] \<longleftrightarrow> p \<le> B"
| "placed B p (f # fs) \<longleftrightarrow> p \<le> foff f \<and> 0 \<le> sint (sf_Offset f) \<and> 0 \<le> sint (sf_InternalLength f) \<and>
     sint (sf_Offset f + sf_InternalLength f) = int (foff f + flen f) \<and> foff f + flen f \<le> B \<and> placed B (foff f + flen f) fs"

fun next_off :: "nat \<Rightarrow> structure_field list \<Rightarrow> nat" where
  "next_off B [] = B"
| "next_off B (f # fs) = foff f"

definition gap_len :: "nat \<Rightarrow> structure_field \<Rightarrow> structure_field list \<Rightarrow> nat" where
  "gap_len B f fs = next_off B fs - (foff f + flen f)"

fun layout :: "nat \<Rightarrow> structure_field list \<Rightarrow> bytes list \<Rightarrow> bytes" where
  "layout B (f # fs) (seg # segs) = seg @ gap_bytes f (gap_len B f fs) @ layout B fs segs"
| "layout B _ _ = []"

fun gaps_ok :: "nat \<Rightarrow> structure_field list \<Rightarrow> bool" where
  "gaps_ok B [] \<longleftrightarrow> True"
| "gaps_ok B (f # fs) \<longleftrightarrow> gap_ok f (gap_len B f fs) \<and> gaps_ok B fs"

lemma placed_next: "placed B p fs \<Longrightarrow> p \<le> next_off B fs \<and> next_off B fs \<le> B"
  by (cases fs) auto

definition value_of :: "(gostring \<times> any_value) list \<Rightarrow> structure_field \<Rightarrow> structure_error + any_value" where
  "value_of input field = (case map_of input (sf_FieldName field) of Some v \<Rightarrow> Inr v | None \<Rightarrow> initialValue field)"

definition segment_of :: "(gostring \<times> any_value) list \<Rightarrow> structure_field \<Rightarrow> structure_error + bytes" where
  "segment_of input field = bindE (value_of input field) (encode_segment field)"

lemma encode_layout:
  assumes "placed B p fs" "list_all field_ok fs" "length pre = next_off B fs" "int B = sint (st_ByteLength def)"
  shows "encode_fields def input (pre @ replicate (B - length pre) 0) fs = Inr b \<longleftrightarrow>
    (\<exists>segs. list_all2 (\<lambda>f seg. segment_of input f = Inr seg) fs segs \<and> gaps_ok B fs \<and> b = pre @ layout B fs segs)"
  using assms
proof (induction fs arbitrary: pre p)
  case Nil
  then show ?case by auto
next
  case (Cons f fs)
  define k where "k = B - length pre"
  have pl: "0 \<le> sint (sf_Offset f)" "sint (sf_Offset f + sf_InternalLength f) = int (foff f + flen f)" "foff f + flen f \<le> B" "placed B (foff f + flen f) fs"
    and ok: "field_ok f" "list_all field_ok fs" and lp: "length pre = foff f" using Cons.prems by auto
  note nx = placed_next [OF pl(4)]
  have g: "foff f + flen f + gap_len B f fs = next_off B fs" using nx by (simp add: gap_len_def)
  have n: "(case fs of [] \<Rightarrow> sint (st_ByteLength def) | g # _ \<Rightarrow> sint (sf_Offset g)) = int (next_off B fs)"
    using Cons.prems(4) pl(4) by (cases fs) auto
  have kf: "flen f \<le> k" using pl(3) lp by (simp add: k_def)
  have step: "encode_fields def input (pre @ replicate k 0) (f # fs) =
      bindE (segment_of input f) (\<lambda>seg. if gap_ok f (gap_len B f fs) then encode_fields def input ((pre @ seg @ gap_bytes f (gap_len B f fs)) @ replicate (B - next_off B fs) 0) fs else Inl ErrStructure)"
  proof (cases "segment_of input f")
    case (Inl e)
    then show ?thesis
      using write_segment [OF ok(1) pl(1) lp kf] by (cases "value_of input f") (simp_all add: segment_of_def value_of_def)
  next
    case (Inr seg)
    then obtain v where v: "value_of input f = Inr v" "encode_segment f v = Inr seg" by (auto simp: segment_of_def bindE_Inr_iff)
    have ls: "length seg = flen f" using segment_rereads [OF ok(1) v(2)] by (simp add: rereads_def)
    have w: "writeValue (pre @ replicate k 0) f v = Inr ((pre @ seg) @ replicate (k - flen f) 0)"
      using write_segment [OF ok(1) pl(1) lp kf] v(2) by simp
    have "fill_gap ((pre @ seg) @ replicate (k - flen f) 0) f (int (next_off B fs)) =
        (if gap_ok f (gap_len B f fs) then Inr ((pre @ seg) @ gap_bytes f (gap_len B f fs) @ replicate (k - flen f - gap_len B f fs) 0) else Inl ErrStructure)"
    proof (rule fill_gap_fit)
      show "0 \<le> sint (sf_Offset f + sf_InternalLength f)" unfolding pl(2) by simp
      show "length (pre @ seg) = nat (sint (sf_Offset f + sf_InternalLength f))" unfolding pl(2) nat_int using lp ls by simp
    qed (use lp ls g nx in \<open>simp_all add: k_def\<close>)
    moreover have "k - flen f - gap_len B f fs = B - next_off B fs" using g lp by (simp add: k_def)
    ultimately show ?thesis using v(1) w by (simp add: Inr value_of_def n)
  qed
  have ih: "encode_fields def input ((pre @ seg @ gap_bytes f (gap_len B f fs)) @ replicate (B - next_off B fs) 0) fs = Inr b \<longleftrightarrow>
      (\<exists>segs. list_all2 (\<lambda>f seg. segment_of input f = Inr seg) fs segs \<and> gaps_ok B fs \<and> b = (pre @ seg @ gap_bytes f (gap_len B f fs)) @ layout B fs segs)"
    if s: "segment_of input f = Inr seg" "gap_ok f (gap_len B f fs)" for seg
  proof -
    obtain v where "encode_segment f v = Inr seg" using s(1) by (auto simp: segment_of_def bindE_Inr_iff)
    then have "length seg = flen f" using segment_rereads [OF ok(1)] by (simp add: rereads_def)
    then have l: "length (pre @ seg @ gap_bytes f (gap_len B f fs)) = next_off B fs" using g lp length_gap [OF s(2)] by simp
    show ?thesis using Cons.IH [OF pl(4) ok(2) l Cons.prems(4)] unfolding l .
  qed
  show ?case
  proof
    assume "encode_fields def input (pre @ replicate (B - length pre) 0) (f # fs) = Inr b"
    then obtain seg where s: "segment_of input f = Inr seg" "gap_ok f (gap_len B f fs)"
        "encode_fields def input ((pre @ seg @ gap_bytes f (gap_len B f fs)) @ replicate (B - next_off B fs) 0) fs = Inr b"
      unfolding k_def [symmetric] step by (auto simp: bindE_Inr_iff split: if_splits)
    then obtain segs where "list_all2 (\<lambda>f seg. segment_of input f = Inr seg) fs segs" "gaps_ok B fs" "b = (pre @ seg @ gap_bytes f (gap_len B f fs)) @ layout B fs segs"
      using ih by blast
    then show "\<exists>segs. list_all2 (\<lambda>f seg. segment_of input f = Inr seg) (f # fs) segs \<and> gaps_ok B (f # fs) \<and> b = pre @ layout B (f # fs) segs"
      using s(1,2) by (intro exI [of _ "seg # segs"]) simp
  next
    assume "\<exists>segs. list_all2 (\<lambda>f seg. segment_of input f = Inr seg) (f # fs) segs \<and> gaps_ok B (f # fs) \<and> b = pre @ layout B (f # fs) segs"
    then show "encode_fields def input (pre @ replicate (B - length pre) 0) (f # fs) = Inr b"
      unfolding k_def [symmetric] step using ih by (auto simp: list_all2_Cons1)
  qed
qed

lemma decode_layout:
  assumes "placed B p fs" "length pre = next_off B fs" "gaps_ok B fs" "list_all2 (\<lambda>f (seg, v). length seg = flen f \<and> read_segment f seg = Inr v) fs svs"
  shows "decode_fields (pre @ layout B fs (map fst svs)) fs = Inr (zip (map sf_FieldName fs) (map snd svs))"
  using assms
proof (induction fs arbitrary: pre p svs)
  case (Cons f fs)
  obtain seg v svs' where sv: "svs = (seg, v) # svs'" "length seg = flen f" "read_segment f seg = Inr v"
      "list_all2 (\<lambda>f (seg, v). length seg = flen f \<and> read_segment f seg = Inr v) fs svs'"
    using Cons.prems(4) by (auto simp: list_all2_Cons1)
  have pl: "0 \<le> sint (sf_Offset f)" "sint (sf_Offset f + sf_InternalLength f) = int (foff f + flen f)" "placed B (foff f + flen f) fs"
    and lp: "length pre = foff f" using Cons.prems(1,2) by auto
  define rest where "rest = gap_bytes f (gap_len B f fs) @ layout B fs (map fst svs')"
  have "slice_of (pre @ seg @ rest) (sint (sf_Offset f)) (sint (sf_Offset f + sf_InternalLength f)) = Inr seg"
    unfolding slice_of_def pl(2) using pl(1) lp sv(2) by (simp add: gslice_def nat_add_distrib)
  then have r: "readValue (pre @ seg @ rest) f = Inr v" by (simp add: readValue_def sv(3))
  have g: "gap_ok f (gap_len B f fs)" "gaps_ok B fs" using Cons.prems(3) by simp_all
  have "length (pre @ seg @ gap_bytes f (gap_len B f fs)) = next_off B fs"
    using placed_next [OF pl(3)] lp sv(2) length_gap [OF g(1)] by (simp add: gap_len_def)
  from Cons.IH [OF pl(3) this g(2) sv(4)]
  have "decode_fields (pre @ seg @ rest) fs = Inr (zip (map sf_FieldName fs) (map snd svs'))" by (simp add: rest_def)
  then show ?case using r by (simp add: sv(1) rest_def)
qed simp

lemma length_layout:
  assumes "placed B p fs" "gaps_ok B fs" "list_all2 (\<lambda>f seg. length seg = flen f) fs segs"
  shows "next_off B fs + length (layout B fs segs) = B"
  using assms
proof (induction fs arbitrary: p segs)
  case (Cons f fs)
  obtain seg segs' where s: "segs = seg # segs'" "length seg = flen f" "list_all2 (\<lambda>f seg. length seg = flen f) fs segs'"
    using Cons.prems(3) by (auto simp: list_all2_Cons1)
  have pl: "placed B (foff f + flen f) fs" using Cons.prems(1) by simp
  have "next_off B fs + length (layout B fs segs') = B" using Cons.IH [OF pl _ s(3)] Cons.prems(2) by simp
  then show ?case using placed_next [OF pl] length_gap [of f "gap_len B f fs"] Cons.prems(2) s(2) by (simp add: s(1) gap_len_def)
qed simp

section \<open>Whole structures\<close>

definition no_wrap :: "structure_field \<Rightarrow> bool" where
  "no_wrap f \<longleftrightarrow> sint (sf_Offset f) + sint (sf_InternalLength f) < 2 ^ 31"

lemma sint_sum:
  assumes "0 \<le> sint (a :: u32)" "0 \<le> sint b" "sint a + sint b < 2 ^ 31"
  shows "sint (a + b) = sint a + sint b"
proof -
  have "sint (word_of_int (sint a + sint b) :: u32) = sint a + sint b" by (rule sint_of_int_range) (use assms in simp_all)
  moreover have "(word_of_int (sint a + sint b) :: u32) = a + b" by simp
  ultimately show ?thesis by simp
qed

lemma snapshot_placed:
  assumes "snapshot_fields def i names pe fs = Inr ()" "0 \<le> sint pe" "sint pe \<le> sint (st_ByteLength def)" "list_all no_wrap fs"
  shows "placed (nat (sint (st_ByteLength def))) (nat (sint pe)) fs \<and> distinct (map sf_FieldName fs) \<and> set (map sf_FieldName fs) \<inter> set names = {} \<and>
    list_all (\<lambda>f. 0 \<le> sint (sf_InternalLength f)) fs"
  using assms
proof (induction fs arbitrary: i names pe)
  case (Cons f fs)
  let ?e = "sf_Offset f + sf_InternalLength f"
  have c: "sf_FieldName f \<notin> set names" "sint pe \<le> sint (sf_Offset f)" "0 \<le> sint (sf_InternalLength f)" "sint ?e \<le> sint (st_ByteLength def)"
      "snapshot_fields def (i + 1) (sf_FieldName f # names) ?e fs = Inr ()"
    using Cons.prems(1) by (auto simp: Let_def split: if_splits)
  have s: "sint ?e = sint (sf_Offset f) + sint (sf_InternalLength f)" by (rule sint_sum) (use c Cons.prems in \<open>simp_all add: no_wrap_def\<close>)
  have o: "0 \<le> sint (sf_Offset f)" using c(2) Cons.prems(2) by linarith
  have e: "nat (sint ?e) = foff f + flen f" "0 \<le> sint ?e" "sint ?e = int (foff f + flen f)" using s c(3) o by (simp_all add: nat_add_distrib)
  have "placed (nat (sint (st_ByteLength def))) (nat (sint ?e)) fs \<and> distinct (map sf_FieldName fs) \<and>
      set (map sf_FieldName fs) \<inter> set (sf_FieldName f # names) = {} \<and> list_all (\<lambda>f. 0 \<le> sint (sf_InternalLength f)) fs"
    by (rule Cons.IH [OF c(5) e(2) c(4)]) (use Cons.prems(4) in simp)
  moreover have "nat (sint pe) \<le> foff f" using c(2) by (rule nat_mono)
  moreover have "foff f + flen f \<le> nat (sint (st_ByteLength def))" using c(4) e by (metis nat_mono)
  ultimately show ?case using c(1,3) o e(1,3) by auto
qed simp

lemma check_codecs_Inr: "check_codecs fs = Inr () \<longleftrightarrow> list_all (\<lambda>f. assertFieldCodec f = Inr ()) fs"
  by (induction fs) (auto simp: bindE_Inr_iff)

lemma ValidateCodec_Inr:
  "ValidateCodec def [] = Inr n \<longleftrightarrow> n = def \<and> st_Name def \<noteq> [] \<and> 0 \<le> sint (st_ByteLength def) \<and> sint (st_ByteLength def) \<le> maxClassicStructureByteLength \<and>
     length (st_Fields def) \<le> maxClassicStructureFields \<and> snapshot_fields def 0 [] 0 (st_Fields def) = Inr () \<and> check_codecs (st_Fields def) = Inr ()"
  by (auto simp: ValidateCodec_def SnapshotDefinition_def Let_def bindE_Inr_iff)

lemma assertFixed_Inr:
  "assertFixed def = Inr () \<longleftrightarrow> ValidateCodec def [] = Inr def \<and> list_all (\<lambda>f. sf_Exid f \<noteq> ''g'' \<and> sf_Exid f \<noteq> ''y'') (st_Fields def)"
  by (auto simp: assertFixed_def HasDynamicFields_def bindE_Inr_iff ValidateCodec_Inr list_all_iff list_ex_iff)

definition fixed_ok :: "structure_definition \<Rightarrow> bool" where
  "fixed_ok def \<longleftrightarrow> ValidateCodec def [] = Inr def \<and> assertFixed def = Inr ()"

lemma fixed_placed:
  assumes "fixed_ok def" "list_all no_wrap (st_Fields def)"
  shows "placed (nat (sint (st_ByteLength def))) 0 (st_Fields def)" "distinct (map sf_FieldName (st_Fields def))" "list_all field_ok (st_Fields def)"
    "0 \<le> sint (st_ByteLength def)"
proof -
  have v: "snapshot_fields def 0 [] 0 (st_Fields def) = Inr ()" "check_codecs (st_Fields def) = Inr ()" "0 \<le> sint (st_ByteLength def)"
    "list_all (\<lambda>f. sf_Exid f \<noteq> ''g'' \<and> sf_Exid f \<noteq> ''y'') (st_Fields def)"
    using assms(1) by (auto simp: fixed_ok_def ValidateCodec_Inr assertFixed_Inr)
  note p = snapshot_placed [OF v(1) _ _ assms(2)]
  show "placed (nat (sint (st_ByteLength def))) 0 (st_Fields def)" "distinct (map sf_FieldName (st_Fields def))" "0 \<le> sint (st_ByteLength def)" using p v(3) by simp_all
  have "list_all (\<lambda>f. 0 \<le> sint (sf_InternalLength f)) (st_Fields def)" using p v(3) by simp
  then show "list_all field_ok (st_Fields def)" using v(2,4) by (simp add: check_codecs_Inr field_ok_def list_all_iff)
qed

lemma Encode_iff:
  assumes "fixed_ok def" "list_all no_wrap (st_Fields def)"
  defines "B \<equiv> nat (sint (st_ByteLength def))" and "fs \<equiv> st_Fields def"
  shows "structure_Encode def input = Inr b \<longleftrightarrow> set (map fst input) \<subseteq> set (map sf_FieldName fs) \<and>
    (\<exists>segs. list_all2 (\<lambda>f seg. segment_of input f = Inr seg) fs segs \<and> gaps_ok B fs \<and> b = replicate (next_off B fs) 0 @ layout B fs segs)"
proof -
  note p = fixed_placed [OF assms(1,2), folded B_def fs_def]
  have B: "int B = sint (st_ByteLength def)" using p(4) by (simp add: B_def)
  have r: "replicate B (0 :: byte) = replicate (next_off B fs) 0 @ replicate (B - length (replicate (next_off B fs) (0 :: byte))) 0"
    using placed_next [OF p(1)] by (simp add: replicate_add [symmetric])
  have "encode_fields def input (replicate B 0) fs = Inr b \<longleftrightarrow>
      (\<exists>segs. list_all2 (\<lambda>f seg. segment_of input f = Inr seg) fs segs \<and> gaps_ok B fs \<and> b = replicate (next_off B fs) 0 @ layout B fs segs)"
    unfolding r by (rule encode_layout [OF p(1,3) _ B]) simp
  then show ?thesis
    using assms(1) by (auto simp: structure_Encode_def fixed_ok_def bindE_Inr_iff B_def fs_def)
qed

lemma reread_all:
  assumes "list_all field_ok fs" "list_all2 (\<lambda>f seg. segment_of input f = Inr seg) fs segs"
  obtains svs where "segs = map fst svs" "list_all2 (\<lambda>f (seg, v). length seg = flen f \<and> read_segment f seg = Inr v) fs svs"
    "list_all2 (\<lambda>f (seg, v). encode_segment f v = Inr seg) fs svs"
proof -
  have "\<exists>svs. segs = map fst svs \<and> list_all2 (\<lambda>f (seg, v). length seg = flen f \<and> read_segment f seg = Inr v) fs svs \<and>
      list_all2 (\<lambda>f (seg, v). encode_segment f v = Inr seg) fs svs"
    using assms
  proof (induction fs arbitrary: segs)
    case (Cons f fs)
    obtain seg segs' where s: "segs = seg # segs'" "segment_of input f = Inr seg" "list_all2 (\<lambda>f seg. segment_of input f = Inr seg) fs segs'"
      using Cons.prems(2) by (auto simp: list_all2_Cons1)
    obtain v where "encode_segment f v = Inr seg" using s(2) by (auto simp: segment_of_def bindE_Inr_iff)
    then obtain v' where v': "length seg = flen f" "read_segment f seg = Inr v'" "encode_segment f v' = Inr seg"
      using segment_rereads [of f v seg] Cons.prems(1) by (auto simp: rereads_def)
    obtain svs where "segs' = map fst svs" "list_all2 (\<lambda>f (seg, v). length seg = flen f \<and> read_segment f seg = Inr v) fs svs"
        "list_all2 (\<lambda>f (seg, v). encode_segment f v = Inr seg) fs svs" using Cons.IH [OF _ s(3)] Cons.prems(1) by auto
    then show ?case using v' s(1) by (intro exI [of _ "(seg, v') # svs"]) simp
  qed simp
  then show thesis using that by blast
qed

lemma segments_of_decoded:
  assumes "distinct (map sf_FieldName fs)" "list_all2 (\<lambda>f (seg, v). encode_segment f v = Inr seg) fs svs"
  shows "list_all2 (\<lambda>f seg. segment_of (zip (map sf_FieldName fs) (map snd svs)) f = Inr seg) fs (map fst svs)"
proof (rule list_all2_all_nthI)
  show l: "length fs = length (map fst svs)" using assms(2) by (auto dest: list_all2_lengthD)
  fix i assume i: "i < length fs"
  have z: "zip (map sf_FieldName fs) (map snd svs) ! i = (sf_FieldName (fs ! i), snd (svs ! i))" using i l by simp
  have d: "distinct (map fst (zip (map sf_FieldName fs) (map snd svs)))" using assms(1) l by simp
  have "(sf_FieldName (fs ! i), snd (svs ! i)) \<in> set (zip (map sf_FieldName fs) (map snd svs))"
    using i l z by (metis length_map length_zip min_less_iff_conj nth_mem)
  then have "map_of (zip (map sf_FieldName fs) (map snd svs)) (sf_FieldName (fs ! i)) = Some (snd (svs ! i))" by (rule map_of_is_SomeI [OF d])
  moreover have "encode_segment (fs ! i) (snd (svs ! i)) = Inr (fst (svs ! i))" using list_all2_nthD [OF assms(2) i] by (simp add: case_prod_unfold)
  ultimately show "segment_of (zip (map sf_FieldName fs) (map snd svs)) (fs ! i) = Inr (map fst svs ! i)" using i l by (simp add: segment_of_def value_of_def)
qed

text \<open>
  C26. Round trip of structures: the bytes of a structure have its declared length and decode to one value for each field, and these values
  encode to the same bytes, for all the types of fixed layout together. The offsets and lengths of the fields must not wrap around in 32 bits.
\<close>

theorem structure_roundtrip:
  assumes "structure_Encode def input = Inr b" "list_all no_wrap (st_Fields def)"
  shows "int (length b) = sint (st_ByteLength def) \<and>
    (\<exists>m. structure_Decode def b = Inr m \<and> map fst m = map sf_FieldName (st_Fields def) \<and> structure_Encode def m = Inr b)"
proof -
  define B fs where "B = nat (sint (st_ByteLength def))" and "fs = st_Fields def"
  have ok: "fixed_ok def" using assms(1) by (auto simp: structure_Encode_def bindE_Inr_iff fixed_ok_def ValidateCodec_Inr)
  note p = fixed_placed [OF ok assms(2), folded B_def fs_def] and e = Encode_iff [OF ok assms(2), folded B_def fs_def]
  obtain segs where s: "list_all2 (\<lambda>f seg. segment_of input f = Inr seg) fs segs" "gaps_ok B fs" "b = replicate (next_off B fs) 0 @ layout B fs segs"
    using assms(1) e by blast
  obtain svs where v: "segs = map fst svs" "list_all2 (\<lambda>f (seg, v). length seg = flen f \<and> read_segment f seg = Inr v) fs svs"
      "list_all2 (\<lambda>f (seg, v). encode_segment f v = Inr seg) fs svs"
    using reread_all [OF p(3) s(1)] by blast
  define m where "m = zip (map sf_FieldName fs) (map snd svs)"
  have l: "length fs = length svs" using v(2) by (auto dest: list_all2_lengthD)
  have "list_all2 (\<lambda>f seg. length seg = flen f) fs segs"
    using v(2) unfolding v(1) list_all2_map2 by (rule list_all2_mono) auto
  then have len: "int (length b) = sint (st_ByteLength def)" using length_layout [OF p(1) s(2)] p(4) by (simp add: s(3) B_def)
  have "decode_fields b fs = Inr m" unfolding s(3) v(1) m_def by (rule decode_layout [OF p(1) _ s(2) v(2)]) simp
  then have d: "structure_Decode def b = Inr m" using ok len by (simp add: structure_Decode_def fixed_ok_def fs_def fail_if_def)
  have "structure_Encode def m = Inr b"
    using e [of m b] segments_of_decoded [OF p(2) v(3), folded m_def] s(2,3) v(1) l by (auto simp: m_def)
  then show ?thesis using d len l by (auto simp: m_def fs_def)
qed

section \<open>Types\<close>

definition value_typed :: "structure_field \<Rightarrow> any_value \<Rightarrow> bool" where
  "value_typed field v =
     (let exid = sf_Exid field in
      if exid = ''X'' then (case v of AnyBytes b \<Rightarrow> length b = flen field | _ \<Rightarrow> False)
      else if exid = ''F'' then (case v of AnyFloat64 f \<Rightarrow> \<not> non_finite f | _ \<Rightarrow> False)
      else if exid = ''I'' then (case v of AnyInt32 _ \<Rightarrow> True | _ \<Rightarrow> False)
      else if exid = ''s'' then (case v of AnyInt16 _ \<Rightarrow> True | _ \<Rightarrow> False)
      else if exid = ''b'' then (case v of AnyUint8 _ \<Rightarrow> True | _ \<Rightarrow> False)
      else if exid = ''8'' then (case v of AnyInt64 _ \<Rightarrow> True | _ \<Rightarrow> False)
      else case v of
          AnyString s \<Rightarrow> (exid = ''C'' \<or> exid = ''N'' \<longrightarrow> trimRight s = s) \<and> (exid = ''D'' \<longrightarrow> s = [] \<or> length s = 8 \<and> list_all digit_char s) \<and>
            (exid = ''T'' \<longrightarrow> s = [] \<or> length s = 6 \<and> list_all digit_char s)
        | _ \<Rightarrow> False)"

lemma trimRight_idem [simp]: "trimRight (trimRight s) = trimRight s"
  using trimRight_split [of s] trimRight_spaces by metis

lemma public_texts:
  "ClassicDatePublicText w = Inr t \<Longrightarrow> t = [] \<or> length t = 8 \<and> list_all digit_char t"
  "ClassicTimePublicText w = Inr t \<Longrightarrow> t = [] \<or> length t = 6 \<and> list_all digit_char t"
  by (auto simp: ClassicDatePublicText_def ClassicTimePublicText_def bindE_Inr_iff classicPattern_def blank_texts split: if_splits)

lemma read_typed:
  assumes "field_ok field" "read_segment field seg = Inr v" "length seg = flen field"
  shows "value_typed field v"
  using assms(1)
proof (cases rule: field_cases)
  case temporal
  then have "sf_Exid field \<notin> {''X'', ''F'', ''I'', ''s'', ''b'', ''8'', ''C'', ''N'', ''D'', ''T''}" by auto
  then show ?thesis using assms(2) temporal by (auto simp: value_typed_def read_segment_def Let_def bindE_Inr_iff)
qed (use assms(2,3) public_texts in \<open>auto simp: value_typed_def read_segment_def Let_def bindE_Inr_iff DecodeAbapChar_def split: if_splits list.splits\<close>)

lemma zero_no_panic: "EncodePackedDecimal (gostr ''0'') n d \<noteq> Inl PackedPanic"
proof (cases "packedGeometry n d")
  case (Inl e)
  then show ?thesis by (auto simp: EncodePackedDecimal_def packedGeometry_def Let_def split: if_splits)
next
  case (Inr capacity)
  have g: "0 \<le> d" "d \<le> 14" using Inr by (auto simp: geometry_ok)
  have m: "match_decimal (gostr ''0'') = Some ([], gostr ''0'', [], [], [])"
    by (simp add: match_decimal_def split_sign_def sign_char_def gostr_def digit_char_def match_exponent_def Let_def)
  have w: "wrap64 (wrap64 (0 + d) - int (length ([] :: gostring))) = d" using wrap64_id [of d] g by simp
  have "shift_digits (gostr ''0'' @ []) d capacity \<noteq> Inl PackedPanic"
    using g by (auto simp: shift_digits_def repeat_zeros_def Let_def)
  then have "scaledDigits (gostr ''0'') d capacity \<noteq> Inl PackedPanic"
    unfolding scaledDigits_def m option.case prod.case Let_def if_P [OF refl] using w by (auto simp: bindE_Inl_iff)
  moreover have "pack_nibbles s \<noteq> Inl PackedPanic" for s by (induction s rule: pack_nibbles.induct) (auto simp: bindE_Inl_iff split: option.splits)
  ultimately show ?thesis unfolding EncodePackedDecimal_def Inr by (auto simp: bindE_Inl_iff Let_def fail_if_Inl_iff)
qed

lemma packed_decode_errors: "DecodePackedDecimal b d \<noteq> Inl PackedPanic"
  by (auto simp: DecodePackedDecimal_def packedGeometry_def Let_def bindE_Inl_iff fail_if_Inl_iff split: if_splits)

lemma results_no_panic [simp]:
  "text_result r1 \<noteq> Inl StructurePanic" "temporal_result r2 \<noteq> Inl StructurePanic" "float_result r3 \<noteq> Inl StructurePanic"
  "packed_result r4 = Inl StructurePanic \<longleftrightarrow> r4 = Inl PackedPanic"
  by (auto simp: result_defs split: sum.splits if_splits)

lemma read_no_panic:
  assumes "field_ok field" "length seg = flen field"
  shows "read_segment field seg \<noteq> Inl StructurePanic"
  using assms(1)
proof (cases rule: field_cases)
  case temporal
  then show ?thesis by (simp add: read_segment_def Let_def bindE_Inl_iff)
next
  case b
  then show ?thesis using field_lengths(6) [OF assms(1) b] assms(2) by (auto simp: read_segment_def Let_def split: list.splits)
qed (use packed_decode_errors in \<open>auto simp: read_segment_def Let_def bindE_Inl_iff characterLength_def fail_if_Inl_iff\<close>)

lemma read_placed:
  assumes "0 \<le> sint (sf_Offset f)" "sint (sf_Offset f + sf_InternalLength f) = int (foff f + flen f)" "foff f + flen f \<le> length src"
  shows "readValue src f = read_segment f (gslice (foff f) (foff f + flen f) src)" "length (gslice (foff f) (foff f + flen f) src) = flen f"
proof -
  show "readValue src f = read_segment f (gslice (foff f) (foff f + flen f) src)"
  proof -
    have h: "\<not> (sint (sf_Offset f) < 0 \<or> int (foff f + flen f) < sint (sf_Offset f) \<or> int (foff f + flen f) > int (length src))"
      using assms(1,3) by linarith
    show ?thesis unfolding readValue_def slice_of_def assms(2) nat_int if_not_P [OF h] by simp
  qed
  show "length (gslice (foff f) (foff f + flen f) src) = flen f" using assms(3) by (simp add: gslice_def)
qed

lemma decode_typed:
  assumes "placed B p fs" "list_all field_ok fs" "length src = B"
  shows "decode_fields src fs \<noteq> Inl StructurePanic \<and>
    (\<forall>m. decode_fields src fs = Inr m \<longrightarrow> list_all2 (\<lambda>f (n, v). n = sf_FieldName f \<and> value_typed f v) fs m)"
  using assms(1,2)
proof (induction fs arbitrary: p)
  case (Cons f fs)
  have pl: "0 \<le> sint (sf_Offset f)" "sint (sf_Offset f + sf_InternalLength f) = int (foff f + flen f)" "foff f + flen f \<le> length src" "placed B (foff f + flen f) fs"
    using Cons.prems(1) assms(3) by auto
  note r = read_placed [OF pl(1-3)]
  have "readValue src f \<noteq> Inl StructurePanic" unfolding r(1) by (rule read_no_panic [OF _ r(2)]) (use Cons.prems(2) in simp)
  moreover have "value_typed f v" if "readValue src f = Inr v" for v
    using that unfolding r(1) by (rule read_typed [OF _ _ r(2), rotated]) (use Cons.prems(2) in simp)
  ultimately show ?case using Cons.IH [OF pl(4)] Cons.prems(2) by (auto simp: bindE_Inl_iff bindE_Inr_iff)
qed simp

lemma validate_no_panic: "ValidateCodec def [] \<noteq> Inl StructurePanic"
proof -
  have s: "snapshot_fields def i names pe fs \<noteq> Inl StructurePanic" for i names pe fs
    by (induction fs arbitrary: i names pe) (auto simp: Let_def)
  have a: "assertFieldCodec f \<noteq> Inl StructurePanic" for f
    using zero_no_panic by (auto simp: assertFieldCodec_def exactLen_def characterLength_def Let_def bindE_Inl_iff fail_if_Inl_iff split: sum.splits if_splits)
  have c: "check_codecs fs \<noteq> Inl StructurePanic" for fs by (induction fs) (auto simp: a bindE_Inl_iff)
  show ?thesis using s c by (auto simp: ValidateCodec_def SnapshotDefinition_def Let_def bindE_Inl_iff fail_if_Inl_iff)
qed

text \<open>
  C27. Type safety of decoded structures: whatever the bytes are, decoding against a definition whose offsets do not wrap around does not panic,
  and a result has one value for each field, in order, of the type of the field: strings without trailing spaces, dates and times of digits, byte
  strings of the declared length, integers of the declared width and finite floats.
\<close>

theorem structure_decode_typed:
  assumes "list_all no_wrap (st_Fields def)"
  shows "structure_Decode def b \<noteq> Inl StructurePanic \<and>
    (\<forall>m. structure_Decode def b = Inr m \<longrightarrow> list_all2 (\<lambda>f (n, v). n = sf_FieldName f \<and> value_typed f v) (st_Fields def) m)"
proof (cases "fixed_ok def \<and> int (length b) = sint (st_ByteLength def)")
  case True
  note p = fixed_placed [OF conjunct1 [OF True] assms]
  have "length b = nat (sint (st_ByteLength def))" using True by (metis nat_int)
  from decode_typed [OF p(1,3) this] True show ?thesis by (simp add: structure_Decode_def fixed_ok_def fail_if_def)
next
  case False
  then show ?thesis using validate_no_panic [of def] ValidateCodec_Inr [of def]
    by (auto simp: structure_Decode_def fixed_ok_def assertFixed_def HasDynamicFields_def bindE_Inl_iff bindE_Inr_iff fail_if_Inl_iff)
qed

section \<open>Samples\<close>

definition sample_field :: "string \<Rightarrow> u32 \<Rightarrow> u32 \<Rightarrow> u32 \<Rightarrow> string \<Rightarrow> structure_field" where
  "sample_field name pos off len exid =
     \<lparr>sf_TableName = gostr ''ROW'', sf_FieldName = gostr name, sf_Position = pos, sf_Offset = off, sf_InternalLength = len, sf_Decimals = 0, sf_Exid = exid\<rparr>"

definition sample_structure :: structure_definition where
  "sample_structure = \<lparr>st_Name = gostr ''ROW'', st_ByteLength = 8, st_Fields = [sample_field ''KEY'' 1 0 2 ''X'', sample_field ''COUNT'' 2 4 4 ''I'']\<rparr>"

lemmas structure_defs = structure_Encode_def structure_Decode_def ValidateCodec_def SnapshotDefinition_def assertFixed_def HasDynamicFields_def
  assertFieldCodec_def exactLen_def IsClassicTemporalExid_def temporalSpecs_def maxClassicStructureByteLength_def maxClassicStructureFields_def
  DefaultMaxFieldLength_def

lemma sample_encoded: "structure_Encode sample_structure [(gostr ''KEY'', AnyBytes [7])] = Inr [7, 0, 0, 0, 0, 0, 0, 0]"
  by (simp add: structure_defs sample_structure_def sample_field_def gostr_def Let_def fail_if_def writeValue_def initialValue_def fill_gap_def
      copy_into_def put_into_def copy_at_def requireInt_def put32le_def) (simp add: eval_nat_numeral)

theorem structure_roundtrip_witness:
  "\<exists>m. structure_Decode sample_structure [7, 0, 0, 0, 0, 0, 0, 0] = Inr m \<and> structure_Encode sample_structure m = Inr [7, 0, 0, 0, 0, 0, 0, 0]"
proof -
  have "list_all no_wrap (st_Fields sample_structure)" by (simp add: sample_structure_def sample_field_def no_wrap_def)
  from structure_roundtrip [OF sample_encoded this] show ?thesis by blast
qed

theorem structure_decode_typed_witness:
  "structure_Decode sample_structure [7, 0, 0, 0, 0, 0, 0, 0] \<noteq> Inl StructurePanic \<and> list_all no_wrap (st_Fields sample_structure)"
proof -
  have "list_all no_wrap (st_Fields sample_structure)" by (simp add: sample_structure_def sample_field_def no_wrap_def)
  from structure_decode_typed [OF this] this show ?thesis by blast
qed

definition wrapped_structure :: "u32 \<Rightarrow> u32 \<Rightarrow> structure_definition" where
  "wrapped_structure off len = \<lparr>st_Name = gostr ''ROW'', st_ByteLength = 8, st_Fields = [sample_field ''KEY'' 1 off len ''X'']\<rparr>"

text \<open>
  The check of a field against the length of its structure wraps around in 32 bits: one definition that validation accepts encodes a value to bytes
  whose decoding panics, and another one, also accepted, panics on encoding.
\<close>

theorem structure_offset_wraps:
  "structure_Encode (wrapped_structure 4 0x7fffffff) [(gostr ''KEY'', AnyBytes [7])] = Inr [0, 0, 0, 0, 7, 0, 0, 0] \<and>
   structure_Decode (wrapped_structure 4 0x7fffffff) [0, 0, 0, 0, 7, 0, 0, 0] = Inl StructurePanic \<and>
   ValidateCodec (wrapped_structure 0x7fffffff 1) [] = Inr (wrapped_structure 0x7fffffff 1) \<and>
   structure_Encode (wrapped_structure 0x7fffffff 1) [(gostr ''KEY'', AnyBytes [7])] = Inl StructurePanic"
  by (simp add: structure_defs wrapped_structure_def sample_field_def gostr_def Let_def fail_if_def writeValue_def fill_gap_def
      copy_into_def copy_at_def slice_of_def readValue_def) (simp add: eval_nat_numeral)

end
