(* ===== verification/Classic_Rfc.thy ===== *)
theory Classic_Rfc
  imports Abap_Char Go_Decimal Cpic_Request Cpic_Logon_Response
begin

text \<open>
  Package \<open>classicrfc\<close>, the grouping of a function result into parameters and the rows of \<open>RFC_FUNINT\<close> (\<open>classicrfc.go\<close>). The loops over
  the field slice are recursive functions on the fields that remain. A borrowed buffer and a copy have the same bytes, so aliasing is left out.
  \<open>RowEncoding\<close> and \<open>RowCompression\<close> of a table always agree (flat and none, structured and simple, mixed, empty); the model keeps one of them.
\<close>

section \<open>Names, headers and rows\<close>

definition CpicTagTableContent :: u16 where "CpicTagTableContent = 0x0303"

definition RfcFunintUnicodeRowLength :: nat where "RfcFunintUnicodeRowLength = 402"
definition defaultMaxTableDecodedBytes :: int where "defaultMaxTableDecodedBytes = DefaultMaxFieldChainLength"
definition defaultMaxResultTableDecodedBytes :: int where "defaultMaxResultTableDecodedBytes = DefaultMaxFieldChainLength"

record table_header =
  th_DeclaredRowByteLength :: u32
  th_RowCount :: u32

record scalar_value =
  sv_Name :: gostring
  sv_Value :: bytes

datatype row_form = RowFlat | RowStructured | RowMixed | RowEmpty

record result_table =
  rt_Name :: gostring
  rt_DeclaredRowByteLength :: u32
  rt_RowByteLength :: nat
  rt_RowEncoding :: row_form
  rt_Rows :: "bytes list"

record xrfc_parameter =
  xp_Value :: bytes
  xp_ChunkCount :: nat

record classic_result =
  gr_RequestedOutputs :: "gostring list"
  gr_Scalars :: "scalar_value list"
  gr_Tables :: "result_table list"
  gr_XrfcParameters :: "xrfc_parameter list"

definition controlChar :: "gostring \<Rightarrow> bool" where
  "controlChar s \<longleftrightarrow> (\<exists>b \<in> set s. b \<le> 0x1f \<or> b = 0x7f)"

definition decodeParameterName :: "bytes \<Rightarrow> classic_error + gostring" where
  "decodeParameterName v =
     bindE (DecodeAbapChar v None) (\<lambda>name.
     bindE (fail_if (name = [] \<or> controlChar name) ErrClassicProtocol) (\<lambda>_. Inr name))"

definition DecodeRfcTableHeader :: "bytes \<Rightarrow> classic_error + table_header" where
  "DecodeRfcTableHeader v =
     bindE (fail_if (length v \<noteq> 8) ErrClassicRange) (\<lambda>_.
     Inr \<lparr>th_DeclaredRowByteLength = get32be v, th_RowCount = get32be (drop 4 v)\<rparr>)"

definition nonApplicationTags :: "u16 set" where
  "nonApplicationTags = {CpicTagResponseContext, CpicTagSession, CpicTagUnresolved0420, CpicTagCallContext, CpicTagProgram, 0x0667, CpicTagEnd}"

definition decodeSimpleCompressedTableRow :: "bytes \<Rightarrow> u32 \<Rightarrow> classic_error + bytes" where
  "decodeSimpleCompressedTableRow v declaredRowByteLength =
     bindE (fail_if (v = []) ErrClassicProtocol) (\<lambda>_.
     bindE (fail_if (of_nat (length v) > declaredRowByteLength) ErrClassicProtocol) (\<lambda>_.
     if of_nat (length v) = declaredRowByteLength then Inr v
     else bindE (fail_if (int (unat declaredRowByteLength) > DefaultMaxFieldLength) ErrClassicRange) (\<lambda>_.
       let decoded = replicate (unat declaredRowByteLength) (last v) in
       Inr (take (length decoded) v @ drop (length v) decoded))))"

section \<open>Limits before decoding\<close>

fun preflight_sum :: "cpic_field list \<Rightarrow> nat \<Rightarrow> classic_error + unit" where
  "preflight_sum [] valueBytes = Inr ()"
| "preflight_sum (f # fs) valueBytes =
     (let valueBytes = valueBytes + length (fd_Value f) in
      if int valueBytes > DefaultMaxFieldChainLength then Inl ErrClassicRange else preflight_sum fs valueBytes)"

definition preflightResultBytes :: "cpic_field list \<Rightarrow> classic_error + unit" where
  "preflightResultBytes flds = (if int (length flds) > DefaultMaxFieldCount then Inl ErrClassicRange else preflight_sum flds 0)"

abbreviation row_tag :: "cpic_field \<Rightarrow> bool" where
  "row_tag f \<equiv> fd_Tag f = CpicTagTableContent \<or> fd_Tag f = CpicTagTableCompr"

definition preflight_row :: "table_header \<Rightarrow> cpic_field \<Rightarrow> classic_error + nat" where
  "preflight_row header row =
     (let enc = length (fd_Value row); compr = (fd_Tag row = CpicTagTableCompr) in
      bindE (fail_if (enc = 0) ErrClassicProtocol) (\<lambda>_.
      bindE (fail_if (of_nat enc > th_DeclaredRowByteLength header) ErrClassicProtocol) (\<lambda>_.
      bindE (fail_if (compr \<and> of_nat enc < th_DeclaredRowByteLength header \<and> int (unat (th_DeclaredRowByteLength header)) > DefaultMaxFieldLength) ErrClassicRange) (\<lambda>_.
      Inr (if compr then unat (th_DeclaredRowByteLength header) else enc)))))"

text \<open>The rows of one table: their number, their bytes and the fields after them.\<close>

fun preflight_rows :: "table_header \<Rightarrow> u32 \<Rightarrow> nat \<Rightarrow> cpic_field list \<Rightarrow> classic_error + (u32 \<times> nat \<times> cpic_field list)" where
  "preflight_rows header rowCount tableDecodedBytes [] = Inr (rowCount, tableDecodedBytes, [])"
| "preflight_rows header rowCount tableDecodedBytes (row # fs) =
     (if rowCount < th_RowCount header \<and> row_tag row
      then bindE (preflight_row header row) (\<lambda>n. preflight_rows header (rowCount + 1) (tableDecodedBytes + n) fs)
      else Inr (rowCount, tableDecodedBytes, row # fs))"

lemma preflight_rows_shorter: "preflight_rows header n b fs = Inr (n', b', rest) \<Longrightarrow> length rest \<le> length fs"
  by (induction fs arbitrary: n b) (auto simp: bindE_Inr_iff le_SucI split: if_splits)

function preflight_tables :: "nat \<Rightarrow> cpic_field list \<Rightarrow> classic_error + unit" where
  "preflight_tables resultDecodedBytes [] = Inr ()"
| "preflight_tables resultDecodedBytes [field] = Inr ()"
| "preflight_tables resultDecodedBytes (field # h # fs) =
     (if fd_Tag field \<noteq> CpicTagTableName \<or> fd_Tag h \<noteq> CpicTagTableHeader then preflight_tables resultDecodedBytes (h # fs)
      else case decodeParameterName (fd_Value field) of
          Inl e \<Rightarrow> Inl e
        | Inr name \<Rightarrow>
            (case DecodeRfcTableHeader (fd_Value h) of
               Inl e \<Rightarrow> Inl e
             | Inr header \<Rightarrow>
                 (case preflight_rows header 0 0 fs of
                    Inl e \<Rightarrow> Inl e
                  | Inr (rowCount, tableDecodedBytes, rest) \<Rightarrow>
                      if rowCount \<noteq> th_RowCount header then Inl ErrClassicProtocol
                      else if int tableDecodedBytes > defaultMaxTableDecodedBytes then Inl ErrClassicRange
                      else if int (resultDecodedBytes + tableDecodedBytes) > defaultMaxResultTableDecodedBytes then Inl ErrClassicRange
                      else preflight_tables (resultDecodedBytes + tableDecodedBytes) rest)))"
  by pat_completeness auto
termination
  by (relation "measure (\<lambda>(b, fs). length fs)") (auto dest!: preflight_rows_shorter)

definition preflightTableBytes :: "cpic_field list \<Rightarrow> classic_error + unit" where
  "preflightTableBytes flds = preflight_tables 0 flds"

section \<open>Grouping\<close>

text \<open>
  The rows that follow a table header. Only the classic form checks the uncompressed rows; the S/4HANA form, \<open>classic = False\<close>, takes them as they are.
\<close>

definition decode_row :: "bool \<Rightarrow> table_header \<Rightarrow> cpic_field \<Rightarrow> classic_error + bytes" where
  "decode_row classic header f =
     (if fd_Tag f = CpicTagTableCompr then decodeSimpleCompressedTableRow (fd_Value f) (th_DeclaredRowByteLength header)
      else bindE (fail_if (classic \<and> fd_Value f = []) ErrClassicProtocol) (\<lambda>_.
        bindE (fail_if (classic \<and> of_nat (length (fd_Value f)) > th_DeclaredRowByteLength header) ErrClassicProtocol) (\<lambda>_.
        Inr (fd_Value f))))"

fun table_rows :: "bool \<Rightarrow> table_header \<Rightarrow> nat \<Rightarrow> cpic_field list \<Rightarrow> classic_error + ((bool \<times> bytes) list \<times> cpic_field list)" where
  "table_rows classic header n [] = Inr ([], [])"
| "table_rows classic header n (f # fs) =
     (if of_nat n < th_RowCount header \<and> row_tag f
      then bindE (decode_row classic header f) (\<lambda>row.
        bindE (table_rows classic header (Suc n) fs) (\<lambda>(rows, rest).
        Inr ((fd_Tag f = CpicTagTableCompr, row) # rows, rest)))
      else Inr ([], f # fs))"

lemma table_rows_shorter: "table_rows classic header n fs = Inr (rows, rest) \<Longrightarrow> length rest \<le> length fs"
  by (induction fs arbitrary: n rows) (auto simp: bindE_Inr_iff le_SucI split: if_splits)

definition row_form_of :: "row_form \<Rightarrow> (bool \<times> bytes) list \<Rightarrow> row_form" where
  "row_form_of none rows =
     (let sawUncompressed = list_ex (\<lambda>r. \<not> fst r) rows; sawSimpleCompressed = list_ex fst rows in
      if sawUncompressed \<and> sawSimpleCompressed then RowMixed else if sawUncompressed then RowFlat
      else if sawSimpleCompressed then RowStructured else none)"

definition make_table :: "gostring \<Rightarrow> table_header \<Rightarrow> row_form \<Rightarrow> (bool \<times> bytes) list \<Rightarrow> result_table" where
  "make_table name header none rows =
     \<lparr>rt_Name = name, rt_DeclaredRowByteLength = th_DeclaredRowByteLength header,
      rt_RowByteLength = (case rows of [] \<Rightarrow> unat (th_DeclaredRowByteLength header) | r # _ \<Rightarrow> length (snd r)),
      rt_RowEncoding = row_form_of none rows, rt_Rows = map snd rows\<rparr>"

definition counted_rows :: "bool \<Rightarrow> table_header \<Rightarrow> cpic_field list \<Rightarrow> classic_error + ((bool \<times> bytes) list \<times> cpic_field list)" where
  "counted_rows classic header fs =
     bindE (table_rows classic header 0 fs) (\<lambda>(rows, rest).
     bindE (fail_if (of_nat (length rows) \<noteq> th_RowCount header) ErrClassicProtocol) (\<lambda>_. Inr (rows, rest)))"

definition classic_table :: "gostring list \<Rightarrow> cpic_field \<Rightarrow> cpic_field list \<Rightarrow> classic_error + (result_table \<times> cpic_field list)" where
  "classic_table names field fs =
     bindE (decodeParameterName (fd_Value field)) (\<lambda>name.
     case fs of
       [] \<Rightarrow> Inl ErrClassicProtocol
     | h # fs' \<Rightarrow>
         bindE (fail_if (fd_Tag h \<noteq> CpicTagTableHeader) ErrClassicProtocol) (\<lambda>_.
         bindE (fail_if (name \<in> set names) ErrClassicProtocol) (\<lambda>_.
         bindE (DecodeRfcTableHeader (fd_Value h)) (\<lambda>header.
         bindE (counted_rows True header fs') (\<lambda>(rows, rest).
         Inr (make_table name header RowEmpty rows, rest))))))"

definition s4_name :: "bytes \<Rightarrow> gostring" where
  "s4_name v = gostr ''S4TAB'' @ decimal (unat (get32be (take 4 (drop 4 v))))"

definition s4_mixed_table :: "cpic_field \<Rightarrow> cpic_field list \<Rightarrow> classic_error + (result_table \<times> cpic_field list)" where
  "s4_mixed_table field fs =
     bindE (fail_if (length (fd_Value field) < 12) ErrClassicProtocol) (\<lambda>_.
     case fs of
       [] \<Rightarrow> Inl ErrClassicProtocol
     | h # fs' \<Rightarrow>
         bindE (fail_if (fd_Tag h \<noteq> CpicTagTableHeader) ErrClassicProtocol) (\<lambda>_.
         bindE (DecodeRfcTableHeader (fd_Value h)) (\<lambda>header.
         bindE (counted_rows False header fs') (\<lambda>(rows, rest).
         Inr (make_table (s4_name (fd_Value field)) header RowFlat rows, rest)))))"

definition s4_native_table :: "cpic_field \<Rightarrow> cpic_field list \<Rightarrow> classic_error + (result_table \<times> cpic_field list)" where
  "s4_native_table field fs =
     bindE (fail_if (length (fd_Value field) < 12) ErrClassicProtocol) (\<lambda>_.
     let count = unat (get32be (take 4 (drop 8 (fd_Value field)))) in
     case fs of
       [] \<Rightarrow> Inl ErrClassicProtocol
     | d # rest \<Rightarrow>
         bindE (fail_if (fd_Tag d \<noteq> 0x0334) ErrClassicProtocol) (\<lambda>_.
         bindE (fail_if (count > 0 \<and> length (fd_Value d) mod count \<noteq> 0) ErrClassicProtocol) (\<lambda>_.
         let width = (if count > 0 then length (fd_Value d) div count else 0) in
         Inr (\<lparr>rt_Name = s4_name (fd_Value field), rt_DeclaredRowByteLength = of_nat width, rt_RowByteLength = width, rt_RowEncoding = RowFlat,
                rt_Rows = map (\<lambda>r. gslice (r * width) ((r + 1) * width) (fd_Value d)) [0..<count]\<rparr>, rest))))"

fun xrfc_data :: "nat \<Rightarrow> cpic_field list \<Rightarrow> classic_error + (bytes list \<times> cpic_field list)" where
  "xrfc_data byteLength [] = Inr ([], [])"
| "xrfc_data byteLength (f # fs) =
     (if fd_Tag f = CpicTagXRfcData
      then bindE (fail_if (fd_Value f = []) ErrClassicProtocol) (\<lambda>_.
        bindE (fail_if (int (byteLength + length (fd_Value f)) > DefaultMaxFieldChainLength) ErrClassicRange) (\<lambda>_.
        bindE (xrfc_data (byteLength + length (fd_Value f)) fs) (\<lambda>(chunks, rest). Inr (fd_Value f # chunks, rest))))
      else Inr ([], f # fs))"

lemma xrfc_data_shorter: "xrfc_data b fs = Inr (chunks, rest) \<Longrightarrow> length rest \<le> length fs"
  by (induction fs arbitrary: b chunks) (auto simp: bindE_Inr_iff le_SucI split: if_splits)

definition xrfc_group :: "cpic_field \<Rightarrow> cpic_field list \<Rightarrow> classic_error + (xrfc_parameter \<times> cpic_field list)" where
  "xrfc_group field fs =
     bindE (fail_if (fd_Value field \<noteq> []) ErrClassicProtocol) (\<lambda>_.
     bindE (xrfc_data 0 fs) (\<lambda>(chunks, rest).
     bindE (fail_if (chunks = []) ErrClassicProtocol) (\<lambda>_.
     case rest of
       [] \<Rightarrow> Inl ErrClassicProtocol
     | c # rest' \<Rightarrow>
         bindE (fail_if (fd_Tag c \<noteq> CpicTagXRfcParameter \<or> fd_Value c \<noteq> []) ErrClassicProtocol) (\<lambda>_.
         Inr (\<lparr>xp_Value = concat chunks, xp_ChunkCount = length chunks\<rparr>, rest')))))"

lemma xrfc_group_Inr:
  "xrfc_group field fs = Inr (x, rest) \<longleftrightarrow> fd_Value field = [] \<and>
     (\<exists>chunks c. xrfc_data 0 fs = Inr (chunks, c # rest) \<and> chunks \<noteq> [] \<and> fd_Tag c = CpicTagXRfcParameter \<and> fd_Value c = [] \<and>
        x = \<lparr>xp_Value = concat chunks, xp_ChunkCount = length chunks\<rparr>)"
proof (cases "xrfc_data 0 fs")
  case (Inr p)
  obtain chunks r where p: "p = (chunks, r)" by (cases p)
  show ?thesis by (cases r) (auto simp: xrfc_group_def Inr p bindE_Inr_iff)
qed (auto simp: xrfc_group_def bindE_Inr_iff)

definition scalar_group :: "gostring list \<Rightarrow> cpic_field \<Rightarrow> cpic_field list \<Rightarrow> classic_error + (scalar_value \<times> cpic_field list)" where
  "scalar_group names field fs =
     bindE (decodeParameterName (fd_Value field)) (\<lambda>name.
     case fs of
       [] \<Rightarrow> Inl ErrClassicProtocol
     | v # rest \<Rightarrow>
         bindE (fail_if (fd_Tag v \<noteq> CpicTagParameterValue) ErrClassicProtocol) (\<lambda>_.
         bindE (fail_if (name \<in> set names) ErrClassicProtocol) (\<lambda>_.
         Inr (\<lparr>sv_Name = name, sv_Value = fd_Value v\<rparr>, rest))))"

text \<open>One turn of the loop of \<open>decodeResult\<close>: the result and the names so far, and the fields that remain.\<close>

type_synonym group_state = "classic_result \<times> gostring list"

definition group_step :: "group_state \<Rightarrow> cpic_field \<Rightarrow> cpic_field list \<Rightarrow> classic_error + (group_state \<times> cpic_field list)" where
  "group_step st field fs =
     (case st of (result, names) \<Rightarrow>
      let tag = fd_Tag field in
      if tag \<in> nonApplicationTags then Inr ((result, names), fs)
      else if tag = CpicTagRequestedOutput then
        bindE (decodeParameterName (fd_Value field)) (\<lambda>name.
        Inr ((result\<lparr>gr_RequestedOutputs := gr_RequestedOutputs result @ [name]\<rparr>, names), fs))
      else if tag = CpicTagXRfcData then Inl ErrClassicProtocol
      else if tag = CpicTagXRfcParameter then
        bindE (xrfc_group field fs) (\<lambda>(x, rest).
        Inr ((result\<lparr>gr_XrfcParameters := gr_XrfcParameters result @ [x]\<rparr>, names), rest))
      else if tag = CpicTagParameterValue \<or> tag = CpicTagTableHeader \<or> tag = CpicTagTableContent \<or> tag = CpicTagTableCompr then Inl ErrClassicProtocol
      else if tag = CpicTagParameterName then
        bindE (scalar_group names field fs) (\<lambda>(s, rest).
        Inr ((result\<lparr>gr_Scalars := gr_Scalars result @ [s]\<rparr>, names @ [sv_Name s]), rest))
      else if tag = CpicTagTableName then
        bindE (classic_table names field fs) (\<lambda>(t, rest).
        Inr ((result\<lparr>gr_Tables := gr_Tables result @ [t]\<rparr>, names @ [rt_Name t]), rest))
      else if tag = 0x0331 \<or> tag = 0x0336 \<or> tag = 0x0104 then Inr ((result, names), fs)
      else if tag = 0x0335 then
        bindE (s4_mixed_table field fs) (\<lambda>(t, rest). Inr ((result\<lparr>gr_Tables := gr_Tables result @ [t]\<rparr>, names), rest))
      else if tag = 0x0333 then
        bindE (s4_native_table field fs) (\<lambda>(t, rest). Inr ((result\<lparr>gr_Tables := gr_Tables result @ [t]\<rparr>, names), rest))
      else Inl ErrClassicProtocol)"

lemma scalar_group_Inr:
  "scalar_group names field fs = Inr (x, rest) \<longleftrightarrow>
     (\<exists>name v. decodeParameterName (fd_Value field) = Inr name \<and> fs = v # rest \<and> fd_Tag v = CpicTagParameterValue \<and> name \<notin> set names \<and>
        x = \<lparr>sv_Name = name, sv_Value = fd_Value v\<rparr>)"
  by (cases fs) (auto simp: scalar_group_def bindE_Inr_iff)

lemma counted_rows_Inr:
  "counted_rows classic header fs = Inr (rows, rest) \<longleftrightarrow>
     table_rows classic header 0 fs = Inr (rows, rest) \<and> of_nat (length rows) = th_RowCount header"
  by (auto simp: counted_rows_def bindE_Inr_iff)

lemma classic_table_Inr:
  "classic_table names field fs = Inr (x, rest) \<longleftrightarrow>
     (\<exists>name h fs' header rows. decodeParameterName (fd_Value field) = Inr name \<and> fs = h # fs' \<and> fd_Tag h = CpicTagTableHeader \<and> name \<notin> set names \<and>
        DecodeRfcTableHeader (fd_Value h) = Inr header \<and> counted_rows True header fs' = Inr (rows, rest) \<and> x = make_table name header RowEmpty rows)"
  by (cases fs) (auto simp: classic_table_def bindE_Inr_iff)

lemma s4_mixed_Inr:
  "s4_mixed_table field fs = Inr (x, rest) \<longleftrightarrow> 12 \<le> length (fd_Value field) \<and>
     (\<exists>h fs' header rows. fs = h # fs' \<and> fd_Tag h = CpicTagTableHeader \<and> DecodeRfcTableHeader (fd_Value h) = Inr header \<and>
        counted_rows False header fs' = Inr (rows, rest) \<and> x = make_table (s4_name (fd_Value field)) header RowFlat rows)"
  by (cases fs) (auto simp: s4_mixed_table_def bindE_Inr_iff)

lemma group_step_shorter:
  assumes "group_step st field fs = Inr (st', rest)"
  shows "length rest \<le> length fs"
proof -
  have c: "counted_rows b header fs' = Inr (rows, rest) \<Longrightarrow> length rest \<le> length fs'" for b header fs' rows
    by (auto simp: counted_rows_Inr dest!: table_rows_shorter)
  have x: "xrfc_group field fs = Inr (x, rest) \<Longrightarrow> length rest \<le> length fs" for x
    by (auto simp: xrfc_group_Inr dest!: xrfc_data_shorter)
  have s: "scalar_group names field fs = Inr (x, rest) \<Longrightarrow> length rest \<le> length fs" for names x
    by (auto simp: scalar_group_Inr)
  have t: "classic_table names field fs = Inr (x, rest) \<Longrightarrow> length rest \<le> length fs" for names x
    by (auto simp: classic_table_Inr dest!: c)
  have m: "s4_mixed_table field fs = Inr (x, rest) \<Longrightarrow> length rest \<le> length fs" for x
    by (auto simp: s4_mixed_Inr dest!: c)
  have n: "s4_native_table field fs = Inr (x, rest) \<Longrightarrow> length rest \<le> length fs" for x
    by (cases fs) (auto simp: s4_native_table_def bindE_Inr_iff Let_def)
  show ?thesis
    using assms unfolding group_step_def by (auto simp: bindE_Inr_iff Let_def dest: x s t m n split: prod.splits if_splits)
qed

function group_fields :: "group_state \<Rightarrow> cpic_field list \<Rightarrow> classic_error + classic_result" where
  "group_fields st [] = Inr (fst st)"
| "group_fields st (field # fs) =
     (case group_step st field fs of
        Inl e \<Rightarrow> Inl e
      | Inr (st', rest) \<Rightarrow> group_fields st' rest)"
  by pat_completeness auto
termination
  by (relation "measure (\<lambda>(st, fs). length fs)") (auto dest!: group_step_shorter)

definition empty_result :: classic_result where
  "empty_result = \<lparr>gr_RequestedOutputs = [], gr_Scalars = [], gr_Tables = [], gr_XrfcParameters = []\<rparr>"

definition decodeResult :: "cpic_field list \<Rightarrow> bool \<Rightarrow> classic_error + classic_result" where
  "decodeResult flds borrow =
     bindE (preflightResultBytes flds) (\<lambda>_.
     bindE (preflightTableBytes flds) (\<lambda>_.
     group_fields (empty_result, []) flds))"

definition DecodeResult :: "cpic_field list \<Rightarrow> classic_error + classic_result" where
  "DecodeResult flds = decodeResult flds False"

definition DecodeOwnedResult :: "cpic_field list \<Rightarrow> classic_error + classic_result" where
  "DecodeOwnedResult flds = decodeResult flds True"

section \<open>Rows of RFC_FUNINT\<close>

record funint_parameter =
  fp_ParameterClass :: gostring
  fp_ParameterName :: gostring
  fp_TableName :: gostring
  fp_FieldName :: gostring
  fp_Exid :: gostring
  fp_Position :: u32
  fp_Offset :: u32
  fp_InternalLength :: u32
  fp_Decimals :: u32
  fp_DefaultValue :: gostring
  fp_ParameterText :: gostring
  fp_Optional :: bool

definition dc :: "bytes \<Rightarrow> nat \<Rightarrow> nat \<Rightarrow> classic_error + gostring" where
  "dc prefix off chars = DecodeAbapChar (gslice off (off + 2 * chars) prefix) (Some (int chars))"

definition DecodeFunintRow :: "bytes \<Rightarrow> classic_error + funint_parameter" where
  "DecodeFunintRow v =
     bindE (fail_if (length v < RfcFunintUnicodeRowLength) ErrClassicRange) (\<lambda>_.
     let prefix = take RfcFunintUnicodeRowLength v in
     bindE (dc prefix 0 1) (\<lambda>parameterClass.
     bindE (dc prefix 2 30) (\<lambda>parameterName.
     bindE (dc prefix 62 30) (\<lambda>tableName.
     bindE (dc prefix 122 30) (\<lambda>fieldName.
     bindE (dc prefix 182 1) (\<lambda>exid.
     let position = get32le (drop 184 prefix); offset = get32le (drop 188 prefix);
         internalLength = get32le (drop 192 prefix); decimals = get32le (drop 196 prefix) in
     bindE (dc prefix 200 21) (\<lambda>defaultValue.
     bindE (dc prefix 242 79) (\<lambda>parameterText.
     bindE (dc prefix 400 1) (\<lambda>optionalText.
     bindE (fail_if (optionalText \<noteq> [] \<and> optionalText \<noteq> gostr ''X'') ErrClassicProtocol) (\<lambda>_.
     Inr \<lparr>fp_ParameterClass = parameterClass, fp_ParameterName = parameterName, fp_TableName = tableName, fp_FieldName = fieldName,
          fp_Exid = exid, fp_Position = position, fp_Offset = offset, fp_InternalLength = internalLength, fp_Decimals = decimals,
          fp_DefaultValue = defaultValue, fp_ParameterText = parameterText, fp_Optional = (optionalText = gostr ''X'')\<rparr>))))))))))"

end
