(* ===== verification/Classic_Result.thy ===== *)
theory Classic_Result
  imports Classic_Rfc
begin

text \<open>
  Properties of the grouping of results: the parameters of a result, written in any order and form, are read back; the preflight bounds
  the table bytes of classic tables, and the S/4HANA tables escape it; rows of \<open>RFC_FUNINT\<close> are read by their stable prefix.
\<close>

section \<open>Parameters and their fields\<close>

datatype param =
    POutput gostring
  | PScalar gostring bytes
  | PTable gostring u32 "(bool \<times> bytes) list"
  | PXrfc "bytes list"
  | PMarker u16 bytes

definition row_field :: "bool \<times> bytes \<Rightarrow> cpic_field" where
  "row_field r = cfield (if fst r then CpicTagTableCompr else CpicTagTableContent) (snd r)"

definition header_bytes :: "u32 \<Rightarrow> nat \<Rightarrow> bytes" where
  "header_bytes w n = put32be w @ put32be (of_nat n)"

fun param_fields :: "param \<Rightarrow> cpic_field list" where
  "param_fields (POutput name) = [cfield CpicTagRequestedOutput (utf16leEncode name)]"
| "param_fields (PScalar name v) = [cfield CpicTagParameterName (utf16leEncode name), cfield CpicTagParameterValue v]"
| "param_fields (PTable name w rows) =
     cfield CpicTagTableName (utf16leEncode name) # cfield CpicTagTableHeader (header_bytes w (length rows)) # map row_field rows"
| "param_fields (PXrfc chunks) = cfield CpicTagXRfcParameter [] # map (cfield CpicTagXRfcData) chunks @ [cfield CpicTagXRfcParameter []]"
| "param_fields (PMarker tag v) = [cfield tag v]"

definition name_ok :: "gostring \<Rightarrow> bool" where
  "name_ok name \<longleftrightarrow> ValidString name \<and> name \<noteq> [] \<and> trimRight name = name \<and> \<not> controlChar name"

definition row_ok :: "u32 \<Rightarrow> bool \<times> bytes \<Rightarrow> bool" where
  "row_ok w r \<longleftrightarrow> snd r \<noteq> [] \<and> length (snd r) \<le> unat w \<and> (fst r \<and> length (snd r) < unat w \<longrightarrow> int (unat w) \<le> DefaultMaxFieldLength)"

definition expand_row :: "u32 \<Rightarrow> bool \<times> bytes \<Rightarrow> bool \<times> bytes" where
  "expand_row w r = (fst r, if fst r then snd r @ replicate (unat w - length (snd r)) (last (snd r)) else snd r)"

fun param_ok :: "param \<Rightarrow> bool" where
  "param_ok (POutput name) \<longleftrightarrow> name_ok name"
| "param_ok (PScalar name v) \<longleftrightarrow> name_ok name"
| "param_ok (PTable name w rows) \<longleftrightarrow> name_ok name \<and> list_all (row_ok w) rows"
| "param_ok (PXrfc chunks) \<longleftrightarrow> chunks \<noteq> [] \<and> list_all (\<lambda>c. c \<noteq> []) chunks"
| "param_ok (PMarker tag v) \<longleftrightarrow> tag \<in> nonApplicationTags \<or> tag = 0x0331 \<or> tag = 0x0336 \<or> tag = 0x0104"

fun param_names :: "param \<Rightarrow> gostring list" where
  "param_names (PScalar name v) = [name]"
| "param_names (PTable name w rows) = [name]"
| "param_names _ = []"

definition rows_bytes :: "(bool \<times> bytes) list \<Rightarrow> nat" where
  "rows_bytes rows = sum_list (map (\<lambda>r. length (snd r)) rows)"

fun param_bytes :: "param \<Rightarrow> nat" where
  "param_bytes (PTable name w rows) = rows_bytes (map (expand_row w) rows)"
| "param_bytes _ = 0"

fun add_param :: "classic_result \<Rightarrow> param \<Rightarrow> classic_result" where
  "add_param r (POutput name) = r\<lparr>gr_RequestedOutputs := gr_RequestedOutputs r @ [name]\<rparr>"
| "add_param r (PScalar name v) = r\<lparr>gr_Scalars := gr_Scalars r @ [\<lparr>sv_Name = name, sv_Value = v\<rparr>]\<rparr>"
| "add_param r (PTable name w rows) =
     r\<lparr>gr_Tables := gr_Tables r @ [make_table name \<lparr>th_DeclaredRowByteLength = w, th_RowCount = of_nat (length rows)\<rparr> RowEmpty (map (expand_row w) rows)]\<rparr>"
| "add_param r (PXrfc chunks) = r\<lparr>gr_XrfcParameters := gr_XrfcParameters r @ [\<lparr>xp_Value = concat chunks, xp_ChunkCount = length chunks\<rparr>]\<rparr>"
| "add_param r (PMarker tag v) = r"

definition field_bytes :: "cpic_field list \<Rightarrow> nat" where
  "field_bytes fs = sum_list (map (\<lambda>f. length (fd_Value f)) fs)"

section \<open>Names and rows\<close>

lemma fail_if_bool [simp]: "fail_if False e = Inr ()" "fail_if True e = Inl e"
  by (simp_all add: fail_if_def)

lemmas classic_tags = cpic_tags CpicTagTableContent_def CpicTagProgram_def CpicTagUnresolved0420_def CpicTagResponseContext_def

lemma decode_name:
  assumes "name_ok name"
  shows "decodeParameterName (utf16leEncode name) = Inr name"
proof -
  obtain rs where rs: "runes_of name = Some rs" using assms by (auto simp: name_ok_def ValidString_def)
  show ?thesis
    using assms utf16le_roundtrip [OF rs] by (simp add: decodeParameterName_def decode_char_exact(1) name_ok_def)
qed

lemma decode_header: "DecodeRfcTableHeader (header_bytes w n) = Inr \<lparr>th_DeclaredRowByteLength = w, th_RowCount = of_nat n\<rparr>"
  by (simp add: DecodeRfcTableHeader_def header_bytes_def)

lemma of_nat_fits: "n \<le> unat (w :: u32) \<Longrightarrow> unat (of_nat n :: u32) = n"
  using unsigned_less [of w, where ?'a = nat] by (simp add: unat_of_nat)

lemma row_conditions:
  assumes "n \<le> unat (w :: u32)"
  shows "\<not> (of_nat n > w)" "of_nat n = w \<longleftrightarrow> n = unat w" "of_nat n < w \<longleftrightarrow> n < unat w"
proof -
  have u: "unat (of_nat n :: u32) = n" by (rule of_nat_fits [OF assms])
  show "\<not> (of_nat n > w)" "of_nat n < w \<longleftrightarrow> n < unat w" using u assms by (simp_all add: word_less_nat_alt)
  show "of_nat n = w \<longleftrightarrow> n = unat w" using u by (metis word_unat_eq_iff)
qed

lemma decode_compressed:
  assumes "row_ok w (True, e)"
  shows "decodeSimpleCompressedTableRow e w = Inr (snd (expand_row w (True, e)))"
proof -
  have r: "e \<noteq> []" "length e \<le> unat w" using assms by (auto simp: row_ok_def)
  note c = row_conditions [OF r(2)]
  show ?thesis
  proof (cases "length e = unat w")
    case True
    then show ?thesis using r c by (simp add: decodeSimpleCompressedTableRow_def expand_row_def)
  next
    case False
    then have "\<not> int (unat w) > DefaultMaxFieldLength" using assms r(2) by (auto simp: row_ok_def)
    then show ?thesis using r c False by (simp add: decodeSimpleCompressedTableRow_def expand_row_def Let_def)
  qed
qed

lemma decode_row_field:
  assumes "row_ok w r" "th_DeclaredRowByteLength header = w"
  shows "decode_row True header (row_field r) = Inr (snd (expand_row w r))"
proof (cases r)
  case (Pair c e)
  show ?thesis
  proof (cases c)
    case True
    then show ?thesis using decode_compressed assms by (simp add: decode_row_def row_field_def Pair)
  next
    case False
    then show ?thesis using assms row_conditions(1) by (auto simp: decode_row_def row_field_def Pair row_ok_def expand_row_def classic_tags)
  qed
qed

lemma row_field_tag [simp]: "fd_Tag (row_field r) = CpicTagTableContent \<longleftrightarrow> \<not> fst r" "fd_Tag (row_field r) = CpicTagTableCompr \<longleftrightarrow> fst r" "fd_Value (row_field r) = snd r"
  by (auto simp: row_field_def classic_tags)

lemma counter_less: "n + k < 2 ^ 32 \<Longrightarrow> (of_nat n :: u32) < of_nat (n + k) \<longleftrightarrow> 0 < k"
  by (simp add: word_less_nat_alt unat_of_nat del: of_nat_add)

lemma table_rows_fields:
  assumes "list_all (row_ok w) rows" "th_DeclaredRowByteLength header = w" "th_RowCount header = of_nat (n + length rows)" "n + length rows < 2 ^ 32"
  shows "table_rows True header n (map row_field rows @ rest) = Inr (map (expand_row w) rows, rest)"
  using assms
proof (induction rows arbitrary: n)
  case Nil
  then show ?case by (cases rest) (simp_all add: counter_less [of n 0, simplified])
next
  case (Cons r rows)
  have lt: "of_nat n < th_RowCount header" using Cons.prems(3,4) counter_less [of n "length (r # rows)"] by simp
  have d: "decode_row True header (row_field r) = Inr (snd (expand_row w r))" by (rule decode_row_field) (use Cons.prems in simp_all)
  have ih: "table_rows True header (Suc n) (map row_field rows @ rest) = Inr (map (expand_row w) rows, rest)"
    by (rule Cons.IH) (use Cons.prems in simp_all)
  show ?case unfolding list.map append_Cons table_rows.simps using lt d ih by (simp add: expand_row_def)
qed

lemma preflight_row_field:
  assumes "row_ok w r" "th_DeclaredRowByteLength header = w"
  shows "preflight_row header (row_field r) = Inr (length (snd (expand_row w r)))"
proof (cases r)
  case (Pair c e)
  have r: "e \<noteq> []" "length e \<le> unat w" "c \<and> length e < unat w \<longrightarrow> int (unat w) \<le> DefaultMaxFieldLength" using assms(1) by (auto simp: row_ok_def Pair)
  show ?thesis
    using r row_conditions [OF r(2)] assms(2) by (auto simp: preflight_row_def row_field_def Pair expand_row_def Let_def fail_if_def classic_tags)
qed

lemma preflight_rows_fields:
  assumes "list_all (row_ok w) rows" "th_DeclaredRowByteLength header = w" "th_RowCount header = of_nat (n + length rows)" "n + length rows < 2 ^ 32"
  shows "preflight_rows header (of_nat n) b (map row_field rows @ rest) = Inr (of_nat (n + length rows), b + rows_bytes (map (expand_row w) rows), rest)"
  using assms
proof (induction rows arbitrary: n b)
  case Nil
  then show ?case by (cases rest) (simp_all add: rows_bytes_def)
next
  case (Cons r rows)
  have lt: "of_nat n < th_RowCount header" using Cons.prems(3,4) counter_less [of n "length (r # rows)"] by simp
  have d: "preflight_row header (row_field r) = Inr (length (snd (expand_row w r)))" by (rule preflight_row_field) (use Cons.prems in simp_all)
  have ih: "preflight_rows header (of_nat (Suc n)) b' (map row_field rows @ rest) = Inr (of_nat (Suc n + length rows), b' + rows_bytes (map (expand_row w) rows), rest)" for b'
    by (rule Cons.IH) (use Cons.prems in simp_all)
  have s: "(of_nat n :: u32) + 1 = of_nat (Suc n)" by simp
  show ?case unfolding list.map append_Cons preflight_rows.simps using lt d unfolding s by (simp only: ih bindE.simps if_True row_field_tag simp_thms excluded_middle) (simp add: rows_bytes_def)
qed

section \<open>One parameter\<close>

lemma xrfc_data_chunks:
  assumes "list_all (\<lambda>c. c \<noteq> []) chunks" "int (b + sum_list (map length chunks)) \<le> DefaultMaxFieldChainLength" "fd_Tag e \<noteq> CpicTagXRfcData"
  shows "xrfc_data b (map (cfield CpicTagXRfcData) chunks @ e # rest) = Inr (chunks, e # rest)"
  using assms
proof (induction chunks arbitrary: b)
  case (Cons c chunks)
  have "xrfc_data (b + length c) (map (cfield CpicTagXRfcData) chunks @ e # rest) = Inr (chunks, e # rest)"
    by (rule Cons.IH) (use Cons.prems in simp_all)
  then show ?case using Cons.prems by simp
qed simp

lemma param_ne: "param_fields p \<noteq> []"
  by (cases p) simp_all

lemma marker_tags:
  "CpicTagRequestedOutput \<notin> nonApplicationTags" "CpicTagParameterName \<notin> nonApplicationTags" "CpicTagTableName \<notin> nonApplicationTags"
  "CpicTagXRfcParameter \<notin> nonApplicationTags" "0x0331 \<notin> nonApplicationTags" "0x0336 \<notin> nonApplicationTags" "0x0104 \<notin> nonApplicationTags"
  "CpicTagTableHeader \<notin> nonApplicationTags" "0x0335 \<notin> nonApplicationTags" "0x0333 \<notin> nonApplicationTags"
  by (simp_all add: nonApplicationTags_def classic_tags)

lemma group_param:
  assumes "param_ok p" "set (param_names p) \<inter> set names = {}" "length (param_fields p) < 2 ^ 32" "int (field_bytes (param_fields p)) \<le> DefaultMaxFieldChainLength"
  shows "group_fields (r, names) (param_fields p @ rest) = group_fields (add_param r p, names @ param_names p) rest"
proof (cases p)
  case (POutput name)
  then show ?thesis using assms(1) decode_name marker_tags by (simp add: group_step_def)
next
  case (PScalar name v)
  have "scalar_group names (cfield CpicTagParameterName (utf16leEncode name)) (cfield CpicTagParameterValue v # rest) = Inr (\<lparr>sv_Name = name, sv_Value = v\<rparr>, rest)"
    using assms(1,2) decode_name by (auto simp: PScalar scalar_group_Inr)
  then show ?thesis using marker_tags by (simp add: PScalar group_step_def) (simp add: classic_tags)
next
  case (PTable name w rows)
  let ?h = "\<lparr>th_DeclaredRowByteLength = w, th_RowCount = of_nat (length rows)\<rparr>"
  have "table_rows True ?h 0 (map row_field rows @ rest) = Inr (map (expand_row w) rows, rest)"
    by (rule table_rows_fields) (use assms(1,3) in \<open>simp_all add: PTable\<close>)
  then have "classic_table names (cfield CpicTagTableName (utf16leEncode name)) (cfield CpicTagTableHeader (header_bytes w (length rows)) # map row_field rows @ rest) =
      Inr (make_table name ?h RowEmpty (map (expand_row w) rows), rest)"
    using assms(1,2) decode_name by (auto simp: PTable classic_table_Inr counted_rows_Inr decode_header)
  then show ?thesis using marker_tags by (simp add: PTable group_step_def make_table_def) (simp add: classic_tags)
next
  case (PXrfc chunks)
  have "xrfc_data 0 (map (cfield CpicTagXRfcData) chunks @ cfield CpicTagXRfcParameter [] # rest) = Inr (chunks, cfield CpicTagXRfcParameter [] # rest)"
    by (rule xrfc_data_chunks) (use assms(1,4) in \<open>simp_all add: PXrfc field_bytes_def comp_def classic_tags\<close>)
  then have "xrfc_group (cfield CpicTagXRfcParameter []) (map (cfield CpicTagXRfcData) chunks @ cfield CpicTagXRfcParameter [] # rest) =
      Inr (\<lparr>xp_Value = concat chunks, xp_ChunkCount = length chunks\<rparr>, rest)"
    using assms(1) by (auto simp: PXrfc xrfc_group_Inr)
  moreover have "CpicTagXRfcParameter \<noteq> CpicTagRequestedOutput" "CpicTagXRfcParameter \<noteq> CpicTagXRfcData" by (simp_all add: classic_tags)
  ultimately show ?thesis using marker_tags(4) by (simp add: PXrfc group_step_def)
next
  case (PMarker tag v)
  show ?thesis
  proof (cases "tag \<in> nonApplicationTags")
    case True
    then show ?thesis by (simp add: PMarker group_step_def)
  next
    case False
    then have "tag = 0x0331 \<or> tag = 0x0336 \<or> tag = 0x0104" using assms(1) by (simp add: PMarker)
    then have t: "tag \<noteq> CpicTagRequestedOutput" "tag \<noteq> CpicTagXRfcData" "tag \<noteq> CpicTagXRfcParameter" "tag \<noteq> CpicTagParameterValue"
        "tag \<noteq> CpicTagTableHeader" "tag \<noteq> CpicTagTableContent" "tag \<noteq> CpicTagTableCompr" "tag \<noteq> CpicTagParameterName" "tag \<noteq> CpicTagTableName"
        "(tag = 0x0331 \<or> tag = 0x0336 \<or> tag = 0x0104) = True"
      unfolding classic_tags by auto
    have "group_step (r, names) (cfield tag v) rest = Inr ((r, names), rest)"
      unfolding group_step_def prod.case Let_def cpic_field.simps using False t by (simp only: if_False if_True simp_thms)
    then show ?thesis by (simp add: PMarker)
  qed
qed

lemma preflight_skip: "fd_Tag f \<noteq> CpicTagTableName \<Longrightarrow> preflight_tables b (f # fs) = preflight_tables b fs"
  by (cases fs) simp_all

lemma preflight_skips: "list_all (\<lambda>f. fd_Tag f \<noteq> CpicTagTableName) fs \<Longrightarrow> preflight_tables b (fs @ rest) = preflight_tables b rest"
  by (induction fs) (simp_all add: preflight_skip)

lemma preflight_param:
  assumes "param_ok p" "length (param_fields p) < 2 ^ 32" "int (b + param_bytes p) \<le> DefaultMaxFieldChainLength"
  shows "preflight_tables b (param_fields p @ rest) = preflight_tables (b + param_bytes p) rest"
proof (cases "\<exists>name w rows. p = PTable name w rows")
  case True
  then obtain name w rows where p: "p = PTable name w rows" by blast
  let ?h = "\<lparr>th_DeclaredRowByteLength = w, th_RowCount = of_nat (length rows)\<rparr>"
  have "preflight_rows ?h (of_nat 0) 0 (map row_field rows @ rest) = Inr (of_nat (0 + length rows), 0 + rows_bytes (map (expand_row w) rows), rest)"
    by (rule preflight_rows_fields) (use assms(1,2) in \<open>simp_all add: p\<close>)
  then have "preflight_rows ?h 0 0 (map row_field rows @ rest) = Inr (of_nat (length rows), rows_bytes (map (expand_row w) rows), rest)" by simp
  then show ?thesis
    using assms(1,3) decode_name by (simp add: p decode_header defaultMaxTableDecodedBytes_def defaultMaxResultTableDecodedBytes_def)
next
  case False
  have "list_all (\<lambda>f. fd_Tag f \<noteq> CpicTagTableName) (param_fields p)"
    using False assms(1) by (cases p) (auto simp: list_all_iff nonApplicationTags_def classic_tags)
  moreover have "param_bytes p = 0" using False by (cases p) simp_all
  ultimately show ?thesis by (simp add: preflight_skips)
qed

section \<open>Whole results\<close>

lemma preflight_sum_ok: "int (b + field_bytes fs) \<le> DefaultMaxFieldChainLength \<Longrightarrow> preflight_sum fs b = Inr ()"
  by (induction fs arbitrary: b) (simp_all add: field_bytes_def Let_def)

lemma group_params:
  assumes "list_all param_ok ps" "distinct (names @ concat (map param_names ps))"
    and "list_all (\<lambda>p. length (param_fields p) < 2 ^ 32 \<and> int (field_bytes (param_fields p)) \<le> DefaultMaxFieldChainLength) ps"
  shows "group_fields (r, names) (concat (map param_fields ps)) = Inr (foldl add_param r ps)"
  using assms
proof (induction ps arbitrary: r names)
  case (Cons p ps)
  have "group_fields (r, names) (param_fields p @ concat (map param_fields ps)) = group_fields (add_param r p, names @ param_names p) (concat (map param_fields ps))"
    by (rule group_param) (use Cons.prems in auto)
  also have "\<dots> = Inr (foldl add_param (add_param r p) ps)" by (rule Cons.IH) (use Cons.prems in simp_all)
  finally show ?case by simp
qed simp

lemma preflight_params:
  assumes "list_all param_ok ps" "int (b + sum_list (map param_bytes ps)) \<le> DefaultMaxFieldChainLength"
    and "list_all (\<lambda>p. length (param_fields p) < 2 ^ 32) ps"
  shows "preflight_tables b (concat (map param_fields ps)) = Inr ()"
  using assms
proof (induction ps arbitrary: b)
  case (Cons p ps)
  have "preflight_tables b (param_fields p @ concat (map param_fields ps)) = preflight_tables (b + param_bytes p) (concat (map param_fields ps))"
    by (rule preflight_param) (use Cons.prems in simp_all)
  also have "\<dots> = Inr ()" by (rule Cons.IH) (use Cons.prems in simp_all)
  finally show ?case by simp
qed simp

lemma params_small:
  assumes "int (length (concat (map param_fields ps))) \<le> DefaultMaxFieldCount" "int (field_bytes (concat (map param_fields ps))) \<le> DefaultMaxFieldChainLength"
  shows "list_all (\<lambda>p. length (param_fields p) < 2 ^ 32 \<and> int (field_bytes (param_fields p)) \<le> DefaultMaxFieldChainLength) ps"
  using assms by (induction ps) (auto simp: field_bytes_def DefaultMaxFieldCount_def)

lemma decode_params:
  assumes "list_all param_ok ps" "distinct (concat (map param_names ps))"
    and "int (length (concat (map param_fields ps))) \<le> DefaultMaxFieldCount" "int (field_bytes (concat (map param_fields ps))) \<le> DefaultMaxFieldChainLength"
    and "int (sum_list (map param_bytes ps)) \<le> DefaultMaxFieldChainLength"
  shows "DecodeResult (concat (map param_fields ps)) = Inr (foldl add_param empty_result ps)"
proof -
  note small = params_small [OF assms(3,4)]
  have g: "group_fields (empty_result, []) (concat (map param_fields ps)) = Inr (foldl add_param empty_result ps)"
    by (rule group_params) (use assms(1,2) small in simp_all)
  have t: "preflight_tables 0 (concat (map param_fields ps)) = Inr ()"
    by (rule preflight_params) (use assms(1,5) small in \<open>auto simp: list_all_iff\<close>)
  have s: "preflight_sum (concat (map param_fields ps)) 0 = Inr ()" by (rule preflight_sum_ok) (use assms(4) in simp)
  show ?thesis
    using assms(3) by (simp add: DecodeResult_def decodeResult_def preflightResultBytes_def preflightTableBytes_def s t g)
qed

text \<open>
  C31. Round trip of results: parameters in any number and order (requested outputs, scalars, tables with plain and compressed rows, xRFC
  documents in chunks, markers), with distinct names and within the limits, are read from their fields exactly, rows expanded.
\<close>

theorem result_roundtrip:
  assumes "list_all param_ok ps" "distinct (concat (map param_names ps))"
    and "int (length (concat (map param_fields ps))) \<le> DefaultMaxFieldCount" "int (field_bytes (concat (map param_fields ps))) \<le> DefaultMaxFieldChainLength"
    and "int (sum_list (map param_bytes ps)) \<le> DefaultMaxFieldChainLength"
  shows "DecodeResult (concat (map param_fields ps)) = Inr (foldl add_param empty_result ps)"
  using assms by (rule decode_params)

definition sample_params :: "param list" where
  "sample_params = [POutput (gostr ''RESULT''), PScalar (gostr ''ECHO'') [1, 0], PTable (gostr ''ROWS'') 3 [(False, [1, 2]), (True, [7])], PXrfc [[0x3c], [0x3e]]]"

lemma sample_params_ok: "list_all param_ok sample_params"
  by (simp add: sample_params_def name_ok_def row_ok_def DefaultMaxFieldLength_def ascii_facts ascii_def gostr_def trimRight_def controlChar_def)

theorem result_roundtrip_witness:
  "DecodeResult (concat (map param_fields sample_params)) = Inr (foldl add_param empty_result sample_params) \<and>
   map rt_Rows (gr_Tables (foldl add_param empty_result sample_params)) = [[[1, 2], [7, 7, 7]]]"
proof
  have d: "distinct (concat (map param_names sample_params))" by (simp add: sample_params_def gostr_def)
  have n: "int (length (concat (map param_fields sample_params))) \<le> DefaultMaxFieldCount"
    by (simp add: sample_params_def DefaultMaxFieldCount_def)
  have "codeUnitLen (gostr ''RESULT'') = 6" "codeUnitLen (gostr ''ECHO'') = 4" "codeUnitLen (gostr ''ROWS'') = 4"
    by (simp_all add: ascii_facts ascii_def gostr_def)
  then have b: "int (field_bytes (concat (map param_fields sample_params))) \<le> DefaultMaxFieldChainLength"
    by (simp add: sample_params_def field_bytes_def DefaultMaxFieldChainLength_def header_bytes_def)
  have t: "int (sum_list (map param_bytes sample_params)) \<le> DefaultMaxFieldChainLength"
    by (simp add: sample_params_def rows_bytes_def expand_row_def DefaultMaxFieldChainLength_def)
  show "DecodeResult (concat (map param_fields sample_params)) = Inr (foldl add_param empty_result sample_params)"
    by (rule result_roundtrip [OF sample_params_ok d n b t])
  show "map rt_Rows (gr_Tables (foldl add_param empty_result sample_params)) = [[[1, 2], [7, 7, 7]]]"
    by (simp add: sample_params_def empty_result_def make_table_def expand_row_def) (simp add: eval_nat_numeral)
qed

section \<open>Bounds\<close>

definition tables_bytes :: "classic_result \<Rightarrow> nat" where
  "tables_bytes r = sum_list (map (\<lambda>t. sum_list (map length (rt_Rows t))) (gr_Tables r))"

abbreviation s4_free :: "cpic_field list \<Rightarrow> bool" where
  "s4_free \<equiv> list_all (\<lambda>f. fd_Tag f \<noteq> 0x0335 \<and> fd_Tag f \<noteq> 0x0333)"

abbreviation short_values :: "cpic_field list \<Rightarrow> bool" where
  "short_values \<equiv> list_all (\<lambda>f. length (fd_Value f) < 2 ^ 32)"

lemma row_bytes_agree:
  assumes "decode_row True header f = Inr row" "preflight_row header f = Inr k" "length (fd_Value f) < 2 ^ 32"
  shows "k = length row"
proof (cases "fd_Tag f = CpicTagTableCompr")
  case True
  define w where "w = th_DeclaredRowByteLength header"
  have u: "unat (of_nat (length (fd_Value f)) :: u32) = length (fd_Value f)" using assms(3) by (simp add: unat_of_nat)
  have le: "length (fd_Value f) \<le> unat w"
    using assms(1) True u by (auto simp: decode_row_def decodeSimpleCompressedTableRow_def bindE_Inr_iff w_def word_less_nat_alt not_less)
  have "length row = unat w"
    using assms(1) True u row_conditions [OF le] le unfolding w_def
    by (auto simp: decode_row_def decodeSimpleCompressedTableRow_def bindE_Inr_iff Let_def split: if_splits)
  then show ?thesis using assms(2) True by (auto simp: preflight_row_def Let_def bindE_Inr_iff w_def)
next
  case False
  then show ?thesis using assms by (auto simp: decode_row_def preflight_row_def Let_def bindE_Inr_iff)
qed

lemma rows_agree:
  assumes "table_rows True header n fs = Inr (rows, rest)" "preflight_rows header (of_nat n) b fs = Inr (rc, tb, rest')" "short_values fs"
  shows "rest' = rest \<and> tb = b + rows_bytes rows"
  using assms
proof (induction fs arbitrary: n b rows)
  case Nil
  then show ?case by (simp add: rows_bytes_def)
next
  case (Cons f fs)
  show ?case
  proof (cases "of_nat n < th_RowCount header \<and> row_tag f")
    case True
    obtain row rows' where t: "decode_row True header f = Inr row" "table_rows True header (Suc n) fs = Inr (rows', rest)"
        "rows = (fd_Tag f = CpicTagTableCompr, row) # rows'"
      using Cons.prems(1) unfolding table_rows.simps if_P [OF True] by (auto simp: bindE_Inr_iff)
    obtain k where p: "preflight_row header f = Inr k" "preflight_rows header (of_nat n + 1) (b + k) fs = Inr (rc, tb, rest')"
      using Cons.prems(2) unfolding preflight_rows.simps if_P [OF True] by (auto simp: bindE_Inr_iff)
    have s: "(of_nat n :: u32) + 1 = of_nat (Suc n)" by simp
    have "rest' = rest \<and> tb = b + k + rows_bytes rows'" by (rule Cons.IH [OF t(2) p(2) [unfolded s]]) (use Cons.prems(3) in simp)
    moreover have "k = length row" by (rule row_bytes_agree [OF t(1) p(1)]) (use Cons.prems(3) in simp)
    ultimately show ?thesis by (simp add: t(3) rows_bytes_def)
  next
    case False
    show ?thesis using Cons.prems(1,2) unfolding table_rows.simps preflight_rows.simps if_not_P [OF False] by (auto simp: rows_bytes_def)
  qed
qed

lemma table_rows_suffix: "table_rows classic header n fs = Inr (rows, rest) \<Longrightarrow> \<exists>pre. fs = pre @ rest"
proof (induction fs arbitrary: n rows)
  case (Cons f fs)
  show ?case
  proof (cases "of_nat n < th_RowCount header \<and> row_tag f")
    case True
    then obtain rows' where "table_rows classic header (Suc n) fs = Inr (rows', rest)"
      using Cons.prems unfolding table_rows.simps if_P [OF True] by (auto simp: bindE_Inr_iff)
    then show ?thesis using Cons.IH [of "Suc n" rows'] by (metis append_Cons)
  next
    case False
    show ?thesis using Cons.prems unfolding table_rows.simps if_not_P [OF False] by (metis Inr_inject Pair_inject append_Nil)
  qed
qed simp

lemma xrfc_data_split: "xrfc_data b fs = Inr (chunks, rest) \<Longrightarrow> \<exists>pre. fs = pre @ rest \<and> list_all (\<lambda>f. fd_Tag f = CpicTagXRfcData) pre"
proof (induction fs arbitrary: b chunks)
  case (Cons f fs)
  show ?case
  proof (cases "fd_Tag f = CpicTagXRfcData")
    case True
    then obtain chunks' where "xrfc_data (b + length (fd_Value f)) fs = Inr (chunks', rest)" using Cons.prems by (auto simp: bindE_Inr_iff)
    then obtain pre where "fs = pre @ rest" "list_all (\<lambda>f. fd_Tag f = CpicTagXRfcData) pre" using Cons.IH by blast
    then show ?thesis using True by (intro exI [of _ "f # pre"]) simp
  next
    case False
    then show ?thesis using Cons.prems by (intro exI [of _ "[]"]) simp
  qed
qed simp

lemma group_step_cases:
  assumes "group_step (r, names) field fs = Inr ((r', names'), rest)" "fd_Tag field \<noteq> 0x0335" "fd_Tag field \<noteq> 0x0333"
  obtains (table) t where "fd_Tag field = CpicTagTableName" "classic_table names field fs = Inr (t, rest)"
      "r' = r\<lparr>gr_Tables := gr_Tables r @ [t]\<rparr>" "names' = names @ [rt_Name t]"
  | (other) pre where "fd_Tag field \<noteq> CpicTagTableName" "fs = pre @ rest" "list_all (\<lambda>f. fd_Tag f \<noteq> CpicTagTableName) pre" "gr_Tables r' = gr_Tables r"
proof -
  have x: "\<exists>pre. fs = pre @ rest \<and> list_all (\<lambda>f. fd_Tag f \<noteq> CpicTagTableName) pre" if g: "xrfc_group field fs = Inr (x, rest)" for x
  proof -
    obtain chunks c where d: "xrfc_data 0 fs = Inr (chunks, c # rest)" "fd_Tag c = CpicTagXRfcParameter" using g by (auto simp: xrfc_group_Inr)
    obtain pre where "fs = pre @ c # rest" "list_all (\<lambda>f. fd_Tag f = CpicTagXRfcData) pre" using xrfc_data_split [OF d(1)] by blast
    then show ?thesis using d(2) by (intro exI [of _ "pre @ [c]"]) (auto simp: list_all_iff classic_tags)
  qed
  have s: "\<exists>pre. fs = pre @ rest \<and> list_all (\<lambda>f. fd_Tag f \<noteq> CpicTagTableName) pre" if "scalar_group names field fs = Inr (x, rest)" for x
    using that by (intro exI [of _ "[hd fs]"]) (auto simp: scalar_group_Inr classic_tags)
  have marker: "fd_Tag field \<in> nonApplicationTags \<Longrightarrow> fd_Tag field \<noteq> CpicTagTableName" using marker_tags by auto
  show thesis
  proof (cases "fd_Tag field = CpicTagTableName")
    case True
    then have "CpicTagTableName \<notin> nonApplicationTags" "CpicTagTableName \<noteq> CpicTagRequestedOutput" "CpicTagTableName \<noteq> CpicTagXRfcData" "CpicTagTableName \<noteq> CpicTagXRfcParameter"
      "CpicTagTableName \<noteq> CpicTagParameterValue" "CpicTagTableName \<noteq> CpicTagTableHeader" "CpicTagTableName \<noteq> CpicTagTableContent"
      "CpicTagTableName \<noteq> CpicTagTableCompr" "CpicTagTableName \<noteq> CpicTagParameterName"
      using marker_tags by (simp_all add: classic_tags)
    then show thesis using assms(1) True table by (auto simp: group_step_def bindE_Inr_iff)
  next
    case False
    have "\<exists>pre. fs = pre @ rest \<and> list_all (\<lambda>f. fd_Tag f \<noteq> CpicTagTableName) pre \<and> gr_Tables r' = gr_Tables r"
      using assms False unfolding group_step_def Let_def prod.case
      by (auto simp: bindE_Inr_iff dest: x s split: if_splits)
    then show thesis using False other by blast
  qed
qed

lemma preflight_table:
  assumes "preflight_tables b (field # h # fs') = Inr ()" "fd_Tag field = CpicTagTableName" "fd_Tag h = CpicTagTableHeader"
    and "DecodeRfcTableHeader (fd_Value h) = Inr header" "table_rows True header 0 fs' = Inr (rows, rest)" "short_values fs'"
  shows "preflight_tables (b + rows_bytes rows) rest = Inr ()" "int (b + rows_bytes rows) \<le> DefaultMaxFieldChainLength"
proof -
  obtain rc tb rest' where p: "preflight_rows header 0 0 fs' = Inr (rc, tb, rest')" "int (b + tb) \<le> DefaultMaxFieldChainLength" "preflight_tables (b + tb) rest' = Inr ()"
    using assms(1-4) by (auto simp: defaultMaxResultTableDecodedBytes_def split: sum.splits if_splits)
  then show "preflight_tables (b + rows_bytes rows) rest = Inr ()" "int (b + rows_bytes rows) \<le> DefaultMaxFieldChainLength"
    using rows_agree [of header 0 fs' rows rest 0 rc tb rest'] assms(5,6) by auto
qed

lemma table_bytes_rows: "sum_list (map length (rt_Rows (make_table name header none rows))) = rows_bytes rows"
  by (simp add: make_table_def rows_bytes_def comp_def)

lemma group_bounded:
  assumes "group_fields st fs = Inr r" "preflight_tables b fs = Inr ()" "s4_free fs" "short_values fs" "int b \<le> DefaultMaxFieldChainLength"
  shows "int (b + tables_bytes r) \<le> DefaultMaxFieldChainLength + int (tables_bytes (fst st))"
  using assms
proof (induction st fs arbitrary: b rule: group_fields.induct)
  case (1 st)
  then show ?case by simp
next
  case (2 st field fs)
  obtain st' rest where step: "group_step st field fs = Inr (st', rest)" and g: "group_fields st' rest = Inr r"
    using 2(2) by (auto split: sum.splits)
  obtain r0 names r1 names' where st: "st = (r0, names)" "st' = (r1, names')" by (cases st, cases st')
  note ih = 2(1) [OF step refl g]
  have tags: "fd_Tag field \<noteq> 0x0335" "fd_Tag field \<noteq> 0x0333" using 2(4) by simp_all
  from step [unfolded st] tags show ?case
  proof (cases rule: group_step_cases)
    case (table t)
    obtain name h fs' header rows where t: "fs = h # fs'" "fd_Tag h = CpicTagTableHeader" "DecodeRfcTableHeader (fd_Value h) = Inr header"
        "table_rows True header 0 fs' = Inr (rows, rest)" "t = make_table name header RowEmpty rows"
      using table(2) by (auto simp: classic_table_Inr counted_rows_Inr)
    have sv: "short_values fs'" using 2(5) by (simp add: t(1))
    note p = preflight_table [OF 2(3) [unfolded t(1)] table(1) t(2-4) sv]
    obtain pre where "fs' = pre @ rest" using table_rows_suffix [OF t(4)] by blast
    then have "s4_free rest" "short_values rest" using 2(4,5) by (simp_all add: t(1))
    from ih [OF p(1) this p(2)] show ?thesis
      by (simp add: st table(3) tables_bytes_def t(5) table_bytes_rows)
  next
    case (other pre)
    have "preflight_tables b rest = Inr ()" using 2(3) preflight_skips [of "field # pre" b rest] other(1,3) by (simp add: other(2))
    moreover have "s4_free rest" "short_values rest" using 2(4,5) by (simp_all add: other(2))
    ultimately show ?thesis using ih [of b] 2(6) by (simp add: st tables_bytes_def other(4))
  qed
qed

lemma preflight_sum_Inr: "preflight_sum fs b = Inr () \<Longrightarrow> fs = [] \<or> int (b + field_bytes fs) \<le> DefaultMaxFieldChainLength"
proof (induction fs arbitrary: b)
  case (Cons f fs)
  have "\<not> int (b + length (fd_Value f)) > DefaultMaxFieldChainLength" "preflight_sum fs (b + length (fd_Value f)) = Inr ()"
    using Cons.prems by (auto simp: Let_def split: if_splits)
  then show ?case using Cons.IH [of "b + length (fd_Value f)"] by (auto simp: field_bytes_def)
qed simp

text \<open>
  C32. Bounds of decoded tables: a response of classic records that is accepted has at most 100000 fields and 256 MiB of field bytes, and the rows of all
  its tables together, expanded, are at most 256 MiB, however well they were compressed.
\<close>

theorem tables_bounded:
  assumes "DecodeResult fs = Inr r" "s4_free fs"
  shows "length fs \<le> 100000 \<and> field_bytes fs \<le> 256 * 1024 * 1024 \<and> tables_bytes r \<le> 256 * 1024 * 1024"
proof (intro conjI)
  have d: "int (length fs) \<le> DefaultMaxFieldCount" "preflight_sum fs 0 = Inr ()" "preflight_tables 0 fs = Inr ()" "group_fields (empty_result, []) fs = Inr r"
    using assms(1) by (auto simp: DecodeResult_def decodeResult_def preflightResultBytes_def preflightTableBytes_def bindE_Inr_iff split: if_splits)
  show "length fs \<le> 100000" using d(1) by (simp add: DefaultMaxFieldCount_def)
  show fb: "field_bytes fs \<le> 256 * 1024 * 1024" using preflight_sum_Inr [OF d(2)] by (auto simp: DefaultMaxFieldChainLength_def field_bytes_def)
  have "short_values fs"
    unfolding list_all_iff
  proof
    fix f assume "f \<in> set fs"
    then have "length (fd_Value f) \<le> field_bytes fs" using member_le_sum_list [of "length (fd_Value f)" "map (\<lambda>f. length (fd_Value f)) fs"] by (simp add: field_bytes_def)
    then show "length (fd_Value f) < 2 ^ 32" using fb by simp
  qed
  then show "tables_bytes r \<le> 256 * 1024 * 1024"
    using group_bounded [OF d(4,3) assms(2)] by (simp add: DefaultMaxFieldChainLength_def empty_result_def tables_bytes_def)
qed

theorem tables_bounded_witness:
  "tables_bytes (foldl add_param empty_result [PTable (gostr ''ROWS'') 3 [(True, [7])]]) = 3 \<and>
   (\<exists>r. DecodeResult (param_fields (PTable (gostr ''ROWS'') 3 [(True, [7])])) = Inr r \<and> tables_bytes r \<le> 256 * 1024 * 1024)"
proof
  show "tables_bytes (foldl add_param empty_result [PTable (gostr ''ROWS'') 3 [(True, [7])]]) = 3"
    by (simp add: tables_bytes_def empty_result_def make_table_def expand_row_def)
  let ?ps = "[PTable (gostr ''ROWS'') 3 [(True, [7])]]"
  have u: "codeUnitLen (gostr ''ROWS'') = 4" by (simp add: ascii_facts ascii_def gostr_def)
  have ok: "list_all param_ok ?ps" using sample_params_ok by (simp add: sample_params_def)
  have "group_fields (empty_result, []) (concat (map param_fields ?ps)) = Inr (foldl add_param empty_result ?ps)"
    by (rule group_params) (use ok u in \<open>simp_all add: field_bytes_def DefaultMaxFieldChainLength_def header_bytes_def\<close>)
  moreover have "preflight_tables 0 (concat (map param_fields ?ps)) = Inr ()"
    by (rule preflight_params) (use ok in \<open>simp_all add: rows_bytes_def expand_row_def DefaultMaxFieldChainLength_def\<close>)
  moreover have "preflight_sum (concat (map param_fields ?ps)) 0 = Inr ()"
    by (rule preflight_sum_ok) (use u in \<open>simp add: field_bytes_def DefaultMaxFieldChainLength_def header_bytes_def\<close>)
  ultimately have d: "DecodeResult (param_fields (hd ?ps)) = Inr (foldl add_param empty_result ?ps)"
    by (simp add: DecodeResult_def decodeResult_def preflightResultBytes_def preflightTableBytes_def DefaultMaxFieldCount_def)
  have f: "s4_free (param_fields (hd ?ps))" by (simp add: classic_tags row_field_def)
  show "\<exists>r. DecodeResult (param_fields (PTable (gostr ''ROWS'') 3 [(True, [7])])) = Inr r \<and> tables_bytes r \<le> 256 * 1024 * 1024"
    using d tables_bounded [OF d f] by simp
qed

section \<open>The tables of S/4HANA\<close>

definition s4_descriptor :: "u32 \<Rightarrow> bytes" where
  "s4_descriptor n = replicate 8 0 @ put32be n"

definition s4_native_fields :: "u32 \<Rightarrow> cpic_field list" where
  "s4_native_fields n = [cfield 0x0333 (s4_descriptor n), cfield 0x0334 []]"

definition s4_mixed_fields :: "nat \<Rightarrow> cpic_field list" where
  "s4_mixed_fields n = cfield 0x0335 (s4_descriptor 0) # cfield CpicTagTableHeader (header_bytes 0x10000000 n) # replicate n (cfield CpicTagTableCompr [0])"

lemma s4_tags:
  "tag \<in> {0x0335, 0x0333} \<Longrightarrow> tag \<notin> nonApplicationTags \<and> tag \<noteq> CpicTagRequestedOutput \<and> tag \<noteq> CpicTagXRfcData \<and> tag \<noteq> CpicTagXRfcParameter \<and> tag \<noteq> CpicTagParameterValue \<and>
     tag \<noteq> CpicTagTableHeader \<and> tag \<noteq> CpicTagTableContent \<and> tag \<noteq> CpicTagTableCompr \<and> tag \<noteq> CpicTagParameterName \<and> tag \<noteq> CpicTagTableName"
  using marker_tags by (auto simp: classic_tags)

lemma s4_native_rows:
  "\<exists>r. DecodeResult (s4_native_fields n) = Inr r \<and> map rt_Rows (gr_Tables r) = [replicate (unat n) []]"
proof -
  have c: "get32be (drop 8 (s4_descriptor n)) = n" by (simp add: s4_descriptor_def get_put_exact)
  have l: "length (s4_descriptor n) = 12" by (simp add: s4_descriptor_def)
  obtain t where t: "s4_native_table (cfield 0x0333 (s4_descriptor n)) [cfield 0x0334 []] = Inr (t, [])" "rt_Rows t = map (\<lambda>r. []) [0..<unat n]"
    by (simp add: s4_native_table_def c l gslice_def Let_def)
  have "group_step (empty_result, []) (cfield 0x0333 (s4_descriptor n)) [cfield 0x0334 []] = Inr ((empty_result\<lparr>gr_Tables := [t]\<rparr>, []), [])"
    using s4_tags [of "0x0333"] t(1) by (simp add: group_step_def empty_result_def)
  then have "group_fields (empty_result, []) (s4_native_fields n) = Inr (empty_result\<lparr>gr_Tables := [t]\<rparr>)" by (simp add: s4_native_fields_def)
  moreover have "preflightResultBytes (s4_native_fields n) = Inr ()"
    by (simp add: preflightResultBytes_def s4_native_fields_def l DefaultMaxFieldCount_def DefaultMaxFieldChainLength_def)
  moreover have "preflightTableBytes (s4_native_fields n) = Inr ()" by (simp add: preflightTableBytes_def s4_native_fields_def classic_tags)
  ultimately show ?thesis by (simp add: DecodeResult_def decodeResult_def t(2) map_replicate_const)
qed

lemma s4_rows:
  assumes "th_RowCount header = of_nat (i + k)" "i + k < 2 ^ 32" "th_DeclaredRowByteLength header = 0x10000000"
  shows "table_rows False header i (replicate k (cfield CpicTagTableCompr [0])) = Inr (replicate k (True, replicate 0x10000000 0), [])"
  using assms
proof (induction k arbitrary: i)
  case (Suc k)
  have lt: "of_nat i < th_RowCount header" using Suc.prems(1,2) counter_less [of i "Suc k"] by simp
  have ok: "row_ok 0x10000000 (True, [0])" by (simp add: row_ok_def DefaultMaxFieldLength_def)
  have "snd (expand_row 0x10000000 (True, [0])) = replicate 0x10000000 0"
    using replicate_Suc [of "0x10000000 - 1" "0 :: byte"] by (simp add: expand_row_def)
  then have d: "decode_row False header (cfield CpicTagTableCompr [0]) = Inr (replicate 0x10000000 0)"
    using decode_compressed [OF ok] by (simp add: decode_row_def Suc.prems(3))
  have ih: "table_rows False header (Suc i) (replicate k (cfield CpicTagTableCompr [0])) = Inr (replicate k (True, replicate 0x10000000 0), [])"
    by (rule Suc.IH) (use Suc.prems in simp_all)
  show ?case unfolding replicate_Suc table_rows.simps using lt d ih by simp
qed simp

lemma s4_mixed_rows:
  assumes "n + 2 \<le> 100000"
  shows "\<exists>r. DecodeResult (s4_mixed_fields n) = Inr r \<and> tables_bytes r = n * 0x10000000"
proof -
  define h where "h = \<lparr>th_DeclaredRowByteLength = (0x10000000 :: u32), th_RowCount = (of_nat n :: u32)\<rparr>"
  define rows where "rows = replicate n (True, replicate 0x10000000 (0 :: byte))"
  define t where "t = make_table (s4_name (s4_descriptor 0)) h RowFlat rows"
  have "counted_rows False h (replicate n (cfield CpicTagTableCompr [0])) = Inr (rows, [])"
    using s4_rows [of h 0 n] assms by (simp add: counted_rows_Inr h_def rows_def)
  then have "s4_mixed_table (cfield 0x0335 (s4_descriptor 0)) (tl (s4_mixed_fields n)) = Inr (t, [])"
    by (simp add: s4_mixed_Inr s4_mixed_fields_def decode_header h_def t_def) (simp add: s4_descriptor_def)
  then have "group_step (empty_result, []) (cfield 0x0335 (s4_descriptor 0)) (tl (s4_mixed_fields n)) = Inr ((empty_result\<lparr>gr_Tables := [t]\<rparr>, []), [])"
    using s4_tags [of "0x0335"] by (simp add: group_step_def empty_result_def)
  then have "group_fields (empty_result, []) (s4_mixed_fields n) = Inr (empty_result\<lparr>gr_Tables := [t]\<rparr>)" by (simp add: s4_mixed_fields_def)
  moreover have "preflightResultBytes (s4_mixed_fields n) = Inr ()"
  proof -
    have "field_bytes (s4_mixed_fields n) = 20 + n"
      by (simp add: field_bytes_def s4_mixed_fields_def s4_descriptor_def header_bytes_def sum_list_replicate)
    moreover have "length (s4_mixed_fields n) = n + 2" by (simp add: s4_mixed_fields_def)
    ultimately show ?thesis
      using assms preflight_sum_ok [of 0 "s4_mixed_fields n"] by (simp add: preflightResultBytes_def DefaultMaxFieldCount_def DefaultMaxFieldChainLength_def)
  qed
  moreover have "preflightTableBytes (s4_mixed_fields n) = Inr ()"
    using preflight_skips [of "s4_mixed_fields n" 0 "[]"] by (simp add: preflightTableBytes_def s4_mixed_fields_def list_all_iff classic_tags)
  moreover have "sum_list (map length (rt_Rows t)) = n * 0x10000000"
    by (simp only: t_def table_bytes_rows) (simp add: rows_def rows_bytes_def sum_list_replicate)
  ultimately show ?thesis by (simp add: DecodeResult_def decodeResult_def tables_bytes_def)
qed

text \<open>
  C33. The limits on decoded tables do not hold for the S/4HANA forms: 12 bytes of a native table make any number of rows up to
  \<open>2\<^sup>3\<^sup>2 - 1\<close>, and two records with 1022 one-byte rows make more than 255 GiB, although 256 MiB is the limit on all tables of a result.
\<close>

theorem s4_tables_unlimited:
  "(\<exists>r. DecodeResult (s4_native_fields n) = Inr r \<and> map rt_Rows (gr_Tables r) = [replicate (unat n) []]) \<and> field_bytes (s4_native_fields n) = 12 \<and>
   (\<exists>r. DecodeResult (s4_mixed_fields 1022) = Inr r \<and> tables_bytes r = 1022 * 256 * 1024 * 1024) \<and> field_bytes (s4_mixed_fields 1022) = 1042"
  using s4_native_rows [of n] s4_mixed_rows [of 1022]
  by (simp add: field_bytes_def s4_native_fields_def s4_mixed_fields_def s4_descriptor_def header_bytes_def sum_list_replicate)

section \<open>Rows of RFC_FUNINT\<close>

definition funint_layout :: "bytes \<Rightarrow> bytes \<Rightarrow> bytes \<Rightarrow> bytes \<Rightarrow> bytes \<Rightarrow> u32 \<Rightarrow> u32 \<Rightarrow> u32 \<Rightarrow> u32 \<Rightarrow> bytes \<Rightarrow> bytes \<Rightarrow> bytes \<Rightarrow> bytes" where
  "funint_layout cls name table field exid pos off len dec def txt opt =
     cls @ name @ table @ field @ exid @ put32le pos @ put32le off @ put32le len @ put32le dec @ def @ txt @ opt"

text \<open>
  Round trip of interface rows: a row of twelve encoded columns is read to its texts without trailing spaces, its four numbers and its
  optional flag, and whatever a later release appends to the row changes nothing.
\<close>

theorem funint_row_roundtrip:
  assumes "EncodeAbapChar cls 1 = Inr c1" "EncodeAbapChar name 30 = Inr c2" "EncodeAbapChar table 30 = Inr c3" "EncodeAbapChar field 30 = Inr c4"
    and "EncodeAbapChar exid 1 = Inr c5" "EncodeAbapChar def 21 = Inr c6" "EncodeAbapChar txt 79 = Inr c7"
    and "EncodeAbapChar (if optional then gostr ''X'' else []) 1 = Inr c8"
  shows "DecodeFunintRow (funint_layout c1 c2 c3 c4 c5 pos off len dec c6 c7 c8 @ later) =
    Inr \<lparr>fp_ParameterClass = trimRight cls, fp_ParameterName = trimRight name, fp_TableName = trimRight table, fp_FieldName = trimRight field,
         fp_Exid = trimRight exid, fp_Position = pos, fp_Offset = off, fp_InternalLength = len, fp_Decimals = dec,
         fp_DefaultValue = trimRight def, fp_ParameterText = trimRight txt, fp_Optional = optional\<rparr>"
proof -
  note rt = char_roundtrip(1,3) [OF assms(1)] char_roundtrip(1,3) [OF assms(2)] char_roundtrip(1,3) [OF assms(3)] char_roundtrip(1,3) [OF assms(4)]
    char_roundtrip(1,3) [OF assms(5)] char_roundtrip(1,3) [OF assms(6)] char_roundtrip(1,3) [OF assms(7)] char_roundtrip(1,3) [OF assms(8)]
  have o: "trimRight (if optional then gostr ''X'' else []) = (if optional then gostr ''X'' else [])" by (simp add: trimRight_def gostr_def)
  have l: "length (funint_layout c1 c2 c3 c4 c5 pos off len dec c6 c7 c8) = 402" using rt by (simp add: funint_layout_def)
  have n: "int (Suc 0) = 1" "int 30 = 30" "int 21 = 21" "int 79 = 79" by simp_all
  show ?thesis
    unfolding DecodeFunintRow_def RfcFunintUnicodeRowLength_def dc_def
    using rt l o by (simp add: funint_layout_def gslice_def Let_def get_put_exact) (simp add: gostr_def)
qed

definition char_field :: "string \<Rightarrow> nat \<Rightarrow> bytes" where
  "char_field s n = utf16leEncode (gostr s @ replicate (n - length s) 0x20)"

lemma char_field:
  assumes "ascii (gostr s)" "length s \<le> n" "n \<le> 0x7fff"
  shows "EncodeAbapChar (gostr s) (int n) = Inr (char_field s n)"
  using assms by (auto simp: encode_char_exact ascii_facts char_field_def)

theorem funint_row_roundtrip_witness:
  "DecodeFunintRow (funint_layout (char_field ''I'' 1) (char_field ''REQUTEXT'' 30) (char_field ''SYST'' 30) (char_field ''LISEL'' 30) (char_field ''C'' 1)
      1 0 510 0 (char_field [] 21) (char_field [] 79) (char_field ''X'' 1) @ [1, 2]) =
   Inr \<lparr>fp_ParameterClass = gostr ''I'', fp_ParameterName = gostr ''REQUTEXT'', fp_TableName = gostr ''SYST'', fp_FieldName = gostr ''LISEL'', fp_Exid = gostr ''C'',
        fp_Position = 1, fp_Offset = 0, fp_InternalLength = 510, fp_Decimals = 0, fp_DefaultValue = [], fp_ParameterText = [], fp_Optional = True\<rparr>"
proof -
  have c: "EncodeAbapChar (gostr ''I'') 1 = Inr (char_field ''I'' 1)" "EncodeAbapChar (gostr ''REQUTEXT'') 30 = Inr (char_field ''REQUTEXT'' 30)"
    "EncodeAbapChar (gostr ''SYST'') 30 = Inr (char_field ''SYST'' 30)" "EncodeAbapChar (gostr ''LISEL'') 30 = Inr (char_field ''LISEL'' 30)"
    "EncodeAbapChar (gostr ''C'') 1 = Inr (char_field ''C'' 1)" "EncodeAbapChar (gostr []) 21 = Inr (char_field [] 21)"
    "EncodeAbapChar (gostr []) 79 = Inr (char_field [] 79)" "EncodeAbapChar (if True then gostr ''X'' else []) 1 = Inr (char_field ''X'' 1)"
    using char_field [of "''I''" 1] char_field [of "''REQUTEXT''" 30] char_field [of "''SYST''" 30] char_field [of "''LISEL''" 30]
      char_field [of "''C''" 1] char_field [of "[]" 21] char_field [of "[]" 79] char_field [of "''X''" 1] by (simp_all add: ascii_def gostr_def)
  show ?thesis
    using funint_row_roundtrip [OF c, of 1 0 510 0 "[1, 2]"] by (simp add: trimRight_def gostr_def)
qed

end
