(* ===== verification/Lifecycle.thy ===== *)
theory Lifecycle
  imports Cpic_Request
begin

text \<open>
  Package \<open>lifecycle\<close>: a session shared by several goroutines. The Go interface \<open>Session\<close> is a record of operations on an abstract session state.
  Every method holds the mutex from its first to its last line, so a method is one atomic step and concurrent use is a sequence of methods
  in the order in which they got the mutex.
\<close>

section \<open>Definitions\<close>

record ('s, 'h, 'r, 'e) session_ops =
  so_Call :: "gostring \<Rightarrow> named_value list \<Rightarrow> gostring list \<Rightarrow> 's \<Rightarrow> ('e + 'r) \<times> 's"
  so_CallRaw :: "bytes \<Rightarrow> 's \<Rightarrow> ('e + 'r) \<times> 's"
  so_CallWithCallbacks :: "bytes \<Rightarrow> 'h \<Rightarrow> 's \<Rightarrow> ('e + 'r) \<times> 's"
  so_Authenticated :: "'s \<Rightarrow> bool"
  so_Close :: "'s \<Rightarrow> ('e + unit) \<times> 's"

datatype 'e managed_error = ManagedErrClosed | ManagedErr 'e

definition PingFunction :: gostring where "PingFunction = gostr ''RFC_PING''"

record 's managed =
  mg_sess :: 's
  mg_closed :: bool

definition Wrap :: "'s \<Rightarrow> 's managed" where
  "Wrap sess = \<lparr>mg_sess = sess, mg_closed = False\<rparr>"

definition on_managed :: "('s \<Rightarrow> ('e + 'a) \<times> 's) \<Rightarrow> 's managed \<Rightarrow> ('e managed_error + 'a) \<times> 's managed" where
  "on_managed f m =
     (if mg_closed m then (Inl ManagedErrClosed, m)
      else case f (mg_sess m) of (r, s) \<Rightarrow> (map_err ManagedErr r, m\<lparr>mg_sess := s\<rparr>))"

definition managed_Call :: "('s, 'h, 'r, 'e) session_ops \<Rightarrow> gostring \<Rightarrow> named_value list \<Rightarrow> gostring list \<Rightarrow> 's managed \<Rightarrow> ('e managed_error + 'r) \<times> 's managed" where
  "managed_Call ops functionName imps requestedOutputs = on_managed (so_Call ops functionName imps requestedOutputs)"

definition managed_CallRaw :: "('s, 'h, 'r, 'e) session_ops \<Rightarrow> bytes \<Rightarrow> 's managed \<Rightarrow> ('e managed_error + 'r) \<times> 's managed" where
  "managed_CallRaw ops request = on_managed (so_CallRaw ops request)"

definition managed_CallWithCallbacks :: "('s, 'h, 'r, 'e) session_ops \<Rightarrow> bytes \<Rightarrow> 'h \<Rightarrow> 's managed \<Rightarrow> ('e managed_error + 'r) \<times> 's managed" where
  "managed_CallWithCallbacks ops request onCallback = on_managed (so_CallWithCallbacks ops request onCallback)"

definition managed_Ping :: "('s, 'h, 'r, 'e) session_ops \<Rightarrow> 's managed \<Rightarrow> ('e managed_error + unit) \<times> 's managed" where
  "managed_Ping ops m =
     (case on_managed (so_Call ops PingFunction [] []) m of (r, m') \<Rightarrow> (bindE r (\<lambda>_. Inr ()), m'))"

definition managed_Authenticated :: "('s, 'h, 'r, 'e) session_ops \<Rightarrow> 's managed \<Rightarrow> bool" where
  "managed_Authenticated ops m = (if mg_closed m then False else so_Authenticated ops (mg_sess m))"

definition managed_Close :: "('s, 'h, 'r, 'e) session_ops \<Rightarrow> 's managed \<Rightarrow> ('e managed_error + unit) \<times> 's managed" where
  "managed_Close ops m =
     (if mg_closed m then (Inr (), m)
      else let m = m\<lparr>mg_closed := True\<rparr> in case so_Close ops (mg_sess m) of (r, s) \<Rightarrow> (map_err ManagedErr r, m\<lparr>mg_sess := s\<rparr>))"

text \<open>The factory that \<open>NewPool\<close> gives to the pool.\<close>

record ('m, 'e) pool_factory =
  pf_New :: "'e + 'm"
  pf_Close :: "'m \<Rightarrow> ('e + unit) \<times> 'm"
  pf_Validate :: "('m \<Rightarrow> ('e + unit) \<times> 'm) option"

definition NewPool :: "('s, 'h, 'r, 'e) session_ops \<Rightarrow> ('e managed_error + 's managed) option \<Rightarrow> bool \<Rightarrow> ('s managed, 'e managed_error) pool_factory option" where
  "NewPool ops openSession skipHealthCheck =
     (case openSession of
        None \<Rightarrow> None
      | Some new \<Rightarrow> Some \<lparr>pf_New = new, pf_Close = managed_Close ops, pf_Validate = (if skipHealthCheck then None else Some (managed_Ping ops))\<rparr>)"

section \<open>Concurrent use\<close>

datatype 'h request =
    ReqCall gostring "named_value list" "gostring list"
  | ReqRaw bytes
  | ReqCallbacks bytes 'h
  | ReqPing
  | ReqAuthenticated
  | ReqClose

text \<open>A method of the layer, and the operation of the session it stands for.\<close>

fun managed_step :: "('s, 'h, 'r, 'e) session_ops \<Rightarrow> 'h request \<Rightarrow> 's managed \<Rightarrow> 's managed" where
  "managed_step ops (ReqCall f i o') m = snd (managed_Call ops f i o' m)"
| "managed_step ops (ReqRaw b) m = snd (managed_CallRaw ops b m)"
| "managed_step ops (ReqCallbacks b h) m = snd (managed_CallWithCallbacks ops b h m)"
| "managed_step ops ReqPing m = snd (managed_Ping ops m)"
| "managed_step ops ReqAuthenticated m = m"
| "managed_step ops ReqClose m = snd (managed_Close ops m)"

fun session_step :: "('s, 'h, 'r, 'e) session_ops \<Rightarrow> 'h request \<Rightarrow> 's \<Rightarrow> 's" where
  "session_step ops (ReqCall f i o') s = snd (so_Call ops f i o' s)"
| "session_step ops (ReqRaw b) s = snd (so_CallRaw ops b s)"
| "session_step ops (ReqCallbacks b h) s = snd (so_CallWithCallbacks ops b h s)"
| "session_step ops ReqPing s = snd (so_Call ops PingFunction [] [] s)"
| "session_step ops ReqAuthenticated s = s"
| "session_step ops ReqClose s = snd (so_Close ops s)"

fun before_close :: "'h request list \<Rightarrow> 'h request list" where
  "before_close [] = []"
| "before_close (r # rs) = (if r = ReqClose then [ReqClose] else r # before_close rs)"

lemma managed_step_open: "\<not> mg_closed m \<Longrightarrow> managed_step ops r m = \<lparr>mg_sess = session_step ops r (mg_sess m), mg_closed = (r = ReqClose)\<rparr>"
  by (cases m; cases r) (auto simp: managed_Call_def managed_CallRaw_def managed_CallWithCallbacks_def managed_Ping_def managed_Close_def on_managed_def
      split: prod.splits)

lemma managed_step_closed: "mg_closed m \<Longrightarrow> managed_step ops r m = m"
  by (cases r) (auto simp: managed_Call_def managed_CallRaw_def managed_CallWithCallbacks_def managed_Ping_def managed_Close_def on_managed_def)

lemma managed_closed_fold: "mg_closed m \<Longrightarrow> fold (managed_step ops) rs m = m"
  by (induction rs) (simp_all add: managed_step_closed)

lemma managed_closed_refuses:
  assumes "mg_closed m"
  shows "managed_Call ops f i out m = (Inl ManagedErrClosed, m)" "managed_CallRaw ops b m = (Inl ManagedErrClosed, m)"
    "managed_CallWithCallbacks ops b h m = (Inl ManagedErrClosed, m)" "managed_Ping ops m = (Inl ManagedErrClosed, m)"
    "\<not> managed_Authenticated ops m" "managed_Close ops m = (Inr (), m)"
  using assms by (simp_all add: managed_Call_def managed_CallRaw_def managed_CallWithCallbacks_def managed_Ping_def managed_Close_def managed_Authenticated_def on_managed_def)

text \<open>
  C39. Serialization of a shared session: whatever the order in which goroutines run methods, the session sees exactly the operations up to the
  first \<open>Close\<close>, one after the other, and nothing after it; \<open>Close\<close> reaches it at most once.
\<close>

theorem managed_serialized:
  "fold (managed_step ops) rs (Wrap s) = \<lparr>mg_sess = fold (session_step ops) (before_close rs) s, mg_closed = (ReqClose \<in> set rs)\<rparr>"
proof -
  have "fold (managed_step ops) rs m = \<lparr>mg_sess = fold (session_step ops) (before_close rs) (mg_sess m), mg_closed = (ReqClose \<in> set rs)\<rparr>" if "\<not> mg_closed m" for m
    using that
  proof (induction rs arbitrary: m)
    case (Cons r rs)
    show ?case
    proof (cases "r = ReqClose")
      case True
      then show ?thesis using managed_step_open [OF Cons.prems, of ops r] by (simp add: managed_closed_fold del: managed_step.simps)
    next
      case False
      then show ?thesis using managed_step_open [OF Cons.prems, of ops r] Cons.IH [of "managed_step ops r m"] by (simp del: managed_step.simps)
    qed
  qed (cases m, simp)
  from this [of "Wrap s"] show "fold (managed_step ops) rs (Wrap s) = \<lparr>mg_sess = fold (session_step ops) (before_close rs) s, mg_closed = (ReqClose \<in> set rs)\<rparr>"
    by (simp add: Wrap_def)
qed

end
