(* ===== verification/Bxml.thy ===== *)
theory Bxml
  imports Rfc_Prelude
begin

text \<open>
  Package \<open>bxml\<close>: SAP Binary XML 0.7. A position in a document is the list of bytes that remain. The open elements of the reader are a stack; an element is added to
  its parent when it is closed, which is the same tree, because a parent gets no other child in between. The name table of the writer is an association list.
\<close>

section \<open>Documents and lengths\<close>

datatype bxml_error = ErrBXML

datatype bxml_element =
  Element (el_Name: gostring) (el_Attrs: "(gostring \<times> gostring) list") (el_Children: "bxml_element list")
    (el_Text: gostring) (el_HasText: bool) (el_Body: gostring) (el_HasBody: bool)

definition bxml_magic :: bytes where "bxml_magic = gostr ''BXML''"

definition tokHeader :: byte where "tokHeader = 0x3f"
definition tokName :: byte where "tokName = 0x2b"
definition tokOpen :: byte where "tokOpen = 0x3c"
definition tokClose :: byte where "tokClose = 0x3e"
definition tokAttr :: byte where "tokAttr = 0x40"
definition tokAttrVal :: byte where "tokAttrVal = 0x41"
definition tokBind :: byte where "tokBind = 0x3a"
definition tokXmlns :: byte where "tokXmlns = 0x2a"
definition tokText :: byte where "tokText = 0x54"
definition tokBody :: byte where "tokBody = 0x42"
definition tokString :: byte where "tokString = 0x43"
definition nameRefBias :: nat where "nameRefBias = 2"

text \<open>The methods accept a nil receiver, so they are on an option.\<close>

definition el_Child :: "bxml_element option \<Rightarrow> gostring \<Rightarrow> bxml_element option" where
  "el_Child e name = (case e of None \<Rightarrow> None | Some e \<Rightarrow> find (\<lambda>c. el_Name c = name) (el_Children e))"

definition ChildText :: "bxml_element option \<Rightarrow> gostring \<Rightarrow> gostring" where
  "ChildText e name = (case el_Child e name of Some c \<Rightarrow> el_Text c | None \<Rightarrow> [])"

definition readLength :: "bytes \<Rightarrow> bxml_error + nat \<times> bytes" where
  "readLength doc =
     (case doc of
        [] \<Rightarrow> Inl ErrBXML
      | c # r \<Rightarrow>
          if c < 0x80 then Inr (unat c, r)
          else if c < 0xe0 then
            (case r of d # r \<Rightarrow> Inr (unat c mod 32 * 64 + unat d mod 64, r) | _ \<Rightarrow> Inl ErrBXML)
          else if c < 0xf0 then
            (case r of d # e # r \<Rightarrow> Inr (unat c mod 16 * 4096 + unat d mod 64 * 64 + unat e mod 64, r) | _ \<Rightarrow> Inl ErrBXML)
          else
            (case r of d # e # f # r \<Rightarrow> Inr (unat c mod 8 * 262144 + unat d mod 64 * 4096 + unat e mod 64 * 64 + unat f mod 64, r) | _ \<Rightarrow> Inl ErrBXML))"

text \<open>\<open>byte(lead | (n >> k))\<close> and \<open>byte(0x80 | ((n >> k) & 0x3f))\<close>: the conversion keeps eight bits.\<close>

definition lead_byte :: "nat \<Rightarrow> nat \<Rightarrow> byte" where
  "lead_byte lead n = of_nat (or lead n)"

definition writeLength :: "nat \<Rightarrow> bytes" where
  "writeLength n =
     (if n < 0x80 then [of_nat n]
      else if n < 0x800 then [lead_byte 0xc0 (n div 64), lead_byte 0x80 (n mod 64)]
      else if n < 0x10000 then [lead_byte 0xe0 (n div 4096), lead_byte 0x80 (n div 64 mod 64), lead_byte 0x80 (n mod 64)]
      else [lead_byte 0xf0 (n div 262144), lead_byte 0x80 (n div 4096 mod 64), lead_byte 0x80 (n div 64 mod 64), lead_byte 0x80 (n mod 64)])"

definition readString :: "bytes \<Rightarrow> bxml_error + gostring \<times> bytes" where
  "readString doc = bindE (readLength doc) (\<lambda>(n, r). if n > length r then Inl ErrBXML else Inr (take n r, drop n r))"

lemma readString_shorter: "readString doc = Inr (s, r) \<Longrightarrow> length r < length doc"
  by (cases doc) (auto simp: readString_def readLength_def bindE_Inr_iff split: if_splits list.splits)

section \<open>The reader\<close>

type_synonym bxml_state = "gostring list \<times> bxml_element list"

definition nameByRef :: "gostring list \<Rightarrow> nat \<Rightarrow> bxml_error + gostring" where
  "nameByRef names r = (if r < nameRefBias \<or> r - nameRefBias \<ge> length names then Inl ErrBXML else Inr (names ! (r - nameRefBias)))"

definition new_element :: "gostring \<Rightarrow> bxml_element" where
  "new_element name = Element name [] [] [] False [] False"

fun add_child :: "bxml_element \<Rightarrow> bxml_element \<Rightarrow> bxml_element" where
  "add_child c (Element n as cs t ht b hb) = Element n as (cs @ [c]) t ht b hb"

fun add_attr :: "gostring \<times> gostring \<Rightarrow> bxml_element \<Rightarrow> bxml_element" where
  "add_attr a (Element n as cs t ht b hb) = Element n (as @ [a]) cs t ht b hb"

fun set_text :: "gostring \<Rightarrow> bxml_element \<Rightarrow> bxml_element" where
  "set_text s (Element n as cs t ht b hb) = Element n as cs s True b hb"

fun set_body :: "gostring \<Rightarrow> bxml_element \<Rightarrow> bxml_element" where
  "set_body s (Element n as cs t ht b hb) = Element n as cs t ht s True"

definition on_top :: "(bxml_element \<Rightarrow> bxml_element) \<Rightarrow> bxml_element list \<Rightarrow> bxml_element list" where
  "on_top f stack = (case stack of [] \<Rightarrow> [] | t # ts \<Rightarrow> f t # ts)"

definition attr_value :: "bytes \<Rightarrow> bxml_error + gostring \<times> bytes" where
  "attr_value r = (case r of [] \<Rightarrow> Inl ErrBXML | v # r \<Rightarrow> if v \<noteq> tokAttrVal then Inl ErrBXML else readString r)"

lemma attr_value_shorter: "attr_value r = Inr (s, r') \<Longrightarrow> length r' < length r"
  by (auto simp: attr_value_def dest!: readString_shorter split: list.splits if_splits)

text \<open>One turn of the loop of \<open>Decode\<close>: the token, the bytes after it, the state and the bytes that remain.\<close>

definition bxml_step :: "bxml_state \<Rightarrow> byte \<Rightarrow> bytes \<Rightarrow> bxml_error + bxml_state \<times> bytes" where
  "bxml_step st tok r =
     (case st of (names, stack) \<Rightarrow>
      if tok = tokHeader then bindE (readString r) (\<lambda>(_, r). bindE (readString r) (\<lambda>(_, r). Inr ((names, stack), r)))
      else if tok = tokName then bindE (readString r) (\<lambda>(s, r). Inr ((names @ [s], stack), r))
      else if tok = tokOpen then
        (case r of
           a # _ # r \<Rightarrow> bindE (nameByRef names (unat a)) (\<lambda>name. Inr ((names, new_element name # stack), r))
         | _ \<Rightarrow> Inl ErrBXML)
      else if tok = tokClose then
        (case stack of e # p # stack \<Rightarrow> Inr ((names, add_child e p # stack), r) | _ \<Rightarrow> Inl ErrBXML)
      else if tok = tokAttr then
        (case r of
           a # _ # r \<Rightarrow>
             bindE (nameByRef names (unat a)) (\<lambda>name.
             bindE (attr_value r) (\<lambda>(s, r). Inr ((names, on_top (add_attr (name, s)) stack), r)))
         | _ \<Rightarrow> Inl ErrBXML)
      else if tok = tokAttrVal then bindE (readString r) (\<lambda>(_, r). Inr ((names, stack), r))
      else if tok = tokBind then (case r of _ # _ # r \<Rightarrow> Inr ((names, stack), r) | _ \<Rightarrow> Inl ErrBXML)
      else if tok = tokXmlns then (case r of _ # r \<Rightarrow> Inr ((names, stack), r) | _ \<Rightarrow> Inl ErrBXML)
      else if tok = tokText then bindE (readString r) (\<lambda>(s, r). Inr ((names, on_top (set_text s) stack), r))
      else if tok = tokBody then bindE (readString r) (\<lambda>(s, r). Inr ((names, on_top (set_body s) stack), r))
      else if tok = tokString then bindE (readString r) (\<lambda>(s, r). Inr ((names, on_top (set_text s) stack), r))
      else Inl ErrBXML)"

lemma bxml_step_shorter: "bxml_step st tok r = Inr (st', r') \<Longrightarrow> length r' \<le> length r"
  unfolding bxml_step_def
  by (auto simp: bindE_Inr_iff dest!: readString_shorter attr_value_shorter split: prod.splits if_splits list.splits)

function bxml_loop :: "bxml_state \<Rightarrow> bytes \<Rightarrow> bxml_error + bxml_state" where
  "bxml_loop st [] = Inr st"
| "bxml_loop st (tok # r) = (case bxml_step st tok r of Inl e \<Rightarrow> Inl e | Inr (st', r') \<Rightarrow> bxml_loop st' r')"
  by pat_completeness auto
termination
  by (relation "measure (\<lambda>(st, r). length r)") (auto dest!: bxml_step_shorter)

definition bxml_start :: bxml_state where
  "bxml_start = ([], [new_element (gostr ''#document'')])"

definition bxml_Decode :: "bytes \<Rightarrow> bxml_error + bxml_element" where
  "bxml_Decode doc =
     (if take 4 doc \<noteq> bxml_magic then Inl ErrBXML
      else bindE (bxml_loop bxml_start (drop 4 doc)) (\<lambda>(names, stack).
        case stack of [root] \<Rightarrow> Inr root | _ \<Rightarrow> Inl ErrBXML))"

definition first_child :: "bxml_element \<Rightarrow> bxml_element option" where
  "first_child e = (case el_Children e of [] \<Rightarrow> None | c # _ \<Rightarrow> Some c)"

definition PayloadRoot :: "bxml_element \<Rightarrow> bxml_error + bxml_element" where
  "PayloadRoot document =
     (let abap = (case el_Child (Some document) (gostr ''abap'') of Some a \<Rightarrow> Some a | None \<Rightarrow> first_child document);
          vals = (case el_Child abap (gostr ''values'') of Some v \<Rightarrow> Some v | None \<Rightarrow> (case abap of Some a \<Rightarrow> first_child a | None \<Rightarrow> None)) in
      case vals of
        None \<Rightarrow> Inl ErrBXML
      | Some v \<Rightarrow> (case el_Children v of [] \<Rightarrow> Inl ErrBXML | c # _ \<Rightarrow> Inr c))"

section \<open>The writer\<close>

record bxml_encoder =
  enc_out :: bytes
  enc_names :: "(gostring \<times> nat) list"
  enc_count :: nat

definition enc_append :: "bytes \<Rightarrow> bxml_encoder \<Rightarrow> bxml_encoder" where
  "enc_append b e = e\<lparr>enc_out := enc_out e @ b\<rparr>"

definition enc_string :: "gostring \<Rightarrow> bytes" where
  "enc_string s = writeLength (length s) @ s"

definition enc_ref :: "gostring \<Rightarrow> bxml_encoder \<Rightarrow> nat \<times> bxml_encoder" where
  "enc_ref name e =
     (case map_of (enc_names e) name of
        Some idx \<Rightarrow> (idx + nameRefBias, e)
      | None \<Rightarrow>
          (enc_count e + nameRefBias,
           \<lparr>enc_out = enc_out e @ [tokName] @ enc_string name, enc_names = (name, enc_count e) # enc_names e, enc_count = enc_count e + 1\<rparr>))"

definition enc_header :: "gostring \<Rightarrow> gostring \<Rightarrow> bxml_encoder \<Rightarrow> bxml_encoder" where
  "enc_header key v = enc_append ([tokHeader] @ enc_string key @ enc_string v)"

definition enc_str :: "byte \<Rightarrow> gostring \<Rightarrow> bxml_encoder \<Rightarrow> bxml_encoder" where
  "enc_str tok s = enc_append ([tok] @ enc_string s)"

definition nsNone :: byte where "nsNone = 1"
definition nsAsx :: byte where "nsAsx = 2"
definition nsAsxURL :: byte where "nsAsxURL = 3"

definition enc_attr :: "gostring \<times> gostring \<Rightarrow> bxml_encoder \<Rightarrow> bxml_encoder" where
  "enc_attr a e =
     (case enc_ref (fst a) e of (aref, e) \<Rightarrow>
      enc_str tokAttrVal (snd a) (enc_append [tokAttr, of_nat aref, if fst a = gostr ''lines'' then nsAsxURL else nsNone] e))"

definition enc_content :: "bxml_element \<Rightarrow> bxml_encoder \<Rightarrow> bxml_encoder" where
  "enc_content el = (if el_HasBody el then enc_str tokBody (el_Body el) else if el_HasText el then enc_str tokText (el_Text el) else id)"

fun enc_element :: "bxml_element \<Rightarrow> bxml_encoder \<Rightarrow> bxml_encoder" where
  "enc_element (Element n as cs t ht b hb) e =
     (case enc_ref n e of (r, e) \<Rightarrow>
      let e = enc_append [tokOpen, of_nat r, nsNone] e;
          e = fold enc_attr as e;
          e = enc_content (Element n as cs t ht b hb) e;
          e = fold enc_element cs e in
      enc_append [tokClose] e)"

definition bxml_envelope :: bxml_encoder where
  "bxml_envelope =
     (let e = \<lparr>enc_out = bxml_magic, enc_names = [], enc_count = 0\<rparr>;
          e = enc_header (gostr ''VER'') (gostr ''0.7'') e;
          e = enc_header (gostr ''ENC'') (gostr ''utf-8'') e;
          (asx, e) = enc_ref (gostr ''asx'') e;
          (asxURL, e) = enc_ref (gostr ''http://www.sap.com/abapxml'') e;
          e = enc_append [tokBind, of_nat asx, of_nat asxURL] e;
          (abap, e) = enc_ref (gostr ''abap'') e;
          e = enc_append [tokOpen, of_nat abap, nsAsx] e;
          (version, e) = enc_ref (gostr ''version'') e;
          e = enc_append [tokAttr, of_nat version, nsNone] e;
          e = enc_str tokAttrVal (gostr ''1.0'') e;
          (hint, e) = enc_ref (gostr ''asxhint'') e;
          (hintURL, e) = enc_ref (gostr ''http://www.sap.com/abapxml/hint'') e;
          e = enc_append [tokBind, of_nat hint, of_nat hintURL] e;
          e = enc_append [tokXmlns, of_nat asxURL] e;
          (vals, e) = enc_ref (gostr ''values'') e in
      enc_append [tokOpen, of_nat vals, nsAsx] e)"

definition bxml_Encode :: "bxml_element \<Rightarrow> bxml_error + bytes" where
  "bxml_Encode root =
     (let e = enc_append [tokClose, tokClose] (enc_element root bxml_envelope) in
      if enc_count e + nameRefBias > 0xff then Inl ErrBXML else Inr (enc_out e))"

section \<open>Lengths\<close>

lemma lead_bytes:
  "k < 32 \<Longrightarrow> 0x80 \<le> lead_byte 0xc0 k \<and> lead_byte 0xc0 k < 0xe0 \<and> unat (lead_byte 0xc0 k) mod 32 = k"
  "k < 16 \<Longrightarrow> 0xe0 \<le> lead_byte 0xe0 k \<and> lead_byte 0xe0 k < 0xf0 \<and> unat (lead_byte 0xe0 k) mod 16 = k"
  "k < 64 \<Longrightarrow> unat (lead_byte 0x80 k) mod 64 = k"
proof -
  have a: "list_all (\<lambda>k. 0x80 \<le> lead_byte 0xc0 k \<and> lead_byte 0xc0 k < 0xe0 \<and> unat (lead_byte 0xc0 k) mod 32 = k) [0..<32]"
    by code_simp
  have b: "list_all (\<lambda>k. 0xe0 \<le> lead_byte 0xe0 k \<and> lead_byte 0xe0 k < 0xf0 \<and> unat (lead_byte 0xe0 k) mod 16 = k) [0..<16]"
    by code_simp
  have c: "list_all (\<lambda>k. unat (lead_byte 0x80 k) mod 64 = k) [0..<64]"
    by code_simp
  show "k < 32 \<Longrightarrow> 0x80 \<le> lead_byte 0xc0 k \<and> lead_byte 0xc0 k < 0xe0 \<and> unat (lead_byte 0xc0 k) mod 32 = k" using a by (auto simp: list_all_iff)
  show "k < 16 \<Longrightarrow> 0xe0 \<le> lead_byte 0xe0 k \<and> lead_byte 0xe0 k < 0xf0 \<and> unat (lead_byte 0xe0 k) mod 16 = k" using b by (auto simp: list_all_iff)
  show "k < 64 \<Longrightarrow> unat (lead_byte 0x80 k) mod 64 = k" using c by (auto simp: list_all_iff)
qed

lemma lead_wraps: "0xf0 \<le> lead_byte 0xf0 k \<and> unat (lead_byte 0xf0 k) mod 8 = k mod 8"
proof -
  have u: "unat (lead_byte 0xf0 k) = or 0xf0 (take_bit 8 k)" by (simp add: lead_byte_def unsigned_of_nat take_bit_or)
  have "int 0xf0 \<le> int (or 0xf0 (take_bit 8 k))" using Bit_Operations.or_greater_eq [of "int (take_bit 8 k)" "0xf0"] by (simp add: of_nat_or_eq)
  then have g: "0xf0 \<le> or 0xf0 (take_bit 8 k)" by simp
  have "take_bit 3 (or 0xf0 (take_bit 8 k)) = take_bit 3 k" by (simp add: take_bit_or)
  then have "or 0xf0 (take_bit 8 k) mod 8 = k mod 8" by (simp add: take_bit_eq_mod)
  then show ?thesis using u g by (simp add: word_le_nat_alt)
qed

lemma split_length:
  fixes n :: nat
  shows "n div 64 * 64 + n mod 64 = n" "n div 4096 * 4096 + n div 64 mod 64 * 64 + n mod 64 = n"
    "n div 262144 mod 8 * 262144 + n div 4096 mod 64 * 4096 + n div 64 mod 64 * 64 + n mod 64 = n mod 2097152"
proof -
  have a: "n div 64 mod 64 * 64 + n mod 64 = n mod 4096" using mod_mult2_eq [of n 64 64] by simp
  have b: "n div 4096 mod 64 * 4096 + n mod 4096 = n mod 262144" using mod_mult2_eq [of n 4096 64] by simp
  have c: "n div 262144 mod 8 * 262144 + n mod 262144 = n mod 2097152" using mod_mult2_eq [of n 262144 8] by simp
  show "n div 64 * 64 + n mod 64 = n" by simp
  show "n div 4096 * 4096 + n div 64 mod 64 * 64 + n mod 64 = n" using a div_mult_mod_eq [of n 4096] by linarith
  show "n div 262144 mod 8 * 262144 + n div 4096 mod 64 * 4096 + n div 64 mod 64 * 64 + n mod 64 = n mod 2097152" using a b c by linarith
qed

lemma read_write_length: "readLength (writeLength n @ r) = Inr (if n < 0x10000 then n else n mod 2097152, r)"
proof -
  have m: "k mod 64 < (64 :: nat)" for k by simp
  note t = lead_bytes(3) [OF m]
  consider "n < 0x80" | "0x80 \<le> n" "n < 0x800" | "0x800 \<le> n" "n < 0x10000" | "0x10000 \<le> n" by linarith
  then show ?thesis
  proof cases
    case 1
    then have "(of_nat n :: byte) < 0x80" "unat (of_nat n :: byte) = n" by (simp_all add: word_less_nat_alt unat_of_nat)
    then show ?thesis using 1 by (simp add: writeLength_def readLength_def)
  next
    case 2
    then have "n div 64 < 32" by simp
    note l = lead_bytes(1) [OF this]
    have "\<not> lead_byte 0xc0 (n div 64) < 0x80" using l by (simp add: not_less)
    then show ?thesis using 2 l t [of n] split_length(1) [of n] by (simp add: writeLength_def readLength_def)
  next
    case 3
    then have "n div 4096 < 16" by simp
    note l = lead_bytes(2) [OF this]
    have "\<not> lead_byte 0xe0 (n div 4096) < 0xe0" "\<not> lead_byte 0xe0 (n div 4096) < 0x80"
      using l by (simp_all add: not_less word_le_nat_alt)
    then show ?thesis using 3 l t [of n] t [of "n div 64"] split_length(2) [of n] by (simp add: writeLength_def readLength_def)
  next
    case 4
    note l = lead_wraps [of "n div 262144"]
    have "\<not> lead_byte 0xf0 (n div 262144) < 0xf0" "\<not> lead_byte 0xf0 (n div 262144) < 0xe0" "\<not> lead_byte 0xf0 (n div 262144) < 0x80"
      using l by (simp_all add: not_less word_le_nat_alt)
    then show ?thesis using 4 l t [of n] t [of "n div 64"] t [of "n div 4096"] split_length(3) [of n] by (simp add: writeLength_def readLength_def)
  qed
qed

lemma readString_enc: "length s < 2097152 \<Longrightarrow> readString (enc_string s @ r) = Inr (s, r)"
  by (simp add: readString_def enc_string_def read_write_length)

section \<open>What the writer writes is read\<close>

definition reaches :: "bytes \<Rightarrow> bxml_state \<Rightarrow> bool" where
  "reaches out st \<longleftrightarrow> (\<forall>r. bxml_loop bxml_start (drop 4 out @ r) = bxml_loop st r) \<and> 4 \<le> length out \<and> take 4 out = bxml_magic"

definition enc_ok :: "gostring list \<Rightarrow> bxml_encoder \<Rightarrow> bool" where
  "enc_ok ns e \<longleftrightarrow> enc_count e = length ns \<and> (\<forall>name i. map_of (enc_names e) name = Some i \<longrightarrow> i < length ns \<and> ns ! i = name)"

lemmas bxml_tokens = tokHeader_def tokName_def tokOpen_def tokClose_def tokAttr_def tokAttrVal_def tokBind_def tokXmlns_def tokText_def tokBody_def tokString_def

lemma reaches_step:
  assumes "reaches out st" "\<And>r. bxml_step st tok (b @ r) = Inr (st', r)"
  shows "reaches (out @ tok # b) st'"
  using assms by (simp add: reaches_def)

lemma name_by_ref: "i < length ns \<Longrightarrow> i + nameRefBias < 256 \<Longrightarrow> nameByRef ns (unat (of_nat (i + nameRefBias) :: byte)) = Inr (ns ! i)"
  by (simp add: nameByRef_def nameRefBias_def unat_of_nat del: of_nat_add of_nat_Suc)

lemma ref_reaches:
  assumes "enc_ref name e = (k, e')" "enc_ok ns e" "reaches (enc_out e) (ns, stack)" "length name < 2097152"
  shows "\<exists>ns' i. enc_ok ns' e' \<and> reaches (enc_out e') (ns', stack) \<and> k = i + nameRefBias \<and> i < length ns' \<and> ns' ! i = name \<and> enc_count e \<le> enc_count e'"
proof (cases "map_of (enc_names e) name")
  case (Some i)
  then show ?thesis using assms by (intro exI [of _ ns] exI [of _ i]) (auto simp: enc_ref_def enc_ok_def)
next
  case None
  have e': "k = length ns + nameRefBias" "enc_out e' = enc_out e @ tokName # enc_string name" "enc_names e' = (name, length ns) # enc_names e" "enc_count e' = length ns + 1"
    using assms(1,2) None by (auto simp: enc_ref_def enc_ok_def)
  have "reaches (enc_out e') (ns @ [name], stack)"
    unfolding e'(2) by (rule reaches_step [OF assms(3)]) (simp add: bxml_step_def readString_enc [OF assms(4)], simp add: bxml_tokens)
  moreover have "enc_ok (ns @ [name]) e'" using assms(2) e'(3,4) by (auto simp: enc_ok_def nth_append less_SucI)
  ultimately show ?thesis using e'(1,4) assms(2) by (intro exI [of _ "ns @ [name]"] exI [of _ "length ns"]) (simp add: enc_ok_def)
qed

lemma enc_count_simps [simp]: "enc_count (enc_append b e) = enc_count e" "enc_names (enc_append b e) = enc_names e" "enc_out (enc_append b e) = enc_out e @ b"
    "enc_count (enc_str tok s e) = enc_count e" "enc_out (enc_str tok s e) = enc_out e @ tok # enc_string s" "enc_names (enc_str tok s e) = enc_names e"
    "enc_ok ns (enc_append b e) = enc_ok ns e" "enc_ok ns (enc_str tok s e) = enc_ok ns e" "enc_count (enc_content el e) = enc_count e"
  by (simp_all add: enc_append_def enc_str_def enc_content_def enc_ok_def)

lemma enc_ref_mono: "enc_count e \<le> enc_count (snd (enc_ref name e))"
  by (simp add: enc_ref_def split: option.splits)

lemma enc_attr_mono: "enc_count e \<le> enc_count (enc_attr a e)"
  using enc_ref_mono [of e "fst a"] by (cases "enc_ref (fst a) e") (simp add: enc_attr_def)

lemma fold_mono: "(\<And>x e. x \<in> set xs \<Longrightarrow> enc_count e \<le> enc_count (f x e)) \<Longrightarrow> enc_count e \<le> enc_count (fold f xs e)"
proof (induction xs arbitrary: e)
  case (Cons x xs)
  have "enc_count e \<le> enc_count (f x e)" by (rule Cons.prems) simp
  also have "\<dots> \<le> enc_count (fold f xs (f x e))" by (rule Cons.IH) (simp add: Cons.prems)
  finally show ?case by simp
qed simp

lemma enc_element_mono: "enc_count e \<le> enc_count (enc_element el e)"
proof (induction el arbitrary: e)
  case (Element n as cs t ht b hb)
  obtain k e1 where r: "enc_ref n e = (k, e1)" by (cases "enc_ref n e")
  define e2 where "e2 = fold enc_attr as (enc_append [tokOpen, of_nat k, nsNone] e1)"
  have "enc_count e \<le> enc_count e1" using enc_ref_mono [of e n] by (simp add: r)
  also have "\<dots> \<le> enc_count e2" using fold_mono [of as enc_attr "enc_append [tokOpen, of_nat k, nsNone] e1"] enc_attr_mono by (simp add: e2_def)
  also have "\<dots> \<le> enc_count (fold enc_element cs (enc_content (Element n as cs t ht b hb) e2))"
    using fold_mono [of cs enc_element "enc_content (Element n as cs t ht b hb) e2"] Element by simp
  finally show ?case by (simp add: r Let_def e2_def)
qed

definition short :: "gostring \<Rightarrow> bool" where
  "short s \<longleftrightarrow> length s < 2097152"

fun el_fits :: "bxml_element \<Rightarrow> bool" where
  "el_fits (Element n as cs t ht b hb) \<longleftrightarrow>
     short n \<and> list_all (\<lambda>a. short (fst a) \<and> short (snd a)) as \<and> short t \<and> short b \<and> (hb \<longrightarrow> \<not> ht) \<and> (\<not> ht \<longrightarrow> t = []) \<and> (\<not> hb \<longrightarrow> b = []) \<and> list_all el_fits cs"

lemma attr_reaches:
  assumes "enc_ok ns e" "reaches (enc_out e) (ns, tp # stack)" "short (fst a)" "short (snd a)" "enc_count (enc_attr a e) \<le> 253"
  shows "\<exists>ns'. enc_ok ns' (enc_attr a e) \<and> reaches (enc_out (enc_attr a e)) (ns', add_attr a tp # stack)"
proof -
  obtain k e1 where r: "enc_ref (fst a) e = (k, e1)" by (cases "enc_ref (fst a) e")
  obtain ns' i where n: "enc_ok ns' e1" "reaches (enc_out e1) (ns', tp # stack)" "k = i + nameRefBias" "i < length ns'" "ns' ! i = fst a"
    using ref_reaches [OF r assms(1,2)] assms(3) by (auto simp: short_def)
  have "length ns' \<le> 253" using assms(5) n(1) by (simp add: enc_attr_def r enc_ok_def)
  then have name: "nameByRef ns' (unat (of_nat k :: byte)) = Inr (fst a)" using name_by_ref [of i ns'] n(3-5) by (simp add: nameRefBias_def)
  let ?ns = "if fst a = gostr ''lines'' then nsAsxURL else nsNone"
  have "reaches (enc_out e1 @ tokAttr # (of_nat k # ?ns # tokAttrVal # enc_string (snd a))) (ns', add_attr a tp # stack)"
    by (rule reaches_step [OF n(2)])
      (use name readString_enc [of "snd a"] assms(4) in \<open>simp add: bxml_step_def attr_value_def on_top_def short_def\<close>, simp add: bxml_tokens)
  then show ?thesis using n(1) by (intro exI [of _ ns']) (simp add: enc_attr_def r)
qed

lemma attrs_reach:
  assumes "enc_ok ns e" "reaches (enc_out e) (ns, tp # stack)" "list_all (\<lambda>a. short (fst a) \<and> short (snd a)) as" "enc_count (fold enc_attr as e) \<le> 253"
  shows "\<exists>ns'. enc_ok ns' (fold enc_attr as e) \<and> reaches (enc_out (fold enc_attr as e)) (ns', fold add_attr as tp # stack)"
  using assms
proof (induction as arbitrary: ns e tp)
  case (Cons a as)
  have "enc_count (enc_attr a e) \<le> 253" using Cons.prems(4) fold_mono [of as enc_attr "enc_attr a e"] enc_attr_mono by (simp add: le_trans)
  then obtain ns' where n: "enc_ok ns' (enc_attr a e)" "reaches (enc_out (enc_attr a e)) (ns', add_attr a tp # stack)"
    using attr_reaches [OF Cons.prems(1,2), of a] Cons.prems(3) by auto
  show ?case using Cons.IH [OF n] Cons.prems(3,4) by simp
qed auto

lemma content_reaches:
  assumes "reaches (enc_out e) (ns, Element n as cs t0 ht0 b0 hb0 # stack)" "t0 = []" "\<not> ht0" "b0 = []" "\<not> hb0"
    and "short t" "short b" "hb \<longrightarrow> \<not> ht" "\<not> ht \<longrightarrow> t = []" "\<not> hb \<longrightarrow> b = []"
  shows "reaches (enc_out (enc_content (Element n' as' cs' t ht b hb) e)) (ns, Element n as cs t ht b hb # stack)"
proof -
  have b: "reaches (enc_out e @ tokBody # enc_string b) (ns, on_top (set_body b) (Element n as cs t0 ht0 b0 hb0 # stack))"
    by (rule reaches_step [OF assms(1)]) (use readString_enc [of b] assms(7) in \<open>simp add: bxml_step_def short_def\<close>, simp add: bxml_tokens)
  have t: "reaches (enc_out e @ tokText # enc_string t) (ns, on_top (set_text t) (Element n as cs t0 ht0 b0 hb0 # stack))"
    by (rule reaches_step [OF assms(1)]) (use readString_enc [of t] assms(6) in \<open>simp add: bxml_step_def short_def\<close>, simp add: bxml_tokens)
  show ?thesis using b t assms by (auto simp: enc_content_def on_top_def)
qed

lemma fold_add_attr: "fold add_attr as (Element n as0 cs t ht b hb) = Element n (as0 @ as) cs t ht b hb"
  by (induction as arbitrary: as0) simp_all

lemma add_child_sel: "add_child c (Element n as cs t ht b hb) = Element n as (cs @ [c]) t ht b hb"
  by simp

lemma children_reach:
  assumes "\<And>x ns e tp stack. x \<in> set xs \<Longrightarrow> enc_ok ns e \<Longrightarrow> reaches (enc_out e) (ns, tp # stack) \<Longrightarrow> el_fits x \<Longrightarrow> enc_count (enc_element x e) \<le> 253 \<Longrightarrow>
      \<exists>ns'. enc_ok ns' (enc_element x e) \<and> reaches (enc_out (enc_element x e)) (ns', add_child x tp # stack)"
    and "list_all el_fits xs" "enc_ok ns e" "reaches (enc_out e) (ns, Element n as cs t ht b hb # stack)" "enc_count (fold enc_element xs e) \<le> 253"
  shows "\<exists>ns'. enc_ok ns' (fold enc_element xs e) \<and> reaches (enc_out (fold enc_element xs e)) (ns', Element n as (cs @ xs) t ht b hb # stack)"
  using assms
proof (induction xs arbitrary: ns e cs)
  case (Cons x xs)
  have "enc_count (enc_element x e) \<le> enc_count (fold enc_element xs (enc_element x e))" by (rule fold_mono) (rule enc_element_mono)
  then have c: "enc_count (enc_element x e) \<le> 253" using Cons.prems(5) by simp
  obtain ns' where n: "enc_ok ns' (enc_element x e)" "reaches (enc_out (enc_element x e)) (ns', Element n as (cs @ [x]) t ht b hb # stack)"
    using Cons.prems(1) [OF _ Cons.prems(3,4) _ c] Cons.prems(2) by auto
  have "\<exists>ns'. enc_ok ns' (fold enc_element xs (enc_element x e)) \<and>
      reaches (enc_out (fold enc_element xs (enc_element x e))) (ns', Element n as ((cs @ [x]) @ xs) t ht b hb # stack)"
    by (rule Cons.IH [OF Cons.prems(1) _ n]) (use Cons.prems(2,5) in simp_all)
  then show ?case by simp
qed auto

lemma element_reaches:
  assumes "enc_ok ns e" "reaches (enc_out e) (ns, tp # stack)" "el_fits el" "enc_count (enc_element el e) \<le> 253"
  shows "\<exists>ns'. enc_ok ns' (enc_element el e) \<and> reaches (enc_out (enc_element el e)) (ns', add_child el tp # stack)"
  using assms
proof (induction el arbitrary: ns e tp stack)
  case (Element n as cs t ht b hb)
  have f: "short n" "list_all (\<lambda>a. short (fst a) \<and> short (snd a)) as" "short t" "short b" "hb \<longrightarrow> \<not> ht" "\<not> ht \<longrightarrow> t = []" "\<not> hb \<longrightarrow> b = []" "list_all el_fits cs"
    using Element.prems(3) by simp_all
  obtain k e1 where r: "enc_ref n e = (k, e1)" by (cases "enc_ref n e")
  define e2 where "e2 = enc_append [tokOpen, of_nat k, nsNone] e1"
  define e3 where "e3 = fold enc_attr as e2"
  define e4 where "e4 = enc_content (Element n as cs t ht b hb) e3"
  define e5 where "e5 = fold enc_element cs e4"
  have out: "enc_element (Element n as cs t ht b hb) e = enc_append [tokClose] e5" by (simp add: r Let_def e2_def e3_def e4_def e5_def)
  have c5: "enc_count e5 \<le> 253" using Element.prems(4) out by simp
  have "enc_count e4 \<le> enc_count e5" unfolding e5_def by (rule fold_mono) (rule enc_element_mono)
  then have c3: "enc_count e3 \<le> 253" using c5 by (simp add: e4_def)
  have "enc_count e2 \<le> enc_count e3" unfolding e3_def by (rule fold_mono) (rule enc_attr_mono)
  then have c1: "enc_count e1 \<le> 253" using c3 by (simp add: e2_def)
  obtain ns1 i where n1: "enc_ok ns1 e1" "reaches (enc_out e1) (ns1, tp # stack)" "k = i + nameRefBias" "i < length ns1" "ns1 ! i = n"
    using ref_reaches [OF r Element.prems(1,2)] f(1) by (auto simp: short_def)
  have name: "nameByRef ns1 (unat (of_nat k :: byte)) = Inr n" using name_by_ref [of i ns1] n1 c1 by (simp add: nameRefBias_def enc_ok_def)
  have n2: "reaches (enc_out e2) (ns1, new_element n # tp # stack)"
    unfolding e2_def enc_count_simps by (rule reaches_step [OF n1(2)]) (use name in \<open>simp add: bxml_step_def\<close>, simp add: bxml_tokens)
  obtain ns3 where n3: "enc_ok ns3 e3" "reaches (enc_out e3) (ns3, Element n as [] [] False [] False # tp # stack)"
    using attrs_reach [OF _ n2 f(2)] n1(1) c3 by (auto simp: e2_def e3_def new_element_def fold_add_attr)
  have n4: "reaches (enc_out e4) (ns3, Element n as [] t ht b hb # tp # stack)"
    unfolding e4_def by (rule content_reaches [OF n3(2)]) (use f in simp_all)
  have ok4: "enc_ok ns3 e4" using n3(1) by (simp add: e4_def enc_content_def)
  have "\<exists>ns'. enc_ok ns' e5 \<and> reaches (enc_out e5) (ns', Element n as ([] @ cs) t ht b hb # tp # stack)"
    unfolding e5_def by (rule children_reach [OF _ f(8) ok4 n4]) (use Element.IH c5 in \<open>blast, simp add: e5_def\<close>)
  then obtain ns5 where n5: "enc_ok ns5 e5" "reaches (enc_out e5) (ns5, Element n as cs t ht b hb # tp # stack)" by auto
  have "reaches (enc_out e5 @ tokClose # []) (ns5, add_child (Element n as cs t ht b hb) tp # stack)"
    by (rule reaches_step [OF n5(2)]) (simp add: bxml_step_def, simp add: bxml_tokens)
  then show ?case using n5(1) by (intro exI [of _ ns5]) (simp only: out enc_count_simps)
qed

definition env_names :: "gostring list" where
  "env_names = map gostr [''asx'', ''http://www.sap.com/abapxml'', ''abap'', ''version'', ''asxhint'', ''http://www.sap.com/abapxml/hint'', ''values'']"

definition env_abap :: "bxml_element \<Rightarrow> bxml_element" where
  "env_abap vals = Element (gostr ''abap'') [(gostr ''version'', gostr ''1.0'')] [vals] [] False [] False"

definition env_stack :: "bxml_element list" where
  "env_stack = [new_element (gostr ''values''), Element (gostr ''abap'') [(gostr ''version'', gostr ''1.0'')] [] [] False [] False, new_element (gostr ''#document'')]"

lemmas envelope_simps = bxml_envelope_def enc_ref_def enc_header_def nameRefBias_def enc_append_def enc_str_def gostr_inj

lemma envelope_ok: "enc_ok env_names bxml_envelope"
  by (simp add: enc_ok_def envelope_simps) (simp add: env_names_def)

lemma envelope_out:
  "enc_out bxml_envelope = bxml_magic @ tokHeader # enc_string (gostr ''VER'') @ enc_string (gostr ''0.7'') @ tokHeader # enc_string (gostr ''ENC'') @ enc_string (gostr ''utf-8'') @
     tokName # enc_string (gostr ''asx'') @ tokName # enc_string (gostr ''http://www.sap.com/abapxml'') @ tokBind # 2 # 3 # tokName # enc_string (gostr ''abap'') @ tokOpen # 4 # nsAsx #
     tokName # enc_string (gostr ''version'') @ tokAttr # 5 # nsNone # tokAttrVal # enc_string (gostr ''1.0'') @ tokName # enc_string (gostr ''asxhint'') @
     tokName # enc_string (gostr ''http://www.sap.com/abapxml/hint'') @ tokBind # 6 # 7 # tokXmlns # 3 # tokName # enc_string (gostr ''values'') @ tokOpen # 8 # nsAsx # []"
  by (simp add: envelope_simps)

lemma loop_steps:
  "short k \<Longrightarrow> short v \<Longrightarrow> bxml_loop (ns, stack) (tokHeader # enc_string k @ enc_string v @ r) = bxml_loop (ns, stack) r"
  "short s \<Longrightarrow> bxml_loop (ns, stack) (tokName # enc_string s @ r) = bxml_loop (ns @ [s], stack) r"
  "bxml_loop (ns, stack) (tokBind # x # y # r) = bxml_loop (ns, stack) r"
  "bxml_loop (ns, stack) (tokXmlns # x # r) = bxml_loop (ns, stack) r"
  "nameByRef ns (unat x) = Inr n \<Longrightarrow> bxml_loop (ns, stack) (tokOpen # x # y # r) = bxml_loop (ns, new_element n # stack) r"
  "nameByRef ns (unat x) = Inr n \<Longrightarrow> short s \<Longrightarrow> bxml_loop (ns, stack) (tokAttr # x # y # tokAttrVal # enc_string s @ r) = bxml_loop (ns, on_top (add_attr (n, s)) stack) r"
  by (simp_all add: bxml_step_def readString_enc short_def attr_value_def) (simp_all add: bxml_tokens)

lemma envelope_reaches: "reaches (enc_out bxml_envelope) (env_names, env_stack)"
proof -
  have m: "length bxml_magic = 4" by (simp add: bxml_magic_def gostr_def)
  have s: "short (gostr x) \<longleftrightarrow> length x < 2097152" for x by (simp add: short_def gostr_def)
  show ?thesis
    by (simp add: reaches_def envelope_out m loop_steps bxml_start_def s nameByRef_def nameRefBias_def del: bxml_loop.simps)
     (simp add: env_names_def env_stack_def on_top_def new_element_def)
qed

section \<open>Documents\<close>

definition env_document :: "bxml_element \<Rightarrow> bxml_element" where
  "env_document root = Element (gostr ''#document'') [] [env_abap (Element (gostr ''values'') [] [root] [] False [] False)] [] False [] False"

lemma decode_reached:
  assumes "reaches out (ns, [vals, abap, document])"
  shows "bxml_Decode (out @ [tokClose, tokClose]) = Inr (add_child (add_child vals abap) document)"
proof -
  have "bxml_loop bxml_start (drop 4 out @ [tokClose, tokClose]) = bxml_loop (ns, [vals, abap, document]) [tokClose, tokClose]" using assms by (simp add: reaches_def)
  also have "\<dots> = Inr (ns, [add_child (add_child vals abap) document])" by (simp add: bxml_step_def) (simp add: bxml_tokens)
  finally show ?thesis using assms by (simp add: reaches_def bxml_Decode_def)
qed

text \<open>
  C37. Round trip of Binary XML: whatever tree the writer accepts (with texts shorter than 2 MiB, and no element with both text and body), the reader returns the asXML
  envelope around exactly that tree, and the payload root of the document is the tree.
\<close>

theorem bxml_roundtrip:
  assumes "bxml_Encode root = Inr doc" "el_fits root"
  shows "bxml_Decode doc = Inr (env_document root) \<and> PayloadRoot (env_document root) = Inr root"
proof
  define e where "e = enc_element root bxml_envelope"
  have e: "enc_count e \<le> 253" "doc = enc_out e @ [tokClose, tokClose]"
    using assms(1) by (auto simp: bxml_Encode_def e_def nameRefBias_def Let_def split: if_splits)
  obtain ns where "reaches (enc_out e) (ns, add_child root (new_element (gostr ''values'')) # tl env_stack)"
    using element_reaches [OF envelope_ok, of "hd env_stack" "tl env_stack" root] envelope_reaches assms(2) e(1) by (auto simp: e_def env_stack_def)
  then show "bxml_Decode doc = Inr (env_document root)"
    unfolding e(2) using decode_reached by (simp add: env_stack_def new_element_def env_document_def env_abap_def)
  show "PayloadRoot (env_document root) = Inr root" by (simp add: PayloadRoot_def env_document_def env_abap_def el_Child_def)
qed

definition sample_request :: bxml_element where
  "sample_request = Element (gostr ''REQUEST'') [] [Element (gostr ''HEADER'') [(gostr ''lines'', gostr ''1'')] [] (gostr ''v'') True [] False] [] False [] False"

theorem bxml_roundtrip_witness:
  "\<exists>doc. bxml_Encode sample_request = Inr doc \<and> bxml_Decode doc = Inr (env_document sample_request)"
proof -
  have "enc_count (enc_element sample_request bxml_envelope) + nameRefBias \<le> 0xff"
    by (simp add: sample_request_def envelope_simps enc_attr_def enc_content_def Let_def)
  then obtain doc where d: "bxml_Encode sample_request = Inr doc" by (simp add: bxml_Encode_def Let_def)
  have "el_fits sample_request" by (simp add: sample_request_def short_def gostr_def)
  from bxml_roundtrip [OF d this] d show ?thesis by blast
qed

section \<open>Long texts\<close>

lemma closes_fail: "bxml_loop (ns, [a, b, c, d]) (replicate (Suc (Suc (Suc (Suc n)))) tokClose @ r) = Inl ErrBXML"
  by (simp add: bxml_step_def) (simp add: bxml_tokens)

definition long_element :: bxml_element where
  "long_element = Element (gostr ''BODY'') [] [] [] False (replicate 2097152 tokClose) True"

lemma long_out:
  "enc_out (enc_element long_element bxml_envelope) =
     enc_out bxml_envelope @ tokName # enc_string (gostr ''BODY'') @ tokOpen # 9 # nsNone # tokBody # writeLength 2097152 @ replicate 2097152 tokClose @ [tokClose]"
  "enc_count (enc_element long_element bxml_envelope) = 8"
proof -
  have r: "enc_ref (gostr ''BODY'') bxml_envelope =
      (9, \<lparr>enc_out = enc_out bxml_envelope @ [tokName] @ enc_string (gostr ''BODY''), enc_names = (gostr ''BODY'', 7) # enc_names bxml_envelope, enc_count = 8\<rparr>)"
    by (simp add: envelope_simps)
  show "enc_out (enc_element long_element bxml_envelope) =
     enc_out bxml_envelope @ tokName # enc_string (gostr ''BODY'') @ tokOpen # 9 # nsNone # tokBody # writeLength 2097152 @ replicate 2097152 tokClose @ [tokClose]"
    "enc_count (enc_element long_element bxml_envelope) = 8"
    by (simp_all add: long_element_def r Let_def enc_content_def enc_str_def enc_append_def enc_string_def)
qed

text \<open>
  C38. Lengths from 2 MiB on are not written correctly: the reader gets a length from 64 KiB on modulo 2 MiB, and for one tree with a body of 2 MiB the writer
  reports success and the reader refuses its document.
\<close>

theorem bxml_length_wraps:
  "readLength (writeLength (0x10000 + n) @ r) = Inr ((0x10000 + n) mod 2097152, r) \<and>
   (\<exists>doc. bxml_Encode long_element = Inr doc \<and> bxml_Decode doc = Inl ErrBXML)"
proof
  show "readLength (writeLength (0x10000 + n) @ r) = Inr ((0x10000 + n) mod 2097152, r)" by (simp add: read_write_length)
  define doc where "doc = enc_out (enc_element long_element bxml_envelope) @ [tokClose, tokClose]"
  have e: "bxml_Encode long_element = Inr doc" by (simp add: bxml_Encode_def Let_def nameRefBias_def long_out(2) doc_def)
  let ?ns = "env_names @ [gostr ''BODY'']"
  have sh: "short (gostr ''BODY'')" by (simp add: short_def gostr_def)
  have n: "nameByRef ?ns (unat (9 :: byte)) = Inr (gostr ''BODY'')" by (simp add: nameByRef_def nameRefBias_def env_names_def)
  have b: "bxml_loop (?ns, new_element (gostr ''BODY'') # env_stack) (tokBody # writeLength 2097152 @ rest) =
      bxml_loop (?ns, set_body [] (new_element (gostr ''BODY'')) # env_stack) rest" for rest
    by (simp add: bxml_step_def readString_def read_write_length on_top_def) (simp add: bxml_tokens)
  have c: "bxml_loop (?ns, el # env_stack) (replicate 2097152 tokClose @ rest) = Inl ErrBXML" for el rest
    using closes_fail [of ?ns el "env_stack ! 0" "env_stack ! 1" "env_stack ! 2" 2097148 rest] by (simp add: env_stack_def)
  have "bxml_loop bxml_start (drop 4 (enc_out bxml_envelope) @ rest) = bxml_loop (env_names, env_stack) rest" "take 4 (enc_out bxml_envelope) = bxml_magic" "4 \<le> length (enc_out bxml_envelope)" for rest
    using envelope_reaches by (simp_all add: reaches_def)
  then have "bxml_Decode doc = Inl ErrBXML"
    unfolding doc_def long_out(1) bxml_Decode_def
    by (simp add: loop_steps(2) loop_steps(5) [OF n] b c sh del: bxml_loop.simps)
  then show "\<exists>doc. bxml_Encode long_element = Inr doc \<and> bxml_Decode doc = Inl ErrBXML" using e by blast
qed

end
