(* ===== verification/Metadata_Definition.thy ===== *)
theory Metadata_Definition
  imports Classic_Result Structure_Codec
begin

text \<open>
  Package \<open>metadata\<close>, the two bootstrap calls: \<open>RFC_GET_STRUCTURE_DEFINITION\<close> (\<open>structure_definition.go\<close>) and \<open>RFC_GET_FUNCTION_INTERFACE\<close>
  (\<open>function_interface.go\<close>). A request is built by the CPIC encoder; a response is grouped by \<open>DecodeResult\<close> and its rows are read by their stable prefixes. The
  int32 members are 32-bit words read as signed numbers, as in the structure codec. The map of the names seen so far is a list.
\<close>

section \<open>Structure definitions\<close>

datatype metadata_error =
    ErrStructureDefinition
  | ErrFunctionInterface
  | ErrMetadataClassic classic_error
  | ErrMetadataWire wire_error
  | ErrMetadataRequest cpic_error

definition RfcFieldsUnicodeRowLength :: nat where "RfcFieldsUnicodeRowLength = 138"
definition maxRfcStructureFields :: u32 where "maxRfcStructureFields = 20000"

definition classic_step :: "classic_error + 'a \<Rightarrow> metadata_error + 'a" where
  "classic_step r = (case r of Inl e \<Rightarrow> Inl (ErrMetadataClassic e) | Inr v \<Rightarrow> Inr v)"

definition wire_step :: "wire_error + 'a \<Rightarrow> metadata_error + 'a" where
  "wire_step r = (case r of Inl e \<Rightarrow> Inl (ErrMetadataWire e) | Inr v \<Rightarrow> Inr v)"

definition request_step :: "cpic_error + 'a \<Rightarrow> metadata_error + 'a" where
  "request_step r = (case r of Inl e \<Rightarrow> Inl (ErrMetadataRequest e) | Inr v \<Rightarrow> Inr v)"

definition bootstrap_call :: "string \<Rightarrow> string list \<Rightarrow> named_value list \<Rightarrow> cut_function_request_input" where
  "bootstrap_call function outputs imports =
     \<lparr>ci_FunctionName = gostr function, ci_RequestedOutputs = map gostr outputs, ci_Imports = imports, ci_Tables = [],
      ci_XrfcParameters = [], ci_KernelRelease = [], ci_MaximumRfcPacketSize = None\<rparr>"

definition BuildRfcGetStructureDefinitionRequest :: "gostring \<Rightarrow> metadata_error + bytes" where
  "BuildRfcGetStructureDefinitionRequest structureName =
     bindE (classic_step (EncodeAbapChar structureName 30)) (\<lambda>tabname.
     request_step (EncodeCutFunctionRequest
       (bootstrap_call ''RFC_GET_STRUCTURE_DEFINITION'' [''TABLENGTH'', ''FIELDS''] [\<lparr>nv_Name = gostr ''TABNAME'', nv_Value = tabname\<rparr>])))"

definition readChar :: "int \<Rightarrow> int \<Rightarrow> reader \<Rightarrow> metadata_error + gostring \<times> reader" where
  "readChar n chars r =
     bindE (wire_step (ReadBytes n ''field'' r)) (\<lambda>(b, r).
     bindE (classic_step (DecodeAbapChar b (Some chars))) (\<lambda>s. Inr (s, r)))"

definition readInt :: "reader \<Rightarrow> metadata_error + i32 \<times> reader" where
  "readInt r = wire_step (ReadInt32LE ''field'' r)"

text \<open>The codec asks for the type code as a string of characters; it is the same bytes.\<close>

definition exid_string :: "gostring \<Rightarrow> string" where
  "exid_string s = map (\<lambda>b. char_of (unat b)) s"

definition DecodeRfcFieldsRow :: "bytes \<Rightarrow> metadata_error + structure_field" where
  "DecodeRfcFieldsRow v =
     bindE (fail_if (length v < RfcFieldsUnicodeRowLength) ErrStructureDefinition) (\<lambda>_.
     let r = NewReader (take RfcFieldsUnicodeRowLength v) ''RFC_FIELDS row'' in
     bindE (readChar 60 30 r) (\<lambda>(tableName, r).
     bindE (readChar 60 30 r) (\<lambda>(fieldName, r).
     bindE (readInt r) (\<lambda>(position, r).
     bindE (readInt r) (\<lambda>(offset, r).
     bindE (readInt r) (\<lambda>(internalLength, r).
     bindE (readInt r) (\<lambda>(decimals, r).
     bindE (readChar 2 1 r) (\<lambda>(exid, r).
     bindE (fail_if (tableName = [] \<or> fieldName = []) ErrStructureDefinition) (\<lambda>_.
     bindE (fail_if (sint position < 1 \<or> sint offset < 0 \<or> sint internalLength < 0 \<or> sint decimals < 0) ErrStructureDefinition) (\<lambda>_.
     Inr \<lparr>sf_TableName = tableName, sf_FieldName = fieldName, sf_Position = position, sf_Offset = offset,
          sf_InternalLength = internalLength, sf_Decimals = decimals, sf_Exid = exid_string exid\<rparr>))))))))))"

text \<open>The loop before the decoding: the declared row count of every table \<open>FIELDS\<close>.\<close>

fun check_row_counts :: "cpic_field list \<Rightarrow> metadata_error + unit" where
  "check_row_counts [] = Inr ()"
| "check_row_counts (field # fs) =
     (if fd_Tag field \<noteq> CpicTagTableName \<or> DecodeAbapChar (fd_Value field) None \<noteq> Inr (gostr ''FIELDS'') then check_row_counts fs
      else case fs of
          [] \<Rightarrow> Inr ()
        | h # _ \<Rightarrow>
            if fd_Tag h \<noteq> CpicTagTableHeader then check_row_counts fs
            else bindE (classic_step (DecodeRfcTableHeader (fd_Value h))) (\<lambda>header.
              bindE (fail_if (th_RowCount header > maxRfcStructureFields) ErrStructureDefinition) (\<lambda>_. check_row_counts fs)))"

definition requiredStructScalar :: "scalar_value list \<Rightarrow> gostring \<Rightarrow> metadata_error + bytes" where
  "requiredStructScalar scalars name =
     (case find (\<lambda>s. sv_Name s = name) scalars of Some s \<Rightarrow> Inr (sv_Value s) | None \<Rightarrow> Inl ErrStructureDefinition)"

text \<open>A loop that keeps a pointer to the last table of a name.\<close>

definition last_table :: "gostring \<Rightarrow> result_table list \<Rightarrow> result_table option" where
  "last_table name tables = fold (\<lambda>t found. if rt_Name t = name then Some t else found) tables None"

fun structure_rows :: "gostring \<Rightarrow> i32 \<Rightarrow> nat \<Rightarrow> gostring list \<Rightarrow> i32 \<Rightarrow> bytes list \<Rightarrow> metadata_error + structure_field list" where
  "structure_rows structureName byteLength index names previousEnd [] = Inr []"
| "structure_rows structureName byteLength index names previousEnd (row # rows) =
     bindE (DecodeRfcFieldsRow row) (\<lambda>field.
     let field = field\<lparr>sf_Position := of_nat (index + 1)\<rparr> in
     bindE (fail_if (sf_TableName field \<noteq> structureName) ErrStructureDefinition) (\<lambda>_.
     bindE (fail_if (sf_FieldName field \<in> set names) ErrStructureDefinition) (\<lambda>_.
     bindE (fail_if (sint (sf_Offset field) < sint previousEnd) ErrStructureDefinition) (\<lambda>_.
     let fieldEnd = sf_Offset field + sf_InternalLength field in
     bindE (fail_if (sint fieldEnd > sint byteLength) ErrStructureDefinition) (\<lambda>_.
     bindE (structure_rows structureName byteLength (index + 1) (sf_FieldName field # names) fieldEnd rows) (\<lambda>decoded.
     Inr (field # decoded)))))))"

definition DecodeRfcStructureDefinitionResult :: "gostring \<Rightarrow> cpic_field list \<Rightarrow> metadata_error + structure_definition" where
  "DecodeRfcStructureDefinitionResult structureName flds =
     bindE (check_row_counts flds) (\<lambda>_.
     bindE (classic_step (DecodeResult flds)) (\<lambda>result.
     bindE (requiredStructScalar (gr_Scalars result) (gostr ''TABLENGTH'')) (\<lambda>lengthValue.
     bindE (fail_if (length lengthValue \<noteq> 4) ErrStructureDefinition) (\<lambda>_.
     let byteLength = get32le lengthValue in
     bindE (fail_if (sint byteLength < 0) ErrStructureDefinition) (\<lambda>_.
     case last_table (gostr ''FIELDS'') (gr_Tables result) of
       None \<Rightarrow> Inl ErrStructureDefinition
     | Some fieldTable \<Rightarrow>
         bindE (fail_if (rt_RowByteLength fieldTable < RfcFieldsUnicodeRowLength) ErrStructureDefinition) (\<lambda>_.
         bindE (structure_rows structureName byteLength 0 [] 0 (rt_Rows fieldTable)) (\<lambda>decoded.
         Inr \<lparr>st_Name = structureName, st_ByteLength = byteLength, st_Fields = decoded\<rparr>)))))))"

fun other_owner :: "gostring \<Rightarrow> bytes list \<Rightarrow> metadata_error + gostring" where
  "other_owner queried [] = Inr []"
| "other_owner queried (row # rows) =
     bindE (DecodeRfcFieldsRow row) (\<lambda>f.
     if sf_TableName f \<noteq> [] \<and> sf_TableName f \<noteq> queried then Inr (sf_TableName f) else other_owner queried rows)"

fun row_structure :: "gostring \<Rightarrow> result_table list \<Rightarrow> metadata_error + gostring" where
  "row_structure queried [] = Inr []"
| "row_structure queried (t # ts) =
     (if rt_Name t \<noteq> gostr ''FIELDS'' then row_structure queried ts
      else bindE (other_owner queried (rt_Rows t)) (\<lambda>name. if name \<noteq> [] then Inr name else row_structure queried ts))"

definition RowStructureName :: "gostring \<Rightarrow> cpic_field list \<Rightarrow> metadata_error + gostring" where
  "RowStructureName queried flds =
     bindE (classic_step (DecodeResult flds)) (\<lambda>result. row_structure queried (gr_Tables result))"

section \<open>Function interfaces\<close>

record function_interface =
  fi_Name :: gostring
  fi_RemoteBasxmlSupported :: bool
  fi_RemoteCall :: gostring
  fi_UpdateTask :: bool
  fi_Parameters :: "funint_parameter list"
  fi_Exceptions :: "gostring list"
  fi_ResumableExceptionRowCount :: nat

definition functionInterfaceOutputs :: "string list" where
  "functionInterfaceOutputs = [''REMOTE_BASXML_SUPPORTED'', ''REMOTE_CALL'', ''UPDATE_TASK'', ''PARAMS'', ''RESUMABLE_EXCEPTIONS'']"

definition BuildRfcGetFunctionInterfaceRequest :: "gostring \<Rightarrow> metadata_error + bytes" where
  "BuildRfcGetFunctionInterfaceRequest functionName =
     bindE (classic_step (EncodeAbapChar functionName 30)) (\<lambda>funcname.
     bindE (classic_step (EncodeAbapChar (gostr ''X'') 1)) (\<lambda>x.
     request_step (EncodeCutFunctionRequest
       (bootstrap_call ''RFC_GET_FUNCTION_INTERFACE'' functionInterfaceOutputs
         [\<lparr>nv_Name = gostr ''FUNCNAME'', nv_Value = funcname\<rparr>, \<lparr>nv_Name = gostr ''NONE_UNICODE_LENGTH'', nv_Value = x\<rparr>]))))"

definition requiredScalar :: "scalar_value list \<Rightarrow> string \<Rightarrow> metadata_error + bytes" where
  "requiredScalar scalars name =
     (case find (\<lambda>s. sv_Name s = gostr name) scalars of Some s \<Rightarrow> Inr (sv_Value s) | None \<Rightarrow> Inl ErrFunctionInterface)"

definition decodeFlag :: "bytes \<Rightarrow> metadata_error + bool" where
  "decodeFlag v =
     bindE (classic_step (DecodeAbapChar v (Some 1))) (\<lambda>decoded.
     bindE (fail_if (decoded \<noteq> [] \<and> decoded \<noteq> gostr ''X'') ErrFunctionInterface) (\<lambda>_.
     Inr (decoded = gostr ''X'')))"

text \<open>The loop over the rows of \<open>PARAMS\<close>: parameters and exceptions, each in the order of the rows.\<close>

fun interface_rows :: "bytes list \<Rightarrow> metadata_error + funint_parameter list \<times> gostring list" where
  "interface_rows [] = Inr ([], [])"
| "interface_rows (row # rows) =
     bindE (classic_step (DecodeFunintRow row)) (\<lambda>p.
     bindE (interface_rows rows) (\<lambda>(parameters, exceptions).
     Inr (if fp_ParameterClass p = gostr ''X'' then (parameters, fp_ParameterName p # exceptions) else (p # parameters, exceptions))))"

definition DecodeRfcFunctionInterfaceResult :: "gostring \<Rightarrow> cpic_field list \<Rightarrow> metadata_error + function_interface" where
  "DecodeRfcFunctionInterfaceResult functionName flds =
     bindE (classic_step (DecodeResult flds)) (\<lambda>result.
     case last_table (gostr ''PARAMS'') (gr_Tables result) of
       None \<Rightarrow> Inl ErrFunctionInterface
     | Some params \<Rightarrow>
         bindE (fail_if (rt_RowByteLength params < RfcFunintUnicodeRowLength) ErrFunctionInterface) (\<lambda>_.
         case last_table (gostr ''RESUMABLE_EXCEPTIONS'') (gr_Tables result) of
           None \<Rightarrow> Inl ErrFunctionInterface
         | Some resumable \<Rightarrow>
             bindE (interface_rows (rt_Rows params)) (\<lambda>(parameters, exceptions).
             bindE (requiredScalar (gr_Scalars result) ''REMOTE_BASXML_SUPPORTED'') (\<lambda>basxml.
             bindE (decodeFlag basxml) (\<lambda>remoteBasxml.
             bindE (requiredScalar (gr_Scalars result) ''REMOTE_CALL'') (\<lambda>remoteCallVal.
             bindE (classic_step (DecodeAbapChar remoteCallVal (Some 1))) (\<lambda>remoteCall.
             bindE (requiredScalar (gr_Scalars result) ''UPDATE_TASK'') (\<lambda>updateTaskVal.
             bindE (decodeFlag updateTaskVal) (\<lambda>updateTask.
             Inr \<lparr>fi_Name = functionName, fi_RemoteBasxmlSupported = remoteBasxml, fi_RemoteCall = remoteCall, fi_UpdateTask = updateTask,
                  fi_Parameters = parameters, fi_Exceptions = exceptions, fi_ResumableExceptionRowCount = length (rt_Rows resumable)\<rparr>)))))))))"

section \<open>Rows\<close>

lemma step_Inr [simp]:
  "classic_step r = Inr v \<longleftrightarrow> r = Inr v" "wire_step w = Inr v \<longleftrightarrow> w = Inr v" "request_step q = Inr v \<longleftrightarrow> q = Inr v"
  "classic_step (Inr v) = Inr v" "wire_step (Inr v) = Inr v" "request_step (Inr v) = Inr v"
  by (auto simp: classic_step_def wire_step_def request_step_def split: sum.splits)

definition padded :: "nat \<Rightarrow> gostring \<Rightarrow> bytes" where
  "padded n s = utf16leEncode (s @ replicate (n - codeUnitLen s) 0x20)"

definition text_fits :: "nat \<Rightarrow> gostring \<Rightarrow> bool" where
  "text_fits n s \<longleftrightarrow> n \<le> 0x7fff \<and> ValidString s \<and> codeUnitLen s \<le> n \<and> trimRight s = s"

lemma padded_decodes:
  assumes "text_fits n s"
  shows "length (padded n s) = 2 * n" "DecodeAbapChar (padded n s) (Some (int n)) = Inr s" "DecodeAbapChar (padded n s) None = Inr s"
proof -
  have "EncodeAbapChar s (int n) = Inr (padded n s)" using assms by (simp add: encode_char_exact text_fits_def padded_def)
  from char_roundtrip [OF this] show "length (padded n s) = 2 * n" "DecodeAbapChar (padded n s) (Some (int n)) = Inr s" "DecodeAbapChar (padded n s) None = Inr s"
    using assms by (simp_all add: text_fits_def)
qed

lemma read_padded:
  assumes "text_fits n s" "chars = int n" "bytes = 2 * int n"
  shows "readChar bytes chars (rdr c pre (padded n s @ rest)) = Inr (s, rdr c (pre @ padded n s) rest)"
  using padded_decodes [OF assms(1)] assms(2,3) by (simp add: readChar_def ReadBytes_step)

lemma read_int: "readInt (rdr c pre (put32le v @ rest)) = Inr (v, rdr c (pre @ put32le v) rest)"
  by (simp add: readInt_def i32le.read_step)

text \<open>A row of \<open>RFC_FIELDS\<close>: its columns and what a later release appends. The position is the one the server reports.\<close>

definition fields_row :: "structure_field \<Rightarrow> bytes \<Rightarrow> bytes" where
  "fields_row f later =
     padded 30 (sf_TableName f) @ padded 30 (sf_FieldName f) @ put32le (sf_Position f) @ put32le (sf_Offset f) @ put32le (sf_InternalLength f) @
     put32le (sf_Decimals f) @ padded 1 (gostr (sf_Exid f)) @ later"

definition row_texts_ok :: "structure_field \<Rightarrow> bool" where
  "row_texts_ok f \<longleftrightarrow> text_fits 30 (sf_TableName f) \<and> text_fits 30 (sf_FieldName f) \<and> text_fits 1 (gostr (sf_Exid f)) \<and> sf_TableName f \<noteq> [] \<and> sf_FieldName f \<noteq> []"

lemma exid_gostr [simp]: "exid_string (gostr s) = s"
  by (simp add: exid_string_def gostr_def comp_def)

lemma fields_row_decodes:
  assumes "row_texts_ok f" "1 \<le> sint (sf_Position f)" "0 \<le> sint (sf_Offset f)" "0 \<le> sint (sf_InternalLength f)" "0 \<le> sint (sf_Decimals f)"
  shows "DecodeRfcFieldsRow (fields_row f later) = Inr f" "length (fields_row f later) = 138 + length later"
proof -
  have t: "text_fits 30 (sf_TableName f)" "text_fits 30 (sf_FieldName f)" "text_fits 1 (gostr (sf_Exid f))" using assms(1) by (simp_all add: row_texts_ok_def)
  note l = padded_decodes(1) [OF t(1)] padded_decodes(1) [OF t(2)] padded_decodes(1) [OF t(3)]
  show len: "length (fields_row f later) = 138 + length later" using l by (simp add: fields_row_def)
  have p: "take 138 (fields_row f later) = fields_row f []"
    using l by (simp add: fields_row_def)
  have e: "readChar 2 1 (rdr c pre (padded (Suc 0) (gostr (sf_Exid f)))) = Inr (gostr (sf_Exid f), rdr c (pre @ padded (Suc 0) (gostr (sf_Exid f))) [])" for c pre
    using read_padded [OF t(3), of 1 2 c pre "[]"] by simp
  show "DecodeRfcFieldsRow (fields_row f later) = Inr f"
    using assms(1-5) len e
    by (simp add: DecodeRfcFieldsRow_def RfcFieldsUnicodeRowLength_def p)
      (simp add: fields_row_def NewReader_rdr read_padded [OF t(1)] read_padded [OF t(2)] read_int row_texts_ok_def Let_def)
qed

section \<open>Responses with a structure definition\<close>

definition reported_row :: "bytes \<Rightarrow> structure_field \<times> u32 \<Rightarrow> bytes" where
  "reported_row later fp = fields_row ((fst fp)\<lparr>sf_Position := snd fp\<rparr>) later"

definition definition_params :: "structure_definition \<Rightarrow> u32 list \<Rightarrow> bytes \<Rightarrow> param list" where
  "definition_params def positions later =
     [PScalar (gostr ''TABLENGTH'') (put32le (st_ByteLength def)),
      PTable (gostr ''FIELDS'') (of_nat (138 + length later)) (map (\<lambda>fp. (False, reported_row later fp)) (zip (st_Fields def) positions))]"

definition definition_response :: "structure_definition \<Rightarrow> u32 list \<Rightarrow> bytes \<Rightarrow> cpic_field list" where
  "definition_response def positions later = concat (map param_fields (definition_params def positions later))"

lemma rows_accepted:
  assumes "snapshot_fields def i names pe fs = Inr ()" "list_all row_texts_ok fs" "list_all (\<lambda>f. 0 \<le> sint (sf_Offset f)) fs"
    and "length positions = length fs" "list_all (\<lambda>p. 1 \<le> sint p) positions"
  shows "structure_rows (st_Name def) (st_ByteLength def) i names pe (map (reported_row later) (zip fs positions)) = Inr fs"
  using assms
proof (induction fs arbitrary: i names pe positions)
  case (Cons f fs)
  obtain p ps where ps: "positions = p # ps" using Cons.prems(4) by (cases positions) auto
  have c: "sf_TableName f = st_Name def" "sf_FieldName f \<notin> set names" "sf_Position f = of_nat (i + 1)" "sint pe \<le> sint (sf_Offset f)"
      "0 \<le> sint (sf_InternalLength f)" "0 \<le> sint (sf_Decimals f)" "sint (sf_Offset f + sf_InternalLength f) \<le> sint (st_ByteLength def)"
      "snapshot_fields def (i + 1) (sf_FieldName f # names) (sf_Offset f + sf_InternalLength f) fs = Inr ()"
    using Cons.prems(1) by (auto simp: Let_def split: if_splits)
  have d: "DecodeRfcFieldsRow (fields_row (f\<lparr>sf_Position := p\<rparr>) later) = Inr (f\<lparr>sf_Position := p\<rparr>)"
    by (rule fields_row_decodes) (use Cons.prems c ps in \<open>simp_all add: row_texts_ok_def\<close>)
  have ih: "structure_rows (st_Name def) (st_ByteLength def) (i + 1) (sf_FieldName f # names) (sf_Offset f + sf_InternalLength f) (map (reported_row later) (zip fs ps)) = Inr fs"
    by (rule Cons.IH [OF c(8)]) (use Cons.prems ps in simp_all)
  have f: "f\<lparr>sf_Position := 1 + word_of_nat i\<rparr> = f" using c(3) by (cases f) simp
  have r: "reported_row later (f, p) = fields_row (f\<lparr>sf_Position := p\<rparr>) later" by (simp add: reported_row_def)
  show ?case using c d ih by (simp add: ps r f Let_def)
qed simp

lemma reported_length:
  assumes "list_all row_texts_ok fs"
  shows "list_all (\<lambda>r. length r = 138 + length later) (map (reported_row later) (zip fs positions))"
proof -
  have "length (reported_row later (f, p)) = 138 + length later" if "f \<in> set fs" for f p
  proof -
    have t: "text_fits 30 (sf_TableName f)" "text_fits 30 (sf_FieldName f)" "text_fits 1 (gostr (sf_Exid f))"
      using assms that by (simp_all add: row_texts_ok_def list_all_iff)
    show ?thesis using padded_decodes(1) [OF t(1)] padded_decodes(1) [OF t(2)] padded_decodes(1) [OF t(3)] by (simp add: reported_row_def fields_row_def)
  qed
  then show ?thesis by (auto simp: list_all_iff dest: set_zip_leftD)
qed

lemma field_names_ok: "name_ok (gostr ''TABLENGTH'')" "name_ok (gostr ''FIELDS'')" "codeUnitLen (gostr ''TABLENGTH'') = 9" "codeUnitLen (gostr ''FIELDS'') = 6"
  by (simp_all add: name_ok_def ascii_facts ascii_def gostr_def trimRight_def controlChar_def)

lemma decode_definition_params:
  assumes "list_all row_texts_ok (st_Fields def)" "length (st_Fields def) \<le> 20000" "length positions = length (st_Fields def)"
    and "length (st_Fields def) * (138 + length later) \<le> 128 * 1024 * 1024" "length later < 2 ^ 31"
  shows "DecodeResult (definition_response def positions later) = Inr (foldl add_param empty_result (definition_params def positions later))"
proof -
  let ?rows = "map (reported_row later) (zip (st_Fields def) positions)"
  have l: "list_all (\<lambda>r. length r = 138 + length later) ?rows" by (rule reported_length [OF assms(1)])
  have sum: "sum_list (map length ?rows) = length (st_Fields def) * (138 + length later)"
  proof -
    have "sum_list (map length rs) = length rs * (138 + length later)" if "list_all (\<lambda>r. length r = 138 + length later) rs" for rs :: "bytes list"
      using that by (induction rs) simp_all
    from this [OF l] show ?thesis using assms(3) by simp
  qed
  have u: "unat (of_nat (138 + length later) :: u32) = 138 + length later" using assms(5) by (simp add: unat_of_nat del: of_nat_add)
  have ok: "list_all (\<lambda>r. row_ok (of_nat (138 + length later)) (False, r)) ?rows" using l u by (auto simp: list_all_iff row_ok_def simp del: of_nat_add)
  show ?thesis
    unfolding definition_response_def
  proof (rule decode_params)
    show "list_all param_ok (definition_params def positions later)"
      using ok field_names_ok by (simp add: definition_params_def list_all_iff)
    show "distinct (concat (map param_names (definition_params def positions later)))" by (simp add: definition_params_def gostr_def)
    show "int (length (concat (map param_fields (definition_params def positions later)))) \<le> DefaultMaxFieldCount"
      using assms(2) by (simp add: definition_params_def DefaultMaxFieldCount_def)
    have "int (length (st_Fields def) * (138 + length later)) \<le> 134217728" using assms(4) by linarith
    then have "int (length (st_Fields def)) * (138 + int (length later)) \<le> 134217728" by simp
    then show "int (field_bytes (concat (map param_fields (definition_params def positions later)))) \<le> DefaultMaxFieldChainLength"
      "int (sum_list (map param_bytes (definition_params def positions later))) \<le> DefaultMaxFieldChainLength"
      using sum field_names_ok
      by (simp_all add: definition_params_def field_bytes_def DefaultMaxFieldChainLength_def header_bytes_def comp_def rows_bytes_def expand_row_def)
  qed
qed

lemma row_counts_response:
  assumes "length (st_Fields def) \<le> 20000" "length positions = length (st_Fields def)"
  shows "check_row_counts (definition_response def positions later) = Inr ()"
proof -
  have "check_row_counts (map (row_field \<circ> g) xs) = Inr ()" for g and xs :: "(structure_field \<times> u32) list" by (induction xs) (simp_all add: row_field_def classic_tags)
  moreover have "\<not> (of_nat (length (st_Fields def)) :: u32) > maxRfcStructureFields"
    using assms(1) by (simp add: maxRfcStructureFields_def word_less_nat_alt unat_of_nat)
  ultimately show ?thesis
    using assms(2) field_names_ok(2) by (simp add: definition_response_def definition_params_def decode_header) (simp add: classic_tags)
qed

lemma add_definition_params:
  "gr_Scalars (foldl add_param empty_result (definition_params def positions later)) = [\<lparr>sv_Name = gostr ''TABLENGTH'', sv_Value = put32le (st_ByteLength def)\<rparr>]"
  "last_table (gostr ''FIELDS'') (gr_Tables (foldl add_param empty_result (definition_params def positions later))) =
     Some (make_table (gostr ''FIELDS'') \<lparr>th_DeclaredRowByteLength = of_nat (138 + length later), th_RowCount = of_nat (min (length (st_Fields def)) (length positions))\<rparr> RowEmpty
       (map (\<lambda>fp. (False, reported_row later fp)) (zip (st_Fields def) positions)))"
  by (simp_all add: definition_params_def empty_result_def last_table_def make_table_def expand_row_def comp_def)

text \<open>The round trip, for every layout that the snapshot of the codec accepts.\<close>

lemma definition_response_decodes:
  assumes "SnapshotDefinition def [] = Inr def" "list_all row_texts_ok (st_Fields def)" "list_all (\<lambda>f. 0 \<le> sint (sf_Offset f)) (st_Fields def)"
    and "length (st_Fields def) \<le> 20000" "length positions = length (st_Fields def)" "list_all (\<lambda>p. 1 \<le> sint p) positions"
    and "length (st_Fields def) * (138 + length later) \<le> 128 * 1024 * 1024" "length later < 2 ^ 31"
  shows "DecodeRfcStructureDefinitionResult (st_Name def) (definition_response def positions later) = Inr def"
proof -
  let ?rows = "map (reported_row later) (zip (st_Fields def) positions)"
  have s: "0 \<le> sint (st_ByteLength def)" "snapshot_fields def 0 [] 0 (st_Fields def) = Inr ()"
    using assms(1) by (auto simp: SnapshotDefinition_def Let_def bindE_Inr_iff)
  have u: "unat (of_nat (138 + length later) :: u32) = 138 + length later" using assms(8) by (simp add: unat_of_nat del: of_nat_add)
  define t where "t = make_table (gostr ''FIELDS'') \<lparr>th_DeclaredRowByteLength = of_nat (138 + length later), th_RowCount = of_nat (length (st_Fields def))\<rparr> RowEmpty
       (map (\<lambda>fp. (False, reported_row later fp)) (zip (st_Fields def) positions))"
  have rows: "rt_Rows t = ?rows" by (simp add: t_def make_table_def comp_def)
  have wide: "\<not> rt_RowByteLength t < RfcFieldsUnicodeRowLength"
    using reported_length [OF assms(2), of later positions] u
    by (auto simp: t_def make_table_def RfcFieldsUnicodeRowLength_def split: list.split simp del: of_nat_add)
  have r: "structure_rows (st_Name def) (st_ByteLength def) 0 [] 0 ?rows = Inr (st_Fields def)"
    by (rule rows_accepted [OF s(2) assms(2,3,5,6)])
  have g: "get32le (put32le (st_ByteLength def)) = st_ByteLength def" using i32le.get_put [of "st_ByteLength def" "[]"] by simp
  have t: "last_table (gostr ''FIELDS'') (gr_Tables (foldl add_param empty_result (definition_params def positions later))) = Some t"
    using add_definition_params(2) [of def positions later] assms(5) by (simp add: t_def)
  show ?thesis
    using row_counts_response [OF assms(4,5), of later] decode_definition_params [OF assms(2,4,5,7,8)] s(1) wide r
    by (simp add: DecodeRfcStructureDefinitionResult_def add_definition_params(1) requiredStructScalar_def t rows g Let_def)
qed

section \<open>Accepted definitions\<close>

lemma fields_row_Inr:
  "DecodeRfcFieldsRow v = Inr f \<Longrightarrow> sf_FieldName f \<noteq> [] \<and> sf_TableName f \<noteq> [] \<and> 0 \<le> sint (sf_Offset f) \<and> 0 \<le> sint (sf_InternalLength f) \<and> 0 \<le> sint (sf_Decimals f)"
  by (auto simp: DecodeRfcFieldsRow_def bindE_Inr_iff Let_def)

lemma rows_snapshot:
  assumes "structure_rows (st_Name def) (st_ByteLength def) i names pe rows = Inr fs"
  shows "snapshot_fields def i names pe fs = Inr () \<and> length fs = length rows \<and> list_all (\<lambda>f. 0 \<le> sint (sf_Offset f)) fs"
  using assms
proof (induction rows arbitrary: i names pe fs)
  case (Cons row rows)
  obtain f fs' where f: "DecodeRfcFieldsRow row = Inr f" "fs = f\<lparr>sf_Position := of_nat (i + 1)\<rparr> # fs'" "sf_TableName f = st_Name def" "sf_FieldName f \<notin> set names"
      "\<not> sint (sf_Offset f) < sint pe" "\<not> sint (sf_Offset f + sf_InternalLength f) > sint (st_ByteLength def)"
      "structure_rows (st_Name def) (st_ByteLength def) (i + 1) (sf_FieldName f # names) (sf_Offset f + sf_InternalLength f) rows = Inr fs'"
    using Cons.prems by (auto simp: bindE_Inr_iff Let_def)
  show ?case using Cons.IH [OF f(7)] fields_row_Inr [OF f(1)] f(2-6) by (simp add: Let_def)
qed simp

lemma row_counts_Cons: "check_row_counts (f # fs) = Inr () \<Longrightarrow> check_row_counts fs = Inr ()"
  unfolding check_row_counts.simps(2) [of f fs]
  by (auto simp: bindE_Inr_iff simp del: check_row_counts.simps(2) split: if_splits list.splits)

lemma row_counts_suffix: "check_row_counts (pre @ rest) = Inr () \<Longrightarrow> check_row_counts rest = Inr ()"
  by (induction pre) (auto simp del: check_row_counts.simps dest: row_counts_Cons)

lemma table_rows_count: "table_rows classic header n fs = Inr (rows, rest) \<Longrightarrow> length rows \<le> length fs"
  by (induction fs arbitrary: n rows) (auto simp: bindE_Inr_iff split: if_splits)

lemma s4_not_fields: "s4_name v \<noteq> gostr ''FIELDS''"
  by (simp add: s4_name_def gostr_def)

lemma fields_table_bounded:
  assumes "group_fields st fs = Inr r" "check_row_counts fs = Inr ()" "length fs < 2 ^ 32"
    and "list_all (\<lambda>t. rt_Name t = gostr ''FIELDS'' \<longrightarrow> length (rt_Rows t) \<le> 20000) (gr_Tables (fst st))"
  shows "list_all (\<lambda>t. rt_Name t = gostr ''FIELDS'' \<longrightarrow> length (rt_Rows t) \<le> 20000) (gr_Tables r)"
  using assms
proof (induction st fs rule: group_fields.induct)
  case (1 st)
  then show ?case by simp
next
  case (2 st field fs)
  obtain st' rest where step: "group_step st field fs = Inr (st', rest)" and g: "group_fields st' rest = Inr r"
    using 2(2) by (auto split: sum.splits)
  obtain r0 names r1 names' where st: "st = (r0, names)" "st' = (r1, names')" by (cases st, cases st')
  note ih = 2(1) [OF step refl g]
  let ?P = "\<lambda>t. rt_Name t = gostr ''FIELDS'' \<longrightarrow> length (rt_Rows t) \<le> 20000"
  have len: "length rest < 2 ^ 32" using group_step_shorter [OF step] 2(4) by simp
  have "list_all ?P (gr_Tables r1) \<and> check_row_counts rest = Inr ()"
  proof (cases "fd_Tag field = 0x0335 \<or> fd_Tag field = 0x0333")
    case True
    then obtain t where t: "s4_mixed_table field fs = Inr (t, rest) \<or> s4_native_table field fs = Inr (t, rest)" "gr_Tables r1 = gr_Tables r0 @ [t]"
      using step s4_tags [of "fd_Tag field"] unfolding st group_step_def by (auto simp: bindE_Inr_iff Let_def split: if_splits)
    have n: "rt_Name t = s4_name (fd_Value field)"
      using t(1) by (cases fs) (auto simp: s4_mixed_Inr s4_native_table_def bindE_Inr_iff Let_def make_table_def)
    obtain pre where "fs = pre @ rest"
      using t(1) by (cases fs) (auto simp: s4_mixed_Inr counted_rows_Inr s4_native_table_def bindE_Inr_iff Let_def dest!: table_rows_suffix)
    then have "check_row_counts rest = Inr ()" using 2(3) row_counts_suffix [of "field # pre" rest] by simp
    then show ?thesis using 2(5) n s4_not_fields by (simp add: st t(2))
  next
    case False
    then have f: "fd_Tag field \<noteq> 0x0335" "fd_Tag field \<noteq> 0x0333" by simp_all
    from step [unfolded st] f show ?thesis
    proof (cases rule: group_step_cases)
      case (table t)
      obtain name h fs' header rows where t: "fs = h # fs'" "fd_Tag h = CpicTagTableHeader" "DecodeRfcTableHeader (fd_Value h) = Inr header"
          "table_rows True header 0 fs' = Inr (rows, rest)" "t = make_table name header RowEmpty rows" "of_nat (length rows) = th_RowCount header"
          "decodeParameterName (fd_Value field) = Inr name"
        using table(2) by (auto simp: classic_table_Inr counted_rows_Inr)
      obtain pre where pre: "fs' = pre @ rest" using table_rows_suffix [OF t(4)] by blast
      have c: "check_row_counts rest = Inr ()" using 2(3) row_counts_suffix [of "field # h # pre" rest] by (simp add: t(1) pre del: check_row_counts.simps)
      have "length rows \<le> 20000" if "name = gostr ''FIELDS''"
      proof -
        have "DecodeAbapChar (fd_Value field) None = Inr (gostr ''FIELDS'')" using t(7) that by (auto simp: decodeParameterName_def bindE_Inr_iff)
        then have "\<not> th_RowCount header > maxRfcStructureFields"
          using 2(3) table(1) t(2,3) unfolding t(1) check_row_counts.simps(2) [of field] by (auto simp: bindE_Inr_iff simp del: check_row_counts.simps)
        moreover have "length rows < 2 ^ 32" using table_rows_count [OF t(4)] 2(4) t(1) by simp
        ultimately show ?thesis unfolding t(6) [symmetric] by (simp add: maxRfcStructureFields_def word_less_nat_alt unat_of_nat)
      qed
      then show ?thesis using 2(5) c by (simp add: st table(3) t(5) make_table_def)
    next
      case (other pre)
      have "check_row_counts rest = Inr ()" using 2(3) row_counts_suffix [of "field # pre" rest] by (simp add: other(2) del: check_row_counts.simps)
      then show ?thesis using 2(5) by (simp add: st other(4))
    qed
  qed
  then show ?case using ih len by (simp add: st)
qed

lemma last_table_Some: "last_table name ts = Some t \<Longrightarrow> t \<in> set ts \<and> rt_Name t = name"
proof -
  have "fold (\<lambda>t found. if rt_Name t = name then Some t else found) ts acc = Some t \<Longrightarrow> acc = Some t \<or> (t \<in> set ts \<and> rt_Name t = name)" for acc
    by (induction ts arbitrary: acc) (auto split: if_splits)
  from this [of None] show "last_table name ts = Some t \<Longrightarrow> t \<in> set ts \<and> rt_Name t = name" by (simp add: last_table_def)
qed

lemma decoded_definition:
  assumes "DecodeRfcStructureDefinitionResult name fs = Inr def"
  shows "st_Name def = name" "0 \<le> sint (st_ByteLength def)" "snapshot_fields def 0 [] 0 (st_Fields def) = Inr ()" "length (st_Fields def) \<le> 20000"
    "list_all (\<lambda>f. 0 \<le> sint (sf_Offset f)) (st_Fields def)"
proof -
  obtain r t decoded where d: "check_row_counts fs = Inr ()" "DecodeResult fs = Inr r" "last_table (gostr ''FIELDS'') (gr_Tables r) = Some t"
      "structure_rows name (st_ByteLength def) 0 [] 0 (rt_Rows t) = Inr decoded" "0 \<le> sint (st_ByteLength def)" "st_Name def = name" "st_Fields def = decoded"
    using assms by (auto simp: DecodeRfcStructureDefinitionResult_def bindE_Inr_iff Let_def split: option.splits)
  show "st_Name def = name" "0 \<le> sint (st_ByteLength def)" using d by simp_all
  note r = rows_snapshot [of def 0 "[]" 0 "rt_Rows t" decoded, unfolded d(6), OF d(4)]
  show "snapshot_fields def 0 [] 0 (st_Fields def) = Inr ()" "list_all (\<lambda>f. 0 \<le> sint (sf_Offset f)) (st_Fields def)" using r by (simp_all add: d(7))
  have g: "group_fields (empty_result, []) fs = Inr r" "length fs \<le> 100000"
    using d(2) by (auto simp: DecodeResult_def decodeResult_def preflightResultBytes_def DefaultMaxFieldCount_def bindE_Inr_iff split: if_splits)
  have "list_all (\<lambda>t. rt_Name t = gostr ''FIELDS'' \<longrightarrow> length (rt_Rows t) \<le> 20000) (gr_Tables r)"
    by (rule fields_table_bounded [OF g(1) d(1)]) (use g(2) in \<open>simp_all add: empty_result_def\<close>)
  then have "length (rt_Rows t) \<le> 20000" using last_table_Some [OF d(3)] by (auto simp: list_all_iff)
  then show "length (st_Fields def) \<le> 20000" using r by (simp add: d(7))
qed

text \<open>
  Round trip of structure definitions: a response that reports the length and the fields of any layout the structure codec accepts, with whatever positions
  the server counts and whatever a later release appends to the rows, is read back as exactly that layout, its positions renumbered from 1.
\<close>

theorem structure_definition_roundtrip:
  assumes "SnapshotDefinition def [] = Inr def" "list_all row_texts_ok (st_Fields def)" "list_all (\<lambda>f. 0 \<le> sint (sf_Offset f)) (st_Fields def)"
    and "length (st_Fields def) \<le> 20000" "length positions = length (st_Fields def)" "list_all (\<lambda>p. 1 \<le> sint p) positions"
    and "length (st_Fields def) * (138 + length later) \<le> 128 * 1024 * 1024" "length later < 2 ^ 31"
  shows "DecodeRfcStructureDefinitionResult (st_Name def) (definition_response def positions later) = Inr def"
  using assms by (rule definition_response_decodes)

text \<open>A snapshot refuses repeated names and fields of another structure.\<close>

lemma snapshot_names:
  "snapshot_fields def i names e fs = Inr () \<Longrightarrow>
     distinct (map sf_FieldName fs) \<and> set (map sf_FieldName fs) \<inter> set names = {} \<and> list_all (\<lambda>f. sf_TableName f = st_Name def) fs"
proof (induction fs arbitrary: i names e)
  case (Cons f fs)
  have "snapshot_fields def (i + 1) (sf_FieldName f # names) (sf_Offset f + sf_InternalLength f) fs = Inr ()"
    "sf_FieldName f \<notin> set names" "sf_TableName f = st_Name def"
    using Cons.prems by (simp_all add: Let_def split: if_splits)
  then show ?case using Cons.IH by fastforce
qed simp

text \<open>
  C28. Soundness of structure definitions: whatever fields a server sends, a definition that is returned has the name that was asked for, a length that is not negative and at most
  20000 fields, each of that structure and with a name of its own. The snapshot of the structure codec accepts it exactly when its
  name is not empty and its length is at most 256 MiB: the decoder takes a longer one over from the server and the codec refuses it. Where no
  offset plus length leaves 32 bits, its fields lie one after the other inside the structure.
\<close>

theorem structure_definition_sound:
  assumes "DecodeRfcStructureDefinitionResult name fs = Inr def"
  shows "st_Name def = name \<and> 0 \<le> sint (st_ByteLength def) \<and> length (st_Fields def) \<le> 20000 \<and>
    list_all (\<lambda>f. sf_TableName f = name) (st_Fields def) \<and> distinct (map sf_FieldName (st_Fields def)) \<and>
    SnapshotDefinition def name =
      (if name \<noteq> [] \<and> sint (st_ByteLength def) \<le> maxClassicStructureByteLength then Inr def else Inl ErrStructure) \<and>
    (list_all no_wrap (st_Fields def) \<longrightarrow> placed (nat (sint (st_ByteLength def))) 0 (st_Fields def))"
proof -
  note d = decoded_definition [OF assms]
  have "SnapshotDefinition def name =
      (if name \<noteq> [] \<and> sint (st_ByteLength def) \<le> maxClassicStructureByteLength then Inr def else Inl ErrStructure)"
    using d(1-4) by (simp add: SnapshotDefinition_def Let_def maxClassicStructureFields_def fail_if_def)
  then show ?thesis using d(1,2,4) snapshot_names [OF d(3)] snapshot_placed [OF d(3)] by auto
qed

lemma sample_layout_ok:
  "SnapshotDefinition sample_structure [] = Inr sample_structure" "list_all row_texts_ok (st_Fields sample_structure)"
  "list_all (\<lambda>f. 0 \<le> sint (sf_Offset f)) (st_Fields sample_structure)"
  by (simp_all add: sample_structure_def sample_field_def SnapshotDefinition_def gostr_def maxClassicStructureByteLength_def DefaultMaxFieldLength_def maxClassicStructureFields_def
      row_texts_ok_def text_fits_def ascii_facts ascii_def trimRight_def)

theorem structure_definition_roundtrip_witness:
  "DecodeRfcStructureDefinitionResult (gostr ''ROW'') (definition_response sample_structure [1, 1] [9]) = Inr sample_structure"
  using structure_definition_roundtrip [OF sample_layout_ok, of "[1, 1]" "[9]"] by (simp add: sample_structure_def)

theorem structure_definition_sound_witness:
  "\<exists>fs. DecodeRfcStructureDefinitionResult (gostr ''ROW'') fs = Inr sample_structure \<and>
     SnapshotDefinition sample_structure (gostr ''ROW'') = Inr sample_structure \<and> placed 8 0 (st_Fields sample_structure)"
proof -
  have n: "st_Name sample_structure = gostr ''ROW''" "sint (st_ByteLength sample_structure) = 8" by (simp_all add: sample_structure_def)
  have d: "DecodeRfcStructureDefinitionResult (gostr ''ROW'') (definition_response sample_structure [1, 1] []) = Inr sample_structure"
    using definition_response_decodes [OF sample_layout_ok, of "[1, 1]" "[]"] by (simp add: n) (simp add: sample_structure_def)
  have "gostr ''ROW'' \<noteq> []" "8 \<le> maxClassicStructureByteLength" "list_all no_wrap (st_Fields sample_structure)"
    by (simp_all add: sample_structure_def sample_field_def no_wrap_def gostr_def maxClassicStructureByteLength_def DefaultMaxFieldLength_def)
  then show ?thesis
    using d structure_definition_sound [OF d] by (intro exI [of _ "definition_response sample_structure [1, 1] []"]) (simp add: n(2))
qed

text \<open>
  C29. The 32-bit sum of offset and length wraps around in the metadata too: a server can send a definition that the client accepts, and the next
  structure that the client decodes with it panics.
\<close>

theorem server_definition_panics:
  "DecodeRfcStructureDefinitionResult (gostr ''ROW'') (definition_response (wrapped_structure 4 0x7fffffff) [1] []) = Inr (wrapped_structure 4 0x7fffffff) \<and>
   structure_Decode (wrapped_structure 4 0x7fffffff) (replicate 8 0) = Inl StructurePanic"
proof
  have w: "SnapshotDefinition (wrapped_structure 4 0x7fffffff) [] = Inr (wrapped_structure 4 0x7fffffff)" "list_all row_texts_ok (st_Fields (wrapped_structure 4 0x7fffffff))"
    "list_all (\<lambda>f. 0 \<le> sint (sf_Offset f)) (st_Fields (wrapped_structure 4 0x7fffffff))" "st_Name (wrapped_structure 4 0x7fffffff) = gostr ''ROW''"
    "length (st_Fields (wrapped_structure 4 0x7fffffff)) = 1"
    by (simp_all add: structure_defs wrapped_structure_def sample_field_def gostr_def Let_def row_texts_ok_def text_fits_def ascii_facts ascii_def trimRight_def)
  show "DecodeRfcStructureDefinitionResult (gostr ''ROW'') (definition_response (wrapped_structure 4 0x7fffffff) [1] []) = Inr (wrapped_structure 4 0x7fffffff)"
    using definition_response_decodes [OF w(1-3), of "[1]" "[]"] by (simp add: w(4,5))
  show "structure_Decode (wrapped_structure 4 0x7fffffff) (replicate 8 0) = Inl StructurePanic"
    by (simp add: structure_defs wrapped_structure_def sample_field_def gostr_def Let_def fail_if_def slice_of_def readValue_def)
qed

section \<open>Responses with a function interface\<close>

definition flag_bytes :: "bool \<Rightarrow> bytes" where
  "flag_bytes b = padded 1 (if b then gostr ''X'' else [])"

definition interface_params :: "bool \<Rightarrow> gostring \<Rightarrow> bool \<Rightarrow> u32 \<Rightarrow> bytes list \<Rightarrow> u32 \<Rightarrow> bytes list \<Rightarrow> param list" where
  "interface_params basxml remoteCall updateTask w rows w' resumable =
     [PScalar (gostr ''REMOTE_BASXML_SUPPORTED'') (flag_bytes basxml), PScalar (gostr ''REMOTE_CALL'') (padded 1 remoteCall),
      PScalar (gostr ''UPDATE_TASK'') (flag_bytes updateTask), PTable (gostr ''PARAMS'') w (map (Pair False) rows),
      PTable (gostr ''RESUMABLE_EXCEPTIONS'') w' (map (Pair False) resumable)]"

lemma flag_decodes: "decodeFlag (flag_bytes b) = Inr b"
proof -
  have "text_fits 1 (if b then gostr ''X'' else [])" by (simp add: text_fits_def ascii_facts ascii_def gostr_def trimRight_def)
  from padded_decodes(2) [OF this] show ?thesis by (simp add: decodeFlag_def flag_bytes_def gostr_def)
qed

lemma interface_rows_partition:
  assumes "list_all2 (\<lambda>row p. DecodeFunintRow row = Inr p) rows ps"
  shows "interface_rows rows = Inr (filter (\<lambda>p. fp_ParameterClass p \<noteq> gostr ''X'') ps, map fp_ParameterName (filter (\<lambda>p. fp_ParameterClass p = gostr ''X'') ps))"
  using assms by (induction rows ps rule: list_all2_induct) simp_all

lemma funint_long: "DecodeFunintRow row = Inr p \<Longrightarrow> RfcFunintUnicodeRowLength \<le> length row"
  by (auto simp: DecodeFunintRow_def bindE_Inr_iff)

lemma add_interface_params:
  fixes basxml updateTask :: bool and remoteCall :: gostring and w w' :: u32 and rows resumable :: "bytes list"
  defines "r \<equiv> foldl add_param empty_result (interface_params basxml remoteCall updateTask w rows w' resumable)"
  shows "requiredScalar (gr_Scalars r) ''REMOTE_BASXML_SUPPORTED'' = Inr (flag_bytes basxml)" "requiredScalar (gr_Scalars r) ''REMOTE_CALL'' = Inr (padded 1 remoteCall)"
    "requiredScalar (gr_Scalars r) ''UPDATE_TASK'' = Inr (flag_bytes updateTask)"
    "map_option rt_Rows (last_table (gostr ''PARAMS'') (gr_Tables r)) = Some rows" "map_option rt_Rows (last_table (gostr ''RESUMABLE_EXCEPTIONS'') (gr_Tables r)) = Some resumable"
    "map_option rt_RowByteLength (last_table (gostr ''PARAMS'') (gr_Tables r)) = Some (case rows of [] \<Rightarrow> unat w | row # _ \<Rightarrow> length row)"
  unfolding r_def by (cases rows; simp add: interface_params_def empty_result_def requiredScalar_def last_table_def make_table_def expand_row_def comp_def; simp add: gostr_def)+

text \<open>
  C30. A function interface is the partition of its rows: a response with the three flags, the rows of \<open>PARAMS\<close> and those of \<open>RESUMABLE_EXCEPTIONS\<close>, within the
  limits of a result, is read to the parameters and the exceptions, each in the order of the rows and none lost.
\<close>

theorem function_interface_roundtrip:
  assumes "list_all2 (\<lambda>row p. DecodeFunintRow row = Inr p) rows ps" "text_fits 1 remoteCall" "RfcFunintUnicodeRowLength \<le> unat w"
    and "list_all param_ok (interface_params basxml remoteCall updateTask w rows w' resumable)"
    and "int (length rows + length resumable + 10) \<le> DefaultMaxFieldCount"
    and "int (sum_list (map length rows) + sum_list (map length resumable) + 1000) \<le> DefaultMaxFieldChainLength"
  shows "DecodeRfcFunctionInterfaceResult name (concat (map param_fields (interface_params basxml remoteCall updateTask w rows w' resumable))) =
    Inr \<lparr>fi_Name = name, fi_RemoteBasxmlSupported = basxml, fi_RemoteCall = remoteCall, fi_UpdateTask = updateTask,
         fi_Parameters = filter (\<lambda>p. fp_ParameterClass p \<noteq> gostr ''X'') ps,
         fi_Exceptions = map fp_ParameterName (filter (\<lambda>p. fp_ParameterClass p = gostr ''X'') ps),
         fi_ResumableExceptionRowCount = length resumable\<rparr>"
proof -
  let ?ps = "interface_params basxml remoteCall updateTask w rows w' resumable"
  define r where "r = foldl add_param empty_result ?ps"
  have f: "text_fits 1 (if b then gostr ''X'' else [])" for b by (simp add: text_fits_def ascii_facts ascii_def gostr_def trimRight_def)
  have l: "length (flag_bytes b) = 2" "length (padded 1 remoteCall) = 2" for b
    using padded_decodes(1) [OF f] padded_decodes(1) [OF assms(2)] by (simp_all add: flag_bytes_def)
  have u: "codeUnitLen (gostr ''REMOTE_BASXML_SUPPORTED'') = 23" "codeUnitLen (gostr ''REMOTE_CALL'') = 11" "codeUnitLen (gostr ''UPDATE_TASK'') = 11"
    "codeUnitLen (gostr ''PARAMS'') = 6" "codeUnitLen (gostr ''RESUMABLE_EXCEPTIONS'') = 20"
    by (simp_all add: ascii_facts ascii_def gostr_def)
  have d: "DecodeResult (concat (map param_fields ?ps)) = Inr r"
    unfolding r_def
  proof (rule decode_params [OF assms(4)])
    show "distinct (concat (map param_names ?ps))" by (simp add: interface_params_def gostr_def)
    show "int (length (concat (map param_fields ?ps))) \<le> DefaultMaxFieldCount" using assms(5) by (simp add: interface_params_def)
    show "int (field_bytes (concat (map param_fields ?ps))) \<le> DefaultMaxFieldChainLength" "int (sum_list (map param_bytes ?ps)) \<le> DefaultMaxFieldChainLength"
      using assms(6) l u by (simp_all add: interface_params_def field_bytes_def header_bytes_def rows_bytes_def expand_row_def comp_def)
  qed
  note a = add_interface_params [of basxml remoteCall updateTask w rows w' resumable, folded r_def]
  have wide: "RfcFunintUnicodeRowLength \<le> (case rows of [] \<Rightarrow> unat w | row # _ \<Rightarrow> length row)"
    using assms(1,3) by (cases rows) (auto simp: list_all2_Cons1 dest: funint_long)
  obtain t t' where t: "last_table (gostr ''PARAMS'') (gr_Tables r) = Some t" "last_table (gostr ''RESUMABLE_EXCEPTIONS'') (gr_Tables r) = Some t'"
      "rt_Rows t = rows" "rt_Rows t' = resumable" "\<not> rt_RowByteLength t < RfcFunintUnicodeRowLength"
    using a(4-6) wide by auto
  show ?thesis
    using a(1-3) t d padded_decodes(2) [OF assms(2)]
    by (simp add: DecodeRfcFunctionInterfaceResult_def interface_rows_partition [OF assms(1)] flag_decodes)
qed

theorem function_interface_roundtrip_witness:
  "\<exists>row p. DecodeFunintRow row = Inr p \<and> fp_ParameterName p = gostr ''NOT_FOUND'' \<and>
     DecodeRfcFunctionInterfaceResult (gostr ''F'') (concat (map param_fields (interface_params True (gostr ''R'') False 402 [row] 2 [[0, 0]]))) =
     Inr \<lparr>fi_Name = gostr ''F'', fi_RemoteBasxmlSupported = True, fi_RemoteCall = gostr ''R'', fi_UpdateTask = False, fi_Parameters = [],
          fi_Exceptions = [gostr ''NOT_FOUND''], fi_ResumableExceptionRowCount = 1\<rparr>"
proof -
  have c: "EncodeAbapChar (gostr ''X'') 1 = Inr (char_field ''X'' 1)" "EncodeAbapChar (gostr ''NOT_FOUND'') 30 = Inr (char_field ''NOT_FOUND'' 30)"
    "EncodeAbapChar (gostr []) 30 = Inr (char_field [] 30)" "EncodeAbapChar (gostr []) 30 = Inr (char_field [] 30)" "EncodeAbapChar (gostr []) 1 = Inr (char_field [] 1)"
    "EncodeAbapChar (gostr []) 21 = Inr (char_field [] 21)" "EncodeAbapChar (gostr []) 79 = Inr (char_field [] 79)"
    "EncodeAbapChar (if False then gostr ''X'' else []) 1 = Inr (char_field [] 1)"
    using char_field [of "''X''" 1] char_field [of "''NOT_FOUND''" 30] char_field [of "[]" 30] char_field [of "[]" 1] char_field [of "[]" 21] char_field [of "[]" 79]
    by (simp_all add: ascii_def gostr_def)
  let ?row = "funint_layout (char_field ''X'' 1) (char_field ''NOT_FOUND'' 30) (char_field [] 30) (char_field [] 30) (char_field [] 1) 1 0 0 0
      (char_field [] 21) (char_field [] 79) (char_field [] 1)"
  have len: "length ?row = 402"
    using char_roundtrip(1) [OF c(1)] char_roundtrip(1) [OF c(2)] char_roundtrip(1) [OF c(3)] char_roundtrip(1) [OF c(5)] char_roundtrip(1) [OF c(6)]
      char_roundtrip(1) [OF c(7)] by (simp add: funint_layout_def)
  obtain p where p: "DecodeFunintRow ?row = Inr p" "fp_ParameterName p = gostr ''NOT_FOUND''" "fp_ParameterClass p = gostr ''X''"
    using funint_row_roundtrip [OF c, of 1 0 0 0 "[]"] by (simp add: trimRight_def gostr_def)
  have t: "text_fits 1 (gostr ''R'')" by (simp add: text_fits_def ascii_facts ascii_def gostr_def trimRight_def)
  have ok: "list_all param_ok (interface_params True (gostr ''R'') False 402 [?row] 2 [[0, 0]])"
    using len by (simp add: interface_params_def row_ok_def name_ok_def ascii_facts ascii_def gostr_def trimRight_def controlChar_def) auto
  have "DecodeRfcFunctionInterfaceResult (gostr ''F'') (concat (map param_fields (interface_params True (gostr ''R'') False 402 [?row] 2 [[0, 0]]))) =
     Inr \<lparr>fi_Name = gostr ''F'', fi_RemoteBasxmlSupported = True, fi_RemoteCall = gostr ''R'', fi_UpdateTask = False,
          fi_Parameters = filter (\<lambda>p. fp_ParameterClass p \<noteq> gostr ''X'') [p],
          fi_Exceptions = map fp_ParameterName (filter (\<lambda>p. fp_ParameterClass p = gostr ''X'') [p]), fi_ResumableExceptionRowCount = length [[0 :: byte, 0]]\<rparr>"
    by (rule function_interface_roundtrip [OF _ t _ ok]) (use p(1) len in \<open>simp_all add: RfcFunintUnicodeRowLength_def DefaultMaxFieldCount_def DefaultMaxFieldChainLength_def\<close>)
  then show ?thesis using p by (intro exI [of _ ?row] exI [of _ p]) simp
qed

end
