(* ===== verification/Metadata_Rows.thy ===== *)
theory Metadata_Rows
  imports Abap_Char Go_Decimal
begin

text \<open>
  Package \<open>metadata\<close>, the rows of \<open>RFC_METADATA_GET\<close> (\<open>recursive.go\<close>): limits, budgets and the checked copies of the four tables. A call of \<open>reject\<close> panics and
  \<open>Normalize\<close> returns it as an error, so every function here returns the code of the rejection; the path in the error text is left out. The budget is
  threaded as state through the calls, in the order in which Go evaluates them. A Go \<open>int\<close> is an integer, wrapped to 64 bits where a sum can leave them.
\<close>

section \<open>Limits and budgets\<close>

datatype reject_code =
    RowLimit | PropertyLimit | ByteLimit | NodeLimit | EdgeLimit | DepthLimit | InvalidLimit
  | InvalidText | InvalidInteger | InvalidFlag | InvalidDate | InvalidTime | InvalidTimestamp | InvalidParameterClass
  | MultipleFunctionIdentities | MultipleFunctions | MissingFunctionIdentity | ForeignFunctionReference
  | MissingAssociatedType | NoncontiguousType | InvalidTableShape | InconsistentTotalLength | InconsistentTimestamp | DuplicateField | InvalidGeometry
  | ForeignTypeReference | ReferenceKindMismatch | InvalidIndirectPath | DuplicateIndirectType | InvalidFieldPath | ForeignFieldReference
  | DuplicateParameter | MissingIndirectType | ForeignIndirectType | ForeignRoot | ForeignTypeNode

record md_limits =
  MaxRows :: int
  MaxNodes :: int
  MaxEdges :: int
  MaxDepth :: int
  MaxProperties :: int
  MaxBytes :: int

definition defaultLimits :: md_limits where
  "defaultLimits = \<lparr>MaxRows = 20000, MaxNodes = 4096, MaxEdges = 20000, MaxDepth = 64, MaxProperties = 400000, MaxBytes = 8 * 1024 * 1024\<rparr>"

definition absoluteLimits :: md_limits where
  "absoluteLimits = \<lparr>MaxRows = 100000, MaxNodes = 20000, MaxEdges = 100000, MaxDepth = 256, MaxProperties = 2000000, MaxBytes = 32 * 1024 * 1024\<rparr>"

definition check_limit :: "int \<Rightarrow> int \<Rightarrow> reject_code + int" where
  "check_limit v maximum = (if v < 0 \<or> v > maximum then Inl InvalidLimit else Inr v)"

definition md_resolveLimits :: "md_limits option \<Rightarrow> reject_code + md_limits" where
  "md_resolveLimits o' =
     (case o' of
        None \<Rightarrow> Inr defaultLimits
      | Some l \<Rightarrow>
          bindE (check_limit (MaxRows l) (MaxRows absoluteLimits)) (\<lambda>rows.
          bindE (check_limit (MaxNodes l) (MaxNodes absoluteLimits)) (\<lambda>nodes.
          bindE (check_limit (MaxEdges l) (MaxEdges absoluteLimits)) (\<lambda>edges.
          bindE (check_limit (MaxDepth l) (MaxDepth absoluteLimits)) (\<lambda>depth.
          bindE (check_limit (MaxProperties l) (MaxProperties absoluteLimits)) (\<lambda>properties.
          bindE (check_limit (MaxBytes l) (MaxBytes absoluteLimits)) (\<lambda>bytes.
          Inr \<lparr>MaxRows = rows, MaxNodes = nodes, MaxEdges = edges, MaxDepth = depth, MaxProperties = properties, MaxBytes = bytes\<rparr>)))))))"

record budget =
  bg_limits :: md_limits
  bg_rows :: nat
  bg_properties :: nat
  bg_bytes :: nat

type_synonym 'a budgeted = "budget \<Rightarrow> reject_code + 'a \<times> budget"

definition addRows :: "nat \<Rightarrow> unit budgeted" where
  "addRows count b =
     (let b = b\<lparr>bg_rows := bg_rows b + count\<rparr> in if int (bg_rows b) > MaxRows (bg_limits b) then Inl RowLimit else Inr ((), b))"

definition addProperties :: "nat \<Rightarrow> unit budgeted" where
  "addProperties count b =
     (let b = b\<lparr>bg_properties := bg_properties b + count\<rparr> in if int (bg_properties b) > MaxProperties (bg_limits b) then Inl PropertyLimit else Inr ((), b))"

definition addBytes :: "nat \<Rightarrow> unit budgeted" where
  "addBytes count b =
     (let b = b\<lparr>bg_bytes := bg_bytes b + count\<rparr> in if int (bg_bytes b) > MaxBytes (bg_limits b) then Inl ByteLimit else Inr ((), b))"

definition reject_if :: "bool \<Rightarrow> reject_code \<Rightarrow> unit budgeted" where
  "reject_if c e b = (if c then Inl e else Inr ((), b))"

section \<open>Texts and numbers\<close>

definition controlOrHigh :: "gostring \<Rightarrow> bool \<Rightarrow> bool" where
  "controlOrHigh s asciiOnly \<longleftrightarrow> (\<exists>b \<in> set s. b < 0x20 \<or> b = 0x7f) \<or> asciiOnly \<and> (\<exists>b \<in> set s. b > 0x7e)"

definition meta_text :: "gostring \<Rightarrow> nat \<Rightarrow> bool \<Rightarrow> bool \<Rightarrow> gostring budgeted" where
  "meta_text v maximum allowEmpty asciiOnly =
     se_bind (reject_if (codeUnitLen v > maximum \<or> \<not> allowEmpty \<and> v = [] \<or> controlOrHigh v asciiOnly) InvalidText) (\<lambda>_.
     se_bind (addBytes (length v)) (\<lambda>_. se_return v))"

definition numericPattern :: "gostring \<Rightarrow> bool" where
  "numericPattern s \<longleftrightarrow> s \<noteq> [] \<and> list_all digit_char s"

definition digit_pattern :: "nat \<Rightarrow> gostring \<Rightarrow> bool" where
  "digit_pattern n s \<longleftrightarrow> length s = n \<and> list_all digit_char s"

definition paramClassP :: "gostring \<Rightarrow> bool" where
  "paramClassP s \<longleftrightarrow> s \<in> set (map gostr [''I'', ''E'', ''C'', ''X'', ''T''])"

definition meta_integer :: "gostring \<Rightarrow> int budgeted" where
  "meta_integer v =
     se_bind (reject_if (\<not> numericPattern v) InvalidInteger) (\<lambda>_.
     se_bind (addBytes (length v)) (\<lambda>_.
     case go_Atoi v of
       None \<Rightarrow> se_lift (Inl InvalidInteger)
     | Some n \<Rightarrow> se_bind (reject_if (n < 0) InvalidInteger) (\<lambda>_. se_return n)))"

definition meta_flag :: "gostring \<Rightarrow> bool budgeted" where
  "meta_flag v =
     se_bind (meta_text v 1 True True) (\<lambda>v.
     se_bind (reject_if (v \<noteq> [] \<and> v \<noteq> gostr ''X'') InvalidFlag) (\<lambda>_. se_return (v = gostr ''X'')))"

definition metadataName :: "gostring \<Rightarrow> bool \<Rightarrow> gostring budgeted" where
  "metadataName v allowEmpty = meta_text v 30 allowEmpty True"

section \<open>Rows\<close>

record function_row =
  fr_FunctionName :: gostring
  fr_BasxmlSupported :: gostring
  fr_UDat :: gostring
  fr_UTime :: gostring

record type_row_input =
  ti_TypeName :: gostring
  ti_FieldName :: gostring
  ti_CompType :: gostring
  ti_FieldType :: gostring
  ti_DataType :: gostring
  ti_TabLength :: gostring
  ti_TabLengthUC :: gostring
  ti_Description :: gostring
  ti_Decimals :: gostring
  ti_IntType :: gostring
  ti_Offset :: gostring
  ti_OffsetUC :: gostring
  ti_IntLen :: gostring
  ti_IntLenUC :: gostring
  ti_Timestamp :: gostring

record indirect_row_input =
  ii_TabName :: gostring
  ii_FieldName :: gostring
  ii_FieldType :: gostring

record parameter_row_input =
  pi_FuncName :: gostring
  pi_ParamClass :: gostring
  pi_Parameter :: gostring
  pi_TabName :: gostring
  pi_FieldName :: gostring
  pi_Exid :: gostring
  pi_Position :: gostring
  pi_Offset :: gostring
  pi_IntLength :: gostring
  pi_Decimals :: gostring
  pi_Default :: gostring
  pi_ParamText :: gostring
  pi_Optional :: gostring

record md_input =
  in_FunctionNames :: "function_row list option"
  in_DataTypesCont :: "type_row_input list"
  in_IndirectTypes :: "indirect_row_input list"
  in_Parameters :: "parameter_row_input list option"

record function_identity =
  id_Name :: gostring
  id_RemoteBasxmlSupported :: bool
  id_GenerationToken :: gostring

record type_row =
  tr_typeName :: gostring
  tr_fieldName :: gostring
  tr_componentType :: gostring
  tr_associatedType :: gostring
  tr_dataType :: gostring
  tr_nucTotalLength :: int
  tr_ucTotalLength :: int
  tr_description :: gostring
  tr_decimals :: int
  tr_internalType :: gostring
  tr_nucOffset :: int
  tr_ucOffset :: int
  tr_nucLength :: int
  tr_ucLength :: int
  tr_timestamp :: gostring

record indirect_row =
  ir_tableName :: gostring
  ir_fieldPath :: gostring
  ir_targetType :: gostring

record parameter_row =
  pr_functionName :: gostring
  pr_parameterClass :: gostring
  pr_parameterName :: gostring
  pr_tableName :: gostring
  pr_fieldPath :: gostring
  pr_internalType :: gostring
  pr_position :: int
  pr_internalLength :: int
  pr_decimals :: int
  pr_defaultValue :: gostring
  pr_parameterText :: gostring
  pr_optional :: bool

definition function_identity_row :: "function_row \<Rightarrow> function_identity budgeted" where
  "function_identity_row row =
     se_bind (addProperties 4) (\<lambda>_.
     se_bind (meta_text (fr_UDat row) 8 False True) (\<lambda>date.
     se_bind (meta_text (fr_UTime row) 6 False True) (\<lambda>tm.
     se_bind (reject_if (\<not> digit_pattern 8 date) InvalidDate) (\<lambda>_.
     se_bind (reject_if (\<not> digit_pattern 6 tm) InvalidTime) (\<lambda>_.
     se_bind (metadataName (fr_FunctionName row) False) (\<lambda>name.
     se_bind (meta_flag (fr_BasxmlSupported row)) (\<lambda>basxml.
     se_return \<lparr>id_Name = name, id_RemoteBasxmlSupported = basxml,
       id_GenerationToken = gostr ''function:'' @ date @ gostr '':'' @ tm\<rparr>)))))))"

definition snapshotFunctionIdentity :: "function_row list option \<Rightarrow> function_identity option budgeted" where
  "snapshotFunctionIdentity rows =
     (case rows of
        None \<Rightarrow> se_return None
      | Some values \<Rightarrow>
          se_bind (addRows (length values)) (\<lambda>_.
          case values of
            [] \<Rightarrow> se_return None
          | [row] \<Rightarrow> se_bind (function_identity_row row) (\<lambda>i. se_return (Some i))
          | _ \<Rightarrow> se_lift (Inl MultipleFunctionIdentities)))"

text \<open>A loop that appends the copy of each row.\<close>

fun each_row :: "('a \<Rightarrow> 'b budgeted) \<Rightarrow> 'a list \<Rightarrow> 'b list budgeted" where
  "each_row f [] = se_return []"
| "each_row f (x # xs) = se_bind (f x) (\<lambda>y. se_bind (each_row f xs) (\<lambda>ys. se_return (y # ys)))"

definition snapshot_type_row :: "type_row_input \<Rightarrow> type_row budgeted" where
  "snapshot_type_row row =
     se_bind (addProperties 15) (\<lambda>_.
     se_bind (meta_text (ti_Timestamp row) 14 False True) (\<lambda>timestamp.
     se_bind (reject_if (\<not> digit_pattern 14 timestamp) InvalidTimestamp) (\<lambda>_.
     se_bind (metadataName (ti_TypeName row) False) (\<lambda>typeName.
     se_bind (metadataName (ti_FieldName row) True) (\<lambda>fieldName.
     se_bind (meta_text (ti_CompType row) 1 True True) (\<lambda>componentType.
     se_bind (metadataName (ti_FieldType row) True) (\<lambda>associatedType.
     se_bind (meta_text (ti_DataType row) 8 False True) (\<lambda>dataType.
     se_bind (meta_integer (ti_TabLength row)) (\<lambda>nucTotalLength.
     se_bind (meta_integer (ti_TabLengthUC row)) (\<lambda>ucTotalLength.
     se_bind (meta_text (ti_Description row) 60 True False) (\<lambda>description.
     se_bind (meta_integer (ti_Decimals row)) (\<lambda>decimals.
     se_bind (meta_text (ti_IntType row) 1 False True) (\<lambda>internalType.
     se_bind (meta_integer (ti_Offset row)) (\<lambda>nucOffset.
     se_bind (meta_integer (ti_OffsetUC row)) (\<lambda>ucOffset.
     se_bind (meta_integer (ti_IntLen row)) (\<lambda>nucLength.
     se_bind (meta_integer (ti_IntLenUC row)) (\<lambda>ucLength.
     se_return \<lparr>tr_typeName = typeName, tr_fieldName = fieldName, tr_componentType = componentType, tr_associatedType = associatedType,
       tr_dataType = dataType, tr_nucTotalLength = nucTotalLength, tr_ucTotalLength = ucTotalLength, tr_description = description, tr_decimals = decimals,
       tr_internalType = internalType, tr_nucOffset = nucOffset, tr_ucOffset = ucOffset, tr_nucLength = nucLength, tr_ucLength = ucLength,
       tr_timestamp = timestamp\<rparr>)))))))))))))))))"

definition snapshotTypeRows :: "type_row_input list \<Rightarrow> type_row list budgeted" where
  "snapshotTypeRows rows = se_bind (addRows (length rows)) (\<lambda>_. each_row snapshot_type_row rows)"

definition snapshot_indirect_row :: "indirect_row_input \<Rightarrow> indirect_row budgeted" where
  "snapshot_indirect_row row =
     se_bind (addProperties 3) (\<lambda>_.
     se_bind (metadataName (ii_TabName row) False) (\<lambda>tableName.
     se_bind (metadataName (ii_FieldName row) False) (\<lambda>fieldPath.
     se_bind (metadataName (ii_FieldType row) False) (\<lambda>targetType.
     se_return \<lparr>ir_tableName = tableName, ir_fieldPath = fieldPath, ir_targetType = targetType\<rparr>))))"

definition snapshotIndirectRows :: "indirect_row_input list \<Rightarrow> indirect_row list budgeted" where
  "snapshotIndirectRows rows = se_bind (addRows (length rows)) (\<lambda>_. each_row snapshot_indirect_row rows)"

definition snapshot_parameter_row :: "parameter_row_input \<Rightarrow> parameter_row budgeted" where
  "snapshot_parameter_row row =
     se_bind (addProperties 13) (\<lambda>_.
     se_bind (meta_text (pi_ParamClass row) 1 False True) (\<lambda>parameterClass.
     se_bind (reject_if (\<not> paramClassP parameterClass) InvalidParameterClass) (\<lambda>_.
     se_bind (meta_text (pi_Exid row) 1 True True) (\<lambda>internalType.
     se_bind (reject_if (parameterClass \<noteq> gostr ''X'' \<and> internalType = []) InvalidText) (\<lambda>_.
     se_bind (meta_integer (pi_Offset row)) (\<lambda>_.
     se_bind (meta_text (pi_Default row) 21 True False) (\<lambda>defaultValue.
     se_bind (meta_text (pi_ParamText row) 79 True False) (\<lambda>parameterText.
     se_bind (meta_integer (pi_Position row)) (\<lambda>position.
     se_bind (metadataName (pi_FuncName row) False) (\<lambda>functionName.
     se_bind (metadataName (pi_Parameter row) False) (\<lambda>parameterName.
     se_bind (metadataName (pi_TabName row) True) (\<lambda>tableName.
     se_bind (metadataName (pi_FieldName row) True) (\<lambda>fieldPath.
     se_bind (meta_integer (pi_IntLength row)) (\<lambda>internalLength.
     se_bind (meta_integer (pi_Decimals row)) (\<lambda>decimals.
     se_bind (meta_flag (pi_Optional row)) (\<lambda>optional.
     se_return \<lparr>pr_functionName = functionName, pr_parameterClass = parameterClass, pr_parameterName = parameterName, pr_tableName = tableName,
       pr_fieldPath = fieldPath, pr_internalType = internalType, pr_position = position, pr_internalLength = internalLength, pr_decimals = decimals,
       pr_defaultValue = defaultValue, pr_parameterText = parameterText, pr_optional = optional\<rparr>))))))))))))))))"

definition snapshotParameterRows :: "parameter_row_input list option \<Rightarrow> parameter_row list budgeted" where
  "snapshotParameterRows rows =
     (case rows of
        None \<Rightarrow> se_return []
      | Some values \<Rightarrow> se_bind (addRows (length values)) (\<lambda>_. each_row snapshot_parameter_row values))"

definition validateFunctionIdentity :: "function_identity option \<Rightarrow> bool \<Rightarrow> parameter_row list \<Rightarrow> reject_code + unit" where
  "validateFunctionIdentity identity identityWasProvided parameters =
     (let names = remdups (map pr_functionName parameters) in
      bindE (fail_if (length names > 1) MultipleFunctions) (\<lambda>_.
      bindE (fail_if (identityWasProvided \<and> identity = None \<and> length names > 0) MissingFunctionIdentity) (\<lambda>_.
      fail_if (\<exists>i \<in> set_option identity. length names = 1 \<and> id_Name i \<notin> set names) ForeignFunctionReference)))"

end
