(* ===== verification/Metadata_Nodes.thy ===== *)
theory Metadata_Nodes
  imports Metadata_Rows
begin

text \<open>
  Package \<open>metadata\<close>, the nodes of the type graph and the parameters that refer to them (\<open>recursive.go\<close>). A Go map from names is the lookup of the
  last entry with the name; a Go set of names is a list. The provisional and the final kinds, strings in the code, are datatypes.
\<close>

section \<open>Nodes\<close>

datatype ref_kind = KScalar | KStructure | KTable

record prov_reference =
  rf_kind :: ref_kind
  rf_internalType :: gostring
  rf_targetType :: gostring

record prov_field =
  pf_name :: gostring
  pf_position :: nat
  pf_componentType :: gostring
  pf_associatedType :: gostring
  pf_dataType :: gostring
  pf_internalType :: gostring
  pf_description :: gostring
  pf_decimals :: int
  pf_nucOffset :: int
  pf_ucOffset :: int
  pf_nucLength :: int
  pf_ucLength :: int
  pf_reference :: prov_reference

record prov_node =
  nd_name :: gostring
  nd_kind :: ref_kind
  nd_nucLength :: int
  nd_ucLength :: int
  nd_timestamp :: gostring
  nd_fields :: "prov_field list"

definition classifyReference :: "gostring \<Rightarrow> gostring \<Rightarrow> reject_code + prov_reference" where
  "classifyReference internalType associatedType =
     (if internalType = gostr ''u'' \<or> internalType = gostr ''v'' \<or> internalType = gostr ''h'' then
        bindE (fail_if (associatedType = []) MissingAssociatedType) (\<lambda>_.
        Inr \<lparr>rf_kind = (if internalType = gostr ''h'' then KTable else KStructure), rf_internalType = internalType, rf_targetType = associatedType\<rparr>)
      else Inr \<lparr>rf_kind = KScalar, rf_internalType = internalType, rf_targetType = []\<rparr>)"

definition safeEnd :: "int \<Rightarrow> int \<Rightarrow> int" where
  "safeEnd offset len = wrap64 (offset + len)"

text \<open>The first loop of \<open>buildNodes\<close>: the names of closed groups, the current group and the rows that remain.\<close>

fun group_rows :: "gostring list \<Rightarrow> (gostring \<times> type_row list) option \<Rightarrow> type_row list \<Rightarrow> reject_code + (gostring \<times> type_row list) list" where
  "group_rows closed current [] = Inr (case current of None \<Rightarrow> [] | Some g \<Rightarrow> [g])"
| "group_rows closed None (row # rows) =
     (if tr_typeName row \<in> set closed then Inl NoncontiguousType
      else group_rows closed (Some (tr_typeName row, [row])) rows)"
| "group_rows closed (Some (name, rs)) (row # rows) =
     (if name = tr_typeName row then group_rows closed (Some (name, rs @ [row])) rows
      else if tr_typeName row \<in> set (name # closed) then Inl NoncontiguousType
      else bindE (group_rows (name # closed) (Some (tr_typeName row, [row])) rows) (\<lambda>gs. Inr ((name, rs) # gs)))"

definition make_field :: "nat \<Rightarrow> type_row \<Rightarrow> prov_reference \<Rightarrow> prov_field" where
  "make_field fieldIndex row reference =
     \<lparr>pf_name = tr_fieldName row, pf_position = fieldIndex + 1, pf_componentType = tr_componentType row, pf_associatedType = tr_associatedType row,
      pf_dataType = tr_dataType row, pf_internalType = tr_internalType row, pf_description = tr_description row, pf_decimals = tr_decimals row,
      pf_nucOffset = tr_nucOffset row, pf_ucOffset = tr_ucOffset row, pf_nucLength = tr_nucLength row, pf_ucLength = tr_ucLength row,
      pf_reference = reference\<rparr>"

text \<open>The loop over the rows of one group, with the first row and the two effective lengths of the group.\<close>

fun node_fields :: "type_row \<Rightarrow> int \<Rightarrow> int \<Rightarrow> nat \<Rightarrow> gostring list \<Rightarrow> int \<Rightarrow> int \<Rightarrow> type_row list \<Rightarrow> reject_code + prov_field list" where
  "node_fields first nucTotal ucTotal fieldIndex names previousNucEnd previousUcEnd [] = Inr []"
| "node_fields first nucTotal ucTotal fieldIndex names previousNucEnd previousUcEnd (row # rows) =
     bindE (fail_if (tr_nucTotalLength row \<noteq> tr_nucTotalLength first \<or> tr_ucTotalLength row \<noteq> tr_ucTotalLength first) InconsistentTotalLength) (\<lambda>_.
     bindE (fail_if (tr_timestamp row \<noteq> tr_timestamp first) InconsistentTimestamp) (\<lambda>_.
     bindE (fail_if (tr_fieldName row \<in> set names) DuplicateField) (\<lambda>_.
     let nucEnd = safeEnd (tr_nucOffset row) (tr_nucLength row); ucEnd = safeEnd (tr_ucOffset row) (tr_ucLength row) in
     bindE (fail_if (tr_nucOffset row < previousNucEnd \<or> tr_ucOffset row < previousUcEnd \<or> nucEnd > nucTotal \<or> ucEnd > ucTotal) InvalidGeometry) (\<lambda>_.
     bindE (classifyReference (tr_internalType row) (tr_associatedType row)) (\<lambda>reference.
     bindE (node_fields first nucTotal ucTotal (fieldIndex + 1) (tr_fieldName row # names) nucEnd ucEnd rows) (\<lambda>flds.
     Inr (make_field fieldIndex row reference # flds)))))))"

definition edge_count :: "prov_field list \<Rightarrow> nat" where
  "edge_count flds = length (filter (\<lambda>f. rf_kind (pf_reference f) \<noteq> KScalar) flds)"

definition build_node :: "gostring \<Rightarrow> type_row \<Rightarrow> type_row list \<Rightarrow> reject_code + prov_node" where
  "build_node name first rows =
     (let blankCount = length (filter (\<lambda>r. tr_fieldName r = []) rows); anonymous = blankCount > 0 in
      bindE (fail_if (anonymous \<and> (length rows \<noteq> 1 \<or> blankCount \<noteq> 1)) InvalidTableShape) (\<lambda>_.
      bindE (if anonymous then bindE (classifyReference (tr_internalType first) (tr_associatedType first)) (\<lambda>r. Inr (rf_kind r = KScalar)) else Inr False) (\<lambda>anonymousScalar.
      let nucTotal = (if anonymousScalar \<and> tr_nucTotalLength first = 0 then safeEnd (tr_nucOffset first) (tr_nucLength first) else tr_nucTotalLength first);
          ucTotal = (if anonymousScalar \<and> tr_ucTotalLength first = 0 then safeEnd (tr_ucOffset first) (tr_ucLength first) else tr_ucTotalLength first) in
      bindE (node_fields first nucTotal ucTotal 0 [] 0 0 rows) (\<lambda>flds.
      Inr \<lparr>nd_name = name,
           nd_kind = (if anonymous then if rf_kind (pf_reference (hd flds)) = KScalar then KScalar else KTable else KStructure),
           nd_nucLength = nucTotal, nd_ucLength = ucTotal, nd_timestamp = tr_timestamp first, nd_fields = flds\<rparr>))))"

fun build_groups :: "md_limits \<Rightarrow> nat \<Rightarrow> (gostring \<times> type_row list) list \<Rightarrow> reject_code + prov_node list" where
  "build_groups limits fieldEdges [] = Inr []"
| "build_groups limits fieldEdges ((name, rows) # gs) =
     bindE (build_node name (hd rows) rows) (\<lambda>node.
     let fieldEdges = fieldEdges + edge_count (nd_fields node) in
     bindE (fail_if (int fieldEdges > MaxEdges limits) EdgeLimit) (\<lambda>_.
     bindE (build_groups limits fieldEdges gs) (\<lambda>nodes. Inr (node # nodes))))"

definition buildNodes :: "type_row list \<Rightarrow> md_limits \<Rightarrow> reject_code + prov_node list" where
  "buildNodes rows limits =
     bindE (group_rows [] None rows) (\<lambda>grouped.
     bindE (fail_if (int (length grouped) > MaxNodes limits) NodeLimit) (\<lambda>_.
     build_groups limits 0 grouped))"

text \<open>The key of an indirect type: the two names with a NUL between them.\<close>

definition indirect_key :: "gostring \<Rightarrow> gostring \<Rightarrow> gostring" where
  "indirect_key tableName fieldPath = tableName @ [0] @ fieldPath"

definition dashed :: "gostring \<Rightarrow> bool" where
  "dashed path \<longleftrightarrow> 0x2d \<in> set path"

fun indirect_targets :: "(gostring \<times> gostring) list \<times> gostring list \<Rightarrow> indirect_row list \<Rightarrow> (gostring \<times> gostring) list \<times> gostring list" where
  "indirect_targets st [] = st"
| "indirect_targets (targets, ambiguous) (row # rows) =
     (let key = indirect_key (ir_tableName row) (ir_fieldPath row) in
      if key \<in> set (map fst targets) then indirect_targets (targets, key # ambiguous) rows
      else indirect_targets ((key, ir_targetType row) # targets, ambiguous) rows)"

definition parameter_table :: "(gostring \<times> gostring) list \<Rightarrow> gostring list \<Rightarrow> parameter_row \<Rightarrow> gostring option" where
  "parameter_table targets ambiguous p =
     (if pr_internalType p \<noteq> gostr ''h'' then None
      else if dashed (pr_fieldPath p) then
        let key = indirect_key (pr_tableName p) (pr_fieldPath p) in if key \<in> set ambiguous then None else map_of targets key
      else if pr_fieldPath p = [] \<and> pr_tableName p \<noteq> [] then Some (pr_tableName p) else None)"

definition refineTableNodeKinds :: "prov_node list \<Rightarrow> parameter_row list \<Rightarrow> indirect_row list \<Rightarrow> prov_node list" where
  "refineTableNodeKinds nodes parameters indirectRows =
     (let (targets, ambiguous) = indirect_targets ([], []) indirectRows;
          requiredTables =
            map (rf_targetType \<circ> pf_reference) (filter (\<lambda>f. rf_kind (pf_reference f) = KTable) (concat (map nd_fields nodes))) @
            List.map_filter (parameter_table targets ambiguous) parameters in
      map (\<lambda>node. if nd_kind node = KScalar \<and> nd_name node \<in> set requiredTables then node\<lparr>nd_kind := KTable\<rparr> else node) nodes)"

definition node_by_name :: "prov_node list \<Rightarrow> gostring \<Rightarrow> prov_node option" where
  "node_by_name nodes = map_of (rev (map (\<lambda>n. (nd_name n, n)) nodes))"

definition field_by_name :: "prov_field list \<Rightarrow> gostring \<Rightarrow> prov_field option" where
  "field_by_name flds = map_of (rev (map (\<lambda>f. (pf_name f, f)) flds))"

fun check_targets :: "prov_node list \<Rightarrow> prov_field list \<Rightarrow> reject_code + unit" where
  "check_targets nodes [] = Inr ()"
| "check_targets nodes (field # fs) =
     (let ref = pf_reference field in
      if rf_kind ref = KScalar then check_targets nodes fs
      else case node_by_name nodes (rf_targetType ref) of
          None \<Rightarrow> Inl ForeignTypeReference
        | Some target \<Rightarrow> bindE (fail_if (nd_kind target \<noteq> rf_kind ref) ReferenceKindMismatch) (\<lambda>_. check_targets nodes fs))"

definition validateNodeTargets :: "prov_node list \<Rightarrow> reject_code + unit" where
  "validateNodeTargets nodes = check_targets nodes (concat (map nd_fields nodes))"

section \<open>Parameters\<close>

datatype param_kind = PScalarRef | PStructureRef | PTableRef | PScalarTable | PException

record prov_param_ref =
  pp_kind :: param_kind
  pp_internalType :: gostring
  pp_targetType :: gostring

record prov_parameter =
  pv_row :: parameter_row
  pv_reference :: prov_param_ref

fun indirectMap :: "(gostring \<times> indirect_row) list \<Rightarrow> indirect_row list \<Rightarrow> reject_code + (gostring \<times> indirect_row) list" where
  "indirectMap out [] = Inr out"
| "indirectMap out (row # rows) =
     bindE (fail_if (\<not> dashed (ir_fieldPath row)) InvalidIndirectPath) (\<lambda>_.
     let key = indirect_key (ir_tableName row) (ir_fieldPath row) in
     bindE (fail_if (key \<in> set (map fst out)) DuplicateIndirectType) (\<lambda>_. indirectMap ((key, row) # out) rows))"

text \<open>\<open>strings.Split\<close> at every dash: one segment more than there are dashes.\<close>

fun split_dash :: "gostring \<Rightarrow> gostring list" where
  "split_dash [] = [[]]"
| "split_dash (b # s) = (if b = 0x2d then [] # split_dash s else case split_dash s of [] \<Rightarrow> [[b]] | seg # segs \<Rightarrow> (b # seg) # segs)"

fun resolve_segments :: "prov_node list \<Rightarrow> prov_node \<Rightarrow> gostring list \<Rightarrow> reject_code + prov_reference" where
  "resolve_segments nodes current [] = Inr \<lparr>rf_kind = KScalar, rf_internalType = [], rf_targetType = []\<rparr>"
| "resolve_segments nodes current (segment # segments) =
     bindE (fail_if (segment = []) InvalidFieldPath) (\<lambda>_.
     case field_by_name (nd_fields current) segment of
       None \<Rightarrow> Inl ForeignFieldReference
     | Some field \<Rightarrow>
         let reference = pf_reference field in
         if segments = [] then Inr reference
         else bindE (fail_if (rf_kind reference \<noteq> KStructure) InvalidFieldPath) (\<lambda>_.
           case node_by_name nodes (rf_targetType reference) of
             None \<Rightarrow> Inl ForeignTypeReference
           | Some target \<Rightarrow> if nd_kind target \<noteq> KStructure then Inl ForeignTypeReference else resolve_segments nodes target segments))"

definition resolveFieldPath :: "prov_node list \<Rightarrow> prov_node \<Rightarrow> gostring \<Rightarrow> reject_code + prov_reference" where
  "resolveFieldPath nodes node fieldPath = resolve_segments nodes node (split_dash fieldPath)"

record param_state =
  ps_consumed :: "gostring list"
  ps_roots :: "gostring list"
  ps_seen :: "gostring list"
  ps_edges :: nat

type_synonym 'a param_step = "param_state \<Rightarrow> reject_code + 'a \<times> param_state"

definition addRoot :: "gostring \<Rightarrow> unit param_step" where
  "addRoot name st = Inr ((), if name \<in> set (ps_roots st) then st else st\<lparr>ps_roots := ps_roots st @ [name]\<rparr>)"

definition consume_key :: "gostring \<Rightarrow> unit param_step" where
  "consume_key key st = Inr ((), st\<lparr>ps_consumed := key # ps_consumed st\<rparr>)"

definition count_edge :: "unit param_step" where
  "count_edge st = Inr ((), st\<lparr>ps_edges := ps_edges st + 1\<rparr>)"

definition check_edges :: "md_limits \<Rightarrow> unit param_step" where
  "check_edges limits st = (if int (ps_edges st) > MaxEdges limits then Inl EdgeLimit else Inr ((), st))"

definition mappedTarget :: "prov_node list \<Rightarrow> (gostring \<times> indirect_row) list \<Rightarrow> parameter_row \<Rightarrow> prov_node option param_step" where
  "mappedTarget nodes indirect row =
     (if \<not> dashed (pr_fieldPath row) then se_return None
      else se_bind (se_lift (fail_if (pr_tableName row = []) MissingAssociatedType)) (\<lambda>_.
        let key = indirect_key (pr_tableName row) (pr_fieldPath row) in
        case map_of indirect key of
          None \<Rightarrow> se_lift (Inl MissingIndirectType)
        | Some mapping \<Rightarrow>
            se_bind (consume_key key) (\<lambda>_.
            case node_by_name nodes (ir_targetType mapping) of
              None \<Rightarrow> se_lift (Inl ForeignTypeReference)
            | Some target \<Rightarrow> se_bind (addRoot (ir_targetType mapping)) (\<lambda>_. se_return (Some target)))))"

definition directFieldReference :: "prov_node list \<Rightarrow> parameter_row \<Rightarrow> prov_reference option param_step" where
  "directFieldReference nodes row =
     (if pr_fieldPath row = [] \<or> dashed (pr_fieldPath row) then se_return None
      else se_bind (se_lift (fail_if (pr_tableName row = []) MissingAssociatedType)) (\<lambda>_.
        case node_by_name nodes (pr_tableName row) of
          None \<Rightarrow> se_lift (Inl ForeignTypeReference)
        | Some owner \<Rightarrow>
            se_bind (addRoot (pr_tableName row)) (\<lambda>_.
            se_bind (se_lift (resolveFieldPath nodes owner (pr_fieldPath row))) (\<lambda>r. se_return (Some r)))))"

definition scalarLeaf :: "prov_node \<Rightarrow> bool" where
  "scalarLeaf n \<longleftrightarrow> (case nd_fields n of [f] \<Rightarrow> pf_name f = [] \<and> rf_kind (pf_reference f) = KScalar | _ \<Rightarrow> False)"

definition scalarTable :: "parameter_row \<Rightarrow> bool" where
  "scalarTable row \<longleftrightarrow> pr_parameterClass row = gostr ''T'' \<and> pr_internalType row \<noteq> gostr ''u'' \<and> pr_internalType row \<noteq> gostr ''v'' \<and> pr_internalType row \<noteq> gostr ''h''"

definition isTable :: "parameter_row \<Rightarrow> bool" where
  "isTable row \<longleftrightarrow> \<not> scalarTable row \<and> (pr_parameterClass row = gostr ''T'' \<or> pr_internalType row = gostr ''h'')"

definition isStructure :: "parameter_row \<Rightarrow> bool" where
  "isStructure row \<longleftrightarrow> \<not> isTable row \<and> \<not> scalarTable row \<and> (pr_internalType row = gostr ''u'' \<or> pr_internalType row = gostr ''v'')"

text \<open>The named type of a scalar parameter, if it is a node of the graph.\<close>

definition named_leaf :: "prov_node list \<Rightarrow> parameter_row \<Rightarrow> bool \<Rightarrow> bool param_step" where
  "named_leaf nodes row other =
     (if other \<or> pr_fieldPath row \<noteq> [] \<or> pr_tableName row = [] then se_return False
      else case node_by_name nodes (pr_tableName row) of
          None \<Rightarrow> se_return False
        | Some named \<Rightarrow>
            se_bind (se_lift (fail_if (\<not> scalarLeaf named) ReferenceKindMismatch)) (\<lambda>_.
            se_bind (addRoot (pr_tableName row)) (\<lambda>_. se_return True)))"

definition mismatch_unless :: "bool \<Rightarrow> unit param_step" where
  "mismatch_unless c = se_lift (fail_if (\<not> c) ReferenceKindMismatch)"

definition scalar_table_reference :: "prov_node list \<Rightarrow> (gostring \<times> indirect_row) list \<Rightarrow> md_limits \<Rightarrow> parameter_row \<Rightarrow> prov_param_ref param_step" where
  "scalar_table_reference nodes indirect limits row =
     se_bind (mappedTarget nodes indirect row) (\<lambda>mapped.
     se_bind (directFieldReference nodes row) (\<lambda>direct.
     se_bind (mismatch_unless (pred_option scalarLeaf mapped)) (\<lambda>_.
     se_bind (mismatch_unless (pred_option (\<lambda>r. rf_kind r = KScalar) direct)) (\<lambda>_.
     se_bind (named_leaf nodes row (mapped \<noteq> None \<or> direct \<noteq> None)) (\<lambda>_.
     se_bind count_edge (\<lambda>_.
     se_bind (check_edges limits) (\<lambda>_.
     se_return \<lparr>pp_kind = PScalarTable, pp_internalType = pr_internalType row, pp_targetType = []\<rparr>)))))))"

definition scalar_reference :: "prov_node list \<Rightarrow> (gostring \<times> indirect_row) list \<Rightarrow> md_limits \<Rightarrow> parameter_row \<Rightarrow> prov_param_ref param_step" where
  "scalar_reference nodes indirect limits row =
     se_bind (mappedTarget nodes indirect row) (\<lambda>mapped.
     se_bind (directFieldReference nodes row) (\<lambda>direct.
     se_bind (mismatch_unless (pred_option scalarLeaf mapped)) (\<lambda>_.
     se_bind (if mapped \<noteq> None then count_edge else se_return ()) (\<lambda>_.
     se_bind (mismatch_unless (pred_option (\<lambda>r. rf_kind r = KScalar) direct)) (\<lambda>_.
     se_bind (if direct \<noteq> None then count_edge else se_return ()) (\<lambda>_.
     se_bind (named_leaf nodes row (mapped \<noteq> None \<or> direct \<noteq> None)) (\<lambda>named.
     se_bind (if named then count_edge else se_return ()) (\<lambda>_.
     se_bind (check_edges limits) (\<lambda>_.
     se_return \<lparr>pp_kind = PScalarRef, pp_internalType = pr_internalType row, pp_targetType = []\<rparr>)))))))))"

definition target_type :: "prov_node list \<Rightarrow> (gostring \<times> indirect_row) list \<Rightarrow> parameter_row \<Rightarrow> gostring param_step" where
  "target_type nodes indirect row =
     (if dashed (pr_fieldPath row) then
        let key = indirect_key (pr_tableName row) (pr_fieldPath row) in
        case map_of indirect key of
          None \<Rightarrow> se_lift (Inl MissingIndirectType)
        | Some mapping \<Rightarrow> se_bind (consume_key key) (\<lambda>_. se_return (ir_targetType mapping))
      else if pr_fieldPath row \<noteq> [] then
        (case node_by_name nodes (pr_tableName row) of
           None \<Rightarrow> se_lift (Inl ForeignTypeReference)
         | Some owner \<Rightarrow>
             se_bind (se_lift (resolveFieldPath nodes owner (pr_fieldPath row))) (\<lambda>resolved.
             se_bind (mismatch_unless (rf_kind resolved \<noteq> KScalar)) (\<lambda>_. se_return (rf_targetType resolved))))
      else se_return (pr_tableName row))"

definition typed_reference :: "prov_node list \<Rightarrow> (gostring \<times> indirect_row) list \<Rightarrow> md_limits \<Rightarrow> parameter_row \<Rightarrow> prov_param_ref param_step" where
  "typed_reference nodes indirect limits row =
     se_bind (se_lift (fail_if (pr_tableName row = []) MissingAssociatedType)) (\<lambda>_.
     se_bind (target_type nodes indirect row) (\<lambda>targetType.
     case node_by_name nodes targetType of
       None \<Rightarrow> se_lift (Inl ForeignTypeReference)
     | Some target \<Rightarrow>
         se_bind (mismatch_unless (\<not> (isStructure row \<and> nd_kind target \<noteq> KStructure))) (\<lambda>_.
         se_bind (mismatch_unless (\<not> (pr_internalType row = gostr ''h'' \<and> nd_kind target \<noteq> KTable))) (\<lambda>_.
         se_bind count_edge (\<lambda>_.
         se_bind (check_edges limits) (\<lambda>_.
         se_bind (addRoot targetType) (\<lambda>_.
         se_return \<lparr>pp_kind = (if isTable row then PTableRef else PStructureRef), pp_internalType = pr_internalType row, pp_targetType = targetType\<rparr>)))))))"

definition parameter_ref :: "prov_node list \<Rightarrow> (gostring \<times> indirect_row) list \<Rightarrow> md_limits \<Rightarrow> parameter_row \<Rightarrow> prov_param_ref param_step" where
  "parameter_ref nodes indirect limits row =
     (if pr_parameterClass row = gostr ''X'' then se_return \<lparr>pp_kind = PException, pp_internalType = [], pp_targetType = []\<rparr>
      else if scalarTable row then scalar_table_reference nodes indirect limits row
      else if \<not> isTable row \<and> \<not> isStructure row then scalar_reference nodes indirect limits row
      else typed_reference nodes indirect limits row)"

definition parameter_key :: "parameter_row \<Rightarrow> gostring" where
  "parameter_key row = indirect_key (pr_functionName row) (pr_parameterName row)"

definition provisional_parameter :: "prov_node list \<Rightarrow> (gostring \<times> indirect_row) list \<Rightarrow> md_limits \<Rightarrow> parameter_row \<Rightarrow> prov_parameter param_step" where
  "provisional_parameter nodes indirect limits row st =
     (if parameter_key row \<in> set (ps_seen st) then Inl DuplicateParameter
      else se_bind (parameter_ref nodes indirect limits row) (\<lambda>reference. se_return \<lparr>pv_row = row, pv_reference = reference\<rparr>)
        (st\<lparr>ps_seen := parameter_key row # ps_seen st\<rparr>))"

fun provisional_rows :: "prov_node list \<Rightarrow> (gostring \<times> indirect_row) list \<Rightarrow> md_limits \<Rightarrow> parameter_row list \<Rightarrow> prov_parameter list param_step" where
  "provisional_rows nodes indirect limits [] = se_return []"
| "provisional_rows nodes indirect limits (row # rows) =
     se_bind (provisional_parameter nodes indirect limits row) (\<lambda>p.
     se_bind (provisional_rows nodes indirect limits rows) (\<lambda>ps. se_return (p # ps)))"

definition provisionalParameters :: "parameter_row list \<Rightarrow> indirect_row list \<Rightarrow> prov_node list \<Rightarrow> md_limits \<Rightarrow> reject_code + prov_parameter list \<times> gostring list \<times> nat" where
  "provisionalParameters rows indirectRows nodes limits =
     bindE (indirectMap [] indirectRows) (\<lambda>indirect.
     bindE (provisional_rows nodes indirect limits rows
        \<lparr>ps_consumed = [], ps_roots = [], ps_seen = [], ps_edges = sum_list (map (edge_count \<circ> nd_fields) nodes)\<rparr>) (\<lambda>(result, st).
     bindE (fail_if (\<exists>row \<in> set indirectRows. indirect_key (ir_tableName row) (ir_fieldPath row) \<notin> set (ps_consumed st)) ForeignIndirectType) (\<lambda>_.
     Inr (result, ps_roots st, ps_edges st))))"

end
