(* ===== verification/Component_Search.thy ===== *)
theory Component_Search
  imports Rfc_Prelude
begin

text \<open>
  Strongly connected components as \<open>graphComponents\<close> computes them (\<open>recursive.go\<close>): a depth-first search with an explicit stack that records the order in which nodes are
  finished, and a search backwards along the edges from the last finished node on. A frame of the first stack is a node and its neighbours that are still to be
  looked at (\<open>frame.next\<close> counts those that are not). An index outside the graph, which the callers never pass, is not followed.
\<close>

section \<open>Definitions\<close>

type_synonym adjacency = "nat list list"

definition reverse_adjacency :: "adjacency \<Rightarrow> adjacency" where
  "reverse_adjacency adj =
     map (\<lambda>to. concat (map (\<lambda>from. replicate (count_list (adj ! from) to) from) [0..<length adj])) [0..<length adj]"

function dfs_loop :: "adjacency \<Rightarrow> nat set \<Rightarrow> nat list \<Rightarrow> (nat \<times> nat list) list \<Rightarrow> nat set \<times> nat list" where
  "dfs_loop adj visited finish [] = (visited, finish)"
| "dfs_loop adj visited finish ((node, []) # stack) = dfs_loop adj visited (finish @ [node]) stack"
| "dfs_loop adj visited finish ((node, target # rest) # stack) =
     (if target < length adj \<and> target \<notin> visited
      then dfs_loop adj (insert target visited) finish ((target, adj ! target) # (node, rest) # stack)
      else dfs_loop adj visited finish ((node, rest) # stack))"
  by pat_completeness auto
termination
proof (relation "measures [\<lambda>(adj, visited, finish, stack). card ({..<length adj} - visited), \<lambda>(adj, visited, finish, stack). sum_list (map (Suc \<circ> length \<circ> snd) stack)]", goal_cases)
  case (3 adj visited finish node target rest stack)
  then have "{..<length adj} - insert target visited \<subset> {..<length adj} - visited" by auto
  then show ?case by (simp add: psubset_card_mono)
qed auto

definition dfs_start :: "adjacency \<Rightarrow> nat \<Rightarrow> nat set \<times> nat list \<Rightarrow> nat set \<times> nat list" where
  "dfs_start adj start st =
     (case st of (visited, finish) \<Rightarrow>
      if start \<in> visited then (visited, finish) else dfs_loop adj (insert start visited) finish [(start, adj ! start)])"

definition finish_order :: "adjacency \<Rightarrow> nat list" where
  "finish_order adj = snd (fold (dfs_start adj) [0..<length adj] ({}, []))"

text \<open>The second search: \<open>componentByNode\<close> is a partial map, \<open>-1\<close> being undefined.\<close>

definition push_source :: "nat \<Rightarrow> nat \<Rightarrow> nat \<Rightarrow> (nat \<rightharpoonup> nat) \<times> nat list \<Rightarrow> (nat \<rightharpoonup> nat) \<times> nat list" where
  "push_source n component source st =
     (case st of (assigned, stack) \<Rightarrow>
      if source < n \<and> assigned source = None then (assigned(source \<mapsto> component), source # stack) else (assigned, stack))"

definition unassigned :: "nat \<Rightarrow> (nat \<rightharpoonup> nat) \<Rightarrow> nat" where
  "unassigned n assigned = card {v. v < n \<and> assigned v = None}"

lemma push_source_weight:
  "fold (push_source n c) xs (assigned, stack) = (assigned', stack') \<Longrightarrow> unassigned n assigned' + length stack' = unassigned n assigned + length stack"
proof (induction xs arbitrary: assigned stack)
  case (Cons x xs)
  show ?case
  proof (cases "x < n \<and> assigned x = None")
    case True
    have "{v. v < n \<and> assigned v = None} = insert x {v. v < n \<and> (assigned(x \<mapsto> c)) v = None}" using True by auto
    then have "unassigned n assigned = Suc (unassigned n (assigned(x \<mapsto> c)))" by (simp add: unassigned_def)
    moreover have "push_source n c x (assigned, stack) = (assigned(x \<mapsto> c), x # stack)" using True by (simp add: push_source_def)
    ultimately show ?thesis using Cons.IH [of "assigned(x \<mapsto> c)" "x # stack"] Cons.prems by (simp del: fun_upd_apply)
  next
    case False
    then have "push_source n c x (assigned, stack) = (assigned, stack)" unfolding push_source_def by auto
    then show ?thesis using Cons by simp
  qed
qed simp

function collect_members :: "adjacency \<Rightarrow> nat \<Rightarrow> (nat \<rightharpoonup> nat) \<Rightarrow> nat list \<Rightarrow> nat list \<Rightarrow> (nat \<rightharpoonup> nat) \<times> nat list" where
  "collect_members rv component assigned members [] = (assigned, members)"
| "collect_members rv component assigned members (node # stack) =
     (case fold (push_source (length rv) component) (rv ! node) (assigned, stack) of
        (assigned', stack') \<Rightarrow> collect_members rv component assigned' (members @ [node]) stack')"
  by pat_completeness auto
termination
  by (relation "measure (\<lambda>(rv, component, assigned, members, stack). unassigned (length rv) assigned + length stack)") (auto dest!: push_source_weight [OF sym])

definition component_step :: "adjacency \<Rightarrow> nat \<Rightarrow> (nat \<rightharpoonup> nat) \<times> nat list list \<Rightarrow> (nat \<rightharpoonup> nat) \<times> nat list list" where
  "component_step rv start st =
     (case st of (assigned, comps) \<Rightarrow>
      if assigned start \<noteq> None then (assigned, comps)
      else let component = length comps in
        case collect_members rv component (assigned(start \<mapsto> component)) [] [start] of
          (assigned', members) \<Rightarrow> (assigned', comps @ [sort members]))"

definition strong_components :: "adjacency \<Rightarrow> (nat \<rightharpoonup> nat) \<times> nat list list" where
  "strong_components adj = fold (component_step (reverse_adjacency adj)) (rev (finish_order adj)) (Map.empty, [])"

definition is_cyclic :: "adjacency \<Rightarrow> nat list \<Rightarrow> bool" where
  "is_cyclic adj members \<longleftrightarrow> length members > 1 \<or> hd members \<in> set (adj ! hd members)"

section \<open>Paths\<close>

definition edges :: "adjacency \<Rightarrow> (nat \<times> nat) set" where
  "edges adj = {(u, v). u < length adj \<and> v < length adj \<and> v \<in> set (adj ! u)}"

abbreviation paths :: "adjacency \<Rightarrow> (nat \<times> nat) set" where
  "paths adj \<equiv> (edges adj)\<^sup>*"

definition same_scc :: "adjacency \<Rightarrow> nat \<Rightarrow> nat \<Rightarrow> bool" where
  "same_scc adj u v \<longleftrightarrow> (u, v) \<in> paths adj \<and> (v, u) \<in> paths adj"

definition closed_graph :: "adjacency \<Rightarrow> bool" where
  "closed_graph adj \<longleftrightarrow> list_all (list_all (\<lambda>v. v < length adj)) adj"

lemma edge_iff: "closed_graph adj \<Longrightarrow> (u, v) \<in> edges adj \<longleftrightarrow> u < length adj \<and> v \<in> set (adj ! u)"
  by (auto simp: edges_def closed_graph_def list_all_iff)

lemma same_scc_equiv: "same_scc adj u u" "same_scc adj u v \<Longrightarrow> same_scc adj v u" "same_scc adj u v \<Longrightarrow> same_scc adj v w \<Longrightarrow> same_scc adj u w"
  by (auto simp: same_scc_def)

section \<open>The finish order\<close>

text \<open>
  The invariant of the search: black nodes are finished, grey ones on the stack. Every finished node is in a component with a grey node, or its component
  has a last finished node after which nothing it reaches is finished.
\<close>

definition settled :: "adjacency \<Rightarrow> nat list \<Rightarrow> nat \<Rightarrow> bool" where
  "settled adj finish x \<longleftrightarrow> (\<exists>ys z zs. finish = ys @ z # zs \<and> same_scc adj x z \<and> (\<forall>y. (x, y) \<in> paths adj \<longrightarrow> y \<in> set (ys @ [z])))"

fun grey_chain :: "adjacency \<Rightarrow> nat list \<Rightarrow> bool" where
  "grey_chain adj (v # u # ns) \<longleftrightarrow> (u, v) \<in> edges adj \<and> grey_chain adj (u # ns)"
| "grey_chain adj _ \<longleftrightarrow> True"

definition dfs_inv :: "adjacency \<Rightarrow> nat set \<Rightarrow> nat list \<Rightarrow> (nat \<times> nat list) list \<Rightarrow> bool" where
  "dfs_inv adj visited finish stack \<longleftrightarrow>
     visited = set finish \<union> set (map fst stack) \<and> visited \<subseteq> {..<length adj} \<and>
     distinct (finish @ map fst stack) \<and> grey_chain adj (map fst stack) \<and>
     (\<forall>(u, r) \<in> set stack. set r \<subseteq> set (adj ! u) \<and> (\<forall>v. (u, v) \<in> edges adj \<longrightarrow> v \<in> set r \<or> v \<in> visited)) \<and>
     (\<forall>u \<in> set finish. \<forall>v. (u, v) \<in> edges adj \<longrightarrow> v \<in> visited) \<and>
     (\<forall>x \<in> set finish. settled adj finish x \<or> (\<exists>g \<in> set (map fst stack). same_scc adj x g))"

lemma settled_append:
  assumes "settled adj finish x"
  shows "settled adj (finish @ ws) x"
proof -
  obtain ys z zs where "finish = ys @ z # zs" "same_scc adj x z" "\<forall>y. (x, y) \<in> paths adj \<longrightarrow> y \<in> set (ys @ [z])" using assms by (auto simp: settled_def)
  then show ?thesis unfolding settled_def by (intro exI [of _ ys] exI [of _ z] exI [of _ "zs @ ws"]) simp
qed

lemma settled_scc:
  assumes "settled adj finish x" "same_scc adj x y"
  shows "settled adj finish y"
proof -
  obtain ys z zs where z: "finish = ys @ z # zs" "same_scc adj x z" "\<forall>y. (x, y) \<in> paths adj \<longrightarrow> y \<in> set (ys @ [z])" using assms(1) by (auto simp: settled_def)
  have "same_scc adj y z" using z(2) assms(2) same_scc_equiv by blast
  moreover have "(y, w) \<in> paths adj \<longrightarrow> w \<in> set (ys @ [z])" for w using z(3) assms(2) by (meson rtrancl_trans same_scc_def)
  ultimately show ?thesis unfolding settled_def using z(1) by blast
qed

lemma grey_reach: "grey_chain adj (v # ns) \<Longrightarrow> u \<in> set (v # ns) \<Longrightarrow> (u, v) \<in> paths adj"
proof (induction ns arbitrary: v)
  case (Cons w ns)
  then show ?case by (auto intro: rtrancl_trans)
qed simp

text \<open>A path out of the black nodes and the node on top meets another grey node first.\<close>

lemma path_inside:
  assumes "(x, y) \<in> paths adj" "x \<in> B" "\<And>u v. u \<in> B \<Longrightarrow> (u, v) \<in> edges adj \<Longrightarrow> v \<in> B \<union> G"
  shows "y \<in> B \<or> (\<exists>g \<in> G. (x, g) \<in> paths adj)"
  using assms(1)
proof (induction rule: rtrancl_induct)
  case (step y z)
  then show ?case using assms(3) [of y z] by (auto intro: rtrancl_into_rtrancl)
qed (use assms(2) in simp)

lemma dfs_inv_push:
  assumes "dfs_inv adj visited finish ((node, target # rest) # stack)" "target < length adj" "target \<notin> visited"
  shows "dfs_inv adj (insert target visited) finish ((target, adj ! target) # (node, rest) # stack)"
proof -
  have "node < length adj" "target \<in> set (adj ! node)" using assms(1) by (auto simp: dfs_inv_def)
  then have "(node, target) \<in> edges adj" using assms(2) by (simp add: edges_def)
  moreover have "(u, v) \<in> edges adj \<Longrightarrow> v \<in> set (adj ! u)" for u v by (simp add: edges_def)
  ultimately show ?thesis using assms by (auto simp: dfs_inv_def)
qed

lemma dfs_inv_skip:
  assumes "dfs_inv adj visited finish ((node, target # rest) # stack)" "\<not> (target < length adj \<and> target \<notin> visited)"
  shows "dfs_inv adj visited finish ((node, rest) # stack)"
proof -
  have "v = target \<Longrightarrow> (u, v) \<in> edges adj \<Longrightarrow> v \<in> visited" for u v using assms(2) by (auto simp: edges_def)
  then show ?thesis using assms(1) by (auto simp: dfs_inv_def)
qed

lemma dfs_inv_pop:
  assumes "dfs_inv adj visited finish ((node, []) # stack)"
  shows "dfs_inv adj visited (finish @ [node]) stack"
proof -
  let ?G = "set (map fst stack)"
  let ?B = "set (finish @ [node])"
  have v: "visited = set finish \<union> insert node ?G" and black: "\<And>u v. u \<in> set finish \<Longrightarrow> (u, v) \<in> edges adj \<Longrightarrow> v \<in> visited"
    and top_edges: "\<And>v. (node, v) \<in> edges adj \<Longrightarrow> v \<in> visited" and chain: "grey_chain adj (node # map fst stack)"
    and scc: "\<And>x. x \<in> set finish \<Longrightarrow> settled adj finish x \<or> (\<exists>g \<in> insert node ?G. same_scc adj x g)"
    using assms by (auto simp: dfs_inv_def)
  have node: "settled adj (finish @ [node]) node \<or> (\<exists>g \<in> ?G. same_scc adj node g)"
  proof (cases "\<exists>g \<in> ?G. (node, g) \<in> paths adj")
    case True
    then show ?thesis using grey_reach [OF chain] by (auto simp: same_scc_def)
  next
    case False
    have "y \<in> ?B" if p: "(node, y) \<in> paths adj" for y
    proof -
      have "v \<in> ?B \<union> ?G" if "u \<in> ?B" "(u, v) \<in> edges adj" for u v using that black top_edges v by auto
      from path_inside [OF p _ this] show ?thesis using False by auto
    qed
    then show ?thesis using same_scc_equiv(1) unfolding settled_def by blast
  qed
  have "settled adj (finish @ [node]) x \<or> (\<exists>g \<in> ?G. same_scc adj x g)" if x: "x \<in> ?B" for x
  proof (cases "x = node")
    case False
    then consider "settled adj finish x" | "same_scc adj x node" | g where "g \<in> ?G" "same_scc adj x g" using x scc [of x] by auto
    then show ?thesis
    proof cases
      case 2
      have "settled adj (finish @ [node]) node \<Longrightarrow> settled adj (finish @ [node]) x" by (rule settled_scc [OF _ same_scc_equiv(2) [OF 2]])
      moreover have "same_scc adj node g \<Longrightarrow> same_scc adj x g" for g by (rule same_scc_equiv(3) [OF 2])
      ultimately show ?thesis using node by blast
    qed (use settled_append in blast)+
  qed (use node in simp)
  moreover have "grey_chain adj (map fst stack)" using chain by (cases "map fst stack") simp_all
  ultimately show ?thesis using assms by (auto simp: dfs_inv_def)
qed

lemma dfs_loop_inv: "dfs_inv adj visited finish stack \<Longrightarrow> dfs_loop adj visited finish stack = (visited', finish') \<Longrightarrow> dfs_inv adj visited' finish' [] \<and> visited \<subseteq> visited'"
proof (induction adj visited finish stack arbitrary: visited' finish' rule: dfs_loop.induct)
  case (1 adj visited finish)
  then show ?case by simp
next
  case (2 adj visited finish node stack)
  then show ?case using dfs_inv_pop [of adj visited finish node stack] by simp
next
  case (3 adj visited finish node target rest stack)
  then show ?case
    using dfs_inv_push [of adj visited finish node target rest stack] dfs_inv_skip [of adj visited finish node target rest stack]
    by (cases "target < length adj \<and> target \<notin> visited") auto
qed

lemma dfs_start_inv:
  assumes "dfs_inv adj visited finish []" "start < length adj" "dfs_start adj start (visited, finish) = (visited', finish')"
  shows "dfs_inv adj visited' finish' [] \<and> insert start visited \<subseteq> visited'"
proof (cases "start \<in> visited")
  case False
  have e: "(u, v) \<in> edges adj \<Longrightarrow> v \<in> set (adj ! u)" for u v by (simp add: edges_def)
  have "dfs_inv adj (insert start visited) finish [(start, adj ! start)]" using assms(1,2) False e by (auto simp: dfs_inv_def)
  from dfs_loop_inv [OF this] show ?thesis using assms(3) False by (simp add: dfs_start_def)
qed (use assms in \<open>simp add: dfs_start_def\<close>)

lemma finish_order_facts:
  "set (finish_order adj) = {..<length adj}" "distinct (finish_order adj)" "\<And>x. x < length adj \<Longrightarrow> settled adj (finish_order adj) x"
proof -
  have step: "dfs_inv adj visited finish [] \<Longrightarrow> set starts \<subseteq> {..<length adj} \<Longrightarrow> fold (dfs_start adj) starts (visited, finish) = (visited', finish') \<Longrightarrow>
      dfs_inv adj visited' finish' [] \<and> set starts \<union> visited \<subseteq> visited'" for visited finish starts visited' finish'
  proof (induction starts arbitrary: visited finish)
    case (Cons start starts)
    obtain v f where s: "dfs_start adj start (visited, finish) = (v, f)" by (cases "dfs_start adj start (visited, finish)")
    show ?case using Cons.IH [of v f] dfs_start_inv [OF Cons.prems(1) _ s] Cons.prems(2,3) s by auto
  qed simp
  have start: "dfs_inv adj {} [] []" by (simp add: dfs_inv_def)
  obtain v f where f: "fold (dfs_start adj) [0..<length adj] ({}, []) = (v, f)" by (cases "fold (dfs_start adj) [0..<length adj] ({}, [])")
  have i: "dfs_inv adj v f []" "{0..<length adj} \<subseteq> v" using step [OF start _ f] by (simp_all add: atLeast0LessThan)
  have fo: "finish_order adj = f" by (simp add: finish_order_def f)
  show s: "set (finish_order adj) = {..<length adj}" "distinct (finish_order adj)" using i by (auto simp: dfs_inv_def fo)
  show "settled adj (finish_order adj) x" if "x < length adj" for x using i(1) s(1) that by (auto simp: dfs_inv_def fo)
qed

section \<open>The backward search\<close>

lemma reverse_edges: "v < length adj \<Longrightarrow> set (reverse_adjacency adj ! v) = {u. (u, v) \<in> edges adj}"
  by (auto simp: reverse_adjacency_def edges_def count_list_0_iff)

lemma length_reverse [simp]: "length (reverse_adjacency adj) = length adj"
  by (simp add: reverse_adjacency_def)

text \<open>The nodes of the new component so far: \<open>M\<close>, all of them \<open>P\<close> and not assigned before.\<close>

definition collecting :: "(nat \<Rightarrow> bool) \<Rightarrow> nat \<Rightarrow> (nat \<rightharpoonup> nat) \<Rightarrow> nat list \<Rightarrow> (nat \<rightharpoonup> nat) \<Rightarrow> bool" where
  "collecting P c A M assigned \<longleftrightarrow> distinct M \<and> (\<forall>v \<in> set M. P v \<and> A v = None) \<and> assigned = (\<lambda>v. if v \<in> set M then Some c else A v)"

lemma push_collecting:
  assumes "collecting P c A (M @ stack) assigned" "fold (push_source n c) xs (assigned, stack) = (assigned', stack')" "\<And>x. x \<in> set xs \<Longrightarrow> x < n \<Longrightarrow> P x"
  shows "collecting P c A (M @ stack') assigned' \<and> set stack \<subseteq> set stack' \<and> (\<forall>x \<in> set xs. x < n \<longrightarrow> assigned' x \<noteq> None) \<and> (\<forall>v. assigned v \<noteq> None \<longrightarrow> assigned' v \<noteq> None)"
  using assms
proof (induction xs arbitrary: assigned stack)
  case (Cons x xs)
  show ?case
  proof (cases "x < n \<and> assigned x = None")
    case True
    then have p: "push_source n c x (assigned, stack) = (assigned(x \<mapsto> c), x # stack)" by (simp add: push_source_def)
    have "A x = None" "x \<notin> set (M @ stack)" using Cons.prems(1) True by (auto simp: collecting_def split: if_splits)
    then have "collecting P c A (M @ x # stack) (assigned(x \<mapsto> c))" using Cons.prems(1,3) True by (auto simp: collecting_def)
    from Cons.IH [OF this] show ?thesis using Cons.prems(2,3) p by (auto simp: fun_upd_def)
  next
    case False
    then have p: "push_source n c x (assigned, stack) = (assigned, stack)" by (auto simp: push_source_def)
    from Cons.IH [OF Cons.prems(1)] show ?thesis using Cons.prems(2,3) p False by auto
  qed
qed auto

lemma collect_members_ok:
  assumes "collect_members (reverse_adjacency adj) c assigned members stack = (assigned', members')"
    and "collecting (\<lambda>v. v < length adj \<and> (v, start) \<in> paths adj) c A (members @ stack) assigned"
    and "\<forall>v \<in> set members. \<forall>u. (u, v) \<in> edges adj \<longrightarrow> assigned u \<noteq> None"
  shows "collecting (\<lambda>v. v < length adj \<and> (v, start) \<in> paths adj) c A members' assigned' \<and> set (members @ stack) \<subseteq> set members' \<and>
    (\<forall>v \<in> set members'. \<forall>u. (u, v) \<in> edges adj \<longrightarrow> assigned' u \<noteq> None)"
  using assms
proof (induction "reverse_adjacency adj" c assigned members stack rule: collect_members.induct)
  case (1 c assigned members)
  then show ?case by simp
next
  case (2 c assigned members node stack)
  obtain a s where f: "fold (push_source (length adj) c) (reverse_adjacency adj ! node) (assigned, stack) = (a, s)" by fastforce
  have node: "node < length adj" "(node, start) \<in> paths adj" using 2(3) by (auto simp: collecting_def)
  have r: "set (reverse_adjacency adj ! node) = {u. (u, node) \<in> edges adj}" by (rule reverse_edges [OF node(1)])
  have pr: "x < length adj \<and> (x, start) \<in> paths adj" if "x \<in> set (reverse_adjacency adj ! node)" for x
    using that r node(2) by (auto simp: edges_def intro: converse_rtrancl_into_rtrancl)
  have p: "collecting (\<lambda>v. v < length adj \<and> (v, start) \<in> paths adj) c A ((members @ [node]) @ s) a" "set stack \<subseteq> set s"
      "\<forall>x \<in> set (reverse_adjacency adj ! node). x < length adj \<longrightarrow> a x \<noteq> None" "\<forall>v. assigned v \<noteq> None \<longrightarrow> a v \<noteq> None"
    using push_collecting [OF _ f, of "\<lambda>v. v < length adj \<and> (v, start) \<in> paths adj" A "members @ [node]"] 2(3) pr by auto
  have e: "\<forall>v \<in> set (members @ [node]). \<forall>u. (u, v) \<in> edges adj \<longrightarrow> a u \<noteq> None"
    using 2(4) p(3,4) r pr by auto
  show ?case using 2(1) [of a s, OF _ _ p(1) e] 2(2) f p(2) by auto
qed

section \<open>Components\<close>

definition components_ok :: "adjacency \<Rightarrow> nat list \<Rightarrow> (nat \<rightharpoonup> nat) \<Rightarrow> nat list list \<Rightarrow> bool" where
  "components_ok adj seen A comps \<longleftrightarrow>
     dom A = {x. x < length adj \<and> (\<exists>s \<in> set seen. same_scc adj x s)} \<and>
     (\<forall>v i. A v = Some i \<longrightarrow> i < length comps) \<and>
     (\<forall>i < length comps. sorted (comps ! i) \<and> distinct (comps ! i) \<and> comps ! i \<noteq> [] \<and> (\<forall>v. A v = Some i \<longleftrightarrow> v \<in> set (comps ! i)) \<and>
        (\<forall>u \<in> set (comps ! i). set (comps ! i) = {v. v < length adj \<and> same_scc adj u v}))"

lemma collect_scc:
  assumes "rev (finish_order adj) = seen @ start # rest" "components_ok adj seen A comps" "A start = None"
    and "collect_members (reverse_adjacency adj) c (A(start \<mapsto> c)) [] [start] = (A', members)"
  shows "distinct members" "set members = {v. v < length adj \<and> same_scc adj start v}" "A' = (\<lambda>v. if v \<in> set members then Some c else A v)"
proof -
  have "finish_order adj = rev (seen @ start # rest)" using assms(1) by (metis rev_rev_ident)
  then have fo: "finish_order adj = rev rest @ start # rev seen" by simp
  then have st: "start < length adj" using finish_order_facts(1) [of adj] by auto
  have dom: "dom A = {x. x < length adj \<and> (\<exists>s \<in> set seen. same_scc adj x s)}" using assms(2) by (simp add: components_ok_def)
  have "collecting (\<lambda>v. v < length adj \<and> (v, start) \<in> paths adj) c A ([] @ [start]) (A(start \<mapsto> c))"
    using st assms(3) by (auto simp: collecting_def)
  from collect_members_ok [OF assms(4) this] have m: "collecting (\<lambda>v. v < length adj \<and> (v, start) \<in> paths adj) c A members A'" "start \<in> set members"
      "\<And>u v. v \<in> set members \<Longrightarrow> (u, v) \<in> edges adj \<Longrightarrow> A' u \<noteq> None"
    by auto
  show "distinct members" "A' = (\<lambda>v. if v \<in> set members then Some c else A v)" using m(1) by (simp_all add: collecting_def)
  have closed: "A u = None" if "same_scc adj u start" for u
  proof (rule ccontr)
    assume "A u \<noteq> None"
    then obtain s where "s \<in> set seen" "same_scc adj u s" using dom by auto
    then have "start \<in> dom A" using dom st same_scc_equiv(3) [OF same_scc_equiv(2) [OF that]] by blast
    then show False using assms(3) by auto
  qed
  show "set members = {v. v < length adj \<and> same_scc adj start v}"
  proof (intro equalityI subsetI CollectI conjI)
    fix v assume v: "v \<in> set members"
    then show l: "v < length adj" using m(1) by (simp add: collecting_def)
    have p: "(v, start) \<in> paths adj" "A v = None" using v m(1) by (auto simp: collecting_def)
    obtain ys z zs where z: "finish_order adj = ys @ z # zs" "same_scc adj v z" "start \<in> set (ys @ [z])"
      using finish_order_facts(3) [OF l] p(1) by (auto simp: settled_def)
    have "z = start"
    proof (rule ccontr)
      assume "z \<noteq> start"
      then obtain a b where "ys = a @ start # b" using z(3) by (auto simp: in_set_conv_decomp)
      then have eq: "rev rest @ start # rev seen = a @ start # (b @ z # zs)" and d: "distinct (rev rest @ start # rev seen)" "distinct (a @ start # (b @ z # zs))"
        using z(1) fo finish_order_facts(2) [of adj] by simp_all
      have "start \<notin> set (rev rest)" "start \<notin> set (rev seen)" using d by simp_all
      from iffD1 [OF append_Cons_eq_iff [OF this] eq] have "rev seen = b @ z # zs" by simp
      then have "z \<in> set seen" by (metis in_set_conv_decomp set_rev)
      then have "A v \<noteq> None" using dom l z(2) by (auto simp: domIff [symmetric])
      then show False using p(2) by simp
    qed
    then show "same_scc adj start v" using z(2) same_scc_equiv by blast
  next
    fix v assume "v \<in> {v. v < length adj \<and> same_scc adj start v}"
    then have "(v, start) \<in> paths adj" "same_scc adj v start" by (auto simp: same_scc_def)
    then show "v \<in> set members"
    proof (induction rule: converse_rtrancl_induct)
      case (step u w)
      then have "same_scc adj w start" by (auto simp: same_scc_def intro: rtrancl_into_rtrancl)
      then have "w \<in> set members" by (rule step.IH)
      then have "A' u \<noteq> None" using m(3) step.hyps(1) by blast
      then show ?case using closed [OF step.prems] m(1) by (auto simp: collecting_def split: if_splits)
    qed (use m(2) in simp)
  qed
qed

lemma component_step_ok:
  assumes "rev (finish_order adj) = seen @ start # rest" "components_ok adj seen A comps" "component_step (reverse_adjacency adj) start (A, comps) = (A', comps')"
  shows "components_ok adj (seen @ [start]) A' comps'"
proof (cases "A start")
  case (Some i)
  have "start < length adj \<and> (\<exists>s \<in> set seen. same_scc adj start s)" using Some assms(2) by (auto simp: components_ok_def)
  then have "{x. x < length adj \<and> (\<exists>s \<in> set (seen @ [start]). same_scc adj x s)} = {x. x < length adj \<and> (\<exists>s \<in> set seen. same_scc adj x s)}"
    using same_scc_equiv(3) by (auto; blast)
  moreover have "A' = A" "comps' = comps" using assms(3) Some by (simp_all add: component_step_def)
  ultimately show ?thesis using assms(2) unfolding components_ok_def by metis
next
  case None
  define c where "c = length comps"
  obtain members where col: "collect_members (reverse_adjacency adj) c (A(start \<mapsto> c)) [] [start] = (A', members)" and comps': "comps' = comps @ [sort members]"
    using assms(3) None by (auto simp: component_step_def Let_def c_def split: prod.splits)
  note m = collect_scc [OF assms(1,2) None col]
  have ok: "dom A = {x. x < length adj \<and> (\<exists>s \<in> set seen. same_scc adj x s)}" "\<And>v i. A v = Some i \<Longrightarrow> i < c"
    "\<And>i. i < c \<Longrightarrow> sorted (comps ! i) \<and> distinct (comps ! i) \<and> comps ! i \<noteq> [] \<and> (\<forall>v. A v = Some i \<longleftrightarrow> v \<in> set (comps ! i)) \<and>
        (\<forall>u \<in> set (comps ! i). set (comps ! i) = {v. v < length adj \<and> same_scc adj u v})"
    using assms(2) by (auto simp: components_ok_def c_def)
  have "start \<in> set (rev (finish_order adj))" using assms(1) by simp
  then have sl: "start < length adj" using finish_order_facts(1) [of adj] by simp
  have fresh: "A v = None" if "v \<in> set members" for v
  proof (rule ccontr)
    assume "A v \<noteq> None"
    then obtain s where "s \<in> set seen" "same_scc adj v s" using ok(1) by auto
    moreover have "same_scc adj start v" using that m(2) by simp
    ultimately have "start \<in> dom A" using ok(1) sl same_scc_equiv(3) by blast
    then show False using None by auto
  qed
  have st: "start \<in> set members" using m(2) same_scc_equiv(1) sl by simp
  have "dom A' = {x. x < length adj \<and> (\<exists>s \<in> set (seen @ [start]). same_scc adj x s)}"
    using ok(1) m(2,3) same_scc_equiv(2) by (auto simp: dom_def split: if_splits)
  moreover have scc: "set members = {v. v < length adj \<and> same_scc adj u v}" if "u \<in> set members" for u
  proof -
    have "same_scc adj start u" using that m(2) by simp
    then have "same_scc adj start v \<longleftrightarrow> same_scc adj u v" for v by (meson same_scc_equiv(2,3))
    then show ?thesis using m(2) by simp
  qed
  moreover have "A' v = Some i \<Longrightarrow> i < length comps'" for v i using ok(2) m(3) by (auto simp: comps' c_def less_SucI split: if_splits)
  moreover have "sorted (comps' ! i) \<and> distinct (comps' ! i) \<and> comps' ! i \<noteq> [] \<and> (\<forall>v. A' v = Some i \<longleftrightarrow> v \<in> set (comps' ! i)) \<and>
        (\<forall>u \<in> set (comps' ! i). set (comps' ! i) = {v. v < length adj \<and> same_scc adj u v})" if i: "i < length comps'" for i
  proof (cases "i < c")
    case True
    have "A' v = Some i \<longleftrightarrow> A v = Some i" for v using True fresh [of v] m(3) by auto
    then show ?thesis using ok(3) [OF True] True by (simp add: comps' nth_append c_def)
  next
    case False
    then have e: "i = c" "comps' ! c = sort members" using i by (simp_all add: comps' nth_append c_def)
    have "A' v = Some c \<longleftrightarrow> v \<in> set members" for v using m(3) ok(2) [of v c] by auto
    moreover have "sort members \<noteq> []" using st by (metis empty_iff empty_set set_sort)
    ultimately show ?thesis using m(1) scc unfolding e by simp
  qed
  ultimately show ?thesis unfolding components_ok_def by blast
qed

text \<open>The components are the classes of mutual reachability.\<close>

lemma strong_components_ok:
  assumes "strong_components adj = (A, comps)"
  shows "dom A = {..<length adj}" "\<And>u v. u < length adj \<Longrightarrow> v < length adj \<Longrightarrow> A u = A v \<longleftrightarrow> same_scc adj u v"
    "\<And>u i. A u = Some i \<longleftrightarrow> i < length comps \<and> u \<in> set (comps ! i)" "\<And>i. i < length comps \<Longrightarrow> sorted (comps ! i) \<and> distinct (comps ! i) \<and> comps ! i \<noteq> []"
proof -
  have "components_ok adj (seen @ starts) A' comps'"
    if "rev (finish_order adj) = seen @ starts @ rest" "components_ok adj seen A0 comps0" "fold (component_step (reverse_adjacency adj)) starts (A0, comps0) = (A', comps')"
    for seen starts rest A0 comps0 A' comps'
    using that
  proof (induction starts arbitrary: seen A0 comps0)
    case (Cons start starts)
    obtain A1 comps1 where s: "component_step (reverse_adjacency adj) start (A0, comps0) = (A1, comps1)" by fastforce
    have "components_ok adj (seen @ [start]) A1 comps1" by (rule component_step_ok [OF _ Cons.prems(2) s]) (use Cons.prems(1) in simp)
    then show ?case using Cons.IH [of "seen @ [start]" A1 comps1] Cons.prems(1,3) s by simp
  qed simp
  from this [of "[]" "rev (finish_order adj)" "[]" Map.empty "[]" A comps]
  have "components_ok adj [] Map.empty [] \<Longrightarrow> components_ok adj (rev (finish_order adj)) A comps" using assms by (simp add: strong_components_def)
  then have ok: "components_ok adj (rev (finish_order adj)) A comps" by (simp add: components_ok_def [of adj "[]"])
  then have d: "dom A = {x. x < length adj \<and> (\<exists>s < length adj. same_scc adj x s)}" using finish_order_facts(1) [of adj] by (auto simp: components_ok_def)
  show dom: "dom A = {..<length adj}" unfolding d using same_scc_equiv(1) by blast
  have cl: "A u = Some i \<longleftrightarrow> i < length comps \<and> u \<in> set (comps ! i)" for u i using ok unfolding components_ok_def by blast
  show "A u = Some i \<longleftrightarrow> i < length comps \<and> u \<in> set (comps ! i)" for u i by (rule cl)
  show "sorted (comps ! i) \<and> distinct (comps ! i) \<and> comps ! i \<noteq> []" if "i < length comps" for i using ok that unfolding components_ok_def by blast
  show "A u = A v \<longleftrightarrow> same_scc adj u v" if uv: "u < length adj" "v < length adj" for u v
  proof -
    have "u \<in> dom A" using dom uv(1) by simp
    then obtain i where i: "A u = Some i" by blast
    then have "set (comps ! i) = {v. v < length adj \<and> same_scc adj u v}" using ok cl [of u i] unfolding components_ok_def by blast
    then have "v \<in> set (comps ! i) \<longleftrightarrow> same_scc adj u v" using uv(2) by simp
    moreover have "A u = A v \<longleftrightarrow> A v = Some i" using i by auto
    ultimately show ?thesis using cl [of u i] cl [of v i] i by simp
  qed
qed

text \<open>An edge is inside a cyclic component exactly when its target leads back to its source.\<close>

lemma cyclic_edge:
  assumes "strong_components adj = (A, comps)" "(u, v) \<in> edges adj"
  shows "A u = A v \<and> (\<exists>i. A u = Some i \<and> is_cyclic adj (comps ! i)) \<longleftrightarrow> (v, u) \<in> paths adj"
proof -
  have e: "u < length adj" "v < length adj" "v \<in> set (adj ! u)" using assms(2) by (auto simp: edges_def)
  note ok = strong_components_ok [OF assms(1)]
  have eq: "A u = A v \<longleftrightarrow> (v, u) \<in> paths adj" using ok(2) [OF e(1,2)] assms(2) by (auto simp: same_scc_def)
  have "\<exists>i. A u = Some i \<and> is_cyclic adj (comps ! i)" if s: "A u = A v"
  proof -
    have "u \<in> dom A" using ok(1) e(1) by simp
    then obtain i where i: "A u = Some i" by blast
    then have m: "i < length comps" "u \<in> set (comps ! i)" "v \<in> set (comps ! i)" using ok(3) [of u i] ok(3) [of v i] s by auto
    show ?thesis
    proof (cases "length (comps ! i) > 1")
      case False
      then obtain w where "comps ! i = [w]" using m(2) by (cases "comps ! i") auto
      then show ?thesis using m e(3) i by (auto simp: is_cyclic_def)
    qed (use i in \<open>simp add: is_cyclic_def\<close>)
  qed
  then show ?thesis using eq by blast
qed

text \<open>Two vertices are in one cyclic component exactly when each leads to the other by at least one edge.\<close>

lemma cyclic_pair:
  assumes "strong_components adj = (A, comps)" "u < length adj" "v < length adj"
  shows "(\<exists>i < length comps. is_cyclic adj (comps ! i) \<and> u \<in> set (comps ! i) \<and> v \<in> set (comps ! i)) \<longleftrightarrow> (u, v) \<in> (edges adj)\<^sup>+ \<and> (v, u) \<in> (edges adj)\<^sup>+"
proof -
  note ok = strong_components_ok [OF assms(1)]
  have bound: "w < length adj" if "i < length comps" "w \<in> set (comps ! i)" for i w using ok(1,3) that by (metis domI lessThan_iff)
  have scc: "same_scc adj w z" if "i < length comps" "w \<in> set (comps ! i)" "z \<in> set (comps ! i)" for i w z
    using ok(2) [OF bound bound] ok(3) that by metis
  have proper: "(w, z) \<in> (edges adj)\<^sup>+" if "same_scc adj w z" "w \<noteq> z" for w z using that by (auto simp: same_scc_def rtrancl_eq_or_trancl)
  have loop: "(u, u) \<in> (edges adj)\<^sup>+" if i: "i < length comps" "is_cyclic adj (comps ! i)" "u \<in> set (comps ! i)" for i
  proof (cases "\<exists>w \<in> set (comps ! i). w \<noteq> u")
    case True
    then obtain w where w: "w \<in> set (comps ! i)" "w \<noteq> u" by blast
    have "(u, w) \<in> (edges adj)\<^sup>+" "(w, u) \<in> (edges adj)\<^sup>+" using proper [OF scc [OF i(1,3) w(1)]] proper [OF scc [OF i(1) w(1) i(3)]] w(2) by auto
    then show ?thesis by (rule trancl_trans)
  next
    case False
    then have s: "set (comps ! i) = {u}" using i(3) by blast
    have d: "distinct (comps ! i)" using ok(4) [OF i(1)] by blast
    have "length (comps ! i) = 1" using distinct_card [OF d] s by simp
    then have "comps ! i = [u]" using s by (auto simp: length_Suc_conv)
    then show ?thesis using i(2) assms(2) by (auto simp: is_cyclic_def edges_def)
  qed
  show ?thesis
  proof
    assume "\<exists>i < length comps. is_cyclic adj (comps ! i) \<and> u \<in> set (comps ! i) \<and> v \<in> set (comps ! i)"
    then obtain i where i: "i < length comps" "is_cyclic adj (comps ! i)" "u \<in> set (comps ! i)" "v \<in> set (comps ! i)" by blast
    then show "(u, v) \<in> (edges adj)\<^sup>+ \<and> (v, u) \<in> (edges adj)\<^sup>+" using loop [OF i(1-3)] proper [OF scc [OF i(1,3,4)]] proper [OF scc [OF i(1,4,3)]] by (cases "u = v") auto
  next
    assume uv: "(u, v) \<in> (edges adj)\<^sup>+ \<and> (v, u) \<in> (edges adj)\<^sup>+"
    then obtain w where w: "(u, w) \<in> edges adj" "(w, v) \<in> paths adj" by (metis tranclD)
    then have "(w, u) \<in> paths adj" using uv by (meson rtrancl_trans trancl_into_rtrancl)
    then obtain i where i: "A u = Some i" "is_cyclic adj (comps ! i)" using cyclic_edge [OF assms(1) w(1)] by blast
    have "A v = Some i" using ok(2) [OF assms(2,3)] uv i(1) by (auto simp: same_scc_def dest!: trancl_into_rtrancl)
    then show "\<exists>i < length comps. is_cyclic adj (comps ! i) \<and> u \<in> set (comps ! i) \<and> v \<in> set (comps ! i)" using i ok(3) by metis
  qed
qed

end
