(* ===== verification/Metadata_Graph.thy ===== *)
theory Metadata_Graph
  imports Metadata_Nodes Component_Search
begin

text \<open>
  Package \<open>metadata\<close>, the graph of types (\<open>recursive.go\<close>): components, depth, the final nodes and parameters, and \<open>Normalize\<close>. A Go map is iterated in no fixed order;
  where the code sorts the result or only collects a set, the model uses the sorted order.
\<close>

section \<open>Components and depth\<close>

definition index_by_name :: "prov_node list \<Rightarrow> gostring \<Rightarrow> nat" where
  "index_by_name nodes name =
     (case map_of (rev (zip (map nd_name nodes) [0..<length nodes])) name of Some i \<Rightarrow> i | None \<Rightarrow> 0)"

definition graph_adjacency :: "prov_node list \<Rightarrow> adjacency" where
  "graph_adjacency nodes =
     map (\<lambda>n. map (\<lambda>f. index_by_name nodes (rf_targetType (pf_reference f))) (filter (\<lambda>f. rf_kind (pf_reference f) \<noteq> KScalar) (nd_fields n))) nodes"

definition component_adjacency :: "adjacency \<Rightarrow> (nat \<rightharpoonup> nat) \<Rightarrow> nat \<Rightarrow> adjacency" where
  "component_adjacency adj componentByNode k =
     map (\<lambda>c. sort (remdups (filter (\<lambda>t. t \<noteq> c)
       (concat (map (\<lambda>from. if componentByNode from = Some c then map (\<lambda>to. the (componentByNode to)) (adj ! from) else []) [0..<length adj])))))
       [0..<k]"

function reach_loop :: "adjacency \<Rightarrow> nat list \<Rightarrow> nat list \<Rightarrow> nat list" where
  "reach_loop cadj reachable [] = reachable"
| "reach_loop cadj reachable (c # stack) =
     (if c \<in> set reachable \<or> c \<ge> length cadj then reach_loop cadj reachable stack
      else reach_loop cadj (c # reachable) (rev (cadj ! c) @ stack))"
  by pat_completeness auto
termination
proof (relation "measures [\<lambda>(cadj, reachable, stack). card ({..<length cadj} - set reachable), \<lambda>(cadj, reachable, stack). length stack]", goal_cases)
  case (3 cadj reachable c stack)
  then have "c \<in> {..<length cadj} - set reachable" "c \<notin> {..<length cadj} - set (c # reachable)" by simp_all
  then have "{..<length cadj} - set (c # reachable) \<subset> {..<length cadj} - set reachable" by (metis Diff_mono psubsetI set_subset_Cons subset_refl)
  then have "card ({..<length cadj} - set (c # reachable)) < card ({..<length cadj} - set reachable)" by (rule psubset_card_mono [rotated]) simp
  then show ?case by simp
qed auto

definition indegrees :: "adjacency \<Rightarrow> nat list \<Rightarrow> nat \<Rightarrow> int" where
  "indegrees cadj reachable target =
     (if target \<in> set reachable then int (length (filter (\<lambda>source. target \<in> set (cadj ! source)) reachable)) else 0)"

definition relax :: "nat list \<Rightarrow> nat \<Rightarrow> nat \<Rightarrow> (nat \<Rightarrow> nat) \<times> (nat \<Rightarrow> int) \<times> nat list \<Rightarrow> (nat \<Rightarrow> nat) \<times> (nat \<Rightarrow> int) \<times> nat list" where
  "relax reachable sourceDepth target st =
     (case st of (depth, indegree, queue) \<Rightarrow>
      if target \<notin> set reachable then st
      else (if depth target < sourceDepth + 1 then depth(target := sourceDepth + 1) else depth,
            indegree(target := indegree target - 1),
            if indegree target - 1 = 0 then queue @ [target] else queue))"

definition positive :: "nat list \<Rightarrow> (nat \<Rightarrow> int) \<Rightarrow> nat set" where
  "positive reachable indegree = {c \<in> set reachable. indegree c > 0}"

lemma relax_measure:
  "fold (relax reachable d) targets (depth, indegree, queue) = (depth', indegree', queue') \<Longrightarrow>
     card (positive reachable indegree') < card (positive reachable indegree) \<or> card (positive reachable indegree') = card (positive reachable indegree) \<and> queue' = queue"
proof (induction targets arbitrary: depth indegree queue)
  case (Cons t ts)
  let ?i = "indegree(t := indegree t - 1)"
  show ?case
  proof (cases "t \<in> set reachable")
    case True
    obtain dp q where r: "relax reachable d t (depth, indegree, queue) = (dp, ?i, q)" and q: "q = (if indegree t - 1 = 0 then queue @ [t] else queue)"
      using True by (simp add: relax_def)
    have f: "finite (positive reachable indegree)" by (simp add: positive_def)
    have sub: "positive reachable ?i \<subseteq> positive reachable indegree" by (auto simp: positive_def)
    note ih = Cons.IH [of dp ?i q] Cons.prems
    show ?thesis
    proof (cases "indegree t = 1")
      case True
      then have "t \<in> positive reachable indegree" "t \<notin> positive reachable ?i" using \<open>t \<in> set reachable\<close> by (auto simp: positive_def)
      then have "card (positive reachable ?i) < card (positive reachable indegree)" using sub f by (metis psubsetI psubset_card_mono)
      then show ?thesis using ih by (auto simp: r simp del: fun_upd_apply)
    next
      case False
      then have "q = queue" "card (positive reachable ?i) \<le> card (positive reachable indegree)" using q card_mono [OF f sub] by simp_all
      then show ?thesis using ih by (auto simp: r simp del: fun_upd_apply)
    qed
  next
    case False
    then show ?thesis using Cons by (simp add: relax_def)
  qed
qed simp

definition depth_step :: "adjacency \<Rightarrow> nat list \<Rightarrow> nat \<Rightarrow> (nat \<Rightarrow> nat) \<Rightarrow> (nat \<Rightarrow> int) \<Rightarrow> nat \<Rightarrow> nat list \<Rightarrow> nat \<times> (nat \<Rightarrow> nat) \<times> (nat \<Rightarrow> int) \<times> nat list" where
  "depth_step cadj reachable maximumDepth depth indegree source queue =
     (let depth = (if depth source = 0 then depth(source := 1) else depth);
          maximumDepth = (if depth source > maximumDepth then depth source else maximumDepth) in
      (maximumDepth, fold (relax reachable (depth source)) (cadj ! source) (depth, indegree, queue)))"

function depth_loop :: "adjacency \<Rightarrow> nat list \<Rightarrow> nat \<Rightarrow> (nat \<Rightarrow> nat) \<Rightarrow> (nat \<Rightarrow> int) \<Rightarrow> nat list \<Rightarrow> nat" where
  "depth_loop cadj reachable maximumDepth depth indegree [] = maximumDepth"
| "depth_loop cadj reachable maximumDepth depth indegree (source # queue) =
     (case depth_step cadj reachable maximumDepth depth indegree source queue of
        (maximumDepth', depth', indegree', queue') \<Rightarrow> depth_loop cadj reachable maximumDepth' depth' indegree' queue')"
  by pat_completeness auto
termination
proof (relation "measures [\<lambda>(cadj, reachable, m, d, i, q). card (positive reachable i), \<lambda>(cadj, reachable, m, d, i, q). length q]", goal_cases)
  case (2 cadj reachable m d i source queue m' y d' z i' q')
  then have "fold (relax reachable (if d source = 0 then 1 else d source)) (cadj ! source) (if d source = 0 then d(source := 1) else d, i, queue) = (d', i', q')"
    by (auto simp: depth_step_def Let_def split: if_splits)
  from relax_measure [OF this] show ?case by auto
qed simp

definition root_components :: "prov_node list \<Rightarrow> (nat \<rightharpoonup> nat) \<Rightarrow> nat \<Rightarrow> gostring list \<Rightarrow> nat list" where
  "root_components nodes componentByNode k roots =
     (if roots = [] then [0..<k] else map (\<lambda>name. the (componentByNode (index_by_name nodes name))) roots)"

definition maximum_depth :: "adjacency \<Rightarrow> nat list \<Rightarrow> nat" where
  "maximum_depth cadj rootComponents =
     (let reachable = reach_loop cadj [] (rev rootComponents);
          indegree = indegrees cadj reachable;
          queue = sort (filter (\<lambda>c. indegree c = 0) reachable);
          depth = (\<lambda>c. if c \<in> set rootComponents then 1 else 0) in
      depth_loop cadj reachable 0 depth indegree queue)"

record md_components =
  cp_componentByNode :: "nat \<rightharpoonup> nat"
  cp_nodesByComponent :: "nat list list"
  cp_cyclicComponents :: "nat \<Rightarrow> bool"
  cp_maximumDepth :: nat

definition graphComponents :: "prov_node list \<Rightarrow> gostring list \<Rightarrow> int \<Rightarrow> reject_code + md_components" where
  "graphComponents nodes roots maxDepth =
     (let adj = graph_adjacency nodes;
          (componentByNode, nodesByComponent) = strong_components adj;
          cadj = component_adjacency adj componentByNode (length nodesByComponent);
          maximumDepth = maximum_depth cadj (root_components nodes componentByNode (length nodesByComponent) roots) in
      bindE (fail_if (int maximumDepth > maxDepth) DepthLimit) (\<lambda>_.
      Inr \<lparr>cp_componentByNode = componentByNode, cp_nodesByComponent = nodesByComponent,
           cp_cyclicComponents = (\<lambda>c. c < length nodesByComponent \<and> is_cyclic adj (nodesByComponent ! c)), cp_maximumDepth = maximumDepth\<rparr>))"

section \<open>The normalized graph\<close>

record md_reference =
  Ref_Kind :: ref_kind
  Ref_InternalType :: gostring
  Ref_TargetType :: gostring
  Ref_Cyclic :: bool

record metadata_field =
  mf_field :: prov_field
  mf_Reference :: md_reference

record type_node =
  tn_Name :: gostring
  tn_Kind :: ref_kind
  tn_NucLength :: int
  tn_UcLength :: int
  tn_Timestamp :: gostring
  tn_Fields :: "metadata_field list"

record parameter_reference =
  pm_Kind :: param_kind
  pm_InternalType :: gostring
  pm_TargetType :: gostring
  pm_Cyclic :: bool

record md_parameter =
  mp_row :: parameter_row
  mp_Reference :: parameter_reference

record md_cycle =
  cy_ID :: gostring
  cy_TypeNames :: "gostring list"

record md_statistics =
  RowCount :: nat
  NodeCount :: nat
  EdgeCount :: nat
  PropertyCount :: nat
  ByteCount :: nat
  MaximumDepth :: nat

record md_graph =
  gp_Version :: nat
  gp_FunctionIdentity :: "function_identity option"
  gp_Nodes :: "(gostring \<times> type_node) list"
  gp_Parameters :: "md_parameter list"
  gp_RootTypeNames :: "gostring list"
  gp_Cycles :: "md_cycle list"
  gp_Limits :: md_limits
  gp_Statistics :: md_statistics

definition cyclic_at :: "md_components \<Rightarrow> nat \<Rightarrow> bool" where
  "cyclic_at cmp i \<longleftrightarrow> (case cp_componentByNode cmp i of None \<Rightarrow> False | Some c \<Rightarrow> cp_cyclicComponents cmp c)"

definition final_reference :: "prov_node list \<Rightarrow> md_components \<Rightarrow> nat \<Rightarrow> prov_reference \<Rightarrow> md_reference" where
  "final_reference nodes cmp nodeIndex r =
     (if rf_kind r = KScalar then \<lparr>Ref_Kind = KScalar, Ref_InternalType = rf_internalType r, Ref_TargetType = [], Ref_Cyclic = False\<rparr>
      else let targetIndex = index_by_name nodes (rf_targetType r) in
        \<lparr>Ref_Kind = rf_kind r, Ref_InternalType = [], Ref_TargetType = rf_targetType r,
         Ref_Cyclic = (cp_componentByNode cmp nodeIndex = cp_componentByNode cmp targetIndex \<and> cyclic_at cmp nodeIndex)\<rparr>)"

definition final_node :: "prov_node list \<Rightarrow> md_components \<Rightarrow> nat \<Rightarrow> prov_node \<Rightarrow> type_node" where
  "final_node nodes cmp nodeIndex node =
     \<lparr>tn_Name = nd_name node, tn_Kind = nd_kind node, tn_NucLength = nd_nucLength node, tn_UcLength = nd_ucLength node, tn_Timestamp = nd_timestamp node,
      tn_Fields = map (\<lambda>f. \<lparr>mf_field = f, mf_Reference = final_reference nodes cmp nodeIndex (pf_reference f)\<rparr>) (nd_fields node)\<rparr>"

text \<open>A Go map: the last node of a name wins.\<close>

definition finalNodes :: "prov_node list \<Rightarrow> md_components \<Rightarrow> (gostring \<times> type_node) list" where
  "finalNodes nodes cmp = rev (map (\<lambda>i. (nd_name (nodes ! i), final_node nodes cmp i (nodes ! i))) [0..<length nodes])"

definition final_parameter :: "prov_node list \<Rightarrow> md_components \<Rightarrow> prov_parameter \<Rightarrow> md_parameter" where
  "final_parameter nodes cmp p =
     (let r = pv_reference p in
      \<lparr>mp_row = pv_row p,
       mp_Reference =
         (case pp_kind r of
            PException \<Rightarrow> \<lparr>pm_Kind = PException, pm_InternalType = [], pm_TargetType = [], pm_Cyclic = False\<rparr>
          | PScalarTable \<Rightarrow> \<lparr>pm_Kind = PScalarTable, pm_InternalType = pp_internalType r, pm_TargetType = [], pm_Cyclic = False\<rparr>
          | PScalarRef \<Rightarrow> \<lparr>pm_Kind = PScalarRef, pm_InternalType = pp_internalType r, pm_TargetType = [], pm_Cyclic = False\<rparr>
          | k \<Rightarrow> \<lparr>pm_Kind = k, pm_InternalType = [], pm_TargetType = pp_targetType r, pm_Cyclic = cyclic_at cmp (index_by_name nodes (pp_targetType r))\<rparr>)\<rparr>)"

definition finalParameters :: "prov_parameter list \<Rightarrow> prov_node list \<Rightarrow> md_components \<Rightarrow> md_parameter list" where
  "finalParameters vs nodes cmp = map (final_parameter nodes cmp) vs"

definition finalCycles :: "prov_node list \<Rightarrow> md_components \<Rightarrow> md_cycle list" where
  "finalCycles nodes cmp =
     (let cyclic = filter (cp_cyclicComponents cmp) [0..<length (cp_nodesByComponent cmp)] in
      map (\<lambda>k. \<lparr>cy_ID = gostr ''cycle:'' @ decimal k,
                cy_TypeNames = map (\<lambda>i. nd_name (nodes ! i)) (cp_nodesByComponent cmp ! (cyclic ! k))\<rparr>) [0..<length cyclic])"

fun add_roots :: "gostring list \<Rightarrow> gostring list \<Rightarrow> gostring list" where
  "add_roots roots [] = roots"
| "add_roots roots (name # names) = add_roots (if name \<in> set roots then roots else roots @ [name]) names"

definition graph_roots :: "prov_node list \<Rightarrow> gostring list \<Rightarrow> gostring list \<Rightarrow> reject_code + gostring list" where
  "graph_roots nodes rootTypeNames paramRoots =
     bindE (fail_if (\<exists>name \<in> set rootTypeNames. name \<notin> set (map nd_name nodes)) ForeignRoot) (\<lambda>_.
     let roots = add_roots (add_roots [] rootTypeNames) paramRoots in
     Inr (if roots = [] then map nd_name nodes else roots))"

text \<open>The last loop: the names that are reached from the roots.\<close>

definition node_targets :: "prov_node list \<Rightarrow> gostring \<Rightarrow> gostring list" where
  "node_targets nodes name =
     (case node_by_name nodes name of
        None \<Rightarrow> []
      | Some n \<Rightarrow> map (rf_targetType \<circ> pf_reference) (filter (\<lambda>f. rf_kind (pf_reference f) \<noteq> KScalar) (nd_fields n)))"

function reach_names :: "prov_node list \<Rightarrow> gostring list \<Rightarrow> gostring list \<Rightarrow> gostring list" where
  "reach_names nodes reachable [] = reachable"
| "reach_names nodes reachable (name # stack) =
     (if name \<in> set reachable then reach_names nodes reachable stack
      else reach_names nodes (name # reachable) (rev (node_targets nodes name) @ stack))"
  by pat_completeness auto
termination
proof (relation "measures [\<lambda>(nodes, reachable, stack). card (set (map nd_name nodes) - set reachable), \<lambda>(nodes, reachable, stack). length stack]", goal_cases)
  case (3 nodes reachable name stack)
  show ?case
  proof (cases "name \<in> set (map nd_name nodes)")
    case True
    then have "set (map nd_name nodes) - set (name # reachable) \<subset> set (map nd_name nodes) - set reachable" using 3 by auto
    then have "card (set (map nd_name nodes) - set (name # reachable)) < card (set (map nd_name nodes) - set reachable)" by (rule psubset_card_mono [rotated]) simp
    then show ?thesis by simp
  next
    case False
    then have "node_targets nodes name = []" by (auto simp: node_targets_def node_by_name_def map_of_eq_None_iff split: option.split dest!: map_of_SomeD)
    moreover have "set (map nd_name nodes) - set (name # reachable) = set (map nd_name nodes) - set reachable" using False by auto
    ultimately show ?thesis by (simp del: list.set)
  qed
qed auto

record md_options =
  op_Limits :: "md_limits option"
  op_RootTypeNames :: "gostring list"

definition present_keys :: "md_input \<Rightarrow> gostring list" where
  "present_keys inp =
     map fst (filter snd [(gostr ''FUNCTIONNAMES'', in_FunctionNames inp \<noteq> None), (gostr ''DATATYPESCONT'', True), (gostr ''INDIRECTTYPES'', True),
       (gostr ''PARAMETERS'', in_Parameters inp \<noteq> None)])"

definition snapshot_input :: "md_input \<Rightarrow> (function_identity option \<times> type_row list \<times> indirect_row list \<times> parameter_row list) budgeted" where
  "snapshot_input inp =
     se_bind (each_row (\<lambda>k. addBytes (length k)) (present_keys inp)) (\<lambda>_.
     se_bind (addProperties (length (present_keys inp))) (\<lambda>_.
     se_bind (snapshotFunctionIdentity (in_FunctionNames inp)) (\<lambda>functionIdentity.
     se_bind (snapshotTypeRows (in_DataTypesCont inp)) (\<lambda>typeRows.
     se_bind (snapshotIndirectRows (in_IndirectTypes inp)) (\<lambda>indirectRows.
     se_bind (snapshotParameterRows (in_Parameters inp)) (\<lambda>parameterRows.
     se_return (functionIdentity, typeRows, indirectRows, parameterRows)))))))"

definition Normalize :: "md_input \<Rightarrow> md_options option \<Rightarrow> reject_code + md_graph" where
  "Normalize inp opts =
     (let optLimits = (case opts of None \<Rightarrow> None | Some o' \<Rightarrow> op_Limits o'); rootTypeNames = (case opts of None \<Rightarrow> [] | Some o' \<Rightarrow> op_RootTypeNames o') in
      bindE (md_resolveLimits optLimits) (\<lambda>limits.
      bindE (snapshot_input inp \<lparr>bg_limits = limits, bg_rows = 0, bg_properties = 0, bg_bytes = 0\<rparr>) (\<lambda>((functionIdentity, typeRows, indirectRows, parameterRows), b).
      bindE (validateFunctionIdentity functionIdentity (in_FunctionNames inp \<noteq> None) parameterRows) (\<lambda>_.
      bindE (buildNodes typeRows limits) (\<lambda>built.
      let provisionalNodes = refineTableNodeKinds built parameterRows indirectRows in
      bindE (validateNodeTargets provisionalNodes) (\<lambda>_.
      bindE (provisionalParameters parameterRows indirectRows provisionalNodes limits) (\<lambda>(paramValues, paramRoots, totalEdges).
      bindE (graph_roots provisionalNodes rootTypeNames paramRoots) (\<lambda>roots.
      bindE (graphComponents provisionalNodes roots (MaxDepth limits)) (\<lambda>cmp.
      bindE (fail_if (length (reach_names provisionalNodes [] (rev roots)) \<noteq> length provisionalNodes) ForeignTypeNode) (\<lambda>_.
      Inr \<lparr>gp_Version = 1, gp_FunctionIdentity = functionIdentity, gp_Nodes = finalNodes provisionalNodes cmp,
           gp_Parameters = finalParameters paramValues provisionalNodes cmp, gp_RootTypeNames = roots, gp_Cycles = finalCycles provisionalNodes cmp,
           gp_Limits = limits,
           gp_Statistics = \<lparr>RowCount = bg_rows b, NodeCount = card (set (map nd_name provisionalNodes)), EdgeCount = totalEdges,
             PropertyCount = bg_properties b, ByteCount = bg_bytes b, MaximumDepth = cp_maximumDepth cmp\<rparr>\<rparr>))))))))))"

end
