(* ===== verification/Metadata_Normalize.thy ===== *)
theory Metadata_Normalize
  imports Metadata_Graph
begin

text \<open>
  Properties of \<open>Normalize\<close>: the graph it returns is closed and within its limits, its cycle flags and cycles are those of the type graph, and the geometry check of a
  row wraps around in 64 bits.
\<close>

section \<open>Names of nodes\<close>

lemma group_rows_names:
  assumes "group_rows closed cur rows = Inr gs" "\<And>n rs. cur = Some (n, rs) \<Longrightarrow> n \<notin> set closed \<and> rs \<noteq> []"
  shows "distinct (map fst gs) \<and> set (map fst gs) \<inter> set closed = {} \<and> (\<forall>(n, rs) \<in> set gs. rs \<noteq> [])"
  using assms
proof (induction closed cur rows arbitrary: gs rule: group_rows.induct)
  case (1 closed cur)
  then show ?case by (auto split: option.splits)
next
  case (2 closed row rows)
  have "tr_typeName row \<notin> set closed" "group_rows closed (Some (tr_typeName row, [row])) rows = Inr gs" using 2(2) by (auto split: if_splits)
  from 2(1) [OF this] this(1) show ?case by simp
next
  case (3 closed name rs row rows)
  have n: "name \<notin> set closed" "rs \<noteq> []" using 3(4) by auto
  show ?case
  proof (cases "name = tr_typeName row")
    case True
    then show ?thesis using 3(1) [OF True] 3(3) n by simp
  next
    case False
    obtain gs' where g: "tr_typeName row \<notin> set (name # closed)" "group_rows (name # closed) (Some (tr_typeName row, [row])) rows = Inr gs'" "gs = (name, rs) # gs'"
      using 3(3) False by (auto simp: bindE_Inr_iff split: if_splits)
    from 3(2) [OF False g(1,2)] g(1,3) n show ?thesis by auto
  qed
qed

lemma build_node_name: "build_node name first rows = Inr n \<Longrightarrow> nd_name n = name"
  by (auto simp: build_node_def Let_def bindE_Inr_iff)

lemma build_groups_names: "build_groups limits k gs = Inr nodes \<Longrightarrow> map nd_name nodes = map fst gs"
  by (induction limits k gs arbitrary: nodes rule: build_groups.induct) (auto simp: Let_def bindE_Inr_iff dest!: build_node_name)

lemma build_groups_edges:
  "build_groups limits k gs = Inr nodes \<Longrightarrow> int k \<le> MaxEdges limits \<Longrightarrow> int (k + sum_list (map (edge_count \<circ> nd_fields) nodes)) \<le> MaxEdges limits"
proof (induction limits k gs arbitrary: nodes rule: build_groups.induct)
  case (2 limits k name rows gs)
  obtain node nodes' where n: "build_node name (hd rows) rows = Inr node" "\<not> int (k + edge_count (nd_fields node)) > MaxEdges limits"
      "build_groups limits (k + edge_count (nd_fields node)) gs = Inr nodes'" "nodes = node # nodes'"
    using 2(2) by (auto simp: Let_def bindE_Inr_iff)
  show ?case using 2(1) [OF refl n(3)] n(2,4) by (simp add: add.assoc)
qed auto

lemma refine_facts:
  "map nd_name (refineTableNodeKinds nodes ps rows) = map nd_name nodes" "map nd_fields (refineTableNodeKinds nodes ps rows) = map nd_fields nodes"
  "length (refineTableNodeKinds nodes ps rows) = length nodes"
  by (auto simp: refineTableNodeKinds_def Let_def split: prod.splits)

lemma built_nodes:
  assumes "buildNodes rows limits = Inr nodes" "0 \<le> MaxEdges limits"
  shows "distinct (map nd_name nodes)" "int (length nodes) \<le> MaxNodes limits" "int (sum_list (map (edge_count \<circ> nd_fields) nodes)) \<le> MaxEdges limits"
proof -
  obtain gs where g: "group_rows [] None rows = Inr gs" "\<not> int (length gs) > MaxNodes limits" "build_groups limits 0 gs = Inr nodes"
    using assms(1) by (auto simp: buildNodes_def bindE_Inr_iff)
  have n: "map nd_name nodes = map fst gs" by (rule build_groups_names [OF g(3)])
  then have "length nodes = length gs" by (metis length_map)
  then show "distinct (map nd_name nodes)" "int (length nodes) \<le> MaxNodes limits" "int (sum_list (map (edge_count \<circ> nd_fields) nodes)) \<le> MaxEdges limits"
    using n group_rows_names [OF g(1)] g(2) build_groups_edges [OF g(3)] assms(2) by simp_all
qed

section \<open>Lookups\<close>

lemma map_of_rev_distinct: "distinct (map fst xs) \<Longrightarrow> map_of (rev xs) = map_of xs"
  using map_of_inject_set [of "rev xs" xs] by (simp flip: rev_map)

lemma node_lookup:
  assumes "distinct (map nd_name nodes)"
  shows "i < length nodes \<Longrightarrow> node_by_name nodes (nd_name (nodes ! i)) = Some (nodes ! i)" "i < length nodes \<Longrightarrow> index_by_name nodes (nd_name (nodes ! i)) = i"
    "node_by_name nodes name = Some n \<Longrightarrow> \<exists>i < length nodes. n = nodes ! i \<and> nd_name n = name"
proof -
  have d: "distinct (map fst (map (\<lambda>n. (nd_name n, n)) nodes))" "distinct (map fst (zip (map nd_name nodes) [0..<length nodes]))"
    using assms by (simp_all add: comp_def)
  show "node_by_name nodes (nd_name (nodes ! i)) = Some (nodes ! i)" if "i < length nodes"
    using that unfolding node_by_name_def map_of_rev_distinct [OF d(1)] by (intro map_of_is_SomeI [OF d(1)]) auto
  show "index_by_name nodes (nd_name (nodes ! i)) = i" if "i < length nodes"
  proof -
    have "map_of (zip (map nd_name nodes) [0..<length nodes]) (nd_name (nodes ! i)) = Some i"
      using that by (intro map_of_is_SomeI [OF d(2)]) (auto simp: set_zip intro!: exI [of _ i])
    then show ?thesis by (simp add: index_by_name_def map_of_rev_distinct [OF d(2)])
  qed
  show "\<exists>i < length nodes. n = nodes ! i \<and> nd_name n = name" if "node_by_name nodes name = Some n"
  proof -
    have "n \<in> set nodes" "nd_name n = name" using that unfolding node_by_name_def by (auto dest!: map_of_SomeD)
    then show ?thesis by (metis in_set_conv_nth)
  qed
qed

definition name_edges :: "prov_node list \<Rightarrow> (gostring \<times> gostring) set" where
  "name_edges nodes = {(nd_name n, rf_targetType (pf_reference f)) | n f. n \<in> set nodes \<and> f \<in> set (nd_fields n) \<and> rf_kind (pf_reference f) \<noteq> KScalar}"

definition targets_ok :: "prov_node list \<Rightarrow> bool" where
  "targets_ok nodes \<longleftrightarrow> distinct (map nd_name nodes) \<and>
     (\<forall>n \<in> set nodes. \<forall>f \<in> set (nd_fields n). rf_kind (pf_reference f) \<noteq> KScalar \<longrightarrow>
        (\<exists>t. node_by_name nodes (rf_targetType (pf_reference f)) = Some t \<and> nd_kind t = rf_kind (pf_reference f)))"

lemma check_targets_Inr:
  "check_targets nodes fs = Inr () \<longleftrightarrow>
     (\<forall>f \<in> set fs. rf_kind (pf_reference f) \<noteq> KScalar \<longrightarrow> (\<exists>t. node_by_name nodes (rf_targetType (pf_reference f)) = Some t \<and> nd_kind t = rf_kind (pf_reference f)))"
  by (induction fs) (auto simp: Let_def bindE_Inr_iff split: option.splits)

lemma validate_targets: "distinct (map nd_name nodes) \<Longrightarrow> validateNodeTargets nodes = Inr () \<Longrightarrow> targets_ok nodes"
  by (auto simp: validateNodeTargets_def check_targets_Inr targets_ok_def)

section \<open>The graph of names and the graph of indices\<close>

lemma adjacency_edges:
  assumes "targets_ok nodes" "u < length nodes" "v < length nodes"
  shows "(u, v) \<in> edges (graph_adjacency nodes) \<longleftrightarrow> (nd_name (nodes ! u), nd_name (nodes ! v)) \<in> name_edges nodes"
proof -
  have d: "distinct (map nd_name nodes)" using assms(1) by (simp add: targets_ok_def)
  have "(u, v) \<in> edges (graph_adjacency nodes) \<longleftrightarrow>
      (\<exists>f \<in> set (nd_fields (nodes ! u)). rf_kind (pf_reference f) \<noteq> KScalar \<and> index_by_name nodes (rf_targetType (pf_reference f)) = v)"
    using assms(2,3) by (auto simp: edges_def graph_adjacency_def)
  also have "\<dots> \<longleftrightarrow> (\<exists>f \<in> set (nd_fields (nodes ! u)). rf_kind (pf_reference f) \<noteq> KScalar \<and> rf_targetType (pf_reference f) = nd_name (nodes ! v))"
  proof (intro bex_cong refl conj_cong)
    fix f assume f: "f \<in> set (nd_fields (nodes ! u))" "rf_kind (pf_reference f) \<noteq> KScalar"
    then obtain t where "node_by_name nodes (rf_targetType (pf_reference f)) = Some t" using assms(1) nth_mem [OF assms(2)] unfolding targets_ok_def by blast
    then obtain i where i: "i < length nodes" "rf_targetType (pf_reference f) = nd_name (nodes ! i)" using node_lookup(3) [OF d] by metis
    show "index_by_name nodes (rf_targetType (pf_reference f)) = v \<longleftrightarrow> rf_targetType (pf_reference f) = nd_name (nodes ! v)"
      using node_lookup(2) [OF d i(1)] node_lookup(2) [OF d assms(3)] unfolding i(2) by metis
  qed
  also have "\<dots> \<longleftrightarrow> (nd_name (nodes ! u), nd_name (nodes ! v)) \<in> name_edges nodes"
  proof -
    have u: "n = nodes ! u" if "n \<in> set nodes" "nd_name n = nd_name (nodes ! u)" for n
      using that node_lookup(2) [OF d] assms(2) by (metis in_set_conv_nth)
    show ?thesis
    proof
      assume "(nd_name (nodes ! u), nd_name (nodes ! v)) \<in> name_edges nodes"
      then obtain n f where n: "n \<in> set nodes" "nd_name n = nd_name (nodes ! u)" and f: "f \<in> set (nd_fields n)" "rf_kind (pf_reference f) \<noteq> KScalar"
          "rf_targetType (pf_reference f) = nd_name (nodes ! v)"
        unfolding name_edges_def by auto
      then show "\<exists>f \<in> set (nd_fields (nodes ! u)). rf_kind (pf_reference f) \<noteq> KScalar \<and> rf_targetType (pf_reference f) = nd_name (nodes ! v)"
        using u [OF n] by blast
    qed (use nth_mem [OF assms(2)] in \<open>force simp: name_edges_def\<close>)
  qed
  finally show ?thesis .
qed

lemma name_edge_nodes:
  assumes "targets_ok nodes" "(a, b) \<in> name_edges nodes"
  shows "\<exists>u v. u < length nodes \<and> v < length nodes \<and> a = nd_name (nodes ! u) \<and> b = nd_name (nodes ! v)"
proof -
  obtain n f where n: "n \<in> set nodes" "a = nd_name n" "f \<in> set (nd_fields n)" "rf_kind (pf_reference f) \<noteq> KScalar" "b = rf_targetType (pf_reference f)"
    using assms(2) by (auto simp: name_edges_def)
  obtain t where "node_by_name nodes b = Some t" using assms(1) n by (auto simp: targets_ok_def)
  then obtain v where "v < length nodes" "b = nd_name (nodes ! v)" using node_lookup(3) assms(1) by (metis targets_ok_def)
  then show ?thesis using n(1,2) by (metis in_set_conv_nth)
qed

lemma name_paths:
  assumes "targets_ok nodes" "u < length nodes" "v < length nodes"
  shows "(u, v) \<in> paths (graph_adjacency nodes) \<longleftrightarrow> (nd_name (nodes ! u), nd_name (nodes ! v)) \<in> (name_edges nodes)\<^sup>*"
proof
  assume "(u, v) \<in> paths (graph_adjacency nodes)"
  then show "(nd_name (nodes ! u), nd_name (nodes ! v)) \<in> (name_edges nodes)\<^sup>*"
  proof (induction rule: rtrancl_induct)
    case (step y z)
    have "y < length nodes" "z < length nodes" using step.hyps(2) by (auto simp: edges_def graph_adjacency_def)
    then show ?case using step adjacency_edges [OF assms(1)] by (meson rtrancl_into_rtrancl)
  qed simp
next
  have d: "distinct (map nd_name nodes)" using assms(1) by (simp add: targets_ok_def)
  have "\<exists>w < length nodes. b = nd_name (nodes ! w) \<and> (u, w) \<in> paths (graph_adjacency nodes)" if "(nd_name (nodes ! u), b) \<in> (name_edges nodes)\<^sup>*" for b
    using that
  proof (induction rule: rtrancl_induct)
    case (step b c)
    then obtain w where w: "w < length nodes" "b = nd_name (nodes ! w)" "(u, w) \<in> paths (graph_adjacency nodes)" by blast
    obtain z where z: "z < length nodes" "c = nd_name (nodes ! z)" using name_edge_nodes [OF assms(1) step.hyps(2)] by blast
    then show ?case using w step.hyps(2) adjacency_edges [OF assms(1) w(1) z(1)] by (metis rtrancl_into_rtrancl)
  qed (use assms(2) in blast)
  then show "(nd_name (nodes ! u), nd_name (nodes ! v)) \<in> (name_edges nodes)\<^sup>* \<Longrightarrow> (u, v) \<in> paths (graph_adjacency nodes)"
    using node_lookup(2) [OF d] assms(3) by metis
qed

lemma name_proper_paths:
  assumes "targets_ok nodes" "u < length nodes" "v < length nodes"
  shows "(u, v) \<in> (edges (graph_adjacency nodes))\<^sup>+ \<longleftrightarrow> (nd_name (nodes ! u), nd_name (nodes ! v)) \<in> (name_edges nodes)\<^sup>+"
proof
  assume "(u, v) \<in> (edges (graph_adjacency nodes))\<^sup>+"
  then obtain w where w: "(u, w) \<in> edges (graph_adjacency nodes)" "(w, v) \<in> paths (graph_adjacency nodes)" by (metis tranclD)
  then have "w < length nodes" by (auto simp: edges_def graph_adjacency_def)
  then show "(nd_name (nodes ! u), nd_name (nodes ! v)) \<in> (name_edges nodes)\<^sup>+"
    using w adjacency_edges [OF assms(1,2)] name_paths [OF assms(1) _ assms(3)] by (meson rtrancl_into_trancl2)
next
  have d: "distinct (map nd_name nodes)" using assms(1) by (simp add: targets_ok_def)
  assume "(nd_name (nodes ! u), nd_name (nodes ! v)) \<in> (name_edges nodes)\<^sup>+"
  then obtain b where b: "(nd_name (nodes ! u), b) \<in> name_edges nodes" "(b, nd_name (nodes ! v)) \<in> (name_edges nodes)\<^sup>*" by (metis tranclD)
  obtain w where w: "w < length nodes" "b = nd_name (nodes ! w)" using name_edge_nodes [OF assms(1) b(1)] by blast
  then show "(u, v) \<in> (edges (graph_adjacency nodes))\<^sup>+"
    using b adjacency_edges [OF assms(1,2) w(1)] name_paths [OF assms(1) w(1) assms(3)] by (simp add: rtrancl_into_trancl2)
qed

section \<open>What a computation keeps of its state\<close>

definition keeps :: "('s \<Rightarrow> bool) \<Rightarrow> ('s \<Rightarrow> 'e + 'a \<times> 's) \<Rightarrow> bool" where
  "keeps P m \<longleftrightarrow> (\<forall>s a s'. P s \<longrightarrow> m s = Inr (a, s') \<longrightarrow> P s')"

lemma keepsD: "keeps P m \<Longrightarrow> P s \<Longrightarrow> m s = Inr (a, s') \<Longrightarrow> P s'"
  unfolding keeps_def by blast

lemma keeps_bind: "keeps P m \<Longrightarrow> (\<And>a. keeps P (f a)) \<Longrightarrow> keeps P (se_bind m f)"
  unfolding keeps_def se_bind_Inr_iff by blast

lemma keeps_return: "keeps P (se_return a)"
  by (simp add: keeps_def se_return_def)

lemma keeps_lift: "keeps P (se_lift r)"
  by (auto simp: keeps_def se_lift_def split: sum.splits)

lemma keeps_case: "keeps P h \<Longrightarrow> (\<And>t. x = Some t \<Longrightarrow> keeps P (g t)) \<Longrightarrow> keeps P (case x of None \<Rightarrow> h | Some t \<Rightarrow> g t)"
  by (cases x) simp_all

lemma keeps_if: "(c \<Longrightarrow> keeps P m) \<Longrightarrow> (\<not> c \<Longrightarrow> keeps P n) \<Longrightarrow> keeps P (if c then m else n)"
  by simp

lemma keeps_each: "(\<And>x. keeps P (f x)) \<Longrightarrow> keeps P (each_row f xs)"
  by (induction xs) (simp_all add: keeps_bind keeps_return)

lemmas keeps_intros = keeps_bind keeps_return keeps_lift keeps_case keeps_if keeps_each

definition within :: "md_limits \<Rightarrow> budget \<Rightarrow> bool" where
  "within limits b \<longleftrightarrow> bg_limits b = limits \<and> int (bg_rows b) \<le> MaxRows limits \<and> int (bg_properties b) \<le> MaxProperties limits \<and> int (bg_bytes b) \<le> MaxBytes limits"

lemma keeps_within:
  "keeps (within l) (addRows n)" "keeps (within l) (addProperties n)" "keeps (within l) (addBytes n)" "keeps (within l) (reject_if c e)"
  by (auto simp: keeps_def within_def addRows_def addProperties_def addBytes_def reject_if_def Let_def split: if_splits)

lemma keeps_texts:
  "keeps (within l) (meta_text v m e a)" "keeps (within l) (meta_integer v)" "keeps (within l) (meta_flag v)" "keeps (within l) (metadataName v e)"
  unfolding meta_flag_def metadataName_def meta_text_def meta_integer_def by (intro keeps_intros keeps_within)+

lemma keeps_rows: "keeps (within l) (function_identity_row fr)" "keeps (within l) (snapshot_type_row tr)" "keeps (within l) (snapshot_indirect_row ir)" "keeps (within l) (snapshot_parameter_row pr)"
  unfolding function_identity_row_def snapshot_type_row_def snapshot_indirect_row_def snapshot_parameter_row_def
  by (intro keeps_intros keeps_within keeps_texts)+

lemma keeps_input: "keeps (within l) (snapshot_input inp)"
proof -
  have "keeps (within l) (snapshotFunctionIdentity rows)" for rows
    unfolding snapshotFunctionIdentity_def
    by (intro keeps_intros keeps_within) (auto split: list.split intro: keeps_intros keeps_rows)
  then show ?thesis
    unfolding snapshot_input_def snapshotTypeRows_def snapshotIndirectRows_def snapshotParameterRows_def
    by (intro keeps_intros keeps_within keeps_rows)
qed

lemma limits_ok:
  assumes "md_resolveLimits l = Inr limits"
  shows "0 \<le> MaxRows limits" "0 \<le> MaxNodes limits" "0 \<le> MaxEdges limits" "0 \<le> MaxDepth limits" "0 \<le> MaxProperties limits" "0 \<le> MaxBytes limits"
    "MaxRows limits \<le> 100000" "MaxNodes limits \<le> 20000" "MaxEdges limits \<le> 100000" "MaxDepth limits \<le> 256" "MaxProperties limits \<le> 2000000" "MaxBytes limits \<le> 33554432"
  using assms by (auto simp: md_resolveLimits_def defaultLimits_def absoluteLimits_def check_limit_def bindE_Inr_iff split: option.splits if_splits)

section \<open>Parameters\<close>

definition roots_in :: "prov_node list \<Rightarrow> param_state \<Rightarrow> bool" where
  "roots_in nodes st \<longleftrightarrow> set (ps_roots st) \<subseteq> set (map nd_name nodes)"

lemma node_name: "node_by_name nodes name = Some n \<Longrightarrow> name \<in> set (map nd_name nodes)"
  by (auto simp: node_by_name_def dest!: map_of_SomeD)

lemma keeps_root: "node_by_name nodes name = Some n \<Longrightarrow> keeps (roots_in nodes) (addRoot name)"
  by (auto simp: keeps_def roots_in_def addRoot_def dest!: node_name)

lemma keeps_steps: "keeps (roots_in nodes) (consume_key k)" "keeps (roots_in nodes) count_edge" "keeps (roots_in nodes) (check_edges l)" "keeps (roots_in nodes) (mismatch_unless c)"
  by (auto simp: keeps_def roots_in_def consume_key_def count_edge_def check_edges_def mismatch_unless_def se_lift_def split: if_splits sum.splits)

lemma keeps_references: "keeps (roots_in nodes) (parameter_ref nodes indirect limits row)"
  unfolding parameter_ref_def scalar_table_reference_def scalar_reference_def typed_reference_def mappedTarget_def directFieldReference_def named_leaf_def
    target_type_def Let_def
  by (intro keeps_intros keeps_steps keeps_root; assumption)+

lemma check_edges_Inr: "check_edges limits st = Inr (u, st') \<Longrightarrow> st' = st \<and> int (ps_edges st) \<le> MaxEdges limits"
  by (auto simp: check_edges_def split: if_splits)

lemma typed_target:
  assumes "typed_reference nodes indirect limits row st = Inr (r, st')"
  shows "node_by_name nodes (pp_targetType r) \<noteq> None" "int (ps_edges st') \<le> MaxEdges limits"
proof -
  obtain targetType target s1 s2 where t: "node_by_name nodes targetType = Some target" "check_edges limits s1 = Inr ((), s2)" "addRoot targetType s2 = Inr ((), st')"
      "pp_targetType r = targetType"
    using assms by (auto simp: typed_reference_def se_Inr_iffs se_return_def mismatch_unless_def split: option.splits)
  show "node_by_name nodes (pp_targetType r) \<noteq> None" using t(1,4) by simp
  show "int (ps_edges st') \<le> MaxEdges limits" using check_edges_Inr [OF t(2)] t(3) by (auto simp: addRoot_def split: if_splits)
qed

lemma parameter_facts:
  assumes "parameter_ref nodes indirect limits row st = Inr (r, st')" "int (ps_edges st) \<le> MaxEdges limits"
  shows "int (ps_edges st') \<le> MaxEdges limits" "pp_kind r = PStructureRef \<or> pp_kind r = PTableRef \<Longrightarrow> node_by_name nodes (pp_targetType r) \<noteq> None"
proof -
  have s: "int (ps_edges st') \<le> MaxEdges limits \<and> pp_kind r = PScalarTable" if "scalar_table_reference nodes indirect limits row st = Inr (r, st')"
    using that by (auto simp: scalar_table_reference_def se_Inr_iffs se_return_def dest!: check_edges_Inr)
  have c: "int (ps_edges st') \<le> MaxEdges limits \<and> pp_kind r = PScalarRef" if "scalar_reference nodes indirect limits row st = Inr (r, st')"
    using that by (auto simp: scalar_reference_def se_Inr_iffs se_return_def dest!: check_edges_Inr)
  show "int (ps_edges st') \<le> MaxEdges limits"
    using assms s c typed_target(2) by (auto simp: parameter_ref_def se_return_def split: if_splits)
  show "pp_kind r = PStructureRef \<or> pp_kind r = PTableRef \<Longrightarrow> node_by_name nodes (pp_targetType r) \<noteq> None"
    using assms s c typed_target(1) by (auto simp: parameter_ref_def se_return_def split: if_splits)
qed

definition typed_kind :: "param_kind \<Rightarrow> bool" where
  "typed_kind k \<longleftrightarrow> k = PStructureRef \<or> k = PTableRef"

lemma provisional_facts:
  assumes "provisional_rows nodes indirect limits rows st = Inr (ps, st')" "int (ps_edges st) \<le> MaxEdges limits" "roots_in nodes st"
  shows "int (ps_edges st') \<le> MaxEdges limits \<and> roots_in nodes st' \<and> map pv_row ps = rows \<and>
    (\<forall>p \<in> set ps. typed_kind (pp_kind (pv_reference p)) \<longrightarrow> node_by_name nodes (pp_targetType (pv_reference p)) \<noteq> None)"
  using assms
proof (induction rows arbitrary: st ps)
  case (Cons row rows)
  obtain p ps' s1 where p: "provisional_parameter nodes indirect limits row st = Inr (p, s1)" "provisional_rows nodes indirect limits rows s1 = Inr (ps', st')" "ps = p # ps'"
    using Cons.prems(1) by (auto simp: se_Inr_iffs se_return_def)
  define s0 where "s0 = st\<lparr>ps_seen := parameter_key row # ps_seen st\<rparr>"
  obtain r where r: "parameter_ref nodes indirect limits row s0 = Inr (r, s1)" "p = \<lparr>pv_row = row, pv_reference = r\<rparr>"
    using p(1) by (auto simp: provisional_parameter_def s0_def se_Inr_iffs se_return_def split: if_splits)
  have "int (ps_edges s0) \<le> MaxEdges limits" "roots_in nodes s0" using Cons.prems(2,3) by (simp_all add: s0_def roots_in_def)
  note f = parameter_facts [OF r(1) this(1)] keepsD [OF keeps_references this(2) r(1)]
  show ?case using Cons.IH [OF p(2) f(1,3)] f(2) r(2) p(3) by (auto simp: typed_kind_def)
qed (simp add: se_return_def)

section \<open>Reachability of names\<close>

lemma reach_names_facts:
  assumes "\<forall>n. P n \<longrightarrow> (\<forall>t \<in> set (node_targets nodes n). P t)" "\<forall>n \<in> set stack. P n" "\<forall>n \<in> set reachable. P n" "distinct reachable"
  shows "(\<forall>n \<in> set (reach_names nodes reachable stack). P n) \<and> distinct (reach_names nodes reachable stack)"
  using assms
proof (induction nodes reachable stack rule: reach_names.induct)
  case (1 nodes reachable)
  then show ?case by simp
next
  case (2 nodes reachable name stack)
  show ?case
  proof (cases "name \<in> set reachable")
    case True
    then show ?thesis using 2(1) [OF True 2(3)] 2(4-6) by simp
  next
    case False
    have "\<forall>n \<in> set (rev (node_targets nodes name) @ stack). P n" using 2(3,4) by auto
    from 2(2) [OF False 2(3) this] show ?thesis using 2(4-6) False by simp
  qed
qed

lemma target_edge:
  assumes "targets_ok nodes" "t \<in> set (node_targets nodes name)"
  shows "(name, t) \<in> name_edges nodes" "t \<in> set (map nd_name nodes)"
proof -
  obtain n f where n: "node_by_name nodes name = Some n" "f \<in> set (nd_fields n)" "rf_kind (pf_reference f) \<noteq> KScalar" "t = rf_targetType (pf_reference f)"
    using assms(2) by (cases "node_by_name nodes name") (auto simp: node_targets_def)
  have "n \<in> set nodes" "nd_name n = name" using n(1) by (auto simp: node_by_name_def dest!: map_of_SomeD)
  then show e: "(name, t) \<in> name_edges nodes" using n(2-4) by (auto simp: name_edges_def)
  obtain u v where "v < length nodes" "t = nd_name (nodes ! v)" using name_edge_nodes [OF assms(1) e] by blast
  then show "t \<in> set (map nd_name nodes)" by simp
qed

lemma all_reached:
  assumes "targets_ok nodes" "set roots \<subseteq> set (map nd_name nodes)" "length (reach_names nodes [] (rev roots)) = length nodes" "name \<in> set (map nd_name nodes)"
  shows "\<exists>r \<in> set roots. (r, name) \<in> (name_edges nodes)\<^sup>*"
proof -
  let ?P = "\<lambda>n. n \<in> set (map nd_name nodes) \<and> (\<exists>r \<in> set roots. (r, n) \<in> (name_edges nodes)\<^sup>*)"
  have step: "\<forall>n. ?P n \<longrightarrow> (\<forall>t \<in> set (node_targets nodes n). ?P t)"
  proof (intro allI impI ballI)
    fix n t assume n: "?P n" and t: "t \<in> set (node_targets nodes n)"
    obtain r where r: "r \<in> set roots" "(r, n) \<in> (name_edges nodes)\<^sup>*" using n by blast
    have "(r, t) \<in> (name_edges nodes)\<^sup>*" by (rule rtrancl_into_rtrancl [OF r(2) target_edge(1) [OF assms(1) t]])
    then show "?P t" using target_edge(2) [OF assms(1) t] r(1) by blast
  qed
  have start: "\<forall>n \<in> set (rev roots). ?P n" using assms(2) by auto
  have f: "\<forall>n \<in> set (reach_names nodes [] (rev roots)). ?P n" "distinct (reach_names nodes [] (rev roots))"
    using reach_names_facts [of ?P nodes "rev roots" "[]", OF step start] by simp_all
  have "card (set (map nd_name nodes)) = length nodes" using assms(1) by (metis targets_ok_def distinct_card length_map)
  then have "set (reach_names nodes [] (rev roots)) = set (map nd_name nodes)"
    using f assms(3) by (intro card_subset_eq) (auto simp: distinct_card)
  then show ?thesis using f(1) assms(4) by blast
qed

section \<open>Normalized graphs\<close>

text \<open>The references of a normalized graph: from the name of a node to the target of a field that is not a scalar.\<close>

definition type_edges :: "md_graph \<Rightarrow> (gostring \<times> gostring) set" where
  "type_edges g =
     {(fst p, Ref_TargetType (mf_Reference f)) | p f. p \<in> set (gp_Nodes g) \<and> f \<in> set (tn_Fields (snd p)) \<and> Ref_Kind (mf_Reference f) \<noteq> KScalar}"

lemma add_roots_set: "set (add_roots rs ns) = set rs \<union> set ns"
  by (induction ns arbitrary: rs) auto

lemma normalized:
  assumes "Normalize inp opts = Inr g"
  obtains nodes cmp params b where "targets_ok nodes" "graphComponents nodes (gp_RootTypeNames g) (MaxDepth (gp_Limits g)) = Inr cmp"
    "gp_Nodes g = finalNodes nodes cmp" "gp_Parameters g = finalParameters params nodes cmp" "gp_Cycles g = finalCycles nodes cmp"
    "set (gp_RootTypeNames g) \<subseteq> set (map nd_name nodes)" "length (reach_names nodes [] (rev (gp_RootTypeNames g))) = length nodes"
    "\<forall>p \<in> set params. typed_kind (pp_kind (pv_reference p)) \<longrightarrow> node_by_name nodes (pp_targetType (pv_reference p)) \<noteq> None"
    "within (gp_Limits g) b" "int (length nodes) \<le> MaxNodes (gp_Limits g)" "int (EdgeCount (gp_Statistics g)) \<le> MaxEdges (gp_Limits g)"
    "gp_Statistics g = \<lparr>RowCount = bg_rows b, NodeCount = length nodes, EdgeCount = EdgeCount (gp_Statistics g), PropertyCount = bg_properties b, ByteCount = bg_bytes b,
       MaximumDepth = cp_maximumDepth cmp\<rparr>"
    "\<exists>l. md_resolveLimits l = Inr (gp_Limits g)"
proof -
  obtain limits functionIdentity typeRows indirectRows parameterRows b built params paramRoots totalEdges roots cmp where
    l: "md_resolveLimits (case opts of None \<Rightarrow> None | Some o' \<Rightarrow> op_Limits o') = Inr limits" and
    i: "snapshot_input inp \<lparr>bg_limits = limits, bg_rows = 0, bg_properties = 0, bg_bytes = 0\<rparr> = Inr ((functionIdentity, typeRows, indirectRows, parameterRows), b)" and
    n: "buildNodes typeRows limits = Inr built" and
    v: "validateNodeTargets (refineTableNodeKinds built parameterRows indirectRows) = Inr ()" and
    p: "provisionalParameters parameterRows indirectRows (refineTableNodeKinds built parameterRows indirectRows) limits = Inr (params, paramRoots, totalEdges)" and
    r: "graph_roots (refineTableNodeKinds built parameterRows indirectRows) (case opts of None \<Rightarrow> [] | Some o' \<Rightarrow> op_RootTypeNames o') paramRoots = Inr roots" and
    c: "graphComponents (refineTableNodeKinds built parameterRows indirectRows) roots (MaxDepth limits) = Inr cmp" and
    f: "length (reach_names (refineTableNodeKinds built parameterRows indirectRows) [] (rev roots)) = length (refineTableNodeKinds built parameterRows indirectRows)" and
    g: "g = \<lparr>gp_Version = 1, gp_FunctionIdentity = functionIdentity, gp_Nodes = finalNodes (refineTableNodeKinds built parameterRows indirectRows) cmp,
           gp_Parameters = finalParameters params (refineTableNodeKinds built parameterRows indirectRows) cmp, gp_RootTypeNames = roots,
           gp_Cycles = finalCycles (refineTableNodeKinds built parameterRows indirectRows) cmp, gp_Limits = limits,
           gp_Statistics = \<lparr>RowCount = bg_rows b, NodeCount = card (set (map nd_name (refineTableNodeKinds built parameterRows indirectRows))), EdgeCount = totalEdges,
             PropertyCount = bg_properties b, ByteCount = bg_bytes b, MaximumDepth = cp_maximumDepth cmp\<rparr>\<rparr>"
    using assms by (auto simp: Normalize_def Let_def bindE_Inr_iff)
  define nodes where "nodes = refineTableNodeKinds built parameterRows indirectRows"
  note bn = built_nodes [OF n limits_ok(3) [OF l]]
  have d: "distinct (map nd_name nodes)" "length nodes = length built" "map nd_fields nodes = map nd_fields built"
    using bn(1) refine_facts [of built parameterRows indirectRows] by (simp_all add: nodes_def)
  have t: "targets_ok nodes" using validate_targets [OF d(1)] v by (simp add: nodes_def)
  have "map (edge_count \<circ> nd_fields) nodes = map (edge_count \<circ> nd_fields) built" using d(3) by (metis map_map)
  then have e: "int (sum_list (map (edge_count \<circ> nd_fields) nodes)) \<le> MaxEdges limits" using bn(3) by simp
  obtain indirect st where st: "provisional_rows nodes indirect limits parameterRows
        \<lparr>ps_consumed = [], ps_roots = [], ps_seen = [], ps_edges = sum_list (map (edge_count \<circ> nd_fields) nodes)\<rparr> = Inr (params, st)"
      "paramRoots = ps_roots st" "totalEdges = ps_edges st"
    using p by (auto simp: provisionalParameters_def bindE_Inr_iff nodes_def)
  have pf: "int totalEdges \<le> MaxEdges limits" "set paramRoots \<subseteq> set (map nd_name nodes)"
      "\<forall>p \<in> set params. typed_kind (pp_kind (pv_reference p)) \<longrightarrow> node_by_name nodes (pp_targetType (pv_reference p)) \<noteq> None"
    using provisional_facts [OF st(1)] e by (auto simp: roots_in_def st(2,3))
  have roots: "set roots \<subseteq> set (map nd_name nodes)" using r pf(2) by (auto simp: graph_roots_def bindE_Inr_iff Let_def add_roots_set nodes_def split: if_splits)
  have w: "within limits b" by (rule keepsD [OF keeps_input _ i]) (use limits_ok [OF l] in \<open>simp add: within_def\<close>)
  have nc: "card (set (map nd_name nodes)) = length nodes" using d(1) by (metis distinct_card length_map)
  show thesis
    by (rule that [of nodes cmp params b]) (use t c f pf roots w bn(2) d(2) l nc in \<open>auto simp: g nodes_def [symmetric]\<close>)
qed

lemma final_node_members:
  "set (finalNodes nodes cmp) = {(nd_name (nodes ! i), final_node nodes cmp i (nodes ! i)) | i. i < length nodes}"
  by (auto simp: finalNodes_def)

lemma final_reference_facts:
  "Ref_Kind (final_reference nodes cmp i r) = rf_kind r" "rf_kind r \<noteq> KScalar \<Longrightarrow> Ref_TargetType (final_reference nodes cmp i r) = rf_targetType r"
  "rf_kind r \<noteq> KScalar \<Longrightarrow> Ref_Cyclic (final_reference nodes cmp i r) =
     (cp_componentByNode cmp i = cp_componentByNode cmp (index_by_name nodes (rf_targetType r)) \<and> cyclic_at cmp i)"
  by (auto simp: final_reference_def Let_def)

lemma type_edges_names:
  assumes "gp_Nodes g = finalNodes nodes cmp"
  shows "type_edges g = name_edges nodes"
proof (intro equalityI subrelI)
  fix a b assume "(a, b) \<in> type_edges g"
  then obtain i f where "i < length nodes" "a = nd_name (nodes ! i)" "f \<in> set (nd_fields (nodes ! i))" "rf_kind (pf_reference f) \<noteq> KScalar" "b = rf_targetType (pf_reference f)"
    unfolding type_edges_def assms final_node_members by (auto simp: final_node_def final_reference_facts)
  then show "(a, b) \<in> name_edges nodes" unfolding name_edges_def using nth_mem by blast
next
  fix a b assume "(a, b) \<in> name_edges nodes"
  then obtain n f where n: "n \<in> set nodes" "a = nd_name n" "f \<in> set (nd_fields n)" "rf_kind (pf_reference f) \<noteq> KScalar" "b = rf_targetType (pf_reference f)"
    by (auto simp: name_edges_def)
  then obtain i where i: "i < length nodes" "n = nodes ! i" by (metis in_set_conv_nth)
  let ?f = "\<lparr>mf_field = f, mf_Reference = final_reference nodes cmp i (pf_reference f)\<rparr>"
  have "(a, final_node nodes cmp i n) \<in> set (gp_Nodes g)" using n(2) i by (auto simp: assms final_node_members)
  moreover have "?f \<in> set (tn_Fields (final_node nodes cmp i n))" using n(3) by (simp add: final_node_def)
  moreover have "Ref_Kind (mf_Reference ?f) \<noteq> KScalar" "Ref_TargetType (mf_Reference ?f) = b" using n(4,5) by (simp_all add: final_reference_facts)
  ultimately show "(a, b) \<in> type_edges g" unfolding type_edges_def by force
qed

lemma components_facts:
  assumes "graphComponents nodes roots maxDepth = Inr cmp"
  shows "strong_components (graph_adjacency nodes) = (cp_componentByNode cmp, cp_nodesByComponent cmp)" "int (cp_maximumDepth cmp) \<le> maxDepth"
    "\<And>c. cp_cyclicComponents cmp c \<longleftrightarrow> c < length (cp_nodesByComponent cmp) \<and> is_cyclic (graph_adjacency nodes) (cp_nodesByComponent cmp ! c)"
  using assms by (auto simp: graphComponents_def Let_def bindE_Inr_iff split: prod.splits)

lemma cyclic_reference:
  assumes "targets_ok nodes" "graphComponents nodes roots maxDepth = Inr cmp" "i < length nodes" "f \<in> set (nd_fields (nodes ! i))" "rf_kind (pf_reference f) \<noteq> KScalar"
  shows "Ref_Cyclic (final_reference nodes cmp i (pf_reference f)) \<longleftrightarrow> (rf_targetType (pf_reference f), nd_name (nodes ! i)) \<in> (name_edges nodes)\<^sup>*"
proof -
  note c = components_facts [OF assms(2)]
  have e: "(nd_name (nodes ! i), rf_targetType (pf_reference f)) \<in> name_edges nodes" using nth_mem [OF assms(3)] assms(4,5) unfolding name_edges_def by blast
  obtain t where t: "t < length nodes" "rf_targetType (pf_reference f) = nd_name (nodes ! t)" using name_edge_nodes [OF assms(1) e] by blast
  have ti: "index_by_name nodes (rf_targetType (pf_reference f)) = t" using node_lookup(2) t assms(1) by (simp add: targets_ok_def)
  have it: "(i, t) \<in> edges (graph_adjacency nodes)" using adjacency_edges [OF assms(1,3) t(1)] e t(2) by simp
  have "Ref_Cyclic (final_reference nodes cmp i (pf_reference f)) \<longleftrightarrow> cp_componentByNode cmp i = cp_componentByNode cmp t \<and> cyclic_at cmp i"
    using assms(5) by (simp add: final_reference_facts ti)
  also have "cyclic_at cmp i \<longleftrightarrow> (\<exists>k. cp_componentByNode cmp i = Some k \<and> is_cyclic (graph_adjacency nodes) (cp_nodesByComponent cmp ! k))"
  proof (cases "cp_componentByNode cmp i")
    case (Some k)
    then have "k < length (cp_nodesByComponent cmp)" using strong_components_ok(3) [OF c(1), of i k] by simp
    then show ?thesis by (simp add: cyclic_at_def c(3) Some)
  qed (simp add: cyclic_at_def)
  also have "cp_componentByNode cmp i = cp_componentByNode cmp t \<and> \<dots> \<longleftrightarrow> (t, i) \<in> paths (graph_adjacency nodes)" by (rule cyclic_edge [OF c(1) it])
  also have "\<dots> \<longleftrightarrow> (rf_targetType (pf_reference f), nd_name (nodes ! i)) \<in> (name_edges nodes)\<^sup>*" unfolding t(2) by (rule name_paths [OF assms(1) t(1) assms(3)])
  finally show ?thesis .
qed

lemma final_cycle_members:
  "(\<exists>c \<in> set (finalCycles nodes cmp). a \<in> set (cy_TypeNames c) \<and> b \<in> set (cy_TypeNames c)) \<longleftrightarrow>
     (\<exists>i < length (cp_nodesByComponent cmp). cp_cyclicComponents cmp i \<and> (\<exists>u \<in> set (cp_nodesByComponent cmp ! i). \<exists>v \<in> set (cp_nodesByComponent cmp ! i). a = nd_name (nodes ! u) \<and> b = nd_name (nodes ! v)))"
proof -
  define cyclic where "cyclic = filter (cp_cyclicComponents cmp) [0..<length (cp_nodesByComponent cmp)]"
  have c: "i \<in> set cyclic \<longleftrightarrow> i < length (cp_nodesByComponent cmp) \<and> cp_cyclicComponents cmp i" for i by (auto simp: cyclic_def)
  define names where "names i = (\<lambda>u. nd_name (nodes ! u)) ` set (cp_nodesByComponent cmp ! i)" for i
  have "set (map cy_TypeNames (finalCycles nodes cmp)) = (\<lambda>k. map (\<lambda>u. nd_name (nodes ! u)) (cp_nodesByComponent cmp ! (cyclic ! k))) ` {..<length cyclic}"
    by (auto simp: finalCycles_def Let_def cyclic_def [symmetric] image_image lessThan_atLeast0)
  then have "set ` set (map cy_TypeNames (finalCycles nodes cmp)) = (\<lambda>k. names (cyclic ! k)) ` {..<length cyclic}" by (simp add: names_def image_image)
  also have "\<dots> = names ` set cyclic" by (force simp: set_conv_nth)
  finally have *: "set ` set (map cy_TypeNames (finalCycles nodes cmp)) = names ` set cyclic" .
  have "(\<exists>c \<in> set (finalCycles nodes cmp). a \<in> set (cy_TypeNames c) \<and> b \<in> set (cy_TypeNames c)) \<longleftrightarrow>
      (\<exists>S \<in> set ` set (map cy_TypeNames (finalCycles nodes cmp)). a \<in> S \<and> b \<in> S)" by simp
  also have "\<dots> \<longleftrightarrow> (\<exists>i \<in> set cyclic. a \<in> names i \<and> b \<in> names i)" unfolding * by blast
  also have "\<dots> \<longleftrightarrow> (\<exists>i. (i < length (cp_nodesByComponent cmp) \<and> cp_cyclicComponents cmp i) \<and> a \<in> names i \<and> b \<in> names i)" unfolding Bex_def c by (rule refl)
  finally show ?thesis unfolding names_def image_iff by blast
qed

lemma final_closed:
  assumes "targets_ok nodes" "gp_Nodes g = finalNodes nodes cmp"
  shows "map fst (gp_Nodes g) = rev (map nd_name nodes)"
    "\<And>p f. p \<in> set (gp_Nodes g) \<Longrightarrow> f \<in> set (tn_Fields (snd p)) \<Longrightarrow> Ref_Kind (mf_Reference f) \<noteq> KScalar \<Longrightarrow>
       \<exists>q \<in> set (gp_Nodes g). fst q = Ref_TargetType (mf_Reference f) \<and> tn_Kind (snd q) = Ref_Kind (mf_Reference f)"
proof -
  have "map (\<lambda>i. nd_name (nodes ! i)) [0..<length nodes] = map nd_name nodes" by (rule nth_equalityI) simp_all
  then show "map fst (gp_Nodes g) = rev (map nd_name nodes)" by (simp add: assms(2) finalNodes_def comp_def flip: rev_map)
  have d: "distinct (map nd_name nodes)" using assms(1) by (simp add: targets_ok_def)
  have lookup: "\<exists>q \<in> set (gp_Nodes g). fst q = name \<and> tn_Kind (snd q) = nd_kind t" if "node_by_name nodes name = Some t" for name t
    using node_lookup(3) [OF d that] by (auto simp: assms(2) final_node_members final_node_def)
  fix p f assume p: "p \<in> set (gp_Nodes g)" "f \<in> set (tn_Fields (snd p))" "Ref_Kind (mf_Reference f) \<noteq> KScalar"
  obtain i h where h: "i < length nodes" "h \<in> set (nd_fields (nodes ! i))" "mf_Reference f = final_reference nodes cmp i (pf_reference h)"
    using p(1,2) by (auto simp: assms(2) final_node_members final_node_def)
  have k: "rf_kind (pf_reference h) \<noteq> KScalar" using p(3) by (simp add: h(3) final_reference_facts)
  obtain t where t: "node_by_name nodes (rf_targetType (pf_reference h)) = Some t" "nd_kind t = rf_kind (pf_reference h)"
    using assms(1) nth_mem [OF h(1)] h(2) k unfolding targets_ok_def by blast
  show "\<exists>q \<in> set (gp_Nodes g). fst q = Ref_TargetType (mf_Reference f) \<and> tn_Kind (snd q) = Ref_Kind (mf_Reference f)"
    using lookup [OF t(1)] t(2) k by (simp add: h(3) final_reference_facts)
qed

lemma final_parameters_closed:
  assumes "\<forall>p \<in> set params. typed_kind (pp_kind (pv_reference p)) \<longrightarrow> node_by_name nodes (pp_targetType (pv_reference p)) \<noteq> None"
    "p \<in> set (finalParameters params nodes cmp)" "typed_kind (pm_Kind (mp_Reference p))"
  shows "pm_TargetType (mp_Reference p) \<in> set (map nd_name nodes)"
proof -
  obtain q where q: "q \<in> set params" "p = final_parameter nodes cmp q" using assms(2) by (auto simp: finalParameters_def)
  have "typed_kind (pp_kind (pv_reference q))" "pm_TargetType (mp_Reference p) = pp_targetType (pv_reference q)"
    using assms(3) by (auto simp: q(2) final_parameter_def Let_def typed_kind_def split: param_kind.splits)
  then show ?thesis using assms(1) q(1) node_name by (metis option.exhaust)
qed

section \<open>The geometry of a structure\<close>

text \<open>
  Rows that pass every other check of \<open>buildNodes\<close>: one type with named fields, the same lengths and time stamp in every row,
  references with a target, and numbers as the reader of decimal texts returns them.
\<close>

definition one_structure :: "type_row list \<Rightarrow> bool" where
  "one_structure rows \<longleftrightarrow> rows \<noteq> [] \<and> distinct (map tr_fieldName rows) \<and>
     list_all (\<lambda>r. tr_typeName r = tr_typeName (hd rows) \<and> tr_nucTotalLength r = tr_nucTotalLength (hd rows) \<and>
       tr_ucTotalLength r = tr_ucTotalLength (hd rows) \<and> tr_timestamp r = tr_timestamp (hd rows) \<and> tr_fieldName r \<noteq> [] \<and>
       (tr_internalType r \<notin> {gostr ''u'', gostr ''v'', gostr ''h''} \<or> tr_associatedType r \<noteq> []) \<and>
       list_all (\<lambda>n. 0 \<le> n \<and> n < 2 ^ 63) [tr_nucOffset r, tr_nucLength r, tr_ucOffset r, tr_ucLength r]) rows"

text \<open>Offsets and lengths that lie one after the other below a total, where an end of \<open>2 ^ 63\<close> or more counts as no end at all.\<close>

fun in_order :: "int \<Rightarrow> int \<Rightarrow> (int \<times> int) list \<Rightarrow> bool" where
  "in_order total' previous [] = True"
| "in_order total' previous ((offset, len) # rest) =
     (previous \<le> offset \<and>
      (if offset + len < 2 ^ 63 then offset + len \<le> total' \<and> in_order total' (offset + len) rest else in_order total' 0 rest))"

lemma safeEnd_cases:
  assumes "0 \<le> a" "a < 2 ^ 63" "0 \<le> b" "b < 2 ^ 63"
  shows "safeEnd a b = (if a + b < 2 ^ 63 then a + b else a + b - 2 ^ 64)"
proof -
  have w: "safeEnd a b = (a + b + 2 ^ 63) mod 2 ^ 64 - 2 ^ 63"
    unfolding safeEnd_def wrap64_def sint_sbintrunc' by (simp add: signed_take_bit_eq_take_bit_shift take_bit_eq_mod)
  have m: "(a + b + 2 ^ 63) mod 2 ^ 64 = (a + b + 2 ^ 63 - 2 ^ 64) mod (2 ^ 64 :: int)"
    by (rule minus_mod_self2 [symmetric])
  show ?thesis
  proof (cases "a + b < 2 ^ 63")
    case True
    then show ?thesis using assms by (simp add: w mod_pos_pos_trivial)
  next
    case False
    then have "(a + b + 2 ^ 63 - 2 ^ 64) mod (2 ^ 64 :: int) = a + b + 2 ^ 63 - 2 ^ 64"
      using assms by (intro mod_pos_pos_trivial) simp_all
    then show ?thesis using False unfolding w m by simp
  qed
qed

lemma end_step:
  assumes "0 \<le> a" "a < 2 ^ 63" "0 \<le> b" "b < 2 ^ 63" "0 \<le> total'"
  shows "(\<not> a < prev \<and> \<not> safeEnd a b > total' \<and> in_order total' (max 0 (safeEnd a b)) rest) = in_order total' (max 0 prev) ((a, b) # rest)"
  using assms by (auto simp: safeEnd_cases)

lemma classify_ok:
  "t \<notin> {gostr ''u'', gostr ''v'', gostr ''h''} \<or> a \<noteq> [] \<Longrightarrow> \<exists>r. classifyReference t a = Inr r"
  by (auto simp: classifyReference_def fail_if_def)

lemma node_fields_geometry:
  assumes "list_all (\<lambda>r. tr_nucTotalLength r = tr_nucTotalLength first \<and>
       tr_ucTotalLength r = tr_ucTotalLength first \<and> tr_timestamp r = tr_timestamp first \<and>
       (tr_internalType r \<notin> {gostr ''u'', gostr ''v'', gostr ''h''} \<or> tr_associatedType r \<noteq> []) \<and>
       list_all (\<lambda>n. 0 \<le> n \<and> n < 2 ^ 63) [tr_nucOffset r, tr_nucLength r, tr_ucOffset r, tr_ucLength r]) rows"
    and "distinct (map tr_fieldName rows)" "set (map tr_fieldName rows) \<inter> set names = {}" "0 \<le> nucTotal" "0 \<le> ucTotal"
  shows "if in_order nucTotal (max 0 pn) (map (\<lambda>r. (tr_nucOffset r, tr_nucLength r)) rows) \<and>
        in_order ucTotal (max 0 pu) (map (\<lambda>r. (tr_ucOffset r, tr_ucLength r)) rows)
     then \<exists>flds. node_fields first nucTotal ucTotal i names pn pu rows = Inr flds \<and>
       map (\<lambda>f. (pf_name f, pf_ucOffset f, pf_ucLength f)) flds = map (\<lambda>r. (tr_fieldName r, tr_ucOffset r, tr_ucLength r)) rows
     else node_fields first nucTotal ucTotal i names pn pu rows = Inl InvalidGeometry"
  using assms
proof (induction rows arbitrary: i names pn pu)
  case (Cons row rows)
  let ?n = "safeEnd (tr_nucOffset row) (tr_nucLength row)" and ?u = "safeEnd (tr_ucOffset row) (tr_ucLength row)"
  have r: "tr_nucTotalLength row = tr_nucTotalLength first" "tr_ucTotalLength row = tr_ucTotalLength first"
    "tr_timestamp row = tr_timestamp first" "tr_fieldName row \<notin> set names"
    "0 \<le> tr_nucOffset row" "tr_nucOffset row < 2 ^ 63" "0 \<le> tr_nucLength row" "tr_nucLength row < 2 ^ 63"
    "0 \<le> tr_ucOffset row" "tr_ucOffset row < 2 ^ 63" "0 \<le> tr_ucLength row" "tr_ucLength row < 2 ^ 63"
    using Cons.prems(1,3) by simp_all
  obtain ref where ref: "classifyReference (tr_internalType row) (tr_associatedType row) = Inr ref"
    using classify_ok [of "tr_internalType row" "tr_associatedType row"] Cons.prems(1) by auto
  have ih: "if in_order nucTotal (max 0 ?n) (map (\<lambda>r. (tr_nucOffset r, tr_nucLength r)) rows) \<and>
        in_order ucTotal (max 0 ?u) (map (\<lambda>r. (tr_ucOffset r, tr_ucLength r)) rows)
     then \<exists>flds. node_fields first nucTotal ucTotal (i + 1) (tr_fieldName row # names) ?n ?u rows = Inr flds \<and>
       map (\<lambda>f. (pf_name f, pf_ucOffset f, pf_ucLength f)) flds = map (\<lambda>r. (tr_fieldName r, tr_ucOffset r, tr_ucLength r)) rows
     else node_fields first nucTotal ucTotal (i + 1) (tr_fieldName row # names) ?n ?u rows = Inl InvalidGeometry"
    using Cons.prems by (intro Cons.IH) auto
  note steps = end_step [OF r(5-8) Cons.prems(4), of pn "map (\<lambda>r. (tr_nucOffset r, tr_nucLength r)) rows", symmetric]
    end_step [OF r(9-12) Cons.prems(5), of pu "map (\<lambda>r. (tr_ucOffset r, tr_ucLength r)) rows", symmetric]
  show ?case
    unfolding list.map steps
    using ih by (auto simp: r(1-4) ref Let_def fail_if_def make_field_def split: if_splits simp del: in_order.simps)
qed simp

lemma group_one:
  "list_all (\<lambda>r. tr_typeName r = name) rows \<Longrightarrow> group_rows closed (Some (name, rs)) rows = Inr [(name, rs @ rows)]"
  by (induction rows arbitrary: rs) simp_all

lemma edge_count_le: "edge_count flds \<le> length flds"
  by (simp add: edge_count_def)

section \<open>Two small inputs\<close>

text \<open>A type that refers to itself, and a field behind the end of its type.\<close>

definition sample_row :: "string \<Rightarrow> string \<Rightarrow> string \<Rightarrow> string \<Rightarrow> string \<Rightarrow> type_row_input" where
  "sample_row offset len tableLength inttype fieldtype =
     \<lparr>ti_TypeName = gostr ''T'', ti_FieldName = gostr ''NEXT'', ti_CompType = [], ti_FieldType = gostr fieldtype, ti_DataType = gostr ''STRU'',
      ti_TabLength = gostr tableLength, ti_TabLengthUC = gostr tableLength, ti_Description = [], ti_Decimals = gostr ''0'', ti_IntType = gostr inttype,
      ti_Offset = gostr offset, ti_OffsetUC = gostr offset, ti_IntLen = gostr len, ti_IntLenUC = gostr len, ti_Timestamp = gostr ''20260101000000''\<rparr>"

definition sample_input :: "type_row_input list \<Rightarrow> md_input" where
  "sample_input rows = \<lparr>in_FunctionNames = None, in_DataTypesCont = rows, in_IndirectTypes = [], in_Parameters = None\<rparr>"

lemmas snapshot_simps = snapshot_input_def present_keys_def snapshotFunctionIdentity_def snapshotTypeRows_def snapshotIndirectRows_def snapshotParameterRows_def addRows_def
  snapshot_type_row_def sample_row_def se_bind_def addProperties_def meta_text_def metadataName_def reject_if_def addBytes_def se_return_def
  ascii_facts ascii_def gostr_def controlOrHigh_def digit_pattern_def digit_char_def meta_integer_def numericPattern_def go_Atoi_def signed_value_def split_sign_def sign_char_def
  digits_value_def se_lift_def

definition sample_type_row :: "int \<Rightarrow> int \<Rightarrow> int \<Rightarrow> string \<Rightarrow> string \<Rightarrow> type_row" where
  "sample_type_row offset len tableLength inttype fieldtype =
     \<lparr>tr_typeName = gostr ''T'', tr_fieldName = gostr ''NEXT'', tr_componentType = [], tr_associatedType = gostr fieldtype, tr_dataType = gostr ''STRU'',
      tr_nucTotalLength = tableLength, tr_ucTotalLength = tableLength, tr_description = [], tr_decimals = 0, tr_internalType = gostr inttype,
      tr_nucOffset = offset, tr_ucOffset = offset, tr_nucLength = len, tr_ucLength = len, tr_timestamp = gostr ''20260101000000''\<rparr>"

definition sample_node :: "type_row \<Rightarrow> prov_reference \<Rightarrow> prov_node" where
  "sample_node row reference = \<lparr>nd_name = gostr ''T'', nd_kind = KStructure, nd_nucLength = 8, nd_ucLength = 8, nd_timestamp = gostr ''20260101000000'',
     nd_fields = [make_field 0 row reference]\<rparr>"

abbreviation self_row :: type_row where
  "self_row \<equiv> sample_type_row 0 8 8 ''u'' ''T''"

abbreviation self_input :: md_input where
  "self_input \<equiv> sample_input [sample_row ''0'' ''8'' ''8'' ''u'' ''T'']"

abbreviation self_reference :: prov_reference where
  "self_reference \<equiv> \<lparr>rf_kind = KStructure, rf_internalType = gostr ''u'', rf_targetType = gostr ''T''\<rparr>"

abbreviation far_row :: type_row where
  "far_row \<equiv> sample_type_row 9223372036854775807 1 8 ''C'' ''''"

abbreviation far_input :: md_input where
  "far_input \<equiv> sample_input [sample_row ''9223372036854775807'' ''1'' ''8'' ''C'' '''']"

abbreviation far_reference :: prov_reference where
  "far_reference \<equiv> \<lparr>rf_kind = KScalar, rf_internalType = gostr ''C'', rf_targetType = []\<rparr>"

lemma sample_snapshot:
  "\<exists>b. snapshot_input self_input \<lparr>bg_limits = defaultLimits, bg_rows = 0, bg_properties = 0, bg_bytes = 0\<rparr> = Inr ((None, [self_row], [], []), b)"
  "\<exists>b. snapshot_input far_input \<lparr>bg_limits = defaultLimits, bg_rows = 0, bg_properties = 0, bg_bytes = 0\<rparr> = Inr ((None, [far_row], [], []), b)"
  by (simp_all add: snapshot_simps sample_input_def sample_type_row_def Let_def defaultLimits_def)

lemma sample_built: "buildNodes [self_row] defaultLimits = Inr [sample_node self_row self_reference]" "buildNodes [far_row] defaultLimits = Inr [sample_node far_row far_reference]"
  by (simp_all add: buildNodes_def sample_node_def sample_type_row_def build_node_def Let_def safeEnd_def wrap64_def classifyReference_def gostr_def defaultLimits_def edge_count_def
      make_field_def fail_if_def)

lemma sample_facts:
  "nd_name (sample_node row r) = gostr ''T''" "nd_kind (sample_node row r) = KStructure" "nd_fields (sample_node row r) = [make_field 0 row r]" "pf_reference (make_field 0 row r) = r"
  "node_by_name [sample_node row r] (gostr ''T'') = Some (sample_node row r)" "index_by_name [sample_node row r] (gostr ''T'') = 0"
  by (simp_all add: sample_node_def make_field_def node_by_name_def index_by_name_def)

lemma sample_components:
  "maximum_depth [[]] [0] = 1" "strong_components [[0]] = ([0 \<mapsto> 0], [[0]])" "strong_components [[]] = ([0 \<mapsto> 0], [[0]])"
  by (simp_all add: maximum_depth_def indegrees_def depth_step_def strong_components_def reverse_adjacency_def finish_order_def dfs_start_def component_step_def push_source_def)

lemma sample_normalize:
  assumes "snapshot_input inp \<lparr>bg_limits = defaultLimits, bg_rows = 0, bg_properties = 0, bg_bytes = 0\<rparr> = Inr ((None, [row], [], []), b)"
    "buildNodes [row] defaultLimits = Inr [sample_node row r]" "in_FunctionNames inp = None" "rf_kind r = KScalar \<or> rf_kind r = KStructure \<and> rf_targetType r = gostr ''T''"
  shows "\<exists>g cmp. Normalize inp None = Inr g \<and> gp_Nodes g = finalNodes [sample_node row r] cmp"
proof -
  have "\<exists>cmp. graphComponents [sample_node row r] [gostr ''T''] 64 = Inr cmp"
    using assms(4) by (auto simp: graphComponents_def graph_adjacency_def sample_components Let_def component_adjacency_def root_components_def fail_if_def sample_facts)
  moreover have "length (reach_names [sample_node row r] [] [gostr ''T'']) = 1"
    using assms(4) by (auto simp: node_targets_def sample_facts)
  moreover have "validateNodeTargets [sample_node row r] = Inr ()" using assms(4) by (auto simp: validateNodeTargets_def check_targets_Inr sample_facts fail_if_def)
  moreover have "\<exists>k. provisionalParameters [] [] [sample_node row r] defaultLimits = Inr ([], [], k)"
    by (simp add: provisionalParameters_def se_return_def fail_if_def)
  moreover have "graph_roots [sample_node row r] [] [] = Inr [gostr ''T'']" by (simp add: sample_facts graph_roots_def fail_if_def)
  moreover have "refineTableNodeKinds [sample_node row r] [] [] = [sample_node row r]" by (simp add: sample_facts refineTableNodeKinds_def)
  moreover have "MaxDepth defaultLimits = 64" by (simp add: defaultLimits_def)
  ultimately show ?thesis using assms(1-3)
    by (auto simp: Normalize_def md_resolveLimits_def validateFunctionIdentity_def Let_def fail_if_def)
qed

lemma sample_graphs:
  "\<exists>g cmp. Normalize self_input None = Inr g \<and> gp_Nodes g = finalNodes [sample_node self_row self_reference] cmp"
  "\<exists>g cmp. Normalize far_input None = Inr g \<and> gp_Nodes g = finalNodes [sample_node far_row far_reference] cmp"
  using sample_snapshot sample_normalize [OF _ sample_built(1), of self_input] sample_normalize [OF _ sample_built(2), of far_input] by (auto simp: sample_input_def)

section \<open>The properties\<close>

text \<open>
  C18. The cycle flags are exact: in every graph that \<open>Normalize\<close> returns, a reference from one type to another is marked as cyclic exactly when the other type leads back to the
  first. The two searches of the code so compute the strongly connected components of the type graph.
\<close>

theorem normalize_cyclic_exact:
  assumes "Normalize inp opts = Inr g" "(name, node) \<in> set (gp_Nodes g)" "f \<in> set (tn_Fields node)" "Ref_Kind (mf_Reference f) \<noteq> KScalar"
  shows "Ref_Cyclic (mf_Reference f) \<longleftrightarrow> (Ref_TargetType (mf_Reference f), name) \<in> (type_edges g)\<^sup>*"
proof -
  obtain nodes cmp where n: "targets_ok nodes" "graphComponents nodes (gp_RootTypeNames g) (MaxDepth (gp_Limits g)) = Inr cmp" "gp_Nodes g = finalNodes nodes cmp"
    using normalized [OF assms(1)] by metis
  obtain i where i: "i < length nodes" "name = nd_name (nodes ! i)" "node = final_node nodes cmp i (nodes ! i)" using assms(2) by (auto simp: n(3) final_node_members)
  obtain h where h: "h \<in> set (nd_fields (nodes ! i))" "mf_Reference f = final_reference nodes cmp i (pf_reference h)" using assms(3) i(3) by (auto simp: final_node_def)
  have k: "rf_kind (pf_reference h) \<noteq> KScalar" using assms(4) by (simp add: h(2) final_reference_facts)
  show ?thesis using cyclic_reference [OF n(1,2) i(1) h(1) k] k by (simp add: h(2) i(2) type_edges_names [OF n(3)] final_reference_facts)
qed

theorem normalize_cyclic_exact_witness:
  "\<exists>g name node f. Normalize self_input None = Inr g \<and> (name, node) \<in> set (gp_Nodes g) \<and> f \<in> set (tn_Fields node) \<and>
     Ref_Kind (mf_Reference f) \<noteq> KScalar \<and> (Ref_Cyclic (mf_Reference f) \<longleftrightarrow> (Ref_TargetType (mf_Reference f), name) \<in> (type_edges g)\<^sup>*) \<and> Ref_Cyclic (mf_Reference f)"
proof -
  obtain g cmp where g: "Normalize self_input None = Inr g" "gp_Nodes g = finalNodes [sample_node self_row self_reference] cmp" using sample_graphs(1) by blast
  define f where "f = \<lparr>mf_field = make_field 0 self_row self_reference, mf_Reference = final_reference [sample_node self_row self_reference] cmp 0 self_reference\<rparr>"
  define n where "n = final_node [sample_node self_row self_reference] cmp 0 (sample_node self_row self_reference)"
  have m: "(gostr ''T'', n) \<in> set (gp_Nodes g)" "f \<in> set (tn_Fields n)" "Ref_Kind (mf_Reference f) \<noteq> KScalar" "Ref_TargetType (mf_Reference f) = gostr ''T''"
    by (simp_all add: g(2) f_def n_def finalNodes_def final_node_def sample_facts final_reference_facts)
  have "Ref_Cyclic (mf_Reference f)" using normalize_cyclic_exact [OF g(1) m(1-3)] m(4) by simp
  then show ?thesis using normalize_cyclic_exact [OF g(1) m(1-3)] g(1) m(1-3) by blast
qed

text \<open>
  C17. The cycles are exact: in every graph that \<open>Normalize\<close> returns, two types stand in one of its cycles exactly when each refers to the other, directly or through other types.
  With the two types equal, a type is listed exactly when it refers to itself in one or more steps.
\<close>

theorem normalize_cycles_exact:
  assumes "Normalize inp opts = Inr g"
  shows "(\<exists>c \<in> set (gp_Cycles g). a \<in> set (cy_TypeNames c) \<and> b \<in> set (cy_TypeNames c)) \<longleftrightarrow> (a, b) \<in> (type_edges g)\<^sup>+ \<and> (b, a) \<in> (type_edges g)\<^sup>+"
proof -
  obtain nodes cmp where n: "targets_ok nodes" "graphComponents nodes (gp_RootTypeNames g) (MaxDepth (gp_Limits g)) = Inr cmp" "gp_Nodes g = finalNodes nodes cmp"
    "gp_Cycles g = finalCycles nodes cmp"
    using normalized [OF assms] by metis
  note c = components_facts [OF n(2)]
  have len: "length (graph_adjacency nodes) = length nodes" by (simp add: graph_adjacency_def)
  show ?thesis (is "?L = ?R")
  proof
    assume ?L
    then obtain i u v where i: "i < length (cp_nodesByComponent cmp)" "is_cyclic (graph_adjacency nodes) (cp_nodesByComponent cmp ! i)" 
      and u: "u \<in> set (cp_nodesByComponent cmp ! i)" "v \<in> set (cp_nodesByComponent cmp ! i)" "a = nd_name (nodes ! u)" "b = nd_name (nodes ! v)"
      unfolding n(4) final_cycle_members c(3) by blast
    have "u < length nodes" "v < length nodes" using strong_components_ok(1,3) [OF c(1)] i(1) u(1,2) len by (metis domI lessThan_iff)+
    then show ?R using cyclic_pair [OF c(1)] i u name_proper_paths [OF n(1)] unfolding type_edges_names [OF n(3)] len by blast
  next
    assume ?R
    then have r: "(a, b) \<in> (name_edges nodes)\<^sup>+" "(b, a) \<in> (name_edges nodes)\<^sup>+" unfolding type_edges_names [OF n(3)] by blast+
    obtain u v where u: "u < length nodes" "v < length nodes" "a = nd_name (nodes ! u)" "b = nd_name (nodes ! v)"
      using name_edge_nodes [OF n(1)] r by (metis tranclD)
    then have "(u, v) \<in> (edges (graph_adjacency nodes))\<^sup>+" "(v, u) \<in> (edges (graph_adjacency nodes))\<^sup>+" using name_proper_paths [OF n(1)] r by blast+
    then show ?L using cyclic_pair [OF c(1)] u unfolding n(4) final_cycle_members c(3) len by metis
  qed
qed
theorem normalize_cycles_exact_witness:
  "\<exists>g. Normalize self_input None = Inr g \<and> (gostr ''T'', gostr ''T'') \<in> (type_edges g)\<^sup>+ \<and> (\<exists>c \<in> set (gp_Cycles g). gostr ''T'' \<in> set (cy_TypeNames c))"
proof -
  obtain g cmp where g: "Normalize self_input None = Inr g" "gp_Nodes g = finalNodes [sample_node self_row self_reference] cmp" using sample_graphs(1) by blast
  have "(gostr ''T'', gostr ''T'') \<in> type_edges g" by (simp add: type_edges_names [OF g(2)] name_edges_def sample_facts)
  then have "(gostr ''T'', gostr ''T'') \<in> (type_edges g)\<^sup>+" by (rule r_into_trancl)
  then show ?thesis using normalize_cycles_exact [OF g(1), of "gostr ''T''" "gostr ''T''"] g(1) by blast
qed

text \<open>
  C19. Every graph that \<open>Normalize\<close> returns is closed and bounded: the names of its nodes are distinct; every reference of a field leads to a node of its kind and every typed parameter
  to a node; every node is reached from a root; and rows, nodes, edges, properties, bytes and depth are within the limits, which are within the absolute limits.
\<close>

theorem normalize_sound:
  assumes "Normalize inp opts = Inr g"
  shows "distinct (map fst (gp_Nodes g)) \<and>
    (\<forall>p \<in> set (gp_Nodes g). \<forall>f \<in> set (tn_Fields (snd p)). Ref_Kind (mf_Reference f) \<noteq> KScalar \<longrightarrow>
       (\<exists>q \<in> set (gp_Nodes g). fst q = Ref_TargetType (mf_Reference f) \<and> tn_Kind (snd q) = Ref_Kind (mf_Reference f))) \<and>
    (\<forall>p \<in> set (gp_Parameters g). typed_kind (pm_Kind (mp_Reference p)) \<longrightarrow> pm_TargetType (mp_Reference p) \<in> set (map fst (gp_Nodes g))) \<and>
    (\<forall>name \<in> set (map fst (gp_Nodes g)). \<exists>r \<in> set (gp_RootTypeNames g). (r, name) \<in> (type_edges g)\<^sup>*) \<and>
    int (RowCount (gp_Statistics g)) \<le> MaxRows (gp_Limits g) \<and> int (length (gp_Nodes g)) \<le> MaxNodes (gp_Limits g) \<and>
    int (EdgeCount (gp_Statistics g)) \<le> MaxEdges (gp_Limits g) \<and> int (PropertyCount (gp_Statistics g)) \<le> MaxProperties (gp_Limits g) \<and>
    int (ByteCount (gp_Statistics g)) \<le> MaxBytes (gp_Limits g) \<and> int (MaximumDepth (gp_Statistics g)) \<le> MaxDepth (gp_Limits g) \<and>
    MaxRows (gp_Limits g) \<le> 100000 \<and> MaxNodes (gp_Limits g) \<le> 20000 \<and> MaxEdges (gp_Limits g) \<le> 100000 \<and> MaxDepth (gp_Limits g) \<le> 256 \<and>
    MaxProperties (gp_Limits g) \<le> 2000000 \<and> MaxBytes (gp_Limits g) \<le> 33554432"
proof -
  obtain nodes cmp params b where n: "targets_ok nodes" "graphComponents nodes (gp_RootTypeNames g) (MaxDepth (gp_Limits g)) = Inr cmp"
    "gp_Nodes g = finalNodes nodes cmp" "gp_Parameters g = finalParameters params nodes cmp"
    "set (gp_RootTypeNames g) \<subseteq> set (map nd_name nodes)" "length (reach_names nodes [] (rev (gp_RootTypeNames g))) = length nodes"
    "\<forall>p \<in> set params. typed_kind (pp_kind (pv_reference p)) \<longrightarrow> node_by_name nodes (pp_targetType (pv_reference p)) \<noteq> None"
    "within (gp_Limits g) b" "int (length nodes) \<le> MaxNodes (gp_Limits g)" "int (EdgeCount (gp_Statistics g)) \<le> MaxEdges (gp_Limits g)"
    "gp_Statistics g = \<lparr>RowCount = bg_rows b, NodeCount = length nodes, EdgeCount = EdgeCount (gp_Statistics g), PropertyCount = bg_properties b, ByteCount = bg_bytes b,
       MaximumDepth = cp_maximumDepth cmp\<rparr>" "\<exists>l. md_resolveLimits l = Inr (gp_Limits g)"
    using normalized [OF assms] by metis
  note closed = final_closed [OF n(1,3)]
  have "pm_TargetType (mp_Reference p) \<in> set (map fst (gp_Nodes g))" if "p \<in> set (gp_Parameters g)" "typed_kind (pm_Kind (mp_Reference p))" for p
    using final_parameters_closed [OF n(7)] that unfolding n(4) closed(1) set_rev by blast
  moreover have "\<exists>r \<in> set (gp_RootTypeNames g). (r, name) \<in> (type_edges g)\<^sup>*" if "name \<in> set (map fst (gp_Nodes g))" for name
    using all_reached [OF n(1,5,6)] that unfolding closed(1) set_rev type_edges_names [OF n(3)] by blast
  moreover have "length (gp_Nodes g) = length nodes" by (simp add: n(3) finalNodes_def)
  moreover have "distinct (map fst (gp_Nodes g))" using n(1) closed(1) by (simp add: targets_ok_def)
  moreover obtain l where "md_resolveLimits l = Inr (gp_Limits g)" using n(12) by blast
  note limits_ok [OF this]
  moreover have "RowCount (gp_Statistics g) = bg_rows b" "PropertyCount (gp_Statistics g) = bg_properties b" "ByteCount (gp_Statistics g) = bg_bytes b"
    "MaximumDepth (gp_Statistics g) = cp_maximumDepth cmp" using n(11) by (metis md_statistics.select_convs)+
  ultimately show ?thesis using n(8-10) components_facts(2) [OF n(2)] closed(2) by (auto simp: within_def)
qed

theorem normalize_sound_witness:
  "\<exists>g. Normalize self_input None = Inr g \<and> distinct (map fst (gp_Nodes g)) \<and> int (MaximumDepth (gp_Statistics g)) \<le> MaxDepth (gp_Limits g)"
proof -
  obtain g where g: "Normalize self_input None = Inr g" using sample_graphs(1) by blast
  then show ?thesis using normalize_sound [OF g] by blast
qed

text \<open>
  C40. The geometry check of a type is exact up to an overflow. Rows of one type that pass every other check are accepted, and become one node with their names, offsets
  and lengths, exactly when both layouts lie one after the other inside their total length, where a field whose offset plus length reaches
  \<open>2 ^ 63\<close> escapes: the sum is computed in 64 bits and wraps around to a negative end, so such a field is accepted wherever it lies, and the field after it may start anywhere.
  All other rows are refused with \<open>INVALID_GEOMETRY\<close>.
\<close>

theorem geometry_check_exact:
  assumes "one_structure rows" "0 \<le> tr_nucTotalLength (hd rows)" "0 \<le> tr_ucTotalLength (hd rows)"
    and "1 \<le> MaxNodes limits" "int (length rows) \<le> MaxEdges limits"
  shows "if in_order (tr_nucTotalLength (hd rows)) 0 (map (\<lambda>r. (tr_nucOffset r, tr_nucLength r)) rows) \<and>
      in_order (tr_ucTotalLength (hd rows)) 0 (map (\<lambda>r. (tr_ucOffset r, tr_ucLength r)) rows)
    then \<exists>node. buildNodes rows limits = Inr [node] \<and> nd_ucLength node = tr_ucTotalLength (hd rows) \<and>
      map (\<lambda>f. (pf_name f, pf_ucOffset f, pf_ucLength f)) (nd_fields node) = map (\<lambda>r. (tr_fieldName r, tr_ucOffset r, tr_ucLength r)) rows
    else buildNodes rows limits = Inl InvalidGeometry"
proof -
  obtain r rs where rows: "rows = r # rs" using assms(1) by (cases rows) (auto simp: one_structure_def)
  then have h: "hd rows = r" by simp
  have g: "group_rows [] None rows = Inr [(tr_typeName r, rows)]"
    using assms(1) group_one [of "tr_typeName r" rs "[]" "[r]"] by (simp add: one_structure_def rows list_all_iff)
  have blank: "filter (\<lambda>r. tr_fieldName r = []) rows = []"
    using assms(1) by (auto simp: one_structure_def list_all_iff filter_empty_conv)
  let ?b = "node_fields r (tr_nucTotalLength r) (tr_ucTotalLength r) 0 [] 0 0 rows"
  have b: "if in_order (tr_nucTotalLength r) 0 (map (\<lambda>r. (tr_nucOffset r, tr_nucLength r)) rows) \<and>
      in_order (tr_ucTotalLength r) 0 (map (\<lambda>r. (tr_ucOffset r, tr_ucLength r)) rows)
    then \<exists>flds. ?b = Inr flds \<and>
      map (\<lambda>f. (pf_name f, pf_ucOffset f, pf_ucLength f)) flds = map (\<lambda>r. (tr_fieldName r, tr_ucOffset r, tr_ucLength r)) rows
    else ?b = Inl InvalidGeometry"
    using node_fields_geometry [of r rows "[]" "tr_nucTotalLength r" "tr_ucTotalLength r" 0 0 0] assms(1-3)
    by (simp add: one_structure_def rows list_all_iff del: in_order.simps node_fields.simps)
  have n: "build_node (tr_typeName r) r rows =
     bindE ?b (\<lambda>flds. Inr \<lparr>nd_name = tr_typeName r, nd_kind = KStructure, nd_nucLength = tr_nucTotalLength r,
       nd_ucLength = tr_ucTotalLength r, nd_timestamp = tr_timestamp r, nd_fields = flds\<rparr>)"
    by (simp add: build_node_def blank fail_if_def Let_def del: node_fields.simps)
  have edges: "\<not> MaxEdges limits < int (edge_count flds)" if "map k flds = map k' rows" for flds k k'
    using edge_count_le [of flds] map_eq_imp_length_eq [OF that] assms(5) by simp
  have "buildNodes rows limits = bindE (build_node (tr_typeName r) r rows) (\<lambda>node.
      bindE (fail_if (int (edge_count (nd_fields node)) > MaxEdges limits) EdgeLimit) (\<lambda>_. Inr [node]))"
    using assms(4) by (simp add: buildNodes_def g h fail_if_def Let_def)
  then show ?thesis
    unfolding h using b by (auto simp: n fail_if_def edges split: if_splits)
qed

theorem geometry_check_exact_witness:
  "(\<exists>node. buildNodes [far_row] defaultLimits = Inr [node] \<and> nd_ucLength node = 8 \<and>
      map (\<lambda>f. (pf_name f, pf_ucOffset f, pf_ucLength f)) (nd_fields node) = [(gostr ''NEXT'', 2 ^ 63 - 1, 1)]) \<and>
   buildNodes [sample_type_row 5 4 8 ''C'' ''''] defaultLimits = Inl InvalidGeometry \<and>
   safeEnd (2 ^ 63 - 1) 1 = - (2 ^ 63) \<and> (\<exists>g. Normalize far_input None = Inr g)"
proof (intro conjI)
  have rows: "one_structure [far_row]" "one_structure [sample_type_row 5 4 8 ''C'' '''']"
    by (simp_all add: one_structure_def sample_type_row_def gostr_def)
  have limits: "1 \<le> MaxNodes defaultLimits" "1 \<le> MaxEdges defaultLimits" by (simp_all add: defaultLimits_def)
  show "\<exists>node. buildNodes [far_row] defaultLimits = Inr [node] \<and> nd_ucLength node = 8 \<and>
      map (\<lambda>f. (pf_name f, pf_ucOffset f, pf_ucLength f)) (nd_fields node) = [(gostr ''NEXT'', 2 ^ 63 - 1, 1)]"
    using geometry_check_exact [OF rows(1) _ _ limits(1)] limits(2) by (simp add: sample_type_row_def)
  show "buildNodes [sample_type_row 5 4 8 ''C'' ''''] defaultLimits = Inl InvalidGeometry"
    using geometry_check_exact [OF rows(2) _ _ limits(1)] limits(2) by (simp add: sample_type_row_def)
  show "safeEnd (2 ^ 63 - 1) 1 = - (2 ^ 63)" using safeEnd_cases [of "2 ^ 63 - 1" 1] by simp
  show "\<exists>g. Normalize far_input None = Inr g" using sample_graphs(2) by blast
qed

end
