(* ===== verification/Spec2Isabelle.thy ===== *)
theory Spec2Isabelle
  imports Wire Ni Appc_Header Appc_Records Appc_Fragment Appc_Conversation Rfcpro Cpic_Chain Pool
    Fastser_Lz4 Fastser_Records Gateway Transport Session_Call Saprouter Structure_Codec Classic_Result
    Lifecycle Bxml Metadata_Definition Metadata_Normalize
begin

text \<open>
  A verification library for open-rfc-go, a client for the classic remote function call protocol.

  \<^bold>\<open>The program.\<close> A client session (\<open>internal/client/session.go\<close>) drives a transport (\<open>internal/transport\<close>) that cuts a TCP stream into
  NI frames (\<open>ni/frame.go\<close>). Over it the session exchanges a gateway record (\<open>internal/gateway\<close>) and APPC records
  (\<open>internal/appc\<close>: header, control and data records, the set-up state machine, the planner of outgoing messages, the
  reassembler of incoming ones). The APPC messages carry CPIC packets (\<open>internal/cpic\<close>): a prefix, a chain of tagged fields
  (headers in \<open>internal/rfcpro\<close>) and a trailer; the fields are a logon, whose password is scrambled (\<open>internal/scramble\<close>), a
  function call, or a response, which \<open>internal/rfcerr\<close> classifies. Sessions are serialized (\<open>internal/lifecycle\<close>) and shared through a pool (\<open>internal/pool\<close>). The
  package \<open>internal/fastser\<close> reads the fast serialization, with LZ4 blocks. The fields of a classic response are grouped into parameters
  (\<open>internal/classicrfc\<close>), whose bytes are scalar values (\<open>internal/value\<close>) or structures of such (\<open>internal/structure\<close>); the layouts come from dictionary
  replies of the server (\<open>internal/metadata\<close>). ADT messages are binary XML (\<open>internal/bxml\<close>). A connection may first be
  routed through SAProuters (\<open>internal/saprouter\<close>). All codecs use the bounds-checked reader and writer
  of \<open>wire/wire.go\<close>.

  \<^bold>\<open>The theories.\<close>
  \<^item> \<open>Rfc_Prelude\<close>: bytes and words, the result type, operations that thread a state through errors, byte order, slices,
    and the collections of rewrite rules. \<open>Go_Text\<close>: strings, code points and UTF-16 as the standard library has them.
  \<^item> \<open>Wire\<close>: \<open>wire/wire.go\<close>. A record of any sequence of fields is read back as written.
  \<^item> \<open>Ni\<close>: \<open>ni/frame.go\<close>. The frame decoder with its chunk queue refines deframing of one byte list; accounting errors
    and panics are unreachable, and streams of frames round-trip under every chunking.
  \<^item> \<open>Appc_Header\<close>, \<open>Appc_Records\<close>, \<open>Appc_Fragment\<close>, \<open>Appc_Conversation\<close>: the four files of \<open>internal/appc\<close>. Round
    trips of records and parameters; the planner succeeds exactly within its limits and its steps carry the message;
    reassembly inverts fragmentation within bounded buffers; the set-up machine keeps its protocol.
  \<^item> \<open>Rfcpro\<close>, \<open>Cpic_Chain\<close>, \<open>Cpic_Framing\<close>: field headers, the field chain, the packet trailer. Round trips, detection of
    a dropped field, and the agreement of the trailer with its inspection.
  \<^item> \<open>Scramble\<close>: the password field determines the password.
  \<^item> \<open>Cpic_Request\<close>, \<open>Cpic_Response\<close>, \<open>Rfc_Error\<close>: \<open>function.go\<close> and \<open>rfcerr.go\<close>. A request carries the call, read back field by field; a
    response is classified by the fields it has; the response after a reset decodes as the regular response inside it.
  \<^item> \<open>Cpic_Logon\<close>, \<open>Cpic_Logon_Response\<close>: \<open>logon.go\<close>, \<open>ticket.go\<close>, \<open>grammar.go\<close>. A logon request carries one credential; the
    matcher of the composite response decides its grammar; a reported success rests on zero statuses.
  \<^item> \<open>Gateway\<close>, \<open>Transport\<close>: the gateway record round-trips; what one end sends the other receives.
  \<^item> \<open>Session\<close> (definitions), \<open>Session_Handshake\<close>, \<open>Session_Exchange\<close>, \<open>Session_Call\<close>: \<open>session.go\<close>. The Go
    interface of the transport is the record \<open>link\<close>; its contract is the locale \<open>record_link\<close>, interpreted on the package's
    transport. The handshake completes and cannot panic, an exchange returns the reply, a receive ends, a call returns what the
    partner sent, callbacks are served in order, and no call precedes an accepted logon.
  \<^item> \<open>Saprouter\<close>: \<open>internal/saprouter\<close>. Admission accepts exactly the canonical route strings, the text of a password is in no
    exported field (their total length is), and the handshake succeeds exactly on an acknowledgement. \<open>Go_Decimal\<close>: decimal texts and patterns.
  \<^item> \<open>Calendar\<close>, \<open>Calendar_Week\<close>, \<open>Temporal\<close>: \<open>internal/value/classic_temporal.go\<close>. Dates and weeks correspond one to one
    to their numbers, and the nine temporal types have exact codecs.
  \<^item> \<open>Packed\<close>, \<open>Declet\<close>, \<open>Decimal_Float\<close>, \<open>Decimal_Text\<close>, \<open>Unicode_Scalar\<close>: the other files of \<open>internal/value\<close>. Packed and floating-point
    decimals keep the number written, never rounding; a packed exponent that wraps around panics; character references denote scalar values.
  \<^item> \<open>Abap_Char\<close>, \<open>Classic_Rfc\<close>, \<open>Classic_Result\<close>: \<open>internal/classicrfc\<close>. The parameters of a result are read from its fields in
    any order and form; the preflight bounds classic tables, and the S/4HANA tables escape it; interface rows are read by their stable prefix.
  \<^item> \<open>Structure\<close>, \<open>Structure_Field\<close>, \<open>Structure_Codec\<close>: \<open>internal/structure\<close>, \<open>internal/rfctypes\<close>. Structures of fixed layout round-trip for all
    types at once, decoded values have the types of their fields, and 32-bit offsets that wrap around make accepted definitions panic.
  \<^item> \<open>Metadata_Definition\<close>: \<open>structure_definition.go\<close>, \<open>function_interface.go\<close>. The replies of the two bootstrap calls round-trip; an accepted
    definition within the length limit passes the structure codec; a definition whose 32-bit end wraps around is accepted from a server and panics later.
  \<^item> \<open>Metadata_Rows\<close>, \<open>Metadata_Nodes\<close>, \<open>Component_Search\<close>, \<open>Metadata_Graph\<close>, \<open>Metadata_Normalize\<close>: \<open>recursive.go\<close>. The two depth-first searches compute the
    strongly connected components of the type graph, so cycles and cycle flags are exact; the graph is closed, reached from its roots and within its limits;
    the geometry check of a type is exact, except for an end that wraps around in 64 bits.
  \<^item> \<open>Bxml\<close>: \<open>internal/bxml\<close>. What the writer accepts the reader returns; a length from 2 MiB on is written wrongly.
  \<^item> \<open>Lifecycle\<close>: \<open>internal/lifecycle\<close>. A shared session runs the operations up to the first close, one at a time, and nothing after it.
  \<^item> \<open>Pool\<close>: \<open>internal/pool\<close> as a step relation of its critical sections, for any number of clients. Accounting, exclusive use
    and wake-ups hold in every reachable state; a \<open>Close\<close> that gives up leaves idle resources behind.
  \<^item> \<open>Fastser_Lz4\<close>, \<open>Fastser_Records\<close>: block decompression, the record, item and parameter streams.

  \<^bold>\<open>Modelling.\<close> Errors are values of a datatype per package, without their message texts; a panic is an error value too. Objects
  that keep changes made before an error return their state beside the result. Integers are words where the code fixes
  their width and wrap-around matters; Go's \<open>int\<close> is a natural number or an integer where its range is bounded by the length of
  a slice. Clock, network events, random bytes, host and user name and callback handlers are inputs. Loops are recursive functions with
  a termination proof: the receive loop decreases the state of the set-up machine and then the number of
  fragments the reassembler still takes, so it asks for at most 65539 records. Only the callback loop, which the partner can keep
  alive, is a partial function; its property states that it ends when the partner answers. No model uses fuel.

  \<^bold>\<open>Not modelled.\<close> Dialing, deadlines and closing of sockets, TLS-less proxies and debug output are I/O. The codec of the large metadata call
  (\<open>metadata_get.go\<close>, \<open>ddif.go\<close>, \<open>parameter_index.go\<close> of \<open>internal/metadata\<close>) and the xRFC values (\<open>internal/xrfc\<close>), a second serialization in XML text for deep
  parameters, are left out. The experimental server
  (\<open>internal/rfcserver\<close>), the public API (\<open>rfc\<close>), which converts Go values by reflection, the sniffer, the bridge and
  the commands are glue, captured templates and I/O.
\<close>

end
